(* ===== verification/Kernel_Prelude.thy ===== *)
theory Kernel_Prelude
  imports Main "HOL-Library.Word" "HOL-Library.Monad_Syntax"
begin

unbundle bit_operations_syntax

text \<open>
  Shared vocabulary of the development: the option monad read as a C computation that may go
  wrong, the predicate \<open>ok\<close> (total correctness of such a computation) with its rules, and the
  facts on words that the components share.

  A C function that works on the kernel's global variables is a HOL function from the state to
  \<open>('a \<times> 'state) option\<close>.  \<open>None\<close> is a computation that has no defined result: a null or dangling
  pointer is followed, an array is indexed out of its range, or a loop does not end.  Every
  theorem that a call is \<open>ok\<close> is therefore also a theorem that none of these happens.
\<close>

section \<open>Collections\<close>

named_theorems ok_simps \<open>rewrites that push ok through the constructs of a call\<close>
named_theorems kernel_defs \<open>definitions of small accessors, unfolded together\<close>
named_theorems frame \<open>what an operation leaves unchanged\<close>

section \<open>Total correctness of an option computation\<close>

definition ok :: "'a option \<Rightarrow> ('a \<Rightarrow> bool) \<Rightarrow> bool" where
  "ok m P \<longleftrightarrow> (case m of None \<Rightarrow> False | Some x \<Rightarrow> P x)"

lemma ok_None [simp]: "ok None P \<longleftrightarrow> False"
  by (simp add: ok_def)

lemma ok_Some [simp]: "ok (Some x) P \<longleftrightarrow> P x"
  by (simp add: ok_def)

lemma ok_bind [ok_simps]: "ok (Option.bind m f) P \<longleftrightarrow> ok m (\<lambda>x. ok (f x) P)"
  by (cases m) (auto simp: ok_def)

lemma ok_if [ok_simps]: "ok (if b then m else n) P \<longleftrightarrow> (if b then ok m P else ok n P)"
  by simp

lemma ok_case_prod [ok_simps]:
  "ok (case x of (a, b) \<Rightarrow> f a b) P \<longleftrightarrow> (case x of (a, b) \<Rightarrow> ok (f a b) P)"
  by (cases x) simp

lemma ok_iff: "ok m P \<longleftrightarrow> (\<exists>x. m = Some x \<and> P x)"
  by (cases m) auto

lemma ok_mono: "ok m P \<Longrightarrow> (\<And>x. P x \<Longrightarrow> Q x) \<Longrightarrow> ok m Q"
  by (auto simp: ok_iff)

lemma ok_bindI: "ok m Q \<Longrightarrow> (\<And>x. Q x \<Longrightarrow> ok (f x) P) \<Longrightarrow> ok (Option.bind m f) P"
  by (auto simp: ok_iff)

text \<open>The same two rules for a computation that returns a pair.\<close>

lemma ok_mono2:
  "ok m (\<lambda>(a, b). P a b) \<Longrightarrow> (\<And>a b. P a b \<Longrightarrow> Q a b) \<Longrightarrow> ok m (\<lambda>(a, b). Q a b)"
  by (auto simp: ok_iff)

lemma ok_bindI2:
  "ok m (\<lambda>(a, b). Q a b) \<Longrightarrow> (\<And>a b. Q a b \<Longrightarrow> ok (f a b) P)
    \<Longrightarrow> ok (Option.bind m (\<lambda>(a, b). f a b)) P"
  by (auto simp: ok_iff)

lemma ok_conj: "ok m P \<Longrightarrow> ok m Q \<Longrightarrow> ok m (\<lambda>x. P x \<and> Q x)"
  by (auto simp: ok_iff)

lemma ok_the: "ok m P \<Longrightarrow> P (the m)"
  by (auto simp: ok_iff)

lemma ok_SomeD: "ok m P \<Longrightarrow> m = Some x \<Longrightarrow> P x"
  by simp

section \<open>Words\<close>

lemma word_less_64_unat: "(w :: 8 word) < 64 \<longleftrightarrow> unat w < 64"
  by (simp add: word_less_nat_alt)

lemma unat_lt_256: "unat (w :: 8 word) < 256"
  using unsigned_less [of w] by simp

lemma unat_lt_65536: "unat (w :: 16 word) < 65536"
  using unsigned_less [of w] by simp

lemma unat_lt_32: "unat (w :: 32 word) < 4294967296"
  using unsigned_less [of w] by simp

lemma word8_le_1: "(w :: 8 word) \<le> 1 \<longleftrightarrow> w = 0 \<or> w = 1"
proof
  assume "w \<le> 1"
  then have "unat w = 0 \<or> unat w = 1" by (auto simp: word_le_nat_alt)
  then show "w = 0 \<or> w = 1" by (auto simp: word_unat_eq_iff)
qed auto

lemma bit_word8_iff: "bit (w :: 8 word) n \<Longrightarrow> n < 8"
  using bit_imp_le_length [of w n] by simp

lemma word8_eq_0_iff: "(w :: 8 word) = 0 \<longleftrightarrow> (\<forall>n<8. \<not> bit w n)"
  by (auto intro!: bit_word_eqI)

lemma bit_push1: "bit (push_bit m (1 :: 8 word)) n \<longleftrightarrow> n = m \<and> n < 8"
  by (auto simp: bit_simps)

text \<open>A nesting counter below its maximum does not wrap.\<close>

lemma lock_inc: "(n :: 8 word) < 255 \<Longrightarrow> n + 1 \<noteq> 0"
proof
  assume "n < 255" "n + 1 = 0"
  then have "n = 255" by (simp add: eq_neg_iff_add_eq_0 [symmetric])
  then show False using \<open>n < 255\<close> by simp
qed

end
