(* ===== verification/Os_Bitmap.thy ===== *)
theory Os_Bitmap
  imports Kernel_Prelude
begin

text \<open>
  The priority bitmaps of the kernel: the ready list (\<open>OSRdyGrp\<close>, \<open>OSRdyTbl\<close>) and the wait list of
  every event control block (\<open>OSEventGrp\<close>, \<open>OSEventTbl\<close>) are the same structure, a table of eight
  bytes with one bit per priority 0..63 and a group byte with one bit per row of the table.
  \<open>OSUnMapTbl\<close> finds the lowest bit of a byte, so two look-ups find the highest priority (the
  smallest number) of a list.  This theory translates the table and the four inline sequences the
  kernel repeats (set a bit, clear a bit, test a bit, find the highest priority), shows what they do
  to the set of priorities, and states that as the interface \<open>prio_set\<close> which the scheduler
  and the wait lists rely on.
\<close>

section \<open>The priority resolution table\<close>

definition OSUnMapTbl :: "8 word list" where
  "OSUnMapTbl = [
 0, 0, 1, 0, 2, 0, 1, 0, 3, 0, 1, 0, 2, 0, 1, 0,
      4, 0, 1, 0, 2, 0, 1, 0, 3, 0, 1, 0, 2, 0, 1, 0,
      5, 0, 1, 0, 2, 0, 1, 0, 3, 0, 1, 0, 2, 0, 1, 0,
      4, 0, 1, 0, 2, 0, 1, 0, 3, 0, 1, 0, 2, 0, 1, 0,
      6, 0, 1, 0, 2, 0, 1, 0, 3, 0, 1, 0, 2, 0, 1, 0,
      4, 0, 1, 0, 2, 0, 1, 0, 3, 0, 1, 0, 2, 0, 1, 0,
      5, 0, 1, 0, 2, 0, 1, 0, 3, 0, 1, 0, 2, 0, 1, 0,
      4, 0, 1, 0, 2, 0, 1, 0, 3, 0, 1, 0, 2, 0, 1, 0,
      7, 0, 1, 0, 2, 0, 1, 0, 3, 0, 1, 0, 2, 0, 1, 0,
      4, 0, 1, 0, 2, 0, 1, 0, 3, 0, 1, 0, 2, 0, 1, 0,
      5, 0, 1, 0, 2, 0, 1, 0, 3, 0, 1, 0, 2, 0, 1, 0,
      4, 0, 1, 0, 2, 0, 1, 0, 3, 0, 1, 0, 2, 0, 1, 0,
      6, 0, 1, 0, 2, 0, 1, 0, 3, 0, 1, 0, 2, 0, 1, 0,
      4, 0, 1, 0, 2, 0, 1, 0, 3, 0, 1, 0, 2, 0, 1, 0,
      5, 0, 1, 0, 2, 0, 1, 0, 3, 0, 1, 0, 2, 0, 1, 0,
      4, 0, 1, 0, 2, 0, 1, 0, 3, 0, 1, 0, 2, 0, 1, 0]"

text \<open>The index of every look-up is a byte, so it is inside the table.\<close>

definition unmap :: "8 word \<Rightarrow> 8 word" where
  "unmap g = OSUnMapTbl ! unat g"

lemma length_OSUnMapTbl: "length OSUnMapTbl = 256"
  by (simp add: OSUnMapTbl_def)

definition lowest_bit_at :: "8 word \<Rightarrow> nat \<Rightarrow> bool" where
  "lowest_bit_at g n \<longleftrightarrow> bit g n \<and> (\<forall>m<n. \<not> bit g m)"

lemma unmap_table:
  "\<forall>i\<in>{1..<256}. lowest_bit_at (word_of_nat i) (unat (OSUnMapTbl ! i))"
  by code_simp

lemma unmap_lowest: "g \<noteq> 0 \<Longrightarrow> lowest_bit_at g (unat (unmap g))"
proof -
  assume "g \<noteq> 0"
  then have "unat g \<in> {1..<256}"
    using unat_lt_256 [of g] by (simp add: unat_gt_0 Suc_le_eq)
  then have "lowest_bit_at (word_of_nat (unat g)) (unat (OSUnMapTbl ! unat g))"
    using unmap_table by blast
  then show ?thesis by (simp add: unmap_def)
qed

lemma unmap_bit: "g \<noteq> 0 \<Longrightarrow> bit g (unat (unmap g))"
  and unmap_least: "g \<noteq> 0 \<Longrightarrow> bit g n \<Longrightarrow> unat (unmap g) \<le> n"
  using unmap_lowest [of g] by (auto simp: lowest_bit_at_def not_less [symmetric])

lemma unmap_less_8: "g \<noteq> 0 \<Longrightarrow> unat (unmap g) < 8"
  using unmap_bit bit_word8_iff by blast

section \<open>Where a priority sits in a bitmap\<close>

text \<open>
  \<open>OS_TCBInit\<close>, \<open>OSMutexPend\<close> and \<open>OSMutex_RdyAtPrio\<close> compute the row, the column and the two masks of
  a priority (\<open>OS_LOWEST_PRIO\<close> is 63, so the bitmaps have 8 rows of 8 bits).
\<close>

definition prio_y :: "8 word \<Rightarrow> 8 word" where
  "prio_y prio = drop_bit 3 prio"

definition prio_x :: "8 word \<Rightarrow> 8 word" where
  "prio_x prio = prio AND 0x07"

definition bit_mask :: "8 word \<Rightarrow> 8 word" where
  "bit_mask i = push_bit (unat i) 1"

lemma unat_prio_y: "unat (prio_y prio) = unat prio div 8"
  by (simp add: prio_y_def drop_bit_eq_div unat_div)

lemma unat_prio_x: "unat (prio_x prio) = unat prio mod 8"
proof -
  have "prio AND 7 = take_bit 3 prio"
    by (simp add: take_bit_eq_mask mask_numeral)
  then have "unat (prio_x prio) = unat (take_bit 3 prio)"
    by (simp only: prio_x_def)
  then show ?thesis
    by (simp only: unsigned_take_bit_eq) (simp add: take_bit_eq_mod)
qed

lemma prio_y_less: "unat prio < 64 \<Longrightarrow> unat (prio_y prio) < 8"
  by (simp add: unat_prio_y)

lemma prio_x_less: "unat (prio_x prio) < 8"
  by (simp add: unat_prio_x)

lemma bit_bit_mask: "bit (bit_mask i) n \<longleftrightarrow> n = unat i \<and> n < 8"
  unfolding bit_mask_def by (rule bit_push1)

section \<open>The bitmap operations\<close>

type_synonym bitmap = "8 word \<times> (nat \<Rightarrow> 8 word)"

definition bm_set :: "8 word \<Rightarrow> 8 word \<Rightarrow> 8 word \<Rightarrow> bitmap \<Rightarrow> bitmap" where
  "bm_set y bity bitx b =
     (fst b OR bity, (snd b)(unat y := snd b (unat y) OR bitx))"

definition bm_clr :: "8 word \<Rightarrow> 8 word \<Rightarrow> 8 word \<Rightarrow> bitmap \<Rightarrow> bitmap" where
  "bm_clr y bity bitx b =
     (let tbl = (snd b)(unat y := snd b (unat y) AND NOT bitx)
      in (if tbl (unat y) = 0 then fst b AND NOT bity else fst b, tbl))"

definition bm_test :: "8 word \<Rightarrow> 8 word \<Rightarrow> bitmap \<Rightarrow> bool" where
  "bm_test y bitx b \<longleftrightarrow> snd b (unat y) AND bitx \<noteq> 0"

definition bm_highest :: "bitmap \<Rightarrow> 8 word" where
  "bm_highest b =
     (let y = unmap (fst b) in push_bit 3 y + unmap (snd b (unat y)))"

text \<open>The empty bitmap, as \<open>OS_EventWaitListInit\<close> and \<open>OS_InitRdyList\<close> leave it.\<close>

definition bm_empty :: "(nat \<Rightarrow> 8 word) \<Rightarrow> bitmap" where
  "bm_empty tbl = (0, \<lambda>i. if i < 8 then 0 else tbl i)"

section \<open>The set of priorities of a bitmap\<close>

definition bm_members :: "bitmap \<Rightarrow> nat set" where
  "bm_members b = {p. p < 64 \<and> bit (snd b (p div 8)) (p mod 8)}"

text \<open>The representation invariant: the group byte marks exactly the rows that are not empty.\<close>

definition bm_ok :: "bitmap \<Rightarrow> bool" where
  "bm_ok b \<longleftrightarrow> (\<forall>y<8. bit (fst b) y \<longleftrightarrow> snd b y \<noteq> 0)"

lemma finite_bm_members [simp]: "finite (bm_members b)"
  by (simp add: bm_members_def)

lemma bm_members_less: "p \<in> bm_members b \<Longrightarrow> p < 64"
  by (simp add: bm_members_def)

lemma bm_empty_iff: "bm_ok b \<Longrightarrow> fst b = 0 \<longleftrightarrow> bm_members b = {}"
proof
  assume ok: "bm_ok b" and z: "fst b = 0"
  show "bm_members b = {}"
  proof (rule equals0I)
    fix p assume "p \<in> bm_members b"
    then have "p div 8 < 8" "snd b (p div 8) \<noteq> 0"
      by (auto simp: bm_members_def)
    with ok z show False by (simp add: bm_ok_def)
  qed
next
  assume ok: "bm_ok b" and e: "bm_members b = {}"
  have "\<not> bit (fst b) y" if "y < 8" for y
  proof
    assume "bit (fst b) y"
    with ok that have "snd b y \<noteq> 0" by (simp add: bm_ok_def)
    then obtain n where n: "n < 8" "bit (snd b y) n"
      by (auto simp: word8_eq_0_iff)
    with that have "8 * y + n \<in> bm_members b"
      by (simp add: bm_members_def)
    with e show False by simp
  qed
  then show "fst b = 0" by (simp add: word8_eq_0_iff)
qed


lemma bm_members_set:
  assumes "unat p < 64"
  shows "bm_members (bm_set (prio_y p) (bit_mask (prio_y p)) (bit_mask (prio_x p)) b)
    = insert (unat p) (bm_members b)"
proof (rule set_eqI)
  fix q
  let ?b = "bm_set (prio_y p) (bit_mask (prio_y p)) (bit_mask (prio_x p)) b"
  have eq: "q = unat p \<longleftrightarrow> q div 8 = unat p div 8 \<and> q mod 8 = unat p mod 8"
    by (metis div_mult_mod_eq)
  show "q \<in> bm_members ?b \<longleftrightarrow> q \<in> insert (unat p) (bm_members b)"
    using assms eq
    by (cases "q div 8 = unat p div 8")
      (auto simp: bm_members_def bm_set_def bit_or_iff bit_bit_mask unat_prio_y unat_prio_x)
qed

lemma bm_members_clr:
  assumes "unat p < 64"
  shows "bm_members (bm_clr (prio_y p) (bit_mask (prio_y p)) (bit_mask (prio_x p)) b)
    = bm_members b - {unat p}"
proof (rule set_eqI)
  fix q
  let ?b = "bm_clr (prio_y p) (bit_mask (prio_y p)) (bit_mask (prio_x p)) b"
  have eq: "q = unat p \<longleftrightarrow> q div 8 = unat p div 8 \<and> q mod 8 = unat p mod 8"
    by (metis div_mult_mod_eq)
  show "q \<in> bm_members ?b \<longleftrightarrow> q \<in> bm_members b - {unat p}"
    using assms eq
    by (cases "q div 8 = unat p div 8")
      (auto simp: bm_members_def bm_clr_def Let_def bit_and_iff bit_not_iff bit_bit_mask
        unat_prio_y unat_prio_x)
qed

lemma bm_ok_set:
  assumes "unat p < 64" "bm_ok b"
  shows "bm_ok (bm_set (prio_y p) (bit_mask (prio_y p)) (bit_mask (prio_x p)) b)"
proof -
  have "bit (snd b (unat p div 8) OR bit_mask (prio_x p)) (unat p mod 8)"
    by (simp add: bit_or_iff bit_bit_mask unat_prio_x)
  then have "snd b (unat p div 8) OR bit_mask (prio_x p) \<noteq> 0"
    by (metis bit_0_eq bot_apply bot_bool_def)
  with assms show ?thesis
    by (auto simp: bm_ok_def bm_set_def bit_or_iff bit_bit_mask unat_prio_y)
qed

lemma bm_ok_clr:
  assumes "unat p < 64" "bm_ok b"
  shows "bm_ok (bm_clr (prio_y p) (bit_mask (prio_y p)) (bit_mask (prio_x p)) b)"
proof -
  have "bit (fst b) (unat p div 8)"
    if "snd b (unat p div 8) AND NOT (bit_mask (prio_x p)) \<noteq> 0"
    using that assms by (auto simp: bm_ok_def)
  with assms show ?thesis
    by (auto simp: bm_ok_def bm_clr_def Let_def bit_and_iff bit_not_iff bit_bit_mask unat_prio_y)
qed

lemma bm_test_iff:
  assumes "unat p < 64"
  shows "bm_test (prio_y p) (bit_mask (prio_x p)) b \<longleftrightarrow> unat p \<in> bm_members b"
  using assms
  by (auto simp: bm_test_def bm_members_def word8_eq_0_iff bit_and_iff bit_bit_mask
      unat_prio_y unat_prio_x)

lemma bm_members_empty: "bm_members (bm_empty tbl) = {}"
  by (auto simp: bm_members_def bm_empty_def)

lemma bm_ok_empty: "bm_ok (bm_empty tbl)"
  by (simp add: bm_ok_def bm_empty_def)

text \<open>The two look-ups find the smallest priority of a non-empty bitmap.\<close>

lemma unat_row_col:
  assumes "unat y < 8" "unat x < 8"
  shows "unat (push_bit 3 y + x :: 8 word) = 8 * unat y + unat x"
proof -
  have "push_bit 3 y = 8 * y" by (simp add: push_bit_eq_mult)
  then have "push_bit 3 y + x = word_of_nat (8 * unat y + unat x)"
    by simp
  with assms show ?thesis
    by (simp only: unat_of_nat) simp
qed

lemma bm_highest_Min:
  assumes "bm_ok b" "bm_members b \<noteq> {}"
  shows "unat (bm_highest b) = Min (bm_members b)"
proof -
  define y where "y = unmap (fst b)"
  define x where "x = unmap (snd b (unat y))"
  from assms have g: "fst b \<noteq> 0" by (simp add: bm_empty_iff)
  then have y8: "unat y < 8" by (simp add: y_def unmap_less_8)
  with g assms(1) have t: "snd b (unat y) \<noteq> 0"
    using unmap_bit [of "fst b"] by (simp add: bm_ok_def y_def)
  then have x8: "unat x < 8" by (simp add: x_def unmap_less_8)
  have val: "unat (bm_highest b) = 8 * unat y + unat x"
    using unat_row_col [OF y8 x8] by (simp add: bm_highest_def y_def x_def Let_def)
  have mem: "8 * unat y + unat x \<in> bm_members b"
    using y8 x8 t by (simp add: bm_members_def x_def unmap_bit)
  have least: "8 * unat y + unat x \<le> q" if q: "q \<in> bm_members b" for q
  proof -
    from q have q8: "q div 8 < 8" and qb: "bit (snd b (q div 8)) (q mod 8)"
      by (auto simp: bm_members_def)
    then have "snd b (q div 8) \<noteq> 0" by auto
    with assms(1) q8 have "bit (fst b) (q div 8)" by (simp add: bm_ok_def)
    with g have le: "unat y \<le> q div 8" by (simp add: y_def unmap_least)
    show ?thesis
    proof (cases "unat y = q div 8")
      case True
      with qb t have "unat x \<le> q mod 8" by (simp add: x_def unmap_least)
      with True show ?thesis by presburger
    next
      case False
      with le x8 show ?thesis by presburger
    qed
  qed
  show ?thesis using val mem least by (metis Min_eqI finite_bm_members)
qed

section \<open>The interface of a set of priorities\<close>

text \<open>
  What the scheduler and the wait lists rely on: a structure that holds a set of priorities, to
  which one priority is added or from which one is taken, and which answers the highest of them
  and whether it is empty.
\<close>

locale prio_set =
  fixes members :: "'b \<Rightarrow> nat set"
    and inv :: "'b \<Rightarrow> bool"
    and add :: "8 word \<Rightarrow> 'b \<Rightarrow> 'b"
    and take_out :: "8 word \<Rightarrow> 'b \<Rightarrow> 'b"
    and holds :: "8 word \<Rightarrow> 'b \<Rightarrow> bool"
    and highest :: "'b \<Rightarrow> 8 word"
    and nobody :: "'b \<Rightarrow> bool"
  assumes members_bound: "q \<in> members b \<Longrightarrow> q < 64"
    and members_add: "unat p < 64 \<Longrightarrow> members (add p b) = insert (unat p) (members b)"
    and members_take_out: "unat p < 64 \<Longrightarrow> members (take_out p b) = members b - {unat p}"
    and holds_iff: "unat p < 64 \<Longrightarrow> holds p b \<longleftrightarrow> unat p \<in> members b"
    and inv_add: "unat p < 64 \<Longrightarrow> inv b \<Longrightarrow> inv (add p b)"
    and inv_take_out: "unat p < 64 \<Longrightarrow> inv b \<Longrightarrow> inv (take_out p b)"
    and highest_Min: "inv b \<Longrightarrow> members b \<noteq> {} \<Longrightarrow> unat (highest b) = Min (members b)"
    and nobody_iff: "inv b \<Longrightarrow> nobody b \<longleftrightarrow> members b = {}"
begin

lemma finite_members: "finite (members b)"
  by (rule finite_subset [of _ "{..<64}"]) (auto dest: members_bound)

lemma highest_member: "inv b \<Longrightarrow> members b \<noteq> {} \<Longrightarrow> unat (highest b) \<in> members b"
  by (simp add: highest_Min finite_members)

lemma highest_least: "inv b \<Longrightarrow> q \<in> members b \<Longrightarrow> unat (highest b) \<le> q"
  by (metis Min_le empty_iff finite_members highest_Min)

lemma highest_less_64: "inv b \<Longrightarrow> members b \<noteq> {} \<Longrightarrow> unat (highest b) < 64"
  using highest_member members_bound by blast

lemma highest_add:
  assumes "inv b" "unat p < 64" "members b \<noteq> {}"
  shows "unat (highest (add p b)) = min (unat p) (unat (highest b))"
  using assms by (simp add: highest_Min inv_add members_add finite_members)

lemma highest_add_empty:
  assumes "inv b" "unat p < 64" "members b = {}"
  shows "unat (highest (add p b)) = unat p"
  using assms by (simp add: highest_Min inv_add members_add)

text \<open>Taking out the highest priority leaves fewer, all of them lower: a draining loop ends.\<close>

lemma take_out_highest_card:
  assumes "inv b" "members b \<noteq> {}"
  shows "card (members (take_out (highest b) b)) < card (members b)"
  by (simp only: members_take_out [OF highest_less_64 [OF assms]]
      card_Diff1_less [OF finite_members highest_member [OF assms]])

lemma take_out_highest_lower:
  assumes "inv b" "members b \<noteq> {}" "q \<in> members (take_out (highest b) b)"
  shows "unat (highest b) < q"
  using assms highest_less_64 [of b] highest_least [of b q]
  by (auto simp: members_take_out le_less)

end

text \<open>The kernel's bitmaps provide the interface.\<close>

definition bm_add :: "8 word \<Rightarrow> bitmap \<Rightarrow> bitmap" where
  "bm_add p = bm_set (prio_y p) (bit_mask (prio_y p)) (bit_mask (prio_x p))"

definition bm_take_out :: "8 word \<Rightarrow> bitmap \<Rightarrow> bitmap" where
  "bm_take_out p = bm_clr (prio_y p) (bit_mask (prio_y p)) (bit_mask (prio_x p))"

definition bm_holds :: "8 word \<Rightarrow> bitmap \<Rightarrow> bool" where
  "bm_holds p = bm_test (prio_y p) (bit_mask (prio_x p))"

definition bm_nobody :: "bitmap \<Rightarrow> bool" where
  "bm_nobody b \<longleftrightarrow> fst b = 0"

interpretation bm: prio_set bm_members bm_ok bm_add bm_take_out bm_holds bm_highest bm_nobody
  by unfold_locales
    (simp_all add: bm_members_less bm_add_def bm_take_out_def bm_holds_def bm_nobody_def
      bm_members_set bm_members_clr bm_test_iff bm_ok_set bm_ok_clr bm_highest_Min bm_empty_iff)

end
