(* ===== verification/Os_State.thy ===== *)
theory Os_State
  imports Os_Bitmap
begin

text \<open>
  The data of the kernel (\<open>ucos_ii.h\<close>): pointers, control blocks and the global variables, for the
  configuration of \<open>application/ucosii/demo/os_cfg.h\<close> on the 64-bit core (\<open>sizeof(void *)\<close> is 8).
  The control blocks live in the static tables \<open>OSTCBTbl\<close>, \<open>OSEventTbl\<close>, \<open>OSQTbl\<close> and \<open>OSMemTbl\<close>, so a
  pointer to one is its index; every other pointer is an address.
\<close>

section \<open>Configuration\<close>

abbreviation (input) OS_LOWEST_PRIO :: "8 word" where "OS_LOWEST_PRIO \<equiv> 63"
abbreviation (input) OS_MAX_EVENTS :: nat where "OS_MAX_EVENTS \<equiv> 10"
abbreviation (input) OS_MAX_QS :: nat where "OS_MAX_QS \<equiv> 4"
abbreviation (input) OS_MAX_MEM_PART :: nat where "OS_MAX_MEM_PART \<equiv> 5"
abbreviation (input) OS_MAX_FLAGS :: nat where "OS_MAX_FLAGS \<equiv> 5"
abbreviation (input) OS_TMR_CFG_MAX :: nat where "OS_TMR_CFG_MAX \<equiv> 16"
abbreviation (input) OS_TMR_CFG_WHEEL_SIZE :: nat where "OS_TMR_CFG_WHEEL_SIZE \<equiv> 7"
text \<open>\<open>OS_MAX_TASKS + OS_N_SYS_TASKS\<close>, the number of task control blocks.\<close>
abbreviation (input) OS_N_TCBS :: nat where "OS_N_TCBS \<equiv> 22"
abbreviation (input) OS_TICKS_PER_SEC :: "32 word" where "OS_TICKS_PER_SEC \<equiv> 50"
abbreviation (input) OS_TMR_CFG_TICKS_PER_SEC :: "32 word" where "OS_TMR_CFG_TICKS_PER_SEC \<equiv> 10"
abbreviation (input) OS_EVENT_TBL_SIZE :: nat where "OS_EVENT_TBL_SIZE \<equiv> 8"
abbreviation (input) OS_RDY_TBL_SIZE :: nat where "OS_RDY_TBL_SIZE \<equiv> 8"
abbreviation (input) OS_TASK_IDLE_PRIO :: "8 word" where "OS_TASK_IDLE_PRIO \<equiv> 63"
abbreviation (input) OS_TASK_STAT_PRIO :: "8 word" where "OS_TASK_STAT_PRIO \<equiv> 62"
abbreviation (input) OS_PRIO_SELF :: "8 word" where "OS_PRIO_SELF \<equiv> 0xFF"
abbreviation (input) OS_PRIO_MUTEX_CEIL_DIS :: "8 word" where "OS_PRIO_MUTEX_CEIL_DIS \<equiv> 0xFF"

section \<open>Status bits, options and codes\<close>

abbreviation (input) OS_STAT_RDY :: "8 word" where "OS_STAT_RDY \<equiv> 0x00"
abbreviation (input) OS_STAT_SEM :: "8 word" where "OS_STAT_SEM \<equiv> 0x01"
abbreviation (input) OS_STAT_MBOX :: "8 word" where "OS_STAT_MBOX \<equiv> 0x02"
abbreviation (input) OS_STAT_Q :: "8 word" where "OS_STAT_Q \<equiv> 0x04"
abbreviation (input) OS_STAT_SUSPEND :: "8 word" where "OS_STAT_SUSPEND \<equiv> 0x08"
abbreviation (input) OS_STAT_MUTEX :: "8 word" where "OS_STAT_MUTEX \<equiv> 0x10"
abbreviation (input) OS_STAT_FLAG :: "8 word" where "OS_STAT_FLAG \<equiv> 0x20"
abbreviation (input) OS_STAT_MULTI :: "8 word" where "OS_STAT_MULTI \<equiv> 0x80"
abbreviation (input) OS_STAT_PEND_ANY :: "8 word" where
  "OS_STAT_PEND_ANY \<equiv> OS_STAT_SEM OR OS_STAT_MBOX OR OS_STAT_Q OR OS_STAT_MUTEX OR OS_STAT_FLAG"

datatype pend_status = OS_STAT_PEND_OK | OS_STAT_PEND_TO | OS_STAT_PEND_ABORT

datatype event_type =
  OS_EVENT_TYPE_UNUSED | OS_EVENT_TYPE_MBOX | OS_EVENT_TYPE_Q | OS_EVENT_TYPE_SEM
| OS_EVENT_TYPE_MUTEX | OS_EVENT_TYPE_FLAG

abbreviation (input) OS_DEL_NO_PEND :: "8 word" where "OS_DEL_NO_PEND \<equiv> 0"
abbreviation (input) OS_DEL_ALWAYS :: "8 word" where "OS_DEL_ALWAYS \<equiv> 1"
abbreviation (input) OS_PEND_OPT_NONE :: "8 word" where "OS_PEND_OPT_NONE \<equiv> 0"
abbreviation (input) OS_PEND_OPT_BROADCAST :: "8 word" where "OS_PEND_OPT_BROADCAST \<equiv> 1"
abbreviation (input) OS_POST_OPT_BROADCAST :: "8 word" where "OS_POST_OPT_BROADCAST \<equiv> 0x01"
abbreviation (input) OS_POST_OPT_FRONT :: "8 word" where "OS_POST_OPT_FRONT \<equiv> 0x02"
abbreviation (input) OS_POST_OPT_NO_SCHED :: "8 word" where "OS_POST_OPT_NO_SCHED \<equiv> 0x04"
abbreviation (input) OS_TICK_STEP_DIS :: "8 word" where "OS_TICK_STEP_DIS \<equiv> 0"
abbreviation (input) OS_TICK_STEP_WAIT :: "8 word" where "OS_TICK_STEP_WAIT \<equiv> 1"
abbreviation (input) OS_TICK_STEP_ONCE :: "8 word" where "OS_TICK_STEP_ONCE \<equiv> 2"

text \<open>The error codes the modelled calls return.\<close>

type_synonym os_err = "8 word"

abbreviation (input) OS_ERR_NONE :: os_err where "OS_ERR_NONE \<equiv> 0"
abbreviation (input) OS_ERR_EVENT_TYPE :: os_err where "OS_ERR_EVENT_TYPE \<equiv> 1"
abbreviation (input) OS_ERR_PEND_ISR :: os_err where "OS_ERR_PEND_ISR \<equiv> 2"
abbreviation (input) OS_ERR_POST_NULL_PTR :: os_err where "OS_ERR_POST_NULL_PTR \<equiv> 3"
abbreviation (input) OS_ERR_PEVENT_NULL :: os_err where "OS_ERR_PEVENT_NULL \<equiv> 4"
abbreviation (input) OS_ERR_POST_ISR :: os_err where "OS_ERR_POST_ISR \<equiv> 5"
abbreviation (input) OS_ERR_QUERY_ISR :: os_err where "OS_ERR_QUERY_ISR \<equiv> 6"
abbreviation (input) OS_ERR_INVALID_OPT :: os_err where "OS_ERR_INVALID_OPT \<equiv> 7"
abbreviation (input) OS_ERR_ID_INVALID :: os_err where "OS_ERR_ID_INVALID \<equiv> 8"
abbreviation (input) OS_ERR_PDATA_NULL :: os_err where "OS_ERR_PDATA_NULL \<equiv> 9"
abbreviation (input) OS_ERR_TIMEOUT :: os_err where "OS_ERR_TIMEOUT \<equiv> 10"
abbreviation (input) OS_ERR_EVENT_NAME_TOO_LONG :: os_err where "OS_ERR_EVENT_NAME_TOO_LONG \<equiv> 11"
abbreviation (input) OS_ERR_PNAME_NULL :: os_err where "OS_ERR_PNAME_NULL \<equiv> 12"
abbreviation (input) OS_ERR_PEND_LOCKED :: os_err where "OS_ERR_PEND_LOCKED \<equiv> 13"
abbreviation (input) OS_ERR_PEND_ABORT :: os_err where "OS_ERR_PEND_ABORT \<equiv> 14"
abbreviation (input) OS_ERR_DEL_ISR :: os_err where "OS_ERR_DEL_ISR \<equiv> 15"
abbreviation (input) OS_ERR_CREATE_ISR :: os_err where "OS_ERR_CREATE_ISR \<equiv> 16"
abbreviation (input) OS_ERR_NAME_GET_ISR :: os_err where "OS_ERR_NAME_GET_ISR \<equiv> 17"
abbreviation (input) OS_ERR_NAME_SET_ISR :: os_err where "OS_ERR_NAME_SET_ISR \<equiv> 18"
abbreviation (input) OS_ERR_ILLEGAL_CREATE_RUN_TIME :: os_err where "OS_ERR_ILLEGAL_CREATE_RUN_TIME \<equiv> 19"
abbreviation (input) OS_ERR_MBOX_FULL :: os_err where "OS_ERR_MBOX_FULL \<equiv> 20"
abbreviation (input) OS_ERR_ILLEGAL_DEL_RUN_TIME :: os_err where "OS_ERR_ILLEGAL_DEL_RUN_TIME \<equiv> 21"
abbreviation (input) OS_ERR_Q_FULL :: os_err where "OS_ERR_Q_FULL \<equiv> 30"
abbreviation (input) OS_ERR_Q_EMPTY :: os_err where "OS_ERR_Q_EMPTY \<equiv> 31"
abbreviation (input) OS_ERR_PRIO_EXIST :: os_err where "OS_ERR_PRIO_EXIST \<equiv> 40"
abbreviation (input) OS_ERR_PRIO :: os_err where "OS_ERR_PRIO \<equiv> 41"
abbreviation (input) OS_ERR_PRIO_INVALID :: os_err where "OS_ERR_PRIO_INVALID \<equiv> 42"
abbreviation (input) OS_ERR_SCHED_LOCKED :: os_err where "OS_ERR_SCHED_LOCKED \<equiv> 50"
abbreviation (input) OS_ERR_SEM_OVF :: os_err where "OS_ERR_SEM_OVF \<equiv> 51"
abbreviation (input) OS_ERR_TASK_CREATE_ISR :: os_err where "OS_ERR_TASK_CREATE_ISR \<equiv> 60"
abbreviation (input) OS_ERR_TASK_DEL :: os_err where "OS_ERR_TASK_DEL \<equiv> 61"
abbreviation (input) OS_ERR_TASK_DEL_IDLE :: os_err where "OS_ERR_TASK_DEL_IDLE \<equiv> 62"
abbreviation (input) OS_ERR_TASK_DEL_REQ :: os_err where "OS_ERR_TASK_DEL_REQ \<equiv> 63"
abbreviation (input) OS_ERR_TASK_DEL_ISR :: os_err where "OS_ERR_TASK_DEL_ISR \<equiv> 64"
abbreviation (input) OS_ERR_TASK_NAME_TOO_LONG :: os_err where "OS_ERR_TASK_NAME_TOO_LONG \<equiv> 65"
abbreviation (input) OS_ERR_TASK_NO_MORE_TCB :: os_err where "OS_ERR_TASK_NO_MORE_TCB \<equiv> 66"
abbreviation (input) OS_ERR_TASK_NOT_EXIST :: os_err where "OS_ERR_TASK_NOT_EXIST \<equiv> 67"
abbreviation (input) OS_ERR_TASK_NOT_SUSPENDED :: os_err where "OS_ERR_TASK_NOT_SUSPENDED \<equiv> 68"
abbreviation (input) OS_ERR_TASK_OPT :: os_err where "OS_ERR_TASK_OPT \<equiv> 69"
abbreviation (input) OS_ERR_TASK_RESUME_PRIO :: os_err where "OS_ERR_TASK_RESUME_PRIO \<equiv> 70"
abbreviation (input) OS_ERR_TASK_SUSPEND_IDLE :: os_err where "OS_ERR_TASK_SUSPEND_IDLE \<equiv> 71"
abbreviation (input) OS_ERR_TASK_SUSPEND_PRIO :: os_err where "OS_ERR_TASK_SUSPEND_PRIO \<equiv> 72"
abbreviation (input) OS_ERR_TASK_WAITING :: os_err where "OS_ERR_TASK_WAITING \<equiv> 73"
abbreviation (input) OS_ERR_TIME_NOT_DLY :: os_err where "OS_ERR_TIME_NOT_DLY \<equiv> 80"
abbreviation (input) OS_ERR_TIME_INVALID_MINUTES :: os_err where "OS_ERR_TIME_INVALID_MINUTES \<equiv> 81"
abbreviation (input) OS_ERR_TIME_INVALID_SECONDS :: os_err where "OS_ERR_TIME_INVALID_SECONDS \<equiv> 82"
abbreviation (input) OS_ERR_TIME_INVALID_MS :: os_err where "OS_ERR_TIME_INVALID_MS \<equiv> 83"
abbreviation (input) OS_ERR_TIME_ZERO_DLY :: os_err where "OS_ERR_TIME_ZERO_DLY \<equiv> 84"
abbreviation (input) OS_ERR_TIME_DLY_ISR :: os_err where "OS_ERR_TIME_DLY_ISR \<equiv> 85"
abbreviation (input) OS_ERR_MEM_INVALID_PART :: os_err where "OS_ERR_MEM_INVALID_PART \<equiv> 90"
abbreviation (input) OS_ERR_MEM_INVALID_BLKS :: os_err where "OS_ERR_MEM_INVALID_BLKS \<equiv> 91"
abbreviation (input) OS_ERR_MEM_INVALID_SIZE :: os_err where "OS_ERR_MEM_INVALID_SIZE \<equiv> 92"
abbreviation (input) OS_ERR_MEM_NO_FREE_BLKS :: os_err where "OS_ERR_MEM_NO_FREE_BLKS \<equiv> 93"
abbreviation (input) OS_ERR_MEM_FULL :: os_err where "OS_ERR_MEM_FULL \<equiv> 94"
abbreviation (input) OS_ERR_MEM_INVALID_PBLK :: os_err where "OS_ERR_MEM_INVALID_PBLK \<equiv> 95"
abbreviation (input) OS_ERR_MEM_INVALID_PMEM :: os_err where "OS_ERR_MEM_INVALID_PMEM \<equiv> 96"
abbreviation (input) OS_ERR_MEM_INVALID_PDATA :: os_err where "OS_ERR_MEM_INVALID_PDATA \<equiv> 97"
abbreviation (input) OS_ERR_MEM_INVALID_ADDR :: os_err where "OS_ERR_MEM_INVALID_ADDR \<equiv> 98"
abbreviation (input) OS_ERR_MEM_NAME_TOO_LONG :: os_err where "OS_ERR_MEM_NAME_TOO_LONG \<equiv> 99"
abbreviation (input) OS_ERR_NOT_MUTEX_OWNER :: os_err where "OS_ERR_NOT_MUTEX_OWNER \<equiv> 100"
abbreviation (input) OS_ERR_FLAG_INVALID_PGRP :: os_err where "OS_ERR_FLAG_INVALID_PGRP \<equiv> 110"
abbreviation (input) OS_ERR_FLAG_WAIT_TYPE :: os_err where "OS_ERR_FLAG_WAIT_TYPE \<equiv> 111"
abbreviation (input) OS_ERR_FLAG_NOT_RDY :: os_err where "OS_ERR_FLAG_NOT_RDY \<equiv> 112"
abbreviation (input) OS_ERR_FLAG_INVALID_OPT :: os_err where "OS_ERR_FLAG_INVALID_OPT \<equiv> 113"
abbreviation (input) OS_ERR_FLAG_GRP_DEPLETED :: os_err where "OS_ERR_FLAG_GRP_DEPLETED \<equiv> 114"
abbreviation (input) OS_ERR_FLAG_NAME_TOO_LONG :: os_err where "OS_ERR_FLAG_NAME_TOO_LONG \<equiv> 115"
abbreviation (input) OS_ERR_TMR_INVALID_DLY :: os_err where "OS_ERR_TMR_INVALID_DLY \<equiv> 130"
abbreviation (input) OS_ERR_TMR_INVALID_PERIOD :: os_err where "OS_ERR_TMR_INVALID_PERIOD \<equiv> 131"
abbreviation (input) OS_ERR_TMR_INVALID_OPT :: os_err where "OS_ERR_TMR_INVALID_OPT \<equiv> 132"
abbreviation (input) OS_ERR_TMR_NON_AVAIL :: os_err where "OS_ERR_TMR_NON_AVAIL \<equiv> 134"
abbreviation (input) OS_ERR_TMR_INACTIVE :: os_err where "OS_ERR_TMR_INACTIVE \<equiv> 135"
abbreviation (input) OS_ERR_TMR_INVALID_DEST :: os_err where "OS_ERR_TMR_INVALID_DEST \<equiv> 136"
abbreviation (input) OS_ERR_TMR_INVALID_TYPE :: os_err where "OS_ERR_TMR_INVALID_TYPE \<equiv> 137"
abbreviation (input) OS_ERR_TMR_INVALID :: os_err where "OS_ERR_TMR_INVALID \<equiv> 138"
abbreviation (input) OS_ERR_TMR_ISR :: os_err where "OS_ERR_TMR_ISR \<equiv> 139"
abbreviation (input) OS_ERR_TMR_INVALID_STATE :: os_err where "OS_ERR_TMR_INVALID_STATE \<equiv> 141"
abbreviation (input) OS_ERR_TMR_STOPPED :: os_err where "OS_ERR_TMR_STOPPED \<equiv> 142"
abbreviation (input) OS_ERR_TMR_NO_CALLBACK :: os_err where "OS_ERR_TMR_NO_CALLBACK \<equiv> 143"
abbreviation (input) OS_ERR_PCP_LOWER :: os_err where "OS_ERR_PCP_LOWER \<equiv> 120"
abbreviation (input) OS_ERR_NO_MORE_ID_AVAIL :: os_err where "OS_ERR_NO_MORE_ID_AVAIL \<equiv> 150"
abbreviation (input) OS_ERR_OS_NOT_RUNNING :: os_err where "OS_ERR_OS_NOT_RUNNING \<equiv> 164"

section \<open>Pointers\<close>

text \<open>
  A \<open>void *\<close>: the kernel stores in one field (\<open>OSEventPtr\<close>) the next free control block, a message,
  a queue control block or the owner of a mutex, and casts on use.  \<open>Addr\<close> is memory outside the
  tables; address 0 is the null pointer and \<open>OS_TCB_RESERVED\<close> is \<open>(OS_TCB *)1\<close>.  \<open>FNp t\<close> is the local
  variable \<open>node\<close> of the call of \<open>OSFlagPend\<close> that task \<open>t\<close> is in.
\<close>

datatype vptr =
  Addr "64 word"
| TCBp nat
| EVp nat
| Qp nat
| MEMp nat
| FGp nat
| FNp nat
| TMRp nat

abbreviation (input) NULL :: vptr where "NULL \<equiv> Addr 0"
abbreviation (input) OS_TCB_RESERVED :: vptr where "OS_TCB_RESERVED \<equiv> Addr 1"

text \<open>Following a pointer that was cast to a control block: anything else is undefined.\<close>

fun tcb_at :: "vptr \<Rightarrow> nat option" where
  "tcb_at (TCBp i) = (if i < OS_N_TCBS then Some i else None)"
| "tcb_at _ = None"

fun ev_at :: "vptr \<Rightarrow> nat option" where
  "ev_at (EVp i) = (if i < OS_MAX_EVENTS then Some i else None)"
| "ev_at _ = None"

fun q_at :: "vptr \<Rightarrow> nat option" where
  "q_at (Qp i) = (if i < OS_MAX_QS then Some i else None)"
| "q_at _ = None"

fun mem_at :: "vptr \<Rightarrow> nat option" where
  "mem_at (MEMp i) = (if i < OS_MAX_MEM_PART then Some i else None)"
| "mem_at _ = None"

fun fg_at :: "vptr \<Rightarrow> nat option" where
  "fg_at (FGp i) = (if i < OS_MAX_FLAGS then Some i else None)"
| "fg_at _ = None"

fun fn_at :: "vptr \<Rightarrow> nat option" where
  "fn_at (FNp i) = (if i < OS_N_TCBS then Some i else None)"
| "fn_at _ = None"

fun tmr_at :: "vptr \<Rightarrow> nat option" where
  "tmr_at (TMRp i) = (if i < OS_TMR_CFG_MAX then Some i else None)"
| "tmr_at _ = None"

lemma fg_at_Some [simp]: "fg_at p = Some i \<longleftrightarrow> p = FGp i \<and> i < OS_MAX_FLAGS"
  by (cases p) auto

lemma fn_at_Some [simp]: "fn_at p = Some i \<longleftrightarrow> p = FNp i \<and> i < OS_N_TCBS"
  by (cases p) auto

lemma tmr_at_Some [simp]: "tmr_at p = Some i \<longleftrightarrow> p = TMRp i \<and> i < OS_TMR_CFG_MAX"
  by (cases p) auto

lemma tcb_at_Some [simp]: "tcb_at p = Some i \<longleftrightarrow> p = TCBp i \<and> i < OS_N_TCBS"
  by (cases p) auto

lemma ev_at_Some [simp]: "ev_at p = Some i \<longleftrightarrow> p = EVp i \<and> i < OS_MAX_EVENTS"
  by (cases p) auto

lemma q_at_Some [simp]: "q_at p = Some i \<longleftrightarrow> p = Qp i \<and> i < OS_MAX_QS"
  by (cases p) auto

lemma mem_at_Some [simp]: "mem_at p = Some i \<longleftrightarrow> p = MEMp i \<and> i < OS_MAX_MEM_PART"
  by (cases p) auto

text \<open>Names are C strings: the characters up to and including the terminator.\<close>

type_synonym cname = "string option"

definition unnamed :: cname where
  "unnamed = Some [CHR ''?'', CHR 0x00]"

section \<open>Linked lists\<close>

text \<open>The list \<open>es\<close> of elements that a pointer \<open>p\<close> and the links \<open>nx\<close> run through, up to null.\<close>

primrec path :: "('a \<Rightarrow> vptr) \<Rightarrow> ('a \<Rightarrow> vptr) \<Rightarrow> vptr \<Rightarrow> 'a list \<Rightarrow> bool" where
  "path node nx p [] \<longleftrightarrow> p = NULL"
| "path node nx p (e # es) \<longleftrightarrow> p = node e \<and> path node nx (nx e) es"

lemma path_cong: "(\<And>e. e \<in> set es \<Longrightarrow> nx e = nx' e) \<Longrightarrow> path node nx p es = path node nx' p es"
  by (induction es arbitrary: p) auto

lemma path_fun_upd: "e \<notin> set es \<Longrightarrow> path node (nx(e := v)) p es = path node nx p es"
  by (rule path_cong) auto

section \<open>Control blocks\<close>

record os_event =
  OSEventType :: event_type
  OSEventPtr :: vptr
  OSEventCnt :: "16 word"
  OSEventGrp :: "8 word"
  OSEventTbl :: "nat \<Rightarrow> 8 word"
  OSEventName :: cname

record os_q =
  OSQPtr :: vptr
  OSQStart :: "64 word"
  OSQEnd :: "64 word"
  OSQIn :: "64 word"
  OSQOut :: "64 word"
  OSQSize :: "16 word"
  OSQEntries :: "16 word"

record os_mem =
  OSMemAddr :: vptr
  OSMemFreeList_f :: vptr
  OSMemBlkSize :: "32 word"
  OSMemNBlks :: "32 word"
  OSMemNFree :: "32 word"
  OSMemName :: cname

record os_flag_grp =
  OSFlagType :: event_type
  OSFlagWaitList :: vptr
  OSFlagFlags :: "16 word"
  OSFlagName :: cname

record os_flag_node =
  OSFlagNodeNext :: vptr
  OSFlagNodePrev :: vptr
  OSFlagNodeTCB :: vptr
  OSFlagNodeFlagGrp :: vptr
  OSFlagNodeFlags :: "16 word"
  OSFlagNodeWaitType :: "8 word"

record os_tmr =
  OSTmrType :: "8 word"
  OSTmrCallback :: vptr
  OSTmrCallbackArg :: vptr
  OSTmrNext :: vptr
  OSTmrPrev :: vptr
  OSTmrMatch :: "32 word"
  OSTmrDly :: "32 word"
  OSTmrPeriod :: "32 word"
  OSTmrName :: cname
  OSTmrOpt :: "8 word"
  OSTmrState :: "8 word"

record os_tmr_wheel =
  OSTmrFirst :: vptr
  OSTmrEntries :: "16 word"

text \<open>
  The task control block.  \<open>OSTCBEventMultiPtr\<close> points to the caller's null-terminated array of
  events, which the caller keeps while it waits; it is modelled by the entries of the array.
\<close>

record os_tcb =
  OSTCBStkPtr :: vptr
  OSTCBExtPtr :: vptr
  OSTCBStkBottom :: vptr
  OSTCBStkSize :: "32 word"
  OSTCBOpt :: "16 word"
  OSTCBId :: "16 word"
  OSTCBNext :: vptr
  OSTCBPrev :: vptr
  OSTCBEventPtr :: vptr
  OSTCBEventMultiPtr :: "vptr list option"
  OSTCBEventMultiRdy :: vptr
  OSTCBMsg :: vptr
  OSTCBFlagNode :: vptr
  OSTCBFlagsRdy :: "16 word"
  OSTCBDly :: "32 word"
  OSTCBStat :: "8 word"
  OSTCBStatPend :: pend_status
  OSTCBPrio :: "8 word"
  OSTCBX :: "8 word"
  OSTCBY :: "8 word"
  OSTCBBitX :: "8 word"
  OSTCBBitY :: "8 word"
  OSTCBDelReq :: os_err
  OSTCBCtxSwCtr :: "32 word"
  OSTCBCyclesTot :: "32 word"
  OSTCBCyclesStart :: "32 word"
  OSTCBStkBase :: vptr
  OSTCBStkUsed :: "32 word"
  OSTCBTaskName :: cname
  OSTCBRegTbl :: "nat \<Rightarrow> 32 word"

section \<open>The kernel's global variables\<close>

text \<open>
  \<open>OSEventTbl_ecb\<close> is the global array \<open>OSEventTbl\<close> (its name is also a field of the control block).
  \<open>ptr_mem\<close> is the memory the kernel reads and writes through pointers: the 8-byte cells of message
  queues, memory blocks and task stacks, by byte address.  \<open>OSTmrCtr\<close> is the counter of the port's tick
  hook (\<open>arch/os_cpu_c.c\<close>).  \<open>OSFlagNodes\<close> holds the local variable \<open>node\<close> of the \<open>OSFlagPend\<close> call of each
  task.
\<close>

record kst =
  OSCtxSwCtr :: "32 word"
  OSEventFreeList :: vptr
  OSEventTbl_ecb :: "nat \<Rightarrow> os_event"
  OSCPUUsage :: "8 word"
  OSIdleCtrMax :: "32 word"
  OSIdleCtrRun :: "32 word"
  OSStatRdy :: bool
  OSIntNesting :: "8 word"
  OSLockNesting :: "8 word"
  OSPrioCur :: "8 word"
  OSPrioHighRdy :: "8 word"
  OSRdyGrp :: "8 word"
  OSRdyTbl :: "nat \<Rightarrow> 8 word"
  OSRunning :: bool
  OSTaskCtr :: "8 word"
  OSIdleCtr :: "32 word"
  OSTCBCur :: vptr
  OSTCBFreeList :: vptr
  OSTCBHighRdy :: vptr
  OSTCBList :: vptr
  OSTCBPrioTbl :: "nat \<Rightarrow> vptr"
  OSTCBTbl :: "nat \<Rightarrow> os_tcb"
  OSTickStepState :: "8 word"
  OSMemFreeList :: vptr
  OSMemTbl :: "nat \<Rightarrow> os_mem"
  OSQFreeList :: vptr
  OSQTbl :: "nat \<Rightarrow> os_q"
  OSTaskRegNextAvailID :: "8 word"
  OSTime :: "32 word"
  OSTmrSemSignal :: vptr
  OSTmrCtr :: "16 word"
  ptr_mem :: "64 word \<Rightarrow> vptr"
  OSFlagTbl :: "nat \<Rightarrow> os_flag_grp"
  OSFlagFreeList :: vptr
  OSFlagNodes :: "nat \<Rightarrow> os_flag_node"
  OSTmrFree :: "16 word"
  OSTmrUsed :: "16 word"
  OSTmrTime :: "32 word"
  OSTmrSem :: vptr
  OSTmrTbl :: "nat \<Rightarrow> os_tmr"
  OSTmrFreeList :: vptr
  OSTmrWheelTbl :: "nat \<Rightarrow> os_tmr_wheel"

definition upd_tcb :: "nat \<Rightarrow> (os_tcb \<Rightarrow> os_tcb) \<Rightarrow> kst \<Rightarrow> kst" where
  [kernel_defs]: "upd_tcb t f s = s\<lparr>OSTCBTbl := (OSTCBTbl s)(t := f (OSTCBTbl s t))\<rparr>"

definition upd_ev :: "nat \<Rightarrow> (os_event \<Rightarrow> os_event) \<Rightarrow> kst \<Rightarrow> kst" where
  [kernel_defs]: "upd_ev e f s = s\<lparr>OSEventTbl_ecb := (OSEventTbl_ecb s)(e := f (OSEventTbl_ecb s e))\<rparr>"

definition upd_q :: "nat \<Rightarrow> (os_q \<Rightarrow> os_q) \<Rightarrow> kst \<Rightarrow> kst" where
  [kernel_defs]: "upd_q i f s = s\<lparr>OSQTbl := (OSQTbl s)(i := f (OSQTbl s i))\<rparr>"

definition upd_mem :: "nat \<Rightarrow> (os_mem \<Rightarrow> os_mem) \<Rightarrow> kst \<Rightarrow> kst" where
  [kernel_defs]: "upd_mem i f s = s\<lparr>OSMemTbl := (OSMemTbl s)(i := f (OSMemTbl s i))\<rparr>"

definition upd_grp :: "nat \<Rightarrow> (os_flag_grp \<Rightarrow> os_flag_grp) \<Rightarrow> kst \<Rightarrow> kst" where
  [kernel_defs]: "upd_grp i f s = s\<lparr>OSFlagTbl := (OSFlagTbl s)(i := f (OSFlagTbl s i))\<rparr>"

definition upd_node :: "nat \<Rightarrow> (os_flag_node \<Rightarrow> os_flag_node) \<Rightarrow> kst \<Rightarrow> kst" where
  [kernel_defs]: "upd_node i f s = s\<lparr>OSFlagNodes := (OSFlagNodes s)(i := f (OSFlagNodes s i))\<rparr>"

definition upd_tmr :: "nat \<Rightarrow> (os_tmr \<Rightarrow> os_tmr) \<Rightarrow> kst \<Rightarrow> kst" where
  [kernel_defs]: "upd_tmr i f s = s\<lparr>OSTmrTbl := (OSTmrTbl s)(i := f (OSTmrTbl s i))\<rparr>"

definition upd_spoke :: "nat \<Rightarrow> (os_tmr_wheel \<Rightarrow> os_tmr_wheel) \<Rightarrow> kst \<Rightarrow> kst" where
  [kernel_defs]: "upd_spoke i f s = s\<lparr>OSTmrWheelTbl := (OSTmrWheelTbl s)(i := f (OSTmrWheelTbl s i))\<rparr>"

text \<open>Arrays indexed by a priority or a row: outside the array is undefined.\<close>

definition prio_tbl :: "kst \<Rightarrow> 8 word \<Rightarrow> vptr option" where
  [kernel_defs]: "prio_tbl s prio = (if unat prio < 64 then Some (OSTCBPrioTbl s (unat prio)) else None)"

definition set_prio_tbl :: "8 word \<Rightarrow> vptr \<Rightarrow> kst \<Rightarrow> kst option" where
  [kernel_defs]: "set_prio_tbl prio p s =
     (if unat prio < 64 then Some (s\<lparr>OSTCBPrioTbl := (OSTCBPrioTbl s)(unat prio := p)\<rparr>) else None)"

section \<open>The bitmaps of the state\<close>

definition rdy_bm :: "kst \<Rightarrow> bitmap" where
  [kernel_defs]: "rdy_bm s = (OSRdyGrp s, OSRdyTbl s)"

definition set_rdy_bm :: "bitmap \<Rightarrow> kst \<Rightarrow> kst" where
  [kernel_defs]: "set_rdy_bm b s = s\<lparr>OSRdyGrp := fst b, OSRdyTbl := snd b\<rparr>"

definition ev_bm :: "kst \<Rightarrow> nat \<Rightarrow> bitmap" where
  [kernel_defs]: "ev_bm s e = (OSEventGrp (OSEventTbl_ecb s e), OSEventTbl (OSEventTbl_ecb s e))"

definition set_ev_bm :: "nat \<Rightarrow> bitmap \<Rightarrow> kst \<Rightarrow> kst" where
  [kernel_defs]: "set_ev_bm e b = upd_ev e (\<lambda>c. c\<lparr>OSEventGrp := fst b, OSEventTbl := snd b\<rparr>)"

text \<open>\<open>OSRdyGrp |= bity; OSRdyTbl[y] |= bitx;\<close>\<close>

definition rdy_add :: "8 word \<Rightarrow> 8 word \<Rightarrow> 8 word \<Rightarrow> kst \<Rightarrow> kst option" where
  "rdy_add y bity bitx s =
     (if unat y < OS_RDY_TBL_SIZE then Some (set_rdy_bm (bm_set y bity bitx (rdy_bm s)) s) else None)"

text \<open>\<open>OSRdyTbl[y] &= ~bitx; if (OSRdyTbl[y] == 0u) { OSRdyGrp &= ~bity; }\<close>\<close>

definition rdy_del :: "8 word \<Rightarrow> 8 word \<Rightarrow> 8 word \<Rightarrow> kst \<Rightarrow> kst option" where
  "rdy_del y bity bitx s =
     (if unat y < OS_RDY_TBL_SIZE then Some (set_rdy_bm (bm_clr y bity bitx (rdy_bm s)) s) else None)"

text \<open>\<open>pevent->OSEventTbl[y] |= bitx; pevent->OSEventGrp |= bity;\<close>\<close>

definition ev_add :: "nat \<Rightarrow> 8 word \<Rightarrow> 8 word \<Rightarrow> 8 word \<Rightarrow> kst \<Rightarrow> kst option" where
  "ev_add e y bity bitx s =
     (if unat y < OS_EVENT_TBL_SIZE then Some (set_ev_bm e (bm_set y bity bitx (ev_bm s e)) s) else None)"

text \<open>\<open>pevent->OSEventTbl[y] &= ~bitx; if (pevent->OSEventTbl[y] == 0u) { pevent->OSEventGrp &= ~bity; }\<close>\<close>

definition ev_del :: "nat \<Rightarrow> 8 word \<Rightarrow> 8 word \<Rightarrow> 8 word \<Rightarrow> kst \<Rightarrow> kst option" where
  "ev_del e y bity bitx s =
     (if unat y < OS_EVENT_TBL_SIZE then Some (set_ev_bm e (bm_clr y bity bitx (ev_bm s e)) s) else None)"

text \<open>The tasks that are ready and the tasks that wait for an event, by priority.\<close>

definition rdy :: "kst \<Rightarrow> nat set" where
  "rdy s = bm_members (rdy_bm s)"

definition waiters :: "kst \<Rightarrow> nat \<Rightarrow> nat set" where
  "waiters s e = bm_members (ev_bm s e)"

end
