(* ===== verification/Os_Core.thy ===== *)
theory Os_Core
  imports Os_State
begin

text \<open>
  The core of the kernel (\<open>os_core.c\<close> and the context switch of \<open>arch/os_cpu_port.c\<close>): making tasks
  wait for events and readying them, the scheduler, interrupt nesting, the scheduler lock and names.
  Each definition is one critical section of the source.  The switch itself is a software interrupt
  that \<open>OS_TASK_SW\<close> raises and that is taken when the section ends; its handler
  \<open>xPortTaskSwitch\<close> loads \<open>OSPrioCur\<close> and \<open>OSTCBCur\<close>.
\<close>

section \<open>Waiting lists of events\<close>

definition OS_EventTaskRemove :: "vptr \<Rightarrow> vptr \<Rightarrow> kst \<Rightarrow> kst option" where
  "OS_EventTaskRemove ptcb pevent s = do {
     t \<leftarrow> tcb_at ptcb;
     e \<leftarrow> ev_at pevent;
     let c = OSTCBTbl s t;
     s \<leftarrow> ev_del e (OSTCBY c) (OSTCBBitY c) (OSTCBBitX c) s;
     Some (upd_tcb t (\<lambda>c. c\<lparr>OSTCBEventPtr := NULL\<rparr>) s)
   }"

text \<open>The loop over the null-terminated array of events.\<close>

fun ev_del_all :: "vptr list \<Rightarrow> 8 word \<Rightarrow> 8 word \<Rightarrow> 8 word \<Rightarrow> kst \<Rightarrow> kst option" where
  "ev_del_all [] y bity bitx s = Some s"
| "ev_del_all (pevent # pevents) y bity bitx s = do {
     e \<leftarrow> ev_at pevent;
     s \<leftarrow> ev_del e y bity bitx s;
     ev_del_all pevents y bity bitx s
   }"

definition OS_EventTaskRemoveMulti :: "vptr \<Rightarrow> vptr list \<Rightarrow> kst \<Rightarrow> kst option" where
  "OS_EventTaskRemoveMulti ptcb pevents_multi s = do {
     t \<leftarrow> tcb_at ptcb;
     let c = OSTCBTbl s t;
     ev_del_all pevents_multi (OSTCBY c) (OSTCBBitY c) (OSTCBBitX c) s
   }"

text \<open>The end of \<open>OS_EventTaskRdy\<close>: the readied task leaves every wait list it is on.\<close>

definition OS_EventTaskRdy_unlink :: "vptr \<Rightarrow> vptr \<Rightarrow> kst \<Rightarrow> kst option" where
  "OS_EventTaskRdy_unlink ptcb pevent s = do {
     s \<leftarrow> OS_EventTaskRemove ptcb pevent s;
     t \<leftarrow> tcb_at ptcb;
     case OSTCBEventMultiPtr (OSTCBTbl s t) of
       None \<Rightarrow> Some s
     | Some pevents \<Rightarrow> do {
         s \<leftarrow> OS_EventTaskRemoveMulti ptcb pevents s;
         Some (upd_tcb t (\<lambda>c. c\<lparr>OSTCBEventMultiPtr := None, OSTCBEventMultiRdy := pevent\<rparr>) s)
       }
   }"

definition OS_EventTaskRdy :: "vptr \<Rightarrow> vptr \<Rightarrow> 8 word \<Rightarrow> pend_status \<Rightarrow> kst \<Rightarrow> (8 word \<times> kst) option" where
  "OS_EventTaskRdy pevent pmsg msk pend_stat s = do {
     e \<leftarrow> ev_at pevent;
     let ev = OSEventTbl_ecb s e;
     let y = unmap (OSEventGrp ev);
     let x = unmap (OSEventTbl ev (unat y));
     let prio = push_bit 3 y + x;
     ptcb \<leftarrow> prio_tbl s prio;
     t \<leftarrow> tcb_at ptcb;
     let s = upd_tcb t (\<lambda>c. c\<lparr>OSTCBDly := 0, OSTCBMsg := pmsg,
                              OSTCBStat := OSTCBStat c AND NOT msk, OSTCBStatPend := pend_stat\<rparr>) s;
     let c = OSTCBTbl s t;
     s \<leftarrow> (if OSTCBStat c AND OS_STAT_SUSPEND = OS_STAT_RDY
           then rdy_add y (OSTCBBitY c) (OSTCBBitX c) s else Some s);
     s \<leftarrow> OS_EventTaskRdy_unlink ptcb pevent s;
     Some (prio, s)
   }"

definition OS_EventTaskWait :: "vptr \<Rightarrow> kst \<Rightarrow> kst option" where
  "OS_EventTaskWait pevent s = do {
     t \<leftarrow> tcb_at (OSTCBCur s);
     let s = upd_tcb t (\<lambda>c. c\<lparr>OSTCBEventPtr := pevent\<rparr>) s;
     e \<leftarrow> ev_at pevent;
     let c = OSTCBTbl s t;
     s \<leftarrow> ev_add e (OSTCBY c) (OSTCBBitY c) (OSTCBBitX c) s;
     rdy_del (OSTCBY c) (OSTCBBitY c) (OSTCBBitX c) s
   }"

fun ev_add_all :: "vptr list \<Rightarrow> 8 word \<Rightarrow> 8 word \<Rightarrow> 8 word \<Rightarrow> kst \<Rightarrow> kst option" where
  "ev_add_all [] y bity bitx s = Some s"
| "ev_add_all (pevent # pevents) y bity bitx s = do {
     e \<leftarrow> ev_at pevent;
     s \<leftarrow> ev_add e y bity bitx s;
     ev_add_all pevents y bity bitx s
   }"

definition OS_EventTaskWaitMulti :: "vptr list \<Rightarrow> kst \<Rightarrow> kst option" where
  "OS_EventTaskWaitMulti pevents_wait s = do {
     t \<leftarrow> tcb_at (OSTCBCur s);
     let s = upd_tcb t (\<lambda>c. c\<lparr>OSTCBEventMultiPtr := Some pevents_wait, OSTCBEventMultiRdy := NULL\<rparr>) s;
     let c = OSTCBTbl s t;
     s \<leftarrow> ev_add_all pevents_wait (OSTCBY c) (OSTCBBitY c) (OSTCBBitX c) s;
     rdy_del (OSTCBY c) (OSTCBBitY c) (OSTCBBitX c) s
   }"

definition OS_EventWaitListInit :: "vptr \<Rightarrow> kst \<Rightarrow> kst option" where
  "OS_EventWaitListInit pevent s = do {
     e \<leftarrow> ev_at pevent;
     Some (set_ev_bm e (bm_empty (OSEventTbl (OSEventTbl_ecb s e))) s)
   }"

section \<open>The scheduler\<close>

definition OS_SchedNew :: "kst \<Rightarrow> kst" where
  "OS_SchedNew s = s\<lparr>OSPrioHighRdy := bm_highest (rdy_bm s)\<rparr>"

text \<open>The handler of the software interrupt that switches tasks.\<close>

definition xPortTaskSwitch :: "kst \<Rightarrow> kst" where
  "xPortTaskSwitch s = s\<lparr>OSPrioCur := OSPrioHighRdy s, OSTCBCur := OSTCBHighRdy s\<rparr>"

definition OS_Sched :: "kst \<Rightarrow> kst option" where
  "OS_Sched s =
     (if OSIntNesting s = 0 then
        if OSLockNesting s = 0 then do {
          let s = OS_SchedNew s;
          ptcb \<leftarrow> prio_tbl s (OSPrioHighRdy s);
          let s = s\<lparr>OSTCBHighRdy := ptcb\<rparr>;
          if OSPrioHighRdy s \<noteq> OSPrioCur s then do {
            t \<leftarrow> tcb_at (OSTCBHighRdy s);
            let s = upd_tcb t (\<lambda>c. c\<lparr>OSTCBCtxSwCtr := OSTCBCtxSwCtr c + 1\<rparr>) s;
            let s = s\<lparr>OSCtxSwCtr := OSCtxSwCtr s + 1\<rparr>;
            Some (xPortTaskSwitch s)
          } else Some s
        } else Some s
      else Some s)"

section \<open>Interrupts, the scheduler lock and the start of multitasking\<close>

definition OSIntEnter :: "kst \<Rightarrow> kst" where
  "OSIntEnter s =
     (if OSRunning s then
        if OSIntNesting s < 255 then s\<lparr>OSIntNesting := OSIntNesting s + 1\<rparr> else s
      else s)"

definition OSIntExit :: "kst \<Rightarrow> kst option" where
  "OSIntExit s =
     (if OSRunning s then do {
        let s = (if OSIntNesting s > 0 then s\<lparr>OSIntNesting := OSIntNesting s - 1\<rparr> else s);
        if OSIntNesting s = 0 then
          if OSLockNesting s = 0 then do {
            let s = OS_SchedNew s;
            ptcb \<leftarrow> prio_tbl s (OSPrioHighRdy s);
            let s = s\<lparr>OSTCBHighRdy := ptcb\<rparr>;
            if OSPrioHighRdy s \<noteq> OSPrioCur s then do {
              t \<leftarrow> tcb_at (OSTCBHighRdy s);
              let s = upd_tcb t (\<lambda>c. c\<lparr>OSTCBCtxSwCtr := OSTCBCtxSwCtr c + 1\<rparr>) s;
              let s = s\<lparr>OSCtxSwCtr := OSCtxSwCtr s + 1\<rparr>;
              Some (xPortTaskSwitch s)
            } else Some s
          } else Some s
        else Some s
      } else Some s)"

definition OSSchedLock :: "kst \<Rightarrow> kst" where
  "OSSchedLock s =
     (if OSRunning s then
        if OSIntNesting s = 0 then
          if OSLockNesting s < 255 then s\<lparr>OSLockNesting := OSLockNesting s + 1\<rparr> else s
        else s
      else s)"

definition OSSchedUnlock :: "kst \<Rightarrow> kst option" where
  "OSSchedUnlock s =
     (if OSRunning s then
        if OSIntNesting s = 0 then
          if OSLockNesting s > 0 then do {
            let s = s\<lparr>OSLockNesting := OSLockNesting s - 1\<rparr>;
            if OSLockNesting s = 0 then OS_Sched s else Some s
          } else Some s
        else Some s
      else Some s)"

text \<open>
  \<open>OSStart\<close> ends in the port's \<open>OSStartHighRdy\<close>, which sets \<open>OSRunning\<close> and loads the stack pointer of
  the first task from \<open>*OSTCBHighRdy\<close>; the timer and interrupt set-up it makes on the way is not part
  of the state.
\<close>

definition OSStart :: "kst \<Rightarrow> kst option" where
  "OSStart s =
     (if \<not> OSRunning s then do {
        let s = OS_SchedNew s;
        let s = s\<lparr>OSPrioCur := OSPrioHighRdy s\<rparr>;
        ptcb \<leftarrow> prio_tbl s (OSPrioHighRdy s);
        let s = s\<lparr>OSTCBHighRdy := ptcb\<rparr>;
        let s = s\<lparr>OSTCBCur := OSTCBHighRdy s\<rparr>;
        t \<leftarrow> tcb_at (OSTCBHighRdy s);
        Some (s\<lparr>OSRunning := True\<rparr>)
      } else Some s)"

section \<open>Names\<close>

text \<open>
  The loop stops at the terminator; a string without one is read past its end.  The length is a
  byte, so it wraps.
\<close>

fun OS_StrLen_loop :: "string \<Rightarrow> 8 word \<Rightarrow> 8 word option" where
  "OS_StrLen_loop [] len = None"
| "OS_StrLen_loop (c # psrc) len =
     (if c \<noteq> CHR 0x00 then OS_StrLen_loop psrc (len + 1) else Some len)"

definition OS_StrLen :: "cname \<Rightarrow> 8 word option" where
  "OS_StrLen psrc = (case psrc of None \<Rightarrow> Some 0 | Some str \<Rightarrow> OS_StrLen_loop str 0)"

text \<open>
  \<open>pname\<close> is the caller's variable for the name; the result is the length, what is written to the
  variable (if anything) and \<open>*perr\<close>.
\<close>

definition OSEventNameGet :: "vptr \<Rightarrow> vptr \<Rightarrow> kst \<Rightarrow> (8 word \<times> cname option \<times> os_err) option" where
  "OSEventNameGet pevent pname s =
     (if pevent = NULL then Some (0, None, OS_ERR_PEVENT_NULL)
      else if pname = NULL then Some (0, None, OS_ERR_PNAME_NULL)
      else if OSIntNesting s > 0 then Some (0, None, OS_ERR_NAME_GET_ISR)
      else do {
        e \<leftarrow> ev_at pevent;
        case OSEventType (OSEventTbl_ecb s e) of
          OS_EVENT_TYPE_UNUSED \<Rightarrow> Some (0, None, OS_ERR_EVENT_TYPE)
        | OS_EVENT_TYPE_FLAG \<Rightarrow> Some (0, None, OS_ERR_EVENT_TYPE)
        | _ \<Rightarrow> do {
            let name = OSEventName (OSEventTbl_ecb s e);
            len \<leftarrow> OS_StrLen name;
            Some (len, Some name, OS_ERR_NONE)
          }
      })"

definition OSEventNameSet :: "vptr \<Rightarrow> cname \<Rightarrow> kst \<Rightarrow> (os_err \<times> kst) option" where
  "OSEventNameSet pevent pname s =
     (if pevent = NULL then Some (OS_ERR_PEVENT_NULL, s)
      else if pname = None then Some (OS_ERR_PNAME_NULL, s)
      else if OSIntNesting s > 0 then Some (OS_ERR_NAME_SET_ISR, s)
      else do {
        e \<leftarrow> ev_at pevent;
        case OSEventType (OSEventTbl_ecb s e) of
          OS_EVENT_TYPE_UNUSED \<Rightarrow> Some (OS_ERR_EVENT_TYPE, s)
        | OS_EVENT_TYPE_FLAG \<Rightarrow> Some (OS_ERR_EVENT_TYPE, s)
        | _ \<Rightarrow> Some (OS_ERR_NONE, upd_ev e (\<lambda>c. c\<lparr>OSEventName := pname\<rparr>) s)
      })"

lemma OS_StrLen_loop_terminated:
  "CHR 0x00 \<notin> set cs \<Longrightarrow> OS_StrLen_loop (cs @ CHR 0x00 # rest) len = Some (len + of_nat (length cs))"
  by (induction cs arbitrary: len) (auto simp: algebra_simps)

lemma OSEventName_roundtrip:
  assumes "OSEventNameSet pevent (Some (cs @ [CHR 0x00])) s = Some (OS_ERR_NONE, s')"
    and "CHR 0x00 \<notin> set cs" "pname \<noteq> NULL"
  shows "OSEventNameGet pevent pname s' =
    Some (of_nat (length cs), Some (Some (cs @ [CHR 0x00])), OS_ERR_NONE)"
proof -
  have "OS_StrLen_loop (cs @ [CHR 0x00]) 0 = Some (of_nat (length cs))"
    using OS_StrLen_loop_terminated [OF assms(2), of "[]" 0] by simp
  with assms show ?thesis
    by (auto simp: OSEventNameSet_def OSEventNameGet_def OS_StrLen_def upd_ev_def
        split: if_splits bind_splits event_type.splits)
qed

end
