(* ===== verification/Os_Core_Inv.thy ===== *)
theory Os_Core_Inv
  imports Os_Core
begin

text \<open>
  What is always true of the kernel's data (\<open>kinv\<close>) and what each operation of the core does to it:
  the set of ready priorities, the set of waiting priorities of each event, and the fields of the
  task that is woken.  The operations of the core do not go wrong when \<open>kinv\<close> holds.
\<close>

section \<open>Views of the state\<close>

text \<open>Who the tasks are: priorities, masks, links and the priority table.\<close>

definition ids :: "kst \<Rightarrow> _" where
  "ids s = (OSTCBPrioTbl s, OSTCBList s, OSTCBFreeList s, OSTaskCtr s,
     \<lambda>t. (OSTCBPrio (OSTCBTbl s t), OSTCBX (OSTCBTbl s t), OSTCBY (OSTCBTbl s t),
          OSTCBBitX (OSTCBTbl s t), OSTCBBitY (OSTCBTbl s t),
          OSTCBNext (OSTCBTbl s t), OSTCBPrev (OSTCBTbl s t)))"

text \<open>The kernel objects apart from their wait lists, the other objects, and the clock.\<close>

definition ev_data :: "kst \<Rightarrow> nat \<Rightarrow> event_type \<times> vptr \<times> 16 word \<times> cname" where
  "ev_data s e = (OSEventType (OSEventTbl_ecb s e), OSEventPtr (OSEventTbl_ecb s e),
     OSEventCnt (OSEventTbl_ecb s e), OSEventName (OSEventTbl_ecb s e))"

definition stores :: "kst \<Rightarrow> _" where
  "stores s = (OSQTbl s, OSQFreeList s, OSMemTbl s, OSMemFreeList s, ptr_mem s,
     OSFlagTbl s, OSFlagFreeList s, OSFlagNodes s,
     OSTmrFree s, OSTmrUsed s, OSTmrTime s, OSTmrSem s, OSTmrTbl s, OSTmrFreeList s, OSTmrWheelTbl s)"

definition clock :: "kst \<Rightarrow> _" where
  "clock s = (OSTime s, OSTickStepState s, OSTmrSemSignal s, OSTmrCtr s)"

definition objs :: "kst \<Rightarrow> _" where
  "objs s = (ev_data s, OSEventFreeList s, stores s, clock s)"

text \<open>Nesting and the running flag.\<close>

definition ctl :: "kst \<Rightarrow> _" where
  "ctl s = (OSIntNesting s, OSLockNesting s, OSRunning s)"

definition cur :: "kst \<Rightarrow> vptr \<times> 8 word" where
  "cur s = (OSTCBCur s, OSPrioCur s)"

section \<open>The invariant\<close>

text \<open>The masks of a control block belong to its priority.\<close>

definition tcb_bits_ok :: "os_tcb \<Rightarrow> bool" where
  "tcb_bits_ok c \<longleftrightarrow> unat (OSTCBPrio c) < 64
     \<and> OSTCBY c = prio_y (OSTCBPrio c) \<and> OSTCBX c = prio_x (OSTCBPrio c)
     \<and> OSTCBBitY c = bit_mask (OSTCBY c) \<and> OSTCBBitX c = bit_mask (OSTCBX c)"

text \<open>Task \<open>t\<close> has priority \<open>p\<close>, and the priority table knows it.\<close>

definition owns :: "kst \<Rightarrow> nat \<Rightarrow> nat \<Rightarrow> bool" where
  "owns s t p \<longleftrightarrow> t < OS_N_TCBS \<and> OSTCBPrioTbl s p = TCBp t
     \<and> unat (OSTCBPrio (OSTCBTbl s t)) = p \<and> tcb_bits_ok (OSTCBTbl s t)"

definition owned :: "kst \<Rightarrow> nat \<Rightarrow> bool" where
  "owned s p \<longleftrightarrow> (case OSTCBPrioTbl s p of TCBp t \<Rightarrow> owns s t p | _ \<Rightarrow> False)"

text \<open>An entry of the priority table: free, reserved, or a task that is known by its own priority.\<close>

definition entry_ok :: "kst \<Rightarrow> vptr \<Rightarrow> bool" where
  "entry_ok s v \<longleftrightarrow>
     (case v of TCBp t \<Rightarrow> owns s t (unat (OSTCBPrio (OSTCBTbl s t)))
      | Addr a \<Rightarrow> a = 0 \<or> a = 1 | _ \<Rightarrow> False)"

text \<open>
  The task list runs through the control blocks of exactly the tasks, each once, and ends with the
  idle task.
\<close>

definition tasks_ok :: "kst \<Rightarrow> bool" where
  "tasks_ok s \<longleftrightarrow> (\<exists>ts. path TCBp (\<lambda>t. OSTCBNext (OSTCBTbl s t)) (OSTCBList s) ts \<and> distinct ts \<and> ts \<noteq> []
     \<and> OSTCBPrio (OSTCBTbl s (last ts)) = OS_TASK_IDLE_PRIO \<and> set ts = {t. \<exists>p. owns s t p})"

definition multi_ok :: "vptr list option \<Rightarrow> bool" where
  "multi_ok ps \<longleftrightarrow> (case ps of None \<Rightarrow> True | Some es \<Rightarrow> list_all (\<lambda>v. ev_at v \<noteq> None) es)"

text \<open>
  The invariant without the running task: the bitmaps are consistent, whoever is ready or waits is
  a task, the idle task is always ready, and the task list holds the tasks.
\<close>

definition kinv0 :: "kst \<Rightarrow> bool" where
  "kinv0 s \<longleftrightarrow>
     bm_ok (rdy_bm s) \<and> (\<forall>e<OS_MAX_EVENTS. bm_ok (ev_bm s e))
     \<and> (\<forall>p<64. p \<in> rdy s \<longrightarrow> owned s p)
     \<and> (\<forall>e<OS_MAX_EVENTS. \<forall>p<64. p \<in> waiters s e \<longrightarrow> owned s p)
     \<and> (\<forall>p<64. entry_ok s (OSTCBPrioTbl s p))
     \<and> (\<forall>t<OS_N_TCBS. multi_ok (OSTCBEventMultiPtr (OSTCBTbl s t)))
     \<and> 63 \<in> rdy s \<and> tasks_ok s"

definition cur_ok :: "kst \<Rightarrow> bool" where
  "cur_ok s \<longleftrightarrow> (case OSTCBCur s of TCBp t \<Rightarrow> owns s t (unat (OSPrioCur s)) | _ \<Rightarrow> False)"

definition kinv :: "kst \<Rightarrow> bool" where
  "kinv s \<longleftrightarrow> kinv0 s \<and> cur_ok s"

lemma ownedE:
  assumes "owned s p"
  obtains t where "OSTCBPrioTbl s p = TCBp t" "owns s t p"
  using assms by (auto simp: owned_def split: vptr.splits)

lemma owns_owned: "owns s t p \<Longrightarrow> owned s p"
  by (simp add: owned_def owns_def)

lemma owns_less_64: "owns s t p \<Longrightarrow> p < 64"
  by (auto simp: owns_def tcb_bits_ok_def)

lemma owns_unique: "owns s t p \<Longrightarrow> owns s t' p \<Longrightarrow> t = t'"
  by (simp add: owns_def)

lemma owns_cong: "ids s = ids s' \<Longrightarrow> owns s = owns s'"
  by (auto simp: ids_def owns_def tcb_bits_ok_def fun_eq_iff)

lemma owned_cong: "ids s = ids s' \<Longrightarrow> owned s = owned s'"
  using owns_cong [of s s'] by (auto simp: owned_def ids_def fun_eq_iff split: vptr.splits)

lemma tasks_ok_cong: "ids s = ids s' \<Longrightarrow> tasks_ok s = tasks_ok s'"
  using owns_cong [of s s'] by (simp add: tasks_ok_def ids_def fun_eq_iff)

lemma entry_ok_cong: "ids s = ids s' \<Longrightarrow> entry_ok s = entry_ok s'"
  using owns_cong [of s s'] by (auto simp: entry_ok_def ids_def fun_eq_iff split: vptr.splits)

lemma cur_ok_cong: "ids s = ids s' \<Longrightarrow> cur s = cur s' \<Longrightarrow> cur_ok s = cur_ok s'"
  using owns_cong [of s s'] by (auto simp: cur_ok_def cur_def split: vptr.splits)

lemma rdy_less_64: "p \<in> rdy s \<Longrightarrow> p < 64"
  by (simp add: rdy_def bm_members_less)

lemma waiters_less_64: "p \<in> waiters s e \<Longrightarrow> p < 64"
  by (simp add: waiters_def bm_members_less)

lemma finite_rdy [simp]: "finite (rdy s)" and finite_waiters [simp]: "finite (waiters s e)"
  by (simp_all add: rdy_def waiters_def)

lemma kinvE:
  assumes "kinv s"
  obtains t where "OSTCBCur s = TCBp t" "owns s t (unat (OSPrioCur s))" "kinv0 s"
  using assms by (auto simp: kinv_def cur_ok_def split: vptr.splits)

lemma kinv0_rdy: "kinv0 s \<Longrightarrow> p \<in> rdy s \<Longrightarrow> owned s p"
  by (simp add: kinv0_def rdy_less_64)

lemma kinv0_waiters: "kinv0 s \<Longrightarrow> e < OS_MAX_EVENTS \<Longrightarrow> p \<in> waiters s e \<Longrightarrow> owned s p"
  by (simp add: kinv0_def waiters_less_64)

section \<open>What the primitive updates do to the views\<close>

lemma views_set_rdy_bm [simp, frame]:
  "rdy (set_rdy_bm b s) = bm_members b" "rdy_bm (set_rdy_bm b s) = b"
  "ev_bm (set_rdy_bm b s) = ev_bm s" "waiters (set_rdy_bm b s) = waiters s"
  "ids (set_rdy_bm b s) = ids s" "objs (set_rdy_bm b s) = objs s"
  "ctl (set_rdy_bm b s) = ctl s" "cur (set_rdy_bm b s) = cur s"
  "OSTCBTbl (set_rdy_bm b s) = OSTCBTbl s"
  by (simp_all add: rdy_def waiters_def kernel_defs ids_def objs_def ev_data_def stores_def clock_def
      ctl_def cur_def fun_eq_iff)

lemma views_set_ev_bm [simp, frame]:
  "rdy (set_ev_bm e b s) = rdy s" "rdy_bm (set_ev_bm e b s) = rdy_bm s"
  "ev_bm (set_ev_bm e b s) = (ev_bm s)(e := b)"
  "waiters (set_ev_bm e b s) = (waiters s)(e := bm_members b)"
  "ids (set_ev_bm e b s) = ids s" "objs (set_ev_bm e b s) = objs s"
  "ctl (set_ev_bm e b s) = ctl s" "cur (set_ev_bm e b s) = cur s"
  "OSTCBTbl (set_ev_bm e b s) = OSTCBTbl s"
  by (auto simp: rdy_def waiters_def kernel_defs ids_def objs_def ev_data_def stores_def clock_def
      ctl_def cur_def fun_eq_iff)

lemma views_upd_tcb [simp, frame]:
  "rdy (upd_tcb t f s) = rdy s" "rdy_bm (upd_tcb t f s) = rdy_bm s"
  "ev_bm (upd_tcb t f s) = ev_bm s" "waiters (upd_tcb t f s) = waiters s"
  "objs (upd_tcb t f s) = objs s" "ctl (upd_tcb t f s) = ctl s" "cur (upd_tcb t f s) = cur s"
  "OSTCBTbl (upd_tcb t f s) = (OSTCBTbl s)(t := f (OSTCBTbl s t))"
  "OSTCBPrioTbl (upd_tcb t f s) = OSTCBPrioTbl s"
  by (simp_all add: rdy_def waiters_def kernel_defs objs_def ev_data_def stores_def clock_def
      ctl_def cur_def fun_eq_iff)

lemma ids_upd_tcb [simp, frame]:
  assumes "OSTCBPrio (f (OSTCBTbl s t)) = OSTCBPrio (OSTCBTbl s t)"
    "OSTCBX (f (OSTCBTbl s t)) = OSTCBX (OSTCBTbl s t)"
    "OSTCBY (f (OSTCBTbl s t)) = OSTCBY (OSTCBTbl s t)"
    "OSTCBBitX (f (OSTCBTbl s t)) = OSTCBBitX (OSTCBTbl s t)"
    "OSTCBBitY (f (OSTCBTbl s t)) = OSTCBBitY (OSTCBTbl s t)"
    "OSTCBNext (f (OSTCBTbl s t)) = OSTCBNext (OSTCBTbl s t)"
    "OSTCBPrev (f (OSTCBTbl s t)) = OSTCBPrev (OSTCBTbl s t)"
  shows "ids (upd_tcb t f s) = ids s"
  using assms by (auto simp: kernel_defs ids_def fun_eq_iff)

lemma views_upd_ev [simp, frame]:
  "rdy (upd_ev e f s) = rdy s" "rdy_bm (upd_ev e f s) = rdy_bm s"
  "ids (upd_ev e f s) = ids s" "ctl (upd_ev e f s) = ctl s" "cur (upd_ev e f s) = cur s"
  "stores (upd_ev e f s) = stores s" "clock (upd_ev e f s) = clock s"
  "OSTCBTbl (upd_ev e f s) = OSTCBTbl s"
  "OSEventFreeList (upd_ev e f s) = OSEventFreeList s"
  "OSEventTbl_ecb (upd_ev e f s) = (OSEventTbl_ecb s)(e := f (OSEventTbl_ecb s e))"
  by (simp_all add: rdy_def kernel_defs ids_def stores_def clock_def ctl_def cur_def fun_eq_iff)

lemma lists_upd_ev [simp, frame]:
  assumes "OSEventGrp (f (OSEventTbl_ecb s e)) = OSEventGrp (OSEventTbl_ecb s e)"
    "OSEventTbl (f (OSEventTbl_ecb s e)) = OSEventTbl (OSEventTbl_ecb s e)"
  shows "ev_bm (upd_ev e f s) = ev_bm s" "waiters (upd_ev e f s) = waiters s"
proof -
  show "ev_bm (upd_ev e f s) = ev_bm s" using assms by (auto simp: kernel_defs)
  then show "waiters (upd_ev e f s) = waiters s" by (simp add: waiters_def fun_eq_iff)
qed

lemma prio_tbl_ids: "ids s = ids s' \<Longrightarrow> prio_tbl s = prio_tbl s'"
  by (simp add: ids_def prio_tbl_def fun_eq_iff)

lemma ids_PrioTbl: "ids s = ids s' \<Longrightarrow> OSTCBPrioTbl s = OSTCBPrioTbl s'"
  and ids_Prio: "ids s = ids s' \<Longrightarrow> OSTCBPrio (OSTCBTbl s t) = OSTCBPrio (OSTCBTbl s' t)"
  by (auto simp: ids_def fun_eq_iff)

lemma tcb_bits_ok_cong: "ids s = ids s' \<Longrightarrow> tcb_bits_ok (OSTCBTbl s t) = tcb_bits_ok (OSTCBTbl s' t)"
  by (auto simp: ids_def tcb_bits_ok_def fun_eq_iff)

text \<open>With the masks of a task, the inline sequences are the operations on its priority.\<close>

lemma rdy_add_own:
  "tcb_bits_ok c \<Longrightarrow> rdy_add (OSTCBY c) (OSTCBBitY c) (OSTCBBitX c) s
    = Some (set_rdy_bm (bm_add (OSTCBPrio c) (rdy_bm s)) s)"
  and rdy_del_own:
  "tcb_bits_ok c \<Longrightarrow> rdy_del (OSTCBY c) (OSTCBBitY c) (OSTCBBitX c) s
    = Some (set_rdy_bm (bm_take_out (OSTCBPrio c) (rdy_bm s)) s)"
  and ev_add_own:
  "tcb_bits_ok c \<Longrightarrow> ev_add e (OSTCBY c) (OSTCBBitY c) (OSTCBBitX c) s
    = Some (set_ev_bm e (bm_add (OSTCBPrio c) (ev_bm s e)) s)"
  and ev_del_own:
  "tcb_bits_ok c \<Longrightarrow> ev_del e (OSTCBY c) (OSTCBBitY c) (OSTCBBitX c) s
    = Some (set_ev_bm e (bm_take_out (OSTCBPrio c) (ev_bm s e)) s)"
  by (simp_all add: tcb_bits_ok_def rdy_add_def rdy_del_def ev_add_def ev_del_def
      bm_add_def bm_take_out_def prio_y_less)

lemmas mask_own = rdy_add_own rdy_del_own ev_add_own ev_del_own

lemma owns_bits: "owns s t p \<Longrightarrow> tcb_bits_ok (OSTCBTbl s t)"
  and owns_prio: "owns s t p \<Longrightarrow> unat (OSTCBPrio (OSTCBTbl s t)) = p"
  and owns_index: "owns s t p \<Longrightarrow> t < OS_N_TCBS"
  and owns_PrioTbl: "owns s t p \<Longrightarrow> OSTCBPrioTbl s p = TCBp t"
  by (simp_all add: owns_def)

lemma members_own:
  assumes "owns s t p"
  shows "bm_members (bm_take_out (OSTCBPrio (OSTCBTbl s t)) b) = bm_members b - {p}"
    and "bm_members (bm_add (OSTCBPrio (OSTCBTbl s t)) b) = insert p (bm_members b)"
  using assms owns_less_64 [OF assms]
  by (auto simp: bm.members_take_out bm.members_add owns_prio [OF assms])

section \<open>Changes that keep the invariant\<close>

text \<open>
  \<open>kinv0\<close> depends on the bitmaps, the identities and the multiple-wait pointers only, so an update
  keeps it when it changes the bitmaps by adding or taking out the priority of a task.
\<close>

lemma kinv0_intro:
  assumes "kinv0 s" "ids s' = ids s"
    and "bm_ok (rdy_bm s')" "\<And>e. e < OS_MAX_EVENTS \<Longrightarrow> bm_ok (ev_bm s' e)"
    and "\<And>p. p \<in> rdy s' \<Longrightarrow> p \<in> rdy s \<or> owned s p"
    and "\<And>e p. e < OS_MAX_EVENTS \<Longrightarrow> p \<in> waiters s' e \<Longrightarrow> p \<in> waiters s e \<or> owned s p"
    and "\<And>t. t < OS_N_TCBS \<Longrightarrow> multi_ok (OSTCBEventMultiPtr (OSTCBTbl s' t))"
    and "63 \<in> rdy s'"
  shows "kinv0 s'"
proof -
  have "owned s' = owned s" "entry_ok s' = entry_ok s" "OSTCBPrioTbl s' = OSTCBPrioTbl s"
    "tasks_ok s' = tasks_ok s"
    using assms(2) by (rule owned_cong, rule entry_ok_cong, rule ids_PrioTbl, rule tasks_ok_cong)
  moreover have "\<forall>p<64. p \<in> rdy s' \<longrightarrow> owned s p"
    using assms(1,5) unfolding kinv0_def by blast
  moreover have "\<forall>e<OS_MAX_EVENTS. \<forall>p<64. p \<in> waiters s' e \<longrightarrow> owned s p"
    using assms(1,6) unfolding kinv0_def by blast
  ultimately show ?thesis
    using assms by (simp add: kinv0_def)
qed

lemma kinv0_same:
  assumes "kinv0 s" "ids s' = ids s" "rdy_bm s' = rdy_bm s" "ev_bm s' = ev_bm s"
    and "\<And>t. t < OS_N_TCBS \<Longrightarrow> OSTCBEventMultiPtr (OSTCBTbl s' t) = OSTCBEventMultiPtr (OSTCBTbl s t)
          \<or> OSTCBEventMultiPtr (OSTCBTbl s' t) = None"
  shows "kinv0 s'"
proof (rule kinv0_intro [OF assms(1,2)])
  show "multi_ok (OSTCBEventMultiPtr (OSTCBTbl s' t))" if "t < OS_N_TCBS" for t
    using assms(5) [OF that] assms(1) that by (auto simp: kinv0_def multi_ok_def)
qed (use assms in \<open>auto simp: kinv0_def rdy_def waiters_def\<close>)

lemma kinv0_make_ready:
  assumes "kinv0 s" "owns s t p"
  shows "kinv0 (set_rdy_bm (bm_add (OSTCBPrio (OSTCBTbl s t)) (rdy_bm s)) s)"
  using assms owns_bits [OF assms(2)] owns_owned [OF assms(2)] owns_prio [OF assms(2)]
  by (intro kinv0_intro [OF assms(1)])
    (auto simp: kinv0_def tcb_bits_ok_def bm.members_add bm.inv_add rdy_def)

lemma kinv0_unready:
  assumes "kinv0 s" "owns s t p" "p \<noteq> 63"
  shows "kinv0 (set_rdy_bm (bm_take_out (OSTCBPrio (OSTCBTbl s t)) (rdy_bm s)) s)"
  using assms owns_bits [OF assms(2)] owns_prio [OF assms(2)]
  by (intro kinv0_intro [OF assms(1)])
    (auto simp: kinv0_def tcb_bits_ok_def bm.members_take_out bm.inv_take_out rdy_def)

lemma kinv0_wait:
  assumes "kinv0 s" "owns s t p" "e < OS_MAX_EVENTS"
  shows "kinv0 (set_ev_bm e (bm_add (OSTCBPrio (OSTCBTbl s t)) (ev_bm s e)) s)"
  using assms owns_bits [OF assms(2)] owns_owned [OF assms(2)] owns_prio [OF assms(2)]
  by (intro kinv0_intro [OF assms(1)])
    (auto simp: kinv0_def tcb_bits_ok_def bm.members_add bm.inv_add waiters_def split: if_splits)

lemma kinv0_unwait:
  assumes "kinv0 s" "owns s t p" "e < OS_MAX_EVENTS"
  shows "kinv0 (set_ev_bm e (bm_take_out (OSTCBPrio (OSTCBTbl s t)) (ev_bm s e)) s)"
  using assms owns_bits [OF assms(2)]
  by (intro kinv0_intro [OF assms(1)])
    (auto simp: kinv0_def tcb_bits_ok_def bm.members_take_out bm.inv_take_out waiters_def
      split: if_splits)

definition frames :: "kst \<Rightarrow> kst \<Rightarrow> bool" where
  "frames s s' \<longleftrightarrow> ids s' = ids s \<and> objs s' = objs s \<and> ctl s' = ctl s"

lemma frames_refl [simp]: "frames s s"
  by (simp add: frames_def)

lemma frames_trans [trans]: "frames s s' \<Longrightarrow> frames s' s'' \<Longrightarrow> frames s s''"
  by (simp add: frames_def)

section \<open>Taking a task off wait lists\<close>

text \<open>Priority \<open>p\<close> is taken off the wait lists of the events in \<open>E\<close>.\<close>

definition leave :: "nat \<Rightarrow> nat set \<Rightarrow> (nat \<Rightarrow> nat set) \<Rightarrow> (nat \<Rightarrow> nat set)" where
  "leave p E w = (\<lambda>e. if e \<in> E then w e - {p} else w e)"

lemma leave_empty [simp]: "leave p {} w = w"
  by (simp add: leave_def)

lemma leave_leave [simp]: "leave p E (leave p F w) = leave p (E \<union> F) w"
  by (auto simp: leave_def fun_eq_iff)

lemma fun_upd_leave: "w(e := w e - {p}) = leave p {e} w"
  by (auto simp: leave_def fun_eq_iff)

lemma leave_in [simp]: "e \<in> E \<Longrightarrow> leave p E w e = w e - {p}"
  and leave_notin [simp]: "e \<notin> E \<Longrightarrow> leave p E w e = w e"
  by (simp_all add: leave_def)

lemma leave_subset: "leave p E w e \<subseteq> w e"
  by (auto simp: leave_def)

definition evs_of :: "vptr list \<Rightarrow> nat set" where
  "evs_of es = {e. EVp e \<in> set es}"

definition multi_evs :: "os_tcb \<Rightarrow> nat set" where
  "multi_evs c = (case OSTCBEventMultiPtr c of None \<Rightarrow> {} | Some es \<Rightarrow> evs_of es)"

lemma ev_del_all_ok:
  assumes "kinv0 s" "owns s t p" "list_all (\<lambda>v. ev_at v \<noteq> None) es"
    and c: "c = OSTCBTbl s t"
  shows "ok (ev_del_all es (OSTCBY c) (OSTCBBitY c) (OSTCBBitX c) s)
    (\<lambda>s'. kinv0 s' \<and> frames s s' \<and> cur s' = cur s \<and> OSTCBTbl s' = OSTCBTbl s
       \<and> rdy_bm s' = rdy_bm s
       \<and> waiters s' = leave p (evs_of es) (waiters s))"
  using assms
proof (induction es arbitrary: s)
  case Nil
  then show ?case by (simp add: evs_of_def)
next
  case (Cons v es)
  from Cons.prems(3) obtain e where e: "v = EVp e" "e < OS_MAX_EVENTS" by auto
  let ?b = "bm_take_out (OSTCBPrio c) (ev_bm s e)"
  let ?s = "set_ev_bm e ?b s"
  have bits: "tcb_bits_ok c" "unat (OSTCBPrio c) = p"
    using Cons.prems(2,4) by (auto simp: owns_def)
  have inv: "kinv0 ?s"
    using kinv0_unwait [OF Cons.prems(1,2) e(2)] Cons.prems(4) by simp
  have own: "owns ?s t p" using Cons.prems(2) owns_cong [of ?s s] by simp
  have w: "bm_members ?b = waiters s e - {p}"
    using bits by (simp add: waiters_def bm.members_take_out tcb_bits_ok_def)
  have "ok (ev_del_all es (OSTCBY c) (OSTCBBitY c) (OSTCBBitX c) ?s)
    (\<lambda>s'. kinv0 s' \<and> frames ?s s' \<and> cur s' = cur ?s \<and> OSTCBTbl s' = OSTCBTbl ?s
       \<and> rdy_bm s' = rdy_bm ?s
       \<and> waiters s' = leave p (evs_of es) (waiters ?s))"
    by (rule Cons.IH [OF inv own]) (use Cons.prems in simp_all)
  moreover have "evs_of es \<union> {e} = evs_of (v # es)"
    using e by (auto simp: evs_of_def)
  ultimately show ?case
    using e bits w
    by (auto simp: ok_simps mask_own frames_def fun_upd_leave elim!: ok_mono)
qed

lemma OS_EventTaskRemove_ok:
  assumes "kinv0 s" "owns s t p" "e < OS_MAX_EVENTS"
  shows "ok (OS_EventTaskRemove (TCBp t) (EVp e) s)
    (\<lambda>s'. kinv0 s' \<and> frames s s' \<and> cur s' = cur s \<and> rdy_bm s' = rdy_bm s
       \<and> waiters s' = leave p {e} (waiters s)
       \<and> OSTCBTbl s' = (OSTCBTbl s)(t := (OSTCBTbl s t)\<lparr>OSTCBEventPtr := NULL\<rparr>))"
proof -
  let ?c = "OSTCBTbl s t"
  let ?s = "set_ev_bm e (bm_take_out (OSTCBPrio ?c) (ev_bm s e)) s"
  have "kinv0 ?s" using assms by (rule kinv0_unwait)
  then have "kinv0 (upd_tcb t (\<lambda>c. c\<lparr>OSTCBEventPtr := NULL\<rparr>) ?s)"
    by (rule kinv0_same) simp_all
  moreover have "(waiters s)(e := bm_members (ev_bm s e) - {p}) = leave p {e} (waiters s)"
    by (auto simp: leave_def waiters_def fun_eq_iff)
  ultimately show ?thesis
    using assms
    by (simp add: OS_EventTaskRemove_def ok_simps mask_own frames_def owns_index Let_def
        owns_bits members_own)
qed

section \<open>Readying the highest-priority waiter\<close>

text \<open>The task that \<open>OS_EventTaskRdy\<close> wakes, and what it leaves in its control block.\<close>

definition woken :: "vptr \<Rightarrow> 8 word \<Rightarrow> pend_status \<Rightarrow> os_tcb \<Rightarrow> os_tcb \<Rightarrow> bool" where
  "woken pmsg msk pend_stat c c' \<longleftrightarrow>
     OSTCBDly c' = 0 \<and> OSTCBMsg c' = pmsg \<and> OSTCBStat c' = OSTCBStat c AND NOT msk
     \<and> OSTCBStatPend c' = pend_stat \<and> OSTCBEventPtr c' = NULL \<and> OSTCBEventMultiPtr c' = None"

definition suspended :: "os_tcb \<Rightarrow> bool" where
  "suspended c \<longleftrightarrow> OSTCBStat c AND OS_STAT_SUSPEND \<noteq> 0"

lemma highest_waiter:
  assumes "kinv0 s" "e < OS_MAX_EVENTS" "waiters s e \<noteq> {}"
  shows "unat (bm_highest (ev_bm s e)) = Min (waiters s e)"
    and "\<exists>t. owns s t (Min (waiters s e))"
proof -
  have ok: "bm_ok (ev_bm s e)" using assms by (simp add: kinv0_def)
  then show "unat (bm_highest (ev_bm s e)) = Min (waiters s e)"
    using assms(3) by (simp add: waiters_def bm.highest_Min)
  have "Min (waiters s e) \<in> waiters s e" using assms(3) by simp
  then have "owned s (Min (waiters s e))" by (rule kinv0_waiters [OF assms(1,2)])
  then show "\<exists>t. owns s t (Min (waiters s e))" by (auto elim: ownedE)
qed

lemma unmap_bm_highest:
  "push_bit 3 (unmap (OSEventGrp c)) + unmap (OSEventTbl c (unat (unmap (OSEventGrp c))))
   = bm_highest (OSEventGrp c, OSEventTbl c)"
  by (simp add: bm_highest_def Let_def)

lemma unmap_row:
  assumes "bm_ok b" "bm_members b \<noteq> {}"
  shows "unmap (fst b) = prio_y (bm_highest b)"
proof -
  have g: "fst b \<noteq> 0" using assms by (simp add: bm_empty_iff)
  then have y8: "unat (unmap (fst b)) < 8" by (rule unmap_less_8)
  have "snd b (unat (unmap (fst b))) \<noteq> 0"
    using assms(1) g y8 unmap_bit [OF g] by (simp add: bm_ok_def)
  then have x8: "unat (unmap (snd b (unat (unmap (fst b))))) < 8" by (rule unmap_less_8)
  have "unat (prio_y (bm_highest b)) = unat (unmap (fst b))"
    using unat_row_col [OF y8 x8] x8 by (simp add: unat_prio_y bm_highest_def Let_def)
  then show ?thesis by (simp add: word_unat_eq_iff)
qed

lemma OS_EventTaskRdy_unlink_ok:
  assumes inv: "kinv0 s" and own: "owns s t p" and e: "e < OS_MAX_EVENTS"
  shows "ok (OS_EventTaskRdy_unlink (TCBp t) (EVp e) s) (\<lambda>s'.
      kinv0 s' \<and> frames s s' \<and> cur s' = cur s \<and> rdy s' = rdy s
    \<and> waiters s' = leave p (insert e (multi_evs (OSTCBTbl s t))) (waiters s)
    \<and> (\<exists>r. OSTCBTbl s' = (OSTCBTbl s)(t := (OSTCBTbl s t)
         \<lparr>OSTCBEventPtr := NULL, OSTCBEventMultiPtr := None, OSTCBEventMultiRdy := r\<rparr>)))"
  unfolding OS_EventTaskRdy_unlink_def ok_bind
proof (rule ok_mono [OF OS_EventTaskRemove_ok [OF inv own e]], elim conjE, goal_cases)
  case (1 s')
  have own': "owns s' t p" using own owns_cong [of s' s] 1(2) by (simp add: frames_def)
  have c': "OSTCBTbl s' t = (OSTCBTbl s t)\<lparr>OSTCBEventPtr := NULL\<rparr>" using 1 by simp
  show ?case
  proof (cases "OSTCBEventMultiPtr (OSTCBTbl s t)")
    case None
    then have "OSTCBTbl s t = (OSTCBTbl s t)\<lparr>OSTCBEventMultiPtr := None\<rparr>" by simp
    with 1 c' None owns_index [OF own] show ?thesis
      by (auto simp: rdy_def multi_evs_def intro!: exI [of _ "OSTCBEventMultiRdy (OSTCBTbl s t)"])
  next
    case (Some es)
    have valid: "list_all (\<lambda>v. ev_at v \<noteq> None) es"
      using inv owns_index [OF own] Some by (auto simp: kinv0_def multi_ok_def)
    have clear: "kinv0 (upd_tcb t (\<lambda>c. c\<lparr>OSTCBEventMultiPtr := None, OSTCBEventMultiRdy := EVp e\<rparr>) u)"
      if "kinv0 u" for u
      by (rule kinv0_same [OF that]) simp_all
    show ?thesis
      using ev_del_all_ok [OF 1(1) own' valid refl] Some 1 c' owns_index [OF own]
      by (auto simp: OS_EventTaskRemoveMulti_def ok_simps rdy_def frames_def clear multi_evs_def
          Un_commute elim!: ok_mono)
  qed
qed

lemma OS_EventTaskRdy_run:
  assumes inv: "kinv0 s" and e: "e < OS_MAX_EVENTS" and some: "waiters s e \<noteq> {}"
    and own: "owns s t (Min (waiters s e))"
    and s1_def: "s1 = upd_tcb t (\<lambda>c. c\<lparr>OSTCBDly := 0, OSTCBMsg := pmsg,
      OSTCBStat := OSTCBStat c AND NOT msk, OSTCBStatPend := pend_stat\<rparr>) s"
  shows "OS_EventTaskRdy (EVp e) pmsg msk pend_stat s = do {
      s' \<leftarrow> OS_EventTaskRdy_unlink (TCBp t) (EVp e)
        (if suspended (OSTCBTbl s1 t) then s1
         else set_rdy_bm (bm_add (OSTCBPrio (OSTCBTbl s t)) (rdy_bm s)) s1);
      Some (bm_highest (ev_bm s e), s') }"
proof -
  define c1 where "c1 = OSTCBTbl s1 t"
  have prio: "unat (bm_highest (ev_bm s e)) = Min (waiters s e)"
    by (rule highest_waiter(1) [OF inv e some])
  then have word: "OSTCBPrio (OSTCBTbl s t) = bm_highest (ev_bm s e)"
    using owns_prio [OF own] by (simp add: word_unat_eq_iff)
  have bits: "tcb_bits_ok c1" "OSTCBPrio c1 = OSTCBPrio (OSTCBTbl s t)"
    using owns_bits [OF own] by (simp_all add: c1_def s1_def tcb_bits_ok_def)
  have y: "unmap (OSEventGrp (OSEventTbl_ecb s e)) = OSTCBY c1"
    using unmap_row [of "ev_bm s e"] inv e some bits word
    by (simp add: kinv0_def waiters_def ev_bm_def tcb_bits_ok_def)
  have tbl: "prio_tbl s (bm_highest (ev_bm s e)) = Some (TCBp t)"
    using prio owns_less_64 [OF own] owns_PrioTbl [OF own] by (simp add: prio_tbl_def)
  have step: "(if OSTCBStat c1 AND OS_STAT_SUSPEND = OS_STAT_RDY
      then rdy_add (OSTCBY c1) (OSTCBBitY c1) (OSTCBBitX c1) s1 else Some s1)
    = Some (if suspended c1 then s1
        else set_rdy_bm (bm_add (OSTCBPrio (OSTCBTbl s t)) (rdy_bm s)) s1)"
    using rdy_add_own [OF bits(1), of s1] bits by (simp add: suspended_def s1_def)
  show ?thesis
    using e tbl y step owns_index [OF own]
    by (simp only: OS_EventTaskRdy_def ev_at.simps tcb_at.simps if_True bind.simps Let_def
        unmap_bm_highest ev_bm_def s1_def [symmetric] c1_def [symmetric])
qed

lemma OS_EventTaskRdy_ok:
  assumes inv: "kinv0 s" and e: "e < OS_MAX_EVENTS" and some: "waiters s e \<noteq> {}"
    and own: "owns s t (Min (waiters s e))"
  shows "ok (OS_EventTaskRdy (EVp e) pmsg msk pend_stat s) (\<lambda>(prio, s').
      unat prio = Min (waiters s e) \<and> kinv0 s' \<and> frames s s' \<and> cur s' = cur s
    \<and> waiters s' = leave (Min (waiters s e)) (insert e (multi_evs (OSTCBTbl s t))) (waiters s)
    \<and> rdy s' = (if suspended (OSTCBTbl s' t) then rdy s else insert (Min (waiters s e)) (rdy s))
    \<and> woken pmsg msk pend_stat (OSTCBTbl s t) (OSTCBTbl s' t)
    \<and> (\<forall>t'. t' \<noteq> t \<longrightarrow> OSTCBTbl s' t' = OSTCBTbl s t'))"
proof -
  let ?p = "Min (waiters s e)"
  define s1 where "s1 = upd_tcb t (\<lambda>c. c\<lparr>OSTCBDly := 0, OSTCBMsg := pmsg,
    OSTCBStat := OSTCBStat c AND NOT msk, OSTCBStatPend := pend_stat\<rparr>) s"
  define s2 where "s2 = (if suspended (OSTCBTbl s1 t) then s1
    else set_rdy_bm (bm_add (OSTCBPrio (OSTCBTbl s t)) (rdy_bm s)) s1)"
  have inv1: "kinv0 s1" by (rule kinv0_same [OF inv]) (simp_all add: s1_def)
  have own1: "owns s1 t ?p" using own owns_cong [of s1 s] by (simp add: s1_def)
  have inv2: "kinv0 s2"
    using inv1 kinv0_make_ready [OF inv1 own1] by (simp add: s2_def s1_def)
  have s2: "OSTCBTbl s2 = OSTCBTbl s1" "waiters s2 = waiters s" "frames s s2" "cur s2 = cur s"
    "rdy s2 = (if suspended (OSTCBTbl s1 t) then rdy s else insert ?p (rdy s))"
    using members_own(2) [OF own] by (simp_all add: s2_def s1_def frames_def rdy_def)
  have own2: "owns s2 t ?p" using own owns_cong [of s2 s] s2(3) by (simp add: frames_def)
  show ?thesis
    using OS_EventTaskRdy_unlink_ok [OF inv2 own2 e] s2 highest_waiter(1) [OF inv e some]
    unfolding OS_EventTaskRdy_run [OF inv e some own s1_def] ok_bind s2_def [symmetric]
    by (auto simp: woken_def suspended_def s1_def frames_def multi_evs_def elim!: ok_mono)
qed

section \<open>Making the running task wait\<close>

lemma OS_EventTaskWait_ok:
  assumes inv: "kinv0 s" and cur: "OSTCBCur s = TCBp t" and own: "owns s t p"
    and idle: "p \<noteq> 63" and e: "e < OS_MAX_EVENTS"
  shows "ok (OS_EventTaskWait (EVp e) s) (\<lambda>s'.
      kinv0 s' \<and> frames s s' \<and> cur s' = cur s \<and> rdy s' = rdy s - {p}
    \<and> waiters s' = (waiters s)(e := insert p (waiters s e))
    \<and> OSTCBTbl s' = (OSTCBTbl s)(t := (OSTCBTbl s t)\<lparr>OSTCBEventPtr := EVp e\<rparr>))"
proof -
  let ?c = "OSTCBTbl s t"
  define s1 where "s1 = upd_tcb t (\<lambda>c. c\<lparr>OSTCBEventPtr := EVp e\<rparr>) s"
  define s2 where "s2 = set_ev_bm e (bm_add (OSTCBPrio ?c) (ev_bm s e)) s1"
  have bits: "tcb_bits_ok (OSTCBTbl s1 t)" and prio: "OSTCBPrio (OSTCBTbl s1 t) = OSTCBPrio ?c"
    using owns_bits [OF own] by (simp_all add: s1_def tcb_bits_ok_def)
  have inv1: "kinv0 s1" by (rule kinv0_same [OF inv]) (simp_all add: s1_def)
  have own1: "owns s1 t p" using own owns_cong [of s1 s] by (simp add: s1_def)
  have inv2: "kinv0 s2"
    using kinv0_wait [OF inv1 own1 e] prio by (simp add: s2_def s1_def)
  have own2: "owns s2 t p" using own1 owns_cong [of s2 s1] by (simp add: s2_def)
  have inv3: "kinv0 (set_rdy_bm (bm_take_out (OSTCBPrio ?c) (rdy_bm s)) s2)"
    using kinv0_unready [OF inv2 own2 idle] prio by (simp add: s2_def s1_def)
  have run: "OS_EventTaskWait (EVp e) s
      = Some (set_rdy_bm (bm_take_out (OSTCBPrio ?c) (rdy_bm s)) s2)"
    using cur e owns_index [OF own] ev_add_own [OF bits, of e s1] rdy_del_own [OF bits, of s2] prio
    by (simp add: OS_EventTaskWait_def s1_def [symmetric] Let_def)
      (simp add: s2_def s1_def)
  show ?thesis
    unfolding run using inv3 members_own [OF own]
    by (auto simp: s2_def s1_def frames_def rdy_def waiters_def fun_eq_iff)
qed

section \<open>The scheduler\<close>

text \<open>The control blocks, but for the count of switches that the scheduler keeps in them.\<close>

definition tcbs :: "kst \<Rightarrow> nat \<Rightarrow> os_tcb" where
  "tcbs s = (\<lambda>t. (OSTCBTbl s t)\<lparr>OSTCBCtxSwCtr := 0\<rparr>)"

lemma tcbs_eq_iff:
  "tcbs s' = tcbs s \<longleftrightarrow> (\<forall>t. \<exists>n. OSTCBTbl s' t = (OSTCBTbl s t)\<lparr>OSTCBCtxSwCtr := n\<rparr>)"
proof
  assume eq: "tcbs s' = tcbs s"
  show "\<forall>t. \<exists>n. OSTCBTbl s' t = (OSTCBTbl s t)\<lparr>OSTCBCtxSwCtr := n\<rparr>"
  proof
    fix t
    have "(OSTCBTbl s' t)\<lparr>OSTCBCtxSwCtr := 0\<rparr> = (OSTCBTbl s t)\<lparr>OSTCBCtxSwCtr := 0\<rparr>"
      using eq by (simp add: tcbs_def fun_eq_iff)
    then have "OSTCBTbl s' t = (OSTCBTbl s t)\<lparr>OSTCBCtxSwCtr := OSTCBCtxSwCtr (OSTCBTbl s' t)\<rparr>"
      by (cases "OSTCBTbl s' t"; cases "OSTCBTbl s t") simp
    then show "\<exists>n. OSTCBTbl s' t = (OSTCBTbl s t)\<lparr>OSTCBCtxSwCtr := n\<rparr>" ..
  qed
next
  assume *: "\<forall>t. \<exists>n. OSTCBTbl s' t = (OSTCBTbl s t)\<lparr>OSTCBCtxSwCtr := n\<rparr>"
  show "tcbs s' = tcbs s"
  proof
    fix t
    from * obtain n where "OSTCBTbl s' t = (OSTCBTbl s t)\<lparr>OSTCBCtxSwCtr := n\<rparr>" by blast
    then show "tcbs s' t = tcbs s t" by (simp add: tcbs_def)
  qed
qed

lemma tcbs_fields:
  assumes "tcbs s' = tcbs s"
  shows "OSTCBStat (OSTCBTbl s' t) = OSTCBStat (OSTCBTbl s t)"
    and "OSTCBStatPend (OSTCBTbl s' t) = OSTCBStatPend (OSTCBTbl s t)"
    and "OSTCBDly (OSTCBTbl s' t) = OSTCBDly (OSTCBTbl s t)"
    and "OSTCBMsg (OSTCBTbl s' t) = OSTCBMsg (OSTCBTbl s t)"
    and "OSTCBEventPtr (OSTCBTbl s' t) = OSTCBEventPtr (OSTCBTbl s t)"
    and "OSTCBEventMultiPtr (OSTCBTbl s' t) = OSTCBEventMultiPtr (OSTCBTbl s t)"
    and "OSTCBEventMultiRdy (OSTCBTbl s' t) = OSTCBEventMultiRdy (OSTCBTbl s t)"
    and "OSTCBPrio (OSTCBTbl s' t) = OSTCBPrio (OSTCBTbl s t)"
proof -
  obtain n where "OSTCBTbl s' t = (OSTCBTbl s t)\<lparr>OSTCBCtxSwCtr := n\<rparr>"
    using assms tcbs_eq_iff by blast
  then show "OSTCBStat (OSTCBTbl s' t) = OSTCBStat (OSTCBTbl s t)"
    and "OSTCBStatPend (OSTCBTbl s' t) = OSTCBStatPend (OSTCBTbl s t)"
    and "OSTCBDly (OSTCBTbl s' t) = OSTCBDly (OSTCBTbl s t)"
    and "OSTCBMsg (OSTCBTbl s' t) = OSTCBMsg (OSTCBTbl s t)"
    and "OSTCBEventPtr (OSTCBTbl s' t) = OSTCBEventPtr (OSTCBTbl s t)"
    and "OSTCBEventMultiPtr (OSTCBTbl s' t) = OSTCBEventMultiPtr (OSTCBTbl s t)"
    and "OSTCBEventMultiRdy (OSTCBTbl s' t) = OSTCBEventMultiRdy (OSTCBTbl s t)"
    and "OSTCBPrio (OSTCBTbl s' t) = OSTCBPrio (OSTCBTbl s t)"
    by simp_all
qed

text \<open>The running task is the one the scheduler wants, unless switching is held back.\<close>

definition settled :: "kst \<Rightarrow> bool" where
  "settled s \<longleftrightarrow> (OSIntNesting s = 0 \<and> OSLockNesting s = 0 \<longrightarrow> unat (OSPrioCur s) = Min (rdy s))"

lemma settled_iff: "settled s \<longleftrightarrow>
    (fst (ctl s) = 0 \<and> fst (snd (ctl s)) = 0 \<longrightarrow> unat (snd (cur s)) = Min (rdy s))"
  by (simp add: settled_def ctl_def cur_def)

text \<open>What the scheduler may change: the running task and counters.\<close>

definition resched :: "kst \<Rightarrow> kst \<Rightarrow> bool" where
  "resched s s' \<longleftrightarrow> frames s s' \<and> rdy_bm s' = rdy_bm s \<and> ev_bm s' = ev_bm s \<and> tcbs s' = tcbs s"

lemma reschedD:
  assumes "resched s s'"
  shows "frames s s'" "rdy s' = rdy s" "waiters s' = waiters s" "tcbs s' = tcbs s"
    "ids s' = ids s" "objs s' = objs s" "ctl s' = ctl s"
  using assms by (auto simp: resched_def frames_def rdy_def waiters_def fun_eq_iff)

lemma kinv0_resched:
  assumes "kinv0 s" "resched s s'"
  shows "kinv0 s'"
proof (rule kinv0_same [OF assms(1)])
  have "tcbs s' = tcbs s" using assms(2) by (simp add: resched_def)
  then show "OSTCBEventMultiPtr (OSTCBTbl s' t) = OSTCBEventMultiPtr (OSTCBTbl s t)
      \<or> OSTCBEventMultiPtr (OSTCBTbl s' t) = None" for t
    by (rule tcbs_fields(6) [THEN disjI1])
qed (use assms(2) in \<open>simp_all add: resched_def frames_def\<close>)

lemma highest_ready:
  assumes "kinv0 s"
  shows "unat (bm_highest (rdy_bm s)) = Min (rdy s)" "\<exists>t. owns s t (Min (rdy s))"
    and "Min (rdy s) \<in> rdy s"
proof -
  have ne: "rdy s \<noteq> {}" using assms by (auto simp: kinv0_def)
  then show "unat (bm_highest (rdy_bm s)) = Min (rdy s)"
    using assms by (simp add: kinv0_def rdy_def bm.highest_Min)
  show "Min (rdy s) \<in> rdy s" using ne by simp
  then show "\<exists>t. owns s t (Min (rdy s))" using kinv0_rdy [OF assms] by (auto elim: ownedE)
qed

text \<open>The body that \<open>OS_Sched\<close> and \<open>OSIntExit\<close> share.\<close>

definition switch :: "kst \<Rightarrow> kst option" where
  "switch s = do {
     let s = OS_SchedNew s;
     ptcb \<leftarrow> prio_tbl s (OSPrioHighRdy s);
     let s = s\<lparr>OSTCBHighRdy := ptcb\<rparr>;
     if OSPrioHighRdy s \<noteq> OSPrioCur s then do {
       t \<leftarrow> tcb_at (OSTCBHighRdy s);
       let s = upd_tcb t (\<lambda>c. c\<lparr>OSTCBCtxSwCtr := OSTCBCtxSwCtr c + 1\<rparr>) s;
       let s = s\<lparr>OSCtxSwCtr := OSCtxSwCtr s + 1\<rparr>;
       Some (xPortTaskSwitch s)
     } else Some s
   }"

text \<open>It is enough that the running task is one, or that it is not the most urgent one.\<close>

lemma switch_kinv0:
  assumes inv: "kinv0 s" and c: "cur_ok s \<or> unat (OSPrioCur s) \<noteq> Min (rdy s)"
  shows "ok (switch s) (\<lambda>s'. kinv s' \<and> resched s s' \<and> unat (OSPrioCur s') = Min (rdy s)
    \<and> OSTCBCur s' = OSTCBPrioTbl s (Min (rdy s)))"
proof -
  from highest_ready [OF inv] obtain t where t: "owns s t (Min (rdy s))" by blast
  have hi: "unat (bm_highest (rdy_bm s)) = Min (rdy s)" by (rule highest_ready [OF inv])
  have tbl: "prio_tbl s (bm_highest (rdy_bm s)) = Some (TCBp t)"
    using hi owns_less_64 [OF t] owns_PrioTbl [OF t] by (simp add: prio_tbl_def)
  show ?thesis
  proof (cases "bm_highest (rdy_bm s) = OSPrioCur s")
    case True
    then have "cur_ok s" using c hi by auto
    then obtain t0 where cur: "OSTCBCur s = TCBp t0" "owns s t0 (unat (OSPrioCur s))"
      by (auto simp: cur_ok_def split: vptr.splits)
    then have "t0 = t" using True t hi owns_unique by metis
    define s' where "s' = s\<lparr>OSPrioHighRdy := bm_highest (rdy_bm s), OSTCBHighRdy := TCBp t\<rparr>"
    have "switch s = Some s'"
      using True tbl by (auto simp: switch_def OS_SchedNew_def prio_tbl_def s'_def Let_def split: if_splits)
    moreover have "resched s s'"
      by (simp add: s'_def resched_def frames_def ids_def objs_def ev_data_def
          stores_def clock_def ctl_def kernel_defs tcbs_def fun_eq_iff)
    moreover have "cur_ok s'"
      using cur owns_cong [of s' s] reschedD(5) [OF \<open>resched s s'\<close>] by (simp add: cur_ok_def s'_def)
    ultimately show ?thesis
      using kinv0_resched [OF inv] True hi cur t \<open>t0 = t\<close> owns_PrioTbl [OF t]
      by (simp add: kinv_def s'_def)
  next
    case False
    define s' where "s' = xPortTaskSwitch ((upd_tcb t (\<lambda>c. c\<lparr>OSTCBCtxSwCtr := OSTCBCtxSwCtr c + 1\<rparr>)
        (s\<lparr>OSPrioHighRdy := bm_highest (rdy_bm s), OSTCBHighRdy := TCBp t\<rparr>))\<lparr>OSCtxSwCtr := OSCtxSwCtr s + 1\<rparr>)"
    have "switch s = Some s'"
      using False tbl owns_index [OF t]
      by (auto simp: switch_def OS_SchedNew_def prio_tbl_def s'_def upd_tcb_def Let_def split: if_splits)
    moreover have "resched s s'"
      by (auto simp: s'_def xPortTaskSwitch_def resched_def frames_def ids_def objs_def ev_data_def
          stores_def clock_def ctl_def kernel_defs tcbs_def fun_eq_iff)
    moreover have now: "OSPrioCur s' = bm_highest (rdy_bm s)" "OSTCBCur s' = TCBp t"
      by (simp_all add: s'_def xPortTaskSwitch_def upd_tcb_def)
    moreover have "cur_ok s'"
      using t hi now owns_cong [of s' s] reschedD(5) [OF \<open>resched s s'\<close>] by (simp add: cur_ok_def)
    ultimately show ?thesis
      using kinv0_resched [OF inv] hi owns_PrioTbl [OF t] by (simp add: kinv_def)
  qed
qed

lemma switch_ok:
  "kinv s \<Longrightarrow> ok (switch s) (\<lambda>s'. kinv s' \<and> resched s s' \<and> unat (OSPrioCur s') = Min (rdy s)
    \<and> OSTCBCur s' = OSTCBPrioTbl s (Min (rdy s)))"
  by (rule switch_kinv0) (simp_all add: kinv_def)

lemma OS_Sched_switch:
  "OS_Sched s = (if OSIntNesting s = 0 \<and> OSLockNesting s = 0 then switch s else Some s)"
  by (simp add: OS_Sched_def switch_def)

definition leave_isr :: "kst \<Rightarrow> kst" where
  "leave_isr s = (if OSIntNesting s > 0 then s\<lparr>OSIntNesting := OSIntNesting s - 1\<rparr> else s)"

lemma OSIntExit_switch:
  "OSIntExit s = (if OSRunning s then
      if OSIntNesting (leave_isr s) = 0 \<and> OSLockNesting (leave_isr s) = 0
      then switch (leave_isr s) else Some (leave_isr s)
    else Some s)"
  unfolding OSIntExit_def leave_isr_def [symmetric] switch_def Let_def by simp

lemma resched_refl [simp]: "resched s s"
  by (simp add: resched_def)

lemma OS_Sched_ok:
  assumes "kinv s"
  shows "ok (OS_Sched s) (\<lambda>s'. kinv s' \<and> resched s s' \<and> settled s'
    \<and> (OSIntNesting s = 0 \<and> OSLockNesting s = 0 \<longrightarrow>
         unat (OSPrioCur s') = Min (rdy s) \<and> OSTCBCur s' = OSTCBPrioTbl s (Min (rdy s)))
    \<and> (OSIntNesting s \<noteq> 0 \<or> OSLockNesting s \<noteq> 0 \<longrightarrow> s' = s))"
  using switch_ok [OF assms] assms
  by (auto simp: OS_Sched_switch settled_def reschedD elim!: ok_mono)

text \<open>With nothing more urgent ready, the scheduler does not switch.\<close>

lemma OS_Sched_settled:
  assumes "kinv s" "settled s"
  shows "ok (OS_Sched s) (\<lambda>s'. cur s' = cur s \<and> OSTCBTbl s' = OSTCBTbl s)"
proof -
  from assms(1) obtain t0 where cur: "OSTCBCur s = TCBp t0" "owns s t0 (unat (OSPrioCur s))"
    and inv: "kinv0 s" by (rule kinvE)
  have hi: "unat (bm_highest (rdy_bm s)) = Min (rdy s)" by (rule highest_ready [OF inv])
  show ?thesis
  proof (cases "OSIntNesting s = 0 \<and> OSLockNesting s = 0")
    case True
    then have "bm_highest (rdy_bm s) = OSPrioCur s"
      using assms(2) hi by (simp add: settled_def word_unat_eq_iff)
    with True cur owns_less_64 [OF cur(2)] show ?thesis
      by (simp add: OS_Sched_switch switch_def OS_SchedNew_def prio_tbl_def cur_def Let_def)
  qed (auto simp: OS_Sched_switch)
qed

end
