(* ===== verification/Os_Event.thy ===== *)
theory Os_Event
  imports Os_Core_Inv
begin

text \<open>
  What the semaphores, mailboxes, queues and mutexes share: the free list of event control blocks,
  the start and the end of a wait, and the loop that readies every waiting task.  The sequences are
  the same text in \<open>os_sem.c\<close>, \<open>os_mbox.c\<close>, \<open>os_q.c\<close> and \<open>os_mutex.c\<close> but for the status bit and the
  message.
\<close>

section \<open>Shared sequences\<close>

text \<open>
  \<open>pevent = OSEventFreeList; if (OSEventFreeList != 0) OSEventFreeList = OSEventFreeList->OSEventPtr;\<close>
\<close>

definition take_event :: "kst \<Rightarrow> (vptr \<times> kst) option" where
  "take_event s =
     (let pevent = OSEventFreeList s in
      if OSEventFreeList s \<noteq> NULL then do {
        e \<leftarrow> ev_at (OSEventFreeList s);
        Some (pevent, s\<lparr>OSEventFreeList := OSEventPtr (OSEventTbl_ecb s e)\<rparr>)
      } else Some (pevent, s))"

text \<open>The create calls fill in the control block and clear its wait list.\<close>

definition init_event :: "vptr \<Rightarrow> event_type \<Rightarrow> 16 word \<Rightarrow> vptr \<Rightarrow> kst \<Rightarrow> kst option" where
  "init_event pevent kind cnt ptr s = do {
     e \<leftarrow> ev_at pevent;
     let s = upd_ev e (\<lambda>c. c\<lparr>OSEventType := kind, OSEventCnt := cnt, OSEventPtr := ptr,
       OSEventName := unnamed\<rparr>) s;
     OS_EventWaitListInit pevent s
   }"

text \<open>The end of the delete calls: the control block goes back to the free list.\<close>

definition free_event :: "vptr \<Rightarrow> kst \<Rightarrow> kst option" where
  "free_event pevent s = do {
     e \<leftarrow> ev_at pevent;
     let s = upd_ev e (\<lambda>c. c\<lparr>OSEventName := unnamed, OSEventType := OS_EVENT_TYPE_UNUSED,
       OSEventPtr := OSEventFreeList s, OSEventCnt := 0\<rparr>) s;
     Some (s\<lparr>OSEventFreeList := pevent\<rparr>)
   }"

text \<open>The end of the pend calls before they give up the processor.\<close>

definition event_wait :: "vptr \<Rightarrow> 8 word \<Rightarrow> 32 word \<Rightarrow> kst \<Rightarrow> kst option" where
  "event_wait pevent msk timeout s = do {
     t \<leftarrow> tcb_at (OSTCBCur s);
     let s = upd_tcb t (\<lambda>c. c\<lparr>OSTCBStat := OSTCBStat c OR msk,
       OSTCBStatPend := OS_STAT_PEND_OK, OSTCBDly := timeout\<rparr>) s;
     OS_EventTaskWait pevent s
   }"

text \<open>The statements at the end of the pend calls, when the task runs again.\<close>

definition event_wait_done :: "kst \<Rightarrow> kst option" where
  "event_wait_done s = do {
     t \<leftarrow> tcb_at (OSTCBCur s);
     Some (upd_tcb t (\<lambda>c. c\<lparr>OSTCBStat := OS_STAT_RDY, OSTCBStatPend := OS_STAT_PEND_OK,
       OSTCBEventPtr := NULL, OSTCBEventMultiPtr := None, OSTCBEventMultiRdy := NULL\<rparr>) s)
   }"

text \<open>
  A pend call is split where the task gives up the processor: the first part either returns to its
  caller or leaves the task waiting; the second part runs when the task is the running task again.
  \<open>OSFlagPost\<close> is split in the same way at its call of \<open>OS_Sched\<close>, where a more urgent task may run before
  the rest of the call: \<open>Waiting\<close> then means that the rest is still to come.
\<close>

datatype 'a pend = Returned 'a | Waiting

text \<open>The second part: the \<open>switch\<close> on \<open>OSTCBStatPend\<close> and what follows.\<close>

definition event_resume :: "vptr \<Rightarrow> kst \<Rightarrow> ((vptr \<times> os_err) \<times> kst) option" where
  "event_resume pevent s = do {
     t \<leftarrow> tcb_at (OSTCBCur s);
     case OSTCBStatPend (OSTCBTbl s t) of
       OS_STAT_PEND_OK \<Rightarrow> do {
         let pmsg = OSTCBMsg (OSTCBTbl s t);
         s \<leftarrow> event_wait_done s;
         Some ((pmsg, OS_ERR_NONE), s)
       }
     | OS_STAT_PEND_ABORT \<Rightarrow> do {
         s \<leftarrow> event_wait_done s;
         Some ((NULL, OS_ERR_PEND_ABORT), s)
       }
     | OS_STAT_PEND_TO \<Rightarrow> do {
         s \<leftarrow> OS_EventTaskRemove (OSTCBCur s) pevent s;
         s \<leftarrow> event_wait_done s;
         Some ((NULL, OS_ERR_TIMEOUT), s)
       }
   }"

text \<open>
  \<open>while (pevent->OSEventGrp != 0u) { (void)OS_EventTaskRdy(...); nbr_tasks++; }\<close>, where the count is a
  byte.  That it ends is \<open>OS_EventTaskRdy_all_ok\<close>.
\<close>

partial_function (option) OS_EventTaskRdy_all ::
    "vptr \<Rightarrow> vptr \<Rightarrow> 8 word \<Rightarrow> pend_status \<Rightarrow> 8 word \<Rightarrow> kst \<Rightarrow> (8 word \<times> kst) option" where
  "OS_EventTaskRdy_all pevent pmsg msk pend_stat nbr_tasks s = do {
     e \<leftarrow> ev_at pevent;
     if OSEventGrp (OSEventTbl_ecb s e) \<noteq> 0 then do {
       (_, s) \<leftarrow> OS_EventTaskRdy pevent pmsg msk pend_stat s;
       OS_EventTaskRdy_all pevent pmsg msk pend_stat (nbr_tasks + 1) s
     } else Some (nbr_tasks, s)
   }"

text \<open>The critical section of the three \<open>PendAbort\<close> calls and the scheduling after it.\<close>

definition event_pend_abort ::
    "vptr \<Rightarrow> 8 word \<Rightarrow> 8 word \<Rightarrow> kst \<Rightarrow> ((8 word \<times> os_err) \<times> kst) option" where
  "event_pend_abort pevent msk opt s = do {
     e \<leftarrow> ev_at pevent;
     if OSEventGrp (OSEventTbl_ecb s e) \<noteq> 0 then do {
       (nbr_tasks, s) \<leftarrow>
         (if opt = OS_PEND_OPT_BROADCAST
          then OS_EventTaskRdy_all pevent NULL msk OS_STAT_PEND_ABORT 0 s
          else do {
            (_, s) \<leftarrow> OS_EventTaskRdy pevent NULL msk OS_STAT_PEND_ABORT s;
            Some (1, s)
          });
       s \<leftarrow> OS_Sched s;
       Some ((nbr_tasks, OS_ERR_PEND_ABORT), s)
     } else Some ((0, OS_ERR_NONE), s)
   }"

text \<open>How the \<open>PostOpt\<close> calls ready one waiter or all of them, and schedule unless told not to.\<close>

definition event_post_opt ::
    "vptr \<Rightarrow> vptr \<Rightarrow> 8 word \<Rightarrow> 8 word \<Rightarrow> kst \<Rightarrow> kst option" where
  "event_post_opt pevent pmsg msk opt s = do {
     (_, s) \<leftarrow>
       (if opt AND OS_POST_OPT_BROADCAST \<noteq> 0
        then OS_EventTaskRdy_all pevent pmsg msk OS_STAT_PEND_OK 0 s
        else OS_EventTaskRdy pevent pmsg msk OS_STAT_PEND_OK s);
     if opt AND OS_POST_OPT_NO_SCHED = 0 then OS_Sched s else Some s
   }"

text \<open>The copy of a wait list that the query calls return.\<close>

definition copy_tbl :: "(nat \<Rightarrow> 8 word) \<Rightarrow> 8 word list" where
  "copy_tbl tbl = map tbl [0..<OS_EVENT_TBL_SIZE]"

section \<open>Tasks by priority\<close>

text \<open>The control block of the task of priority \<open>p\<close>, for a priority that is \<open>owned\<close>.\<close>

definition task :: "kst \<Rightarrow> nat \<Rightarrow> os_tcb" where
  "task s p = (case OSTCBPrioTbl s p of TCBp t \<Rightarrow> OSTCBTbl s t | _ \<Rightarrow> OSTCBTbl s OS_N_TCBS)"

lemma task_owns: "owns s t p \<Longrightarrow> task s p = OSTCBTbl s t"
  by (simp add: task_def owns_def)

lemma owned_frames: "frames s s' \<Longrightarrow> owned s' = owned s"
  using owned_cong [of s' s] by (simp add: frames_def)

lemma owns_frames: "frames s s' \<Longrightarrow> owns s' = owns s"
  using owns_cong [of s' s] by (simp add: frames_def)

lemma owned_resched: "resched s s' \<Longrightarrow> owned s' = owned s"
  by (simp add: reschedD owned_frames)

lemma woken_resched:
  assumes "resched s s'"
  shows "woken m msk st c (task s' p) = woken m msk st c (task s p)"
proof -
  have "OSTCBPrioTbl s' = OSTCBPrioTbl s" using reschedD(5) [OF assms] by (rule ids_PrioTbl)
  moreover have "woken m msk st c (OSTCBTbl s' t) = woken m msk st c (OSTCBTbl s t)" for t
    unfolding woken_def tcbs_fields [OF reschedD(4) [OF assms], of t] ..
  ultimately show ?thesis by (simp add: task_def split: vptr.split)
qed

section \<open>Waking one waiter, and all of them\<close>

text \<open>Task \<open>p\<close> got its event: what readying it does to the kernel.\<close>

definition readied :: "nat \<Rightarrow> nat \<Rightarrow> vptr \<Rightarrow> 8 word \<Rightarrow> pend_status \<Rightarrow> kst \<Rightarrow> kst \<Rightarrow> bool" where
  "readied e p pmsg msk st s s' \<longleftrightarrow>
     kinv0 s' \<and> frames s s' \<and> cur s' = cur s
     \<and> waiters s' = leave p (insert e (multi_evs (task s p))) (waiters s)
     \<and> rdy s' = (if suspended (task s' p) then rdy s else insert p (rdy s))
     \<and> woken pmsg msk st (task s p) (task s' p)
     \<and> (\<forall>q. owned s q \<longrightarrow> q \<noteq> p \<longrightarrow> task s' q = task s q)"

lemma OS_EventTaskRdy_readied:
  assumes "kinv0 s" "e < OS_MAX_EVENTS" "waiters s e \<noteq> {}"
  shows "ok (OS_EventTaskRdy (EVp e) pmsg msk st s)
    (\<lambda>(prio, s'). unat prio = Min (waiters s e) \<and> readied e (Min (waiters s e)) pmsg msk st s s')"
proof -
  obtain t where t: "owns s t (Min (waiters s e))" using highest_waiter(2) [OF assms] ..
  show ?thesis
  proof (rule ok_mono2 [OF OS_EventTaskRdy_ok [OF assms t]], elim conjE)
    fix prio s'
    assume 1: "unat prio = Min (waiters s e)" "kinv0 s'" "frames s s'" "cur s' = cur s"
      "waiters s' = leave (Min (waiters s e)) (insert e (multi_evs (OSTCBTbl s t))) (waiters s)"
      "rdy s' = (if suspended (OSTCBTbl s' t) then rdy s else insert (Min (waiters s e)) (rdy s))"
      "woken pmsg msk st (OSTCBTbl s t) (OSTCBTbl s' t)"
      "\<forall>t'. t' \<noteq> t \<longrightarrow> OSTCBTbl s' t' = OSTCBTbl s t'"
    have t': "owns s' t (Min (waiters s e))" using t owns_frames [OF 1(3)] by simp
    have "task s' q = task s q" if "owned s q" "q \<noteq> Min (waiters s e)" for q
    proof -
      from that(1) obtain u where u: "owns s u q" by (rule ownedE)
      then have "u \<noteq> t" using that(2) t by (auto simp: owns_def)
      moreover have "owns s' u q" using u owns_frames [OF 1(3)] by simp
      ultimately show ?thesis using u 1(8) by (simp add: task_owns)
    qed
    with 1 show "unat prio = Min (waiters s e) \<and> readied e (Min (waiters s e)) pmsg msk st s s'"
      by (simp add: readied_def task_owns [OF t] task_owns [OF t'])
  qed
qed

definition all_readied :: "nat \<Rightarrow> nat set \<Rightarrow> vptr \<Rightarrow> 8 word \<Rightarrow> pend_status \<Rightarrow> kst \<Rightarrow> kst \<Rightarrow> bool" where
  "all_readied e W pmsg msk st s s' \<longleftrightarrow>
     kinv0 s' \<and> frames s s' \<and> cur s' = cur s
     \<and> waiters s' e = waiters s e - W
     \<and> (\<forall>e'. waiters s' e' \<subseteq> waiters s e' \<and> waiters s e' - W \<subseteq> waiters s' e')
     \<and> rdy s' = rdy s \<union> {p \<in> W. \<not> suspended (task s' p)}
     \<and> (\<forall>p\<in>W. woken pmsg msk st (task s p) (task s' p))
     \<and> (\<forall>q. owned s q \<longrightarrow> q \<notin> W \<longrightarrow> task s' q = task s q)"

lemma readied_all_readied: "readied e p pmsg msk st s s' \<Longrightarrow> all_readied e {p} pmsg msk st s s'"
  by (auto simp: readied_def all_readied_def leave_def split: if_splits)

lemma all_readied_trans:
  assumes 1: "all_readied e W pmsg msk st s s1" and 2: "all_readied e V pmsg msk st s1 s2"
    and "W \<inter> V = {}" "\<forall>p\<in>W \<union> V. owned s p"
  shows "all_readied e (W \<union> V) pmsg msk st s s2"
proof -
  have own: "owned s1 = owned s" using 1 owned_frames [of s s1] by (simp add: all_readied_def)
  have W: "task s2 p = task s1 p" if "p \<in> W" for p
    using that 2 assms(3,4) own by (auto simp: all_readied_def)
  have V: "task s1 p = task s p" if "p \<in> V" for p
    using that 1 assms(3,4) by (auto simp: all_readied_def)
  have w: "waiters s2 e' \<subseteq> waiters s e' \<and> waiters s e' - (W \<union> V) \<subseteq> waiters s2 e'" for e'
  proof
    show "waiters s2 e' \<subseteq> waiters s e'" using 1 2 unfolding all_readied_def by blast
    have "waiters s e' - W \<subseteq> waiters s1 e'" "waiters s1 e' - V \<subseteq> waiters s2 e'"
      using 1 2 unfolding all_readied_def by blast+
    then show "waiters s e' - (W \<union> V) \<subseteq> waiters s2 e'" by blast
  qed
  have wo: "woken pmsg msk st (task s p) (task s2 p)" if "p \<in> W \<union> V" for p
    using that 1 2 W V unfolding all_readied_def by (metis Un_iff)
  have r: "rdy s2 = rdy s \<union> {p \<in> W \<union> V. \<not> suspended (task s2 p)}"
    using 1 2 W by (auto simp: all_readied_def)
  show ?thesis
    using 1 2 w wo r own by (auto simp: all_readied_def intro: frames_trans)
qed

lemma ev_grp_waiters:
  assumes "kinv0 s" "e < OS_MAX_EVENTS"
  shows "OSEventGrp (OSEventTbl_ecb s e) = 0 \<longleftrightarrow> waiters s e = {}"
proof -
  have "bm_ok (ev_bm s e)" using assms by (simp add: kinv0_def)
  from bm_empty_iff [OF this] show ?thesis by (simp add: waiters_def ev_bm_def)
qed

lemma OS_EventTaskRdy_all_ok:
  assumes "kinv0 s" "e < OS_MAX_EVENTS"
  shows "ok (OS_EventTaskRdy_all (EVp e) pmsg msk st n s)
    (\<lambda>(n', s'). n' = n + of_nat (card (waiters s e)) \<and> all_readied e (waiters s e) pmsg msk st s s'
      \<and> waiters s' e = {})"
  using assms
proof (induction "card (waiters s e)" arbitrary: s n)
  case 0
  then have none: "waiters s e = {}" by simp
  then have "OS_EventTaskRdy_all (EVp e) pmsg msk st n s = Some (n, s)"
    using 0 ev_grp_waiters [of s e] by (subst OS_EventTaskRdy_all.simps) simp
  then show ?case using 0 none by (simp add: all_readied_def)
next
  case (Suc k)
  let ?W = "waiters s e" let ?p = "Min ?W"
  have some: "?W \<noteq> {}" using Suc.hyps(2) by auto
  then have p: "?p \<in> ?W" by simp
  have unfold: "OS_EventTaskRdy_all (EVp e) pmsg msk st n s = do {
      (_, s1) \<leftarrow> OS_EventTaskRdy (EVp e) pmsg msk st s;
      OS_EventTaskRdy_all (EVp e) pmsg msk st (n + 1) s1 }"
    using Suc.prems some ev_grp_waiters [of s e] by (subst OS_EventTaskRdy_all.simps) simp
  show ?case
    unfolding unfold
  proof (rule ok_bindI2 [OF OS_EventTaskRdy_readied [OF Suc.prems some]], elim conjE)
    fix prio s1
    assume r: "readied e ?p pmsg msk st s s1"
    have W1: "waiters s1 e = ?W - {?p}" and inv1: "kinv0 s1" using r by (simp_all add: readied_def)
    have k: "k = card (waiters s1 e)" using Suc.hyps(2) p W1 by simp
    have own: "\<forall>p\<in>?W. owned s p" using kinv0_waiters [OF Suc.prems] by simp
    show "ok (OS_EventTaskRdy_all (EVp e) pmsg msk st (n + 1) s1)
      (\<lambda>(n', s'). n' = n + of_nat (card ?W) \<and> all_readied e ?W pmsg msk st s s' \<and> waiters s' e = {})"
    proof (rule ok_mono2 [OF Suc.hyps(1) [OF k inv1 Suc.prems(2)]], elim conjE)
      fix n' s'
      assume n': "n' = n + 1 + of_nat (card (waiters s1 e))"
        and a: "all_readied e (waiters s1 e) pmsg msk st s1 s'" and "waiters s' e = {}"
      have "all_readied e ({?p} \<union> waiters s1 e) pmsg msk st s s'"
        by (rule all_readied_trans [OF readied_all_readied [OF r] a]) (use W1 p own in auto)
      moreover have "{?p} \<union> waiters s1 e = ?W" using W1 p by auto
      ultimately show "n' = n + of_nat (card ?W) \<and> all_readied e ?W pmsg msk st s s' \<and> waiters s' e = {}"
        using n' k [symmetric] Suc.hyps(2) [symmetric] \<open>waiters s' e = {}\<close> by simp
    qed
  qed
qed

end
