(* ===== verification/Os_Objects.thy ===== *)
theory Os_Objects
  imports Os_Event
begin

text \<open>
  What is always true of the kernel objects: the free lists hold exactly the unused control blocks,
  nobody waits for an object that is available, a queue's pointers stay in its buffer, and a mutex
  knows its owner and reserves its ceiling priority.  The invariant of the whole kernel is \<open>sinv\<close>;
  the lemmas say which changes keep it.
\<close>

section \<open>The event control blocks\<close>

abbreviation (input) ev_type :: "kst \<Rightarrow> nat \<Rightarrow> event_type" where
  "ev_type s e \<equiv> OSEventType (OSEventTbl_ecb s e)"

abbreviation (input) ev_ptr :: "kst \<Rightarrow> nat \<Rightarrow> vptr" where
  "ev_ptr s e \<equiv> OSEventPtr (OSEventTbl_ecb s e)"

abbreviation (input) ev_cnt :: "kst \<Rightarrow> nat \<Rightarrow> 16 word" where
  "ev_cnt s e \<equiv> OSEventCnt (OSEventTbl_ecb s e)"

definition unused_events :: "kst \<Rightarrow> nat set" where
  "unused_events s = {e. e < OS_MAX_EVENTS \<and> ev_type s e = OS_EVENT_TYPE_UNUSED}"

definition ev_pool_ok :: "kst \<Rightarrow> bool" where
  "ev_pool_ok s \<longleftrightarrow> (\<exists>es. path EVp (ev_ptr s) (OSEventFreeList s) es \<and> distinct es
     \<and> set es = unused_events s)"

section \<open>The queue control blocks\<close>

text \<open>
  A queue whose first message is in slot \<open>k\<close> of its buffer.  The buffer does not run past the end of
  the address space.
\<close>

definition q_slot :: "os_q \<Rightarrow> nat \<Rightarrow> 64 word" where
  "q_slot q k = OSQStart q + of_nat (8 * k)"

definition q_ring_at :: "os_q \<Rightarrow> nat \<Rightarrow> bool" where
  "q_ring_at q k \<longleftrightarrow>
     unat (OSQStart q) + 8 * unat (OSQSize q) < 2 ^ 64
     \<and> OSQEnd q = q_slot q (unat (OSQSize q))
     \<and> unat (OSQEntries q) \<le> unat (OSQSize q)
     \<and> (if OSQSize q = 0 then k = 0 else k < unat (OSQSize q))
     \<and> OSQOut q = q_slot q k
     \<and> OSQIn q = q_slot q ((k + unat (OSQEntries q)) mod unat (OSQSize q))"

definition q_ring_ok :: "os_q \<Rightarrow> bool" where
  "q_ring_ok q \<longleftrightarrow> (\<exists>k<65536. q_ring_at q k)"

definition used_qs :: "kst \<Rightarrow> nat set" where
  "used_qs s = {i. \<exists>e<OS_MAX_EVENTS. ev_type s e = OS_EVENT_TYPE_Q \<and> ev_ptr s e = Qp i}"

definition q_pool_ok :: "kst \<Rightarrow> bool" where
  "q_pool_ok s \<longleftrightarrow> (\<exists>qs. path Qp (\<lambda>i. OSQPtr (OSQTbl s i)) (OSQFreeList s) qs \<and> distinct qs
       \<and> set qs = {i. i < OS_MAX_QS} - used_qs s)
     \<and> (\<forall>e<OS_MAX_EVENTS. \<forall>e'<OS_MAX_EVENTS. ev_type s e = OS_EVENT_TYPE_Q
          \<longrightarrow> ev_type s e' = OS_EVENT_TYPE_Q \<longrightarrow> ev_ptr s e = ev_ptr s e' \<longrightarrow> e = e')"

section \<open>Mutexes\<close>

text \<open>The two bytes of a mutex's count: the ceiling priority and the owner's own priority.\<close>

definition mutex_pcp :: "16 word \<Rightarrow> 8 word" where
  "mutex_pcp cnt = ucast (drop_bit 8 cnt)"

definition mutex_low :: "16 word \<Rightarrow> 8 word" where
  "mutex_low cnt = ucast (cnt AND 0x00FF)"

text \<open>
  A free mutex keeps its ceiling reserved.  The owner of a taken one is a task that the priority
  table lists under the priority it had when it took the mutex and, once it was raised, under the
  ceiling.
\<close>

definition mutex_ok :: "kst \<Rightarrow> nat \<Rightarrow> bool" where
  "mutex_ok s e \<longleftrightarrow> (let pcp = mutex_pcp (ev_cnt s e); low = mutex_low (ev_cnt s e) in
     (pcp = OS_PRIO_MUTEX_CEIL_DIS \<or> unat pcp < 63)
     \<and> (case ev_ptr s e of
          Addr a \<Rightarrow> a = 0 \<and> low = 0xFF
            \<and> (pcp \<noteq> OS_PRIO_MUTEX_CEIL_DIS \<longrightarrow> OSTCBPrioTbl s (unat pcp) = OS_TCB_RESERVED)
        | TCBp t \<Rightarrow> t < OS_N_TCBS \<and> unat low < 64 \<and> low \<noteq> pcp \<and> OSTCBPrioTbl s (unat low) = TCBp t
            \<and> (pcp \<noteq> OS_PRIO_MUTEX_CEIL_DIS \<longrightarrow>
                 OSTCBPrioTbl s (unat pcp) = OS_TCB_RESERVED \<or> OSTCBPrioTbl s (unat pcp) = TCBp t)
        | _ \<Rightarrow> False))"

definition pcps_differ :: "kst \<Rightarrow> bool" where
  "pcps_differ s \<longleftrightarrow> (\<forall>e<OS_MAX_EVENTS. \<forall>e'<OS_MAX_EVENTS. ev_type s e = OS_EVENT_TYPE_MUTEX
     \<longrightarrow> ev_type s e' = OS_EVENT_TYPE_MUTEX \<longrightarrow> mutex_pcp (ev_cnt s e) = mutex_pcp (ev_cnt s e')
     \<longrightarrow> mutex_pcp (ev_cnt s e) \<noteq> OS_PRIO_MUTEX_CEIL_DIS \<longrightarrow> e = e')"

section \<open>Objects in general\<close>

text \<open>There is something to take: a count, a message, or an unowned mutex.\<close>

definition avail :: "kst \<Rightarrow> nat \<Rightarrow> bool" where
  "avail s e \<longleftrightarrow> (case ev_type s e of
     OS_EVENT_TYPE_SEM \<Rightarrow> ev_cnt s e \<noteq> 0
   | OS_EVENT_TYPE_MBOX \<Rightarrow> ev_ptr s e \<noteq> NULL
   | OS_EVENT_TYPE_Q \<Rightarrow> (case ev_ptr s e of Qp i \<Rightarrow> OSQEntries (OSQTbl s i) \<noteq> 0 | _ \<Rightarrow> False)
   | OS_EVENT_TYPE_MUTEX \<Rightarrow> mutex_low (ev_cnt s e) = 0xFF
   | _ \<Rightarrow> False)"

definition obj_ok :: "kst \<Rightarrow> nat \<Rightarrow> bool" where
  "obj_ok s e \<longleftrightarrow>
     (avail s e \<or> ev_type s e = OS_EVENT_TYPE_UNUSED \<longrightarrow> waiters s e = {})
     \<and> (ev_type s e = OS_EVENT_TYPE_Q \<longrightarrow>
          (case ev_ptr s e of Qp i \<Rightarrow> i < OS_MAX_QS \<and> q_ring_ok (OSQTbl s i) | _ \<Rightarrow> False))
     \<and> (ev_type s e = OS_EVENT_TYPE_MUTEX \<longrightarrow> mutex_ok s e)"

text \<open>The event argument of a call: null, or one of the kernel's events.\<close>

definition valid_ev :: "vptr \<Rightarrow> bool" where
  "valid_ev p \<longleftrightarrow> p = NULL \<or> ev_at p \<noteq> None"

definition oinv :: "kst \<Rightarrow> bool" where
  "oinv s \<longleftrightarrow> ev_pool_ok s \<and> q_pool_ok s \<and> pcps_differ s \<and> (\<forall>e<OS_MAX_EVENTS. obj_ok s e)
     \<and> valid_ev (OSTmrSemSignal s)"

definition sinv :: "kst \<Rightarrow> bool" where
  "sinv s \<longleftrightarrow> kinv s \<and> oinv s"

lemma sinvD:
  assumes "sinv s"
  shows "kinv s" "kinv0 s" "cur_ok s" "oinv s"
  using assms by (simp_all add: sinv_def kinv_def)

lemma oinvD:
  assumes "oinv s"
  shows "ev_pool_ok s" "q_pool_ok s" "pcps_differ s" "e < OS_MAX_EVENTS \<Longrightarrow> obj_ok s e"
    "valid_ev (OSTmrSemSignal s)"
  using assms by (simp_all add: oinv_def)

text \<open>No task waits for something it could take.\<close>

lemma avail_waiters: "oinv s \<Longrightarrow> e < OS_MAX_EVENTS \<Longrightarrow> avail s e \<Longrightarrow> waiters s e = {}"
  by (auto simp: oinv_def obj_ok_def)

lemma unused_waiters:
  "oinv s \<Longrightarrow> e < OS_MAX_EVENTS \<Longrightarrow> ev_type s e = OS_EVENT_TYPE_UNUSED \<Longrightarrow> waiters s e = {}"
  by (auto simp: oinv_def obj_ok_def)

section \<open>Which changes keep the invariant\<close>

lemma ev_data_fields:
  assumes "ev_data s' e = ev_data s e"
  shows "ev_type s' e = ev_type s e" "ev_ptr s' e = ev_ptr s e" "ev_cnt s' e = ev_cnt s e"
    "OSEventName (OSEventTbl_ecb s' e) = OSEventName (OSEventTbl_ecb s e)"
  using assms by (simp_all add: ev_data_def)

lemma ev_data_at:
  assumes "ev_data s e = (k, p, c, n)"
  shows "ev_type s e = k" "ev_ptr s e = p" "ev_cnt s e = c" "OSEventName (OSEventTbl_ecb s e) = n"
  using assms by (simp_all add: ev_data_def)

lemma avail_cong:
  assumes "ev_data s' e = ev_data s e" "OSQTbl s' = OSQTbl s"
  shows "avail s' e = avail s e"
  using assms(2) unfolding avail_def ev_data_fields [OF assms(1)]
  by (auto split: event_type.split vptr.split)

lemma mutex_ok_cong:
  assumes "ev_data s' e = ev_data s e" "ids s' = ids s"
  shows "mutex_ok s' e = mutex_ok s e"
  using ids_PrioTbl [OF assms(2)] ids_Prio [OF assms(2)]
  unfolding mutex_ok_def ev_data_fields [OF assms(1)] by (auto simp: Let_def split: vptr.split)

text \<open>The condition on an event survives when its data stay and its wait list only shrinks.\<close>

lemma obj_ok_shrink:
  assumes "obj_ok s e" "ev_data s' e = ev_data s e" "ids s' = ids s" "waiters s' e \<subseteq> waiters s e"
    and "\<And>i. ev_type s e = OS_EVENT_TYPE_Q \<Longrightarrow> ev_ptr s e = Qp i \<Longrightarrow> OSQTbl s' i = OSQTbl s i"
  shows "obj_ok s' e"
proof -
  have "avail s' e = avail s e"
    using assms(5) unfolding avail_def ev_data_fields [OF assms(2)]
    by (auto split: event_type.split vptr.split)
  then show ?thesis
    using assms(1,4,5) mutex_ok_cong [OF assms(2,3)]
    unfolding obj_ok_def ev_data_fields [OF assms(2)] by (auto split: vptr.splits)
qed

lemma oinv_weaken:
  assumes "oinv s" "ids s' = ids s" "ev_data s' = ev_data s" "OSEventFreeList s' = OSEventFreeList s"
    and "OSQTbl s' = OSQTbl s" "OSQFreeList s' = OSQFreeList s" "OSTmrSemSignal s' = OSTmrSemSignal s"
    and "\<And>e. waiters s' e \<subseteq> waiters s e"
  shows "oinv s'"
proof -
  have d: "ev_data s' e = ev_data s e" for e using assms(3) by simp
  have "obj_ok s' e" if "e < OS_MAX_EVENTS" for e
    by (rule obj_ok_shrink [OF oinvD(4) [OF assms(1) that] d assms(2,8)]) (simp add: assms(5))
  then show ?thesis
    using assms(1)
    by (simp add: oinv_def ev_pool_ok_def q_pool_ok_def pcps_differ_def unused_events_def used_qs_def
        ev_data_fields [OF d] assms(4-7))
qed

lemma oinv_shrink:
  assumes "oinv s" "ids s' = ids s" "objs s' = objs s" "\<And>e. waiters s' e \<subseteq> waiters s e"
  shows "oinv s'"
  by (rule oinv_weaken [OF assms(1,2) _ _ _ _ _ assms(4)])
    (use assms(3) in \<open>simp_all add: objs_def stores_def clock_def\<close>)

lemma oinv_frames:
  "oinv s \<Longrightarrow> frames s s' \<Longrightarrow> (\<And>e. waiters s' e \<subseteq> waiters s e) \<Longrightarrow> oinv s'"
  by (rule oinv_shrink) (simp_all add: frames_def)

lemma oinv_resched:
  assumes "oinv s" "resched s s'"
  shows "oinv s'"
  by (rule oinv_frames [OF assms(1)]) (simp_all add: reschedD [OF assms(2)])

lemma oinv_all_readied: "oinv s \<Longrightarrow> all_readied e W m msk st s s' \<Longrightarrow> oinv s'"
  by (rule oinv_frames [of s s']) (auto simp: all_readied_def)

text \<open>
  An operation on one event of a kind that stays: its data (but not a queue's pointer or a mutex's
  ceiling) and its wait list change, other wait lists shrink.
\<close>

lemma oinv_update:
  assumes inv: "oinv s" and e: "e < OS_MAX_EVENTS" and ids: "ids s' = ids s"
    and other: "\<And>e'. e' \<noteq> e \<Longrightarrow> ev_data s' e' = ev_data s e'"
    and same: "ev_type s' e = ev_type s e" "ev_type s e \<noteq> OS_EVENT_TYPE_UNUSED"
      "ev_type s e = OS_EVENT_TYPE_Q \<Longrightarrow> ev_ptr s' e = ev_ptr s e"
      "ev_type s e = OS_EVENT_TYPE_MUTEX \<Longrightarrow> mutex_pcp (ev_cnt s' e) = mutex_pcp (ev_cnt s e)"
    and free: "OSEventFreeList s' = OSEventFreeList s" "OSQFreeList s' = OSQFreeList s"
      "OSTmrSemSignal s' = OSTmrSemSignal s"
    and qs: "\<And>i. ev_type s e \<noteq> OS_EVENT_TYPE_Q \<or> ev_ptr s e \<noteq> Qp i \<Longrightarrow> OSQTbl s' i = OSQTbl s i"
    and w: "\<And>e'. e' \<noteq> e \<Longrightarrow> waiters s' e' \<subseteq> waiters s e'"
    and ok: "obj_ok s' e"
  shows "oinv s'"
proof -
  have kind: "ev_type s' e' = ev_type s e'" for e'
    using same other [THEN ev_data_fields(1)] by (cases "e' = e") auto
  have uptr: "ev_ptr s' e' = ev_ptr s e'" if "ev_type s e' \<noteq> OS_EVENT_TYPE_MBOX"
    "ev_type s e' \<noteq> OS_EVENT_TYPE_SEM" "ev_type s e' \<noteq> OS_EVENT_TYPE_MUTEX"
    "ev_type s e' \<noteq> OS_EVENT_TYPE_FLAG" for e'
    using that same other [THEN ev_data_fields(2)]
    by (cases "e' = e"; cases "ev_type s e'") auto
  have pcp: "mutex_pcp (ev_cnt s' e') = mutex_pcp (ev_cnt s e')" if "ev_type s e' = OS_EVENT_TYPE_MUTEX" for e'
    using that same other [THEN ev_data_fields(3)] by (cases "e' = e") simp_all
  have un: "unused_events s' = unused_events s" by (simp add: unused_events_def kind)
  have "path EVp (ev_ptr s') p es = path EVp (ev_ptr s) p es" if "set es = unused_events s" for p es
    by (rule path_cong) (use that uptr in \<open>auto simp: unused_events_def\<close>)
  then have pool: "ev_pool_ok s'"
    using oinvD(1) [OF inv] un free by (auto simp: ev_pool_ok_def)
  have used: "used_qs s' = used_qs s" using uptr by (auto simp: used_qs_def kind)
  have "path Qp (\<lambda>i. OSQPtr (OSQTbl s' i)) p qs = path Qp (\<lambda>i. OSQPtr (OSQTbl s i)) p qs"
    if "set qs = {i. i < OS_MAX_QS} - used_qs s" for p qs
  proof (rule path_cong)
    fix i
    assume "i \<in> set qs"
    then have "i \<notin> used_qs s" using that by simp
    then have "ev_type s e \<noteq> OS_EVENT_TYPE_Q \<or> ev_ptr s e \<noteq> Qp i"
      using e by (auto simp: used_qs_def)
    then show "OSQPtr (OSQTbl s' i) = OSQPtr (OSQTbl s i)" by (simp add: qs)
  qed
  then have qpool: "q_pool_ok s'"
    using oinvD(2) [OF inv] used free uptr by (auto simp: q_pool_ok_def kind)
  have "obj_ok s' e'" if "e' < OS_MAX_EVENTS" for e'
  proof (cases "e' = e")
    case False
    show ?thesis
    proof (rule obj_ok_shrink [OF oinvD(4) [OF inv that] other [OF False] ids w [OF False]])
      fix i
      assume q: "ev_type s e' = OS_EVENT_TYPE_Q" "ev_ptr s e' = Qp i"
      then have "ev_type s e \<noteq> OS_EVENT_TYPE_Q \<or> ev_ptr s e \<noteq> Qp i"
        using oinvD(2) [OF inv] e that False by (auto simp: q_pool_ok_def)
      then show "OSQTbl s' i = OSQTbl s i" by (rule qs)
    qed
  qed (simp add: ok)
  then show ?thesis
    using inv pool qpool pcp free(3) by (auto simp: oinv_def pcps_differ_def kind)
qed

end
