(* ===== verification/Os_Calls.thy ===== *)
theory Os_Calls
  imports Os_Objects
begin

text \<open>
  The contract that every service call of the kernel keeps (locales \<open>kernel_call\<close> and \<open>sched_call\<close>), and
  the facts about the shared sequences of \<open>Os_Event\<close> that the calls rest on.
\<close>

section \<open>The contract of a service call\<close>

text \<open>
  A call, from a state where the invariant and its own precondition hold, has a result and keeps the
  invariant and the nesting counters.
\<close>

locale kernel_call =
  fixes pre :: "kst \<Rightarrow> bool" and run :: "kst \<Rightarrow> ('r \<times> kst) option"
  assumes total: "sinv s \<Longrightarrow> pre s \<Longrightarrow> ok (run s) (\<lambda>(r, s'). sinv s' \<and> ctl s' = ctl s)"
begin

lemma no_fault:
  assumes "sinv s" "pre s"
  obtains r s' where "run s = Some (r, s')" "sinv s'" "ctl s' = ctl s"
  using total [OF assms] by (auto simp: ok_iff)

lemma keeps: "sinv s \<Longrightarrow> pre s \<Longrightarrow> run s = Some (r, s') \<Longrightarrow> sinv s'"
  using total by fastforce

lemma keeps_ctl: "sinv s \<Longrightarrow> pre s \<Longrightarrow> run s = Some (r, s') \<Longrightarrow> ctl s' = ctl s"
  using total by fastforce

end

text \<open>A call that also leaves the processor to the most urgent ready task.\<close>

locale sched_call = kernel_call +
  assumes settles: "sinv s \<Longrightarrow> settled s \<Longrightarrow> pre s \<Longrightarrow> ok (run s) (\<lambda>(r, s'). settled s')"
begin

lemma keeps_settled: "sinv s \<Longrightarrow> settled s \<Longrightarrow> pre s \<Longrightarrow> run s = Some (r, s') \<Longrightarrow> settled s'"
  using settles by fastforce

lemma runs_highest:
  assumes "sinv s" "settled s" "pre s" "run s = Some (r, s')" "OSIntNesting s = 0" "OSLockNesting s = 0"
  shows "unat (OSPrioCur s') = Min (rdy s')"
  using keeps_settled [OF assms(1-4)] keeps_ctl [OF assms(1,3,4)] assms(5,6)
  by (simp add: settled_def ctl_def)

end

text \<open>What a call keeps, in one word.\<close>

abbreviation (input) kept :: "kst \<Rightarrow> kst \<Rightarrow> bool" where
  "kept s s' \<equiv> sinv s' \<and> ctl s' = ctl s \<and> (settled s \<longrightarrow> settled s')"

lemma sched_callI:
  assumes "\<And>s. sinv s \<Longrightarrow> pre s \<Longrightarrow>
    ok (run s) (\<lambda>(r, s'). kept s s')"
  shows "sched_call pre run"
  using assms by unfold_locales (fastforce simp: ok_iff)+

lemma valid_evE:
  assumes "valid_ev p"
  obtains "p = NULL" | e where "p = EVp e" "e < OS_MAX_EVENTS"
  using assms by (auto simp: valid_ev_def)

text \<open>
  A call on an event of kind \<open>k\<close>: a null pointer or an event of another kind is refused and nothing
  changes, so only the case of the right kind is left to show.
\<close>

lemma event_callI:
  assumes valid: "\<And>s. pre s \<Longrightarrow> valid_ev p"
    and null: "\<And>s. \<exists>r. run NULL s = Some (r, s)"
    and other: "\<And>s e. e < OS_MAX_EVENTS \<Longrightarrow> ev_type s e \<noteq> k \<Longrightarrow> \<exists>r. run (EVp e) s = Some (r, s)"
    and main: "\<And>s e. sinv s \<Longrightarrow> pre s \<Longrightarrow> p = EVp e \<Longrightarrow> e < OS_MAX_EVENTS \<Longrightarrow> ev_type s e = k \<Longrightarrow>
      ok (run (EVp e) s) (\<lambda>(r, s'). kept s s' \<and> Q s e r s')"
  shows "sched_call pre (run p)"
proof (rule sched_callI)
  fix s
  assume s: "sinv s" "pre s"
  from valid [OF s(2)] show "ok (run p s) (\<lambda>(r, s'). kept s s')"
  proof (cases rule: valid_evE)
    case 1
    obtain r where "run NULL s = Some (r, s)" using null [of s] ..
    with 1 s(1) show ?thesis by simp
  next
    case (2 e)
    show ?thesis
    proof (cases "ev_type s e = k")
      case True
      show ?thesis unfolding 2(1) by (rule ok_mono2 [OF main [OF s 2 True]]) simp
    next
      case False
      obtain r where "run (EVp e) s = Some (r, s)" using other [OF 2(2) False] ..
      with 2 s(1) show ?thesis by simp
    qed
  qed
qed

text \<open>The call is made by a task that may wait: not by the idle task.\<close>

definition may_block :: "kst \<Rightarrow> bool" where
  "may_block s \<longleftrightarrow> OSPrioCur s \<noteq> OS_TASK_IDLE_PRIO"

lemma settled_cong: "ctl s' = ctl s \<Longrightarrow> cur s' = cur s \<Longrightarrow> rdy s' = rdy s \<Longrightarrow> settled s' = settled s"
  by (simp add: settled_iff)

section \<open>States that keep the invariant\<close>

lemma settled_same:
  "settled s \<Longrightarrow> ctl s' = ctl s \<Longrightarrow> cur s' = cur s \<Longrightarrow> rdy s' = rdy s \<Longrightarrow> settled s'"
  by (simp add: settled_iff)

lemma cur_ok_same: "cur_ok s \<Longrightarrow> ids s' = ids s \<Longrightarrow> cur s' = cur s \<Longrightarrow> cur_ok s'"
  using cur_ok_cong [of s s'] by simp

lemma sinv_all_readied:
  assumes "sinv s" "all_readied e W m msk st s s'"
  shows "sinv s'"
  using assms oinv_all_readied [of s e W m msk st s'] cur_ok_same [of s s']
  by (simp add: sinv_def kinv_def all_readied_def frames_def)

lemma sinv_readied:
  "sinv s \<Longrightarrow> readied e p m msk st s s' \<Longrightarrow> sinv s'"
  by (erule sinv_all_readied, erule readied_all_readied)

lemma sinv_resched: "sinv s \<Longrightarrow> kinv s' \<Longrightarrow> resched s s' \<Longrightarrow> sinv s'"
  by (auto simp: sinv_def intro: oinv_resched)

lemma OS_Sched_sinv:
  assumes "sinv s"
  shows "ok (OS_Sched s) (\<lambda>s'. sinv s' \<and> resched s s' \<and> settled s' \<and> ctl s' = ctl s
    \<and> (OSIntNesting s = 0 \<and> OSLockNesting s = 0 \<longrightarrow> unat (OSPrioCur s') = Min (rdy s)))"
  by (rule ok_mono [OF OS_Sched_ok [OF sinvD(1) [OF assms]]])
    (auto intro: sinv_resched [OF assms] simp: reschedD)

text \<open>A change to what the invariant does not read.\<close>

lemma sinv_unread:
  assumes "sinv s" "ids s' = ids s" "cur s' = cur s" "rdy_bm s' = rdy_bm s" "ev_bm s' = ev_bm s"
    and "ev_data s' = ev_data s" "OSEventFreeList s' = OSEventFreeList s"
    and "OSQTbl s' = OSQTbl s" "OSQFreeList s' = OSQFreeList s" "OSTmrSemSignal s' = OSTmrSemSignal s"
    and "\<And>t. t < OS_N_TCBS \<Longrightarrow> OSTCBEventMultiPtr (OSTCBTbl s' t) = OSTCBEventMultiPtr (OSTCBTbl s t)
          \<or> OSTCBEventMultiPtr (OSTCBTbl s' t) = None"
  shows "sinv s'"
proof -
  have "kinv0 s'" by (rule kinv0_same [OF sinvD(2) [OF assms(1)] assms(2,4,5,11)])
  moreover have "oinv s'"
    by (rule oinv_weaken [OF sinvD(4) [OF assms(1)] assms(2,6-10)]) (simp add: waiters_def assms(5))
  ultimately show ?thesis
    using cur_ok_same [OF sinvD(3) [OF assms(1)] assms(2,3)] by (simp add: sinv_def kinv_def)
qed

lemma sinv_same:
  assumes "sinv s" "ids s' = ids s" "objs s' = objs s" "cur s' = cur s"
    and "rdy_bm s' = rdy_bm s" "ev_bm s' = ev_bm s"
    and "\<And>t. t < OS_N_TCBS \<Longrightarrow> OSTCBEventMultiPtr (OSTCBTbl s' t) = OSTCBEventMultiPtr (OSTCBTbl s t)
          \<or> OSTCBEventMultiPtr (OSTCBTbl s' t) = None"
  shows "sinv s'"
  by (rule sinv_unread [OF assms(1,2,4-6)]) (use assms(3,7) in \<open>simp_all add: objs_def stores_def clock_def\<close>)

lemma sinv_upd_tcb:
  assumes "sinv s" "ids (upd_tcb t f s) = ids s"
    and "OSTCBEventMultiPtr (f (OSTCBTbl s t)) = OSTCBEventMultiPtr (OSTCBTbl s t)
      \<or> OSTCBEventMultiPtr (f (OSTCBTbl s t)) = None"
  shows "sinv (upd_tcb t f s)"
  by (rule sinv_same [OF assms(1,2)]) (use assms(3) in auto)

text \<open>The running task, with its control block.\<close>

lemma sinv_curE:
  assumes "sinv s"
  obtains t where "OSTCBCur s = TCBp t" "owns s t (unat (OSPrioCur s))" "t < OS_N_TCBS"
    "task s (unat (OSPrioCur s)) = OSTCBTbl s t"
  using sinvD(1) [OF assms] by (elim kinvE) (auto simp: task_owns owns_index)

definition cur_ix :: "kst \<Rightarrow> nat" where
  "cur_ix s = (case OSTCBCur s of TCBp t \<Rightarrow> t | _ \<Rightarrow> OS_N_TCBS)"

lemma cur_ix: "OSTCBCur s = TCBp t \<Longrightarrow> cur_ix s = t"
  by (simp add: cur_ix_def)

lemma sinv_cur:
  assumes "sinv s"
  shows "OSTCBCur s = TCBp (cur_ix s)" "owns s (cur_ix s) (unat (OSPrioCur s))" "cur_ix s < OS_N_TCBS"
    "task s (unat (OSPrioCur s)) = OSTCBTbl s (cur_ix s)"
  by (rule sinv_curE [OF assms]; simp add: cur_ix)+

section \<open>Taking and freeing event control blocks\<close>

lemma take_event_ok:
  assumes "ev_pool_ok s"
  shows "ok (take_event s) (\<lambda>(p, s').
      (p = NULL \<and> s' = s \<and> unused_events s = {})
    \<or> (\<exists>e es. p = EVp e \<and> OSEventFreeList s = p \<and> e \<in> unused_events s \<and> s' = s\<lparr>OSEventFreeList := ev_ptr s e\<rparr>
         \<and> path EVp (ev_ptr s) (ev_ptr s e) es \<and> distinct es \<and> set es = unused_events s - {e}))"
proof -
  obtain es where es: "path EVp (ev_ptr s) (OSEventFreeList s) es" "distinct es" "set es = unused_events s"
    using assms by (auto simp: ev_pool_ok_def)
  show ?thesis
  proof (cases es)
    case Nil
    then show ?thesis using es by (simp add: take_event_def Let_def)
  next
    case (Cons e es')
    then have "e \<in> unused_events s" "OSEventFreeList s = EVp e" using es by auto
    moreover have "e < OS_MAX_EVENTS" using \<open>e \<in> unused_events s\<close> by (simp add: unused_events_def)
    moreover have "path EVp (ev_ptr s) (ev_ptr s e) es'" "distinct es'" "set es' = unused_events s - {e}"
      using es Cons by auto
    ultimately show ?thesis by (auto simp: take_event_def Let_def)
  qed
qed

text \<open>A control block taken from the free list is in use when its type is set.\<close>

lemma ev_pool_take:
  assumes "path EVp (ev_ptr s) p es" "distinct es" "set es = unused_events s - {e}"
    and "OSEventFreeList s' = p" "ev_type s' e \<noteq> OS_EVENT_TYPE_UNUSED"
    and "\<And>e'. e' \<noteq> e \<Longrightarrow> ev_data s' e' = ev_data s e'"
  shows "ev_pool_ok s'"
proof -
  have "unused_events s' = unused_events s - {e}"
  proof (rule set_eqI)
    fix x
    show "x \<in> unused_events s' \<longleftrightarrow> x \<in> unused_events s - {e}"
      using assms(5) ev_data_fields(1) [OF assms(6)]
      by (cases "x = e") (auto simp: unused_events_def)
  qed
  moreover have "path EVp (ev_ptr s') p es = path EVp (ev_ptr s) p es"
  proof (rule path_cong)
    fix x
    assume "x \<in> set es"
    then have "x \<noteq> e" using assms(3) by auto
    then show "ev_ptr s' x = ev_ptr s x" by (rule ev_data_fields(2) [OF assms(6)])
  qed
  ultimately show ?thesis using assms(1-4) by (auto simp: ev_pool_ok_def)
qed

lemma ev_pool_free:
  assumes "ev_pool_ok s" "e < OS_MAX_EVENTS" "ev_type s e \<noteq> OS_EVENT_TYPE_UNUSED"
    and "ev_type s' e = OS_EVENT_TYPE_UNUSED" "ev_ptr s' e = OSEventFreeList s"
    and "OSEventFreeList s' = EVp e"
    and "\<And>e'. e' \<noteq> e \<Longrightarrow> ev_data s' e' = ev_data s e'"
  shows "ev_pool_ok s'"
proof -
  obtain es where es: "path EVp (ev_ptr s) (OSEventFreeList s) es" "distinct es" "set es = unused_events s"
    using assms(1) by (auto simp: ev_pool_ok_def)
  have e: "e \<notin> set es" using es(3) assms(3) by (simp add: unused_events_def)
  have un: "unused_events s' = insert e (unused_events s)"
  proof (rule set_eqI)
    fix x
    show "x \<in> unused_events s' \<longleftrightarrow> x \<in> insert e (unused_events s)"
      using assms(2,4) ev_data_fields(1) [OF assms(7)]
      by (cases "x = e") (auto simp: unused_events_def)
  qed
  have "path EVp (ev_ptr s') p es = path EVp (ev_ptr s) p es" for p
  proof (rule path_cong)
    fix x
    assume "x \<in> set es"
    then have "x \<noteq> e" using e by auto
    then show "ev_ptr s' x = ev_ptr s x" by (rule ev_data_fields(2) [OF assms(7)])
  qed
  then have "path EVp (ev_ptr s') (OSEventFreeList s') (e # es)"
    using es(1) assms(5,6) by simp
  then show ?thesis using es e un unfolding ev_pool_ok_def by (intro exI [of _ "e # es"]) auto
qed

section \<open>Events that change their kind\<close>

text \<open>Creating and deleting: what has to be shown of the one event that changes.\<close>

lemma oinv_build:
  assumes inv: "oinv s" and e: "e < OS_MAX_EVENTS" and ids: "ids s' = ids s"
    and other: "\<And>e'. e' \<noteq> e \<Longrightarrow> ev_data s' e' = ev_data s e'"
    and pools: "ev_pool_ok s'" "q_pool_ok s'" "pcps_differ s'"
    and tmr: "OSTmrSemSignal s' = OSTmrSemSignal s"
    and q: "\<And>e' i. e' < OS_MAX_EVENTS \<Longrightarrow> e' \<noteq> e \<Longrightarrow> ev_type s e' = OS_EVENT_TYPE_Q
        \<Longrightarrow> ev_ptr s e' = Qp i \<Longrightarrow> OSQTbl s' i = OSQTbl s i"
    and w: "\<And>e'. e' \<noteq> e \<Longrightarrow> waiters s' e' \<subseteq> waiters s e'"
    and ok: "obj_ok s' e"
  shows "oinv s'"
proof -
  have "obj_ok s' e'" if "e' < OS_MAX_EVENTS" for e'
  proof (cases "e' = e")
    case False
    show ?thesis
      by (rule obj_ok_shrink [OF oinvD(4) [OF inv that] other [OF False] ids w [OF False] q [OF that False]])
  qed (simp add: ok)
  then show ?thesis using pools tmr inv by (simp add: oinv_def)
qed

lemma pcps_differ_same:
  assumes "pcps_differ s" "ev_type s' e \<noteq> OS_EVENT_TYPE_MUTEX"
    and "\<And>e'. e' \<noteq> e \<Longrightarrow> ev_data s' e' = ev_data s e'"
  shows "pcps_differ s'"
proof -
  have "ev_type s' x = ev_type s x \<and> ev_cnt s' x = ev_cnt s x" if "ev_type s' x = OS_EVENT_TYPE_MUTEX" for x
    using that assms(2) ev_data_fields [OF assms(3), of x] by auto
  then show ?thesis using assms(1) unfolding pcps_differ_def by (metis (no_types, lifting))
qed

lemma q_pool_same:
  assumes "q_pool_ok s" "ev_type s e \<noteq> OS_EVENT_TYPE_Q" "ev_type s' e \<noteq> OS_EVENT_TYPE_Q"
    and "\<And>e'. e' \<noteq> e \<Longrightarrow> ev_data s' e' = ev_data s e'"
    and "stores s' = stores s"
  shows "q_pool_ok s'"
proof -
  have q: "OSQTbl s' = OSQTbl s" "OSQFreeList s' = OSQFreeList s"
    using assms(5) by (simp_all add: stores_def)
  have same: "ev_type s' x = OS_EVENT_TYPE_Q \<longleftrightarrow> ev_type s x = OS_EVENT_TYPE_Q"
    "ev_type s x = OS_EVENT_TYPE_Q \<Longrightarrow> ev_ptr s' x = ev_ptr s x" for x
    using assms(2,3) ev_data_fields [OF assms(4), of x] by (cases "x = e"; auto)+
  then have "used_qs s' = used_qs s" by (auto simp: used_qs_def)
  then show ?thesis using assms(1) same q unfolding q_pool_ok_def by auto
qed

lemma oinv_retype:
  assumes inv: "oinv s" and e: "e < OS_MAX_EVENTS" and ids: "ids s' = ids s"
    and stores: "stores s' = stores s"
    and other: "\<And>e'. e' \<noteq> e \<Longrightarrow> ev_data s' e' = ev_data s e'"
    and plain: "ev_type s e \<noteq> OS_EVENT_TYPE_Q" "ev_type s' e \<noteq> OS_EVENT_TYPE_Q"
      "ev_type s' e \<noteq> OS_EVENT_TYPE_MUTEX"
    and tmr: "clock s' = clock s"
    and pool: "ev_pool_ok s'"
    and w: "\<And>e'. e' \<noteq> e \<Longrightarrow> waiters s' e' \<subseteq> waiters s e'"
    and ok: "obj_ok s' e"
  shows "oinv s'"
proof (rule oinv_build [OF inv e ids other pool])
  show "q_pool_ok s'" by (rule q_pool_same [OF oinvD(2) [OF inv] plain(1,2) other stores])
  show "pcps_differ s'" by (rule pcps_differ_same [OF oinvD(3) [OF inv] plain(3) other])
  show "OSQTbl s' i = OSQTbl s i" for i using stores by (simp add: stores_def)
qed (use w ok tmr in \<open>auto simp: clock_def\<close>)

text \<open>The free event control block that the create calls initialise.\<close>

lemma ev_data_upd_ev: "ev_data (upd_ev e f s) = (ev_data s)(e := (let c = f (OSEventTbl_ecb s e) in
    (OSEventType c, OSEventPtr c, OSEventCnt c, OSEventName c)))"
  by (auto simp: ev_data_def Let_def fun_eq_iff)

lemma free_event_ok:
  assumes "e < OS_MAX_EVENTS"
  shows "ok (free_event (EVp e) s) (\<lambda>s'. ids s' = ids s \<and> stores s' = stores s \<and> clock s' = clock s
    \<and> ctl s' = ctl s \<and> cur s' = cur s \<and> rdy_bm s' = rdy_bm s \<and> ev_bm s' = ev_bm s
    \<and> OSTCBTbl s' = OSTCBTbl s \<and> OSEventFreeList s' = EVp e
    \<and> ev_data s' = (ev_data s)(e := (OS_EVENT_TYPE_UNUSED, OSEventFreeList s, 0, unnamed)))"
proof -
  let ?s = "upd_ev e (\<lambda>c. c\<lparr>OSEventName := unnamed, OSEventType := OS_EVENT_TYPE_UNUSED,
    OSEventPtr := OSEventFreeList s, OSEventCnt := 0\<rparr>) s"
  have "ids (?s\<lparr>OSEventFreeList := EVp e\<rparr>) = ids s" "stores (?s\<lparr>OSEventFreeList := EVp e\<rparr>) = stores s"
    "clock (?s\<lparr>OSEventFreeList := EVp e\<rparr>) = clock s" "ctl (?s\<lparr>OSEventFreeList := EVp e\<rparr>) = ctl s"
    "cur (?s\<lparr>OSEventFreeList := EVp e\<rparr>) = cur s" "rdy_bm (?s\<lparr>OSEventFreeList := EVp e\<rparr>) = rdy_bm s"
    "ev_bm (?s\<lparr>OSEventFreeList := EVp e\<rparr>) = ev_bm s"
    by (auto simp: ids_def stores_def clock_def ctl_def cur_def kernel_defs fun_eq_iff)
  then show ?thesis
    using assms by (simp add: free_event_def Let_def ev_data_def fun_eq_iff)
qed

lemma kinv0_lists:
  assumes "kinv0 s" "ids s' = ids s" "rdy_bm s' = rdy_bm s"
    and "\<And>e. e < OS_MAX_EVENTS \<Longrightarrow> ev_bm s' e = ev_bm s e \<or> bm_ok (ev_bm s' e) \<and> waiters s' e = {}"
    and "OSTCBTbl s' = OSTCBTbl s"
  shows "kinv0 s'"
proof (rule kinv0_intro [OF assms(1,2)])
  fix e
  assume e: "e < OS_MAX_EVENTS"
  show "bm_ok (ev_bm s' e)" using assms(1) assms(4) [OF e] e by (auto simp: kinv0_def)
  show "p \<in> waiters s e \<or> owned s p" if "p \<in> waiters s' e" for p
    using that assms(4) [OF e] by (auto simp: waiters_def)
qed (use assms(1,3,5) in \<open>auto simp: kinv0_def rdy_def\<close>)

lemma init_event_ok:
  assumes "e < OS_MAX_EVENTS"
  shows "ok (init_event (EVp e) k cnt ptr s) (\<lambda>s'. ids s' = ids s \<and> stores s' = stores s
    \<and> clock s' = clock s \<and> ctl s' = ctl s \<and> cur s' = cur s \<and> rdy_bm s' = rdy_bm s
    \<and> bm_ok (ev_bm s' e) \<and> waiters s' = (waiters s)(e := {}) \<and> (\<forall>e'. e' \<noteq> e \<longrightarrow> ev_bm s' e' = ev_bm s e')
    \<and> OSTCBTbl s' = OSTCBTbl s \<and> OSEventFreeList s' = OSEventFreeList s
    \<and> ev_data s' = (ev_data s)(e := (k, ptr, cnt, unnamed)))"
  using assms
  by (auto simp: init_event_def OS_EventWaitListInit_def Let_def ev_data_def stores_def clock_def
      kernel_defs bm_ok_empty bm_members_empty waiters_def ids_def ctl_def cur_def fun_eq_iff)

text \<open>The control block that a create call took from the free list, once it is initialised.\<close>

lemma init_taken_ok:
  assumes inv: "sinv s" and k: "k \<noteq> OS_EVENT_TYPE_UNUSED" and e: "e \<in> unused_events s"
    and es: "path EVp (ev_ptr s) (ev_ptr s e) es" "distinct es" "set es = unused_events s - {e}"
  shows "ok (init_event (EVp e) k cnt ptr (s\<lparr>OSEventFreeList := ev_ptr s e\<rparr>)) (\<lambda>s'.
      kinv s' \<and> ev_pool_ok s' \<and> ids s' = ids s \<and> stores s' = stores s \<and> clock s' = clock s
      \<and> ctl s' = ctl s \<and> cur s' = cur s \<and> rdy s' = rdy s \<and> waiters s' = waiters s
      \<and> OSTCBTbl s' = OSTCBTbl s \<and> OSEventFreeList s' = ev_ptr s e
      \<and> ev_data s' = (ev_data s)(e := (k, ptr, cnt, unnamed)))"
proof -
  define s0 where "s0 = s\<lparr>OSEventFreeList := ev_ptr s e\<rparr>"
  have e10: "e < OS_MAX_EVENTS" and un: "ev_type s e = OS_EVENT_TYPE_UNUSED"
    using e by (simp_all add: unused_events_def)
  have none: "waiters s e = {}" by (rule unused_waiters [OF sinvD(4) [OF inv] e10 un])
  have s0: "ids s0 = ids s" "stores s0 = stores s" "clock s0 = clock s" "ctl s0 = ctl s"
    "cur s0 = cur s" "rdy_bm s0 = rdy_bm s" "ev_bm s0 = ev_bm s" "OSTCBTbl s0 = OSTCBTbl s"
    "ev_data s0 = ev_data s" "waiters s0 = waiters s" "OSEventFreeList s0 = ev_ptr s e"
    by (auto simp: s0_def ids_def stores_def clock_def ctl_def cur_def rdy_bm_def ev_bm_def
        ev_data_def waiters_def fun_eq_iff)
  show ?thesis
  proof (rule ok_mono [OF init_event_ok [OF e10, of k cnt ptr s0, unfolded s0_def]], fold s0_def)
    fix s'
    assume 1: "ids s' = ids s0 \<and> stores s' = stores s0
    \<and> clock s' = clock s0 \<and> ctl s' = ctl s0 \<and> cur s' = cur s0 \<and> rdy_bm s' = rdy_bm s0
    \<and> bm_ok (ev_bm s' e) \<and> waiters s' = (waiters s0)(e := {}) \<and> (\<forall>e'. e' \<noteq> e \<longrightarrow> ev_bm s' e' = ev_bm s0 e')
    \<and> OSTCBTbl s' = OSTCBTbl s0 \<and> OSEventFreeList s' = OSEventFreeList s0
    \<and> ev_data s' = (ev_data s0)(e := (k, ptr, cnt, unnamed))"
    have w: "waiters s' = waiters s" using 1 s0 none by (simp add: fun_eq_iff)
    have "kinv0 s'"
      by (rule kinv0_lists [OF sinvD(2) [OF inv]]) (use 1 s0 none in auto)
    moreover have "ev_pool_ok s'"
      by (rule ev_pool_take [OF es]) (use 1 s0 k ev_data_at(1) [of s' e k ptr cnt unnamed] in auto)
    ultimately show "kinv s' \<and> ev_pool_ok s' \<and> ids s' = ids s \<and> stores s' = stores s \<and> clock s' = clock s
      \<and> ctl s' = ctl s \<and> cur s' = cur s \<and> rdy s' = rdy s \<and> waiters s' = waiters s
      \<and> OSTCBTbl s' = OSTCBTbl s \<and> OSEventFreeList s' = ev_ptr s e
      \<and> ev_data s' = (ev_data s)(e := (k, ptr, cnt, unnamed))"
      using cur_ok_same [OF sinvD(3) [OF inv], of s'] 1 s0 w by (simp add: kinv_def rdy_def)
  qed
qed

text \<open>Creating a semaphore or a mailbox.\<close>

lemma create_plain_ok:
  assumes inv: "sinv s" and k: "k = OS_EVENT_TYPE_SEM \<or> k = OS_EVENT_TYPE_MBOX"
    and e: "e \<in> unused_events s"
    and es: "path EVp (ev_ptr s) (ev_ptr s e) es" "distinct es" "set es = unused_events s - {e}"
  shows "ok (init_event (EVp e) k cnt ptr (s\<lparr>OSEventFreeList := ev_ptr s e\<rparr>)) (\<lambda>s'.
      sinv s' \<and> ids s' = ids s \<and> stores s' = stores s \<and> clock s' = clock s \<and> ctl s' = ctl s
      \<and> cur s' = cur s \<and> rdy s' = rdy s \<and> waiters s' = waiters s \<and> OSTCBTbl s' = OSTCBTbl s
      \<and> OSEventFreeList s' = ev_ptr s e
      \<and> ev_data s' = (ev_data s)(e := (k, ptr, cnt, unnamed)))"
proof (rule ok_mono [OF init_taken_ok [OF inv _ e es]], use k in force, elim conjE)
  fix s'
  assume 1: "kinv s'" "ev_pool_ok s'" "ids s' = ids s" "stores s' = stores s" "clock s' = clock s"
    "ctl s' = ctl s" "cur s' = cur s" "rdy s' = rdy s" "waiters s' = waiters s" "OSTCBTbl s' = OSTCBTbl s"
    "OSEventFreeList s' = ev_ptr s e" "ev_data s' = (ev_data s)(e := (k, ptr, cnt, unnamed))"
  have e10: "e < OS_MAX_EVENTS" and un: "ev_type s e = OS_EVENT_TYPE_UNUSED"
    using e by (simp_all add: unused_events_def)
  have none: "waiters s e = {}" by (rule unused_waiters [OF sinvD(4) [OF inv] e10 un])
  have kind: "ev_type s' e = k" using 1 ev_data_at(1) [of s' e k ptr cnt unnamed] by simp
  have "oinv s'"
    by (rule oinv_retype [OF sinvD(4) [OF inv] e10, rotated -3])
      (use 1 un kind k none in \<open>auto simp: obj_ok_def\<close>)
  then show "sinv s' \<and> ids s' = ids s \<and> stores s' = stores s \<and> clock s' = clock s \<and> ctl s' = ctl s
      \<and> cur s' = cur s \<and> rdy s' = rdy s \<and> waiters s' = waiters s \<and> OSTCBTbl s' = OSTCBTbl s
      \<and> OSEventFreeList s' = ev_ptr s e \<and> ev_data s' = (ev_data s)(e := (k, ptr, cnt, unnamed))"
    using 1 by (simp add: sinv_def)
qed

definition created :: "event_type \<Rightarrow> 16 word \<Rightarrow> vptr \<Rightarrow> kst \<Rightarrow> vptr \<Rightarrow> kst \<Rightarrow> bool" where
  "created k cnt ptr s p s' \<longleftrightarrow>
     (if unused_events s = {} then p = NULL \<and> s' = s
      else \<exists>e\<in>unused_events s. p = EVp e \<and> OSEventFreeList s = EVp e
        \<and> ev_data s' = (ev_data s)(e := (k, ptr, cnt, unnamed))
        \<and> ids s' = ids s \<and> stores s' = stores s \<and> rdy s' = rdy s \<and> cur s' = cur s
        \<and> waiters s' = waiters s \<and> OSTCBTbl s' = OSTCBTbl s)"

lemma create_event_ok:
  assumes inv: "sinv s" and k: "k = OS_EVENT_TYPE_SEM \<or> k = OS_EVENT_TYPE_MBOX"
  shows "ok (do { (p, s1) \<leftarrow> take_event s;
      if p \<noteq> NULL then do { s' \<leftarrow> init_event p k cnt ptr s1; Some (p, s') } else Some (p, s1) })
    (\<lambda>(p, s'). kept s s' \<and> created k cnt ptr s p s')"
proof (rule ok_bindI2 [OF take_event_ok [OF oinvD(1) [OF sinvD(4) [OF inv]]]],
    elim disjE exE conjE, goal_cases)
  case (1 p s1)
  then show ?case using inv by (simp add: created_def)
next
  case (2 p s1 e es)
  then show ?case
    using create_plain_ok [OF inv k 2(3,5-7), of cnt ptr]
    by (auto simp: ok_simps created_def settled_iff elim!: ok_mono)
qed

text \<open>Deleting an event that is neither a queue nor free and that nobody waits for.\<close>

lemma free_event_sinv:
  assumes inv: "sinv s" and e: "e < OS_MAX_EVENTS" and none: "waiters s e = {}"
    and k: "ev_type s e \<noteq> OS_EVENT_TYPE_UNUSED" "ev_type s e \<noteq> OS_EVENT_TYPE_Q"
  shows "ok (free_event (EVp e) s) (\<lambda>s'. sinv s' \<and> ids s' = ids s \<and> stores s' = stores s
    \<and> clock s' = clock s \<and> ctl s' = ctl s \<and> cur s' = cur s \<and> rdy s' = rdy s
    \<and> waiters s' = waiters s \<and> OSTCBTbl s' = OSTCBTbl s
    \<and> ev_data s' = (ev_data s)(e := (OS_EVENT_TYPE_UNUSED, OSEventFreeList s, 0, unnamed)))"
proof (rule ok_mono [OF free_event_ok [OF e]], elim conjE)
  fix s'
  assume 1: "ids s' = ids s" "stores s' = stores s" "clock s' = clock s" "ctl s' = ctl s"
    "cur s' = cur s" "rdy_bm s' = rdy_bm s" "ev_bm s' = ev_bm s" "OSTCBTbl s' = OSTCBTbl s"
    and fl: "OSEventFreeList s' = EVp e"
    and 2: "ev_data s' = (ev_data s)(e := (OS_EVENT_TYPE_UNUSED, OSEventFreeList s, 0, unnamed))"
  have w: "waiters s' = waiters s" using 1(7) by (simp add: waiters_def fun_eq_iff)
  have data: "ev_data s' e' = ev_data s e'" if "e' \<noteq> e" for e' using 2 that by simp
  have new: "ev_type s' e = OS_EVENT_TYPE_UNUSED" "ev_ptr s' e = OSEventFreeList s"
    using ev_data_at [of s' e] 2 by simp_all
  have k0: "kinv0 s'" by (rule kinv0_lists [OF sinvD(2) [OF inv]]) (use 1 in auto)
  have "ev_pool_ok s'"
    by (rule ev_pool_free [OF oinvD(1) [OF sinvD(4) [OF inv]] e k(1) new fl data])
  then have "oinv s'"
    by (rule oinv_retype [OF sinvD(4) [OF inv] e 1(1,2) data k(2), rotated -3])
      (use new w none 1(3) in \<open>auto simp: obj_ok_def\<close>)
  then have "sinv s'"
    using k0 cur_ok_same [OF sinvD(3) [OF inv], of s'] 1 by (simp add: sinv_def kinv_def)
  then show "sinv s' \<and> ids s' = ids s \<and> stores s' = stores s
    \<and> clock s' = clock s \<and> ctl s' = ctl s \<and> cur s' = cur s \<and> rdy s' = rdy s
    \<and> waiters s' = waiters s \<and> OSTCBTbl s' = OSTCBTbl s
    \<and> ev_data s' = (ev_data s)(e := (OS_EVENT_TYPE_UNUSED, OSEventFreeList s, 0, unnamed))"
    using 1 2 w by (simp add: rdy_def)
qed

text \<open>An update of the data of an event in use that keeps its wait list.\<close>

lemma upd_ev_sinv:
  assumes inv: "sinv s" and e: "e < OS_MAX_EVENTS"
    and same: "OSEventGrp (f (OSEventTbl_ecb s e)) = OSEventGrp (OSEventTbl_ecb s e)"
      "OSEventTbl (f (OSEventTbl_ecb s e)) = OSEventTbl (OSEventTbl_ecb s e)"
      "OSEventType (f (OSEventTbl_ecb s e)) = ev_type s e"
    and used: "ev_type s e \<noteq> OS_EVENT_TYPE_UNUSED"
    and q: "ev_type s e = OS_EVENT_TYPE_Q \<Longrightarrow> OSEventPtr (f (OSEventTbl_ecb s e)) = ev_ptr s e"
    and mutex: "ev_type s e = OS_EVENT_TYPE_MUTEX \<Longrightarrow>
      mutex_pcp (OSEventCnt (f (OSEventTbl_ecb s e))) = mutex_pcp (ev_cnt s e)"
    and ok: "obj_ok (upd_ev e f s) e"
  shows "sinv (upd_ev e f s)" (is "sinv ?s")
proof -
  have w: "waiters ?s = waiters s" "ev_bm ?s = ev_bm s" using same by simp_all
  have st: "OSQTbl ?s = OSQTbl s" "OSQFreeList ?s = OSQFreeList s" "OSTmrSemSignal ?s = OSTmrSemSignal s"
    using views_upd_ev(6,7) [of e f s] unfolding stores_def clock_def by simp_all
  have "kinv0 ?s" by (rule kinv0_lists [OF sinvD(2) [OF inv]]) (simp_all add: w)
  moreover have "oinv ?s"
    by (rule oinv_update [OF sinvD(4) [OF inv] e])
      (use same used q mutex ok w st in \<open>simp_all add: ev_data_upd_ev\<close>)
  ultimately show ?thesis
    using cur_ok_same [OF sinvD(3) [OF inv], of ?s] by (simp add: sinv_def kinv_def)
qed

section \<open>Waiting and coming back\<close>

lemma event_wait_ok:
  assumes inv: "sinv s" and cur: "OSTCBCur s = TCBp t" and idle: "OSPrioCur s \<noteq> OS_TASK_IDLE_PRIO"
    and e: "e < OS_MAX_EVENTS" and not: "\<not> avail s e" "ev_type s e \<noteq> OS_EVENT_TYPE_UNUSED"
  shows "ok (event_wait (EVp e) msk timeout s) (\<lambda>s'. sinv s' \<and> frames s s' \<and> cur s' = cur s
    \<and> rdy s' = rdy s - {unat (OSPrioCur s)}
    \<and> waiters s' = (waiters s)(e := insert (unat (OSPrioCur s)) (waiters s e))
    \<and> OSTCBTbl s' = (OSTCBTbl s)(t := (OSTCBTbl s t)\<lparr>OSTCBStat := OSTCBStat (OSTCBTbl s t) OR msk,
       OSTCBStatPend := OS_STAT_PEND_OK, OSTCBDly := timeout, OSTCBEventPtr := EVp e\<rparr>))"
proof -
  let ?p = "unat (OSPrioCur s)"
  define s1 where "s1 = upd_tcb t (\<lambda>c. c\<lparr>OSTCBStat := OSTCBStat c OR msk,
    OSTCBStatPend := OS_STAT_PEND_OK, OSTCBDly := timeout\<rparr>) s"
  obtain t' where t': "OSTCBCur s = TCBp t'" "owns s t' ?p" by (rule sinv_curE [OF inv])
  have own: "owns s t ?p" using t' cur by simp
  have inv1: "kinv0 s1" by (rule kinv0_same [OF sinvD(2) [OF inv]]) (simp_all add: s1_def)
  have fr: "frames s s1" by (simp add: frames_def s1_def)
  have own1: "owns s1 t ?p" using own owns_frames [OF fr] by simp
  have p63: "?p \<noteq> 63" using idle by (simp add: word_unat_eq_iff)
  have cur1: "OSTCBCur s1 = TCBp t" using cur by (simp add: s1_def upd_tcb_def)
  have run: "event_wait (EVp e) msk timeout s = OS_EventTaskWait (EVp e) s1"
    using cur owns_index [OF own] by (simp add: event_wait_def s1_def)
  show ?thesis
    unfolding run
  proof (rule ok_mono [OF OS_EventTaskWait_ok [OF inv1 cur1 own1 p63 e]], elim conjE)
    fix s'
    assume 1: "kinv0 s'" "frames s1 s'" "cur s' = cur s1" "rdy s' = rdy s1 - {?p}"
      "waiters s' = (waiters s1)(e := insert ?p (waiters s1 e))"
      "OSTCBTbl s' = (OSTCBTbl s1)(t := OSTCBTbl s1 t\<lparr>OSTCBEventPtr := EVp e\<rparr>)"
    have fr': "frames s s'" using fr 1(2) by (rule frames_trans)
    have data: "ev_data s' = ev_data s" "OSQTbl s' = OSQTbl s" "ids s' = ids s"
      "OSEventFreeList s' = OSEventFreeList s" "OSQFreeList s' = OSQFreeList s"
      "OSTmrSemSignal s' = OSTmrSemSignal s"
      using fr' by (simp_all add: frames_def objs_def stores_def clock_def)
    note f = ev_data_fields [of s' e s, OF fun_cong [OF data(1)]]
    have "obj_ok s' e"
      using oinvD(4) [OF sinvD(4) [OF inv] e] not avail_cong [of s' e s] data f
        mutex_ok_cong [of s' e s]
      unfolding obj_ok_def f by (auto split: vptr.split)
    then have "oinv s'"
      by (rule oinv_update [OF sinvD(4) [OF inv] e data(3), rotated -1])
        (use data f not 1(5) in \<open>simp_all add: s1_def\<close>)
    moreover have "cur_ok s'"
      using cur_ok_same [OF sinvD(3) [OF inv] data(3)] 1(3) by (simp add: s1_def)
    ultimately show "sinv s' \<and> frames s s' \<and> cur s' = cur s \<and> rdy s' = rdy s - {?p}
      \<and> waiters s' = (waiters s)(e := insert ?p (waiters s e))
      \<and> OSTCBTbl s' = (OSTCBTbl s)(t := (OSTCBTbl s t)\<lparr>OSTCBStat := OSTCBStat (OSTCBTbl s t) OR msk,
         OSTCBStatPend := OS_STAT_PEND_OK, OSTCBDly := timeout, OSTCBEventPtr := EVp e\<rparr>)"
      using 1 fr' by (simp add: sinv_def kinv_def s1_def)
  qed
qed

lemma event_wait_done_ok:
  assumes inv: "sinv s" and cur: "OSTCBCur s = TCBp t"
  shows "ok (event_wait_done s) (\<lambda>s'. sinv s' \<and> frames s s' \<and> cur s' = cur s \<and> rdy s' = rdy s
    \<and> waiters s' = waiters s
    \<and> OSTCBTbl s' = (OSTCBTbl s)(t := (OSTCBTbl s t)\<lparr>OSTCBStat := OS_STAT_RDY,
        OSTCBStatPend := OS_STAT_PEND_OK, OSTCBEventPtr := NULL, OSTCBEventMultiPtr := None,
        OSTCBEventMultiRdy := NULL\<rparr>))"
proof -
  obtain t' where t': "OSTCBCur s = TCBp t'" "t' < OS_N_TCBS" by (rule sinv_curE [OF inv])
  show ?thesis
    using sinv_upd_tcb [OF inv, of t "\<lambda>c. c\<lparr>OSTCBStat := OS_STAT_RDY,
        OSTCBStatPend := OS_STAT_PEND_OK, OSTCBEventPtr := NULL, OSTCBEventMultiPtr := None,
        OSTCBEventMultiRdy := NULL\<rparr>"] t' cur
    by (simp add: event_wait_done_def frames_def)
qed

text \<open>What a pend call returns when its task runs again, and what it leaves behind.\<close>

definition resumed :: "nat \<Rightarrow> kst \<Rightarrow> vptr \<times> os_err \<Rightarrow> kst \<Rightarrow> bool" where
  "resumed e s r s' \<longleftrightarrow> sinv s' \<and> frames s s' \<and> cur s' = cur s \<and> rdy s' = rdy s
     \<and> waiters s' = (if OSTCBStatPend (OSTCBTbl s (cur_ix s)) = OS_STAT_PEND_TO
                     then leave (unat (OSPrioCur s)) {e} (waiters s) else waiters s)
     \<and> OSTCBTbl s' = (OSTCBTbl s)(cur_ix s := (OSTCBTbl s (cur_ix s))\<lparr>OSTCBStat := OS_STAT_RDY,
        OSTCBStatPend := OS_STAT_PEND_OK, OSTCBEventPtr := NULL, OSTCBEventMultiPtr := None,
        OSTCBEventMultiRdy := NULL\<rparr>)
     \<and> r = (case OSTCBStatPend (OSTCBTbl s (cur_ix s)) of
              OS_STAT_PEND_OK \<Rightarrow> (OSTCBMsg (OSTCBTbl s (cur_ix s)), OS_ERR_NONE)
            | OS_STAT_PEND_ABORT \<Rightarrow> (NULL, OS_ERR_PEND_ABORT)
            | OS_STAT_PEND_TO \<Rightarrow> (NULL, OS_ERR_TIMEOUT))"

lemma event_resume_ok:
  assumes inv: "sinv s" and e: "e < OS_MAX_EVENTS"
  shows "ok (event_resume (EVp e) s) (\<lambda>(r, s'). resumed e s r s')"
proof -
  obtain t where cur: "OSTCBCur s = TCBp t" and own: "owns s t (unat (OSPrioCur s))"
    and t: "t < OS_N_TCBS"
    by (rule sinv_curE [OF inv])
  note ix = cur_ix [OF cur]
  note fin = event_wait_done_ok [OF inv cur]
  show ?thesis
  proof (cases "OSTCBStatPend (OSTCBTbl s t)")
    case OS_STAT_PEND_OK
    with fin cur t show ?thesis
      by (auto simp: event_resume_def Let_def resumed_def ix ok_simps elim!: ok_mono)
  next
    case OS_STAT_PEND_ABORT
    with fin cur t show ?thesis
      by (auto simp: event_resume_def Let_def resumed_def ix ok_simps elim!: ok_mono)
  next
    case OS_STAT_PEND_TO
    have "ok (OS_EventTaskRemove (TCBp t) (EVp e) s \<bind> event_wait_done)
      (\<lambda>s'. resumed e s (NULL, OS_ERR_TIMEOUT) s')"
    proof (rule ok_bindI [OF OS_EventTaskRemove_ok [OF sinvD(2) [OF inv] own e]], elim conjE)
      fix s1
      assume 1: "kinv0 s1" "frames s s1" "cur s1 = cur s" "rdy_bm s1 = rdy_bm s"
        "waiters s1 = leave (unat (OSPrioCur s)) {e} (waiters s)"
        "OSTCBTbl s1 = (OSTCBTbl s)(t := (OSTCBTbl s t)\<lparr>OSTCBEventPtr := NULL\<rparr>)"
      have "oinv s1"
        by (rule oinv_frames [OF sinvD(4) [OF inv] 1(2)]) (simp add: 1(5) leave_subset)
      then have inv1: "sinv s1"
        using 1 cur_ok_same [OF sinvD(3) [OF inv], of s1] by (simp add: sinv_def kinv_def frames_def)
      have cur1: "OSTCBCur s1 = TCBp t" using 1(3) cur by (simp add: cur_def)
      show "ok (event_wait_done s1) (\<lambda>s'. resumed e s (NULL, OS_ERR_TIMEOUT) s')"
        by (rule ok_mono [OF event_wait_done_ok [OF inv1 cur1]])
          (use 1 OS_STAT_PEND_TO in \<open>auto simp: resumed_def ix rdy_def intro: frames_trans\<close>)
    qed
    then show ?thesis
      using cur t OS_STAT_PEND_TO by (simp add: event_resume_def ok_simps)
  qed
qed

lemma resumed_kept: "resumed e s r s' \<Longrightarrow> kept s s'"
  by (simp add: resumed_def frames_def settled_iff)

text \<open>Mailboxes and queues also clear the message of the task.\<close>

lemma event_resume_clear_ok:
  assumes inv: "sinv s" and e: "e < OS_MAX_EVENTS"
  shows "ok (do { (r, s) \<leftarrow> event_resume (EVp e) s;
      t \<leftarrow> tcb_at (OSTCBCur s);
      Some (r, upd_tcb t (\<lambda>c. c\<lparr>OSTCBMsg := NULL\<rparr>) s) }) (\<lambda>(r, s'). kept s s'
    \<and> (\<exists>s1. resumed e s r s1 \<and> s' = upd_tcb (cur_ix s) (\<lambda>c. c\<lparr>OSTCBMsg := NULL\<rparr>) s1))"
proof (rule ok_bindI2 [OF event_resume_ok [OF inv e]])
  fix r s1
  assume 1: "resumed e s r s1"
  let ?s = "upd_tcb (cur_ix s) (\<lambda>c. c\<lparr>OSTCBMsg := NULL\<rparr>) s1"
  have k: "kept s s1" by (rule resumed_kept [OF 1])
  have cur: "OSTCBCur s1 = TCBp (cur_ix s)" "cur_ix s < OS_N_TCBS"
    using 1 sinv_cur [OF inv] by (simp_all add: resumed_def cur_def)
  have inv1: "sinv s1" using k by simp
  have "sinv ?s" by (rule sinv_upd_tcb [OF inv1]) simp_all
  moreover have "settled ?s = settled s1" by (rule settled_cong) simp_all
  ultimately show "ok (do { t \<leftarrow> tcb_at (OSTCBCur s1); Some (r, upd_tcb t (\<lambda>c. c\<lparr>OSTCBMsg := NULL\<rparr>) s1) })
    (\<lambda>(r, s'). kept s s' \<and> (\<exists>s1. resumed e s r s1 \<and> s' = upd_tcb (cur_ix s) (\<lambda>c. c\<lparr>OSTCBMsg := NULL\<rparr>) s1))"
    using cur k 1 by auto
qed

section \<open>Readying, then scheduling\<close>

text \<open>What the post and abort calls do after they have readied the tasks in \<open>W\<close>.\<close>

lemma sched_after:
  assumes "sinv s" "all_readied e W m msk st s s1"
  shows "ok (OS_Sched s1) (\<lambda>s'. sinv s' \<and> settled s' \<and> ctl s' = ctl s \<and> resched s1 s'
    \<and> rdy s' = rdy s1 \<and> waiters s' = waiters s1 \<and> objs s' = objs s \<and> ids s' = ids s
    \<and> (\<forall>p\<in>W. woken m msk st (task s p) (task s' p))
    \<and> (OSIntNesting s = 0 \<and> OSLockNesting s = 0 \<longrightarrow> unat (OSPrioCur s') = Min (rdy s')))"
proof -
  have fr: "frames s s1" using assms(2) by (simp add: all_readied_def)
  then have nest: "OSIntNesting s1 = OSIntNesting s" "OSLockNesting s1 = OSLockNesting s"
    by (simp_all add: frames_def ctl_def)
  show ?thesis
    by (rule ok_mono [OF OS_Sched_sinv [OF sinv_all_readied [OF assms]]])
      (use assms(2) fr nest in \<open>auto simp: reschedD woken_resched frames_def all_readied_def\<close>)
qed

lemma wake_and_sched:
  assumes "sinv s" "e < OS_MAX_EVENTS" "waiters s e \<noteq> {}"
  shows "ok (do { (_, s1) \<leftarrow> OS_EventTaskRdy (EVp e) m msk st s; OS_Sched s1 })
    (\<lambda>s'. sinv s' \<and> settled s' \<and> ctl s' = ctl s
      \<and> (\<exists>s1. readied e (Min (waiters s e)) m msk st s s1 \<and> resched s1 s')
      \<and> (OSIntNesting s = 0 \<and> OSLockNesting s = 0 \<longrightarrow> unat (OSPrioCur s') = Min (rdy s')))"
proof (rule ok_bindI2 [OF OS_EventTaskRdy_readied [OF sinvD(2) [OF assms(1)] assms(2,3)]], elim conjE)
  fix prio s1
  assume r: "readied e (Min (waiters s e)) m msk st s s1"
  show "ok (OS_Sched s1) (\<lambda>s'. sinv s' \<and> settled s' \<and> ctl s' = ctl s
      \<and> (\<exists>s1. readied e (Min (waiters s e)) m msk st s s1 \<and> resched s1 s')
      \<and> (OSIntNesting s = 0 \<and> OSLockNesting s = 0 \<longrightarrow> unat (OSPrioCur s') = Min (rdy s')))"
    by (rule ok_mono [OF sched_after [OF assms(1) readied_all_readied [OF r]]]) (use r in auto)
qed

text \<open>An abort readies every waiter or the most urgent one, and says how many it readied.\<close>

lemma event_pend_abort_ok:
  fixes opt :: "8 word"
  assumes "sinv s" "e < OS_MAX_EVENTS"
  defines "W \<equiv> (if opt = OS_PEND_OPT_BROADCAST then waiters s e else {Min (waiters s e)})"
  shows "ok (event_pend_abort (EVp e) msk opt s) (\<lambda>(r, s'). kept s s'
    \<and> (if waiters s e = {} then r = (0, OS_ERR_NONE) \<and> s' = s
       else r = (of_nat (card W), OS_ERR_PEND_ABORT)
         \<and> (\<exists>s1. all_readied e W NULL msk OS_STAT_PEND_ABORT s s1 \<and> resched s1 s')))"
proof (cases "waiters s e = {}")
  case True
  with assms show ?thesis
    using ev_grp_waiters [OF sinvD(2) [OF assms(1)] assms(2)] by (simp add: event_pend_abort_def)
next
  case False
  let ?m = "if opt = OS_PEND_OPT_BROADCAST
    then OS_EventTaskRdy_all (EVp e) NULL msk OS_STAT_PEND_ABORT 0 s
    else do { (_, s) \<leftarrow> OS_EventTaskRdy (EVp e) NULL msk OS_STAT_PEND_ABORT s; Some (1, s) }"
  have m: "ok ?m (\<lambda>(n, s1). n = of_nat (card W) \<and> all_readied e W NULL msk OS_STAT_PEND_ABORT s s1)"
  proof (cases "opt = OS_PEND_OPT_BROADCAST")
    case True
    then show ?thesis
      using OS_EventTaskRdy_all_ok [OF sinvD(2) [OF assms(1)] assms(2), of NULL msk OS_STAT_PEND_ABORT 0]
      by (auto simp: W_def elim!: ok_mono)
  next
    case f: False
    then show ?thesis
      using OS_EventTaskRdy_readied [OF sinvD(2) [OF assms(1)] assms(2) False, of NULL msk OS_STAT_PEND_ABORT]
      by (auto simp: W_def ok_simps elim!: ok_mono intro: readied_all_readied)
  qed
  have run: "event_pend_abort (EVp e) msk opt s
      = do { (n, s1) \<leftarrow> ?m; s' \<leftarrow> OS_Sched s1; Some ((n, OS_ERR_PEND_ABORT), s') }"
    using assms(2) False ev_grp_waiters [OF sinvD(2) [OF assms(1)] assms(2)]
    by (simp add: event_pend_abort_def)
  show ?thesis
    unfolding run
  proof (rule ok_bindI2 [OF m], elim conjE)
    fix n s1
    assume 1: "n = of_nat (card W)" "all_readied e W NULL msk OS_STAT_PEND_ABORT s s1"
    show "ok (do { s' \<leftarrow> OS_Sched s1; Some ((n, OS_ERR_PEND_ABORT), s') }) (\<lambda>(r, s'). kept s s'
      \<and> (if waiters s e = {} then r = (0, OS_ERR_NONE) \<and> s' = s
         else r = (of_nat (card W), OS_ERR_PEND_ABORT)
           \<and> (\<exists>s1. all_readied e W NULL msk OS_STAT_PEND_ABORT s s1 \<and> resched s1 s')))"
      by (rule ok_bindI [OF sched_after [OF assms(1) 1(2)]]) (use 1 False in auto)
  qed
qed

lemma woken_suspended:
  assumes "woken m msk st c c'" "msk AND OS_STAT_SUSPEND = 0"
  shows "suspended c' = suspended c"
proof -
  have "(OSTCBStat c AND NOT msk) AND 8 = OSTCBStat c AND 8"
  proof (rule bit_word_eqI)
    fix n
    assume "n < LENGTH(8)"
    moreover have "\<not> (bit msk n \<and> bit (8 :: 8 word) n)"
      using arg_cong [OF assms(2), of "\<lambda>w. bit w n"] by (simp add: bit_and_iff)
    ultimately show "bit ((OSTCBStat c AND NOT msk) AND 8) n = bit (OSTCBStat c AND 8) n"
      by (auto simp: bit_simps)
  qed
  then show ?thesis using assms(1) by (simp add: woken_def suspended_def)
qed

lemma Min_insert_below:
  assumes "finite A" "A \<noteq> {}" "p < Min A"
  shows "Min (insert p A) = (p :: nat)"
  using assms by (auto simp: min_def dest: less_imp_le)

text \<open>A forced delete readies every waiter with the status \<open>aborted\<close> and frees the event.\<close>

definition deleted :: "nat \<Rightarrow> 8 word \<Rightarrow> kst \<Rightarrow> kst \<Rightarrow> bool" where
  "deleted e msk s s' \<longleftrightarrow> kept s s'
     \<and> ev_type s' e = OS_EVENT_TYPE_UNUSED \<and> OSEventFreeList s' = EVp e
     \<and> waiters s' e = {}
     \<and> rdy s' = rdy s \<union> {p \<in> waiters s e. \<not> suspended (task s' p)}
     \<and> (\<forall>p\<in>waiters s e. woken NULL msk OS_STAT_PEND_ABORT (task s p) (task s' p))"

lemma task_cong: "ids s' = ids s \<Longrightarrow> OSTCBTbl s' = OSTCBTbl s \<Longrightarrow> task s' = task s"
  using ids_PrioTbl [of s' s] by (auto simp: task_def fun_eq_iff split: vptr.split)

lemma suspended_resched:
  assumes "resched s s'"
  shows "suspended (task s' p) = suspended (task s p)"
proof -
  have "OSTCBPrioTbl s' = OSTCBPrioTbl s" using reschedD(5) [OF assms] by (rule ids_PrioTbl)
  moreover have "suspended (OSTCBTbl s' t) = suspended (OSTCBTbl s t)" for t
    unfolding suspended_def tcbs_fields [OF reschedD(4) [OF assms], of t] ..
  ultimately show ?thesis by (simp add: task_def split: vptr.split)
qed

text \<open>The running task starts to wait and gives up the processor.\<close>

definition blocked :: "nat \<Rightarrow> 32 word \<Rightarrow> kst \<Rightarrow> kst \<Rightarrow> bool" where
  "blocked e timeout s s' \<longleftrightarrow> objs s' = objs s \<and> ids s' = ids s
     \<and> rdy s' = rdy s - {unat (OSPrioCur s)}
     \<and> waiters s' = (waiters s)(e := insert (unat (OSPrioCur s)) (waiters s e))
     \<and> unat (OSPrioCur s') = Min (rdy s')
     \<and> OSTCBStatPend (OSTCBTbl s' (cur_ix s)) = OS_STAT_PEND_OK \<and> OSTCBDly (OSTCBTbl s' (cur_ix s)) = timeout
     \<and> OSTCBEventPtr (OSTCBTbl s' (cur_ix s)) = EVp e"

lemma wait_and_sched:
  assumes inv: "sinv s" and idle: "OSPrioCur s \<noteq> OS_TASK_IDLE_PRIO"
    and e: "e < OS_MAX_EVENTS" and not: "\<not> avail s e" "ev_type s e \<noteq> OS_EVENT_TYPE_UNUSED"
    and free: "OSIntNesting s = 0" "OSLockNesting s = 0"
  shows "ok (do { s1 \<leftarrow> event_wait (EVp e) msk timeout s; OS_Sched s1 })
    (\<lambda>s'. sinv s' \<and> ctl s' = ctl s \<and> settled s' \<and> blocked e timeout s s')"
proof (rule ok_bindI [OF event_wait_ok [OF inv sinv_cur(1) [OF inv] idle e not]], elim conjE)
  fix s1
  assume 1: "sinv s1" "frames s s1" "cur s1 = cur s" "rdy s1 = rdy s - {unat (OSPrioCur s)}"
    "waiters s1 = (waiters s)(e := insert (unat (OSPrioCur s)) (waiters s e))"
    "OSTCBTbl s1 = (OSTCBTbl s)(cur_ix s := (OSTCBTbl s (cur_ix s))\<lparr>OSTCBStat := OSTCBStat (OSTCBTbl s (cur_ix s)) OR msk,
       OSTCBStatPend := OS_STAT_PEND_OK, OSTCBDly := timeout, OSTCBEventPtr := EVp e\<rparr>)"
  have nest: "OSIntNesting s1 = 0" "OSLockNesting s1 = 0"
    using 1(2) free by (simp_all add: frames_def ctl_def)
  show "ok (OS_Sched s1) (\<lambda>s'. sinv s' \<and> ctl s' = ctl s \<and> settled s' \<and> blocked e timeout s s')"
  proof (rule ok_mono [OF OS_Sched_sinv [OF 1(1)]], elim conjE)
    fix s'
    assume 2: "sinv s'" "resched s1 s'" "settled s'" "ctl s' = ctl s1"
      "OSIntNesting s1 = 0 \<and> OSLockNesting s1 = 0 \<longrightarrow> unat (OSPrioCur s') = Min (rdy s1)"
    note f = tcbs_fields [OF reschedD(4) [OF 2(2)], of "cur_ix s"]
    show "sinv s' \<and> ctl s' = ctl s \<and> settled s' \<and> blocked e timeout s s'"
      using 1 2 nest reschedD [OF 2(2)] by (simp add: f frames_def blocked_def)
  qed
qed

lemma event_post_opt_ok:
  fixes opt :: "8 word"
  assumes inv: "sinv s" and e: "e < OS_MAX_EVENTS" and some: "waiters s e \<noteq> {}"
  defines "W \<equiv> (if opt AND OS_POST_OPT_BROADCAST \<noteq> 0 then waiters s e else {Min (waiters s e)})"
  shows "ok (event_post_opt (EVp e) m msk opt s) (\<lambda>s'. sinv s' \<and> ctl s' = ctl s
    \<and> (opt AND OS_POST_OPT_NO_SCHED = 0 \<longrightarrow> settled s')
    \<and> (\<exists>s1. all_readied e W m msk OS_STAT_PEND_OK s s1 \<and> resched s1 s')
    \<and> (opt AND OS_POST_OPT_NO_SCHED \<noteq> 0 \<longrightarrow> cur s' = cur s))"
proof -
  let ?m = "if opt AND OS_POST_OPT_BROADCAST \<noteq> 0
    then OS_EventTaskRdy_all (EVp e) m msk OS_STAT_PEND_OK 0 s
    else OS_EventTaskRdy (EVp e) m msk OS_STAT_PEND_OK s"
  have m: "ok ?m (\<lambda>(n, s1). all_readied e W m msk OS_STAT_PEND_OK s s1)"
    using OS_EventTaskRdy_all_ok [OF sinvD(2) [OF inv] e, of m msk OS_STAT_PEND_OK 0]
      OS_EventTaskRdy_readied [OF sinvD(2) [OF inv] e some, of m msk OS_STAT_PEND_OK]
    by (auto simp: W_def elim!: ok_mono intro: readied_all_readied)
  show ?thesis
    unfolding event_post_opt_def
  proof (rule ok_bindI2 [OF m])
    fix n s1
    assume a: "all_readied e W m msk OS_STAT_PEND_OK s s1"
    show "ok (if opt AND OS_POST_OPT_NO_SCHED = 0 then OS_Sched s1 else Some s1) (\<lambda>s'. sinv s'
      \<and> ctl s' = ctl s \<and> (opt AND OS_POST_OPT_NO_SCHED = 0 \<longrightarrow> settled s')
      \<and> (\<exists>s1. all_readied e W m msk OS_STAT_PEND_OK s s1 \<and> resched s1 s')
      \<and> (opt AND OS_POST_OPT_NO_SCHED \<noteq> 0 \<longrightarrow> cur s' = cur s))"
    proof (cases "opt AND OS_POST_OPT_NO_SCHED = 0")
      case True
      then show ?thesis using sched_after [OF inv a] a by (auto elim!: ok_mono)
    next
      case False
      have "\<exists>s2. all_readied e W m msk OS_STAT_PEND_OK s s2 \<and> resched s2 s1" using a by auto
      with False a sinv_all_readied [OF inv a] show ?thesis
        by (simp add: all_readied_def frames_def)
    qed
  qed
qed

lemma readied_waiters:
  assumes "readied e p m msk st s s1" "resched s1 s'"
  shows "waiters s' e = waiters s e - {p}" "ev_data s' = ev_data s"
    and "woken m msk st (task s p) (task s' p)"
    and "rdy s' = (if suspended (task s' p) then rdy s else insert p (rdy s))"
  using assms reschedD [OF assms(2)] woken_resched [OF assms(2)] suspended_resched [OF assms(2)]
  by (simp_all add: readied_def frames_def objs_def)

lemma all_readied_sched:
  assumes "all_readied e W m msk st s s1" "resched s1 s'"
  shows "waiters s' e = waiters s e - W" "ev_data s' = ev_data s"
    and "\<forall>p\<in>W. woken m msk st (task s p) (task s' p)"
    and "rdy s' = rdy s \<union> {p \<in> W. \<not> suspended (task s' p)}"
  using assms reschedD [OF assms(2)] woken_resched [OF assms(2)] suspended_resched [OF assms(2)]
  by (simp_all add: all_readied_def frames_def objs_def)

text \<open>A post that wakes someone more urgent than the caller runs it at once.\<close>

lemma woken_runs:
  assumes "sinv s" "settled s" "kept s s'" "OSIntNesting s = 0" "OSLockNesting s = 0"
    and "rdy s' = insert p (rdy s)" "p < unat (OSPrioCur s)" "woken m msk st c (task s' p)"
  shows "unat (OSPrioCur s') = p" "OSTCBStatPend (OSTCBTbl s' (cur_ix s')) = st"
    and "OSTCBMsg (OSTCBTbl s' (cur_ix s')) = m"
proof -
  have "rdy s \<noteq> {}" using sinvD(2) [OF assms(1)] by (auto simp: kinv0_def)
  moreover have "p < Min (rdy s)" using assms(2,4,5,7) by (simp add: settled_def)
  ultimately have "Min (rdy s') = p" using assms(6) by (simp add: Min_insert_below)
  then show cur: "unat (OSPrioCur s') = p"
    using assms(2-5) by (simp add: settled_def ctl_def)
  have "task s' p = OSTCBTbl s' (cur_ix s')" using sinv_cur(4) [of s'] assms(3) cur by simp
  then show "OSTCBStatPend (OSTCBTbl s' (cur_ix s')) = st" "OSTCBMsg (OSTCBTbl s' (cur_ix s')) = m"
    using assms(8) by (simp_all add: woken_def)
qed

section \<open>The delete calls\<close>

text \<open>
  What a kind of event has to provide for its delete call: a function \<open>fr\<close> that gives back the
  control blocks of an event that nobody waits for.
\<close>

definition freed :: "nat \<Rightarrow> kst \<Rightarrow> kst \<Rightarrow> bool" where
  "freed e s s' \<longleftrightarrow> sinv s' \<and> ids s' = ids s \<and> ctl s' = ctl s \<and> cur s' = cur s \<and> rdy s' = rdy s
     \<and> waiters s' = waiters s \<and> OSTCBTbl s' = OSTCBTbl s \<and> OSEventFreeList s' = EVp e
     \<and> ev_type s' e = OS_EVENT_TYPE_UNUSED"

locale deletable =
  fixes k :: event_type and fr :: "vptr \<Rightarrow> kst \<Rightarrow> kst option"
  assumes free: "sinv s \<Longrightarrow> e < OS_MAX_EVENTS \<Longrightarrow> ev_type s e = k \<Longrightarrow> waiters s e = {}
    \<Longrightarrow> ok (fr (EVp e) s) (freed e s)"
begin

lemma del_always_ok:
  assumes inv: "sinv s" and e: "e < OS_MAX_EVENTS" and k: "ev_type s e = k"
    and tw: "tw \<longleftrightarrow> waiters s e \<noteq> {}"
  shows "ok (do { (_, s1) \<leftarrow> OS_EventTaskRdy_all (EVp e) NULL msk OS_STAT_PEND_ABORT 0 s;
                  s2 \<leftarrow> fr (EVp e) s1;
                  if tw then OS_Sched s2 else Some s2 }) (deleted e msk s)"
proof (rule ok_bindI2 [OF OS_EventTaskRdy_all_ok [OF sinvD(2) [OF inv] e]], elim conjE)
  fix n s1
  assume a: "all_readied e (waiters s e) NULL msk OS_STAT_PEND_ABORT s s1" and none: "waiters s1 e = {}"
  have fr: "frames s s1" using a by (simp add: all_readied_def)
  have "ev_type s1 e = ev_type s e"
    using fr by (intro ev_data_fields(1)) (simp add: frames_def objs_def)
  with k have kind: "ev_type s1 e = k" by simp
  have inv1: "sinv s1" by (rule sinv_all_readied [OF inv a])
  show "ok (do { s2 \<leftarrow> fr (EVp e) s1; if tw then OS_Sched s2 else Some s2 }) (deleted e msk s)"
  proof (rule ok_bindI [OF free [OF inv1 e kind none]])
    fix s2
    assume 2: "freed e s1 s2"
    have t2: "task s2 = task s1" by (rule task_cong) (use 2 in \<open>simp_all add: freed_def\<close>)
    have d2: "deleted e msk s s2 \<or> tw"
      using 2 a t2 none fr tw settled_cong [of s2 s]
      by (auto simp: deleted_def freed_def all_readied_def frames_def)
    show "ok (if tw then OS_Sched s2 else Some s2) (deleted e msk s)"
    proof (cases tw)
      case True
      have "ok (OS_Sched s2) (deleted e msk s)"
      proof (rule ok_mono [OF OS_Sched_sinv], use 2 in \<open>simp add: freed_def\<close>, elim conjE)
        fix s'
        assume 3: "sinv s'" "resched s2 s'" "settled s'" "ctl s' = ctl s2"
        have "ev_type s' e = ev_type s2 e" "OSEventFreeList s' = OSEventFreeList s2"
          using reschedD(6) [OF 3(2)] ev_data_fields(1) [of s' e s2] by (simp_all add: objs_def)
        then show "deleted e msk s s'"
          using 2 3 a t2 none fr reschedD(2,3) [OF 3(2)] suspended_resched [OF 3(2)]
            woken_resched [OF 3(2)]
          by (simp add: deleted_def freed_def all_readied_def frames_def)
      qed
      with True show ?thesis by simp
    qed (use d2 in simp)
  qed
qed

lemma free_unwaited_ok:
  assumes "sinv s" "e < OS_MAX_EVENTS" "ev_type s e = k" "waiters s e = {}"
  shows "ok (fr (EVp e) s) (deleted e msk s)"
  by (rule ok_mono [OF free [OF assms]])
    (use assms(4) in \<open>auto simp: deleted_def freed_def settled_iff\<close>)

text \<open>The body of the delete calls from the interrupt check on.\<close>

lemma del_body_ok:
  assumes inv: "sinv s" and e: "e < OS_MAX_EVENTS"
    and k: "ev_type s e = k"
    and run: "run = (if OSIntNesting s > 0 then Some ((EVp e, OS_ERR_DEL_ISR), s)
      else do {
        let tasks_waiting = (OSEventGrp (OSEventTbl_ecb s e) \<noteq> 0);
        if opt = OS_DEL_NO_PEND then
          if \<not> tasks_waiting then do {
            s \<leftarrow> fr (EVp e) s;
            Some ((NULL, OS_ERR_NONE), s)
          } else Some ((EVp e, OS_ERR_TASK_WAITING), s)
        else if opt = OS_DEL_ALWAYS then do {
          (_, s) \<leftarrow> OS_EventTaskRdy_all (EVp e) NULL msk OS_STAT_PEND_ABORT 0 s;
          s \<leftarrow> fr (EVp e) s;
          s \<leftarrow> (if tasks_waiting then OS_Sched s else Some s);
          Some ((NULL, OS_ERR_NONE), s)
        } else Some ((EVp e, OS_ERR_INVALID_OPT), s)
      })"
  shows "ok run (\<lambda>(r, s'). kept s s'
    \<and> (if OSIntNesting s > 0 then r = (EVp e, OS_ERR_DEL_ISR) \<and> s' = s
       else if opt = OS_DEL_NO_PEND \<and> waiters s e \<noteq> {} then r = (EVp e, OS_ERR_TASK_WAITING) \<and> s' = s
       else if opt = OS_DEL_NO_PEND \<or> opt = OS_DEL_ALWAYS then
         r = (NULL, OS_ERR_NONE) \<and> deleted e msk s s'
       else r = (EVp e, OS_ERR_INVALID_OPT) \<and> s' = s))"
proof -
  note grp = ev_grp_waiters [OF sinvD(2) [OF inv] e]
  consider (isr) "OSIntNesting s > 0" | (always) "OSIntNesting s = 0" "opt = OS_DEL_ALWAYS"
    | (none) "OSIntNesting s = 0" "opt = OS_DEL_NO_PEND" "waiters s e = {}"
    | (other) "OSIntNesting s = 0" "opt \<noteq> OS_DEL_ALWAYS" "opt = OS_DEL_NO_PEND \<longrightarrow> waiters s e \<noteq> {}"
    by (cases "OSIntNesting s = 0"; cases "opt = OS_DEL_ALWAYS"; cases "opt = OS_DEL_NO_PEND";
        cases "waiters s e = {}") (simp_all add: word_gt_0)
  then show ?thesis
  proof cases
    case always
    then have "run = do {
        s' \<leftarrow> do { (_, s1) \<leftarrow> OS_EventTaskRdy_all (EVp e) NULL msk OS_STAT_PEND_ABORT 0 s;
                  s2 \<leftarrow> fr (EVp e) s1;
                  if waiters s e \<noteq> {} then OS_Sched s2 else Some s2 };
        Some ((NULL, OS_ERR_NONE), s') }"
      using run grp by (simp add: Let_def split_beta')
    then show ?thesis
      using del_always_ok [OF inv e k refl, of msk] always
      by (auto simp: ok_bind deleted_def simp del: bind_assoc elim!: ok_mono)
  next
    case none
    then have "run = do { s' \<leftarrow> fr (EVp e) s; Some ((NULL, OS_ERR_NONE), s') }"
      using run grp by (simp add: Let_def)
    then show ?thesis
      using free_unwaited_ok [OF inv e k none(3), of msk] none
      by (auto simp: ok_bind deleted_def elim!: ok_mono)
  qed (use run inv grp in \<open>auto simp: Let_def\<close>)
qed

end

lemma free_event_freed:
  assumes "sinv s" "e < OS_MAX_EVENTS" "waiters s e = {}"
    and "ev_type s e \<noteq> OS_EVENT_TYPE_UNUSED" "ev_type s e \<noteq> OS_EVENT_TYPE_Q"
  shows "ok (free_event (EVp e) s) (freed e s)"
  by (rule ok_mono [OF ok_conj [OF free_event_sinv [OF assms] free_event_ok [OF assms(2)]]])
    (auto simp: freed_def ev_data_at(1))

end
