(* ===== verification/Os_Demo.thy ===== *)
theory Os_Demo
  imports Os_Calls
begin

text \<open>
  A concrete state of the kernel, on which the theorems of the development are tried out.  Four
  tasks: the idle task (63) and tasks of priority 10, 20 and 30.  Task 30 runs and owns mutex 5;
  task 10 waits for semaphore 0 and task 20 for mailbox 3; semaphore 1 counts 3, mailbox 2 is full,
  queue 4 holds two messages in a buffer of three, mutex 6 is free.
\<close>

definition demo_tcb :: "8 word \<Rightarrow> 8 word \<Rightarrow> vptr \<Rightarrow> vptr \<Rightarrow> vptr \<Rightarrow> 32 word \<Rightarrow> os_tcb" where
  "demo_tcb prio stat ev nxt prv dly =
     \<lparr>OSTCBStkPtr = NULL, OSTCBExtPtr = NULL, OSTCBStkBottom = NULL, OSTCBStkSize = 0,
      OSTCBOpt = 0, OSTCBId = 0, OSTCBNext = nxt, OSTCBPrev = prv,
      OSTCBEventPtr = ev, OSTCBEventMultiPtr = None, OSTCBEventMultiRdy = NULL,
      OSTCBMsg = NULL, OSTCBFlagNode = NULL, OSTCBFlagsRdy = 0, OSTCBDly = dly, OSTCBStat = stat, OSTCBStatPend = OS_STAT_PEND_OK,
      OSTCBPrio = prio, OSTCBX = prio_x prio, OSTCBY = prio_y prio,
      OSTCBBitX = bit_mask (prio_x prio), OSTCBBitY = bit_mask (prio_y prio),
      OSTCBDelReq = OS_ERR_NONE, OSTCBCtxSwCtr = 0, OSTCBCyclesTot = 0, OSTCBCyclesStart = 0,
      OSTCBStkBase = NULL, OSTCBStkUsed = 0, OSTCBTaskName = unnamed, OSTCBRegTbl = (\<lambda>_. 0)\<rparr>"

definition demo_ev :: "event_type \<Rightarrow> vptr \<Rightarrow> 16 word \<Rightarrow> bitmap \<Rightarrow> os_event" where
  "demo_ev k ptr cnt b = \<lparr>OSEventType = k, OSEventPtr = ptr, OSEventCnt = cnt,
     OSEventGrp = fst b, OSEventTbl = snd b, OSEventName = unnamed\<rparr>"

definition demo_q :: "64 word \<Rightarrow> os_q" where
  "demo_q start = \<lparr>OSQPtr = NULL, OSQStart = start, OSQEnd = start + 24, OSQIn = start + 8,
     OSQOut = start + 16, OSQSize = 3, OSQEntries = 2\<rparr>"

text \<open>The bitmap of the priorities in a list.\<close>

definition demo_bm :: "8 word list \<Rightarrow> bitmap" where
  "demo_bm ps = foldr bm_add ps (0, \<lambda>_. 0)"

lemma demo_bm:
  assumes "list_all (\<lambda>p. unat p < 64) ps"
  shows "bm_ok (demo_bm ps) \<and> bm_members (demo_bm ps) = unat ` set ps"
  using assms
proof (induction ps)
  case Nil
  then show ?case by (simp add: demo_bm_def bm_ok_def bm_members_def)
next
  case (Cons p ps)
  then show ?case by (simp add: demo_bm_def bm.members_add bm.inv_add)
qed

definition demo :: kst where
  "demo = \<lparr>OSCtxSwCtr = 0, OSEventFreeList = EVp 7,
     OSEventTbl_ecb = (\<lambda>e. if e < 9 then demo_ev OS_EVENT_TYPE_UNUSED (EVp (e + 1)) 0 (demo_bm [])
                         else demo_ev OS_EVENT_TYPE_UNUSED NULL 0 (demo_bm []))
       (0 := demo_ev OS_EVENT_TYPE_SEM NULL 0 (demo_bm [10]),
        1 := demo_ev OS_EVENT_TYPE_SEM NULL 3 (demo_bm []),
        2 := demo_ev OS_EVENT_TYPE_MBOX (Addr 0x1000) 0 (demo_bm []),
        3 := demo_ev OS_EVENT_TYPE_MBOX NULL 0 (demo_bm [20]),
        4 := demo_ev OS_EVENT_TYPE_Q (Qp 0) 0 (demo_bm []),
        5 := demo_ev OS_EVENT_TYPE_MUTEX (TCBp 3) 0x051E (demo_bm []),
        6 := demo_ev OS_EVENT_TYPE_MUTEX NULL 0x06FF (demo_bm [])),
     OSCPUUsage = 0, OSIdleCtrMax = 0, OSIdleCtrRun = 0, OSStatRdy = True,
     OSIntNesting = 0, OSLockNesting = 0, OSPrioCur = 30, OSPrioHighRdy = 30,
     OSRdyGrp = fst (demo_bm [30, 63]), OSRdyTbl = snd (demo_bm [30, 63]),
     OSRunning = True, OSTaskCtr = 4, OSIdleCtr = 0,
     OSTCBCur = TCBp 3, OSTCBFreeList = TCBp 4, OSTCBHighRdy = TCBp 3, OSTCBList = TCBp 3,
     OSTCBPrioTbl = (\<lambda>_. NULL)(63 := TCBp 0, 10 := TCBp 1, 20 := TCBp 2, 30 := TCBp 3,
       5 := OS_TCB_RESERVED, 6 := OS_TCB_RESERVED),
     OSTCBTbl = (\<lambda>t. demo_tcb 0 0 NULL (if t < 21 then TCBp (t + 1) else NULL) NULL 0)
       (0 := demo_tcb 63 0 NULL NULL (TCBp 1) 0,
        1 := demo_tcb 10 1 (EVp 0) (TCBp 0) (TCBp 2) 5,
        2 := demo_tcb 20 2 (EVp 3) (TCBp 1) (TCBp 3) 0,
        3 := demo_tcb 30 0 NULL (TCBp 2) NULL 0),
     OSTickStepState = 0, OSMemFreeList = MEMp 0,
     OSMemTbl = (\<lambda>i. \<lparr>OSMemAddr = NULL, OSMemFreeList_f = (if i < 4 then MEMp (i + 1) else NULL),
       OSMemBlkSize = 0, OSMemNBlks = 0, OSMemNFree = 0, OSMemName = unnamed\<rparr>),
     OSQFreeList = Qp 1,
     OSQTbl = (\<lambda>i. (demo_q 0)\<lparr>OSQPtr := (if i < 3 then Qp (i + 1) else NULL)\<rparr>)(0 := demo_q 0x2000),
     OSTaskRegNextAvailID = 0, OSTime = 100, OSTmrSemSignal = EVp 1, OSTmrCtr = 0,
     ptr_mem = (\<lambda>_. NULL)(0x2000 := Addr 0x44, 0x2010 := Addr 0x33),
     OSFlagTbl = (\<lambda>i. \<lparr>OSFlagType = OS_EVENT_TYPE_UNUSED,
       OSFlagWaitList = (if i < 4 then FGp (i + 1) else NULL), OSFlagFlags = 0, OSFlagName = unnamed\<rparr>),
     OSFlagFreeList = FGp 0,
     OSFlagNodes = (\<lambda>_. \<lparr>OSFlagNodeNext = NULL, OSFlagNodePrev = NULL, OSFlagNodeTCB = NULL,
       OSFlagNodeFlagGrp = NULL, OSFlagNodeFlags = 0, OSFlagNodeWaitType = 0\<rparr>),
     OSTmrFree = 16, OSTmrUsed = 0, OSTmrTime = 0, OSTmrSem = EVp 1,
     OSTmrTbl = (\<lambda>i. \<lparr>OSTmrType = 100, OSTmrCallback = NULL, OSTmrCallbackArg = NULL,
       OSTmrNext = (if i < 15 then TMRp (i + 1) else NULL), OSTmrPrev = NULL, OSTmrMatch = 0, OSTmrDly = 0,
       OSTmrPeriod = 0, OSTmrName = unnamed, OSTmrOpt = 0, OSTmrState = 0\<rparr>),
     OSTmrFreeList = TMRp 0, OSTmrWheelTbl = (\<lambda>_. \<lparr>OSTmrFirst = NULL, OSTmrEntries = 0\<rparr>)\<rparr>"

section \<open>The invariant holds\<close>

lemma demo_ready: "rdy_bm demo = demo_bm [30, 63]" "rdy demo = {30, 63}"
proof -
  show b: "rdy_bm demo = demo_bm [30, 63]" by (simp add: demo_def rdy_bm_def)
  show "rdy demo = {30, 63}" using demo_bm [of "[30, 63]"] by (simp add: rdy_def b)
qed

lemma demo_waiting:
  "ev_bm demo e = demo_bm (if e = 0 then [10] else if e = 3 then [20] else [])"
  "waiters demo e = (if e = 0 then {10} else if e = 3 then {20} else {})"
proof -
  show b: "ev_bm demo e = demo_bm (if e = 0 then [10] else if e = 3 then [20] else [])"
    by (simp add: demo_def ev_bm_def demo_ev_def)
  show "waiters demo e = (if e = 0 then {10} else if e = 3 then {20} else {})"
    using demo_bm [of "[10]"] demo_bm [of "[20]"] demo_bm [of "[]"] by (simp add: waiters_def b)
qed

lemma demo_owns: "owns demo 0 63" "owns demo 1 10" "owns demo 2 20" "owns demo 3 30"
  by (simp_all add: owns_def tcb_bits_ok_def demo_def demo_tcb_def)

lemma demo_PrioTbl: "OSTCBPrioTbl demo p = (if p = 63 then TCBp 0 else if p = 10 then TCBp 1
    else if p = 20 then TCBp 2 else if p = 30 then TCBp 3
    else if p = 5 \<or> p = 6 then OS_TCB_RESERVED else NULL)"
  by (simp add: demo_def)

lemma demo_kinv: "kinv demo"
proof -
  have own: "owned demo 63" "owned demo 10" "owned demo 20" "owned demo 30"
    using demo_owns owns_owned by blast+
  have entry: "entry_ok demo (TCBp 0)" "entry_ok demo (TCBp 1)" "entry_ok demo (TCBp 2)"
    "entry_ok demo (TCBp 3)"
    using demo_owns owns_prio [OF demo_owns(1)] owns_prio [OF demo_owns(2)]
      owns_prio [OF demo_owns(3)] owns_prio [OF demo_owns(4)]
    by (simp_all add: entry_ok_def)
  have "\<forall>t<OS_N_TCBS. multi_ok (OSTCBEventMultiPtr (OSTCBTbl demo t))"
    by (simp add: demo_def demo_tcb_def multi_ok_def)
  moreover have "tasks_ok demo"
  proof -
    have "{t. \<exists>p. owns demo t p} = {0, 1, 2, 3}"
      using demo_owns by (auto simp: owns_def demo_PrioTbl split: if_splits)
    moreover have "OSTCBNext (OSTCBTbl demo 3) = TCBp 2" "OSTCBNext (OSTCBTbl demo 2) = TCBp 1"
      "OSTCBNext (OSTCBTbl demo 1) = TCBp 0" "OSTCBNext (OSTCBTbl demo 0) = NULL"
      "OSTCBList demo = TCBp 3" "OSTCBPrio (OSTCBTbl demo 0) = 63"
      by (simp_all add: demo_def demo_tcb_def)
    ultimately show ?thesis
      unfolding tasks_ok_def by (intro exI [of _ "[3, 2, 1, 0]"]) auto
  qed
  ultimately have "kinv0 demo"
    using demo_bm [of "[30, 63]"] demo_bm [of "[10]"] demo_bm [of "[20]"] demo_bm [of "[]"] own entry
    by (simp add: kinv0_def demo_ready demo_waiting demo_PrioTbl) (simp add: entry_ok_def)
  moreover have "OSTCBCur demo = TCBp 3" "OSPrioCur demo = 30" by (simp_all add: demo_def)
  ultimately show ?thesis using demo_owns(4) by (simp add: kinv_def cur_ok_def)
qed

lemma demo_events:
  "ev_type demo e = (if e = 0 \<or> e = 1 then OS_EVENT_TYPE_SEM else if e = 2 \<or> e = 3 then OS_EVENT_TYPE_MBOX
     else if e = 4 then OS_EVENT_TYPE_Q else if e = 5 \<or> e = 6 then OS_EVENT_TYPE_MUTEX
     else OS_EVENT_TYPE_UNUSED)"
  "ev_ptr demo e = (if e = 2 then Addr 0x1000 else if e = 4 then Qp 0 else if e = 5 then TCBp 3
     else if 7 \<le> e \<and> e < 9 then EVp (e + 1) else NULL)"
  "ev_cnt demo e = (if e = 1 then 3 else if e = 5 then 0x051E else if e = 6 then 0x06FF else 0)"
  by (auto simp: demo_def demo_ev_def)

lemma less_10_cases: "e < (10 :: nat) \<longleftrightarrow> e \<in> {0, 1, 2, 3, 4, 5, 6, 7, 8, 9}"
  by auto

lemma demo_pools: "ev_pool_ok demo" "q_pool_ok demo" "pcps_differ demo"
proof -
  have "unused_events demo = {7, 8, 9}"
    by (auto simp: unused_events_def demo_events less_10_cases)
  moreover have "OSEventFreeList demo = EVp 7" by (simp add: demo_def)
  ultimately show "ev_pool_ok demo"
    unfolding ev_pool_ok_def by (intro exI [of _ "[7, 8, 9]"]) (auto simp: demo_events)
  have used: "used_qs demo = {0}"
    by (auto simp: used_qs_def demo_events intro!: exI [of _ 4])
  have "OSQFreeList demo = Qp 1"
    "OSQPtr (OSQTbl demo i) = (if i = 0 then NULL else if i < 3 then Qp (i + 1) else NULL)" for i
    by (simp_all add: demo_def demo_q_def)
  then show "q_pool_ok demo"
    unfolding q_pool_ok_def used by (auto simp: demo_events intro!: exI [of _ "[1, 2, 3]"])
  show "pcps_differ demo"
    by (auto simp: pcps_differ_def demo_events mutex_pcp_def split: if_splits)
qed

lemma demo_q0: "OSQTbl demo 0 = demo_q 0x2000"
  by (simp add: demo_def)

lemma demo_oinv: "oinv demo"
proof -
  have ring: "q_ring_at (demo_q 0x2000) 2"
    by (simp add: q_ring_at_def demo_q_def q_slot_def)
  have "q_ring_ok (demo_q 0x2000)"
    using ring unfolding q_ring_ok_def by (intro exI [of _ 2]) simp
  moreover have "mutex_ok demo 5" "mutex_ok demo 6"
    by (simp_all add: mutex_ok_def demo_events demo_PrioTbl mutex_pcp_def mutex_low_def Let_def)
  ultimately have "obj_ok demo e" if "e < OS_MAX_EVENTS" for e
    using that by (auto simp: less_10_cases obj_ok_def avail_def demo_events demo_waiting demo_q0
        mutex_low_def demo_q_def)
  moreover have "valid_ev (OSTmrSemSignal demo)" by (simp add: demo_def valid_ev_def)
  ultimately show ?thesis using demo_pools by (simp add: oinv_def)
qed

lemma demo_sinv: "sinv demo"
  by (simp add: sinv_def demo_kinv demo_oinv)

lemma demo_ctl: "OSIntNesting demo = 0" "OSLockNesting demo = 0" "OSPrioCur demo = 30"
  "OSTCBCur demo = TCBp 3" "OSRunning demo" "cur_ix demo = 3"
  by (simp_all add: demo_def cur_ix_def)

lemma demo_settled: "settled demo"
  by (simp add: settled_def demo_ctl demo_ready)

end
