(* ===== verification/Os_Sched.thy ===== *)
theory Os_Sched
  imports Os_Demo
begin

text \<open>
  What the scheduler does for the kernel as a whole: task switches, interrupt entry and exit, the
  scheduler lock and the start of multitasking (\<open>OS_Sched\<close>, \<open>OSIntEnter\<close>, \<open>OSIntExit\<close>, \<open>OSSchedLock\<close>,
  \<open>OSSchedUnlock\<close>, \<open>OSStart\<close> of \<open>os_core.c\<close>).
\<close>

section \<open>The bitmap\<close>

text \<open>
  C16 (bm_highest_is_least): the two look-ups in \<open>OSUnMapTbl\<close> find the most urgent priority of a
  consistent bitmap that is not empty: the least one.
\<close>

theorem bm_highest_is_least:
  assumes "bm_ok b" "bm_members b \<noteq> {}"
  shows "unat (bm_highest b) = Min (bm_members b)"
  by (rule bm.highest_Min [OF assms])

theorem bm_highest_is_least_witness:
  "unat (bm_highest (demo_bm [42, 17, 63])) = 17"
  using bm_highest_is_least [of "demo_bm [42, 17, 63]"] demo_bm [of "[42, 17, 63]"] by simp

section \<open>Changing the nesting counters\<close>

lemma views_nesting [simp]:
  "ids (s\<lparr>OSIntNesting := n\<rparr>) = ids s" "objs (s\<lparr>OSIntNesting := n\<rparr>) = objs s"
  "cur (s\<lparr>OSIntNesting := n\<rparr>) = cur s" "rdy_bm (s\<lparr>OSIntNesting := n\<rparr>) = rdy_bm s"
  "ev_bm (s\<lparr>OSIntNesting := n\<rparr>) = ev_bm s" "rdy (s\<lparr>OSIntNesting := n\<rparr>) = rdy s"
  "ids (s\<lparr>OSLockNesting := n\<rparr>) = ids s" "objs (s\<lparr>OSLockNesting := n\<rparr>) = objs s"
  "cur (s\<lparr>OSLockNesting := n\<rparr>) = cur s" "rdy_bm (s\<lparr>OSLockNesting := n\<rparr>) = rdy_bm s"
  "ev_bm (s\<lparr>OSLockNesting := n\<rparr>) = ev_bm s" "rdy (s\<lparr>OSLockNesting := n\<rparr>) = rdy s"
  by (auto simp: ids_def objs_def ev_data_def stores_def clock_def cur_def rdy_bm_def rdy_def ev_bm_def fun_eq_iff)

lemma sinv_int_nesting: "sinv s \<Longrightarrow> sinv (s\<lparr>OSIntNesting := n\<rparr>)"
  by (erule sinv_same) simp_all

lemma sinv_lock_nesting: "sinv s \<Longrightarrow> sinv (s\<lparr>OSLockNesting := n\<rparr>)"
  by (erule sinv_same) simp_all

lemmas sinv_nesting = sinv_int_nesting sinv_lock_nesting

section \<open>Interrupts and the lock\<close>

lemma OSIntEnter_sinv:
  assumes "sinv s"
  shows "sinv (OSIntEnter s) \<and> (settled s \<longrightarrow> settled (OSIntEnter s)) \<and> rdy (OSIntEnter s) = rdy s"
  using assms lock_inc by (auto simp: OSIntEnter_def settled_def sinv_nesting)

lemma switch_sinv:
  assumes "sinv s"
  shows "ok (switch s) (\<lambda>s'. sinv s' \<and> resched s s' \<and> unat (OSPrioCur s') = Min (rdy s') \<and> settled s'
    \<and> OSTCBCur s' = OSTCBPrioTbl s (Min (rdy s)))"
  by (rule ok_mono [OF switch_ok [OF sinvD(1) [OF assms]]])
    (auto intro: sinv_resched [OF assms] simp: reschedD settled_def)

lemma leave_isr_views [simp]:
  "ids (leave_isr s) = ids s" "objs (leave_isr s) = objs s" "cur (leave_isr s) = cur s"
  "rdy (leave_isr s) = rdy s" "waiters (leave_isr s) = waiters s" "tcbs (leave_isr s) = tcbs s"
  by (simp_all add: leave_isr_def waiters_def ev_bm_def tcbs_def fun_eq_iff)

lemma OSIntExit_sinv:
  assumes "sinv s"
  shows "ok (OSIntExit s) (\<lambda>s'. sinv s' \<and> (settled s \<or> OSRunning s \<longrightarrow> settled s') \<and> rdy s' = rdy s \<and> objs s' = objs s \<and> ids s' = ids s
    \<and> (OSRunning s \<and> OSIntNesting s \<le> 1 \<and> OSLockNesting s = 0 \<longrightarrow> OSIntNesting s' = 0
        \<and> unat (OSPrioCur s') = Min (rdy s'))
    \<and> (OSIntNesting s > 1 \<longrightarrow> cur s' = cur s)
    \<and> waiters s' = waiters s \<and> tcbs s' = tcbs s \<and> (OSRunning s \<longrightarrow> ctl s' = ctl (leave_isr s)))"
proof -
  have l: "sinv (leave_isr s)" "OSLockNesting (leave_isr s) = OSLockNesting s"
    using assms by (simp_all add: leave_isr_def sinv_nesting)
  have n: "OSIntNesting (leave_isr s) = 0 \<longleftrightarrow> OSIntNesting s \<le> 1"
    by (cases "OSIntNesting s = 0") (simp_all add: leave_isr_def word8_le_1 word_gt_0)
  note sw = switch_sinv [OF l(1)]
  show ?thesis
  proof (cases "OSRunning s \<and> OSIntNesting s \<le> 1 \<and> OSLockNesting s = 0")
    case True
    have run: "OSIntExit s = switch (leave_isr s)" using True n l by (simp add: OSIntExit_switch)
    show ?thesis
      unfolding run
    proof (rule ok_mono [OF sw], elim conjE)
      fix s'
      assume 1: "sinv s'" "resched (leave_isr s) s'" "unat (OSPrioCur s') = Min (rdy s')" "settled s'"
      note r = reschedD [OF 1(2)]
      have "OSIntNesting s' = OSIntNesting (leave_isr s)" using r(7) by (simp add: ctl_def)
      then show "sinv s' \<and> (settled s \<or> OSRunning s \<longrightarrow> settled s') \<and> rdy s' = rdy s \<and> objs s' = objs s \<and> ids s' = ids s
        \<and> (OSRunning s \<and> OSIntNesting s \<le> 1 \<and> OSLockNesting s = 0 \<longrightarrow> OSIntNesting s' = 0
            \<and> unat (OSPrioCur s') = Min (rdy s'))
        \<and> (OSIntNesting s > 1 \<longrightarrow> cur s' = cur s)
        \<and> waiters s' = waiters s \<and> tcbs s' = tcbs s \<and> (OSRunning s \<longrightarrow> ctl s' = ctl (leave_isr s))"
        using 1 r True n by auto
    qed
  next
    case False
    then have "\<not> OSRunning s \<and> OSIntExit s = Some s \<or> OSIntExit s = Some (leave_isr s)
        \<and> (OSIntNesting (leave_isr s) \<noteq> 0 \<or> OSLockNesting (leave_isr s) \<noteq> 0)"
      using n l by (auto simp: OSIntExit_switch)
    then show ?thesis using assms l False by (auto simp: settled_def)
  qed
qed

lemma OSSchedLock_sinv:
  assumes "sinv s"
  shows "sinv (OSSchedLock s) \<and> (settled s \<longrightarrow> settled (OSSchedLock s)) \<and> rdy (OSSchedLock s) = rdy s
    \<and> cur (OSSchedLock s) = cur s \<and> OSIntNesting (OSSchedLock s) = OSIntNesting s"
  using assms lock_inc by (auto simp: OSSchedLock_def settled_def sinv_nesting cur_def)

lemma OSSchedUnlock_sinv:
  assumes "sinv s"
  shows "ok (OSSchedUnlock s) (\<lambda>s'. sinv s' \<and> (settled s \<longrightarrow> settled s') \<and> rdy s' = rdy s \<and> objs s' = objs s
    \<and> ids s' = ids s \<and> OSIntNesting s' = OSIntNesting s
    \<and> (OSRunning s \<and> OSIntNesting s = 0 \<and> OSLockNesting s = 1 \<longrightarrow> OSLockNesting s' = 0
        \<and> unat (OSPrioCur s') = Min (rdy s'))
    \<and> (OSLockNesting s > 1 \<longrightarrow> cur s' = cur s))"
proof -
  define s1 where "s1 = s\<lparr>OSLockNesting := OSLockNesting s - 1\<rparr>"
  have s1: "sinv s1" "ids s1 = ids s" "objs s1 = objs s" "cur s1 = cur s" "rdy s1 = rdy s"
    "OSIntNesting s1 = OSIntNesting s" "OSLockNesting s1 = OSLockNesting s - 1"
    using assms by (simp_all add: s1_def sinv_nesting)
  consider (off) "\<not> OSRunning s \<or> OSIntNesting s \<noteq> 0 \<or> OSLockNesting s = 0"
    | (more) "OSRunning s" "OSIntNesting s = 0" "OSLockNesting s \<noteq> 0" "OSLockNesting s \<noteq> 1"
    | (last) "OSRunning s" "OSIntNesting s = 0" "OSLockNesting s = 1" by blast
  then show ?thesis
  proof cases
    case off
    then have "OSSchedUnlock s = Some s" by (auto simp: OSSchedUnlock_def word_gt_0)
    then show ?thesis using assms off by auto
  next
    case more
    then have "OSSchedUnlock s = Some s1" by (simp add: OSSchedUnlock_def word_gt_0 s1_def)
    then show ?thesis using assms s1 more by (simp add: settled_def)
  next
    case last
    then have run: "OSSchedUnlock s = OS_Sched s1" by (simp add: OSSchedUnlock_def word_gt_0 s1_def)
    show ?thesis
      unfolding run
    proof (rule ok_mono [OF OS_Sched_sinv [OF s1(1)]], elim conjE)
      fix s'
      assume 1: "sinv s'" "resched s1 s'" "settled s'" "ctl s' = ctl s1"
        "OSIntNesting s1 = 0 \<and> OSLockNesting s1 = 0 \<longrightarrow> unat (OSPrioCur s') = Min (rdy s1)"
      note r = reschedD [OF 1(2)]
      show "sinv s' \<and> (settled s \<longrightarrow> settled s') \<and> rdy s' = rdy s \<and> objs s' = objs s
        \<and> ids s' = ids s \<and> OSIntNesting s' = OSIntNesting s
        \<and> (OSRunning s \<and> OSIntNesting s = 0 \<and> OSLockNesting s = 1 \<longrightarrow> OSLockNesting s' = 0
            \<and> unat (OSPrioCur s') = Min (rdy s'))
        \<and> (OSLockNesting s > 1 \<longrightarrow> cur s' = cur s)"
        using 1 r s1 last by (simp add: ctl_def)
    qed
  qed
qed

text \<open>Starting: the kernel has its tasks but nothing runs yet.\<close>

lemma OSStart_sinv:
  assumes "kinv0 s" "oinv s" "\<not> OSRunning s"
  shows "ok (OSStart s) (\<lambda>s'. sinv s' \<and> OSRunning s' \<and> rdy s' = rdy s \<and> waiters s' = waiters s
    \<and> unat (OSPrioCur s') = Min (rdy s') \<and> settled s' \<and> OSTCBCur s' = OSTCBPrioTbl s (Min (rdy s)))"
proof -
  from highest_ready(2) [OF assms(1)] obtain t where t: "owns s t (Min (rdy s))" by blast
  have hi: "unat (bm_highest (rdy_bm s)) = Min (rdy s)" by (rule highest_ready [OF assms(1)])
  define s' where "s' = s\<lparr>OSPrioHighRdy := bm_highest (rdy_bm s), OSPrioCur := bm_highest (rdy_bm s),
    OSTCBHighRdy := TCBp t, OSTCBCur := TCBp t, OSRunning := True\<rparr>"
  have run: "OSStart s = Some s'"
    using assms(3) hi owns_less_64 [OF t] owns_PrioTbl [OF t] owns_index [OF t]
    by (simp add: OSStart_def OS_SchedNew_def prio_tbl_def s'_def Let_def)
  have v: "ids s' = ids s" "objs s' = objs s" "rdy_bm s' = rdy_bm s" "ev_bm s' = ev_bm s"
    by (auto simp: s'_def ids_def objs_def ev_data_def stores_def clock_def rdy_bm_def ev_bm_def fun_eq_iff)
  have r: "rdy s' = rdy s" "waiters s' = waiters s" using v by (simp_all add: rdy_def waiters_def fun_eq_iff)
  have "kinv0 s'" by (rule kinv0_same [OF assms(1) v(1,3,4)]) (simp add: s'_def)
  moreover have "oinv s'" by (rule oinv_shrink [OF assms(2) v(1,2)]) (simp add: r)
  moreover have "owns s' t (Min (rdy s))" using t owns_cong [OF v(1)] by simp
  then have "cur_ok s'" using hi by (simp add: cur_ok_def s'_def)
  moreover have "OSPrioCur s' = bm_highest (rdy_bm s)" "OSTCBCur s' = TCBp t" "OSRunning s'"
    by (simp_all add: s'_def)
  ultimately show ?thesis
    using run r hi owns_PrioTbl [OF t] by (simp add: sinv_def kinv_def settled_def)
qed

section \<open>Properties\<close>

text \<open>
  C3 (OS_Sched_runs_highest): outside interrupts and with the scheduler unlocked, \<open>OS_Sched\<close> ends with the
  most urgent ready task running and counts the switch, in all and for that task, exactly when there is
  one.  No other variable of the kernel changes: the state is given in full.
\<close>

theorem OS_Sched_runs_highest:
  assumes "kinv s" "OSIntNesting s = 0" "OSLockNesting s = 0"
  shows "\<exists>t s'. OSTCBPrioTbl s (Min (rdy s)) = TCBp t \<and> OS_Sched s = Some s' \<and> kinv s' \<and> unat (OSPrioCur s') = Min (rdy s)
    \<and> OSTCBCur s' = TCBp t
    \<and> s' = (if unat (OSPrioCur s) = Min (rdy s) then s
            else s\<lparr>OSCtxSwCtr := OSCtxSwCtr s + 1,
                   OSTCBTbl := (OSTCBTbl s)(t := (OSTCBTbl s t)\<lparr>OSTCBCtxSwCtr := OSTCBCtxSwCtr (OSTCBTbl s t) + 1\<rparr>)\<rparr>)
         \<lparr>OSPrioHighRdy := of_nat (Min (rdy s)), OSTCBHighRdy := TCBp t,
          OSPrioCur := of_nat (Min (rdy s)), OSTCBCur := TCBp t\<rparr>"
proof -
  let ?hi = "bm_highest (rdy_bm s)"
  obtain s' where run: "OS_Sched s = Some s'" and k: "kinv s'"
    and c: "unat (OSPrioCur s') = Min (rdy s)" "OSTCBCur s' = OSTCBPrioTbl s (Min (rdy s))"
    using OS_Sched_ok [OF assms(1)] assms(2,3) by (auto simp: ok_iff)
  have k0: "kinv0 s" using assms(1) by (simp add: kinv_def)
  note hi = highest_ready [OF k0]
  obtain t where t: "owns s t (Min (rdy s))" using hi(2) by blast
  note tbl = owns_PrioTbl [OF t]
  have u: "unat ?hi = Min (rdy s)" by (rule hi(1))
  then have w: "?hi = of_nat (Min (rdy s))" by (simp flip: u)
  have at: "tcb_at (TCBp t) = Some t" using owns_index [OF t] by simp
  have cmp: "?hi \<noteq> OSPrioCur s \<longleftrightarrow> unat (OSPrioCur s) \<noteq> Min (rdy s)" using u by (auto simp: word_unat_eq_iff)
  have same: "OSTCBCur s = TCBp t" if "unat (OSPrioCur s) = Min (rdy s)"
    using run cmp that assms(2,3) c(2) tbl u
    by (auto simp: OS_Sched_def Let_def OS_SchedNew_def prio_tbl_def split: if_splits)
  have "s' = (if unat (OSPrioCur s) = Min (rdy s) then s
            else s\<lparr>OSCtxSwCtr := OSCtxSwCtr s + 1,
                   OSTCBTbl := (OSTCBTbl s)(t := (OSTCBTbl s t)\<lparr>OSTCBCtxSwCtr := OSTCBCtxSwCtr (OSTCBTbl s t) + 1\<rparr>)\<rparr>)
         \<lparr>OSPrioHighRdy := of_nat (Min (rdy s)), OSTCBHighRdy := TCBp t,
          OSPrioCur := of_nat (Min (rdy s)), OSTCBCur := TCBp t\<rparr>"
  proof (cases "unat (OSPrioCur s) = Min (rdy s)")
    case True
    have "OSPrioCur s = of_nat (Min (rdy s))" by (simp flip: True)
    then have "s' = s\<lparr>OSPrioHighRdy := ?hi, OSTCBHighRdy := TCBp t\<rparr>"
      using run True cmp assms(2,3) tbl u owns_less_64 [OF t] by (simp add: OS_Sched_def Let_def OS_SchedNew_def prio_tbl_def)
    then show ?thesis
      using True same \<open>OSPrioCur s = of_nat (Min (rdy s))\<close> w by (intro kst.equality) simp_all
  next
    case False
    then have "s' = s\<lparr>OSPrioHighRdy := ?hi, OSTCBHighRdy := TCBp t,
        OSTCBTbl := (OSTCBTbl s)(t := (OSTCBTbl s t)\<lparr>OSTCBCtxSwCtr := OSTCBCtxSwCtr (OSTCBTbl s t) + 1\<rparr>),
        OSCtxSwCtr := OSCtxSwCtr s + 1, OSPrioCur := ?hi, OSTCBCur := TCBp t\<rparr>"
      using run cmp assms(2,3) tbl u at owns_less_64 [OF t]
      by (simp add: OS_Sched_def Let_def OS_SchedNew_def prio_tbl_def xPortTaskSwitch_def upd_tcb_def)
    then show ?thesis using False w by (intro kst.equality) simp_all
  qed
  moreover have "OSTCBCur s' = TCBp t" using c(2) tbl by simp
  ultimately show ?thesis using run k c(1) tbl by blast
qed

theorem OS_Sched_runs_highest_witness:
  "\<exists>s'. OS_Sched demo = Some s' \<and> OSPrioCur s' = 30"
proof -
  have "\<exists>s'. OS_Sched demo = Some s' \<and> unat (OSPrioCur s') = 30"
    using OS_Sched_runs_highest [of demo] by (auto simp: demo_kinv demo_ctl demo_ready)
  then show ?thesis by (auto simp: word_unat_eq_iff)
qed

text \<open>
  C12 (OSIntExit_preempts): leaving the last interrupt with the scheduler unlocked runs the most urgent
  ready task, whatever the interrupt made ready; leaving a nested one does not switch.
\<close>

theorem OSIntExit_preempts:
  assumes "sinv s" "OSRunning s" "OSIntNesting s > 0"
  shows "\<exists>s'. OSIntExit s = Some s' \<and> sinv s' \<and> rdy s' = rdy s
    \<and> (OSIntNesting s = 1 \<and> OSLockNesting s = 0 \<longrightarrow> unat (OSPrioCur s') = Min (rdy s))
    \<and> (OSIntNesting s > 1 \<longrightarrow> cur s' = cur s)"
  using OSIntExit_sinv [OF assms(1)] assms(2) by (auto simp: ok_iff)

theorem OSIntExit_preempts_witness:
  "\<exists>s'. OSIntExit (demo\<lparr>OSIntNesting := 1\<rparr>) = Some s' \<and> unat (OSPrioCur s') = 30"
  using OSIntExit_preempts [of "demo\<lparr>OSIntNesting := 1\<rparr>"]
  by (auto simp: sinv_nesting demo_sinv demo_ctl demo_ready)

text \<open>
  The last unlock runs the most urgent task of those that became ready
  while the scheduler was locked; an inner unlock keeps the task.
\<close>

theorem OSSchedUnlock_catches_up:
  assumes "sinv s" "OSRunning s" "OSIntNesting s = 0" "OSLockNesting s > 0"
  shows "\<exists>s'. OSSchedUnlock s = Some s' \<and> sinv s' \<and> rdy s' = rdy s
    \<and> (OSLockNesting s = 1 \<longrightarrow> OSLockNesting s' = 0 \<and> unat (OSPrioCur s') = Min (rdy s))
    \<and> (OSLockNesting s > 1 \<longrightarrow> cur s' = cur s)"
  using OSSchedUnlock_sinv [OF assms(1)] assms(2,3) by (auto simp: ok_iff)

theorem OSSchedUnlock_catches_up_witness:
  "\<exists>s'. OSSchedUnlock (demo\<lparr>OSLockNesting := 1\<rparr>) = Some s' \<and> unat (OSPrioCur s') = 30"
  using OSSchedUnlock_catches_up [of "demo\<lparr>OSLockNesting := 1\<rparr>"]
  by (auto simp: sinv_nesting demo_sinv demo_ctl demo_ready)

text \<open>
  C4 (OS_EventTaskRdy_spec): readying a waiter picks the most urgent task on the event's wait list, takes
  it off that list and off every other list it waited on, stores the message and the status in its
  control block, makes it ready unless it is suspended, and touches no other task.
\<close>

theorem OS_EventTaskRdy_spec:
  assumes "kinv s" "e < OS_MAX_EVENTS" "waiters s e \<noteq> {}"
  shows "\<exists>prio s'. OS_EventTaskRdy (EVp e) pmsg msk st s = Some (prio, s')
    \<and> unat prio = Min (waiters s e) \<and> kinv s'
    \<and> waiters s' = leave (Min (waiters s e)) (insert e (multi_evs (task s (unat prio)))) (waiters s)
    \<and> rdy s' = (if suspended (task s' (unat prio)) then rdy s else insert (unat prio) (rdy s))
    \<and> woken pmsg msk st (task s (unat prio)) (task s' (unat prio))
    \<and> (\<forall>q. owned s q \<longrightarrow> q \<noteq> unat prio \<longrightarrow> task s' q = task s q)"
proof -
  have k0: "kinv0 s" and c: "cur_ok s" using assms(1) by (simp_all add: kinv_def)
  obtain prio s' where run: "OS_EventTaskRdy (EVp e) pmsg msk st s = Some (prio, s')"
    and p: "unat prio = Min (waiters s e)" and r: "readied e (Min (waiters s e)) pmsg msk st s s'"
    using OS_EventTaskRdy_readied [OF k0 assms(2,3), of pmsg msk st] by (auto simp: ok_iff)
  have "kinv s'" using r cur_ok_same [OF c, of s'] by (simp add: readied_def frames_def kinv_def)
  with run p r show ?thesis by (simp add: readied_def)
qed

theorem OS_EventTaskRdy_spec_witness:
  "\<exists>s'. OS_EventTaskRdy (EVp 3) (Addr 0x55) OS_STAT_MBOX OS_STAT_PEND_OK demo = Some (20, s')
    \<and> waiters s' 3 = {}"
proof -
  obtain prio s' where "OS_EventTaskRdy (EVp 3) (Addr 0x55) OS_STAT_MBOX OS_STAT_PEND_OK demo = Some (prio, s')"
    "unat prio = 20" "waiters s' 3 = {}"
    using OS_EventTaskRdy_spec [of demo 3 "Addr 0x55" OS_STAT_MBOX OS_STAT_PEND_OK]
    by (auto simp: demo_kinv demo_waiting)
  moreover from this have "prio = 20" by (simp add: word_unat_eq_iff)
  ultimately show ?thesis by blast
qed

text \<open>
  Multitasking starts with the most urgent of the tasks that were created, in
  a state where the invariant of the kernel holds.
\<close>

theorem OSStart_runs_highest:
  assumes "kinv0 s" "oinv s" "\<not> OSRunning s"
  shows "\<exists>s'. OSStart s = Some s' \<and> sinv s' \<and> settled s' \<and> OSRunning s' \<and> rdy s' = rdy s
    \<and> unat (OSPrioCur s') = Min (rdy s')"
  using OSStart_sinv [OF assms] by (auto simp: ok_iff)

theorem OSStart_runs_highest_witness:
  "\<exists>s'. OSStart (demo\<lparr>OSRunning := False, OSTCBCur := NULL\<rparr>) = Some s' \<and> unat (OSPrioCur s') = 30"
proof -
  let ?s = "demo\<lparr>OSRunning := False, OSTCBCur := NULL\<rparr>"
  have v: "ids ?s = ids demo" "objs ?s = objs demo" "rdy_bm ?s = rdy_bm demo" "ev_bm ?s = ev_bm demo"
    by (auto simp: ids_def objs_def ev_data_def stores_def clock_def rdy_bm_def ev_bm_def fun_eq_iff)
  have r: "rdy ?s = {30, 63}" "waiters ?s = waiters demo"
    using v demo_ready(2) by (simp_all add: rdy_def waiters_def fun_eq_iff)
  have "kinv0 ?s" by (rule kinv0_same [OF sinvD(2) [OF demo_sinv] v(1,3,4)]) simp
  moreover have "oinv ?s" by (rule oinv_shrink [OF demo_oinv v(1,2)]) (simp add: r)
  ultimately show ?thesis using OSStart_runs_highest [of ?s] r by auto
qed

text \<open>
  A name that was set is what is got back, with its length modulo 256.
\<close>

theorem OSEventName_is_kept:
  assumes "OSEventNameSet pevent (Some (cs @ [CHR 0x00])) s = Some (OS_ERR_NONE, s')"
    and "CHR 0x00 \<notin> set cs" "pname \<noteq> NULL"
  shows "OSEventNameGet pevent pname s' =
    Some (of_nat (length cs), Some (Some (cs @ [CHR 0x00])), OS_ERR_NONE)"
  by (rule OSEventName_roundtrip [OF assms])

theorem OSEventName_is_kept_witness:
  "\<exists>s'. OSEventNameSet (EVp 0) (Some [CHR ''s'', CHR ''0'', CHR 0x00]) demo = Some (OS_ERR_NONE, s')
    \<and> OSEventNameGet (EVp 0) (Addr 0x100) s' =
        Some (2, Some (Some [CHR ''s'', CHR ''0'', CHR 0x00]), OS_ERR_NONE)"
proof -
  obtain s' where run: "OSEventNameSet (EVp 0) (Some ([CHR ''s'', CHR ''0''] @ [CHR 0x00])) demo
      = Some (OS_ERR_NONE, s')"
    by (simp add: OSEventNameSet_def demo_ctl demo_events)
  from OSEventName_is_kept [OF this, of "Addr 0x100"] run show ?thesis by auto
qed

end
