(* ===== verification/Os_Sem.thy ===== *)
theory Os_Sem
  imports Os_Demo
begin

text \<open>
  Semaphores (\<open>os_sem.c\<close>): the calls, the contract they keep, and their refinement of a counter with
  a set of waiting tasks.
\<close>

section \<open>The calls\<close>

definition OSSemAccept :: "vptr \<Rightarrow> kst \<Rightarrow> (16 word \<times> kst) option" where
  "OSSemAccept pevent s =
     (if pevent = NULL then Some (0, s)
      else do {
        e \<leftarrow> ev_at pevent;
        if ev_type s e \<noteq> OS_EVENT_TYPE_SEM then Some (0, s)
        else do {
          let cnt = ev_cnt s e;
          let s = (if cnt > 0 then upd_ev e (\<lambda>c. c\<lparr>OSEventCnt := OSEventCnt c - 1\<rparr>) s else s);
          Some (cnt, s)
        }
      })"

definition OSSemCreate :: "16 word \<Rightarrow> kst \<Rightarrow> (vptr \<times> kst) option" where
  "OSSemCreate cnt s =
     (if OSIntNesting s > 0 then Some (NULL, s)
      else do {
        (pevent, s) \<leftarrow> take_event s;
        if pevent \<noteq> NULL then do {
          s \<leftarrow> init_event pevent OS_EVENT_TYPE_SEM cnt NULL s;
          Some (pevent, s)
        } else Some (pevent, s)
      })"

definition OSSemDel :: "vptr \<Rightarrow> 8 word \<Rightarrow> kst \<Rightarrow> ((vptr \<times> os_err) \<times> kst) option" where
  "OSSemDel pevent opt s =
     (if pevent = NULL then Some ((pevent, OS_ERR_PEVENT_NULL), s)
      else do {
        e \<leftarrow> ev_at pevent;
        if ev_type s e \<noteq> OS_EVENT_TYPE_SEM then Some ((pevent, OS_ERR_EVENT_TYPE), s)
        else if OSIntNesting s > 0 then Some ((pevent, OS_ERR_DEL_ISR), s)
        else do {
          let tasks_waiting = (OSEventGrp (OSEventTbl_ecb s e) \<noteq> 0);
          if opt = OS_DEL_NO_PEND then
            if \<not> tasks_waiting then do {
              s \<leftarrow> free_event pevent s;
              Some ((NULL, OS_ERR_NONE), s)
            } else Some ((pevent, OS_ERR_TASK_WAITING), s)
          else if opt = OS_DEL_ALWAYS then do {
            (_, s) \<leftarrow> OS_EventTaskRdy_all pevent NULL OS_STAT_SEM OS_STAT_PEND_ABORT 0 s;
            s \<leftarrow> free_event pevent s;
            s \<leftarrow> (if tasks_waiting then OS_Sched s else Some s);
            Some ((NULL, OS_ERR_NONE), s)
          } else Some ((pevent, OS_ERR_INVALID_OPT), s)
        }
      })"

definition OSSemPend :: "vptr \<Rightarrow> 32 word \<Rightarrow> kst \<Rightarrow> (os_err pend \<times> kst) option" where
  "OSSemPend pevent timeout s =
     (if pevent = NULL then Some (Returned OS_ERR_PEVENT_NULL, s)
      else do {
        e \<leftarrow> ev_at pevent;
        if ev_type s e \<noteq> OS_EVENT_TYPE_SEM then Some (Returned OS_ERR_EVENT_TYPE, s)
        else if OSIntNesting s > 0 then Some (Returned OS_ERR_PEND_ISR, s)
        else if OSLockNesting s > 0 then Some (Returned OS_ERR_PEND_LOCKED, s)
        else if ev_cnt s e > 0 then
          Some (Returned OS_ERR_NONE, upd_ev e (\<lambda>c. c\<lparr>OSEventCnt := OSEventCnt c - 1\<rparr>) s)
        else do {
          s \<leftarrow> event_wait pevent OS_STAT_SEM timeout s;
          s \<leftarrow> OS_Sched s;
          Some (Waiting, s)
        }
      })"

text \<open>The rest of the call, from line 376, when the task is the running task again.\<close>

definition OSSemPend_resume :: "vptr \<Rightarrow> kst \<Rightarrow> (os_err \<times> kst) option" where
  "OSSemPend_resume pevent s = do {
     ((_, err), s) \<leftarrow> event_resume pevent s;
     Some (err, s)
   }"

definition OSSemPendAbort :: "vptr \<Rightarrow> 8 word \<Rightarrow> kst \<Rightarrow> ((8 word \<times> os_err) \<times> kst) option" where
  "OSSemPendAbort pevent opt s =
     (if pevent = NULL then Some ((0, OS_ERR_PEVENT_NULL), s)
      else do {
        e \<leftarrow> ev_at pevent;
        if ev_type s e \<noteq> OS_EVENT_TYPE_SEM then Some ((0, OS_ERR_EVENT_TYPE), s)
        else event_pend_abort pevent OS_STAT_SEM opt s
      })"

definition OSSemPost :: "vptr \<Rightarrow> kst \<Rightarrow> (os_err \<times> kst) option" where
  "OSSemPost pevent s =
     (if pevent = NULL then Some (OS_ERR_PEVENT_NULL, s)
      else do {
        e \<leftarrow> ev_at pevent;
        if ev_type s e \<noteq> OS_EVENT_TYPE_SEM then Some (OS_ERR_EVENT_TYPE, s)
        else if OSEventGrp (OSEventTbl_ecb s e) \<noteq> 0 then do {
          (_, s) \<leftarrow> OS_EventTaskRdy pevent NULL OS_STAT_SEM OS_STAT_PEND_OK s;
          s \<leftarrow> OS_Sched s;
          Some (OS_ERR_NONE, s)
        }
        else if ev_cnt s e < 65535 then
          Some (OS_ERR_NONE, upd_ev e (\<lambda>c. c\<lparr>OSEventCnt := OSEventCnt c + 1\<rparr>) s)
        else Some (OS_ERR_SEM_OVF, s)
      })"

record os_sem_data =
  OSCnt :: "16 word"
  sem_data_Tbl :: "8 word list"
  sem_data_Grp :: "8 word"

definition OSSemQuery :: "vptr \<Rightarrow> vptr \<Rightarrow> kst \<Rightarrow> (os_err \<times> os_sem_data option) option" where
  "OSSemQuery pevent p_sem_data s =
     (if pevent = NULL then Some (OS_ERR_PEVENT_NULL, None)
      else if p_sem_data = NULL then Some (OS_ERR_PDATA_NULL, None)
      else do {
        e \<leftarrow> ev_at pevent;
        let ev = OSEventTbl_ecb s e;
        if OSEventType ev \<noteq> OS_EVENT_TYPE_SEM then Some (OS_ERR_EVENT_TYPE, None)
        else Some (OS_ERR_NONE, Some \<lparr>OSCnt = OSEventCnt ev, sem_data_Tbl = copy_tbl (OSEventTbl ev),
          sem_data_Grp = OSEventGrp ev\<rparr>)
      })"

definition OSSemSet :: "vptr \<Rightarrow> 16 word \<Rightarrow> kst \<Rightarrow> (os_err \<times> kst) option" where
  "OSSemSet pevent cnt s =
     (if pevent = NULL then Some (OS_ERR_PEVENT_NULL, s)
      else do {
        e \<leftarrow> ev_at pevent;
        if ev_type s e \<noteq> OS_EVENT_TYPE_SEM then Some (OS_ERR_EVENT_TYPE, s)
        else if ev_cnt s e > 0 then Some (OS_ERR_NONE, upd_ev e (\<lambda>c. c\<lparr>OSEventCnt := cnt\<rparr>) s)
        else if OSEventGrp (OSEventTbl_ecb s e) = 0 then
          Some (OS_ERR_NONE, upd_ev e (\<lambda>c. c\<lparr>OSEventCnt := cnt\<rparr>) s)
        else Some (OS_ERR_TASK_WAITING, s)
      })"

section \<open>Setting the count\<close>

lemma sem_count_sinv:
  assumes inv: "sinv s" and e: "e < OS_MAX_EVENTS" and k: "ev_type s e = OS_EVENT_TYPE_SEM"
    and none: "waiters s e = {} \<or> f (ev_cnt s e) = 0"
  shows "sinv (upd_ev e (\<lambda>c. c\<lparr>OSEventCnt := f (OSEventCnt c)\<rparr>) s)"
  by (rule upd_ev_sinv [OF inv e]) (use k none in \<open>auto simp: obj_ok_def avail_def\<close>)

section \<open>What each call does to a semaphore\<close>

lemma sem_used: "ev_type s e = OS_EVENT_TYPE_SEM \<Longrightarrow> ev_type s e \<noteq> OS_EVENT_TYPE_UNUSED"
  and sem_no_q: "ev_type s e = OS_EVENT_TYPE_SEM \<Longrightarrow> ev_type s e \<noteq> OS_EVENT_TYPE_Q"
  by simp_all

lemma sem_cnt_waiters:
  "sinv s \<Longrightarrow> e < OS_MAX_EVENTS \<Longrightarrow> ev_type s e = OS_EVENT_TYPE_SEM \<Longrightarrow> ev_cnt s e \<noteq> 0 \<Longrightarrow> waiters s e = {}"
  by (rule avail_waiters [OF sinvD(4)]) (simp_all add: avail_def)

lemma OSSemPost_sem:
  assumes inv: "sinv s" and e: "e < OS_MAX_EVENTS" and k: "ev_type s e = OS_EVENT_TYPE_SEM"
  shows "ok (OSSemPost (EVp e) s) (\<lambda>(r, s'). kept s s'
    \<and> (if waiters s e \<noteq> {} then r = OS_ERR_NONE
         \<and> (\<exists>s1. readied e (Min (waiters s e)) NULL OS_STAT_SEM OS_STAT_PEND_OK s s1 \<and> resched s1 s')
       else if ev_cnt s e < 65535 then r = OS_ERR_NONE
         \<and> s' = upd_ev e (\<lambda>c. c\<lparr>OSEventCnt := OSEventCnt c + 1\<rparr>) s
       else r = OS_ERR_SEM_OVF \<and> s' = s))"
proof (cases "waiters s e = {}")
  case True
  then show ?thesis
    using assms ev_grp_waiters [OF sinvD(2) [OF inv] e] sem_count_sinv [OF inv e k, of "\<lambda>c. c + 1"]
      settled_cong [of "upd_ev e (\<lambda>c. c\<lparr>OSEventCnt := OSEventCnt c + 1\<rparr>) s" s]
    by (auto simp: OSSemPost_def)
next
  case False
  then have run: "OSSemPost (EVp e) s = do {
      s' \<leftarrow> do { (_, s1) \<leftarrow> OS_EventTaskRdy (EVp e) NULL OS_STAT_SEM OS_STAT_PEND_OK s; OS_Sched s1 };
      Some (OS_ERR_NONE, s') }"
    using assms ev_grp_waiters [OF sinvD(2) [OF inv] e]
    by (simp add: OSSemPost_def split_beta')
  show ?thesis
    unfolding run
    by (rule ok_bindI [OF wake_and_sched [OF inv e False]]) (use False in auto)
qed

lemma OSSemPend_sem:
  assumes inv: "sinv s" and e: "e < OS_MAX_EVENTS" and k: "ev_type s e = OS_EVENT_TYPE_SEM"
    and idle: "OSPrioCur s \<noteq> OS_TASK_IDLE_PRIO"
  shows "ok (OSSemPend (EVp e) timeout s) (\<lambda>(r, s'). kept s s'
    \<and> (if OSIntNesting s > 0 then r = Returned OS_ERR_PEND_ISR \<and> s' = s
       else if OSLockNesting s > 0 then r = Returned OS_ERR_PEND_LOCKED \<and> s' = s
       else if ev_cnt s e > 0 then r = Returned OS_ERR_NONE
         \<and> s' = upd_ev e (\<lambda>c. c\<lparr>OSEventCnt := OSEventCnt c - 1\<rparr>) s
       else r = Waiting \<and> blocked e timeout s s'))"
proof -
  consider (busy) "OSIntNesting s > 0 \<or> OSLockNesting s > 0"
    | (take) "OSIntNesting s = 0" "OSLockNesting s = 0" "ev_cnt s e > 0"
    | (wait) "OSIntNesting s = 0" "OSLockNesting s = 0" "ev_cnt s e = 0"
    by (cases "OSIntNesting s = 0"; cases "OSLockNesting s = 0"; cases "ev_cnt s e = 0")
      (simp_all add: word_gt_0)
  then show ?thesis
  proof cases
    case busy
    with assms show ?thesis by (auto simp: OSSemPend_def)
  next
    case take
    then have "waiters s e = {}" using sem_cnt_waiters [OF inv e k] by simp
    with take show ?thesis
      using assms sem_count_sinv [OF inv e k, of "\<lambda>c. c - 1"]
        settled_cong [of "upd_ev e (\<lambda>c. c\<lparr>OSEventCnt := OSEventCnt c - 1\<rparr>) s" s]
      by (auto simp: OSSemPend_def)
  next
    case wait
    have no: "\<not> avail s e" using k wait by (simp add: avail_def)
    have run: "OSSemPend (EVp e) timeout s = do {
        s' \<leftarrow> do { s1 \<leftarrow> event_wait (EVp e) OS_STAT_SEM timeout s; OS_Sched s1 }; Some (Waiting, s') }"
      using wait e k by (simp add: OSSemPend_def)
    show ?thesis
      unfolding run
      by (rule ok_bindI [OF wait_and_sched [OF inv idle e no sem_used [OF k] wait(1,2)]])
        (use wait in simp)
  qed
qed

text \<open>A call that only returns an error keeps everything.\<close>

interpretation sem_del: deletable OS_EVENT_TYPE_SEM free_event
  by unfold_locales (simp add: free_event_freed)

lemma OSSemDel_sem:
  assumes inv: "sinv s" and e: "e < OS_MAX_EVENTS" and k: "ev_type s e = OS_EVENT_TYPE_SEM"
  shows "ok (OSSemDel (EVp e) opt s) (\<lambda>(r, s'). kept s s'
    \<and> (if OSIntNesting s > 0 then r = (EVp e, OS_ERR_DEL_ISR) \<and> s' = s
       else if opt = OS_DEL_NO_PEND \<and> waiters s e \<noteq> {} then r = (EVp e, OS_ERR_TASK_WAITING) \<and> s' = s
       else if opt = OS_DEL_NO_PEND \<or> opt = OS_DEL_ALWAYS then
         r = (NULL, OS_ERR_NONE) \<and> deleted e OS_STAT_SEM s s'
       else r = (EVp e, OS_ERR_INVALID_OPT) \<and> s' = s))"
  by (rule sem_del.del_body_ok [OF inv e k]) (use k e in \<open>simp_all add: OSSemDel_def\<close>)

lemma OSSemPendAbort_sem:
  assumes inv: "sinv s" and e: "e < OS_MAX_EVENTS" and k: "ev_type s e = OS_EVENT_TYPE_SEM"
  shows "OSSemPendAbort (EVp e) opt s = event_pend_abort (EVp e) OS_STAT_SEM opt s"
  using e k by (simp add: OSSemPendAbort_def)

lemma OSSemCreate_ok:
  assumes inv: "sinv s"
  shows "ok (OSSemCreate cnt s) (\<lambda>(p, s'). kept s s'
    \<and> (if OSIntNesting s > 0 then p = NULL \<and> s' = s else created OS_EVENT_TYPE_SEM cnt NULL s p s'))"
  using create_event_ok [OF inv, of OS_EVENT_TYPE_SEM cnt NULL] inv
  by (auto simp: OSSemCreate_def elim!: ok_mono)

lemma OSSemSet_sem:
  assumes inv: "sinv s" and e: "e < OS_MAX_EVENTS" and k: "ev_type s e = OS_EVENT_TYPE_SEM"
  shows "ok (OSSemSet (EVp e) cnt s) (\<lambda>(r, s'). kept s s'
    \<and> (if waiters s e = {} then r = OS_ERR_NONE \<and> s' = upd_ev e (\<lambda>c. c\<lparr>OSEventCnt := cnt\<rparr>) s
       else r = OS_ERR_TASK_WAITING \<and> s' = s))"
  using assms ev_grp_waiters [OF sinvD(2) [OF inv] e] sem_cnt_waiters [OF inv e k]
    sem_count_sinv [OF inv e k, of "\<lambda>_. cnt"]
    settled_cong [of "upd_ev e (\<lambda>c. c\<lparr>OSEventCnt := cnt\<rparr>) s" s]
  by (cases "waiters s e = {}") (auto simp: OSSemSet_def word_gt_0)

lemma OSSemAccept_sem:
  assumes inv: "sinv s" and e: "e < OS_MAX_EVENTS" and k: "ev_type s e = OS_EVENT_TYPE_SEM"
  shows "ok (OSSemAccept (EVp e) s) (\<lambda>(r, s'). kept s s'
    \<and> r = ev_cnt s e
    \<and> s' = (if r > 0 then upd_ev e (\<lambda>c. c\<lparr>OSEventCnt := OSEventCnt c - 1\<rparr>) s else s))"
  using assms sem_cnt_waiters [OF inv e k] sem_count_sinv [OF inv e k, of "\<lambda>c. c - 1"]
    settled_cong [of "upd_ev e (\<lambda>c. c\<lparr>OSEventCnt := OSEventCnt c - 1\<rparr>) s" s]
  by (auto simp: OSSemAccept_def word_gt_0 Let_def)

section \<open>The contract\<close>

interpretation SemAccept: sched_call "\<lambda>s. valid_ev pevent" "OSSemAccept pevent" for pevent
  by (rule event_callI [where k = OS_EVENT_TYPE_SEM and run = OSSemAccept], assumption,
      simp add: OSSemAccept_def, simp add: OSSemAccept_def, rule OSSemAccept_sem, assumption+)

interpretation SemCreate: sched_call "\<lambda>s. True" "OSSemCreate cnt" for cnt
  by (rule sched_callI) (auto intro: ok_mono2 [OF OSSemCreate_ok])

interpretation SemDel: sched_call "\<lambda>s. valid_ev pevent" "OSSemDel pevent opt" for pevent opt
  by (rule event_callI [where k = OS_EVENT_TYPE_SEM and run = "\<lambda>p. OSSemDel p opt"], assumption,
      simp add: OSSemDel_def, simp add: OSSemDel_def, rule OSSemDel_sem, assumption+)

interpretation SemPend:
  sched_call "\<lambda>s. valid_ev pevent \<and> may_block s" "OSSemPend pevent timeout" for pevent timeout
  by (rule event_callI [where k = OS_EVENT_TYPE_SEM and run = "\<lambda>p. OSSemPend p timeout"], simp,
      simp add: OSSemPend_def, simp add: OSSemPend_def, rule OSSemPend_sem)
    (simp_all add: may_block_def)

interpretation SemPendAbort: sched_call "\<lambda>s. valid_ev pevent" "OSSemPendAbort pevent opt" for pevent opt
  by (rule event_callI [where k = OS_EVENT_TYPE_SEM and run = "\<lambda>p. OSSemPendAbort p opt"], assumption,
      simp add: OSSemPendAbort_def, simp add: OSSemPendAbort_def, simp only: OSSemPendAbort_sem,
      rule event_pend_abort_ok, assumption+)

interpretation SemPost: sched_call "\<lambda>s. valid_ev pevent" "OSSemPost pevent" for pevent
  by (rule event_callI [where k = OS_EVENT_TYPE_SEM and run = OSSemPost], assumption,
      simp add: OSSemPost_def, simp add: OSSemPost_def, rule OSSemPost_sem, assumption+)

interpretation SemSet: sched_call "\<lambda>s. valid_ev pevent" "OSSemSet pevent cnt" for pevent cnt
  by (rule event_callI [where k = OS_EVENT_TYPE_SEM and run = "\<lambda>p. OSSemSet p cnt"], assumption,
      simp add: OSSemSet_def, simp add: OSSemSet_def, rule OSSemSet_sem, assumption+)

lemma OSSemPend_resume_ok:
  assumes "sinv s" "e < OS_MAX_EVENTS"
  shows "ok (OSSemPend_resume (EVp e) s) (\<lambda>(r, s'). \<exists>m. resumed e s (m, r) s')"
  using event_resume_ok [OF assms] by (auto simp: OSSemPend_resume_def ok_simps elim!: ok_mono)

interpretation SemPend_resume: sched_call "\<lambda>s. ev_at pevent \<noteq> None" "OSSemPend_resume pevent" for pevent
  by (rule sched_callI) (auto intro!: ok_mono2 [OF OSSemPend_resume_ok] dest!: resumed_kept)

text \<open>The name of an event of any kind.\<close>

interpretation EventNameSet: sched_call "\<lambda>s. valid_ev pevent" "OSEventNameSet pevent pname" for pevent pname
proof (rule sched_callI)
  fix s
  assume inv: "sinv s" and "valid_ev pevent"
  have k: "kept s (upd_ev e (\<lambda>c. c\<lparr>OSEventName := pname\<rparr>) s)"
    if e: "e < OS_MAX_EVENTS" "ev_type s e \<noteq> OS_EVENT_TYPE_UNUSED" for e
  proof -
    have eq: "OSQTbl (upd_ev e f s) = OSQTbl s" "OSTCBPrioTbl (upd_ev e f s) = OSTCBPrioTbl s" for f
      by (simp_all add: upd_ev_def)
    have "obj_ok (upd_ev e (\<lambda>c. c\<lparr>OSEventName := pname\<rparr>) s) e"
      using oinvD(4) [OF sinvD(4) [OF inv] e(1)]
      by (auto simp: obj_ok_def avail_def mutex_ok_def Let_def eq split: event_type.splits vptr.splits)
    then have "sinv (upd_ev e (\<lambda>c. c\<lparr>OSEventName := pname\<rparr>) s)" by (intro upd_ev_sinv [OF inv e(1)]) (use e in simp_all)
    then show ?thesis using settled_cong [of "upd_ev e (\<lambda>c. c\<lparr>OSEventName := pname\<rparr>) s" s] by simp
  qed
  from \<open>valid_ev pevent\<close> show "ok (OSEventNameSet pevent pname s) (\<lambda>(r, s'). kept s s')"
    by (cases rule: valid_evE) (use inv k in \<open>auto simp: OSEventNameSet_def split: event_type.splits\<close>)
qed

section \<open>The abstract semaphore\<close>

text \<open>A count and the set of the priorities that wait; a post gives the unit to the most urgent one.\<close>

type_synonym a_sem = "nat \<times> nat set"

definition abs_sem :: "kst \<Rightarrow> nat \<Rightarrow> a_sem" where
  "abs_sem s e = (unat (ev_cnt s e), waiters s e)"

fun a_sem_post :: "a_sem \<Rightarrow> os_err \<times> a_sem" where
  "a_sem_post (n, W) =
     (if W \<noteq> {} then (OS_ERR_NONE, (n, W - {Min W}))
      else if n < 65535 then (OS_ERR_NONE, (n + 1, W)) else (OS_ERR_SEM_OVF, (n, W)))"

fun a_sem_pend :: "nat \<Rightarrow> a_sem \<Rightarrow> os_err pend \<times> a_sem" where
  "a_sem_pend p (n, W) =
     (if n > 0 then (Returned OS_ERR_NONE, (n - 1, W)) else (Waiting, (n, insert p W)))"

lemma unat_cnt_inc: "(c :: 16 word) < 65535 \<Longrightarrow> unat (c + 1) = unat c + 1"
  by (subst unat_add_lem [THEN iffD1]) (auto simp: word_less_nat_alt)

lemma unat_cnt_dec: "(c :: 16 word) > 0 \<Longrightarrow> unat (c - 1) = unat c - 1"
  by (simp add: unat_minus_one word_gt_0)

text \<open>
  C5 (OSSemPost_refines): posting to a semaphore is posting to its abstract counter.  The most urgent
  waiter, if there is one, gets the unit: it leaves the wait list with the status \<open>OK\<close> and is ready
  unless it is suspended; no other event changes its data; a full counter is refused.
\<close>

theorem OSSemPost_refines:
  assumes "sinv s" "e < OS_MAX_EVENTS" "ev_type s e = OS_EVENT_TYPE_SEM"
  shows "\<exists>r s'. OSSemPost (EVp e) s = Some (r, s')
    \<and> (r, abs_sem s' e) = a_sem_post (abs_sem s e)
    \<and> (\<forall>e'. e' \<noteq> e \<longrightarrow> ev_data s' e' = ev_data s e')
    \<and> (waiters s e \<noteq> {} \<longrightarrow>
        woken NULL OS_STAT_SEM OS_STAT_PEND_OK (task s (Min (waiters s e))) (task s' (Min (waiters s e)))
        \<and> rdy s' = (if suspended (task s' (Min (waiters s e))) then rdy s
                    else insert (Min (waiters s e)) (rdy s)))"
proof -
  obtain r s' where run: "OSSemPost (EVp e) s = Some (r, s')" and post:
    "if waiters s e \<noteq> {} then r = OS_ERR_NONE
         \<and> (\<exists>s1. readied e (Min (waiters s e)) NULL OS_STAT_SEM OS_STAT_PEND_OK s s1 \<and> resched s1 s')
       else if ev_cnt s e < 65535 then r = OS_ERR_NONE
         \<and> s' = upd_ev e (\<lambda>c. c\<lparr>OSEventCnt := OSEventCnt c + 1\<rparr>) s
       else r = OS_ERR_SEM_OVF \<and> s' = s"
    using OSSemPost_sem [OF assms] by (auto simp: ok_iff simp del: if_split)
  show ?thesis
  proof (cases "waiters s e = {}")
    case True
    with run post show ?thesis
      by (auto simp: abs_sem_def unat_cnt_inc word_less_nat_alt ev_data_upd_ev split: if_splits)
  next
    case False
    then obtain s1 where 1: "readied e (Min (waiters s e)) NULL OS_STAT_SEM OS_STAT_PEND_OK s s1"
      "resched s1 s'" and r: "r = OS_ERR_NONE" using post by auto
    note w = readied_waiters [OF 1]
    show ?thesis
      using run False r w ev_data_fields(3) [of s' e s] by (simp add: abs_sem_def)
  qed
qed

theorem OSSemPost_refines_witness:
  "\<exists>s'. OSSemPost (EVp 0) demo = Some (OS_ERR_NONE, s') \<and> abs_sem s' 0 = (0, {})"
  using OSSemPost_refines [of demo 0] by (auto simp: demo_sinv demo_events demo_waiting abs_sem_def)

text \<open>
  C6 (OSSemPend_refines): a task takes a unit when the count is not zero and else joins the waiting
  tasks with its timeout; then the most urgent ready task runs.  It never waits while there is a
  unit, and the count never wraps.
\<close>

theorem OSSemPend_refines:
  assumes "sinv s" "e < OS_MAX_EVENTS" "ev_type s e = OS_EVENT_TYPE_SEM" "may_block s"
    and "OSIntNesting s = 0" "OSLockNesting s = 0"
  shows "\<exists>r s'. OSSemPend (EVp e) timeout s = Some (r, s')
    \<and> (r, abs_sem s' e) = a_sem_pend (unat (OSPrioCur s)) (abs_sem s e)
    \<and> (\<forall>e'. e' \<noteq> e \<longrightarrow> ev_data s' e' = ev_data s e' \<and> waiters s' e' = waiters s e')
    \<and> (r = Waiting \<longrightarrow> rdy s' = rdy s - {unat (OSPrioCur s)} \<and> unat (OSPrioCur s') = Min (rdy s')
        \<and> OSTCBDly (OSTCBTbl s' (cur_ix s)) = timeout)"
proof -
  obtain r s' where run: "OSSemPend (EVp e) timeout s = Some (r, s')" and pend:
    "if ev_cnt s e > 0 then r = Returned OS_ERR_NONE
       \<and> s' = upd_ev e (\<lambda>c. c\<lparr>OSEventCnt := OSEventCnt c - 1\<rparr>) s
     else r = Waiting \<and> blocked e timeout s s'"
    using OSSemPend_sem [of s e timeout] assms
    by (auto simp: ok_iff may_block_def simp del: if_split)
  show ?thesis
  proof (cases "ev_cnt s e = 0")
    case True
    then have b: "r = Waiting" "blocked e timeout s s'" using pend by simp_all
    then have d: "ev_data s' = ev_data s" by (simp add: blocked_def objs_def)
    show ?thesis
      using run b True ev_data_fields(3) [OF fun_cong [OF d], of e]
      by (simp add: abs_sem_def blocked_def objs_def)
  next
    case False
    with run pend show ?thesis
      by (simp add: word_gt_0 abs_sem_def unat_cnt_dec ev_data_upd_ev unat_gt_0)
  qed
qed

theorem OSSemPend_refines_witness:
  "\<exists>s'. OSSemPend (EVp 0) 7 demo = Some (Waiting, s') \<and> abs_sem s' 0 = (0, {30, 10})
     \<and> OSPrioCur s' = 63"
proof -
  obtain s' where "OSSemPend (EVp 0) 7 demo = Some (Waiting, s')" "abs_sem s' 0 = (0, {30, 10})"
    "rdy s' = {63}" "unat (OSPrioCur s') = 63"
    using OSSemPend_refines [of demo 0 7]
    by (auto simp: demo_sinv demo_events demo_waiting demo_ready demo_ctl abs_sem_def may_block_def)
  then show ?thesis by (auto simp: word_unat_eq_iff)
qed

lemma OSSemPost_wakes:
  assumes "sinv s" "e < OS_MAX_EVENTS" "ev_type s e = OS_EVENT_TYPE_SEM" "waiters s e \<noteq> {}"
  shows "ok (OSSemPost (EVp e) s) (\<lambda>(r, s'). r = OS_ERR_NONE \<and> kept s s'
    \<and> waiters s' e = waiters s e - {Min (waiters s e)} \<and> ev_data s' = ev_data s
    \<and> woken NULL OS_STAT_SEM OS_STAT_PEND_OK (task s (Min (waiters s e))) (task s' (Min (waiters s e)))
    \<and> rdy s' = (if suspended (task s (Min (waiters s e))) then rdy s else insert (Min (waiters s e)) (rdy s)))"
proof (rule ok_mono2 [OF OSSemPost_sem [OF assms(1-3)]], goal_cases)
  case (1 r s')
  then obtain s1 where s1: "readied e (Min (waiters s e)) NULL OS_STAT_SEM OS_STAT_PEND_OK s s1"
    "resched s1 s'" and r: "r = OS_ERR_NONE" using assms(4) by auto
  note w = readied_waiters [OF s1]
  have "suspended (task s' (Min (waiters s e))) = suspended (task s (Min (waiters s e)))"
    by (rule woken_suspended [OF w(3)]) simp
  with 1 r w show ?case by simp
qed

text \<open>
  A post that readies a task more urgent than the caller switches to it at once,
  and that task's pend call returns without error; the count does not change.
\<close>

theorem OSSemPost_handoff:
  assumes "sinv s" "settled s" "e < OS_MAX_EVENTS" "ev_type s e = OS_EVENT_TYPE_SEM" "waiters s e \<noteq> {}"
    and "OSIntNesting s = 0" "OSLockNesting s = 0"
    and "\<not> suspended (task s (Min (waiters s e)))" "Min (waiters s e) < unat (OSPrioCur s)"
  shows "\<exists>s' s''. OSSemPost (EVp e) s = Some (OS_ERR_NONE, s')
    \<and> unat (OSPrioCur s') = Min (waiters s e)
    \<and> OSSemPend_resume (EVp e) s' = Some (OS_ERR_NONE, s'')
    \<and> ev_cnt s'' e = ev_cnt s e \<and> waiters s'' e = waiters s e - {Min (waiters s e)}"
proof -
  let ?p = "Min (waiters s e)"
  obtain s' where run: "OSSemPost (EVp e) s = Some (OS_ERR_NONE, s')" and inv: "sinv s'"
    and ctl: "ctl s' = ctl s" and "settled s'" and w: "waiters s' e = waiters s e - {?p}"
    "ev_data s' = ev_data s" "woken NULL OS_STAT_SEM OS_STAT_PEND_OK (task s ?p) (task s' ?p)"
    "rdy s' = insert ?p (rdy s)"
    using OSSemPost_wakes [OF assms(1,3-5)] assms(2,8) by (auto simp: ok_iff)
  have k: "kept s s'" using inv ctl \<open>settled s'\<close> by simp
  note cur = woken_runs [OF assms(1,2) k assms(6,7) w(4) assms(9) w(3)]
  obtain s'' where run2: "OSSemPend_resume (EVp e) s' = Some (OS_ERR_NONE, s'')"
    and r: "frames s' s''" "waiters s'' = waiters s'"
    using OSSemPend_resume_ok [OF inv assms(3)] cur(2) by (auto simp: ok_iff resumed_def)
  have "ev_data s'' = ev_data s" using r(1) w(2) by (simp add: frames_def objs_def)
  then have "ev_cnt s'' e = ev_cnt s e" by (intro ev_data_fields(3)) simp
  with run run2 cur r(2) w(1) show ?thesis by auto
qed

theorem OSSemPost_handoff_witness:
  "\<exists>s' s''. OSSemPost (EVp 0) demo = Some (OS_ERR_NONE, s') \<and> unat (OSPrioCur s') = 10
    \<and> OSSemPend_resume (EVp 0) s' = Some (OS_ERR_NONE, s'')"
proof -
  have "task demo 10 = demo_tcb 10 1 (EVp 0) (TCBp 0) (TCBp 2) 5" by (simp add: task_def demo_def)
  then show ?thesis
    using OSSemPost_handoff [of demo 0]
    by (auto simp: demo_sinv demo_settled demo_events demo_waiting demo_ctl suspended_def demo_tcb_def)
qed

text \<open>
  C13 (OSSemPendAbort_all): aborting with \<open>OS_PEND_OPT_BROADCAST\<close> ends, says how many tasks it readied,
  and leaves no waiter; each of them has the status \<open>aborted\<close> and is ready unless it is suspended,
  and nobody else becomes ready.  The count of the semaphore stays.
\<close>

theorem OSSemPendAbort_all:
  assumes "sinv s" "e < OS_MAX_EVENTS" "ev_type s e = OS_EVENT_TYPE_SEM" "waiters s e \<noteq> {}"
  shows "\<exists>s'. OSSemPendAbort (EVp e) OS_PEND_OPT_BROADCAST s
      = Some ((of_nat (card (waiters s e)), OS_ERR_PEND_ABORT), s')
    \<and> waiters s' e = {} \<and> ev_data s' = ev_data s
    \<and> rdy s' = rdy s \<union> {p \<in> waiters s e. \<not> suspended (task s' p)}
    \<and> (\<forall>p\<in>waiters s e. woken NULL OS_STAT_SEM OS_STAT_PEND_ABORT (task s p) (task s' p))"
proof -
  obtain s' s1 where run: "OSSemPendAbort (EVp e) OS_PEND_OPT_BROADCAST s
      = Some ((of_nat (card (waiters s e)), OS_ERR_PEND_ABORT), s')"
    and a: "all_readied e (waiters s e) NULL OS_STAT_SEM OS_STAT_PEND_ABORT s s1" "resched s1 s'"
    using event_pend_abort_ok [OF assms(1,2), of OS_STAT_SEM OS_PEND_OPT_BROADCAST]
      OSSemPendAbort_sem [OF assms(1-3)] assms(4)
    by (auto simp: ok_iff)
  then show ?thesis
    using reschedD [OF a(2)] suspended_resched [OF a(2)] woken_resched [OF a(2)]
    by (simp add: all_readied_def frames_def objs_def)
qed

theorem OSSemPendAbort_all_witness:
  "\<exists>s'. OSSemPendAbort (EVp 0) OS_PEND_OPT_BROADCAST demo = Some ((1, OS_ERR_PEND_ABORT), s')
    \<and> waiters s' 0 = {}"
  using OSSemPendAbort_all [of demo 0] by (auto simp: demo_sinv demo_events demo_waiting)

text \<open>
  C15 (OSSemDel_always): a forced delete ends, gives the event back to the free list and readies every
  waiter with the status \<open>aborted\<close>.
\<close>

theorem OSSemDel_always:
  assumes "sinv s" "e < OS_MAX_EVENTS" "ev_type s e = OS_EVENT_TYPE_SEM" "OSIntNesting s = 0"
  shows "\<exists>s'. OSSemDel (EVp e) OS_DEL_ALWAYS s = Some ((NULL, OS_ERR_NONE), s') \<and> sinv s'
    \<and> unused_events s' \<supseteq> {e} \<and> OSEventFreeList s' = EVp e \<and> waiters s' e = {}
    \<and> (\<forall>p\<in>waiters s e. woken NULL OS_STAT_SEM OS_STAT_PEND_ABORT (task s p) (task s' p)
        \<and> (p \<in> rdy s' \<or> suspended (task s' p)))"
  using OSSemDel_sem [OF assms(1-3), of OS_DEL_ALWAYS] assms(2,4)
  by (auto simp: ok_iff deleted_def unused_events_def)

theorem OSSemDel_always_witness:
  "\<exists>s'. OSSemDel (EVp 0) OS_DEL_ALWAYS demo = Some ((NULL, OS_ERR_NONE), s')
    \<and> OSEventFreeList s' = EVp 0"
  using OSSemDel_always [of demo 0] by (auto simp: demo_sinv demo_events demo_ctl)

end
