(* ===== verification/Os_Prio.thy ===== *)
theory Os_Prio
  imports Os_Calls
begin

text \<open>
  Changes to the priority table: reserving and freeing an entry, and moving a task to another
  priority.  The mutex calls are made of these.
\<close>

section \<open>Entries of the priority table\<close>

abbreviation (input) put_prio :: "8 word \<Rightarrow> vptr \<Rightarrow> kst \<Rightarrow> kst" where
  "put_prio p v s \<equiv> s\<lparr>OSTCBPrioTbl := (OSTCBPrioTbl s)(unat p := v)\<rparr>"

lemma set_prio_tbl_put: "unat p < 64 \<Longrightarrow> set_prio_tbl p v s = Some (put_prio p v s)"
  by (simp add: set_prio_tbl_def)

lemma views_put_prio [simp, frame]:
  "rdy (s\<lparr>OSTCBPrioTbl := f\<rparr>) = rdy s" "rdy_bm (s\<lparr>OSTCBPrioTbl := f\<rparr>) = rdy_bm s"
  "ev_bm (s\<lparr>OSTCBPrioTbl := f\<rparr>) = ev_bm s" "waiters (s\<lparr>OSTCBPrioTbl := f\<rparr>) = waiters s"
  "objs (s\<lparr>OSTCBPrioTbl := f\<rparr>) = objs s" "ctl (s\<lparr>OSTCBPrioTbl := f\<rparr>) = ctl s" "cur (s\<lparr>OSTCBPrioTbl := f\<rparr>) = cur s"
  by (simp_all add: rdy_def waiters_def kernel_defs objs_def ev_data_def stores_def clock_def
      ctl_def cur_def fun_eq_iff)

lemma PrioTbl_set_bm [simp, frame]:
  "OSTCBPrioTbl (set_rdy_bm b s) = OSTCBPrioTbl s" "OSTCBPrioTbl (set_ev_bm e b s) = OSTCBPrioTbl s"
  "OSTCBList (set_rdy_bm b s) = OSTCBList s" "OSTCBList (set_ev_bm e b s) = OSTCBList s"
  "OSTCBList (upd_tcb t f s) = OSTCBList s"
  by (simp_all add: kernel_defs)

lemma task_put_prio: "q \<noteq> unat p \<Longrightarrow> task (put_prio p v s) q = task s q"
  by (simp add: task_def split: vptr.split)

text \<open>What the invariant says of the objects needs of the priority table only the mutexes' entries.\<close>

lemma oinv_tasks:
  assumes inv: "oinv s" and data: "ev_data s' = ev_data s" and q: "OSQTbl s' = OSQTbl s"
      "OSQFreeList s' = OSQFreeList s" "OSEventFreeList s' = OSEventFreeList s" "OSTmrSemSignal s' = OSTmrSemSignal s"
    and w: "\<And>e. e < OS_MAX_EVENTS \<Longrightarrow> waiters s e = {} \<Longrightarrow> waiters s' e = {}"
    and m: "\<And>e. e < OS_MAX_EVENTS \<Longrightarrow> ev_type s e = OS_EVENT_TYPE_MUTEX \<Longrightarrow> mutex_ok s' e"
  shows "oinv s'"
proof -
  have d: "ev_data s' e = ev_data s e" for e using data by simp
  have "obj_ok s' e" if e: "e < OS_MAX_EVENTS" for e
    using oinvD(4) [OF inv e] w [OF e] m [OF e] avail_cong [OF d q(1), of e]
    unfolding obj_ok_def ev_data_fields [OF d] q by (auto split: vptr.splits)
  then show ?thesis
    using inv
    by (simp add: oinv_def ev_pool_ok_def q_pool_ok_def pcps_differ_def unused_events_def used_qs_def
        ev_data_fields [OF d] q)
qed

lemma oinv_mutexes:
  assumes inv: "oinv s" and objs: "objs s' = objs s"
    and w: "\<And>e. e < OS_MAX_EVENTS \<Longrightarrow> waiters s e = {} \<Longrightarrow> waiters s' e = {}"
    and m: "\<And>e. e < OS_MAX_EVENTS \<Longrightarrow> ev_type s e = OS_EVENT_TYPE_MUTEX \<Longrightarrow> mutex_ok s' e"
  shows "oinv s'"
  by (rule oinv_tasks [OF inv _ _ _ _ _ w m]) (use objs in \<open>simp_all add: objs_def stores_def clock_def\<close>)

text \<open>Priority \<open>p\<close> is kept for a mutex, or named as an owner's priority by one.\<close>

definition ceilings :: "kst \<Rightarrow> 8 word set" where
  "ceilings s = {mutex_pcp (ev_cnt s e) | e. e < OS_MAX_EVENTS \<and> ev_type s e = OS_EVENT_TYPE_MUTEX}"

definition owner_prios :: "kst \<Rightarrow> 8 word set" where
  "owner_prios s = {mutex_low (ev_cnt s e) | e. e < OS_MAX_EVENTS \<and> ev_type s e = OS_EVENT_TYPE_MUTEX
     \<and> ev_ptr s e \<noteq> NULL}"

lemma put_prio_sinv:
  assumes inv: "sinv s" and free: "\<not> owned s (unat p)"
    and v: "v = OS_TCB_RESERVED \<or> v = NULL \<and> p \<notin> ceilings s"
    and low: "p \<notin> owner_prios s"
  shows "sinv (put_prio p v s)" (is "sinv ?s")
    and "\<And>t q. owns (put_prio p v s) t q \<longleftrightarrow> owns s t q" "\<And>q. owned (put_prio p v s) q = owned s q"
proof -
  have other: "owns ?s t q \<longleftrightarrow> owns s t q" for t q
    using free v owns_owned [of s t q] by (auto simp: owns_def)
  show "owns ?s t q \<longleftrightarrow> owns s t q" for t q by (rule other)
  have own: "owned ?s q = owned s q" for q
    using free v other by (cases "q = unat p") (auto simp: owned_def split: vptr.split)
  show "owned ?s q = owned s q" for q by (rule own)
  have entry: "entry_ok ?s (OSTCBPrioTbl ?s q)" if "q < 64" for q
    using that v other sinvD(2) [OF inv]
    by (auto simp: entry_ok_def kinv0_def split: vptr.splits if_splits)
  have "tasks_ok ?s"
    using sinvD(2) [OF inv] other by (simp add: kinv0_def tasks_ok_def)
  then have "kinv0 ?s"
    using sinvD(2) [OF inv] entry unfolding kinv0_def by (simp add: own)
  moreover have "cur_ok ?s"
    using sinvD(3) [OF inv] other by (auto simp: cur_ok_def split: vptr.splits)
  moreover have "mutex_ok ?s e" if e: "e < OS_MAX_EVENTS" "ev_type s e = OS_EVENT_TYPE_MUTEX" for e
  proof -
    have m: "mutex_ok s e" using oinvD(4) [OF sinvD(4) [OF inv] e(1)] e(2) by (simp add: obj_ok_def)
    have 1: "unat (mutex_pcp (ev_cnt s e)) = unat p \<Longrightarrow> v = OS_TCB_RESERVED"
      using v e by (auto simp: ceilings_def word_unat_eq_iff)
    have 2: "ev_ptr s e \<noteq> NULL \<Longrightarrow> unat (mutex_low (ev_cnt s e)) \<noteq> unat p"
      using low e by (auto simp: owner_prios_def word_unat_eq_iff)
    show ?thesis
      using m 1 2 by (auto simp: mutex_ok_def Let_def split: vptr.splits)
  qed
  ultimately show "sinv ?s"
    using oinv_mutexes [OF sinvD(4) [OF inv], of ?s] by (simp add: sinv_def kinv_def)
qed

section \<open>Moving a task\<close>

text \<open>The assignments that give a control block a new priority.\<close>

definition set_prio :: "8 word \<Rightarrow> os_tcb \<Rightarrow> os_tcb" where
  "set_prio p c = c\<lparr>OSTCBPrio := p, OSTCBY := prio_y p, OSTCBX := prio_x p,
     OSTCBBitY := bit_mask (prio_y p), OSTCBBitX := bit_mask (prio_x p)\<rparr>"

lemma set_prio_bits: "unat p < 64 \<Longrightarrow> tcb_bits_ok (set_prio p c)"
  by (simp add: set_prio_def tcb_bits_ok_def)

text \<open>
  Task \<open>t\<close> moves from priority \<open>p\<close> to \<open>q\<close>: its control block and the table entry of \<open>q\<close> change, and
  \<open>p\<close> is replaced by \<open>q\<close> in every bitmap that has it.  \<open>R\<close> is the set of ready tasks, by their old
  priorities, when the task has moved.
\<close>

definition ren :: "nat \<Rightarrow> 8 word \<Rightarrow> nat \<Rightarrow> nat" where
  "ren p q x = (if x = p then unat q else x)"

definition moved :: "nat \<Rightarrow> nat \<Rightarrow> 8 word \<Rightarrow> nat set \<Rightarrow> kst \<Rightarrow> kst \<Rightarrow> bool" where
  "moved t p q R s s' \<longleftrightarrow>
     OSTCBTbl s' = (OSTCBTbl s)(t := set_prio q (OSTCBTbl s t))
     \<and> OSTCBPrioTbl s' = (OSTCBPrioTbl s)(unat q := TCBp t)
     \<and> objs s' = objs s \<and> ctl s' = ctl s \<and> OSTCBList s' = OSTCBList s
     \<and> bm_ok (rdy_bm s') \<and> (\<forall>e<OS_MAX_EVENTS. bm_ok (ev_bm s' e))
     \<and> rdy s \<subseteq> R \<and> R \<subseteq> insert p (rdy s) \<and> rdy s' = ren p q ` R
     \<and> (\<forall>e<OS_MAX_EVENTS. waiters s' e = ren p q ` waiters s e)"

lemma moved_kinv0:
  assumes inv: "kinv0 s" and own: "owns s t p" and idle: "p \<noteq> 63" and q: "unat q < 64"
    and free: "\<not> owned s (unat q)" and m: "moved t p q R s s'"
  shows "kinv0 s'" "owns s' t (unat q)" "\<And>u r. u \<noteq> t \<Longrightarrow> owns s u r \<Longrightarrow> owns s' u r"
proof -
  show 1: "owns s' t (unat q)"
    using m q owns_index [OF own] set_prio_bits [OF q, of "OSTCBTbl s t"]
    by (simp add: owns_def moved_def) (simp add: set_prio_def)
  show 2: "owns s' u r" if "u \<noteq> t" "owns s u r" for u r
    using that free m owns_owned [OF that(2)] by (auto simp: owns_def moved_def)
  have keep: "owned s' (ren p q r)" if r: "owned s r" for r
  proof (cases "r = p")
    case True
    then show ?thesis using owns_owned [OF 1] by (simp add: ren_def)
  next
    case False
    from r obtain u where u: "owns s u r" by (rule ownedE)
    then have "u \<noteq> t" using False own by (auto simp: owns_def)
    then show ?thesis using owns_owned [OF 2 [OF _ u]] False by (simp add: ren_def)
  qed
  have entry: "entry_ok s' (OSTCBPrioTbl s' r)" if r: "r < 64" for r
  proof (cases "r = unat q")
    case True
    then show ?thesis using m 1 owns_prio [OF 1] by (simp add: moved_def entry_ok_def)
  next
    case False
    then have e: "OSTCBPrioTbl s' r = OSTCBPrioTbl s r" using m by (simp add: moved_def)
    have old: "entry_ok s (OSTCBPrioTbl s r)" using inv r by (simp add: kinv0_def)
    show ?thesis
    proof (cases "OSTCBPrioTbl s r")
      case (TCBp u)
      show ?thesis
      proof (cases "u = t")
        case True
        then show ?thesis using e TCBp 1 owns_prio [OF 1] by (simp add: entry_ok_def)
      next
        case u: False
        then have "owns s' u (unat (OSTCBPrio (OSTCBTbl s u)))"
          using 2 old TCBp by (simp add: entry_ok_def)
        then show ?thesis using e TCBp u m by (simp add: entry_ok_def moved_def)
      qed
    qed (use e old in \<open>simp_all add: entry_ok_def\<close>)
  qed
  have "OSTCBEventMultiPtr (OSTCBTbl s' u) = OSTCBEventMultiPtr (OSTCBTbl s u)" for u
    using m by (simp add: moved_def set_prio_def)
  then have multi: "\<forall>u<OS_N_TCBS. multi_ok (OSTCBEventMultiPtr (OSTCBTbl s' u))"
    using inv by (simp add: kinv0_def)
  have r: "\<forall>x<64. x \<in> rdy s' \<longrightarrow> owned s' x"
  proof (intro allI impI)
    fix x
    assume "x \<in> rdy s'"
    then obtain y where y: "y \<in> R" "x = ren p q y" using m by (auto simp: moved_def)
    have "owned s y" using y(1) m kinv0_rdy [OF inv] owns_owned [OF own] by (auto simp: moved_def)
    then show "owned s' x" unfolding y(2) by (rule keep)
  qed
  have w: "\<forall>e<OS_MAX_EVENTS. \<forall>x<64. x \<in> waiters s' e \<longrightarrow> owned s' x"
  proof (intro allI impI)
    fix e x
    assume e: "e < OS_MAX_EVENTS" and "x \<in> waiters s' e"
    then obtain y where y: "y \<in> waiters s e" "x = ren p q y"
      using m e by (auto simp: moved_def)
    show "owned s' x" unfolding y(2) by (rule keep [OF kinv0_waiters [OF inv e y(1)]])
  qed
  have "63 \<in> rdy s'"
    using m inv idle by (auto simp: moved_def kinv0_def image_iff ren_def intro!: bexI [of _ 63])
  moreover have "tasks_ok s'"
  proof -
    obtain ts where ts: "path TCBp (\<lambda>t. OSTCBNext (OSTCBTbl s t)) (OSTCBList s) ts" "distinct ts" "ts \<noteq> []"
      "OSTCBPrio (OSTCBTbl s (last ts)) = OS_TASK_IDLE_PRIO" "set ts = {t. \<exists>p. owns s t p}"
      using inv by (auto simp: kinv0_def tasks_ok_def)
    have "OSTCBNext (OSTCBTbl s' u) = OSTCBNext (OSTCBTbl s u)" for u
      using m by (simp add: moved_def set_prio_def)
    then have same: "(\<lambda>u. OSTCBNext (OSTCBTbl s' u)) = (\<lambda>u. OSTCBNext (OSTCBTbl s u))" by simp
    have list: "OSTCBList s' = OSTCBList s" using m by (simp add: moved_def)
    have "last ts \<noteq> t" using ts(4) own idle by (auto simp: owns_def)
    then have "OSTCBPrio (OSTCBTbl s' (last ts)) = OS_TASK_IDLE_PRIO" using m ts(4) by (simp add: moved_def)
    moreover have "(\<exists>r. owns s' u r) \<longleftrightarrow> (\<exists>r. owns s u r)" for u
    proof (cases "u = t")
      case True
      then show ?thesis using 1 own by auto
    next
      case False
      have "owns s u r" if "owns s' u r" for r
        using that m False by (auto simp: owns_def moved_def split: if_splits)
      then show ?thesis using 2 [OF False] by blast
    qed
    ultimately show ?thesis
      using ts unfolding tasks_ok_def same list by (intro exI [of _ ts]) simp
  qed
  ultimately show "kinv0 s'"
    using m entry multi r w unfolding kinv0_def by (simp add: moved_def)
qed

text \<open>The new priority was the task's already in the table, or it is the ceiling of a mutex it owns.\<close>

definition may_move :: "nat \<Rightarrow> 8 word \<Rightarrow> kst \<Rightarrow> bool" where
  "may_move t q s \<longleftrightarrow> OSTCBPrioTbl s (unat q) = TCBp t
     \<or> (\<exists>e<OS_MAX_EVENTS. ev_type s e = OS_EVENT_TYPE_MUTEX \<and> ev_ptr s e = TCBp t
          \<and> mutex_pcp (ev_cnt s e) = q \<and> q \<noteq> OS_PRIO_MUTEX_CEIL_DIS)"

lemma moved_oinv:
  assumes inv: "oinv s" and may: "may_move t q s" and m: "moved t p q R s s'"
  shows "oinv s'"
proof (rule oinv_mutexes [OF inv])
  show "objs s' = objs s" using m by (simp add: moved_def)
  then have d: "ev_data s' = ev_data s" by (simp add: objs_def)
  show "waiters s' e = {}" if "e < OS_MAX_EVENTS" "waiters s e = {}" for e using m that by (simp add: moved_def)
  fix e
  assume e: "e < OS_MAX_EVENTS" "ev_type s e = OS_EVENT_TYPE_MUTEX"
  note f = ev_data_fields [OF fun_cong [OF d], of e]
  have ok: "mutex_ok s e'" if "e' < OS_MAX_EVENTS" "ev_type s e' = OS_EVENT_TYPE_MUTEX" for e'
    using oinvD(4) [OF inv that(1)] that(2) by (simp add: obj_ok_def)
  have tbl: "OSTCBPrioTbl s' = (OSTCBPrioTbl s)(unat q := TCBp t)" using m by (simp add: moved_def)
  have owner: "ev_ptr s e = TCBp t"
    if "unat (mutex_pcp (ev_cnt s e)) = unat q" "mutex_pcp (ev_cnt s e) \<noteq> OS_PRIO_MUTEX_CEIL_DIS"
  proof -
    have pcp: "mutex_pcp (ev_cnt s e) = q" using that(1) by (simp add: word_unat_eq_iff)
    from may show ?thesis unfolding may_move_def
    proof (elim disjE exE conjE)
      assume "OSTCBPrioTbl s (unat q) = TCBp t"
      then show ?thesis
        using ok [OF e] that by (auto simp: mutex_ok_def Let_def split: vptr.splits)
    next
      fix e'
      assume "e' < OS_MAX_EVENTS" "ev_type s e' = OS_EVENT_TYPE_MUTEX" "ev_ptr s e' = TCBp t"
        "mutex_pcp (ev_cnt s e') = q"
      then show ?thesis
        using oinvD(3) [OF inv] e pcp that(2) unfolding pcps_differ_def by metis
    qed
  qed
  have entry: "OSTCBPrioTbl s (unat q) = TCBp t \<or> OSTCBPrioTbl s (unat q) = OS_TCB_RESERVED"
    using may unfolding may_move_def
  proof (elim disjE exE conjE)
    fix e'
    assume "e' < OS_MAX_EVENTS" "ev_type s e' = OS_EVENT_TYPE_MUTEX" "ev_ptr s e' = TCBp t"
      "mutex_pcp (ev_cnt s e') = q" "q \<noteq> OS_PRIO_MUTEX_CEIL_DIS"
    then show ?thesis using ok [of e'] by (auto simp: mutex_ok_def Let_def)
  qed simp
  show "mutex_ok s' e"
    using ok [OF e] entry owner unfolding mutex_ok_def f tbl Let_def
    by (auto split: vptr.splits if_splits)
qed

lemma moved_sinv:
  assumes inv: "sinv s" and own: "owns s t p" and idle: "p \<noteq> 63" and q: "unat q < 64"
    and free: "\<not> owned s (unat q)" and may: "may_move t q s" and m: "moved t p q R s s'"
    and cur: "cur s' = cur s \<and> OSTCBCur s \<noteq> TCBp t \<or> cur s' = (TCBp t, q)"
  shows "sinv s'"
proof -
  note k = moved_kinv0 [OF sinvD(2) [OF inv] own idle q free m]
  have "cur_ok s'"
    using cur
  proof (elim disjE conjE)
    assume "cur s' = cur s" "OSTCBCur s \<noteq> TCBp t"
    moreover have "owns s' (cur_ix s) (unat (OSPrioCur s))"
      using k(3) sinv_cur(1,2) [OF inv] \<open>OSTCBCur s \<noteq> TCBp t\<close> by auto
    ultimately show ?thesis using sinv_cur(1) [OF inv] by (simp add: cur_ok_def cur_def)
  qed (use k(2) in \<open>simp add: cur_ok_def cur_def\<close>)
  then show ?thesis
    using k(1) moved_oinv [OF sinvD(4) [OF inv] may m] by (simp add: sinv_def kinv_def)
qed

lemma movedD:
  assumes "moved t p q R s s'"
  shows "objs s' = objs s" "ctl s' = ctl s" "ev_data s' = ev_data s" "ev_type s' e = ev_type s e"
    "ev_ptr s' e = ev_ptr s e" "ev_cnt s' e = ev_cnt s e"
    "OSIntNesting s' = OSIntNesting s" "OSLockNesting s' = OSLockNesting s"
    "OSTCBPrioTbl s' = (OSTCBPrioTbl s)(unat q := TCBp t)"
    "OSTCBPrio (OSTCBTbl s' t) = q" "u \<noteq> t \<Longrightarrow> OSTCBTbl s' u = OSTCBTbl s u"
proof -
  show o: "objs s' = objs s" and c: "ctl s' = ctl s" using assms by (simp_all add: moved_def)
  then show d: "ev_data s' = ev_data s" by (simp add: objs_def)
  show "ev_type s' e = ev_type s e" "ev_ptr s' e = ev_ptr s e" "ev_cnt s' e = ev_cnt s e"
    using ev_data_fields [OF fun_cong [OF d], of e] by simp_all
  show "OSIntNesting s' = OSIntNesting s" "OSLockNesting s' = OSLockNesting s"
    using c by (simp_all add: ctl_def)
qed (use assms in \<open>simp_all add: moved_def set_prio_def\<close>)

end
