(* ===== verification/Os_Mutex.thy ===== *)
theory Os_Mutex
  imports Os_Prio Os_Demo
begin

text \<open>
  Mutexes with a priority ceiling (\<open>os_mutex.c\<close>): the calls, what they do to the owner's priority, and
  the preconditions under which they keep the invariant of the kernel.
\<close>

section \<open>The calls\<close>

text \<open>
  \<open>OSEventCnt &= OS_MUTEX_KEEP_UPPER_8; OSEventCnt |= (INT16U)prio; OSEventPtr = owner;\<close>
\<close>

definition mutex_own :: "nat \<Rightarrow> 8 word \<Rightarrow> vptr \<Rightarrow> kst \<Rightarrow> kst" where
  "mutex_own e prio owner =
     upd_ev e (\<lambda>c. c\<lparr>OSEventCnt := (OSEventCnt c AND 0xFF00) OR ucast prio, OSEventPtr := owner\<rparr>)"

text \<open>The running task takes a mutex that is available.\<close>

definition mutex_take :: "nat \<Rightarrow> kst \<Rightarrow> (os_err \<times> kst) option" where
  "mutex_take e s = do {
     t \<leftarrow> tcb_at (OSTCBCur s);
     let prio = OSTCBPrio (OSTCBTbl s t);
     let pcp = mutex_pcp (ev_cnt s e);
     let s = mutex_own e prio (OSTCBCur s) s;
     Some (if pcp \<noteq> OS_PRIO_MUTEX_CEIL_DIS \<and> prio \<le> pcp then OS_ERR_PCP_LOWER else OS_ERR_NONE, s)
   }"

definition OSMutexAccept :: "vptr \<Rightarrow> kst \<Rightarrow> ((bool \<times> os_err) \<times> kst) option" where
  "OSMutexAccept pevent s =
     (if pevent = NULL then Some ((False, OS_ERR_PEVENT_NULL), s)
      else do {
        e \<leftarrow> ev_at pevent;
        if ev_type s e \<noteq> OS_EVENT_TYPE_MUTEX then Some ((False, OS_ERR_EVENT_TYPE), s)
        else if OSIntNesting s > 0 then Some ((False, OS_ERR_PEND_ISR), s)
        else if mutex_low (ev_cnt s e) = 0xFF then do {
          (err, s) \<leftarrow> mutex_take e s;
          Some ((True, err), s)
        } else Some ((False, OS_ERR_NONE), s)
      })"

definition OSMutexCreate :: "8 word \<Rightarrow> kst \<Rightarrow> ((vptr \<times> os_err) \<times> kst) option" where
  "OSMutexCreate prio s =
     (if prio \<noteq> OS_PRIO_MUTEX_CEIL_DIS \<and> prio \<ge> OS_LOWEST_PRIO
      then Some ((NULL, OS_ERR_PRIO_INVALID), s)
      else if OSIntNesting s > 0 then Some ((NULL, OS_ERR_CREATE_ISR), s)
      else do {
        old \<leftarrow> (if prio \<noteq> OS_PRIO_MUTEX_CEIL_DIS then prio_tbl s prio else Some NULL);
        if old \<noteq> NULL then Some ((NULL, OS_ERR_PRIO_EXIST), s)
        else do {
          s \<leftarrow> (if prio \<noteq> OS_PRIO_MUTEX_CEIL_DIS then set_prio_tbl prio OS_TCB_RESERVED s else Some s);
          let pevent = OSEventFreeList s;
          if pevent = NULL then do {
            s \<leftarrow> (if prio \<noteq> OS_PRIO_MUTEX_CEIL_DIS then set_prio_tbl prio NULL s else Some s);
            Some ((pevent, OS_ERR_PEVENT_NULL), s)
          } else do {
            (pevent, s) \<leftarrow> take_event s;
            s \<leftarrow> init_event pevent OS_EVENT_TYPE_MUTEX (push_bit 8 (ucast prio) OR 0x00FF) NULL s;
            Some ((pevent, OS_ERR_NONE), s)
          }
        }
      })"

text \<open>The running task's own priority, or an owner's, is restored: the task is made ready there.\<close>

definition OSMutex_RdyAtPrio :: "vptr \<Rightarrow> 8 word \<Rightarrow> kst \<Rightarrow> kst option" where
  "OSMutex_RdyAtPrio ptcb prio s = do {
     t \<leftarrow> tcb_at ptcb;
     let c = OSTCBTbl s t;
     s \<leftarrow> rdy_del (OSTCBY c) (OSTCBBitY c) (OSTCBBitX c) s;
     let s = upd_tcb t (\<lambda>c. c\<lparr>OSTCBPrio := prio\<rparr>) s;
     let s = s\<lparr>OSPrioCur := prio\<rparr>;
     let y = prio_y prio AND 0x07;
     let x = prio AND 0x07;
     let s = upd_tcb t (\<lambda>c. c\<lparr>OSTCBY := y, OSTCBX := x,
                              OSTCBBitY := bit_mask y, OSTCBBitX := bit_mask x\<rparr>) s;
     let c = OSTCBTbl s t;
     s \<leftarrow> rdy_add (OSTCBY c) (OSTCBBitY c) (OSTCBBitX c) s;
     set_prio_tbl prio ptcb s
   }"

text \<open>The end of \<open>OSMutexDel\<close>: the reserved priority and the control block are freed.\<close>

definition free_mutex :: "vptr \<Rightarrow> kst \<Rightarrow> kst option" where
  "free_mutex pevent s = do {
     e \<leftarrow> ev_at pevent;
     let pcp = mutex_pcp (ev_cnt s e);
     s \<leftarrow> (if pcp \<noteq> OS_PRIO_MUTEX_CEIL_DIS then set_prio_tbl pcp NULL s else Some s);
     free_event pevent s
   }"

definition OSMutexDel :: "vptr \<Rightarrow> 8 word \<Rightarrow> kst \<Rightarrow> ((vptr \<times> os_err) \<times> kst) option" where
  "OSMutexDel pevent opt s =
     (if pevent = NULL then Some ((pevent, OS_ERR_PEVENT_NULL), s)
      else do {
        e \<leftarrow> ev_at pevent;
        if ev_type s e \<noteq> OS_EVENT_TYPE_MUTEX then Some ((pevent, OS_ERR_EVENT_TYPE), s)
        else if OSIntNesting s > 0 then Some ((pevent, OS_ERR_DEL_ISR), s)
        else do {
          let tasks_waiting = (OSEventGrp (OSEventTbl_ecb s e) \<noteq> 0);
          if opt = OS_DEL_NO_PEND then
            if \<not> tasks_waiting then do {
              s \<leftarrow> free_mutex pevent s;
              Some ((NULL, OS_ERR_NONE), s)
            } else Some ((pevent, OS_ERR_TASK_WAITING), s)
          else if opt = OS_DEL_ALWAYS then do {
            let pcp = mutex_pcp (ev_cnt s e);
            s \<leftarrow> (if pcp \<noteq> OS_PRIO_MUTEX_CEIL_DIS \<and> ev_ptr s e \<noteq> NULL then do {
                    t \<leftarrow> tcb_at (ev_ptr s e);
                    if OSTCBPrio (OSTCBTbl s t) = pcp
                    then OSMutex_RdyAtPrio (ev_ptr s e) (mutex_low (ev_cnt s e)) s
                    else Some s
                  } else Some s);
            (_, s) \<leftarrow> OS_EventTaskRdy_all pevent NULL OS_STAT_MUTEX OS_STAT_PEND_ABORT 0 s;
            s \<leftarrow> free_mutex pevent s;
            s \<leftarrow> (if tasks_waiting then OS_Sched s else Some s);
            Some ((NULL, OS_ERR_NONE), s)
          } else Some ((pevent, OS_ERR_INVALID_OPT), s)
        }
      })"

text \<open>
  The middle of \<open>OSMutexPend\<close>: the owner is raised to the ceiling.  It is moved in the ready list when
  it is ready, else in the wait list of the event it waits for.
\<close>

definition mutex_raise :: "vptr \<Rightarrow> 8 word \<Rightarrow> kst \<Rightarrow> kst option" where
  "mutex_raise ptcb pcp s = do {
     t \<leftarrow> tcb_at ptcb;
     let c = OSTCBTbl s t;
     let y = OSTCBY c;
     if unat y \<ge> OS_RDY_TBL_SIZE then None
     else do {
       let pevent2 = OSTCBEventPtr c;
       let ready = (OSRdyTbl s (unat y) AND OSTCBBitX c \<noteq> 0);
       s \<leftarrow> (if ready then rdy_del y (OSTCBBitY c) (OSTCBBitX c) s
             else if pevent2 \<noteq> NULL then do {
               e2 \<leftarrow> ev_at pevent2;
               ev_del e2 y (OSTCBBitY c) (OSTCBBitX c) s
             } else Some s);
       let s = upd_tcb t (\<lambda>c. c\<lparr>OSTCBPrio := pcp, OSTCBY := prio_y pcp, OSTCBX := prio_x pcp,
         OSTCBBitY := bit_mask (prio_y pcp), OSTCBBitX := bit_mask (prio_x pcp)\<rparr>) s;
       let c = OSTCBTbl s t;
       s \<leftarrow> (if ready then rdy_add (OSTCBY c) (OSTCBBitY c) (OSTCBBitX c) s
             else if pevent2 \<noteq> NULL then do {
               e2 \<leftarrow> ev_at pevent2;
               ev_add e2 (OSTCBY c) (OSTCBBitY c) (OSTCBBitX c) s
             } else Some s);
       set_prio_tbl pcp ptcb s
     }
   }"

definition OSMutexPend :: "vptr \<Rightarrow> 32 word \<Rightarrow> kst \<Rightarrow> (os_err pend \<times> kst) option" where
  "OSMutexPend pevent timeout s =
     (if pevent = NULL then Some (Returned OS_ERR_PEVENT_NULL, s)
      else do {
        e \<leftarrow> ev_at pevent;
        if ev_type s e \<noteq> OS_EVENT_TYPE_MUTEX then Some (Returned OS_ERR_EVENT_TYPE, s)
        else if OSIntNesting s > 0 then Some (Returned OS_ERR_PEND_ISR, s)
        else if OSLockNesting s > 0 then Some (Returned OS_ERR_PEND_LOCKED, s)
        else if mutex_low (ev_cnt s e) = 0xFF then do {
          (err, s) \<leftarrow> mutex_take e s;
          Some (Returned err, s)
        }
        else do {
          let pcp = mutex_pcp (ev_cnt s e);
          s \<leftarrow> (if pcp \<noteq> OS_PRIO_MUTEX_CEIL_DIS then do {
                  let mprio = mutex_low (ev_cnt s e);
                  let ptcb = ev_ptr s e;
                  t \<leftarrow> tcb_at ptcb;
                  cur \<leftarrow> tcb_at (OSTCBCur s);
                  if OSTCBPrio (OSTCBTbl s t) > pcp \<and> mprio > OSTCBPrio (OSTCBTbl s cur)
                  then mutex_raise ptcb pcp s
                  else Some s
                } else Some s);
          s \<leftarrow> event_wait pevent OS_STAT_MUTEX timeout s;
          s \<leftarrow> OS_Sched s;
          Some (Waiting, s)
        }
      })"

text \<open>The rest of the call, from line 589, when the task is the running task again.\<close>

definition OSMutexPend_resume :: "vptr \<Rightarrow> kst \<Rightarrow> (os_err \<times> kst) option" where
  "OSMutexPend_resume pevent s = do {
     ((_, err), s) \<leftarrow> event_resume pevent s;
     Some (err, s)
   }"

definition OSMutexPost :: "vptr \<Rightarrow> kst \<Rightarrow> (os_err \<times> kst) option" where
  "OSMutexPost pevent s =
     (if OSIntNesting s > 0 then Some (OS_ERR_POST_ISR, s)
      else if pevent = NULL then Some (OS_ERR_PEVENT_NULL, s)
      else do {
        e \<leftarrow> ev_at pevent;
        if ev_type s e \<noteq> OS_EVENT_TYPE_MUTEX then Some (OS_ERR_EVENT_TYPE, s)
        else do {
          let pcp = mutex_pcp (ev_cnt s e);
          let prio = mutex_low (ev_cnt s e);
          if OSTCBCur s \<noteq> ev_ptr s e then Some (OS_ERR_NOT_MUTEX_OWNER, s)
          else do {
            s \<leftarrow> (if pcp \<noteq> OS_PRIO_MUTEX_CEIL_DIS then do {
                    t \<leftarrow> tcb_at (OSTCBCur s);
                    s \<leftarrow> (if OSTCBPrio (OSTCBTbl s t) = pcp
                          then OSMutex_RdyAtPrio (OSTCBCur s) prio s else Some s);
                    set_prio_tbl pcp OS_TCB_RESERVED s
                  } else Some s);
            if OSEventGrp (OSEventTbl_ecb s e) \<noteq> 0 then do {
              (prio, s) \<leftarrow> OS_EventTaskRdy pevent NULL OS_STAT_MUTEX OS_STAT_PEND_OK s;
              owner \<leftarrow> prio_tbl s prio;
              let s = mutex_own e prio owner s;
              s \<leftarrow> OS_Sched s;
              Some (if pcp \<noteq> OS_PRIO_MUTEX_CEIL_DIS \<and> prio \<le> pcp then OS_ERR_PCP_LOWER
                    else OS_ERR_NONE, s)
            } else Some (OS_ERR_NONE, upd_ev e (\<lambda>c. c\<lparr>OSEventCnt := OSEventCnt c OR 0x00FF,
                                                     OSEventPtr := NULL\<rparr>) s)
          }
        }
      })"

record os_mutex_data =
  mutex_data_Tbl :: "8 word list"
  mutex_data_Grp :: "8 word"
  OSValue :: bool
  OSOwnerPrio :: "8 word"
  OSMutexPCP :: "8 word"

definition OSMutexQuery :: "vptr \<Rightarrow> vptr \<Rightarrow> kst \<Rightarrow> (os_err \<times> os_mutex_data option) option" where
  "OSMutexQuery pevent p_mutex_data s =
     (if OSIntNesting s > 0 then Some (OS_ERR_QUERY_ISR, None)
      else if pevent = NULL then Some (OS_ERR_PEVENT_NULL, None)
      else if p_mutex_data = NULL then Some (OS_ERR_PDATA_NULL, None)
      else do {
        e \<leftarrow> ev_at pevent;
        let ev = OSEventTbl_ecb s e;
        if OSEventType ev \<noteq> OS_EVENT_TYPE_MUTEX then Some (OS_ERR_EVENT_TYPE, None)
        else Some (OS_ERR_NONE, Some \<lparr>mutex_data_Tbl = copy_tbl (OSEventTbl ev),
          mutex_data_Grp = OSEventGrp ev, OSValue = (mutex_low (OSEventCnt ev) = 0xFF),
          OSOwnerPrio = mutex_low (OSEventCnt ev), OSMutexPCP = mutex_pcp (OSEventCnt ev)\<rparr>)
      })"

section \<open>The two bytes of the count\<close>

lemma mutex_bits:
  "bit (0xFF00 :: 16 word) n \<longleftrightarrow> 8 \<le> n \<and> n < 16" "bit (0x00FF :: 16 word) n \<longleftrightarrow> n < 8"
    "bit (0xFF :: 8 word) n \<longleftrightarrow> n < 8"
proof -
  have 1: "(0xFF00 :: 16 word) = push_bit 8 (mask 8)" "(0x00FF :: 16 word) = mask 8" "(0xFF :: 8 word) = mask 8"
    by (simp_all add: mask_numeral push_bit_eq_mult)
  show "bit (0xFF00 :: 16 word) n \<longleftrightarrow> 8 \<le> n \<and> n < 16" "bit (0x00FF :: 16 word) n \<longleftrightarrow> n < 8"
    "bit (0xFF :: 8 word) n \<longleftrightarrow> n < 8"
    unfolding 1 by (auto simp only: bit_push_bit_iff bit_mask_iff possible_bit_word len_num1 len_bit0)
qed

lemma mutex_bytes:
  fixes c :: "16 word" and p :: "8 word"
  shows "mutex_pcp ((c AND 0xFF00) OR ucast p) = mutex_pcp c"
    and "mutex_low ((c AND 0xFF00) OR ucast p) = p"
    and "mutex_pcp (c OR 0x00FF) = mutex_pcp c" and "mutex_low (c OR 0x00FF) = 0xFF"
    and "mutex_pcp (push_bit 8 (ucast p)) = p"
  unfolding mutex_pcp_def mutex_low_def
  by - (rule bit_word_eqI, simp only: bit_and_iff bit_or_iff bit_push_bit_iff bit_drop_bit_eq comp_def
      bit_unsigned_iff possible_bit_word mutex_bits len_bit0 len_num1, use bit_word8_iff in fastforce)+

text \<open>Giving a mutex to a task that the table lists under \<open>prio\<close>, and making it available.\<close>

lemma mutex_own_sinv:
  assumes inv: "sinv s" and e: "e < OS_MAX_EVENTS" and k: "ev_type s e = OS_EVENT_TYPE_MUTEX"
    and t: "t < OS_N_TCBS" "unat prio < 64" "OSTCBPrioTbl s (unat prio) = TCBp t"
    and pcp: "mutex_pcp (ev_cnt s e) \<noteq> OS_PRIO_MUTEX_CEIL_DIS \<Longrightarrow>
      OSTCBPrioTbl s (unat (mutex_pcp (ev_cnt s e))) = OS_TCB_RESERVED"
  shows "sinv (mutex_own e prio (TCBp t) s)"
proof -
  let ?f = "\<lambda>c. c\<lparr>OSEventCnt := (OSEventCnt c AND 0xFF00) OR ucast prio, OSEventPtr := TCBp t\<rparr>"
  have m: "mutex_ok s e" using oinvD(4) [OF sinvD(4) [OF inv] e] k by (simp add: obj_ok_def)
  have "prio \<noteq> 0xFF" using t(2) by auto
  moreover have "prio \<noteq> mutex_pcp (ev_cnt s e)" using pcp t(3) \<open>prio \<noteq> 0xFF\<close> by auto
  moreover have "OSTCBPrioTbl (upd_ev e ?f s) = OSTCBPrioTbl s" by (simp add: upd_ev_def)
  ultimately have "obj_ok (upd_ev e ?f s) e"
    using m k t pcp by (simp add: obj_ok_def avail_def mutex_ok_def mutex_bytes Let_def)
  then show ?thesis
    unfolding mutex_own_def by (rule upd_ev_sinv [OF inv e, rotated -1]) (simp_all add: k mutex_bytes)
qed

lemma mutex_free_sinv:
  assumes inv: "sinv s" and e: "e < OS_MAX_EVENTS" and k: "ev_type s e = OS_EVENT_TYPE_MUTEX"
    and none: "waiters s e = {}"
    and pcp: "mutex_pcp (ev_cnt s e) \<noteq> OS_PRIO_MUTEX_CEIL_DIS \<Longrightarrow>
      OSTCBPrioTbl s (unat (mutex_pcp (ev_cnt s e))) = OS_TCB_RESERVED"
  shows "sinv (upd_ev e (\<lambda>c. c\<lparr>OSEventCnt := OSEventCnt c OR 0x00FF, OSEventPtr := NULL\<rparr>) s)"
proof (rule upd_ev_sinv [OF inv e])
  let ?f = "\<lambda>c. c\<lparr>OSEventCnt := OSEventCnt c OR 0x00FF, OSEventPtr := NULL\<rparr>"
  have m: "mutex_ok s e" using oinvD(4) [OF sinvD(4) [OF inv] e] k by (simp add: obj_ok_def)
  have "OSTCBPrioTbl (upd_ev e ?f s) = OSTCBPrioTbl s" by (simp add: upd_ev_def)
  then show "obj_ok (upd_ev e ?f s) e"
    using m k none pcp by (simp add: obj_ok_def mutex_ok_def mutex_bytes Let_def)
qed (simp_all add: k mutex_bytes)

section \<open>Restoring and raising a priority\<close>

lemma prio_y_and_7: "unat p < 64 \<Longrightarrow> prio_y p AND 7 = prio_y p"
proof -
  assume "unat p < 64"
  then have "unat (prio_x (prio_y p)) = unat (prio_y p)" by (simp add: unat_prio_x unat_prio_y)
  then show ?thesis by (simp add: prio_x_def word_unat_eq_iff)
qed

lemma ren_image_notin: "p \<notin> A \<Longrightarrow> ren p q ` A = A"
  and ren_image_in: "p \<in> A \<Longrightarrow> ren p q ` A = insert (unat q) (A - {p})"
  by (auto simp: ren_def image_iff)

lemma OSMutex_RdyAtPrio_ok:
  assumes inv: "kinv0 s" and own: "owns s t p" and q: "unat q < 64"
    and w: "\<And>e. e < OS_MAX_EVENTS \<Longrightarrow> p \<notin> waiters s e"
  shows "ok (OSMutex_RdyAtPrio (TCBp t) q s)
    (\<lambda>s'. moved t p q (insert p (rdy s)) s s' \<and> cur s' = (OSTCBCur s, q))"
proof -
  let ?c = "OSTCBTbl s t"
  let ?b = "bm_add q (bm_take_out (OSTCBPrio ?c) (rdy_bm s))"
  define s1 where "s1 = set_rdy_bm (bm_take_out (OSTCBPrio ?c) (rdy_bm s)) s"
  define s2 where "s2 = upd_tcb t (\<lambda>c. c\<lparr>OSTCBY := prio_y q, OSTCBX := prio_x q,
      OSTCBBitY := bit_mask (prio_y q), OSTCBBitX := bit_mask (prio_x q)\<rparr>)
      ((upd_tcb t (\<lambda>c. c\<lparr>OSTCBPrio := q\<rparr>) s1)\<lparr>OSPrioCur := q\<rparr>)"
  define s3 where "s3 = put_prio q (TCBp t) (set_rdy_bm ?b s2)"
  have c2: "OSTCBTbl s2 t = set_prio q ?c" and b2: "rdy_bm s2 = bm_take_out (OSTCBPrio ?c) (rdy_bm s)"
    by (simp_all add: s2_def s1_def set_prio_def rdy_bm_def set_rdy_bm_def upd_tcb_def)
  have add: "rdy_add (prio_y q) (bit_mask (prio_y q)) (bit_mask (prio_x q)) s2 = Some (set_rdy_bm ?b s2)"
    using rdy_add_own [OF set_prio_bits [OF q, of ?c], of s2] b2 by (simp add: set_prio_def)
  have run: "OSMutex_RdyAtPrio (TCBp t) q s = Some s3"
    using owns_index [OF own] rdy_del_own [OF owns_bits [OF own], of s] add set_prio_tbl_put [OF q] c2
      prio_y_and_7 [OF q]
    by (simp add: OSMutex_RdyAtPrio_def Let_def s1_def [symmetric] prio_x_def [symmetric] s2_def [symmetric]
        s3_def set_prio_def del: views_upd_tcb(8))
  have bok: "bm_ok ?b" "bm_members ?b = ren p q ` insert p (rdy s)"
    using inv q owns_bits [OF own] members_own(1) [OF own, of "rdy_bm s"]
    by (auto simp: kinv0_def bm.inv_add bm.inv_take_out bm.members_add tcb_bits_ok_def rdy_def ren_def)
  have same: "waiters s3 = waiters s" "ev_bm s3 = ev_bm s" "objs s3 = objs s" "ctl s3 = ctl s"
    "cur s3 = (OSTCBCur s, q)"
    "OSTCBTbl s3 = (OSTCBTbl s)(t := set_prio q ?c)"
    "OSTCBPrioTbl s3 = (OSTCBPrioTbl s)(unat q := TCBp t)" "rdy_bm s3 = ?b" "OSTCBList s3 = OSTCBList s"
    by (simp_all add: s3_def s2_def s1_def set_prio_def waiters_def kernel_defs objs_def ev_data_def
        stores_def clock_def ctl_def cur_def fun_eq_iff)
  have "rdy s3 = ren p q ` insert p (rdy s)" using bok same by (simp add: rdy_def)
  then show ?thesis
    using same bok w inv run by (simp add: moved_def ren_image_notin kinv0_def subset_insertI)
qed

text \<open>
  A task can be moved when the bitmaps have it in one place only: in the ready list, or in the wait
  list that its control block names.
\<close>

definition raisable :: "kst \<Rightarrow> nat \<Rightarrow> bool" where
  "raisable s t \<longleftrightarrow> (let c = OSTCBTbl s t; p = unat (OSTCBPrio c) in
     p \<noteq> 63
     \<and> (if p \<in> rdy s then \<forall>e<OS_MAX_EVENTS. p \<notin> waiters s e
        else (\<forall>e<OS_MAX_EVENTS. p \<in> waiters s e \<longleftrightarrow> OSTCBEventPtr c = EVp e)
          \<and> (OSTCBEventPtr c = NULL \<or> ev_at (OSTCBEventPtr c) \<noteq> None)))"

lemma mutex_raise_ok:
  assumes inv: "kinv0 s" and own: "owns s t p" and q: "unat q < 64" and r: "raisable s t"
  shows "ok (mutex_raise (TCBp t) q s) (\<lambda>s'. moved t p q (rdy s) s s' \<and> cur s' = cur s)"
proof -
  let ?c = "OSTCBTbl s t"
  let ?out = "bm_take_out (OSTCBPrio ?c)"
  let ?set = "\<lambda>c. c\<lparr>OSTCBPrio := q, OSTCBY := prio_y q, OSTCBX := prio_x q,
         OSTCBBitY := bit_mask (prio_y q), OSTCBBitX := bit_mask (prio_x q)\<rparr>"
  have p: "unat (OSTCBPrio ?c) = p" "unat (OSTCBPrio ?c) < 64" and bits: "tcb_bits_ok ?c"
    using owns_prio [OF own] owns_bits [OF own] by (simp_all add: tcb_bits_ok_def)
  have y: "unat (OSTCBY ?c) < 8" using bits by (simp add: tcb_bits_ok_def prio_y_less)
  have ready: "OSRdyTbl s (unat (OSTCBY ?c)) AND OSTCBBitX ?c \<noteq> 0 \<longleftrightarrow> p \<in> rdy s"
    using bm_test_iff [OF p(2), of "rdy_bm s"] bits p
    by (simp add: bm_test_def tcb_bits_ok_def rdy_def rdy_bm_def)
  have set: "?set = set_prio q" by (simp add: set_prio_def fun_eq_iff)
  have bok: "bm_ok (bm_add q (?out b))" "bm_members (bm_add q (?out b)) = ren p q ` bm_members b"
    if "bm_ok b" "p \<in> bm_members b" for b
    using that q p members_own(1) [OF own, of b]
    by (auto simp: bm.inv_add bm.inv_take_out bm.members_add ren_image_in)
  have kb: "bm_ok (rdy_bm s)" "\<And>e. e < OS_MAX_EVENTS \<Longrightarrow> bm_ok (ev_bm s e)"
    using inv by (simp_all add: kinv0_def)
  have P: "unat (OSTCBPrio ?c) = p" using p by simp
  have run: "mutex_raise (TCBp t) q s = do {
      s \<leftarrow> (if p \<in> rdy s then rdy_del (OSTCBY ?c) (OSTCBBitY ?c) (OSTCBBitX ?c) s
            else if OSTCBEventPtr ?c \<noteq> NULL then do {
              e2 \<leftarrow> ev_at (OSTCBEventPtr ?c); ev_del e2 (OSTCBY ?c) (OSTCBBitY ?c) (OSTCBBitX ?c) s
            } else Some s);
      let s1 = upd_tcb t (set_prio q) s;
      let c = OSTCBTbl s1 t;
      s2 \<leftarrow> (if p \<in> rdy s0 then rdy_add (OSTCBY c) (OSTCBBitY c) (OSTCBBitX c) s1
             else if OSTCBEventPtr ?c \<noteq> NULL then do {
               e2 \<leftarrow> ev_at (OSTCBEventPtr ?c); ev_add e2 (OSTCBY c) (OSTCBBitY c) (OSTCBBitX c) s1
             } else Some s1);
      set_prio_tbl q (TCBp t) s2 }" if "s0 = s" for s0
    using owns_index [OF own] y ready that unfolding mutex_raise_def Let_def set
    by (simp only: tcb_at.simps if_True bind.simps not_le) simp
  consider (ready) "p \<in> rdy s" | (none) "p \<notin> rdy s" "OSTCBEventPtr ?c = NULL"
    | (waits) e2 where "p \<notin> rdy s" "OSTCBEventPtr ?c = EVp e2" "e2 < OS_MAX_EVENTS"
    using r p by (auto simp: raisable_def Let_def split: if_splits)
  then show ?thesis
  proof cases
    case ready
    define s1 where "s1 = upd_tcb t (set_prio q) (set_rdy_bm (?out (rdy_bm s)) s)"
    define s3 where "s3 = put_prio q (TCBp t) (set_rdy_bm (bm_add q (?out (rdy_bm s))) s1)"
    have s1: "OSTCBTbl s1 t = set_prio q ?c" "rdy_bm s1 = ?out (rdy_bm s)" by (simp_all add: s1_def)
    have "rdy_add (prio_y q) (bit_mask (prio_y q)) (bit_mask (prio_x q)) s1
        = Some (set_rdy_bm (bm_add q (?out (rdy_bm s))) s1)"
      using rdy_add_own [OF set_prio_bits [OF q, of ?c], of s1] s1 by (simp add: set_prio_def)
    then have go: "mutex_raise (TCBp t) q s = Some s3"
      unfolding run [OF refl] using ready rdy_del_own [OF bits, of s] s1 set_prio_tbl_put [OF q]
      by (simp add: Let_def s1_def [symmetric] s3_def set_prio_def del: views_upd_tcb(8))
    have same: "waiters s3 = waiters s" "ev_bm s3 = ev_bm s" "objs s3 = objs s" "ctl s3 = ctl s"
      "cur s3 = cur s" "OSTCBTbl s3 = (OSTCBTbl s)(t := set_prio q ?c)"
      "OSTCBPrioTbl s3 = (OSTCBPrioTbl s)(unat q := TCBp t)" "rdy_bm s3 = bm_add q (?out (rdy_bm s))"
      "OSTCBList s3 = OSTCBList s"
      by (simp_all add: s3_def s1_def)
    have "rdy s3 = ren p q ` rdy s" using bok [OF kb(1)] ready same by (simp add: rdy_def)
    moreover have "ren p q ` waiters s e = waiters s e" if "e < OS_MAX_EVENTS" for e
      using r ready that P by (auto simp: raisable_def Let_def intro!: ren_image_notin)
    ultimately show ?thesis
      using same bok [OF kb(1)] kb ready go by (auto simp: moved_def rdy_def)
  next
    case none
    define s3 where "s3 = put_prio q (TCBp t) (upd_tcb t (set_prio q) s)"
    have go: "mutex_raise (TCBp t) q s = Some s3"
      unfolding run [OF refl] using none set_prio_tbl_put [OF q] by (simp add: Let_def s3_def)
    have same: "waiters s3 = waiters s" "ev_bm s3 = ev_bm s" "objs s3 = objs s" "ctl s3 = ctl s"
      "cur s3 = cur s" "OSTCBTbl s3 = (OSTCBTbl s)(t := set_prio q ?c)" "rdy s3 = rdy s"
      "OSTCBPrioTbl s3 = (OSTCBPrioTbl s)(unat q := TCBp t)" "rdy_bm s3 = rdy_bm s"
      "OSTCBList s3 = OSTCBList s"
      by (simp_all add: s3_def)
    have "p \<notin> waiters s e" if "e < OS_MAX_EVENTS" for e
      using r none that P by (auto simp: raisable_def Let_def)
    then show ?thesis
      using same kb none go by (auto simp: moved_def ren_image_notin)
  next
    case waits
    define s1 where "s1 = upd_tcb t (set_prio q) (set_ev_bm e2 (?out (ev_bm s e2)) s)"
    define s3 where "s3 = put_prio q (TCBp t) (set_ev_bm e2 (bm_add q (?out (ev_bm s e2))) s1)"
    have s1: "OSTCBTbl s1 t = set_prio q ?c" "ev_bm s1 e2 = ?out (ev_bm s e2)" by (simp_all add: s1_def)
    have "ev_add e2 (prio_y q) (bit_mask (prio_y q)) (bit_mask (prio_x q)) s1
        = Some (set_ev_bm e2 (bm_add q (?out (ev_bm s e2))) s1)"
      using ev_add_own [OF set_prio_bits [OF q, of ?c], of e2 s1] s1 by (simp add: set_prio_def)
    then have go: "mutex_raise (TCBp t) q s = Some s3"
      unfolding run [OF refl] using waits ev_del_own [OF bits, of e2 s] s1 set_prio_tbl_put [OF q]
      by (simp add: Let_def s1_def [symmetric] s3_def set_prio_def del: views_upd_tcb(8))
    have same: "waiters s3 = (waiters s)(e2 := bm_members (bm_add q (?out (ev_bm s e2))))"
      "ev_bm s3 = (ev_bm s)(e2 := bm_add q (?out (ev_bm s e2)))" "objs s3 = objs s" "ctl s3 = ctl s"
      "cur s3 = cur s" "OSTCBTbl s3 = (OSTCBTbl s)(t := set_prio q ?c)" "rdy s3 = rdy s"
      "OSTCBPrioTbl s3 = (OSTCBPrioTbl s)(unat q := TCBp t)" "rdy_bm s3 = rdy_bm s"
      "OSTCBList s3 = OSTCBList s"
      by (simp_all add: s3_def s1_def)
    have w: "p \<in> waiters s e \<longleftrightarrow> e = e2" if "e < OS_MAX_EVENTS" for e
      using r waits that P by (auto simp: raisable_def Let_def)
    have "ren p q ` waiters s e = waiters s3 e" if "e < OS_MAX_EVENTS" for e
      using w [OF that] w [OF waits(3)] bok [OF kb(2) [OF waits(3)]] that
      by (auto simp: same waiters_def ren_image_notin)
    moreover have "bm_ok (ev_bm s3 e)" if "e < OS_MAX_EVENTS" for e
      using w [OF waits(3)] bok [OF kb(2) [OF waits(3)]] kb that by (auto simp: same waiters_def)
    ultimately show ?thesis
      using same kb waits go by (auto simp: moved_def ren_image_notin)
  qed
qed

section \<open>Owners\<close>

lemma mutexD:
  assumes "sinv s" "e < OS_MAX_EVENTS" "ev_type s e = OS_EVENT_TYPE_MUTEX"
  shows "mutex_ok s e"
  using oinvD(4) [OF sinvD(4) [OF assms(1)] assms(2)] assms(3) by (simp add: obj_ok_def)

text \<open>A mutex is available, or it has an owner that the kernel knows.\<close>

lemma mutex_cases:
  assumes inv: "sinv s" and e: "e < OS_MAX_EVENTS" "ev_type s e = OS_EVENT_TYPE_MUTEX"
  obtains (free) "mutex_low (ev_cnt s e) = 0xFF" "ev_ptr s e = NULL" "waiters s e = {}"
      "mutex_pcp (ev_cnt s e) \<noteq> OS_PRIO_MUTEX_CEIL_DIS \<Longrightarrow>
        OSTCBPrioTbl s (unat (mutex_pcp (ev_cnt s e))) = OS_TCB_RESERVED"
  | (owned) t where "mutex_low (ev_cnt s e) \<noteq> 0xFF" "ev_ptr s e = TCBp t" "t < OS_N_TCBS"
      "unat (mutex_low (ev_cnt s e)) < 64" "OSTCBPrioTbl s (unat (mutex_low (ev_cnt s e))) = TCBp t"
      "owns s t (unat (OSTCBPrio (OSTCBTbl s t)))"
      "mutex_pcp (ev_cnt s e) \<noteq> OS_PRIO_MUTEX_CEIL_DIS \<Longrightarrow>
        unat (mutex_pcp (ev_cnt s e)) < 63 \<and> mutex_low (ev_cnt s e) \<noteq> mutex_pcp (ev_cnt s e)
        \<and> (OSTCBPrioTbl s (unat (mutex_pcp (ev_cnt s e))) = OS_TCB_RESERVED
           \<or> OSTCBPrioTbl s (unat (mutex_pcp (ev_cnt s e))) = TCBp t)"
proof (cases "ev_ptr s e")
  case (Addr a)
  then have "mutex_low (ev_cnt s e) = 0xFF" using mutexD [OF assms] by (simp add: mutex_ok_def Let_def)
  then have "waiters s e = {}"
    using e by (intro avail_waiters [OF sinvD(4) [OF inv]]) (simp_all add: avail_def)
  with Addr mutexD [OF assms] show thesis by (intro free) (simp_all add: mutex_ok_def Let_def)
next
  case (TCBp t)
  have m: "t < OS_N_TCBS" "unat (mutex_low (ev_cnt s e)) < 64"
    "OSTCBPrioTbl s (unat (mutex_low (ev_cnt s e))) = TCBp t"
    using TCBp mutexD [OF assms] by (simp_all add: mutex_ok_def Let_def)
  moreover have "entry_ok s (OSTCBPrioTbl s (unat (mutex_low (ev_cnt s e))))"
    using sinvD(2) [OF inv] m(2) by (simp add: kinv0_def)
  ultimately have "entry_ok s (TCBp t)" by simp
  then have "owns s t (unat (OSTCBPrio (OSTCBTbl s t)))" by (simp add: entry_ok_def)
  moreover have "mutex_low (ev_cnt s e) \<noteq> 0xFF" using m(2) by auto
  ultimately show thesis
    using TCBp m mutexD [OF assms] by (intro owned [of t]) (auto simp: mutex_ok_def Let_def)
qed (use mutexD [OF assms] in \<open>simp_all add: mutex_ok_def Let_def\<close>)

lemma cur_prio:
  assumes "sinv s"
  shows "OSTCBPrio (OSTCBTbl s (cur_ix s)) = OSPrioCur s" "unat (OSPrioCur s) < 64"
    "OSTCBPrioTbl s (unat (OSPrioCur s)) = OSTCBCur s"
  using sinv_cur [OF assms] owns_prio [OF sinv_cur(2) [OF assms]] owns_less_64 [OF sinv_cur(2) [OF assms]]
    owns_PrioTbl [OF sinv_cur(2) [OF assms]]
  by (simp_all add: word_unat_eq_iff)

text \<open>The ceiling of a mutex whose owner is not raised to it is nobody's priority.\<close>

lemma ceiling_free:
  assumes "OSTCBPrioTbl s (unat pcp) = OS_TCB_RESERVED
      \<or> OSTCBPrioTbl s (unat pcp) = TCBp t \<and> OSTCBPrio (OSTCBTbl s t) \<noteq> pcp"
  shows "\<not> owned s (unat pcp)"
  using assms by (auto simp: owned_def owns_def word_unat_eq_iff)

lemma owner_prios_cong:
  assumes "ev_data s' = ev_data s"
  shows "owner_prios s' = owner_prios s"
proof -
  have d: "ev_data s' e = ev_data s e" for e using assms by simp
  show ?thesis by (simp add: owner_prios_def ev_data_fields [OF d])
qed

section \<open>Taking a mutex\<close>

definition take_err :: "kst \<Rightarrow> nat \<Rightarrow> os_err" where
  "take_err s e = (if mutex_pcp (ev_cnt s e) \<noteq> OS_PRIO_MUTEX_CEIL_DIS \<and> OSPrioCur s \<le> mutex_pcp (ev_cnt s e)
     then OS_ERR_PCP_LOWER else OS_ERR_NONE)"

lemma mutex_take_ok:
  assumes inv: "sinv s" and e: "e < OS_MAX_EVENTS" "ev_type s e = OS_EVENT_TYPE_MUTEX"
    and free: "mutex_low (ev_cnt s e) = 0xFF"
  shows "ok (mutex_take e s) (\<lambda>(r, s'). kept s s' \<and> r = take_err s e
    \<and> s' = mutex_own e (OSPrioCur s) (OSTCBCur s) s)"
proof -
  note c = sinv_cur [OF inv] cur_prio [OF inv]
  have "sinv (mutex_own e (OSPrioCur s) (TCBp (cur_ix s)) s)"
    by (rule mutex_own_sinv [OF inv e]) (use c free in \<open>auto intro: mutex_cases [OF inv e]\<close>)
  moreover have "settled (mutex_own e (OSPrioCur s) (TCBp (cur_ix s)) s) = settled s"
    by (rule settled_cong) (simp_all add: mutex_own_def)
  ultimately show ?thesis
    using c by (simp add: mutex_take_def take_err_def Let_def) (simp add: mutex_own_def)
qed

lemma OSMutexAccept_mutex:
  assumes inv: "sinv s" and e: "e < OS_MAX_EVENTS" and k: "ev_type s e = OS_EVENT_TYPE_MUTEX"
  shows "ok (OSMutexAccept (EVp e) s) (\<lambda>(r, s'). kept s s'
    \<and> (if OSIntNesting s > 0 then r = (False, OS_ERR_PEND_ISR) \<and> s' = s
       else if mutex_low (ev_cnt s e) = 0xFF
       then r = (True, take_err s e) \<and> s' = mutex_own e (OSPrioCur s) (OSTCBCur s) s
       else r = (False, OS_ERR_NONE) \<and> s' = s))"
  using mutex_take_ok [OF inv e k] assms
  by (cases "mutex_low (ev_cnt s e) = 0xFF") (auto simp: OSMutexAccept_def ok_simps elim!: ok_mono)

section \<open>Waiting for a mutex\<close>

text \<open>A pend raises the owner when the caller is more urgent than the owner was and the ceiling is
  more urgent than the owner is.\<close>

definition raises :: "kst \<Rightarrow> nat \<Rightarrow> bool" where
  "raises s e \<longleftrightarrow> mutex_pcp (ev_cnt s e) \<noteq> OS_PRIO_MUTEX_CEIL_DIS \<and> (case ev_ptr s e of
     TCBp t \<Rightarrow> OSTCBPrio (OSTCBTbl s t) > mutex_pcp (ev_cnt s e) \<and> mutex_low (ev_cnt s e) > OSPrioCur s
   | _ \<Rightarrow> False)"

text \<open>
  The precondition of a pend that raises: the owner is not the caller (mutexes are not recursive) and
  can be moved.
\<close>

definition may_raise :: "vptr \<Rightarrow> kst \<Rightarrow> bool" where
  "may_raise p s \<longleftrightarrow> (\<forall>e<OS_MAX_EVENTS. \<forall>t<OS_N_TCBS. p = EVp e \<longrightarrow> ev_type s e = OS_EVENT_TYPE_MUTEX
     \<longrightarrow> ev_ptr s e = TCBp t \<longrightarrow> raises s e \<longrightarrow> OSTCBCur s \<noteq> TCBp t \<and> raisable s t)"

definition raised :: "nat \<Rightarrow> kst \<Rightarrow> kst \<Rightarrow> bool" where
  "raised e s s1 \<longleftrightarrow> (if raises s e
     then \<exists>t. ev_ptr s e = TCBp t
       \<and> moved t (unat (OSTCBPrio (OSTCBTbl s t))) (mutex_pcp (ev_cnt s e)) (rdy s) s s1 \<and> cur s1 = cur s
     else s1 = s)"

lemma mutex_raise_sinv:
  assumes inv: "sinv s" and e: "e < OS_MAX_EVENTS" and k: "ev_type s e = OS_EVENT_TYPE_MUTEX"
    and p: "ev_ptr s e = TCBp t" and r: "raises s e" and may: "OSTCBCur s \<noteq> TCBp t" "raisable s t"
  shows "ok (mutex_raise (TCBp t) (mutex_pcp (ev_cnt s e)) s) (\<lambda>s1. sinv s1 \<and> raised e s s1
    \<and> ev_data s1 = ev_data s \<and> cur s1 = cur s \<and> ctl s1 = ctl s)"
proof (rule mutex_cases [OF inv e k])
  fix u
  let ?pcp = "mutex_pcp (ev_cnt s e)"
  assume o: "ev_ptr s e = TCBp u" "owns s u (unat (OSTCBPrio (OSTCBTbl s u)))"
    "?pcp \<noteq> OS_PRIO_MUTEX_CEIL_DIS \<Longrightarrow> unat ?pcp < 63 \<and> mutex_low (ev_cnt s e) \<noteq> ?pcp
        \<and> (OSTCBPrioTbl s (unat ?pcp) = OS_TCB_RESERVED \<or> OSTCBPrioTbl s (unat ?pcp) = TCBp u)"
  have own: "owns s t (unat (OSTCBPrio (OSTCBTbl s t)))" using o p by simp
  have pcp: "?pcp \<noteq> OS_PRIO_MUTEX_CEIL_DIS" "unat ?pcp < 64" "\<not> owned s (unat ?pcp)"
    using r o p by (auto simp: raises_def intro!: ceiling_free [where t = t])
  have mm: "may_move t ?pcp s" using e k p pcp(1) by (auto simp: may_move_def)
  have idle: "unat (OSTCBPrio (OSTCBTbl s t)) \<noteq> 63" using may(2) by (simp add: raisable_def Let_def)
  show ?thesis
    by (rule ok_mono [OF mutex_raise_ok [OF sinvD(2) [OF inv] own pcp(2) may(2)]])
      (use moved_sinv [OF inv own idle pcp(2,3) mm] may(1) r p movedD in \<open>auto simp: raised_def\<close>)
qed (use p in simp)

lemma OSMutexPend_mutex:
  assumes inv: "sinv s" and e: "e < OS_MAX_EVENTS" and k: "ev_type s e = OS_EVENT_TYPE_MUTEX"
    and idle: "OSPrioCur s \<noteq> OS_TASK_IDLE_PRIO" and may: "may_raise (EVp e) s"
  shows "ok (OSMutexPend (EVp e) timeout s) (\<lambda>(r, s'). kept s s'
    \<and> (if OSIntNesting s > 0 then r = Returned OS_ERR_PEND_ISR \<and> s' = s
       else if OSLockNesting s > 0 then r = Returned OS_ERR_PEND_LOCKED \<and> s' = s
       else if mutex_low (ev_cnt s e) = 0xFF
       then r = Returned (take_err s e) \<and> s' = mutex_own e (OSPrioCur s) (OSTCBCur s) s
       else r = Waiting \<and> (\<exists>s1. raised e s s1 \<and> blocked e timeout s1 s')))"
proof -
  consider (busy) "OSIntNesting s > 0 \<or> OSLockNesting s > 0"
    | (take) "OSIntNesting s = 0" "OSLockNesting s = 0" "mutex_low (ev_cnt s e) = 0xFF"
    | (wait) "OSIntNesting s = 0" "OSLockNesting s = 0" "mutex_low (ev_cnt s e) \<noteq> 0xFF"
    by (cases "OSIntNesting s = 0"; cases "OSLockNesting s = 0") (auto simp: word_gt_0)
  then show ?thesis
  proof cases
    case busy
    with assms show ?thesis by (auto simp: OSMutexPend_def)
  next
    case take
    then show ?thesis
      using mutex_take_ok [OF inv e k take(3)] e k
      by (auto simp: OSMutexPend_def ok_simps elim!: ok_mono)
  next
    case wait
    obtain t where t: "ev_ptr s e = TCBp t" "t < OS_N_TCBS"
      using wait(3) by (auto intro: mutex_cases [OF inv e k])
    have run: "OSMutexPend (EVp e) timeout s = do {
        s1 \<leftarrow> (if raises s e then mutex_raise (TCBp t) (mutex_pcp (ev_cnt s e)) s else Some s);
        s' \<leftarrow> do { s2 \<leftarrow> event_wait (EVp e) OS_STAT_MUTEX timeout s1; OS_Sched s2 };
        Some (Waiting, s') }"
      using wait e k t sinv_cur [OF inv] cur_prio [OF inv] by (simp add: OSMutexPend_def raises_def Let_def)
    have r: "ok (if raises s e then mutex_raise (TCBp t) (mutex_pcp (ev_cnt s e)) s else Some s)
      (\<lambda>s1. sinv s1 \<and> raised e s s1 \<and> ev_data s1 = ev_data s \<and> cur s1 = cur s \<and> ctl s1 = ctl s)"
      using mutex_raise_sinv [OF inv e k t(1)] may e k t inv by (auto simp: may_raise_def raised_def)
    show ?thesis
      unfolding run
    proof (rule ok_bindI [OF r], elim conjE)
      fix s1
      assume 1: "sinv s1" "raised e s s1" "ev_data s1 = ev_data s" "cur s1 = cur s" "ctl s1 = ctl s"
      note f = ev_data_fields [OF fun_cong [OF 1(3)], of e]
      have "OSPrioCur s1 \<noteq> OS_TASK_IDLE_PRIO" "\<not> avail s1 e" "ev_type s1 e \<noteq> OS_EVENT_TYPE_UNUSED"
        "OSIntNesting s1 = 0" "OSLockNesting s1 = 0"
        using idle wait k 1 f by (simp_all add: avail_def cur_def ctl_def)
      from wait_and_sched [OF 1(1) this(1) e this(2-5)]
      show "ok (do { s' \<leftarrow> do { s2 \<leftarrow> event_wait (EVp e) OS_STAT_MUTEX timeout s1; OS_Sched s2 };
        Some (Waiting, s') }) (\<lambda>(r, s'). kept s s'
    \<and> (if OSIntNesting s > 0 then r = Returned OS_ERR_PEND_ISR \<and> s' = s
       else if OSLockNesting s > 0 then r = Returned OS_ERR_PEND_LOCKED \<and> s' = s
       else if mutex_low (ev_cnt s e) = 0xFF
       then r = Returned (take_err s e) \<and> s' = mutex_own e (OSPrioCur s) (OSTCBCur s) s
       else r = Waiting \<and> (\<exists>s1. raised e s s1 \<and> blocked e timeout s1 s')))"
        by (rule ok_bindI) (use wait 1 in auto)
    qed
  qed
qed

section \<open>Releasing a mutex\<close>

text \<open>
  The precondition of a release: the caller, if it is raised, is on no wait list, and no mutex was
  taken at the ceiling (mutexes are released in the reverse order in which they were taken).
\<close>

definition may_release :: "vptr \<Rightarrow> kst \<Rightarrow> bool" where
  "may_release p s \<longleftrightarrow> (\<forall>e<OS_MAX_EVENTS. p = EVp e \<longrightarrow> ev_type s e = OS_EVENT_TYPE_MUTEX
     \<longrightarrow> OSTCBCur s = ev_ptr s e \<longrightarrow> mutex_pcp (ev_cnt s e) \<noteq> OS_PRIO_MUTEX_CEIL_DIS
     \<longrightarrow> mutex_pcp (ev_cnt s e) \<notin> owner_prios s
       \<and> (\<forall>e'<OS_MAX_EVENTS. unat (mutex_pcp (ev_cnt s e)) \<notin> waiters s e'))"

text \<open>The running task runs at the ceiling of mutex \<open>e\<close>.\<close>

definition at_ceiling :: "kst \<Rightarrow> nat \<Rightarrow> bool" where
  "at_ceiling s e \<longleftrightarrow> mutex_pcp (ev_cnt s e) \<noteq> OS_PRIO_MUTEX_CEIL_DIS
     \<and> OSPrioCur s = mutex_pcp (ev_cnt s e)"

text \<open>The running task gave up the ceiling and has the priority back that it had.\<close>

definition restored :: "nat \<Rightarrow> kst \<Rightarrow> kst \<Rightarrow> bool" where
  "restored e s s1 \<longleftrightarrow> sinv s1 \<and> ev_data s1 = ev_data s \<and> ctl s1 = ctl s \<and> OSTCBCur s1 = OSTCBCur s
     \<and> (\<forall>e'<OS_MAX_EVENTS. waiters s1 e' = waiters s e')
     \<and> (mutex_pcp (ev_cnt s e) \<noteq> OS_PRIO_MUTEX_CEIL_DIS
          \<longrightarrow> OSTCBPrioTbl s1 (unat (mutex_pcp (ev_cnt s e))) = OS_TCB_RESERVED)
     \<and> (if at_ceiling s e
        then OSPrioCur s1 = mutex_low (ev_cnt s e)
          \<and> rdy s1 = insert (unat (mutex_low (ev_cnt s e))) (rdy s - {unat (mutex_pcp (ev_cnt s e))})
        else OSPrioCur s1 = OSPrioCur s \<and> rdy s1 = rdy s)"

text \<open>The ceiling of a mutex is reserved again.\<close>

lemma reserve_restored:
  assumes inv: "sinv s1" and data: "ev_data s1 = ev_data s" "ctl s1 = ctl s" "OSTCBCur s1 = OSTCBCur s"
    and w: "\<forall>e'<OS_MAX_EVENTS. waiters s1 e' = waiters s e'"
    and cur: "if at_ceiling s e
        then OSPrioCur s1 = mutex_low (ev_cnt s e)
          \<and> rdy s1 = insert (unat (mutex_low (ev_cnt s e))) (rdy s - {unat (mutex_pcp (ev_cnt s e))})
        else OSPrioCur s1 = OSPrioCur s \<and> rdy s1 = rdy s"
    and free: "\<not> owned s1 (unat (mutex_pcp (ev_cnt s e)))" "mutex_pcp (ev_cnt s e) \<notin> owner_prios s"
  shows "restored e s (put_prio (mutex_pcp (ev_cnt s e)) OS_TCB_RESERVED s1)"
proof -
  let ?p = "mutex_pcp (ev_cnt s e)"
  have "owner_prios s1 = owner_prios s" by (rule owner_prios_cong [OF data(1)])
  then have "sinv (put_prio ?p OS_TCB_RESERVED s1)"
    by (intro put_prio_sinv(1) [OF inv]) (use free in simp_all)
  moreover have "ev_data (put_prio ?p OS_TCB_RESERVED s1) = ev_data s1" by (simp add: ev_data_def fun_eq_iff)
  ultimately show ?thesis
    using assms by (simp add: restored_def)
qed

text \<open>The owner that runs at the ceiling gets its old priority back.\<close>

definition dropped :: "nat \<Rightarrow> kst \<Rightarrow> kst \<Rightarrow> bool" where
  "dropped e s s1 \<longleftrightarrow> sinv s1 \<and> ev_data s1 = ev_data s \<and> ctl s1 = ctl s \<and> OSTCBCur s1 = OSTCBCur s
     \<and> (\<forall>e'<OS_MAX_EVENTS. waiters s1 e' = waiters s e')
     \<and> OSPrioCur s1 = mutex_low (ev_cnt s e)
     \<and> rdy s1 = insert (unat (mutex_low (ev_cnt s e))) (rdy s - {unat (mutex_pcp (ev_cnt s e))})
     \<and> \<not> owned s1 (unat (mutex_pcp (ev_cnt s e)))
     \<and> (\<forall>q. owned s q \<longrightarrow> q \<noteq> unat (mutex_pcp (ev_cnt s e)) \<longrightarrow> task s1 q = task s q)"

lemma drop_ceiling_ok:
  assumes inv: "sinv s" and e: "e < OS_MAX_EVENTS" and k: "ev_type s e = OS_EVENT_TYPE_MUTEX"
    and own: "OSTCBCur s = ev_ptr s e" and at: "at_ceiling s e"
    and w: "\<forall>e'<OS_MAX_EVENTS. unat (mutex_pcp (ev_cnt s e)) \<notin> waiters s e'"
  shows "ok (OSMutex_RdyAtPrio (TCBp (cur_ix s)) (mutex_low (ev_cnt s e)) s) (dropped e s)"
proof -
  let ?t = "cur_ix s" and ?low = "mutex_low (ev_cnt s e)"
  define pcp where "pcp = mutex_pcp (ev_cnt s e)"
  note c = sinv_cur [OF inv] cur_prio [OF inv]
  have cp: "OSPrioCur s = pcp" "pcp \<noteq> OS_PRIO_MUTEX_CEIL_DIS" using at by (simp_all add: at_ceiling_def pcp_def)
  have o: "unat ?low < 64" "OSTCBPrioTbl s (unat ?low) = TCBp ?t" "?low \<noteq> pcp" "unat pcp < 63"
    "OSTCBPrioTbl s (unat pcp) = OS_TCB_RESERVED \<or> OSTCBPrioTbl s (unat pcp) = TCBp ?t"
    using own c cp by (auto simp: pcp_def intro: mutex_cases [OF inv e k])
  have own': "owns s ?t (unat pcp)" using c cp by simp
  have free: "\<not> owned s (unat ?low)"
    using o c cp by (auto simp: owned_def owns_def word_unat_eq_iff)
  show ?thesis
  proof (rule ok_mono [OF OSMutex_RdyAtPrio_ok [OF sinvD(2) [OF inv] own' o(1)]])
    show "unat pcp \<notin> waiters s e'" if "e' < OS_MAX_EVENTS" for e' using w that by (simp add: pcp_def)
  next
    fix s1
    assume 1: "moved ?t (unat pcp) ?low (insert (unat pcp) (rdy s)) s s1 \<and> cur s1 = (OSTCBCur s, ?low)"
    then have m: "moved ?t (unat pcp) ?low (insert (unat pcp) (rdy s)) s s1" and cur: "cur s1 = (TCBp ?t, ?low)"
      using c by simp_all
    have "sinv s1"
      by (rule moved_sinv [OF inv own' _ o(1) free _ m]) (use o cur in \<open>auto simp: may_move_def\<close>)
    moreover have "rdy s1 = insert (unat ?low) (rdy s - {unat pcp})"
      using m by (simp only: moved_def ren_image_in [OF insertI1]) simp
    moreover have "\<forall>e'<OS_MAX_EVENTS. waiters s1 e' = waiters s e'"
      using m w by (simp add: moved_def ren_image_notin pcp_def)
    moreover have "OSTCBPrioTbl s1 (unat pcp) = OSTCBPrioTbl s (unat pcp)"
      using movedD(9) [OF m] o(3) by (simp add: word_unat_eq_iff)
    then have "\<not> owned s1 (unat pcp)"
      using o(3,5) movedD(10) [OF m] by (intro ceiling_free [where t = ?t]) auto
    moreover have "task s1 q = task s q" if q: "owned s q" "q \<noteq> unat pcp" for q
    proof -
      from q(1) obtain u where u: "owns s u q" by (rule ownedE)
      then have "u \<noteq> ?t" using q(2) own' by (auto simp: owns_def)
      moreover have "q \<noteq> unat ?low" using free q(1) by auto
      ultimately show ?thesis
        using owns_PrioTbl [OF u] movedD(9) [OF m] movedD(11) [OF m, of u] by (simp add: task_def)
    qed
    ultimately show "dropped e s s1"
      using movedD [OF m] cur c(1) by (simp add: dropped_def cur_def pcp_def)
  qed
qed

lemma restore_ok:
  assumes inv: "sinv s" and e: "e < OS_MAX_EVENTS" and k: "ev_type s e = OS_EVENT_TYPE_MUTEX"
    and own: "OSTCBCur s = ev_ptr s e" and may: "may_release (EVp e) s"
  defines "pcp \<equiv> mutex_pcp (ev_cnt s e)"
  shows "ok (if pcp \<noteq> OS_PRIO_MUTEX_CEIL_DIS then do {
          t \<leftarrow> tcb_at (OSTCBCur s);
          s \<leftarrow> (if OSTCBPrio (OSTCBTbl s t) = pcp
                then OSMutex_RdyAtPrio (OSTCBCur s) (mutex_low (ev_cnt s e)) s else Some s);
          set_prio_tbl pcp OS_TCB_RESERVED s
        } else Some s) (restored e s)"
proof (cases "pcp = OS_PRIO_MUTEX_CEIL_DIS")
  case True
  then show ?thesis using inv by (simp add: restored_def at_ceiling_def pcp_def)
next
  case False
  note c = sinv_cur [OF inv] cur_prio [OF inv]
  have o: "unat pcp < 64"
    "OSTCBPrioTbl s (unat pcp) = OS_TCB_RESERVED \<or> OSTCBPrioTbl s (unat pcp) = TCBp (cur_ix s)"
    using own c False by (auto simp: pcp_def intro: mutex_cases [OF inv e k])
  have low: "pcp \<notin> owner_prios s" and w: "\<forall>e'<OS_MAX_EVENTS. unat pcp \<notin> waiters s e'"
    using may e k own False by (auto simp: may_release_def pcp_def)
  show ?thesis
  proof (cases "OSPrioCur s = pcp")
    case True
    have at: "at_ceiling s e" using True False by (simp add: at_ceiling_def pcp_def)
    have "ok (OSMutex_RdyAtPrio (TCBp (cur_ix s)) (mutex_low (ev_cnt s e)) s
        \<bind> set_prio_tbl pcp OS_TCB_RESERVED) (restored e s)"
    proof (rule ok_bindI [OF drop_ceiling_ok [OF inv e k own at w [unfolded pcp_def]]])
      fix s1
      assume "dropped e s s1"
      then have "restored e s (put_prio pcp OS_TCB_RESERVED s1)"
        unfolding pcp_def using at low
        by (intro reserve_restored) (simp_all add: dropped_def pcp_def)
      then show "ok (set_prio_tbl pcp OS_TCB_RESERVED s1) (restored e s)"
        using o(1) by (simp add: set_prio_tbl_put)
    qed
    then show ?thesis using False True c by simp
  next
    case f: False
    have "restored e s (put_prio pcp OS_TCB_RESERVED s)"
      unfolding pcp_def
      by (rule reserve_restored [OF inv])
        (use f o c low in \<open>auto simp: pcp_def at_ceiling_def intro!: ceiling_free [where t = "cur_ix s"]\<close>)
    then show ?thesis using False f c o(1) by (simp add: set_prio_tbl_put)
  qed
qed

text \<open>After a release the most urgent waiter owns the mutex, or the mutex is available.\<close>

definition handed_over :: "nat \<Rightarrow> kst \<Rightarrow> kst \<Rightarrow> bool" where
  "handed_over e s1 s' \<longleftrightarrow> (\<exists>t s2. owns s2 t (Min (waiters s1 e))
     \<and> readied e (Min (waiters s1 e)) NULL OS_STAT_MUTEX OS_STAT_PEND_OK s1 s2
     \<and> resched (mutex_own e (OSTCBPrio (OSTCBTbl s2 t)) (TCBp t) s2) s')"

lemma hand_over_ok:
  fixes pcp :: "8 word"
  assumes inv: "sinv s" and e: "e < OS_MAX_EVENTS" and k: "ev_type s e = OS_EVENT_TYPE_MUTEX"
    and some: "waiters s e \<noteq> {}"
    and pcp: "pcp = mutex_pcp (ev_cnt s e)"
      "pcp \<noteq> OS_PRIO_MUTEX_CEIL_DIS \<Longrightarrow> OSTCBPrioTbl s (unat pcp) = OS_TCB_RESERVED"
  shows "ok (do {
      (prio, s) \<leftarrow> OS_EventTaskRdy (EVp e) NULL OS_STAT_MUTEX OS_STAT_PEND_OK s;
      owner \<leftarrow> prio_tbl s prio;
      let s = mutex_own e prio owner s;
      s \<leftarrow> OS_Sched s;
      Some (if pcp \<noteq> OS_PRIO_MUTEX_CEIL_DIS \<and> prio \<le> pcp then OS_ERR_PCP_LOWER else OS_ERR_NONE, s)
    }) (\<lambda>(r, s'). sinv s' \<and> ctl s' = ctl s \<and> settled s' \<and> handed_over e s s'
      \<and> r = (if pcp \<noteq> OS_PRIO_MUTEX_CEIL_DIS \<and> Min (waiters s e) \<le> unat pcp
             then OS_ERR_PCP_LOWER else OS_ERR_NONE))"
proof (rule ok_bindI2 [OF OS_EventTaskRdy_readied [OF sinvD(2) [OF inv] e some]], elim conjE)
  fix prio :: "8 word" and s2
  assume prio: "unat prio = Min (waiters s e)"
    and r: "readied e (Min (waiters s e)) NULL OS_STAT_MUTEX OS_STAT_PEND_OK s s2"
  have inv2: "sinv s2" by (rule sinv_readied [OF inv r])
  have fr: "frames s s2" using r by (simp add: readied_def)
  then have d: "ev_data s2 = ev_data s" by (simp add: frames_def objs_def)
  note f = ev_data_fields [OF fun_cong [OF d], of e]
  have tbl: "OSTCBPrioTbl s2 = OSTCBPrioTbl s" using fr by (intro ids_PrioTbl) (simp add: frames_def)
  obtain t where "owns s t (Min (waiters s e))" using highest_waiter(2) [OF sinvD(2) [OF inv] e some] ..
  then have t: "owns s2 t (unat prio)" using owns_frames [OF fr] prio by simp
  then have w: "OSTCBPrio (OSTCBTbl s2 t) = prio" using owns_prio [OF t] by (simp add: word_unat_eq_iff)
  have inv3: "sinv (mutex_own e prio (TCBp t) s2)"
    by (rule mutex_own_sinv [OF inv2 e]) (use f k tbl pcp owns_index [OF t] owns_less_64 [OF t] owns_PrioTbl [OF t] in auto)
  have ctl: "ctl (mutex_own e prio (TCBp t) s2) = ctl s"
    using fr by (simp add: mutex_own_def frames_def)
  have "ok (OS_Sched (mutex_own e prio (TCBp t) s2))
    (\<lambda>s'. sinv s' \<and> ctl s' = ctl s \<and> settled s' \<and> handed_over e s s')"
    by (rule ok_mono [OF OS_Sched_sinv [OF inv3]]) (use t w r prio ctl in \<open>auto simp: handed_over_def\<close>)
  then show "ok (do { owner \<leftarrow> prio_tbl s2 prio;
      let s = mutex_own e prio owner s2;
      s \<leftarrow> OS_Sched s;
      Some (if pcp \<noteq> OS_PRIO_MUTEX_CEIL_DIS \<and> prio \<le> pcp then OS_ERR_PCP_LOWER else OS_ERR_NONE, s)
    }) (\<lambda>(r, s'). sinv s' \<and> ctl s' = ctl s \<and> settled s' \<and> handed_over e s s'
      \<and> r = (if pcp \<noteq> OS_PRIO_MUTEX_CEIL_DIS \<and> Min (waiters s e) \<le> unat pcp
             then OS_ERR_PCP_LOWER else OS_ERR_NONE))"
    using owns_less_64 [OF t] owns_PrioTbl [OF t] prio
    by (auto simp: prio_tbl_def ok_simps word_le_nat_alt elim!: ok_mono)
qed

lemma OSMutexPost_mutex:
  assumes inv: "sinv s" and e: "e < OS_MAX_EVENTS" and k: "ev_type s e = OS_EVENT_TYPE_MUTEX"
    and may: "may_release (EVp e) s"
  defines "pcp \<equiv> mutex_pcp (ev_cnt s e)"
  shows "ok (OSMutexPost (EVp e) s) (\<lambda>(r, s'). sinv s' \<and> ctl s' = ctl s
    \<and> (OSIntNesting s = 0 \<longrightarrow> OSTCBCur s = ev_ptr s e \<longrightarrow> waiters s e \<noteq> {} \<longrightarrow> settled s')
    \<and> (settled s \<longrightarrow> at_ceiling s e \<longrightarrow> waiters s e \<noteq> {} \<longrightarrow> settled s')
    \<and> (settled s \<longrightarrow> \<not> at_ceiling s e \<longrightarrow> settled s')
    \<and> (if OSIntNesting s > 0 then r = OS_ERR_POST_ISR \<and> s' = s
       else if OSTCBCur s \<noteq> ev_ptr s e then r = OS_ERR_NOT_MUTEX_OWNER \<and> s' = s
       else \<exists>s1. restored e s s1
         \<and> (if waiters s e \<noteq> {} then handed_over e s1 s'
              \<and> r = (if pcp \<noteq> OS_PRIO_MUTEX_CEIL_DIS \<and> Min (waiters s e) \<le> unat pcp
                     then OS_ERR_PCP_LOWER else OS_ERR_NONE)
            else r = OS_ERR_NONE
              \<and> s' = upd_ev e (\<lambda>c. c\<lparr>OSEventCnt := OSEventCnt c OR 0x00FF, OSEventPtr := NULL\<rparr>) s1)))"
proof (cases "OSIntNesting s > 0 \<or> OSTCBCur s \<noteq> ev_ptr s e")
  case True
  then show ?thesis using inv e k by (auto simp: OSMutexPost_def)
next
  case False
  then have free: "OSIntNesting s = 0" and own: "OSTCBCur s = ev_ptr s e" by (auto simp: word_gt_0)
  let ?give = "\<lambda>s. upd_ev e (\<lambda>c. c\<lparr>OSEventCnt := OSEventCnt c OR 0x00FF, OSEventPtr := NULL\<rparr>) s"
  have run: "OSMutexPost (EVp e) s = do {
      s1 \<leftarrow> (if pcp \<noteq> OS_PRIO_MUTEX_CEIL_DIS then do {
          t \<leftarrow> tcb_at (OSTCBCur s);
          s \<leftarrow> (if OSTCBPrio (OSTCBTbl s t) = pcp
                then OSMutex_RdyAtPrio (OSTCBCur s) (mutex_low (ev_cnt s e)) s else Some s);
          set_prio_tbl pcp OS_TCB_RESERVED s
        } else Some s);
      if OSEventGrp (OSEventTbl_ecb s1 e) \<noteq> 0 then do {
          (prio, s) \<leftarrow> OS_EventTaskRdy (EVp e) NULL OS_STAT_MUTEX OS_STAT_PEND_OK s1;
          owner \<leftarrow> prio_tbl s prio;
          let s = mutex_own e prio owner s;
          s \<leftarrow> OS_Sched s;
          Some (if pcp \<noteq> OS_PRIO_MUTEX_CEIL_DIS \<and> prio \<le> pcp then OS_ERR_PCP_LOWER else OS_ERR_NONE, s)
        }
      else Some (OS_ERR_NONE, ?give s1) }"
    unfolding OSMutexPost_def pcp_def Let_def using free own e k by simp
  show ?thesis
    unfolding run
  proof (rule ok_bindI [OF restore_ok [OF inv e k own may, folded pcp_def]])
    fix s1
    assume r: "restored e s s1"
    then have inv1: "sinv s1" and d: "ev_data s1 = ev_data s" and ctl: "ctl s1 = ctl s"
      and w: "waiters s1 e = waiters s e" using e by (simp_all add: restored_def)
    note f = ev_data_fields [OF fun_cong [OF d], of e]
    have k1: "ev_type s1 e = OS_EVENT_TYPE_MUTEX" and p1: "pcp = mutex_pcp (ev_cnt s1 e)"
      and res: "pcp \<noteq> OS_PRIO_MUTEX_CEIL_DIS \<Longrightarrow> OSTCBPrioTbl s1 (unat pcp) = OS_TCB_RESERVED"
      using f k r by (simp_all add: pcp_def restored_def)
    note grp = ev_grp_waiters [OF sinvD(2) [OF inv1] e]
    show "ok (if OSEventGrp (OSEventTbl_ecb s1 e) \<noteq> 0 then do {
          (prio, s) \<leftarrow> OS_EventTaskRdy (EVp e) NULL OS_STAT_MUTEX OS_STAT_PEND_OK s1;
          owner \<leftarrow> prio_tbl s prio;
          let s = mutex_own e prio owner s;
          s \<leftarrow> OS_Sched s;
          Some (if pcp \<noteq> OS_PRIO_MUTEX_CEIL_DIS \<and> prio \<le> pcp then OS_ERR_PCP_LOWER else OS_ERR_NONE, s)
        }
      else Some (OS_ERR_NONE, ?give s1)) (\<lambda>(r, s'). sinv s' \<and> ctl s' = ctl s
    \<and> (OSIntNesting s = 0 \<longrightarrow> OSTCBCur s = ev_ptr s e \<longrightarrow> waiters s e \<noteq> {} \<longrightarrow> settled s')
    \<and> (settled s \<longrightarrow> at_ceiling s e \<longrightarrow> waiters s e \<noteq> {} \<longrightarrow> settled s')
    \<and> (settled s \<longrightarrow> \<not> at_ceiling s e \<longrightarrow> settled s')
    \<and> (if OSIntNesting s > 0 then r = OS_ERR_POST_ISR \<and> s' = s
       else if OSTCBCur s \<noteq> ev_ptr s e then r = OS_ERR_NOT_MUTEX_OWNER \<and> s' = s
       else \<exists>s1. restored e s s1
         \<and> (if waiters s e \<noteq> {} then handed_over e s1 s'
              \<and> r = (if pcp \<noteq> OS_PRIO_MUTEX_CEIL_DIS \<and> Min (waiters s e) \<le> unat pcp
                     then OS_ERR_PCP_LOWER else OS_ERR_NONE)
            else r = OS_ERR_NONE \<and> s' = ?give s1)))"
    proof (cases "waiters s e = {}")
      case True
      have "sinv (?give s1)"
        by (rule mutex_free_sinv [OF inv1 e k1]) (use True w res p1 in simp_all)
      moreover have "settled (?give s1)" if "settled s" "\<not> at_ceiling s e"
        using that r ctl
        by - (rule settled_same [OF that(1)], simp_all add: restored_def cur_def, simp add: upd_ev_def)
      ultimately show ?thesis
        using True grp w ctl r free own by auto
    next
      case f: False
      have "waiters s1 e \<noteq> {}" using f w by simp
      from hand_over_ok [OF inv1 e k1 this p1 res] show ?thesis
        using f grp w ctl r free own by (auto elim!: ok_mono)
    qed
  qed
qed

section \<open>Creating a mutex\<close>

lemma init_mutex_ok:
  assumes inv: "sinv s" and prio: "prio = OS_PRIO_MUTEX_CEIL_DIS \<or> unat prio < 63"
    and res: "prio \<noteq> OS_PRIO_MUTEX_CEIL_DIS \<Longrightarrow> OSTCBPrioTbl s (unat prio) = OS_TCB_RESERVED"
    and new: "prio \<noteq> OS_PRIO_MUTEX_CEIL_DIS \<Longrightarrow> prio \<notin> ceilings s"
    and e: "e \<in> unused_events s"
    and es: "path EVp (ev_ptr s) (ev_ptr s e) es" "distinct es" "set es = unused_events s - {e}"
  shows "ok (init_event (EVp e) OS_EVENT_TYPE_MUTEX (push_bit 8 (ucast prio) OR 0x00FF) NULL
      (s\<lparr>OSEventFreeList := ev_ptr s e\<rparr>)) (\<lambda>s'. kept s s' \<and> ids s' = ids s \<and> cur s' = cur s \<and> rdy s' = rdy s
      \<and> waiters s' = waiters s
      \<and> ev_data s' = (ev_data s)(e := (OS_EVENT_TYPE_MUTEX, NULL, push_bit 8 (ucast prio) OR 0x00FF, unnamed)))"
proof (rule ok_mono [OF init_taken_ok [OF inv _ e es]], simp, elim conjE)
  fix s'
  let ?cnt = "push_bit 8 (ucast prio) OR 0x00FF :: 16 word"
  assume 1: "kinv s'" "ev_pool_ok s'" "ids s' = ids s" "stores s' = stores s" "clock s' = clock s"
    "ctl s' = ctl s" "cur s' = cur s" "rdy s' = rdy s" "waiters s' = waiters s" "OSTCBTbl s' = OSTCBTbl s"
    "OSEventFreeList s' = ev_ptr s e" "ev_data s' = (ev_data s)(e := (OS_EVENT_TYPE_MUTEX, NULL, ?cnt, unnamed))"
  note oi = sinvD(4) [OF inv]
  have e10: "e < OS_MAX_EVENTS" and un: "ev_type s e = OS_EVENT_TYPE_UNUSED"
    using e by (simp_all add: unused_events_def)
  have none: "waiters s e = {}" by (rule unused_waiters [OF oi e10 un])
  have k: "ev_type s' e = OS_EVENT_TYPE_MUTEX" "ev_ptr s' e = NULL" "ev_cnt s' e = ?cnt"
    using ev_data_at [of s' e OS_EVENT_TYPE_MUTEX NULL ?cnt unnamed] 1 by simp_all
  have other: "ev_data s' e' = ev_data s e'" if "e' \<noteq> e" for e' using 1 that by simp
  have tbl: "OSTCBPrioTbl s' = OSTCBPrioTbl s" using 1(3) by (rule ids_PrioTbl)
  have "pcps_differ s'"
    unfolding pcps_differ_def
  proof (intro allI impI)
    fix x y
    assume xy: "x < OS_MAX_EVENTS" "y < OS_MAX_EVENTS" "ev_type s' x = OS_EVENT_TYPE_MUTEX"
      "ev_type s' y = OS_EVENT_TYPE_MUTEX" "mutex_pcp (ev_cnt s' x) = mutex_pcp (ev_cnt s' y)"
      "mutex_pcp (ev_cnt s' x) \<noteq> OS_PRIO_MUTEX_CEIL_DIS"
    have old: "mutex_pcp (ev_cnt s' z) \<in> ceilings s" if "z \<noteq> e" "z < OS_MAX_EVENTS" "ev_type s' z = OS_EVENT_TYPE_MUTEX" for z
      using that ev_data_fields [OF other [OF that(1)]] by (auto simp: ceilings_def)
    show "x = y"
    proof (cases "x = e \<or> y = e")
      case True
      then show ?thesis using xy old [of x] old [of y] new k by (cases "x = y") (auto simp: mutex_bytes)
    next
      case False
      then have "x \<noteq> e" "y \<noteq> e" by auto
      then show ?thesis
        using xy oinvD(3) [OF oi] ev_data_fields [OF other [of x]] ev_data_fields [OF other [of y]]
        unfolding pcps_differ_def by metis
    qed
  qed
  moreover have "q_pool_ok s'"
    by (rule q_pool_same [OF oinvD(2) [OF oi] _ _ other 1(4)]) (use un k in simp_all)
  moreover have "obj_ok s' e"
    using k none res prio tbl 1(9) by (auto simp: obj_ok_def mutex_ok_def mutex_bytes Let_def)
  moreover have "OSQTbl s' i = OSQTbl s i" for i using 1(4) by (simp add: stores_def)
  ultimately have "oinv s'"
    by (intro oinv_build [OF oi e10 1(3) other 1(2)]) (use 1 in \<open>simp_all add: clock_def\<close>)
  then show "kept s s' \<and> ids s' = ids s \<and> cur s' = cur s \<and> rdy s' = rdy s \<and> waiters s' = waiters s
      \<and> ev_data s' = (ev_data s)(e := (OS_EVENT_TYPE_MUTEX, NULL, ?cnt, unnamed))"
    using 1 by (simp add: sinv_def settled_iff)
qed

definition mutex_created :: "8 word \<Rightarrow> kst \<Rightarrow> vptr \<times> os_err \<Rightarrow> kst \<Rightarrow> bool" where
  "mutex_created prio s r s' \<longleftrightarrow>
     (if unused_events s = {} then r = (NULL, OS_ERR_PEVENT_NULL) \<and> s' = s
      else \<exists>e\<in>unused_events s. r = (EVp e, OS_ERR_NONE)
        \<and> ev_data s' = (ev_data s)(e := (OS_EVENT_TYPE_MUTEX, NULL, push_bit 8 (ucast prio) OR 0x00FF, unnamed))
        \<and> (prio \<noteq> OS_PRIO_MUTEX_CEIL_DIS \<longrightarrow> OSTCBPrioTbl s' (unat prio) = OS_TCB_RESERVED)
        \<and> rdy s' = rdy s \<and> cur s' = cur s \<and> waiters s' = waiters s)"

lemma no_free_event:
  assumes "ev_pool_ok s"
  shows "OSEventFreeList s = NULL \<longleftrightarrow> unused_events s = {}"
proof -
  obtain es where "path EVp (ev_ptr s) (OSEventFreeList s) es" "set es = unused_events s"
    using assms by (auto simp: ev_pool_ok_def)
  then show ?thesis by (cases es) auto
qed

text \<open>A ceiling that is nobody's entry in the priority table is reserved.\<close>

lemma reserve_new_sinv:
  assumes inv: "sinv s" and p: "unat p < 63" "OSTCBPrioTbl s (unat p) = NULL"
  shows "sinv (put_prio p OS_TCB_RESERVED s)" "p \<notin> ceilings s"
proof -
  have "\<not> owned s (unat p)" using p by (simp add: owned_def)
  moreover have "p \<notin> owner_prios s"
    using p by (auto simp: owner_prios_def elim!: mutex_cases [OF inv])
  ultimately show "sinv (put_prio p OS_TCB_RESERVED s)" by (intro put_prio_sinv(1) [OF inv]) simp_all
  have ff: "p \<noteq> OS_PRIO_MUTEX_CEIL_DIS" using p(1) by auto
  show "p \<notin> ceilings s"
  proof
    assume "p \<in> ceilings s"
    then obtain e where e: "e < OS_MAX_EVENTS" "ev_type s e = OS_EVENT_TYPE_MUTEX" "p = mutex_pcp (ev_cnt s e)"
      by (auto simp: ceilings_def)
    show False
      by (rule mutex_cases [OF inv e(1,2)]) (use p e ff in auto)
  qed
qed

lemma create_mutex_ok:
  assumes inv: "sinv s" and prio: "prio = OS_PRIO_MUTEX_CEIL_DIS \<or> unat prio < 63"
    and res: "prio \<noteq> OS_PRIO_MUTEX_CEIL_DIS \<Longrightarrow> OSTCBPrioTbl s (unat prio) = OS_TCB_RESERVED"
    and new: "prio \<noteq> OS_PRIO_MUTEX_CEIL_DIS \<Longrightarrow> prio \<notin> ceilings s"
    and some: "OSEventFreeList s \<noteq> NULL"
  shows "ok (do {
      (pevent, s) \<leftarrow> take_event s;
      s \<leftarrow> init_event pevent OS_EVENT_TYPE_MUTEX (push_bit 8 (ucast prio) OR 0x00FF) NULL s;
      Some ((pevent, OS_ERR_NONE), s) }) (\<lambda>(r, s'). kept s s' \<and> mutex_created prio s r s')"
proof (rule ok_bindI2 [OF take_event_ok [OF oinvD(1) [OF sinvD(4) [OF inv]]]], elim disjE exE conjE, goal_cases)
  case (1 p s1)
  then show ?case using some no_free_event [OF oinvD(1) [OF sinvD(4) [OF inv]]] by simp
next
  case (2 p s1 e es)
  then show ?case
    using init_mutex_ok [OF inv prio res new 2(3,5-7)] res
    by (auto simp: ok_simps mutex_created_def dest: ids_PrioTbl elim!: ok_mono)
qed

lemma OSMutexCreate_ok:
  assumes inv: "sinv s"
  shows "ok (OSMutexCreate prio s) (\<lambda>(r, s'). kept s s'
    \<and> (if prio \<noteq> OS_PRIO_MUTEX_CEIL_DIS \<and> prio \<ge> OS_LOWEST_PRIO then r = (NULL, OS_ERR_PRIO_INVALID) \<and> s' = s
       else if OSIntNesting s > 0 then r = (NULL, OS_ERR_CREATE_ISR) \<and> s' = s
       else if prio \<noteq> OS_PRIO_MUTEX_CEIL_DIS \<and> OSTCBPrioTbl s (unat prio) \<noteq> NULL
       then r = (NULL, OS_ERR_PRIO_EXIST) \<and> s' = s
       else mutex_created prio s r s'))"
proof -
  note pool = no_free_event [OF oinvD(1) [OF sinvD(4) [OF inv]]]
  consider (refused) "prio \<noteq> OS_PRIO_MUTEX_CEIL_DIS \<and> prio \<ge> OS_LOWEST_PRIO \<or> OSIntNesting s > 0"
    | (exists) "prio \<noteq> OS_PRIO_MUTEX_CEIL_DIS" "prio < 63" "OSIntNesting s = 0" "OSTCBPrioTbl s (unat prio) \<noteq> NULL"
    | (none) "prio = OS_PRIO_MUTEX_CEIL_DIS" "OSIntNesting s = 0"
    | (ceiling) "prio \<noteq> OS_PRIO_MUTEX_CEIL_DIS" "prio < 63" "OSIntNesting s = 0" "OSTCBPrioTbl s (unat prio) = NULL"
    by (cases "OSIntNesting s = 0"; cases "prio < 63"; cases "prio = OS_PRIO_MUTEX_CEIL_DIS")
      (auto simp: word_gt_0 not_less)
  then show ?thesis
  proof cases
    case refused
    then show ?thesis using inv by (auto simp: OSMutexCreate_def)
  next
    case exists
    then have "unat prio < 64" by (simp add: word_less_nat_alt)
    with exists inv show ?thesis by (auto simp: OSMutexCreate_def prio_tbl_def)
  next
    case none
    then have run: "OSMutexCreate prio s = (if OSEventFreeList s = NULL then Some ((NULL, OS_ERR_PEVENT_NULL), s)
        else do {
          (pevent, s) \<leftarrow> take_event s;
          s \<leftarrow> init_event pevent OS_EVENT_TYPE_MUTEX (push_bit 8 (ucast prio) OR 0x00FF) NULL s;
          Some ((pevent, OS_ERR_NONE), s) })"
      unfolding OSMutexCreate_def Let_def by simp
    show ?thesis
      unfolding run using none pool inv create_mutex_ok [OF inv, of prio] by (simp add: mutex_created_def)
  next
    case ceiling
    have p: "unat prio < 63" "unat prio < 64" using ceiling(2) by (simp_all add: word_less_nat_alt)
    define s0 where "s0 = put_prio prio OS_TCB_RESERVED s"
    have inv0: "sinv s0" and new: "prio \<notin> ceilings s"
      using reserve_new_sinv [OF inv p(1) ceiling(4)] by (simp_all add: s0_def)
    have undo: "set_prio_tbl prio NULL s0 = Some s"
      using set_prio_tbl_put [OF p(2), of NULL s0] ceiling(4) by (simp add: s0_def fun_upd_idem)
    have same: "ev_data s0 = ev_data s" "OSEventFreeList s0 = OSEventFreeList s" "ctl s0 = ctl s" "cur s0 = cur s"
      "rdy s0 = rdy s" "waiters s0 = waiters s" "OSTCBPrioTbl s0 (unat prio) = OS_TCB_RESERVED"
      by (simp_all add: s0_def ev_data_def fun_eq_iff)
    have e: "unused_events s0 = unused_events s" "ceilings s0 = ceilings s"
      by (simp_all add: s0_def unused_events_def ceilings_def)
    have run: "OSMutexCreate prio s = (if OSEventFreeList s = NULL then Some ((NULL, OS_ERR_PEVENT_NULL), s)
        else do {
          (pevent, s) \<leftarrow> take_event s0;
          s \<leftarrow> init_event pevent OS_EVENT_TYPE_MUTEX (push_bit 8 (ucast prio) OR 0x00FF) NULL s;
          Some ((pevent, OS_ERR_NONE), s) })"
      unfolding OSMutexCreate_def Let_def
      using ceiling p set_prio_tbl_put [OF p(2), of OS_TCB_RESERVED s, folded s0_def] undo same(2)
      by (simp add: prio_tbl_def not_le [symmetric])
    show ?thesis
    proof (cases "OSEventFreeList s = NULL")
      case True
      then show ?thesis unfolding run using ceiling pool inv by (auto simp: mutex_created_def)
    next
      case False
      have m: "mutex_created prio s r s'" if "mutex_created prio s0 r s'" for r s'
        using that False pool same e by (auto simp: mutex_created_def)
      have "ok (do {
          (pevent, s) \<leftarrow> take_event s0;
          s \<leftarrow> init_event pevent OS_EVENT_TYPE_MUTEX (push_bit 8 (ucast prio) OR 0x00FF) NULL s;
          Some ((pevent, OS_ERR_NONE), s) }) (\<lambda>(r, s'). kept s0 s' \<and> mutex_created prio s0 r s')"
        by (rule create_mutex_ok [OF inv0]) (use p(1) same e new False in simp_all)
      then show ?thesis
        unfolding run using False ceiling m same settled_cong [of s0 s]
        by (auto simp: not_le [symmetric] elim!: ok_mono)
    qed
  qed
qed

section \<open>Deleting a mutex\<close>

lemma free_mutex_after:
  assumes "e < OS_MAX_EVENTS" "mutex_pcp (ev_cnt s e) \<noteq> OS_PRIO_MUTEX_CEIL_DIS \<Longrightarrow> unat (mutex_pcp (ev_cnt s e)) < 64"
  shows "free_mutex (EVp e) s = do {
      s1 \<leftarrow> free_event (EVp e) s;
      Some (if mutex_pcp (ev_cnt s e) \<noteq> OS_PRIO_MUTEX_CEIL_DIS
            then put_prio (mutex_pcp (ev_cnt s e)) NULL s1 else s1) }"
  using assms by (simp add: free_mutex_def free_event_def set_prio_tbl_put upd_ev_def Let_def)

definition mutex_freed :: "nat \<Rightarrow> kst \<Rightarrow> kst \<Rightarrow> bool" where
  "mutex_freed e s s' \<longleftrightarrow> sinv s' \<and> ctl s' = ctl s \<and> cur s' = cur s \<and> rdy s' = rdy s
     \<and> waiters s' = waiters s \<and> (\<forall>q. owned s q \<longrightarrow> task s' q = task s q)
     \<and> ev_type s' e = OS_EVENT_TYPE_UNUSED \<and> OSEventFreeList s' = EVp e
     \<and> (mutex_pcp (ev_cnt s e) \<noteq> OS_PRIO_MUTEX_CEIL_DIS \<longrightarrow>
          OSTCBPrioTbl s' (unat (mutex_pcp (ev_cnt s e))) = NULL)"

lemma free_mutex_ok:
  assumes inv: "sinv s" and e: "e < OS_MAX_EVENTS" and k: "ev_type s e = OS_EVENT_TYPE_MUTEX"
    and none: "waiters s e = {}"
    and free: "mutex_pcp (ev_cnt s e) \<noteq> OS_PRIO_MUTEX_CEIL_DIS \<Longrightarrow>
      \<not> owned s (unat (mutex_pcp (ev_cnt s e))) \<and> mutex_pcp (ev_cnt s e) \<notin> owner_prios s"
  shows "ok (free_mutex (EVp e) s) (mutex_freed e s)"
proof -
  define pcp where "pcp = mutex_pcp (ev_cnt s e)"
  have p: "pcp \<noteq> OS_PRIO_MUTEX_CEIL_DIS \<Longrightarrow> unat pcp < 64"
    using mutexD [OF inv e k] by (auto simp: pcp_def mutex_ok_def Let_def)
  have run: "free_mutex (EVp e) s = do {
      s1 \<leftarrow> free_event (EVp e) s;
      Some (if pcp \<noteq> OS_PRIO_MUTEX_CEIL_DIS then put_prio pcp NULL s1 else s1) }"
    unfolding pcp_def by (rule free_mutex_after [OF e]) (use p in \<open>simp add: pcp_def\<close>)
  show ?thesis
    unfolding run
  proof (rule ok_bindI [OF ok_conj [OF free_event_sinv [OF inv e none] free_event_ok [OF e]]],
      use k in simp, use k in simp, elim conjE)
    fix s1
    assume 1: "sinv s1" "ids s1 = ids s" "ctl s1 = ctl s" "cur s1 = cur s" "rdy s1 = rdy s"
      "waiters s1 = waiters s" "OSTCBTbl s1 = OSTCBTbl s" "OSEventFreeList s1 = EVp e"
      "ev_data s1 = (ev_data s)(e := (OS_EVENT_TYPE_UNUSED, OSEventFreeList s, 0, unnamed))"
    have un: "ev_type s1 e = OS_EVENT_TYPE_UNUSED" using ev_data_at(1) [of s1 e] 1(9) by simp
    have other: "ev_type s1 x = ev_type s x \<and> ev_ptr s1 x = ev_ptr s x \<and> ev_cnt s1 x = ev_cnt s x" if "x \<noteq> e" for x
      using that 1(9) ev_data_fields [of s1 x s] by simp
    have task: "task s1 = task s" by (rule task_cong [OF 1(2,7)])
    show "ok (Some (if pcp \<noteq> OS_PRIO_MUTEX_CEIL_DIS then put_prio pcp NULL s1 else s1)) (mutex_freed e s)"
    proof (cases "pcp = OS_PRIO_MUTEX_CEIL_DIS")
      case True
      then show ?thesis using 1 un task by (simp add: mutex_freed_def pcp_def)
    next
      case False
      have no: "\<not> owned s1 (unat pcp)" using free False owned_cong [OF 1(2)] by (simp add: pcp_def)
      moreover have "owner_prios s1 \<subseteq> owner_prios s"
      proof
        fix q
        assume "q \<in> owner_prios s1"
        then obtain x where x: "x < OS_MAX_EVENTS" "ev_type s1 x = OS_EVENT_TYPE_MUTEX" "ev_ptr s1 x \<noteq> NULL"
          "q = mutex_low (ev_cnt s1 x)" by (auto simp: owner_prios_def)
        then have "x \<noteq> e" using un by auto
        then show "q \<in> owner_prios s" using x other [of x] by (auto simp: owner_prios_def)
      qed
      then have "pcp \<notin> owner_prios s1" using free False by (auto simp: pcp_def)
      moreover have "pcp \<notin> ceilings s1"
      proof
        assume "pcp \<in> ceilings s1"
        then obtain x where x: "x < OS_MAX_EVENTS" "ev_type s1 x = OS_EVENT_TYPE_MUTEX" "mutex_pcp (ev_cnt s1 x) = pcp"
          by (auto simp: ceilings_def)
        then have "x \<noteq> e" using un by auto
        then show False
          using oinvD(3) [OF sinvD(4) [OF inv]] x e k other [of x] False unfolding pcps_differ_def pcp_def by metis
      qed
      ultimately have "sinv (put_prio pcp NULL s1)" by (intro put_prio_sinv(1) [OF 1(1)]) simp_all
      moreover have "task (put_prio pcp NULL s1) q = task s q" if "owned s q" for q
        using that no task owned_cong [OF 1(2)] by (metis task_put_prio)
      ultimately show ?thesis using 1 un False by (simp add: mutex_freed_def pcp_def)
    qed
  qed
qed

text \<open>
  The precondition of a delete that goes ahead: when the owner is raised, it deletes the mutex
  itself, with \<open>OS_DEL_ALWAYS\<close>, and is on no wait list; no mutex was taken at the ceiling.
\<close>

definition owner_raised :: "kst \<Rightarrow> nat \<Rightarrow> bool" where
  "owner_raised s e \<longleftrightarrow> mutex_pcp (ev_cnt s e) \<noteq> OS_PRIO_MUTEX_CEIL_DIS \<and> (case ev_ptr s e of
     TCBp t \<Rightarrow> OSTCBPrio (OSTCBTbl s t) = mutex_pcp (ev_cnt s e) | _ \<Rightarrow> False)"

definition may_delete :: "vptr \<Rightarrow> 8 word \<Rightarrow> kst \<Rightarrow> bool" where
  "may_delete p opt s \<longleftrightarrow> (\<forall>e<OS_MAX_EVENTS. p = EVp e \<longrightarrow> ev_type s e = OS_EVENT_TYPE_MUTEX
     \<longrightarrow> mutex_pcp (ev_cnt s e) \<noteq> OS_PRIO_MUTEX_CEIL_DIS
     \<longrightarrow> mutex_pcp (ev_cnt s e) \<notin> owner_prios s
       \<and> (owner_raised s e \<longrightarrow> OSTCBCur s = ev_ptr s e \<and> (opt = OS_DEL_NO_PEND \<longrightarrow> waiters s e \<noteq> {})
           \<and> (\<forall>e'<OS_MAX_EVENTS. unat (mutex_pcp (ev_cnt s e)) \<notin> waiters s e')))"

definition mutex_deleted :: "nat \<Rightarrow> kst \<Rightarrow> kst \<Rightarrow> bool" where
  "mutex_deleted e s s' \<longleftrightarrow> ev_type s' e = OS_EVENT_TYPE_UNUSED \<and> OSEventFreeList s' = EVp e
     \<and> waiters s' e = {}
     \<and> (mutex_pcp (ev_cnt s e) \<noteq> OS_PRIO_MUTEX_CEIL_DIS \<longrightarrow>
          OSTCBPrioTbl s' (unat (mutex_pcp (ev_cnt s e))) = NULL)
     \<and> (\<forall>p\<in>waiters s e. woken NULL OS_STAT_MUTEX OS_STAT_PEND_ABORT (task s p) (task s' p))"

text \<open>An owner that is not raised leaves the ceiling to nobody.\<close>

lemma not_raised_free:
  assumes inv: "sinv s" and e: "e < OS_MAX_EVENTS" and k: "ev_type s e = OS_EVENT_TYPE_MUTEX"
    and no: "\<not> owner_raised s e" and pcp: "mutex_pcp (ev_cnt s e) \<noteq> OS_PRIO_MUTEX_CEIL_DIS"
  shows "\<not> owned s (unat (mutex_pcp (ev_cnt s e)))"
proof (rule mutex_cases [OF inv e k])
  assume "mutex_pcp (ev_cnt s e) \<noteq> OS_PRIO_MUTEX_CEIL_DIS
    \<Longrightarrow> OSTCBPrioTbl s (unat (mutex_pcp (ev_cnt s e))) = OS_TCB_RESERVED"
  then show ?thesis using pcp by (simp add: owned_def)
next
  fix t
  assume "ev_ptr s e = TCBp t" "mutex_pcp (ev_cnt s e) \<noteq> OS_PRIO_MUTEX_CEIL_DIS \<Longrightarrow>
        unat (mutex_pcp (ev_cnt s e)) < 63 \<and> mutex_low (ev_cnt s e) \<noteq> mutex_pcp (ev_cnt s e)
        \<and> (OSTCBPrioTbl s (unat (mutex_pcp (ev_cnt s e))) = OS_TCB_RESERVED
           \<or> OSTCBPrioTbl s (unat (mutex_pcp (ev_cnt s e))) = TCBp t)"
  then show ?thesis using pcp no by (intro ceiling_free [where t = t]) (auto simp: owner_raised_def)
qed

lemma OS_Sched_if_ok:
  assumes inv: "sinv s"
  shows "ok (if b then OS_Sched s else Some s) (\<lambda>s'. sinv s' \<and> resched s s' \<and> (b \<longrightarrow> settled s')
    \<and> (\<not> b \<longrightarrow> s' = s))"
  using OS_Sched_sinv [OF inv] inv by (auto elim!: ok_mono)

text \<open>The end of a forced delete, when the owner has given up the ceiling.\<close>

lemma drain_and_free_ok:
  assumes inv: "sinv s" and e: "e < OS_MAX_EVENTS" and k: "ev_type s e = OS_EVENT_TYPE_MUTEX"
    and tw: "tw \<longleftrightarrow> waiters s e \<noteq> {}"
    and free: "mutex_pcp (ev_cnt s e) \<noteq> OS_PRIO_MUTEX_CEIL_DIS \<Longrightarrow>
      \<not> owned s (unat (mutex_pcp (ev_cnt s e))) \<and> mutex_pcp (ev_cnt s e) \<notin> owner_prios s"
  shows "ok (do { (_, s1) \<leftarrow> OS_EventTaskRdy_all (EVp e) NULL OS_STAT_MUTEX OS_STAT_PEND_ABORT 0 s;
                  s2 \<leftarrow> free_mutex (EVp e) s1;
                  if tw then OS_Sched s2 else Some s2 })
    (\<lambda>s'. sinv s' \<and> ctl s' = ctl s \<and> mutex_deleted e s s' \<and> (tw \<longrightarrow> settled s')
      \<and> (\<not> tw \<longrightarrow> cur s' = cur s \<and> rdy s' = rdy s))"
proof (rule ok_bindI2 [OF OS_EventTaskRdy_all_ok [OF sinvD(2) [OF inv] e]], elim conjE)
  fix n s1
  assume a: "all_readied e (waiters s e) NULL OS_STAT_MUTEX OS_STAT_PEND_ABORT s s1" and none: "waiters s1 e = {}"
  have fr: "frames s s1" using a by (simp add: all_readied_def)
  have inv1: "sinv s1" by (rule sinv_all_readied [OF inv a])
  have d: "ev_data s1 = ev_data s" using fr by (simp add: frames_def objs_def)
  note f = ev_data_fields [OF fun_cong [OF d], of e]
  have own: "owned s1 = owned s" by (rule owned_frames [OF fr])
  have k1: "ev_type s1 e = OS_EVENT_TYPE_MUTEX" using f k by simp
  have free1: "\<not> owned s1 (unat (mutex_pcp (ev_cnt s1 e))) \<and> mutex_pcp (ev_cnt s1 e) \<notin> owner_prios s1"
    if "mutex_pcp (ev_cnt s1 e) \<noteq> OS_PRIO_MUTEX_CEIL_DIS"
    using free that f own owner_prios_cong [OF d] by simp
  show "ok (do { s2 \<leftarrow> free_mutex (EVp e) s1; if tw then OS_Sched s2 else Some s2 })
    (\<lambda>s'. sinv s' \<and> ctl s' = ctl s \<and> mutex_deleted e s s' \<and> (tw \<longrightarrow> settled s')
      \<and> (\<not> tw \<longrightarrow> cur s' = cur s \<and> rdy s' = rdy s))"
  proof (rule ok_bindI [OF free_mutex_ok [OF inv1 e k1 none free1]])
    fix s2
    assume 2: "mutex_freed e s1 s2"
    then have inv2: "sinv s2" by (simp add: mutex_freed_def)
    show "ok (if tw then OS_Sched s2 else Some s2) (\<lambda>s'. sinv s' \<and> ctl s' = ctl s \<and> mutex_deleted e s s'
      \<and> (tw \<longrightarrow> settled s') \<and> (\<not> tw \<longrightarrow> cur s' = cur s \<and> rdy s' = rdy s))"
    proof (rule ok_mono [OF OS_Sched_if_ok [OF inv2]], elim conjE)
      fix s'
      assume 3: "sinv s'" "resched s2 s'" "tw \<longrightarrow> settled s'" "\<not> tw \<longrightarrow> s' = s2"
      have g: "ev_type s' e = ev_type s2 e" "OSEventFreeList s' = OSEventFreeList s2"
        "OSTCBPrioTbl s' = OSTCBPrioTbl s2"
        using reschedD(6) [OF 3(2)] ev_data_fields(1) [of s' e s2] ids_PrioTbl [OF reschedD(5) [OF 3(2)]]
        by (simp_all add: objs_def)
      have "woken NULL OS_STAT_MUTEX OS_STAT_PEND_ABORT (task s p) (task s' p)" if p: "p \<in> waiters s e" for p
      proof -
        have "owned s1 p" using kinv0_waiters [OF sinvD(2) [OF inv] e p] own by simp
        then have "task s2 p = task s1 p" using 2 by (simp add: mutex_freed_def)
        then show ?thesis using a p woken_resched [OF 3(2)] by (simp add: all_readied_def)
      qed
      then have "mutex_deleted e s s'"
        using 2 f g none reschedD(3) [OF 3(2)] by (simp add: mutex_deleted_def mutex_freed_def)
      then show "sinv s' \<and> ctl s' = ctl s \<and> mutex_deleted e s s' \<and> (tw \<longrightarrow> settled s')
        \<and> (\<not> tw \<longrightarrow> cur s' = cur s \<and> rdy s' = rdy s)"
        using 2 3 a tw fr reschedD(7) [OF 3(2)] by (auto simp: mutex_freed_def all_readied_def frames_def)
    qed
  qed
qed

lemma OSMutexDel_mutex:
  assumes inv: "sinv s" and e: "e < OS_MAX_EVENTS" and k: "ev_type s e = OS_EVENT_TYPE_MUTEX"
    and may: "may_delete (EVp e) opt s"
  shows "ok (OSMutexDel (EVp e) opt s) (\<lambda>(r, s'). sinv s' \<and> ctl s' = ctl s
    \<and> (settled s \<longrightarrow> \<not> (opt = OS_DEL_ALWAYS \<and> owner_raised s e \<and> waiters s e = {}) \<longrightarrow> settled s')
    \<and> (if OSIntNesting s > 0 then r = (EVp e, OS_ERR_DEL_ISR) \<and> s' = s
       else if opt = OS_DEL_NO_PEND \<and> waiters s e \<noteq> {} then r = (EVp e, OS_ERR_TASK_WAITING) \<and> s' = s
       else if opt = OS_DEL_NO_PEND \<or> opt = OS_DEL_ALWAYS then
         r = (NULL, OS_ERR_NONE) \<and> mutex_deleted e s s'
       else r = (EVp e, OS_ERR_INVALID_OPT) \<and> s' = s))"
proof -
  let ?pcp = "mutex_pcp (ev_cnt s e)"
  note grp = ev_grp_waiters [OF sinvD(2) [OF inv] e]
  have low: "?pcp \<noteq> OS_PRIO_MUTEX_CEIL_DIS \<Longrightarrow> ?pcp \<notin> owner_prios s"
    using may e k by (simp add: may_delete_def)
  have free: "\<not> owned s (unat ?pcp) \<and> ?pcp \<notin> owner_prios s"
    if "\<not> owner_raised s e" "?pcp \<noteq> OS_PRIO_MUTEX_CEIL_DIS"
    using not_raised_free [OF inv e k that] low that(2) by simp
  consider (isr) "OSIntNesting s > 0" | (always) "OSIntNesting s = 0" "opt = OS_DEL_ALWAYS"
    | (none) "OSIntNesting s = 0" "opt = OS_DEL_NO_PEND" "waiters s e = {}"
    | (other) "OSIntNesting s = 0" "opt \<noteq> OS_DEL_ALWAYS" "opt = OS_DEL_NO_PEND \<longrightarrow> waiters s e \<noteq> {}"
    by (cases "OSIntNesting s = 0"; cases "opt = OS_DEL_ALWAYS"; cases "opt = OS_DEL_NO_PEND";
        cases "waiters s e = {}") (simp_all add: word_gt_0)
  then show ?thesis
  proof cases
    case none
    then have nr: "\<not> owner_raised s e" using may e k by (auto simp: may_delete_def owner_raised_def)
    have run: "OSMutexDel (EVp e) opt s = do { s' \<leftarrow> free_mutex (EVp e) s; Some ((NULL, OS_ERR_NONE), s') }"
      using none e k grp by (simp add: OSMutexDel_def Let_def)
    show ?thesis
      unfolding run
      by (rule ok_bindI [OF free_mutex_ok [OF inv e k none(3) free [OF nr]]])
        (use none in \<open>auto simp: mutex_freed_def mutex_deleted_def settled_iff\<close>)
  next
    case always
    define drop where "drop = (if ?pcp \<noteq> OS_PRIO_MUTEX_CEIL_DIS \<and> ev_ptr s e \<noteq> NULL then do {
        t \<leftarrow> tcb_at (ev_ptr s e);
        if OSTCBPrio (OSTCBTbl s t) = ?pcp
        then OSMutex_RdyAtPrio (ev_ptr s e) (mutex_low (ev_cnt s e)) s else Some s
      } else Some s)"
    have run: "OSMutexDel (EVp e) opt s = do {
        s1 \<leftarrow> drop;
        s' \<leftarrow> do { (_, s1) \<leftarrow> OS_EventTaskRdy_all (EVp e) NULL OS_STAT_MUTEX OS_STAT_PEND_ABORT 0 s1;
                  s2 \<leftarrow> free_mutex (EVp e) s1;
                  if waiters s e \<noteq> {} then OS_Sched s2 else Some s2 };
        Some ((NULL, OS_ERR_NONE), s') }"
      using always e k grp by (simp add: OSMutexDel_def drop_def Let_def split_beta')
    have dr: "ok drop (\<lambda>s1. if owner_raised s e then dropped e s s1 \<and> ?pcp \<noteq> OS_PRIO_MUTEX_CEIL_DIS
        \<and> (\<forall>e'<OS_MAX_EVENTS. unat ?pcp \<notin> waiters s e') else s1 = s)"
    proof (cases "owner_raised s e")
      case True
      then have m: "OSTCBCur s = ev_ptr s e" "?pcp \<noteq> OS_PRIO_MUTEX_CEIL_DIS"
        "\<forall>e'<OS_MAX_EVENTS. unat ?pcp \<notin> waiters s e'"
        using may e k by (auto simp: may_delete_def owner_raised_def)
      note c = sinv_cur [OF inv] cur_prio [OF inv]
      have at: "at_ceiling s e" using True m c by (simp add: owner_raised_def at_ceiling_def split: vptr.splits)
      have "drop = OSMutex_RdyAtPrio (TCBp (cur_ix s)) (mutex_low (ev_cnt s e)) s"
        using True m c at by (simp add: drop_def at_ceiling_def flip: m(1))
      then show ?thesis using drop_ceiling_ok [OF inv e k m(1) at m(3)] True m by (auto elim!: ok_mono)
    next
      case False
      have "drop = Some s"
        unfolding drop_def using False by (auto simp: owner_raised_def intro: mutex_cases [OF inv e k])
      then show ?thesis using False by simp
    qed
    show ?thesis
      unfolding run
    proof (rule ok_bindI [OF dr])
      fix s1
      assume 1: "if owner_raised s e then dropped e s s1 \<and> ?pcp \<noteq> OS_PRIO_MUTEX_CEIL_DIS
        \<and> (\<forall>e'<OS_MAX_EVENTS. unat ?pcp \<notin> waiters s e') else s1 = s"
      have inv1: "sinv s1" and d: "ev_data s1 = ev_data s" and ctl: "ctl s1 = ctl s"
        and w: "waiters s1 e = waiters s e"
        using 1 inv e by (auto simp: dropped_def split: if_splits)
      note f = ev_data_fields [OF fun_cong [OF d], of e]
      have k1: "ev_type s1 e = OS_EVENT_TYPE_MUTEX" using f k by simp
      have tw: "waiters s e \<noteq> {} \<longleftrightarrow> waiters s1 e \<noteq> {}" using w by simp
      have free1: "\<not> owned s1 (unat (mutex_pcp (ev_cnt s1 e))) \<and> mutex_pcp (ev_cnt s1 e) \<notin> owner_prios s1"
        if "mutex_pcp (ev_cnt s1 e) \<noteq> OS_PRIO_MUTEX_CEIL_DIS"
        using 1 free low that f owner_prios_cong [OF d] by (auto simp: dropped_def split: if_splits)
      have "task s1 p = task s p" if p: "p \<in> waiters s e" for p
        using 1 p e kinv0_waiters [OF sinvD(2) [OF inv] e p] by (auto simp: dropped_def split: if_splits)
      then have del: "mutex_deleted e s1 s' \<Longrightarrow> mutex_deleted e s s'" for s'
        using f w by (simp add: mutex_deleted_def)
      show "ok (do { s' \<leftarrow> do { (_, s1) \<leftarrow> OS_EventTaskRdy_all (EVp e) NULL OS_STAT_MUTEX OS_STAT_PEND_ABORT 0 s1;
                  s2 \<leftarrow> free_mutex (EVp e) s1;
                  if waiters s e \<noteq> {} then OS_Sched s2 else Some s2 };
        Some ((NULL, OS_ERR_NONE), s') }) (\<lambda>(r, s'). sinv s' \<and> ctl s' = ctl s
    \<and> (settled s \<longrightarrow> \<not> (opt = OS_DEL_ALWAYS \<and> owner_raised s e \<and> waiters s e = {}) \<longrightarrow> settled s')
    \<and> (if OSIntNesting s > 0 then r = (EVp e, OS_ERR_DEL_ISR) \<and> s' = s
       else if opt = OS_DEL_NO_PEND \<and> waiters s e \<noteq> {} then r = (EVp e, OS_ERR_TASK_WAITING) \<and> s' = s
       else if opt = OS_DEL_NO_PEND \<or> opt = OS_DEL_ALWAYS then
         r = (NULL, OS_ERR_NONE) \<and> mutex_deleted e s s'
       else r = (EVp e, OS_ERR_INVALID_OPT) \<and> s' = s))"
        by (rule ok_bindI [OF drain_and_free_ok [OF inv1 e k1 tw free1]])
          (use always ctl del 1 in \<open>auto simp: settled_iff\<close>)
    qed
  qed (use inv grp e k in \<open>auto simp: OSMutexDel_def Let_def\<close>)
qed

section \<open>The contract\<close>

text \<open>
  The release and the delete also leave the processor to the most urgent task, except that lowering
  the caller's priority with nobody waiting is not followed by scheduling.
\<close>

definition keeps_cpu :: "vptr \<Rightarrow> kst \<Rightarrow> bool" where
  "keeps_cpu p s \<longleftrightarrow> (\<forall>e<OS_MAX_EVENTS. p = EVp e \<longrightarrow> ev_type s e = OS_EVENT_TYPE_MUTEX
     \<longrightarrow> waiters s e = {} \<longrightarrow> \<not> at_ceiling s e \<and> \<not> owner_raised s e)"

interpretation MutexAccept: sched_call "\<lambda>s. valid_ev pevent" "OSMutexAccept pevent" for pevent
  by (rule event_callI [where k = OS_EVENT_TYPE_MUTEX and run = OSMutexAccept], assumption,
      (auto simp: OSMutexAccept_def)[2], rule OSMutexAccept_mutex, assumption+)

interpretation MutexCreate: sched_call "\<lambda>s. True" "OSMutexCreate prio" for prio
  by (rule sched_callI) (auto intro: ok_mono2 [OF OSMutexCreate_ok])

interpretation MutexPend:
  sched_call "\<lambda>s. valid_ev pevent \<and> may_block s \<and> may_raise pevent s" "OSMutexPend pevent timeout"
  for pevent timeout
  by (rule event_callI [where k = OS_EVENT_TYPE_MUTEX and run = "\<lambda>p. OSMutexPend p timeout"], simp,
      simp add: OSMutexPend_def, simp add: OSMutexPend_def, rule OSMutexPend_mutex)
    (simp_all add: may_block_def)

interpretation MutexDel:
  sched_call "\<lambda>s. valid_ev pevent \<and> may_delete pevent opt s \<and> keeps_cpu pevent s" "OSMutexDel pevent opt"
  for pevent opt
proof (rule event_callI [where k = OS_EVENT_TYPE_MUTEX and run = "\<lambda>p. OSMutexDel p opt"
      and Q = "\<lambda>_ _ _ _. True"], goal_cases)
  case (4 s e)
  then have "may_delete (EVp e) opt s" "keeps_cpu (EVp e) s" by simp_all
  then show ?case
    using 4 by (intro ok_mono2 [OF OSMutexDel_mutex]) (auto simp: keeps_cpu_def)
qed (simp_all add: OSMutexDel_def)

interpretation MutexPost:
  sched_call "\<lambda>s. valid_ev pevent \<and> may_release pevent s \<and> keeps_cpu pevent s" "OSMutexPost pevent"
  for pevent
proof (rule event_callI [where k = OS_EVENT_TYPE_MUTEX and run = OSMutexPost
      and Q = "\<lambda>_ _ _ _. True"], goal_cases)
  case (4 s e)
  then have "may_release (EVp e) s" "keeps_cpu (EVp e) s" by simp_all
  then show ?case
    using 4 by (intro ok_mono2 [OF OSMutexPost_mutex]) (auto simp: keeps_cpu_def)
qed (auto simp: OSMutexPost_def)

lemma OSMutexPend_resume_ok:
  assumes "sinv s" "e < OS_MAX_EVENTS"
  shows "ok (OSMutexPend_resume (EVp e) s) (\<lambda>(r, s'). \<exists>m. resumed e s (m, r) s')"
  using event_resume_ok [OF assms] by (auto simp: OSMutexPend_resume_def ok_simps elim!: ok_mono)

interpretation MutexPend_resume: sched_call "\<lambda>s. ev_at pevent \<noteq> None" "OSMutexPend_resume pevent" for pevent
  by (rule sched_callI) (auto intro!: ok_mono2 [OF OSMutexPend_resume_ok] dest!: resumed_kept)

end
