(* ===== verification/Os_Demo_Runs.thy ===== *)
theory Os_Demo_Runs
  imports Os_Sem Os_Mutex
begin

text \<open>
  States that the kernel reaches from \<open>demo\<close> by calls: task 30 posts semaphore 0 and is preempted by
  task 10, which then waits for mutex 5, so that its owner, task 30, runs at the ceiling 5.  The
  facts about them are computed.
\<close>

section \<open>Computing with bitmaps\<close>

definition bm_list :: "bitmap \<Rightarrow> nat list" where
  "bm_list b = filter (\<lambda>p. bit (snd b (p div 8)) (p mod 8)) [0..<64]"

lemma bm_members_list: "bm_members b = set (bm_list b)"
  by (auto simp: bm_members_def bm_list_def)

lemma rdy_list: "rdy s = set (bm_list (rdy_bm s))"
  and waiters_list: "waiters s e = set (bm_list (ev_bm s e))"
  by (simp_all add: rdy_def waiters_def bm_members_list)

section \<open>Task 10 preempts task 30\<close>

definition demo_preempted :: kst where
  "demo_preempted = snd (the (OSSemPost (EVp 0) demo))"

lemma demo_preempted_run: "OSSemPost (EVp 0) demo = Some (OS_ERR_NONE, demo_preempted)"
proof -
  have "ok (OSSemPost (EVp 0) demo) (\<lambda>(r, s'). r = OS_ERR_NONE)" by code_simp
  then show ?thesis by (auto simp: ok_iff demo_preempted_def)
qed

lemma demo_preempted_inv: "sinv demo_preempted" "settled demo_preempted"
  using SemPost.keeps [OF demo_sinv _ demo_preempted_run]
    SemPost.keeps_settled [OF demo_sinv demo_settled _ demo_preempted_run]
  by (simp_all add: valid_ev_def)

lemma demo_preempted_lists:
  "bm_list (rdy_bm demo_preempted) = [10, 30, 63]"
  "map (\<lambda>e. bm_list (ev_bm demo_preempted e)) [0..<10] = [[], [], [], [20], [], [], [], [], [], []]"
  by code_simp+

lemma demo_preempted_fields:
  "OSIntNesting demo_preempted = 0" "OSLockNesting demo_preempted = 0" "OSPrioCur demo_preempted = 10"
  "OSTCBCur demo_preempted = TCBp 1"
  "ev_type demo_preempted 5 = OS_EVENT_TYPE_MUTEX" "ev_ptr demo_preempted 5 = TCBp 3"
  "ev_cnt demo_preempted 5 = 0x051E" "OSTCBPrio (OSTCBTbl demo_preempted 3) = 30"
  by code_simp+

lemma demo_preempted_sets:
  "rdy demo_preempted = {10, 30, 63}"
  "e < OS_MAX_EVENTS \<Longrightarrow> waiters demo_preempted e = (if e = 3 then {20} else {})"
proof -
  show "rdy demo_preempted = {10, 30, 63}" by (simp add: rdy_list demo_preempted_lists)
  assume "e < OS_MAX_EVENTS"
  then have "bm_list (ev_bm demo_preempted e)
      = map (\<lambda>e. bm_list (ev_bm demo_preempted e)) [0..<10] ! e" by simp
  also have "\<dots> = (if e = 3 then [20] else [])"
    unfolding demo_preempted_lists using \<open>e < OS_MAX_EVENTS\<close> by (auto simp: less_10_cases)
  finally show "waiters demo_preempted e = (if e = 3 then {20} else {})" by (simp add: waiters_list)
qed

lemma demo_preempted_may_raise: "may_raise (EVp 5) demo_preempted"
  by (auto simp: may_raise_def raisable_def Let_def demo_preempted_fields demo_preempted_sets)

section \<open>Task 30 runs at the ceiling\<close>

definition demo_raised :: kst where
  "demo_raised = snd (the (OSMutexPend (EVp 5) 1 demo_preempted))"

lemma demo_raised_run: "OSMutexPend (EVp 5) 1 demo_preempted = Some (Waiting, demo_raised)"
proof -
  have "ok (OSMutexPend (EVp 5) 1 demo_preempted) (\<lambda>(r, s'). r = Waiting)" by code_simp
  then show ?thesis by (auto simp: ok_iff demo_raised_def)
qed

lemma demo_raised_inv: "sinv demo_raised" "settled demo_raised"
proof -
  have pre: "valid_ev (EVp 5) \<and> may_block demo_preempted \<and> may_raise (EVp 5) demo_preempted"
    by (simp add: valid_ev_def may_block_def demo_preempted_fields demo_preempted_may_raise)
  show "sinv demo_raised" by (rule MutexPend.keeps [OF demo_preempted_inv(1) pre demo_raised_run])
  show "settled demo_raised" by (rule MutexPend.keeps_settled [OF demo_preempted_inv pre demo_raised_run])
qed

lemma demo_raised_lists:
  "bm_list (rdy_bm demo_raised) = [5, 63]"
  "map (\<lambda>e. bm_list (ev_bm demo_raised e)) [0..<10] = [[], [], [], [20], [], [10], [], [], [], []]"
  by code_simp+

lemma demo_raised_fields:
  "OSIntNesting demo_raised = 0" "OSLockNesting demo_raised = 0" "OSPrioCur demo_raised = 5"
  "OSTCBCur demo_raised = TCBp 3" "ev_type demo_raised 5 = OS_EVENT_TYPE_MUTEX"
  "ev_ptr demo_raised 5 = TCBp 3" "ev_cnt demo_raised 5 = 0x051E"
  "ev_type demo_raised 6 = OS_EVENT_TYPE_MUTEX" "ev_ptr demo_raised 6 = NULL"
  by code_simp+

lemma demo_raised_sets:
  "rdy demo_raised = {5, 63}"
  "e < OS_MAX_EVENTS \<Longrightarrow> waiters demo_raised e = (if e = 3 then {20} else if e = 5 then {10} else {})"
proof -
  show "rdy demo_raised = {5, 63}" by (simp add: rdy_list demo_raised_lists)
  assume "e < OS_MAX_EVENTS"
  then have "bm_list (ev_bm demo_raised e) = map (\<lambda>e. bm_list (ev_bm demo_raised e)) [0..<10] ! e" by simp
  also have "\<dots> = (if e = 3 then [20] else if e = 5 then [10] else [])"
    unfolding demo_raised_lists using \<open>e < OS_MAX_EVENTS\<close> by (auto simp: less_10_cases)
  finally show "waiters demo_raised e = (if e = 3 then {20} else if e = 5 then {10} else {})"
    by (simp add: waiters_list)
qed

lemma demo_raised_types:
  "map (ev_type demo_raised) [0..<10] = [OS_EVENT_TYPE_SEM, OS_EVENT_TYPE_SEM, OS_EVENT_TYPE_MBOX,
     OS_EVENT_TYPE_MBOX, OS_EVENT_TYPE_Q, OS_EVENT_TYPE_MUTEX, OS_EVENT_TYPE_MUTEX,
     OS_EVENT_TYPE_UNUSED, OS_EVENT_TYPE_UNUSED, OS_EVENT_TYPE_UNUSED]"
  by code_simp

lemma demo_raised_may_release: "may_release (EVp 5) demo_raised"
proof -
  have "owner_prios demo_raised \<subseteq> {30}"
  proof
    fix p
    assume "p \<in> owner_prios demo_raised"
    then obtain e where e: "e < 10" "ev_type demo_raised e = OS_EVENT_TYPE_MUTEX"
      "ev_ptr demo_raised e \<noteq> NULL" "p = mutex_low (ev_cnt demo_raised e)" by (auto simp: owner_prios_def)
    then have "ev_type demo_raised e = map (ev_type demo_raised) [0..<10] ! e" by simp
    then have "e = 5 \<or> e = 6" using e(1,2) unfolding demo_raised_types by (auto simp: less_10_cases)
    then show "p \<in> {30}" using e by (auto simp: demo_raised_fields mutex_low_def)
  qed
  then show ?thesis
    by (auto simp: may_release_def demo_raised_fields demo_raised_sets mutex_pcp_def)
qed

end
