(* ===== verification/Os_Time.thy ===== *)
theory Os_Time
  imports Os_Demo_Runs Os_Sched
begin

text \<open>
  Time (\<open>os_time.c\<close>, \<open>OSTimeTick\<close> of \<open>os_core.c\<close>, the tick hook of \<open>arch/os_cpu_c.c\<close> and the tick
  interrupt of \<open>arch/os_cpu_port.c\<close>): delays, timeouts and the clock.
\<close>

section \<open>The calls\<close>

definition OSTimeDly :: "32 word \<Rightarrow> kst \<Rightarrow> kst option" where
  "OSTimeDly ticks s =
     (if OSIntNesting s > 0 then Some s
      else if OSLockNesting s > 0 then Some s
      else if ticks > 0 then do {
        t \<leftarrow> tcb_at (OSTCBCur s);
        let c = OSTCBTbl s t;
        s \<leftarrow> rdy_del (OSTCBY c) (OSTCBBitY c) (OSTCBBitX c) s;
        let s = upd_tcb t (\<lambda>c. c\<lparr>OSTCBDly := ticks\<rparr>) s;
        OS_Sched s
      } else Some s)"

text \<open>The expression of the delay in ticks; \<open>unsigned long\<close> has 64 bits.\<close>

definition hmsm_ticks :: "8 word \<Rightarrow> 8 word \<Rightarrow> 8 word \<Rightarrow> 16 word \<Rightarrow> 32 word" where
  "hmsm_ticks hours minutes seconds ms = ucast
     ((ucast hours * 3600 + ucast minutes * 60 + ucast seconds) * ucast OS_TICKS_PER_SEC
      + ucast OS_TICKS_PER_SEC * (ucast ms + 500 div ucast OS_TICKS_PER_SEC) div 1000 :: 64 word)"

definition OSTimeDlyHMSM ::
    "8 word \<Rightarrow> 8 word \<Rightarrow> 8 word \<Rightarrow> 16 word \<Rightarrow> kst \<Rightarrow> (os_err \<times> kst) option" where
  "OSTimeDlyHMSM hours minutes seconds ms s =
     (if OSIntNesting s > 0 then Some (OS_ERR_TIME_DLY_ISR, s)
      else if OSLockNesting s > 0 then Some (OS_ERR_SCHED_LOCKED, s)
      else if hours = 0 \<and> minutes = 0 \<and> seconds = 0 \<and> ms = 0 then Some (OS_ERR_TIME_ZERO_DLY, s)
      else if minutes > 59 then Some (OS_ERR_TIME_INVALID_MINUTES, s)
      else if seconds > 59 then Some (OS_ERR_TIME_INVALID_SECONDS, s)
      else if ms > 999 then Some (OS_ERR_TIME_INVALID_MS, s)
      else do {
        s \<leftarrow> OSTimeDly (hmsm_ticks hours minutes seconds ms) s;
        Some (OS_ERR_NONE, s)
      })"

text \<open>
  The end of a delay, the same text in \<open>OSTimeDlyResume\<close> and \<open>OSTimeTick\<close>: a task that waited for an
  event has timed out; the task is ready unless it is suspended.
\<close>

definition delay_end :: "nat \<Rightarrow> kst \<Rightarrow> kst option" where
  "delay_end t s = do {
     let s = upd_tcb t (\<lambda>c.
       if OSTCBStat c AND OS_STAT_PEND_ANY \<noteq> OS_STAT_RDY
       then c\<lparr>OSTCBStat := OSTCBStat c AND NOT OS_STAT_PEND_ANY, OSTCBStatPend := OS_STAT_PEND_TO\<rparr>
       else c\<lparr>OSTCBStatPend := OS_STAT_PEND_OK\<rparr>) s;
     let c = OSTCBTbl s t;
     if OSTCBStat c AND OS_STAT_SUSPEND = OS_STAT_RDY
     then rdy_add (OSTCBY c) (OSTCBBitY c) (OSTCBBitX c) s
     else Some s
   }"

definition OSTimeDlyResume :: "8 word \<Rightarrow> kst \<Rightarrow> (os_err \<times> kst) option" where
  "OSTimeDlyResume prio s =
     (if prio \<ge> OS_LOWEST_PRIO then Some (OS_ERR_PRIO_INVALID, s)
      else do {
        ptcb \<leftarrow> prio_tbl s prio;
        if ptcb = NULL then Some (OS_ERR_TASK_NOT_EXIST, s)
        else if ptcb = OS_TCB_RESERVED then Some (OS_ERR_TASK_NOT_EXIST, s)
        else do {
          t \<leftarrow> tcb_at ptcb;
          if OSTCBDly (OSTCBTbl s t) = 0 then Some (OS_ERR_TIME_NOT_DLY, s)
          else do {
            s \<leftarrow> delay_end t (upd_tcb t (\<lambda>c. c\<lparr>OSTCBDly := 0\<rparr>) s);
            s \<leftarrow> (if OSTCBStat (OSTCBTbl s t) AND OS_STAT_SUSPEND = OS_STAT_RDY
                  then OS_Sched s else Some s);
            Some (OS_ERR_NONE, s)
          }
        }
      })"

definition OSTimeGet :: "kst \<Rightarrow> 32 word" where
  "OSTimeGet s = OSTime s"

definition OSTimeSet :: "32 word \<Rightarrow> kst \<Rightarrow> kst" where
  "OSTimeSet ticks s = s\<lparr>OSTime := ticks\<rparr>"

section \<open>The tick\<close>

definition OSTmrSignal :: "kst \<Rightarrow> (os_err \<times> kst) option" where
  "OSTmrSignal s = OSSemPost (OSTmrSemSignal s) s"

definition OSTimeTickHook :: "kst \<Rightarrow> kst option" where
  "OSTimeTickHook s = do {
     let s = s\<lparr>OSTmrCtr := OSTmrCtr s + 1\<rparr>;
     if ucast (OSTmrCtr s) \<ge> OS_TICKS_PER_SEC div OS_TMR_CFG_TICKS_PER_SEC then do {
       let s = s\<lparr>OSTmrCtr := 0\<rparr>;
       (_, s) \<leftarrow> OSTmrSignal s;
       Some s
     } else Some s
   }"

text \<open>
  The loop over the task list, which ends at the idle task; that it ends is \<open>tick_loop_ok\<close>.
\<close>

partial_function (option) tick_loop :: "vptr \<Rightarrow> kst \<Rightarrow> kst option" where
  "tick_loop ptcb s = do {
     t \<leftarrow> tcb_at ptcb;
     if OSTCBPrio (OSTCBTbl s t) \<noteq> OS_TASK_IDLE_PRIO then do {
       s \<leftarrow> (if OSTCBDly (OSTCBTbl s t) \<noteq> 0 then do {
               let s = upd_tcb t (\<lambda>c. c\<lparr>OSTCBDly := OSTCBDly c - 1\<rparr>) s;
               if OSTCBDly (OSTCBTbl s t) = 0 then delay_end t s else Some s
             } else Some s);
       tick_loop (OSTCBNext (OSTCBTbl s t)) s
     } else Some s
   }"

definition OSTimeTick :: "kst \<Rightarrow> kst option" where
  "OSTimeTick s = do {
     s \<leftarrow> OSTimeTickHook s;
     let s = s\<lparr>OSTime := OSTime s + 1\<rparr>;
     if OSRunning s then do {
       let (step, s) =
         (if OSTickStepState s = OS_TICK_STEP_DIS then (True, s)
          else if OSTickStepState s = OS_TICK_STEP_WAIT then (False, s)
          else if OSTickStepState s = OS_TICK_STEP_ONCE then (True, s\<lparr>OSTickStepState := OS_TICK_STEP_WAIT\<rparr>)
          else (True, s\<lparr>OSTickStepState := OS_TICK_STEP_DIS\<rparr>));
       if \<not> step then Some s
       else tick_loop (OSTCBList s) s
     } else Some s
   }"

text \<open>The tick interrupt; reloading the hardware timer is not part of the state.\<close>

definition xPortSysTickHandler :: "kst \<Rightarrow> kst option" where
  "xPortSysTickHandler s = do {
     let s = OSIntEnter s;
     s \<leftarrow> OSTimeTick s;
     OSIntExit s
   }"

section \<open>The effect of a tick on one task\<close>

definition time_out :: "os_tcb \<Rightarrow> os_tcb" where
  "time_out c = (if OSTCBStat c AND OS_STAT_PEND_ANY \<noteq> OS_STAT_RDY
     then c\<lparr>OSTCBStat := OSTCBStat c AND NOT OS_STAT_PEND_ANY, OSTCBStatPend := OS_STAT_PEND_TO\<rparr>
     else c\<lparr>OSTCBStatPend := OS_STAT_PEND_OK\<rparr>)"

definition tick_tcb :: "os_tcb \<Rightarrow> os_tcb" where
  "tick_tcb c = (if OSTCBDly c = 0 then c
     else if OSTCBDly c = 1 then time_out (c\<lparr>OSTCBDly := 0\<rparr>)
     else c\<lparr>OSTCBDly := OSTCBDly c - 1\<rparr>)"

lemma delay_end_ok:
  assumes inv: "kinv0 s" and own: "owns s t p"
  shows "ok (delay_end t s) (\<lambda>s'. kinv0 s' \<and> frames s s' \<and> cur s' = cur s \<and> waiters s' = waiters s
    \<and> OSTCBList s' = OSTCBList s
    \<and> rdy s' = (if suspended (time_out (OSTCBTbl s t)) then rdy s else insert p (rdy s))
    \<and> OSTCBTbl s' = (OSTCBTbl s)(t := time_out (OSTCBTbl s t)))"
proof -
  define s1 where "s1 = upd_tcb t time_out s"
  have fields: "OSTCBPrio (time_out c) = OSTCBPrio c" "OSTCBX (time_out c) = OSTCBX c"
    "OSTCBY (time_out c) = OSTCBY c" "OSTCBBitX (time_out c) = OSTCBBitX c"
    "OSTCBBitY (time_out c) = OSTCBBitY c" "OSTCBNext (time_out c) = OSTCBNext c"
    "OSTCBPrev (time_out c) = OSTCBPrev c" "OSTCBEventMultiPtr (time_out c) = OSTCBEventMultiPtr c" for c
    by (simp_all add: time_out_def)
  have inv1: "kinv0 s1" by (rule kinv0_same [OF inv]) (simp_all add: s1_def fields)
  have fr: "frames s s1" by (simp add: frames_def s1_def fields)
  have own1: "owns s1 t p" using own owns_frames [OF fr] by simp
  have run: "delay_end t s = (if suspended (OSTCBTbl s1 t) then Some s1
      else Some (set_rdy_bm (bm_add (OSTCBPrio (OSTCBTbl s1 t)) (rdy_bm s1)) s1))"
    using rdy_add_own [OF owns_bits [OF own1], of s1]
    unfolding delay_end_def Let_def time_out_def [symmetric] s1_def [symmetric]
    by (simp add: suspended_def)
  show ?thesis
    unfolding run
    using inv1 fr kinv0_make_ready [OF inv1 own1] members_own(2) [OF own1]
    by (auto simp: frames_def rdy_def s1_def)
qed

lemma suspended_time_out [simp]: "suspended (time_out c) = suspended c"
proof -
  have "(w AND NOT (OS_STAT_PEND_ANY)) AND 8 = w AND (8 :: 8 word)" for w
  proof (rule bit_word_eqI)
    fix n
    assume "n < LENGTH(8)"
    moreover have "(OS_STAT_PEND_ANY) AND 8 = (0 :: 8 word)" by simp
    then have "\<not> (bit (OS_STAT_PEND_ANY :: 8 word) n \<and> bit (8 :: 8 word) n)"
      using bit_and_iff [of "OS_STAT_PEND_ANY" "8 :: 8 word" n] by simp
    ultimately show "bit ((w AND NOT (OS_STAT_PEND_ANY)) AND 8) n = bit (w AND 8) n"
      by (auto simp only: bit_and_iff bit_not_iff possible_bit_word)
  qed
  then show ?thesis by (simp add: suspended_def time_out_def)
qed

lemma suspended_Dly [simp]: "suspended (c\<lparr>OSTCBDly := d\<rparr>) = suspended c"
  by (simp add: suspended_def)

lemma tick_tcb_ids [simp]:
  "OSTCBPrio (tick_tcb c) = OSTCBPrio c" "OSTCBX (tick_tcb c) = OSTCBX c"
  "OSTCBY (tick_tcb c) = OSTCBY c" "OSTCBBitX (tick_tcb c) = OSTCBBitX c"
  "OSTCBBitY (tick_tcb c) = OSTCBBitY c" "OSTCBNext (tick_tcb c) = OSTCBNext c"
  "OSTCBPrev (tick_tcb c) = OSTCBPrev c" "OSTCBEventMultiPtr (tick_tcb c) = OSTCBEventMultiPtr c"
  by (simp_all add: tick_tcb_def time_out_def)

text \<open>The body of the loop for one task.\<close>

lemma tick_step_ok:
  assumes inv: "kinv0 s" and own: "owns s t p"
  shows "ok (if OSTCBDly (OSTCBTbl s t) \<noteq> 0 then do {
          let s = upd_tcb t (\<lambda>c. c\<lparr>OSTCBDly := OSTCBDly c - 1\<rparr>) s;
          if OSTCBDly (OSTCBTbl s t) = 0 then delay_end t s else Some s
        } else Some s) (\<lambda>s'. kinv0 s' \<and> frames s s' \<and> cur s' = cur s \<and> waiters s' = waiters s
    \<and> OSTCBList s' = OSTCBList s
    \<and> rdy s' = (if OSTCBDly (OSTCBTbl s t) = 1 \<and> \<not> suspended (OSTCBTbl s t) then insert p (rdy s) else rdy s)
    \<and> OSTCBTbl s' = (OSTCBTbl s)(t := tick_tcb (OSTCBTbl s t)))"
proof (cases "OSTCBDly (OSTCBTbl s t) = 0")
  case True
  then show ?thesis using inv by (simp add: tick_tcb_def)
next
  case False
  define s1 where "s1 = upd_tcb t (\<lambda>c. c\<lparr>OSTCBDly := OSTCBDly c - 1\<rparr>) s"
  have inv1: "kinv0 s1" by (rule kinv0_same [OF inv]) (simp_all add: s1_def)
  have fr: "frames s s1" by (simp add: frames_def s1_def)
  have own1: "owns s1 t p" using own owns_frames [OF fr] by simp
  have one: "OSTCBDly (OSTCBTbl s t) - 1 = 0 \<longleftrightarrow> OSTCBDly (OSTCBTbl s t) = 1" by (rule right_minus_eq)
  have s1: "OSTCBTbl s1 = (OSTCBTbl s)(t := (OSTCBTbl s t)\<lparr>OSTCBDly := OSTCBDly (OSTCBTbl s t) - 1\<rparr>)"
    "rdy s1 = rdy s" "waiters s1 = waiters s" "cur s1 = cur s" "OSTCBList s1 = OSTCBList s"
    by (simp_all add: s1_def)
  show ?thesis
  proof (cases "OSTCBDly (OSTCBTbl s t) = 1")
    case True
    have "ok (delay_end t s1) (\<lambda>s'. kinv0 s' \<and> frames s s' \<and> cur s' = cur s \<and> waiters s' = waiters s
      \<and> OSTCBList s' = OSTCBList s \<and> rdy s' = (if suspended (OSTCBTbl s t) then rdy s else insert p (rdy s))
      \<and> OSTCBTbl s' = (OSTCBTbl s)(t := tick_tcb (OSTCBTbl s t)))"
      by (rule ok_mono [OF delay_end_ok [OF inv1 own1]]) (use s1 fr True in \<open>simp add: frames_def tick_tcb_def\<close>)
    then show ?thesis
      using True s1(1) by (cases "suspended (OSTCBTbl s t)") (simp_all add: Let_def s1_def [symmetric])
  next
    case f: False
    then show ?thesis
      using False one inv1 fr s1 by (simp add: Let_def s1_def [symmetric] tick_tcb_def)
  qed
qed

lemma tick_loop_ok:
  assumes "kinv0 s" "path TCBp (\<lambda>t. OSTCBNext (OSTCBTbl s t)) ptcb ts" "distinct ts" "ts \<noteq> []"
    and "OSTCBPrio (OSTCBTbl s (last ts)) = OS_TASK_IDLE_PRIO" "\<forall>t\<in>set ts. \<exists>p. owns s t p"
  shows "ok (tick_loop ptcb s) (\<lambda>s'. kinv0 s' \<and> frames s s' \<and> cur s' = cur s \<and> waiters s' = waiters s
    \<and> OSTCBTbl s' = (\<lambda>t. if t \<in> set (butlast ts) then tick_tcb (OSTCBTbl s t) else OSTCBTbl s t)
    \<and> rdy s' = rdy s \<union> {p. \<exists>t\<in>set (butlast ts). owns s t p \<and> OSTCBDly (OSTCBTbl s t) = 1
                        \<and> \<not> suspended (OSTCBTbl s t)})"
  using assms
proof (induction ts arbitrary: ptcb s)
  case Nil
  then show ?case by simp
next
  case (Cons t ts)
  have p: "ptcb = TCBp t" using Cons.prems(2) by simp
  obtain q where q: "owns s t q" using Cons.prems(6) by auto
  note t = owns_index [OF q]
  show ?case
  proof (cases "ts = []")
    case True
    then show ?thesis using Cons.prems(1,5) p t by (simp add: tick_loop.simps)
  next
    case False
    have last: "last (t # ts) = last ts" using False by simp
    have "last ts \<in> set (t # ts)" using False by simp
    then obtain r where r: "owns s (last ts) r" using Cons.prems(6) by blast
    have "OSTCBPrio (OSTCBTbl s t) \<noteq> OS_TASK_IDLE_PRIO"
    proof
      assume "OSTCBPrio (OSTCBTbl s t) = OS_TASK_IDLE_PRIO"
      then have "t = last ts" using q r Cons.prems(5) last by (auto simp: owns_def)
      then show False using Cons.prems(3) False by auto
    qed
    then have run: "tick_loop ptcb s = do {
        s1 \<leftarrow> (if OSTCBDly (OSTCBTbl s t) \<noteq> 0 then do {
               let s = upd_tcb t (\<lambda>c. c\<lparr>OSTCBDly := OSTCBDly c - 1\<rparr>) s;
               if OSTCBDly (OSTCBTbl s t) = 0 then delay_end t s else Some s
             } else Some s);
        tick_loop (OSTCBNext (OSTCBTbl s1 t)) s1 }"
      using p t by (subst tick_loop.simps) simp
    show ?thesis
      unfolding run
    proof (rule ok_bindI [OF tick_step_ok [OF Cons.prems(1) q]], elim conjE)
      fix s1
      assume 1: "kinv0 s1" "frames s s1" "cur s1 = cur s" "waiters s1 = waiters s"
        "rdy s1 = (if OSTCBDly (OSTCBTbl s t) = 1 \<and> \<not> suspended (OSTCBTbl s t) then insert q (rdy s) else rdy s)"
        "OSTCBTbl s1 = (OSTCBTbl s)(t := tick_tcb (OSTCBTbl s t))"
      have nx: "(\<lambda>t. OSTCBNext (OSTCBTbl s1 t)) = (\<lambda>t. OSTCBNext (OSTCBTbl s t))" by (simp add: 1(6) fun_eq_iff)
      have own: "owns s1 = owns s" by (rule owns_frames [OF 1(2)])
      have "path TCBp (\<lambda>t. OSTCBNext (OSTCBTbl s1 t)) (OSTCBNext (OSTCBTbl s1 t)) ts"
        using Cons.prems(2) unfolding nx by (simp add: 1(6))
      moreover have "OSTCBPrio (OSTCBTbl s1 (last ts)) = OS_TASK_IDLE_PRIO"
        using Cons.prems(5) last by (auto simp: 1(6))
      moreover have nt: "t \<notin> set ts" "set (butlast ts) \<subseteq> set ts"
        using Cons.prems(3) by (auto dest: in_set_butlastD)
      ultimately have "ok (tick_loop (OSTCBNext (OSTCBTbl s1 t)) s1) (\<lambda>s'. kinv0 s' \<and> frames s1 s'
          \<and> cur s' = cur s1 \<and> waiters s' = waiters s1
          \<and> OSTCBTbl s' = (\<lambda>t. if t \<in> set (butlast ts) then tick_tcb (OSTCBTbl s1 t) else OSTCBTbl s1 t)
          \<and> rdy s' = rdy s1 \<union> {p. \<exists>t\<in>set (butlast ts). owns s1 t p \<and> OSTCBDly (OSTCBTbl s1 t) = 1
                        \<and> \<not> suspended (OSTCBTbl s1 t)})"
        by (intro Cons.IH [OF 1(1)]) (use Cons.prems False own in auto)
      then show "ok (tick_loop (OSTCBNext (OSTCBTbl s1 t)) s1) (\<lambda>s'. kinv0 s' \<and> frames s s'
          \<and> cur s' = cur s \<and> waiters s' = waiters s
          \<and> OSTCBTbl s' = (\<lambda>u. if u \<in> set (butlast (t # ts)) then tick_tcb (OSTCBTbl s u) else OSTCBTbl s u)
          \<and> rdy s' = rdy s \<union> {p. \<exists>t\<in>set (butlast (t # ts)). owns s t p \<and> OSTCBDly (OSTCBTbl s t) = 1
                        \<and> \<not> suspended (OSTCBTbl s t)})"
      proof (rule ok_mono, elim conjE, goal_cases)
        case (1 s')
        have "OSTCBTbl s1 u = OSTCBTbl s u" if "u \<in> set (butlast ts)" for u
          using that nt \<open>OSTCBTbl s1 = _\<close> by auto
        moreover have "owns s t x \<longleftrightarrow> x = q" for x using q by (auto simp: owns_def)
        ultimately show ?case
          using 1 own False nt \<open>frames s s1\<close> \<open>cur s1 = _\<close> \<open>waiters s1 = _\<close> \<open>rdy s1 = _\<close> \<open>OSTCBTbl s1 = _\<close>
          by (auto simp: fun_eq_iff frames_def)
      qed
    qed
  qed
qed

section \<open>Delays\<close>

text \<open>A state in which the running task has left the ready list.\<close>

lemma unready_cur:
  assumes inv: "sinv s" and idle: "may_block s"
  shows "sinv (set_rdy_bm (bm_take_out (OSPrioCur s) (rdy_bm s)) s)"
    and "rdy (set_rdy_bm (bm_take_out (OSPrioCur s) (rdy_bm s)) s) = rdy s - {unat (OSPrioCur s)}"
proof -
  let ?s = "set_rdy_bm (bm_take_out (OSPrioCur s) (rdy_bm s)) s"
  note own = sinv_cur(2) [OF inv]
  have prio: "OSTCBPrio (OSTCBTbl s (cur_ix s)) = OSPrioCur s"
    using owns_prio [OF own] by (simp add: word_unat_eq_iff)
  have p63: "unat (OSPrioCur s) \<noteq> 63" using idle by (simp add: may_block_def word_unat_eq_iff)
  have "kinv0 ?s" using kinv0_unready [OF sinvD(2) [OF inv] own p63] prio by simp
  moreover have "oinv ?s" by (rule oinv_shrink [OF sinvD(4) [OF inv]]) simp_all
  ultimately show "sinv ?s"
    using cur_ok_same [OF sinvD(3) [OF inv], of ?s] by (simp add: sinv_def kinv_def)
  show "rdy ?s = rdy s - {unat (OSPrioCur s)}"
    using members_own(1) [OF own, of "rdy_bm s"] unfolding prio rdy_def by simp
qed

text \<open>What a delay does: the running task leaves the ready list for that many ticks.\<close>

definition asleep :: "32 word \<Rightarrow> kst \<Rightarrow> kst \<Rightarrow> bool" where
  "asleep ticks s s' \<longleftrightarrow> objs s' = objs s \<and> ids s' = ids s \<and> waiters s' = waiters s
     \<and> rdy s' = rdy s - {unat (OSPrioCur s)} \<and> unat (OSPrioCur s') = Min (rdy s')
     \<and> tcbs s' = (tcbs s)(cur_ix s := (tcbs s (cur_ix s))\<lparr>OSTCBDly := ticks\<rparr>)"

lemma OSTimeDly_ok:
  assumes inv: "sinv s" and idle: "may_block s"
  shows "ok (OSTimeDly ticks s) (\<lambda>s'. kept s s'
    \<and> (if OSIntNesting s = 0 \<and> OSLockNesting s = 0 \<and> ticks > 0 then asleep ticks s s' else s' = s))"
proof (cases "OSIntNesting s = 0 \<and> OSLockNesting s = 0 \<and> ticks > 0")
  case True
  let ?t = "cur_ix s"
  define s1 where "s1 = set_rdy_bm (bm_take_out (OSPrioCur s) (rdy_bm s)) s"
  define s2 where "s2 = upd_tcb ?t (\<lambda>c. c\<lparr>OSTCBDly := ticks\<rparr>) s1"
  note own = sinv_cur(2) [OF inv]
  have prio: "OSTCBPrio (OSTCBTbl s ?t) = OSPrioCur s"
    using owns_prio [OF own] by (simp add: word_unat_eq_iff)
  have inv2: "sinv s2"
    unfolding s2_def by (rule sinv_upd_tcb) (simp_all add: s1_def unready_cur [OF inv idle])
  have s2: "objs s2 = objs s" "ids s2 = ids s" "waiters s2 = waiters s" "ctl s2 = ctl s"
    "rdy s2 = rdy s - {unat (OSPrioCur s)}" "OSPrioCur s2 = OSPrioCur s"
    "tcbs s2 = (tcbs s)(?t := (tcbs s ?t)\<lparr>OSTCBDly := ticks\<rparr>)"
    using unready_cur(2) [OF inv idle]
    by (simp_all add: s2_def s1_def)
      (simp_all add: upd_tcb_def set_rdy_bm_def tcbs_def fun_eq_iff)
  have run: "OSTimeDly ticks s = OS_Sched s2"
    using True sinv_cur(1,3) [OF inv] rdy_del_own [OF owns_bits [OF own], of s] prio
    by (simp add: OSTimeDly_def word_gt_0 Let_def s2_def s1_def)
  have nest: "OSIntNesting s2 = 0" "OSLockNesting s2 = 0" using s2(4) True by (simp_all add: ctl_def)
  show ?thesis
    unfolding run
  proof (rule ok_mono [OF OS_Sched_sinv [OF inv2]], elim conjE)
    fix s'
    assume "sinv s'" "resched s2 s'" "settled s'" "ctl s' = ctl s2"
      "OSIntNesting s2 = 0 \<and> OSLockNesting s2 = 0 \<longrightarrow> unat (OSPrioCur s') = Min (rdy s2)"
    with True nest s2 reschedD [OF this(2)]
    show "kept s s' \<and> (if OSIntNesting s = 0 \<and> OSLockNesting s = 0 \<and> ticks > 0
        then asleep ticks s s' else s' = s)"
      by (simp add: asleep_def)
  qed
next
  case False
  then show ?thesis using inv by (auto simp: OSTimeDly_def word_gt_0)
qed

interpretation TimeDly: sched_call may_block "\<lambda>s. map_option (Pair ()) (OSTimeDly ticks s)" for ticks
proof (rule sched_callI)
  fix s
  assume "sinv s" "may_block s"
  from OSTimeDly_ok [OF this, of ticks]
  show "ok (map_option (Pair ()) (OSTimeDly ticks s)) (\<lambda>(r, s'). kept s s')" by (auto simp: ok_iff)
qed

interpretation TimeDlyHMSM: sched_call may_block "OSTimeDlyHMSM hours minutes seconds ms"
  for hours minutes seconds ms
proof (rule sched_callI)
  fix s
  assume "sinv s" "may_block s"
  from this OSTimeDly_ok [OF this, of "hmsm_ticks hours minutes seconds ms"]
  show "ok (OSTimeDlyHMSM hours minutes seconds ms s) (\<lambda>(r, s'). kept s s')"
    by (auto simp: OSTimeDlyHMSM_def ok_iff)
qed

text \<open>\<open>OSTimeDlyResume\<close> ends the delay of another task early.\<close>

lemma delay_end_sinv:
  assumes inv: "sinv s" and own: "owns s t p"
  shows "ok (delay_end t s) (\<lambda>s'. sinv s' \<and> frames s s' \<and> cur s' = cur s \<and> waiters s' = waiters s
    \<and> rdy s' = (if suspended (OSTCBTbl s t) then rdy s else insert p (rdy s))
    \<and> OSTCBTbl s' = (OSTCBTbl s)(t := time_out (OSTCBTbl s t)))"
proof (rule ok_mono [OF delay_end_ok [OF sinvD(2) [OF inv] own]], elim conjE)
  fix s'
  assume 1: "kinv0 s'" "frames s s'" "cur s' = cur s" "waiters s' = waiters s"
    "rdy s' = (if suspended (time_out (OSTCBTbl s t)) then rdy s else insert p (rdy s))"
    "OSTCBTbl s' = (OSTCBTbl s)(t := time_out (OSTCBTbl s t))"
  have "oinv s'" by (rule oinv_frames [OF sinvD(4) [OF inv] 1(2)]) (simp add: 1)
  then have "sinv s'"
    using 1 cur_ok_same [OF sinvD(3) [OF inv], of s'] by (simp add: sinv_def kinv_def frames_def)
  then show "sinv s' \<and> frames s s' \<and> cur s' = cur s \<and> waiters s' = waiters s
    \<and> rdy s' = (if suspended (OSTCBTbl s t) then rdy s else insert p (rdy s))
    \<and> OSTCBTbl s' = (OSTCBTbl s)(t := time_out (OSTCBTbl s t))"
    using 1 by simp
qed

lemma tasks_below_idle: "sinv s \<Longrightarrow> p < 64 \<Longrightarrow> entry_ok s (OSTCBPrioTbl s p)"
  using sinvD(2) by (auto simp: kinv0_def)

text \<open>
  An entry of the priority table that is a control block is a task, but its priority is the index
  of the entry only if the entry is not a ceiling that its owner has left.
\<close>

lemma prio_tbl_cases:
  assumes inv: "sinv s" and p: "unat prio < 64"
  obtains "prio_tbl s prio = Some NULL" | "prio_tbl s prio = Some OS_TCB_RESERVED"
  | t where "prio_tbl s prio = Some (TCBp t)" "owns s t (unat (OSTCBPrio (OSTCBTbl s t)))"
proof -
  have "entry_ok s (OSTCBPrioTbl s (unat prio))" by (rule tasks_below_idle [OF inv p])
  with p that show ?thesis by (auto simp: entry_ok_def prio_tbl_def split: vptr.splits)
qed

lemma OSTimeDlyResume_ok:
  assumes inv: "sinv s"
  shows "ok (OSTimeDlyResume prio s) (\<lambda>(r, s'). kept s s'
    \<and> (r = OS_ERR_NONE \<longrightarrow> (\<exists>t. OSTCBPrioTbl s (unat prio) = TCBp t \<and> OSTCBDly (OSTCBTbl s t) \<noteq> 0
         \<and> rdy s' = (if suspended (OSTCBTbl s t) then rdy s else insert (unat (OSTCBPrio (OSTCBTbl s t))) (rdy s))
         \<and> waiters s' = waiters s \<and> objs s' = objs s \<and> ids s' = ids s
         \<and> tcbs s' = (tcbs s)(t := time_out ((tcbs s t)\<lparr>OSTCBDly := 0\<rparr>))))
    \<and> (r \<noteq> OS_ERR_NONE \<longrightarrow> s' = s))"
proof (cases "prio \<ge> OS_LOWEST_PRIO")
  case True
  then show ?thesis using inv by (simp add: OSTimeDlyResume_def)
next
  case False
  then have p: "unat prio < 64" by (simp add: word_le_nat_alt)
  show ?thesis
  proof (rule prio_tbl_cases [OF inv p], goal_cases)
    case (3 t)
    let ?c = "OSTCBTbl s t"
    note t = owns_index [OF 3(2)]
    show ?case
    proof (cases "OSTCBDly ?c = 0")
      case True
      then show ?thesis using False 3(1) t inv by (simp add: OSTimeDlyResume_def)
    next
      case dly: False
      define s1 where "s1 = upd_tcb t (\<lambda>c. c\<lparr>OSTCBDly := 0\<rparr>) s"
      have inv1: "sinv s1" unfolding s1_def by (rule sinv_upd_tcb [OF inv]) simp_all
      have own1: "owns s1 t (unat (OSTCBPrio ?c))" using 3(2) owns_cong [of s1 s] by (simp add: s1_def)
      have s1: "frames s s1" "cur s1 = cur s" "waiters s1 = waiters s" "rdy s1 = rdy s"
        "OSTCBTbl s1 = (OSTCBTbl s)(t := ?c\<lparr>OSTCBDly := 0\<rparr>)"
        by (simp_all add: s1_def frames_def)
      have run: "OSTimeDlyResume prio s = do { s2 \<leftarrow> delay_end t s1;
          s3 \<leftarrow> (if \<not> suspended (OSTCBTbl s2 t) then OS_Sched s2 else Some s2); Some (OS_ERR_NONE, s3) }"
        using False 3(1) t dly by (simp add: OSTimeDlyResume_def s1_def suspended_def)
      show ?thesis
        unfolding run
      proof (rule ok_bindI [OF delay_end_sinv [OF inv1 own1]], elim conjE)
        fix s2
        assume 2: "sinv s2" "frames s1 s2" "cur s2 = cur s1" "waiters s2 = waiters s1"
          "rdy s2 = (if suspended (OSTCBTbl s1 t) then rdy s1 else insert (unat (OSTCBPrio ?c)) (rdy s1))"
          "OSTCBTbl s2 = (OSTCBTbl s1)(t := time_out (OSTCBTbl s1 t))"
        have susp: "suspended (OSTCBTbl s2 t) = suspended ?c" using 2(6) s1(5) by simp
        have tc: "tcbs s2 = (tcbs s)(t := time_out ((tcbs s t)\<lparr>OSTCBDly := 0\<rparr>))"
          using 2(6) s1(5) by (auto simp: tcbs_def fun_eq_iff time_out_def)
        have fr: "frames s s2" using s1(1) 2(2) by (rule frames_trans)
        have tbl: "OSTCBPrioTbl s (unat prio) = TCBp t" using 3(1) p by (simp add: prio_tbl_def)
        let ?P = "\<lambda>(r, s'). kept s s'
          \<and> (r = OS_ERR_NONE \<longrightarrow> (\<exists>t. OSTCBPrioTbl s (unat prio) = TCBp t \<and> OSTCBDly (OSTCBTbl s t) \<noteq> 0
             \<and> rdy s' = (if suspended (OSTCBTbl s t) then rdy s else insert (unat (OSTCBPrio (OSTCBTbl s t))) (rdy s))
             \<and> waiters s' = waiters s \<and> objs s' = objs s \<and> ids s' = ids s
             \<and> tcbs s' = (tcbs s)(t := time_out ((tcbs s t)\<lparr>OSTCBDly := 0\<rparr>))))
          \<and> (r \<noteq> OS_ERR_NONE \<longrightarrow> s' = s)"
        show "ok (do { s3 \<leftarrow> (if \<not> suspended (OSTCBTbl s2 t) then OS_Sched s2 else Some s2);
            Some (OS_ERR_NONE, s3) }) ?P"
        proof (cases "suspended ?c")
          case True
          then have "settled s \<longrightarrow> settled s2" using 2 s1 fr by (simp add: settled_iff frames_def)
          then show ?thesis using True susp 2 s1 fr tc dly tbl by (simp add: frames_def)
        next
          case run: False
          show ?thesis
            unfolding susp if_P [OF run]
          proof (rule ok_bindI [OF OS_Sched_sinv [OF 2(1)]], elim conjE)
            fix s3
            assume r: "sinv s3" "resched s2 s3" "settled s3" "ctl s3 = ctl s2"
            show "ok (Some (OS_ERR_NONE, s3)) ?P"
              using run r reschedD [OF r(2)] 2 s1 fr tc dly tbl by (simp add: frames_def)
          qed
        qed
      qed
    qed
  qed (use False inv in \<open>simp_all add: OSTimeDlyResume_def\<close>)
qed

interpretation TimeDlyResume: sched_call "\<lambda>s. True" "OSTimeDlyResume prio" for prio
  by (rule sched_callI) (rule ok_mono2 [OF OSTimeDlyResume_ok], simp_all)

text \<open>\<open>OSTimeSet\<close> sets the clock, which the invariant does not read.\<close>

interpretation TimeSet: sched_call "\<lambda>s. True" "\<lambda>s. Some ((), OSTimeSet ticks s)" for ticks
proof (rule sched_callI)
  fix s
  assume inv: "sinv s"
  have "sinv (OSTimeSet ticks s)"
    by (rule sinv_unread [OF inv]) (simp_all add: OSTimeSet_def ids_def cur_def rdy_bm_def ev_bm_def ev_data_def fun_eq_iff)
  moreover have "ctl (OSTimeSet ticks s) = ctl s" "settled (OSTimeSet ticks s) = settled s"
    by (simp_all add: OSTimeSet_def ctl_def settled_def rdy_def rdy_bm_def)
  ultimately show "ok (Some ((), OSTimeSet ticks s)) (\<lambda>(r, s'). kept s s')" by simp
qed

interpretation TmrSignal: sched_call "\<lambda>s. True" OSTmrSignal
proof (rule sched_callI)
  fix s
  assume inv: "sinv s"
  then have "valid_ev (OSTmrSemSignal s)" using oinvD sinvD(4) by blast
  then show "ok (OSTmrSignal s) (\<lambda>(r, s'). kept s s')"
    using SemPost.total [OF inv] SemPost.settles [OF inv] by (fastforce simp: OSTmrSignal_def ok_iff)
qed

section \<open>The tick\<close>

text \<open>
  A post from an interrupt does not switch tasks.  \<open>signalled\<close> is what the tick relies on: tasks that
  do not wait for the timer's semaphore are not touched.
\<close>

definition off_timer :: "kst \<Rightarrow> nat \<Rightarrow> bool" where
  "off_timer s p \<longleftrightarrow> (\<forall>e. OSTmrSemSignal s = EVp e \<longrightarrow> p \<notin> waiters s e)"

definition untouched :: "kst \<Rightarrow> kst \<Rightarrow> nat \<Rightarrow> bool" where
  "untouched s s' p \<longleftrightarrow> task s' p = task s p \<and> (p \<in> rdy s' \<longleftrightarrow> p \<in> rdy s)"

definition signalled :: "kst \<Rightarrow> kst \<Rightarrow> bool" where
  "signalled s s' \<longleftrightarrow> sinv s' \<and> ctl s' = ctl s \<and> cur s' = cur s \<and> ids s' = ids s
     \<and> OSTime s' = OSTime s \<and> OSTickStepState s' = OSTickStepState s \<and> OSTmrSemSignal s' = OSTmrSemSignal s
     \<and> (\<forall>e. waiters s' e \<subseteq> waiters s e) \<and> rdy s \<subseteq> rdy s'
     \<and> (\<forall>p. owned s p \<longrightarrow> off_timer s p \<longrightarrow> untouched s s' p)
     \<and> (\<forall>p e. off_timer s p \<longrightarrow> p \<in> waiters s e \<longrightarrow> p \<in> waiters s' e)
     \<and> (\<forall>e. OSTmrSemSignal s \<noteq> EVp e \<longrightarrow> ev_data s' e = ev_data s e)
     \<and> (\<forall>p. owned s p \<longrightarrow> OSTCBEventMultiPtr (task s p) = None \<longrightarrow> OSTCBEventMultiPtr (task s' p) = None)"

lemma signalled_refl: "sinv s \<Longrightarrow> signalled s s"
  by (simp add: signalled_def untouched_def)

lemma OSSemPost_isr:
  assumes inv: "sinv s" and ev: "valid_ev p" "p = OSTmrSemSignal s" and isr: "OSIntNesting s \<noteq> 0"
  shows "ok (OSSemPost p s) (\<lambda>(r, s'). signalled s s')"
  using ev(1)
proof (cases rule: valid_evE)
  case 1
  then show ?thesis using inv by (simp add: OSSemPost_def signalled_refl)
next
  case (2 e)
  consider (other) "ev_type s e \<noteq> OS_EVENT_TYPE_SEM"
    | (some) "ev_type s e = OS_EVENT_TYPE_SEM" "waiters s e \<noteq> {}"
    | (none) "ev_type s e = OS_EVENT_TYPE_SEM" "waiters s e = {}" by blast
  then show ?thesis
  proof cases
    case other
    then show ?thesis using 2 inv by (simp add: OSSemPost_def signalled_refl)
  next
    case some
    have run: "OSSemPost p s = do {
        (_, s1) \<leftarrow> OS_EventTaskRdy (EVp e) NULL OS_STAT_SEM OS_STAT_PEND_OK s;
        s' \<leftarrow> OS_Sched s1; Some (OS_ERR_NONE, s') }"
      using 2 some ev_grp_waiters [OF sinvD(2) [OF inv] 2(2)] by (simp add: OSSemPost_def split_beta')
    show ?thesis
      unfolding run
    proof (rule ok_bindI2 [OF OS_EventTaskRdy_readied [OF sinvD(2) [OF inv] 2(2) some(2)]], elim conjE)
      fix prio s1
      assume r: "readied e (Min (waiters s e)) NULL OS_STAT_SEM OS_STAT_PEND_OK s s1"
      have "OSIntNesting s1 \<noteq> 0" using r isr by (simp add: readied_def frames_def ctl_def)
      then have "OS_Sched s1 = Some s1" by (simp add: OS_Sched_def)
      moreover have "signalled s s1"
      proof -
        have "Min (waiters s e) \<in> waiters s e" using some(2) by simp
        then have ne: "p \<noteq> Min (waiters s e)" if "off_timer s p" for p
          using that 2(1) ev(2) by (auto simp: off_timer_def)
        then have "p \<in> waiters s1 e'" if "off_timer s p" "p \<in> waiters s e'" for p e'
          using that r by (auto simp: readied_def leave_def)
        moreover have "OSTCBEventMultiPtr (task s1 p) = None" if "owned s p" "OSTCBEventMultiPtr (task s p) = None" for p
          using that r by (cases "p = Min (waiters s e)") (simp_all add: readied_def woken_def)
        ultimately show ?thesis
          using r sinv_readied [OF inv r] ne
          by (auto simp: signalled_def untouched_def readied_def frames_def objs_def clock_def leave_subset
              dest: subsetD [OF leave_subset])
      qed
      ultimately show "ok (do { s' \<leftarrow> OS_Sched s1; Some (OS_ERR_NONE, s') }) (\<lambda>(r, s'). signalled s s')"
        by simp
    qed
  next
    case none
    let ?s = "upd_ev e (\<lambda>c. c\<lparr>OSEventCnt := OSEventCnt c + 1\<rparr>) s"
    have "task ?s = task s" by (rule task_cong) simp_all
    moreover have "OSTime ?s = OSTime s" "OSTickStepState ?s = OSTickStepState s"
      "OSTmrSemSignal ?s = OSTmrSemSignal s"
      by (simp_all add: upd_ev_def)
    moreover have "ev_data ?s e' = ev_data s e'" if "OSTmrSemSignal s \<noteq> EVp e'" for e'
      using that ev(2) 2(1) by (auto simp: upd_ev_def ev_data_def)
    ultimately have "sinv ?s \<Longrightarrow> signalled s ?s" by (simp add: signalled_def untouched_def)
    then show ?thesis
      using OSSemPost_sem [OF inv 2(2) none(1)] none(2) inv 2(1)
      by (auto simp: signalled_refl split: if_splits elim!: ok_mono)
  qed
qed

lemma OSTimeTickHook_ok:
  assumes inv: "sinv s" and isr: "OSIntNesting s \<noteq> 0"
  shows "ok (OSTimeTickHook s) (\<lambda>s'. signalled s s')"
proof -
  have inv1: "sinv (s\<lparr>OSTmrCtr := n\<rparr>)" for n
    by (rule sinv_unread [OF inv])
      (simp_all add: ids_def cur_def rdy_bm_def ev_bm_def ev_data_def fun_eq_iff)
  have same: "signalled (s\<lparr>OSTmrCtr := n\<rparr>) s' \<longleftrightarrow> signalled s s'" for n s'
  proof -
    have "ev_data (s\<lparr>OSTmrCtr := n\<rparr>) = ev_data s" by (simp add: ev_data_def fun_eq_iff)
    moreover
    have "owned (s\<lparr>OSTmrCtr := n\<rparr>) = owned s" by (rule owned_cong) (simp add: ids_def)
    moreover have "task (s\<lparr>OSTmrCtr := n\<rparr>) = task s" by (rule task_cong) (simp_all add: ids_def)
    ultimately show ?thesis
      by (simp add: signalled_def off_timer_def untouched_def ctl_def cur_def ids_def rdy_def rdy_bm_def waiters_def ev_bm_def)
  qed
  have ev: "valid_ev (OSTmrSemSignal s)" by (rule oinvD(5) [OF sinvD(4) [OF inv]])
  have "ok (OSTmrSignal (s\<lparr>OSTmrCtr := 0\<rparr>)) (\<lambda>(r, s'). signalled s s')"
    using OSSemPost_isr [OF inv1 ev, of 0] isr same [of 0] by (simp add: OSTmrSignal_def)
  then show ?thesis
    using same [THEN iffD1, OF signalled_refl [OF inv1]]
    by (auto simp: OSTimeTickHook_def Let_def ok_simps split_beta' ok_iff)
qed

text \<open>One tick on task \<open>p\<close>: the idle task has no delay.\<close>

definition ticked :: "kst \<Rightarrow> kst \<Rightarrow> nat \<Rightarrow> bool" where
  "ticked s s' p \<longleftrightarrow> (if p = 63 then untouched s s' p else task s' p = tick_tcb (task s p)
     \<and> (p \<in> rdy s' \<longleftrightarrow> p \<in> rdy s \<or> OSTCBDly (task s p) = 1 \<and> \<not> suspended (task s p)))"

lemma tick_loop_all:
  assumes inv: "kinv0 s"
  shows "ok (tick_loop (OSTCBList s) s) (\<lambda>s'. kinv0 s' \<and> frames s s' \<and> cur s' = cur s
    \<and> waiters s' = waiters s \<and> (\<forall>p. owned s p \<longrightarrow> ticked s s' p))"
proof -
  have "tasks_ok s" using inv by (simp add: kinv0_def)
  then obtain ts where ts: "path TCBp (\<lambda>t. OSTCBNext (OSTCBTbl s t)) (OSTCBList s) ts" "distinct ts" "ts \<noteq> []"
    "OSTCBPrio (OSTCBTbl s (last ts)) = OS_TASK_IDLE_PRIO" "set ts = {t. \<exists>p. owns s t p}"
    by (auto simp: tasks_ok_def)
  have mem: "t \<in> set (butlast ts) \<longleftrightarrow> p \<noteq> 63" if own: "owns s t p" for t p
  proof -
    have t: "t \<in> set ts" using ts(5) own by auto
    have "last ts \<in> set ts" using ts(3) by simp
    then obtain q where q: "owns s (last ts) q" using ts(5) by auto
    then have "q = 63" using ts(4) owns_prio [OF q] by simp
    then have "t = last ts \<longleftrightarrow> p = 63" using q own by (auto simp: owns_def)
    moreover have "t \<in> set (butlast ts) \<longleftrightarrow> t \<noteq> last ts"
      using t ts(2) by (cases ts rule: rev_cases) auto
    ultimately show ?thesis by simp
  qed
  show ?thesis
  proof (rule ok_mono [OF tick_loop_ok [OF inv ts(1-4)]], goal_cases)
    case 1
    then show ?case using ts(5) by blast
  next
    case (2 s')
    then have fr: "frames s s'" by simp
    have "ticked s s' p" if "owned s p" for p
    proof -
      from that obtain t where t: "OSTCBPrioTbl s p = TCBp t" "owns s t p" by (rule ownedE)
      have t': "owns s' t p" using t(2) owns_frames [OF fr] by simp
      have "p \<in> rdy s' \<longleftrightarrow> p \<in> rdy s \<or> (p \<noteq> 63 \<and> OSTCBDly (OSTCBTbl s t) = 1 \<and> \<not> suspended (OSTCBTbl s t))"
        using 2 mem t(2) by (auto simp: owns_def)
      moreover have "OSTCBTbl s' t = (if p \<noteq> 63 then tick_tcb (OSTCBTbl s t) else OSTCBTbl s t)"
        using 2 mem [OF t(2)] by simp
      ultimately show ?thesis
        unfolding ticked_def untouched_def task_owns [OF t(2)] task_owns [OF t'] by (cases "p = 63") simp_all
    qed
    then show ?case using 2 by blast
  qed
qed

lemma clock_views [simp]:
  "ids (s\<lparr>OSTime := n\<rparr>) = ids s" "ctl (s\<lparr>OSTime := n\<rparr>) = ctl s" "cur (s\<lparr>OSTime := n\<rparr>) = cur s"
  "rdy (s\<lparr>OSTime := n\<rparr>) = rdy s" "waiters (s\<lparr>OSTime := n\<rparr>) = waiters s"
  "task (s\<lparr>OSTime := n\<rparr>) = task s" "ev_data (s\<lparr>OSTime := n\<rparr>) = ev_data s" "ev_data (s\<lparr>OSTickStepState := v\<rparr>) = ev_data s"
  "ids (s\<lparr>OSTickStepState := v\<rparr>) = ids s" "ctl (s\<lparr>OSTickStepState := v\<rparr>) = ctl s"
  "cur (s\<lparr>OSTickStepState := v\<rparr>) = cur s" "rdy (s\<lparr>OSTickStepState := v\<rparr>) = rdy s"
  "waiters (s\<lparr>OSTickStepState := v\<rparr>) = waiters s" "task (s\<lparr>OSTickStepState := v\<rparr>) = task s"
  by (auto simp: ids_def ctl_def cur_def rdy_def rdy_bm_def waiters_def ev_bm_def task_def ev_data_def fun_eq_iff
      split: vptr.split)

lemma clock_sinv: "sinv s \<Longrightarrow> sinv (s\<lparr>OSTime := n\<rparr>)" "sinv s \<Longrightarrow> sinv (s\<lparr>OSTickStepState := v\<rparr>)"
  by (rule sinv_unread [of s]; simp add: rdy_bm_def ev_bm_def ev_data_def fun_eq_iff)+

lemma frames_sinv:
  "sinv s \<Longrightarrow> kinv0 s' \<Longrightarrow> frames s s' \<Longrightarrow> cur s' = cur s \<Longrightarrow> waiters s' = waiters s \<Longrightarrow> sinv s'"
  using oinv_frames [of s s'] cur_ok_same [of s s'] by (simp add: sinv_def kinv_def frames_def)

lemma OSTimeTick_ok:
  assumes inv: "sinv s" and isr: "OSIntNesting s \<noteq> 0"
  shows "ok (OSTimeTick s) (\<lambda>s'. sinv s' \<and> ctl s' = ctl s \<and> cur s' = cur s \<and> ids s' = ids s
    \<and> OSTime s' = OSTime s + 1
    \<and> (\<exists>s1. OSTimeTickHook s = Some s1 \<and> signalled s s1 \<and> waiters s' = waiters s1
        \<and> (\<forall>p. owned s p \<longrightarrow> (if OSRunning s \<and> OSTickStepState s \<noteq> OS_TICK_STEP_WAIT
             then ticked s1 s' p else untouched s1 s' p))
        \<and> ev_data s' = ev_data s1)
    \<and> OSTmrSemSignal s' = OSTmrSemSignal s
    \<and> (OSTickStepState s = OS_TICK_STEP_DIS \<longrightarrow> OSTickStepState s' = OS_TICK_STEP_DIS))"
    (is "ok _ ?P")
proof -
  from OSTimeTickHook_ok [OF assms] obtain s1 where
    hook: "OSTimeTickHook s = Some s1" and sg: "signalled s s1" by (auto simp: ok_iff)
  have inv1: "sinv s1" using sg by (simp add: signalled_def)
  define s2 where "s2 = s1\<lparr>OSTime := OSTime s1 + 1\<rparr>"
  have run2: "OSRunning s2 = OSRunning s" and step2: "OSTickStepState s2 = OSTickStepState s"
    using sg by (simp_all add: signalled_def s2_def ctl_def)
  have start: "?P s3" if "s3 = s2 \<and> (OSRunning s \<longrightarrow> OSTickStepState s = OS_TICK_STEP_WAIT)" for s3
    using that sg hook clock_sinv(1) [OF inv1] step2
    by (auto simp: signalled_def s2_def untouched_def)
  have loop: "ok (tick_loop (OSTCBList s3) s3) ?P"
    if s3: "s3 = s2\<lparr>OSTickStepState := v\<rparr>" and on: "OSRunning s" "OSTickStepState s \<noteq> OS_TICK_STEP_WAIT"
      and v: "OSTickStepState s = OS_TICK_STEP_DIS \<longrightarrow> v = OS_TICK_STEP_DIS" for s3 v
  proof -
    have inv3: "sinv s3" unfolding s3 s2_def by (intro clock_sinv inv1)
    have eq: "ids s3 = ids s" "ctl s3 = ctl s" "cur s3 = cur s" "rdy s3 = rdy s1" "waiters s3 = waiters s1"
      "task s3 = task s1" "ev_data s3 = ev_data s1" "OSTime s3 = OSTime s + 1" "OSTickStepState s3 = v" "OSTmrSemSignal s3 = OSTmrSemSignal s"
      using sg by (simp_all add: s3 s2_def signalled_def)
    have own: "owned s3 = owned s" by (rule owned_cong [OF eq(1)])
    show ?thesis
    proof (rule ok_mono [OF tick_loop_all [OF sinvD(2) [OF inv3]]], elim conjE)
      fix s'
      assume 1: "kinv0 s'" "frames s3 s'" "cur s' = cur s3" "waiters s' = waiters s3"
        "\<forall>p. owned s3 p \<longrightarrow> ticked s3 s' p"
      have clk: "OSTime s' = OSTime s3" "OSTickStepState s' = OSTickStepState s3"
        "OSTmrSemSignal s' = OSTmrSemSignal s3" "ev_data s' = ev_data s3"
        using 1(2) by (simp_all add: frames_def objs_def clock_def)
      have "ticked s3 s' = ticked s1 s'" by (auto simp: ticked_def untouched_def eq fun_eq_iff)
      then show "?P s'"
        using frames_sinv [OF inv3 1(1-4)] 1 clk own eq on v hook sg by (auto simp: frames_def)
    qed
  qed
  have run: "OSTimeTick s = (if OSRunning s then
      if OSTickStepState s = OS_TICK_STEP_WAIT then Some s2
      else (let v = (if OSTickStepState s = OS_TICK_STEP_ONCE then OS_TICK_STEP_WAIT else OS_TICK_STEP_DIS) in
        tick_loop (OSTCBList (s2\<lparr>OSTickStepState := v\<rparr>)) (s2\<lparr>OSTickStepState := v\<rparr>))
    else Some s2)"
  proof -
    have same: "s2\<lparr>OSTickStepState := OS_TICK_STEP_DIS\<rparr> = s2" if "OSTickStepState s = OS_TICK_STEP_DIS"
      using that step2 by simp
    show ?thesis
      unfolding OSTimeTick_def hook bind.simps Let_def s2_def [symmetric] run2 step2
      using same by (auto simp: split_beta')
  qed
  show ?thesis
    unfolding run using start loop by (auto simp: Let_def)
qed

section \<open>The tick interrupt\<close>

lemma task_tcbs:
  assumes "tcbs s' = tcbs s" "ids s' = ids s"
  shows "OSTCBDly (task s' p) = OSTCBDly (task s p)" "suspended (task s' p) = suspended (task s p)"
  using ids_PrioTbl [OF assms(2)] tcbs_fields [OF assms(1)]
  by (auto simp: task_def suspended_def split: vptr.split)

text \<open>
  Task \<open>p\<close> has \<open>d\<close> ticks to go, or none, and neither is suspended nor waits for the timer's semaphore: it
  sleeps in \<open>OSTimeDly\<close>, or waits for another event with that timeout.
\<close>

definition dozing :: "kst \<Rightarrow> nat \<Rightarrow> 32 word \<Rightarrow> bool" where
  "dozing s p d \<longleftrightarrow> owned s p \<and> off_timer s p \<and> OSTCBDly (task s p) = d
     \<and> \<not> suspended (task s p)"

lemma tick_tcb_dly: "OSTCBDly (tick_tcb c) = (if OSTCBDly c = 0 then 0 else OSTCBDly c - 1)"
  by (simp add: tick_tcb_def time_out_def)

lemma suspended_tick [simp]: "suspended (tick_tcb c) = suspended c"
  by (simp add: tick_tcb_def)

lemma enter_views [simp]:
  "ids (OSIntEnter s) = ids s" "rdy (OSIntEnter s) = rdy s" "waiters (OSIntEnter s) = waiters s"
  "task (OSIntEnter s) = task s" "cur (OSIntEnter s) = cur s" "OSTime (OSIntEnter s) = OSTime s"
  "OSTickStepState (OSIntEnter s) = OSTickStepState s"
  by (auto simp: OSIntEnter_def ids_def rdy_def rdy_bm_def waiters_def ev_bm_def task_def cur_def fun_eq_iff
      split: vptr.split)

lemma enter_tmr [simp]: "OSTmrSemSignal (OSIntEnter s) = OSTmrSemSignal s"
  by (simp add: OSIntEnter_def)

lemma xPortSysTickHandler_ok:
  assumes inv: "sinv s" and on: "OSRunning s" "OSIntNesting s < 255"
  shows "ok (xPortSysTickHandler s) (\<lambda>s'. sinv s' \<and> settled s' \<and> ctl s' = ctl s \<and> ids s' = ids s
    \<and> OSTime s' = OSTime s + 1
    \<and> (OSTickStepState s = OS_TICK_STEP_DIS \<longrightarrow> OSTickStepState s' = OS_TICK_STEP_DIS
        \<and> (\<forall>p d. dozing s p d \<longrightarrow> p \<noteq> 63 \<longrightarrow> dozing s' p (if d = 0 then 0 else d - 1)
             \<and> (p \<in> rdy s' \<longleftrightarrow> p \<in> rdy s \<or> d = 1))))"
    (is "ok _ ?P")
proof -
  let ?s = "OSIntEnter s"
  have ctl0: "ctl ?s = (OSIntNesting s + 1, OSLockNesting s, True)"
    using on by (simp add: OSIntEnter_def ctl_def)
  have "OSIntNesting s + 1 \<noteq> 0" by (rule lock_inc [OF on(2)])
  then have isr: "OSIntNesting ?s \<noteq> 0" using ctl0 by (simp add: ctl_def)
  have inv0: "sinv ?s" using OSIntEnter_sinv [OF inv] by simp
  show ?thesis
    unfolding xPortSysTickHandler_def Let_def
  proof (rule ok_bindI [OF OSTimeTick_ok [OF inv0 isr]], elim conjE exE)
    fix s1 h
    assume 1: "sinv s1" "ctl s1 = ctl ?s" "ids s1 = ids ?s" "OSTime s1 = OSTime ?s + 1"
      and h: "signalled ?s h" "waiters s1 = waiters h" and tmr: "OSTmrSemSignal s1 = OSTmrSemSignal ?s"
      and eff: "\<forall>p. owned ?s p \<longrightarrow> (if OSRunning ?s \<and> OSTickStepState ?s \<noteq> OS_TICK_STEP_WAIT
        then ticked h s1 p else untouched h s1 p)"
      and st: "OSTickStepState ?s = OS_TICK_STEP_DIS \<longrightarrow> OSTickStepState s1 = OS_TICK_STEP_DIS"
    have on1: "OSRunning s1" "OSRunning ?s" and leave: "ctl (leave_isr s1) = ctl s"
      using ctl0 1(2) on isr by (auto simp: ctl_def leave_isr_def word_gt_0)
    have set1: "settled s1" using 1(2) isr by (simp add: settled_def ctl_def)
    have own: "owned ?s = owned s" by (rule owned_cong) simp
    show "ok (OSIntExit s1) ?P"
    proof (rule ok_mono [OF OSIntExit_sinv [OF 1(1)]], elim conjE)
      fix s'
      assume 2: "sinv s'" "settled s1 \<or> OSRunning s1 \<longrightarrow> settled s'" "rdy s' = rdy s1" "objs s' = objs s1" "ids s' = ids s1"
        "waiters s' = waiters s1" "tcbs s' = tcbs s1" "OSRunning s1 \<longrightarrow> ctl s' = ctl (leave_isr s1)"
      have ids: "ids s' = ids s" using 2(5) 1(3) by simp
      have own': "owned s' = owned s" by (rule owned_cong [OF ids])
      have "dozing s' p (if d = 0 then 0 else d - 1) \<and> (p \<in> rdy s' \<longleftrightarrow> p \<in> rdy s \<or> d = 1)"
        if d: "dozing s p d" "p \<noteq> 63" and dis: "OSTickStepState s = OS_TICK_STEP_DIS" for p d
      proof -
        have "untouched ?s h p" using h(1) d own by (auto simp: signalled_def dozing_def off_timer_def)
        moreover have "ticked h s1 p" using eff d dis on1 own by (auto simp: dozing_def)
        moreover have "off_timer s' p"
          using d(1) h 2(4,6) tmr by (auto simp: dozing_def signalled_def off_timer_def objs_def clock_def)
        ultimately show ?thesis
          using d 2(3) task_tcbs [OF 2(7,5), of p] own'
          by (auto simp: dozing_def untouched_def ticked_def tick_tcb_dly)
      qed
      moreover have "OSTime s' = OSTime s1" "OSTickStepState s' = OSTickStepState s1"
        using 2(4) by (simp_all add: objs_def clock_def)
      ultimately show "?P s'" using 1 2 on1 leave ids st by simp
    qed
  qed
qed

text \<open>A number of ticks with nothing in between.\<close>

primrec tick_irqs :: "nat \<Rightarrow> kst \<Rightarrow> kst option" where
  "tick_irqs 0 s = Some s"
| "tick_irqs (Suc n) s = do { s \<leftarrow> tick_irqs n s; xPortSysTickHandler s }"

lemma tick_irqs_dozing:
  assumes "sinv s" "settled s" "OSRunning s" "OSIntNesting s < 255" "OSTickStepState s = OS_TICK_STEP_DIS"
    and "dozing s p d" "p \<noteq> 63" "p \<notin> rdy s" "d \<noteq> 0"
  shows "ok (tick_irqs n s) (\<lambda>s'. sinv s' \<and> settled s' \<and> ctl s' = ctl s \<and> OSTickStepState s' = OS_TICK_STEP_DIS
    \<and> dozing s' p (if n < unat d then d - of_nat n else 0) \<and> (p \<in> rdy s' \<longleftrightarrow> unat d \<le> n))"
proof (induction n)
  case 0
  then show ?case using assms by (simp add: unat_eq_0)
next
  case (Suc n)
  show ?case
    unfolding tick_irqs.simps
  proof (rule ok_bindI [OF Suc.IH], elim conjE)
    fix s1
    assume 1: "sinv s1" "settled s1" "ctl s1 = ctl s" "OSTickStepState s1 = OS_TICK_STEP_DIS"
      "dozing s1 p (if n < unat d then d - of_nat n else 0)" "p \<in> rdy s1 \<longleftrightarrow> unat d \<le> n"
    have on: "OSRunning s1" "OSIntNesting s1 < 255" using assms(3,4) 1(3) by (simp_all add: ctl_def)
    have sub: "unat (d - of_nat n) = unat d - n" if "n < unat d"
    proof -
      have n: "unat (of_nat n :: 32 word) = n" using that unat_lt_32 [of d] by (simp add: unat_of_nat)
      then have "of_nat n \<le> d" using that by (simp add: word_le_nat_alt)
      then show ?thesis using n by (simp add: unat_sub)
    qed
    have one: "d - of_nat n = 1 \<longleftrightarrow> unat d = Suc n" and zero: "d - of_nat n \<noteq> 0" if "n < unat d"
      using sub [OF that] that by (auto simp: word_unat_eq_iff)
    show "ok (xPortSysTickHandler s1) (\<lambda>s'. sinv s' \<and> settled s' \<and> ctl s' = ctl s
      \<and> OSTickStepState s' = OS_TICK_STEP_DIS
      \<and> dozing s' p (if Suc n < unat d then d - of_nat (Suc n) else 0) \<and> (p \<in> rdy s' \<longleftrightarrow> unat d \<le> Suc n))"
    proof (rule ok_mono [OF xPortSysTickHandler_ok [OF 1(1) on]], elim conjE)
      fix s'
      assume 2: "sinv s'" "settled s'" "ctl s' = ctl s1"
        "OSTickStepState s1 = OS_TICK_STEP_DIS \<longrightarrow> OSTickStepState s' = OS_TICK_STEP_DIS
        \<and> (\<forall>p d. dozing s1 p d \<longrightarrow> p \<noteq> 63 \<longrightarrow> dozing s' p (if d = 0 then 0 else d - 1)
             \<and> (p \<in> rdy s' \<longleftrightarrow> p \<in> rdy s1 \<or> d = 1))"
      define k where "k = (if n < unat d then d - of_nat n else 0)"
      have "dozing s' p (if k = 0 then 0 else k - 1)" "p \<in> rdy s' \<longleftrightarrow> p \<in> rdy s1 \<or> k = 1"
        using 2(4) 1(4) 1(5) [folded k_def] assms(7) by blast+
      moreover have "(if k = 0 then 0 else k - 1) = (if Suc n < unat d then d - of_nat (Suc n) else 0)"
        using one zero by (auto simp: k_def algebra_simps not_less_eq)
      moreover have "p \<in> rdy s1 \<or> k = 1 \<longleftrightarrow> unat d \<le> Suc n"
        using 1(6) one by (auto simp: k_def)
      ultimately show "sinv s' \<and> settled s' \<and> ctl s' = ctl s \<and> OSTickStepState s' = OS_TICK_STEP_DIS
        \<and> dozing s' p (if Suc n < unat d then d - of_nat (Suc n) else 0) \<and> (p \<in> rdy s' \<longleftrightarrow> unat d \<le> Suc n)"
        using 1 2 by simp
    qed
  qed
qed

end
