(* ===== verification/Os_Sem_Units.thy ===== *)
theory Os_Sem_Units
  imports Os_Sem Os_Time Os_Demo_Runs
begin

text \<open>
  The units of a semaphore over a whole run: tasks and interrupt handlers post and take, tasks wait with
  and without timeout, are aborted, delayed, preempted by ticks and by each other, in any order, on this
  semaphore and on others.  No unit is lost and none is handed out twice.
\<close>

section \<open>What the waiting of a task depends on\<close>

definition same_wait :: "os_tcb \<Rightarrow> os_tcb \<Rightarrow> bool" where
  "same_wait c c' \<longleftrightarrow> OSTCBStatPend c' = OSTCBStatPend c \<and> OSTCBDly c' = OSTCBDly c \<and> OSTCBStat c' = OSTCBStat c
     \<and> OSTCBEventMultiPtr c' = OSTCBEventMultiPtr c"

lemma same_wait_refl [simp]: "same_wait c c"
  and same_wait_trans: "same_wait c c' \<Longrightarrow> same_wait c' c'' \<Longrightarrow> same_wait c c''"
  by (simp_all add: same_wait_def)

lemma same_wait_tcbs: "tcbs s' t = tcbs s u \<Longrightarrow> same_wait (OSTCBTbl s u) (OSTCBTbl s' t)"
  by (cases "OSTCBTbl s' t"; cases "OSTCBTbl s u") (simp add: tcbs_def same_wait_def)

lemma same_wait_task: "tcbs s' = tcbs s \<Longrightarrow> ids s' = ids s \<Longrightarrow> same_wait (task s p) (task s' p)"
  using ids_PrioTbl [of s' s] same_wait_tcbs [of s' _ s] by (auto simp: task_def split: vptr.split)

text \<open>Only the running task changes.\<close>

lemma task_of_others:
  assumes inv: "sinv s" and ids: "ids s' = ids s" and t: "tcbs s' = (tcbs s)(cur_ix s := c)" and p: "owned s p" "p \<noteq> unat (OSPrioCur s)"
  shows "same_wait (task s p) (task s' p)"
proof -
  from p(1) obtain u where u: "owns s u p" by (rule ownedE)
  have u': "owns s' u p" using u owns_cong [OF ids] by simp
  have "u \<noteq> cur_ix s" using u sinv_cur(2) [OF inv] p(2) by (auto simp: owns_def)
  then show ?thesis using same_wait_tcbs [of s' u s u] t by (simp add: task_owns [OF u] task_owns [OF u'])
qed

lemma task_of_cur:
  assumes inv: "sinv s" and ids: "ids s' = ids s"
  shows "task s (unat (OSPrioCur s)) = OSTCBTbl s (cur_ix s)" "task s' (unat (OSPrioCur s)) = OSTCBTbl s' (cur_ix s)"
  using task_owns [OF sinv_cur(2) [OF inv]] task_owns [of s' "cur_ix s" "unat (OSPrioCur s)"] sinv_cur(2) [OF inv] owns_cong [OF ids]
  by simp_all

section \<open>Waiting, in detail\<close>

lemma OSSemPend_waits:
  assumes inv: "sinv s" and e: "e < OS_MAX_EVENTS" and k: "ev_type s e = OS_EVENT_TYPE_SEM" and idle: "may_block s"
    and run: "OSSemPend (EVp e) timeout s = Some (Waiting, s')"
  shows "kept s s' \<and> frames s s' \<and> OSIntNesting s = 0 \<and> OSLockNesting s = 0 \<and> rdy s' = rdy s - {unat (OSPrioCur s)}
    \<and> waiters s' = (waiters s)(e := insert (unat (OSPrioCur s)) (waiters s e)) \<and> ev_cnt s e = 0
    \<and> tcbs s' = (tcbs s)(cur_ix s := (tcbs s (cur_ix s))\<lparr>OSTCBStat := OSTCBStat (tcbs s (cur_ix s)) OR OS_STAT_SEM,
        OSTCBStatPend := OS_STAT_PEND_OK, OSTCBDly := timeout, OSTCBEventPtr := EVp e\<rparr>)"
proof -
  have nest: "OSIntNesting s = 0" "OSLockNesting s = 0" and zero: "ev_cnt s e = 0"
    using run e k by (auto simp: OSSemPend_def word_gt_0 split: if_splits)
  have no: "\<not> avail s e" using k zero by (simp add: avail_def)
  have b: "OSSemPend (EVp e) timeout s = do {
      s1 \<leftarrow> event_wait (EVp e) OS_STAT_SEM timeout s; s' \<leftarrow> OS_Sched s1; Some (Waiting, s') }"
    using nest zero e k by (simp add: OSSemPend_def)
  obtain s1 where r1: "event_wait (EVp e) OS_STAT_SEM timeout s = Some s1" and r2: "OS_Sched s1 = Some s'"
    using trans [OF b [symmetric] run] by (auto simp: bind_eq_Some_conv)
  have cur: "OSTCBCur s = TCBp (cur_ix s)" using sinv_cur(1) [OF inv] .
  have s1: "sinv s1" "frames s s1" "rdy s1 = rdy s - {unat (OSPrioCur s)}"
    "waiters s1 = (waiters s)(e := insert (unat (OSPrioCur s)) (waiters s e))"
    "OSTCBTbl s1 = (OSTCBTbl s)(cur_ix s := (OSTCBTbl s (cur_ix s))\<lparr>OSTCBStat := OSTCBStat (OSTCBTbl s (cur_ix s)) OR OS_STAT_SEM,
       OSTCBStatPend := OS_STAT_PEND_OK, OSTCBDly := timeout, OSTCBEventPtr := EVp e\<rparr>)"
    using event_wait_ok [OF inv cur _ e no, of OS_STAT_SEM timeout] idle k r1 by (auto simp: may_block_def)
  have q: "resched s1 s'" "sinv s'" "settled s'" "ctl s' = ctl s1" using OS_Sched_sinv [OF s1(1)] r2 by auto
  have "frames s s'" by (rule frames_trans [OF s1(2) reschedD(1) [OF q(1)]])
  moreover have "tcbs s1 = (tcbs s)(cur_ix s := (tcbs s (cur_ix s))\<lparr>OSTCBStat := OSTCBStat (tcbs s (cur_ix s)) OR OS_STAT_SEM,
        OSTCBStatPend := OS_STAT_PEND_OK, OSTCBDly := timeout, OSTCBEventPtr := EVp e\<rparr>)"
    by (simp add: tcbs_def s1(5) fun_eq_iff)
  ultimately show ?thesis using s1 q nest zero reschedD [OF q(1)] by (simp add: frames_def)
qed

section \<open>A tick, for the tasks off the timer's semaphore\<close>

lemma tick_effect:
  assumes inv: "sinv s" "settled s" and on: "OSRunning s" "OSIntNesting s < 255"
  shows "ok (xPortSysTickHandler s) (\<lambda>s'. sinv s' \<and> settled s' \<and> ctl s' = ctl s \<and> ids s' = ids s
    \<and> OSTmrSemSignal s' = OSTmrSemSignal s \<and> (\<forall>e. OSTmrSemSignal s \<noteq> EVp e \<longrightarrow> ev_data s' e = ev_data s e)
    \<and> (\<forall>e. waiters s' e \<subseteq> waiters s e) \<and> (\<forall>p e. off_timer s p \<longrightarrow> p \<in> waiters s e \<longrightarrow> p \<in> waiters s' e)
    \<and> (\<forall>p. owned s p \<and> off_timer s p \<longrightarrow> p \<noteq> 63
         \<longrightarrow> same_wait (task s p) (task s' p) \<and> (p \<in> rdy s' \<longleftrightarrow> p \<in> rdy s)
           \<or> same_wait (tick_tcb (task s p)) (task s' p)
             \<and> (p \<in> rdy s' \<longleftrightarrow> p \<in> rdy s \<or> OSTCBDly (task s p) = 1 \<and> \<not> suspended (task s p)))
    \<and> (\<forall>p. owned s p \<longrightarrow> OSTCBEventMultiPtr (task s p) = None \<longrightarrow> OSTCBEventMultiPtr (task s' p) = None))"
proof -
  let ?s = "OSIntEnter s"
  obtain s' where s': "xPortSysTickHandler s = Some s'" "sinv s'" "settled s'" "ctl s' = ctl s" "ids s' = ids s"
    using xPortSysTickHandler_ok [OF inv(1) on] by (auto simp: ok_iff)
  have isr: "OSIntNesting ?s \<noteq> 0" using on lock_inc by (simp add: OSIntEnter_def)
  have inv0: "sinv ?s" using OSIntEnter_sinv [OF inv(1)] by simp
  obtain s1 h where s1: "OSTimeTick ?s = Some s1" "sinv s1" "ctl s1 = ctl ?s" "OSTmrSemSignal s1 = OSTmrSemSignal ?s"
    and h: "signalled ?s h" "waiters s1 = waiters h" "ev_data s1 = ev_data h" "ids s1 = ids ?s"
    and eff: "\<And>p. owned ?s p \<Longrightarrow> (if OSRunning ?s \<and> OSTickStepState ?s \<noteq> OS_TICK_STEP_WAIT
        then ticked h s1 p else untouched h s1 p)"
    using OSTimeTick_ok [OF inv0 isr] unfolding ok_iff by blast
  have set1: "settled s1" using s1(3) isr by (simp add: settled_def ctl_def)
  have x: "OSIntExit s1 = Some s'" using s'(1) s1(1) by (simp add: xPortSysTickHandler_def Let_def)
  have s2: "rdy s' = rdy s1" "objs s' = objs s1" "waiters s' = waiters s1" "tcbs s' = tcbs s1" "ids s' = ids s1"
    using OSIntExit_sinv [OF s1(2)] x by auto
  have data: "ev_data ?s = ev_data s" by (simp add: OSIntEnter_def ev_data_def fun_eq_iff)
  have off: "off_timer ?s = off_timer s" by (simp add: off_timer_def fun_eq_iff)
  have own: "owned ?s = owned s" by (rule owned_cong) simp
  have "same_wait (task s p) (task s' p) \<and> (p \<in> rdy s' \<longleftrightarrow> p \<in> rdy s)
      \<or> same_wait (tick_tcb (task s p)) (task s' p)
        \<and> (p \<in> rdy s' \<longleftrightarrow> p \<in> rdy s \<or> OSTCBDly (task s p) = 1 \<and> \<not> suspended (task s p))"
    if p: "owned s p" "off_timer s p" "p \<noteq> 63" for p
  proof -
    have "untouched ?s h p" using h(1) p off own by (simp add: signalled_def)
    then have th: "task h p = task s p" "p \<in> rdy h \<longleftrightarrow> p \<in> rdy s" by (simp_all add: untouched_def)
    have t': "same_wait (task s1 p) (task s' p)" by (rule same_wait_task [OF s2(4,5)])
    show ?thesis using eff [of p] p own th t' by (auto simp: ticked_def untouched_def s2(1) split: if_splits)
  qed
  moreover have "OSTCBEventMultiPtr (task s' p) = None" if p: "owned s p" "OSTCBEventMultiPtr (task s p) = None" for p
  proof -
    have "OSTCBEventMultiPtr (task h p) = None" using h(1) p own by (simp add: signalled_def)
    then have "OSTCBEventMultiPtr (task s1 p) = None"
      using eff [of p] p own by (auto simp: ticked_def untouched_def tick_tcb_def time_out_def split: if_splits)
    moreover have "same_wait (task s1 p) (task s' p)" by (rule same_wait_task [OF s2(4,5)])
    ultimately show ?thesis by (simp add: same_wait_def)
  qed
  moreover have "\<forall>e. OSTmrSemSignal s \<noteq> EVp e \<longrightarrow> ev_data s' e = ev_data s e"
    using h(1,3) s2(2) data by (simp add: signalled_def objs_def)
  moreover have "OSTmrSemSignal s' = OSTmrSemSignal s" using s1(4) s2(2) by (simp add: objs_def clock_def)
  moreover have "\<forall>e. waiters s' e \<subseteq> waiters s e" "\<forall>p e. off_timer s p \<longrightarrow> p \<in> waiters s e \<longrightarrow> p \<in> waiters s' e"
    using h(1,2) s2(3) off by (simp_all add: signalled_def)
  ultimately show ?thesis using s' by simp
qed

section \<open>Steps\<close>

text \<open>
  \<open>C\<close> holds the priorities of the tasks that are inside \<open>OSSemPend\<close> on the semaphore \<open>e\<close>, between its two
  parts.  A step may give a unit to \<open>e\<close> (a post that succeeds) or take one from it (an accept that gets
  it, a pend that returns without error).  A call is made by an interrupt handler, or by the running
  task when it is not inside a pend itself, on this or another event.
\<close>

datatype mark = Quiet | Given | Taken

definition caller :: "kst \<Rightarrow> nat set \<Rightarrow> bool" where
  "caller s C \<longleftrightarrow> OSIntNesting s > 0
     \<or> unat (OSPrioCur s) \<notin> C \<and> (\<forall>e<OS_MAX_EVENTS. unat (OSPrioCur s) \<notin> waiters s e)"

inductive units_step :: "nat \<Rightarrow> kst \<Rightarrow> nat set \<Rightarrow> mark \<Rightarrow> kst \<Rightarrow> nat set \<Rightarrow> bool" for e where
  accept: "caller s C \<Longrightarrow> e' < OS_MAX_EVENTS \<Longrightarrow> OSSemAccept (EVp e') s = Some (n, s')
    \<Longrightarrow> units_step e s C (if e' = e \<and> n \<noteq> 0 then Taken else Quiet) s' C"
| post: "caller s C \<Longrightarrow> e' < OS_MAX_EVENTS \<Longrightarrow> OSSemPost (EVp e') s = Some (r, s')
    \<Longrightarrow> units_step e s C (if e' = e \<and> r = OS_ERR_NONE then Given else Quiet) s' C"
| pend: "caller s C \<Longrightarrow> may_block s \<Longrightarrow> e' < OS_MAX_EVENTS \<Longrightarrow> OSSemPend (EVp e') timeout s = Some (r, s')
    \<Longrightarrow> units_step e s C (if e' = e \<and> r = Returned OS_ERR_NONE then Taken else Quiet) s'
         (if e' = e \<and> r = Waiting then insert (unat (OSPrioCur s)) C else C)"
| resume: "OSIntNesting s = 0 \<Longrightarrow> OSLockNesting s = 0 \<Longrightarrow> unat (OSPrioCur s) \<in> C \<Longrightarrow> OSSemPend_resume (EVp e) s = Some (r, s')
    \<Longrightarrow> units_step e s C (if r = OS_ERR_NONE then Taken else Quiet) s' (C - {unat (OSPrioCur s)})"
| resume_other: "OSIntNesting s = 0 \<Longrightarrow> OSLockNesting s = 0 \<Longrightarrow> unat (OSPrioCur s) \<notin> C \<Longrightarrow> e' < OS_MAX_EVENTS \<Longrightarrow> e' \<noteq> e
    \<Longrightarrow> OSSemPend_resume (EVp e') s = Some (r, s') \<Longrightarrow> units_step e s C Quiet s' C"
| abort: "caller s C \<Longrightarrow> e' < OS_MAX_EVENTS \<Longrightarrow> OSSemPendAbort (EVp e') opt s = Some (r, s') \<Longrightarrow> units_step e s C Quiet s' C"
| delay: "caller s C \<Longrightarrow> may_block s \<Longrightarrow> OSTimeDly ticks s = Some s' \<Longrightarrow> units_step e s C Quiet s' C"
| tick: "OSIntNesting s < 255 \<Longrightarrow> xPortSysTickHandler s = Some s' \<Longrightarrow> units_step e s C Quiet s' C"
| enter: "units_step e s C Quiet (OSIntEnter s) C"
| exit: "OSIntExit s = Some s' \<Longrightarrow> units_step e s C Quiet s' C"
| lock: "caller s C \<Longrightarrow> units_step e s C Quiet (OSSchedLock s) C"
| unlock: "caller s C \<Longrightarrow> OSSchedUnlock s = Some s' \<Longrightarrow> units_step e s C Quiet s' C"

inductive_cases units_stepE: "units_step e s C n s' C'"

text \<open>A run, with the numbers of units given and taken.\<close>

inductive units_run :: "nat \<Rightarrow> kst \<Rightarrow> nat set \<Rightarrow> nat \<Rightarrow> nat \<Rightarrow> kst \<Rightarrow> nat set \<Rightarrow> bool" for e s C where
  start: "units_run e s C 0 0 s C"
| further: "units_run e s C given taken s1 C1 \<Longrightarrow> units_step e s1 C1 n s2 C2
    \<Longrightarrow> units_run e s C (if n = Given then Suc given else given) (if n = Taken then Suc taken else taken) s2 C2"

section \<open>The invariant\<close>

text \<open>
  A task inside the pend is in the wait list of \<open>e\<close> only.  While it really waits it is not ready and its
  state says so; once it has been given a unit, timed out or been aborted it has no delay left; after
  an abort it is off the list.
\<close>

definition inside :: "nat \<Rightarrow> kst \<Rightarrow> nat \<Rightarrow> bool" where
  "inside e s p \<longleftrightarrow> owned s p \<and> p \<noteq> 63 \<and> (\<forall>e'<OS_MAX_EVENTS. e' \<noteq> e \<longrightarrow> p \<notin> waiters s e')
     \<and> (p \<in> waiters s e \<and> OSTCBStatPend (task s p) = OS_STAT_PEND_OK
          \<longrightarrow> p \<notin> rdy s \<and> OSTCBStat (task s p) AND OS_STAT_PEND_ANY \<noteq> 0)
     \<and> (p \<notin> waiters s e \<or> OSTCBStatPend (task s p) \<noteq> OS_STAT_PEND_OK \<longrightarrow> OSTCBDly (task s p) = 0)
     \<and> (OSTCBStatPend (task s p) = OS_STAT_PEND_ABORT \<longrightarrow> p \<notin> waiters s e)"

definition units_inv :: "nat \<Rightarrow> kst \<Rightarrow> nat set \<Rightarrow> bool" where
  "units_inv e s C \<longleftrightarrow> sinv s \<and> settled s \<and> OSRunning s \<and> e < OS_MAX_EVENTS \<and> ev_type s e = OS_EVENT_TYPE_SEM
     \<and> OSTmrSemSignal s \<noteq> EVp e \<and> waiters s e \<subseteq> C \<and> (\<forall>p. owned s p \<longrightarrow> OSTCBEventMultiPtr (task s p) = None)
     \<and> (\<forall>p\<in>C. inside e s p)"

text \<open>The units that have been handed to tasks that have not yet run, and all units there are.\<close>

definition handed :: "nat \<Rightarrow> kst \<Rightarrow> nat set \<Rightarrow> nat set" where
  "handed e s C = {p \<in> C. p \<notin> waiters s e \<and> OSTCBStatPend (task s p) = OS_STAT_PEND_OK}"

definition units :: "nat \<Rightarrow> kst \<Rightarrow> nat set \<Rightarrow> nat" where
  "units e s C = unat (ev_cnt s e) + card (handed e s C)"

lemma units_invD:
  assumes "units_inv e s C"
  shows "sinv s" "settled s" "OSRunning s" "e < OS_MAX_EVENTS" "ev_type s e = OS_EVENT_TYPE_SEM" "OSTmrSemSignal s \<noteq> EVp e"
    "waiters s e \<subseteq> C" "\<And>p. owned s p \<Longrightarrow> OSTCBEventMultiPtr (task s p) = None" "\<And>p. p \<in> C \<Longrightarrow> inside e s p" "finite C"
proof -
  show "finite C"
  proof (rule finite_subset)
    show "C \<subseteq> {..<64}"
    proof
      fix p
      assume "p \<in> C"
      then have "owned s p" using assms by (simp add: units_inv_def inside_def)
      then show "p \<in> {..<64}" by (rule ownedE) (use owns_less_64 in auto)
    qed
  qed simp
qed (use assms in \<open>simp_all add: units_inv_def\<close>)

text \<open>What goes on beside the semaphore: nothing of it and of the tasks inside changes.\<close>

definition beside :: "nat \<Rightarrow> nat set \<Rightarrow> kst \<Rightarrow> kst \<Rightarrow> bool" where
  "beside e C s s' \<longleftrightarrow> ids s' = ids s \<and> ev_data s' e = ev_data s e \<and> OSTmrSemSignal s' = OSTmrSemSignal s
     \<and> waiters s' e = waiters s e
     \<and> (\<forall>p\<in>C. (\<forall>e'<OS_MAX_EVENTS. p \<in> waiters s' e' \<longrightarrow> p \<in> waiters s e') \<and> (p \<in> rdy s' \<longrightarrow> p \<in> rdy s)
          \<and> same_wait (task s p) (task s' p))
     \<and> (\<forall>p. owned s p \<longrightarrow> OSTCBEventMultiPtr (task s p) = None \<longrightarrow> OSTCBEventMultiPtr (task s' p) = None)"

lemma beside_refl [simp]: "beside e C s s"
  by (simp add: beside_def)

lemma beside_units:
  assumes inv: "units_inv e s C" and b: "beside e C s s'" and s': "sinv s'" "settled s'" "OSRunning s'"
  shows "units_inv e s' C \<and> units e s' C = units e s C"
proof -
  note i = units_invD [OF inv]
  have own: "owned s' = owned s" by (rule owned_cong) (use b in \<open>simp add: beside_def\<close>)
  have d: "ev_type s' e = ev_type s e" "ev_cnt s' e = ev_cnt s e" using b by (simp_all add: beside_def ev_data_def)
  have t: "same_wait (task s p) (task s' p)" if "p \<in> C" for p using b that by (simp add: beside_def)
  have "inside e s' p" if p: "p \<in> C" for p
    using i(9) [OF p] t [OF p] b p own by (auto simp: inside_def beside_def same_wait_def)
  then have "units_inv e s' C" using b s' i(4-8) own d by (auto simp: units_inv_def beside_def)
  moreover have "handed e s' C = handed e s C" using t b by (auto simp: handed_def beside_def same_wait_def)
  ultimately show ?thesis by (simp add: units_def d)
qed

section \<open>Steps beside the semaphore\<close>

lemma objs_fields: "objs s' = objs s \<Longrightarrow> ev_data s' = ev_data s \<and> OSTmrSemSignal s' = OSTmrSemSignal s"
  by (simp add: objs_def clock_def)

lemma same_wait_Multi: "same_wait c c' \<Longrightarrow> OSTCBEventMultiPtr c' = OSTCBEventMultiPtr c"
  by (simp add: same_wait_def)

lemma beside_all_same:
  assumes "ids s' = ids s" "objs s' = objs s" "waiters s' = waiters s" "rdy s' = rdy s" "tcbs s' = tcbs s"
  shows "beside e C s s'"
  using same_wait_task [OF assms(5,1)] objs_fields [OF assms(2)] assms by (simp add: beside_def same_wait_def)

lemma beside_count:
  assumes "e' \<noteq> e"
  shows "beside e C s (upd_ev e' (\<lambda>c. c\<lparr>OSEventCnt := f (OSEventCnt c)\<rparr>) s)"
proof -
  let ?s = "upd_ev e' (\<lambda>c. c\<lparr>OSEventCnt := f (OSEventCnt c)\<rparr>) s"
  have "task ?s = task s" by (rule task_cong) simp_all
  moreover have "ev_data ?s e = ev_data s e" using assms by (simp add: upd_ev_def ev_data_def)
  moreover have "OSTmrSemSignal ?s = OSTmrSemSignal s" by (simp add: upd_ev_def)
  ultimately show ?thesis by (simp add: beside_def)
qed

lemma beside_readied:
  assumes inv: "units_inv e s C" and e': "e' < OS_MAX_EVENTS" "e' \<noteq> e" and W: "W \<subseteq> waiters s e'"
    and r: "all_readied e' W m msk st s s1" "resched s1 s'"
  shows "beside e C s s'"
proof -
  note i = units_invD [OF inv]
  note q = reschedD [OF r(2)]
  have out: "p \<notin> W" if "p \<in> C" for p using i(9) [OF that] W e' by (auto simp: inside_def)
  have own: "owned s p" if "p \<in> C" for p using i(9) [OF that] by (simp add: inside_def)
  have fr: "ids s1 = ids s" "objs s1 = objs s" using r(1) by (simp_all add: all_readied_def frames_def)
  have t: "same_wait (task s1 p) (task s' p)" for p by (rule same_wait_task [OF q(4,5)])
  have w: "waiters s1 e' \<subseteq> waiters s e'" "waiters s e' - W \<subseteq> waiters s1 e'" for e' using r(1) by (simp_all add: all_readied_def)
  have "waiters s1 e = waiters s e" using w [of e] i(7) out by blast
  moreover have "task s1 p = task s p" if "p \<in> C" for p using r(1) out [OF that] own [OF that] by (simp add: all_readied_def)
  moreover have "p \<in> rdy s1 \<longrightarrow> p \<in> rdy s" if "p \<in> C" for p using r(1) out [OF that] by (simp add: all_readied_def)
  moreover have "OSTCBEventMultiPtr (task s' p) = None" if "owned s p" "OSTCBEventMultiPtr (task s p) = None" for p
    using same_wait_Multi [OF t [of p]] r(1) that by (cases "p \<in> W") (auto simp: all_readied_def woken_def)
  moreover have "p \<in> waiters s e'" if "p \<in> waiters s' e'" for p e' using that w(1) [of e'] q(3) by auto
  moreover have "same_wait (task s p) (task s' p)" if "p \<in> C" for p using t [of p] calculation(2) [OF that] by simp
  ultimately show ?thesis
    using fr q objs_fields [OF q(6)] objs_fields [OF fr(2)] by (simp add: beside_def)
qed

lemma beside_cur:
  assumes inv: "units_inv e s C" and q: "unat (OSPrioCur s) \<notin> C"
    and fr: "ids s' = ids s" "objs s' = objs s" and t: "tcbs s' = (tcbs s)(cur_ix s := c)"
    and c: "OSTCBEventMultiPtr c = OSTCBEventMultiPtr (tcbs s (cur_ix s)) \<or> OSTCBEventMultiPtr c = None"
    and w: "waiters s' e = waiters s e" "\<And>p e'. p \<noteq> unat (OSPrioCur s) \<Longrightarrow> p \<in> waiters s' e' \<Longrightarrow> p \<in> waiters s e'"
    and r: "rdy s' \<subseteq> rdy s"
  shows "beside e C s s'"
proof -
  note i = units_invD [OF inv]
  have own: "owned s p" if "p \<in> C" for p using i(9) [OF that] by (simp add: inside_def)
  have ne: "p \<noteq> unat (OSPrioCur s)" if "p \<in> C" for p using that q by auto
  have others: "same_wait (task s p) (task s' p)" if "owned s p" "p \<noteq> unat (OSPrioCur s)" for p
    by (rule task_of_others [OF i(1) fr(1) t that])
  have "OSTCBEventMultiPtr (task s' p) = None" if "owned s p" "OSTCBEventMultiPtr (task s p) = None" for p
  proof (cases "p = unat (OSPrioCur s)")
    case True
    have "tcbs s' (cur_ix s) = c" using t by simp
    then have "OSTCBEventMultiPtr (OSTCBTbl s' (cur_ix s)) = OSTCBEventMultiPtr c" by (auto simp: tcbs_def)
    then show ?thesis using c that(2) task_of_cur [OF i(1) fr(1)] True by (auto simp: tcbs_def)
  next
    case False
    from same_wait_Multi [OF others [OF that(1) False]] that(2) show ?thesis by simp
  qed
  then show ?thesis
    using objs_fields [OF fr(2)] fr w(1) w(2) r others [OF own ne] ne by (auto simp: beside_def)
qed

section \<open>Steps on the semaphore\<close>

definition balance :: "nat \<Rightarrow> mark \<Rightarrow> kst \<Rightarrow> nat set \<Rightarrow> kst \<Rightarrow> nat set \<Rightarrow> bool" where
  "balance e n s C s' C' \<longleftrightarrow> units_inv e s' C'
     \<and> units e s' C' + (if n = Taken then 1 else 0) = units e s C + (if n = Given then 1 else 0)"

lemma balance_beside:
  assumes "units_inv e s C" "beside e C s s'" "sinv s'" "settled s'" "OSRunning s'"
  shows "balance e Quiet s C s' C"
  using beside_units [OF assms] by (simp add: balance_def)

lemma balance_same [simp]: "units_inv e s C \<Longrightarrow> balance e Quiet s C s C"
  by (simp add: balance_def)

lemma kept_running:
  assumes "units_inv e s C" "kept s s'"
  shows "sinv s'" "settled s'" "OSRunning s'"
  using assms units_invD(2,3) [OF assms(1)] by (simp_all add: ctl_def)

text \<open>The count changes, the tasks do not.\<close>

lemma count_units:
  assumes inv: "units_inv e s C" and s': "s' = upd_ev e (\<lambda>c. c\<lparr>OSEventCnt := f (OSEventCnt c)\<rparr>) s" "sinv s'" "settled s'" "OSRunning s'"
  shows "units_inv e s' C" "units e s' C = unat (f (ev_cnt s e)) + card (handed e s C)"
proof -
  note i = units_invD [OF inv]
  have v: "ids s' = ids s" "waiters s' = waiters s" "rdy s' = rdy s" "OSTmrSemSignal s' = OSTmrSemSignal s"
    "ev_type s' e = ev_type s e" "ev_cnt s' e = f (ev_cnt s e)"
    by (simp_all add: s'(1)) (simp_all add: upd_ev_def)
  have t: "task s' = task s" unfolding s'(1) by (rule task_cong) simp_all
  have own: "owned s' = owned s" by (rule owned_cong [OF v(1)])
  show "units_inv e s' C" using i s'(2-4) by (simp add: units_inv_def inside_def v t own)
  show "units e s' C = unat (f (ev_cnt s e)) + card (handed e s C)" by (simp add: units_def handed_def v t)
qed

text \<open>Tasks are taken off the list: they have a unit each, or an error each.\<close>

lemma wake_units:
  assumes inv: "units_inv e s C" and W: "W \<subseteq> waiters s e" and st: "st = OS_STAT_PEND_OK \<or> st = OS_STAT_PEND_ABORT"
    and r: "all_readied e W m msk st s s1" "resched s1 s'" and s': "sinv s'" "settled s'" "OSRunning s'"
  shows "units_inv e s' C" "units e s' C = units e s C + (if st = OS_STAT_PEND_OK then card W else 0)"
proof -
  note i = units_invD [OF inv]
  note q = reschedD [OF r(2)]
  have fr: "ids s' = ids s" "objs s' = objs s" using r(1) q by (simp_all add: all_readied_def frames_def)
  have d: "ev_type s' e = ev_type s e" "ev_cnt s' e = ev_cnt s e" "OSTmrSemSignal s' = OSTmrSemSignal s"
    using objs_fields [OF fr(2)] by (auto simp: ev_data_def fun_eq_iff)
  have own: "owned s' = owned s" by (rule owned_cong [OF fr(1)])
  have t: "same_wait (task s1 p) (task s' p)" for p by (rule same_wait_task [OF q(4,5)])
  have w: "waiters s' e = waiters s e - W" "\<And>e'. waiters s' e' \<subseteq> waiters s e'" using r(1) q(3) by (simp_all add: all_readied_def)
  have woken: "OSTCBStatPend (task s' p) = st" "OSTCBDly (task s' p) = 0" "OSTCBEventMultiPtr (task s' p) = None" if "p \<in> W" for p
    using r(1) t [of p] that by (simp_all add: all_readied_def woken_def same_wait_def)
  have other: "same_wait (task s p) (task s' p)" if "owned s p" "p \<notin> W" for p using r(1) t [of p] that by (simp add: all_readied_def)
  have rdy: "p \<in> rdy s" if "p \<in> rdy s'" "p \<notin> W" for p using r(1) q(2) that by (auto simp: all_readied_def)
  have C: "p \<in> C" if "p \<in> W" for p using that W i(7) by blast
  have "inside e s' p" if p: "p \<in> C" for p
  proof (cases "p \<in> W")
    case True
    have "\<forall>e'<OS_MAX_EVENTS. e' \<noteq> e \<longrightarrow> p \<notin> waiters s' e'" "owned s p" "p \<noteq> 63"
      using i(9) [OF p] w(2) by (auto simp: inside_def)
    then show ?thesis using woken [OF True] w(1) True by (simp add: inside_def own)
  next
    case False
    have o: "owned s p" using i(9) [OF p] by (simp add: inside_def)
    have "p \<in> waiters s' e \<longleftrightarrow> p \<in> waiters s e" using False w(1) by simp
    then show ?thesis
      using i(9) [OF p] other [OF o False] w(2) rdy [OF _ False] by (auto simp: inside_def own same_wait_def)
  qed
  moreover have "OSTCBEventMultiPtr (task s' p) = None" if "owned s p" for p
    using i(8) [OF that] woken(3) same_wait_Multi [OF other [OF that]] by (cases "p \<in> W") simp_all
  moreover have "waiters s' e \<subseteq> C" using w(1) i(7) by blast
  ultimately show "units_inv e s' C" using s' i(4-6) by (simp add: units_inv_def own d)
  have "p \<in> handed e s' C \<longleftrightarrow> p \<in> handed e s C \<or> st = OS_STAT_PEND_OK \<and> p \<in> W" for p
  proof (cases "p \<in> C \<and> p \<notin> W")
    case True
    then have "owned s p" using i(9) [of p] by (simp add: inside_def)
    then show ?thesis using other [of p] True w(1) by (auto simp: handed_def same_wait_def)
  next
    case False
    then show ?thesis using C [of p] woken(1) [of p] w(1) W by (auto simp: handed_def)
  qed
  then have "handed e s' C = handed e s C \<union> (if st = OS_STAT_PEND_OK then W else {})" by auto
  moreover have "handed e s C \<inter> W = {}" using W by (auto simp: handed_def)
  moreover have "finite (handed e s C)" "finite W" using i(10) finite_subset [of W C] C by (auto simp: handed_def)
  ultimately show "units e s' C = units e s C + (if st = OS_STAT_PEND_OK then card W else 0)"
    by (simp add: units_def d card_Un_disjoint)
qed

text \<open>The running task goes inside.\<close>

lemma wait_units:
  assumes inv: "units_inv e s C" and q: "unat (OSPrioCur s) \<notin> C" and idle: "may_block s" and s': "sinv s'" "settled s'" "OSRunning s'"
    and fr: "frames s s'" and rdy: "rdy s' = rdy s - {unat (OSPrioCur s)}"
    and w: "waiters s' = (waiters s)(e := insert (unat (OSPrioCur s)) (waiters s e))"
    and t: "tcbs s' = (tcbs s)(cur_ix s := (tcbs s (cur_ix s))\<lparr>OSTCBStat := OSTCBStat (tcbs s (cur_ix s)) OR OS_STAT_SEM,
        OSTCBStatPend := OS_STAT_PEND_OK, OSTCBDly := timeout, OSTCBEventPtr := EVp e\<rparr>)"
    and free: "\<forall>e'<OS_MAX_EVENTS. e' \<noteq> e \<longrightarrow> unat (OSPrioCur s) \<notin> waiters s e'"
  shows "units_inv e s' (insert (unat (OSPrioCur s)) C) \<and> units e s' (insert (unat (OSPrioCur s)) C) = units e s C"
proof -
  note i = units_invD [OF inv]
  let ?q = "unat (OSPrioCur s)"
  have ids: "ids s' = ids s" "objs s' = objs s" using fr by (simp_all add: frames_def)
  have d: "ev_type s' e = ev_type s e" "ev_cnt s' e = ev_cnt s e" "OSTmrSemSignal s' = OSTmrSemSignal s"
    using objs_fields [OF ids(2)] by (auto simp: ev_data_def fun_eq_iff)
  have own: "owned s' = owned s" by (rule owned_cong [OF ids(1)])
  have oq: "owned s ?q" using sinv_cur(2) [OF i(1)] owns_owned by blast
  have q63: "?q \<noteq> 63" using idle by (simp add: may_block_def word_unat_eq_iff)
  have "tcbs s' (cur_ix s) = (tcbs s (cur_ix s))\<lparr>OSTCBStat := OSTCBStat (tcbs s (cur_ix s)) OR OS_STAT_SEM,
        OSTCBStatPend := OS_STAT_PEND_OK, OSTCBDly := timeout, OSTCBEventPtr := EVp e\<rparr>" using t by simp
  then have tq: "(OSTCBTbl s' (cur_ix s))\<lparr>OSTCBCtxSwCtr := 0\<rparr> = (OSTCBTbl s (cur_ix s))\<lparr>OSTCBCtxSwCtr := 0,
      OSTCBStat := OSTCBStat (OSTCBTbl s (cur_ix s)) OR OS_STAT_SEM, OSTCBStatPend := OS_STAT_PEND_OK, OSTCBDly := timeout,
      OSTCBEventPtr := EVp e\<rparr>" by (simp add: tcbs_def)
  have cq: "OSTCBStat (task s' ?q) = OSTCBStat (task s ?q) OR OS_STAT_SEM" "OSTCBStatPend (task s' ?q) = OS_STAT_PEND_OK"
    "OSTCBEventMultiPtr (task s' ?q) = OSTCBEventMultiPtr (task s ?q)"
    unfolding task_of_cur [OF i(1) ids(1)]
    using arg_cong [OF tq, of OSTCBStat] arg_cong [OF tq, of OSTCBStatPend] arg_cong [OF tq, of OSTCBEventMultiPtr] by simp_all
  have others: "same_wait (task s p) (task s' p)" if "owned s p" "p \<noteq> ?q" for p
    by (rule task_of_others [OF i(1) ids(1) t that])
  have "(x OR OS_STAT_SEM) AND OS_STAT_PEND_ANY \<noteq> 0" for x :: "8 word"
  proof
    assume "(x OR OS_STAT_SEM) AND OS_STAT_PEND_ANY = 0"
    then have "bit ((x OR OS_STAT_SEM) AND OS_STAT_PEND_ANY) 0 = bit (0 :: 8 word) 0" by simp
    then show False by (simp add: bit_simps)
  qed
  then have "inside e s' ?q" using cq oq q63 free by (simp add: inside_def own rdy w)
  moreover have "inside e s' p" if p: "p \<in> C" for p
  proof -
    have pq: "p \<noteq> ?q" and o: "owned s p" using p q i(9) [OF p] by (auto simp: inside_def)
    have "p \<in> waiters s' e' \<longleftrightarrow> p \<in> waiters s e'" "p \<in> rdy s' \<longleftrightarrow> p \<in> rdy s" for e' using pq by (simp_all add: w rdy)
    then show ?thesis using i(9) [OF p] others [OF o pq] by (simp add: inside_def own same_wait_def)
  qed
  moreover have "OSTCBEventMultiPtr (task s' p) = None" if "owned s p" for p
    using i(8) [OF that] cq(3) same_wait_Multi [OF others [OF that]] by (cases "p = ?q") simp_all
  moreover have "waiters s' e \<subseteq> insert ?q C" using i(7) by (auto simp: w)
  ultimately have "units_inv e s' (insert ?q C)" using s' i(4-6) by (simp add: units_inv_def own d)
  moreover have "p \<in> handed e s' (insert ?q C) \<longleftrightarrow> p \<in> handed e s C" for p
  proof (cases "p \<in> C")
    case True
    then have "p \<noteq> ?q" "owned s p" using q i(9) [OF True] by (auto simp: inside_def)
    then show ?thesis using others [of p] True by (auto simp: handed_def same_wait_def w)
  qed (auto simp: handed_def w)
  then have "handed e s' (insert ?q C) = handed e s C" by blast
  ultimately show ?thesis by (simp add: units_def d)
qed

text \<open>A task inside runs again: it leaves with its unit, or with an error.\<close>

lemma resume_units:
  assumes inv: "units_inv e s C" and nest: "OSIntNesting s = 0" "OSLockNesting s = 0" and q: "unat (OSPrioCur s) \<in> C"
    and r: "resumed e s (m, r) s'"
  shows "balance e (if r = OS_ERR_NONE then Taken else Quiet) s C s' (C - {unat (OSPrioCur s)})"
proof -
  note i = units_invD [OF inv]
  let ?q = "unat (OSPrioCur s)" and ?c = "task s (unat (OSPrioCur s))"
  have k: "kept s s'" by (rule resumed_kept [OF r])
  note s' = kept_running [OF inv k]
  have ids: "ids s' = ids s" "objs s' = objs s" "rdy s' = rdy s" using r by (simp_all add: resumed_def frames_def)
  have d: "ev_type s' e = ev_type s e" "ev_cnt s' e = ev_cnt s e" "OSTmrSemSignal s' = OSTmrSemSignal s"
    using objs_fields [OF ids(2)] by (auto simp: ev_data_def fun_eq_iff)
  have own: "owned s' = owned s" by (rule owned_cong [OF ids(1)])
  note cq = task_of_cur [OF i(1) ids(1)]
  have w: "waiters s' = (if OSTCBStatPend ?c = OS_STAT_PEND_TO then leave ?q {e} (waiters s) else waiters s)"
    and res: "r = (case OSTCBStatPend ?c of OS_STAT_PEND_OK \<Rightarrow> OS_ERR_NONE | OS_STAT_PEND_ABORT \<Rightarrow> OS_ERR_PEND_ABORT
      | OS_STAT_PEND_TO \<Rightarrow> OS_ERR_TIMEOUT)"
    using r by (auto simp: resumed_def cq(1) split: pend_status.splits)
  have t: "OSTCBTbl s' = (OSTCBTbl s)(cur_ix s := (OSTCBTbl s (cur_ix s))\<lparr>OSTCBStat := OS_STAT_RDY,
        OSTCBStatPend := OS_STAT_PEND_OK, OSTCBEventPtr := NULL, OSTCBEventMultiPtr := None, OSTCBEventMultiRdy := NULL\<rparr>)"
    using r by (simp add: resumed_def)
  have tc: "tcbs s' = (tcbs s)(cur_ix s := tcbs s' (cur_ix s))" by (auto simp: tcbs_def t fun_eq_iff)
  have others: "same_wait (task s p) (task s' p)" if "owned s p" "p \<noteq> ?q" for p
    by (rule task_of_others [OF i(1) ids(1) tc that])
  have ready: "?q \<in> rdy s"
    using i(2) nest highest_ready(3) [OF sinvD(2) [OF i(1)]] by (simp add: settled_def)
  have off: "?q \<notin> waiters s' e"
    using i(9) [OF q] ready by (cases "OSTCBStatPend ?c") (auto simp: inside_def w leave_def)
  have "inside e s' p" if p: "p \<in> C - {?q}" for p
  proof -
    have pq: "p \<noteq> ?q" and o: "owned s p" and pi: "inside e s p" using p i(9) [of p] by (auto simp: inside_def)
    have "p \<in> waiters s' e' \<longleftrightarrow> p \<in> waiters s e'" for e' using pq by (simp add: w leave_def)
    then show ?thesis using pi others [OF o pq] by (simp add: inside_def own same_wait_def ids(3))
  qed
  moreover have "OSTCBEventMultiPtr (task s' p) = None" if "owned s p" for p
    using i(8) [OF that] same_wait_Multi [OF others [OF that]] cq(2) by (cases "p = ?q") (simp_all add: t)
  moreover have "waiters s' e \<subseteq> C - {?q}" using i(7) off by (auto simp: w leave_def split: if_splits)
  ultimately have inv': "units_inv e s' (C - {?q})" using s' i(4-6) by (simp add: units_inv_def own d)
  have h: "handed e s' (C - {?q}) = handed e s C - {?q}"
  proof -
    have "p \<in> handed e s' (C - {?q}) \<longleftrightarrow> p \<in> handed e s C" if p: "p \<in> C" "p \<noteq> ?q" for p
    proof -
      have "owned s p" using i(9) [OF p(1)] by (simp add: inside_def)
      moreover have "p \<in> waiters s' e \<longleftrightarrow> p \<in> waiters s e" using p(2) by (simp add: w leave_def)
      ultimately show ?thesis using others [of p] p by (simp add: handed_def same_wait_def)
    qed
    then show ?thesis by (auto simp: handed_def)
  qed
  have fin: "finite (handed e s C)" using i(10) by (simp add: handed_def)
  have none: "r = OS_ERR_NONE \<longleftrightarrow> OSTCBStatPend ?c = OS_STAT_PEND_OK" by (simp add: res split: pend_status.split)
  have "?q \<in> handed e s C \<longleftrightarrow> r = OS_ERR_NONE"
    using q i(9) [OF q] ready by (auto simp: handed_def none inside_def)
  then have "card (handed e s' (C - {?q})) + (if r = OS_ERR_NONE then 1 else 0) = card (handed e s C)"
    using fin card.remove [OF fin, of ?q] by (cases "r = OS_ERR_NONE") (simp_all add: h)
  then show ?thesis using inv' by (simp add: balance_def units_def d split: if_splits)
qed

text \<open>A tick: the tasks that time out keep their place in the list until they run.\<close>

lemma tick_units:
  assumes inv: "units_inv e s C" and nest: "OSIntNesting s < 255"
  shows "ok (xPortSysTickHandler s) (\<lambda>s'. balance e Quiet s C s' C)"
proof -
  note i = units_invD [OF inv]
  show ?thesis
  proof (rule ok_mono [OF tick_effect [OF i(1-3) nest]], elim conjE)
    fix s'
    assume s': "sinv s'" "settled s'" "ctl s' = ctl s" "ids s' = ids s" "OSTmrSemSignal s' = OSTmrSemSignal s"
      "\<forall>e. OSTmrSemSignal s \<noteq> EVp e \<longrightarrow> ev_data s' e = ev_data s e"
      and w: "\<forall>e. waiters s' e \<subseteq> waiters s e" "\<forall>p e. off_timer s p \<longrightarrow> p \<in> waiters s e \<longrightarrow> p \<in> waiters s' e"
      and t: "\<forall>p. owned s p \<and> off_timer s p \<longrightarrow> p \<noteq> 63
         \<longrightarrow> same_wait (task s p) (task s' p) \<and> (p \<in> rdy s' \<longleftrightarrow> p \<in> rdy s)
           \<or> same_wait (tick_tcb (task s p)) (task s' p)
             \<and> (p \<in> rdy s' \<longleftrightarrow> p \<in> rdy s \<or> OSTCBDly (task s p) = 1 \<and> \<not> suspended (task s p))"
      and multi: "\<forall>p. owned s p \<longrightarrow> OSTCBEventMultiPtr (task s p) = None \<longrightarrow> OSTCBEventMultiPtr (task s' p) = None"
    have own: "owned s' = owned s" by (rule owned_cong [OF s'(4)])
    have d: "ev_type s' e = ev_type s e" "ev_cnt s' e = ev_cnt s e" using s'(6) i(6) by (simp_all add: ev_data_def)
    have off: "off_timer s p" if p: "p \<in> C" for p
    proof -
      have "valid_ev (OSTmrSemSignal s)" using sinvD(4) [OF i(1)] by (rule oinvD(5))
      then show ?thesis using i(6) i(9) [OF p] by (auto simp: off_timer_def valid_ev_def inside_def)
    qed
    have step: "inside e s' p \<and> (p \<in> handed e s' C \<longleftrightarrow> p \<in> handed e s C)" if p: "p \<in> C" for p
    proof -
      have "inside e s p" by (rule i(9) [OF p])
      moreover have "p \<in> waiters s' e' \<longleftrightarrow> p \<in> waiters s e'" for e' using w off [OF p] by blast
      ultimately show ?thesis
        using t [rule_format, of p] off [OF p] p
        by (auto simp: inside_def handed_def own same_wait_def tick_tcb_def time_out_def split: if_splits)
    qed
    have "OSTCBEventMultiPtr (task s' p) = None" if "owned s p" for p using multi i(8) that by simp
    moreover have "handed e s' C = handed e s C" using step by (auto simp: handed_def)
    moreover have "waiters s' e \<subseteq> C" using w(1) i(7) by blast
    ultimately show "balance e Quiet s C s' C"
      using step s'(1-3,5) i(3-6) by (simp add: balance_def units_inv_def units_def own d ctl_def)
  qed
qed

section \<open>Each step\<close>

lemma unat_succ: "(n :: 16 word) < 65535 \<Longrightarrow> unat (n + 1) = Suc (unat n)"
  by (simp add: unat_word_ariths word_less_nat_alt)

lemma OSSchedUnlock_views:
  assumes "sinv s" "OSSchedUnlock s = Some s'"
  shows "ids s' = ids s \<and> objs s' = objs s \<and> waiters s' = waiters s \<and> rdy s' = rdy s \<and> tcbs s' = tcbs s
    \<and> OSRunning s' = OSRunning s"
proof -
  define s1 where "s1 = s\<lparr>OSLockNesting := OSLockNesting s - 1\<rparr>"
  have s1: "sinv s1" "ids s1 = ids s" "objs s1 = objs s" "waiters s1 = waiters s" "rdy s1 = rdy s" "tcbs s1 = tcbs s"
    "OSRunning s1 = OSRunning s"
    using assms(1) by (simp_all add: s1_def sinv_nesting waiters_def tcbs_def fun_eq_iff)
  consider "s' = s" | "s' = s1" | "OS_Sched s1 = Some s'"
  proof (cases "OSRunning s \<and> OSIntNesting s = 0 \<and> OSLockNesting s > 0")
    case True
    then have "(if OSLockNesting s1 = 0 then OS_Sched s1 else Some s1) = Some s'"
      using assms(2) unfolding OSSchedUnlock_def Let_def s1_def [symmetric] by simp
    then show ?thesis using that(2,3) by (cases "OSLockNesting s1 = 0") simp_all
  next
    case False
    then have "s' = s" using assms(2) unfolding OSSchedUnlock_def by (cases "OSRunning s"; cases "OSIntNesting s = 0") simp_all
    then show ?thesis by (rule that(1))
  qed
  then show ?thesis
  proof cases
    case 3
    then have r: "resched s1 s'" using OS_Sched_sinv [OF s1(1)] by simp
    show ?thesis using reschedD [OF r] s1 by (simp add: ctl_def)
  qed (simp_all add: s1)
qed

lemma post_units:
  assumes inv: "units_inv e s C" and e': "e' < OS_MAX_EVENTS" and run: "OSSemPost (EVp e') s = Some (r, s')"
  shows "balance e (if e' = e \<and> r = OS_ERR_NONE then Given else Quiet) s C s' C"
proof (cases "ev_type s e' = OS_EVENT_TYPE_SEM")
  case False
  then have "s' = s" "e' \<noteq> e" using run e' units_invD(5) [OF inv] by (auto simp: OSSemPost_def)
  then show ?thesis using inv by simp
next
  case True
  note i = units_invD [OF inv]
  have k: "kept s s'" and eff: "if waiters s e' \<noteq> {} then r = OS_ERR_NONE
         \<and> (\<exists>s1. readied e' (Min (waiters s e')) NULL OS_STAT_SEM OS_STAT_PEND_OK s s1 \<and> resched s1 s')
       else if ev_cnt s e' < 65535 then r = OS_ERR_NONE
         \<and> s' = upd_ev e' (\<lambda>c. c\<lparr>OSEventCnt := OSEventCnt c + 1\<rparr>) s
       else r = OS_ERR_SEM_OVF \<and> s' = s"
    using OSSemPost_sem [OF i(1) e' True] run by (auto split: if_splits)
  note s' = kept_running [OF inv k]
  consider (wake) s1 where "waiters s e' \<noteq> {}" "r = OS_ERR_NONE"
      "readied e' (Min (waiters s e')) NULL OS_STAT_SEM OS_STAT_PEND_OK s s1" "resched s1 s'"
    | (count) "ev_cnt s e' < 65535" "r = OS_ERR_NONE" "s' = upd_ev e' (\<lambda>c. c\<lparr>OSEventCnt := OSEventCnt c + 1\<rparr>) s"
    | (full) "r \<noteq> OS_ERR_NONE" "s' = s"
    using eff by (auto split: if_splits)
  then show ?thesis
  proof cases
    case wake
    have W: "{Min (waiters s e')} \<subseteq> waiters s e'" using wake(1) by simp
    note r = readied_all_readied [OF wake(3)]
    show ?thesis
    proof (cases "e' = e")
      case True
      with wake_units [OF inv W [unfolded True] _ r [unfolded True] wake(4) s'] wake(2) show ?thesis by (simp add: balance_def)
    next
      case False
      with balance_beside [OF inv beside_readied [OF inv e' False W r wake(4)] s'] show ?thesis by simp
    qed
  next
    case count
    show ?thesis
    proof (cases "e' = e")
      case True
      have c: "s' = upd_ev e (\<lambda>c. c\<lparr>OSEventCnt := OSEventCnt c + 1\<rparr>) s" using count(3) True by simp
      show ?thesis using count_units [OF inv c s'] count(1,2) True by (simp add: balance_def units_def unat_succ)
    next
      case False
      have b: "beside e C s s'" unfolding count(3) by (rule beside_count [OF False])
      show ?thesis using balance_beside [OF inv b s'] False by simp
    qed
  qed (use inv in simp)
qed

lemma take_units:
  assumes inv: "units_inv e s C" and k: "kept s s'" and pos: "ev_cnt s e' > 0"
    and s': "s' = upd_ev e' (\<lambda>c. c\<lparr>OSEventCnt := OSEventCnt c - 1\<rparr>) s"
  shows "balance e (if e' = e then Taken else Quiet) s C s' C"
proof (cases "e' = e")
  case True
  have c: "s' = upd_ev e (\<lambda>c. c\<lparr>OSEventCnt := OSEventCnt c - 1\<rparr>) s" using s' True by simp
  have "unat (ev_cnt s e - 1) + 1 = unat (ev_cnt s e)" using pos True by (simp add: unat_minus_one word_gt_0 unat_gt_0)
  then show ?thesis using count_units [OF inv c kept_running [OF inv k]] True by (simp add: balance_def units_def)
next
  case False
  have b: "beside e C s s'" unfolding s' by (rule beside_count [OF False])
  show ?thesis using balance_beside [OF inv b kept_running [OF inv k]] False by simp
qed

lemma accept_units:
  assumes inv: "units_inv e s C" and e': "e' < OS_MAX_EVENTS" and run: "OSSemAccept (EVp e') s = Some (n, s')"
  shows "balance e (if e' = e \<and> n \<noteq> 0 then Taken else Quiet) s C s' C"
proof (cases "ev_type s e' = OS_EVENT_TYPE_SEM \<and> ev_cnt s e' > 0")
  case False
  then have "s' = s" "e' = e \<Longrightarrow> n = 0" using run e' units_invD(5) [OF inv] by (auto simp: OSSemAccept_def Let_def word_gt_0 split: if_splits)
  then show ?thesis using inv by auto
next
  case True
  have k: "kept s s'" and s': "n = ev_cnt s e'" "s' = upd_ev e' (\<lambda>c. c\<lparr>OSEventCnt := OSEventCnt c - 1\<rparr>) s"
    using OSSemAccept_sem [OF units_invD(1) [OF inv] e'] True run by auto
  have "n \<noteq> 0" using s'(1) True by auto
  then show ?thesis using take_units [OF inv k _ s'(2)] True by simp
qed

lemma abort_units:
  assumes inv: "units_inv e s C" and e': "e' < OS_MAX_EVENTS" and run: "OSSemPendAbort (EVp e') opt s = Some (r, s')"
  shows "balance e Quiet s C s' C"
proof (cases "ev_type s e' = OS_EVENT_TYPE_SEM \<and> waiters s e' \<noteq> {}")
  case False
  have "s' = s"
  proof (cases "ev_type s e' = OS_EVENT_TYPE_SEM")
    case True
    with False show ?thesis
      using OSSemPendAbort_sem [OF units_invD(1) [OF inv] e' True] event_pend_abort_ok [OF units_invD(1) [OF inv] e', of OS_STAT_SEM opt] run
      by auto
  qed (use run e' in \<open>auto simp: OSSemPendAbort_def\<close>)
  then show ?thesis using inv by simp
next
  case True
  define W where "W = (if opt = OS_PEND_OPT_BROADCAST then waiters s e' else {Min (waiters s e')})"
  have k: "kept s s'" and ex: "\<exists>s1. all_readied e' W NULL OS_STAT_SEM OS_STAT_PEND_ABORT s s1 \<and> resched s1 s'"
    using event_pend_abort_ok [OF units_invD(1) [OF inv] e', of OS_STAT_SEM opt] run True
      OSSemPendAbort_sem [OF units_invD(1) [OF inv] e', of opt] unfolding W_def by auto
  from ex obtain s1 where r: "all_readied e' W NULL OS_STAT_SEM OS_STAT_PEND_ABORT s s1" "resched s1 s'" by blast
  have W: "W \<subseteq> waiters s e'" using True by (simp add: W_def)
  note s' = kept_running [OF inv k]
  show ?thesis
  proof (cases "e' = e")
    case True
    show ?thesis using wake_units [OF inv W [unfolded True] _ r(1) [unfolded True] r(2) s'] by (simp add: balance_def)
  next
    case False
    show ?thesis by (rule balance_beside [OF inv beside_readied [OF inv e' False W r] s'])
  qed
qed

lemma pend_units:
  assumes inv: "units_inv e s C" and e': "e' < OS_MAX_EVENTS" and run: "OSSemPend (EVp e') timeout s = Some (r, s')"
    and idle: "may_block s" and q: "caller s C"
  shows "balance e (if e' = e \<and> r = Returned OS_ERR_NONE then Taken else Quiet) s C s'
    (if e' = e \<and> r = Waiting then insert (unat (OSPrioCur s)) C else C)"
proof -
  note i = units_invD [OF inv]
  consider (other) "ev_type s e' \<noteq> OS_EVENT_TYPE_SEM" | (waits) "ev_type s e' = OS_EVENT_TYPE_SEM" "r = Waiting"
    | (returns) "ev_type s e' = OS_EVENT_TYPE_SEM" "r \<noteq> Waiting" by blast
  then show ?thesis
  proof cases
    case other
    then have "s' = s" "e' \<noteq> e" using run e' i(5) by (auto simp: OSSemPend_def)
    then show ?thesis using inv by simp
  next
    case waits
    have run': "OSSemPend (EVp e') timeout s = Some (Waiting, s')" using run waits(2) by simp
    note w = OSSemPend_waits [OF i(1) e' waits(1) idle run']
    have k: "kept s s'" and fr: "frames s s'" and nest: "OSIntNesting s = 0" and rdy: "rdy s' = rdy s - {unat (OSPrioCur s)}"
      and wt: "waiters s' = (waiters s)(e' := insert (unat (OSPrioCur s)) (waiters s e'))"
      and t: "tcbs s' = (tcbs s)(cur_ix s := (tcbs s (cur_ix s))\<lparr>OSTCBStat := OSTCBStat (tcbs s (cur_ix s)) OR OS_STAT_SEM,
        OSTCBStatPend := OS_STAT_PEND_OK, OSTCBDly := timeout, OSTCBEventPtr := EVp e'\<rparr>)"
      using w by simp_all
    have free: "unat (OSPrioCur s) \<notin> C" "\<forall>e<OS_MAX_EVENTS. unat (OSPrioCur s) \<notin> waiters s e"
      using q nest by (simp_all add: caller_def)
    note s' = kept_running [OF inv k]
    show ?thesis
    proof (cases "e' = e")
      case True
      show ?thesis
        using wait_units [OF inv free(1) idle s' fr rdy wt [unfolded True] t [unfolded True]] free(2) True waits(2)
        by (simp add: balance_def)
    next
      case False
      have "beside e C s s'"
      proof (rule beside_cur [OF inv free(1) _ _ t])
        show "ids s' = ids s" "objs s' = objs s" using fr by (simp_all add: frames_def)
        show "waiters s' e = waiters s e" using False by (simp add: wt)
        show "rdy s' \<subseteq> rdy s" unfolding rdy by blast
        show "p \<in> waiters s e''" if "p \<noteq> unat (OSPrioCur s)" "p \<in> waiters s' e''" for p e''
          using that by (simp add: wt split: if_splits)
      qed simp
      then show ?thesis using balance_beside [OF inv _ s'] False by simp
    qed
  next
    case returns
    have k: "kept s s'" and eff: "ev_cnt s e' > 0 \<and> r = Returned OS_ERR_NONE \<and> s' = upd_ev e' (\<lambda>c. c\<lparr>OSEventCnt := OSEventCnt c - 1\<rparr>) s
        \<or> r \<noteq> Returned OS_ERR_NONE \<and> s' = s"
      using OSSemPend_sem [OF i(1) e' returns(1), of timeout] idle run returns(2) by (auto simp: may_block_def split: if_splits)
    from eff show ?thesis
    proof (elim disjE conjE)
      assume c: "ev_cnt s e' > 0" "r = Returned OS_ERR_NONE" "s' = upd_ev e' (\<lambda>c. c\<lparr>OSEventCnt := OSEventCnt c - 1\<rparr>) s"
      show ?thesis using take_units [OF inv k c(1,3)] c(2) by simp
    qed (use inv returns(2) in simp)
  qed
qed

lemma resume_other_units:
  assumes inv: "units_inv e s C" and e': "e' < OS_MAX_EVENTS" "e' \<noteq> e" and q: "unat (OSPrioCur s) \<notin> C"
    and run: "OSSemPend_resume (EVp e') s = Some (r, s')"
  shows "balance e Quiet s C s' C"
proof -
  note i = units_invD [OF inv]
  obtain m where r: "resumed e' s (m, r) s'" using OSSemPend_resume_ok [OF i(1) e'(1)] run by auto
  have fr: "ids s' = ids s" "objs s' = objs s" "rdy s' = rdy s" using r by (simp_all add: resumed_def frames_def)
  have w: "waiters s' e'' \<subseteq> waiters s e''" and we: "waiters s' e = waiters s e" for e''
    using r e'(2) by (auto simp: resumed_def leave_def split: if_splits)
  have "OSTCBTbl s' = (OSTCBTbl s)(cur_ix s := (OSTCBTbl s (cur_ix s))\<lparr>OSTCBStat := OS_STAT_RDY,
        OSTCBStatPend := OS_STAT_PEND_OK, OSTCBEventPtr := NULL, OSTCBEventMultiPtr := None, OSTCBEventMultiRdy := NULL\<rparr>)"
    using r by (simp add: resumed_def)
  then have t: "tcbs s' = (tcbs s)(cur_ix s := (tcbs s (cur_ix s))\<lparr>OSTCBStat := OS_STAT_RDY,
        OSTCBStatPend := OS_STAT_PEND_OK, OSTCBEventPtr := NULL, OSTCBEventMultiPtr := None, OSTCBEventMultiRdy := NULL\<rparr>)"
    by (simp add: tcbs_def fun_eq_iff)
  have "beside e C s s'"
    by (rule beside_cur [OF inv q fr(1,2) t _ we]) (use w fr(3) in \<open>simp_all add: subset_iff\<close>)
  then show ?thesis using balance_beside [OF inv _ kept_running [OF inv resumed_kept [OF r]]] by simp
qed

lemma delay_units:
  assumes inv: "units_inv e s C" and idle: "may_block s" and q: "caller s C"
    and run: "OSTimeDly ticks s = Some s'"
  shows "balance e Quiet s C s' C"
proof -
  note i = units_invD [OF inv]
  have k: "kept s s'" and eff: "OSIntNesting s = 0 \<and> asleep ticks s s' \<or> s' = s"
    using OSTimeDly_ok [OF i(1) idle, of ticks] run by (auto split: if_splits)
  from eff show ?thesis
  proof (elim disjE conjE)
    assume a: "OSIntNesting s = 0" "asleep ticks s s'"
    have fr: "ids s' = ids s" "objs s' = objs s" and w: "waiters s' = waiters s"
      and t: "tcbs s' = (tcbs s)(cur_ix s := (tcbs s (cur_ix s))\<lparr>OSTCBDly := ticks\<rparr>)" and r: "rdy s' \<subseteq> rdy s"
      using a(2) by (simp_all add: asleep_def)
    have "unat (OSPrioCur s) \<notin> C" using q a(1) by (simp add: caller_def)
    then have "beside e C s s'" by (rule beside_cur [OF inv _ fr t]) (simp_all add: w r)
    then show ?thesis using balance_beside [OF inv _ kept_running [OF inv k]] by simp
  qed (use inv in simp)
qed

lemma same_units:
  assumes inv: "units_inv e s C" and "ids s' = ids s" "objs s' = objs s" "waiters s' = waiters s" "rdy s' = rdy s" "tcbs s' = tcbs s"
    and "sinv s'" "settled s'" "OSRunning s'"
  shows "balance e Quiet s C s' C"
  using balance_beside [OF inv beside_all_same] assms by blast

lemma exit_units:
  assumes inv: "units_inv e s C" and run: "OSIntExit s = Some s'"
  shows "balance e Quiet s C s' C"
proof -
  note i = units_invD [OF inv]
  have x: "sinv s' \<and> settled s' \<and> rdy s' = rdy s \<and> objs s' = objs s \<and> ids s' = ids s \<and> waiters s' = waiters s \<and> tcbs s' = tcbs s
      \<and> ctl s' = ctl (leave_isr s)"
    using OSIntExit_sinv [OF i(1)] run i(3) by simp
  have "OSRunning s'" using x i(3) by (simp add: ctl_def leave_isr_def)
  then show ?thesis by (intro same_units [OF inv]) (use x in simp_all)
qed

lemma enter_units:
  assumes inv: "units_inv e s C"
  shows "balance e Quiet s C (OSIntEnter s) C" "balance e Quiet s C (OSSchedLock s) C"
proof -
  note i = units_invD [OF inv]
  show "balance e Quiet s C (OSIntEnter s) C"
    by (rule same_units [OF inv]) (use OSIntEnter_sinv [OF i(1)] i(2,3) in \<open>simp_all add: OSIntEnter_def waiters_def tcbs_def fun_eq_iff\<close>)
  show "balance e Quiet s C (OSSchedLock s) C"
    by (rule same_units [OF inv]) (use OSSchedLock_sinv [OF i(1)] i(2,3) in \<open>simp_all add: OSSchedLock_def waiters_def tcbs_def fun_eq_iff\<close>)
qed

lemma unlock_units:
  assumes inv: "units_inv e s C" and run: "OSSchedUnlock s = Some s'"
  shows "balance e Quiet s C s' C"
proof -
  note i = units_invD [OF inv]
  have "sinv s' \<and> settled s'" using OSSchedUnlock_sinv [OF i(1)] i(2) run by simp
  then show ?thesis using OSSchedUnlock_views [OF i(1) run] i(3) by (intro same_units [OF inv]) simp_all
qed

section \<open>Property\<close>

lemma step_units:
  assumes "units_step e s C n s' C'" "units_inv e s C"
  shows "balance e n s C s' C'"
  using assms
proof (induction rule: units_step.induct)
  case (accept s C e' n s')
  then show ?case by (intro accept_units)
next
  case (post s C e' r s')
  then show ?case by (intro post_units)
next
  case (pend s C e' timeout r s')
  then show ?case by (intro pend_units)
next
  case (resume s C r s')
  obtain m where "resumed e s (m, r) s'"
    using OSSemPend_resume_ok [OF units_invD(1,4) [OF resume(5)]] resume(4) by auto
  then show ?case by (rule resume_units [OF resume(5,1,2,3)])
next
  case (resume_other s C e' r s')
  then show ?case by (intro resume_other_units)
next
  case (abort s C e' opt r s')
  then show ?case by (intro abort_units)
next
  case (delay s C ticks s')
  then show ?case by (intro delay_units)
next
  case (tick s s' C)
  then show ?case using tick_units [of e s C] by simp
qed (simp_all add: enter_units exit_units unlock_units)

text \<open>
  C2 (sem_units_conserved): whatever tasks and interrupt handlers do with semaphores, with delays, aborts,
  timeouts, ticks and locks, and however they interrupt each other, the count of a semaphore and the
  units handed to tasks that have not run yet are what they were, plus the posts that succeeded, less
  the units taken: no unit is lost and none is given twice.
\<close>

theorem sem_units_conserved:
  assumes "units_run e s C given taken s' C'" "units_inv e s C"
  shows "units_inv e s' C' \<and> units e s' C' + taken = units e s C + given"
  using assms by (induction rule: units_run.induct) (auto dest!: step_units simp: balance_def)

text \<open>A task waits; a post wakes it; it runs at once and has its unit.\<close>

lemma demo_running: "OSRunning demo" "OSTmrSemSignal demo = EVp 1"
  by (simp_all add: demo_def)

lemma demo_units:
  "units_inv 0 demo {10}" "units 0 demo {10} = 0"
proof -
  have t: "task demo 10 = OSTCBTbl demo 1" by (rule task_owns [OF demo_owns(2)])
  have "OSTCBEventMultiPtr (OSTCBTbl demo u) = None" for u by (simp add: demo_def demo_tcb_def)
  then have m: "OSTCBEventMultiPtr (task demo p) = None" if "owned demo p" for p
    using that task_owns by (auto elim!: ownedE)
  have "OSTCBStatPend (OSTCBTbl demo 1) = OS_STAT_PEND_OK" "OSTCBStat (OSTCBTbl demo 1) = 1" by (simp_all add: demo_def demo_tcb_def)
  then have "inside 0 demo 10" using owns_owned [OF demo_owns(2)] by (simp add: inside_def t demo_waiting demo_ready)
  then show "units_inv 0 demo {10}"
    using demo_sinv demo_settled m by (simp add: units_inv_def demo_ctl demo_waiting demo_events demo_running)
  show "units 0 demo {10} = 0" by (simp add: units_def handed_def demo_waiting demo_events)
qed

lemma sem_units_conserved_witness:
  "\<exists>s'. units_run 0 demo {10} 1 1 s' {} \<and> units 0 s' {} = 0"
proof -
  have "ok (OSSemPend_resume (EVp 0) demo_preempted) (\<lambda>(r, s'). r = OS_ERR_NONE)" by code_simp
  then obtain r s' where run: "OSSemPend_resume (EVp 0) demo_preempted = Some (r, s')" and r: "r = OS_ERR_NONE"
    by (auto simp: ok_iff)
  have "units_step 0 demo {10} Given demo_preempted {10}"
    using units_step.post [of demo "{10}" 0 OS_ERR_NONE demo_preempted 0] demo_preempted_run
    by (simp add: caller_def demo_ctl demo_waiting)
  from units_run.further [OF units_run.start this]
  have 1: "units_run 0 demo {10} 1 0 demo_preempted {10}" by simp
  have "units_step 0 demo_preempted {10} Taken s' {}"
    using units_step.resume [of demo_preempted "{10}" 0 r s'] run r by (simp add: demo_preempted_fields)
  from units_run.further [OF 1 this] have 2: "units_run 0 demo {10} 1 1 s' {}" by simp
  then show ?thesis using sem_units_conserved [OF 2 demo_units(1)] demo_units(2) by auto
qed

end
