(* ===== verification/Os_Mbox.thy ===== *)
theory Os_Mbox
  imports Os_Demo
begin

text \<open>
  Mailboxes (\<open>os_mbox.c\<close>): the calls, the contract they keep, and their refinement of a place for at
  most one message with a set of waiting tasks.
\<close>

section \<open>The calls\<close>

definition OSMboxAccept :: "vptr \<Rightarrow> kst \<Rightarrow> (vptr \<times> kst) option" where
  "OSMboxAccept pevent s =
     (if pevent = NULL then Some (NULL, s)
      else do {
        e \<leftarrow> ev_at pevent;
        if ev_type s e \<noteq> OS_EVENT_TYPE_MBOX then Some (NULL, s)
        else do {
          let pmsg = ev_ptr s e;
          Some (pmsg, upd_ev e (\<lambda>c. c\<lparr>OSEventPtr := NULL\<rparr>) s)
        }
      })"

definition OSMboxCreate :: "vptr \<Rightarrow> kst \<Rightarrow> (vptr \<times> kst) option" where
  "OSMboxCreate pmsg s =
     (if OSIntNesting s > 0 then Some (NULL, s)
      else do {
        (pevent, s) \<leftarrow> take_event s;
        if pevent \<noteq> NULL then do {
          s \<leftarrow> init_event pevent OS_EVENT_TYPE_MBOX 0 pmsg s;
          Some (pevent, s)
        } else Some (pevent, s)
      })"

definition OSMboxDel :: "vptr \<Rightarrow> 8 word \<Rightarrow> kst \<Rightarrow> ((vptr \<times> os_err) \<times> kst) option" where
  "OSMboxDel pevent opt s =
     (if pevent = NULL then Some ((pevent, OS_ERR_PEVENT_NULL), s)
      else do {
        e \<leftarrow> ev_at pevent;
        if ev_type s e \<noteq> OS_EVENT_TYPE_MBOX then Some ((pevent, OS_ERR_EVENT_TYPE), s)
        else if OSIntNesting s > 0 then Some ((pevent, OS_ERR_DEL_ISR), s)
        else do {
          let tasks_waiting = (OSEventGrp (OSEventTbl_ecb s e) \<noteq> 0);
          if opt = OS_DEL_NO_PEND then
            if \<not> tasks_waiting then do {
              s \<leftarrow> free_event pevent s;
              Some ((NULL, OS_ERR_NONE), s)
            } else Some ((pevent, OS_ERR_TASK_WAITING), s)
          else if opt = OS_DEL_ALWAYS then do {
            (_, s) \<leftarrow> OS_EventTaskRdy_all pevent NULL OS_STAT_MBOX OS_STAT_PEND_ABORT 0 s;
            s \<leftarrow> free_event pevent s;
            s \<leftarrow> (if tasks_waiting then OS_Sched s else Some s);
            Some ((NULL, OS_ERR_NONE), s)
          } else Some ((pevent, OS_ERR_INVALID_OPT), s)
        }
      })"

text \<open>The result of a pend is the message and \<open>*perr\<close>.\<close>

definition OSMboxPend :: "vptr \<Rightarrow> 32 word \<Rightarrow> kst \<Rightarrow> ((vptr \<times> os_err) pend \<times> kst) option" where
  "OSMboxPend pevent timeout s =
     (if pevent = NULL then Some (Returned (NULL, OS_ERR_PEVENT_NULL), s)
      else do {
        e \<leftarrow> ev_at pevent;
        if ev_type s e \<noteq> OS_EVENT_TYPE_MBOX then Some (Returned (NULL, OS_ERR_EVENT_TYPE), s)
        else if OSIntNesting s > 0 then Some (Returned (NULL, OS_ERR_PEND_ISR), s)
        else if OSLockNesting s > 0 then Some (Returned (NULL, OS_ERR_PEND_LOCKED), s)
        else do {
          let pmsg = ev_ptr s e;
          if pmsg \<noteq> NULL then
            Some (Returned (pmsg, OS_ERR_NONE), upd_ev e (\<lambda>c. c\<lparr>OSEventPtr := NULL\<rparr>) s)
          else do {
            s \<leftarrow> event_wait pevent OS_STAT_MBOX timeout s;
            s \<leftarrow> OS_Sched s;
            Some (Waiting, s)
          }
        }
      })"

text \<open>The rest of the call, from line 373, when the task is the running task again.\<close>

definition OSMboxPend_resume :: "vptr \<Rightarrow> kst \<Rightarrow> ((vptr \<times> os_err) \<times> kst) option" where
  "OSMboxPend_resume pevent s = do {
     (r, s) \<leftarrow> event_resume pevent s;
     t \<leftarrow> tcb_at (OSTCBCur s);
     Some (r, upd_tcb t (\<lambda>c. c\<lparr>OSTCBMsg := NULL\<rparr>) s)
   }"

definition OSMboxPendAbort :: "vptr \<Rightarrow> 8 word \<Rightarrow> kst \<Rightarrow> ((8 word \<times> os_err) \<times> kst) option" where
  "OSMboxPendAbort pevent opt s =
     (if pevent = NULL then Some ((0, OS_ERR_PEVENT_NULL), s)
      else do {
        e \<leftarrow> ev_at pevent;
        if ev_type s e \<noteq> OS_EVENT_TYPE_MBOX then Some ((0, OS_ERR_EVENT_TYPE), s)
        else event_pend_abort pevent OS_STAT_MBOX opt s
      })"

definition OSMboxPost :: "vptr \<Rightarrow> vptr \<Rightarrow> kst \<Rightarrow> (os_err \<times> kst) option" where
  "OSMboxPost pevent pmsg s =
     (if pevent = NULL then Some (OS_ERR_PEVENT_NULL, s)
      else if pmsg = NULL then Some (OS_ERR_POST_NULL_PTR, s)
      else do {
        e \<leftarrow> ev_at pevent;
        if ev_type s e \<noteq> OS_EVENT_TYPE_MBOX then Some (OS_ERR_EVENT_TYPE, s)
        else if OSEventGrp (OSEventTbl_ecb s e) \<noteq> 0 then do {
          (_, s) \<leftarrow> OS_EventTaskRdy pevent pmsg OS_STAT_MBOX OS_STAT_PEND_OK s;
          s \<leftarrow> OS_Sched s;
          Some (OS_ERR_NONE, s)
        }
        else if ev_ptr s e \<noteq> NULL then Some (OS_ERR_MBOX_FULL, s)
        else Some (OS_ERR_NONE, upd_ev e (\<lambda>c. c\<lparr>OSEventPtr := pmsg\<rparr>) s)
      })"

definition OSMboxPostOpt :: "vptr \<Rightarrow> vptr \<Rightarrow> 8 word \<Rightarrow> kst \<Rightarrow> (os_err \<times> kst) option" where
  "OSMboxPostOpt pevent pmsg opt s =
     (if pevent = NULL then Some (OS_ERR_PEVENT_NULL, s)
      else if pmsg = NULL then Some (OS_ERR_POST_NULL_PTR, s)
      else do {
        e \<leftarrow> ev_at pevent;
        if ev_type s e \<noteq> OS_EVENT_TYPE_MBOX then Some (OS_ERR_EVENT_TYPE, s)
        else if OSEventGrp (OSEventTbl_ecb s e) \<noteq> 0 then do {
          s \<leftarrow> event_post_opt pevent pmsg OS_STAT_MBOX opt s;
          Some (OS_ERR_NONE, s)
        }
        else if ev_ptr s e \<noteq> NULL then Some (OS_ERR_MBOX_FULL, s)
        else Some (OS_ERR_NONE, upd_ev e (\<lambda>c. c\<lparr>OSEventPtr := pmsg\<rparr>) s)
      })"

record os_mbox_data =
  mbox_OSMsg :: vptr
  mbox_data_Tbl :: "8 word list"
  mbox_data_Grp :: "8 word"

definition OSMboxQuery :: "vptr \<Rightarrow> vptr \<Rightarrow> kst \<Rightarrow> (os_err \<times> os_mbox_data option) option" where
  "OSMboxQuery pevent p_mbox_data s =
     (if pevent = NULL then Some (OS_ERR_PEVENT_NULL, None)
      else if p_mbox_data = NULL then Some (OS_ERR_PDATA_NULL, None)
      else do {
        e \<leftarrow> ev_at pevent;
        let ev = OSEventTbl_ecb s e;
        if OSEventType ev \<noteq> OS_EVENT_TYPE_MBOX then Some (OS_ERR_EVENT_TYPE, None)
        else Some (OS_ERR_NONE, Some \<lparr>mbox_OSMsg = OSEventPtr ev,
          mbox_data_Tbl = copy_tbl (OSEventTbl ev), mbox_data_Grp = OSEventGrp ev\<rparr>)
      })"

section \<open>What each call does to a mailbox\<close>

lemma mbox_used: "ev_type s e = OS_EVENT_TYPE_MBOX \<Longrightarrow> ev_type s e \<noteq> OS_EVENT_TYPE_UNUSED"
  and mbox_no_q: "ev_type s e = OS_EVENT_TYPE_MBOX \<Longrightarrow> ev_type s e \<noteq> OS_EVENT_TYPE_Q"
  by simp_all

lemma mbox_full_waiters:
  "sinv s \<Longrightarrow> e < OS_MAX_EVENTS \<Longrightarrow> ev_type s e = OS_EVENT_TYPE_MBOX \<Longrightarrow> ev_ptr s e \<noteq> NULL \<Longrightarrow> waiters s e = {}"
  by (rule avail_waiters [OF sinvD(4)]) (simp_all add: avail_def)

lemma mbox_msg_sinv:
  assumes inv: "sinv s" and e: "e < OS_MAX_EVENTS" and k: "ev_type s e = OS_EVENT_TYPE_MBOX"
    and none: "waiters s e = {} \<or> m = NULL"
  shows "sinv (upd_ev e (\<lambda>c. c\<lparr>OSEventPtr := m\<rparr>) s)"
  by (rule upd_ev_sinv [OF inv e]) (use k none in \<open>auto simp: obj_ok_def avail_def\<close>)

lemma OSMboxAccept_mbox:
  assumes inv: "sinv s" and e: "e < OS_MAX_EVENTS" and k: "ev_type s e = OS_EVENT_TYPE_MBOX"
  shows "ok (OSMboxAccept (EVp e) s) (\<lambda>(r, s'). kept s s'
    \<and> r = ev_ptr s e \<and> s' = upd_ev e (\<lambda>c. c\<lparr>OSEventPtr := NULL\<rparr>) s)"
  using assms mbox_msg_sinv [OF inv e k, of NULL]
    settled_cong [of "upd_ev e (\<lambda>c. c\<lparr>OSEventPtr := NULL\<rparr>) s" s]
  by (simp add: OSMboxAccept_def Let_def)

lemma OSMboxCreate_ok:
  assumes inv: "sinv s"
  shows "ok (OSMboxCreate m s) (\<lambda>(p, s'). kept s s'
    \<and> (if OSIntNesting s > 0 then p = NULL \<and> s' = s else created OS_EVENT_TYPE_MBOX 0 m s p s'))"
  using create_event_ok [OF inv, of OS_EVENT_TYPE_MBOX 0 m] inv
  by (auto simp: OSMboxCreate_def elim!: ok_mono)

lemma OSMboxPost_mbox:
  assumes inv: "sinv s" and e: "e < OS_MAX_EVENTS" and k: "ev_type s e = OS_EVENT_TYPE_MBOX"
    and m: "m \<noteq> NULL"
  shows "ok (OSMboxPost (EVp e) m s) (\<lambda>(r, s'). kept s s'
    \<and> (if waiters s e \<noteq> {} then r = OS_ERR_NONE
         \<and> (\<exists>s1. readied e (Min (waiters s e)) m OS_STAT_MBOX OS_STAT_PEND_OK s s1 \<and> resched s1 s')
       else if ev_ptr s e \<noteq> NULL then r = OS_ERR_MBOX_FULL \<and> s' = s
       else r = OS_ERR_NONE \<and> s' = upd_ev e (\<lambda>c. c\<lparr>OSEventPtr := m\<rparr>) s))"
proof (cases "waiters s e = {}")
  case True
  then show ?thesis
    using assms ev_grp_waiters [OF sinvD(2) [OF inv] e] mbox_msg_sinv [OF inv e k, of m]
      settled_cong [of "upd_ev e (\<lambda>c. c\<lparr>OSEventPtr := m\<rparr>) s" s]
    by (auto simp: OSMboxPost_def)
next
  case False
  then have run: "OSMboxPost (EVp e) m s = do {
      s' \<leftarrow> do { (_, s1) \<leftarrow> OS_EventTaskRdy (EVp e) m OS_STAT_MBOX OS_STAT_PEND_OK s; OS_Sched s1 };
      Some (OS_ERR_NONE, s') }"
    using assms ev_grp_waiters [OF sinvD(2) [OF inv] e]
    by (simp add: OSMboxPost_def split_beta')
  show ?thesis
    unfolding run
    by (rule ok_bindI [OF wake_and_sched [OF inv e False]]) (use False in auto)
qed

lemma OSMboxPostOpt_mbox:
  fixes opt :: "8 word"
  assumes inv: "sinv s" and e: "e < OS_MAX_EVENTS" and k: "ev_type s e = OS_EVENT_TYPE_MBOX"
    and m: "m \<noteq> NULL"
  shows "ok (OSMboxPostOpt (EVp e) m opt s) (\<lambda>(r, s'). sinv s' \<and> ctl s' = ctl s
    \<and> (settled s \<longrightarrow> opt AND OS_POST_OPT_NO_SCHED = 0 \<longrightarrow> settled s')
    \<and> (if waiters s e \<noteq> {} then r = OS_ERR_NONE
         \<and> (\<exists>s1. all_readied e (if opt AND OS_POST_OPT_BROADCAST \<noteq> 0 then waiters s e
                   else {Min (waiters s e)}) m OS_STAT_MBOX OS_STAT_PEND_OK s s1 \<and> resched s1 s')
         \<and> (opt AND OS_POST_OPT_NO_SCHED \<noteq> 0 \<longrightarrow> cur s' = cur s)
       else if ev_ptr s e \<noteq> NULL then r = OS_ERR_MBOX_FULL \<and> s' = s
       else r = OS_ERR_NONE \<and> s' = upd_ev e (\<lambda>c. c\<lparr>OSEventPtr := m\<rparr>) s))"
proof (cases "waiters s e = {}")
  case True
  then show ?thesis
    using assms ev_grp_waiters [OF sinvD(2) [OF inv] e] mbox_msg_sinv [OF inv e k, of m]
      settled_cong [of "upd_ev e (\<lambda>c. c\<lparr>OSEventPtr := m\<rparr>) s" s]
    by (auto simp: OSMboxPostOpt_def)
next
  case False
  then have run: "OSMboxPostOpt (EVp e) m opt s = do {
      s' \<leftarrow> event_post_opt (EVp e) m OS_STAT_MBOX opt s; Some (OS_ERR_NONE, s') }"
    using assms ev_grp_waiters [OF sinvD(2) [OF inv] e] by (simp add: OSMboxPostOpt_def)
  show ?thesis
    unfolding run
    by (rule ok_bindI [OF event_post_opt_ok [OF inv e False]]) (use False in auto)
qed

interpretation mbox_del: deletable OS_EVENT_TYPE_MBOX free_event
  by unfold_locales (simp add: free_event_freed)

lemma OSMboxDel_mbox:
  assumes inv: "sinv s" and e: "e < OS_MAX_EVENTS" and k: "ev_type s e = OS_EVENT_TYPE_MBOX"
  shows "ok (OSMboxDel (EVp e) opt s) (\<lambda>(r, s'). kept s s'
    \<and> (if OSIntNesting s > 0 then r = (EVp e, OS_ERR_DEL_ISR) \<and> s' = s
       else if opt = OS_DEL_NO_PEND \<and> waiters s e \<noteq> {} then r = (EVp e, OS_ERR_TASK_WAITING) \<and> s' = s
       else if opt = OS_DEL_NO_PEND \<or> opt = OS_DEL_ALWAYS then
         r = (NULL, OS_ERR_NONE) \<and> deleted e OS_STAT_MBOX s s'
       else r = (EVp e, OS_ERR_INVALID_OPT) \<and> s' = s))"
  by (rule mbox_del.del_body_ok [OF inv e k]) (use k e in \<open>simp_all add: OSMboxDel_def\<close>)

lemma OSMboxPend_mbox:
  assumes inv: "sinv s" and e: "e < OS_MAX_EVENTS" and k: "ev_type s e = OS_EVENT_TYPE_MBOX"
    and idle: "OSPrioCur s \<noteq> OS_TASK_IDLE_PRIO"
  shows "ok (OSMboxPend (EVp e) timeout s) (\<lambda>(r, s'). kept s s'
    \<and> (if OSIntNesting s > 0 then r = Returned (NULL, OS_ERR_PEND_ISR) \<and> s' = s
       else if OSLockNesting s > 0 then r = Returned (NULL, OS_ERR_PEND_LOCKED) \<and> s' = s
       else if ev_ptr s e \<noteq> NULL then r = Returned (ev_ptr s e, OS_ERR_NONE)
         \<and> s' = upd_ev e (\<lambda>c. c\<lparr>OSEventPtr := NULL\<rparr>) s
       else r = Waiting \<and> blocked e timeout s s'))"
proof -
  consider (busy) "OSIntNesting s > 0 \<or> OSLockNesting s > 0"
    | (take) "OSIntNesting s = 0" "OSLockNesting s = 0" "ev_ptr s e \<noteq> NULL"
    | (wait) "OSIntNesting s = 0" "OSLockNesting s = 0" "ev_ptr s e = NULL"
    by (cases "OSIntNesting s = 0"; cases "OSLockNesting s = 0"; cases "ev_ptr s e = NULL")
      (simp_all add: word_gt_0)
  then show ?thesis
  proof cases
    case busy
    with assms show ?thesis by (auto simp: OSMboxPend_def)
  next
    case take
    then show ?thesis
      using assms mbox_msg_sinv [OF inv e k, of NULL]
        settled_cong [of "upd_ev e (\<lambda>c. c\<lparr>OSEventPtr := NULL\<rparr>) s" s]
      by (simp add: OSMboxPend_def)
  next
    case wait
    have no: "\<not> avail s e" using k wait by (simp add: avail_def)
    have run: "OSMboxPend (EVp e) timeout s = do {
        s' \<leftarrow> do { s1 \<leftarrow> event_wait (EVp e) OS_STAT_MBOX timeout s; OS_Sched s1 }; Some (Waiting, s') }"
      using wait e k by (simp add: OSMboxPend_def)
    show ?thesis
      unfolding run
      by (rule ok_bindI [OF wait_and_sched [OF inv idle e no mbox_used [OF k] wait(1,2)]])
        (use wait in simp)
  qed
qed

lemma OSMboxPendAbort_mbox:
  assumes "sinv s" "e < OS_MAX_EVENTS" "ev_type s e = OS_EVENT_TYPE_MBOX"
  shows "OSMboxPendAbort (EVp e) opt s = event_pend_abort (EVp e) OS_STAT_MBOX opt s"
  using assms by (simp add: OSMboxPendAbort_def)

lemma OSMboxPend_resume_ok:
  assumes "sinv s" "e < OS_MAX_EVENTS"
  shows "ok (OSMboxPend_resume (EVp e) s) (\<lambda>(r, s'). kept s s'
    \<and> (\<exists>s1. resumed e s r s1 \<and> s' = upd_tcb (cur_ix s) (\<lambda>c. c\<lparr>OSTCBMsg := NULL\<rparr>) s1))"
  unfolding OSMboxPend_resume_def
  by (rule event_resume_clear_ok [OF assms])

section \<open>The contract\<close>

interpretation MboxAccept: sched_call "\<lambda>s. valid_ev pevent" "OSMboxAccept pevent" for pevent
  by (rule event_callI [where k = OS_EVENT_TYPE_MBOX and run = OSMboxAccept], assumption,
      simp add: OSMboxAccept_def, simp add: OSMboxAccept_def, rule OSMboxAccept_mbox, assumption+)

interpretation MboxCreate: sched_call "\<lambda>s. True" "OSMboxCreate pmsg" for pmsg
  by (rule sched_callI) (auto intro: ok_mono2 [OF OSMboxCreate_ok])

interpretation MboxDel: sched_call "\<lambda>s. valid_ev pevent" "OSMboxDel pevent opt" for pevent opt
  by (rule event_callI [where k = OS_EVENT_TYPE_MBOX and run = "\<lambda>p. OSMboxDel p opt"], assumption,
      simp add: OSMboxDel_def, simp add: OSMboxDel_def, rule OSMboxDel_mbox, assumption+)

interpretation MboxPend:
  sched_call "\<lambda>s. valid_ev pevent \<and> may_block s" "OSMboxPend pevent timeout" for pevent timeout
  by (rule event_callI [where k = OS_EVENT_TYPE_MBOX and run = "\<lambda>p. OSMboxPend p timeout"], simp,
      simp add: OSMboxPend_def, simp add: OSMboxPend_def, rule OSMboxPend_mbox)
    (simp_all add: may_block_def)

interpretation MboxPend_resume: sched_call "\<lambda>s. ev_at pevent \<noteq> None" "OSMboxPend_resume pevent" for pevent
  by (rule sched_callI) (auto intro!: ok_mono2 [OF OSMboxPend_resume_ok])

interpretation MboxPendAbort: sched_call "\<lambda>s. valid_ev pevent" "OSMboxPendAbort pevent opt" for pevent opt
  by (rule event_callI [where k = OS_EVENT_TYPE_MBOX and run = "\<lambda>p. OSMboxPendAbort p opt"], assumption,
      simp add: OSMboxPendAbort_def, simp add: OSMboxPendAbort_def, simp only: OSMboxPendAbort_mbox,
      rule event_pend_abort_ok, assumption+)

lemma OSMboxPost_null: "OSMboxPost p NULL s = Some (if p = NULL then OS_ERR_PEVENT_NULL else OS_ERR_POST_NULL_PTR, s)"
  and OSMboxPostOpt_null: "OSMboxPostOpt p NULL opt s = Some (if p = NULL then OS_ERR_PEVENT_NULL else OS_ERR_POST_NULL_PTR, s)"
  by (simp_all add: OSMboxPost_def OSMboxPostOpt_def)

lemma OSMboxPost_kept:
  assumes "sinv s" "e < OS_MAX_EVENTS" "ev_type s e = OS_EVENT_TYPE_MBOX"
  shows "ok (OSMboxPost (EVp e) m s) (\<lambda>(r, s'). kept s s' \<and> True)"
  using ok_mono2 [OF OSMboxPost_mbox [OF assms, of m]] assms(1)
  by (cases "m = NULL") (auto simp: OSMboxPost_null)

interpretation MboxPost: sched_call "\<lambda>s. valid_ev pevent" "OSMboxPost pevent pmsg" for pevent pmsg
  by (rule event_callI [where k = OS_EVENT_TYPE_MBOX and run = "\<lambda>p. OSMboxPost p pmsg"], assumption,
      simp add: OSMboxPost_def, simp add: OSMboxPost_def, rule OSMboxPost_kept, assumption+)

text \<open>With \<open>OS_POST_OPT_NO_SCHED\<close> the call keeps the invariant but may leave a more urgent task waiting.\<close>

lemma OSMboxPostOpt_kept:
  assumes "sinv s" "e < OS_MAX_EVENTS" "ev_type s e = OS_EVENT_TYPE_MBOX"
    and "opt AND OS_POST_OPT_NO_SCHED = 0"
  shows "ok (OSMboxPostOpt (EVp e) m opt s) (\<lambda>(r, s'). kept s s' \<and> True)"
  using ok_mono2 [OF OSMboxPostOpt_mbox [OF assms(1-3), of m opt]] assms(1,4)
  by (cases "m = NULL") (auto simp: OSMboxPostOpt_null)

interpretation MboxPostOpt:
  sched_call "\<lambda>s. valid_ev pevent \<and> opt AND OS_POST_OPT_NO_SCHED = 0" "OSMboxPostOpt pevent pmsg opt"
  for pevent pmsg opt
  by (rule event_callI [where k = OS_EVENT_TYPE_MBOX and run = "\<lambda>p. OSMboxPostOpt p pmsg opt"], simp,
      simp add: OSMboxPostOpt_def, simp add: OSMboxPostOpt_def, rule OSMboxPostOpt_kept, assumption+, simp)

interpretation MboxPostOpt_any: kernel_call "\<lambda>s. valid_ev pevent" "OSMboxPostOpt pevent pmsg opt" for pevent pmsg opt
proof
  fix s
  assume inv: "sinv s" and "valid_ev pevent"
  from this(2) show "ok (OSMboxPostOpt pevent pmsg opt s) (\<lambda>(r, s'). sinv s' \<and> ctl s' = ctl s)"
  proof (cases rule: valid_evE)
    case (2 e)
    show ?thesis
      using OSMboxPostOpt_mbox [OF inv 2(2), of pmsg opt] inv 2 OSMboxPostOpt_null [of "EVp e" opt s]
      by (cases "pmsg = NULL"; cases "ev_type s e = OS_EVENT_TYPE_MBOX") (auto simp: OSMboxPostOpt_def elim!: ok_mono2)
  qed (use inv in \<open>simp add: OSMboxPostOpt_def\<close>)
qed

section \<open>The abstract mailbox\<close>

text \<open>A message or none, and the set of the priorities that wait.\<close>

type_synonym a_mbox = "vptr option \<times> nat set"

definition abs_mbox :: "kst \<Rightarrow> nat \<Rightarrow> a_mbox" where
  "abs_mbox s e = (if ev_ptr s e = NULL then None else Some (ev_ptr s e), waiters s e)"

fun a_mbox_post :: "vptr \<Rightarrow> a_mbox \<Rightarrow> os_err \<times> a_mbox" where
  "a_mbox_post m (c, W) =
     (if W \<noteq> {} then (OS_ERR_NONE, (c, W - {Min W}))
      else case c of None \<Rightarrow> (OS_ERR_NONE, (Some m, W)) | Some _ \<Rightarrow> (OS_ERR_MBOX_FULL, (c, W)))"

fun a_mbox_pend :: "nat \<Rightarrow> a_mbox \<Rightarrow> (vptr \<times> os_err) pend \<times> a_mbox" where
  "a_mbox_pend p (c, W) = (case c of
      Some m \<Rightarrow> (Returned (m, OS_ERR_NONE), (None, W))
    | None \<Rightarrow> (Waiting, (None, insert p W)))"

lemma demo_mbox: "abs_mbox demo 3 = (None, {20})" "abs_mbox demo 2 = (Some (Addr 0x1000), {})"
  by (simp_all add: abs_mbox_def demo_events demo_waiting)

text \<open>
  C9 (OSMboxPost_refines): posting a message is posting to the abstract mailbox: the most urgent waiter
  gets this very message, an empty mailbox keeps it, and a full one refuses it and keeps the old one.
\<close>

theorem OSMboxPost_refines:
  assumes "sinv s" "e < OS_MAX_EVENTS" "ev_type s e = OS_EVENT_TYPE_MBOX" "m \<noteq> NULL"
  shows "\<exists>r s'. OSMboxPost (EVp e) m s = Some (r, s')
    \<and> (r, abs_mbox s' e) = a_mbox_post m (abs_mbox s e)
    \<and> (\<forall>e'. e' \<noteq> e \<longrightarrow> ev_data s' e' = ev_data s e')
    \<and> (waiters s e \<noteq> {} \<longrightarrow>
        woken m OS_STAT_MBOX OS_STAT_PEND_OK (task s (Min (waiters s e))) (task s' (Min (waiters s e)))
        \<and> rdy s' = (if suspended (task s' (Min (waiters s e))) then rdy s
                    else insert (Min (waiters s e)) (rdy s)))"
proof -
  obtain r s' where run: "OSMboxPost (EVp e) m s = Some (r, s')" and post:
    "if waiters s e \<noteq> {} then r = OS_ERR_NONE
         \<and> (\<exists>s1. readied e (Min (waiters s e)) m OS_STAT_MBOX OS_STAT_PEND_OK s s1 \<and> resched s1 s')
       else if ev_ptr s e \<noteq> NULL then r = OS_ERR_MBOX_FULL \<and> s' = s
       else r = OS_ERR_NONE \<and> s' = upd_ev e (\<lambda>c. c\<lparr>OSEventPtr := m\<rparr>) s"
    using OSMboxPost_mbox [OF assms] by (auto simp: ok_iff simp del: if_split)
  show ?thesis
  proof (cases "waiters s e = {}")
    case True
    with run post assms(4) show ?thesis
      by (auto simp: abs_mbox_def ev_data_upd_ev split: if_splits)
  next
    case False
    then obtain s1 where 1: "readied e (Min (waiters s e)) m OS_STAT_MBOX OS_STAT_PEND_OK s s1"
      "resched s1 s'" and r: "r = OS_ERR_NONE" using post by auto
    note w = readied_waiters [OF 1]
    show ?thesis
      using run False r w ev_data_fields(2) [of s' e s] by (simp add: abs_mbox_def)
  qed
qed

theorem OSMboxPost_refines_witness:
  "\<exists>s'. OSMboxPost (EVp 3) (Addr 0x55) demo = Some (OS_ERR_NONE, s') \<and> abs_mbox s' 3 = (None, {})
    \<and> OSTCBMsg (task s' 20) = Addr 0x55"
  using OSMboxPost_refines [of demo 3 "Addr 0x55"]
  by (auto simp: demo_sinv demo_events demo_waiting demo_mbox woken_def)

text \<open>
  Pending takes the message when there is one and leaves the mailbox empty, and
  else joins the waiting tasks; then the most urgent ready task runs.
\<close>

theorem OSMboxPend_refines:
  assumes "sinv s" "e < OS_MAX_EVENTS" "ev_type s e = OS_EVENT_TYPE_MBOX" "may_block s"
    and "OSIntNesting s = 0" "OSLockNesting s = 0"
  shows "\<exists>r s'. OSMboxPend (EVp e) timeout s = Some (r, s')
    \<and> (r, abs_mbox s' e) = a_mbox_pend (unat (OSPrioCur s)) (abs_mbox s e)
    \<and> (\<forall>e'. e' \<noteq> e \<longrightarrow> ev_data s' e' = ev_data s e' \<and> waiters s' e' = waiters s e')
    \<and> (r = Waiting \<longrightarrow> rdy s' = rdy s - {unat (OSPrioCur s)} \<and> unat (OSPrioCur s') = Min (rdy s')
        \<and> OSTCBDly (OSTCBTbl s' (cur_ix s)) = timeout)"
proof -
  obtain r s' where run: "OSMboxPend (EVp e) timeout s = Some (r, s')" and pend:
    "if ev_ptr s e \<noteq> NULL then r = Returned (ev_ptr s e, OS_ERR_NONE)
       \<and> s' = upd_ev e (\<lambda>c. c\<lparr>OSEventPtr := NULL\<rparr>) s
     else r = Waiting \<and> blocked e timeout s s'"
    using OSMboxPend_mbox [of s e timeout] assms
    by (auto simp: ok_iff may_block_def simp del: if_split)
  show ?thesis
  proof (cases "ev_ptr s e = NULL")
    case True
    then have b: "r = Waiting" "blocked e timeout s s'" using pend by simp_all
    then have d: "ev_data s' = ev_data s" by (simp add: blocked_def objs_def)
    show ?thesis
      using run b True ev_data_fields(2) [OF fun_cong [OF d], of e]
      by (simp add: abs_mbox_def blocked_def objs_def)
  next
    case False
    with run pend show ?thesis by (simp add: abs_mbox_def ev_data_upd_ev)
  qed
qed

theorem OSMboxPend_refines_witness:
  "\<exists>s'. OSMboxPend (EVp 2) 0 demo = Some (Returned (Addr 0x1000, OS_ERR_NONE), s')
    \<and> abs_mbox s' 2 = (None, {})"
  using OSMboxPend_refines [of demo 2 0]
  by (auto simp: demo_sinv demo_events demo_waiting demo_ctl demo_mbox may_block_def)

text \<open>
  C10 (OSMboxPost_delivers): a message posted to a mailbox where a more urgent task waits is what that
  task's pend call returns, and it runs at once.
\<close>

theorem OSMboxPost_delivers:
  assumes "sinv s" "settled s" "e < OS_MAX_EVENTS" "ev_type s e = OS_EVENT_TYPE_MBOX" "m \<noteq> NULL"
    and "waiters s e \<noteq> {}" "OSIntNesting s = 0" "OSLockNesting s = 0"
    and "\<not> suspended (task s (Min (waiters s e)))" "Min (waiters s e) < unat (OSPrioCur s)"
  shows "\<exists>s' s''. OSMboxPost (EVp e) m s = Some (OS_ERR_NONE, s')
    \<and> unat (OSPrioCur s') = Min (waiters s e)
    \<and> OSMboxPend_resume (EVp e) s' = Some ((m, OS_ERR_NONE), s'')"
proof -
  let ?p = "Min (waiters s e)"
  obtain s' s1 where run: "OSMboxPost (EVp e) m s = Some (OS_ERR_NONE, s')" and k: "kept s s'"
    and 1: "readied e ?p m OS_STAT_MBOX OS_STAT_PEND_OK s s1" "resched s1 s'"
    using OSMboxPost_mbox [OF assms(1,3-5)] assms(2,6) by (auto simp: ok_iff)
  note w = readied_waiters [OF 1]
  have "rdy s' = insert ?p (rdy s)"
    using w(4) woken_suspended [OF w(3)] assms(9) by simp
  note cur = woken_runs [OF assms(1,2) k assms(7,8) this assms(10) w(3)]
  obtain s'' where "OSMboxPend_resume (EVp e) s' = Some ((m, OS_ERR_NONE), s'')"
    using OSMboxPend_resume_ok [of s' e] k assms(3) cur(2,3) by (auto simp: ok_iff resumed_def)
  with run cur(1) show ?thesis by blast
qed

theorem OSMboxPost_delivers_witness:
  "\<exists>s' s''. OSMboxPost (EVp 3) (Addr 0x55) demo = Some (OS_ERR_NONE, s') \<and> unat (OSPrioCur s') = 20
    \<and> OSMboxPend_resume (EVp 3) s' = Some ((Addr 0x55, OS_ERR_NONE), s'')"
proof -
  have "task demo 20 = demo_tcb 20 2 (EVp 3) (TCBp 1) (TCBp 3) 0" by (simp add: task_def demo_def)
  then show ?thesis
    using OSMboxPost_delivers [of demo 3 "Addr 0x55"]
    by (auto simp: demo_sinv demo_settled demo_events demo_waiting demo_ctl suspended_def demo_tcb_def)
qed

text \<open>
  C14 (OSMboxPostOpt_broadcast): with \<open>OS_POST_OPT_BROADCAST\<close> every waiting task gets the same message and
  nobody waits any more; with \<open>OS_POST_OPT_NO_SCHED\<close> the caller goes on running.
\<close>

theorem OSMboxPostOpt_broadcast:
  assumes "sinv s" "e < OS_MAX_EVENTS" "ev_type s e = OS_EVENT_TYPE_MBOX" "m \<noteq> NULL"
    and "waiters s e \<noteq> {}" "opt AND OS_POST_OPT_BROADCAST \<noteq> 0"
  shows "\<exists>s'. OSMboxPostOpt (EVp e) m opt s = Some (OS_ERR_NONE, s') \<and> sinv s' \<and> waiters s' e = {}
    \<and> ev_ptr s' e = ev_ptr s e
    \<and> (\<forall>p\<in>waiters s e. woken m OS_STAT_MBOX OS_STAT_PEND_OK (task s p) (task s' p))
    \<and> rdy s' = rdy s \<union> {p \<in> waiters s e. \<not> suspended (task s' p)}
    \<and> (opt AND OS_POST_OPT_NO_SCHED \<noteq> 0 \<longrightarrow> OSPrioCur s' = OSPrioCur s)"
proof -
  obtain s' s1 where run: "OSMboxPostOpt (EVp e) m opt s = Some (OS_ERR_NONE, s')" and "sinv s'"
    and 1: "all_readied e (waiters s e) m OS_STAT_MBOX OS_STAT_PEND_OK s s1" "resched s1 s'"
    and "opt AND OS_POST_OPT_NO_SCHED \<noteq> 0 \<longrightarrow> cur s' = cur s"
    using OSMboxPostOpt_mbox [OF assms(1-4), of opt] assms(5,6) by (auto simp: ok_iff)
  then show ?thesis
    using all_readied_sched [OF 1] ev_data_fields(2) [of s' e s] by (simp add: cur_def)
qed

theorem OSMboxPostOpt_broadcast_witness:
  "\<exists>s'. OSMboxPostOpt (EVp 3) (Addr 0x55) 5 demo = Some (OS_ERR_NONE, s') \<and> waiters s' 3 = {}
    \<and> OSPrioCur s' = 30"
  using OSMboxPostOpt_broadcast [of demo 3 "Addr 0x55" 5]
  by (auto simp: demo_sinv demo_events demo_waiting demo_ctl)

end
