(* ===== verification/Os_Ring.thy ===== *)
theory Os_Ring
  imports Os_Objects
begin

text \<open>
  The ring buffer of a message queue (\<open>OS_Q\<close> in \<open>os_q.c\<close>): the pointer manipulations of the queue
  calls on the control block and the buffer in memory, and the proof that they are a bounded
  double-ended queue of messages.  The interface is the locale \<open>fifo_buffer\<close>.
\<close>

section \<open>The interface\<close>

locale fifo_buffer =
  fixes inv :: "'q \<Rightarrow> bool" and contents :: "'q \<Rightarrow> 'm list" and cap :: "'q \<Rightarrow> nat"
    and put :: "'m \<Rightarrow> 'q \<Rightarrow> 'q" and put_front :: "'m \<Rightarrow> 'q \<Rightarrow> 'q" and take :: "'q \<Rightarrow> 'm \<times> 'q"
    and clear :: "'q \<Rightarrow> 'q"
  assumes bounded: "inv q \<Longrightarrow> length (contents q) \<le> cap q"
    and put: "inv q \<Longrightarrow> length (contents q) < cap q \<Longrightarrow>
      inv (put m q) \<and> cap (put m q) = cap q \<and> contents (put m q) = contents q @ [m]"
    and put_front: "inv q \<Longrightarrow> length (contents q) < cap q \<Longrightarrow>
      inv (put_front m q) \<and> cap (put_front m q) = cap q \<and> contents (put_front m q) = m # contents q"
    and take: "inv q \<Longrightarrow> contents q \<noteq> [] \<Longrightarrow>
      inv (snd (take q)) \<and> cap (snd (take q)) = cap q \<and> contents q = fst (take q) # contents (snd (take q))"
    and clear: "inv q \<Longrightarrow> inv (clear q) \<and> cap (clear q) = cap q \<and> contents (clear q) = []"
begin

text \<open>Posting a list of messages, and taking \<open>n\<close> messages.\<close>

definition put_all :: "'m list \<Rightarrow> 'q \<Rightarrow> 'q" where
  "put_all ms q = foldl (\<lambda>q m. put m q) q ms"

fun take_n :: "nat \<Rightarrow> 'q \<Rightarrow> 'm list \<times> 'q" where
  "take_n 0 q = ([], q)"
| "take_n (Suc n) q = (let (m, q) = take q; (ms, q) = take_n n q in (m # ms, q))"

lemma put_all:
  assumes "inv q" "length (contents q) + length ms \<le> cap q"
  shows "inv (put_all ms q) \<and> cap (put_all ms q) = cap q \<and> contents (put_all ms q) = contents q @ ms"
  using assms
proof (induction ms arbitrary: q)
  case Nil
  then show ?case by (simp add: put_all_def)
next
  case (Cons m ms)
  then have p: "inv (put m q) \<and> cap (put m q) = cap q \<and> contents (put m q) = contents q @ [m]"
    by (intro put) auto
  with Cons.prems Cons.IH [of "put m q"] show ?case by (simp add: put_all_def)
qed

lemma take_n:
  assumes "inv q" "n \<le> length (contents q)"
  shows "fst (take_n n q) = List.take n (contents q) \<and> inv (snd (take_n n q))
    \<and> contents (snd (take_n n q)) = drop n (contents q)"
  using assms
proof (induction n arbitrary: q)
  case 0
  then show ?case by simp
next
  case (Suc n)
  then have ne: "contents q \<noteq> []" by auto
  note t = take [OF Suc.prems(1) ne]
  have "length (contents q) = Suc (length (contents (snd (take q))))"
    using t by (metis length_Cons)
  with Suc.prems Suc.IH [of "snd (take q)"] t show ?case
    by (simp add: split_beta' Let_def)
qed

text \<open>What goes in first comes out first, and nothing is lost or made up.\<close>

lemma fifo:
  assumes "inv q" "contents q = []" "length ms \<le> cap q"
  shows "fst (take_n (length ms) (put_all ms q)) = ms"
    and "contents (snd (take_n (length ms) (put_all ms q))) = []"
  using put_all [of q ms] take_n [of "put_all ms q" "length ms"] assms by simp_all

end

section \<open>The ring of the queue calls\<close>

type_synonym ring = "os_q \<times> (64 word \<Rightarrow> vptr)"

text \<open>\<open>*pq->OSQIn++ = pmsg; pq->OSQEntries++; if (pq->OSQIn == pq->OSQEnd) pq->OSQIn = pq->OSQStart;\<close>\<close>

definition ring_put :: "vptr \<Rightarrow> ring \<Rightarrow> ring" where
  "ring_put pmsg r = (let (q, mem) = r; i = OSQIn q + 8 in
     (q\<lparr>OSQIn := (if i = OSQEnd q then OSQStart q else i), OSQEntries := OSQEntries q + 1\<rparr>,
      mem(OSQIn q := pmsg)))"

text \<open>\<open>if (pq->OSQOut == pq->OSQStart) pq->OSQOut = pq->OSQEnd; pq->OSQOut--; *pq->OSQOut = pmsg; pq->OSQEntries++;\<close>\<close>

definition ring_put_front :: "vptr \<Rightarrow> ring \<Rightarrow> ring" where
  "ring_put_front pmsg r = (let (q, mem) = r;
       out = (if OSQOut q = OSQStart q then OSQEnd q else OSQOut q) - 8 in
     (q\<lparr>OSQOut := out, OSQEntries := OSQEntries q + 1\<rparr>, mem(out := pmsg)))"

text \<open>\<open>pmsg = *pq->OSQOut++; pq->OSQEntries--; if (pq->OSQOut == pq->OSQEnd) pq->OSQOut = pq->OSQStart;\<close>\<close>

definition ring_take :: "ring \<Rightarrow> vptr \<times> ring" where
  "ring_take r = (let (q, mem) = r; out = OSQOut q + 8 in
     (mem (OSQOut q),
      (q\<lparr>OSQOut := (if out = OSQEnd q then OSQStart q else out), OSQEntries := OSQEntries q - 1\<rparr>, mem)))"

text \<open>\<open>pq->OSQIn = pq->OSQStart; pq->OSQOut = pq->OSQStart; pq->OSQEntries = 0u;\<close>\<close>

definition ring_clear :: "ring \<Rightarrow> ring" where
  "ring_clear r = (let (q, mem) = r in
     (q\<lparr>OSQIn := OSQStart q, OSQOut := OSQStart q, OSQEntries := 0\<rparr>, mem))"

section \<open>The messages in a ring\<close>

text \<open>The slot that \<open>OSQOut\<close> points to, and the messages from there on.\<close>

definition ring_first :: "os_q \<Rightarrow> nat" where
  "ring_first q = unat (OSQOut q - OSQStart q) div 8"

definition ring_msgs :: "ring \<Rightarrow> vptr list" where
  "ring_msgs r = map (\<lambda>j. snd r (q_slot (fst r) ((ring_first (fst r) + j) mod unat (OSQSize (fst r)))))
     [0..<unat (OSQEntries (fst r))]"

definition ring_inv :: "ring \<Rightarrow> bool" where
  "ring_inv r \<longleftrightarrow> q_ring_ok (fst r)"

definition ring_cap :: "ring \<Rightarrow> nat" where
  "ring_cap r = unat (OSQSize (fst r))"

lemma unat_of_nat_slot:
  assumes "unat (OSQStart q) + 8 * unat (OSQSize q) < 2 ^ 64" "k \<le> unat (OSQSize q)"
  shows "unat (q_slot q k) = unat (OSQStart q) + 8 * k"
proof -
  have "unat (of_nat (8 * k) :: 64 word) = 8 * k"
    using assms by (simp add: unat_of_nat del: of_nat_mult)
  then show ?thesis
    using assms unat_add_lem [of "OSQStart q" "of_nat (8 * k)"] by (simp add: q_slot_def)
qed

lemma q_slot_inject:
  assumes "unat (OSQStart q) + 8 * unat (OSQSize q) < 2 ^ 64" "j \<le> unat (OSQSize q)" "k \<le> unat (OSQSize q)"
  shows "q_slot q j = q_slot q k \<longleftrightarrow> j = k"
  using unat_of_nat_slot [OF assms(1,2)] unat_of_nat_slot [OF assms(1,3)]
  by (auto simp: word_unat_eq_iff)

lemma q_slot_Suc: "q_slot q k + 8 = q_slot q (Suc k)"
  by (simp add: q_slot_def algebra_simps)

lemma ring_first_at: "q_ring_at q k \<Longrightarrow> ring_first q = k"
proof -
  assume at: "q_ring_at q k"
  then have k: "k \<le> unat (OSQSize q)" by (auto simp: q_ring_at_def split: if_splits)
  have "unat (of_nat (8 * k) :: 64 word) = 8 * k"
    using at k by (simp add: unat_of_nat q_ring_at_def del: of_nat_mult)
  then show ?thesis
    using at by (simp add: ring_first_def q_ring_at_def q_slot_def)
qed

lemma q_ring_at_less: "q_ring_at q k \<Longrightarrow> k < 65536"
  using unat_lt_65536 [of "OSQSize q"] by (auto simp: q_ring_at_def split: if_splits)

lemma q_ring_ok_at: "q_ring_ok q \<longleftrightarrow> q_ring_at q (ring_first q)"
proof
  show "q_ring_ok q \<Longrightarrow> q_ring_at q (ring_first q)"
    using ring_first_at by (auto simp: q_ring_ok_def)
  show "q_ring_at q (ring_first q) \<Longrightarrow> q_ring_ok q"
    using q_ring_at_less by (auto simp: q_ring_ok_def)
qed

lemma mod_add_inj:
  assumes "(k + i) mod n = (k + j) mod n" "i < n" "j < n"
  shows "i = (j :: nat)"
proof -
  have "i = j" if "i \<le> j" "(k + i) mod n = (k + j) mod n" "j < n" for i j
  proof -
    have "n dvd (k + j) - (k + i)"
      using that(1,2) mod_eq_dvd_iff_nat [of "k + i" "k + j" n] by simp
    then have "n dvd j - i" by simp
    moreover have "j - i < n" using that(3) by simp
    ultimately have "j - i = 0" using dvd_imp_le by fastforce
    then show "i = j" using that(1) by simp
  qed
  from this [of i j] this [of j i] assms show ?thesis by (cases "i \<le> j") auto
qed

section \<open>The laws\<close>

lemma unat_entries_inc: "unat (e :: 16 word) < unat n \<Longrightarrow> unat (e + 1) = unat e + 1" for n :: "16 word"
  using unat_lt_65536 [of n] by (subst unat_add_lem [THEN iffD1]) auto

lemma unat_entries_dec: "0 < unat (e :: 16 word) \<Longrightarrow> unat (e - 1) = unat e - 1"
  by (simp add: unat_minus_one unat_gt_0)

lemma ring_msgs_at: "q_ring_at q k \<Longrightarrow>
  ring_msgs (q, mem) = map (\<lambda>j. mem (q_slot q ((k + j) mod unat (OSQSize q)))) [0..<unat (OSQEntries q)]"
  by (simp add: ring_msgs_def ring_first_at)

text \<open>The pointer after slot \<open>k\<close>, wrapped at the end of the buffer.\<close>

lemma q_slot_wrap:
  assumes "q_ring_at q k" "j < unat (OSQSize q)"
  shows "(if q_slot q j + 8 = OSQEnd q then OSQStart q else q_slot q j + 8)
    = q_slot q (Suc j mod unat (OSQSize q))"
proof -
  let ?n = "unat (OSQSize q)"
  have b: "unat (OSQStart q) + 8 * ?n < 2 ^ 64" and e: "OSQEnd q = q_slot q ?n"
    using assms(1) by (simp_all add: q_ring_at_def)
  have "q_slot q j + 8 = OSQEnd q \<longleftrightarrow> Suc j = ?n"
    unfolding e q_slot_Suc using q_slot_inject [OF b, of "Suc j" ?n] assms(2) by simp
  moreover have "OSQStart q = q_slot q 0" by (simp add: q_slot_def)
  ultimately show ?thesis
    using assms(2) by (auto simp: q_slot_Suc)
qed

lemma ring_put_at:
  assumes at: "q_ring_at q k" and room: "unat (OSQEntries q) < unat (OSQSize q)"
  shows "q_ring_at (fst (ring_put m (q, mem))) k"
    and "ring_msgs (ring_put m (q, mem)) = ring_msgs (q, mem) @ [m]"
proof -
  let ?n = "unat (OSQSize q)" let ?e = "unat (OSQEntries q)" let ?i = "(k + ?e) mod ?n"
  have n: "0 < ?n" and k: "k < ?n" and i: "?i < ?n" using at room by (auto simp: q_ring_at_def split: if_splits)
  have b: "unat (OSQStart q) + 8 * ?n < 2 ^ 64" and in_: "OSQIn q = q_slot q ?i"
    using at by (simp_all add: q_ring_at_def)
  have e1: "unat (OSQEntries q + 1) = ?e + 1" and n0: "OSQSize q \<noteq> 0"
    using unat_entries_inc [OF room] n by (simp_all add: unat_gt_0)
  define q' where "q' = fst (ring_put m (q, mem))"
  have q': "q' = q\<lparr>OSQIn := q_slot q (Suc ?i mod ?n), OSQEntries := OSQEntries q + 1\<rparr>"
    using q_slot_wrap [OF at i] by (auto simp: q'_def ring_put_def Let_def in_ split: if_splits)
  have same: "q_slot q' = q_slot q" by (simp add: q' q_slot_def fun_eq_iff)
  have "Suc ?i mod ?n = (k + (?e + 1)) mod ?n" by (simp add: mod_Suc_eq)
  then show at': "q_ring_at (fst (ring_put m (q, mem))) k"
    unfolding q'_def [symmetric] using at room e1 n0 same by (simp add: q_ring_at_def) (simp add: q')
  have mem': "ring_put m (q, mem) = (q', mem(q_slot q ?i := m))"
    by (simp add: q'_def ring_put_def Let_def in_)
  have "(mem(q_slot q ?i := m)) (q_slot q ((k + j) mod ?n)) = mem (q_slot q ((k + j) mod ?n))" if "j < ?e" for j
  proof -
    have "(k + j) mod ?n \<noteq> ?i" using mod_add_inj [of k j ?n ?e] that room by auto
    then show ?thesis using q_slot_inject [OF b, of "(k + j) mod ?n" ?i] n by (simp add: less_imp_le)
  qed
  then have keep: "map (\<lambda>j. (mem(q_slot q ?i := m)) (q_slot q ((k + j) mod ?n))) [0..<?e]
      = map (\<lambda>j. mem (q_slot q ((k + j) mod ?n))) [0..<?e]" by simp
  have "ring_msgs (q', mem(q_slot q ?i := m))
      = map (\<lambda>j. (mem(q_slot q ?i := m)) (q_slot q ((k + j) mod ?n))) [0..<?e + 1]"
    using ring_msgs_at [OF at', of "mem(q_slot q ?i := m)"] e1 same by (simp add: mem') (simp add: q')
  then show "ring_msgs (ring_put m (q, mem)) = ring_msgs (q, mem) @ [m]"
    using keep by (simp add: mem' ring_msgs_at [OF at])
qed

lemma ring_take_at:
  assumes at: "q_ring_at q k" and some: "0 < unat (OSQEntries q)"
  shows "q_ring_at (fst (snd (ring_take (q, mem)))) (Suc k mod unat (OSQSize q))"
    and "ring_msgs (q, mem) = fst (ring_take (q, mem)) # ring_msgs (snd (ring_take (q, mem)))"
proof -
  let ?n = "unat (OSQSize q)" let ?e = "unat (OSQEntries q)" let ?k = "Suc k mod ?n"
  have n: "0 < ?n" and k: "k < ?n" and en: "?e \<le> ?n" using at some by (auto simp: q_ring_at_def split: if_splits)
  have out: "OSQOut q = q_slot q k" using at by (simp add: q_ring_at_def)
  have e1: "unat (OSQEntries q - 1) = ?e - 1" by (rule unat_entries_dec [OF some])
  define q' where "q' = fst (snd (ring_take (q, mem)))"
  have q': "q' = q\<lparr>OSQOut := q_slot q ?k, OSQEntries := OSQEntries q - 1\<rparr>"
    using q_slot_wrap [OF at k] by (auto simp: q'_def ring_take_def Let_def out split: if_splits)
  have same: "q_slot q' = q_slot q" by (simp add: q' q_slot_def fun_eq_iff)
  have next_j: "(?k + j) mod ?n = (k + Suc j) mod ?n" for j by (simp add: mod_simps)
  have kn: "?k < ?n" "?e - 1 \<le> ?n" using n en by simp_all
  have "(?k + (?e - 1)) mod ?n = (k + ?e) mod ?n" using next_j [of "?e - 1"] some by simp
  then show at': "q_ring_at (fst (snd (ring_take (q, mem)))) ?k"
    unfolding q'_def [symmetric] using at n kn e1 same
    by (simp add: q_ring_at_def del: mod_Suc_eq) (simp add: q' q_ring_at_def split: if_splits)
  have r: "snd (ring_take (q, mem)) = (q', mem)" "fst (ring_take (q, mem)) = mem (q_slot q k)"
    by (simp_all add: q'_def ring_take_def Let_def out)
  have "[0..<?e] = 0 # map Suc [0..<?e - 1]"
    using some by (simp add: upt_conv_Cons map_Suc_upt)
  then show "ring_msgs (q, mem) = fst (ring_take (q, mem)) # ring_msgs (snd (ring_take (q, mem)))"
    using ring_msgs_at [OF at] ring_msgs_at [OF at' [folded q'_def], of mem] e1 same next_j k
    by (simp add: r) (simp add: q' comp_def)
qed

lemma ring_put_front_at:
  assumes at: "q_ring_at q k" and room: "unat (OSQEntries q) < unat (OSQSize q)"
  defines "k' \<equiv> (if k = 0 then unat (OSQSize q) - 1 else k - 1)"
  shows "q_ring_at (fst (ring_put_front m (q, mem))) k'"
    and "ring_msgs (ring_put_front m (q, mem)) = m # ring_msgs (q, mem)"
proof -
  let ?n = "unat (OSQSize q)" let ?e = "unat (OSQEntries q)"
  have n: "0 < ?n" and k: "k < ?n" using at room by (auto simp: q_ring_at_def split: if_splits)
  have b: "unat (OSQStart q) + 8 * ?n < 2 ^ 64" and out: "OSQOut q = q_slot q k"
    and e: "OSQEnd q = q_slot q ?n" using at by (simp_all add: q_ring_at_def)
  have e1: "unat (OSQEntries q + 1) = ?e + 1" and n0: "OSQSize q \<noteq> 0"
    using unat_entries_inc [OF room] n by (simp_all add: unat_gt_0)
  have k': "k' < ?n" "Suc k' = (if k = 0 then ?n else k)" using k n by (auto simp: k'_def)
  have prev: "q_slot q (Suc j) - 8 = q_slot q j" for j by (simp add: q_slot_Suc [symmetric])
  have "OSQOut q = OSQStart q \<longleftrightarrow> k = 0"
    using q_slot_inject [OF b, of k 0] k by (simp add: out q_slot_def)
  then have new: "(if OSQOut q = OSQStart q then OSQEnd q else OSQOut q) - 8 = q_slot q k'"
    using k' prev [of k'] by (auto simp: out e)
  define q' where "q' = q\<lparr>OSQOut := q_slot q k', OSQEntries := OSQEntries q + 1\<rparr>"
  have run: "ring_put_front m (q, mem) = (q', mem(q_slot q k' := m))"
    by (simp add: ring_put_front_def Let_def new q'_def)
  have same: "q_slot q' = q_slot q" by (simp add: q'_def q_slot_def fun_eq_iff)
  have step: "(k' + Suc j) mod ?n = (k + j) mod ?n" for j
  proof -
    have "(k' + Suc j) mod ?n = (Suc k' + j) mod ?n" by simp
    then show ?thesis using k'(2) by (simp split: if_splits)
  qed
  show at': "q_ring_at (fst (ring_put_front m (q, mem))) k'"
    unfolding run fst_conv using at room e1 n0 k'(1) step [of ?e] same
    by (simp add: q_ring_at_def) (simp add: q'_def)
  have "(mem(q_slot q k' := m)) (q_slot q ((k + j) mod ?n)) = mem (q_slot q ((k + j) mod ?n))" if "j < ?e" for j
  proof -
    have "(k' + Suc j) mod ?n \<noteq> (k' + 0) mod ?n" using mod_add_inj [of k' "Suc j" ?n 0] that room by auto
    then have "(k + j) mod ?n \<noteq> k'" using step [of j] k'(1) by simp
    then show ?thesis using q_slot_inject [OF b, of "(k + j) mod ?n" k'] n k'(1) by (simp add: less_imp_le)
  qed
  then have keep: "map (\<lambda>j. (mem(q_slot q k' := m)) (q_slot q ((k + j) mod ?n))) [0..<?e]
      = map (\<lambda>j. mem (q_slot q ((k + j) mod ?n))) [0..<?e]" by simp
  have l: "[0..<?e + 1] = 0 # map Suc [0..<?e]" by (simp add: upt_conv_Cons map_Suc_upt del: upt_Suc)
  have "ring_msgs (q', mem(q_slot q k' := m))
      = map (\<lambda>j. (mem(q_slot q k' := m)) (q_slot q ((k' + j) mod ?n))) [0..<?e + 1]"
    using ring_msgs_at [OF at', of "mem(q_slot q k' := m)"] e1 same
    by (simp add: run del: upt_Suc) (simp add: q'_def del: upt_Suc)
  also have "\<dots> = m # map (\<lambda>j. (mem(q_slot q k' := m)) (q_slot q ((k + j) mod ?n))) [0..<?e]"
  proof -
    have "Suc (k' + j) mod ?n = (k + j) mod ?n" for j using step [of j] by simp
    then show ?thesis unfolding l using k'(1) by (simp add: comp_def)
  qed
  finally show "ring_msgs (ring_put_front m (q, mem)) = m # ring_msgs (q, mem)"
    using keep by (simp add: run ring_msgs_at [OF at])
qed

lemma ring_clear_at:
  assumes "q_ring_at q k"
  shows "q_ring_at (fst (ring_clear (q, mem))) 0" "ring_msgs (ring_clear (q, mem)) = []"
  using assms by (auto simp: q_ring_at_def ring_clear_def ring_msgs_def q_slot_def unat_gt_0)

lemma ring_msgs_length: "length (ring_msgs r) = unat (OSQEntries (fst r))"
  by (simp add: ring_msgs_def)

lemma ring_size [simp]:
  "OSQSize (fst (ring_put m r)) = OSQSize (fst r)" "OSQSize (fst (ring_put_front m r)) = OSQSize (fst r)"
  "OSQSize (fst (snd (ring_take r))) = OSQSize (fst r)" "OSQSize (fst (ring_clear r)) = OSQSize (fst r)"
  by (simp_all add: ring_put_def ring_put_front_def ring_take_def ring_clear_def Let_def split_beta)

lemma ring_at: "ring_inv (q, mem) \<Longrightarrow> q_ring_at q (ring_first q)"
  by (simp add: ring_inv_def q_ring_ok_at)

lemma ring_inv_at: "q_ring_at (fst r) k \<Longrightarrow> ring_inv r"
  using q_ring_at_less by (auto simp: ring_inv_def q_ring_ok_def)

interpretation rb: fifo_buffer ring_inv ring_msgs ring_cap ring_put ring_put_front ring_take ring_clear
proof
  fix r :: ring and m
  obtain q mem where r: "r = (q, mem)" by (cases r)
  assume inv: "ring_inv r"
  note at = ring_at [OF inv [unfolded r]]
  show "length (ring_msgs r) \<le> ring_cap r"
    using at by (simp add: r ring_msgs_length ring_cap_def q_ring_at_def)
  show "ring_inv (ring_clear r) \<and> ring_cap (ring_clear r) = ring_cap r \<and> ring_msgs (ring_clear r) = []"
    using ring_clear_at [OF at, of mem] ring_inv_at by (auto simp: r ring_cap_def)
  show "ring_inv (ring_put m r) \<and> ring_cap (ring_put m r) = ring_cap r \<and> ring_msgs (ring_put m r) = ring_msgs r @ [m]"
    if "length (ring_msgs r) < ring_cap r"
    using ring_put_at [OF at, of m mem] that ring_inv_at by (auto simp: r ring_cap_def ring_msgs_length)
  show "ring_inv (ring_put_front m r) \<and> ring_cap (ring_put_front m r) = ring_cap r
      \<and> ring_msgs (ring_put_front m r) = m # ring_msgs r"
    if "length (ring_msgs r) < ring_cap r"
    using ring_put_front_at [OF at, of m mem] that ring_inv_at by (auto simp: r ring_cap_def ring_msgs_length)
  show "ring_inv (snd (ring_take r)) \<and> ring_cap (snd (ring_take r)) = ring_cap r
      \<and> ring_msgs r = fst (ring_take r) # ring_msgs (snd (ring_take r))"
    if "ring_msgs r \<noteq> []"
  proof -
    have "0 < unat (OSQEntries q)" using that ring_msgs_length [of r] by (cases "unat (OSQEntries q)") (auto simp: r)
    from ring_take_at [OF at this, of mem] show ?thesis using ring_inv_at by (auto simp: r ring_cap_def)
  qed
qed

text \<open>
  C11 (ring_is_fifo): messages posted to an empty queue come out in the order they went in, as many as
  fit, wherever in its buffer the queue stands.
\<close>

theorem ring_is_fifo:
  assumes "ring_inv r" "ring_msgs r = []" "length ms \<le> ring_cap r"
  shows "fst (rb.take_n (length ms) (rb.put_all ms r)) = ms
    \<and> ring_msgs (snd (rb.take_n (length ms) (rb.put_all ms r))) = []"
  using rb.fifo [OF assms] by simp

theorem ring_is_fifo_witness:
  "let q = \<lparr>OSQPtr = NULL, OSQStart = 0x2000, OSQEnd = 0x2018, OSQIn = 0x2008, OSQOut = 0x2008,
             OSQSize = 3, OSQEntries = 0\<rparr>
   in fst (rb.take_n 3 (rb.put_all [Addr 7, Addr 8, Addr 9] (q, \<lambda>_. NULL))) = [Addr 7, Addr 8, Addr 9]"
proof -
  define q where "q = \<lparr>OSQPtr = NULL, OSQStart = 0x2000, OSQEnd = 0x2018, OSQIn = 0x2008,
    OSQOut = 0x2008, OSQSize = 3, OSQEntries = 0\<rparr>"
  have "q_ring_at q 1" by (simp add: q_def q_ring_at_def q_slot_def)
  then have inv: "ring_inv (q, \<lambda>_. NULL)" by (intro ring_inv_at) simp
  have empty: "ring_msgs (q, \<lambda>_. NULL) = []" and cap: "ring_cap (q, \<lambda>_. NULL) = 3"
    by (simp_all add: q_def ring_msgs_def ring_cap_def)
  have len: "length [Addr 7, Addr 8, Addr 9] = 3" by simp
  show ?thesis
    using ring_is_fifo [OF inv empty, of "[Addr 7, Addr 8, Addr 9]"] cap
    unfolding len q_def Let_def by simp
qed

end
