(* ===== verification/Os_Q.thy ===== *)
theory Os_Q
  imports Os_Demo Os_Ring
begin

text \<open>
  Message queues (\<open>os_q.c\<close>): the calls, the contract they keep, and their refinement of a bounded
  list of messages with a set of waiting tasks.  The ring buffer is in \<open>Os_Ring\<close>.
\<close>

section \<open>The calls\<close>

definition ring_of :: "kst \<Rightarrow> nat \<Rightarrow> ring" where
  "ring_of s i = (OSQTbl s i, ptr_mem s)"

definition set_ring :: "nat \<Rightarrow> ring \<Rightarrow> kst \<Rightarrow> kst" where
  "set_ring i r s = s\<lparr>OSQTbl := (OSQTbl s)(i := fst r), ptr_mem := snd r\<rparr>"

definition OSQAccept :: "vptr \<Rightarrow> kst \<Rightarrow> ((vptr \<times> os_err) \<times> kst) option" where
  "OSQAccept pevent s =
     (if pevent = NULL then Some ((NULL, OS_ERR_PEVENT_NULL), s)
      else do {
        e \<leftarrow> ev_at pevent;
        if ev_type s e \<noteq> OS_EVENT_TYPE_Q then Some ((NULL, OS_ERR_EVENT_TYPE), s)
        else do {
          i \<leftarrow> q_at (ev_ptr s e);
          if OSQEntries (OSQTbl s i) > 0 then do {
            let (pmsg, r) = ring_take (ring_of s i);
            Some ((pmsg, OS_ERR_NONE), set_ring i r s)
          } else Some ((NULL, OS_ERR_Q_EMPTY), s)
        }
      })"

definition OSQCreate :: "64 word \<Rightarrow> 16 word \<Rightarrow> kst \<Rightarrow> (vptr \<times> kst) option" where
  "OSQCreate start nslots s =
     (if OSIntNesting s > 0 then Some (NULL, s)
      else do {
        (pevent, s) \<leftarrow> take_event s;
        if pevent \<noteq> NULL then do {
          let pq = OSQFreeList s;
          if pq \<noteq> NULL then do {
            i \<leftarrow> q_at pq;
            let s = s\<lparr>OSQFreeList := OSQPtr (OSQTbl s i)\<rparr>;
            let s = upd_q i (\<lambda>q. q\<lparr>OSQStart := start, OSQEnd := start + 8 * ucast nslots,
              OSQIn := start, OSQOut := start, OSQSize := nslots, OSQEntries := 0\<rparr>) s;
            s \<leftarrow> init_event pevent OS_EVENT_TYPE_Q 0 pq s;
            Some (pevent, s)
          } else do {
            e \<leftarrow> ev_at pevent;
            let s = upd_ev e (\<lambda>c. c\<lparr>OSEventPtr := OSEventFreeList s\<rparr>) s;
            Some (NULL, s\<lparr>OSEventFreeList := pevent\<rparr>)
          }
        } else Some (pevent, s)
      })"

text \<open>\<open>pq->OSQPtr = OSQFreeList; OSQFreeList = pq;\<close> and the end of the delete call.\<close>

definition free_queue :: "vptr \<Rightarrow> kst \<Rightarrow> kst option" where
  "free_queue pevent s = do {
     e \<leftarrow> ev_at pevent;
     let pq = ev_ptr s e;
     i \<leftarrow> q_at pq;
     let s = upd_q i (\<lambda>q. q\<lparr>OSQPtr := OSQFreeList s\<rparr>) s;
     free_event pevent (s\<lparr>OSQFreeList := pq\<rparr>)
   }"

definition OSQDel :: "vptr \<Rightarrow> 8 word \<Rightarrow> kst \<Rightarrow> ((vptr \<times> os_err) \<times> kst) option" where
  "OSQDel pevent opt s =
     (if pevent = NULL then Some ((pevent, OS_ERR_PEVENT_NULL), s)
      else do {
        e \<leftarrow> ev_at pevent;
        if ev_type s e \<noteq> OS_EVENT_TYPE_Q then Some ((pevent, OS_ERR_EVENT_TYPE), s)
        else if OSIntNesting s > 0 then Some ((pevent, OS_ERR_DEL_ISR), s)
        else do {
          let tasks_waiting = (OSEventGrp (OSEventTbl_ecb s e) \<noteq> 0);
          if opt = OS_DEL_NO_PEND then
            if \<not> tasks_waiting then do {
              s \<leftarrow> free_queue pevent s;
              Some ((NULL, OS_ERR_NONE), s)
            } else Some ((pevent, OS_ERR_TASK_WAITING), s)
          else if opt = OS_DEL_ALWAYS then do {
            (_, s) \<leftarrow> OS_EventTaskRdy_all pevent NULL OS_STAT_Q OS_STAT_PEND_ABORT 0 s;
            s \<leftarrow> free_queue pevent s;
            s \<leftarrow> (if tasks_waiting then OS_Sched s else Some s);
            Some ((NULL, OS_ERR_NONE), s)
          } else Some ((pevent, OS_ERR_INVALID_OPT), s)
        }
      })"

definition OSQFlush :: "vptr \<Rightarrow> kst \<Rightarrow> (os_err \<times> kst) option" where
  "OSQFlush pevent s =
     (if pevent = NULL then Some (OS_ERR_PEVENT_NULL, s)
      else do {
        e \<leftarrow> ev_at pevent;
        if ev_type s e \<noteq> OS_EVENT_TYPE_Q then Some (OS_ERR_EVENT_TYPE, s)
        else do {
          i \<leftarrow> q_at (ev_ptr s e);
          Some (OS_ERR_NONE, set_ring i (ring_clear (ring_of s i)) s)
        }
      })"

definition OSQPend :: "vptr \<Rightarrow> 32 word \<Rightarrow> kst \<Rightarrow> ((vptr \<times> os_err) pend \<times> kst) option" where
  "OSQPend pevent timeout s =
     (if pevent = NULL then Some (Returned (NULL, OS_ERR_PEVENT_NULL), s)
      else do {
        e \<leftarrow> ev_at pevent;
        if ev_type s e \<noteq> OS_EVENT_TYPE_Q then Some (Returned (NULL, OS_ERR_EVENT_TYPE), s)
        else if OSIntNesting s > 0 then Some (Returned (NULL, OS_ERR_PEND_ISR), s)
        else if OSLockNesting s > 0 then Some (Returned (NULL, OS_ERR_PEND_LOCKED), s)
        else do {
          i \<leftarrow> q_at (ev_ptr s e);
          if OSQEntries (OSQTbl s i) > 0 then do {
            let (pmsg, r) = ring_take (ring_of s i);
            Some (Returned (pmsg, OS_ERR_NONE), set_ring i r s)
          } else do {
            s \<leftarrow> event_wait pevent OS_STAT_Q timeout s;
            s \<leftarrow> OS_Sched s;
            Some (Waiting, s)
          }
        }
      })"

text \<open>The rest of the call, from line 497, when the task is the running task again.\<close>

definition OSQPend_resume :: "vptr \<Rightarrow> kst \<Rightarrow> ((vptr \<times> os_err) \<times> kst) option" where
  "OSQPend_resume pevent s = do {
     (r, s) \<leftarrow> event_resume pevent s;
     t \<leftarrow> tcb_at (OSTCBCur s);
     Some (r, upd_tcb t (\<lambda>c. c\<lparr>OSTCBMsg := NULL\<rparr>) s)
   }"

definition OSQPendAbort :: "vptr \<Rightarrow> 8 word \<Rightarrow> kst \<Rightarrow> ((8 word \<times> os_err) \<times> kst) option" where
  "OSQPendAbort pevent opt s =
     (if pevent = NULL then Some ((0, OS_ERR_PEVENT_NULL), s)
      else do {
        e \<leftarrow> ev_at pevent;
        if ev_type s e \<noteq> OS_EVENT_TYPE_Q then Some ((0, OS_ERR_EVENT_TYPE), s)
        else event_pend_abort pevent OS_STAT_Q opt s
      })"

definition OSQPost :: "vptr \<Rightarrow> vptr \<Rightarrow> kst \<Rightarrow> (os_err \<times> kst) option" where
  "OSQPost pevent pmsg s =
     (if pevent = NULL then Some (OS_ERR_PEVENT_NULL, s)
      else do {
        e \<leftarrow> ev_at pevent;
        if ev_type s e \<noteq> OS_EVENT_TYPE_Q then Some (OS_ERR_EVENT_TYPE, s)
        else if OSEventGrp (OSEventTbl_ecb s e) \<noteq> 0 then do {
          (_, s) \<leftarrow> OS_EventTaskRdy pevent pmsg OS_STAT_Q OS_STAT_PEND_OK s;
          s \<leftarrow> OS_Sched s;
          Some (OS_ERR_NONE, s)
        }
        else do {
          i \<leftarrow> q_at (ev_ptr s e);
          if OSQEntries (OSQTbl s i) \<ge> OSQSize (OSQTbl s i) then Some (OS_ERR_Q_FULL, s)
          else Some (OS_ERR_NONE, set_ring i (ring_put pmsg (ring_of s i)) s)
        }
      })"

definition OSQPostFront :: "vptr \<Rightarrow> vptr \<Rightarrow> kst \<Rightarrow> (os_err \<times> kst) option" where
  "OSQPostFront pevent pmsg s =
     (if pevent = NULL then Some (OS_ERR_PEVENT_NULL, s)
      else do {
        e \<leftarrow> ev_at pevent;
        if ev_type s e \<noteq> OS_EVENT_TYPE_Q then Some (OS_ERR_EVENT_TYPE, s)
        else if OSEventGrp (OSEventTbl_ecb s e) \<noteq> 0 then do {
          (_, s) \<leftarrow> OS_EventTaskRdy pevent pmsg OS_STAT_Q OS_STAT_PEND_OK s;
          s \<leftarrow> OS_Sched s;
          Some (OS_ERR_NONE, s)
        }
        else do {
          i \<leftarrow> q_at (ev_ptr s e);
          if OSQEntries (OSQTbl s i) \<ge> OSQSize (OSQTbl s i) then Some (OS_ERR_Q_FULL, s)
          else Some (OS_ERR_NONE, set_ring i (ring_put_front pmsg (ring_of s i)) s)
        }
      })"

definition OSQPostOpt :: "vptr \<Rightarrow> vptr \<Rightarrow> 8 word \<Rightarrow> kst \<Rightarrow> (os_err \<times> kst) option" where
  "OSQPostOpt pevent pmsg opt s =
     (if pevent = NULL then Some (OS_ERR_PEVENT_NULL, s)
      else do {
        e \<leftarrow> ev_at pevent;
        if ev_type s e \<noteq> OS_EVENT_TYPE_Q then Some (OS_ERR_EVENT_TYPE, s)
        else if OSEventGrp (OSEventTbl_ecb s e) \<noteq> 0 then do {
          s \<leftarrow> event_post_opt pevent pmsg OS_STAT_Q opt s;
          Some (OS_ERR_NONE, s)
        }
        else do {
          i \<leftarrow> q_at (ev_ptr s e);
          if OSQEntries (OSQTbl s i) \<ge> OSQSize (OSQTbl s i) then Some (OS_ERR_Q_FULL, s)
          else if opt AND OS_POST_OPT_FRONT \<noteq> 0 then
            Some (OS_ERR_NONE, set_ring i (ring_put_front pmsg (ring_of s i)) s)
          else Some (OS_ERR_NONE, set_ring i (ring_put pmsg (ring_of s i)) s)
        }
      })"

record os_q_data =
  q_OSMsg :: vptr
  q_OSNMsgs :: "16 word"
  q_OSQSize :: "16 word"
  q_data_Tbl :: "8 word list"
  q_data_Grp :: "8 word"

definition OSQQuery :: "vptr \<Rightarrow> vptr \<Rightarrow> kst \<Rightarrow> (os_err \<times> os_q_data option) option" where
  "OSQQuery pevent p_q_data s =
     (if pevent = NULL then Some (OS_ERR_PEVENT_NULL, None)
      else if p_q_data = NULL then Some (OS_ERR_PDATA_NULL, None)
      else do {
        e \<leftarrow> ev_at pevent;
        let ev = OSEventTbl_ecb s e;
        if OSEventType ev \<noteq> OS_EVENT_TYPE_Q then Some (OS_ERR_EVENT_TYPE, None)
        else do {
          i \<leftarrow> q_at (OSEventPtr ev);
          let q = OSQTbl s i;
          Some (OS_ERR_NONE, Some
            \<lparr>q_OSMsg = (if OSQEntries q > 0 then ptr_mem s (OSQOut q) else NULL),
             q_OSNMsgs = OSQEntries q, q_OSQSize = OSQSize q,
             q_data_Tbl = copy_tbl (OSEventTbl ev), q_data_Grp = OSEventGrp ev\<rparr>)
        }
      })"

section \<open>The queue of an event\<close>

definition q_ix :: "kst \<Rightarrow> nat \<Rightarrow> nat" where
  "q_ix s e = (case ev_ptr s e of Qp i \<Rightarrow> i | _ \<Rightarrow> OS_MAX_QS)"

definition q_msgs :: "kst \<Rightarrow> nat \<Rightarrow> vptr list" where
  "q_msgs s e = ring_msgs (ring_of s (q_ix s e))"

definition q_cap :: "kst \<Rightarrow> nat \<Rightarrow> nat" where
  "q_cap s e = ring_cap (ring_of s (q_ix s e))"

lemma q_used: "ev_type s e = OS_EVENT_TYPE_Q \<Longrightarrow> ev_type s e \<noteq> OS_EVENT_TYPE_UNUSED"
  by simp

lemma q_of_event:
  assumes "sinv s" "e < OS_MAX_EVENTS" "ev_type s e = OS_EVENT_TYPE_Q"
  shows "ev_ptr s e = Qp (q_ix s e)" "q_ix s e < OS_MAX_QS" "ring_inv (ring_of s (q_ix s e))"
    and "avail s e \<longleftrightarrow> q_msgs s e \<noteq> []"
    and "OSQEntries (OSQTbl s (q_ix s e)) > 0 \<longleftrightarrow> q_msgs s e \<noteq> []"
    and "OSQEntries (OSQTbl s (q_ix s e)) \<ge> OSQSize (OSQTbl s (q_ix s e))
      \<longleftrightarrow> \<not> length (q_msgs s e) < q_cap s e"
proof -
  have ok: "case ev_ptr s e of Qp i \<Rightarrow> i < OS_MAX_QS \<and> q_ring_ok (OSQTbl s i) | _ \<Rightarrow> False"
    using oinvD(4) [OF sinvD(4) [OF assms(1)] assms(2)] assms(3) by (simp add: obj_ok_def)
  then obtain i where i: "ev_ptr s e = Qp i" by (auto split: vptr.splits)
  then have ix: "q_ix s e = i" by (simp add: q_ix_def)
  have len: "length (q_msgs s e) = unat (OSQEntries (OSQTbl s i))"
    by (simp add: q_msgs_def ring_msgs_length ring_of_def ix)
  then have ne: "q_msgs s e \<noteq> [] \<longleftrightarrow> OSQEntries (OSQTbl s i) \<noteq> 0"
    using unat_eq_0 [of "OSQEntries (OSQTbl s i)"] by (metis length_0_conv)
  show "ev_ptr s e = Qp (q_ix s e)" "q_ix s e < OS_MAX_QS" "ring_inv (ring_of s (q_ix s e))"
    using ok i ix by (simp_all add: ring_inv_def ring_of_def)
  show "avail s e \<longleftrightarrow> q_msgs s e \<noteq> []" using i assms(3) ne by (simp add: avail_def)
  show "OSQEntries (OSQTbl s (q_ix s e)) > 0 \<longleftrightarrow> q_msgs s e \<noteq> []" by (simp add: ix word_gt_0 ne)
  show "OSQEntries (OSQTbl s (q_ix s e)) \<ge> OSQSize (OSQTbl s (q_ix s e))
      \<longleftrightarrow> \<not> length (q_msgs s e) < q_cap s e"
    by (simp add: ix len q_cap_def ring_cap_def ring_of_def word_le_nat_alt not_less)
qed

lemma views_set_ring [simp]:
  "ids (set_ring i r s) = ids s" "ev_data (set_ring i r s) = ev_data s" "ctl (set_ring i r s) = ctl s"
  "cur (set_ring i r s) = cur s" "clock (set_ring i r s) = clock s" "rdy_bm (set_ring i r s) = rdy_bm s"
  "rdy (set_ring i r s) = rdy s" "ev_bm (set_ring i r s) = ev_bm s" "waiters (set_ring i r s) = waiters s"
  "OSTCBTbl (set_ring i r s) = OSTCBTbl s" "OSEventTbl_ecb (set_ring i r s) = OSEventTbl_ecb s"
  "OSEventFreeList (set_ring i r s) = OSEventFreeList s" "OSQFreeList (set_ring i r s) = OSQFreeList s"
  "OSQTbl (set_ring i r s) = (OSQTbl s)(i := fst r)" "ring_of (set_ring i r s) i = r"
  "q_ix (set_ring i r s) = q_ix s" "OSTmrSemSignal (set_ring i r s) = OSTmrSemSignal s"
  by (auto simp: set_ring_def ids_def ev_data_def ctl_def cur_def clock_def rdy_bm_def rdy_def ev_bm_def
      waiters_def ring_of_def q_ix_def fun_eq_iff)

lemma set_ring_sinv:
  assumes inv: "sinv s" and e: "e < OS_MAX_EVENTS" and k: "ev_type s e = OS_EVENT_TYPE_Q"
    and r: "ring_inv r" and none: "waiters s e = {} \<or> ring_msgs r = []"
  shows "sinv (set_ring (q_ix s e) r s)" (is "sinv ?s")
proof -
  note q = q_of_event [OF inv e k]
  have "kinv0 ?s" by (rule kinv0_lists [OF sinvD(2) [OF inv]]) simp_all
  moreover have "unat (OSQEntries (fst r)) = 0 \<longleftrightarrow> ring_msgs r = []"
    using ring_msgs_length [of r] by (metis length_0_conv)
  then have "obj_ok ?s e"
    using k none q(1,2) r by (auto simp: obj_ok_def avail_def ring_inv_def unat_eq_0)
  then have "oinv ?s"
    by (rule oinv_update [OF sinvD(4) [OF inv] e, rotated -1]) (use k q(1) in auto)
  ultimately show ?thesis
    using cur_ok_same [OF sinvD(3) [OF inv], of ?s] by (simp add: sinv_def kinv_def)
qed

lemma set_ring_kept:
  assumes "sinv s" "e < OS_MAX_EVENTS" "ev_type s e = OS_EVENT_TYPE_Q"
    and "ring_inv r" "waiters s e = {} \<or> ring_msgs r = []"
  shows "kept s (set_ring (q_ix s e) r s)"
  using set_ring_sinv [OF assms] settled_cong [of "set_ring (q_ix s e) r s" s] by simp

section \<open>What each call does to a queue\<close>

lemma q_msgs_waiters:
  "sinv s \<Longrightarrow> e < OS_MAX_EVENTS \<Longrightarrow> ev_type s e = OS_EVENT_TYPE_Q \<Longrightarrow> q_msgs s e \<noteq> [] \<Longrightarrow> waiters s e = {}"
  using avail_waiters [OF sinvD(4)] q_of_event(4) by blast

lemma OSQAccept_q:
  assumes inv: "sinv s" and e: "e < OS_MAX_EVENTS" and k: "ev_type s e = OS_EVENT_TYPE_Q"
  shows "ok (OSQAccept (EVp e) s) (\<lambda>(r, s'). kept s s'
    \<and> (if q_msgs s e = [] then r = (NULL, OS_ERR_Q_EMPTY) \<and> s' = s
       else r = (fst (ring_take (ring_of s (q_ix s e))), OS_ERR_NONE)
         \<and> s' = set_ring (q_ix s e) (snd (ring_take (ring_of s (q_ix s e)))) s))"
proof -
  note q = q_of_event [OF inv e k]
  have "kept s (set_ring (q_ix s e) (snd (ring_take (ring_of s (q_ix s e)))) s)" if "q_msgs s e \<noteq> []"
    using rb.take [OF q(3)] that q_msgs_waiters [OF inv e k that]
    by (intro set_ring_kept [OF inv e k]) (auto simp: q_msgs_def)
  then show ?thesis
    using inv e k q(1,2,5) by (auto simp: OSQAccept_def split_beta)
qed

lemma OSQFlush_q:
  assumes inv: "sinv s" and e: "e < OS_MAX_EVENTS" and k: "ev_type s e = OS_EVENT_TYPE_Q"
  shows "ok (OSQFlush (EVp e) s) (\<lambda>(r, s'). kept s s' \<and> r = OS_ERR_NONE
    \<and> s' = set_ring (q_ix s e) (ring_clear (ring_of s (q_ix s e))) s)"
proof -
  note q = q_of_event [OF inv e k]
  have "kept s (set_ring (q_ix s e) (ring_clear (ring_of s (q_ix s e))) s)"
    using rb.clear [OF q(3)] by (intro set_ring_kept [OF inv e k]) auto
  then show ?thesis using e k q(1,2) by (simp add: OSQFlush_def)
qed

text \<open>The three post calls, from the check for waiting tasks on, differ in how they store a message.\<close>

definition q_posted :: "(ring \<Rightarrow> ring) \<Rightarrow> nat \<Rightarrow> kst \<Rightarrow> os_err \<Rightarrow> kst \<Rightarrow> bool" where
  "q_posted f e s r s' \<longleftrightarrow>
     (if length (q_msgs s e) < q_cap s e then r = OS_ERR_NONE
        \<and> s' = set_ring (q_ix s e) (f (ring_of s (q_ix s e))) s
      else r = OS_ERR_Q_FULL \<and> s' = s)"

lemma q_store_ok:
  assumes inv: "sinv s" and e: "e < OS_MAX_EVENTS" and k: "ev_type s e = OS_EVENT_TYPE_Q"
    and none: "waiters s e = {}" and f: "f = ring_put m \<or> f = ring_put_front m"
  shows "ok (if OSQEntries (OSQTbl s (q_ix s e)) \<ge> OSQSize (OSQTbl s (q_ix s e)) then Some (OS_ERR_Q_FULL, s)
      else Some (OS_ERR_NONE, set_ring (q_ix s e) (f (ring_of s (q_ix s e))) s))
    (\<lambda>(r, s'). kept s s' \<and> q_posted f e s r s')"
proof -
  note q = q_of_event [OF inv e k]
  have "kept s (set_ring (q_ix s e) (f (ring_of s (q_ix s e))) s)" if "length (q_msgs s e) < q_cap s e"
    using rb.put [OF q(3), of m] rb.put_front [OF q(3), of m] that none f
    by (intro set_ring_kept [OF inv e k]) (auto simp: q_msgs_def q_cap_def)
  then show ?thesis using q(6) inv by (auto simp: q_posted_def)
qed

text \<open>A post that finds waiting tasks gives the message to the most urgent one.\<close>

definition q_woke :: "nat \<Rightarrow> vptr \<Rightarrow> kst \<Rightarrow> os_err \<Rightarrow> kst \<Rightarrow> bool" where
  "q_woke e m s r s' \<longleftrightarrow> r = OS_ERR_NONE
     \<and> (\<exists>s1. readied e (Min (waiters s e)) m OS_STAT_Q OS_STAT_PEND_OK s s1 \<and> resched s1 s')"

lemma q_wake_ok:
  assumes inv: "sinv s" and e: "e < OS_MAX_EVENTS" and some: "waiters s e \<noteq> {}"
  shows "ok (do { (_, s) \<leftarrow> OS_EventTaskRdy (EVp e) m OS_STAT_Q OS_STAT_PEND_OK s;
                  s \<leftarrow> OS_Sched s; Some (OS_ERR_NONE, s) })
    (\<lambda>(r, s'). kept s s' \<and> q_woke e m s r s')"
  using wake_and_sched [OF inv e some, of m OS_STAT_Q OS_STAT_PEND_OK]
  by (auto simp: ok_simps split_beta q_woke_def elim!: ok_mono)

lemma OSQPost_q:
  assumes inv: "sinv s" and e: "e < OS_MAX_EVENTS" and k: "ev_type s e = OS_EVENT_TYPE_Q"
  shows "ok (OSQPost (EVp e) m s) (\<lambda>(r, s'). kept s s'
    \<and> (if waiters s e \<noteq> {} then q_woke e m s r s' else q_posted (ring_put m) e s r s'))"
proof (cases "waiters s e = {}")
  case True
  with q_store_ok [OF inv e k True, of "ring_put m" m] show ?thesis
    using e k q_of_event(1,2) [OF inv e k] ev_grp_waiters [OF sinvD(2) [OF inv] e]
    by (simp add: OSQPost_def)
next
  case False
  with q_wake_ok [OF inv e False, of m] show ?thesis
    using e k ev_grp_waiters [OF sinvD(2) [OF inv] e] by (simp add: OSQPost_def)
qed

lemma OSQPostFront_q:
  assumes inv: "sinv s" and e: "e < OS_MAX_EVENTS" and k: "ev_type s e = OS_EVENT_TYPE_Q"
  shows "ok (OSQPostFront (EVp e) m s) (\<lambda>(r, s'). kept s s'
    \<and> (if waiters s e \<noteq> {} then q_woke e m s r s' else q_posted (ring_put_front m) e s r s'))"
proof (cases "waiters s e = {}")
  case True
  with q_store_ok [OF inv e k True, of "ring_put_front m" m] show ?thesis
    using e k q_of_event(1,2) [OF inv e k] ev_grp_waiters [OF sinvD(2) [OF inv] e]
    by (simp add: OSQPostFront_def)
next
  case False
  with q_wake_ok [OF inv e False, of m] show ?thesis
    using e k ev_grp_waiters [OF sinvD(2) [OF inv] e] by (simp add: OSQPostFront_def)
qed

lemma OSQPostOpt_q:
  fixes opt :: "8 word"
  assumes inv: "sinv s" and e: "e < OS_MAX_EVENTS" and k: "ev_type s e = OS_EVENT_TYPE_Q"
  shows "ok (OSQPostOpt (EVp e) m opt s) (\<lambda>(r, s'). sinv s' \<and> ctl s' = ctl s
    \<and> (settled s \<longrightarrow> opt AND OS_POST_OPT_NO_SCHED = 0 \<longrightarrow> settled s')
    \<and> (if waiters s e \<noteq> {} then r = OS_ERR_NONE
         \<and> (\<exists>s1. all_readied e (if opt AND OS_POST_OPT_BROADCAST \<noteq> 0 then waiters s e
                   else {Min (waiters s e)}) m OS_STAT_Q OS_STAT_PEND_OK s s1 \<and> resched s1 s')
         \<and> (opt AND OS_POST_OPT_NO_SCHED \<noteq> 0 \<longrightarrow> cur s' = cur s)
       else q_posted (if opt AND OS_POST_OPT_FRONT \<noteq> 0 then ring_put_front m else ring_put m) e s r s'))"
proof (cases "waiters s e = {}")
  case True
  define f where "f = (if opt AND OS_POST_OPT_FRONT \<noteq> 0 then ring_put_front m else ring_put m)"
  have f: "f = ring_put m \<or> f = ring_put_front m" by (simp add: f_def)
  have run: "OSQPostOpt (EVp e) m opt s = (if OSQEntries (OSQTbl s (q_ix s e)) \<ge> OSQSize (OSQTbl s (q_ix s e))
      then Some (OS_ERR_Q_FULL, s)
      else Some (OS_ERR_NONE, set_ring (q_ix s e) (f (ring_of s (q_ix s e))) s))"
    using True e k q_of_event(1,2) [OF inv e k] ev_grp_waiters [OF sinvD(2) [OF inv] e]
    by (simp add: OSQPostOpt_def f_def)
  show ?thesis
    unfolding run f_def [symmetric]
    by (rule ok_mono2 [OF q_store_ok [OF inv e k True f]]) (use True in simp)
next
  case False
  then have run: "OSQPostOpt (EVp e) m opt s = do {
      s' \<leftarrow> event_post_opt (EVp e) m OS_STAT_Q opt s; Some (OS_ERR_NONE, s') }"
    using e k ev_grp_waiters [OF sinvD(2) [OF inv] e] by (simp add: OSQPostOpt_def)
  show ?thesis
    unfolding run
    by (rule ok_bindI [OF event_post_opt_ok [OF inv e False]]) (use False in auto)
qed

lemma OSQPend_q:
  assumes inv: "sinv s" and e: "e < OS_MAX_EVENTS" and k: "ev_type s e = OS_EVENT_TYPE_Q"
    and idle: "OSPrioCur s \<noteq> OS_TASK_IDLE_PRIO"
  shows "ok (OSQPend (EVp e) timeout s) (\<lambda>(r, s'). kept s s'
    \<and> (if OSIntNesting s > 0 then r = Returned (NULL, OS_ERR_PEND_ISR) \<and> s' = s
       else if OSLockNesting s > 0 then r = Returned (NULL, OS_ERR_PEND_LOCKED) \<and> s' = s
       else if q_msgs s e \<noteq> [] then
         r = Returned (fst (ring_take (ring_of s (q_ix s e))), OS_ERR_NONE)
         \<and> s' = set_ring (q_ix s e) (snd (ring_take (ring_of s (q_ix s e)))) s
       else r = Waiting \<and> blocked e timeout s s'))"
proof -
  note q = q_of_event [OF inv e k]
  consider (busy) "OSIntNesting s > 0 \<or> OSLockNesting s > 0"
    | (take) "OSIntNesting s = 0" "OSLockNesting s = 0" "q_msgs s e \<noteq> []"
    | (wait) "OSIntNesting s = 0" "OSLockNesting s = 0" "q_msgs s e = []"
    by (cases "OSIntNesting s = 0"; cases "OSLockNesting s = 0"; cases "q_msgs s e = []")
      (simp_all add: word_gt_0)
  then show ?thesis
  proof cases
    case busy
    with assms show ?thesis by (auto simp: OSQPend_def)
  next
    case take
    have "kept s (set_ring (q_ix s e) (snd (ring_take (ring_of s (q_ix s e)))) s)"
      using rb.take [OF q(3)] take(3) q_msgs_waiters [OF inv e k take(3)]
      by (intro set_ring_kept [OF inv e k]) (auto simp: q_msgs_def)
    with take show ?thesis
      using e k q(1,2,5) by (simp add: OSQPend_def split_beta)
  next
    case wait
    have no: "\<not> avail s e" using q(4) wait by simp
    have run: "OSQPend (EVp e) timeout s = do {
        s' \<leftarrow> do { s1 \<leftarrow> event_wait (EVp e) OS_STAT_Q timeout s; OS_Sched s1 }; Some (Waiting, s') }"
      using wait e k q(1,2,5) by (simp add: OSQPend_def)
    show ?thesis
      unfolding run
      by (rule ok_bindI [OF wait_and_sched [OF inv idle e no q_used [OF k] wait(1,2)]])
        (use wait in simp)
  qed
qed

lemma OSQPendAbort_q:
  assumes "sinv s" "e < OS_MAX_EVENTS" "ev_type s e = OS_EVENT_TYPE_Q"
  shows "OSQPendAbort (EVp e) opt s = event_pend_abort (EVp e) OS_STAT_Q opt s"
  using assms by (simp add: OSQPendAbort_def)

lemma OSQPend_resume_ok:
  assumes "sinv s" "e < OS_MAX_EVENTS"
  shows "ok (OSQPend_resume (EVp e) s) (\<lambda>(r, s'). kept s s'
    \<and> (\<exists>s1. resumed e s r s1 \<and> s' = upd_tcb (cur_ix s) (\<lambda>c. c\<lparr>OSTCBMsg := NULL\<rparr>) s1))"
  unfolding OSQPend_resume_def
  by (rule event_resume_clear_ok [OF assms])

section \<open>Creating and deleting\<close>

lemma upd_q_views [simp]:
  "ids (upd_q i f s) = ids s" "ev_data (upd_q i f s) = ev_data s" "ctl (upd_q i f s) = ctl s"
  "cur (upd_q i f s) = cur s" "clock (upd_q i f s) = clock s" "rdy_bm (upd_q i f s) = rdy_bm s"
  "rdy (upd_q i f s) = rdy s" "ev_bm (upd_q i f s) = ev_bm s" "waiters (upd_q i f s) = waiters s"
  "OSTCBTbl (upd_q i f s) = OSTCBTbl s" "OSEventTbl_ecb (upd_q i f s) = OSEventTbl_ecb s"
  "OSEventFreeList (upd_q i f s) = OSEventFreeList s" "OSQFreeList (upd_q i f s) = OSQFreeList s"
  "OSQTbl (upd_q i f s) = (OSQTbl s)(i := f (OSQTbl s i))"
  by (auto simp: upd_q_def ids_def ev_data_def ctl_def cur_def clock_def rdy_bm_def rdy_def ev_bm_def
      waiters_def fun_eq_iff)

lemma free_lists_views [simp]:
  "ids (s\<lparr>OSQFreeList := v\<rparr>) = ids s" "ev_data (s\<lparr>OSQFreeList := v\<rparr>) = ev_data s"
  "ctl (s\<lparr>OSQFreeList := v\<rparr>) = ctl s" "cur (s\<lparr>OSQFreeList := v\<rparr>) = cur s"
  "rdy_bm (s\<lparr>OSQFreeList := v\<rparr>) = rdy_bm s" "ev_bm (s\<lparr>OSQFreeList := v\<rparr>) = ev_bm s"
  "rdy (s\<lparr>OSQFreeList := v\<rparr>) = rdy s" "waiters (s\<lparr>OSQFreeList := v\<rparr>) = waiters s"
  "ids (s\<lparr>OSEventFreeList := v\<rparr>) = ids s" "ev_data (s\<lparr>OSEventFreeList := v\<rparr>) = ev_data s"
  "ctl (s\<lparr>OSEventFreeList := v\<rparr>) = ctl s" "cur (s\<lparr>OSEventFreeList := v\<rparr>) = cur s"
  "rdy_bm (s\<lparr>OSEventFreeList := v\<rparr>) = rdy_bm s" "ev_bm (s\<lparr>OSEventFreeList := v\<rparr>) = ev_bm s"
  "rdy (s\<lparr>OSEventFreeList := v\<rparr>) = rdy s" "waiters (s\<lparr>OSEventFreeList := v\<rparr>) = waiters s"
  by (auto simp: ids_def ev_data_def ctl_def cur_def rdy_bm_def ev_bm_def rdy_def waiters_def fun_eq_iff)

text \<open>The first free queue control block.\<close>

lemma q_pool_cases:
  assumes "q_pool_ok s"
  obtains (none) "OSQFreeList s = NULL" "{i. i < OS_MAX_QS} \<subseteq> used_qs s"
  | (some) i qs where "OSQFreeList s = Qp i" "i < OS_MAX_QS" "i \<notin> used_qs s"
      "path Qp (\<lambda>i. OSQPtr (OSQTbl s i)) (OSQPtr (OSQTbl s i)) qs" "distinct (i # qs)"
      "set (i # qs) = {i. i < OS_MAX_QS} - used_qs s"
proof -
  obtain qs where qs: "path Qp (\<lambda>i. OSQPtr (OSQTbl s i)) (OSQFreeList s) qs" "distinct qs"
    "set qs = {i. i < OS_MAX_QS} - used_qs s"
    using assms by (auto simp: q_pool_ok_def)
  show thesis
  proof (cases qs)
    case Nil
    then show thesis using qs by (intro none) auto
  next
    case (Cons i qs')
    then have "i \<in> {i. i < OS_MAX_QS} - used_qs s" using qs(3) by auto
    then show thesis using qs Cons by (intro some [of i qs']) auto
  qed
qed

lemma q_pool_take:
  assumes pool: "q_pool_ok s" and e: "e < OS_MAX_EVENTS" "ev_type s e \<noteq> OS_EVENT_TYPE_Q"
    and qs: "path Qp (\<lambda>i. OSQPtr (OSQTbl s i)) (OSQPtr (OSQTbl s i)) qs" "distinct (i # qs)"
      "set (i # qs) = {i. i < OS_MAX_QS} - used_qs s"
    and new: "ev_type s' e = OS_EVENT_TYPE_Q" "ev_ptr s' e = Qp i" "OSQFreeList s' = OSQPtr (OSQTbl s i)"
    and other: "\<And>e'. e' \<noteq> e \<Longrightarrow> ev_data s' e' = ev_data s e'" "\<And>j. j \<noteq> i \<Longrightarrow> OSQTbl s' j = OSQTbl s j"
  shows "q_pool_ok s'"
proof -
  have i: "i \<notin> used_qs s" using qs(3) by auto
  have k: "ev_type s' x = (if x = e then OS_EVENT_TYPE_Q else ev_type s x)"
    "ev_ptr s' x = (if x = e then Qp i else ev_ptr s x)" for x
    using new ev_data_fields [OF other(1), of x] by auto
  have used: "used_qs s' = insert i (used_qs s)"
    using e by (auto simp: used_qs_def k split: if_splits)
  have "path Qp (\<lambda>j. OSQPtr (OSQTbl s' j)) p qs = path Qp (\<lambda>j. OSQPtr (OSQTbl s j)) p qs" for p
  proof (rule path_cong)
    fix x
    assume "x \<in> set qs"
    then have "x \<noteq> i" using qs(2) by auto
    then show "OSQPtr (OSQTbl s' x) = OSQPtr (OSQTbl s x)" by (simp add: other(2))
  qed
  then have "path Qp (\<lambda>j. OSQPtr (OSQTbl s' j)) (OSQFreeList s') qs \<and> distinct qs
      \<and> set qs = {i. i < OS_MAX_QS} - used_qs s'"
    using qs new(3) used by auto
  moreover have "ev_ptr s x \<noteq> Qp i \<and> Qp i \<noteq> ev_ptr s x"
    if "x < OS_MAX_EVENTS" "ev_type s x = OS_EVENT_TYPE_Q" for x
    using that i by (auto simp: used_qs_def)
  then have "\<forall>x<OS_MAX_EVENTS. \<forall>y<OS_MAX_EVENTS. ev_type s' x = OS_EVENT_TYPE_Q \<longrightarrow>
      ev_type s' y = OS_EVENT_TYPE_Q \<longrightarrow> ev_ptr s' x = ev_ptr s' y \<longrightarrow> x = y"
    using pool e by (auto simp: q_pool_ok_def k split: if_splits)
  ultimately show ?thesis unfolding q_pool_ok_def by blast
qed

lemma q_pool_free:
  assumes pool: "q_pool_ok s" and e: "e < OS_MAX_EVENTS" "ev_type s e = OS_EVENT_TYPE_Q"
    and i: "ev_ptr s e = Qp i" "i < OS_MAX_QS"
    and new: "ev_type s' e = OS_EVENT_TYPE_UNUSED" "OSQFreeList s' = Qp i" "OSQPtr (OSQTbl s' i) = OSQFreeList s"
    and other: "\<And>e'. e' \<noteq> e \<Longrightarrow> ev_data s' e' = ev_data s e'" "\<And>j. j \<noteq> i \<Longrightarrow> OSQTbl s' j = OSQTbl s j"
  shows "q_pool_ok s'"
proof -
  obtain qs where qs: "path Qp (\<lambda>i. OSQPtr (OSQTbl s i)) (OSQFreeList s) qs" "distinct qs"
    "set qs = {i. i < OS_MAX_QS} - used_qs s"
    using pool by (auto simp: q_pool_ok_def)
  have k: "ev_type s' x = (if x = e then OS_EVENT_TYPE_UNUSED else ev_type s x)"
    "x \<noteq> e \<Longrightarrow> ev_ptr s' x = ev_ptr s x" for x
    using new ev_data_fields [OF other(1), of x] by auto
  have iu: "i \<in> used_qs s" using e i by (auto simp: used_qs_def)
  have "x = e" if "x < OS_MAX_EVENTS" "ev_type s x = OS_EVENT_TYPE_Q" "ev_ptr s x = Qp i" for x
    using pool that e i by (simp add: q_pool_ok_def)
  then have "x \<in> used_qs s' \<longleftrightarrow> x \<in> used_qs s - {i}" for x
    unfolding used_qs_def mem_Collect_eq Diff_iff using k i
    by (metis event_type.distinct(3) insertCI insertE singletonD vptr.inject(4))
  then have used: "used_qs s' = used_qs s - {i}" by blast
  have ni: "i \<notin> set qs" using qs(3) iu by auto
  have "path Qp (\<lambda>j. OSQPtr (OSQTbl s' j)) p qs = path Qp (\<lambda>j. OSQPtr (OSQTbl s j)) p qs" for p
  proof (rule path_cong)
    fix x
    assume "x \<in> set qs"
    then have "x \<noteq> i" using ni by auto
    then show "OSQPtr (OSQTbl s' x) = OSQPtr (OSQTbl s x)" by (simp add: other(2))
  qed
  then have "path Qp (\<lambda>j. OSQPtr (OSQTbl s' j)) (OSQFreeList s') (i # qs) \<and> distinct (i # qs)
      \<and> set (i # qs) = {i. i < OS_MAX_QS} - used_qs s'"
    using qs new ni used iu i(2) by auto
  moreover have "\<forall>x<OS_MAX_EVENTS. \<forall>y<OS_MAX_EVENTS. ev_type s' x = OS_EVENT_TYPE_Q \<longrightarrow>
      ev_type s' y = OS_EVENT_TYPE_Q \<longrightarrow> ev_ptr s' x = ev_ptr s' y \<longrightarrow> x = y"
    using pool k by (auto simp: q_pool_ok_def split: if_splits)
  ultimately show ?thesis unfolding q_pool_ok_def by blast
qed

text \<open>A buffer that does not run past the end of the address space.\<close>

definition valid_buffer :: "64 word \<Rightarrow> 16 word \<Rightarrow> bool" where
  "valid_buffer start nslots \<longleftrightarrow> unat start + 8 * unat nslots < 2 ^ 64"

lemma new_q_ring:
  assumes "valid_buffer start nslots"
  shows "q_ring_at (q\<lparr>OSQStart := start, OSQEnd := start + 8 * ucast nslots, OSQIn := start,
    OSQOut := start, OSQSize := nslots, OSQEntries := 0\<rparr>) 0"
proof -
  have "of_nat (8 * unat nslots) = 8 * (ucast nslots :: 64 word)" by simp
  then show ?thesis
    using assms by (auto simp: q_ring_at_def valid_buffer_def q_slot_def unat_gt_0)
qed

definition q_created :: "64 word \<Rightarrow> 16 word \<Rightarrow> kst \<Rightarrow> vptr \<Rightarrow> kst \<Rightarrow> bool" where
  "q_created start nslots s p s' \<longleftrightarrow>
     (if OSIntNesting s > 0 \<or> unused_events s = {} \<or> {i. i < OS_MAX_QS} \<subseteq> used_qs s then p = NULL \<and> s' = s
      else \<exists>e\<in>unused_events s. \<exists>i<OS_MAX_QS. i \<notin> used_qs s \<and> p = EVp e \<and> OSQFreeList s = Qp i
        \<and> ev_data s' = (ev_data s)(e := (OS_EVENT_TYPE_Q, Qp i, 0, unnamed))
        \<and> OSQTbl s' = (OSQTbl s)(i := (OSQTbl s i)\<lparr>OSQStart := start, OSQEnd := start + 8 * ucast nslots,
            OSQIn := start, OSQOut := start, OSQSize := nslots, OSQEntries := 0\<rparr>)
        \<and> rdy s' = rdy s \<and> cur s' = cur s \<and> waiters s' = waiters s)"

lemma OSQCreate_ok:
  assumes inv: "sinv s" and buf: "valid_buffer start nslots"
  shows "ok (OSQCreate start nslots s) (\<lambda>(p, s'). kept s s' \<and> q_created start nslots s p s')"
proof (cases "OSIntNesting s > 0")
  case True
  then show ?thesis using inv by (simp add: OSQCreate_def q_created_def)
next
  case False
  have oi: "oinv s" by (rule sinvD(4) [OF inv])
  note isr = False
  have "ok (take_event s \<bind> (\<lambda>(pevent, s). if pevent \<noteq> NULL then do {
          let pq = OSQFreeList s;
          if pq \<noteq> NULL then do {
            i \<leftarrow> q_at pq;
            let s = s\<lparr>OSQFreeList := OSQPtr (OSQTbl s i)\<rparr>;
            let s = upd_q i (\<lambda>q. q\<lparr>OSQStart := start, OSQEnd := start + 8 * ucast nslots,
              OSQIn := start, OSQOut := start, OSQSize := nslots, OSQEntries := 0\<rparr>) s;
            s \<leftarrow> init_event pevent OS_EVENT_TYPE_Q 0 pq s;
            Some (pevent, s)
          } else do {
            e \<leftarrow> ev_at pevent;
            let s = upd_ev e (\<lambda>c. c\<lparr>OSEventPtr := OSEventFreeList s\<rparr>) s;
            Some (NULL, s\<lparr>OSEventFreeList := pevent\<rparr>)
          }
        } else Some (pevent, s))) (\<lambda>(p, s'). kept s s' \<and> q_created start nslots s p s')"
  proof (rule ok_bindI2 [OF take_event_ok [OF oinvD(1) [OF oi]]], elim disjE exE conjE, goal_cases)
    case (1 p s1)
    then show ?case using inv by (simp add: q_created_def)
  next
    case (2 p s1 e es)
    note un = 2(3)
    have e: "e < OS_MAX_EVENTS" "ev_type s e = OS_EVENT_TYPE_UNUSED" using un by (simp_all add: unused_events_def)
    have nonempty: "unused_events s \<noteq> {}" using un by auto
    from oinvD(2) [OF oi] show ?case
    proof (cases rule: q_pool_cases)
      case none
      have "(upd_ev e (\<lambda>c. c\<lparr>OSEventPtr := ev_ptr s e\<rparr>) (s\<lparr>OSEventFreeList := ev_ptr s e\<rparr>))
          \<lparr>OSEventFreeList := EVp e\<rparr> = s"
        using 2(1,2) by (simp add: upd_ev_def)
      then show ?thesis using 2 none e inv by (simp add: Let_def q_created_def)
    next
      case (some i qs)
      define s2 where "s2 = upd_q i (\<lambda>q. q\<lparr>OSQStart := start, OSQEnd := start + 8 * ucast nslots,
              OSQIn := start, OSQOut := start, OSQSize := nslots, OSQEntries := 0\<rparr>)
            (s1\<lparr>OSQFreeList := OSQPtr (OSQTbl s i)\<rparr>)"
      have tmr2: "clock s2 = clock s" by (simp add: s2_def 2(4) clock_def upd_q_def)
      have s2: "ids s2 = ids s" "ev_data s2 = ev_data s" "ctl s2 = ctl s" "cur s2 = cur s"
        "rdy_bm s2 = rdy_bm s" "ev_bm s2 = ev_bm s" "waiters s2 = waiters s" "OSTCBTbl s2 = OSTCBTbl s"
        "OSEventFreeList s2 = ev_ptr s e" "OSQFreeList s2 = OSQPtr (OSQTbl s i)"
        "OSQTbl s2 = (OSQTbl s)(i := (OSQTbl s i)\<lparr>OSQStart := start, OSQEnd := start + 8 * ucast nslots,
            OSQIn := start, OSQOut := start, OSQSize := nslots, OSQEntries := 0\<rparr>)"
        by (simp_all add: s2_def 2(4))
      have "ok (init_event (EVp e) OS_EVENT_TYPE_Q 0 (Qp i) s2)
        (\<lambda>s'. kept s s' \<and> q_created start nslots s (EVp e) s')"
      proof (rule ok_mono [OF init_event_ok [OF e(1)]], elim conjE)
        fix s'
        assume tmr: "clock s' = clock s2"
        assume a: "ids s' = ids s2" "stores s' = stores s2" "ctl s' = ctl s2" "cur s' = cur s2"
          "rdy_bm s' = rdy_bm s2" "bm_ok (ev_bm s' e)" "waiters s' = (waiters s2)(e := {})"
          "\<forall>e'. e' \<noteq> e \<longrightarrow> ev_bm s' e' = ev_bm s2 e'" "OSTCBTbl s' = OSTCBTbl s2"
          "OSEventFreeList s' = OSEventFreeList s2"
          "ev_data s' = (ev_data s2)(e := (OS_EVENT_TYPE_Q, Qp i, 0, unnamed))"
        have w: "waiters s' = waiters s"
          using a(7) s2 unused_waiters [OF oi e] by (simp add: fun_eq_iff)
        have q: "OSQTbl s' = OSQTbl s2" "OSQFreeList s' = OSQFreeList s2"
          using a(2) by (simp_all add: stores_def)
        have other: "ev_data s' e' = ev_data s e'" if "e' \<noteq> e" for e' using a(11) s2 that by simp
        have new: "ev_type s' e = OS_EVENT_TYPE_Q" "ev_ptr s' e = Qp i"
          using ev_data_at [of s' e] a(11) by simp_all
        have k0: "kinv0 s'"
          by (rule kinv0_lists [OF sinvD(2) [OF inv]]) (use a s2 w unused_waiters [OF oi e] in auto)
        have "ev_pool_ok s'"
          by (rule ev_pool_take [OF 2(5-7)]) (use a s2 new other in auto)
        moreover have "q_pool_ok s'"
          by (rule q_pool_take [OF oinvD(2) [OF oi] e(1) _ some(4-6) new _ other]) (use e q s2 in auto)
        moreover have "pcps_differ s'"
          by (rule pcps_differ_same [OF oinvD(3) [OF oi], of s' e]) (simp_all add: new other)
        moreover have "OSQTbl s' j = OSQTbl s j"
          if "e' < OS_MAX_EVENTS" "ev_type s e' = OS_EVENT_TYPE_Q" "ev_ptr s e' = Qp j" for e' j
        proof -
          have "j \<in> used_qs s" using that by (auto simp: used_qs_def)
          then show ?thesis using some(3) q s2 by auto
        qed
        moreover have "q_ring_ok (OSQTbl s' i)"
          using new_q_ring [OF buf] q(1) s2 unfolding q_ring_ok_def by (intro exI [of _ 0]) simp
        then have "obj_ok s' e"
          using new w some(2) unused_waiters [OF oi e] by (simp add: obj_ok_def)
        ultimately have "oinv s'"
          using w a(1) s2 tmr tmr2 by (intro oinv_build [OF oi e(1) _ other]) (auto simp: clock_def)
        then have "sinv s'"
          using k0 cur_ok_same [OF sinvD(3) [OF inv], of s'] a s2 by (simp add: sinv_def kinv_def)
        moreover have "settled s' = settled s" by (rule settled_cong) (use a s2 in \<open>simp_all add: rdy_def\<close>)
        moreover have "\<not> {i. i < OS_MAX_QS} \<subseteq> used_qs s" using some(2,3) by auto
        then have "q_created start nslots s (EVp e) s'"
          using isr nonempty un some(1-3) a s2 q w by (auto simp: q_created_def rdy_def)
        ultimately show "kept s s' \<and> q_created start nslots s (EVp e) s'" using a s2 by simp
      qed
      then show ?thesis
        using 2(1,4) some(1,2) by (auto simp: Let_def s2_def ok_simps elim!: ok_mono)
    qed
  qed
  then show ?thesis using isr by (simp add: OSQCreate_def)
qed

text \<open>Freeing a queue that nobody waits for gives back both control blocks.\<close>

lemma free_queue_ok:
  assumes inv: "sinv s" and e: "e < OS_MAX_EVENTS" and k: "ev_type s e = OS_EVENT_TYPE_Q"
    and none: "waiters s e = {}"
  shows "ok (free_queue (EVp e) s) (\<lambda>s'. sinv s' \<and> ids s' = ids s \<and> ctl s' = ctl s \<and> cur s' = cur s
    \<and> rdy s' = rdy s \<and> waiters s' = waiters s \<and> OSTCBTbl s' = OSTCBTbl s
    \<and> OSEventFreeList s' = EVp e \<and> OSQFreeList s' = ev_ptr s e
    \<and> ev_data s' = (ev_data s)(e := (OS_EVENT_TYPE_UNUSED, OSEventFreeList s, 0, unnamed)))"
proof -
  have oi: "oinv s" by (rule sinvD(4) [OF inv])
  note q = q_of_event [OF inv e k]
  let ?i = "q_ix s e"
  define s1 where "s1 = (upd_q ?i (\<lambda>q. q\<lparr>OSQPtr := OSQFreeList s\<rparr>) s)\<lparr>OSQFreeList := ev_ptr s e\<rparr>"
  have s1: "ids s1 = ids s" "ev_data s1 = ev_data s" "ctl s1 = ctl s" "cur s1 = cur s"
    "rdy_bm s1 = rdy_bm s" "ev_bm s1 = ev_bm s" "OSTCBTbl s1 = OSTCBTbl s"
    "OSEventFreeList s1 = OSEventFreeList s" "OSQFreeList s1 = ev_ptr s e"
    "OSQTbl s1 = (OSQTbl s)(?i := (OSQTbl s ?i)\<lparr>OSQPtr := OSQFreeList s\<rparr>)"
    by (simp_all add: s1_def)
  have tmr1: "clock s1 = clock s" by (simp add: s1_def clock_def upd_q_def)
  have run: "free_queue (EVp e) s = free_event (EVp e) s1"
    using e q(1,2) by (simp add: free_queue_def Let_def s1_def)
  show ?thesis
    unfolding run
  proof (rule ok_mono [OF free_event_ok [OF e]], elim conjE)
    fix s'
    assume tmr: "clock s' = clock s1"
    assume a: "ids s' = ids s1" "stores s' = stores s1" "ctl s' = ctl s1" "cur s' = cur s1"
      "rdy_bm s' = rdy_bm s1" "ev_bm s' = ev_bm s1" "OSTCBTbl s' = OSTCBTbl s1" "OSEventFreeList s' = EVp e"
      "ev_data s' = (ev_data s1)(e := (OS_EVENT_TYPE_UNUSED, OSEventFreeList s1, 0, unnamed))"
    have qt: "OSQTbl s' = OSQTbl s1" "OSQFreeList s' = OSQFreeList s1" using a(2) by (simp_all add: stores_def)
    have w: "waiters s' = waiters s" using a(6) s1(6) by (simp add: waiters_def fun_eq_iff)
    have other: "ev_data s' e' = ev_data s e'" if "e' \<noteq> e" for e' using a(9) s1(2) that by simp
    have new: "ev_type s' e = OS_EVENT_TYPE_UNUSED" "ev_ptr s' e = OSEventFreeList s"
      using ev_data_at [of s' e] a(9) s1 by simp_all
    have k0: "kinv0 s'" by (rule kinv0_lists [OF sinvD(2) [OF inv]]) (use a s1 in auto)
    have "ev_pool_ok s'"
      by (rule ev_pool_free [OF oinvD(1) [OF oi] e _ new a(8) other]) (simp_all add: k)
    moreover have "q_pool_ok s'"
      by (rule q_pool_free [OF oinvD(2) [OF oi] e k q(1,2) new(1) _ _ other]) (use qt s1 q(1) in auto)
    moreover have "pcps_differ s'"
      by (rule pcps_differ_same [OF oinvD(3) [OF oi], of s' e]) (simp_all add: new other)
    moreover have "OSQTbl s' j = OSQTbl s j"
      if "e' < OS_MAX_EVENTS" "e' \<noteq> e" "ev_type s e' = OS_EVENT_TYPE_Q" "ev_ptr s e' = Qp j" for e' j
    proof -
      have "j \<noteq> ?i" using oinvD(2) [OF oi] that e k q(1) by (auto simp: q_pool_ok_def)
      then show ?thesis using qt s1 by simp
    qed
    moreover have "obj_ok s' e" using new w none by (simp add: obj_ok_def)
    ultimately have "oinv s'"
      using w a(1) s1 tmr tmr1 by (intro oinv_build [OF oi e _ other]) (auto simp: clock_def)
    then have "sinv s'"
      using k0 cur_ok_same [OF sinvD(3) [OF inv], of s'] a s1 by (simp add: sinv_def kinv_def)
    then show "sinv s' \<and> ids s' = ids s \<and> ctl s' = ctl s \<and> cur s' = cur s
      \<and> rdy s' = rdy s \<and> waiters s' = waiters s \<and> OSTCBTbl s' = OSTCBTbl s
      \<and> OSEventFreeList s' = EVp e \<and> OSQFreeList s' = ev_ptr s e
      \<and> ev_data s' = (ev_data s)(e := (OS_EVENT_TYPE_UNUSED, OSEventFreeList s, 0, unnamed))"
      using a s1 qt w by (simp add: rdy_def)
  qed
qed

interpretation q_del: deletable OS_EVENT_TYPE_Q free_queue
proof
  fix s e
  assume "sinv s" "e < OS_MAX_EVENTS" "ev_type s e = OS_EVENT_TYPE_Q" "waiters s e = {}"
  from free_queue_ok [OF this] show "ok (free_queue (EVp e) s) (freed e s)"
    by (rule ok_mono) (auto simp: freed_def ev_data_at(1))
qed

lemma OSQDel_q:
  assumes inv: "sinv s" and e: "e < OS_MAX_EVENTS" and k: "ev_type s e = OS_EVENT_TYPE_Q"
  shows "ok (OSQDel (EVp e) opt s) (\<lambda>(r, s'). kept s s'
    \<and> (if OSIntNesting s > 0 then r = (EVp e, OS_ERR_DEL_ISR) \<and> s' = s
       else if opt = OS_DEL_NO_PEND \<and> waiters s e \<noteq> {} then r = (EVp e, OS_ERR_TASK_WAITING) \<and> s' = s
       else if opt = OS_DEL_NO_PEND \<or> opt = OS_DEL_ALWAYS then
         r = (NULL, OS_ERR_NONE) \<and> deleted e OS_STAT_Q s s'
       else r = (EVp e, OS_ERR_INVALID_OPT) \<and> s' = s))"
  by (rule q_del.del_body_ok [OF inv e k]) (use k e in \<open>simp_all add: OSQDel_def\<close>)

section \<open>The contract\<close>

interpretation QAccept: sched_call "\<lambda>s. valid_ev pevent" "OSQAccept pevent" for pevent
  by (rule event_callI [where k = OS_EVENT_TYPE_Q and run = OSQAccept], assumption,
      simp add: OSQAccept_def, simp add: OSQAccept_def, rule OSQAccept_q, assumption+)

interpretation QCreate: sched_call "\<lambda>s. valid_buffer start nslots" "OSQCreate start nslots" for start nslots
  by (rule sched_callI) (auto intro: ok_mono2 [OF OSQCreate_ok])

interpretation QDel: sched_call "\<lambda>s. valid_ev pevent" "OSQDel pevent opt" for pevent opt
  by (rule event_callI [where k = OS_EVENT_TYPE_Q and run = "\<lambda>p. OSQDel p opt"], assumption,
      simp add: OSQDel_def, simp add: OSQDel_def, rule OSQDel_q, assumption+)

interpretation QFlush: sched_call "\<lambda>s. valid_ev pevent" "OSQFlush pevent" for pevent
  by (rule event_callI [where k = OS_EVENT_TYPE_Q and run = OSQFlush], assumption,
      simp add: OSQFlush_def, simp add: OSQFlush_def, rule OSQFlush_q, assumption+)

interpretation QPend:
  sched_call "\<lambda>s. valid_ev pevent \<and> may_block s" "OSQPend pevent timeout" for pevent timeout
  by (rule event_callI [where k = OS_EVENT_TYPE_Q and run = "\<lambda>p. OSQPend p timeout"], simp,
      simp add: OSQPend_def, simp add: OSQPend_def, rule OSQPend_q)
    (simp_all add: may_block_def)

interpretation QPend_resume: sched_call "\<lambda>s. ev_at pevent \<noteq> None" "OSQPend_resume pevent" for pevent
  by (rule sched_callI) (auto intro!: ok_mono2 [OF OSQPend_resume_ok])

interpretation QPendAbort: sched_call "\<lambda>s. valid_ev pevent" "OSQPendAbort pevent opt" for pevent opt
  by (rule event_callI [where k = OS_EVENT_TYPE_Q and run = "\<lambda>p. OSQPendAbort p opt"], assumption,
      simp add: OSQPendAbort_def, simp add: OSQPendAbort_def, simp only: OSQPendAbort_q,
      rule event_pend_abort_ok, assumption+)

interpretation QPost: sched_call "\<lambda>s. valid_ev pevent" "OSQPost pevent pmsg" for pevent pmsg
  by (rule event_callI [where k = OS_EVENT_TYPE_Q and run = "\<lambda>p. OSQPost p pmsg"], assumption,
      simp add: OSQPost_def, simp add: OSQPost_def, rule OSQPost_q, assumption+)

interpretation QPostFront: sched_call "\<lambda>s. valid_ev pevent" "OSQPostFront pevent pmsg" for pevent pmsg
  by (rule event_callI [where k = OS_EVENT_TYPE_Q and run = "\<lambda>p. OSQPostFront p pmsg"], assumption,
      simp add: OSQPostFront_def, simp add: OSQPostFront_def, rule OSQPostFront_q, assumption+)

lemma OSQPostOpt_kept:
  assumes "sinv s" "e < OS_MAX_EVENTS" "ev_type s e = OS_EVENT_TYPE_Q"
    and "opt AND OS_POST_OPT_NO_SCHED = 0"
  shows "ok (OSQPostOpt (EVp e) m opt s) (\<lambda>(r, s'). kept s s' \<and> True)"
  by (rule ok_mono2 [OF OSQPostOpt_q [OF assms(1-3), of m opt]]) (use assms(4) in simp)

interpretation QPostOpt:
  sched_call "\<lambda>s. valid_ev pevent \<and> opt AND OS_POST_OPT_NO_SCHED = 0" "OSQPostOpt pevent pmsg opt"
  for pevent pmsg opt
  by (rule event_callI [where k = OS_EVENT_TYPE_Q and run = "\<lambda>p. OSQPostOpt p pmsg opt"], simp,
      simp add: OSQPostOpt_def, simp add: OSQPostOpt_def, rule OSQPostOpt_kept, assumption+, simp)

interpretation QPostOpt_any: kernel_call "\<lambda>s. valid_ev pevent" "OSQPostOpt pevent pmsg opt" for pevent pmsg opt
proof
  fix s
  assume inv: "sinv s" and "valid_ev pevent"
  from this(2) show "ok (OSQPostOpt pevent pmsg opt s) (\<lambda>(r, s'). sinv s' \<and> ctl s' = ctl s)"
  proof (cases rule: valid_evE)
    case (2 e)
    show ?thesis
      using OSQPostOpt_q [OF inv 2(2), of pmsg opt] inv 2
      by (cases "ev_type s e = OS_EVENT_TYPE_Q") (auto simp: OSQPostOpt_def elim!: ok_mono2)
  qed (use inv in \<open>simp add: OSQPostOpt_def\<close>)
qed

section \<open>The abstract queue\<close>

text \<open>The messages in order, how many fit, and the set of the priorities that wait.\<close>

type_synonym a_q = "vptr list \<times> nat \<times> nat set"

definition abs_q :: "kst \<Rightarrow> nat \<Rightarrow> a_q" where
  "abs_q s e = (q_msgs s e, q_cap s e, waiters s e)"

text \<open>\<open>add\<close> puts a message behind the others or in front of them.\<close>

fun a_q_post :: "(vptr \<Rightarrow> vptr list \<Rightarrow> vptr list) \<Rightarrow> vptr \<Rightarrow> a_q \<Rightarrow> os_err \<times> a_q" where
  "a_q_post add m (ms, n, W) =
     (if W \<noteq> {} then (OS_ERR_NONE, (ms, n, W - {Min W}))
      else if length ms < n then (OS_ERR_NONE, (add m ms, n, W)) else (OS_ERR_Q_FULL, (ms, n, W)))"

fun a_q_pend :: "nat \<Rightarrow> a_q \<Rightarrow> (vptr \<times> os_err) pend \<times> a_q" where
  "a_q_pend p (ms, n, W) = (case ms of
      m # ms' \<Rightarrow> (Returned (m, OS_ERR_NONE), (ms', n, W))
    | [] \<Rightarrow> (Waiting, ([], n, insert p W)))"

lemma abs_q_set_ring:
  "abs_q (set_ring (q_ix s e) r s) e = (ring_msgs r, ring_cap r, waiters s e)"
  by (simp add: abs_q_def q_msgs_def q_cap_def)

lemma q_same:
  assumes "ev_data s' e = ev_data s e" "stores s' = stores s"
  shows "q_msgs s' e = q_msgs s e" "q_cap s' e = q_cap s e"
proof -
  have "ring_of s' = ring_of s" using assms(2) by (auto simp: stores_def ring_of_def fun_eq_iff)
  moreover have "q_ix s' e = q_ix s e" using ev_data_fields(2) [OF assms(1)] by (simp add: q_ix_def)
  ultimately show "q_msgs s' e = q_msgs s e" "q_cap s' e = q_cap s e"
    by (simp_all add: q_msgs_def q_cap_def)
qed

lemma abs_q_woke:
  assumes "q_woke e m s r s'"
  shows "abs_q s' e = (q_msgs s e, q_cap s e, waiters s e - {Min (waiters s e)})" "ev_data s' = ev_data s"
    and "woken m OS_STAT_Q OS_STAT_PEND_OK (task s (Min (waiters s e))) (task s' (Min (waiters s e)))"
    and "rdy s' = (if suspended (task s' (Min (waiters s e))) then rdy s
                    else insert (Min (waiters s e)) (rdy s))"
proof -
  obtain s1 where 1: "readied e (Min (waiters s e)) m OS_STAT_Q OS_STAT_PEND_OK s s1" "resched s1 s'"
    using assms by (auto simp: q_woke_def)
  note w = readied_waiters [OF 1]
  have "stores s' = stores s" using 1 reschedD(6) [OF 1(2)] by (simp add: readied_def frames_def objs_def)
  then show "abs_q s' e = (q_msgs s e, q_cap s e, waiters s e - {Min (waiters s e)})"
    using w q_same [of s' e s] by (simp add: abs_q_def)
  show "ev_data s' = ev_data s"
    and "woken m OS_STAT_Q OS_STAT_PEND_OK (task s (Min (waiters s e))) (task s' (Min (waiters s e)))"
    and "rdy s' = (if suspended (task s' (Min (waiters s e))) then rdy s
                    else insert (Min (waiters s e)) (rdy s))"
    using w by simp_all
qed

lemma abs_q_posted:
  assumes "sinv s" "e < OS_MAX_EVENTS" "ev_type s e = OS_EVENT_TYPE_Q" "waiters s e = {}"
    and "q_posted f e s r s'" "f = ring_put m \<and> add = (\<lambda>m ms. ms @ [m]) \<or> f = ring_put_front m \<and> add = (#)"
  shows "(r, abs_q s' e) = a_q_post add m (abs_q s e)" "ev_data s' = ev_data s"
  using assms(4-6) rb.put [OF q_of_event(3) [OF assms(1-3)], of m]
    rb.put_front [OF q_of_event(3) [OF assms(1-3)], of m]
  by (auto simp: q_posted_def abs_q_set_ring abs_q_def q_msgs_def q_cap_def split: if_splits)

text \<open>
  C7 (OSQPost_refines): posting is posting to the abstract queue: the most urgent waiter gets this very
  message; else the message goes behind the others, or is refused when the queue is full.
\<close>

theorem OSQPost_refines:
  assumes "sinv s" "e < OS_MAX_EVENTS" "ev_type s e = OS_EVENT_TYPE_Q"
  shows "\<exists>r s'. OSQPost (EVp e) m s = Some (r, s')
    \<and> (r, abs_q s' e) = a_q_post (\<lambda>m ms. ms @ [m]) m (abs_q s e)
    \<and> ev_data s' = ev_data s
    \<and> (waiters s e \<noteq> {} \<longrightarrow>
        woken m OS_STAT_Q OS_STAT_PEND_OK (task s (Min (waiters s e))) (task s' (Min (waiters s e)))
        \<and> rdy s' = (if suspended (task s' (Min (waiters s e))) then rdy s
                    else insert (Min (waiters s e)) (rdy s)))"
proof -
  obtain r s' where run: "OSQPost (EVp e) m s = Some (r, s')" and
    post: "if waiters s e \<noteq> {} then q_woke e m s r s' else q_posted (ring_put m) e s r s'"
    using OSQPost_q [OF assms, of m] by (auto simp: ok_iff simp del: if_split)
  show ?thesis
  proof (cases "waiters s e = {}")
    case True
    with run post abs_q_posted [OF assms True, of "ring_put m" r s' m "\<lambda>m ms. ms @ [m]"]
    show ?thesis by simp
  next
    case False
    then have w: "q_woke e m s r s'" using post by simp
    with run False abs_q_woke [OF w] show ?thesis by (simp add: q_woke_def) (simp add: abs_q_def)
  qed
qed

lemma demo_queue: "abs_q demo 4 = ([Addr 0x33, Addr 0x44], 3, {})"
  by (simp add: abs_q_def q_msgs_def q_cap_def q_ix_def demo_events demo_waiting ring_of_def demo_q0
      ring_msgs_def ring_cap_def demo_q_def ring_first_def q_slot_def upt_rec) (simp add: demo_def)

theorem OSQPost_refines_witness:
  "\<exists>s'. OSQPost (EVp 4) (Addr 0x55) demo = Some (OS_ERR_NONE, s')
    \<and> abs_q s' 4 = ([Addr 0x33, Addr 0x44, Addr 0x55], 3, {})"
  using OSQPost_refines [of demo 4 "Addr 0x55"]
  by (auto simp: demo_sinv demo_events demo_waiting demo_queue)

text \<open>
  Posting to the front puts the message before all others, so it is the next
  one taken.
\<close>

theorem OSQPostFront_refines:
  assumes "sinv s" "e < OS_MAX_EVENTS" "ev_type s e = OS_EVENT_TYPE_Q"
  shows "\<exists>r s'. OSQPostFront (EVp e) m s = Some (r, s')
    \<and> (r, abs_q s' e) = a_q_post (#) m (abs_q s e) \<and> ev_data s' = ev_data s"
proof -
  obtain r s' where run: "OSQPostFront (EVp e) m s = Some (r, s')" and
    post: "if waiters s e \<noteq> {} then q_woke e m s r s' else q_posted (ring_put_front m) e s r s'"
    using OSQPostFront_q [OF assms, of m] by (auto simp: ok_iff simp del: if_split)
  show ?thesis
  proof (cases "waiters s e = {}")
    case True
    with run post abs_q_posted [OF assms True, of "ring_put_front m" r s' m "(#)"]
    show ?thesis by simp
  next
    case False
    then have w: "q_woke e m s r s'" using post by simp
    with run False abs_q_woke [OF w] show ?thesis by (simp add: q_woke_def) (simp add: abs_q_def)
  qed
qed

theorem OSQPostFront_refines_witness:
  "\<exists>s'. OSQPostFront (EVp 4) (Addr 0x55) demo = Some (OS_ERR_NONE, s')
    \<and> abs_q s' 4 = ([Addr 0x55, Addr 0x33, Addr 0x44], 3, {})"
  using OSQPostFront_refines [of demo 4 "Addr 0x55"]
  by (auto simp: demo_sinv demo_events demo_waiting demo_queue)

text \<open>
  C8 (OSQPend_refines): pending takes the oldest message, and else joins the waiting tasks; then the
  most urgent ready task runs.
\<close>

theorem OSQPend_refines:
  assumes "sinv s" "e < OS_MAX_EVENTS" "ev_type s e = OS_EVENT_TYPE_Q" "may_block s"
    and "OSIntNesting s = 0" "OSLockNesting s = 0"
  shows "\<exists>r s'. OSQPend (EVp e) timeout s = Some (r, s')
    \<and> (r, abs_q s' e) = a_q_pend (unat (OSPrioCur s)) (abs_q s e)
    \<and> ev_data s' = ev_data s
    \<and> (r = Waiting \<longrightarrow> rdy s' = rdy s - {unat (OSPrioCur s)} \<and> unat (OSPrioCur s') = Min (rdy s')
        \<and> OSTCBDly (OSTCBTbl s' (cur_ix s)) = timeout)"
proof -
  obtain r s' where run: "OSQPend (EVp e) timeout s = Some (r, s')" and pend:
    "if q_msgs s e \<noteq> [] then r = Returned (fst (ring_take (ring_of s (q_ix s e))), OS_ERR_NONE)
       \<and> s' = set_ring (q_ix s e) (snd (ring_take (ring_of s (q_ix s e)))) s
     else r = Waiting \<and> blocked e timeout s s'"
    using OSQPend_q [of s e timeout] assms
    by (auto simp: ok_iff may_block_def simp del: if_split)
  show ?thesis
  proof (cases "q_msgs s e = []")
    case True
    then have b: "r = Waiting" "blocked e timeout s s'" using pend by simp_all
    then have "ev_data s' = ev_data s" "stores s' = stores s" by (simp_all add: blocked_def objs_def)
    with run b True q_same [of s' e s] show ?thesis by (simp add: abs_q_def blocked_def)
  next
    case False
    with run pend rb.take [OF q_of_event(3) [OF assms(1-3)]] show ?thesis
      by (auto simp: abs_q_set_ring) (auto simp: abs_q_def q_msgs_def q_cap_def)
  qed
qed

theorem OSQPend_refines_witness:
  "\<exists>s'. OSQPend (EVp 4) 0 demo = Some (Returned (Addr 0x33, OS_ERR_NONE), s')
    \<and> abs_q s' 4 = ([Addr 0x44], 3, {})"
  using OSQPend_refines [of demo 4 0]
  by (auto simp: demo_sinv demo_events demo_waiting demo_queue demo_ctl may_block_def)

text \<open>
  Creating a queue gives an empty queue with room for the given number of messages
  and nobody waiting, and fails, changing nothing, only when every event or every queue control
  block is in use: no control block is ever lost.
\<close>

theorem OSQCreate_spec:
  assumes "sinv s" "valid_buffer start nslots" "OSIntNesting s = 0"
  shows "\<exists>p s'. OSQCreate start nslots s = Some (p, s') \<and> sinv s'
    \<and> (if unused_events s = {} \<or> {i. i < OS_MAX_QS} \<subseteq> used_qs s then p = NULL \<and> s' = s
       else \<exists>e. p = EVp e \<and> e \<in> unused_events s \<and> ev_type s' e = OS_EVENT_TYPE_Q
         \<and> abs_q s' e = ([], unat nslots, {})
         \<and> (\<forall>e'. e' \<noteq> e \<longrightarrow> ev_data s' e' = ev_data s e' \<and> waiters s' e' = waiters s e'))"
proof -
  obtain p s' where run: "OSQCreate start nslots s = Some (p, s')" and k: "kept s s'"
    and c: "q_created start nslots s p s'"
    using OSQCreate_ok [OF assms(1,2)] by (auto simp: ok_iff)
  show ?thesis
  proof (cases "unused_events s = {} \<or> {i. i < OS_MAX_QS} \<subseteq> used_qs s")
    case True
    with run k c show ?thesis by (simp add: q_created_def)
  next
    case False
    then obtain e i where e: "e \<in> unused_events s" "p = EVp e"
      and d: "ev_data s' = (ev_data s)(e := (OS_EVENT_TYPE_Q, Qp i, 0, unnamed))"
      and q: "OSQTbl s' = (OSQTbl s)(i := (OSQTbl s i)\<lparr>OSQStart := start, OSQEnd := start + 8 * ucast nslots,
            OSQIn := start, OSQOut := start, OSQSize := nslots, OSQEntries := 0\<rparr>)"
      and w: "waiters s' = waiters s"
      using c assms(3) by (auto simp: q_created_def)
    have "ev_type s' e = OS_EVENT_TYPE_Q" "ev_ptr s' e = Qp i" using ev_data_at [of s' e] d by simp_all
    moreover have "waiters s e = {}"
      using unused_waiters [OF sinvD(4) [OF assms(1)]] e(1) by (simp add: unused_events_def)
    ultimately have "abs_q s' e = ([], unat nslots, {})"
      using q w by (simp add: abs_q_def q_msgs_def q_cap_def q_ix_def ring_of_def ring_msgs_def ring_cap_def)
    with run k e d w False \<open>ev_type s' e = OS_EVENT_TYPE_Q\<close> show ?thesis by auto
  qed
qed

theorem OSQCreate_spec_witness:
  "\<exists>e s'. OSQCreate 0x3000 4 demo = Some (EVp e, s') \<and> sinv s' \<and> abs_q s' e = ([], 4, {})"
proof -
  have "unused_events demo \<noteq> {}" by (auto simp: unused_events_def demo_events intro!: exI [of _ 7])
  moreover have "1 \<notin> used_qs demo" by (auto simp: used_qs_def demo_events split: if_splits)
  moreover have "(1 :: nat) \<in> {i. i < OS_MAX_QS}" by simp
  ultimately have "\<not> {i. i < OS_MAX_QS} \<subseteq> used_qs demo" "unused_events demo \<noteq> {}" by blast+
  then show ?thesis
    using OSQCreate_spec [of demo "0x3000" 4] by (auto simp: demo_sinv demo_ctl valid_buffer_def)
qed

end
