(* ===== verification/Os_Mutex_Props.thy ===== *)
theory Os_Mutex_Props
  imports Os_Demo_Runs
begin

text \<open>
  What the mutexes promise: mutual exclusion, priority inheritance up to the ceiling, hand-over to
  the most urgent waiter, and that a release undoes a take.
\<close>

section \<open>Mutual exclusion\<close>

lemma mutex_owned_low:
  assumes "sinv s" "e < OS_MAX_EVENTS" "ev_type s e = OS_EVENT_TYPE_MUTEX" "ev_ptr s e \<noteq> NULL"
  shows "mutex_low (ev_cnt s e) \<noteq> 0xFF"
  using assms(4) by (auto intro: mutex_cases [OF assms(1-3)])

lemma raised_data:
  assumes "raised e s s1"
  shows "ev_data s1 = ev_data s" "ctl s1 = ctl s" "OSPrioCur s1 = OSPrioCur s" "OSTCBCur s1 = OSTCBCur s"
  using assms by (auto simp: raised_def cur_def movedD split: if_splits)

text \<open>
  C17 (mutex_exclusive): no other task takes a mutex that has an owner, or releases it for the owner: accepting it
  fails, pending on it waits, and a release by another task is refused, each without changing the
  owner, and the first and the last without changing anything.  Only a deletion takes it away: with
  \<open>OS_DEL_ALWAYS\<close>, or with \<open>OS_DEL_NO_PEND\<close> when no task waits, the mutex is gone and nobody's; otherwise the
  deletion is refused and changes nothing.
\<close>

theorem mutex_exclusive:
  assumes "sinv s" "e < OS_MAX_EVENTS" "ev_type s e = OS_EVENT_TYPE_MUTEX" "ev_ptr s e \<noteq> NULL"
    and "OSTCBCur s \<noteq> ev_ptr s e" "may_block s" "may_raise (EVp e) s"
    and "OSIntNesting s = 0" "OSLockNesting s = 0"
  shows "OSMutexAccept (EVp e) s = Some ((False, OS_ERR_NONE), s)
    \<and> OSMutexPost (EVp e) s = Some (OS_ERR_NOT_MUTEX_OWNER, s)
    \<and> (\<exists>s'. OSMutexPend (EVp e) timeout s = Some (Waiting, s') \<and> ev_data s' = ev_data s
      \<and> unat (OSPrioCur s) \<in> waiters s' e)
    \<and> (\<forall>opt. may_delete (EVp e) opt s \<longrightarrow> ok (OSMutexDel (EVp e) opt s) (\<lambda>((p, err), s').
        if opt = OS_DEL_ALWAYS \<or> (opt = OS_DEL_NO_PEND \<and> waiters s e = {})
        then err = OS_ERR_NONE \<and> ev_type s' e = OS_EVENT_TYPE_UNUSED
        else p = EVp e \<and> s' = s))"
proof (intro conjI allI impI)
  note low = mutex_owned_low [OF assms(1-4)]
  show "OSMutexAccept (EVp e) s = Some ((False, OS_ERR_NONE), s)"
    using low assms by (simp add: OSMutexAccept_def)
  show "OSMutexPost (EVp e) s = Some (OS_ERR_NOT_MUTEX_OWNER, s)"
    using assms by (simp add: OSMutexPost_def Let_def)
  obtain s' s1 where "OSMutexPend (EVp e) timeout s = Some (Waiting, s')" and r: "raised e s s1"
    and b: "blocked e timeout s1 s'"
    using OSMutexPend_mutex [OF assms(1-3) _ assms(7), of timeout] low assms(6,8,9)
    by (auto simp: ok_iff may_block_def)
  then show "\<exists>s'. OSMutexPend (EVp e) timeout s = Some (Waiting, s') \<and> ev_data s' = ev_data s
      \<and> unat (OSPrioCur s) \<in> waiters s' e"
    using raised_data [OF r] by (auto simp: blocked_def objs_def)
next
  fix opt
  assume may: "may_delete (EVp e) opt s"
  show "ok (OSMutexDel (EVp e) opt s) (\<lambda>((p, err), s').
      if opt = OS_DEL_ALWAYS \<or> (opt = OS_DEL_NO_PEND \<and> waiters s e = {})
      then err = OS_ERR_NONE \<and> ev_type s' e = OS_EVENT_TYPE_UNUSED else p = EVp e \<and> s' = s)"
    by (rule ok_mono [OF OSMutexDel_mutex [OF assms(1-3) may]])
      (use assms(8) in \<open>auto simp: mutex_deleted_def split: if_split_asm\<close>)
qed

lemma demo_preempted_may_delete: "may_delete (EVp 5) OS_DEL_ALWAYS demo_preempted"
proof -
  have "list_all (\<lambda>e. ev_type demo_preempted e = OS_EVENT_TYPE_MUTEX \<longrightarrow> ev_ptr demo_preempted e \<noteq> NULL
    \<longrightarrow> mutex_low (ev_cnt demo_preempted e) = 30) [0..<10]" by code_simp
  then have "owner_prios demo_preempted \<subseteq> {30}" by (auto simp: owner_prios_def list_all_iff)
  then show ?thesis by (auto simp: may_delete_def owner_raised_def demo_preempted_fields mutex_pcp_def)
qed

theorem mutex_exclusive_witness:
  "\<exists>s' s''. OSMutexAccept (EVp 5) demo_preempted = Some ((False, OS_ERR_NONE), demo_preempted)
    \<and> OSMutexPend (EVp 5) 7 demo_preempted = Some (Waiting, s') \<and> ev_ptr s' 5 = TCBp 3
    \<and> OSMutexDel (EVp 5) OS_DEL_ALWAYS demo_preempted = Some s'' \<and> ev_type (snd s'') 5 = OS_EVENT_TYPE_UNUSED"
proof -
  note excl = mutex_exclusive [of demo_preempted 5 7, OF demo_preempted_inv(1)]
  obtain s' where s': "OSMutexAccept (EVp 5) demo_preempted = Some ((False, OS_ERR_NONE), demo_preempted)"
    "OSMutexPend (EVp 5) 7 demo_preempted = Some (Waiting, s')" "ev_data s' = ev_data demo_preempted"
    using excl demo_preempted_may_raise by (auto simp: demo_preempted_fields may_block_def)
  have "ok (OSMutexDel (EVp 5) OS_DEL_ALWAYS demo_preempted) (\<lambda>((p, err), s'). err = OS_ERR_NONE \<and> ev_type s' 5 = OS_EVENT_TYPE_UNUSED)"
    using excl demo_preempted_may_raise demo_preempted_may_delete by (auto simp: demo_preempted_fields may_block_def)
  then show ?thesis
    using s' ev_data_fields(2) [OF fun_cong [OF s'(3)], of 5] by (auto simp: demo_preempted_fields ok_iff)
qed

section \<open>Priority inheritance\<close>

text \<open>
  C18 (OSMutexPend_inherits): when a task waits for a mutex whose owner is less urgent than the task was and
  than the ceiling, the owner runs at the ceiling from then on, so while it is ready nothing less
  urgent than the ceiling runs: the inversion of priorities ends at once.
\<close>

theorem OSMutexPend_inherits:
  assumes "sinv s" "e < OS_MAX_EVENTS" "ev_type s e = OS_EVENT_TYPE_MUTEX" "ev_ptr s e = TCBp t"
    and "raises s e" "may_raise (EVp e) s" "may_block s" "OSIntNesting s = 0" "OSLockNesting s = 0"
    and "unat (OSTCBPrio (OSTCBTbl s t)) \<in> rdy s"
  shows "\<exists>s'. OSMutexPend (EVp e) timeout s = Some (Waiting, s')
    \<and> owns s' t (unat (mutex_pcp (ev_cnt s e)))
    \<and> unat (mutex_pcp (ev_cnt s e)) \<in> rdy s' \<and> unat (OSPrioCur s') \<le> unat (mutex_pcp (ev_cnt s e))
    \<and> unat (OSPrioCur s) \<in> waiters s' e \<and> ev_data s' = ev_data s"
proof -
  let ?pcp = "mutex_pcp (ev_cnt s e)"
  have t: "t < OS_N_TCBS" using mutexD [OF assms(1-3)] assms(4) by (simp add: mutex_ok_def Let_def)
  then have may: "OSTCBCur s \<noteq> TCBp t" "raisable s t" using assms by (auto simp: may_raise_def)
  have low: "mutex_low (ev_cnt s e) \<noteq> 0xFF" using mutex_owned_low [OF assms(1-3)] assms(4) by simp
  obtain s' s1 where run: "OSMutexPend (EVp e) timeout s = Some (Waiting, s')" and inv: "sinv s'"
    and r: "raised e s s1" and b: "blocked e timeout s1 s'"
    using OSMutexPend_mutex [OF assms(1-3) _ assms(6), of timeout] low assms(7-9)
    by (auto simp: ok_iff may_block_def)
  note d = raised_data [OF r]
  have m: "moved t (unat (OSTCBPrio (OSTCBTbl s t))) ?pcp (rdy s) s s1"
    using r assms(4,5) by (auto simp: raised_def)
  have i: "ids s' = ids s1" using b by (simp add: blocked_def)
  have ent: "OSTCBPrioTbl s' (unat ?pcp) = TCBp t" "OSTCBPrio (OSTCBTbl s' t) = ?pcp"
    using ids_PrioTbl [OF i] ids_Prio [OF i] movedD(9,10) [OF m] by simp_all
  have p63: "unat ?pcp < 63"
    using assms(4,5) by (auto simp: raises_def intro: mutex_cases [OF assms(1-3)])
  then have "entry_ok s' (OSTCBPrioTbl s' (unat ?pcp))" using sinvD(2) [OF inv] by (simp add: kinv0_def)
  then have own: "owns s' t (unat ?pcp)" using ent by (simp add: entry_ok_def)
  have "?pcp \<noteq> OSPrioCur s"
  proof
    assume "?pcp = OSPrioCur s"
    moreover have "owned s (unat (OSPrioCur s))" using sinv_cur(2) [OF assms(1)] by (rule owns_owned)
    moreover have "\<not> owner_raised s e" using assms(4,5) by (auto simp: owner_raised_def raises_def)
    ultimately show False
      using not_raised_free [OF assms(1-3)] assms(5) by (simp add: raises_def)
  qed
  then have "unat ?pcp \<noteq> unat (OSPrioCur s)" by (simp add: word_unat_eq_iff)
  moreover have "unat ?pcp \<in> rdy s1" using m assms(10) by (auto simp: moved_def ren_def)
  ultimately have "unat ?pcp \<in> rdy s'" using b d by (simp add: blocked_def)
  moreover from this have "unat (OSPrioCur s') \<le> unat ?pcp" using b by (simp add: blocked_def)
  ultimately show ?thesis
    using run own b d by (auto simp: blocked_def objs_def)
qed

theorem OSMutexPend_inherits_witness:
  "\<exists>s'. OSMutexPend (EVp 5) 7 demo_preempted = Some (Waiting, s') \<and> owns s' 3 5 \<and> unat (OSPrioCur s') \<le> 5"
proof -
  have "raises demo_preempted 5" by (simp add: raises_def demo_preempted_fields mutex_pcp_def mutex_low_def)
  then show ?thesis
    using OSMutexPend_inherits [of demo_preempted 5 3 7] demo_preempted_inv demo_preempted_may_raise
    by (auto simp: demo_preempted_fields demo_preempted_sets may_block_def mutex_pcp_def)
qed

section \<open>Release\<close>

lemma mutex_own_same:
  "ids (mutex_own e p o' s) = ids s" "ctl (mutex_own e p o' s) = ctl s" "cur (mutex_own e p o' s) = cur s"
  "rdy (mutex_own e p o' s) = rdy s" "waiters (mutex_own e p o' s) = waiters s"
  "OSTCBTbl (mutex_own e p o' s) = OSTCBTbl s"
  "ev_data (mutex_own e p o' s) = (ev_data s)(e := (ev_type s e, o', (ev_cnt s e AND 0xFF00) OR ucast p,
     OSEventName (OSEventTbl_ecb s e)))"
  by (simp_all add: mutex_own_def ev_data_upd_ev Let_def)

lemma mutex_cnt_back:
  assumes "mutex_low c = 0xFF"
  shows "((c AND 0xFF00) OR ucast (p :: 8 word)) OR 0x00FF = c"
proof (rule bit_word_eqI)
  fix n
  assume n: "n < LENGTH(16)"
  have "bit c n" if "n < 8"
    using arg_cong [OF assms, of "\<lambda>w. bit w n"] that
    by (simp only: mutex_low_def bit_unsigned_iff bit_and_iff mutex_bits possible_bit_word len_bit0 len_num1) simp
  then show "bit (((c AND 0xFF00) OR ucast p) OR 0x00FF) n = bit c n"
    using n bit_word8_iff [of p n]
    by (auto simp only: bit_and_iff bit_or_iff bit_unsigned_iff mutex_bits not_less len_bit0 len_num1)
qed

text \<open>
  C19 (OSMutexPost_hands_over): a release with tasks waiting makes the most urgent of them the owner, with
  its own priority noted and the ceiling unchanged; its pend call will return without error; the
  caller has the priority back that it had when it took the mutex; then the most urgent ready task
  runs.
\<close>

theorem OSMutexPost_hands_over:
  assumes "sinv s" "e < OS_MAX_EVENTS" "ev_type s e = OS_EVENT_TYPE_MUTEX" "OSTCBCur s = ev_ptr s e"
    and "may_release (EVp e) s" "OSIntNesting s = 0" "waiters s e \<noteq> {}"
  shows "\<exists>r s' t. OSMutexPost (EVp e) s = Some (r, s') \<and> settled s'
    \<and> owns s' t (Min (waiters s e)) \<and> ev_ptr s' e = TCBp t
    \<and> unat (mutex_low (ev_cnt s' e)) = Min (waiters s e) \<and> mutex_pcp (ev_cnt s' e) = mutex_pcp (ev_cnt s e)
    \<and> waiters s' e = waiters s e - {Min (waiters s e)} \<and> OSTCBStatPend (OSTCBTbl s' t) = OS_STAT_PEND_OK
    \<and> OSTCBPrio (OSTCBTbl s' (cur_ix s)) = (if at_ceiling s e then mutex_low (ev_cnt s e) else OSPrioCur s)
    \<and> (\<forall>e'. e' \<noteq> e \<longrightarrow> ev_data s' e' = ev_data s e')"
proof -
  let ?p = "Min (waiters s e)"
  obtain r s' s1 where run: "OSMutexPost (EVp e) s = Some (r, s')" and set: "settled s'"
    and r1: "restored e s s1" and h: "handed_over e s1 s'"
    using OSMutexPost_mutex [OF assms(1-3,5)] assms(4,6,7) by (auto simp: ok_iff)
  from h obtain t s2 where o: "owns s2 t (Min (waiters s1 e))"
    and rd: "readied e (Min (waiters s1 e)) NULL OS_STAT_MUTEX OS_STAT_PEND_OK s1 s2"
    and rs: "resched (mutex_own e (OSTCBPrio (OSTCBTbl s2 t)) (TCBp t) s2) s'"
    by (auto simp: handed_over_def)
  have inv1: "sinv s1" and w: "waiters s1 e = waiters s e" and d1: "ev_data s1 = ev_data s"
    and c1: "OSTCBCur s1 = OSTCBCur s"
    and p1: "OSPrioCur s1 = (if at_ceiling s e then mutex_low (ev_cnt s e) else OSPrioCur s)"
    using r1 assms(2) by (auto simp: restored_def split: if_splits)
  have fr: "ids s2 = ids s1" "ev_data s2 = ev_data s1" using rd by (simp_all add: readied_def frames_def objs_def)
  have i: "ids s' = ids s2" using reschedD(5) [OF rs] by (simp add: mutex_own_same)
  have own: "owns s' t ?p" using o owns_cong [OF i] w by simp
  have d: "ev_data s' = (ev_data s2)(e := (ev_type s2 e, TCBp t,
      (ev_cnt s2 e AND 0xFF00) OR ucast (OSTCBPrio (OSTCBTbl s2 t)), OSEventName (OSEventTbl_ecb s2 e)))"
    using reschedD(6) [OF rs] by (simp add: objs_def mutex_own_same)
  note f = ev_data_at [OF fun_cong [OF d, of e, simplified]]
  have cnt2: "ev_cnt s2 e = ev_cnt s e" using fr d1 ev_data_fields(3) [of s2 e s] by simp
  have "waiters s' e = waiters s e - {?p}"
    using reschedD(3) [OF rs] rd w by (simp add: mutex_own_same readied_def)
  moreover have "task s2 ?p = OSTCBTbl s2 t" using task_owns [OF o] w by simp
  then have "OSTCBStatPend (OSTCBTbl s2 t) = OS_STAT_PEND_OK" using rd w by (simp add: readied_def woken_def)
  then have "OSTCBStatPend (OSTCBTbl s' t) = OS_STAT_PEND_OK"
    using tcbs_fields(2) [OF reschedD(4) [OF rs]] by (simp add: mutex_own_same)
  moreover have "OSTCBPrio (OSTCBTbl s' (cur_ix s)) = OSPrioCur s1"
    using ids_Prio [OF i] ids_Prio [OF fr(1)] cur_prio(1) [OF inv1] c1 by (simp add: cur_ix_def)
  moreover have "ev_data s' e' = ev_data s e'" if "e' \<noteq> e" for e' using d fr d1 that by simp
  ultimately show ?thesis
    using run set own f cnt2 owns_prio [OF o] w p1 by (auto simp: mutex_bytes)
qed

theorem OSMutexPost_hands_over_witness:
  "\<exists>r s' t. OSMutexPost (EVp 5) demo_raised = Some (r, s') \<and> owns s' t 10 \<and> ev_ptr s' 5 = TCBp t
    \<and> mutex_pcp (ev_cnt s' 5) = 5 \<and> waiters s' 5 = {} \<and> OSTCBPrio (OSTCBTbl s' 3) = 30"
proof -
  have "at_ceiling demo_raised 5" "cur_ix demo_raised = 3"
    by (simp_all add: at_ceiling_def demo_raised_fields mutex_pcp_def cur_ix_def)
  then show ?thesis
    using OSMutexPost_hands_over [of demo_raised 5] demo_raised_inv demo_raised_may_release
    by (auto simp: demo_raised_fields demo_raised_sets mutex_pcp_def mutex_low_def)
qed

text \<open>
  C20 (OSMutexAccept_Post_roundtrip): taking a mutex that is available and releasing it gives back the mutex
  as it was, and the tasks are scheduled as before.
\<close>

theorem OSMutexAccept_Post_roundtrip:
  assumes "sinv s" "e < OS_MAX_EVENTS" "ev_type s e = OS_EVENT_TYPE_MUTEX" "ev_ptr s e = NULL"
    and "OSIntNesting s = 0"
  shows "\<exists>err s1 s2. OSMutexAccept (EVp e) s = Some ((True, err), s1)
    \<and> ev_ptr s1 e = OSTCBCur s \<and> mutex_low (ev_cnt s1 e) = OSPrioCur s
    \<and> OSMutexPost (EVp e) s1 = Some (OS_ERR_NONE, s2)
    \<and> ev_data s2 = ev_data s \<and> waiters s2 e = {} \<and> rdy s2 = rdy s \<and> cur s2 = cur s"
proof -
  let ?pcp = "mutex_pcp (ev_cnt s e)"
  define s1 where "s1 = mutex_own e (OSPrioCur s) (OSTCBCur s) s"
  have free: "mutex_low (ev_cnt s e) = 0xFF" "waiters s e = {}"
    "?pcp \<noteq> OS_PRIO_MUTEX_CEIL_DIS \<Longrightarrow> OSTCBPrioTbl s (unat ?pcp) = OS_TCB_RESERVED"
    using assms(4) by (auto intro: mutex_cases [OF assms(1-3)])
  obtain err where a: "OSMutexAccept (EVp e) s = Some ((True, err), s1)" and inv1: "sinv s1"
    using OSMutexAccept_mutex [OF assms(1-3)] free assms(5) by (auto simp: ok_iff s1_def)
  note own = mutex_own_same [of e "OSPrioCur s" "OSTCBCur s" s, folded s1_def]
  note f = ev_data_at [OF fun_cong [OF own(7), of e, simplified]]
  have tbl: "OSTCBPrioTbl s1 = OSTCBPrioTbl s" using own(1) by (rule ids_PrioTbl)
  have pcp1: "mutex_pcp (ev_cnt s1 e) = ?pcp" "mutex_low (ev_cnt s1 e) = OSPrioCur s" using f by (simp_all add: mutex_bytes)
  have "may_release (EVp e) s1"
  proof -
    have "?pcp \<notin> owner_prios s1 \<and> (\<forall>e'<OS_MAX_EVENTS. unat ?pcp \<notin> waiters s1 e')"
      if ff: "?pcp \<noteq> OS_PRIO_MUTEX_CEIL_DIS"
    proof (intro conjI allI impI)
      have res: "OSTCBPrioTbl s1 (unat ?pcp) = OS_TCB_RESERVED" using free ff tbl by simp
      show "?pcp \<notin> owner_prios s1"
      proof
        assume "?pcp \<in> owner_prios s1"
        then obtain x where x: "x < OS_MAX_EVENTS" "ev_type s1 x = OS_EVENT_TYPE_MUTEX" "ev_ptr s1 x \<noteq> NULL"
          "?pcp = mutex_low (ev_cnt s1 x)" by (auto simp: owner_prios_def)
        show False by (rule mutex_cases [OF inv1 x(1,2)]) (use x res in auto)
      qed
      show "unat ?pcp \<notin> waiters s1 e'" if "e' < OS_MAX_EVENTS" for e'
        using kinv0_waiters [OF sinvD(2) [OF inv1] that] res by (fastforce simp: owned_def)
    qed
    then show ?thesis using pcp1 by (simp add: may_release_def)
  qed
  moreover have "\<not> at_ceiling s1 e"
  proof
    assume "at_ceiling s1 e"
    then show False using pcp1 free(3) cur_prio(3) [OF assms(1)] sinv_cur(1) [OF assms(1)] own(3)
      by (auto simp: at_ceiling_def cur_def)
  qed
  moreover have "OSIntNesting s1 = 0" "OSTCBCur s1 = ev_ptr s1 e" "ev_type s1 e = OS_EVENT_TYPE_MUTEX"
    using own(2,3) f assms by (simp_all add: ctl_def cur_def)
  ultimately obtain s2 s3 where p: "OSMutexPost (EVp e) s1 = Some (OS_ERR_NONE, s2)" and r: "restored e s1 s3"
    and s2: "s2 = upd_ev e (\<lambda>c. c\<lparr>OSEventCnt := OSEventCnt c OR 0x00FF, OSEventPtr := NULL\<rparr>) s3"
    and nc: "\<not> at_ceiling s1 e"
    using OSMutexPost_mutex [OF inv1 assms(2)] own(5) free(2) by (auto simp: ok_iff)
  have d3: "ev_data s3 = ev_data s1" using r by (simp add: restored_def)
  note g = ev_data_fields [OF fun_cong [OF d3], of e]
  have "((ev_cnt s e AND 0xFF00) OR ucast (OSPrioCur s)) OR 0x00FF = ev_cnt s e"
    by (rule mutex_cnt_back [OF free(1)])
  then have "ev_data s2 = ev_data s"
    using d3 own(7) g f assms(4) by (simp add: s2 ev_data_upd_ev Let_def) (simp add: ev_data_def fun_eq_iff)
  moreover have "waiters s2 e = {}" "rdy s2 = rdy s"
    using r nc own free(2) assms(2) by (simp_all add: s2 restored_def)
  moreover have "cur s3 = cur s" using r nc own(3) by (simp add: restored_def cur_def)
  then have "cur s2 = cur s" by (simp add: s2)
  ultimately show ?thesis using a p f pcp1 by blast
qed

theorem OSMutexAccept_Post_roundtrip_witness:
  "\<exists>err s1 s2. OSMutexAccept (EVp 6) demo = Some ((True, err), s1) \<and> ev_ptr s1 6 = TCBp 3
    \<and> OSMutexPost (EVp 6) s1 = Some (OS_ERR_NONE, s2) \<and> ev_data s2 = ev_data demo"
  using OSMutexAccept_Post_roundtrip [of demo 6] demo_sinv by (auto simp: demo_events demo_ctl)

end
