(* ===== verification/Os_Time_Props.thy ===== *)
theory Os_Time_Props
  imports Os_Time
begin

text \<open>
  Properties of time: a delay lasts the ticks that were asked for, a tick counts down the delay of
  every task and times out those at zero, and a delay in hours, minutes, seconds and milliseconds is
  rounded to the nearest tick.
\<close>

section \<open>Delays\<close>

lemma asleep_dozing:
  assumes inv: "sinv s" and a: "asleep ticks s s'" and off: "off_timer s (unat (OSPrioCur s))"
    and go: "\<not> suspended (OSTCBTbl s (cur_ix s))"
  shows "dozing s' (unat (OSPrioCur s)) ticks" "unat (OSPrioCur s) \<notin> rdy s'"
proof -
  let ?t = "cur_ix s" and ?p = "unat (OSPrioCur s)"
  note own = sinv_cur(2) [OF inv]
  have ids: "ids s' = ids s" using a by (simp add: asleep_def)
  have own': "owns s' ?t ?p" using own owns_cong [OF ids] by simp
  have "tcbs s' ?t = (tcbs s ?t)\<lparr>OSTCBDly := ticks\<rparr>" using a by (simp add: asleep_def)
  then have "OSTCBDly (tcbs s' ?t) = ticks" "OSTCBStat (tcbs s' ?t) = OSTCBStat (tcbs s ?t)" by simp_all
  then have "OSTCBDly (OSTCBTbl s' ?t) = ticks" "OSTCBStat (OSTCBTbl s' ?t) = OSTCBStat (OSTCBTbl s ?t)"
    by (simp_all add: tcbs_def)
  moreover have "OSTmrSemSignal s' = OSTmrSemSignal s" "waiters s' = waiters s"
    using a by (simp_all add: asleep_def objs_def clock_def)
  ultimately show "dozing s' ?p ticks"
    using off go owns_owned [OF own'] by (simp add: dozing_def off_timer_def task_owns [OF own'] suspended_def)
  show "?p \<notin> rdy s'" using a by (simp add: asleep_def)
qed

text \<open>
  C21 (OSTimeDly_wakes_on_time): a task that calls \<open>OSTimeDly\<close> is not ready before that many tick interrupts
  have come, and is ready from then on.
\<close>

theorem OSTimeDly_wakes_on_time:
  assumes "sinv s" "may_block s" "OSRunning s" "OSIntNesting s = 0" "OSLockNesting s = 0"
    and "OSTickStepState s = OS_TICK_STEP_DIS" "0 < ticks" "off_timer s (unat (OSPrioCur s))"
    and "\<not> suspended (OSTCBTbl s (cur_ix s))"
  shows "\<exists>s1. OSTimeDly ticks s = Some s1 \<and> (\<exists>s2. tick_irqs n s1 = Some s2
    \<and> (unat (OSPrioCur s) \<in> rdy s2 \<longleftrightarrow> unat ticks \<le> n))"
proof -
  from OSTimeDly_ok [OF assms(1,2), of ticks] assms(4,5,7) obtain s1 where
    1: "OSTimeDly ticks s = Some s1" "sinv s1" "ctl s1 = ctl s" "asleep ticks s s1" by (auto simp: ok_iff)
  have "settled s1" using 1(3,4) by (simp add: settled_def asleep_def)
  moreover have "OSRunning s1" "OSIntNesting s1 < 255" using 1(3) assms(3,4) by (simp_all add: ctl_def)
  moreover have "OSTickStepState s1 = OS_TICK_STEP_DIS"
    using 1(4) assms(6) by (simp add: asleep_def objs_def clock_def)
  moreover have "unat (OSPrioCur s) \<noteq> 63" using assms(2) by (simp add: may_block_def word_unat_eq_iff)
  moreover have "ticks \<noteq> 0" using assms(7) by (simp add: word_gt_0)
  ultimately have "ok (tick_irqs n s1) (\<lambda>s'. sinv s' \<and> settled s' \<and> ctl s' = ctl s1
      \<and> OSTickStepState s' = OS_TICK_STEP_DIS
      \<and> dozing s' (unat (OSPrioCur s)) (if n < unat ticks then ticks - of_nat n else 0)
      \<and> (unat (OSPrioCur s) \<in> rdy s' \<longleftrightarrow> unat ticks \<le> n))"
    by (intro tick_irqs_dozing [OF 1(2)] asleep_dozing [OF assms(1) 1(4) assms(8,9)])
  with 1(1) show ?thesis by (auto simp: ok_iff)
qed

theorem OSTimeDly_wakes_on_time_witness:
  "\<exists>s1. OSTimeDly 3 demo = Some s1 \<and> (\<exists>s2. tick_irqs 2 s1 = Some s2 \<and> 30 \<notin> rdy s2)"
proof -
  have "\<not> suspended (OSTCBTbl demo 3)" "OSTickStepState demo = 0" "OSTmrSemSignal demo = EVp 1"
    by (simp_all add: demo_def demo_tcb_def suspended_def)
  then show ?thesis
    using OSTimeDly_wakes_on_time [of demo 3 2]
    by (auto simp: demo_sinv demo_ctl may_block_def off_timer_def demo_waiting)
qed

section \<open>The tick\<close>

text \<open>
  C22 (OSTimeTick_counts_down): a tick takes one from the delay of every task except the idle task; a task
  whose delay reaches zero gets the status of a timeout if it waited for an event, and becomes ready
  unless it is suspended; the clock advances by one and wraps.
\<close>

theorem OSTimeTick_counts_down:
  assumes "sinv s" "OSIntNesting s \<noteq> 0" "OSRunning s" "OSTickStepState s \<noteq> OS_TICK_STEP_WAIT"
    and "owned s p" "p \<noteq> 63" "off_timer s p"
  shows "\<exists>s'. OSTimeTick s = Some s' \<and> sinv s' \<and> OSTime s' = OSTime s + 1 \<and> cur s' = cur s
    \<and> task s' p = (if OSTCBDly (task s p) = 0 then task s p
         else if OSTCBDly (task s p) = 1 then time_out ((task s p)\<lparr>OSTCBDly := 0\<rparr>)
         else (task s p)\<lparr>OSTCBDly := OSTCBDly (task s p) - 1\<rparr>)
    \<and> (p \<in> rdy s' \<longleftrightarrow> p \<in> rdy s \<or> OSTCBDly (task s p) = 1 \<and> \<not> suspended (task s p))"
proof -
  from OSTimeTick_ok [OF assms(1,2)] assms(3,4) obtain s' s1 where
    1: "OSTimeTick s = Some s'" "sinv s'" "OSTime s' = OSTime s + 1" "cur s' = cur s"
    and s1: "signalled s s1" "\<forall>p. owned s p \<longrightarrow> ticked s1 s' p"
    by (auto simp: ok_iff)
  have "untouched s s1 p" using s1(1) assms(5,7) by (simp add: signalled_def)
  moreover have "ticked s1 s' p" using s1(2) assms(5) by blast
  ultimately show ?thesis
    using 1 assms(6) by (simp add: ticked_def untouched_def tick_tcb_def)
qed

theorem OSTimeTick_counts_down_witness:
  "\<exists>s'. OSTimeTick (demo\<lparr>OSIntNesting := 1\<rparr>) = Some s' \<and> OSTCBDly (task s' 10) = 4 \<and> 10 \<notin> rdy s'"
proof -
  let ?s = "demo\<lparr>OSIntNesting := 1\<rparr>"
  have own: "owns ?s 1 10" using demo_owns(2) owns_cong [of ?s demo] by simp
  have "OSTickStepState demo = 0" "OSTmrSemSignal demo = EVp 1" "OSTCBDly (OSTCBTbl demo 1) = 5"
    by (simp_all add: demo_def demo_tcb_def)
  moreover have "waiters ?s = waiters demo" by (simp add: waiters_def ev_bm_def fun_eq_iff)
  ultimately show ?thesis
    using OSTimeTick_counts_down [of ?s 10] owns_owned [OF own]
    by (auto simp: sinv_nesting demo_sinv demo_ctl off_timer_def demo_waiting task_owns [OF own] demo_ready)
qed

section \<open>Hours, minutes, seconds and milliseconds\<close>

lemma hmsm_ticks_unat:
  assumes "minutes \<le> 59" "seconds \<le> 59" "ms \<le> 999"
  shows "unat (hmsm_ticks hours minutes seconds ms)
    = ((unat hours * 60 + unat minutes) * 60 + unat seconds) * 50 + (50 * (unat ms + 10)) div 1000"
proof -
  have le: "unat minutes \<le> 59" "unat seconds \<le> 59" "unat ms \<le> 999" "unat hours < 256"
    using assms unat_lt_256 [of hours] by (simp_all add: word_le_nat_alt)
  define k where "k = (50 * (unat ms + 10)) div 1000"
  have small: "50 * (unat ms + 10) < 2 ^ 64" "k < 2 ^ 64" using le(3) by (simp_all add: k_def)
  have cast: "ucast w = (word_of_nat (unat w) :: 64 word)" for w :: "'a::len word" by simp
  have fifty: "ucast (50 :: 32 word) = (50 :: 64 word)" by simp
  have "50 * (word_of_nat (unat ms) + 500 div 50) div 1000 = (word_of_nat k :: 64 word)"
  proof -
    have "unat (word_of_nat (50 * (unat ms + 10)) :: 64 word) = 50 * (unat ms + 10)"
      "unat (word_of_nat k :: 64 word) = k"
      using small by (simp_all add: unat_of_nat del: of_nat_mult of_nat_add)
    then have "word_of_nat (50 * (unat ms + 10)) div 1000 = (word_of_nat k :: 64 word)"
      unfolding word_unat_eq_iff unat_div k_def by simp
    then show ?thesis by simp
  qed
  then have "(ucast hours * 3600 + ucast minutes * 60 + ucast seconds) * ucast (50 :: 32 word)
      + ucast (50 :: 32 word) * (ucast ms + 500 div ucast (50 :: 32 word)) div 1000
    = (word_of_nat (unat hours * 3600 + unat minutes * 60 + unat seconds) * 50 + word_of_nat k :: 64 word)"
    unfolding fifty cast [of hours] cast [of minutes] cast [of seconds] cast [of ms]
    by (simp only: of_nat_add of_nat_mult of_nat_numeral)
  also have "\<dots> = word_of_nat ((unat hours * 3600 + unat minutes * 60 + unat seconds) * 50 + k)"
    by (simp only: of_nat_add of_nat_mult of_nat_numeral)
  finally have "hmsm_ticks hours minutes seconds ms
      = ucast (word_of_nat ((unat hours * 3600 + unat minutes * 60 + unat seconds) * 50 + k) :: 64 word)"
    by (simp only: hmsm_ticks_def)
  moreover have "(unat hours * 3600 + unat minutes * 60 + unat seconds) * 50 + k < 4294967296"
    using le div_le_dividend [of "50 * (unat ms + 10)" 1000] by (simp add: k_def)
  ultimately have "unat (hmsm_ticks hours minutes seconds ms)
      = (unat hours * 3600 + unat minutes * 60 + unat seconds) * 50 + k"
    by (simp add: unsigned_ucast_eq unat_of_nat take_bit_eq_mod del: of_nat_mult of_nat_add)
  then show ?thesis by (simp add: k_def algebra_simps)
qed

text \<open>
  C23 (OSTimeDlyHMSM_rounds): for arguments in range the call is \<open>OSTimeDly\<close> with a number of ticks of 20 ms
  that differs from the time asked for by at most 10 ms, and does not overflow; arguments out of range
  are refused.
\<close>

theorem OSTimeDlyHMSM_rounds:
  assumes "OSIntNesting s = 0" "OSLockNesting s = 0"
    and "\<not> (hours = 0 \<and> minutes = 0 \<and> seconds = 0 \<and> ms = 0)"
  defines "asked \<equiv> ((int (unat hours) * 60 + int (unat minutes)) * 60 + int (unat seconds)) * 1000 + int (unat ms)"
  shows "OSTimeDlyHMSM hours minutes seconds ms s =
    (if minutes > 59 then Some (OS_ERR_TIME_INVALID_MINUTES, s)
     else if seconds > 59 then Some (OS_ERR_TIME_INVALID_SECONDS, s)
     else if ms > 999 then Some (OS_ERR_TIME_INVALID_MS, s)
     else map_option (Pair OS_ERR_NONE) (OSTimeDly (hmsm_ticks hours minutes seconds ms) s))
    \<and> (minutes \<le> 59 \<and> seconds \<le> 59 \<and> ms \<le> 999 \<longrightarrow>
        \<bar>20 * int (unat (hmsm_ticks hours minutes seconds ms)) - asked\<bar> \<le> 10)"
proof (intro conjI impI)
  assume a: "minutes \<le> 59 \<and> seconds \<le> 59 \<and> ms \<le> 999"
  then have "20 * int (unat (hmsm_ticks hours minutes seconds ms))
    = ((int (unat hours) * 60 + int (unat minutes)) * 60 + int (unat seconds)) * 1000
      + 20 * ((50 * (int (unat ms) + 10)) div 1000)"
    using hmsm_ticks_unat [of minutes seconds ms hours] by (simp add: algebra_simps zdiv_int)
  moreover have "\<bar>20 * ((50 * (x + 10)) div 1000) - x\<bar> \<le> 10" for x :: int
  proof -
    have "(50 * (x + 10)) div 1000 = (x + 10) div 20" using div_mult_mult1 [of 50 "x + 10" 20] by simp
    then show ?thesis by presburger
  qed
  ultimately show "\<bar>20 * int (unat (hmsm_ticks hours minutes seconds ms)) - asked\<bar> \<le> 10"
    by (simp add: asked_def)
qed (use assms(1-3) in \<open>auto simp: OSTimeDlyHMSM_def map_option_case split: option.splits\<close>)

theorem OSTimeDlyHMSM_rounds_witness:
  "OSTimeDlyHMSM 0 0 1 999 demo = map_option (Pair OS_ERR_NONE) (OSTimeDly 100 demo)"
proof -
  have "hmsm_ticks 0 0 1 999 = 100" by code_simp
  then show ?thesis using OSTimeDlyHMSM_rounds [of demo 0 0 1 999] by (simp add: demo_ctl)
qed

end
