(* ===== verification/Os_Mem.thy ===== *)
theory Os_Mem
  imports Os_Sched
begin

text \<open>
  Memory partitions (\<open>os_mem.c\<close>): a partition is cut into blocks of one size, and the blocks that are
  free are linked through their first cell.  \<open>ptr_mem\<close> is the memory the links are in.
\<close>

section \<open>The calls\<close>

text \<open>
  A dereference \<open>*(void **)p\<close> of memory outside the tables: the cell has 8 bytes and an address that is
  a multiple of 8.
\<close>

definition cell_at :: "vptr \<Rightarrow> 64 word option" where
  "cell_at p = (case p of Addr a \<Rightarrow> if a \<noteq> 0 \<and> a AND 7 = 0 then Some a else None | _ \<Rightarrow> None)"

text \<open>The loop that links \<open>n + 1\<close> blocks from \<open>plink\<close> on.\<close>

primrec mem_link :: "nat \<Rightarrow> 64 word \<Rightarrow> 32 word \<Rightarrow> (64 word \<Rightarrow> vptr) \<Rightarrow> (64 word \<Rightarrow> vptr) option" where
  "mem_link 0 plink blksize m = do { a \<leftarrow> cell_at (Addr plink); Some (m(a := NULL)) }"
| "mem_link (Suc n) plink blksize m = do {
     let pblk = plink + ucast blksize;
     a \<leftarrow> cell_at (Addr plink);
     mem_link n pblk blksize (m(a := Addr pblk))
   }"

definition OSMemCreate :: "64 word \<Rightarrow> 32 word \<Rightarrow> 32 word \<Rightarrow> kst \<Rightarrow> ((vptr \<times> os_err) \<times> kst) option" where
  "OSMemCreate addr nblks blksize s =
     (if addr = 0 then Some ((NULL, OS_ERR_MEM_INVALID_ADDR), s)
      else if addr AND (8 - 1) \<noteq> 0 then Some ((NULL, OS_ERR_MEM_INVALID_ADDR), s)
      else if nblks < 2 then Some ((NULL, OS_ERR_MEM_INVALID_BLKS), s)
      else if blksize < 8 then Some ((NULL, OS_ERR_MEM_INVALID_SIZE), s)
      else do {
        let pmem = OSMemFreeList s;
        s \<leftarrow> (if OSMemFreeList s \<noteq> NULL then do {
                i \<leftarrow> mem_at (OSMemFreeList s);
                Some (s\<lparr>OSMemFreeList := OSMemFreeList_f (OSMemTbl s i)\<rparr>)
              } else Some s);
        if pmem = NULL then Some ((NULL, OS_ERR_MEM_INVALID_PART), s)
        else do {
          m \<leftarrow> mem_link (unat (nblks - 1)) addr blksize (ptr_mem s);
          let s = s\<lparr>ptr_mem := m\<rparr>;
          i \<leftarrow> mem_at pmem;
          Some ((pmem, OS_ERR_NONE), upd_mem i (\<lambda>c. c\<lparr>OSMemAddr := Addr addr,
            OSMemFreeList_f := Addr addr, OSMemNFree := nblks, OSMemNBlks := nblks,
            OSMemBlkSize := blksize\<rparr>) s)
        }
      })"

definition OSMemGet :: "vptr \<Rightarrow> kst \<Rightarrow> ((vptr \<times> os_err) \<times> kst) option" where
  "OSMemGet pmem s =
     (if pmem = NULL then Some ((NULL, OS_ERR_MEM_INVALID_PMEM), s)
      else do {
        i \<leftarrow> mem_at pmem;
        if OSMemNFree (OSMemTbl s i) > 0 then do {
          let pblk = OSMemFreeList_f (OSMemTbl s i);
          a \<leftarrow> cell_at pblk;
          let next = ptr_mem s a;
          Some ((pblk, OS_ERR_NONE), upd_mem i (\<lambda>c. c\<lparr>OSMemFreeList_f := next,
            OSMemNFree := OSMemNFree c - 1\<rparr>) s)
        } else Some ((NULL, OS_ERR_MEM_NO_FREE_BLKS), s)
      })"

definition OSMemNameGet :: "vptr \<Rightarrow> vptr \<Rightarrow> kst \<Rightarrow> (8 word \<times> cname option \<times> os_err) option" where
  "OSMemNameGet pmem pname s =
     (if pmem = NULL then Some (0, None, OS_ERR_MEM_INVALID_PMEM)
      else if pname = NULL then Some (0, None, OS_ERR_PNAME_NULL)
      else if OSIntNesting s > 0 then Some (0, None, OS_ERR_NAME_GET_ISR)
      else do {
        i \<leftarrow> mem_at pmem;
        let name = OSMemName (OSMemTbl s i);
        len \<leftarrow> OS_StrLen name;
        Some (len, Some name, OS_ERR_NONE)
      })"

definition OSMemNameSet :: "vptr \<Rightarrow> cname \<Rightarrow> kst \<Rightarrow> (os_err \<times> kst) option" where
  "OSMemNameSet pmem pname s =
     (if pmem = NULL then Some (OS_ERR_MEM_INVALID_PMEM, s)
      else if pname = None then Some (OS_ERR_PNAME_NULL, s)
      else if OSIntNesting s > 0 then Some (OS_ERR_NAME_SET_ISR, s)
      else do {
        i \<leftarrow> mem_at pmem;
        Some (OS_ERR_NONE, upd_mem i (\<lambda>c. c\<lparr>OSMemName := pname\<rparr>) s)
      })"

definition OSMemPut :: "vptr \<Rightarrow> vptr \<Rightarrow> kst \<Rightarrow> (os_err \<times> kst) option" where
  "OSMemPut pmem pblk s =
     (if pmem = NULL then Some (OS_ERR_MEM_INVALID_PMEM, s)
      else if pblk = NULL then Some (OS_ERR_MEM_INVALID_PBLK, s)
      else do {
        i \<leftarrow> mem_at pmem;
        if OSMemNFree (OSMemTbl s i) \<ge> OSMemNBlks (OSMemTbl s i) then Some (OS_ERR_MEM_FULL, s)
        else do {
          a \<leftarrow> cell_at pblk;
          let s = s\<lparr>ptr_mem := (ptr_mem s)(a := OSMemFreeList_f (OSMemTbl s i))\<rparr>;
          Some (OS_ERR_NONE, upd_mem i (\<lambda>c. c\<lparr>OSMemFreeList_f := pblk,
            OSMemNFree := OSMemNFree c + 1\<rparr>) s)
        }
      })"

record os_mem_data =
  OSAddr :: vptr
  OSFreeList :: vptr
  OSBlkSize :: "32 word"
  OSNBlks :: "32 word"
  OSNFree :: "32 word"
  OSNUsed :: "32 word"

definition OSMemQuery :: "vptr \<Rightarrow> vptr \<Rightarrow> kst \<Rightarrow> (os_err \<times> os_mem_data option) option" where
  "OSMemQuery pmem p_mem_data s =
     (if pmem = NULL then Some (OS_ERR_MEM_INVALID_PMEM, None)
      else if p_mem_data = NULL then Some (OS_ERR_MEM_INVALID_PDATA, None)
      else do {
        i \<leftarrow> mem_at pmem;
        let c = OSMemTbl s i;
        Some (OS_ERR_NONE, Some \<lparr>OSAddr = OSMemAddr c, OSFreeList = OSMemFreeList_f c,
          OSBlkSize = OSMemBlkSize c, OSNBlks = OSMemNBlks c, OSNFree = OSMemNFree c,
          OSNUsed = OSMemNBlks c - OSMemNFree c\<rparr>)
      })"

text \<open>\<open>OS_MemClr\<close> clears the table, the loop links the control blocks.\<close>

definition OS_MemInit :: "kst \<Rightarrow> kst" where
  "OS_MemInit s = (
     let s = s\<lparr>OSMemTbl := \<lambda>_. \<lparr>OSMemAddr = NULL, OSMemFreeList_f = NULL, OSMemBlkSize = 0,
           OSMemNBlks = 0, OSMemNFree = 0, OSMemName = None\<rparr>\<rparr>;
         s = fold (\<lambda>i. upd_mem i (\<lambda>c. c\<lparr>OSMemFreeList_f := MEMp (i + 1), OSMemName := unnamed\<rparr>))
               [0..<OS_MAX_MEM_PART - 1] s;
         s = upd_mem (OS_MAX_MEM_PART - 1) (\<lambda>c. c\<lparr>OSMemFreeList_f := NULL, OSMemName := unnamed\<rparr>) s
     in s\<lparr>OSMemFreeList := MEMp 0\<rparr>)"

section \<open>The free blocks of a partition\<close>

text \<open>The first \<open>n\<close> addresses that the links run through.\<close>

fun chain :: "nat \<Rightarrow> (64 word \<Rightarrow> vptr) \<Rightarrow> vptr \<Rightarrow> vptr list" where
  "chain (Suc n) m (Addr a) = Addr a # chain n m (m a)"
| "chain _ _ _ = []"

definition mem_free :: "nat \<Rightarrow> kst \<Rightarrow> vptr list" where
  "mem_free i s = chain (unat (OSMemNFree (OSMemTbl s i))) (ptr_mem s) (OSMemFreeList_f (OSMemTbl s i))"

definition block_at :: "64 word \<Rightarrow> 32 word \<Rightarrow> nat \<Rightarrow> 64 word" where
  "block_at a sz k = a + of_nat (k * unat sz)"

definition mem_blocks :: "nat \<Rightarrow> kst \<Rightarrow> vptr set" where
  "mem_blocks i s = (case OSMemAddr (OSMemTbl s i) of
     Addr a \<Rightarrow> (\<lambda>k. Addr (block_at a (OSMemBlkSize (OSMemTbl s i)) k)) ` {..<unat (OSMemNBlks (OSMemTbl s i))}
   | _ \<Rightarrow> {})"

text \<open>A region for the blocks: aligned cells that do not run past the end of the address space.\<close>

definition region_ok :: "64 word \<Rightarrow> 32 word \<Rightarrow> 32 word \<Rightarrow> bool" where
  "region_ok a n sz \<longleftrightarrow> a \<noteq> 0 \<and> 8 dvd unat a \<and> 8 dvd unat sz \<and> sz \<noteq> 0 \<and> unat a + unat n * unat sz < 2 ^ 64"

definition part_ok :: "nat \<Rightarrow> kst \<Rightarrow> bool" where
  "part_ok i s \<longleftrightarrow> i < OS_MAX_MEM_PART
     \<and> (case OSMemAddr (OSMemTbl s i) of
          Addr a \<Rightarrow> region_ok a (OSMemNBlks (OSMemTbl s i)) (OSMemBlkSize (OSMemTbl s i)) | _ \<Rightarrow> False)
     \<and> length (mem_free i s) = unat (OSMemNFree (OSMemTbl s i))
     \<and> distinct (mem_free i s) \<and> set (mem_free i s) \<subseteq> mem_blocks i s"

lemma and_7: "a AND 7 = 0 \<longleftrightarrow> 8 dvd unat (a :: 64 word)"
proof -
  have "a AND 7 = take_bit 3 a" by (simp add: take_bit_eq_mask mask_eq_exp_minus_1)
  then have "unat (a AND 7) = unat a mod 8" by (simp add: take_bit_eq_mod unat_mod)
  then show ?thesis by (metis dvd_eq_mod_eq_0 unat_eq_0)
qed

lemma block_unat:
  assumes "region_ok a n sz" "k < unat n"
  shows "unat (block_at a sz k) = unat a + k * unat sz"
proof -
  have "k * unat sz \<le> unat n * unat sz" using assms(2) by simp
  then have lt: "unat a + k * unat sz < 2 ^ 64" using assms(1) unfolding region_ok_def by linarith
  then have "unat (of_nat (k * unat sz) :: 64 word) = k * unat sz" by (simp add: unat_of_nat del: of_nat_mult)
  then show ?thesis
    using lt by (simp add: block_at_def unat_plus_if' del: of_nat_mult)
qed

lemma block_cell:
  assumes "region_ok a n sz" "k < unat n"
  shows "cell_at (Addr (block_at a sz k)) = Some (block_at a sz k)"
proof -
  note u = block_unat [OF assms]
  have "unat a \<noteq> 0" using assms(1) by (simp add: region_ok_def unat_eq_0)
  then have "block_at a sz k \<noteq> 0" using u by (metis add_is_0 unat_eq_0)
  moreover have "8 dvd unat (block_at a sz k)" using assms(1) u by (simp add: region_ok_def)
  ultimately show ?thesis by (simp add: cell_at_def and_7)
qed

lemma block_inj:
  assumes "region_ok a n sz" "k < unat n" "k' < unat n" "block_at a sz k = block_at a sz k'"
  shows "k = k'"
proof -
  have "k * unat sz = k' * unat sz"
    using block_unat [OF assms(1,2)] block_unat [OF assms(1,3)] unfolding assms(4) by linarith
  moreover have "unat sz \<noteq> 0" using assms(1) by (simp add: region_ok_def unat_eq_0)
  ultimately show ?thesis by simp
qed

lemma mem_block_cell:
  assumes "part_ok i s" "b \<in> mem_blocks i s"
  obtains a where "b = Addr a" "cell_at b = Some a" "a \<noteq> 0"
proof -
  from assms obtain a k where "OSMemAddr (OSMemTbl s i) = Addr a"
    "region_ok a (OSMemNBlks (OSMemTbl s i)) (OSMemBlkSize (OSMemTbl s i))"
    "k < unat (OSMemNBlks (OSMemTbl s i))" "b = Addr (block_at a (OSMemBlkSize (OSMemTbl s i)) k)"
    by (auto simp: part_ok_def mem_blocks_def split: vptr.splits)
  with block_cell [of a "OSMemNBlks (OSMemTbl s i)" "OSMemBlkSize (OSMemTbl s i)" k] that
  show ?thesis by (auto simp: cell_at_def split: if_splits)
qed

lemma card_mem_blocks:
  assumes "part_ok i s"
  shows "finite (mem_blocks i s)" "card (mem_blocks i s) = unat (OSMemNBlks (OSMemTbl s i))"
proof -
  from assms obtain a where a: "OSMemAddr (OSMemTbl s i) = Addr a"
    "region_ok a (OSMemNBlks (OSMemTbl s i)) (OSMemBlkSize (OSMemTbl s i))"
    by (auto simp: part_ok_def split: vptr.splits)
  have "inj_on (\<lambda>k. Addr (block_at a (OSMemBlkSize (OSMemTbl s i)) k)) {..<unat (OSMemNBlks (OSMemTbl s i))}"
    by (auto intro: inj_onI dest: block_inj [OF a(2)])
  then show "finite (mem_blocks i s)" "card (mem_blocks i s) = unat (OSMemNBlks (OSMemTbl s i))"
    using a by (simp_all add: mem_blocks_def card_image)
qed

lemma mem_free_count:
  assumes "part_ok i s"
  shows "OSMemNFree (OSMemTbl s i) \<le> OSMemNBlks (OSMemTbl s i)"
    and "b \<in> mem_blocks i s \<Longrightarrow> b \<notin> set (mem_free i s) \<Longrightarrow> OSMemNFree (OSMemTbl s i) < OSMemNBlks (OSMemTbl s i)"
    and "OSMemNFree (OSMemTbl s i) = 0 \<longleftrightarrow> mem_free i s = []"
proof -
  note c = card_mem_blocks [OF assms]
  have d: "card (set (mem_free i s)) = unat (OSMemNFree (OSMemTbl s i))"
    using assms by (simp add: part_ok_def distinct_card)
  have sub: "set (mem_free i s) \<subseteq> mem_blocks i s" using assms by (simp add: part_ok_def)
  show "OSMemNFree (OSMemTbl s i) \<le> OSMemNBlks (OSMemTbl s i)"
    using card_mono [OF c(1) sub] c(2) d by (simp add: word_le_nat_alt)
  show "OSMemNFree (OSMemTbl s i) < OSMemNBlks (OSMemTbl s i)"
    if "b \<in> mem_blocks i s" "b \<notin> set (mem_free i s)"
  proof -
    have "set (mem_free i s) \<subset> mem_blocks i s" using sub that by auto
    from psubset_card_mono [OF c(1) this] show ?thesis using c(2) d by (simp add: word_less_nat_alt)
  qed
  have "length (mem_free i s) = unat (OSMemNFree (OSMemTbl s i))" using assms by (simp add: part_ok_def)
  then show "OSMemNFree (OSMemTbl s i) = 0 \<longleftrightarrow> mem_free i s = []"
    by (metis length_0_conv unat_eq_0)
qed

lemma chain_cong:
  "(\<And>a. Addr a \<in> set (chain n m p) \<Longrightarrow> m' a = m a) \<Longrightarrow> chain n m' p = chain n m p"
  by (induction n m p rule: chain.induct) auto

section \<open>Getting and putting back\<close>

lemma upd_mem_views [simp]:
  "ids (upd_mem i f s) = ids s" "ctl (upd_mem i f s) = ctl s" "cur (upd_mem i f s) = cur s"
  "rdy_bm (upd_mem i f s) = rdy_bm s" "ev_bm (upd_mem i f s) = ev_bm s" "rdy (upd_mem i f s) = rdy s"
  "ev_data (upd_mem i f s) = ev_data s" "OSTCBTbl (upd_mem i f s) = OSTCBTbl s"
  "OSMemTbl (upd_mem i f s) = (OSMemTbl s)(i := f (OSMemTbl s i))" "ptr_mem (upd_mem i f s) = ptr_mem s"
  by (auto simp: upd_mem_def ids_def ctl_def cur_def rdy_def rdy_bm_def ev_bm_def ev_data_def fun_eq_iff)

lemma ptr_mem_views [simp]:
  "ids (s\<lparr>ptr_mem := m\<rparr>) = ids s" "ctl (s\<lparr>ptr_mem := m\<rparr>) = ctl s" "cur (s\<lparr>ptr_mem := m\<rparr>) = cur s"
  "rdy_bm (s\<lparr>ptr_mem := m\<rparr>) = rdy_bm s" "ev_bm (s\<lparr>ptr_mem := m\<rparr>) = ev_bm s" "rdy (s\<lparr>ptr_mem := m\<rparr>) = rdy s"
  "ev_data (s\<lparr>ptr_mem := m\<rparr>) = ev_data s" "waiters (s\<lparr>ptr_mem := m\<rparr>) = waiters s"
  "settled (s\<lparr>ptr_mem := m\<rparr>) = settled s"
  by (auto simp: ids_def ctl_def cur_def rdy_def rdy_bm_def ev_bm_def ev_data_def waiters_def settled_def
      fun_eq_iff)

lemma mem_kept:
  assumes "sinv s"
  shows "kept s (upd_mem i f (s\<lparr>ptr_mem := m\<rparr>))" "kept s (upd_mem i f s)"
    "kept s (s\<lparr>OSMemFreeList := v\<rparr>)"
proof -
  have "sinv (upd_mem i f (s\<lparr>ptr_mem := m\<rparr>))"
    by (rule sinv_unread [OF assms]) (simp_all, simp_all add: upd_mem_def)
  moreover have "settled (upd_mem i f (s\<lparr>ptr_mem := m\<rparr>)) = settled s" by (rule settled_cong) simp_all
  ultimately show "kept s (upd_mem i f (s\<lparr>ptr_mem := m\<rparr>))" by simp
  have "sinv (upd_mem i f s)"
    by (rule sinv_unread [OF assms]) (simp_all, simp_all add: upd_mem_def)
  moreover have "settled (upd_mem i f s) = settled s" by (rule settled_cong) simp_all
  ultimately show "kept s (upd_mem i f s)" by simp
  have "sinv (s\<lparr>OSMemFreeList := v\<rparr>)"
    by (rule sinv_unread [OF assms])
      (simp_all add: ids_def cur_def rdy_bm_def ev_bm_def ev_data_def fun_eq_iff)
  then show "kept s (s\<lparr>OSMemFreeList := v\<rparr>)"
    by (simp add: ctl_def settled_def rdy_def rdy_bm_def)
qed

lemma OSMemGet_ok:
  assumes "part_ok i s"
  shows "ok (OSMemGet (MEMp i) s) (\<lambda>((p, e), s'). part_ok i s' \<and> mem_blocks i s' = mem_blocks i s
    \<and> (\<exists>f. s' = upd_mem i f s \<or> s' = s)
    \<and> (case mem_free i s of [] \<Rightarrow> p = NULL \<and> e = OS_ERR_MEM_NO_FREE_BLKS \<and> s' = s
       | b # bs \<Rightarrow> p = b \<and> e = OS_ERR_NONE \<and> mem_free i s' = bs))"
proof (cases "mem_free i s")
  case Nil
  have "i < OS_MAX_MEM_PART" using assms by (simp add: part_ok_def)
  then show ?thesis using Nil assms mem_free_count(3) [OF assms] by (simp add: OSMemGet_def)
next
  case (Cons b bs)
  let ?c = "OSMemTbl s i"
  have i: "i < OS_MAX_MEM_PART" using assms by (simp add: part_ok_def)
  have "b \<in> mem_blocks i s" using assms Cons by (auto simp: part_ok_def)
  then obtain a where a: "b = Addr a" "cell_at b = Some a" by (rule mem_block_cell [OF assms])
  have pos: "OSMemNFree ?c \<noteq> 0" using Cons mem_free_count(3) [OF assms] by simp
  then have "unat (OSMemNFree ?c) \<noteq> 0" by (simp add: unat_eq_0)
  then obtain n where n: "unat (OSMemNFree ?c) = Suc n" by (cases "unat (OSMemNFree ?c)") auto
  obtain a' where "OSMemFreeList_f ?c = Addr a'"
    using Cons n by (cases "OSMemFreeList_f ?c") (auto simp: mem_free_def)
  then have hd: "OSMemFreeList_f ?c = b" and tl: "chain n (ptr_mem s) (ptr_mem s a) = bs"
    using Cons n a(1) by (auto simp: mem_free_def)
  define s' where "s' = upd_mem i (\<lambda>c. c\<lparr>OSMemFreeList_f := ptr_mem s a, OSMemNFree := OSMemNFree c - 1\<rparr>) s"
  have n': "unat (OSMemNFree ?c - 1) = n" using n pos by (simp add: unat_minus_one)
  have free: "mem_free i s' = bs" by (simp add: mem_free_def s'_def n' tl)
  have bl: "mem_blocks i s' = mem_blocks i s" by (simp add: mem_blocks_def s'_def split: vptr.split)
  have "part_ok i s'"
    using assms free bl Cons n n' by (simp add: part_ok_def s'_def split: vptr.splits)
  moreover have "OSMemGet (MEMp i) s = Some ((b, OS_ERR_NONE), s')"
    using i pos a hd by (simp add: OSMemGet_def word_gt_0 s'_def)
  ultimately show ?thesis using free bl Cons by (auto simp: s'_def)
qed

lemma OSMemPut_ok:
  assumes "part_ok i s" "b \<in> mem_blocks i s" "b \<notin> set (mem_free i s)"
  shows "ok (OSMemPut (MEMp i) b s) (\<lambda>(e, s'). part_ok i s' \<and> mem_blocks i s' = mem_blocks i s
    \<and> (\<exists>f m. s' = upd_mem i f (s\<lparr>ptr_mem := m\<rparr>)) \<and> e = OS_ERR_NONE \<and> mem_free i s' = b # mem_free i s)"
proof -
  let ?c = "OSMemTbl s i"
  have i: "i < OS_MAX_MEM_PART" using assms by (simp add: part_ok_def)
  from assms(1,2) obtain a where a: "b = Addr a" "cell_at b = Some a" "a \<noteq> 0" by (rule mem_block_cell)
  define s' where "s' = upd_mem i (\<lambda>c. c\<lparr>OSMemFreeList_f := b, OSMemNFree := OSMemNFree c + 1\<rparr>)
    (s\<lparr>ptr_mem := (ptr_mem s)(a := OSMemFreeList_f ?c)\<rparr>)"
  have lt: "OSMemNFree ?c < OSMemNBlks ?c" by (rule mem_free_count(2) [OF assms])
  then have n: "unat (OSMemNFree ?c + 1) = Suc (unat (OSMemNFree ?c))"
    using unat_lt_32 [of "OSMemNBlks ?c"] by (simp add: word_less_nat_alt unat_plus_if')
  have "chain k ((ptr_mem s)(a := v)) (OSMemFreeList_f ?c) = mem_free i s" if "k = unat (OSMemNFree ?c)" for k v
    using assms(3) a(1) that by (auto simp: mem_free_def intro: chain_cong)
  then have free: "mem_free i s' = b # mem_free i s"
    by (simp add: mem_free_def s'_def n a(1))
  have bl: "mem_blocks i s' = mem_blocks i s" by (simp add: mem_blocks_def s'_def split: vptr.split)
  have "part_ok i s'"
    using assms free bl n by (simp add: part_ok_def s'_def split: vptr.splits)
  moreover have "OSMemPut (MEMp i) b s = Some (OS_ERR_NONE, s')"
    using i lt a by (simp add: OSMemPut_def not_le s'_def)
  ultimately show ?thesis using free bl by (auto simp: s'_def)
qed

section \<open>The interface: a pool that hands out each block once\<close>

text \<open>
  What a client of a partition relies on: the free blocks are a stack of distinct blocks of the pool;
  taking pops it, giving back a block that is out pushes it.
\<close>

locale block_pool =
  fixes inv :: "'s \<Rightarrow> bool" and free :: "'s \<Rightarrow> 'b list" and blocks :: "'s \<Rightarrow> 'b set"
    and get :: "'s \<Rightarrow> ('b option \<times> 's) option" and put :: "'b \<Rightarrow> 's \<Rightarrow> (bool \<times> 's) option"
  assumes free_law: "inv s \<Longrightarrow> distinct (free s) \<and> set (free s) \<subseteq> blocks s"
    and get_law: "inv s \<Longrightarrow> ok (get s) (\<lambda>(r, s'). inv s' \<and> blocks s' = blocks s
      \<and> (case free s of [] \<Rightarrow> r = None \<and> free s' = [] | b # bs \<Rightarrow> r = Some b \<and> free s' = bs))"
    and put_law: "inv s \<Longrightarrow> b \<in> blocks s \<Longrightarrow> b \<notin> set (free s) \<Longrightarrow> ok (put b s) (\<lambda>(r, s'). inv s'
      \<and> blocks s' = blocks s \<and> r \<and> free s' = b # free s)"
begin

text \<open>Taking \<open>n\<close> blocks one after the other.\<close>

primrec gets :: "nat \<Rightarrow> 's \<Rightarrow> ('b option list \<times> 's) option" where
  "gets 0 s = Some ([], s)"
| "gets (Suc n) s = do { (b, s) \<leftarrow> get s; (bs, s) \<leftarrow> gets n s; Some (b # bs, s) }"

lemma gets_ok:
  assumes "inv s"
  shows "ok (gets n s) (\<lambda>(rs, s'). inv s' \<and> blocks s' = blocks s \<and> free s' = drop n (free s)
    \<and> rs = map Some (take n (free s)) @ replicate (n - length (free s)) None)"
  using assms
proof (induction n arbitrary: s)
  case (Suc n)
  show ?case
    unfolding gets.simps
  proof (rule ok_bindI2 [OF get_law [OF Suc.prems]], elim conjE)
    fix r s1
    assume 1: "inv s1" "blocks s1 = blocks s"
      "case free s of [] \<Rightarrow> r = None \<and> free s1 = [] | b # bs \<Rightarrow> r = Some b \<and> free s1 = bs"
    show "ok (do { (bs, s) \<leftarrow> gets n s1; Some (r # bs, s) }) (\<lambda>(rs, s'). inv s' \<and> blocks s' = blocks s
      \<and> free s' = drop (Suc n) (free s)
      \<and> rs = map Some (take (Suc n) (free s)) @ replicate (Suc n - length (free s)) None)"
      by (rule ok_bindI2 [OF Suc.IH [OF 1(1)]]) (use 1 in \<open>auto split: list.splits\<close>)
  qed
qed simp

text \<open>The last block given back is the next one handed out, and the pool is as before.\<close>

lemma put_get:
  assumes "inv s" "b \<in> blocks s" "b \<notin> set (free s)"
  shows "ok (do { (_, s) \<leftarrow> put b s; get s }) (\<lambda>(r, s'). inv s' \<and> r = Some b \<and> free s' = free s)"
proof (rule ok_bindI2 [OF put_law [OF assms]], elim conjE)
  fix r s1
  assume 1: "inv s1" "free s1 = b # free s"
  show "ok (get s1) (\<lambda>(r, s'). inv s' \<and> r = Some b \<and> free s' = free s)"
    by (rule ok_mono2 [OF get_law [OF 1(1)]]) (simp add: 1(2))
qed

lemma get_put:
  assumes "inv s" "free s = b # bs"
  shows "ok (do { (_, s) \<leftarrow> get s; put b s }) (\<lambda>(r, s'). inv s' \<and> r \<and> free s' = free s)"
proof (rule ok_bindI2 [OF get_law [OF assms(1)]], elim conjE)
  fix r s1
  assume "inv s1" "blocks s1 = blocks s"
    "case free s of [] \<Rightarrow> r = None \<and> free s1 = [] | b # bs \<Rightarrow> r = Some b \<and> free s1 = bs"
  then have 1: "inv s1" "blocks s1 = blocks s" "free s1 = bs" using assms(2) by simp_all
  have "b \<in> blocks s1" "b \<notin> set (free s1)" using free_law [OF assms(1)] 1 assms(2) by auto
  then show "ok (put b s1) (\<lambda>(r, s'). inv s' \<and> r \<and> free s' = free s)"
    by (rule ok_mono2 [OF put_law [OF 1(1)]]) (simp add: 1(3) assms(2))
qed

end

text \<open>A partition of the kernel is such a pool.\<close>

definition mem_get :: "nat \<Rightarrow> kst \<Rightarrow> (vptr option \<times> kst) option" where
  "mem_get i s = do { ((p, e), s) \<leftarrow> OSMemGet (MEMp i) s;
     Some (if e = OS_ERR_NONE then Some p else None, s) }"

definition mem_put :: "nat \<Rightarrow> vptr \<Rightarrow> kst \<Rightarrow> (bool \<times> kst) option" where
  "mem_put i b s = do { (e, s) \<leftarrow> OSMemPut (MEMp i) b s; Some (e = OS_ERR_NONE, s) }"

interpretation partition: block_pool "part_ok i" "mem_free i" "mem_blocks i" "mem_get i" "mem_put i" for i
proof (unfold_locales, goal_cases)
  case (1 s)
  then show ?case by (simp add: part_ok_def)
next
  case (2 s)
  from OSMemGet_ok [OF 2] show ?case by (cases "mem_free i s") (auto simp: mem_get_def ok_iff)
next
  case (3 s b)
  from OSMemPut_ok [OF 3] show ?case by (auto simp: mem_put_def ok_iff)
qed

section \<open>Creating a partition\<close>

lemma block_at_Suc: "block_at (p + ucast sz) sz k = block_at p sz (Suc k)"
  by (simp add: block_at_def algebra_simps)

lemma mem_link_ok:
  assumes "\<And>k. k \<le> n \<Longrightarrow> cell_at (Addr (block_at p sz k)) = Some (block_at p sz k)"
    and "inj_on (block_at p sz) {..n}"
  shows "ok (mem_link n p sz m) (\<lambda>m'. chain (Suc n) m' (Addr p) = map (\<lambda>k. Addr (block_at p sz k)) [0..<Suc n]
    \<and> (\<forall>a. a \<notin> block_at p sz ` {..n} \<longrightarrow> m' a = m a))"
  using assms
proof (induction n arbitrary: p m)
  case 0
  then show ?case using 0(1) [of 0] by (simp add: block_at_def)
next
  case (Suc n)
  have p: "cell_at (Addr p) = Some p" using Suc.prems(1) [of 0] by (simp add: block_at_def)
  let ?q = "p + ucast sz" and ?m = "m(p := Addr (p + ucast sz))"
  have inj: "inj_on (block_at ?q sz) {..n}"
  proof (rule inj_onI)
    fix x y
    assume "x \<in> {..n}" "y \<in> {..n}" "block_at ?q sz x = block_at ?q sz y"
    then show "x = y" using inj_onD [OF Suc.prems(2), of "Suc x" "Suc y"] by (simp add: block_at_Suc)
  qed
  have run: "mem_link (Suc n) p sz m = mem_link n ?q sz ?m" using p by (simp add: Let_def)
  have out: "p \<notin> block_at ?q sz ` {..n}"
  proof
    assume "p \<in> block_at ?q sz ` {..n}"
    then obtain x where "x \<le> n" "p = block_at p sz (Suc x)" by (auto simp: block_at_Suc)
    then show False using inj_onD [OF Suc.prems(2), of 0 "Suc x"] by (simp add: block_at_def)
  qed
  have blocks: "map (\<lambda>k. Addr (block_at p sz k)) [0..<Suc (Suc n)]
      = Addr p # map (\<lambda>k. Addr (block_at ?q sz k)) [0..<Suc n]"
    unfolding upt_conv_Cons [OF zero_less_Suc] map_Suc_upt [symmetric]
    by (simp add: block_at_Suc) (simp add: block_at_def)
  have cells: "cell_at (Addr (block_at ?q sz k)) = Some (block_at ?q sz k)" if "k \<le> n" for k
    using Suc.prems(1) [of "Suc k"] that by (simp add: block_at_Suc)
  show ?case
    unfolding run
  proof (rule ok_mono [OF Suc.IH [OF cells inj]], assumption, elim conjE)
    fix m'
    assume 1: "chain (Suc n) m' (Addr ?q) = map (\<lambda>k. Addr (block_at ?q sz k)) [0..<Suc n]"
      and 2: "\<forall>a. a \<notin> block_at ?q sz ` {..n} \<longrightarrow> m' a = ?m a"
    have "m' p = Addr ?q" using 2 out by simp
    then have "chain (Suc (Suc n)) m' (Addr p) = Addr p # chain (Suc n) m' (Addr ?q)"
      by (simp only: chain.simps(1))
    moreover have "m' a = m a" if "a \<notin> block_at p sz ` {..Suc n}" for a
    proof -
      have "p = block_at p sz 0" by (simp add: block_at_def)
      with that have "a \<notin> block_at ?q sz ` {..n}" "a \<noteq> p" by (auto simp: block_at_Suc image_iff)
      then show ?thesis using 2 by simp
    qed
    ultimately show "chain (Suc (Suc n)) m' (Addr p) = map (\<lambda>k. Addr (block_at p sz k)) [0..<Suc (Suc n)]
      \<and> (\<forall>a. a \<notin> block_at p sz ` {..Suc n} \<longrightarrow> m' a = m a)"
      unfolding blocks 1 by blast
  qed
qed

definition mem_created :: "64 word \<Rightarrow> 32 word \<Rightarrow> 32 word \<Rightarrow> nat \<Rightarrow> kst \<Rightarrow> bool" where
  "mem_created addr nblks blksize i s' \<longleftrightarrow> part_ok i s'
     \<and> mem_free i s' = map (\<lambda>k. Addr (block_at addr blksize k)) [0..<unat nblks]
     \<and> mem_blocks i s' = set (mem_free i s')"

lemma OSMemCreate_part:
  assumes inv: "sinv s" and fl: "OSMemFreeList s = MEMp i" "i < OS_MAX_MEM_PART"
    and reg: "region_ok addr nblks blksize" and n: "nblks \<ge> 2"
  shows "ok (OSMemCreate addr nblks blksize s) (\<lambda>((p, e), s'). kept s s' \<and> p = MEMp i \<and> e = OS_ERR_NONE
    \<and> mem_created addr nblks blksize i s')"
proof -
  obtain k where k: "unat nblks = Suc k" using n by (cases "unat nblks") (auto simp: word_le_nat_alt)
  have n1: "unat (nblks - 1) = k" using k by (subst unat_minus_one) auto
  have sz: "\<not> blksize < 8"
  proof -
    have "unat blksize \<noteq> 0" "8 dvd unat blksize" using reg by (simp_all add: region_ok_def unat_eq_0)
    then have "8 \<le> unat blksize" by (auto elim: dvdE)
    then show ?thesis by (simp add: word_less_nat_alt)
  qed
  have a: "addr \<noteq> 0" "addr AND 7 = 0" using reg by (simp_all add: region_ok_def and_7)
  have ltk: "j < unat nblks" if "j \<le> k" for j using that k by simp
  have cells: "cell_at (Addr (block_at addr blksize j)) = Some (block_at addr blksize j)" if "j \<le> k" for j
    by (rule block_cell [OF reg ltk [OF that]])
  have inj: "inj_on (block_at addr blksize) {..k}"
    by (rule inj_onI) (use block_inj [OF reg ltk ltk] in auto)
  let ?s = "s\<lparr>OSMemFreeList := OSMemFreeList_f (OSMemTbl s i)\<rparr>"
  let ?f = "\<lambda>c. c\<lparr>OSMemAddr := Addr addr, OSMemFreeList_f := Addr addr, OSMemNFree := nblks,
    OSMemNBlks := nblks, OSMemBlkSize := blksize\<rparr>"
  have run: "OSMemCreate addr nblks blksize s = do { m \<leftarrow> mem_link k addr blksize (ptr_mem s);
      Some ((MEMp i, OS_ERR_NONE), upd_mem i ?f (?s\<lparr>ptr_mem := m\<rparr>)) }"
    using a leD [OF n] sz fl by (simp add: OSMemCreate_def n1 Let_def)
  show ?thesis
    unfolding run
  proof (rule ok_bindI [OF mem_link_ok [OF cells inj]], assumption, elim conjE)
    fix m
    let ?s' = "upd_mem i ?f (?s\<lparr>ptr_mem := m\<rparr>)"
    assume ch: "chain (Suc k) m (Addr addr) = map (\<lambda>k. Addr (block_at addr blksize k)) [0..<Suc k]"
    then have free: "mem_free i ?s' = map (\<lambda>k. Addr (block_at addr blksize k)) [0..<unat nblks]"
      by (simp add: mem_free_def k del: chain.simps upt_Suc)
    have bl: "mem_blocks i ?s' = set (mem_free i ?s')"
      unfolding free by (simp add: mem_blocks_def atLeast0LessThan)
    have "distinct (mem_free i ?s')"
      unfolding free using block_inj [OF reg] by (auto simp: distinct_map intro!: inj_onI)
    then have "part_ok i ?s'"
      unfolding part_ok_def using bl reg fl(2) by (simp add: free)
    moreover have "kept s ?s" by (rule mem_kept(3) [OF inv])
    then have "kept s ?s'" using mem_kept(1) [of ?s i ?f m] by simp
    ultimately show "ok (Some ((MEMp i, OS_ERR_NONE), ?s')) (\<lambda>((p, e), s'). kept s s' \<and> p = MEMp i
        \<and> e = OS_ERR_NONE \<and> mem_created addr nblks blksize i s')"
      using free bl by (simp add: mem_created_def)
  qed
qed

text \<open>The control blocks of the partitions are linked when the kernel starts.\<close>

lemma OS_MemInit_pool:
  "path MEMp (\<lambda>i. OSMemFreeList_f (OSMemTbl (OS_MemInit s) i)) (OSMemFreeList (OS_MemInit s)) [0, 1, 2, 3, 4]"
  by (simp add: OS_MemInit_def upd_mem_def eval_nat_numeral)

section \<open>The contract\<close>

interpretation MemGet: sched_call "\<lambda>s. pmem = NULL \<or> (\<exists>i. pmem = MEMp i \<and> part_ok i s)" "OSMemGet pmem" for pmem
proof (rule sched_callI)
  fix s
  assume inv: "sinv s" and "pmem = NULL \<or> (\<exists>i. pmem = MEMp i \<and> part_ok i s)"
  then consider "pmem = NULL" | i where "pmem = MEMp i" "part_ok i s" by blast
  then show "ok (OSMemGet pmem s) (\<lambda>(r, s'). kept s s')"
  proof cases
    case (2 i)
    show ?thesis
      unfolding 2(1)
      by (rule ok_mono [OF OSMemGet_ok [OF 2(2)]]) (use mem_kept(2) [OF inv] inv in auto)
  qed (simp add: OSMemGet_def inv)
qed

interpretation MemPut:
  sched_call "\<lambda>s. pblk = NULL \<or> (\<exists>i. pmem = MEMp i \<and> part_ok i s \<and> pblk \<in> mem_blocks i s
    \<and> pblk \<notin> set (mem_free i s))" "OSMemPut pmem pblk" for pmem pblk
proof (rule sched_callI)
  fix s
  assume inv: "sinv s" and "pblk = NULL \<or> (\<exists>i. pmem = MEMp i \<and> part_ok i s \<and> pblk \<in> mem_blocks i s
    \<and> pblk \<notin> set (mem_free i s))"
  then consider "pblk = NULL"
    | i where "pmem = MEMp i" "part_ok i s" "pblk \<in> mem_blocks i s" "pblk \<notin> set (mem_free i s)" by blast
  then show "ok (OSMemPut pmem pblk s) (\<lambda>(r, s'). kept s s')"
  proof cases
    case (2 i)
    show ?thesis
      unfolding 2(1) by (rule ok_mono2 [OF OSMemPut_ok [OF 2(2-4)]]) (use mem_kept(1) [OF inv] in auto)
  qed (simp add: OSMemPut_def inv)
qed

text \<open>Memory that may be cut into blocks: what passes the checks of the call is a region.\<close>

definition mem_arg :: "64 word \<Rightarrow> 32 word \<Rightarrow> 32 word \<Rightarrow> bool" where
  "mem_arg addr nblks blksize \<longleftrightarrow>
     (addr \<noteq> 0 \<and> addr AND 7 = 0 \<and> nblks \<ge> 2 \<and> blksize \<ge> 8 \<longrightarrow> region_ok addr nblks blksize)"

interpretation MemCreate: sched_call
  "\<lambda>s. (OSMemFreeList s = NULL \<or> (\<exists>i<OS_MAX_MEM_PART. OSMemFreeList s = MEMp i)) \<and> mem_arg addr nblks blksize"
  "OSMemCreate addr nblks blksize" for addr nblks blksize
proof (rule sched_callI, elim conjE)
  fix s
  assume inv: "sinv s" and free: "OSMemFreeList s = NULL \<or> (\<exists>i<OS_MAX_MEM_PART. OSMemFreeList s = MEMp i)"
    and arg: "mem_arg addr nblks blksize"
  show "ok (OSMemCreate addr nblks blksize s) (\<lambda>(r, s'). kept s s')"
  proof (cases "addr \<noteq> 0 \<and> addr AND 7 = 0 \<and> nblks \<ge> 2 \<and> blksize \<ge> 8 \<and> OSMemFreeList s \<noteq> NULL")
    case True
    with free obtain i where i: "OSMemFreeList s = MEMp i" "i < OS_MAX_MEM_PART" by blast
    have "region_ok addr nblks blksize" "nblks \<ge> 2" using True arg by (simp_all add: mem_arg_def)
    from OSMemCreate_part [OF inv i this] show ?thesis by (auto elim!: ok_mono2)
  next
    case False
    then show ?thesis using inv by (auto simp: OSMemCreate_def Let_def not_le)
  qed
qed

interpretation MemNameSet: sched_call "\<lambda>s. pmem = NULL \<or> mem_at pmem \<noteq> None" "OSMemNameSet pmem pname" for pmem pname
proof (rule sched_callI)
  fix s
  assume inv: "sinv s" and "pmem = NULL \<or> mem_at pmem \<noteq> None"
  then show "ok (OSMemNameSet pmem pname s) (\<lambda>(r, s'). kept s s')"
    using mem_kept(2) [OF inv] by (auto simp: OSMemNameSet_def)
qed

section \<open>Properties\<close>

text \<open>
  C25 (OSMemCreate_then_Get): a partition that has been created hands out each of its blocks once, in the
  order of their addresses, and then no more: every block starts a multiple of the block size into the
  caller's memory and ends inside it.
\<close>

theorem OSMemCreate_then_Get:
  assumes "sinv s" "OSMemFreeList s = MEMp i" "i < OS_MAX_MEM_PART" "region_ok addr nblks blksize" "2 \<le> nblks"
  shows "\<exists>s1 s2. OSMemCreate addr nblks blksize s = Some ((MEMp i, OS_ERR_NONE), s1) \<and> sinv s1
    \<and> partition.gets i (unat nblks + extra) s1 = Some
        (map (\<lambda>k. Some (Addr (block_at addr blksize k))) [0..<unat nblks] @ replicate extra None, s2)
    \<and> (\<forall>k<unat nblks. unat addr + k * unat blksize = unat (block_at addr blksize k)
        \<and> unat (block_at addr blksize k) + unat blksize \<le> unat addr + unat nblks * unat blksize)"
proof -
  from OSMemCreate_part [OF assms] obtain s1 where
    1: "OSMemCreate addr nblks blksize s = Some ((MEMp i, OS_ERR_NONE), s1)" "sinv s1"
    "mem_created addr nblks blksize i s1" by (auto simp: ok_iff)
  then have part: "part_ok i s1"
    and free: "mem_free i s1 = map (\<lambda>k. Addr (block_at addr blksize k)) [0..<unat nblks]"
    by (simp_all add: mem_created_def)
  from partition.gets_ok [OF part, of "unat nblks + extra"] obtain s2 where
    "partition.gets i (unat nblks + extra) s1 = Some
      (map (\<lambda>k. Some (Addr (block_at addr blksize k))) [0..<unat nblks] @ replicate extra None, s2)"
    by (auto simp: ok_iff free comp_def)
  moreover have "unat addr + k * unat blksize = unat (block_at addr blksize k)
      \<and> unat (block_at addr blksize k) + unat blksize \<le> unat addr + unat nblks * unat blksize"
    if "k < unat nblks" for k
  proof -
    have "Suc k * unat blksize \<le> unat nblks * unat blksize" using that by (intro mult_le_mono1) simp
    then show ?thesis using block_unat [OF assms(4) that] by simp
  qed
  ultimately show ?thesis using 1 by blast
qed

theorem OSMemCreate_then_Get_witness:
  "\<exists>s1 s2. OSMemCreate 0x8000 2 16 demo = Some ((MEMp 0, OS_ERR_NONE), s1)
    \<and> partition.gets 0 3 s1 = Some ([Some (Addr 0x8000), Some (Addr 0x8010), None], s2)"
proof -
  have "region_ok 0x8000 2 16" by (simp add: region_ok_def)
  moreover have "OSMemFreeList demo = MEMp 0" by (simp add: demo_def)
  moreover have "[0..<2] = [0, 1 :: nat]" by (simp add: upt_rec)
  ultimately show ?thesis
    using OSMemCreate_then_Get [OF demo_sinv, of 0 "0x8000" 2 16 1] by (auto simp: block_at_def)
qed

text \<open>
  C26 (OSMemPut_then_Get): a block that is given back is the next one handed out, and the free list is then
  as it was.
\<close>

theorem OSMemPut_then_Get:
  assumes "part_ok i s" "b \<in> mem_blocks i s" "b \<notin> set (mem_free i s)"
  shows "\<exists>s1 s2. OSMemPut (MEMp i) b s = Some (OS_ERR_NONE, s1) \<and> mem_free i s1 = b # mem_free i s
    \<and> OSMemGet (MEMp i) s1 = Some ((b, OS_ERR_NONE), s2) \<and> mem_free i s2 = mem_free i s \<and> part_ok i s2"
proof -
  from OSMemPut_ok [OF assms] obtain s1 where
    1: "OSMemPut (MEMp i) b s = Some (OS_ERR_NONE, s1)" "part_ok i s1" "mem_free i s1 = b # mem_free i s"
    by (auto simp: ok_iff)
  from OSMemGet_ok [OF 1(2)] 1(3) obtain s2 where
    "OSMemGet (MEMp i) s1 = Some ((b, OS_ERR_NONE), s2)" "mem_free i s2 = mem_free i s" "part_ok i s2"
    by (auto simp: ok_iff)
  with 1 show ?thesis by blast
qed

text \<open>The partition of the witness after its first block has been taken.\<close>

definition demo_part :: kst where
  "demo_part = snd (the (OSMemGet (MEMp 0) (snd (the (OSMemCreate 0x8000 2 16 demo)))))"

lemma demo_part: "part_ok 0 demo_part" "mem_free 0 demo_part = [Addr 0x8010]" "Addr 0x8000 \<in> mem_blocks 0 demo_part"
proof -
  have "region_ok 0x8000 2 16" by (simp add: region_ok_def)
  moreover have "OSMemFreeList demo = MEMp 0" by (simp add: demo_def)
  ultimately obtain s1 where
    1: "OSMemCreate 0x8000 2 16 demo = Some ((MEMp 0, OS_ERR_NONE), s1)" "mem_created 0x8000 2 16 0 s1"
    using OSMemCreate_part [OF demo_sinv, of 0 "0x8000" 2 16] by (auto simp: ok_iff)
  have two: "[0..<2] = [0, 1 :: nat]" by (simp add: upt_rec)
  have p: "part_ok 0 s1" "mem_free 0 s1 = [Addr 0x8000, Addr 0x8010]" "mem_blocks 0 s1 = {Addr 0x8000, Addr 0x8010}"
    using 1(2) by (simp_all add: mem_created_def two block_at_def)
  have "ok (OSMemGet (MEMp 0) s1) (\<lambda>((b, e), s2). part_ok 0 s2 \<and> mem_blocks 0 s2 = mem_blocks 0 s1
      \<and> mem_free 0 s2 = [Addr 0x8010])"
    by (rule ok_mono [OF OSMemGet_ok [OF p(1)]]) (use p(2) in auto)
  then obtain b e s2 where 2: "OSMemGet (MEMp 0) s1 = Some ((b, e), s2)" "part_ok 0 s2"
    "mem_blocks 0 s2 = mem_blocks 0 s1" "mem_free 0 s2 = [Addr 0x8010]"
    by (auto simp: ok_iff)
  have "demo_part = s2" by (simp add: demo_part_def 1(1) 2(1))
  with 2(2-4) p(3)
  show "part_ok 0 demo_part" "mem_free 0 demo_part = [Addr 0x8010]" "Addr 0x8000 \<in> mem_blocks 0 demo_part"
    by simp_all
qed

theorem OSMemPut_then_Get_witness:
  "\<exists>s1 s2. OSMemPut (MEMp 0) (Addr 0x8000) demo_part = Some (OS_ERR_NONE, s1)
    \<and> OSMemGet (MEMp 0) s1 = Some ((Addr 0x8000, OS_ERR_NONE), s2)"
proof -
  have "Addr 0x8000 \<notin> set (mem_free 0 demo_part)" by (simp add: demo_part)
  from OSMemPut_then_Get [OF demo_part(1,3) this] show ?thesis by blast
qed

end
