(* ===== verification/Os_Frame.thy ===== *)
theory Os_Frame
  imports Os_Calls
begin

text \<open>
  The part of the state that the invariant reads, and the steps that do not change it: what event flags,
  timers and tasks do to their own data.
\<close>

definition unread :: "kst \<Rightarrow> kst \<Rightarrow> bool" where
  "unread s s' \<longleftrightarrow> ids s' = ids s \<and> ctl s' = ctl s \<and> cur s' = cur s \<and> rdy_bm s' = rdy_bm s \<and> ev_bm s' = ev_bm s
     \<and> ev_data s' = ev_data s \<and> OSEventFreeList s' = OSEventFreeList s
     \<and> OSQTbl s' = OSQTbl s \<and> OSQFreeList s' = OSQFreeList s \<and> clock s' = clock s
     \<and> (\<forall>t. OSTCBEventMultiPtr (OSTCBTbl s' t) = OSTCBEventMultiPtr (OSTCBTbl s t)
          \<or> OSTCBEventMultiPtr (OSTCBTbl s' t) = None)"

lemma unread_refl [simp]: "unread s s"
  by (simp add: unread_def)

lemma unread_trans [trans]: "unread s s' \<Longrightarrow> unread s' s'' \<Longrightarrow> unread s s''"
  unfolding unread_def by metis

lemma unreadD:
  assumes "unread s s'"
  shows "ids s' = ids s" "ctl s' = ctl s" "cur s' = cur s" "rdy s' = rdy s" "waiters s' = waiters s"
    "ev_data s' = ev_data s" "clock s' = clock s" "OSEventFreeList s' = OSEventFreeList s"
    "OSQTbl s' = OSQTbl s" "owns s' = owns s" "owned s' = owned s"
  using assms owns_cong [of s' s] owned_cong [of s' s]
  by (simp_all add: unread_def rdy_def waiters_def fun_eq_iff)

lemma unread_sinv: "sinv s \<Longrightarrow> unread s s' \<Longrightarrow> sinv s'"
  by (erule sinv_unread) (simp_all add: unread_def clock_def)

lemma unread_kept: "sinv s \<Longrightarrow> unread s s' \<Longrightarrow> kept s s'"
  using unread_sinv [of s s'] settled_same [of s s'] by (simp add: unreadD)

text \<open>The data that the invariant does not read.\<close>

lemma unread_flags [simp]:
  "unread s (upd_grp g f s)" "unread s (upd_node n h s)" "unread s (s\<lparr>OSFlagFreeList := v\<rparr>)"
  by (auto simp: unread_def upd_grp_def upd_node_def ids_def ctl_def cur_def rdy_bm_def ev_bm_def ev_data_def
      clock_def fun_eq_iff)

lemma unread_timers [simp]:
  "unread s (upd_tmr i f s)" "unread s (upd_spoke k h s)" "unread s (s\<lparr>OSTmrFreeList := v\<rparr>)"
  "unread s (s\<lparr>OSTmrFree := n\<rparr>)" "unread s (s\<lparr>OSTmrUsed := n\<rparr>)" "unread s (s\<lparr>OSTmrTime := m\<rparr>)"
  by (auto simp: unread_def upd_tmr_def upd_spoke_def ids_def ctl_def cur_def rdy_bm_def ev_bm_def ev_data_def
      clock_def fun_eq_iff)

lemma unread_tcb:
  assumes "OSTCBPrio (f (OSTCBTbl s t)) = OSTCBPrio (OSTCBTbl s t)"
    "OSTCBX (f (OSTCBTbl s t)) = OSTCBX (OSTCBTbl s t)" "OSTCBY (f (OSTCBTbl s t)) = OSTCBY (OSTCBTbl s t)"
    "OSTCBBitX (f (OSTCBTbl s t)) = OSTCBBitX (OSTCBTbl s t)" "OSTCBBitY (f (OSTCBTbl s t)) = OSTCBBitY (OSTCBTbl s t)"
    "OSTCBNext (f (OSTCBTbl s t)) = OSTCBNext (OSTCBTbl s t)" "OSTCBPrev (f (OSTCBTbl s t)) = OSTCBPrev (OSTCBTbl s t)"
    "OSTCBEventMultiPtr (f (OSTCBTbl s t)) = OSTCBEventMultiPtr (OSTCBTbl s t)
      \<or> OSTCBEventMultiPtr (f (OSTCBTbl s t)) = None"
  shows "unread s (upd_tcb t f s)"
proof -
  have "ids (upd_tcb t f s) = ids s" by (rule ids_upd_tcb) (use assms in auto)
  moreover have "clock (upd_tcb t f s) = clock s" "OSQTbl (upd_tcb t f s) = OSQTbl s"
    "OSQFreeList (upd_tcb t f s) = OSQFreeList s" "OSEventFreeList (upd_tcb t f s) = OSEventFreeList s"
    "ev_data (upd_tcb t f s) = ev_data s"
    by (simp_all add: upd_tcb_def clock_def ev_data_def fun_eq_iff)
  ultimately show ?thesis using assms(8) by (simp add: unread_def)
qed

text \<open>A task enters or leaves the ready list.\<close>

lemma sinv_rdy_bm:
  assumes "sinv s" "kinv0 (set_rdy_bm b s)"
  shows "sinv (set_rdy_bm b s)"
proof -
  have "oinv (set_rdy_bm b s)" by (rule oinv_shrink [OF sinvD(4) [OF assms(1)]]) simp_all
  then show ?thesis
    using assms(2) cur_ok_same [OF sinvD(3) [OF assms(1)], of "set_rdy_bm b s"]
    by (simp add: sinv_def kinv_def)
qed

lemma make_ready:
  assumes inv: "sinv s" and own: "owns s t p"
  shows "ok (rdy_add (OSTCBY (OSTCBTbl s t)) (OSTCBBitY (OSTCBTbl s t)) (OSTCBBitX (OSTCBTbl s t)) s)
    (\<lambda>s'. sinv s' \<and> s' = set_rdy_bm (rdy_bm s') s \<and> rdy s' = insert p (rdy s))"
proof -
  have "sinv (set_rdy_bm (bm_add (OSTCBPrio (OSTCBTbl s t)) (rdy_bm s)) s)"
    by (rule sinv_rdy_bm [OF inv kinv0_make_ready [OF sinvD(2) [OF inv] own]])
  then show ?thesis
    using rdy_add_own [OF owns_bits [OF own], of s] members_own(2) [OF own, of "rdy_bm s"]
    by (auto simp: rdy_def)
qed

lemma make_unready:
  assumes inv: "sinv s" and own: "owns s t p" and idle: "p \<noteq> 63"
  shows "ok (rdy_del (OSTCBY (OSTCBTbl s t)) (OSTCBBitY (OSTCBTbl s t)) (OSTCBBitX (OSTCBTbl s t)) s)
    (\<lambda>s'. sinv s' \<and> s' = set_rdy_bm (rdy_bm s') s \<and> rdy s' = rdy s - {p})"
proof -
  have "sinv (set_rdy_bm (bm_take_out (OSTCBPrio (OSTCBTbl s t)) (rdy_bm s)) s)"
    by (rule sinv_rdy_bm [OF inv kinv0_unready [OF sinvD(2) [OF inv] own idle]])
  then show ?thesis
    using rdy_del_own [OF owns_bits [OF own], of s] members_own(1) [OF own, of "rdy_bm s"]
    by (auto simp: rdy_def)
qed

text \<open>Scheduling after any change that keeps the invariant and the nesting counters.\<close>

lemma sched_kept:
  assumes "sinv s1" "ctl s1 = ctl s"
  shows "ok (OS_Sched s1) (\<lambda>s'. kept s s' \<and> settled s' \<and> resched s1 s')"
  by (rule ok_mono [OF OS_Sched_sinv [OF assms(1)]]) (use assms(2) in simp)

end
