(* ===== verification/Os_Links.thy ===== *)
theory Os_Links
  imports Os_State
begin

text \<open>
  Doubly linked lists: the wait list of an event flag group, the spokes of the timer wheel and the list
  of tasks are all built by pushing at the head and unlinking in the middle, with the same pointer
  updates.
\<close>

text \<open>\<open>prev\<close> is what the first element points back to; null at the head of a list.\<close>

primrec dll :: "('a \<Rightarrow> vptr) \<Rightarrow> ('a \<Rightarrow> vptr) \<Rightarrow> ('a \<Rightarrow> vptr) \<Rightarrow> vptr \<Rightarrow> vptr \<Rightarrow> 'a list \<Rightarrow> bool" where
  "dll node nx pv prev p [] \<longleftrightarrow> p = NULL"
| "dll node nx pv prev p (x # xs) \<longleftrightarrow> p = node x \<and> pv x = prev \<and> dll node nx pv (node x) (nx x) xs"

lemma dll_path: "dll node nx pv prev p xs \<Longrightarrow> path node nx p xs"
  by (induction xs arbitrary: prev p) auto

lemma dll_cong:
  "(\<And>x. x \<in> set xs \<Longrightarrow> nx' x = nx x) \<Longrightarrow> (\<And>x. x \<in> set xs \<Longrightarrow> pv' x = pv x)
    \<Longrightarrow> dll node nx' pv' prev p xs = dll node nx pv prev p xs"
  by (induction xs arbitrary: prev p) auto

lemma dll_append:
  "dll node nx pv prev p (ys @ x # zs) \<Longrightarrow>
    pv x = (if ys = [] then prev else node (last ys)) \<and> dll node nx pv (node x) (nx x) zs"
  by (induction ys arbitrary: prev p) auto

text \<open>The element type determines the pointer: control blocks of one table.\<close>

locale block_links =
  fixes node :: "'a \<Rightarrow> vptr"
  assumes inj: "node x = node y \<longleftrightarrow> x = y" and nonnull: "node x \<noteq> NULL"
begin

lemma dll_head:
  assumes "dll node nx pv prev p xs"
  shows "p = NULL \<longleftrightarrow> xs = []" "xs \<noteq> [] \<Longrightarrow> p = node (hd xs)"
  using assms nonnull by (cases xs; auto)+

lemma dll_around:
  assumes "dll node nx pv NULL p (ys @ x # zs)" "distinct (ys @ x # zs)"
  shows "pv x = NULL \<longleftrightarrow> ys = []" "ys \<noteq> [] \<Longrightarrow> pv x = node (last ys)"
    and "nx x = NULL \<longleftrightarrow> zs = []" "zs \<noteq> [] \<Longrightarrow> nx x = node (hd zs)"
    and "p = node x \<longleftrightarrow> ys = []"
proof -
  note a = dll_append [OF assms(1)]
  show "pv x = NULL \<longleftrightarrow> ys = []" "ys \<noteq> [] \<Longrightarrow> pv x = node (last ys)" using a nonnull by auto
  from a have z: "dll node nx pv (node x) (nx x) zs" by simp
  show "nx x = NULL \<longleftrightarrow> zs = []" "zs \<noteq> [] \<Longrightarrow> nx x = node (hd zs)" using dll_head [OF z] by auto
  show "p = node x \<longleftrightarrow> ys = []" using assms inj by (cases ys) auto
qed

lemma dll_push:
  assumes "dll node nx pv NULL p xs" "distinct xs" "x \<notin> set xs"
    and "nx' x = p" "pv' x = NULL" "\<And>y. y \<in> set xs \<Longrightarrow> nx' y = nx y"
    and "\<And>y. y \<in> set xs \<Longrightarrow> pv' y = (if p = node y then node x else pv y)"
  shows "dll node nx' pv' NULL (node x) (x # xs)"
proof (cases xs)
  case Nil
  then show ?thesis using assms by simp
next
  case (Cons y ys)
  have "pv' z = pv z" if "z \<in> set ys" for z
    using that assms(1,2,7) Cons inj by auto
  then have "dll node nx' pv' (node y) (nx y) ys = dll node nx pv (node y) (nx y) ys"
    by (intro dll_cong) (use assms(6) Cons in auto)
  then show ?thesis using assms Cons by auto
qed

lemma dll_remove:
  assumes "dll node nx pv prev p (ys @ x # zs)" "distinct (ys @ x # zs)"
    and "\<And>y. y \<in> set (ys @ zs) \<Longrightarrow> nx' y = (if ys \<noteq> [] \<and> y = last ys then nx x else nx y)"
    and "\<And>y. y \<in> set (ys @ zs) \<Longrightarrow> pv' y = (if zs \<noteq> [] \<and> y = hd zs then pv x else pv y)"
  shows "dll node nx' pv' prev (if ys = [] then nx x else p) (ys @ zs)"
  using assms
proof (induction ys arbitrary: prev p)
  case Nil
  show ?case
  proof (cases zs)
    case (Cons z zs')
    have "dll node nx' pv' (node z) (nx z) zs' = dll node nx pv (node z) (nx z) zs'"
      by (rule dll_cong) (use Nil Cons in auto)
    then show ?thesis using Nil Cons by auto
  qed (use Nil in simp)
next
  case (Cons y ys)
  have d: "dll node nx pv (node y) (nx y) (ys @ x # zs)" "p = node y" "pv y = prev"
    "distinct (ys @ x # zs)" "y \<notin> set (ys @ x # zs)"
    using Cons.prems by auto
  have pvy: "pv' y = prev" using Cons.prems(4) [of y] d by auto
  show ?case
  proof (cases "ys = []")
    case True
    have nxy: "nx' y = nx x" using Cons.prems(3) [of y] True by simp
    have "dll node nx' pv' (node y) (if ys = [] then nx x else nx y) (ys @ zs)"
    proof (rule Cons.IH [OF d(1,4)])
      fix u assume "u \<in> set (ys @ zs)"
      then show "nx' u = (if ys \<noteq> [] \<and> u = last ys then nx x else nx u)"
        "pv' u = (if zs \<noteq> [] \<and> u = hd zs then pv x else pv u)"
        using Cons.prems(3,4) [of u] True d(5) by auto
    qed
    then show ?thesis using True d(2) pvy nxy by simp
  next
    case False
    have ne: "y \<noteq> last ys" using False d(5) by auto
    have nxy: "nx' y = nx y" using Cons.prems(3) [of y] False ne by auto
    have "dll node nx' pv' (node y) (if ys = [] then nx x else nx y) (ys @ zs)"
    proof (rule Cons.IH [OF d(1,4)])
      fix u assume "u \<in> set (ys @ zs)"
      then show "nx' u = (if ys \<noteq> [] \<and> u = last ys then nx x else nx u)"
        "pv' u = (if zs \<noteq> [] \<and> u = hd zs then pv x else pv u)"
        using Cons.prems(3,4) [of u] False by auto
    qed
    then show ?thesis using False d(2) pvy nxy by simp
  qed
qed

end

interpretation tcb_links: block_links TCBp
  by unfold_locales auto

interpretation node_links: block_links FNp
  by unfold_locales auto

interpretation tmr_links: block_links TMRp
  by unfold_locales auto

end
