(* ===== verification/Os_Flag.thy ===== *)
theory Os_Flag
  imports Os_Sched Os_Frame Os_Links
begin

text \<open>
  Event flags (\<open>os_flag.c\<close>): groups of 16 flags, and tasks that wait for some or all of a set of flags
  to be set or clear.  A waiting task's node, a local variable of \<open>OSFlagPend\<close>, is linked into the
  group's list.
\<close>

abbreviation (input) OS_FLAG_WAIT_CLR_ALL :: "8 word" where "OS_FLAG_WAIT_CLR_ALL \<equiv> 0"
abbreviation (input) OS_FLAG_WAIT_CLR_ANY :: "8 word" where "OS_FLAG_WAIT_CLR_ANY \<equiv> 1"
abbreviation (input) OS_FLAG_WAIT_SET_ALL :: "8 word" where "OS_FLAG_WAIT_SET_ALL \<equiv> 2"
abbreviation (input) OS_FLAG_WAIT_SET_ANY :: "8 word" where "OS_FLAG_WAIT_SET_ANY \<equiv> 3"
abbreviation (input) OS_FLAG_CONSUME :: "8 word" where "OS_FLAG_CONSUME \<equiv> 0x80"
abbreviation (input) OS_FLAG_CLR :: "8 word" where "OS_FLAG_CLR \<equiv> 0"
abbreviation (input) OS_FLAG_SET :: "8 word" where "OS_FLAG_SET \<equiv> 1"

section \<open>The calls\<close>

text \<open>
  The four branches of the \<open>switch\<close> on the type of wait, the same in three calls: the flags that are
  ready, and whether they satisfy the wait.  Another type is an error.
\<close>

definition flag_match :: "8 word \<Rightarrow> 16 word \<Rightarrow> 16 word \<Rightarrow> (16 word \<times> bool) option" where
  "flag_match wait_type flags_cur flags =
     (if wait_type = OS_FLAG_WAIT_SET_ALL then Some (flags_cur AND flags, flags_cur AND flags = flags)
      else if wait_type = OS_FLAG_WAIT_SET_ANY then Some (flags_cur AND flags, flags_cur AND flags \<noteq> 0)
      else if wait_type = OS_FLAG_WAIT_CLR_ALL then Some (NOT flags_cur AND flags, NOT flags_cur AND flags = flags)
      else if wait_type = OS_FLAG_WAIT_CLR_ANY then Some (NOT flags_cur AND flags, NOT flags_cur AND flags \<noteq> 0)
      else None)"

text \<open>The flags that satisfied a wait are put back: cleared if they were set, else set.\<close>

definition flag_consume :: "8 word \<Rightarrow> 16 word \<Rightarrow> 16 word \<Rightarrow> 16 word" where
  "flag_consume wait_type flags_rdy flags_cur =
     (if wait_type = OS_FLAG_WAIT_SET_ALL \<or> wait_type = OS_FLAG_WAIT_SET_ANY
      then flags_cur AND NOT flags_rdy else flags_cur OR flags_rdy)"

definition OSFlagAccept :: "vptr \<Rightarrow> 16 word \<Rightarrow> 8 word \<Rightarrow> kst \<Rightarrow> ((16 word \<times> os_err) \<times> kst) option" where
  "OSFlagAccept pgrp flags wait_type s =
     (if pgrp = NULL then Some ((0, OS_ERR_FLAG_INVALID_PGRP), s)
      else do {
        g \<leftarrow> fg_at pgrp;
        if OSFlagType (OSFlagTbl s g) \<noteq> OS_EVENT_TYPE_FLAG then Some ((0, OS_ERR_EVENT_TYPE), s)
        else do {
          let consume = (wait_type AND OS_FLAG_CONSUME \<noteq> 0);
          let wait_type = (if consume then wait_type AND NOT OS_FLAG_CONSUME else wait_type);
          case flag_match wait_type (OSFlagFlags (OSFlagTbl s g)) flags of
            None \<Rightarrow> Some ((0, OS_ERR_FLAG_WAIT_TYPE), s)
          | Some (flags_rdy, sat) \<Rightarrow>
              if sat then Some ((flags_rdy, OS_ERR_NONE),
                if consume then upd_grp g (\<lambda>c. c\<lparr>OSFlagFlags := flag_consume wait_type flags_rdy (OSFlagFlags c)\<rparr>) s
                else s)
              else Some ((flags_rdy, OS_ERR_FLAG_NOT_RDY), s)
        }
      })"

definition OSFlagCreate :: "16 word \<Rightarrow> kst \<Rightarrow> ((vptr \<times> os_err) \<times> kst) option" where
  "OSFlagCreate flags s =
     (if OSIntNesting s > 0 then Some ((NULL, OS_ERR_CREATE_ISR), s)
      else do {
        let pgrp = OSFlagFreeList s;
        if pgrp \<noteq> NULL then do {
          g \<leftarrow> fg_at pgrp;
          let s = s\<lparr>OSFlagFreeList := OSFlagWaitList (OSFlagTbl s g)\<rparr>;
          Some ((pgrp, OS_ERR_NONE), upd_grp g (\<lambda>c. c\<lparr>OSFlagType := OS_EVENT_TYPE_FLAG,
            OSFlagFlags := flags, OSFlagWaitList := NULL, OSFlagName := unnamed\<rparr>) s)
        } else Some ((pgrp, OS_ERR_FLAG_GRP_DEPLETED), s)
      })"

definition OS_FlagUnlink :: "vptr \<Rightarrow> kst \<Rightarrow> kst option" where
  "OS_FlagUnlink pnode s = do {
     n \<leftarrow> fn_at pnode;
     let pnode_prev = OSFlagNodePrev (OSFlagNodes s n);
     let pnode_next = OSFlagNodeNext (OSFlagNodes s n);
     s \<leftarrow> (if pnode_prev = NULL then do {
             g \<leftarrow> fg_at (OSFlagNodeFlagGrp (OSFlagNodes s n));
             let s = upd_grp g (\<lambda>c. c\<lparr>OSFlagWaitList := pnode_next\<rparr>) s;
             if pnode_next \<noteq> NULL then do {
               m \<leftarrow> fn_at pnode_next;
               Some (upd_node m (\<lambda>c. c\<lparr>OSFlagNodePrev := NULL\<rparr>) s)
             } else Some s
           } else do {
             l \<leftarrow> fn_at pnode_prev;
             let s = upd_node l (\<lambda>c. c\<lparr>OSFlagNodeNext := pnode_next\<rparr>) s;
             if pnode_next \<noteq> NULL then do {
               m \<leftarrow> fn_at pnode_next;
               Some (upd_node m (\<lambda>c. c\<lparr>OSFlagNodePrev := pnode_prev\<rparr>) s)
             } else Some s
           });
     t \<leftarrow> tcb_at (OSFlagNodeTCB (OSFlagNodes s n));
     Some (upd_tcb t (\<lambda>c. c\<lparr>OSTCBFlagNode := NULL\<rparr>) s)
   }"

definition OS_FlagTaskRdy :: "vptr \<Rightarrow> 16 word \<Rightarrow> pend_status \<Rightarrow> kst \<Rightarrow> (bool \<times> kst) option" where
  "OS_FlagTaskRdy pnode flags_rdy pend_stat s = do {
     n \<leftarrow> fn_at pnode;
     t \<leftarrow> tcb_at (OSFlagNodeTCB (OSFlagNodes s n));
     let s = upd_tcb t (\<lambda>c. c\<lparr>OSTCBDly := 0, OSTCBFlagsRdy := flags_rdy,
                              OSTCBStat := OSTCBStat c AND NOT OS_STAT_FLAG, OSTCBStatPend := pend_stat\<rparr>) s;
     let c = OSTCBTbl s t;
     (sched, s) \<leftarrow> (if OSTCBStat c = OS_STAT_RDY then do {
                      s \<leftarrow> rdy_add (OSTCBY c) (OSTCBBitY c) (OSTCBBitX c) s;
                      Some (True, s)
                    } else Some (False, s));
     s \<leftarrow> OS_FlagUnlink pnode s;
     Some (sched, s)
   }"

text \<open>The end of \<open>OSFlagDel\<close>: the group goes back to the free list.\<close>

definition free_flag :: "vptr \<Rightarrow> kst \<Rightarrow> kst option" where
  "free_flag pgrp s = do {
     g \<leftarrow> fg_at pgrp;
     let s = upd_grp g (\<lambda>c. c\<lparr>OSFlagName := unnamed, OSFlagType := OS_EVENT_TYPE_UNUSED,
       OSFlagWaitList := OSFlagFreeList s, OSFlagFlags := 0\<rparr>) s;
     Some (s\<lparr>OSFlagFreeList := pgrp\<rparr>)
   }"

text \<open>The loop that readies every task that waits.\<close>

partial_function (option) flag_abort_all :: "vptr \<Rightarrow> kst \<Rightarrow> kst option" where
  "flag_abort_all pnode s =
     (if pnode \<noteq> NULL then do {
        (_, s) \<leftarrow> OS_FlagTaskRdy pnode 0 OS_STAT_PEND_ABORT s;
        n \<leftarrow> fn_at pnode;
        flag_abort_all (OSFlagNodeNext (OSFlagNodes s n)) s
      } else Some s)"

definition OSFlagDel :: "vptr \<Rightarrow> 8 word \<Rightarrow> kst \<Rightarrow> ((vptr \<times> os_err) \<times> kst) option" where
  "OSFlagDel pgrp opt s =
     (if pgrp = NULL then Some ((pgrp, OS_ERR_FLAG_INVALID_PGRP), s)
      else if OSIntNesting s > 0 then Some ((pgrp, OS_ERR_DEL_ISR), s)
      else do {
        g \<leftarrow> fg_at pgrp;
        if OSFlagType (OSFlagTbl s g) \<noteq> OS_EVENT_TYPE_FLAG then Some ((pgrp, OS_ERR_EVENT_TYPE), s)
        else do {
          let tasks_waiting = (OSFlagWaitList (OSFlagTbl s g) \<noteq> NULL);
          if opt = OS_DEL_NO_PEND then
            if \<not> tasks_waiting then do {
              s \<leftarrow> free_flag pgrp s;
              Some ((NULL, OS_ERR_NONE), s)
            } else Some ((pgrp, OS_ERR_TASK_WAITING), s)
          else if opt = OS_DEL_ALWAYS then do {
            s \<leftarrow> flag_abort_all (OSFlagWaitList (OSFlagTbl s g)) s;
            s \<leftarrow> free_flag pgrp s;
            s \<leftarrow> (if tasks_waiting then OS_Sched s else Some s);
            Some ((NULL, OS_ERR_NONE), s)
          } else Some ((pgrp, OS_ERR_INVALID_OPT), s)
        }
      })"

definition OSFlagNameGet :: "vptr \<Rightarrow> vptr \<Rightarrow> kst \<Rightarrow> (8 word \<times> cname option \<times> os_err) option" where
  "OSFlagNameGet pgrp pname s =
     (if pgrp = NULL then Some (0, None, OS_ERR_FLAG_INVALID_PGRP)
      else if pname = NULL then Some (0, None, OS_ERR_PNAME_NULL)
      else if OSIntNesting s > 0 then Some (0, None, OS_ERR_NAME_GET_ISR)
      else do {
        g \<leftarrow> fg_at pgrp;
        if OSFlagType (OSFlagTbl s g) \<noteq> OS_EVENT_TYPE_FLAG then Some (0, None, OS_ERR_EVENT_TYPE)
        else do {
          let name = OSFlagName (OSFlagTbl s g);
          len \<leftarrow> OS_StrLen name;
          Some (len, Some name, OS_ERR_NONE)
        }
      })"

definition OSFlagNameSet :: "vptr \<Rightarrow> cname \<Rightarrow> kst \<Rightarrow> (os_err \<times> kst) option" where
  "OSFlagNameSet pgrp pname s =
     (if pgrp = NULL then Some (OS_ERR_FLAG_INVALID_PGRP, s)
      else if pname = None then Some (OS_ERR_PNAME_NULL, s)
      else if OSIntNesting s > 0 then Some (OS_ERR_NAME_SET_ISR, s)
      else do {
        g \<leftarrow> fg_at pgrp;
        if OSFlagType (OSFlagTbl s g) \<noteq> OS_EVENT_TYPE_FLAG then Some (OS_ERR_EVENT_TYPE, s)
        else Some (OS_ERR_NONE, upd_grp g (\<lambda>c. c\<lparr>OSFlagName := pname\<rparr>) s)
      })"

text \<open>The node is the running task's; it is pushed at the head of the group's list.\<close>

definition OS_FlagBlock :: "vptr \<Rightarrow> vptr \<Rightarrow> 16 word \<Rightarrow> 8 word \<Rightarrow> 32 word \<Rightarrow> kst \<Rightarrow> kst option" where
  "OS_FlagBlock pgrp pnode flags wait_type timeout s = do {
     t \<leftarrow> tcb_at (OSTCBCur s);
     n \<leftarrow> fn_at pnode;
     g \<leftarrow> fg_at pgrp;
     let s = upd_tcb t (\<lambda>c. c\<lparr>OSTCBStat := OSTCBStat c OR OS_STAT_FLAG, OSTCBStatPend := OS_STAT_PEND_OK,
                              OSTCBDly := timeout, OSTCBFlagNode := pnode\<rparr>) s;
     let s = upd_node n (\<lambda>c. c\<lparr>OSFlagNodeFlags := flags, OSFlagNodeWaitType := wait_type,
                              OSFlagNodeTCB := OSTCBCur s, OSFlagNodeNext := OSFlagWaitList (OSFlagTbl s g),
                              OSFlagNodePrev := NULL, OSFlagNodeFlagGrp := pgrp\<rparr>) s;
     let pnode_next = OSFlagWaitList (OSFlagTbl s g);
     s \<leftarrow> (if pnode_next \<noteq> NULL then do {
             m \<leftarrow> fn_at pnode_next;
             Some (upd_node m (\<lambda>c. c\<lparr>OSFlagNodePrev := pnode\<rparr>) s)
           } else Some s);
     let s = upd_grp g (\<lambda>c. c\<lparr>OSFlagWaitList := pnode\<rparr>) s;
     let c = OSTCBTbl s t;
     rdy_del (OSTCBY c) (OSTCBBitY c) (OSTCBBitX c) s
   }"

definition OSFlagPend ::
    "vptr \<Rightarrow> 16 word \<Rightarrow> 8 word \<Rightarrow> 32 word \<Rightarrow> kst \<Rightarrow> ((16 word \<times> os_err) pend \<times> kst) option" where
  "OSFlagPend pgrp flags wait_type timeout s =
     (if pgrp = NULL then Some (Returned (0, OS_ERR_FLAG_INVALID_PGRP), s)
      else if OSIntNesting s > 0 then Some (Returned (0, OS_ERR_PEND_ISR), s)
      else if OSLockNesting s > 0 then Some (Returned (0, OS_ERR_PEND_LOCKED), s)
      else do {
        g \<leftarrow> fg_at pgrp;
        if OSFlagType (OSFlagTbl s g) \<noteq> OS_EVENT_TYPE_FLAG then Some (Returned (0, OS_ERR_EVENT_TYPE), s)
        else do {
          let consume = (wait_type AND OS_FLAG_CONSUME \<noteq> 0);
          let wait_type = (if consume then wait_type AND NOT OS_FLAG_CONSUME else wait_type);
          case flag_match wait_type (OSFlagFlags (OSFlagTbl s g)) flags of
            None \<Rightarrow> Some (Returned (0, OS_ERR_FLAG_WAIT_TYPE), s)
          | Some (flags_rdy, sat) \<Rightarrow> do {
              t \<leftarrow> tcb_at (OSTCBCur s);
              if sat then do {
                let s = (if consume
                         then upd_grp g (\<lambda>c. c\<lparr>OSFlagFlags := flag_consume wait_type flags_rdy (OSFlagFlags c)\<rparr>) s
                         else s);
                Some (Returned (flags_rdy, OS_ERR_NONE), upd_tcb t (\<lambda>c. c\<lparr>OSTCBFlagsRdy := flags_rdy\<rparr>) s)
              } else do {
                s \<leftarrow> OS_FlagBlock pgrp (FNp t) flags wait_type timeout s;
                s \<leftarrow> OS_Sched s;
                Some (Waiting, s)
              }
            }
        }
      })"

text \<open>The rest of the call, from line 756, when the task is the running task again.\<close>

definition OSFlagPend_resume :: "vptr \<Rightarrow> 8 word \<Rightarrow> kst \<Rightarrow> ((16 word \<times> os_err) \<times> kst) option" where
  "OSFlagPend_resume pgrp wait_type s = do {
     let consume = (wait_type AND OS_FLAG_CONSUME \<noteq> 0);
     let wait_type = (if consume then wait_type AND NOT OS_FLAG_CONSUME else wait_type);
     t \<leftarrow> tcb_at (OSTCBCur s);
     if OSTCBStatPend (OSTCBTbl s t) \<noteq> OS_STAT_PEND_OK then do {
       let pend_stat = OSTCBStatPend (OSTCBTbl s t);
       let s = upd_tcb t (\<lambda>c. c\<lparr>OSTCBStatPend := OS_STAT_PEND_OK\<rparr>) s;
       s \<leftarrow> OS_FlagUnlink (FNp t) s;
       let s = upd_tcb t (\<lambda>c. c\<lparr>OSTCBStat := OS_STAT_RDY\<rparr>) s;
       Some ((0, if pend_stat = OS_STAT_PEND_ABORT then OS_ERR_PEND_ABORT else OS_ERR_TIMEOUT), s)
     } else do {
       let flags_rdy = OSTCBFlagsRdy (OSTCBTbl s t);
       if consume then
         if wait_type \<in> {OS_FLAG_WAIT_SET_ALL, OS_FLAG_WAIT_SET_ANY, OS_FLAG_WAIT_CLR_ALL, OS_FLAG_WAIT_CLR_ANY}
         then do {
           g \<leftarrow> fg_at pgrp;
           Some ((flags_rdy, OS_ERR_NONE),
             upd_grp g (\<lambda>c. c\<lparr>OSFlagFlags := flag_consume wait_type flags_rdy (OSFlagFlags c)\<rparr>) s)
         } else Some ((0, OS_ERR_FLAG_WAIT_TYPE), s)
       else Some ((flags_rdy, OS_ERR_NONE), s)
     }
   }"

definition OSFlagPendGetFlagsRdy :: "kst \<Rightarrow> 16 word option" where
  "OSFlagPendGetFlagsRdy s = do {
     t \<leftarrow> tcb_at (OSTCBCur s);
     Some (OSTCBFlagsRdy (OSTCBTbl s t))
   }"

text \<open>
  The loop over the waiting tasks: whether a task was made ready, or nothing when a node has a type
  of wait that does not exist and the call returns at once.
\<close>

partial_function (option) flag_post_loop :: "nat \<Rightarrow> vptr \<Rightarrow> bool \<Rightarrow> kst \<Rightarrow> (bool option \<times> kst) option" where
  "flag_post_loop g pnode sched s =
     (if pnode \<noteq> NULL then do {
        n \<leftarrow> fn_at pnode;
        let node = OSFlagNodes s n;
        case flag_match (OSFlagNodeWaitType node) (OSFlagFlags (OSFlagTbl s g)) (OSFlagNodeFlags node) of
          None \<Rightarrow> Some (None, s)
        | Some (flags_rdy, sat) \<Rightarrow> do {
            (sched, s) \<leftarrow> (if sat then do {
                             (rdy, s) \<leftarrow> OS_FlagTaskRdy pnode flags_rdy OS_STAT_PEND_OK s;
                             Some (if rdy then True else sched, s)
                           } else Some (sched, s));
            flag_post_loop g (OSFlagNodeNext (OSFlagNodes s n)) sched s
          }
      } else Some (Some sched, s))"

text \<open>
  The call up to \<open>OS_Sched\<close>, and the rest of it from line 986: the flags that it returns are read in a
  critical section of its own, when the task runs on, which may be after other tasks and interrupts.
\<close>

definition OSFlagPost :: "vptr \<Rightarrow> 16 word \<Rightarrow> 8 word \<Rightarrow> kst \<Rightarrow> ((16 word \<times> os_err) pend \<times> kst) option" where
  "OSFlagPost pgrp flags opt s =
     (if pgrp = NULL then Some (Returned (0, OS_ERR_FLAG_INVALID_PGRP), s)
      else do {
        g \<leftarrow> fg_at pgrp;
        if OSFlagType (OSFlagTbl s g) \<noteq> OS_EVENT_TYPE_FLAG then Some (Returned (0, OS_ERR_EVENT_TYPE), s)
        else if opt \<noteq> OS_FLAG_CLR \<and> opt \<noteq> OS_FLAG_SET then Some (Returned (0, OS_ERR_FLAG_INVALID_OPT), s)
        else do {
          let s = upd_grp g (\<lambda>c. c\<lparr>OSFlagFlags :=
            if opt = OS_FLAG_CLR then OSFlagFlags c AND NOT flags else OSFlagFlags c OR flags\<rparr>) s;
          (sched, s) \<leftarrow> flag_post_loop g (OSFlagWaitList (OSFlagTbl s g)) False s;
          case sched of
            None \<Rightarrow> Some (Returned (0, OS_ERR_FLAG_WAIT_TYPE), s)
          | Some sched \<Rightarrow> do {
              s \<leftarrow> (if sched then OS_Sched s else Some s);
              Some (Waiting, s)
            }
        }
      })"

definition OSFlagPost_resume :: "vptr \<Rightarrow> kst \<Rightarrow> ((16 word \<times> os_err) \<times> kst) option" where
  "OSFlagPost_resume pgrp s = do {
     g \<leftarrow> fg_at pgrp;
     let flags_cur = OSFlagFlags (OSFlagTbl s g);
     Some ((flags_cur, OS_ERR_NONE), s)
   }"

definition OSFlagQuery :: "vptr \<Rightarrow> kst \<Rightarrow> (16 word \<times> os_err) option" where
  "OSFlagQuery pgrp s =
     (if pgrp = NULL then Some (0, OS_ERR_FLAG_INVALID_PGRP)
      else do {
        g \<leftarrow> fg_at pgrp;
        if OSFlagType (OSFlagTbl s g) \<noteq> OS_EVENT_TYPE_FLAG then Some (0, OS_ERR_EVENT_TYPE)
        else Some (OSFlagFlags (OSFlagTbl s g), OS_ERR_NONE)
      })"

text \<open>\<open>OS_MemClr\<close> clears the table, the loop links the groups.\<close>

definition OS_FlagInit :: "kst \<Rightarrow> kst" where
  "OS_FlagInit s = (
     let s = s\<lparr>OSFlagTbl := \<lambda>_. \<lparr>OSFlagType = OS_EVENT_TYPE_UNUSED, OSFlagWaitList = NULL,
           OSFlagFlags = 0, OSFlagName = None\<rparr>\<rparr>;
         s = fold (\<lambda>ix. upd_grp ix (\<lambda>c. c\<lparr>OSFlagType := OS_EVENT_TYPE_UNUSED,
               OSFlagWaitList := FGp (ix + 1), OSFlagName := unnamed\<rparr>)) [0..<OS_MAX_FLAGS - 1] s;
         s = upd_grp (OS_MAX_FLAGS - 1) (\<lambda>c. c\<lparr>OSFlagType := OS_EVENT_TYPE_UNUSED,
               OSFlagWaitList := NULL, OSFlagName := unnamed\<rparr>) s
     in s\<lparr>OSFlagFreeList := FGp 0\<rparr>)"

declare flag_abort_all.simps [code]
declare flag_post_loop.simps [code]

section \<open>The list of waiting tasks\<close>

abbreviation (input) node_next :: "kst \<Rightarrow> nat \<Rightarrow> vptr" where
  "node_next s n \<equiv> OSFlagNodeNext (OSFlagNodes s n)"

abbreviation (input) node_prev :: "kst \<Rightarrow> nat \<Rightarrow> vptr" where
  "node_prev s n \<equiv> OSFlagNodePrev (OSFlagNodes s n)"

abbreviation (input) grp_flags :: "kst \<Rightarrow> nat \<Rightarrow> 16 word" where
  "grp_flags s g \<equiv> OSFlagFlags (OSFlagTbl s g)"

text \<open>The node \<open>n\<close> is the one of task \<open>n\<close>, which waits for group \<open>g\<close>.\<close>

definition node_ok :: "kst \<Rightarrow> nat \<Rightarrow> nat \<Rightarrow> bool" where
  "node_ok s g n \<longleftrightarrow> n < OS_N_TCBS \<and> OSFlagNodeTCB (OSFlagNodes s n) = TCBp n
     \<and> OSFlagNodeFlagGrp (OSFlagNodes s n) = FGp g \<and> OSFlagNodeWaitType (OSFlagNodes s n) \<in> {0, 1, 2, 3}
     \<and> (\<exists>p. owns s n p)"

definition flag_list :: "kst \<Rightarrow> nat \<Rightarrow> nat list \<Rightarrow> bool" where
  "flag_list s g ns \<longleftrightarrow> dll FNp (node_next s) (node_prev s) NULL (OSFlagWaitList (OSFlagTbl s g)) ns
     \<and> distinct ns \<and> (\<forall>n\<in>set ns. node_ok s g n)"

text \<open>Links apart, what stays of the nodes, and of the groups.\<close>

definition node_data :: "os_flag_node \<Rightarrow> _" where
  "node_data c = (OSFlagNodeTCB c, OSFlagNodeFlagGrp c, OSFlagNodeFlags c, OSFlagNodeWaitType c)"

definition grp_data :: "kst \<Rightarrow> nat \<Rightarrow> _" where
  "grp_data s g = (OSFlagType (OSFlagTbl s g), OSFlagFlags (OSFlagTbl s g), OSFlagName (OSFlagTbl s g))"

definition unlinked :: "nat \<Rightarrow> nat \<Rightarrow> kst \<Rightarrow> kst \<Rightarrow> bool" where
  "unlinked g n s s' \<longleftrightarrow> unread s s' \<and> grp_data s' = grp_data s \<and> OSFlagFreeList s' = OSFlagFreeList s
     \<and> (\<forall>m. node_data (OSFlagNodes s' m) = node_data (OSFlagNodes s m))
     \<and> node_next s' n = node_next s n
     \<and> OSTCBTbl s' = (OSTCBTbl s)(n := (OSTCBTbl s n)\<lparr>OSTCBFlagNode := NULL\<rparr>)
     \<and> (\<forall>g'. g' \<noteq> g \<longrightarrow> OSFlagWaitList (OSFlagTbl s' g') = OSFlagWaitList (OSFlagTbl s g'))
     \<and> (\<forall>m. OSFlagNodeFlagGrp (OSFlagNodes s m) \<noteq> FGp g \<longrightarrow> OSFlagNodes s' m = OSFlagNodes s m)"

lemma node_ok_cong:
  assumes "node_data (OSFlagNodes s' n) = node_data (OSFlagNodes s n)" "owns s' = owns s"
  shows "node_ok s' g n = node_ok s g n"
  using assms by (simp add: node_ok_def node_data_def)

lemma flag_views [simp]:
  "OSTCBTbl (upd_grp g f s) = OSTCBTbl s" "OSTCBTbl (upd_node n h s) = OSTCBTbl s"
  "OSFlagNodes (upd_grp g f s) = OSFlagNodes s" "OSFlagTbl (upd_node n h s) = OSFlagTbl s"
  "OSFlagTbl (upd_grp g f s) = (OSFlagTbl s)(g := f (OSFlagTbl s g))"
  "OSFlagNodes (upd_node n h s) = (OSFlagNodes s)(n := h (OSFlagNodes s n))"
  "OSFlagTbl (upd_tcb t k s) = OSFlagTbl s" "OSFlagNodes (upd_tcb t k s) = OSFlagNodes s"
  "OSFlagTbl (set_rdy_bm b s) = OSFlagTbl s" "OSFlagNodes (set_rdy_bm b s) = OSFlagNodes s"
  "OSTCBCur (upd_grp g f s) = OSTCBCur s" "OSTCBCur (upd_node n h s) = OSTCBCur s"
  "OSTCBCur (upd_tcb t k s) = OSTCBCur s"
  by (simp_all add: upd_grp_def upd_node_def upd_tcb_def set_rdy_bm_def)

lemma OS_FlagUnlink_ok:
  assumes l: "flag_list s g (ys @ n # zs)" and g: "g < OS_MAX_FLAGS"
  shows "ok (OS_FlagUnlink (FNp n) s) (\<lambda>s'. unlinked g n s s' \<and> flag_list s' g (ys @ zs))"
proof -
  have d: "dll FNp (node_next s) (node_prev s) NULL (OSFlagWaitList (OSFlagTbl s g)) (ys @ n # zs)"
    and dist: "distinct (ys @ n # zs)" and nok: "\<forall>m\<in>set (ys @ n # zs). node_ok s g m"
    using l by (simp_all add: flag_list_def)
  note a = node_links.dll_around [OF d dist]
  have n: "n < OS_N_TCBS" "OSFlagNodeTCB (OSFlagNodes s n) = TCBp n" "OSFlagNodeFlagGrp (OSFlagNodes s n) = FGp g"
    using nok by (simp_all add: node_ok_def)
  have lt: "ys \<noteq> [] \<Longrightarrow> last ys < OS_N_TCBS" "zs \<noteq> [] \<Longrightarrow> hd zs < OS_N_TCBS"
    using nok by (simp_all add: node_ok_def)
  define s1 where "s1 = (if ys = [] then upd_grp g (\<lambda>c. c\<lparr>OSFlagWaitList := node_next s n\<rparr>) s
    else upd_node (last ys) (\<lambda>c. c\<lparr>OSFlagNodeNext := node_next s n\<rparr>) s)"
  define s2 where "s2 = (if zs = [] then s1
    else upd_node (hd zs) (\<lambda>c. c\<lparr>OSFlagNodePrev := node_prev s n\<rparr>) s1)"
  define s' where "s' = upd_tcb n (\<lambda>c. c\<lparr>OSTCBFlagNode := NULL\<rparr>) s2"
  have run: "OS_FlagUnlink (FNp n) s = Some s'"
  proof (cases "ys = []")
    case True
    then have p: "node_prev s n = NULL" using a by simp
    have ne: "zs \<noteq> [] \<Longrightarrow> hd zs \<noteq> n" using dist by auto
    from p ne show ?thesis
      using True n g a(3,4) lt by (cases "zs = []") (simp_all add: OS_FlagUnlink_def Let_def s'_def s2_def s1_def)
  next
    case False
    then have p: "node_prev s n = FNp (last ys)" using a by simp
    have ne: "last ys \<noteq> n" "zs \<noteq> [] \<Longrightarrow> hd zs \<noteq> n" using dist False by auto
    then show ?thesis
      using False n g a(3,4) lt p by (cases "zs = []") (simp_all add: OS_FlagUnlink_def Let_def s'_def s2_def s1_def)
  qed
  have u: "unlinked g n s s'"
  proof -
    have "unread s s1" by (simp add: s1_def)
    moreover have "unread s1 s2" by (simp add: s2_def)
    moreover have "unread s2 s'" unfolding s'_def by (rule unread_tcb) simp_all
    ultimately have "unread s s'" by (blast intro: unread_trans)
    moreover have "OSFlagNodes s' m = OSFlagNodes s m" if "OSFlagNodeFlagGrp (OSFlagNodes s m) \<noteq> FGp g" for m
    proof -
      have "m \<noteq> last ys \<or> ys = []" "m \<noteq> hd zs \<or> zs = []" using that nok by (auto simp: node_ok_def)
      then show ?thesis by (auto simp: s'_def s2_def s1_def)
    qed
    moreover have "OSFlagFreeList s' = OSFlagFreeList s"
      by (simp add: s'_def s2_def s1_def upd_tcb_def upd_grp_def upd_node_def)
    moreover have "grp_data s' = grp_data s" by (simp add: s'_def s2_def s1_def grp_data_def fun_eq_iff)
    moreover have "node_data (OSFlagNodes s' m) = node_data (OSFlagNodes s m)" for m
      by (simp add: s'_def s2_def s1_def node_data_def)
    moreover have "node_next s' n = node_next s n"
      using dist by (cases "ys = []") (simp_all add: s'_def s2_def s1_def)
    moreover have "OSTCBTbl s' = (OSTCBTbl s)(n := (OSTCBTbl s n)\<lparr>OSTCBFlagNode := NULL\<rparr>)"
      by (simp add: s'_def s2_def s1_def)
    moreover have "OSFlagWaitList (OSFlagTbl s' g') = OSFlagWaitList (OSFlagTbl s g')" if "g' \<noteq> g" for g'
      using that by (simp add: s'_def s2_def s1_def)
    ultimately show ?thesis
      by (simp add: unlinked_def)
  qed
  have nx: "node_next s' m = (if ys \<noteq> [] \<and> m = last ys then node_next s n else node_next s m)" for m
    by (simp add: s'_def s2_def s1_def)
  have pv: "node_prev s' m = (if zs \<noteq> [] \<and> m = hd zs then node_prev s n else node_prev s m)" for m
    by (simp add: s'_def s2_def s1_def)
  have "dll FNp (node_next s') (node_prev s') NULL (if ys = [] then node_next s n else OSFlagWaitList (OSFlagTbl s g)) (ys @ zs)"
    by (rule node_links.dll_remove [OF d dist]) (rule nx, rule pv)
  moreover have "OSFlagWaitList (OSFlagTbl s' g) = (if ys = [] then node_next s n else OSFlagWaitList (OSFlagTbl s g))"
    by (simp add: s'_def s2_def s1_def)
  moreover have "\<forall>m\<in>set (ys @ zs). node_ok s' g m"
    using nok u node_ok_cong [of s' _ s g] by (auto simp: unlinked_def unreadD)
  ultimately have "flag_list s' g (ys @ zs)"
    using dist by (simp add: flag_list_def)
  with run u show ?thesis by simp
qed

end
