(* ===== verification/Os_Flag_Props.thy ===== *)
theory Os_Flag_Props
  imports Os_Flag Os_Demo_Runs
begin

text \<open>
  What the event flag calls do to the lists of waiting tasks: posting readies exactly the tasks whose
  wait is satisfied, deleting readies all of them, and waiting puts the running task at the head of
  the list.
\<close>

section \<open>Making waiting tasks ready\<close>

definition woken_tcb :: "16 word \<Rightarrow> pend_status \<Rightarrow> os_tcb \<Rightarrow> os_tcb" where
  "woken_tcb bits st c = c\<lparr>OSTCBDly := 0, OSTCBFlagsRdy := bits, OSTCBStat := OSTCBStat c AND NOT OS_STAT_FLAG,
     OSTCBStatPend := st, OSTCBFlagNode := NULL\<rparr>"

text \<open>Waiting for flags is all that keeps the task from running.\<close>

definition only_flag :: "kst \<Rightarrow> nat \<Rightarrow> bool" where
  "only_flag s t \<longleftrightarrow> OSTCBStat (OSTCBTbl s t) AND NOT OS_STAT_FLAG = OS_STAT_RDY"

text \<open>What stays when tasks are taken off the list of group \<open>g\<close>.\<close>

definition flag_frame :: "nat \<Rightarrow> kst \<Rightarrow> kst \<Rightarrow> bool" where
  "flag_frame g s s' \<longleftrightarrow> ids s' = ids s \<and> ctl s' = ctl s \<and> cur s' = cur s \<and> waiters s' = waiters s
     \<and> ev_data s' = ev_data s \<and> OSQTbl s' = OSQTbl s \<and> clock s' = clock s
     \<and> grp_data s' = grp_data s \<and> OSFlagFreeList s' = OSFlagFreeList s
     \<and> (\<forall>m. node_data (OSFlagNodes s' m) = node_data (OSFlagNodes s m))
     \<and> (\<forall>g'. g' \<noteq> g \<longrightarrow> OSFlagWaitList (OSFlagTbl s' g') = OSFlagWaitList (OSFlagTbl s g'))
     \<and> (\<forall>m. OSFlagNodeFlagGrp (OSFlagNodes s m) \<noteq> FGp g \<longrightarrow> OSFlagNodes s' m = OSFlagNodes s m)"

lemma flag_frame_refl [simp]: "flag_frame g s s"
  by (simp add: flag_frame_def)

lemma flag_frame_trans [trans]:
  assumes "flag_frame g s s'" "flag_frame g s' s''"
  shows "flag_frame g s s''"
proof -
  have "OSFlagNodeFlagGrp (OSFlagNodes s' m) = OSFlagNodeFlagGrp (OSFlagNodes s m)" for m
    using assms(1) by (simp add: flag_frame_def node_data_def)
  then show ?thesis using assms unfolding flag_frame_def by simp
qed

text \<open>The tasks of \<open>W\<close> are taken off: their status, and the ready list.\<close>

definition flag_woken :: "(nat \<Rightarrow> 16 word) \<Rightarrow> pend_status \<Rightarrow> nat set \<Rightarrow> kst \<Rightarrow> kst \<Rightarrow> bool" where
  "flag_woken bits st W s s' \<longleftrightarrow>
     OSTCBTbl s' = (\<lambda>t. if t \<in> W then woken_tcb (bits t) st (OSTCBTbl s t) else OSTCBTbl s t)
     \<and> rdy s' = rdy s \<union> {p. \<exists>t\<in>W. owns s t p \<and> only_flag s t}"

lemma flag_woken_none [simp]: "flag_woken bits st {} s s"
  by (simp add: flag_woken_def)

lemma flag_woken_step:
  assumes "flag_woken bits st {n} s s1" "flag_woken bits st W s1 s'" "n \<notin> W" "ids s1 = ids s"
  shows "flag_woken bits st (insert n W) s s'"
proof -
  have "owns s1 = owns s" using owns_cong [OF assms(4)] .
  moreover have "only_flag s1 t = only_flag s t" if "t \<in> W" for t
    using assms(1,3) that by (auto simp: flag_woken_def only_flag_def)
  ultimately have "rdy s' = rdy s \<union> {p. \<exists>t\<in>insert n W. owns s t p \<and> only_flag s t}"
    using assms(1,2) unfolding flag_woken_def by auto
  moreover have "OSTCBTbl s' = (\<lambda>t. if t \<in> insert n W then woken_tcb (bits t) st (OSTCBTbl s t) else OSTCBTbl s t)"
    using assms(1-3) unfolding flag_woken_def by (auto simp: fun_eq_iff)
  ultimately show ?thesis by (simp add: flag_woken_def)
qed

lemma flag_list_cong:
  assumes "\<And>n. n \<in> set ns \<Longrightarrow> OSFlagNodes s' n = OSFlagNodes s n" "owns s' = owns s"
    and "OSFlagWaitList (OSFlagTbl s' g) = OSFlagWaitList (OSFlagTbl s g)"
  shows "flag_list s' g ns = flag_list s g ns"
proof -
  have "dll FNp (node_next s') (node_prev s') NULL p ns = dll FNp (node_next s) (node_prev s) NULL p ns" for p
    by (rule dll_cong) (simp_all add: assms(1))
  moreover have "\<forall>n\<in>set ns. node_ok s' g n = node_ok s g n"
    using assms(1,2) by (auto intro!: node_ok_cong simp: node_data_def)
  ultimately show ?thesis using assms(3) by (simp add: flag_list_def)
qed

lemma OS_FlagTaskRdy_ok:
  assumes inv: "sinv s" and l: "flag_list s g (ys @ n # zs)" and g: "g < OS_MAX_FLAGS"
  shows "ok (OS_FlagTaskRdy (FNp n) bits st s) (\<lambda>(r, s'). sinv s' \<and> flag_frame g s s'
    \<and> flag_list s' g (ys @ zs) \<and> flag_woken (\<lambda>_. bits) st {n} s s' \<and> r = only_flag s n
    \<and> node_next s' n = (if zs = [] then NULL else FNp (hd zs)))"
proof -
  let ?f = "\<lambda>c. c\<lparr>OSTCBDly := 0, OSTCBFlagsRdy := bits, OSTCBStat := OSTCBStat c AND NOT OS_STAT_FLAG,
    OSTCBStatPend := st\<rparr>"
  define s1 where "s1 = upd_tcb n ?f s"
  have nok: "node_ok s g n" using l by (simp add: flag_list_def)
  then obtain p where n: "n < OS_N_TCBS" "OSFlagNodeTCB (OSFlagNodes s n) = TCBp n" and own: "owns s n p"
    by (auto simp: node_ok_def)
  have u1: "unread s s1" unfolding s1_def by (rule unread_tcb) simp_all
  have inv1: "sinv s1" by (rule unread_sinv [OF inv u1])
  have own1: "owns s1 n p" using own by (simp add: unreadD [OF u1])
  have stat: "OSTCBStat (OSTCBTbl s1 n) = OS_STAT_RDY \<longleftrightarrow> only_flag s n" by (simp add: s1_def only_flag_def)
  have nx: "node_next s n = (if zs = [] then NULL else FNp (hd zs))"
    using node_links.dll_around(3,4) [of "node_next s" "node_prev s" _ ys n zs] l by (auto simp: flag_list_def)
  have v1: "ids s1 = ids s" "ctl s1 = ctl s" "cur s1 = cur s" "waiters s1 = waiters s" "rdy s1 = rdy s"
    "objs s1 = objs s" "OSFlagNodes s1 = OSFlagNodes s" "OSFlagTbl s1 = OSFlagTbl s"
    "OSTCBTbl s1 = (OSTCBTbl s)(n := ?f (OSTCBTbl s n))"
    using unreadD [OF u1] by (simp_all add: s1_def)
  obtain s2 where r2: "(if only_flag s n then do {
        s \<leftarrow> rdy_add (OSTCBY (OSTCBTbl s1 n)) (OSTCBBitY (OSTCBTbl s1 n)) (OSTCBBitX (OSTCBTbl s1 n)) s1;
        Some (True, s) } else Some (False, s1)) = Some (only_flag s n, s2)"
    and s2: "sinv s2" "s2 = set_rdy_bm (rdy_bm s2) s1"
      "rdy s2 = (if only_flag s n then insert p (rdy s) else rdy s)"
  proof (cases "only_flag s n")
    case True
    then show ?thesis using make_ready [OF inv1 own1] that v1(5) by (auto simp: ok_iff)
  next
    case False
    have "s1 = set_rdy_bm (rdy_bm s1) s1" by (simp add: set_rdy_bm_def rdy_bm_def)
    then show ?thesis using that [of s1] False inv1 v1(5) by simp
  qed
  have v2: "ids s2 = ids s" "ctl s2 = ctl s" "cur s2 = cur s" "waiters s2 = waiters s" "objs s2 = objs s"
    "OSFlagNodes s2 = OSFlagNodes s" "OSFlagTbl s2 = OSFlagTbl s" "OSTCBTbl s2 = OSTCBTbl s1"
    by (subst s2(2), simp add: v1)+
  have l2: "flag_list s2 g (ys @ n # zs)"
    using l flag_list_cong [of "ys @ n # zs" s2 s g] owns_cong [OF v2(1)] by (simp add: v2)
  obtain s3 where r3: "OS_FlagUnlink (FNp n) s2 = Some s3" and u3: "unlinked g n s2 s3" "flag_list s3 g (ys @ zs)"
    using OS_FlagUnlink_ok [OF l2 g] by (auto simp: ok_iff)
  have u: "unread s2 s3" using u3(1) by (simp add: unlinked_def)
  have fr: "flag_frame g s s3"
    using u3(1) unreadD [OF u] v2
    by (simp add: flag_frame_def unlinked_def grp_data_def fun_eq_iff objs_def stores_def)
  have t3: "OSTCBTbl s3 = (OSTCBTbl s)(n := woken_tcb bits st (OSTCBTbl s n))"
    using u3(1) v1(9) v2(8) by (simp add: unlinked_def woken_tcb_def)
  have "{p. owns s n p \<and> only_flag s n} = (if only_flag s n then {p} else {})"
    using own by (auto simp: owns_def)
  then have wk: "flag_woken (\<lambda>_. bits) st {n} s s3"
    using t3 unreadD(4) [OF u] s2(3) by (auto simp: flag_woken_def fun_eq_iff)
  have "node_next s3 n = (if zs = [] then NULL else FNp (hd zs))" using u3(1) nx v2(6) by (simp add: unlinked_def)
  moreover have "OS_FlagTaskRdy (FNp n) bits st s = Some (only_flag s n, s3)"
    using n r2 r3 stat by (cases "only_flag s n") (auto simp: OS_FlagTaskRdy_def Let_def s1_def bind_eq_Some_conv)
  ultimately show ?thesis using unread_sinv [OF s2(1) u] fr wk u3(2) by simp
qed

section \<open>The loops over the waiting tasks\<close>

text \<open>Whether the flags of group \<open>g\<close> satisfy the wait of node \<open>n\<close>, and which of them do.\<close>

definition flag_check :: "kst \<Rightarrow> nat \<Rightarrow> nat \<Rightarrow> (16 word \<times> bool) option" where
  "flag_check s g n = flag_match (OSFlagNodeWaitType (OSFlagNodes s n)) (grp_flags s g) (OSFlagNodeFlags (OSFlagNodes s n))"

definition flag_sat :: "kst \<Rightarrow> nat \<Rightarrow> nat \<Rightarrow> bool" where
  "flag_sat s g n = (case flag_check s g n of Some (_, sat) \<Rightarrow> sat | None \<Rightarrow> False)"

definition flag_bits :: "kst \<Rightarrow> nat \<Rightarrow> nat \<Rightarrow> 16 word" where
  "flag_bits s g n = (case flag_check s g n of Some (bits, _) \<Rightarrow> bits | None \<Rightarrow> 0)"

lemma flag_check_frame:
  assumes "flag_frame g s s'"
  shows "flag_check s' g = flag_check s g" "flag_sat s' g = flag_sat s g" "flag_bits s' g = flag_bits s g"
proof -
  have "grp_data s' g = grp_data s g" "\<And>n. node_data (OSFlagNodes s' n) = node_data (OSFlagNodes s n)"
    using assms by (simp_all add: flag_frame_def)
  then show *: "flag_check s' g = flag_check s g"
    by (simp add: flag_check_def fun_eq_iff grp_data_def node_data_def)
  then show "flag_sat s' g = flag_sat s g" "flag_bits s' g = flag_bits s g"
    by (simp_all add: flag_sat_def flag_bits_def fun_eq_iff)
qed

lemma flag_check_Some:
  "node_ok s g n \<Longrightarrow> flag_check s g n = Some (flag_bits s g n, flag_sat s g n)"
  by (auto simp: node_ok_def flag_check_def flag_bits_def flag_sat_def flag_match_def)

lemma flag_woken_single: "flag_woken (\<lambda>_. bits n) st {n} s s' = flag_woken bits st {n} s s'"
  by (auto simp: flag_woken_def fun_eq_iff)

abbreviation (input) node_ptr :: "nat list \<Rightarrow> vptr" where
  "node_ptr ns \<equiv> (if ns = [] then NULL else FNp (hd ns))"

lemma flag_list_next: "flag_list s g (keep @ n # ns) \<Longrightarrow> node_next s n = node_ptr ns"
  using node_links.dll_around(3,4) [of "node_next s" "node_prev s" _ keep n ns] by (auto simp: flag_list_def)

lemma flag_list_head: "flag_list s g ns \<Longrightarrow> OSFlagWaitList (OSFlagTbl s g) = node_ptr ns"
  using node_links.dll_head [of "node_next s" "node_prev s"] by (auto simp: flag_list_def)

lemma flag_post_loop_ok:
  assumes "sinv s" "flag_list s g (keep @ rest)" "g < OS_MAX_FLAGS"
  shows "ok (flag_post_loop g (node_ptr rest) sched s) (\<lambda>(r, s'). sinv s' \<and> flag_frame g s s'
    \<and> flag_list s' g (keep @ filter (\<lambda>n. \<not> flag_sat s g n) rest)
    \<and> flag_woken (flag_bits s g) OS_STAT_PEND_OK {n \<in> set rest. flag_sat s g n} s s'
    \<and> r = Some (sched \<or> (\<exists>n\<in>set rest. flag_sat s g n \<and> only_flag s n)))"
  using assms
proof (induction rest arbitrary: keep sched s)
  case Nil
  then show ?case by (subst flag_post_loop.simps) simp
next
  case (Cons n rest)
  have nok: "node_ok s g n" and new: "n \<notin> set rest" using Cons.prems(2) by (simp_all add: flag_list_def)
  have n: "n < OS_N_TCBS" using nok by (simp add: node_ok_def)
  note chk = flag_check_Some [OF nok, unfolded flag_check_def]
  note nx = flag_list_next [OF Cons.prems(2)]
  show ?case
  proof (cases "flag_sat s g n")
    case False
    have "flag_list s g ((keep @ [n]) @ rest)" using Cons.prems(2) by simp
    moreover have "{m \<in> set (n # rest). flag_sat s g m} = {m \<in> set rest. flag_sat s g m}" using False by auto
    moreover have "flag_post_loop g (FNp n) sched s = flag_post_loop g (node_ptr rest) sched s"
      using False n chk nx by (subst flag_post_loop.simps) (simp add: Let_def)
    ultimately show ?thesis using Cons.IH [OF Cons.prems(1) _ Cons.prems(3), of "keep @ [n]" sched] False by simp
  next
    case True
    obtain s1 where r1: "OS_FlagTaskRdy (FNp n) (flag_bits s g n) OS_STAT_PEND_OK s = Some (only_flag s n, s1)"
      and s1: "sinv s1" "flag_frame g s s1" "flag_list s1 g (keep @ rest)"
        "flag_woken (\<lambda>_. flag_bits s g n) OS_STAT_PEND_OK {n} s s1" "node_next s1 n = node_ptr rest"
      using OS_FlagTaskRdy_ok [OF Cons.prems, of "flag_bits s g n" OS_STAT_PEND_OK] by (auto simp: ok_iff)
    note c1 = flag_check_frame [OF s1(2)]
    have "only_flag s1 m = only_flag s m" if "m \<in> set rest" for m
      using s1(4) that new by (auto simp: flag_woken_def only_flag_def)
    then have o1: "(\<exists>m\<in>set rest. flag_sat s g m \<and> only_flag s1 m) = (\<exists>m\<in>set rest. flag_sat s g m \<and> only_flag s m)"
      by auto
    obtain s2 where r2: "flag_post_loop g (node_ptr rest) (sched \<or> only_flag s n) s1
        = Some (Some (sched \<or> only_flag s n \<or> (\<exists>m\<in>set rest. flag_sat s g m \<and> only_flag s m)), s2)"
      and s2: "sinv s2" "flag_frame g s1 s2" "flag_list s2 g (keep @ filter (\<lambda>n. \<not> flag_sat s g n) rest)"
        "flag_woken (flag_bits s g) OS_STAT_PEND_OK {n \<in> set rest. flag_sat s g n} s1 s2"
      using Cons.IH [OF s1(1,3) Cons.prems(3), of "sched \<or> only_flag s n"] unfolding c1 o1 by (auto simp: ok_iff)
    have "flag_woken (flag_bits s g) OS_STAT_PEND_OK {n} s s1"
      using s1(4) by (simp only: flag_woken_single)
    from flag_woken_step [OF this s2(4)] new s1(2)
    have "flag_woken (flag_bits s g) OS_STAT_PEND_OK (insert n {n \<in> set rest. flag_sat s g n}) s s2"
      by (simp add: flag_frame_def)
    moreover have "insert n {n \<in> set rest. flag_sat s g n} = {m \<in> set (n # rest). flag_sat s g m}"
      using True by auto
    moreover have "flag_post_loop g (FNp n) sched s = flag_post_loop g (node_ptr rest) (sched \<or> only_flag s n) s1"
      using True n chk r1 s1(5) by (subst flag_post_loop.simps) (simp add: Let_def)
    ultimately show ?thesis
      using r2 s2 flag_frame_trans [OF s1(2) s2(2)] True by simp
  qed
qed

lemma flag_abort_all_ok:
  assumes "sinv s" "flag_list s g ns" "g < OS_MAX_FLAGS"
  shows "ok (flag_abort_all (node_ptr ns) s) (\<lambda>s'. sinv s' \<and> flag_frame g s s' \<and> flag_list s' g []
    \<and> flag_woken (\<lambda>_. 0) OS_STAT_PEND_ABORT (set ns) s s')"
  using assms
proof (induction ns arbitrary: s)
  case Nil
  then show ?case by (subst flag_abort_all.simps) simp
next
  case (Cons n ns)
  have n: "n < OS_N_TCBS" "n \<notin> set ns" using Cons.prems(2) by (simp_all add: flag_list_def node_ok_def)
  obtain s1 where r1: "OS_FlagTaskRdy (FNp n) 0 OS_STAT_PEND_ABORT s = Some (only_flag s n, s1)"
    and s1: "sinv s1" "flag_frame g s s1" "flag_list s1 g ns"
      "flag_woken (\<lambda>_. 0) OS_STAT_PEND_ABORT {n} s s1" "node_next s1 n = node_ptr ns"
    using OS_FlagTaskRdy_ok [OF Cons.prems(1) _ Cons.prems(3), of "[]" n ns] Cons.prems(2) by (auto simp: ok_iff)
  obtain s2 where r2: "flag_abort_all (node_ptr ns) s1 = Some s2"
    and s2: "sinv s2" "flag_frame g s1 s2" "flag_list s2 g []" "flag_woken (\<lambda>_. 0) OS_STAT_PEND_ABORT (set ns) s1 s2"
    using Cons.IH [OF s1(1,3) Cons.prems(3)] by (auto simp: ok_iff)
  have "flag_abort_all (FNp n) s = flag_abort_all (node_ptr ns) s1"
    using n r1 s1(5) by (subst flag_abort_all.simps) simp
  then show ?case
    using r2 s2 flag_frame_trans [OF s1(2) s2(2)] flag_woken_step [OF s1(4) s2(4) n(2)] s1(2)
    by (simp add: flag_frame_def)
qed

section \<open>Posting\<close>

text \<open>
  After a post the flags have changed, the tasks that are still in the list are those whose wait the
  new flags do not satisfy, and the others have been given the flags.
\<close>

definition flags_posted :: "16 word \<Rightarrow> 8 word \<Rightarrow> 16 word \<Rightarrow> 16 word" where
  "flags_posted flags opt old = (if opt = OS_FLAG_CLR then old AND NOT flags else old OR flags)"

definition with_flags :: "nat \<Rightarrow> 16 word \<Rightarrow> kst \<Rightarrow> kst" where
  "with_flags g v = upd_grp g (\<lambda>c. c\<lparr>OSFlagFlags := v\<rparr>)"

lemma with_flags_list: "flag_list (with_flags g v s) g ns = flag_list s g ns"
  by (rule flag_list_cong) (simp_all add: with_flags_def unreadD(10) [OF unread_flags(1)])

lemma with_flags_same:
  "unread s (with_flags g v s)" "OSTCBTbl (with_flags g v s) = OSTCBTbl s"
  "grp_flags (with_flags g v s) g = v" "OSFlagNodes (with_flags g v s) = OSFlagNodes s"
  "rdy (with_flags g v s) = rdy s" "owns (with_flags g v s) = owns s"
  by (simp_all add: with_flags_def unreadD [OF unread_flags(1)])

definition posted :: "nat \<Rightarrow> nat list \<Rightarrow> 16 word \<Rightarrow> kst \<Rightarrow> kst \<Rightarrow> bool" where
  "posted g ns v s s' \<longleftrightarrow> (let s0 = with_flags g v s in
     flag_list s' g (filter (\<lambda>n. \<not> flag_sat s0 g n) ns) \<and> grp_flags s' g = v
     \<and> (\<forall>n<OS_N_TCBS. OSTCBStatPend (OSTCBTbl s' n)
          = (if n \<in> set ns \<and> flag_sat s0 g n then OS_STAT_PEND_OK else OSTCBStatPend (OSTCBTbl s n)))
     \<and> (\<forall>n\<in>set ns. flag_sat s0 g n \<longrightarrow> OSTCBFlagsRdy (OSTCBTbl s' n) = flag_bits s0 g n)
     \<and> rdy s' = rdy s \<union> {p. \<exists>n\<in>set ns. flag_sat s0 g n \<and> owns s n p \<and> only_flag s n})"

lemma flags_resched:
  assumes "resched s1 s2"
  shows "OSFlagTbl s2 = OSFlagTbl s1" "OSFlagNodes s2 = OSFlagNodes s1" "flag_list s2 = flag_list s1"
    "grp_data s2 = grp_data s1"
proof -
  note q = reschedD [OF assms]
  show f: "OSFlagTbl s2 = OSFlagTbl s1" "OSFlagNodes s2 = OSFlagNodes s1"
    using q(6) by (simp_all add: objs_def stores_def)
  show "flag_list s2 = flag_list s1"
    by (rule ext, rule ext, rule flag_list_cong) (simp_all add: f owns_cong [OF q(5)])
  show "grp_data s2 = grp_data s1" by (simp add: grp_data_def f fun_eq_iff)
qed

lemma posted_resched:
  assumes "posted g ns v s s1" "resched s1 s2"
  shows "posted g ns v s s2"
proof -
  note q = reschedD [OF assms(2)]
  note f = flags_resched [OF assms(2)]
  have "OSTCBStatPend (OSTCBTbl s2 n) = OSTCBStatPend (OSTCBTbl s1 n)"
    "OSTCBFlagsRdy (OSTCBTbl s2 n) = OSTCBFlagsRdy (OSTCBTbl s1 n)" for n
    using tcbs_fields(2) [OF q(4)] arg_cong [OF q(4) [THEN fun_cong, of n], of OSTCBFlagsRdy]
    by (simp_all add: tcbs_def)
  then show ?thesis using assms(1) by (simp add: posted_def Let_def f q(2))
qed

lemma OSFlagPost_ok:
  assumes inv: "sinv s" and l: "flag_list s g ns" and g: "g < OS_MAX_FLAGS"
    and kind: "OSFlagType (OSFlagTbl s g) = OS_EVENT_TYPE_FLAG" and opt: "opt = OS_FLAG_CLR \<or> opt = OS_FLAG_SET"
  shows "ok (OSFlagPost (FGp g) flags opt s) (\<lambda>(r, s'). kept s s'
    \<and> r = Waiting \<and> posted g ns (flags_posted flags opt (grp_flags s g)) s s')"
proof -
  let ?v = "flags_posted flags opt (grp_flags s g)"
  define s0 where "s0 = with_flags g ?v s"
  have w: "unread s s0" "OSTCBTbl s0 = OSTCBTbl s" "grp_flags s0 g = ?v" "OSFlagNodes s0 = OSFlagNodes s"
    "rdy s0 = rdy s" "owns s0 = owns s"
    by (simp_all add: s0_def with_flags_same)
  have inv0: "sinv s0" by (rule unread_sinv [OF inv w(1)])
  have l0: "flag_list s0 g ([] @ ns)" using l with_flags_list by (simp add: s0_def)
  have upd: "upd_grp g (\<lambda>c. c\<lparr>OSFlagFlags := if opt = OS_FLAG_CLR then OSFlagFlags c AND NOT flags
      else OSFlagFlags c OR flags\<rparr>) s = s0"
    by (auto simp: s0_def with_flags_def upd_grp_def flags_posted_def fun_eq_iff)
  let ?wake = "\<exists>n\<in>set ns. flag_sat s0 g n \<and> only_flag s0 n"
  obtain s1 where r1: "flag_post_loop g (node_ptr ns) False s0 = Some (Some ?wake, s1)"
    and s1: "sinv s1" "flag_frame g s0 s1" "flag_list s1 g (filter (\<lambda>n. \<not> flag_sat s0 g n) ns)"
      "flag_woken (flag_bits s0 g) OS_STAT_PEND_OK {n \<in> set ns. flag_sat s0 g n} s0 s1"
    using flag_post_loop_ok [OF inv0 l0 g, of False] by (auto simp: ok_iff)
  have ctl1: "ctl s1 = ctl s" using s1(2) unreadD [OF w(1)] by (simp add: flag_frame_def)
  have o0: "only_flag s0 n = only_flag s n" for n by (simp add: only_flag_def w)
  have p1: "posted g ns ?v s s1"
    using s1(2,3,4) by (auto simp: posted_def Let_def flag_woken_def flag_frame_def grp_data_def fun_eq_iff
      w o0 woken_tcb_def simp flip: s0_def)
  have wl: "OSFlagWaitList (OSFlagTbl s0 g) = node_ptr ns"
    using flag_list_head [OF l] by (simp add: s0_def with_flags_def)
  have nopt: "\<not> (opt \<noteq> OS_FLAG_CLR \<and> opt \<noteq> OS_FLAG_SET)" using opt by auto
  have run: "OSFlagPost (FGp g) flags opt s = do {
      s2 \<leftarrow> (if ?wake then OS_Sched s1 else Some s1);
      Some (Waiting, s2) }"
    using kind g r1 wl by (simp add: OSFlagPost_def upd nopt Let_def)
  show ?thesis
  proof (cases ?wake)
    case True
    obtain s2 where s2: "OS_Sched s1 = Some s2" "kept s s2" "resched s1 s2"
      using sched_kept [OF s1(1) ctl1] by (auto simp: ok_iff)
    have "posted g ns ?v s s2" by (rule posted_resched [OF p1 s2(3)])
    then show ?thesis using run True s2 by (simp add: posted_def Let_def)
  next
    case False
    have "rdy s1 = rdy s" using p1 False by (auto simp: posted_def Let_def o0 simp flip: s0_def)
    moreover have "cur s1 = cur s" using s1(2) unreadD [OF w(1)] by (simp add: flag_frame_def)
    ultimately have "kept s s1" using s1(1) ctl1 settled_same [of s s1] by simp
    then show ?thesis using run False p1 by (simp add: posted_def Let_def)
  qed
qed

section \<open>Waiting\<close>

text \<open>The running task is at the head of the list, sleeps, and another task runs.\<close>

definition flag_asleep :: "nat \<Rightarrow> nat list \<Rightarrow> 16 word \<Rightarrow> 8 word \<Rightarrow> 32 word \<Rightarrow> kst \<Rightarrow> kst \<Rightarrow> bool" where
  "flag_asleep g ns flags wt timeout s s' \<longleftrightarrow> (let t = cur_ix s; c = tcbs s' t; d = OSFlagNodes s' t in
     flag_list s' g (t # ns) \<and> grp_data s' = grp_data s
     \<and> OSFlagNodeFlags d = flags \<and> OSFlagNodeWaitType d = wt
     \<and> (\<forall>n. n \<noteq> t \<longrightarrow> node_data (OSFlagNodes s' n) = node_data (OSFlagNodes s n))
     \<and> OSTCBStat c = OSTCBStat (OSTCBTbl s t) OR OS_STAT_FLAG \<and> OSTCBStatPend c = OS_STAT_PEND_OK
     \<and> OSTCBDly c = timeout \<and> OSTCBFlagNode c = FNp t
     \<and> (\<forall>n. n \<noteq> t \<longrightarrow> tcbs s' n = tcbs s n) \<and> rdy s' = rdy s - {unat (OSPrioCur s)})"

lemma OS_FlagBlock_ok:
  assumes inv: "sinv s" and l: "flag_list s g ns" and g: "g < OS_MAX_FLAGS" and idle: "may_block s"
    and new: "cur_ix s \<notin> set ns" and wt: "wt \<in> {0, 1, 2, 3}"
  shows "ok (OS_FlagBlock (FGp g) (FNp (cur_ix s)) flags wt timeout s)
    (\<lambda>s'. sinv s' \<and> ids s' = ids s \<and> ctl s' = ctl s \<and> flag_asleep g ns flags wt timeout s s')"
proof -
  let ?t = "cur_ix s" and ?p = "unat (OSPrioCur s)"
  note own = sinv_cur(2) [OF inv] and cu = sinv_cur(1) [OF inv]
  have t: "?t < OS_N_TCBS" using owns_index [OF own] .
  define s1 where "s1 = upd_tcb ?t (\<lambda>c. c\<lparr>OSTCBStat := OSTCBStat c OR OS_STAT_FLAG,
    OSTCBStatPend := OS_STAT_PEND_OK, OSTCBDly := timeout, OSTCBFlagNode := FNp ?t\<rparr>) s"
  define s2 where "s2 = upd_node ?t (\<lambda>c. c\<lparr>OSFlagNodeFlags := flags, OSFlagNodeWaitType := wt,
    OSFlagNodeTCB := TCBp ?t, OSFlagNodeNext := node_ptr ns, OSFlagNodePrev := NULL, OSFlagNodeFlagGrp := FGp g\<rparr>) s1"
  define s3 where "s3 = (if ns = [] then s2 else upd_node (hd ns) (\<lambda>c. c\<lparr>OSFlagNodePrev := FNp ?t\<rparr>) s2)"
  define s4 where "s4 = upd_grp g (\<lambda>c. c\<lparr>OSFlagWaitList := FNp ?t\<rparr>) s3"
  note hd = flag_list_head [OF l]
  have lt: "ns \<noteq> [] \<Longrightarrow> hd ns < OS_N_TCBS" using l by (simp add: flag_list_def node_ok_def)
  have u1: "unread s s1" unfolding s1_def by (rule unread_tcb) simp_all
  have "unread s1 s2" "unread s2 s3" "unread s3 s4" by (simp_all add: s2_def s3_def s4_def)
  with u1 have u: "unread s s4" by (blast intro: unread_trans)
  have tcb4: "OSTCBTbl s4 = OSTCBTbl s1" by (simp add: s4_def s3_def s2_def)
  have p63: "?p \<noteq> 63" using idle by (simp add: may_block_def word_unat_eq_iff)
  have own4: "owns s4 ?t ?p" using own unreadD(10) [OF u] by simp
  obtain s5 where r5: "rdy_del (OSTCBY (OSTCBTbl s4 ?t)) (OSTCBBitY (OSTCBTbl s4 ?t)) (OSTCBBitX (OSTCBTbl s4 ?t)) s4 = Some s5"
    and s5: "sinv s5" "s5 = set_rdy_bm (rdy_bm s5) s4" "rdy s5 = rdy s4 - {?p}"
    using make_unready [OF unread_sinv [OF inv u] own4 p63] by (auto simp: ok_iff)
  have n4: "OSFlagNodes s4 = OSFlagNodes s3" by (simp add: s4_def)
  have v5: "ids s5 = ids s" "ctl s5 = ctl s" "OSFlagNodes s5 = OSFlagNodes s3" "OSFlagTbl s5 = OSFlagTbl s4" "OSTCBTbl s5 = OSTCBTbl s1"
    by (subst s5(2), simp add: unreadD [OF u] tcb4 n4)+
  have run: "OS_FlagBlock (FGp g) (FNp ?t) flags wt timeout s = Some s5"
    using r5 t g cu hd lt
    by (cases "ns = []") (simp_all add: OS_FlagBlock_def Let_def s4_def s3_def s2_def s1_def)
  have nodes: "OSFlagNodes s1 = OSFlagNodes s" by (simp add: s1_def)
  have "dll FNp (node_next s3) (node_prev s3) NULL (FNp ?t) (?t # ns)"
  proof (rule node_links.dll_push)
    show "dll FNp (node_next s) (node_prev s) NULL (node_ptr ns) ns" "distinct ns"
      using l hd by (simp_all add: flag_list_def)
    fix y assume y: "y \<in> set ns"
    then have "y \<noteq> ?t" "ns \<noteq> []" using new by auto
    then show "node_prev s3 y = (if node_ptr ns = FNp y then FNp ?t else node_prev s y)"
      "node_next s3 y = node_next s y" by (simp_all add: s3_def s2_def nodes)
  next
    have "ns \<noteq> [] \<Longrightarrow> hd ns \<noteq> ?t" using new by (cases ns) auto
    then show "node_next s3 ?t = node_ptr ns" "node_prev s3 ?t = NULL"
      by (cases "ns = []"; simp add: s3_def s2_def)+
  qed (rule new)
  moreover have "node_ok s5 g n" if "n \<in> set ns" for n
  proof -
    have "node_ok s g n" using l that by (simp add: flag_list_def)
    moreover have "node_data (OSFlagNodes s5 n) = node_data (OSFlagNodes s n)"
    proof -
      have "n \<noteq> ?t" using that new by auto
      then show ?thesis by (simp add: v5 s3_def s2_def nodes node_data_def)
    qed
    ultimately show ?thesis using node_ok_cong [of s5 n s g] owns_cong [OF v5(1)] by simp
  qed
  moreover have "node_ok s5 g ?t"
    using t wt own owns_cong [OF v5(1)] new by (auto simp: node_ok_def v5 s3_def s2_def)
  ultimately have "flag_list s5 g (?t # ns)"
    using l new by (simp add: flag_list_def v5 s4_def)
  moreover have "grp_data s5 = grp_data s" by (simp add: grp_data_def v5 s4_def s3_def s2_def s1_def fun_eq_iff)
  moreover have "node_data (OSFlagNodes s5 n) = node_data (OSFlagNodes s n)" if "n \<noteq> ?t" for n
    using that by (simp add: v5 s3_def s2_def nodes node_data_def)
  moreover have "OSFlagNodeFlags (OSFlagNodes s5 ?t) = flags" "OSFlagNodeWaitType (OSFlagNodes s5 ?t) = wt"
    using new by (auto simp: v5 s3_def s2_def)
  ultimately show ?thesis
    using run s5(1,3) v5(1,2) unreadD(4) [OF u]
    by (simp add: flag_asleep_def Let_def v5 s1_def tcbs_def)
qed

section \<open>The calls keep the invariant\<close>

text \<open>The group argument of a call: null, or a group whose list of waiting tasks is intact.\<close>

definition flag_arg :: "vptr \<Rightarrow> kst \<Rightarrow> bool" where
  "flag_arg p s \<longleftrightarrow> (case p of Addr a \<Rightarrow> a = 0
     | FGp g \<Rightarrow> g < OS_MAX_FLAGS \<and> (OSFlagType (OSFlagTbl s g) = OS_EVENT_TYPE_FLAG \<longrightarrow> (\<exists>ns. flag_list s g ns))
     | _ \<Rightarrow> False)"

text \<open>The three cases of the group argument.\<close>

lemma flag_argE:
  assumes "flag_arg p s"
  obtains "p = NULL"
  | g where "p = FGp g" "g < OS_MAX_FLAGS" "OSFlagType (OSFlagTbl s g) \<noteq> OS_EVENT_TYPE_FLAG"
  | g ns where "p = FGp g" "g < OS_MAX_FLAGS" "OSFlagType (OSFlagTbl s g) = OS_EVENT_TYPE_FLAG" "flag_list s g ns"
  using assms by (auto simp: flag_arg_def split: vptr.splits)

interpretation FlagPost: sched_call "flag_arg pgrp" "OSFlagPost pgrp flags opt" for pgrp flags opt
proof (rule sched_callI)
  fix s
  assume inv: "sinv s" and "flag_arg pgrp s"
  from this(2) show "ok (OSFlagPost pgrp flags opt s) (\<lambda>(r, s'). kept s s')"
  proof (cases rule: flag_argE)
    case (3 g ns)
    then show ?thesis
      using OSFlagPost_ok [OF inv 3(4,2,3), of opt flags] inv
      by (cases "opt = OS_FLAG_CLR \<or> opt = OS_FLAG_SET") (auto simp: OSFlagPost_def elim!: ok_mono2)
  qed (use inv in \<open>simp_all add: OSFlagPost_def\<close>)
qed

interpretation FlagPost_resume: sched_call "\<lambda>_. fg_at pgrp \<noteq> None" "OSFlagPost_resume pgrp" for pgrp
  by (rule sched_callI) (auto simp: OSFlagPost_resume_def)

lemma flag_match_or: "flag_match wt v flags = None \<or> (\<exists>r b. flag_match wt v flags = Some (r, b) \<and> wt \<in> {0, 1, 2, 3})"
  by (auto simp: flag_match_def)

interpretation FlagAccept: sched_call "flag_arg pgrp" "OSFlagAccept pgrp flags wait_type" for pgrp flags wait_type
proof (rule sched_callI)
  fix s
  assume inv: "sinv s" and "flag_arg pgrp s"
  note k = unread_kept [OF inv unread_flags(1)]
  from \<open>flag_arg pgrp s\<close> show "ok (OSFlagAccept pgrp flags wait_type s) (\<lambda>(r, s'). kept s s')"
    by (cases rule: flag_argE)
      (use inv k in \<open>auto simp: OSFlagAccept_def Let_def split: option.split\<close>)
qed

lemma and_not_none: "x AND m = 0 \<Longrightarrow> x AND NOT m = x" for x :: "'a::len word"
  by (auto simp: bit_eq_iff bit_simps)

lemma OSFlagPend_ok:
  assumes inv: "sinv s" and l: "flag_list s g ns" and g: "g < OS_MAX_FLAGS" and idle: "may_block s"
    and kind: "OSFlagType (OSFlagTbl s g) = OS_EVENT_TYPE_FLAG"
    and nest: "OSIntNesting s = 0" "OSLockNesting s = 0" and new: "cur_ix s \<notin> set ns"
    and m: "flag_match (wait_type AND NOT OS_FLAG_CONSUME) (grp_flags s g) flags = Some (bits, False)"
  shows "ok (OSFlagPend (FGp g) flags wait_type timeout s) (\<lambda>(r, s'). kept s s' \<and> r = Waiting \<and> ids s' = ids s
    \<and> unat (OSPrioCur s') = Min (rdy s') \<and> flag_asleep g ns flags (wait_type AND NOT OS_FLAG_CONSUME) timeout s s')"
proof -
  let ?wt = "wait_type AND NOT OS_FLAG_CONSUME"
  have wt: "?wt \<in> {0, 1, 2, 3}" using flag_match_or [of ?wt "grp_flags s g" flags] m by auto
  have eq: "(if wait_type AND OS_FLAG_CONSUME \<noteq> 0 then ?wt else wait_type) = ?wt"
    using and_not_none [of wait_type OS_FLAG_CONSUME] by (simp split: if_splits)
  obtain s1 where r1: "OS_FlagBlock (FGp g) (FNp (cur_ix s)) flags ?wt timeout s = Some s1"
    and s1: "sinv s1" "ids s1 = ids s" "ctl s1 = ctl s" "flag_asleep g ns flags ?wt timeout s s1"
    using OS_FlagBlock_ok [OF inv l g idle new wt] by (auto simp: ok_iff)
  obtain s2 where r2: "OS_Sched s1 = Some s2"
    and s2: "sinv s2" "resched s1 s2" "settled s2" "ctl s2 = ctl s1" "unat (OSPrioCur s2) = Min (rdy s1)"
    using OS_Sched_sinv [OF s1(1)] s1(3) nest by (auto simp: ok_iff ctl_def)
  have "flag_asleep g ns flags ?wt timeout s s2"
    using s1(4) by (simp add: flag_asleep_def Let_def flags_resched [OF s2(2)] reschedD [OF s2(2)])
  moreover have "OSFlagPend (FGp g) flags wait_type timeout s = Some (Waiting, s2)"
    using g kind nest m r1 r2 sinv_cur(1,3) [OF inv] by (simp add: OSFlagPend_def Let_def eq)
  ultimately show ?thesis
    using s2 s1(2,3) by (simp add: reschedD [OF s2(2)])
qed

lemma check_cases: "m = None \<or> (\<exists>r. m = Some (r, True)) \<or> (\<exists>r. m = Some (r, False))"
  by (cases m) auto

interpretation FlagPend: sched_call
  "\<lambda>s. flag_arg pgrp s \<and> may_block s \<and> (\<forall>g ns. pgrp = FGp g \<longrightarrow> flag_list s g ns \<longrightarrow> cur_ix s \<notin> set ns)"
  "OSFlagPend pgrp flags wait_type timeout" for pgrp flags wait_type timeout
proof (rule sched_callI, elim conjE)
  fix s
  assume inv: "sinv s" and idle: "may_block s" and new: "\<forall>g ns. pgrp = FGp g \<longrightarrow> flag_list s g ns \<longrightarrow> cur_ix s \<notin> set ns"
  note k = unread_kept [OF inv]
  have u: "unread s (upd_tcb t (\<lambda>c. c\<lparr>OSTCBFlagsRdy := r\<rparr>) s')" if "unread s s'" for t r s'
    by (rule unread_trans [OF that], rule unread_tcb) simp_all
  assume "flag_arg pgrp s"
  then show "ok (OSFlagPend pgrp flags wait_type timeout s) (\<lambda>(r, s'). kept s s')"
  proof (cases rule: flag_argE)
    case (3 g ns)
    let ?wt = "wait_type AND NOT OS_FLAG_CONSUME"
    have eq: "(if wait_type AND OS_FLAG_CONSUME \<noteq> 0 then ?wt else wait_type) = ?wt"
      using and_not_none [of wait_type OS_FLAG_CONSUME] by (simp split: if_splits)
    show ?thesis
    proof (cases "OSIntNesting s = 0 \<and> OSLockNesting s = 0 \<and> (\<exists>bits. flag_match ?wt (grp_flags s g) flags = Some (bits, False))")
      case True
      then obtain bits where "OSIntNesting s = 0" "OSLockNesting s = 0"
        "flag_match ?wt (grp_flags s g) flags = Some (bits, False)" by auto
      moreover have "cur_ix s \<notin> set ns" using new 3(1,4) by auto
      ultimately show ?thesis
        using OSFlagPend_ok [OF inv 3(4,2) idle 3(3), of wait_type flags bits timeout] by (auto simp: 3(1) elim!: ok_mono2)
    next
      case False
      then consider "OSIntNesting s \<noteq> 0" | "OSIntNesting s = 0" "OSLockNesting s \<noteq> 0"
        | "OSIntNesting s = 0" "OSLockNesting s = 0" "flag_match ?wt (grp_flags s g) flags = None"
        | bits where "OSIntNesting s = 0" "OSLockNesting s = 0" "flag_match ?wt (grp_flags s g) flags = Some (bits, True)"
        using check_cases [of "flag_match ?wt (grp_flags s g) flags"] by (elim disjE exE) blast+
      then show ?thesis
      proof cases
        case 4
        let ?s = "if wait_type AND OS_FLAG_CONSUME \<noteq> 0
          then upd_grp g (\<lambda>c. c\<lparr>OSFlagFlags := flag_consume ?wt bits (OSFlagFlags c)\<rparr>) s else s"
        have "OSFlagPend pgrp flags wait_type timeout s
          = Some (Returned (bits, OS_ERR_NONE), upd_tcb (cur_ix s) (\<lambda>c. c\<lparr>OSTCBFlagsRdy := bits\<rparr>) ?s)"
          using 4 3(1-3) sinv_cur(1,3) [OF inv] by (simp add: OSFlagPend_def Let_def eq)
        then show ?thesis using k [OF u, of ?s] by simp
      qed (use inv 3(1-3) in \<open>simp_all add: OSFlagPend_def Let_def eq word_gt_0\<close>)
    qed
  qed (use inv in \<open>simp_all add: OSFlagPend_def\<close>)
qed

text \<open>
  When the task runs again its wait was satisfied, or its node is still in the list because the time ran out.
\<close>

interpretation FlagPend_resume: sched_call
  "\<lambda>s. \<exists>g. pgrp = FGp g \<and> g < OS_MAX_FLAGS
    \<and> (OSTCBStatPend (OSTCBTbl s (cur_ix s)) \<noteq> OS_STAT_PEND_OK \<longrightarrow> (\<exists>ns. flag_list s g ns \<and> cur_ix s \<in> set ns))"
  "OSFlagPend_resume pgrp wait_type" for pgrp wait_type
proof (rule sched_callI, elim exE conjE)
  fix s g
  assume inv: "sinv s" and p: "pgrp = FGp g" and g: "g < OS_MAX_FLAGS"
    and out: "OSTCBStatPend (OSTCBTbl s (cur_ix s)) \<noteq> OS_STAT_PEND_OK \<longrightarrow> (\<exists>ns. flag_list s g ns \<and> cur_ix s \<in> set ns)"
  note cu = sinv_cur(1,3) [OF inv]
  show "ok (OSFlagPend_resume pgrp wait_type s) (\<lambda>(r, s'). kept s s')"
  proof (cases "OSTCBStatPend (OSTCBTbl s (cur_ix s)) = OS_STAT_PEND_OK")
    case True
    then show ?thesis
      using cu g inv unread_kept [OF inv unread_flags(1)] by (simp add: OSFlagPend_resume_def Let_def p)
  next
    case False
    let ?t = "cur_ix s"
    define s1 where "s1 = upd_tcb ?t (\<lambda>c. c\<lparr>OSTCBStatPend := OS_STAT_PEND_OK\<rparr>) s"
    have u1: "unread s s1" unfolding s1_def by (rule unread_tcb) simp_all
    from out False obtain ns where "flag_list s g ns" "?t \<in> set ns" by auto
    moreover obtain ys zs where "ns = ys @ ?t # zs" using split_list \<open>?t \<in> set ns\<close> by metis
    ultimately have "flag_list s1 g (ys @ ?t # zs)"
      using flag_list_cong [of ns s1 s g] unreadD(10) [OF u1] by (simp add: s1_def)
    from OS_FlagUnlink_ok [OF this g] obtain s2 where r2: "OS_FlagUnlink (FNp ?t) s1 = Some s2" and u2: "unlinked g ?t s1 s2"
      by (auto simp: ok_iff)
    have "unread s2 (upd_tcb ?t (\<lambda>c. c\<lparr>OSTCBStat := OS_STAT_RDY\<rparr>) s2)" by (rule unread_tcb) simp_all
    then have "unread s (upd_tcb ?t (\<lambda>c. c\<lparr>OSTCBStat := OS_STAT_RDY\<rparr>) s2)"
      using u1 u2 unfolding unlinked_def by (blast intro: unread_trans)
    from unread_kept [OF inv this] show ?thesis
      using cu False r2 by (simp add: OSFlagPend_resume_def Let_def p s1_def)
  qed
qed

interpretation FlagNameSet: sched_call "\<lambda>s. pgrp = NULL \<or> fg_at pgrp \<noteq> None" "OSFlagNameSet pgrp pname" for pgrp pname
proof (rule sched_callI)
  fix s
  assume inv: "sinv s" and "pgrp = NULL \<or> fg_at pgrp \<noteq> None"
  then show "ok (OSFlagNameSet pgrp pname s) (\<lambda>(r, s'). kept s s')"
    using unread_kept [OF inv unread_flags(1)] by (auto simp: OSFlagNameSet_def)
qed

section \<open>Creating and deleting groups\<close>

interpretation FlagCreate: sched_call "\<lambda>s. OSFlagFreeList s = NULL \<or> (\<exists>g<OS_MAX_FLAGS. OSFlagFreeList s = FGp g)"
  "OSFlagCreate flags" for flags
proof (rule sched_callI)
  fix s
  assume inv: "sinv s" and free: "OSFlagFreeList s = NULL \<or> (\<exists>g<OS_MAX_FLAGS. OSFlagFreeList s = FGp g)"
  have k: "kept s (upd_grp g f (s\<lparr>OSFlagFreeList := v\<rparr>))" for g f v
    by (rule unread_kept [OF inv unread_trans [OF unread_flags(3) unread_flags(1)]])
  from free show "ok (OSFlagCreate flags s) (\<lambda>(r, s'). kept s s')"
    by (elim disjE exE conjE) (use inv k in \<open>simp_all add: OSFlagCreate_def Let_def\<close>)
qed

lemma free_flag_ok: "g < OS_MAX_FLAGS \<Longrightarrow> ok (free_flag (FGp g) s) (unread s)"
  using unread_trans [OF unread_flags(1) unread_flags(3)] by (simp add: free_flag_def Let_def)

interpretation FlagDel: sched_call "flag_arg pgrp" "OSFlagDel pgrp opt" for pgrp opt
proof (rule sched_callI)
  fix s
  assume inv: "sinv s" and "flag_arg pgrp s"
  from this(2) show "ok (OSFlagDel pgrp opt s) (\<lambda>(r, s'). kept s s')"
  proof (cases rule: flag_argE)
    case (3 g ns)
    note hd = flag_list_head [OF 3(4)]
    obtain s1 where r1: "flag_abort_all (node_ptr ns) s = Some s1" and s1: "sinv s1" "flag_frame g s s1"
      "flag_woken (\<lambda>_. 0) OS_STAT_PEND_ABORT (set ns) s s1"
      using flag_abort_all_ok [OF inv 3(4,2)] by (auto simp: ok_iff)
    obtain s2 where r2: "free_flag pgrp s1 = Some s2" and s2: "unread s1 s2"
      using free_flag_ok [OF 3(2)] 3(1) by (auto simp: ok_iff)
    obtain s3 where r3: "free_flag pgrp s = Some s3" and s3: "unread s s3"
      using free_flag_ok [OF 3(2)] 3(1) by (auto simp: ok_iff)
    have ctl2: "ctl s2 = ctl s" using s1(2) unreadD [OF s2] by (simp add: flag_frame_def)
    obtain s4 where r4: "OS_Sched s2 = Some s4" and s4: "kept s s4"
      using sched_kept [OF unread_sinv [OF s1(1) s2] ctl2] by (auto simp: ok_iff)
    have same: "kept s s2" if "ns = []"
    proof -
      have "rdy s2 = rdy s" "cur s2 = cur s"
        using s1(2,3) that unreadD [OF s2] by (simp_all add: flag_woken_def flag_frame_def)
      then show ?thesis using unread_sinv [OF s1(1) s2] ctl2 settled_same [of s s2] by simp
    qed
    consider "OSIntNesting s > 0" | "opt = OS_DEL_NO_PEND" | "opt = OS_DEL_ALWAYS" "ns = []"
      | "opt = OS_DEL_ALWAYS" "ns \<noteq> []" | "opt \<noteq> OS_DEL_NO_PEND" "opt \<noteq> OS_DEL_ALWAYS" by blast
    then show ?thesis
      using inv 3(1-3) hd r1 r2 r3 r4 s4 same unread_kept [OF inv s3]
      by cases (simp_all add: OSFlagDel_def Let_def)
  qed (use inv in \<open>simp_all add: OSFlagDel_def\<close>)
qed

section \<open>Properties\<close>

text \<open>
  C27 (OSFlagPost_wakes): posting flags wakes exactly the waiting tasks whose wait the new flags satisfy: they
  leave the list, get the flags and become ready unless suspended; the others stay in the list, in
  order.  The call returns the flags as they are when its task runs on: the new ones when nobody runs
  in between, else what the woken tasks have left of them.
\<close>

theorem OSFlagPost_wakes:
  assumes "sinv s" "g < OS_MAX_FLAGS" "OSFlagType (OSFlagTbl s g) = OS_EVENT_TYPE_FLAG" "flag_list s g ns"
    and "opt = OS_FLAG_CLR \<or> opt = OS_FLAG_SET"
  shows "\<exists>s'. OSFlagPost (FGp g) flags opt s = Some (Waiting, s')
    \<and> kept s s' \<and> posted g ns (flags_posted flags opt (grp_flags s g)) s s'
    \<and> OSFlagPost_resume (FGp g) s' = Some ((flags_posted flags opt (grp_flags s g), OS_ERR_NONE), s')
    \<and> (\<forall>s2. OSFlagPost_resume (FGp g) s2 = Some ((grp_flags s2 g, OS_ERR_NONE), s2))"
  using OSFlagPost_ok [OF assms(1,4,2,3,5), of flags] assms(2)
  by (auto simp: ok_iff OSFlagPost_resume_def posted_def Let_def)

text \<open>A group of flags in use, and the running task waiting for both of flags 0 and 1.\<close>

definition demo_grp :: kst where
  "demo_grp = upd_grp 0 (\<lambda>_. \<lparr>OSFlagType = OS_EVENT_TYPE_FLAG, OSFlagWaitList = NULL, OSFlagFlags = 1,
     OSFlagName = unnamed\<rparr>) (demo\<lparr>OSFlagFreeList := FGp 1\<rparr>)"

lemma demo_grp:
  "sinv demo_grp" "OSFlagType (OSFlagTbl demo_grp 0) = OS_EVENT_TYPE_FLAG" "grp_flags demo_grp 0 = 1"
  "flag_list demo_grp 0 []" "may_block demo_grp" "OSIntNesting demo_grp = 0" "OSLockNesting demo_grp = 0"
  "cur_ix demo_grp = 3" "unat (OSPrioCur demo_grp) = 30" "rdy demo_grp = {30, 63}" "owns demo_grp 3 30"
  "OSTCBTbl demo_grp = OSTCBTbl demo" "ctl demo_grp = ctl demo"
proof -
  have "unread demo (demo\<lparr>OSFlagFreeList := FGp 1\<rparr>)" by simp
  then have u: "unread demo demo_grp"
    unfolding demo_grp_def using unread_flags(1) by (rule unread_trans)
  note q = unreadD [OF u]
  show "sinv demo_grp" by (rule unread_sinv [OF demo_sinv u])
  show "OSFlagType (OSFlagTbl demo_grp 0) = OS_EVENT_TYPE_FLAG" "grp_flags demo_grp 0 = 1" "flag_list demo_grp 0 []"
    "OSTCBTbl demo_grp = OSTCBTbl demo"
    by (simp_all add: demo_grp_def flag_list_def)
  show "may_block demo_grp" "OSIntNesting demo_grp = 0" "OSLockNesting demo_grp = 0" "unat (OSPrioCur demo_grp) = 30"
    "ctl demo_grp = ctl demo"
    using q demo_ctl by (simp_all add: may_block_def ctl_def cur_def)
  show "cur_ix demo_grp = 3" using q(3) by (intro cur_ix) (simp add: cur_def demo_def)
  show "rdy demo_grp = {30, 63}" "owns demo_grp 3 30" using q demo_ready demo_owns by simp_all
qed

theorem OSFlagPost_wakes_witness:
  "\<exists>s1 s2. OSFlagPend (FGp 0) 3 OS_FLAG_WAIT_SET_ALL 5 demo_grp = Some (Waiting, s1) \<and> 30 \<notin> rdy s1
    \<and> OSFlagPost (FGp 0) 2 OS_FLAG_SET s1 = Some (Waiting, s2) \<and> 30 \<in> rdy s2 \<and> flag_list s2 0 []
    \<and> OSFlagPost_resume (FGp 0) s2 = Some ((3, OS_ERR_NONE), s2)"
proof -
  have m: "flag_match (OS_FLAG_WAIT_SET_ALL AND NOT OS_FLAG_CONSUME) (grp_flags demo_grp 0) 3 = Some (1, False)"
    by (simp add: flag_match_def demo_grp)
  obtain s1 where 1: "OSFlagPend (FGp 0) 3 OS_FLAG_WAIT_SET_ALL 5 demo_grp = Some (Waiting, s1)" "sinv s1" "ids s1 = ids demo_grp"
    "flag_asleep 0 [] 3 2 5 demo_grp s1"
    using OSFlagPend_ok [OF demo_grp(1) demo_grp(4) _ demo_grp(5) demo_grp(2) demo_grp(6,7) _ m, of 5]
    by (auto simp: ok_iff)
  have k1: "grp_data s1 0 = grp_data demo_grp 0" "flag_list s1 0 [3]" using 1(4) by (simp_all add: flag_asleep_def Let_def demo_grp)
  have d1: "OSFlagType (OSFlagTbl s1 0) = OS_EVENT_TYPE_FLAG" "grp_flags s1 0 = 1"
    using k1(1) by (simp_all add: grp_data_def demo_grp)
  have v: "flags_posted 2 OS_FLAG_SET 1 = 3" by (simp add: flags_posted_def)
  obtain s2 where 2: "OSFlagPost (FGp 0) 2 OS_FLAG_SET s1 = Some (Waiting, s2)" "posted 0 [3] 3 s1 s2"
    "OSFlagPost_resume (FGp 0) s2 = Some ((3, OS_ERR_NONE), s2)"
    using OSFlagPost_wakes [OF 1(2) _ d1(1) k1(2), of OS_FLAG_SET 2] d1(2) v by auto
  have n: "OSFlagNodeFlags (OSFlagNodes s1 3) = 3" "OSFlagNodeWaitType (OSFlagNodes s1 3) = 2"
    using 1(4) by (simp_all add: flag_asleep_def Let_def demo_grp)
  have sat: "flag_sat (with_flags 0 3 s1) 0 3"
    using n by (simp add: flag_sat_def flag_check_def with_flags_same flag_match_def)
  have own: "owns s1 3 30" using demo_grp(11) owns_cong [OF 1(3)] by simp
  have "OSTCBStat (OSTCBTbl demo 3) = 0" by (simp add: demo_def demo_tcb_def)
  then have of: "only_flag s1 3"
    using 1(4) by (simp add: flag_asleep_def Let_def demo_grp tcbs_def only_flag_def)
  have "30 \<notin> rdy s1" using 1(4) by (simp add: flag_asleep_def Let_def demo_grp)
  moreover have "30 \<in> rdy s2" "flag_list s2 0 []" using 2(2) sat own of by (auto simp: posted_def Let_def)
  ultimately show ?thesis using 1(1) 2(1,3) by blast
qed

text \<open>
  C28 (OSFlagAccept_sets): read as sets of flag numbers, a group satisfies a wait for all or any of a set of flags
  to be set or clear exactly when \<open>OSFlagAccept\<close> says so; the flags it returns are those of the set that
  are ready, also when these are not enough and the error is \<open>OS_ERR_FLAG_NOT_RDY\<close> (where the comment of the
  function promises 0, see \<open>flag_accept_partial\<close> in \<open>Os_Findings\<close>); consuming them changes just these, and nothing
  is consumed on an error.
\<close>

definition flag_set :: "16 word \<Rightarrow> nat set" where
  "flag_set w = {i. i < 16 \<and> bit w i}"

definition wait_met :: "8 word \<Rightarrow> nat set \<Rightarrow> nat set \<Rightarrow> bool" where
  "wait_met wt C F =
     (if wt = OS_FLAG_WAIT_SET_ALL then F \<subseteq> C else if wt = OS_FLAG_WAIT_SET_ANY then F \<inter> C \<noteq> {}
      else if wt = OS_FLAG_WAIT_CLR_ALL then F \<inter> C = {} else \<not> F \<subseteq> C)"

definition wait_flags :: "8 word \<Rightarrow> nat set \<Rightarrow> nat set \<Rightarrow> nat set" where
  "wait_flags wt C F = (if wt = OS_FLAG_WAIT_SET_ALL \<or> wt = OS_FLAG_WAIT_SET_ANY then F \<inter> C else F - C)"

lemma flag_set_ops [simp]:
  "flag_set (x AND y) = flag_set x \<inter> flag_set y" "flag_set (x OR y) = flag_set x \<union> flag_set y"
  "flag_set (NOT x) = {..<16} - flag_set x" "flag_set 0 = {}" "flag_set 1 = {0}"
  by (auto simp: flag_set_def bit_simps bit_1_iff)

lemma flag_set_less: "flag_set w \<subseteq> {..<16}"
  by (auto simp: flag_set_def)

lemma flag_set_eq: "x = y \<longleftrightarrow> flag_set x = flag_set y"
  by (auto simp: flag_set_def bit_eq_iff set_eq_iff)

lemma flag_match_sets:
  assumes "wt \<in> {0, 1, 2, 3}"
  shows "\<exists>r. flag_match wt v flags = Some (r, wait_met wt (flag_set v) (flag_set flags))
    \<and> flag_set r = wait_flags wt (flag_set v) (flag_set flags)
    \<and> flag_set (flag_consume wt r v) = (if wt = OS_FLAG_WAIT_SET_ALL \<or> wt = OS_FLAG_WAIT_SET_ANY
       then flag_set v - flag_set r else flag_set v \<union> flag_set r)"
  using assms flag_set_less [of v] flag_set_less [of flags]
  by (intro exI [of _ "if wt = OS_FLAG_WAIT_SET_ALL \<or> wt = OS_FLAG_WAIT_SET_ANY then v AND flags else NOT v AND flags"])
    (auto simp: flag_match_def flag_consume_def wait_met_def wait_flags_def flag_set_eq)

theorem OSFlagAccept_sets:
  assumes "g < OS_MAX_FLAGS" "OSFlagType (OSFlagTbl s g) = OS_EVENT_TYPE_FLAG" "wt \<in> {0, 1, 2, 3}"
  shows "\<exists>r err s'. OSFlagAccept (FGp g) flags (wt OR (if consume then OS_FLAG_CONSUME else 0)) s = Some ((r, err), s')
    \<and> (let C = flag_set (grp_flags s g); F = flag_set flags; C' = flag_set (grp_flags s' g); R = wait_flags wt C F in
        err = (if wait_met wt C F then OS_ERR_NONE else OS_ERR_FLAG_NOT_RDY) \<and> flag_set r = R
        \<and> (if wait_met wt C F \<and> consume
           then C' = (if wt = OS_FLAG_WAIT_SET_ALL \<or> wt = OS_FLAG_WAIT_SET_ANY then C - R else C \<union> R)
             \<and> s' = upd_grp g (\<lambda>c. c\<lparr>OSFlagFlags := grp_flags s' g\<rparr>) s
           else s' = s))"
proof -
  let ?w = "wt OR (if consume then OS_FLAG_CONSUME else 0)"
  have w: "?w AND OS_FLAG_CONSUME \<noteq> 0 \<longleftrightarrow> consume" "?w AND NOT OS_FLAG_CONSUME = wt"
    using assms(3) by auto
  have eq: "(if ?w AND OS_FLAG_CONSUME \<noteq> 0 then ?w AND NOT OS_FLAG_CONSUME else ?w) = wt"
    using w by (cases consume) simp_all
  have "OSFlagAccept (FGp g) flags ?w s = (case flag_match wt (grp_flags s g) flags of
      None \<Rightarrow> Some ((0, OS_ERR_FLAG_WAIT_TYPE), s)
    | Some (flags_rdy, sat) \<Rightarrow> if sat then Some ((flags_rdy, OS_ERR_NONE),
        if consume then upd_grp g (\<lambda>c. c\<lparr>OSFlagFlags := flag_consume wt flags_rdy (OSFlagFlags c)\<rparr>) s else s)
      else Some ((flags_rdy, OS_ERR_FLAG_NOT_RDY), s))"
    unfolding OSFlagAccept_def Let_def eq unfolding w(1) using assms(1,2) by simp
  moreover obtain r where "flag_match wt (grp_flags s g) flags = Some (r, wait_met wt (flag_set (grp_flags s g)) (flag_set flags))"
    "flag_set r = wait_flags wt (flag_set (grp_flags s g)) (flag_set flags)"
    "flag_set (flag_consume wt r (grp_flags s g)) = (if wt = OS_FLAG_WAIT_SET_ALL \<or> wt = OS_FLAG_WAIT_SET_ANY
       then flag_set (grp_flags s g) - flag_set r else flag_set (grp_flags s g) \<union> flag_set r)"
    using flag_match_sets [OF assms(3)] by metis
  ultimately show ?thesis
    by (cases consume; cases "wait_met wt (flag_set (grp_flags s g)) (flag_set flags)") (simp_all add: Let_def upd_grp_def)
qed

theorem OSFlagAccept_sets_witness:
  "\<exists>r s'. OSFlagAccept (FGp 0) 3 (OS_FLAG_WAIT_SET_ANY OR OS_FLAG_CONSUME) demo_grp = Some ((r, OS_ERR_NONE), s')
    \<and> flag_set r = {0} \<and> flag_set (grp_flags s' 0) = {}"
proof -
  have "flag_set 3 = set (filter (bit (3 :: 16 word)) [0..<16])" by (auto simp: flag_set_def)
  also have "\<dots> = {0, 1}" by code_simp
  finally show ?thesis
    using OSFlagAccept_sets [OF _ demo_grp(2), of 3 3 True] by (auto simp: demo_grp wait_met_def wait_flags_def)
qed

end
