(* ===== verification/Os_Task.thy ===== *)
theory Os_Task
  imports Os_Flag Os_Mem
begin

text \<open>
  Tasks (\<open>os_task.c\<close>, \<open>OS_TCBInit\<close> of \<open>os_core.c\<close> and \<open>OSTaskStkInit\<close> of the port): creation, deletion,
  suspension, change of priority, names, registers and stack checking.  The application's hooks
  (\<open>app_hooks.c\<close>) are empty.
\<close>

abbreviation (input) OS_TASK_REG_TBL_SIZE :: "8 word" where "OS_TASK_REG_TBL_SIZE \<equiv> 1"
abbreviation (input) OS_TASK_OPT_STK_CHK :: "16 word" where "OS_TASK_OPT_STK_CHK \<equiv> 1"
abbreviation (input) OS_TASK_OPT_STK_CLR :: "16 word" where "OS_TASK_OPT_STK_CLR \<equiv> 2"

text \<open>\<open>MSTATUS_MPP | MSTATUS_MPIE | MSTATUS_FS_INITIAL | MSTATUS_VS_INITIAL\<close>\<close>
abbreviation (input) portINITIAL_MSTATUS :: "64 word" where "portINITIAL_MSTATUS \<equiv> 0x3A80"

section \<open>Creating tasks\<close>

text \<open>
  The stack of a new task looks as if it had been interrupted before its first instruction.  The
  address of \<open>prvTaskExitError\<close>, where the function of a task returns to, is an argument.
\<close>

definition OSTaskStkInit :: "vptr \<Rightarrow> vptr \<Rightarrow> vptr \<Rightarrow> vptr \<Rightarrow> 16 word \<Rightarrow> kst \<Rightarrow> (vptr \<times> kst) option" where
  "OSTaskStkInit prvTaskExitError pfn pdata ptos opt s = (case ptos of
     Addr a \<Rightarrow> do {
       let top = a AND NOT 7;
       let top = top - 8;
       c \<leftarrow> cell_at (Addr top);
       let s = s\<lparr>ptr_mem := (ptr_mem s)(c := Addr portINITIAL_MSTATUS)\<rparr>;
       let top = top - 22 * 8;
       c \<leftarrow> cell_at (Addr top);
       let s = s\<lparr>ptr_mem := (ptr_mem s)(c := pdata)\<rparr>;
       let top = top - 6 * 8;
       c \<leftarrow> cell_at (Addr top);
       let s = s\<lparr>ptr_mem := (ptr_mem s)(c := prvTaskExitError)\<rparr>;
       let top = top - 8;
       c \<leftarrow> cell_at (Addr top);
       let s = s\<lparr>ptr_mem := (ptr_mem s)(c := pfn)\<rparr>;
       Some (Addr top, s)
     }
   | _ \<Rightarrow> None)"

definition OS_TCBInit ::
    "8 word \<Rightarrow> vptr \<Rightarrow> vptr \<Rightarrow> 16 word \<Rightarrow> 32 word \<Rightarrow> vptr \<Rightarrow> 16 word \<Rightarrow> kst \<Rightarrow> (os_err \<times> kst) option" where
  "OS_TCBInit prio ptos pbos idn stk_size pext opt s = (
     let ptcb = OSTCBFreeList s in
     if ptcb \<noteq> NULL then do {
       t \<leftarrow> tcb_at ptcb;
       let s = s\<lparr>OSTCBFreeList := OSTCBNext (OSTCBTbl s t)\<rparr>;
       let y = prio_y prio;
       let x = prio_x prio;
       let s = upd_tcb t (\<lambda>c. c\<lparr>OSTCBStkPtr := ptos, OSTCBPrio := prio, OSTCBStat := OS_STAT_RDY,
         OSTCBStatPend := OS_STAT_PEND_OK, OSTCBDly := 0, OSTCBExtPtr := pext, OSTCBStkSize := stk_size,
         OSTCBStkBottom := pbos, OSTCBOpt := opt, OSTCBId := idn, OSTCBDelReq := OS_ERR_NONE,
         OSTCBY := y, OSTCBX := x, OSTCBBitY := bit_mask y, OSTCBBitX := bit_mask x,
         OSTCBEventPtr := NULL, OSTCBEventMultiPtr := None, OSTCBEventMultiRdy := NULL,
         OSTCBFlagNode := NULL, OSTCBMsg := NULL, OSTCBCtxSwCtr := 0, OSTCBCyclesStart := 0,
         OSTCBCyclesTot := 0, OSTCBStkBase := NULL, OSTCBStkUsed := 0, OSTCBTaskName := unnamed,
         OSTCBRegTbl := (OSTCBRegTbl c)(0 := 0)\<rparr>) s;
       s \<leftarrow> set_prio_tbl prio ptcb s;
       let s = upd_tcb t (\<lambda>c. c\<lparr>OSTCBNext := OSTCBList s, OSTCBPrev := NULL\<rparr>) s;
       s \<leftarrow> (if OSTCBList s \<noteq> NULL then do {
               u \<leftarrow> tcb_at (OSTCBList s);
               Some (upd_tcb u (\<lambda>c. c\<lparr>OSTCBPrev := ptcb\<rparr>) s)
             } else Some s);
       let s = s\<lparr>OSTCBList := ptcb\<rparr>;
       let c = OSTCBTbl s t;
       s \<leftarrow> rdy_add (OSTCBY c) (OSTCBBitY c) (OSTCBBitX c) s;
       Some (OS_ERR_NONE, s\<lparr>OSTaskCtr := OSTaskCtr s + 1\<rparr>)
     } else Some (OS_ERR_TASK_NO_MORE_TCB, s))"

definition OSTaskCreate ::
    "vptr \<Rightarrow> vptr \<Rightarrow> vptr \<Rightarrow> vptr \<Rightarrow> 8 word \<Rightarrow> kst \<Rightarrow> (os_err \<times> kst) option" where
  "OSTaskCreate prvTaskExitError pfn p_arg ptos prio s =
     (if prio > OS_LOWEST_PRIO then Some (OS_ERR_PRIO_INVALID, s)
      else if OSIntNesting s > 0 then Some (OS_ERR_TASK_CREATE_ISR, s)
      else do {
        p \<leftarrow> prio_tbl s prio;
        if p = NULL then do {
          s \<leftarrow> set_prio_tbl prio OS_TCB_RESERVED s;
          (psp, s) \<leftarrow> OSTaskStkInit prvTaskExitError pfn p_arg ptos 0 s;
          (err, s) \<leftarrow> OS_TCBInit prio psp NULL 0 0 NULL 0 s;
          if err = OS_ERR_NONE then do {
            s \<leftarrow> (if OSRunning s then OS_Sched s else Some s);
            Some (err, s)
          } else do {
            s \<leftarrow> set_prio_tbl prio NULL s;
            Some (err, s)
          }
        } else Some (OS_ERR_PRIO_EXIST, s)
      })"

text \<open>The loop of \<open>OS_TaskStkClr\<close>: \<open>n\<close> words from address \<open>a\<close> on.\<close>

primrec stk_clr :: "nat \<Rightarrow> 64 word \<Rightarrow> (64 word \<Rightarrow> vptr) \<Rightarrow> (64 word \<Rightarrow> vptr) option" where
  "stk_clr 0 a m = Some m"
| "stk_clr (Suc n) a m = do {
     c \<leftarrow> cell_at (Addr a);
     stk_clr n (a + 8) (m(c := NULL))
   }"

definition OS_TaskStkClr :: "vptr \<Rightarrow> 32 word \<Rightarrow> 16 word \<Rightarrow> kst \<Rightarrow> kst option" where
  "OS_TaskStkClr pbos sz opt s =
     (if opt AND OS_TASK_OPT_STK_CHK \<noteq> 0 then
        if opt AND OS_TASK_OPT_STK_CLR \<noteq> 0 then
          (if sz = 0 then Some s
           else case pbos of
             Addr a \<Rightarrow> map_option (\<lambda>m. s\<lparr>ptr_mem := m\<rparr>) (stk_clr (unat sz) a (ptr_mem s))
           | _ \<Rightarrow> None)
        else Some s
      else Some s)"

definition OSTaskCreateExt ::
    "vptr \<Rightarrow> vptr \<Rightarrow> vptr \<Rightarrow> vptr \<Rightarrow> 8 word \<Rightarrow> 16 word \<Rightarrow> vptr \<Rightarrow> 32 word \<Rightarrow> vptr \<Rightarrow> 16 word \<Rightarrow> kst
      \<Rightarrow> (os_err \<times> kst) option" where
  "OSTaskCreateExt prvTaskExitError pfn p_arg ptos prio idn pbos stk_size pext opt s =
     (if prio > OS_LOWEST_PRIO then Some (OS_ERR_PRIO_INVALID, s)
      else if OSIntNesting s > 0 then Some (OS_ERR_TASK_CREATE_ISR, s)
      else do {
        p \<leftarrow> prio_tbl s prio;
        if p = NULL then do {
          s \<leftarrow> set_prio_tbl prio OS_TCB_RESERVED s;
          s \<leftarrow> OS_TaskStkClr pbos stk_size opt s;
          (psp, s) \<leftarrow> OSTaskStkInit prvTaskExitError pfn p_arg ptos opt s;
          (err, s) \<leftarrow> OS_TCBInit prio psp pbos idn stk_size pext opt s;
          if err = OS_ERR_NONE then do {
            s \<leftarrow> (if OSRunning s then OS_Sched s else Some s);
            Some (err, s)
          } else do {
            s \<leftarrow> set_prio_tbl prio NULL s;
            Some (err, s)
          }
        } else Some (OS_ERR_PRIO_EXIST, s)
      })"

section \<open>Deleting tasks\<close>

text \<open>\<open>if (prio == OS_PRIO_SELF) { prio = OSTCBCur->OSTCBPrio; }\<close>\<close>

definition self_prio :: "8 word \<Rightarrow> kst \<Rightarrow> 8 word option" where
  "self_prio prio s = (if prio = OS_PRIO_SELF then do {
       t \<leftarrow> tcb_at (OSTCBCur s);
       Some (OSTCBPrio (OSTCBTbl s t))
     } else Some prio)"

text \<open>The task leaves the ready list and everything it waits for (lines 497 to 519).\<close>

definition task_out :: "nat \<Rightarrow> kst \<Rightarrow> kst option" where
  "task_out t s = do {
     let c = OSTCBTbl s t;
     s \<leftarrow> rdy_del (OSTCBY c) (OSTCBBitY c) (OSTCBBitX c) s;
     s \<leftarrow> (if OSTCBEventPtr c \<noteq> NULL then OS_EventTaskRemove (TCBp t) (OSTCBEventPtr c) s else Some s);
     s \<leftarrow> (case OSTCBEventMultiPtr c of
             None \<Rightarrow> Some s
           | Some es \<Rightarrow> OS_EventTaskRemoveMulti (TCBp t) es s);
     if OSTCBFlagNode c \<noteq> NULL then OS_FlagUnlink (OSTCBFlagNode c) s else Some s
   }"

text \<open>The task leaves the task list and its control block goes to the free list (lines 543 to 551).\<close>

definition tcb_unlink :: "nat \<Rightarrow> kst \<Rightarrow> kst option" where
  "tcb_unlink t s = do {
     let nx = OSTCBNext (OSTCBTbl s t);
     let pv = OSTCBPrev (OSTCBTbl s t);
     s \<leftarrow> (if pv = NULL then do {
             n \<leftarrow> tcb_at nx;
             let s = upd_tcb n (\<lambda>c. c\<lparr>OSTCBPrev := NULL\<rparr>) s;
             Some (s\<lparr>OSTCBList := nx\<rparr>)
           } else do {
             l \<leftarrow> tcb_at pv;
             let s = upd_tcb l (\<lambda>c. c\<lparr>OSTCBNext := nx\<rparr>) s;
             n \<leftarrow> tcb_at nx;
             Some (upd_tcb n (\<lambda>c. c\<lparr>OSTCBPrev := pv\<rparr>) s)
           });
     let s = upd_tcb t (\<lambda>c. c\<lparr>OSTCBNext := OSTCBFreeList s\<rparr>) s;
     Some (s\<lparr>OSTCBFreeList := TCBp t\<rparr>)
   }"

text \<open>From line 521 to line 554; the scheduler is locked and unlocked around a window for interrupts.\<close>

definition task_retire :: "8 word \<Rightarrow> nat \<Rightarrow> kst \<Rightarrow> kst option" where
  "task_retire prio t s = do {
     let s = upd_tcb t (\<lambda>c. c\<lparr>OSTCBDly := 0, OSTCBStat := OS_STAT_RDY, OSTCBStatPend := OS_STAT_PEND_OK\<rparr>) s;
     let s = (if OSLockNesting s < 255 then s\<lparr>OSLockNesting := OSLockNesting s + 1\<rparr> else s);
     let s = (if OSLockNesting s > 0 then s\<lparr>OSLockNesting := OSLockNesting s - 1\<rparr> else s);
     let s = s\<lparr>OSTaskCtr := OSTaskCtr s - 1\<rparr>;
     s \<leftarrow> set_prio_tbl prio NULL s;
     s \<leftarrow> tcb_unlink t s;
     Some (upd_tcb t (\<lambda>c. c\<lparr>OSTCBTaskName := unnamed\<rparr>) s)
   }"

definition OSTaskDel :: "8 word \<Rightarrow> kst \<Rightarrow> (os_err \<times> kst) option" where
  "OSTaskDel prio s =
     (if OSIntNesting s > 0 then Some (OS_ERR_TASK_DEL_ISR, s)
      else if prio = OS_TASK_IDLE_PRIO then Some (OS_ERR_TASK_DEL_IDLE, s)
      else if prio \<ge> OS_LOWEST_PRIO \<and> prio \<noteq> OS_PRIO_SELF then Some (OS_ERR_PRIO_INVALID, s)
      else do {
        prio \<leftarrow> self_prio prio s;
        ptcb \<leftarrow> prio_tbl s prio;
        if ptcb = NULL then Some (OS_ERR_TASK_NOT_EXIST, s)
        else if ptcb = OS_TCB_RESERVED then Some (OS_ERR_TASK_DEL, s)
        else do {
          t \<leftarrow> tcb_at ptcb;
          s \<leftarrow> task_out t s;
          s \<leftarrow> task_retire prio t s;
          s \<leftarrow> (if OSRunning s then OS_Sched s else Some s);
          Some (OS_ERR_NONE, s)
        }
      })"

definition OSTaskDelReq :: "8 word \<Rightarrow> kst \<Rightarrow> (os_err \<times> kst) option" where
  "OSTaskDelReq prio s =
     (if prio = OS_TASK_IDLE_PRIO then Some (OS_ERR_TASK_DEL_IDLE, s)
      else if prio \<ge> OS_LOWEST_PRIO \<and> prio \<noteq> OS_PRIO_SELF then Some (OS_ERR_PRIO_INVALID, s)
      else if prio = OS_PRIO_SELF then do {
        t \<leftarrow> tcb_at (OSTCBCur s);
        Some (OSTCBDelReq (OSTCBTbl s t), s)
      } else do {
        ptcb \<leftarrow> prio_tbl s prio;
        if ptcb = NULL then Some (OS_ERR_TASK_NOT_EXIST, s)
        else if ptcb = OS_TCB_RESERVED then Some (OS_ERR_TASK_DEL, s)
        else do {
          t \<leftarrow> tcb_at ptcb;
          Some (OS_ERR_NONE, upd_tcb t (\<lambda>c. c\<lparr>OSTCBDelReq := OS_ERR_TASK_DEL_REQ\<rparr>) s)
        }
      })"

definition OS_TaskReturn :: "kst \<Rightarrow> kst option" where
  "OS_TaskReturn s = map_option snd (OSTaskDel OS_PRIO_SELF s)"

section \<open>Changing the priority of a task\<close>

text \<open>The task's bit moves in the wait lists of the events it waits for (the loop of lines 148 to 157).\<close>

fun ev_move_all :: "vptr list \<Rightarrow> 8 word \<Rightarrow> 8 word \<Rightarrow> 8 word \<Rightarrow> 8 word \<Rightarrow> 8 word \<Rightarrow> 8 word \<Rightarrow> kst \<Rightarrow> kst option" where
  "ev_move_all [] y bity bitx y' bity' bitx' s = Some s"
| "ev_move_all (pevent # pevents) y bity bitx y' bity' bitx' s = do {
     e \<leftarrow> ev_at pevent;
     s \<leftarrow> ev_del e y bity bitx s;
     s \<leftarrow> ev_add e y' bity' bitx' s;
     ev_move_all pevents y bity bitx y' bity' bitx' s
   }"

definition OSTaskChangePrio :: "8 word \<Rightarrow> 8 word \<Rightarrow> kst \<Rightarrow> (os_err \<times> kst) option" where
  "OSTaskChangePrio oldprio newprio s =
     (if oldprio \<ge> OS_LOWEST_PRIO \<and> oldprio \<noteq> OS_PRIO_SELF then Some (OS_ERR_PRIO_INVALID, s)
      else if newprio \<ge> OS_LOWEST_PRIO then Some (OS_ERR_PRIO_INVALID, s)
      else do {
        pnew \<leftarrow> prio_tbl s newprio;
        if pnew \<noteq> NULL then Some (OS_ERR_PRIO_EXIST, s)
        else do {
          oldprio \<leftarrow> self_prio oldprio s;
          ptcb \<leftarrow> prio_tbl s oldprio;
          if ptcb = NULL then Some (OS_ERR_PRIO, s)
          else if ptcb = OS_TCB_RESERVED then Some (OS_ERR_TASK_NOT_EXIST, s)
          else do {
            let y_new = prio_y newprio;
            let x_new = prio_x newprio;
            let bity_new = bit_mask y_new;
            let bitx_new = bit_mask x_new;
            s \<leftarrow> set_prio_tbl oldprio NULL s;
            s \<leftarrow> set_prio_tbl newprio ptcb s;
            t \<leftarrow> tcb_at ptcb;
            let y_old = OSTCBY (OSTCBTbl s t);
            let bity_old = OSTCBBitY (OSTCBTbl s t);
            let bitx_old = OSTCBBitX (OSTCBTbl s t);
            s \<leftarrow> (if unat y_old < OS_RDY_TBL_SIZE then
                    if OSRdyTbl s (unat y_old) AND bitx_old \<noteq> 0 then do {
                      s \<leftarrow> rdy_del y_old bity_old bitx_old s;
                      rdy_add y_new bity_new bitx_new s
                    } else Some s
                  else None);
            s \<leftarrow> (if OSTCBEventPtr (OSTCBTbl s t) \<noteq> NULL then
                    ev_move_all [OSTCBEventPtr (OSTCBTbl s t)] y_old bity_old bitx_old y_new bity_new bitx_new s
                  else Some s);
            s \<leftarrow> (case OSTCBEventMultiPtr (OSTCBTbl s t) of
                    None \<Rightarrow> Some s
                  | Some es \<Rightarrow> ev_move_all es y_old bity_old bitx_old y_new bity_new bitx_new s);
            let s = upd_tcb t (\<lambda>c. c\<lparr>OSTCBPrio := newprio, OSTCBY := y_new, OSTCBX := x_new,
                                     OSTCBBitY := bity_new, OSTCBBitX := bitx_new\<rparr>) s;
            s \<leftarrow> (if OSRunning s then OS_Sched s else Some s);
            Some (OS_ERR_NONE, s)
          }
        }
      })"

section \<open>Suspending and resuming\<close>

definition OSTaskSuspend :: "8 word \<Rightarrow> kst \<Rightarrow> (os_err \<times> kst) option" where
  "OSTaskSuspend prio s =
     (if prio = OS_TASK_IDLE_PRIO then Some (OS_ERR_TASK_SUSPEND_IDLE, s)
      else if prio \<ge> OS_LOWEST_PRIO \<and> prio \<noteq> OS_PRIO_SELF then Some (OS_ERR_PRIO_INVALID, s)
      else do {
        u \<leftarrow> tcb_at (OSTCBCur s);
        let self = (prio = OS_PRIO_SELF \<or> prio = OSTCBPrio (OSTCBTbl s u));
        prio \<leftarrow> self_prio prio s;
        ptcb \<leftarrow> prio_tbl s prio;
        if ptcb = NULL then Some (OS_ERR_TASK_SUSPEND_PRIO, s)
        else if ptcb = OS_TCB_RESERVED then Some (OS_ERR_TASK_NOT_EXIST, s)
        else do {
          t \<leftarrow> tcb_at ptcb;
          let c = OSTCBTbl s t;
          s \<leftarrow> rdy_del (OSTCBY c) (OSTCBBitY c) (OSTCBBitX c) s;
          let s = upd_tcb t (\<lambda>c. c\<lparr>OSTCBStat := OSTCBStat c OR OS_STAT_SUSPEND\<rparr>) s;
          s \<leftarrow> (if self then OS_Sched s else Some s);
          Some (OS_ERR_NONE, s)
        }
      })"

definition OSTaskResume :: "8 word \<Rightarrow> kst \<Rightarrow> (os_err \<times> kst) option" where
  "OSTaskResume prio s =
     (if prio \<ge> OS_LOWEST_PRIO then Some (OS_ERR_PRIO_INVALID, s)
      else do {
        ptcb \<leftarrow> prio_tbl s prio;
        if ptcb = NULL then Some (OS_ERR_TASK_RESUME_PRIO, s)
        else if ptcb = OS_TCB_RESERVED then Some (OS_ERR_TASK_NOT_EXIST, s)
        else do {
          t \<leftarrow> tcb_at ptcb;
          if OSTCBStat (OSTCBTbl s t) AND OS_STAT_SUSPEND \<noteq> OS_STAT_RDY then do {
            let s = upd_tcb t (\<lambda>c. c\<lparr>OSTCBStat := OSTCBStat c AND NOT OS_STAT_SUSPEND\<rparr>) s;
            let c = OSTCBTbl s t;
            s \<leftarrow> (if OSTCBStat c AND OS_STAT_PEND_ANY = OS_STAT_RDY then
                    if OSTCBDly c = 0 then do {
                      s \<leftarrow> rdy_add (OSTCBY c) (OSTCBBitY c) (OSTCBBitX c) s;
                      if OSRunning s then OS_Sched s else Some s
                    } else Some s
                  else Some s);
            Some (OS_ERR_NONE, s)
          } else Some (OS_ERR_TASK_NOT_SUSPENDED, s)
        }
      })"

section \<open>Names, status and registers\<close>

definition OSTaskNameGet :: "8 word \<Rightarrow> vptr \<Rightarrow> kst \<Rightarrow> (8 word \<times> cname option \<times> os_err) option" where
  "OSTaskNameGet prio pname s =
     (if prio > OS_LOWEST_PRIO \<and> prio \<noteq> OS_PRIO_SELF then Some (0, None, OS_ERR_PRIO_INVALID)
      else if pname = NULL then Some (0, None, OS_ERR_PNAME_NULL)
      else if OSIntNesting s > 0 then Some (0, None, OS_ERR_NAME_GET_ISR)
      else do {
        prio \<leftarrow> self_prio prio s;
        ptcb \<leftarrow> prio_tbl s prio;
        if ptcb = NULL then Some (0, None, OS_ERR_TASK_NOT_EXIST)
        else if ptcb = OS_TCB_RESERVED then Some (0, None, OS_ERR_TASK_NOT_EXIST)
        else do {
          t \<leftarrow> tcb_at ptcb;
          let name = OSTCBTaskName (OSTCBTbl s t);
          len \<leftarrow> OS_StrLen name;
          Some (len, Some name, OS_ERR_NONE)
        }
      })"

definition OSTaskNameSet :: "8 word \<Rightarrow> cname \<Rightarrow> kst \<Rightarrow> (os_err \<times> kst) option" where
  "OSTaskNameSet prio pname s =
     (if prio > OS_LOWEST_PRIO \<and> prio \<noteq> OS_PRIO_SELF then Some (OS_ERR_PRIO_INVALID, s)
      else if pname = None then Some (OS_ERR_PNAME_NULL, s)
      else if OSIntNesting s > 0 then Some (OS_ERR_NAME_SET_ISR, s)
      else do {
        prio \<leftarrow> self_prio prio s;
        ptcb \<leftarrow> prio_tbl s prio;
        if ptcb = NULL then Some (OS_ERR_TASK_NOT_EXIST, s)
        else if ptcb = OS_TCB_RESERVED then Some (OS_ERR_TASK_NOT_EXIST, s)
        else do {
          t \<leftarrow> tcb_at ptcb;
          Some (OS_ERR_NONE, upd_tcb t (\<lambda>c. c\<lparr>OSTCBTaskName := pname\<rparr>) s)
        }
      })"

definition OSTaskQuery :: "8 word \<Rightarrow> vptr \<Rightarrow> kst \<Rightarrow> (os_err \<times> os_tcb option) option" where
  "OSTaskQuery prio p_task_data s =
     (if prio > OS_LOWEST_PRIO \<and> prio \<noteq> OS_PRIO_SELF then Some (OS_ERR_PRIO_INVALID, None)
      else if p_task_data = NULL then Some (OS_ERR_PDATA_NULL, None)
      else do {
        prio \<leftarrow> self_prio prio s;
        ptcb \<leftarrow> prio_tbl s prio;
        if ptcb = NULL then Some (OS_ERR_PRIO, None)
        else if ptcb = OS_TCB_RESERVED then Some (OS_ERR_TASK_NOT_EXIST, None)
        else do {
          t \<leftarrow> tcb_at ptcb;
          Some (OS_ERR_NONE, Some (OSTCBTbl s t))
        }
      })"

definition OSTaskRegGet :: "8 word \<Rightarrow> 8 word \<Rightarrow> kst \<Rightarrow> (32 word \<times> os_err) option" where
  "OSTaskRegGet prio idn s =
     (if prio \<ge> OS_LOWEST_PRIO \<and> prio \<noteq> OS_PRIO_SELF then Some (0, OS_ERR_PRIO_INVALID)
      else if idn \<ge> OS_TASK_REG_TBL_SIZE then Some (0, OS_ERR_ID_INVALID)
      else do {
        ptcb \<leftarrow> (if prio = OS_PRIO_SELF then Some (OSTCBCur s) else prio_tbl s prio);
        t \<leftarrow> tcb_at ptcb;
        Some (OSTCBRegTbl (OSTCBTbl s t) (unat idn), OS_ERR_NONE)
      })"

definition OSTaskRegGetID :: "kst \<Rightarrow> (8 word \<times> os_err) \<times> kst" where
  "OSTaskRegGetID s =
     (if OSTaskRegNextAvailID s \<ge> OS_TASK_REG_TBL_SIZE then ((OS_TASK_REG_TBL_SIZE, OS_ERR_NO_MORE_ID_AVAIL), s)
      else ((OSTaskRegNextAvailID s, OS_ERR_NONE), s\<lparr>OSTaskRegNextAvailID := OSTaskRegNextAvailID s + 1\<rparr>))"

definition OSTaskRegSet :: "8 word \<Rightarrow> 8 word \<Rightarrow> 32 word \<Rightarrow> kst \<Rightarrow> (os_err \<times> kst) option" where
  "OSTaskRegSet prio idn v s =
     (if prio \<ge> OS_LOWEST_PRIO \<and> prio \<noteq> OS_PRIO_SELF then Some (OS_ERR_PRIO_INVALID, s)
      else if idn \<ge> OS_TASK_REG_TBL_SIZE then Some (OS_ERR_ID_INVALID, s)
      else do {
        ptcb \<leftarrow> (if prio = OS_PRIO_SELF then Some (OSTCBCur s) else prio_tbl s prio);
        t \<leftarrow> tcb_at ptcb;
        Some (OS_ERR_NONE, upd_tcb t (\<lambda>c. c\<lparr>OSTCBRegTbl := (OSTCBRegTbl c)(unat idn := v)\<rparr>) s)
      })"

section \<open>Stack checking\<close>

record os_stk_data =
  OSFree :: "32 word"
  OSUsed :: "32 word"

text \<open>The loop that counts the words that are still zero; it ends at the first word that is not.\<close>

partial_function (option) stk_free :: "64 word \<Rightarrow> 32 word \<Rightarrow> kst \<Rightarrow> 32 word option" where
  "stk_free pchk nfree s = do {
     a \<leftarrow> cell_at (Addr pchk);
     if ptr_mem s a = NULL then stk_free (pchk + 8) (nfree + 1) s else Some nfree
   }"

declare stk_free.simps [code]

definition OSTaskStkChk :: "8 word \<Rightarrow> vptr \<Rightarrow> kst \<Rightarrow> (os_err \<times> os_stk_data option) option" where
  "OSTaskStkChk prio p_stk_data s =
     (if prio > OS_LOWEST_PRIO \<and> prio \<noteq> OS_PRIO_SELF then Some (OS_ERR_PRIO_INVALID, None)
      else if p_stk_data = NULL then Some (OS_ERR_PDATA_NULL, None)
      else do {
        let data = \<lparr>OSFree = 0, OSUsed = 0\<rparr>;
        prio \<leftarrow> self_prio prio s;
        ptcb \<leftarrow> prio_tbl s prio;
        if ptcb = NULL then Some (OS_ERR_TASK_NOT_EXIST, Some data)
        else if ptcb = OS_TCB_RESERVED then Some (OS_ERR_TASK_NOT_EXIST, Some data)
        else do {
          t \<leftarrow> tcb_at ptcb;
          let c = OSTCBTbl s t;
          if OSTCBOpt c AND OS_TASK_OPT_STK_CHK = 0 then Some (OS_ERR_TASK_OPT, Some data)
          else case OSTCBStkBottom c of
            Addr a \<Rightarrow> do {
              nfree \<leftarrow> stk_free a 0 s;
              Some (OS_ERR_NONE, Some \<lparr>OSFree = nfree, OSUsed = OSTCBStkSize c - nfree\<rparr>)
            }
          | _ \<Rightarrow> None
        }
      })"

text \<open>What the statistics task does with the result for each task (\<open>os_core.c\<close>).\<close>

definition stk_chk_prio :: "8 word \<Rightarrow> kst \<Rightarrow> kst option" where
  "stk_chk_prio prio s = do {
     (err, stk_data) \<leftarrow> OSTaskStkChk prio (Addr 1) s;
     if err = OS_ERR_NONE then do {
       ptcb \<leftarrow> prio_tbl s prio;
       if ptcb \<noteq> NULL \<and> ptcb \<noteq> OS_TCB_RESERVED then do {
         t \<leftarrow> tcb_at ptcb;
         d \<leftarrow> stk_data;
         case OSTCBStkBottom (OSTCBTbl s t) of
           Addr b \<Rightarrow> Some (upd_tcb t (\<lambda>c. c\<lparr>OSTCBStkBase := Addr (b + 8 * ucast (OSTCBStkSize c)),
                                            OSTCBStkUsed := OSUsed d\<rparr>) s)
         | _ \<Rightarrow> None
       } else Some s
     } else Some s
   }"

fun stk_chk_all :: "8 word list \<Rightarrow> kst \<Rightarrow> kst option" where
  "stk_chk_all [] s = Some s"
| "stk_chk_all (prio # prios) s = do {
     s \<leftarrow> stk_chk_prio prio s;
     stk_chk_all prios s
   }"

definition OS_TaskStatStkChk :: "kst \<Rightarrow> kst option" where
  "OS_TaskStatStkChk = stk_chk_all (map of_nat [0..<64])"

end
