(* ===== verification/Os_Stack.thy ===== *)
theory Os_Stack
  imports Os_Task
begin

text \<open>
  Task stacks: the frame that \<open>OSTaskStkInit\<close> writes, clearing a stack and counting the words that are
  still zero.  A stack of \<open>n\<close> words from address \<open>b\<close> on is a region of blocks of 8 bytes.
\<close>

abbreviation (input) stk_word :: "64 word \<Rightarrow> nat \<Rightarrow> 64 word" where
  "stk_word b k \<equiv> block_at b 8 k"

section \<open>The first frame\<close>

lemma unat_lt_64: "unat (a :: 64 word) < 2 ^ 64"
  using unsigned_less [of a] by simp

lemma align_8:
  fixes a :: "64 word"
  shows "unat (a AND NOT 7) = 8 * (unat a div 8)"
proof -
  have "a AND NOT (mask 3) = push_bit 3 (drop_bit 3 a)"
    by (auto simp: bit_eq_iff bit_simps)
  then have "a AND NOT 7 = push_bit 3 (drop_bit 3 a)" by (simp add: mask_eq_exp_minus_1)
  then have "unat (a AND NOT 7) = take_bit 64 (push_bit 3 (drop_bit 3 (unat a)))"
    using unat_lt_64 [of a] by (simp add: unsigned_push_bit_eq unsigned_drop_bit_eq take_bit_nat_eq_self)
  also have "\<dots> = (8 * (unat a div 8)) mod 2 ^ 64"
    by (simp add: push_bit_eq_mult drop_bit_eq_div take_bit_eq_mod mult.commute)
  also have "\<dots> = 8 * (unat a div 8)"
    using unat_lt_64 [of a] by (intro mod_less) simp
  finally show ?thesis .
qed

lemma cell_below:
  fixes a :: "64 word"
  assumes "8 dvd unat a" "8 dvd d" "d < unat a"
  shows "cell_at (Addr (a - of_nat d)) = Some (a - of_nat d)"
proof -
  have d: "unat (of_nat d :: 64 word) = d" using assms(3) unat_lt_64 [of a] by (simp add: unat_of_nat)
  then have le: "(of_nat d :: 64 word) \<le> a" using assms(3) by (simp add: word_le_nat_alt)
  have u: "unat (a - of_nat d) = unat a - d" using unat_sub [OF le] d by simp
  then have "a - of_nat d \<noteq> 0" using assms(3) by (metis diff_is_0_eq not_le unat_0)
  moreover have "8 dvd unat (a - of_nat d)" using u assms by (simp add: dvd_diff_nat)
  ultimately show ?thesis by (simp add: cell_at_def and_7)
qed

definition frame_mem :: "vptr \<Rightarrow> vptr \<Rightarrow> vptr \<Rightarrow> 64 word \<Rightarrow> (64 word \<Rightarrow> vptr) \<Rightarrow> 64 word \<Rightarrow> vptr" where
  "frame_mem ret pfn arg a m = m(a - 8 := Addr portINITIAL_MSTATUS, a - 184 := arg, a - 232 := ret, a - 240 := pfn)"

lemma OSTaskStkInit_ok:
  assumes "256 \<le> unat a"
  shows "OSTaskStkInit ret pfn arg (Addr a) opt s
    = Some (Addr ((a AND NOT 7) - 240), s\<lparr>ptr_mem := frame_mem ret pfn arg (a AND NOT 7) (ptr_mem s)\<rparr>)"
proof -
  define A where "A = a AND NOT 7"
  have "unat a div 8 \<ge> 32" using div_le_mono [OF assms, of 8] by simp
  moreover have "unat A = 8 * (unat a div 8)" unfolding A_def by (rule align_8)
  ultimately have "8 dvd unat A" "256 \<le> unat A" by simp_all
  then have "cell_at (Addr (A - of_nat d)) = Some (A - of_nat d)" if "8 dvd d" "d \<le> 240" for d
    using that by (intro cell_below) simp_all
  from this [of 8] this [of 184] this [of 232] this [of 240] show ?thesis
    using A_def by (simp add: OSTaskStkInit_def Let_def frame_mem_def diff_diff_eq)
qed

section \<open>Clearing and checking\<close>

lemma stk_word_step: "stk_word b (Suc k) = stk_word (b + 8) k"
  by (simp add: block_at_def)

lemma stk_clr_ok:
  assumes "\<And>k. k < n \<Longrightarrow> cell_at (Addr (stk_word b k)) = Some (stk_word b k)"
  shows "stk_clr n b m = Some (\<lambda>x. if x \<in> stk_word b ` {..<n} then NULL else m x)"
  using assms
proof (induction n arbitrary: b m)
  case 0
  then show ?case by simp
next
  case (Suc n)
  have 0: "stk_word b 0 = b" by (simp add: block_at_def)
  have "cell_at (Addr b) = Some b" using Suc.prems [of 0] by (simp add: 0)
  moreover have "cell_at (Addr (stk_word (b + 8) k)) = Some (stk_word (b + 8) k)" if "k < n" for k
    using Suc.prems [of "Suc k"] that by (simp add: stk_word_step)
  moreover have "stk_word b ` {..<Suc n} = insert b (stk_word (b + 8) ` {..<n})"
    by (simp add: lessThan_Suc_eq_insert_0 image_image stk_word_step 0)
  ultimately show ?case by (auto simp: Suc.IH fun_eq_iff)
qed

lemma stk_free_ok:
  assumes "\<And>k. k \<le> n \<Longrightarrow> cell_at (Addr (stk_word b k)) = Some (stk_word b k)"
    and "\<And>k. k < n \<Longrightarrow> ptr_mem s (stk_word b k) = NULL" "ptr_mem s (stk_word b n) \<noteq> NULL"
  shows "stk_free b i s = Some (i + of_nat n)"
  using assms
proof (induction n arbitrary: b i)
  case 0
  have "stk_word b 0 = b" by (simp add: block_at_def)
  then show ?case using 0 by (subst stk_free.simps) auto
next
  case (Suc n)
  have 0: "stk_word b 0 = b" by (simp add: block_at_def)
  have "stk_free (b + 8) (i + 1) s = Some ((i + 1) + of_nat n)"
    using Suc.prems by (intro Suc.IH) (simp_all add: stk_word_step [symmetric])
  then show ?case
    using Suc.prems(1) [of 0] Suc.prems(2) [of 0] 0 by (subst stk_free.simps) (simp add: algebra_simps)
qed

text \<open>The stack argument of a call: memory of the caller, with room for the first frame.\<close>

definition stack_arg :: "vptr \<Rightarrow> vptr \<Rightarrow> 32 word \<Rightarrow> 16 word \<Rightarrow> bool" where
  "stack_arg ptos pbos sz opt \<longleftrightarrow> (\<exists>a. ptos = Addr a \<and> 256 \<le> unat a)
     \<and> (opt AND OS_TASK_OPT_STK_CHK \<noteq> 0 \<and> opt AND OS_TASK_OPT_STK_CLR \<noteq> 0 \<and> sz \<noteq> 0
        \<longrightarrow> (\<exists>b. pbos = Addr b \<and> region_ok b sz 8))"

definition clr_mem :: "vptr \<Rightarrow> 32 word \<Rightarrow> 16 word \<Rightarrow> (64 word \<Rightarrow> vptr) \<Rightarrow> 64 word \<Rightarrow> vptr" where
  "clr_mem pbos sz opt m = (case pbos of
     Addr b \<Rightarrow> if opt AND OS_TASK_OPT_STK_CHK \<noteq> 0 \<and> opt AND OS_TASK_OPT_STK_CLR \<noteq> 0
       then (\<lambda>x. if x \<in> stk_word b ` {..<unat sz} then NULL else m x) else m
   | _ \<Rightarrow> m)"

lemma OS_TaskStkClr_ok:
  assumes "stack_arg ptos pbos sz opt"
  shows "OS_TaskStkClr pbos sz opt s = Some (s\<lparr>ptr_mem := clr_mem pbos sz opt (ptr_mem s)\<rparr>)"
proof (cases "opt AND OS_TASK_OPT_STK_CHK \<noteq> 0 \<and> opt AND OS_TASK_OPT_STK_CLR \<noteq> 0 \<and> sz \<noteq> 0")
  case True
  then obtain b where b: "pbos = Addr b" "region_ok b sz 8" using assms by (auto simp: stack_arg_def)
  have "stk_clr (unat sz) b (ptr_mem s) = Some (clr_mem pbos sz opt (ptr_mem s))"
    using True stk_clr_ok [of "unat sz" b] block_cell [OF b(2)] by (simp add: clr_mem_def b(1))
  with True b(1) show ?thesis by (simp add: OS_TaskStkClr_def)
next
  case False
  have "clr_mem pbos sz opt m = m" for m
    using False by (auto simp: clr_mem_def fun_eq_iff split: vptr.split)
  with False show ?thesis by (auto simp: OS_TaskStkClr_def)
qed

end
