(* ===== verification/Os_Task_Inv.thy ===== *)
theory Os_Task_Inv
  imports Os_Stack Os_Prio
begin

text \<open>
  The calls on tasks keep the invariant of the kernel: suspension, resumption, names and registers,
  which leave the tasks as they are, and creation and deletion, which add and remove one.
\<close>

section \<open>Looking up a task\<close>

lemma entryE:
  assumes "sinv s" "unat q < 64"
  obtains "OSTCBPrioTbl s (unat q) = NULL" | "OSTCBPrioTbl s (unat q) = OS_TCB_RESERVED"
  | t where "OSTCBPrioTbl s (unat q) = TCBp t" "t < OS_N_TCBS" "owns s t (unat (OSTCBPrio (OSTCBTbl s t)))"
proof -
  have "entry_ok s (OSTCBPrioTbl s (unat q))" using sinvD(2) [OF assms(1)] assms(2) by (simp add: kinv0_def)
  then show ?thesis using that owns_index by (auto simp: entry_ok_def split: vptr.splits)
qed

definition the_prio :: "8 word \<Rightarrow> kst \<Rightarrow> 8 word" where
  "the_prio prio s = (if prio = OS_PRIO_SELF then OSPrioCur s else prio)"

lemma cur_tcb_prio: "sinv s \<Longrightarrow> OSTCBPrio (OSTCBTbl s (cur_ix s)) = OSPrioCur s"
  using owns_prio [OF sinv_cur(2)] by (simp add: word_unat_eq_iff)

lemma self_prio_ok:
  assumes "sinv s" "prio \<le> OS_LOWEST_PRIO \<or> prio = OS_PRIO_SELF"
  shows "self_prio prio s = Some (the_prio prio s)" "unat (the_prio prio s) < 64"
    "prio_tbl s (the_prio prio s) = Some (OSTCBPrioTbl s (unat (the_prio prio s)))"
proof -
  show "self_prio prio s = Some (the_prio prio s)"
    using sinv_cur(1,3) [OF assms(1)] cur_tcb_prio [OF assms(1)] by (simp add: self_prio_def the_prio_def)
  show l: "unat (the_prio prio s) < 64"
    using assms(2) owns_less_64 [OF sinv_cur(2) [OF assms(1)]]
    by (auto simp: the_prio_def word_le_nat_alt)
  then show "prio_tbl s (the_prio prio s) = Some (OSTCBPrioTbl s (unat (the_prio prio s)))"
    by (simp add: prio_tbl_def)
qed

text \<open>The table lists task \<open>t\<close> under its present priority only: it is not a raised owner of a mutex.\<close>

definition own_entry :: "8 word \<Rightarrow> kst \<Rightarrow> bool" where
  "own_entry q s \<longleftrightarrow> (\<forall>t. OSTCBPrioTbl s (unat q) = TCBp t \<longrightarrow> OSTCBPrio (OSTCBTbl s t) = q)"

section \<open>Suspension\<close>

abbreviation (input) suspend_tcb :: "os_tcb \<Rightarrow> os_tcb" where
  "suspend_tcb c \<equiv> c\<lparr>OSTCBStat := OSTCBStat c OR OS_STAT_SUSPEND\<rparr>"

abbreviation (input) resume_tcb :: "os_tcb \<Rightarrow> os_tcb" where
  "resume_tcb c \<equiv> c\<lparr>OSTCBStat := OSTCBStat c AND NOT OS_STAT_SUSPEND\<rparr>"

text \<open>Only the control block of \<open>t\<close> and the ready list differ.\<close>

definition only_task :: "nat \<Rightarrow> (os_tcb \<Rightarrow> os_tcb) \<Rightarrow> nat set \<Rightarrow> kst \<Rightarrow> kst \<Rightarrow> bool" where
  "only_task t f R s s' \<longleftrightarrow> ids s' = ids s \<and> objs s' = objs s \<and> waiters s' = waiters s \<and> rdy s' = R
     \<and> tcbs s' = (tcbs s)(t := f (tcbs s t))"

lemma only_task_resched: "only_task t f R s s1 \<Longrightarrow> resched s1 s2 \<Longrightarrow> only_task t f R s s2"
  by (simp add: only_task_def reschedD)

lemma OSTaskSuspend_task:
  assumes inv: "sinv s" and prio: "prio < OS_LOWEST_PRIO \<or> prio = OS_PRIO_SELF"
    and entry: "OSTCBPrioTbl s (unat (the_prio prio s)) = TCBp t" and p: "OSTCBPrio (OSTCBTbl s t) = the_prio prio s"
    and idle: "the_prio prio s \<noteq> OS_TASK_IDLE_PRIO"
  shows "ok (OSTaskSuspend prio s) (\<lambda>(r, s'). kept s s' \<and> r = OS_ERR_NONE
    \<and> only_task t suspend_tcb (rdy s - {unat (the_prio prio s)}) s s')"
proof -
  let ?q = "the_prio prio s"
  note sp = self_prio_ok [OF inv, of prio]
  have le: "prio \<le> OS_LOWEST_PRIO \<or> prio = OS_PRIO_SELF" using prio by auto
  have q63: "unat ?q \<noteq> 63" using idle by (simp add: word_unat_eq_iff)
  have own: "owns s t (unat ?q)"
    by (rule entryE [OF inv sp(2) [OF le]]) (use entry p in auto)
  obtain s1 where r1: "rdy_del (OSTCBY (OSTCBTbl s t)) (OSTCBBitY (OSTCBTbl s t)) (OSTCBBitX (OSTCBTbl s t)) s = Some s1"
    and s1: "sinv s1" "s1 = set_rdy_bm (rdy_bm s1) s" "rdy s1 = rdy s - {unat ?q}"
    using make_unready [OF inv own q63] by (auto simp: ok_iff)
  define s2 where "s2 = upd_tcb t suspend_tcb s1"
  have u: "unread s1 s2" unfolding s2_def by (rule unread_tcb) simp_all
  have v1: "ids s1 = ids s" "ctl s1 = ctl s" "cur s1 = cur s" "objs s1 = objs s" "waiters s1 = waiters s"
    "OSTCBTbl s1 = OSTCBTbl s"
    by (subst s1(2), simp)+
  have inv2: "sinv s2" by (rule unread_sinv [OF s1(1) u])
  have o2: "objs s2 = objs s" using v1 by (simp add: s2_def)
  have only: "only_task t suspend_tcb (rdy s - {unat ?q}) s s2"
    using unreadD [OF u] v1 s1(3) o2 by (simp add: only_task_def s2_def tcbs_def fun_eq_iff)
  have ctl2: "ctl s2 = ctl s" "cur s2 = cur s" using unreadD [OF u] v1 by simp_all
  have self: "(prio = OS_PRIO_SELF \<or> prio = OSTCBPrio (OSTCBTbl s (cur_ix s))) \<longleftrightarrow> ?q = OSPrioCur s"
    by (auto simp: the_prio_def cur_tcb_prio [OF inv])
  have run: "OSTaskSuspend prio s = do {
      s3 \<leftarrow> (if ?q = OSPrioCur s then OS_Sched s2 else Some s2);
      Some (OS_ERR_NONE, s3) }"
    unfolding OSTaskSuspend_def Let_def self [symmetric]
    using prio idle sp(1,3) [OF le] entry owns_index [OF own] r1 sinv_cur(1,3) [OF inv]
    by (auto simp: s2_def the_prio_def)
  show ?thesis
  proof (cases "?q = OSPrioCur s")
    case True
    then show ?thesis
      unfolding run using OS_Sched_sinv [OF inv2] only_task_resched [OF only] ctl2(1)
      by (auto elim!: ok_mono simp: ok_iff)
  next
    case False
    have "settled s2" if "settled s"
    proof -
      have "OSPrioCur s2 = OSPrioCur s" "OSIntNesting s2 = OSIntNesting s" "OSLockNesting s2 = OSLockNesting s"
        using ctl2 by (simp_all add: cur_def ctl_def)
      moreover have "Min (rdy s2) = Min (rdy s)" if c: "unat (OSPrioCur s) = Min (rdy s)"
      proof -
        have "Min (rdy s) \<in> rdy s" by (rule highest_ready(3) [OF sinvD(2) [OF inv]])
        moreover have "Min (rdy s) \<noteq> unat ?q" using c False by (metis word_unat_eq_iff)
        ultimately have "Min (rdy s) \<in> rdy s2" using only by (simp add: only_task_def)
        then show ?thesis
          using only by (intro Min_eqI) (auto simp: only_task_def)
      qed
      ultimately show ?thesis using that by (simp add: settled_def)
    qed
    then show ?thesis unfolding run using False inv2 only ctl2 by simp
  qed
qed

lemma OSTaskSuspend_refused:
  assumes inv: "sinv s"
    and "prio \<ge> OS_LOWEST_PRIO \<and> prio \<noteq> OS_PRIO_SELF \<or> OSTCBPrioTbl s (unat (the_prio prio s)) \<in> {NULL, OS_TCB_RESERVED}"
  shows "\<exists>r. OSTaskSuspend prio s = Some (r, s) \<and> r \<noteq> OS_ERR_NONE"
proof (cases "prio \<ge> OS_LOWEST_PRIO \<and> prio \<noteq> OS_PRIO_SELF")
  case False
  then have "prio \<le> OS_LOWEST_PRIO \<or> prio = OS_PRIO_SELF" by (auto simp: not_le)
  note sp = self_prio_ok [OF inv this]
  show ?thesis using False assms(2) sp sinv_cur(1,3) [OF inv] by (auto simp: OSTaskSuspend_def Let_def)
qed (auto simp: OSTaskSuspend_def)

interpretation TaskSuspend: sched_call "\<lambda>s. may_block s \<and> own_entry (the_prio prio s) s" "OSTaskSuspend prio" for prio
proof (rule sched_callI, elim conjE)
  fix s
  assume inv: "sinv s" and idle: "may_block s" and own: "own_entry (the_prio prio s) s"
  show "ok (OSTaskSuspend prio s) (\<lambda>(r, s'). kept s s')"
  proof (cases "prio \<ge> OS_LOWEST_PRIO \<and> prio \<noteq> OS_PRIO_SELF
      \<or> OSTCBPrioTbl s (unat (the_prio prio s)) \<in> {NULL, OS_TCB_RESERVED}")
    case True
    then show ?thesis using OSTaskSuspend_refused [OF inv True] inv by auto
  next
    case False
    then have prio: "prio < OS_LOWEST_PRIO \<or> prio = OS_PRIO_SELF" by (auto simp: not_le)
    then have q: "the_prio prio s \<noteq> OS_TASK_IDLE_PRIO" using idle by (auto simp: the_prio_def may_block_def)
    have "prio \<le> OS_LOWEST_PRIO \<or> prio = OS_PRIO_SELF" using prio by auto
    note sp = self_prio_ok(2) [OF inv this]
    from inv sp show ?thesis
    proof (cases rule: entryE)
      case (3 t)
      then have "OSTCBPrio (OSTCBTbl s t) = the_prio prio s" using own by (simp add: own_entry_def)
      from OSTaskSuspend_task [OF inv prio 3(1) this q] show ?thesis by (auto elim!: ok_mono2)
    qed (use False in auto)
  qed
qed

text \<open>The task may run when it is resumed: it neither waits for an event nor has a delay to go.\<close>

definition resumable :: "os_tcb \<Rightarrow> bool" where
  "resumable c \<longleftrightarrow> OSTCBStat (resume_tcb c) AND OS_STAT_PEND_ANY = OS_STAT_RDY \<and> OSTCBDly c = 0"

lemma OSTaskResume_task:
  assumes inv: "sinv s" and prio: "prio < OS_LOWEST_PRIO" and run: "OSRunning s"
    and entry: "OSTCBPrioTbl s (unat prio) = TCBp t" and p: "OSTCBPrio (OSTCBTbl s t) = prio'"
  shows "ok (OSTaskResume prio s) (\<lambda>(r, s'). kept s s'
    \<and> (if suspended (OSTCBTbl s t)
       then r = OS_ERR_NONE \<and> only_task t resume_tcb
         (if resumable (OSTCBTbl s t) then insert (unat prio') (rdy s) else rdy s) s s'
       else r = OS_ERR_TASK_NOT_SUSPENDED \<and> s' = s))"
proof (cases "suspended (OSTCBTbl s t)")
  case False
  have own: "owns s t (unat prio')" using prio entry p inv
    by (elim entryE [of s prio]) (auto simp: word_less_nat_alt)
  show ?thesis
    using False prio entry owns_index [OF own] inv
    by (simp add: OSTaskResume_def prio_tbl_def suspended_def word_less_nat_alt word_le_nat_alt)
next
  case True
  have own: "owns s t (unat prio')" using prio entry p inv
    by (elim entryE [of s prio]) (auto simp: word_less_nat_alt)
  define s1 where "s1 = upd_tcb t resume_tcb s"
  have u: "unread s s1" unfolding s1_def by (rule unread_tcb) simp_all
  have inv1: "sinv s1" by (rule unread_sinv [OF inv u])
  have own1: "owns s1 t (unat prio')" using own unreadD(10) [OF u] by simp
  have o1: "objs s1 = objs s" by (simp add: s1_def)
  have susp: "\<not> prio \<ge> OS_LOWEST_PRIO" "unat prio < 64" "OSTCBStat (OSTCBTbl s t) AND OS_STAT_SUSPEND \<noteq> OS_STAT_RDY"
    using prio True by (auto simp: suspended_def word_less_nat_alt word_le_nat_alt)
  have only: "only_task t resume_tcb (rdy s) s s1"
    using unreadD [OF u] o1 by (simp add: only_task_def s1_def tcbs_def fun_eq_iff)
  show ?thesis
  proof (cases "resumable (OSTCBTbl s t)")
    case res: True
    obtain s2 where r2: "rdy_add (OSTCBY (OSTCBTbl s1 t)) (OSTCBBitY (OSTCBTbl s1 t)) (OSTCBBitX (OSTCBTbl s1 t)) s1 = Some s2"
      and s2: "sinv s2" "s2 = set_rdy_bm (rdy_bm s2) s1" "rdy s2 = insert (unat prio') (rdy s1)"
      using make_ready [OF inv1 own1] by (auto simp: ok_iff)
    have v2: "ids s2 = ids s1" "ctl s2 = ctl s1" "objs s2 = objs s1" "waiters s2 = waiters s1" "OSTCBTbl s2 = OSTCBTbl s1"
      by (subst s2(2), simp)+
    have only2: "only_task t resume_tcb (insert (unat prio') (rdy s)) s s2"
      using only s2(3) v2 unreadD(4) [OF u] by (simp add: only_task_def tcbs_def)
    have "OSRunning s2" using v2(2) unreadD(2) [OF u] run by (simp add: ctl_def)
    then have "OSTaskResume prio s = do { s3 \<leftarrow> OS_Sched s2; Some (OS_ERR_NONE, s3) }"
      using susp entry owns_index [OF own] res r2
      by (simp add: OSTaskResume_def prio_tbl_def Let_def resumable_def s1_def)
    then show ?thesis
      using OS_Sched_sinv [OF s2(1)] only_task_resched [OF only2] v2(2) unreadD(2) [OF u] True res
      by (auto elim!: ok_mono simp: ok_iff)
  next
    case res: False
    have "OSTaskResume prio s = Some (OS_ERR_NONE, s1)"
      using susp entry owns_index [OF own] res
      by (simp add: OSTaskResume_def prio_tbl_def Let_def resumable_def s1_def)
    then show ?thesis using unread_kept [OF inv u] only True res by simp
  qed
qed

interpretation TaskResume: sched_call OSRunning "OSTaskResume prio" for prio
proof (rule sched_callI)
  fix s
  assume inv: "sinv s" and run: "OSRunning s"
  show "ok (OSTaskResume prio s) (\<lambda>(r, s'). kept s s')"
  proof (cases "prio < OS_LOWEST_PRIO")
    case True
    then have "unat prio < 64" by (simp add: word_less_nat_alt)
    with inv show ?thesis
    proof (cases rule: entryE)
      case (3 t)
      from OSTaskResume_task [OF inv True run 3(1) refl] show ?thesis by (auto elim!: ok_mono2)
    qed (use inv True \<open>unat prio < 64\<close> in \<open>auto simp: OSTaskResume_def prio_tbl_def\<close>)
  qed (use inv in \<open>auto simp: OSTaskResume_def not_less\<close>)
qed

section \<open>Requests, names and registers\<close>

interpretation TaskDelReq: sched_call "\<lambda>s. True" "OSTaskDelReq prio" for prio
proof (rule sched_callI)
  fix s
  assume inv: "sinv s"
  have k: "kept s (upd_tcb t (\<lambda>c. c\<lparr>OSTCBDelReq := r\<rparr>) s)" for t r
    by (rule unread_kept [OF inv unread_tcb]) simp_all
  show "ok (OSTaskDelReq prio s) (\<lambda>(r, s'). kept s s')"
  proof (cases "prio < OS_LOWEST_PRIO")
    case True
    then have lt: "unat prio < 64" "prio \<noteq> OS_PRIO_SELF" "\<not> prio \<ge> OS_LOWEST_PRIO"
      by (auto simp: word_less_nat_alt word_le_nat_alt)
    with inv show ?thesis
      by (cases rule: entryE) (use inv k lt in \<open>auto simp: OSTaskDelReq_def prio_tbl_def\<close>)
  next
    case False
    then show ?thesis using inv sinv_cur(1,3) [OF inv] by (auto simp: OSTaskDelReq_def)
  qed
qed

interpretation TaskRegGetID: sched_call "\<lambda>s. True" "\<lambda>s. Some (OSTaskRegGetID s)"
proof (rule sched_callI)
  fix s
  assume inv: "sinv s"
  have "unread s (s\<lparr>OSTaskRegNextAvailID := n\<rparr>)" for n
    by (simp add: unread_def ids_def ctl_def cur_def rdy_bm_def ev_bm_def ev_data_def clock_def fun_eq_iff)
  note k = unread_kept [OF inv this]
  show "ok (Some (OSTaskRegGetID s)) (\<lambda>(r, s'). kept s s')"
    using k inv by (cases "OSTaskRegNextAvailID s \<ge> OS_TASK_REG_TBL_SIZE") (simp_all add: OSTaskRegGetID_def)
qed

interpretation TaskNameSet: sched_call "\<lambda>s. True" "OSTaskNameSet prio pname" for prio pname
proof (rule sched_callI)
  fix s
  assume inv: "sinv s"
  have k: "kept s (upd_tcb t (\<lambda>c. c\<lparr>OSTCBTaskName := r\<rparr>) s)" for t r
    by (rule unread_kept [OF inv unread_tcb]) simp_all
  show "ok (OSTaskNameSet prio pname s) (\<lambda>(r, s'). kept s s')"
  proof (cases "prio > OS_LOWEST_PRIO \<and> prio \<noteq> OS_PRIO_SELF \<or> pname = None \<or> OSIntNesting s > 0")
    case False
    then have le: "prio \<le> OS_LOWEST_PRIO \<or> prio = OS_PRIO_SELF" by (auto simp: not_less)
    note sp = self_prio_ok [OF inv le]
    from inv sp(2) show ?thesis
      by (cases rule: entryE) (use False inv k sp(1,3) in \<open>auto simp: OSTaskNameSet_def\<close>)
  qed (use inv in \<open>auto simp: OSTaskNameSet_def\<close>)
qed

text \<open>Setting a register does not check that there is a task of the priority.\<close>

interpretation TaskRegSet: sched_call
  "\<lambda>s. prio < OS_LOWEST_PRIO \<longrightarrow> (\<exists>t. OSTCBPrioTbl s (unat prio) = TCBp t)" "OSTaskRegSet prio idn v" for prio idn v
proof (rule sched_callI)
  fix s
  assume inv: "sinv s" and ex: "prio < OS_LOWEST_PRIO \<longrightarrow> (\<exists>t. OSTCBPrioTbl s (unat prio) = TCBp t)"
  have k: "kept s (upd_tcb t (\<lambda>c. c\<lparr>OSTCBRegTbl := (OSTCBRegTbl c)(i := v)\<rparr>) s)" for t i
    by (rule unread_kept [OF inv unread_tcb]) simp_all
  show "ok (OSTaskRegSet prio idn v s) (\<lambda>(r, s'). kept s s')"
  proof (cases "prio < OS_LOWEST_PRIO")
    case True
    then have lt: "unat prio < 64" "prio \<noteq> OS_PRIO_SELF" "\<not> prio \<ge> OS_LOWEST_PRIO"
      by (auto simp: word_less_nat_alt word_le_nat_alt)
    with inv show ?thesis
      by (cases rule: entryE) (use inv k lt ex True in \<open>auto simp: OSTaskRegSet_def prio_tbl_def\<close>)
  next
    case False
    then show ?thesis using inv k sinv_cur(1,3) [OF inv] by (auto simp: OSTaskRegSet_def)
  qed
qed

section \<open>The lists of control blocks\<close>

abbreviation (input) tcb_next :: "kst \<Rightarrow> nat \<Rightarrow> vptr" where
  "tcb_next s t \<equiv> OSTCBNext (OSTCBTbl s t)"

abbreviation (input) tcb_prev :: "kst \<Rightarrow> nat \<Rightarrow> vptr" where
  "tcb_prev s t \<equiv> OSTCBPrev (OSTCBTbl s t)"

definition the_tasks :: "kst \<Rightarrow> nat set" where
  "the_tasks s = {t. \<exists>p. owns s t p}"

lemma few_tasks: "card (the_tasks s) \<le> OS_N_TCBS"
proof -
  have "the_tasks s \<subseteq> {..<OS_N_TCBS}" by (auto simp: the_tasks_def owns_def)
  from card_mono [OF _ this] show ?thesis by simp
qed

text \<open>The tasks are linked both ways; the other control blocks are on the free list; the count is right.\<close>

definition lists_ok :: "kst \<Rightarrow> nat list \<Rightarrow> nat list \<Rightarrow> bool" where
  "lists_ok s ts fs \<longleftrightarrow> dll TCBp (tcb_next s) (tcb_prev s) NULL (OSTCBList s) ts \<and> distinct ts \<and> set ts = the_tasks s
     \<and> path TCBp (tcb_next s) (OSTCBFreeList s) fs \<and> distinct fs \<and> set fs = {t. t < OS_N_TCBS} - the_tasks s
     \<and> unat (OSTaskCtr s) = length ts"

lemma lists_ok_cong:
  assumes "ids s' = ids s"
  shows "lists_ok s' ts fs = lists_ok s ts fs"
proof -
  have "the_tasks s' = the_tasks s" using owns_cong [OF assms] by (simp add: the_tasks_def)
  then show ?thesis using assms by (simp add: lists_ok_def ids_def fun_eq_iff)
qed

text \<open>The timers, which tasks do not touch.\<close>

definition tmr_data :: "kst \<Rightarrow> _" where
  "tmr_data s = (OSTmrTbl s, OSTmrWheelTbl s, OSTmrFree s, OSTmrUsed s, OSTmrTime s, OSTmrFreeList s, OSTmrSem s)"

text \<open>Creation: the priority is free, and the control block at the head of the free list becomes a task.\<close>

definition new_task :: "nat \<Rightarrow> 8 word \<Rightarrow> kst \<Rightarrow> kst \<Rightarrow> bool" where
  "new_task t prio s s' \<longleftrightarrow>
     OSTCBPrioTbl s' = (OSTCBPrioTbl s)(unat prio := TCBp t)
     \<and> tcb_bits_ok (OSTCBTbl s' t) \<and> OSTCBPrio (OSTCBTbl s' t) = prio \<and> OSTCBEventMultiPtr (OSTCBTbl s' t) = None
     \<and> (\<forall>u. u \<noteq> t \<longrightarrow> (OSTCBTbl s' u)\<lparr>OSTCBPrev := NULL\<rparr> = (OSTCBTbl s u)\<lparr>OSTCBPrev := NULL\<rparr>)
     \<and> OSTCBList s' = TCBp t \<and> tcb_next s' t = OSTCBList s
     \<and> rdy_bm s' = bm_add prio (rdy_bm s) \<and> ev_bm s' = ev_bm s \<and> ev_data s' = ev_data s
     \<and> OSEventFreeList s' = OSEventFreeList s \<and> OSQTbl s' = OSQTbl s \<and> OSQFreeList s' = OSQFreeList s
     \<and> OSTmrSemSignal s' = OSTmrSemSignal s \<and> cur s' = cur s \<and> ctl s' = ctl s \<and> tmr_data s' = tmr_data s"

lemma new_task_fields:
  assumes "new_task t prio s s'" "u \<noteq> t"
  shows "OSTCBPrio (OSTCBTbl s' u) = OSTCBPrio (OSTCBTbl s u)" "tcb_bits_ok (OSTCBTbl s' u) = tcb_bits_ok (OSTCBTbl s u)"
    "tcb_next s' u = tcb_next s u" "OSTCBEventMultiPtr (OSTCBTbl s' u) = OSTCBEventMultiPtr (OSTCBTbl s u)"
proof -
  have "(OSTCBTbl s' u)\<lparr>OSTCBPrev := NULL\<rparr> = (OSTCBTbl s u)\<lparr>OSTCBPrev := NULL\<rparr>"
    using assms by (simp add: new_task_def)
  then obtain v where v: "OSTCBTbl s' u = (OSTCBTbl s u)\<lparr>OSTCBPrev := v\<rparr>"
    by (cases "OSTCBTbl s' u"; cases "OSTCBTbl s u") auto
  show "OSTCBPrio (OSTCBTbl s' u) = OSTCBPrio (OSTCBTbl s u)" "tcb_bits_ok (OSTCBTbl s' u) = tcb_bits_ok (OSTCBTbl s u)"
    "tcb_next s' u = tcb_next s u" "OSTCBEventMultiPtr (OSTCBTbl s' u) = OSTCBEventMultiPtr (OSTCBTbl s u)"
    by (simp_all add: v tcb_bits_ok_def)
qed

lemma new_task_owns:
  assumes n: "new_task t prio s s'" and t: "t < OS_N_TCBS" "t \<notin> the_tasks s" and p: "unat prio < 64"
    and free: "OSTCBPrioTbl s (unat prio) = NULL"
  shows "owns s' u q \<longleftrightarrow> owns s u q \<or> u = t \<and> q = unat prio"
proof (cases "u = t")
  case True
  then show ?thesis
    using n t p by (auto simp: new_task_def owns_def the_tasks_def)
next
  case False
  then show ?thesis
    using new_task_fields(1,2) [OF n False] n free by (auto simp: new_task_def owns_def)
qed

lemma new_task_kinv0:
  assumes inv: "kinv0 s" and n: "new_task t prio s s'" and t: "t < OS_N_TCBS" "t \<notin> the_tasks s"
    and p: "unat prio < 64" and free: "OSTCBPrioTbl s (unat prio) = NULL"
  shows "kinv0 s'"
proof -
  note own = new_task_owns [OF n t p free]
  have owned: "owned s' q \<longleftrightarrow> owned s q \<or> q = unat prio" for q
    using own by (auto elim!: ownedE intro: owns_owned)
  have tbl: "OSTCBPrioTbl s' = (OSTCBPrioTbl s)(unat prio := TCBp t)" using n by (simp add: new_task_def)
  have entry: "entry_ok s' (OSTCBPrioTbl s' q)" if "q < 64" for q
  proof (cases "q = unat prio")
    case True
    then show ?thesis using own n by (simp add: entry_ok_def tbl new_task_def)
  next
    case False
    have e: "entry_ok s (OSTCBPrioTbl s q)" using inv that by (simp add: kinv0_def)
    show ?thesis
    proof (cases "OSTCBPrioTbl s q")
      case (TCBp u)
      then have u: "owns s u (unat (OSTCBPrio (OSTCBTbl s u)))" using e by (simp add: entry_ok_def)
      then have "u \<noteq> t" using t(2) by (auto simp: the_tasks_def)
      then show ?thesis using own u new_task_fields(1) [OF n] False TCBp by (simp add: entry_ok_def tbl)
    qed (use e False in \<open>simp_all add: entry_ok_def tbl\<close>)
  qed
  have r: "rdy s' = insert (unat prio) (rdy s)"
    using n p by (simp add: new_task_def rdy_def bm.members_add)
  have bm: "bm_ok (rdy_bm s')" using n p inv by (simp add: new_task_def kinv0_def bm.inv_add)
  have multi: "multi_ok (OSTCBEventMultiPtr (OSTCBTbl s' u))" if "u < OS_N_TCBS" for u
    using that inv n new_task_fields(4) [OF n, of u]
    by (cases "u = t") (auto simp: kinv0_def new_task_def multi_ok_def)
  obtain ts where ts: "path TCBp (tcb_next s) (OSTCBList s) ts" "distinct ts" "ts \<noteq> []"
    "OSTCBPrio (OSTCBTbl s (last ts)) = OS_TASK_IDLE_PRIO" "set ts = the_tasks s"
    using inv by (auto simp: kinv0_def tasks_ok_def the_tasks_def)
  have new: "t \<notin> set ts" using ts(5) t(2) by simp
  have "path TCBp (tcb_next s') (OSTCBList s) ts"
    using ts(1) path_cong [of ts "tcb_next s'" "tcb_next s"] new_task_fields(3) [OF n] new by metis
  then have "path TCBp (tcb_next s') (OSTCBList s') (t # ts)" using n by (simp add: new_task_def)
  moreover have "OSTCBPrio (OSTCBTbl s' (last (t # ts))) = OS_TASK_IDLE_PRIO"
    using ts(3,4) new_task_fields(1) [OF n] new by (metis last.simps last_in_set)
  moreover have "set (t # ts) = {t. \<exists>p. owns s' t p}" using ts(5) own by (auto simp: the_tasks_def)
  ultimately have "tasks_ok s'" unfolding tasks_ok_def using ts(2) new by (intro exI [of _ "t # ts"]) simp
  then show ?thesis
    using inv entry bm multi n unfolding kinv0_def
    by (auto simp: owned r new_task_def waiters_def)
qed

lemma new_task_sinv:
  assumes inv: "sinv s" and n: "new_task t prio s s'" and t: "t < OS_N_TCBS" "t \<notin> the_tasks s"
    and p: "unat prio < 64" and free: "OSTCBPrioTbl s (unat prio) = NULL"
  shows "sinv s'"
proof -
  note own = new_task_owns [OF n t p free]
  have "oinv s'"
  proof (rule oinv_tasks [OF sinvD(4) [OF inv]])
    fix e
    assume e: "e < OS_MAX_EVENTS" "ev_type s e = OS_EVENT_TYPE_MUTEX"
    have m: "mutex_ok s e" using oinvD(4) [OF sinvD(4) [OF inv] e(1)] e(2) by (simp add: obj_ok_def)
    have d: "ev_data s' e = ev_data s e" using n by (simp add: new_task_def)
    have tbl: "OSTCBPrioTbl s' = (OSTCBPrioTbl s)(unat prio := TCBp t)" using n by (simp add: new_task_def)
    show "mutex_ok s' e"
      using m free unfolding mutex_ok_def ev_data_fields [OF d] tbl
      by (auto simp: Let_def split: vptr.splits)
  qed (use n in \<open>simp_all add: new_task_def waiters_def\<close>)
  moreover have "cur_ok s'"
    using sinvD(3) [OF inv] own n by (auto simp: cur_ok_def new_task_def cur_def split: vptr.splits)
  ultimately show ?thesis
    using new_task_kinv0 [OF sinvD(2) [OF inv] n t p free] by (simp add: sinv_def kinv_def)
qed

section \<open>Creation\<close>

text \<open>The control block that \<open>OS_TCBInit\<close> writes, links apart.\<close>

definition tcb_made :: "8 word \<Rightarrow> vptr \<Rightarrow> vptr \<Rightarrow> 16 word \<Rightarrow> 32 word \<Rightarrow> vptr \<Rightarrow> 16 word \<Rightarrow> os_tcb \<Rightarrow> bool" where
  "tcb_made prio ptos pbos idn sz pext opt c \<longleftrightarrow> OSTCBPrio c = prio \<and> tcb_bits_ok c \<and> OSTCBStkPtr c = ptos
     \<and> OSTCBStkBottom c = pbos \<and> OSTCBStkSize c = sz \<and> OSTCBOpt c = opt \<and> OSTCBId c = idn \<and> OSTCBExtPtr c = pext
     \<and> OSTCBStat c = OS_STAT_RDY \<and> OSTCBStatPend c = OS_STAT_PEND_OK \<and> OSTCBDly c = 0 \<and> OSTCBEventPtr c = NULL
     \<and> OSTCBEventMultiPtr c = None \<and> OSTCBFlagNode c = NULL \<and> OSTCBDelReq c = OS_ERR_NONE
     \<and> OSTCBTaskName c = unnamed"

lemma OS_TCBInit_new:
  assumes free: "OSTCBFreeList s = TCBp t" and t: "t < OS_N_TCBS" and p: "unat prio < 64"
    and l: "OSTCBList s = NULL \<or> (\<exists>h<OS_N_TCBS. h \<noteq> t \<and> OSTCBList s = TCBp h)"
  shows "ok (OS_TCBInit prio ptos pbos idn sz pext opt s) (\<lambda>(r, s'). r = OS_ERR_NONE \<and> new_task t prio s s'
    \<and> tcb_made prio ptos pbos idn sz pext opt (OSTCBTbl s' t)
    \<and> (\<forall>u. u \<noteq> t \<longrightarrow> tcb_prev s' u = (if OSTCBList s = TCBp u then TCBp t else tcb_prev s u))
    \<and> tcb_prev s' t = NULL \<and> OSTCBFreeList s' = tcb_next s t \<and> OSTaskCtr s' = OSTaskCtr s + 1
    \<and> OSRunning s' = OSRunning s \<and> ptr_mem s' = ptr_mem s)"
proof -
  let ?f = "\<lambda>c. c\<lparr>OSTCBStkPtr := ptos, OSTCBPrio := prio, OSTCBStat := OS_STAT_RDY,
         OSTCBStatPend := OS_STAT_PEND_OK, OSTCBDly := 0, OSTCBExtPtr := pext, OSTCBStkSize := sz,
         OSTCBStkBottom := pbos, OSTCBOpt := opt, OSTCBId := idn, OSTCBDelReq := OS_ERR_NONE,
         OSTCBY := prio_y prio, OSTCBX := prio_x prio, OSTCBBitY := bit_mask (prio_y prio),
         OSTCBBitX := bit_mask (prio_x prio),
         OSTCBEventPtr := NULL, OSTCBEventMultiPtr := None, OSTCBEventMultiRdy := NULL,
         OSTCBFlagNode := NULL, OSTCBMsg := NULL, OSTCBCtxSwCtr := 0, OSTCBCyclesStart := 0,
         OSTCBCyclesTot := 0, OSTCBStkBase := NULL, OSTCBStkUsed := 0, OSTCBTaskName := unnamed,
         OSTCBRegTbl := (OSTCBRegTbl c)(0 := 0)\<rparr>"
  let ?tbl = "(OSTCBTbl s)(t := (?f (OSTCBTbl s t))\<lparr>OSTCBNext := OSTCBList s, OSTCBPrev := NULL\<rparr>)"
  define T where "T = (case OSTCBList s of TCBp h \<Rightarrow> ?tbl(h := (OSTCBTbl s h)\<lparr>OSTCBPrev := TCBp t\<rparr>) | _ \<Rightarrow> ?tbl)"
  define s' where "s' = s\<lparr>OSTCBFreeList := tcb_next s t, OSTCBTbl := T,
    OSTCBPrioTbl := (OSTCBPrioTbl s)(unat prio := TCBp t), OSTCBList := TCBp t,
    OSRdyGrp := fst (bm_add prio (rdy_bm s)), OSRdyTbl := snd (bm_add prio (rdy_bm s)), OSTaskCtr := OSTaskCtr s + 1\<rparr>"
  have bits: "tcb_bits_ok (T t)" "OSTCBPrio (T t) = prio"
    using p l by (auto simp: T_def tcb_bits_ok_def)
  have run: "OS_TCBInit prio ptos pbos idn sz pext opt s = Some (OS_ERR_NONE, s')"
    using l
  proof (elim disjE exE conjE)
    assume n: "OSTCBList s = NULL"
    show ?thesis
      using free t p n prio_y_less [of prio]
      by (simp add: OS_TCBInit_def Let_def upd_tcb_def set_prio_tbl_def rdy_add_def set_rdy_bm_def rdy_bm_def
          s'_def T_def bm_add_def)
  next
    fix h
    assume h: "h < OS_N_TCBS" "h \<noteq> t" "OSTCBList s = TCBp h"
    show ?thesis
      using free t p h prio_y_less [of prio]
      by (simp add: OS_TCBInit_def Let_def upd_tcb_def set_prio_tbl_def rdy_add_def set_rdy_bm_def rdy_bm_def
          s'_def T_def bm_add_def fun_upd_twist [of t h])
  qed
  have views: "ev_bm s' = ev_bm s" "ev_data s' = ev_data s" "cur s' = cur s" "ctl s' = ctl s"
    "rdy_bm s' = bm_add prio (rdy_bm s)" "tmr_data s' = tmr_data s"
    by (simp_all add: s'_def ev_bm_def ev_data_def cur_def ctl_def rdy_bm_def tmr_data_def fun_eq_iff)
  have n: "new_task t prio s s'"
    using bits views l by (auto simp: new_task_def s'_def T_def)
  have "tcb_made prio ptos pbos idn sz pext opt (OSTCBTbl s' t)"
    using bits l by (auto simp: tcb_made_def s'_def T_def)
  with run n l show ?thesis by (auto simp: s'_def T_def)
qed

lemma new_task_lists:
  assumes l: "lists_ok s ts (t # fs)" and n: "new_task t prio s s'"
    and own: "the_tasks s' = insert t (the_tasks s)"
    and pv: "\<forall>u. u \<noteq> t \<longrightarrow> tcb_prev s' u = (if OSTCBList s = TCBp u then TCBp t else tcb_prev s u)"
    and t: "tcb_prev s' t = NULL" "OSTCBFreeList s' = tcb_next s t" "OSTaskCtr s' = OSTaskCtr s + 1"
  shows "lists_ok s' (t # ts) fs"
proof -
  have f: "path TCBp (tcb_next s) (OSTCBFreeList s) (t # fs)" "distinct (t # fs)"
    "set (t # fs) = {t. t < OS_N_TCBS} - the_tasks s" and ts: "distinct ts" "set ts = the_tasks s"
    and ctr: "unat (OSTaskCtr s) = length ts"
    and d: "dll TCBp (tcb_next s) (tcb_prev s) NULL (OSTCBList s) ts"
    using l by (simp_all add: lists_ok_def)
  have new: "t \<notin> set ts" using f(3) ts(2) by auto
  note nx = new_task_fields(3) [OF n]
  have "dll TCBp (tcb_next s') (tcb_prev s') NULL (TCBp t) (t # ts)"
  proof (rule tcb_links.dll_push [OF d ts(1) new])
    show "tcb_next s' t = OSTCBList s" using n by (simp add: new_task_def)
    show "tcb_next s' y = tcb_next s y" if "y \<in> set ts" for y using nx that new by metis
    show "tcb_prev s' y = (if OSTCBList s = TCBp y then TCBp t else tcb_prev s y)" if "y \<in> set ts" for y
      using pv that new by metis
  qed (rule t(1))
  moreover have fp: "path TCBp (tcb_next s') (tcb_next s t) fs"
    using f path_cong [of fs "tcb_next s'" "tcb_next s"] nx by (metis distinct.simps(2) path.simps(2))
  have "length ts < 255"
    using few_tasks [of s] distinct_card [OF ts(1)] ts(2) by simp
  then have c1: "unat (OSTaskCtr s + 1) = Suc (length ts)"
    using ctr unat_add_lem [of "OSTaskCtr s" 1] by simp
  moreover have "set fs = {t. t < OS_N_TCBS} - the_tasks s'"
  proof -
    have "set fs = set (t # fs) - {t}" using f(2) by auto
    then show ?thesis unfolding own f(3) by auto
  qed
  moreover have "OSTCBList s' = TCBp t" using n by (simp add: new_task_def)
  ultimately show ?thesis
    using f(2) ts new fp c1 by (simp add: lists_ok_def own t)
qed

text \<open>What the stack of a new task holds.\<close>

abbreviation (input) stack_mem :: "vptr \<Rightarrow> vptr \<Rightarrow> vptr \<Rightarrow> 64 word \<Rightarrow> vptr \<Rightarrow> 32 word \<Rightarrow> 16 word \<Rightarrow> kst \<Rightarrow> 64 word \<Rightarrow> vptr" where
  "stack_mem ret pfn arg a pbos sz opt s \<equiv> frame_mem ret pfn arg (a AND NOT 7) (clr_mem pbos sz opt (ptr_mem s))"

abbreviation (input) stack_top :: "64 word \<Rightarrow> vptr" where
  "stack_top a \<equiv> Addr ((a AND NOT 7) - 240)"

text \<open>The priority is reserved and the stack prepared.\<close>

definition reserved :: "8 word \<Rightarrow> (64 word \<Rightarrow> vptr) \<Rightarrow> kst \<Rightarrow> kst" where
  "reserved prio m s = s\<lparr>OSTCBPrioTbl := (OSTCBPrioTbl s)(unat prio := OS_TCB_RESERVED), ptr_mem := m\<rparr>"

lemma OSTaskCreateExt_run:
  assumes "OSIntNesting s = 0" "prio \<le> OS_LOWEST_PRIO" "OSTCBPrioTbl s (unat prio) = NULL" "stack_arg (Addr a) pbos sz opt"
  shows "OSTaskCreateExt ret pfn arg (Addr a) prio idn pbos sz pext opt s = do {
    (err, s) \<leftarrow> OS_TCBInit prio (stack_top a) pbos idn sz pext opt (reserved prio (stack_mem ret pfn arg a pbos sz opt s) s);
    if err = OS_ERR_NONE then do {
      s \<leftarrow> (if OSRunning s then OS_Sched s else Some s);
      Some (err, s)
    } else do {
      s \<leftarrow> set_prio_tbl prio NULL s;
      Some (err, s)
    } }"
proof -
  have "unat prio < 64" "\<not> prio > OS_LOWEST_PRIO" "256 \<le> unat a"
    using assms(2,4) by (auto simp: word_le_nat_alt word_less_nat_alt stack_arg_def)
  then show ?thesis
    using assms OS_TaskStkClr_ok [OF assms(4)] OSTaskStkInit_ok [of a]
    by (simp add: OSTaskCreateExt_def prio_tbl_def set_prio_tbl_def reserved_def)
qed

lemma OSTaskCreateExt_steps:
  assumes nest: "OSIntNesting s = 0" and prio: "prio \<le> OS_LOWEST_PRIO" and entry: "OSTCBPrioTbl s (unat prio) = NULL"
    and stk: "stack_arg (Addr a) pbos sz opt"
    and free: "OSTCBFreeList s = TCBp t" and t: "t < OS_N_TCBS"
    and l: "OSTCBList s = NULL \<or> (\<exists>h<OS_N_TCBS. h \<noteq> t \<and> OSTCBList s = TCBp h)"
  shows "\<exists>s2. OSTaskCreateExt ret pfn arg (Addr a) prio idn pbos sz pext opt s
      = (if OSRunning s then do { s3 \<leftarrow> OS_Sched s2; Some (OS_ERR_NONE, s3) } else Some (OS_ERR_NONE, s2))
    \<and> new_task t prio s s2 \<and> tcb_made prio (stack_top a) pbos idn sz pext opt (OSTCBTbl s2 t)
    \<and> (\<forall>u. u \<noteq> t \<longrightarrow> tcb_prev s2 u = (if OSTCBList s = TCBp u then TCBp t else tcb_prev s u))
    \<and> tcb_prev s2 t = NULL \<and> OSTCBFreeList s2 = tcb_next s t \<and> OSTaskCtr s2 = OSTaskCtr s + 1
    \<and> OSRunning s2 = OSRunning s \<and> ptr_mem s2 = stack_mem ret pfn arg a pbos sz opt s"
proof -
  let ?m = "stack_mem ret pfn arg a pbos sz opt s"
  let ?s = "reserved prio ?m s"
  have p: "unat prio < 64" using prio by (simp add: word_le_nat_alt)
  have same: "OSTCBFreeList ?s = OSTCBFreeList s" "OSTCBList ?s = OSTCBList s" "OSTCBTbl ?s = OSTCBTbl s"
    "OSTaskCtr ?s = OSTaskCtr s" "OSRunning ?s = OSRunning s" "ptr_mem ?s = ?m"
    by (simp_all add: reserved_def)
  obtain s2 where r: "OS_TCBInit prio (stack_top a) pbos idn sz pext opt ?s = Some (OS_ERR_NONE, s2)"
    and n: "new_task t prio ?s s2" and rest: "tcb_made prio (stack_top a) pbos idn sz pext opt (OSTCBTbl s2 t)"
      "\<forall>u. u \<noteq> t \<longrightarrow> tcb_prev s2 u = (if OSTCBList s = TCBp u then TCBp t else tcb_prev s u)"
      "tcb_prev s2 t = NULL" "OSTCBFreeList s2 = tcb_next s t" "OSTaskCtr s2 = OSTaskCtr s + 1"
      "OSRunning s2 = OSRunning s" "ptr_mem s2 = ?m"
    using OS_TCBInit_new [of ?s t prio "stack_top a" pbos idn sz pext opt] free t p l
    unfolding same by (auto simp: ok_iff)
  have "new_task t prio s s2"
    using n by (simp add: new_task_def reserved_def rdy_bm_def ev_bm_def ev_data_def cur_def ctl_def tmr_data_def fun_eq_iff)
  with r rest show ?thesis
    unfolding OSTaskCreateExt_run [OF nest prio entry stk] by (intro exI [of _ s2]) simp
qed

text \<open>No control block is left: the priority is free again.\<close>

lemma OSTaskCreateExt_full:
  assumes "OSIntNesting s = 0" "prio \<le> OS_LOWEST_PRIO" "OSTCBPrioTbl s (unat prio) = NULL"
    "stack_arg (Addr a) pbos sz opt" "OSTCBFreeList s = NULL"
  shows "OSTaskCreateExt ret pfn arg (Addr a) prio idn pbos sz pext opt s
    = Some (OS_ERR_TASK_NO_MORE_TCB, s\<lparr>ptr_mem := stack_mem ret pfn arg a pbos sz opt s\<rparr>)"
proof -
  have "unat prio < 64" using assms(2) by (simp add: word_le_nat_alt)
  moreover have "(OSTCBPrioTbl s)(unat prio := NULL) = OSTCBPrioTbl s" using assms(3) by (simp add: fun_upd_idem)
  ultimately show ?thesis
    unfolding OSTaskCreateExt_run [OF assms(1-4)]
    using assms(5) by (simp add: OS_TCBInit_def reserved_def set_prio_tbl_def)
qed

lemma OSTaskCreate_Ext: "OSTaskCreate ret pfn arg ptos prio s = OSTaskCreateExt ret pfn arg ptos prio 0 NULL 0 NULL 0 s"
proof -
  have clr: "OS_TaskStkClr NULL 0 0 s = Some s" for s by (simp add: OS_TaskStkClr_def)
  show ?thesis by (simp add: OSTaskCreate_def OSTaskCreateExt_def clr cong: if_cong)
qed

text \<open>A task has been added, and the most urgent task runs.\<close>

definition task_added :: "8 word \<Rightarrow> vptr \<Rightarrow> vptr \<Rightarrow> 16 word \<Rightarrow> 32 word \<Rightarrow> vptr \<Rightarrow> 16 word \<Rightarrow> nat \<Rightarrow> kst \<Rightarrow> kst \<Rightarrow> bool" where
  "task_added prio ptos pbos idn sz pext opt t s s' \<longleftrightarrow> owns s' t (unat prio) \<and> the_tasks s' = insert t (the_tasks s)
     \<and> (\<forall>u q. owns s u q \<longrightarrow> owns s' u q) \<and> rdy s' = insert (unat prio) (rdy s) \<and> waiters s' = waiters s
     \<and> OSTCBPrioTbl s' = (OSTCBPrioTbl s)(unat prio := TCBp t)
     \<and> tcb_made prio ptos pbos idn sz pext opt (tcbs s' t) \<and> ev_data s' = ev_data s"

lemma OSTaskCreateExt_ok:
  assumes inv: "sinv s" and l: "lists_ok s ts (t # fs)" and run: "OSRunning s" and nest: "OSIntNesting s = 0"
    and prio: "prio \<le> OS_LOWEST_PRIO" and entry: "OSTCBPrioTbl s (unat prio) = NULL"
    and stk: "stack_arg (Addr a) pbos sz opt"
  shows "ok (OSTaskCreateExt ret pfn arg (Addr a) prio idn pbos sz pext opt s) (\<lambda>(r, s'). kept s s' \<and> settled s'
    \<and> r = OS_ERR_NONE \<and> lists_ok s' (t # ts) fs \<and> task_added prio (stack_top a) pbos idn sz pext opt t s s'
    \<and> ptr_mem s' = stack_mem ret pfn arg a pbos sz opt s)"
proof -
  have p: "unat prio < 64" using prio by (simp add: word_le_nat_alt)
  have free: "OSTCBFreeList s = TCBp t" and t: "t < OS_N_TCBS" "t \<notin> the_tasks s"
    and ts: "set ts = the_tasks s" "dll TCBp (tcb_next s) (tcb_prev s) NULL (OSTCBList s) ts"
    using l by (auto simp: lists_ok_def)
  have head: "OSTCBList s = NULL \<or> (\<exists>h<OS_N_TCBS. h \<noteq> t \<and> OSTCBList s = TCBp h)"
    using ts t by (cases ts) (auto simp: the_tasks_def owns_def)
  obtain s2 where r: "OSTaskCreateExt ret pfn arg (Addr a) prio idn pbos sz pext opt s
      = (if OSRunning s then do { s3 \<leftarrow> OS_Sched s2; Some (OS_ERR_NONE, s3) } else Some (OS_ERR_NONE, s2))"
    and n: "new_task t prio s s2" and made: "tcb_made prio (stack_top a) pbos idn sz pext opt (OSTCBTbl s2 t)"
    and pv: "\<forall>u. u \<noteq> t \<longrightarrow> tcb_prev s2 u = (if OSTCBList s = TCBp u then TCBp t else tcb_prev s u)"
      "tcb_prev s2 t = NULL" "OSTCBFreeList s2 = tcb_next s t" "OSTaskCtr s2 = OSTaskCtr s + 1"
    and m: "ptr_mem s2 = stack_mem ret pfn arg a pbos sz opt s"
    using OSTaskCreateExt_steps [OF nest prio entry stk free t(1) head] by blast
  note own = new_task_owns [OF n t p entry]
  have inv2: "sinv s2" by (rule new_task_sinv [OF inv n t p entry])
  have tasks: "the_tasks s2 = insert t (the_tasks s)" using own by (auto simp: the_tasks_def)
  have lists: "lists_ok s2 (t # ts) fs" by (rule new_task_lists [OF l n tasks pv])
  have ctl2: "ctl s2 = ctl s" using n by (simp add: new_task_def)
  obtain s3 where s3: "OS_Sched s2 = Some s3" "kept s s3" "settled s3" "resched s2 s3"
    using sched_kept [OF inv2 ctl2] by (auto simp: ok_iff)
  note q = reschedD [OF s3(4)]
  have o3: "owns s3 = owns s2" by (rule owns_cong [OF q(5)])
  have made3: "tcb_made prio (stack_top a) pbos idn sz pext opt (tcbs s3 t)"
    using made p unfolding q(4) by (simp add: tcb_made_def tcbs_def tcb_bits_ok_def)
  have "lists_ok s3 (t # ts) fs" using lists lists_ok_cong [OF q(5)] by simp
  moreover have "rdy s2 = insert (unat prio) (rdy s)" "waiters s2 = waiters s" "ev_data s2 = ev_data s"
    using n p by (simp_all add: new_task_def rdy_def bm.members_add waiters_def fun_eq_iff)
  moreover have "the_tasks s3 = insert t (the_tasks s)" using tasks o3 by (simp add: the_tasks_def)
  moreover have "OSTCBPrioTbl s3 = (OSTCBPrioTbl s)(unat prio := TCBp t)"
    using n ids_PrioTbl [OF q(5)] by (simp add: new_task_def)
  ultimately show ?thesis
    using r run s3 made3 m own q by (simp add: task_added_def o3 objs_def stores_def)
qed

end
