(* ===== verification/Os_Task_Del.thy ===== *)
theory Os_Task_Del
  imports Os_Task_Inv Os_Flag_Props
begin

text \<open>
  Deletion of a task: it leaves the ready list and every wait list, its control block goes from the
  list of tasks to the free list, and its priority is free again.
\<close>

section \<open>Off the list of tasks\<close>

definition unlinked_tcb :: "os_tcb \<Rightarrow> os_tcb" where
  "unlinked_tcb c = c\<lparr>OSTCBNext := NULL, OSTCBPrev := NULL\<rparr>"

lemma tcb_unlink_ok:
  assumes d: "dll TCBp (tcb_next s) (tcb_prev s) NULL (OSTCBList s) (ys @ t # zs)"
    and dist: "distinct (ys @ t # zs)" and zs: "zs \<noteq> []" and lt: "\<forall>u\<in>set (ys @ t # zs). u < OS_N_TCBS"
  obtains T l where "tcb_unlink t s = Some (s\<lparr>OSTCBTbl := T, OSTCBList := l, OSTCBFreeList := TCBp t\<rparr>)"
    "\<And>u. unlinked_tcb (T u) = unlinked_tcb (OSTCBTbl s u)"
    "\<And>u. u \<noteq> t \<Longrightarrow> u \<notin> set (ys @ zs) \<Longrightarrow> T u = OSTCBTbl s u" "OSTCBNext (T t) = OSTCBFreeList s"
    "dll TCBp (\<lambda>u. OSTCBNext (T u)) (\<lambda>u. OSTCBPrev (T u)) NULL l (ys @ zs)"
proof -
  note a = tcb_links.dll_around [OF d dist]
  define T1 where "T1 = (if ys = [] then OSTCBTbl s
    else (OSTCBTbl s)(last ys := (OSTCBTbl s (last ys))\<lparr>OSTCBNext := tcb_next s t\<rparr>))"
  define T2 where "T2 = T1(hd zs := (T1 (hd zs))\<lparr>OSTCBPrev := tcb_prev s t\<rparr>)"
  define T where "T = T2(t := (T2 t)\<lparr>OSTCBNext := OSTCBFreeList s\<rparr>)"
  define l where "l = (if ys = [] then tcb_next s t else OSTCBList s)"
  have "set ys \<inter> set zs = {}" "t \<notin> set ys" "t \<notin> set zs" using dist by auto
  then have ne: "ys \<noteq> [] \<Longrightarrow> last ys \<noteq> t" "hd zs \<noteq> t" "ys \<noteq> [] \<Longrightarrow> last ys \<noteq> hd zs"
    using zs by (metis last_in_set, metis hd_in_set, metis disjoint_iff hd_in_set last_in_set)
  have b: "ys \<noteq> [] \<Longrightarrow> last ys < OS_N_TCBS" "hd zs < OS_N_TCBS" "t < OS_N_TCBS" using lt zs by auto
  have nx: "tcb_next s t = TCBp (hd zs)" and pv: "tcb_prev s t = (if ys = [] then NULL else TCBp (last ys))"
    using a zs by auto
  have run: "tcb_unlink t s = Some (s\<lparr>OSTCBTbl := T, OSTCBList := l, OSTCBFreeList := TCBp t\<rparr>)"
  proof (cases "ys = []")
    case True
    then show ?thesis
      using ne b nx pv by (simp add: tcb_unlink_def Let_def upd_tcb_def T_def T2_def T1_def l_def)
  next
    case False
    then show ?thesis
      using ne b nx pv by (simp add: tcb_unlink_def Let_def upd_tcb_def T_def T2_def T1_def l_def)
  qed
  have fields: "OSTCBNext (T u) = (if u = t then OSTCBFreeList s else if ys \<noteq> [] \<and> u = last ys then tcb_next s t else tcb_next s u)"
    "OSTCBPrev (T u) = (if u = hd zs then tcb_prev s t else tcb_prev s u)" for u
    using ne by (auto simp: T_def T2_def T1_def)
  have "dll TCBp (\<lambda>u. OSTCBNext (T u)) (\<lambda>u. OSTCBPrev (T u)) NULL (if ys = [] then tcb_next s t else OSTCBList s) (ys @ zs)"
  proof (rule tcb_links.dll_remove [OF d dist])
    fix u assume "u \<in> set (ys @ zs)"
    then have "u \<noteq> t" using dist by auto
    then show "OSTCBNext (T u) = (if ys \<noteq> [] \<and> u = last ys then tcb_next s t else tcb_next s u)"
      "OSTCBPrev (T u) = (if zs \<noteq> [] \<and> u = hd zs then tcb_prev s t else tcb_prev s u)"
      using zs by (simp_all add: fields)
  qed
  moreover have "unlinked_tcb (T u) = unlinked_tcb (OSTCBTbl s u)" for u
    by (simp add: unlinked_tcb_def T_def T2_def T1_def)
  moreover have "T u = OSTCBTbl s u" if "u \<noteq> t" "u \<notin> set (ys @ zs)" for u
  proof -
    have "u \<noteq> hd zs" "ys \<noteq> [] \<Longrightarrow> u \<noteq> last ys" using that zs by auto
    then show ?thesis using that(1) by (auto simp: T_def T2_def T1_def)
  qed
  ultimately show ?thesis using that [OF run] fields(1) [of t] by (simp add: l_def)
qed

section \<open>The invariant without the task\<close>

definition gone :: "nat \<Rightarrow> nat \<Rightarrow> kst \<Rightarrow> kst \<Rightarrow> bool" where
  "gone t p s s' \<longleftrightarrow> OSTCBPrioTbl s' = (OSTCBPrioTbl s)(p := NULL)
     \<and> (\<forall>u. u \<noteq> t \<longrightarrow> unlinked_tcb (OSTCBTbl s' u) = unlinked_tcb (OSTCBTbl s u))
     \<and> OSTCBEventMultiPtr (OSTCBTbl s' t) = OSTCBEventMultiPtr (OSTCBTbl s t)
     \<and> (\<exists>ts. path TCBp (tcb_next s') (OSTCBList s') ts \<and> distinct ts \<and> ts \<noteq> [] \<and> set ts = the_tasks s - {t}
          \<and> OSTCBPrio (OSTCBTbl s' (last ts)) = OS_TASK_IDLE_PRIO)
     \<and> rdy_bm s' = rdy_bm s \<and> ev_bm s' = ev_bm s \<and> ev_data s' = ev_data s
     \<and> OSEventFreeList s' = OSEventFreeList s \<and> OSQTbl s' = OSQTbl s \<and> OSQFreeList s' = OSQFreeList s
     \<and> OSTmrSemSignal s' = OSTmrSemSignal s \<and> cur s' = cur s \<and> ctl s' = ctl s"

lemma gone_fields:
  assumes "gone t p s s'" "u \<noteq> t"
  shows "OSTCBPrio (OSTCBTbl s' u) = OSTCBPrio (OSTCBTbl s u)" "tcb_bits_ok (OSTCBTbl s' u) = tcb_bits_ok (OSTCBTbl s u)"
    "OSTCBEventMultiPtr (OSTCBTbl s' u) = OSTCBEventMultiPtr (OSTCBTbl s u)"
proof -
  have "unlinked_tcb (OSTCBTbl s' u) = unlinked_tcb (OSTCBTbl s u)" using assms by (simp add: gone_def)
  then obtain v w where v: "OSTCBTbl s' u = (OSTCBTbl s u)\<lparr>OSTCBNext := v, OSTCBPrev := w\<rparr>"
    by (cases "OSTCBTbl s' u"; cases "OSTCBTbl s u") (auto simp: unlinked_tcb_def)
  show "OSTCBPrio (OSTCBTbl s' u) = OSTCBPrio (OSTCBTbl s u)" "tcb_bits_ok (OSTCBTbl s' u) = tcb_bits_ok (OSTCBTbl s u)"
    "OSTCBEventMultiPtr (OSTCBTbl s' u) = OSTCBEventMultiPtr (OSTCBTbl s u)"
    by (simp_all add: v tcb_bits_ok_def)
qed

text \<open>The task is known under one priority only, and nothing has it in a list.\<close>

definition idle_entry :: "nat \<Rightarrow> nat \<Rightarrow> kst \<Rightarrow> bool" where
  "idle_entry t p s \<longleftrightarrow> owns s t p \<and> (\<forall>q<64. OSTCBPrioTbl s q = TCBp t \<longrightarrow> q = p)
     \<and> (\<forall>e<OS_MAX_EVENTS. ev_type s e = OS_EVENT_TYPE_MUTEX \<longrightarrow> ev_ptr s e \<noteq> TCBp t)"

lemma gone_owns:
  assumes i: "idle_entry t p s" and g: "gone t p s s'"
  shows "owns s' u q \<longleftrightarrow> owns s u q \<and> u \<noteq> t"
proof -
  have tbl: "OSTCBPrioTbl s' = (OSTCBPrioTbl s)(p := NULL)" using g by (simp add: gone_def)
  have i': "OSTCBPrioTbl s p = TCBp t" "\<And>q. q < 64 \<Longrightarrow> OSTCBPrioTbl s q = TCBp t \<Longrightarrow> q = p"
    using i by (simp_all add: idle_entry_def owns_def)
  show ?thesis
  proof (cases "u = t")
    case True
    have "\<not> owns s' t q"
    proof
      assume "owns s' t q"
      then have "q < 64" "q \<noteq> p" "OSTCBPrioTbl s q = TCBp t"
        using owns_less_64 owns_PrioTbl [of s' t q] by (auto simp: tbl split: if_splits)
      then show False using i'(2) by blast
    qed
    then show ?thesis using True by simp
  next
    case False
    then show ?thesis
      using gone_fields(1,2) [OF g False] i'(1) by (cases "q = p") (simp_all add: owns_def tbl)
  qed
qed

lemma gone_kinv0:
  assumes inv: "kinv0 s" and i: "idle_entry t p s" and g: "gone t p s s'"
    and out: "p \<notin> rdy s" "\<forall>e<OS_MAX_EVENTS. p \<notin> waiters s e"
  shows "kinv0 s'"
proof -
  note own = gone_owns [OF i g]
  have own_t: "owns s t p" using i by (simp add: idle_entry_def)
  have owned: "owned s' q" if q: "owned s q" "q \<noteq> p" for q
  proof -
    from q(1) obtain u where u: "owns s u q" by (rule ownedE)
    then have "u \<noteq> t" using q(2) own_t by (auto simp: owns_def)
    then have "owns s' u q" using own u by simp
    then show ?thesis by (rule owns_owned)
  qed
  have tbl: "OSTCBPrioTbl s' = (OSTCBPrioTbl s)(p := NULL)" using g by (simp add: gone_def)
  have entry: "entry_ok s' (OSTCBPrioTbl s' q)" if "q < 64" for q
  proof (cases "q = p")
    case False
    have e: "entry_ok s (OSTCBPrioTbl s q)" using inv that by (simp add: kinv0_def)
    show ?thesis
    proof (cases "OSTCBPrioTbl s q")
      case (TCBp u)
      then have "u \<noteq> t" using i that False by (auto simp: idle_entry_def)
      then show ?thesis using e own gone_fields(1) [OF g] False TCBp by (simp add: entry_ok_def tbl)
    qed (use e False in \<open>simp_all add: entry_ok_def tbl\<close>)
  qed (simp add: tbl entry_ok_def)
  have same: "rdy s' = rdy s" "waiters s' = waiters s"
    using g by (simp_all add: gone_def rdy_def waiters_def fun_eq_iff)
  have multi: "multi_ok (OSTCBEventMultiPtr (OSTCBTbl s' u))" if "u < OS_N_TCBS" for u
  proof -
    have "OSTCBEventMultiPtr (OSTCBTbl s' u) = OSTCBEventMultiPtr (OSTCBTbl s u)"
      using g gone_fields(3) [OF g, of u] by (cases "u = t") (simp_all add: gone_def)
    then show ?thesis using inv that by (simp add: kinv0_def)
  qed
  have tasks: "the_tasks s' = the_tasks s - {t}" using own by (auto simp: the_tasks_def)
  obtain ts where "path TCBp (tcb_next s') (OSTCBList s') ts" "distinct ts" "ts \<noteq> []" "set ts = the_tasks s - {t}"
    "OSTCBPrio (OSTCBTbl s' (last ts)) = OS_TASK_IDLE_PRIO"
    using g unfolding gone_def by blast
  with tasks have "tasks_ok s'" unfolding tasks_ok_def the_tasks_def by (intro exI [of _ ts]) simp
  moreover have "\<forall>q<64. q \<in> rdy s' \<longrightarrow> owned s' q"
  proof (intro allI impI)
    fix q assume "q < 64" "q \<in> rdy s'"
    then show "owned s' q" using out(1) inv same by (intro owned) (auto simp: kinv0_def)
  qed
  moreover have "\<forall>e<OS_MAX_EVENTS. \<forall>q<64. q \<in> waiters s' e \<longrightarrow> owned s' q"
  proof (intro allI impI)
    fix e q assume "e < OS_MAX_EVENTS" "q < 64" "q \<in> waiters s' e"
    then show "owned s' q" using out(2) inv same by (intro owned) (auto simp: kinv0_def)
  qed
  ultimately show ?thesis
    using inv entry multi same g unfolding kinv0_def by (simp add: gone_def)
qed

lemma gone_oinv:
  assumes inv: "oinv s" and i: "idle_entry t p s" and g: "gone t p s s'"
  shows "oinv s'"
proof (rule oinv_tasks [OF inv])
  fix e
  assume e: "e < OS_MAX_EVENTS" "ev_type s e = OS_EVENT_TYPE_MUTEX"
  have m: "mutex_ok s e" using oinvD(4) [OF inv e(1)] e(2) by (simp add: obj_ok_def)
  have d: "ev_data s' e = ev_data s e" using g by (simp add: gone_def)
  have tbl: "OSTCBPrioTbl s' = (OSTCBPrioTbl s)(p := NULL)" using g by (simp add: gone_def)
  have "ev_ptr s e \<noteq> TCBp t" "OSTCBPrioTbl s p = TCBp t"
    using i e by (auto simp: idle_entry_def owns_def)
  then show "mutex_ok s' e"
    using m unfolding mutex_ok_def ev_data_fields [OF d] tbl
    by (auto simp: Let_def split: vptr.splits)
qed (use g in \<open>simp_all add: gone_def waiters_def\<close>)

section \<open>Off every list\<close>

text \<open>The control block says what the task waits for.\<close>

definition waits_for :: "os_tcb \<Rightarrow> nat set" where
  "waits_for c = (case OSTCBEventPtr c of EVp e \<Rightarrow> {e} | _ \<Rightarrow> {}) \<union> multi_evs c"

definition waits_known :: "nat \<Rightarrow> nat \<Rightarrow> kst \<Rightarrow> bool" where
  "waits_known t p s \<longleftrightarrow> (OSTCBEventPtr (OSTCBTbl s t) = NULL \<or> ev_at (OSTCBEventPtr (OSTCBTbl s t)) \<noteq> None)
     \<and> (\<forall>e<OS_MAX_EVENTS. p \<in> waiters s e \<longrightarrow> e \<in> waits_for (OSTCBTbl s t))
     \<and> (OSTCBFlagNode (OSTCBTbl s t) = NULL
        \<or> OSTCBFlagNode (OSTCBTbl s t) = FNp t \<and> (\<exists>g<OS_MAX_FLAGS. \<exists>ns. flag_list s g ns \<and> t \<in> set ns))"

lemma sinv_leave:
  assumes "sinv s" "kinv0 s'" "frames s s'" "cur s' = cur s" "waiters s' = leave p E (waiters s)"
  shows "sinv s'"
proof -
  have "oinv s'" by (rule oinv_frames [OF sinvD(4) [OF assms(1)] assms(3)]) (auto simp: assms(5) leave_def)
  moreover have "cur_ok s'"
    using cur_ok_same [OF sinvD(3) [OF assms(1)], of s'] assms(3,4) by (simp add: frames_def)
  ultimately show ?thesis using assms(2) by (simp add: sinv_def kinv_def)
qed

definition off_lists :: "nat \<Rightarrow> kst \<Rightarrow> kst \<Rightarrow> bool" where
  "off_lists p s s' \<longleftrightarrow> sinv s' \<and> ids s' = ids s \<and> ctl s' = ctl s \<and> cur s' = cur s \<and> ev_data s' = ev_data s
     \<and> rdy s' = rdy s - {p} \<and> (\<forall>e<OS_MAX_EVENTS. waiters s' e = waiters s e - {p})"

lemma remove_event_ok:
  assumes inv: "sinv s" and own: "owns s t p" and v: "v = NULL \<or> ev_at v \<noteq> None"
  shows "ok (if v \<noteq> NULL then OS_EventTaskRemove (TCBp t) v s else Some s)
    (\<lambda>s'. sinv s' \<and> frames s s' \<and> cur s' = cur s \<and> rdy s' = rdy s
       \<and> waiters s' = leave p (case v of EVp e \<Rightarrow> {e} | _ \<Rightarrow> {}) (waiters s))"
proof (cases "v = NULL")
  case False
  then obtain e where e: "v = EVp e" "e < OS_MAX_EVENTS" using v by auto
  show ?thesis
    unfolding e(1)
    by (simp, rule ok_mono [OF OS_EventTaskRemove_ok [OF sinvD(2) [OF inv] own e(2)]])
      (auto simp: rdy_def intro: sinv_leave [OF inv])
qed (use inv in \<open>simp add: frames_def\<close>)

lemma remove_multi_ok:
  assumes inv: "sinv s" and own: "owns s t p" and v: "multi_ok v"
  shows "ok (case v of None \<Rightarrow> Some s | Some es \<Rightarrow> OS_EventTaskRemoveMulti (TCBp t) es s)
    (\<lambda>s'. sinv s' \<and> frames s s' \<and> cur s' = cur s \<and> rdy s' = rdy s
       \<and> waiters s' = leave p (case v of None \<Rightarrow> {} | Some es \<Rightarrow> evs_of es) (waiters s))"
proof (cases v)
  case (Some es)
  then have "list_all (\<lambda>v. ev_at v \<noteq> None) es" using v by (simp add: multi_ok_def)
  from ev_del_all_ok [OF sinvD(2) [OF inv] own this refl] show ?thesis
    using owns_index [OF own]
    by (auto simp: Some OS_EventTaskRemoveMulti_def Let_def rdy_def elim!: ok_mono intro: sinv_leave [OF inv])
qed (use inv in \<open>simp add: frames_def\<close>)

lemma task_out_ok:
  assumes inv: "sinv s" and own: "owns s t p" and idle: "p \<noteq> 63" and w: "waits_known t p s"
  shows "ok (task_out t s) (off_lists p s)"
proof -
  let ?c = "OSTCBTbl s t"
  obtain s1 where r1: "rdy_del (OSTCBY ?c) (OSTCBBitY ?c) (OSTCBBitX ?c) s = Some s1"
    and s1: "sinv s1" "s1 = set_rdy_bm (rdy_bm s1) s" "rdy s1 = rdy s - {p}"
    using make_unready [OF inv own idle] by (auto simp: ok_iff)
  have v1: "ids s1 = ids s" "ctl s1 = ctl s" "cur s1 = cur s" "waiters s1 = waiters s" "objs s1 = objs s"
    by (subst s1(2), simp)+
  have own1: "owns s1 t p" using own owns_cong [OF v1(1)] by simp
  obtain s2 where r2: "(if OSTCBEventPtr ?c \<noteq> NULL then OS_EventTaskRemove (TCBp t) (OSTCBEventPtr ?c) s1 else Some s1) = Some s2"
    and s2: "sinv s2" "frames s1 s2" "cur s2 = cur s1" "rdy s2 = rdy s1"
      "waiters s2 = leave p (case OSTCBEventPtr ?c of EVp e \<Rightarrow> {e} | _ \<Rightarrow> {}) (waiters s1)"
    using remove_event_ok [OF s1(1) own1, of "OSTCBEventPtr ?c"] w by (auto simp: ok_iff waits_known_def)
  have own2: "owns s2 t p" using own1 owns_cong [of s2 s1] s2(2) by (simp add: frames_def)
  have "multi_ok (OSTCBEventMultiPtr ?c)" using sinvD(2) [OF inv] owns_index [OF own] by (simp add: kinv0_def)
  then obtain s3 where r3: "(case OSTCBEventMultiPtr ?c of None \<Rightarrow> Some s2 | Some es \<Rightarrow> OS_EventTaskRemoveMulti (TCBp t) es s2) = Some s3"
    and s3: "sinv s3" "frames s2 s3" "cur s3 = cur s2" "rdy s3 = rdy s2"
      "waiters s3 = leave p (case OSTCBEventMultiPtr ?c of None \<Rightarrow> {} | Some es \<Rightarrow> evs_of es) (waiters s2)"
    using remove_multi_ok [OF s2(1) own2] by (auto simp: ok_iff)
  have o3: "objs s3 = objs s" "ids s3 = ids s" "ctl s3 = ctl s" using s2(2) s3(2) v1 by (simp_all add: frames_def)
  have f3: "OSFlagNodes s3 = OSFlagNodes s" "OSFlagTbl s3 = OSFlagTbl s" "ev_data s3 = ev_data s"
    using o3(1) by (simp_all add: objs_def stores_def)
  have w3: "waiters s3 e = waiters s e - {p}" if "e < OS_MAX_EVENTS" for e
  proof -
    have "waiters s3 = leave p (waits_for ?c) (waiters s)"
      using s2(5) s3(5) v1(4) by (simp add: waits_for_def multi_evs_def Un_commute)
    then show ?thesis using w that by (cases "e \<in> waits_for ?c") (auto simp: waits_known_def)
  qed
  obtain s4 where r4: "(if OSTCBFlagNode ?c \<noteq> NULL then OS_FlagUnlink (OSTCBFlagNode ?c) s3 else Some s3) = Some s4"
    and s4: "unread s3 s4"
  proof (cases "OSTCBFlagNode ?c = NULL")
    case False
    then obtain g ns where g: "OSTCBFlagNode ?c = FNp t" "g < OS_MAX_FLAGS" "flag_list s g ns" "t \<in> set ns"
      using w by (auto simp: waits_known_def)
    then obtain ys zs where ns: "ns = ys @ t # zs" using split_list by metis
    have "flag_list s3 g (ys @ t # zs)"
      using g(3) ns flag_list_cong [of ns s3 s g] f3 owns_cong [OF o3(2)] by simp
    from OS_FlagUnlink_ok [OF this g(2)] obtain s4 where "OS_FlagUnlink (FNp t) s3 = Some s4" "unlinked g t s3 s4"
      by (auto simp: ok_iff)
    then show ?thesis using that [of s4] g(1) by (simp add: unlinked_def)
  qed (use that [of s3] in simp)
  have "task_out t s = Some s4"
    using r1 r2 r3 r4 by (simp add: task_out_def Let_def)
  moreover have "off_lists p s s4"
    using unread_sinv [OF s3(1) s4] unreadD [OF s4] o3 f3(3) s1(3) s2(3,4) s3(3,4) v1(3) w3 by (simp add: off_lists_def)
  ultimately show ?thesis by simp
qed

section \<open>Deletion\<close>

text \<open>What may be deleted: a task other than the idle task that owns no mutex.\<close>

definition may_delete :: "nat \<Rightarrow> nat \<Rightarrow> kst \<Rightarrow> bool" where
  "may_delete t p s \<longleftrightarrow> idle_entry t p s \<and> p \<noteq> 63 \<and> waits_known t p s"

definition task_gone :: "nat \<Rightarrow> nat \<Rightarrow> kst \<Rightarrow> kst \<Rightarrow> bool" where
  "task_gone t p s s' \<longleftrightarrow> OSTCBPrioTbl s' = (OSTCBPrioTbl s)(p := NULL) \<and> the_tasks s' = the_tasks s - {t}
     \<and> (\<forall>u q. u \<noteq> t \<longrightarrow> owns s u q \<longrightarrow> owns s' u q) \<and> rdy s' = rdy s - {p}
     \<and> (\<forall>e<OS_MAX_EVENTS. waiters s' e = waiters s e - {p}) \<and> ev_data s' = ev_data s"

lemma idle_entry_cong:
  assumes "idle_entry t p s" "ids s' = ids s" "ev_data s' = ev_data s"
  shows "idle_entry t p s'"
  using assms(1) owns_cong [OF assms(2)] ids_PrioTbl [OF assms(2)] ev_data_fields [OF fun_cong [OF assms(3)]]
  by (simp add: idle_entry_def)

lemma tcb_path_unique: "path TCBp nx p xs \<Longrightarrow> path TCBp nx p ys \<Longrightarrow> xs = ys"
proof (induction xs arbitrary: p ys)
  case Nil
  then show ?case by (cases ys) auto
next
  case (Cons x xs)
  then show ?case by (cases ys) auto
qed

lemma idle_last:
  assumes "kinv0 s" "lists_ok s ts fs"
  shows "ts \<noteq> []" "OSTCBPrio (OSTCBTbl s (last ts)) = OS_TASK_IDLE_PRIO"
proof -
  obtain us where us: "path TCBp (tcb_next s) (OSTCBList s) us" "us \<noteq> []" "OSTCBPrio (OSTCBTbl s (last us)) = OS_TASK_IDLE_PRIO"
    using assms(1) by (auto simp: kinv0_def tasks_ok_def)
  have "path TCBp (tcb_next s) (OSTCBList s) ts" using assms(2) by (auto simp: lists_ok_def intro: dll_path)
  then have "ts = us" using us(1) by (rule tcb_path_unique)
  then show "ts \<noteq> []" "OSTCBPrio (OSTCBTbl s (last ts)) = OS_TASK_IDLE_PRIO" using us by simp_all
qed

lemma task_retire_ok:
  assumes inv: "kinv0 s" and i: "idle_entry t (unat prio) s" and l: "lists_ok s ts fs" and idle: "unat prio \<noteq> 63"
    and lock: "OSLockNesting s < 255"
  obtains s' where "task_retire prio t s = Some s'" "gone t (unat prio) s s'" "lists_ok s' (remove1 t ts) (t # fs)"
    "OSRunning s' = OSRunning s"
proof -
  let ?p = "unat prio"
  have own: "owns s t ?p" using i by (simp add: idle_entry_def)
  have p64: "?p < 64" by (rule owns_less_64 [OF own])
  have d: "dll TCBp (tcb_next s) (tcb_prev s) NULL (OSTCBList s) ts" and dist: "distinct ts" and set: "set ts = the_tasks s"
    and fs: "path TCBp (tcb_next s) (OSTCBFreeList s) fs" "distinct fs" "set fs = {t. t < OS_N_TCBS} - the_tasks s"
    and ctr: "unat (OSTaskCtr s) = length ts"
    using l by (simp_all add: lists_ok_def)
  have "t \<in> set ts" using own set by (auto simp: the_tasks_def)
  then obtain ys zs where ts: "ts = ys @ t # zs" using split_list by metis
  note last = idle_last [OF inv l]
  have "last ts \<noteq> t" using last(2) owns_prio [OF own] idle by auto
  then have zs: "zs \<noteq> []" using ts by auto
  let ?f = "\<lambda>c. c\<lparr>OSTCBDly := 0, OSTCBStat := OS_STAT_RDY, OSTCBStatPend := OS_STAT_PEND_OK\<rparr>"
  define s1 where "s1 = (upd_tcb t ?f s)\<lparr>OSTaskCtr := OSTaskCtr s - 1, OSTCBPrioTbl := (OSTCBPrioTbl s)(?p := NULL)\<rparr>"
  have t1: "tcb_next s1 = tcb_next s" "tcb_prev s1 = tcb_prev s" "OSTCBList s1 = OSTCBList s" "OSTCBFreeList s1 = OSTCBFreeList s"
    by (simp_all add: s1_def upd_tcb_def fun_eq_iff)
  have "dll TCBp (tcb_next s1) (tcb_prev s1) NULL (OSTCBList s1) (ys @ t # zs)" using d by (simp add: t1 ts)
  moreover have "distinct (ys @ t # zs)" using dist ts by simp
  moreover have "\<forall>u\<in>set (ys @ t # zs). u < OS_N_TCBS" using set ts by (auto simp: the_tasks_def owns_def)
  ultimately obtain T li where r: "tcb_unlink t s1 = Some (s1\<lparr>OSTCBTbl := T, OSTCBList := li, OSTCBFreeList := TCBp t\<rparr>)"
    and T: "\<And>u. unlinked_tcb (T u) = unlinked_tcb (OSTCBTbl s1 u)"
      "\<And>u. u \<noteq> t \<Longrightarrow> u \<notin> set (ys @ zs) \<Longrightarrow> T u = OSTCBTbl s1 u" "OSTCBNext (T t) = OSTCBFreeList s1"
      "dll TCBp (\<lambda>u. OSTCBNext (T u)) (\<lambda>u. OSTCBPrev (T u)) NULL li (ys @ zs)"
    using zs by (elim tcb_unlink_ok) blast+
  define s' where "s' = upd_tcb t (\<lambda>c. c\<lparr>OSTCBTaskName := unnamed\<rparr>) (s1\<lparr>OSTCBTbl := T, OSTCBList := li, OSTCBFreeList := TCBp t\<rparr>)"
  have run: "task_retire prio t s = Some s'"
  proof -
    let ?s = "upd_tcb t ?f s"
    have "OSLockNesting s + 1 \<noteq> 0"
    proof
      assume "OSLockNesting s + 1 = 0"
      then have "OSLockNesting s = - 1" by (simp add: eq_neg_iff_add_eq_0)
      then show False using lock by simp
    qed
    moreover have n: "OSLockNesting ?s = OSLockNesting s" by (simp add: upd_tcb_def)
    moreover have "?s\<lparr>OSLockNesting := OSLockNesting s, OSTaskCtr := OSTaskCtr ?s - 1,
        OSTCBPrioTbl := (OSTCBPrioTbl s)(?p := NULL)\<rparr> = s1"
      by (rule kst.equality) (simp_all add: s1_def upd_tcb_def)
    ultimately show ?thesis
      using lock p64 r by (simp add: task_retire_def Let_def set_prio_tbl_def word_gt_0 s'_def)
  qed
  have tbl: "OSTCBPrioTbl s' = (OSTCBPrioTbl s)(?p := NULL)" by (simp add: s'_def s1_def upd_tcb_def)
  have Tt: "unlinked_tcb (OSTCBTbl s' u) = unlinked_tcb (OSTCBTbl s u)" if "u \<noteq> t" for u
    using that T(1) [of u] by (simp add: s'_def s1_def upd_tcb_def)
  have links: "tcb_next s' = (\<lambda>u. OSTCBNext (T u))" "tcb_prev s' = (\<lambda>u. OSTCBPrev (T u))" "OSTCBList s' = li"
    "OSTCBFreeList s' = TCBp t" "OSTaskCtr s' = OSTaskCtr s - 1"
    by (auto simp: s'_def s1_def upd_tcb_def fun_eq_iff)
  have multi: "OSTCBEventMultiPtr (OSTCBTbl s' t) = OSTCBEventMultiPtr (OSTCBTbl s t)"
    using arg_cong [OF T(1) [of t], of OSTCBEventMultiPtr] by (simp add: unlinked_tcb_def s'_def s1_def upd_tcb_def)
  have dl: "dll TCBp (tcb_next s') (tcb_prev s') NULL (OSTCBList s') (ys @ zs)" using T(4) by (simp add: links)
  have rest: "set (ys @ zs) = the_tasks s - {t}" "distinct (ys @ zs)" "last (ys @ zs) = last ts"
    using set dist ts zs by auto
  have "OSTCBPrio (OSTCBTbl s' (last ts)) = OS_TASK_IDLE_PRIO"
    using arg_cong [OF Tt [OF \<open>last ts \<noteq> t\<close>], of OSTCBPrio] last(2) by (simp add: unlinked_tcb_def)
  then have g: "gone t ?p s s'"
    unfolding gone_def using tbl Tt multi dll_path [OF dl] rest zs
    by (auto simp: s'_def s1_def upd_tcb_def rdy_bm_def ev_bm_def ev_data_def cur_def ctl_def fun_eq_iff intro!: exI [of _ "ys @ zs"])
  have free: "path TCBp (tcb_next s') (OSTCBFreeList s') (t # fs)"
  proof -
    have nt: "t \<notin> set fs" "set fs \<inter> set ts = {}" using fs(3) own set by (auto simp: the_tasks_def)
    have "tcb_next s' u = tcb_next s u" if "u \<in> set fs" for u
    proof -
      have "u \<noteq> t" "u \<notin> set (ys @ zs)" using that nt ts by auto
      then have "T u = OSTCBTbl s1 u" by (rule T(2))
      then show ?thesis using fun_cong [OF t1(1), of u] fun_cong [OF links(1), of u] by simp
    qed
    then have "path TCBp (tcb_next s') (OSTCBFreeList s) fs"
      using fs(1) path_cong [of fs "tcb_next s'" "tcb_next s"] by metis
    then show ?thesis using T(3) links t1(4) by simp
  qed
  have tasks: "the_tasks s' = the_tasks s - {t}" using gone_owns [OF i g] by (auto simp: the_tasks_def)
  have "remove1 t ts = ys @ zs" using dist ts by (simp add: remove1_append)
  moreover have "unat (OSTaskCtr s - 1) = length (ys @ zs)"
  proof -
    have "unat (OSTaskCtr s) = Suc (length (ys @ zs))" using ctr ts by simp
    then show ?thesis using unat_minus_one [of "OSTaskCtr s"] by (metis diff_Suc_1 nat.distinct(1) unat_0)
  qed
  moreover have "set (t # fs) = {u. u < OS_N_TCBS} - the_tasks s'"
    unfolding tasks using fs(3) owns_index [OF own] own by (auto simp: the_tasks_def)
  moreover have "distinct (t # fs)" using fs(2,3) own by (auto simp: the_tasks_def)
  ultimately have "lists_ok s' (remove1 t ts) (t # fs)"
    unfolding lists_ok_def using dl rest(1,2) free links(5) tasks by simp
  moreover have "OSRunning s' = OSRunning s" by (simp add: s'_def s1_def upd_tcb_def)
  ultimately show ?thesis using that run g by blast
qed

lemma OSTaskDel_ok:
  assumes inv: "sinv s" and l: "lists_ok s ts fs" and run: "OSRunning s" and nest: "OSIntNesting s = 0"
    and prio: "prio < OS_LOWEST_PRIO \<or> prio = OS_PRIO_SELF" and entry: "OSTCBPrioTbl s (unat (the_prio prio s)) = TCBp t"
    and may: "may_delete t (unat (the_prio prio s)) s" and lock: "OSLockNesting s < 255"
    and self: "the_prio prio s = OSPrioCur s \<Longrightarrow> OSLockNesting s = 0"
  shows "ok (OSTaskDel prio s) (\<lambda>(r, s'). kept s s' \<and> settled s' \<and> r = OS_ERR_NONE
    \<and> lists_ok s' (remove1 t ts) (t # fs) \<and> task_gone t (unat (the_prio prio s)) s s')"
proof -
  let ?q = "the_prio prio s"
  have le: "prio \<le> OS_LOWEST_PRIO \<or> prio = OS_PRIO_SELF" using prio by auto
  note sp = self_prio_ok [OF inv le]
  have i: "idle_entry t (unat ?q) s" and idle: "unat ?q \<noteq> 63" and w: "waits_known t (unat ?q) s"
    using may by (simp_all add: may_delete_def)
  have own: "owns s t (unat ?q)" using i by (simp add: idle_entry_def)
  obtain s1 where r1: "task_out t s = Some s1" and s1: "off_lists (unat ?q) s s1"
    using task_out_ok [OF inv own idle w] by (auto simp: ok_iff)
  have inv1: "sinv s1" and v1: "ids s1 = ids s" "ctl s1 = ctl s" "cur s1 = cur s" "ev_data s1 = ev_data s"
    "rdy s1 = rdy s - {unat ?q}" "\<forall>e<OS_MAX_EVENTS. waiters s1 e = waiters s e - {unat ?q}"
    using s1 by (simp_all add: off_lists_def)
  have i1: "idle_entry t (unat ?q) s1" by (rule idle_entry_cong [OF i v1(1,4)])
  have l1: "lists_ok s1 ts fs" using l lists_ok_cong [OF v1(1)] by simp
  have lock1: "OSLockNesting s1 < 255" using lock v1(2) by (simp add: ctl_def)
  obtain s2 where r2: "task_retire ?q t s1 = Some s2" and g: "gone t (unat ?q) s1 s2"
    and l2: "lists_ok s2 (remove1 t ts) (t # fs)" and run2: "OSRunning s2 = OSRunning s1"
    using task_retire_ok [OF sinvD(2) [OF inv1] i1 l1 idle lock1] by blast
  have out: "unat ?q \<notin> rdy s1" "\<forall>e<OS_MAX_EVENTS. unat ?q \<notin> waiters s1 e" using v1(5,6) by auto
  have k2: "kinv0 s2" by (rule gone_kinv0 [OF sinvD(2) [OF inv1] i1 g out])
  have o2: "oinv s2" by (rule gone_oinv [OF sinvD(4) [OF inv1] i1 g])
  note own2 = gone_owns [OF i1 g]
  have g2: "cur s2 = cur s" "ctl s2 = ctl s" "rdy s2 = rdy s1" "waiters s2 = waiters s1" "ev_data s2 = ev_data s"
    using g v1 by (simp_all add: gone_def rdy_def waiters_def fun_eq_iff)
  have go: "OSRunning s2" using run run2 v1(2) by (simp add: ctl_def)
  have exec: "OSTaskDel prio s = do { s \<leftarrow> OS_Sched s2; Some (OS_ERR_NONE, s) }"
    using nest prio sp(1,3) entry owns_index [OF own] r1 r2 go
    by (auto simp: OSTaskDel_def not_le)
  have sched: "ok (OS_Sched s2) (\<lambda>s3. kinv s3 \<and> resched s2 s3 \<and> settled s3)"
  proof (cases "?q = OSPrioCur s")
    case True
    have nest2: "OSIntNesting s2 = 0" "OSLockNesting s2 = 0" using nest self [OF True] g2(2) by (simp_all add: ctl_def)
    have "unat (OSPrioCur s2) \<noteq> Min (rdy s2)"
      using highest_ready(3) [OF k2] out(1) True g2(1,3) by (auto simp: cur_def)
    from switch_kinv0 [OF k2 disjI2 [OF this]] show ?thesis
      by (simp add: OS_Sched_switch nest2) (auto elim!: ok_mono simp: settled_def reschedD)
  next
    case False
    have "cur_ix s \<noteq> t"
      using False sinv_cur(2) [OF inv] own by (auto simp: owns_def word_unat_eq_iff)
    then have "owns s2 (cur_ix s) (unat (OSPrioCur s))"
      using own2 sinv_cur(2) [OF inv] owns_cong [OF v1(1)] by simp
    then have "cur_ok s2" using g2(1) sinv_cur(1) [OF inv] by (simp add: cur_ok_def cur_def)
    then have "kinv s2" using k2 by (simp add: kinv_def)
    from OS_Sched_ok [OF this] show ?thesis by (auto elim!: ok_mono)
  qed
  then obtain s3 where r3: "OS_Sched s2 = Some s3" and s3: "kinv s3" "resched s2 s3" "settled s3"
    by (auto simp: ok_iff)
  note q = reschedD [OF s3(2)]
  have "sinv s3" using s3(1) oinv_resched [OF o2 s3(2)] by (simp add: sinv_def)
  moreover have "lists_ok s3 (remove1 t ts) (t # fs)" using l2 lists_ok_cong [OF q(5)] by simp
  moreover have "task_gone t (unat ?q) s s3"
  proof -
    have o3: "owns s3 u r \<longleftrightarrow> owns s u r \<and> u \<noteq> t" for u r
      using own2 owns_cong [OF q(5)] owns_cong [OF v1(1)] by simp
    then have "the_tasks s3 = the_tasks s - {t}" by (auto simp: the_tasks_def)
    moreover have "OSTCBPrioTbl s3 = (OSTCBPrioTbl s)(unat ?q := NULL)"
      using g ids_PrioTbl [OF q(5)] ids_PrioTbl [OF v1(1)] by (simp add: gone_def)
    moreover have "ev_data s3 = ev_data s" using q(6) g2(5) by (simp add: objs_def)
    ultimately show ?thesis
      using o3 q(2,3) g2(3,4) v1(5,6) by (simp add: task_gone_def)
  qed
  ultimately show ?thesis
    using exec r3 s3(3) q(7) g2(2) by simp
qed

end
