(* ===== verification/Os_Task_Props.thy ===== *)
theory Os_Task_Props
  imports Os_Task_Del Os_Demo_Runs
begin

text \<open>
  The properties of the calls on tasks: what creation adds and deletion takes away, suspension and
  resumption, the errors of creation, and the stack check.
\<close>

section \<open>Creation and deletion under the contract of a call\<close>

text \<open>The control blocks are all in the list of tasks or in the free list.\<close>

definition tcbs_ok :: "kst \<Rightarrow> bool" where
  "tcbs_ok s \<longleftrightarrow> (\<exists>ts fs. lists_ok s ts fs)"

lemma free_list_cases:
  assumes "lists_ok s ts fs"
  obtains "fs = []" "OSTCBFreeList s = NULL" | t gs where "fs = t # gs" "OSTCBFreeList s = TCBp t"
  using assms by (cases fs) (auto simp: lists_ok_def)

text \<open>The error that creation reports.\<close>

definition create_err :: "8 word \<Rightarrow> kst \<Rightarrow> os_err" where
  "create_err prio s =
     (if prio > OS_LOWEST_PRIO then OS_ERR_PRIO_INVALID
      else if OSIntNesting s > 0 then OS_ERR_TASK_CREATE_ISR
      else if OSTCBPrioTbl s (unat prio) \<noteq> NULL then OS_ERR_PRIO_EXIST
      else if OSTCBFreeList s = NULL then OS_ERR_TASK_NO_MORE_TCB
      else OS_ERR_NONE)"

lemma OSTaskCreateExt_result:
  assumes inv: "sinv s" and l: "lists_ok s ts fs" and run: "OSRunning s" and stk: "stack_arg (Addr a) pbos sz opt"
  shows "ok (OSTaskCreateExt ret pfn arg (Addr a) prio idn pbos sz pext opt s) (\<lambda>(r, s'). kept s s' \<and> tcbs_ok s'
    \<and> r = create_err prio s \<and> (r \<noteq> OS_ERR_NONE \<longrightarrow> s' = s\<lparr>ptr_mem := ptr_mem s'\<rparr>)
    \<and> (r \<noteq> OS_ERR_NONE \<and> r \<noteq> OS_ERR_TASK_NO_MORE_TCB \<longrightarrow> s' = s))"
proof (cases "prio > OS_LOWEST_PRIO \<or> OSIntNesting s > 0 \<or> OSTCBPrioTbl s (unat prio) \<noteq> NULL")
  case True
  have "tcbs_ok s" using l by (auto simp: tcbs_ok_def)
  moreover have "prio_tbl s prio = Some (OSTCBPrioTbl s (unat prio))" if "\<not> prio > OS_LOWEST_PRIO"
    using that by (simp add: prio_tbl_def word_less_nat_alt not_less)
  ultimately show ?thesis using True inv by (auto simp: OSTaskCreateExt_def create_err_def)
next
  case False
  then have nest: "OSIntNesting s = 0" and prio: "prio \<le> OS_LOWEST_PRIO" and entry: "OSTCBPrioTbl s (unat prio) = NULL"
    by (auto simp: word_gt_0 not_less)
  have err: "create_err prio s = (if OSTCBFreeList s = NULL then OS_ERR_TASK_NO_MORE_TCB else OS_ERR_NONE)"
    using False by (simp add: create_err_def)
  from l show ?thesis
  proof (cases rule: free_list_cases)
    case 1
    have u: "unread s (s\<lparr>ptr_mem := m\<rparr>)" for m
      by (simp add: unread_def ids_def ctl_def cur_def rdy_bm_def ev_bm_def ev_data_def clock_def)
    have "tcbs_ok (s\<lparr>ptr_mem := m\<rparr>)" for m
      using l lists_ok_cong [OF unreadD(1) [OF u]] by (auto simp: tcbs_ok_def)
    then show ?thesis
      using OSTaskCreateExt_full [OF nest prio entry stk 1(2)] unread_kept [OF inv u] 1(2) by (simp add: err)
  next
    case (2 t gs)
    show ?thesis
      by (rule ok_mono2 [OF OSTaskCreateExt_ok [OF inv l [unfolded 2(1)] run nest prio entry stk]])
        (use 2(2) in \<open>auto simp: err tcbs_ok_def\<close>)
  qed
qed

lemma OSTaskCreateExt_tcbs:
  assumes inv: "sinv s" and l: "tcbs_ok s" and run: "OSRunning s" and stk: "stack_arg ptos pbos sz opt"
  shows "ok (OSTaskCreateExt ret pfn arg ptos prio idn pbos sz pext opt s) (\<lambda>(r, s'). kept s s' \<and> tcbs_ok s')"
proof -
  obtain a where a: "ptos = Addr a" using stk by (auto simp: stack_arg_def)
  obtain ts fs where "lists_ok s ts fs" using l by (auto simp: tcbs_ok_def)
  show ?thesis
    unfolding a
    by (rule ok_mono2 [OF OSTaskCreateExt_result [OF inv \<open>lists_ok s ts fs\<close> run stk [unfolded a]]]) simp
qed

interpretation TaskCreateExt: sched_call
  "\<lambda>s. tcbs_ok s \<and> OSRunning s \<and> stack_arg ptos pbos sz opt" "OSTaskCreateExt ret pfn arg ptos prio idn pbos sz pext opt"
  for ret pfn arg ptos prio idn pbos sz pext opt
proof (rule sched_callI, elim conjE)
  fix s
  assume "sinv s" "tcbs_ok s" "OSRunning s" "stack_arg ptos pbos sz opt"
  then show "ok (OSTaskCreateExt ret pfn arg ptos prio idn pbos sz pext opt s) (\<lambda>(r, s'). kept s s')"
    by (rule ok_mono2 [OF OSTaskCreateExt_tcbs]) simp
qed

lemma OSTaskCreate_eq:
  "OSTaskCreate ret pfn arg ptos prio = OSTaskCreateExt ret pfn arg ptos prio 0 NULL 0 NULL 0"
  by (rule ext) (rule OSTaskCreate_Ext)

interpretation TaskCreate: sched_call
  "\<lambda>s. tcbs_ok s \<and> OSRunning s \<and> stack_arg ptos NULL 0 0" "OSTaskCreate ret pfn arg ptos prio" for ret pfn arg ptos prio
  unfolding OSTaskCreate_eq by (rule TaskCreateExt.sched_call_axioms)

text \<open>What deletion may be asked: no such task, or one that owns no mutex and is not locked in.\<close>

definition deletable_task :: "8 word \<Rightarrow> kst \<Rightarrow> bool" where
  "deletable_task q s \<longleftrightarrow> (\<forall>t. OSTCBPrioTbl s (unat q) = TCBp t \<longrightarrow> may_delete t (unat q) s)
     \<and> OSLockNesting s < 255 \<and> (q = OSPrioCur s \<longrightarrow> OSLockNesting s = 0)"

lemma OSTaskDel_tcbs:
  assumes inv: "sinv s" and tcbs: "tcbs_ok s" and run: "OSRunning s" and d: "deletable_task (the_prio prio s) s"
  shows "ok (OSTaskDel prio s) (\<lambda>(r, s'). kept s s' \<and> tcbs_ok s')"
proof -
  obtain ts fs where l: "lists_ok s ts fs" using tcbs by (auto simp: tcbs_ok_def)
  show ?thesis
  proof (cases "OSIntNesting s > 0 \<or> prio \<ge> OS_LOWEST_PRIO \<and> prio \<noteq> OS_PRIO_SELF")
    case True
    then show ?thesis using inv tcbs by (auto simp: OSTaskDel_def)
  next
    case False
    then have prio: "prio < OS_LOWEST_PRIO \<or> prio = OS_PRIO_SELF" and nest: "OSIntNesting s = 0"
      by (auto simp: not_le word_gt_0)
    have le: "prio \<le> OS_LOWEST_PRIO \<or> prio = OS_PRIO_SELF" using prio by auto
    note sp = self_prio_ok [OF inv le]
    from inv sp(2) show ?thesis
    proof (cases rule: entryE)
      case (3 t)
      have "may_delete t (unat (the_prio prio s)) s" "OSLockNesting s < 255"
        "the_prio prio s = OSPrioCur s \<Longrightarrow> OSLockNesting s = 0"
        using d 3(1) by (simp_all add: deletable_task_def)
      from OSTaskDel_ok [OF inv l run nest prio 3(1) this] show ?thesis by (auto elim!: ok_mono2 simp: tcbs_ok_def)
    qed (use False inv tcbs sp(1,3) in \<open>auto simp: OSTaskDel_def\<close>)
  qed
qed

interpretation TaskDel: sched_call
  "\<lambda>s. tcbs_ok s \<and> OSRunning s \<and> deletable_task (the_prio prio s) s" "OSTaskDel prio" for prio
proof (rule sched_callI, elim conjE)
  fix s
  assume "sinv s" "tcbs_ok s" "OSRunning s" "deletable_task (the_prio prio s) s"
  then show "ok (OSTaskDel prio s) (\<lambda>(r, s'). kept s s')" by (rule ok_mono2 [OF OSTaskDel_tcbs]) simp
qed

section \<open>The tasks of the demo state\<close>

lemma demo_tasks: "the_tasks demo = {0, 1, 2, 3}"
  using demo_owns by (auto simp: the_tasks_def owns_def demo_PrioTbl split: if_splits)

lemma demo_lists: "lists_ok demo [3, 2, 1, 0] [4..<22]"
proof -
  have l: "OSTCBList demo = TCBp 3" "OSTCBFreeList demo = TCBp 4" "OSTaskCtr demo = 4"
    "\<And>t. OSTCBNext (OSTCBTbl demo t) = (if t = 0 then NULL else if t < 4 then TCBp (t - 1)
       else if t < 21 then TCBp (t + 1) else NULL)"
    "\<And>t. OSTCBPrev (OSTCBTbl demo t) = (if t < 3 then TCBp (t + 1) else NULL)"
    by (auto simp: demo_def demo_tcb_def)
  have u: "[4..<22] = [4, 5, 6, 7, 8, 9, 10, 11, 12, 13, 14, 15, 16, 17, 18, 19, 20, 21]" by (simp add: upt_rec)
  have "path TCBp (\<lambda>t. OSTCBNext (OSTCBTbl demo t)) (TCBp 4) [4..<22]" by (simp add: l u)
  moreover have "set [4..<22] = {t. t < OS_N_TCBS} - {0, 1, 2, 3}" by (simp only: set_upt) auto
  moreover have "distinct [4..<22]" by (rule distinct_upt)
  ultimately show ?thesis
    unfolding lists_ok_def demo_tasks l(1-3) by (intro conjI) (simp_all only: simp_thms, auto simp: l)
qed

section \<open>Properties\<close>

text \<open>
  C29 (OSTaskCreateExt_adds): when the priority is free and a control block is left, creation returns
  no error, takes the block from the head of the free list to the head of the list of tasks, which
  stays linked both ways, fills it in, prepares the stack and makes the task ready; the other tasks,
  all wait lists and all events are as before, and the most urgent ready task runs.
\<close>

theorem OSTaskCreateExt_adds:
  assumes "sinv s" "lists_ok s ts (t # fs)" "OSRunning s" "OSIntNesting s = 0" "prio \<le> OS_LOWEST_PRIO"
    "OSTCBPrioTbl s (unat prio) = NULL" "stack_arg (Addr a) pbos sz opt"
  shows "ok (OSTaskCreateExt ret pfn arg (Addr a) prio idn pbos sz pext opt s) (\<lambda>(r, s'). r = OS_ERR_NONE
    \<and> sinv s' \<and> settled s' \<and> lists_ok s' (t # ts) fs
    \<and> task_added prio (Addr ((a AND NOT 7) - 240)) pbos idn sz pext opt t s s'
    \<and> ptr_mem s' = frame_mem ret pfn arg (a AND NOT 7) (clr_mem pbos sz opt (ptr_mem s)))"
  by (rule ok_mono2 [OF OSTaskCreateExt_ok [OF assms]]) simp

abbreviation (input) demo_create :: "8 word \<Rightarrow> kst \<Rightarrow> (os_err \<times> kst) option" where
  "demo_create prio \<equiv> OSTaskCreateExt (Addr 0x500) (Addr 0x600) (Addr 0x700) (Addr 0x81F8) prio 7 (Addr 0x8000) 64 NULL 3"

lemma demo_stack_arg: "stack_arg (Addr 0x81F8) (Addr 0x8000) 64 3"
  by (simp add: stack_arg_def region_ok_def)

lemma demo_free_list: "lists_ok demo [3, 2, 1, 0] (4 # [5..<22])"
  using demo_lists by (simp add: upt_rec [of 4])

lemma OSTaskCreateExt_adds_witness:
  "ok (demo_create 15 demo) (\<lambda>(r, s'). r = OS_ERR_NONE \<and> sinv s' \<and> lists_ok s' [4, 3, 2, 1, 0] [5..<22]
     \<and> owns s' 4 15 \<and> rdy s' = {15, 30, 63} \<and> OSTCBId (tcbs s' 4) = 7)"
  using OSTaskCreateExt_adds [OF demo_sinv demo_free_list demo_ctl(5,1) _ _ demo_stack_arg,
      of 15 "Addr 0x500" "Addr 0x600" "Addr 0x700" 7 NULL]
  by (auto simp: demo_PrioTbl demo_ready task_added_def tcb_made_def elim!: ok_mono2)

text \<open>
  C30 (OSTaskCreateExt_refuses): creation reports exactly the error of the first check that fails, in
  the order of the code; on an error no variable of the kernel has changed (on \<open>OS_ERR_TASK_NO_MORE_TCB\<close>
  the caller's stack has been written), in particular the priority reserved meanwhile is free again.
\<close>

theorem OSTaskCreateExt_refuses:
  assumes "sinv s" "lists_ok s ts fs" "OSRunning s" "stack_arg (Addr a) pbos sz opt"
  shows "ok (OSTaskCreateExt ret pfn arg (Addr a) prio idn pbos sz pext opt s) (\<lambda>(r, s'). sinv s'
    \<and> r = create_err prio s \<and> (r \<noteq> OS_ERR_NONE \<longrightarrow> s' = s\<lparr>ptr_mem := ptr_mem s'\<rparr>)
    \<and> (r \<noteq> OS_ERR_NONE \<and> r \<noteq> OS_ERR_TASK_NO_MORE_TCB \<longrightarrow> s' = s))"
  by (rule ok_mono2 [OF OSTaskCreateExt_result [OF assms]]) simp

lemma OSTaskCreateExt_refuses_witness:
  "ok (demo_create 10 demo) (\<lambda>(r, s'). r = OS_ERR_PRIO_EXIST \<and> s' = demo)"
  using OSTaskCreateExt_refuses [OF demo_sinv demo_lists demo_ctl(5) demo_stack_arg,
      of "Addr 0x500" "Addr 0x600" "Addr 0x700" 10 7 NULL]
  by (auto simp: create_err_def demo_ctl demo_PrioTbl elim!: ok_mono2)

text \<open>A task that has just been created waits for nothing and owns nothing.\<close>

lemma not_task_entry:
  assumes "sinv s" "t \<notin> the_tasks s" "q < 64"
  shows "OSTCBPrioTbl s q \<noteq> TCBp t"
proof
  assume e: "OSTCBPrioTbl s q = TCBp t"
  have "entry_ok s (OSTCBPrioTbl s q)" using sinvD(2) [OF assms(1)] assms(3) by (simp add: kinv0_def)
  then show False using e assms(2) by (auto simp: entry_ok_def the_tasks_def)
qed

lemma created_may_delete:
  assumes inv: "sinv s" and t: "t \<notin> the_tasks s" and p: "unat prio < 63" and free: "OSTCBPrioTbl s (unat prio) = NULL"
    and a: "task_added prio ptos pbos idn sz pext opt t s s'"
  shows "may_delete t (unat prio) s'"
proof -
  have a': "owns s' t (unat prio)" "waiters s' = waiters s" "ev_data s' = ev_data s"
    "OSTCBPrioTbl s' = (OSTCBPrioTbl s)(unat prio := TCBp t)" "OSTCBEventPtr (OSTCBTbl s' t) = NULL"
    "OSTCBFlagNode (OSTCBTbl s' t) = NULL"
    using a by (simp_all add: task_added_def tcb_made_def tcbs_def)
  have "ev_ptr s e \<noteq> TCBp t" if "e < OS_MAX_EVENTS" "ev_type s e = OS_EVENT_TYPE_MUTEX" for e
  proof
    assume e: "ev_ptr s e = TCBp t"
    have "mutex_ok s e" using oinvD(4) [OF sinvD(4) [OF inv] that(1)] that(2) by (simp add: obj_ok_def)
    then have "unat (mutex_low (ev_cnt s e)) < 64" "OSTCBPrioTbl s (unat (mutex_low (ev_cnt s e))) = TCBp t"
      using e by (simp_all add: mutex_ok_def Let_def)
    then show False using not_task_entry [OF inv t] by blast
  qed
  then have "\<forall>e<OS_MAX_EVENTS. ev_type s' e = OS_EVENT_TYPE_MUTEX \<longrightarrow> ev_ptr s' e \<noteq> TCBp t"
    using ev_data_fields [OF fun_cong [OF a'(3)]] by simp
  moreover have "\<forall>q<64. OSTCBPrioTbl s' q = TCBp t \<longrightarrow> q = unat prio"
    using not_task_entry [OF inv t] by (simp add: a'(4))
  moreover have "unat prio \<notin> waiters s' e" if "e < OS_MAX_EVENTS" for e
  proof
    assume "unat prio \<in> waiters s' e"
    then have "owned s (unat prio)"
      using sinvD(2) [OF inv] that a'(2) p by (simp add: kinv0_def)
    then show False using free by (simp add: owned_def)
  qed
  ultimately show ?thesis
    using a'(1,5,6) p unfolding may_delete_def idle_entry_def waits_known_def by simp
qed

text \<open>
  C31 (create_then_delete): deleting a task that has just been created, whether it runs by then or not,
  gives back the priority table, the list of tasks, the free list and the ready list as they were.
\<close>

theorem create_then_delete:
  assumes "sinv s" "settled s" "lists_ok s ts (t # fs)" "OSRunning s" "OSIntNesting s = 0" "prio < OS_LOWEST_PRIO"
    "OSTCBPrioTbl s (unat prio) = NULL" "stack_arg (Addr a) pbos sz opt" "OSLockNesting s = 0"
  shows "ok (do { (r1, s1) \<leftarrow> OSTaskCreateExt ret pfn arg (Addr a) prio idn pbos sz pext opt s;
                  (r2, s2) \<leftarrow> OSTaskDel prio s1;
                  Some (r1, r2, s2) })
    (\<lambda>(r1, r2, s2). r1 = OS_ERR_NONE \<and> r2 = OS_ERR_NONE \<and> sinv s2 \<and> settled s2 \<and> lists_ok s2 ts (t # fs)
      \<and> OSTCBPrioTbl s2 = OSTCBPrioTbl s \<and> rdy s2 = rdy s \<and> (\<forall>e<OS_MAX_EVENTS. waiters s2 e = waiters s e)
      \<and> OSPrioCur s2 = OSPrioCur s)"
proof -
  have prio: "prio \<le> OS_LOWEST_PRIO" "unat prio < 63" "prio \<noteq> OS_PRIO_SELF"
    using assms(6) by (auto simp: word_less_nat_alt word_le_nat_alt)
  have t: "t \<notin> the_tasks s" using assms(3) by (auto simp: lists_ok_def)
  obtain s1 where r1: "OSTaskCreateExt ret pfn arg (Addr a) prio idn pbos sz pext opt s = Some (OS_ERR_NONE, s1)"
    and s1: "sinv s1" "ctl s1 = ctl s" "settled s1" "lists_ok s1 (t # ts) fs"
      "task_added prio (Addr ((a AND NOT 7) - 240)) pbos idn sz pext opt t s s1"
    using OSTaskCreateExt_ok [OF assms(1,3-5) prio(1) assms(7,8), of ret pfn arg idn pext] by (auto simp: ok_iff)
  have q: "the_prio prio s1 = prio" using prio(3) by (simp add: the_prio_def)
  have c1: "OSRunning s1" "OSIntNesting s1 = 0" "OSLockNesting s1 = 0"
    using s1(2) assms(4,5,9) by (simp_all add: ctl_def)
  have e1: "OSTCBPrioTbl s1 (unat prio) = TCBp t" "rdy s1 = insert (unat prio) (rdy s)" "waiters s1 = waiters s"
    "OSTCBPrioTbl s1 = (OSTCBPrioTbl s)(unat prio := TCBp t)"
    using s1(5) by (simp_all add: task_added_def)
  have out: "unat prio \<notin> rdy s" "\<forall>e<OS_MAX_EVENTS. unat prio \<notin> waiters s e"
  proof -
    have "\<not> owned s (unat prio)" using assms(7) by (simp add: owned_def)
    then show "unat prio \<notin> rdy s" "\<forall>e<OS_MAX_EVENTS. unat prio \<notin> waiters s e"
      using sinvD(2) [OF assms(1)] prio(2) by (auto simp: kinv0_def)
  qed
  have "OSLockNesting s1 < 255" using c1(3) by simp
  then obtain s2 where r2: "OSTaskDel prio s1 = Some (OS_ERR_NONE, s2)"
    and s2: "sinv s2" "ctl s2 = ctl s1" "settled s2" "lists_ok s2 (remove1 t (t # ts)) (t # fs)" "task_gone t (unat prio) s1 s2"
    using OSTaskDel_ok [OF s1(1,4) c1(1,2) disjI1 [OF assms(6)], unfolded q, OF e1(1)
        created_may_delete [OF assms(1) t prio(2) assms(7) s1(5)]] c1(3) by (auto simp: ok_iff)
  have back': "rdy s2 = rdy s" "OSTCBPrioTbl s2 = OSTCBPrioTbl s" "\<forall>e<OS_MAX_EVENTS. waiters s2 e = waiters s e"
    using s2(5) e1 out assms(7) by (auto simp: task_gone_def fun_upd_idem)
  have "OSIntNesting s2 = 0 \<and> OSLockNesting s2 = 0" using c1 s2(2) by (simp add: ctl_def)
  then have "unat (OSPrioCur s2) = unat (OSPrioCur s)"
    using assms(2,5,9) s2(3) by (simp add: settled_def back'(1))
  then have "OSPrioCur s2 = OSPrioCur s" by (simp only: word_unat_eq_iff)
  then show ?thesis using r1 r2 s2 back' by simp
qed

lemma create_then_delete_witness:
  "ok (do { (r1, s1) \<leftarrow> demo_create 15 demo; (r2, s2) \<leftarrow> OSTaskDel 15 s1; Some (r1, r2, s2) })
     (\<lambda>(r1, r2, s2). r1 = OS_ERR_NONE \<and> r2 = OS_ERR_NONE \<and> lists_ok s2 [3, 2, 1, 0] (4 # [5..<22]) \<and> rdy s2 = {30, 63})"
  using create_then_delete [OF demo_sinv demo_settled demo_free_list demo_ctl(5,1) _ _ demo_stack_arg demo_ctl(2),
      of 15 "Addr 0x500" "Addr 0x600" "Addr 0x700" 7 NULL]
  by (auto simp: demo_PrioTbl demo_ready elim!: ok_mono)

text \<open>
  C32 (suspend_then_resume): suspending a ready task takes it off the ready list and marks it; resuming
  it gives back the ready list and every control block as they were, and the task that ran before
  the two calls runs again after them.
\<close>

theorem suspend_then_resume:
  assumes "sinv s" "settled s" "OSRunning s" "OSIntNesting s = 0" "OSLockNesting s = 0"
    "prio < OS_LOWEST_PRIO" "OSTCBPrioTbl s (unat prio) = TCBp t" "OSTCBPrio (OSTCBTbl s t) = prio"
    "unat prio \<in> rdy s" "OSTCBStat (OSTCBTbl s t) = OS_STAT_RDY" "OSTCBDly (OSTCBTbl s t) = 0"
  shows "ok (do { (r1, s1) \<leftarrow> OSTaskSuspend prio s;
                  (r2, s2) \<leftarrow> OSTaskResume prio s1;
                  Some (r1, s1, r2, s2) })
    (\<lambda>(r1, s1, r2, s2). r1 = OS_ERR_NONE \<and> r2 = OS_ERR_NONE
      \<and> rdy s1 = rdy s - {unat prio} \<and> suspended (OSTCBTbl s1 t) \<and> OSPrioCur s1 \<noteq> prio
      \<and> sinv s2 \<and> rdy s2 = rdy s \<and> tcbs s2 = tcbs s \<and> waiters s2 = waiters s \<and> OSPrioCur s2 = OSPrioCur s)"
proof -
  have ps: "prio \<noteq> OS_PRIO_SELF" "prio \<noteq> OS_TASK_IDLE_PRIO" using assms(6) by auto
  have q: "the_prio prio s = prio" using ps(1) by (simp add: the_prio_def)
  obtain s1 where r1: "OSTaskSuspend prio s = Some (OS_ERR_NONE, s1)"
    and s1: "sinv s1" "ctl s1 = ctl s" "settled s1" "only_task t suspend_tcb (rdy s - {unat prio}) s s1"
    using OSTaskSuspend_task [OF assms(1) disjI1 [OF assms(6)], unfolded q, OF assms(7,8) ps(2)] assms(2)
    by (auto simp: ok_iff)
  have f1: "rdy s1 = rdy s - {unat prio}" "ids s1 = ids s" "waiters s1 = waiters s"
    "tcbs s1 = (tcbs s)(t := suspend_tcb (tcbs s t))"
    using s1(4) by (simp_all add: only_task_def)
  have c: "OSTCBStat (OSTCBTbl s1 t) = OS_STAT_SUSPEND" "OSTCBDly (OSTCBTbl s1 t) = 0"
  proof -
    have "tcbs s1 t = suspend_tcb (tcbs s t)" by (simp add: f1(4))
    then have "OSTCBStat (tcbs s1 t) = OSTCBStat (suspend_tcb (tcbs s t))" "OSTCBDly (tcbs s1 t) = OSTCBDly (suspend_tcb (tcbs s t))"
      by simp_all
    then show "OSTCBStat (OSTCBTbl s1 t) = OS_STAT_SUSPEND" "OSTCBDly (OSTCBTbl s1 t) = 0"
      using assms(10,11) by (simp_all add: tcbs_def)
  qed
  have res: "suspended (OSTCBTbl s1 t)" "resumable (OSTCBTbl s1 t)"
    using c by (simp_all add: suspended_def resumable_def)
  have run1: "OSRunning s1" "OSIntNesting s1 = 0" "OSLockNesting s1 = 0" using s1(2) assms(3-5) by (simp_all add: ctl_def)
  have "OSTCBPrioTbl s1 (unat prio) = TCBp t" "OSTCBPrio (OSTCBTbl s1 t) = prio"
    using assms(7,8) ids_PrioTbl [OF f1(2)] ids_Prio [OF f1(2), of t] by simp_all
  from OSTaskResume_task [OF s1(1) assms(6) run1(1) this] obtain s2
    where r2: "OSTaskResume prio s1 = Some (OS_ERR_NONE, s2)"
      and s2: "sinv s2" "ctl s2 = ctl s1" "settled s2" "only_task t resume_tcb (insert (unat prio) (rdy s1)) s1 s2"
    using res s1(3) by (auto simp: ok_iff)
  have back': "rdy s2 = rdy s" "waiters s2 = waiters s" using s2(4) f1 assms(9) by (auto simp: only_task_def)
  have "resume_tcb (suspend_tcb (tcbs s t)) = tcbs s t"
    using assms(10) by (simp add: tcbs_def)
  then have tcbs: "tcbs s2 = tcbs s" using s2(4) f1(4) by (simp add: only_task_def)
  have "OSIntNesting s2 = 0" "OSLockNesting s2 = 0" using run1 s2(2) by (simp_all add: ctl_def)
  then have "unat (OSPrioCur s2) = unat (OSPrioCur s)"
    using assms(2,4,5) s2(3) by (simp add: settled_def back'(1))
  then have cur: "OSPrioCur s2 = OSPrioCur s" by (simp only: word_unat_eq_iff)
  have "unat (OSPrioCur s1) \<in> rdy s1"
    using s1(3) run1 highest_ready(3) [OF sinvD(2) [OF s1(1)]] by (simp add: settled_def)
  then have "OSPrioCur s1 \<noteq> prio" using f1(1) by auto
  then show ?thesis using r1 r2 f1(1) res(1) s2(1) back' tcbs cur by simp
qed

lemma suspend_then_resume_witness:
  "ok (do { (r1, s1) \<leftarrow> OSTaskSuspend 30 demo; (r2, s2) \<leftarrow> OSTaskResume 30 s1; Some (r1, s1, r2, s2) })
     (\<lambda>(r1, s1, r2, s2). rdy s1 = {63} \<and> OSPrioCur s1 \<noteq> 30 \<and> rdy s2 = {30, 63} \<and> OSPrioCur s2 = 30)"
proof -
  have "OSTCBPrio (OSTCBTbl demo 3) = 30" "OSTCBStat (OSTCBTbl demo 3) = OS_STAT_RDY" "OSTCBDly (OSTCBTbl demo 3) = 0"
    by (simp_all add: demo_def demo_tcb_def)
  from suspend_then_resume [OF demo_sinv demo_settled demo_ctl(5,1,2) _ _ this(1) _ this(2,3)] show ?thesis
    by (auto simp: demo_PrioTbl demo_ready demo_ctl elim!: ok_mono)
qed

text \<open>The stack check counts the words at the bottom of the stack that nothing has written.\<close>

lemma OSTaskStkChk_ok:
  assumes inv: "sinv s" and prio: "prio \<le> OS_LOWEST_PRIO \<or> prio = OS_PRIO_SELF" and p: "p \<noteq> NULL"
    and entry: "OSTCBPrioTbl s (unat (the_prio prio s)) = TCBp t"
    and opt: "OSTCBOpt (OSTCBTbl s t) AND OS_TASK_OPT_STK_CHK \<noteq> 0" and bot: "OSTCBStkBottom (OSTCBTbl s t) = Addr b"
    and reg: "region_ok b (OSTCBStkSize (OSTCBTbl s t)) 8" and k: "k < unat (OSTCBStkSize (OSTCBTbl s t))"
    and zero: "\<And>j. j < k \<Longrightarrow> ptr_mem s (stk_word b j) = NULL" and used: "ptr_mem s (stk_word b k) \<noteq> NULL"
  shows "OSTaskStkChk prio p s
    = Some (OS_ERR_NONE, Some \<lparr>OSFree = of_nat k, OSUsed = OSTCBStkSize (OSTCBTbl s t) - of_nat k\<rparr>)"
proof -
  note sp = self_prio_ok [OF inv prio]
  have "t < OS_N_TCBS" by (rule entryE [OF inv sp(2)]) (use entry in auto)
  moreover have "stk_free b 0 s = Some (0 + of_nat k)"
    using block_cell [OF reg] k zero used by (intro stk_free_ok) simp_all
  moreover have "\<not> (prio > OS_LOWEST_PRIO \<and> prio \<noteq> OS_PRIO_SELF)" using prio by auto
  ultimately show ?thesis
    using p sp(1,3) entry opt bot by (simp add: OSTaskStkChk_def Let_def)
qed

lemma stk_word_diff: "stk_word b (k + d) - of_nat (8 * d) = stk_word b k"
proof -
  have "(k + d) * unat (8 :: 32 word) = k * unat (8 :: 32 word) + 8 * d" by simp
  then show ?thesis unfolding block_at_def by (simp only: of_nat_add add.assoc [symmetric] add_diff_cancel_right')
qed

lemma stk_word_back:
  assumes "unat sz = m + 32"
  shows "stk_word b (unat sz - 1) - 8 = stk_word b (m + 30)" "stk_word b (unat sz - 1) - 184 = stk_word b (m + 8)"
    "stk_word b (unat sz - 1) - 232 = stk_word b (m + 2)" "stk_word b (unat sz - 1) - 240 = stk_word b (m + 1)"
proof -
  have "unat sz - 1 = m + 30 + 1" "unat sz - 1 = m + 8 + 23" "unat sz - 1 = m + 2 + 29" "unat sz - 1 = m + 1 + 30"
    using assms by simp_all
  then show "stk_word b (unat sz - 1) - 8 = stk_word b (m + 30)" "stk_word b (unat sz - 1) - 184 = stk_word b (m + 8)"
    "stk_word b (unat sz - 1) - 232 = stk_word b (m + 2)" "stk_word b (unat sz - 1) - 240 = stk_word b (m + 1)"
    using stk_word_diff [of b "m + 30" 1] stk_word_diff [of b "m + 8" 23] stk_word_diff [of b "m + 2" 29]
      stk_word_diff [of b "m + 1" 30] by simp_all
qed

lemma new_stack:
  assumes reg: "region_ok b sz 8" and sz: "unat sz = m + 32" and opt: "opt AND OS_TASK_OPT_STK_CHK \<noteq> 0" "opt AND OS_TASK_OPT_STK_CLR \<noteq> 0"
  defines "a \<equiv> stk_word b (unat sz - 1)"
  shows "a AND NOT 7 = a" "stack_arg (Addr a) (Addr b) sz opt"
    "j < m + 1 \<Longrightarrow> frame_mem ret pfn arg a (clr_mem (Addr b) sz opt mem) (stk_word b j) = NULL"
    "frame_mem ret pfn arg a (clr_mem (Addr b) sz opt mem) (stk_word b (m + 1)) = pfn"
proof -
  have u: "unat a = unat b + (unat sz - 1) * 8" using block_unat [OF reg, of "unat sz - 1"] sz by (simp add: a_def)
  have b: "8 dvd unat b" "unat b \<noteq> 0" using reg by (auto simp: region_ok_def unat_eq_0)
  have "8 dvd unat a" using u b(1) by simp
  then have "unat (a AND NOT 7) = unat a" unfolding align_8 by simp
  then show "a AND NOT 7 = a" by (simp only: word_unat_eq_iff)
  have "8 \<le> unat b" using b by (metis dvd_imp_le neq0_conv)
  then have "256 \<le> unat a" using u sz by simp
  then show "stack_arg (Addr a) (Addr b) sz opt" using reg by (auto simp: stack_arg_def)
  have inj: "stk_word b i = stk_word b j \<longleftrightarrow> i = j" if "i < unat sz" "j < unat sz" for i j
    using block_inj [OF reg that] by blast
  note at = stk_word_back [OF sz, of b, folded a_def]
  have clr: "clr_mem (Addr b) sz opt mem (stk_word b j) = NULL" if "j < unat sz" for j
    using opt that by (simp add: clr_mem_def)
  show "frame_mem ret pfn arg a (clr_mem (Addr b) sz opt mem) (stk_word b j) = NULL" if "j < m + 1"
    using that sz clr [of j] inj [of j] by (simp add: frame_mem_def at)
  show "frame_mem ret pfn arg a (clr_mem (Addr b) sz opt mem) (stk_word b (m + 1)) = pfn"
    by (simp add: frame_mem_def at)
qed

text \<open>
  C33 (StkChk_after_create): the check of the stack of a task created with both options, before the task
  has run, reports exactly the words that the first frame does not cover: all but 31, whatever the
  memory held before.
\<close>

theorem StkChk_after_create:
  assumes "sinv s" "lists_ok s ts (t # fs)" "OSRunning s" "OSIntNesting s = 0" "prio \<le> OS_LOWEST_PRIO"
    "OSTCBPrioTbl s (unat prio) = NULL" "region_ok b sz 8" "32 \<le> unat sz"
    "opt AND OS_TASK_OPT_STK_CHK \<noteq> 0" "opt AND OS_TASK_OPT_STK_CLR \<noteq> 0" "pfn \<noteq> NULL" "p \<noteq> NULL"
  shows "ok (do { (r1, s1) \<leftarrow> OSTaskCreateExt ret pfn arg (Addr (block_at b 8 (unat sz - 1))) prio idn (Addr b) sz pext opt s;
                  (r2, d) \<leftarrow> OSTaskStkChk prio p s1;
                  Some (r1, r2, d) })
    (\<lambda>(r1, r2, d). r1 = OS_ERR_NONE \<and> r2 = OS_ERR_NONE \<and> d = Some \<lparr>OSFree = sz - 31, OSUsed = 31\<rparr>)"
proof -
  obtain m where m: "unat sz = m + 32" using assms(8) by (metis add.commute le_Suc_ex)
  let ?a = "block_at b 8 (unat sz - 1)"
  note st = new_stack [OF assms(7) m assms(9,10)]
  obtain s1 where r1: "OSTaskCreateExt ret pfn arg (Addr ?a) prio idn (Addr b) sz pext opt s = Some (OS_ERR_NONE, s1)"
    and s1: "sinv s1" "task_added prio (Addr (?a - 240)) (Addr b) idn sz pext opt t s s1"
      "ptr_mem s1 = frame_mem ret pfn arg ?a (clr_mem (Addr b) sz opt (ptr_mem s))"
    using OSTaskCreateExt_ok [OF assms(1-6) st(2), of ret pfn arg idn pext] unfolding st(1) by (auto simp: ok_iff)
  have c: "OSTCBOpt (OSTCBTbl s1 t) = opt" "OSTCBStkBottom (OSTCBTbl s1 t) = Addr b" "OSTCBStkSize (OSTCBTbl s1 t) = sz"
    "OSTCBPrioTbl s1 (unat prio) = TCBp t"
    using s1(2) by (simp_all add: task_added_def tcb_made_def tcbs_def)
  have "prio \<noteq> OS_PRIO_SELF" using assms(5) by auto
  then have q: "the_prio prio s1 = prio" by (simp add: the_prio_def)
  have "OSTaskStkChk prio p s1 = Some (OS_ERR_NONE, Some \<lparr>OSFree = of_nat (m + 1), OSUsed = sz - of_nat (m + 1)\<rparr>)"
    using OSTaskStkChk_ok [OF s1(1) disjI1 [OF assms(5)] assms(12), unfolded q, OF c(4), unfolded c(1-3),
        OF assms(9) refl assms(7), of "m + 1"] st(3,4) m assms(11) unfolding s1(3) by simp
  moreover have "of_nat (m + 1) = sz - 31" "sz - of_nat (m + 1) = 31"
  proof -
    have "sz = of_nat (unat sz)" by simp
    then have "sz = of_nat (m + 32)" unfolding m .
    then show "of_nat (m + 1) = sz - 31" "sz - of_nat (m + 1) = 31" by simp_all
  qed
  ultimately show ?thesis using r1 by simp
qed

lemma StkChk_after_create_witness:
  "ok (do { (r1, s1) \<leftarrow> demo_create 15 demo; (r2, d) \<leftarrow> OSTaskStkChk 15 (Addr 1) s1; Some (r1, r2, d) })
     (\<lambda>(r1, r2, d). d = Some \<lparr>OSFree = 33, OSUsed = 31\<rparr>)"
  using StkChk_after_create [OF demo_sinv demo_free_list demo_ctl(5,1), where prio = 15 and b = "0x8000" and sz = 64 and opt = 3 and pfn = "Addr 0x600" and p = "Addr 1"
      and ret = "Addr 0x500" and arg = "Addr 0x700" and idn = 7 and pext = NULL]
  by (auto simp: demo_PrioTbl region_ok_def block_at_def elim!: ok_mono)

end
