(* ===== verification/Os_Tmr.thy ===== *)
theory Os_Tmr
  imports Os_Task Os_Sem
begin

text \<open>
  Software timers (\<open>os_tmr.c\<close>).  Running timers hang on the spokes of a wheel, by the time at which
  they match; the timer task advances the time and fires what is due.  The callbacks are functions of
  the application: an argument \<open>cb\<close> that takes the function pointer, the timer and the argument.
\<close>

abbreviation (input) OS_TMR_TYPE :: "8 word" where "OS_TMR_TYPE \<equiv> 100"
abbreviation (input) OS_TMR_OPT_NONE :: "8 word" where "OS_TMR_OPT_NONE \<equiv> 0"
abbreviation (input) OS_TMR_OPT_ONE_SHOT :: "8 word" where "OS_TMR_OPT_ONE_SHOT \<equiv> 1"
abbreviation (input) OS_TMR_OPT_PERIODIC :: "8 word" where "OS_TMR_OPT_PERIODIC \<equiv> 2"
abbreviation (input) OS_TMR_OPT_CALLBACK :: "8 word" where "OS_TMR_OPT_CALLBACK \<equiv> 3"
abbreviation (input) OS_TMR_OPT_CALLBACK_ARG :: "8 word" where "OS_TMR_OPT_CALLBACK_ARG \<equiv> 4"
abbreviation (input) OS_TMR_STATE_UNUSED :: "8 word" where "OS_TMR_STATE_UNUSED \<equiv> 0"
abbreviation (input) OS_TMR_STATE_STOPPED :: "8 word" where "OS_TMR_STATE_STOPPED \<equiv> 1"
abbreviation (input) OS_TMR_STATE_COMPLETED :: "8 word" where "OS_TMR_STATE_COMPLETED \<equiv> 2"
abbreviation (input) OS_TMR_STATE_RUNNING :: "8 word" where "OS_TMR_STATE_RUNNING \<equiv> 3"
abbreviation (input) OS_TASK_TMR_PRIO :: "8 word" where "OS_TASK_TMR_PRIO \<equiv> 61"
abbreviation (input) OS_TASK_TMR_ID :: "16 word" where "OS_TASK_TMR_ID \<equiv> 65533"

text \<open>The callback of a timer: the function pointer, the timer, the argument.\<close>

type_synonym tmr_callback = "vptr \<Rightarrow> vptr \<Rightarrow> vptr \<Rightarrow> kst \<Rightarrow> kst option"

section \<open>Allocation\<close>

definition OSTmr_Alloc :: "kst \<Rightarrow> (vptr \<times> kst) option" where
  "OSTmr_Alloc s =
     (if OSTmrFreeList s = NULL then Some (NULL, s)
      else do {
        let ptmr = OSTmrFreeList s;
        i \<leftarrow> tmr_at ptmr;
        let s = s\<lparr>OSTmrFreeList := OSTmrNext (OSTmrTbl s i)\<rparr>;
        let s = upd_tmr i (\<lambda>c. c\<lparr>OSTmrNext := NULL, OSTmrPrev := NULL\<rparr>) s;
        let s = s\<lparr>OSTmrUsed := OSTmrUsed s + 1, OSTmrFree := OSTmrFree s - 1\<rparr>;
        Some (ptmr, s)
      })"

definition OSTmr_Free :: "nat \<Rightarrow> kst \<Rightarrow> kst" where
  "OSTmr_Free i s = (
     let s = upd_tmr i (\<lambda>c. c\<lparr>OSTmrState := OS_TMR_STATE_UNUSED, OSTmrOpt := OS_TMR_OPT_NONE, OSTmrPeriod := 0,
       OSTmrMatch := 0, OSTmrCallback := NULL, OSTmrCallbackArg := NULL, OSTmrName := unnamed,
       OSTmrPrev := NULL, OSTmrNext := OSTmrFreeList s\<rparr>) s in
     s\<lparr>OSTmrFreeList := TMRp i, OSTmrUsed := OSTmrUsed s - 1, OSTmrFree := OSTmrFree s + 1\<rparr>)"

section \<open>The wheel\<close>

definition spoke_of :: "32 word \<Rightarrow> nat" where
  "spoke_of m = unat (m mod 7)"

text \<open>\<open>periodic\<close> is \<open>type == OS_TMR_LINK_PERIODIC\<close>.\<close>

definition OSTmr_Link :: "nat \<Rightarrow> bool \<Rightarrow> kst \<Rightarrow> kst option" where
  "OSTmr_Link i periodic s = do {
     let s = upd_tmr i (\<lambda>c. c\<lparr>OSTmrState := OS_TMR_STATE_RUNNING\<rparr>) s;
     let s = (if periodic then upd_tmr i (\<lambda>c. c\<lparr>OSTmrMatch := OSTmrPeriod c + OSTmrTime s\<rparr>) s
              else if OSTmrDly (OSTmrTbl s i) = 0 then upd_tmr i (\<lambda>c. c\<lparr>OSTmrMatch := OSTmrPeriod c + OSTmrTime s\<rparr>) s
              else upd_tmr i (\<lambda>c. c\<lparr>OSTmrMatch := OSTmrDly c + OSTmrTime s\<rparr>) s);
     let k = spoke_of (OSTmrMatch (OSTmrTbl s i));
     s \<leftarrow> (if OSTmrFirst (OSTmrWheelTbl s k) = NULL then do {
             let s = upd_spoke k (\<lambda>w. w\<lparr>OSTmrFirst := TMRp i\<rparr>) s;
             let s = upd_tmr i (\<lambda>c. c\<lparr>OSTmrNext := NULL\<rparr>) s;
             Some (upd_spoke k (\<lambda>w. w\<lparr>OSTmrEntries := 1\<rparr>) s)
           } else do {
             let ptmr1 = OSTmrFirst (OSTmrWheelTbl s k);
             let s = upd_spoke k (\<lambda>w. w\<lparr>OSTmrFirst := TMRp i\<rparr>) s;
             let s = upd_tmr i (\<lambda>c. c\<lparr>OSTmrNext := ptmr1\<rparr>) s;
             j \<leftarrow> tmr_at ptmr1;
             let s = upd_tmr j (\<lambda>c. c\<lparr>OSTmrPrev := TMRp i\<rparr>) s;
             Some (upd_spoke k (\<lambda>w. w\<lparr>OSTmrEntries := OSTmrEntries w + 1\<rparr>) s)
           });
     Some (upd_tmr i (\<lambda>c. c\<lparr>OSTmrPrev := NULL\<rparr>) s)
   }"

definition OSTmr_Unlink :: "nat \<Rightarrow> kst \<Rightarrow> kst option" where
  "OSTmr_Unlink i s = do {
     let k = spoke_of (OSTmrMatch (OSTmrTbl s i));
     s \<leftarrow> (if OSTmrFirst (OSTmrWheelTbl s k) = TMRp i then do {
             let ptmr1 = OSTmrNext (OSTmrTbl s i);
             let s = upd_spoke k (\<lambda>w. w\<lparr>OSTmrFirst := ptmr1\<rparr>) s;
             if ptmr1 \<noteq> NULL then do {
               j \<leftarrow> tmr_at ptmr1;
               Some (upd_tmr j (\<lambda>c. c\<lparr>OSTmrPrev := NULL\<rparr>) s)
             } else Some s
           } else do {
             let ptmr1 = OSTmrPrev (OSTmrTbl s i);
             let ptmr2 = OSTmrNext (OSTmrTbl s i);
             j \<leftarrow> tmr_at ptmr1;
             let s = upd_tmr j (\<lambda>c. c\<lparr>OSTmrNext := ptmr2\<rparr>) s;
             if ptmr2 \<noteq> NULL then do {
               j \<leftarrow> tmr_at ptmr2;
               Some (upd_tmr j (\<lambda>c. c\<lparr>OSTmrPrev := ptmr1\<rparr>) s)
             } else Some s
           });
     let s = upd_tmr i (\<lambda>c. c\<lparr>OSTmrState := OS_TMR_STATE_STOPPED, OSTmrNext := NULL, OSTmrPrev := NULL\<rparr>) s;
     Some (upd_spoke k (\<lambda>w. w\<lparr>OSTmrEntries := OSTmrEntries w - 1\<rparr>) s)
   }"

section \<open>Calls\<close>

text \<open>Pairs of the result and \<open>*perr\<close>.\<close>

definition OSTmrCreate ::
    "32 word \<Rightarrow> 32 word \<Rightarrow> 8 word \<Rightarrow> vptr \<Rightarrow> vptr \<Rightarrow> cname \<Rightarrow> kst \<Rightarrow> ((vptr \<times> os_err) \<times> kst) option" where
  "OSTmrCreate dly period opt callback callback_arg pname s =
     (if opt = OS_TMR_OPT_PERIODIC \<and> period = 0 then Some ((NULL, OS_ERR_TMR_INVALID_PERIOD), s)
      else if opt = OS_TMR_OPT_ONE_SHOT \<and> dly = 0 then Some ((NULL, OS_ERR_TMR_INVALID_DLY), s)
      else if opt \<noteq> OS_TMR_OPT_PERIODIC \<and> opt \<noteq> OS_TMR_OPT_ONE_SHOT then Some ((NULL, OS_ERR_TMR_INVALID_OPT), s)
      else if OSIntNesting s > 0 then Some ((NULL, OS_ERR_TMR_ISR), s)
      else do {
        let s = OSSchedLock s;
        (ptmr, s) \<leftarrow> OSTmr_Alloc s;
        if ptmr = NULL then do {
          s \<leftarrow> OSSchedUnlock s;
          Some ((NULL, OS_ERR_TMR_NON_AVAIL), s)
        } else do {
          i \<leftarrow> tmr_at ptmr;
          let s = upd_tmr i (\<lambda>c. c\<lparr>OSTmrState := OS_TMR_STATE_STOPPED, OSTmrDly := dly, OSTmrPeriod := period,
            OSTmrOpt := opt, OSTmrCallback := callback, OSTmrCallbackArg := callback_arg,
            OSTmrName := (case pname of None \<Rightarrow> unnamed | Some n \<Rightarrow> Some n)\<rparr>) s;
          s \<leftarrow> OSSchedUnlock s;
          Some ((ptmr, OS_ERR_NONE), s)
        }
      })"

definition OSTmrDel :: "vptr \<Rightarrow> kst \<Rightarrow> ((bool \<times> os_err) \<times> kst) option" where
  "OSTmrDel ptmr s =
     (if ptmr = NULL then Some ((False, OS_ERR_TMR_INVALID), s)
      else do {
        i \<leftarrow> tmr_at ptmr;
        if OSTmrType (OSTmrTbl s i) \<noteq> OS_TMR_TYPE then Some ((False, OS_ERR_TMR_INVALID_TYPE), s)
        else if OSIntNesting s > 0 then Some ((False, OS_ERR_TMR_ISR), s)
        else do {
          let s = OSSchedLock s;
          let st = OSTmrState (OSTmrTbl s i);
          if st = OS_TMR_STATE_RUNNING then do {
            s \<leftarrow> OSTmr_Unlink i s;
            let s = OSTmr_Free i s;
            s \<leftarrow> OSSchedUnlock s;
            Some ((True, OS_ERR_NONE), s)
          } else if st = OS_TMR_STATE_STOPPED \<or> st = OS_TMR_STATE_COMPLETED then do {
            let s = OSTmr_Free i s;
            s \<leftarrow> OSSchedUnlock s;
            Some ((True, OS_ERR_NONE), s)
          } else if st = OS_TMR_STATE_UNUSED then do {
            s \<leftarrow> OSSchedUnlock s;
            Some ((False, OS_ERR_TMR_INACTIVE), s)
          } else do {
            s \<leftarrow> OSSchedUnlock s;
            Some ((False, OS_ERR_TMR_INVALID_STATE), s)
          }
        }
      })"

definition OSTmrNameGet :: "vptr \<Rightarrow> vptr \<Rightarrow> kst \<Rightarrow> ((8 word \<times> cname option \<times> os_err) \<times> kst) option" where
  "OSTmrNameGet ptmr pdest s =
     (if pdest = NULL then Some ((0, None, OS_ERR_TMR_INVALID_DEST), s)
      else if ptmr = NULL then Some ((0, None, OS_ERR_TMR_INVALID), s)
      else do {
        i \<leftarrow> tmr_at ptmr;
        if OSTmrType (OSTmrTbl s i) \<noteq> OS_TMR_TYPE then Some ((0, None, OS_ERR_TMR_INVALID_TYPE), s)
        else if OSIntNesting s > 0 then Some ((0, None, OS_ERR_NAME_GET_ISR), s)
        else do {
          let s = OSSchedLock s;
          let st = OSTmrState (OSTmrTbl s i);
          if st = OS_TMR_STATE_RUNNING \<or> st = OS_TMR_STATE_STOPPED \<or> st = OS_TMR_STATE_COMPLETED then do {
            let name = OSTmrName (OSTmrTbl s i);
            len \<leftarrow> OS_StrLen name;
            s \<leftarrow> OSSchedUnlock s;
            Some ((len, Some name, OS_ERR_NONE), s)
          } else do {
            s \<leftarrow> OSSchedUnlock s;
            Some ((0, None, if st = OS_TMR_STATE_UNUSED then OS_ERR_TMR_INACTIVE else OS_ERR_TMR_INVALID_STATE), s)
          }
        }
      })"

definition OSTmrRemainGet :: "vptr \<Rightarrow> kst \<Rightarrow> ((32 word \<times> os_err) \<times> kst) option" where
  "OSTmrRemainGet ptmr s =
     (if ptmr = NULL then Some ((0, OS_ERR_TMR_INVALID), s)
      else do {
        i \<leftarrow> tmr_at ptmr;
        if OSTmrType (OSTmrTbl s i) \<noteq> OS_TMR_TYPE then Some ((0, OS_ERR_TMR_INVALID_TYPE), s)
        else if OSIntNesting s > 0 then Some ((0, OS_ERR_TMR_ISR), s)
        else do {
          let s = OSSchedLock s;
          let c = OSTmrTbl s i;
          let st = OSTmrState c;
          let res = (if st = OS_TMR_STATE_RUNNING then (OSTmrMatch c - OSTmrTime s, OS_ERR_NONE)
            else if st = OS_TMR_STATE_STOPPED then
              (if OSTmrOpt c = OS_TMR_OPT_PERIODIC then if OSTmrDly c = 0 then OSTmrPeriod c else OSTmrDly c
               else OSTmrDly c, OS_ERR_NONE)
            else if st = OS_TMR_STATE_COMPLETED then (0, OS_ERR_NONE)
            else if st = OS_TMR_STATE_UNUSED then (0, OS_ERR_TMR_INACTIVE)
            else (0, OS_ERR_TMR_INVALID_STATE));
          s \<leftarrow> OSSchedUnlock s;
          Some (res, s)
        }
      })"

definition OSTmrStateGet :: "vptr \<Rightarrow> kst \<Rightarrow> ((8 word \<times> os_err) \<times> kst) option" where
  "OSTmrStateGet ptmr s =
     (if ptmr = NULL then Some ((0, OS_ERR_TMR_INVALID), s)
      else do {
        i \<leftarrow> tmr_at ptmr;
        if OSTmrType (OSTmrTbl s i) \<noteq> OS_TMR_TYPE then Some ((0, OS_ERR_TMR_INVALID_TYPE), s)
        else if OSIntNesting s > 0 then Some ((0, OS_ERR_TMR_ISR), s)
        else do {
          let s = OSSchedLock s;
          let st = OSTmrState (OSTmrTbl s i);
          let err = (if st = OS_TMR_STATE_UNUSED \<or> st = OS_TMR_STATE_STOPPED \<or> st = OS_TMR_STATE_COMPLETED
              \<or> st = OS_TMR_STATE_RUNNING then OS_ERR_NONE else OS_ERR_TMR_INVALID_STATE);
          s \<leftarrow> OSSchedUnlock s;
          Some ((st, err), s)
        }
      })"

definition OSTmrStart :: "vptr \<Rightarrow> kst \<Rightarrow> ((bool \<times> os_err) \<times> kst) option" where
  "OSTmrStart ptmr s =
     (if ptmr = NULL then Some ((False, OS_ERR_TMR_INVALID), s)
      else do {
        i \<leftarrow> tmr_at ptmr;
        if OSTmrType (OSTmrTbl s i) \<noteq> OS_TMR_TYPE then Some ((False, OS_ERR_TMR_INVALID_TYPE), s)
        else if OSIntNesting s > 0 then Some ((False, OS_ERR_TMR_ISR), s)
        else do {
          let s = OSSchedLock s;
          let st = OSTmrState (OSTmrTbl s i);
          if st = OS_TMR_STATE_RUNNING then do {
            s \<leftarrow> OSTmr_Unlink i s;
            s \<leftarrow> OSTmr_Link i False s;
            s \<leftarrow> OSSchedUnlock s;
            Some ((True, OS_ERR_NONE), s)
          } else if st = OS_TMR_STATE_STOPPED \<or> st = OS_TMR_STATE_COMPLETED then do {
            s \<leftarrow> OSTmr_Link i False s;
            s \<leftarrow> OSSchedUnlock s;
            Some ((True, OS_ERR_NONE), s)
          } else do {
            s \<leftarrow> OSSchedUnlock s;
            Some ((False, if st = OS_TMR_STATE_UNUSED then OS_ERR_TMR_INACTIVE else OS_ERR_TMR_INVALID_STATE), s)
          }
        }
      })"

definition OSTmrStop :: "tmr_callback \<Rightarrow> vptr \<Rightarrow> 8 word \<Rightarrow> vptr \<Rightarrow> kst \<Rightarrow> ((bool \<times> os_err) \<times> kst) option" where
  "OSTmrStop cb ptmr opt callback_arg s =
     (if ptmr = NULL then Some ((False, OS_ERR_TMR_INVALID), s)
      else do {
        i \<leftarrow> tmr_at ptmr;
        if OSTmrType (OSTmrTbl s i) \<noteq> OS_TMR_TYPE then Some ((False, OS_ERR_TMR_INVALID_TYPE), s)
        else if OSIntNesting s > 0 then Some ((False, OS_ERR_TMR_ISR), s)
        else do {
          let s = OSSchedLock s;
          let st = OSTmrState (OSTmrTbl s i);
          if st = OS_TMR_STATE_RUNNING then do {
            s \<leftarrow> OSTmr_Unlink i s;
            let pfnct = OSTmrCallback (OSTmrTbl s i);
            (err, s) \<leftarrow>
              (if opt = OS_TMR_OPT_CALLBACK then
                 if pfnct \<noteq> NULL then do {
                   s \<leftarrow> cb pfnct ptmr (OSTmrCallbackArg (OSTmrTbl s i)) s;
                   Some (OS_ERR_NONE, s)
                 } else Some (OS_ERR_TMR_NO_CALLBACK, s)
               else if opt = OS_TMR_OPT_CALLBACK_ARG then
                 if pfnct \<noteq> NULL then do {
                   s \<leftarrow> cb pfnct ptmr callback_arg s;
                   Some (OS_ERR_NONE, s)
                 } else Some (OS_ERR_TMR_NO_CALLBACK, s)
               else if opt = OS_TMR_OPT_NONE then Some (OS_ERR_NONE, s)
               else Some (OS_ERR_TMR_INVALID_OPT, s));
            s \<leftarrow> OSSchedUnlock s;
            Some ((True, err), s)
          } else if st = OS_TMR_STATE_COMPLETED \<or> st = OS_TMR_STATE_STOPPED then do {
            s \<leftarrow> OSSchedUnlock s;
            Some ((True, OS_ERR_TMR_STOPPED), s)
          } else do {
            s \<leftarrow> OSSchedUnlock s;
            Some ((False, if st = OS_TMR_STATE_UNUSED then OS_ERR_TMR_INACTIVE else OS_ERR_TMR_INVALID_STATE), s)
          }
        }
      })"

section \<open>The timer task\<close>

text \<open>
  The walk along a spoke, which reads the next timer before the callback of the present one is called;
  that it ends when the callbacks leave the wheel alone is \<open>tmr_loop_ok\<close>.
\<close>

partial_function (option) tmr_loop :: "tmr_callback \<Rightarrow> vptr \<Rightarrow> kst \<Rightarrow> kst option" where
  "tmr_loop cb ptmr s =
     (if ptmr = NULL then Some s
      else do {
        i \<leftarrow> tmr_at ptmr;
        let ptmr_next = OSTmrNext (OSTmrTbl s i);
        s \<leftarrow> (if OSTmrTime s = OSTmrMatch (OSTmrTbl s i) then do {
                s \<leftarrow> OSTmr_Unlink i s;
                s \<leftarrow> (if OSTmrOpt (OSTmrTbl s i) = OS_TMR_OPT_PERIODIC then OSTmr_Link i True s
                      else Some (upd_tmr i (\<lambda>c. c\<lparr>OSTmrState := OS_TMR_STATE_COMPLETED\<rparr>) s));
                let pfnct = OSTmrCallback (OSTmrTbl s i);
                if pfnct \<noteq> NULL then cb pfnct ptmr (OSTmrCallbackArg (OSTmrTbl s i)) s else Some s
              } else Some s);
        tmr_loop cb ptmr_next s
      })"

declare tmr_loop.simps [code]

text \<open>The loop body of \<open>OSTmr_Task\<close> after the semaphore has been taken.\<close>

definition OSTmr_Task_round :: "tmr_callback \<Rightarrow> kst \<Rightarrow> kst option" where
  "OSTmr_Task_round cb s = do {
     let s = OSSchedLock s;
     let s = s\<lparr>OSTmrTime := OSTmrTime s + 1\<rparr>;
     s \<leftarrow> tmr_loop cb (OSTmrFirst (OSTmrWheelTbl s (spoke_of (OSTmrTime s)))) s;
     OSSchedUnlock s
   }"

text \<open>One turn of \<open>OSTmr_Task\<close> up to the point where it waits, and its part after a wait.\<close>

definition OSTmr_Task :: "tmr_callback \<Rightarrow> kst \<Rightarrow> (unit pend \<times> kst) option" where
  "OSTmr_Task cb s = do {
     (r, s) \<leftarrow> OSSemPend (OSTmrSemSignal s) 0 s;
     case r of
       Waiting \<Rightarrow> Some (Waiting, s)
     | Returned err \<Rightarrow> do {
         s \<leftarrow> OSTmr_Task_round cb s;
         Some (Returned (), s)
       }
   }"

definition OSTmr_Task_resume :: "tmr_callback \<Rightarrow> kst \<Rightarrow> kst option" where
  "OSTmr_Task_resume cb s = do {
     (err, s) \<leftarrow> OSSemPend_resume (OSTmrSemSignal s) s;
     OSTmr_Task_round cb s
   }"

end
