(* ===== verification/Os_Tmr_Inv.thy ===== *)
theory Os_Tmr_Inv
  imports Os_Tmr Os_Links Os_Frame
begin

text \<open>
  The timer wheel: each spoke is a doubly linked list of the running timers that match at a time of
  that spoke.  Linking, unlinking and the walk of the timer task keep it so, and the walk fires exactly
  the timers that are due.
\<close>

section \<open>Spokes\<close>

definition on_spoke :: "(nat \<Rightarrow> os_tmr) \<Rightarrow> os_tmr_wheel \<Rightarrow> nat list \<Rightarrow> bool" where
  "on_spoke T w ts \<longleftrightarrow> dll TMRp (\<lambda>i. OSTmrNext (T i)) (\<lambda>i. OSTmrPrev (T i)) NULL (OSTmrFirst w) ts
     \<and> distinct ts \<and> (\<forall>i\<in>set ts. i < OS_TMR_CFG_MAX) \<and> OSTmrEntries w = of_nat (length ts)"

lemma on_spoke_cong:
  assumes "\<And>i. i \<in> set ts \<Longrightarrow> T' i = T i"
  shows "on_spoke T' w ts = on_spoke T w ts"
  using dll_cong [of ts "\<lambda>i. OSTmrNext (T' i)" "\<lambda>i. OSTmrNext (T i)" "\<lambda>i. OSTmrPrev (T' i)" "\<lambda>i. OSTmrPrev (T i)"] assms
  by (simp add: on_spoke_def)

lemma spoke_of_less: "spoke_of m < OS_TMR_CFG_WHEEL_SIZE"
proof -
  have "m mod 7 < 7" by (rule word_mod_less_divisor) simp
  then show ?thesis by (simp add: spoke_of_def word_less_nat_alt)
qed

text \<open>A timer without its links.\<close>

definition bare :: "os_tmr \<Rightarrow> os_tmr" where
  "bare c = c\<lparr>OSTmrNext := NULL, OSTmrPrev := NULL\<rparr>"

lemma bare_fields:
  assumes "bare c = bare c'"
  shows "OSTmrState c = OSTmrState c'" "OSTmrMatch c = OSTmrMatch c'" "OSTmrType c = OSTmrType c'"
    "OSTmrOpt c = OSTmrOpt c'" "OSTmrDly c = OSTmrDly c'" "OSTmrPeriod c = OSTmrPeriod c'"
    "OSTmrCallback c = OSTmrCallback c'" "OSTmrCallbackArg c = OSTmrCallbackArg c'" "OSTmrName c = OSTmrName c'"
  using assms by (cases c; cases c'; simp add: bare_def)+

lemma bare_update [simp]:
  "bare (c\<lparr>OSTmrNext := p\<rparr>) = bare c" "bare (c\<lparr>OSTmrPrev := p\<rparr>) = bare c"
  "bare (bare c) = bare c"
  by (simp_all add: bare_def)

definition set_wheel :: "(nat \<Rightarrow> os_tmr) \<Rightarrow> (nat \<Rightarrow> os_tmr_wheel) \<Rightarrow> kst \<Rightarrow> kst" where
  "set_wheel T W s = s\<lparr>OSTmrTbl := T, OSTmrWheelTbl := W\<rparr>"

lemma set_wheel_simps [simp]:
  "OSTmrTbl (set_wheel T W s) = T" "OSTmrWheelTbl (set_wheel T W s) = W" "OSTmrTime (set_wheel T W s) = OSTmrTime s"
  "set_wheel T W (set_wheel T' W' s) = set_wheel T W s" "OSTmrFreeList (set_wheel T W s) = OSTmrFreeList s"
  "OSTmrFree (set_wheel T W s) = OSTmrFree s" "OSTmrUsed (set_wheel T W s) = OSTmrUsed s"
  by (simp_all add: set_wheel_def)

lemma unread_wheel [simp]: "unread s (set_wheel T W s)"
  by (auto simp: unread_def set_wheel_def ids_def ctl_def cur_def rdy_bm_def ev_bm_def ev_data_def clock_def fun_eq_iff)

section \<open>Linking and unlinking\<close>

lemma OSTmr_Unlink_ok:
  assumes on: "on_spoke (OSTmrTbl s) (OSTmrWheelTbl s k) (ys @ i # zs)" and k: "k = spoke_of (OSTmrMatch (OSTmrTbl s i))"
  obtains T w where "OSTmr_Unlink i s = Some (set_wheel T ((OSTmrWheelTbl s)(k := w)) s)"
    "bare (T i) = bare ((OSTmrTbl s i)\<lparr>OSTmrState := OS_TMR_STATE_STOPPED\<rparr>)"
    "\<And>j. j \<noteq> i \<Longrightarrow> bare (T j) = bare (OSTmrTbl s j)"
    "\<And>j. j \<notin> set (ys @ i # zs) \<Longrightarrow> T j = OSTmrTbl s j"
    "on_spoke T w (ys @ zs)" "\<And>z. z \<in> set zs \<Longrightarrow> OSTmrNext (T z) = OSTmrNext (OSTmrTbl s z)"
proof -
  let ?t = "OSTmrTbl s"
  have d: "dll TMRp (\<lambda>i. OSTmrNext (?t i)) (\<lambda>i. OSTmrPrev (?t i)) NULL (OSTmrFirst (OSTmrWheelTbl s k)) (ys @ i # zs)"
    and dist: "distinct (ys @ i # zs)" and lt: "\<forall>j\<in>set (ys @ i # zs). j < OS_TMR_CFG_MAX"
    and n: "OSTmrEntries (OSTmrWheelTbl s k) = of_nat (length (ys @ i # zs))"
    using on by (simp_all add: on_spoke_def)
  note a = tmr_links.dll_around [OF d dist]
  define T1 where "T1 = (if ys = [] then ?t else ?t(last ys := (?t (last ys))\<lparr>OSTmrNext := OSTmrNext (?t i)\<rparr>))"
  define T2 where "T2 = (if zs = [] then T1 else T1(hd zs := (T1 (hd zs))\<lparr>OSTmrPrev := OSTmrPrev (?t i)\<rparr>))"
  define T where "T = T2(i := (T2 i)\<lparr>OSTmrState := OS_TMR_STATE_STOPPED, OSTmrNext := NULL, OSTmrPrev := NULL\<rparr>)"
  define w where "w = (OSTmrWheelTbl s k)\<lparr>OSTmrFirst := (if ys = [] then OSTmrNext (?t i) else OSTmrFirst (OSTmrWheelTbl s k)),
    OSTmrEntries := OSTmrEntries (OSTmrWheelTbl s k) - 1\<rparr>"
  have ne: "ys \<noteq> [] \<Longrightarrow> last ys \<noteq> i" "zs \<noteq> [] \<Longrightarrow> hd zs \<noteq> i" "ys \<noteq> [] \<Longrightarrow> zs \<noteq> [] \<Longrightarrow> last ys \<noteq> hd zs"
  proof -
    have "set ys \<inter> set zs = {}" "i \<notin> set ys" "i \<notin> set zs" using dist by auto
    then show "ys \<noteq> [] \<Longrightarrow> last ys \<noteq> i" "zs \<noteq> [] \<Longrightarrow> hd zs \<noteq> i" "ys \<noteq> [] \<Longrightarrow> zs \<noteq> [] \<Longrightarrow> last ys \<noteq> hd zs"
      by (metis last_in_set, metis hd_in_set, metis disjoint_iff hd_in_set last_in_set)
  qed
  have b: "ys \<noteq> [] \<Longrightarrow> last ys < OS_TMR_CFG_MAX" "zs \<noteq> [] \<Longrightarrow> hd zs < OS_TMR_CFG_MAX" using lt by auto
  have run: "OSTmr_Unlink i s = Some (set_wheel T ((OSTmrWheelTbl s)(k := w)) s)"
  proof (cases "ys = []")
    case True
    have p: "OSTmrPrev (?t i) = NULL" using a True by simp
    show ?thesis
      using True a(3-5) ne b p unfolding OSTmr_Unlink_def Let_def k [symmetric]
      by (cases "zs = []") (simp_all add: upd_tmr_def upd_spoke_def T_def T2_def T1_def w_def set_wheel_def)
  next
    case False
    have p: "OSTmrPrev (?t i) = TMRp (last ys)" using a False by simp
    show ?thesis
      using False a(3-5) ne b p unfolding OSTmr_Unlink_def Let_def k [symmetric]
      by (cases "zs = []") (simp_all add: upd_tmr_def upd_spoke_def T_def T2_def T1_def w_def set_wheel_def)
  qed
  have fields: "OSTmrNext (T j) = (if j = i then NULL else if ys \<noteq> [] \<and> j = last ys then OSTmrNext (?t i) else OSTmrNext (?t j))"
    "OSTmrPrev (T j) = (if j = i then NULL else if zs \<noteq> [] \<and> j = hd zs then OSTmrPrev (?t i) else OSTmrPrev (?t j))" for j
    using ne by (auto simp: T_def T2_def T1_def)
  have "dll TMRp (\<lambda>i. OSTmrNext (T i)) (\<lambda>i. OSTmrPrev (T i)) NULL
      (if ys = [] then OSTmrNext (?t i) else OSTmrFirst (OSTmrWheelTbl s k)) (ys @ zs)"
    by (rule tmr_links.dll_remove [OF d dist]) (use dist in \<open>auto simp: fields\<close>)
  then have "on_spoke T w (ys @ zs)" using dist lt n by (simp add: on_spoke_def w_def)
  moreover have "bare (T i) = bare ((?t i)\<lparr>OSTmrState := OS_TMR_STATE_STOPPED\<rparr>)"
    using ne by (auto simp: T_def T2_def T1_def bare_def)
  moreover have "bare (T j) = bare (?t j)" if "j \<noteq> i" for j
    using that by (simp add: T_def T2_def T1_def)
  moreover have "T j = ?t j" if "j \<notin> set (ys @ i # zs)" for j
  proof -
    have "j \<noteq> i" "ys \<noteq> [] \<Longrightarrow> j \<noteq> last ys" "zs \<noteq> [] \<Longrightarrow> j \<noteq> hd zs" using that by auto
    then show ?thesis by (auto simp: T_def T2_def T1_def)
  qed
  moreover have "OSTmrNext (T z) = OSTmrNext (?t z)" if "z \<in> set zs" for z
  proof -
    have "z \<noteq> i" "ys \<noteq> [] \<Longrightarrow> z \<noteq> last ys" using that dist by (auto simp: disjoint_iff)
    then show ?thesis by (auto simp: fields)
  qed
  ultimately show ?thesis using that [OF run] by blast
qed

text \<open>The time at which a timer will match.\<close>

definition next_match :: "bool \<Rightarrow> os_tmr \<Rightarrow> 32 word \<Rightarrow> 32 word" where
  "next_match periodic c now = (if periodic \<or> OSTmrDly c = 0 then OSTmrPeriod c else OSTmrDly c) + now"

lemma OSTmr_Link_ok:
  assumes m: "m = next_match periodic (OSTmrTbl s i) (OSTmrTime s)"
    and on: "on_spoke (OSTmrTbl s) (OSTmrWheelTbl s (spoke_of m)) ts" and i: "i \<notin> set ts" "i < OS_TMR_CFG_MAX"
  obtains T w where "OSTmr_Link i periodic s = Some (set_wheel T ((OSTmrWheelTbl s)(spoke_of m := w)) s)"
    "bare (T i) = bare ((OSTmrTbl s i)\<lparr>OSTmrState := OS_TMR_STATE_RUNNING, OSTmrMatch := m\<rparr>)"
    "\<And>j. j \<noteq> i \<Longrightarrow> bare (T j) = bare (OSTmrTbl s j)"
    "\<And>j. j \<notin> set (i # ts) \<Longrightarrow> T j = OSTmrTbl s j"
    "on_spoke T w (i # ts)" "\<And>z. z \<noteq> i \<Longrightarrow> OSTmrNext (T z) = OSTmrNext (OSTmrTbl s z)"
proof -
  let ?t = "OSTmrTbl s" and ?k = "spoke_of m"
  let ?w = "OSTmrWheelTbl s ?k"
  have d: "dll TMRp (\<lambda>i. OSTmrNext (?t i)) (\<lambda>i. OSTmrPrev (?t i)) NULL (OSTmrFirst ?w) ts"
    and dist: "distinct ts" and lt: "\<forall>j\<in>set ts. j < OS_TMR_CFG_MAX" and n: "OSTmrEntries ?w = of_nat (length ts)"
    using on by (simp_all add: on_spoke_def)
  define T1 where "T1 = (if ts = [] then ?t else ?t(hd ts := (?t (hd ts))\<lparr>OSTmrPrev := TMRp i\<rparr>))"
  define T where "T = T1(i := (?t i)\<lparr>OSTmrState := OS_TMR_STATE_RUNNING, OSTmrMatch := m,
    OSTmrNext := OSTmrFirst ?w, OSTmrPrev := NULL\<rparr>)"
  define w where "w = ?w\<lparr>OSTmrFirst := TMRp i, OSTmrEntries := OSTmrEntries ?w + 1\<rparr>"
  have ne: "ts \<noteq> [] \<Longrightarrow> hd ts \<noteq> i" "ts \<noteq> [] \<Longrightarrow> hd ts < OS_TMR_CFG_MAX" using i lt by auto
  have first: "OSTmrFirst ?w = (if ts = [] then NULL else TMRp (hd ts))" using d by (cases ts) auto
  have run: "OSTmr_Link i periodic s = Some (set_wheel T ((OSTmrWheelTbl s)(?k := w)) s)"
  proof -
    define s1 where "s1 = upd_tmr i (\<lambda>c. c\<lparr>OSTmrState := OS_TMR_STATE_RUNNING, OSTmrMatch := m\<rparr>) s"
    have s1: "OSTmrMatch (OSTmrTbl s1 i) = m" "OSTmrWheelTbl s1 = OSTmrWheelTbl s" by (simp_all add: s1_def upd_tmr_def)
    have "(if periodic then upd_tmr i (\<lambda>c. c\<lparr>OSTmrMatch := OSTmrPeriod c + OSTmrTime (upd_tmr i (\<lambda>c. c\<lparr>OSTmrState := 3\<rparr>) s)\<rparr>)
            (upd_tmr i (\<lambda>c. c\<lparr>OSTmrState := 3\<rparr>) s)
          else if OSTmrDly (OSTmrTbl (upd_tmr i (\<lambda>c. c\<lparr>OSTmrState := 3\<rparr>) s) i) = 0
          then upd_tmr i (\<lambda>c. c\<lparr>OSTmrMatch := OSTmrPeriod c + OSTmrTime (upd_tmr i (\<lambda>c. c\<lparr>OSTmrState := 3\<rparr>) s)\<rparr>)
            (upd_tmr i (\<lambda>c. c\<lparr>OSTmrState := 3\<rparr>) s)
          else upd_tmr i (\<lambda>c. c\<lparr>OSTmrMatch := OSTmrDly c + OSTmrTime (upd_tmr i (\<lambda>c. c\<lparr>OSTmrState := 3\<rparr>) s)\<rparr>)
            (upd_tmr i (\<lambda>c. c\<lparr>OSTmrState := 3\<rparr>) s)) = s1"
      by (simp add: m s1_def next_match_def upd_tmr_def)
    then have "OSTmr_Link i periodic s = do {
        s \<leftarrow> (if OSTmrFirst ?w = NULL then
               Some (upd_spoke ?k (\<lambda>w. w\<lparr>OSTmrEntries := 1\<rparr>) (upd_tmr i (\<lambda>c. c\<lparr>OSTmrNext := NULL\<rparr>)
                 (upd_spoke ?k (\<lambda>w. w\<lparr>OSTmrFirst := TMRp i\<rparr>) s1)))
             else do {
               j \<leftarrow> tmr_at (OSTmrFirst ?w);
               Some (upd_spoke ?k (\<lambda>w. w\<lparr>OSTmrEntries := OSTmrEntries w + 1\<rparr>) (upd_tmr j (\<lambda>c. c\<lparr>OSTmrPrev := TMRp i\<rparr>)
                 (upd_tmr i (\<lambda>c. c\<lparr>OSTmrNext := OSTmrFirst ?w\<rparr>) (upd_spoke ?k (\<lambda>w. w\<lparr>OSTmrFirst := TMRp i\<rparr>) s1))))
             });
        Some (upd_tmr i (\<lambda>c. c\<lparr>OSTmrPrev := NULL\<rparr>) s) }"
      unfolding OSTmr_Link_def Let_def by (simp only: s1)
    then show ?thesis
      using first ne n by (cases "ts = []")
        (simp_all add: upd_tmr_def upd_spoke_def T_def T1_def w_def s1_def set_wheel_def fun_upd_twist)
  qed
  have fields: "OSTmrNext (T j) = (if j = i then OSTmrFirst ?w else OSTmrNext (?t j))"
    "OSTmrPrev (T j) = (if j = i then NULL else if ts \<noteq> [] \<and> j = hd ts then TMRp i else OSTmrPrev (?t j))" for j
    using ne by (auto simp: T_def T1_def)
  have "dll TMRp (\<lambda>i. OSTmrNext (T i)) (\<lambda>i. OSTmrPrev (T i)) NULL (TMRp i) (i # ts)"
    by (rule tmr_links.dll_push [OF d dist i(1)]) (use i(1) first in \<open>auto simp: fields\<close>)
  then have "on_spoke T w (i # ts)" using dist lt n i by (simp add: on_spoke_def w_def)
  moreover have "bare (T i) = bare ((?t i)\<lparr>OSTmrState := OS_TMR_STATE_RUNNING, OSTmrMatch := m\<rparr>)"
    by (simp add: T_def bare_def)
  moreover have "bare (T j) = bare (?t j)" if "j \<noteq> i" for j
    using that by (simp add: T_def T1_def)
  moreover have "T j = ?t j" if "j \<notin> set (i # ts)" for j
  proof -
    have "j \<noteq> i" "ts \<noteq> [] \<Longrightarrow> j \<noteq> hd ts" using that by auto
    then show ?thesis by (auto simp: T_def T1_def)
  qed
  moreover have "OSTmrNext (T z) = OSTmrNext (?t z)" if "z \<noteq> i" for z
    using that by (simp add: fields)
  ultimately show ?thesis using that [OF run] by blast
qed

section \<open>The wheel\<close>

abbreviation (input) running :: "os_tmr \<Rightarrow> bool" where
  "running c \<equiv> OSTmrState c = OS_TMR_STATE_RUNNING"

definition wheel_ok :: "kst \<Rightarrow> (nat \<Rightarrow> nat list) \<Rightarrow> bool" where
  "wheel_ok s w \<longleftrightarrow> (\<forall>k<OS_TMR_CFG_WHEEL_SIZE. on_spoke (OSTmrTbl s) (OSTmrWheelTbl s k) (w k)
     \<and> (\<forall>i. i \<in> set (w k) \<longleftrightarrow> i < OS_TMR_CFG_MAX \<and> running (OSTmrTbl s i) \<and> spoke_of (OSTmrMatch (OSTmrTbl s i)) = k))"

text \<open>Timer \<open>i\<close> changes by \<open>f\<close>, apart from links; timers off the wheel do not change at all.\<close>

definition rewired :: "nat \<Rightarrow> (os_tmr \<Rightarrow> os_tmr) \<Rightarrow> kst \<Rightarrow> kst \<Rightarrow> bool" where
  "rewired i f s s' \<longleftrightarrow> s' = set_wheel (OSTmrTbl s') (OSTmrWheelTbl s') s \<and> bare (OSTmrTbl s' i) = bare (f (OSTmrTbl s i))
     \<and> (\<forall>j. j \<noteq> i \<longrightarrow> bare (OSTmrTbl s' j) = bare (OSTmrTbl s j))
     \<and> (\<forall>j. j \<noteq> i \<longrightarrow> \<not> running (OSTmrTbl s j) \<longrightarrow> OSTmrTbl s' j = OSTmrTbl s j)"

lemma unlink_wheel:
  assumes w: "wheel_ok s w" and i: "i < OS_TMR_CFG_MAX" "running (OSTmrTbl s i)"
    and k: "k = spoke_of (OSTmrMatch (OSTmrTbl s i))" "w k = ys @ i # zs"
  shows "ok (OSTmr_Unlink i s) (\<lambda>s'. wheel_ok s' (w(k := ys @ zs))
    \<and> rewired i (\<lambda>c. c\<lparr>OSTmrState := OS_TMR_STATE_STOPPED\<rparr>) s s')"
proof -
  have k7: "k < OS_TMR_CFG_WHEEL_SIZE" using spoke_of_less k(1) by simp
  have on: "on_spoke (OSTmrTbl s) (OSTmrWheelTbl s k) (ys @ i # zs)" using w k7 k(2) by (metis wheel_ok_def)
  obtain T v where r: "OSTmr_Unlink i s = Some (set_wheel T ((OSTmrWheelTbl s)(k := v)) s)"
    and T: "bare (T i) = bare ((OSTmrTbl s i)\<lparr>OSTmrState := OS_TMR_STATE_STOPPED\<rparr>)"
      "\<And>j. j \<noteq> i \<Longrightarrow> bare (T j) = bare (OSTmrTbl s j)" "\<And>j. j \<notin> set (ys @ i # zs) \<Longrightarrow> T j = OSTmrTbl s j"
      "on_spoke T v (ys @ zs)"
    by (rule OSTmr_Unlink_ok [OF on k(1)]) (rule that)
  let ?s = "set_wheel T ((OSTmrWheelTbl s)(k := v)) s"
  have mem: "j \<in> set (w l) \<longleftrightarrow> j < OS_TMR_CFG_MAX \<and> running (OSTmrTbl s j) \<and> spoke_of (OSTmrMatch (OSTmrTbl s j)) = l"
    if "l < OS_TMR_CFG_WHEEL_SIZE" for j l using w that by (simp add: wheel_ok_def)
  have off: "T j = OSTmrTbl s j" if "l < OS_TMR_CFG_WHEEL_SIZE" "l \<noteq> k" "j \<in> set (w l)" for j l
  proof (rule T(3))
    have "j \<notin> set (w k)" using that(2,3) mem [OF that(1), of j] mem [OF k7, of j] by simp
    then show "j \<notin> set (ys @ i # zs)" unfolding k(2) .
  qed
  have dist: "i \<notin> set (ys @ zs)" using on by (auto simp: on_spoke_def)
  have st: "running (T j) \<longleftrightarrow> j \<noteq> i \<and> running (OSTmrTbl s j)" "j \<noteq> i \<Longrightarrow> OSTmrMatch (T j) = OSTmrMatch (OSTmrTbl s j)" for j
    using bare_fields(1) [OF T(1)] bare_fields(1,2) [OF T(2), of j] by (cases "j = i", simp_all)
  have "on_spoke T (((OSTmrWheelTbl s)(k := v)) l) ((w(k := ys @ zs)) l)" if l: "l < OS_TMR_CFG_WHEEL_SIZE" for l
  proof (cases "l = k")
    case False
    then show ?thesis using w l on_spoke_cong [of "w l" T "OSTmrTbl s"] off [OF l False] by (simp add: wheel_ok_def)
  qed (simp add: T(4))
  moreover have "j \<in> set ((w(k := ys @ zs)) l) \<longleftrightarrow> j < OS_TMR_CFG_MAX \<and> running (T j) \<and> spoke_of (OSTmrMatch (T j)) = l"
    if l: "l < OS_TMR_CFG_WHEEL_SIZE" for j l
  proof (cases "j = i")
    case True
    have "i \<notin> set (w l)" if "l \<noteq> k" using mem [OF l, of i] that k(1) by auto
    then show ?thesis using True st(1) [of i] dist by auto
  next
    case False
    have "j \<in> set (ys @ zs) \<longleftrightarrow> j \<in> set (w k)" using False by (simp add: k(2))
    then have "j \<in> set ((w(k := ys @ zs)) l) \<longleftrightarrow> j \<in> set (w l)" by simp
    then show ?thesis using False st mem [OF l, of j] by simp
  qed
  ultimately have "wheel_ok ?s (w(k := ys @ zs))" unfolding wheel_ok_def set_wheel_simps by blast
  moreover have "rewired i (\<lambda>c. c\<lparr>OSTmrState := OS_TMR_STATE_STOPPED\<rparr>) s ?s"
  proof -
    have "T j = OSTmrTbl s j" if "j \<noteq> i" "\<not> running (OSTmrTbl s j)" for j
    proof (rule T(3))
      have "j \<notin> set (w k)" using mem [OF k7, of j] that(2) by simp
      then show "j \<notin> set (ys @ i # zs)" unfolding k(2) .
    qed
    then show ?thesis using T(1,2) by (simp add: rewired_def)
  qed
  ultimately show ?thesis using r by simp
qed

lemma link_wheel:
  assumes w: "wheel_ok s w" and i: "i < OS_TMR_CFG_MAX" "\<not> running (OSTmrTbl s i)"
    and m: "m = next_match periodic (OSTmrTbl s i) (OSTmrTime s)"
  shows "ok (OSTmr_Link i periodic s) (\<lambda>s'. wheel_ok s' (w(spoke_of m := i # w (spoke_of m)))
    \<and> rewired i (\<lambda>c. c\<lparr>OSTmrState := OS_TMR_STATE_RUNNING, OSTmrMatch := m\<rparr>) s s')"
proof -
  let ?k = "spoke_of m"
  have k7: "?k < OS_TMR_CFG_WHEEL_SIZE" by (rule spoke_of_less)
  have mem: "j \<in> set (w l) \<longleftrightarrow> j < OS_TMR_CFG_MAX \<and> running (OSTmrTbl s j) \<and> spoke_of (OSTmrMatch (OSTmrTbl s j)) = l"
    if "l < OS_TMR_CFG_WHEEL_SIZE" for j l using w that by (simp add: wheel_ok_def)
  have on: "on_spoke (OSTmrTbl s) (OSTmrWheelTbl s ?k) (w ?k)" using w k7 by (simp add: wheel_ok_def)
  have new: "i \<notin> set (w l)" if "l < OS_TMR_CFG_WHEEL_SIZE" for l using mem [OF that] i(2) by simp
  obtain T v where r: "OSTmr_Link i periodic s = Some (set_wheel T ((OSTmrWheelTbl s)(?k := v)) s)"
    and T: "bare (T i) = bare ((OSTmrTbl s i)\<lparr>OSTmrState := OS_TMR_STATE_RUNNING, OSTmrMatch := m\<rparr>)"
      "\<And>j. j \<noteq> i \<Longrightarrow> bare (T j) = bare (OSTmrTbl s j)" "\<And>j. j \<notin> set (i # w ?k) \<Longrightarrow> T j = OSTmrTbl s j"
      "on_spoke T v (i # w ?k)"
    by (rule OSTmr_Link_ok [OF m on new [OF k7] i(1)]) (rule that)
  let ?s = "set_wheel T ((OSTmrWheelTbl s)(?k := v)) s"
  have st: "running (T j) \<longleftrightarrow> j = i \<or> running (OSTmrTbl s j)"
    "OSTmrMatch (T j) = (if j = i then m else OSTmrMatch (OSTmrTbl s j))" for j
    using bare_fields(1,2) [OF T(1)] bare_fields(1,2) [OF T(2), of j] by (cases "j = i", simp_all)
  have "on_spoke T (((OSTmrWheelTbl s)(?k := v)) l) ((w(?k := i # w ?k)) l)" if l: "l < OS_TMR_CFG_WHEEL_SIZE" for l
  proof (cases "l = ?k")
    case False
    have "T j = OSTmrTbl s j" if "j \<in> set (w l)" for j
    proof (rule T(3))
      have "j \<noteq> i" using that new [OF l] by auto
      moreover have "j \<notin> set (w ?k)" using that mem [OF l, of j] mem [OF k7, of j] False by simp
      ultimately show "j \<notin> set (i # w ?k)" by simp
    qed
    then show ?thesis using w l on_spoke_cong [of "w l" T "OSTmrTbl s"] False by (simp add: wheel_ok_def)
  qed (simp add: T(4))
  moreover have "j \<in> set ((w(?k := i # w ?k)) l) \<longleftrightarrow> j < OS_TMR_CFG_MAX \<and> running (T j) \<and> spoke_of (OSTmrMatch (T j)) = l"
    if l: "l < OS_TMR_CFG_WHEEL_SIZE" for j l
  proof (cases "j = i")
    case True
    then show ?thesis using new [OF l] i(1) st [of i] by simp
  next
    case False
    then have "j \<in> set ((w(?k := i # w ?k)) l) \<longleftrightarrow> j \<in> set (w l)" by simp
    then show ?thesis using False st [of j] mem [OF l, of j] by simp
  qed
  ultimately have "wheel_ok ?s (w(?k := i # w ?k))" unfolding wheel_ok_def set_wheel_simps by blast
  moreover have "rewired i (\<lambda>c. c\<lparr>OSTmrState := OS_TMR_STATE_RUNNING, OSTmrMatch := m\<rparr>) s ?s"
  proof -
    have "T j = OSTmrTbl s j" if "j \<noteq> i" "\<not> running (OSTmrTbl s j)" for j
      by (rule T(3)) (use mem [OF k7, of j] that in simp)
    then show ?thesis using T(1,2) by (simp add: rewired_def)
  qed
  ultimately show ?thesis using r by simp
qed

end
