(* ===== verification/Os_Tmr_Props.thy ===== *)
theory Os_Tmr_Props
  imports Os_Tmr_Inv Os_Sched
begin

text \<open>
  What the timer task does: one round of it fires exactly the timers that are due, in the order of
  their spoke, and a one-shot timer fires when as many rounds have passed as its delay says.
\<close>

section \<open>Callbacks\<close>

text \<open>The state of the timers, and all the rest of the state.\<close>

definition timers :: "kst \<Rightarrow> _" where
  "timers s = (OSTmrTbl s, OSTmrWheelTbl s, OSTmrFreeList s, OSTmrFree s, OSTmrUsed s, OSTmrTime s)"

definition no_timer :: os_tmr where
  "no_timer = \<lparr>OSTmrType = 0, OSTmrCallback = NULL, OSTmrCallbackArg = NULL, OSTmrNext = NULL, OSTmrPrev = NULL,
     OSTmrMatch = 0, OSTmrDly = 0, OSTmrPeriod = 0, OSTmrName = None, OSTmrOpt = 0, OSTmrState = 0\<rparr>"

definition rest :: "kst \<Rightarrow> kst" where
  "rest s = s\<lparr>OSTmrTbl := \<lambda>_. no_timer, OSTmrWheelTbl := \<lambda>_. \<lparr>OSTmrFirst = NULL, OSTmrEntries = 0\<rparr>,
     OSTmrFreeList := NULL, OSTmrFree := 0, OSTmrUsed := 0, OSTmrTime := 0\<rparr>"

text \<open>
  What the timer task expects of a callback: it returns, keeps the invariant and does not use timers;
  \<open>h\<close> is its effect on the rest of the state.
\<close>

definition callback_ok :: "tmr_callback \<Rightarrow> (vptr \<Rightarrow> vptr \<Rightarrow> vptr \<Rightarrow> kst \<Rightarrow> kst) \<Rightarrow> bool" where
  "callback_ok cb h \<longleftrightarrow> (\<forall>f t a s. sinv s \<longrightarrow> ok (cb f t a s) (\<lambda>s'. timers s' = timers s
     \<and> rest s' = h f t a (rest s) \<and> sinv s' \<and> ctl s' = ctl s))"

text \<open>A timer that is due: what becomes of it, and the call that it makes.\<close>

abbreviation (input) due :: "32 word \<Rightarrow> os_tmr \<Rightarrow> bool" where
  "due now c \<equiv> OSTmrMatch c = now"

definition fire :: "os_tmr \<Rightarrow> os_tmr" where
  "fire c = (if OSTmrOpt c = OS_TMR_OPT_PERIODIC then c\<lparr>OSTmrMatch := OSTmrPeriod c + OSTmrMatch c\<rparr>
     else c\<lparr>OSTmrState := OS_TMR_STATE_COMPLETED\<rparr>)"

definition calls :: "(vptr \<Rightarrow> vptr \<Rightarrow> vptr \<Rightarrow> kst \<Rightarrow> kst) \<Rightarrow> (nat \<Rightarrow> os_tmr) \<Rightarrow> nat \<Rightarrow> kst \<Rightarrow> kst" where
  "calls h T i = (if OSTmrCallback (T i) \<noteq> NULL then h (OSTmrCallback (T i)) (TMRp i) (OSTmrCallbackArg (T i)) else id)"

lemma bare_fire: "bare c = bare c' \<Longrightarrow> bare (fire c) = bare (fire c')"
  using bare_fields [of c c'] by (cases c; cases c') (simp add: fire_def bare_def)

lemma calls_cong: "bare (T i) = bare (T' i) \<Longrightarrow> calls h T i = calls h T' i"
  using bare_fields [of "T i" "T' i"] by (simp add: calls_def)

lemma rewired_trans:
  assumes "rewired i f s s1" "rewired i g s1 s2" "\<not> running (f (OSTmrTbl s i)) \<or> running (OSTmrTbl s i)"
    and "\<And>c c'. bare c = bare c' \<Longrightarrow> bare (g c) = bare (g c')"
  shows "rewired i (\<lambda>c. g (f c)) s s2"
proof -
  have r1: "s1 = set_wheel (OSTmrTbl s1) (OSTmrWheelTbl s1) s" "bare (OSTmrTbl s1 i) = bare (f (OSTmrTbl s i))"
    "\<And>j. j \<noteq> i \<Longrightarrow> bare (OSTmrTbl s1 j) = bare (OSTmrTbl s j)"
    "\<And>j. j \<noteq> i \<Longrightarrow> \<not> running (OSTmrTbl s j) \<Longrightarrow> OSTmrTbl s1 j = OSTmrTbl s j"
    using assms(1) by (auto simp: rewired_def)
  have r2: "s2 = set_wheel (OSTmrTbl s2) (OSTmrWheelTbl s2) s1" "bare (OSTmrTbl s2 i) = bare (g (OSTmrTbl s1 i))"
    "\<And>j. j \<noteq> i \<Longrightarrow> bare (OSTmrTbl s2 j) = bare (OSTmrTbl s1 j)"
    "\<And>j. j \<noteq> i \<Longrightarrow> \<not> running (OSTmrTbl s1 j) \<Longrightarrow> OSTmrTbl s2 j = OSTmrTbl s1 j"
    using assms(2) by (auto simp: rewired_def)
  have "s2 = set_wheel (OSTmrTbl s2) (OSTmrWheelTbl s2) s"
    by (subst r2(1), subst r1(1)) simp
  moreover have "OSTmrTbl s2 j = OSTmrTbl s j" if "j \<noteq> i" "\<not> running (OSTmrTbl s j)" for j
    using r2(4) [OF that(1)] r1(4) [OF that] that(2) by simp
  ultimately show ?thesis using r1 r2 assms(4) [OF r1(2)] by (simp add: rewired_def)
qed

text \<open>One timer that is due: unlinked, and linked again or completed.\<close>

definition fire_one :: "nat \<Rightarrow> kst \<Rightarrow> kst option" where
  "fire_one i s = do {
     s \<leftarrow> OSTmr_Unlink i s;
     if OSTmrOpt (OSTmrTbl s i) = OS_TMR_OPT_PERIODIC then OSTmr_Link i True s
     else Some (upd_tmr i (\<lambda>c. c\<lparr>OSTmrState := OS_TMR_STATE_COMPLETED\<rparr>) s)
   }"

lemma fire_one_ok:
  assumes w: "wheel_ok s w" and i: "i < OS_TMR_CFG_MAX" "running (OSTmrTbl s i)" "due (OSTmrTime s) (OSTmrTbl s i)"
    and k: "k = spoke_of (OSTmrTime s)" "w k = ys @ i # zs"
  shows "ok (fire_one i s) (\<lambda>s'. rewired i fire s s' \<and> (\<exists>w' ys'. wheel_ok s' w' \<and> w' k = ys' @ zs))"
proof -
  let ?stop = "\<lambda>c. c\<lparr>OSTmrState := OS_TMR_STATE_STOPPED\<rparr>"
  have ki: "k = spoke_of (OSTmrMatch (OSTmrTbl s i))" using k(1) i(3) by simp
  obtain s1 where r1: "OSTmr_Unlink i s = Some s1" and w1: "wheel_ok s1 (w(k := ys @ zs))" and s1: "rewired i ?stop s s1"
    using unlink_wheel [OF w i(1,2) ki k(2)] by (auto simp: ok_iff)
  have b1: "bare (OSTmrTbl s1 i) = bare (?stop (OSTmrTbl s i))" using s1 by (simp add: rewired_def)
  note f1 = bare_fields [OF b1]
  have t1: "OSTmrTime s1 = OSTmrTime s" using s1 unfolding rewired_def by (metis set_wheel_simps(3))
  show ?thesis
  proof (cases "OSTmrOpt (OSTmrTbl s i) = OS_TMR_OPT_PERIODIC")
    case True
    let ?m = "next_match True (OSTmrTbl s1 i) (OSTmrTime s1)"
    have m: "?m = OSTmrPeriod (OSTmrTbl s i) + OSTmrMatch (OSTmrTbl s i)"
      using f1(6) t1 i(3) by (simp add: next_match_def)
    let ?w = "(w(k := ys @ zs))(spoke_of ?m := i # (w(k := ys @ zs)) (spoke_of ?m))"
    have off: "\<not> running (OSTmrTbl s1 i)" using f1(1) by simp
    obtain s2 where r2: "OSTmr_Link i True s1 = Some s2" and w2: "wheel_ok s2 ?w"
      and s2: "rewired i (\<lambda>c. c\<lparr>OSTmrState := OS_TMR_STATE_RUNNING, OSTmrMatch := ?m\<rparr>) s1 s2"
      using link_wheel [OF w1 i(1) off refl] by (auto simp: ok_iff)
    have "rewired i (\<lambda>c. (?stop c)\<lparr>OSTmrState := OS_TMR_STATE_RUNNING, OSTmrMatch := ?m\<rparr>) s s2"
    proof (rule rewired_trans [OF s1 s2])
      show "bare (c\<lparr>OSTmrState := OS_TMR_STATE_RUNNING, OSTmrMatch := ?m\<rparr>)
          = bare (c'\<lparr>OSTmrState := OS_TMR_STATE_RUNNING, OSTmrMatch := ?m\<rparr>)" if "bare c = bare c'" for c c'
        using that by (cases c; cases c') (simp add: bare_def)
    qed simp
    then have "rewired i fire s s2"
      using True i(2) unfolding m by (simp add: rewired_def fire_def bare_def)
    moreover have "?w k = (if spoke_of ?m = k then i # ys else ys) @ zs" by simp
    ultimately show ?thesis using r1 r2 w2 True f1(4) unfolding fire_one_def by (auto simp del: fun_upd_apply)
  next
    case False
    define s2 where "s2 = upd_tmr i (\<lambda>c. c\<lparr>OSTmrState := OS_TMR_STATE_COMPLETED\<rparr>) s1"
    have off: "\<not> running (OSTmrTbl s1 i)" using f1(1) by simp
    have s2': "OSTmrTbl s2 = (OSTmrTbl s1)(i := (OSTmrTbl s1 i)\<lparr>OSTmrState := OS_TMR_STATE_COMPLETED\<rparr>)"
      "OSTmrWheelTbl s2 = OSTmrWheelTbl s1"
      by (simp_all add: s2_def upd_tmr_def)
    have "wheel_ok s2 (w(k := ys @ zs))"
    proof -
      have "on_spoke (OSTmrTbl s2) (OSTmrWheelTbl s1 l) ts = on_spoke (OSTmrTbl s1) (OSTmrWheelTbl s1 l) ts" for l ts
      proof -
        have "OSTmrNext (OSTmrTbl s2 j) = OSTmrNext (OSTmrTbl s1 j)" "OSTmrPrev (OSTmrTbl s2 j) = OSTmrPrev (OSTmrTbl s1 j)" for j
          by (simp_all add: s2')
        then show ?thesis by (simp add: on_spoke_def)
      qed
      moreover have "running (OSTmrTbl s2 j) \<longleftrightarrow> running (OSTmrTbl s1 j)" "OSTmrMatch (OSTmrTbl s2 j) = OSTmrMatch (OSTmrTbl s1 j)" for j
        using off by (simp_all add: s2')
      ultimately show ?thesis using w1 unfolding wheel_ok_def s2'(2) by simp
    qed
    moreover have "rewired i fire s s2"
    proof -
      have "rewired i (\<lambda>c. c\<lparr>OSTmrState := OS_TMR_STATE_COMPLETED\<rparr>) s1 s2"
        by (simp add: rewired_def s2' bare_def) (simp add: s2_def set_wheel_def upd_tmr_def)
      then have "rewired i (\<lambda>c. (?stop c)\<lparr>OSTmrState := OS_TMR_STATE_COMPLETED\<rparr>) s s2"
      proof (rule rewired_trans [OF s1])
        show "bare (c\<lparr>OSTmrState := OS_TMR_STATE_COMPLETED\<rparr>) = bare (c'\<lparr>OSTmrState := OS_TMR_STATE_COMPLETED\<rparr>)"
          if "bare c = bare c'" for c c' using that by (cases c; cases c') (simp add: bare_def)
      qed simp
      then show ?thesis using False by (simp add: rewired_def fire_def bare_def)
    qed
    moreover have "(w(k := ys @ zs)) k = ys @ zs" by simp
    ultimately have "rewired i fire s s2 \<and> (\<exists>w' ys'. wheel_ok s2 w' \<and> w' k = ys' @ zs)" by blast
    then show ?thesis using r1 False f1(4) unfolding fire_one_def by (simp add: s2_def)
  qed
qed

section \<open>The walk along a spoke\<close>

lemma callback_run:
  assumes "callback_ok cb h" "sinv s" "OSTmrTbl s = T'" "bare (T' i) = bare (fire (T i))"
  shows "ok (if OSTmrCallback (T' i) \<noteq> NULL then cb (OSTmrCallback (T' i)) (TMRp i) (OSTmrCallbackArg (T' i)) s else Some s)
    (\<lambda>s'. timers s' = timers s \<and> rest s' = calls h T i (rest s) \<and> sinv s' \<and> ctl s' = ctl s)"
proof -
  have "OSTmrCallback (T' i) = OSTmrCallback (T i)" "OSTmrCallbackArg (T' i) = OSTmrCallbackArg (T i)"
    using bare_fields(7,8) [OF assms(4)] by (simp_all add: fire_def)
  then show ?thesis using assms(1,2) by (simp add: callback_ok_def calls_def)
qed

lemma rest_set_wheel [simp]: "rest (set_wheel T W s) = rest s"
  by (simp add: rest_def set_wheel_def)

text \<open>What the walk over the timers \<open>is\<close> makes of the state.\<close>

definition fired :: "(vptr \<Rightarrow> vptr \<Rightarrow> vptr \<Rightarrow> kst \<Rightarrow> kst) \<Rightarrow> nat list \<Rightarrow> kst \<Rightarrow> kst \<Rightarrow> bool" where
  "fired h is s s' \<longleftrightarrow>
     (\<forall>i. bare (OSTmrTbl s' i) = bare (if i \<in> set is \<and> due (OSTmrTime s) (OSTmrTbl s i) then fire (OSTmrTbl s i) else OSTmrTbl s i))
     \<and> (\<forall>i. \<not> running (OSTmrTbl s i) \<longrightarrow> OSTmrTbl s' i = OSTmrTbl s i)
     \<and> rest s' = fold (calls h (OSTmrTbl s)) (filter (\<lambda>i. due (OSTmrTime s) (OSTmrTbl s i)) is) (rest s)
     \<and> OSTmrTime s' = OSTmrTime s \<and> OSTmrFreeList s' = OSTmrFreeList s \<and> OSTmrFree s' = OSTmrFree s
     \<and> OSTmrUsed s' = OSTmrUsed s \<and> sinv s' \<and> ctl s' = ctl s"

lemma fired_step:
  assumes i: "i \<notin> set is" "running (OSTmrTbl s i)" "due (OSTmrTime s) (OSTmrTbl s i)"
    and r: "rewired i fire s s1" and c: "timers s2 = timers s1" "rest s2 = calls h (OSTmrTbl s) i (rest s1)" "ctl s2 = ctl s"
    and run: "\<And>j. j \<in> set is \<Longrightarrow> running (OSTmrTbl s j)" and f: "fired h is s2 s'"
  shows "fired h (i # is) s s'"
proof -
  have r1: "s1 = set_wheel (OSTmrTbl s1) (OSTmrWheelTbl s1) s" "bare (OSTmrTbl s1 i) = bare (fire (OSTmrTbl s i))"
    "\<And>j. j \<noteq> i \<Longrightarrow> bare (OSTmrTbl s1 j) = bare (OSTmrTbl s j)"
    "\<And>j. j \<noteq> i \<Longrightarrow> \<not> running (OSTmrTbl s j) \<Longrightarrow> OSTmrTbl s1 j = OSTmrTbl s j"
    using r by (auto simp: rewired_def)
  have t1: "OSTmrTime s1 = OSTmrTime s" "OSTmrFreeList s1 = OSTmrFreeList s" "OSTmrFree s1 = OSTmrFree s"
    "OSTmrUsed s1 = OSTmrUsed s" "rest s1 = rest s"
    by (subst r1(1), simp)+
  have t2: "OSTmrTbl s2 = OSTmrTbl s1" "OSTmrTime s2 = OSTmrTime s1" "OSTmrFreeList s2 = OSTmrFreeList s1"
    "OSTmrFree s2 = OSTmrFree s1" "OSTmrUsed s2 = OSTmrUsed s1"
    using c(1) by (simp_all add: timers_def)
  have same: "due (OSTmrTime s2) (OSTmrTbl s2 j) \<longleftrightarrow> due (OSTmrTime s) (OSTmrTbl s j)"
    "calls h (OSTmrTbl s2) j = calls h (OSTmrTbl s) j" if "j \<noteq> i" for j
    using bare_fields(2) [OF r1(3) [OF that]] calls_cong [of "OSTmrTbl s1" j "OSTmrTbl s", OF r1(3) [OF that]]
    by (simp_all add: t1 t2)
  have "filter (\<lambda>j. due (OSTmrTime s2) (OSTmrTbl s2 j)) is = filter (\<lambda>j. due (OSTmrTime s) (OSTmrTbl s j)) is"
  proof (rule filter_cong [OF refl])
    fix j
    assume "j \<in> set is"
    then have "j \<noteq> i" using i(1) by auto
    then show "due (OSTmrTime s2) (OSTmrTbl s2 j) \<longleftrightarrow> due (OSTmrTime s) (OSTmrTbl s j)" by (rule same(1))
  qed
  moreover have "fold (calls h (OSTmrTbl s2)) js x = fold (calls h (OSTmrTbl s)) js x" if "set js \<subseteq> set is" for js x
  proof (rule fold_cong [OF refl refl])
    fix j
    assume "j \<in> set js"
    then have "j \<noteq> i" using i(1) that by auto
    then show "calls h (OSTmrTbl s2) j = calls h (OSTmrTbl s) j" by (rule same(2))
  qed
  ultimately have "rest s' = fold (calls h (OSTmrTbl s)) (filter (\<lambda>j. due (OSTmrTime s) (OSTmrTbl s j)) (i # is)) (rest s)"
    using f c(2) i(3) t1(5) by (simp add: fired_def)
  moreover have "bare (OSTmrTbl s' j) = bare (if j \<in> set (i # is) \<and> due (OSTmrTime s) (OSTmrTbl s j) then fire (OSTmrTbl s j) else OSTmrTbl s j)" for j
  proof (cases "j = i")
    case True
    have "bare (OSTmrTbl s' i) = bare (OSTmrTbl s2 i)" using f i(1) by (simp add: fired_def)
    then show ?thesis using True i(3) r1(2) t2(1) by simp
  next
    case False
    have "bare (OSTmrTbl s' j) = bare (if j \<in> set is \<and> due (OSTmrTime s) (OSTmrTbl s j) then fire (OSTmrTbl s2 j) else OSTmrTbl s2 j)"
      using f same(1) [OF False] by (simp add: fired_def)
    then show ?thesis using False r1(3) [OF False] bare_fire [OF r1(3) [OF False]] t2(1) by simp
  qed
  moreover have "OSTmrTbl s' j = OSTmrTbl s j" if "\<not> running (OSTmrTbl s j)" for j
  proof -
    have "j \<noteq> i" using that i(2) by auto
    then have "OSTmrTbl s2 j = OSTmrTbl s j" using r1(4) that t2(1) by simp
    then show ?thesis using f that by (simp add: fired_def)
  qed
  ultimately show ?thesis using f t1 t2 c(3) unfolding fired_def by simp
qed

lemma tmr_loop_ok:
  assumes cb: "callback_ok cb h" and inv: "sinv s" and w: "wheel_ok s w" and k: "k = spoke_of (OSTmrTime s)"
    and rs: "w k = as @ rs"
  shows "ok (tmr_loop cb (if rs = [] then NULL else TMRp (hd rs)) s) (\<lambda>s'. fired h rs s s' \<and> (\<exists>w'. wheel_ok s' w'))"
  using inv w k rs
proof (induction rs arbitrary: s w as)
  case Nil
  then show ?case by (subst tmr_loop.simps) (auto simp: fired_def)
next
  case (Cons i rs)
  have k7: "k < OS_TMR_CFG_WHEEL_SIZE" using spoke_of_less Cons.prems(3) by simp
  have on: "on_spoke (OSTmrTbl s) (OSTmrWheelTbl s k) (as @ i # rs)" using Cons.prems(2,4) k7 by (metis wheel_ok_def)
  have mem: "j \<in> set (as @ i # rs) \<Longrightarrow> j < OS_TMR_CFG_MAX \<and> running (OSTmrTbl s j)" for j
    using Cons.prems(2,4) k7 by (metis wheel_ok_def)
  have i: "i < OS_TMR_CFG_MAX" "running (OSTmrTbl s i)" using mem [of i] by simp_all
  have next': "OSTmrNext (OSTmrTbl s i) = (if rs = [] then NULL else TMRp (hd rs))"
  proof -
    have "dll TMRp (\<lambda>i. OSTmrNext (OSTmrTbl s i)) (\<lambda>i. OSTmrPrev (OSTmrTbl s i)) NULL (OSTmrFirst (OSTmrWheelTbl s k)) (as @ i # rs)"
      "distinct (as @ i # rs)" using on by (simp_all add: on_spoke_def)
    from tmr_links.dll_around(3,4) [OF this] show ?thesis by auto
  qed
  have nin: "i \<notin> set rs" using on by (auto simp: on_spoke_def)
  show ?case
  proof (cases "due (OSTmrTime s) (OSTmrTbl s i)")
    case False
    have "fired h rs s s' \<Longrightarrow> fired h (i # rs) s s'" for s' using False by (auto simp: fired_def)
    then show ?thesis
      using Cons.IH [OF Cons.prems(1-3), of "as @ [i]"] Cons.prems(4) False i(1)
      by (subst tmr_loop.simps) (auto simp: next' elim!: ok_mono)
  next
    case True
    obtain s1 w1 bs where r1: "fire_one i s = Some s1" and s1: "rewired i fire s s1" "wheel_ok s1 w1" "w1 k = bs @ rs"
      using fire_one_ok [OF Cons.prems(2) i True Cons.prems(3,4)] by (auto simp: ok_iff)
    have e1: "s1 = set_wheel (OSTmrTbl s1) (OSTmrWheelTbl s1) s" "bare (OSTmrTbl s1 i) = bare (fire (OSTmrTbl s i))"
      using s1(1) by (auto simp: rewired_def)
    have "unread s s1" by (subst e1(1)) simp
    then have inv1: "sinv s1" "ctl s1 = ctl s" using unread_sinv [OF Cons.prems(1)] by (simp_all add: unreadD)
    obtain s2 where r2: "(if OSTmrCallback (OSTmrTbl s1 i) \<noteq> NULL
          then cb (OSTmrCallback (OSTmrTbl s1 i)) (TMRp i) (OSTmrCallbackArg (OSTmrTbl s1 i)) s1 else Some s1) = Some s2"
      and s2: "timers s2 = timers s1" "rest s2 = calls h (OSTmrTbl s) i (rest s1)" "sinv s2" "ctl s2 = ctl s1"
      using callback_run [where T = "OSTmrTbl s", OF cb inv1(1) refl e1(2)] by (auto simp: ok_iff)
    have t2: "OSTmrTbl s2 = OSTmrTbl s1" "OSTmrWheelTbl s2 = OSTmrWheelTbl s1" "OSTmrTime s2 = OSTmrTime s1"
      using s2(1) by (simp_all add: timers_def)
    have "wheel_ok s2 w1" using s1(2) by (simp add: wheel_ok_def t2)
    moreover have "k = spoke_of (OSTmrTime s2)" using Cons.prems(3) t2(3) by (subst (asm) e1(1)) simp
    ultimately have ih: "ok (tmr_loop cb (if rs = [] then NULL else TMRp (hd rs)) s2) (\<lambda>s'. fired h rs s2 s' \<and> (\<exists>w'. wheel_ok s' w'))"
      using Cons.IH [of s2 w1 bs] s2(3) s1(3) by simp
    have run: "tmr_loop cb (TMRp i) s = tmr_loop cb (if rs = [] then NULL else TMRp (hd rs)) s2"
    proof -
      have "do { s \<leftarrow> OSTmr_Unlink i s;
             s \<leftarrow> (if OSTmrOpt (OSTmrTbl s i) = OS_TMR_OPT_PERIODIC then OSTmr_Link i True s
                   else Some (upd_tmr i (\<lambda>c. c\<lparr>OSTmrState := OS_TMR_STATE_COMPLETED\<rparr>) s));
             let pfnct = OSTmrCallback (OSTmrTbl s i);
             if pfnct \<noteq> NULL then cb pfnct (TMRp i) (OSTmrCallbackArg (OSTmrTbl s i)) s else Some s } = Some s2"
        using r1 r2 by (auto simp: fire_one_def Let_def split: Option.bind_splits)
      then show ?thesis using True i(1) by (subst tmr_loop.simps) (simp add: next' Let_def)
    qed
    have "running (OSTmrTbl s j)" if "j \<in> set rs" for j using mem [of j] that by simp
    then have "fired h (i # rs) s s'" if "fired h rs s2 s'" for s'
      using fired_step [OF nin i(2) True s1(1) s2(1,2) _ _ that] s2(4) inv1(2) by simp
    then show ?thesis using ih by (auto simp: run elim!: ok_mono)
  qed
qed

section \<open>Under the scheduler lock\<close>

lemma timers_resched: "resched s s' \<Longrightarrow> timers s' = timers s"
  using reschedD(6) [of s s'] by (simp add: objs_def stores_def timers_def)

lemma timers_lock [simp]: "timers (OSSchedLock s) = timers s" "timers (s\<lparr>OSLockNesting := n\<rparr>) = timers s"
  by (simp_all add: OSSchedLock_def timers_def)

lemma SchedUnlock_ok:
  assumes "OSIntNesting s = 0" "OSLockNesting s < 255" "sinv s1" "ctl s1 = ctl (OSSchedLock s)"
    and stop: "\<not> OSRunning s \<Longrightarrow> settled s \<Longrightarrow> settled s1"
  shows "ok (OSSchedUnlock s1) (\<lambda>s'. kept s s' \<and> timers s' = timers s1 \<and> (OSRunning s \<longrightarrow> settled s'))"
proof (cases "OSRunning s")
  case False
  then have "ctl s1 = ctl s" "OSSchedUnlock s1 = Some s1"
    using assms(4) by (auto simp: OSSchedLock_def OSSchedUnlock_def ctl_def)
  then show ?thesis using assms(3) False stop by simp
next
  case True
  have "OSSchedLock s = s\<lparr>OSLockNesting := OSLockNesting s + 1\<rparr>" using True assms(1,2) by (simp add: OSSchedLock_def)
  then have c: "OSRunning s1" "OSIntNesting s1 = 0" "OSLockNesting s1 = OSLockNesting s + 1"
    using True assms(1,4) by (simp_all add: ctl_def)
  define s2 where "s2 = s1\<lparr>OSLockNesting := OSLockNesting s\<rparr>"
  have s2: "sinv s2" "ctl s2 = ctl s" "timers s2 = timers s1"
    using assms(3,4) True c by (simp_all add: s2_def sinv_nesting ctl_def) (simp_all add: OSSchedLock_def ctl_def assms(1,2))
  have run: "OSSchedUnlock s1 = (if OSLockNesting s = 0 then OS_Sched s2 else Some s2)"
    using c lock_inc [OF assms(2)] by (simp add: OSSchedUnlock_def word_gt_0 s2_def)
  show ?thesis
  proof (cases "OSLockNesting s = 0")
    case True
    then show ?thesis
      unfolding run using sched_kept [OF s2(1,2)] timers_resched [of s2] s2(3) by (auto elim!: ok_mono)
  next
    case False
    then have "settled s2" by (simp add: settled_def s2_def)
    then show ?thesis unfolding run using False s2 by simp
  qed
qed

lemma SchedLock_ok:
  assumes "sinv s"
  shows "sinv (OSSchedLock s)" "rest (OSSchedLock s) = OSSchedLock (rest s)"
  using assms by (simp_all add: OSSchedLock_def sinv_nesting rest_def)

section \<open>A round of the timer task\<close>

text \<open>All timers, a round later; the free ones and the stopped ones do not change.\<close>

definition ticked :: "kst \<Rightarrow> kst \<Rightarrow> bool" where
  "ticked s s' \<longleftrightarrow> OSTmrTime s' = OSTmrTime s + 1
     \<and> (\<forall>i<OS_TMR_CFG_MAX. bare (OSTmrTbl s' i) = bare (if running (OSTmrTbl s i) \<and> due (OSTmrTime s + 1) (OSTmrTbl s i)
          then fire (OSTmrTbl s i) else OSTmrTbl s i))
     \<and> (\<forall>i. \<not> running (OSTmrTbl s i) \<longrightarrow> OSTmrTbl s' i = OSTmrTbl s i)
     \<and> OSTmrFreeList s' = OSTmrFreeList s \<and> OSTmrFree s' = OSTmrFree s \<and> OSTmrUsed s' = OSTmrUsed s"

lemma OSTmr_Task_round_ok:
  assumes cb: "callback_ok cb h" and inv: "sinv s" and w: "wheel_ok s w" and run: "OSRunning s"
    and nest: "OSIntNesting s = 0" "OSLockNesting s < 255"
  shows "ok (OSTmr_Task_round cb s) (\<lambda>s'. kept s s' \<and> settled s' \<and> (\<exists>w'. wheel_ok s' w') \<and> ticked s s'
    \<and> (\<exists>s1. OSSchedUnlock s1 = Some s' \<and> rest s1 = fold (calls h (OSTmrTbl s))
         (filter (\<lambda>i. due (OSTmrTime s + 1) (OSTmrTbl s i)) (w (spoke_of (OSTmrTime s + 1)))) (OSSchedLock (rest s))))"
proof -
  let ?k = "spoke_of (OSTmrTime s + 1)"
  define s0 where "s0 = (OSSchedLock s)\<lparr>OSTmrTime := OSTmrTime s + 1\<rparr>"
  have t0: "OSTmrTbl s0 = OSTmrTbl s" "OSTmrWheelTbl s0 = OSTmrWheelTbl s" "OSTmrTime s0 = OSTmrTime s + 1"
    "OSTmrFreeList s0 = OSTmrFreeList s" "OSTmrFree s0 = OSTmrFree s" "OSTmrUsed s0 = OSTmrUsed s"
    "rest s0 = OSSchedLock (rest s)" "ctl s0 = ctl (OSSchedLock s)"
    by (simp_all add: s0_def OSSchedLock_def rest_def ctl_def)
  have inv0: "sinv s0" unfolding s0_def by (rule unread_sinv [OF SchedLock_ok(1) [OF inv]]) simp
  have w0: "wheel_ok s0 w" using w by (simp add: wheel_ok_def t0)
  have k7: "?k < OS_TMR_CFG_WHEEL_SIZE" by (rule spoke_of_less)
  have first: "OSTmrFirst (OSTmrWheelTbl s0 ?k) = (if w ?k = [] then NULL else TMRp (hd (w ?k)))"
  proof -
    have "dll TMRp (\<lambda>i. OSTmrNext (OSTmrTbl s i)) (\<lambda>i. OSTmrPrev (OSTmrTbl s i)) NULL (OSTmrFirst (OSTmrWheelTbl s ?k)) (w ?k)"
      using w k7 by (simp add: wheel_ok_def on_spoke_def)
    then show ?thesis by (cases "w ?k") (simp_all add: t0)
  qed
  obtain s1 where r1: "tmr_loop cb (OSTmrFirst (OSTmrWheelTbl s0 ?k)) s0 = Some s1"
    and f: "fired h (w ?k) s0 s1" and w1: "\<exists>w'. wheel_ok s1 w'"
    using tmr_loop_ok [OF cb inv0 w0, of ?k "[]" "w ?k"] first by (auto simp: ok_iff t0)
  have s1: "sinv s1" "ctl s1 = ctl (OSSchedLock s)" using f t0(8) by (simp_all add: fired_def)
  obtain s' where r2: "OSSchedUnlock s1 = Some s'" and s': "kept s s'" "timers s' = timers s1" "settled s'"
    using SchedUnlock_ok [OF nest s1] run by (auto simp: ok_iff)
  have t': "OSTmrTbl s' = OSTmrTbl s1" "OSTmrWheelTbl s' = OSTmrWheelTbl s1" "OSTmrTime s' = OSTmrTime s1"
    "OSTmrFreeList s' = OSTmrFreeList s1" "OSTmrFree s' = OSTmrFree s1" "OSTmrUsed s' = OSTmrUsed s1"
    using s'(2) by (simp_all add: timers_def)
  have "i \<in> set (w ?k) \<and> due (OSTmrTime s + 1) (OSTmrTbl s i) \<longleftrightarrow> running (OSTmrTbl s i) \<and> due (OSTmrTime s + 1) (OSTmrTbl s i)"
    if "i < OS_TMR_CFG_MAX" for i
    using w k7 that by (auto simp: wheel_ok_def)
  then have "ticked s s'" using f by (simp add: ticked_def fired_def t0 t')
  moreover have "\<exists>w'. wheel_ok s' w'" using w1 by (simp add: wheel_ok_def t')
  moreover have "OSTmr_Task_round cb s = Some s'"
  proof -
    have "OSTmrTime (OSSchedLock s) = OSTmrTime s" using timers_lock(1) [of s] by (simp only: timers_def prod.inject)
    then have "OSTmr_Task_round cb s = do { s \<leftarrow> tmr_loop cb (OSTmrFirst (OSTmrWheelTbl s0 (spoke_of (OSTmrTime s0)))) s0; OSSchedUnlock s }"
      by (simp only: OSTmr_Task_round_def Let_def s0_def)
    then show ?thesis using r1 r2 t0(3) by simp
  qed
  moreover have "rest s1 = fold (calls h (OSTmrTbl s)) (filter (\<lambda>i. due (OSTmrTime s + 1) (OSTmrTbl s i)) (w ?k)) (OSSchedLock (rest s))"
    using f by (simp add: fired_def t0)
  ultimately show ?thesis using r2 s' by auto
qed

section \<open>Starting a timer\<close>

lemma SchedLock_views:
  "ids (OSSchedLock s) = ids s" "cur (OSSchedLock s) = cur s" "rdy (OSSchedLock s) = rdy s"
  "OSTmrTbl (OSSchedLock s) = OSTmrTbl s" "OSTmrTime (OSSchedLock s) = OSTmrTime s" "OSTmrWheelTbl (OSSchedLock s) = OSTmrWheelTbl s"
  "OSTmrFreeList (OSSchedLock s) = OSTmrFreeList s"
  by (simp_all add: OSSchedLock_def)

text \<open>A change to the timers under the lock.\<close>

lemma locked_unread:
  assumes "sinv s" "OSIntNesting s = 0" "OSLockNesting s < 255" "unread (OSSchedLock s) s1"
  shows "ok (OSSchedUnlock s1) (\<lambda>s'. kept s s' \<and> timers s' = timers s1)"
proof -
  have u: "sinv s1" "ctl s1 = ctl (OSSchedLock s)"
    using unread_sinv [OF SchedLock_ok(1) [OF assms(1)] assms(4)] unreadD(2) [OF assms(4)] by simp_all
  have "settled s1" if "\<not> OSRunning s" "settled s"
  proof -
    have "OSSchedLock s = s" using that(1) by (simp add: OSSchedLock_def)
    then have "unread s s1" using assms(4) by simp
    then show ?thesis using settled_same [of s s1] that(2) by (simp add: unreadD)
  qed
  from SchedUnlock_ok [OF assms(2,3) u this] show ?thesis by (auto elim!: ok_mono)
qed

lemma rewired_unread: "rewired i f s s' \<Longrightarrow> unread s s'"
  unfolding rewired_def by (metis unread_wheel)

abbreviation (input) startable :: "os_tmr \<Rightarrow> bool" where
  "startable c \<equiv> OSTmrType c = OS_TMR_TYPE
     \<and> OSTmrState c \<in> {OS_TMR_STATE_STOPPED, OS_TMR_STATE_COMPLETED, OS_TMR_STATE_RUNNING}"

lemma OSTmrStart_ok:
  assumes inv: "sinv s" and w: "wheel_ok s w" and nest: "OSIntNesting s = 0" "OSLockNesting s < 255"
    and i: "i < OS_TMR_CFG_MAX" "startable (OSTmrTbl s i)"
  shows "ok (OSTmrStart (TMRp i) s) (\<lambda>(r, s'). r = (True, OS_ERR_NONE) \<and> kept s s' \<and> (\<exists>w'. wheel_ok s' w')
    \<and> OSTmrTime s' = OSTmrTime s
    \<and> bare (OSTmrTbl s' i) = bare ((OSTmrTbl s i)\<lparr>OSTmrState := OS_TMR_STATE_RUNNING,
         OSTmrMatch := next_match False (OSTmrTbl s i) (OSTmrTime s)\<rparr>)
    \<and> (\<forall>j. j \<noteq> i \<longrightarrow> bare (OSTmrTbl s' j) = bare (OSTmrTbl s j)))"
proof -
  let ?L = "OSSchedLock s" and ?m = "next_match False (OSTmrTbl s i) (OSTmrTime s)"
  let ?go = "\<lambda>c. c\<lparr>OSTmrState := OS_TMR_STATE_RUNNING, OSTmrMatch := ?m\<rparr>"
  have wL: "wheel_ok ?L w" using w by (simp add: wheel_ok_def SchedLock_views)
  have main: "\<exists>s2 w'. (if running (OSTmrTbl s i) then do { s \<leftarrow> OSTmr_Unlink i ?L; OSTmr_Link i False s } else OSTmr_Link i False ?L) = Some s2
      \<and> wheel_ok s2 w' \<and> rewired i ?go ?L s2"
  proof (cases "running (OSTmrTbl s i)")
    case False
    then show ?thesis using link_wheel [OF wL i(1), of ?m False] by (auto simp: ok_iff SchedLock_views)
  next
    case True
    let ?k = "spoke_of (OSTmrMatch (OSTmrTbl s i))"
    have "i \<in> set (w ?k)" using w spoke_of_less i(1) True by (simp add: wheel_ok_def)
    then obtain ys zs where "w ?k = ys @ i # zs" using split_list by metis
    then obtain s1 where r1: "OSTmr_Unlink i ?L = Some s1" and s1: "wheel_ok s1 (w(?k := ys @ zs))"
      "rewired i (\<lambda>c. c\<lparr>OSTmrState := OS_TMR_STATE_STOPPED\<rparr>) ?L s1"
      using unlink_wheel [OF wL i(1), of ?k ys zs] True by (auto simp: ok_iff SchedLock_views)
    have "bare (OSTmrTbl s1 i) = bare ((OSTmrTbl s i)\<lparr>OSTmrState := OS_TMR_STATE_STOPPED\<rparr>)"
      using s1(2) by (simp add: rewired_def SchedLock_views)
    note f1 = bare_fields [OF this]
    have "OSTmrTime s1 = OSTmrTime s" using s1(2) unfolding rewired_def by (metis set_wheel_simps(3) SchedLock_views(5))
    then have m: "next_match False (OSTmrTbl s1 i) (OSTmrTime s1) = ?m" using f1(5,6) by (simp add: next_match_def)
    have off: "\<not> running (OSTmrTbl s1 i)" using f1(1) by simp
    obtain s2 w' where r2: "OSTmr_Link i False s1 = Some s2" and s2: "wheel_ok s2 w'" "rewired i ?go s1 s2"
      using link_wheel [OF s1(1) i(1) off m [symmetric]] by (auto simp: ok_iff)
    have "rewired i (\<lambda>c. ?go (c\<lparr>OSTmrState := OS_TMR_STATE_STOPPED\<rparr>)) ?L s2"
    proof (rule rewired_trans [OF s1(2) s2(2)])
      show "bare (?go c) = bare (?go c')" if "bare c = bare c'" for c c'
        using that by (cases c; cases c') (simp add: bare_def)
    qed simp
    then have "rewired i ?go ?L s2" by (simp add: rewired_def)
    then show ?thesis using r1 r2 s2(1) True by auto
  qed
  then obtain s2 w' where r2: "(if running (OSTmrTbl s i) then do { s \<leftarrow> OSTmr_Unlink i ?L; OSTmr_Link i False s } else OSTmr_Link i False ?L) = Some s2"
    and s2: "wheel_ok s2 w'" "rewired i ?go ?L s2" by blast
  obtain s' where r3: "OSSchedUnlock s2 = Some s'" and s': "kept s s'" "timers s' = timers s2"
    using locked_unread [OF inv nest rewired_unread [OF s2(2)]] by (auto simp: ok_iff)
  have t': "OSTmrTbl s' = OSTmrTbl s2" "OSTmrWheelTbl s' = OSTmrWheelTbl s2" "OSTmrTime s' = OSTmrTime s2"
    using s'(2) by (simp_all add: timers_def)
  have "OSTmrTime s2 = OSTmrTime s" using s2(2) unfolding rewired_def by (metis set_wheel_simps(3) SchedLock_views(5))
  moreover have "\<exists>w'. wheel_ok s' w'" using s2(1) by (auto simp: wheel_ok_def t')
  moreover have "OSTmrStart (TMRp i) s = Some ((True, OS_ERR_NONE), s')"
    using r2 r3 i nest
    by (auto simp: OSTmrStart_def Let_def SchedLock_views split: if_splits Option.bind_splits)
  ultimately show ?thesis
    using s'(1) s2(2) t' by (simp add: rewired_def SchedLock_views)
qed

section \<open>Rounds\<close>

text \<open>The timer task is signalled \<open>n\<close> times.\<close>

fun tmr_rounds :: "tmr_callback \<Rightarrow> nat \<Rightarrow> kst \<Rightarrow> kst option" where
  "tmr_rounds cb 0 s = Some s"
| "tmr_rounds cb (Suc n) s = do { s \<leftarrow> OSTmr_Task_round cb s; tmr_rounds cb n s }"

lemma tmr_rounds_ok:
  assumes cb: "callback_ok cb h" and i: "i < OS_TMR_CFG_MAX"
    and "sinv s" "wheel_ok s w" "OSRunning s" "OSIntNesting s = 0" "OSLockNesting s < 255"
    and "running (OSTmrTbl s i)" "OSTmrMatch (OSTmrTbl s i) = OSTmrTime s + d" "n \<le> unat d"
  shows "ok (tmr_rounds cb n s) (\<lambda>s'. sinv s' \<and> (\<exists>w'. wheel_ok s' w') \<and> OSTmrTime s' = OSTmrTime s + of_nat n
    \<and> bare (OSTmrTbl s' i) = bare (if n < unat d \<or> n = 0 then OSTmrTbl s i else fire (OSTmrTbl s i)))"
  using assms(3-)
proof (induction n arbitrary: s w d)
  case 0
  then show ?case by auto
next
  case (Suc n)
  note P = Suc.prems
  obtain s1 where r1: "OSTmr_Task_round cb s = Some s1" and s1: "kept s s1" "\<exists>w'. wheel_ok s1 w'" "ticked s s1"
    using OSTmr_Task_round_ok [OF cb P(1-5)] by (auto simp: ok_iff)
  have c1: "OSRunning s1" "OSIntNesting s1 = 0" "OSLockNesting s1 < 255" using s1(1) P(3-5) by (simp_all add: ctl_def)
  have t1: "OSTmrTime s1 = OSTmrTime s + 1" using s1(3) by (simp add: ticked_def)
  have due: "due (OSTmrTime s + 1) (OSTmrTbl s i) \<longleftrightarrow> d = 1" using P(7) by simp
  have b1: "bare (OSTmrTbl s1 i) = bare (if d = 1 then fire (OSTmrTbl s i) else OSTmrTbl s i)"
    using s1(3) i P(6) due by (simp add: ticked_def)
  show ?case
  proof (cases "d = 1")
    case True
    then have "n = 0" using P(8) by simp
    then show ?thesis using r1 s1(1,2) t1 b1 True by auto
  next
    case False
    have "bare (OSTmrTbl s1 i) = bare (OSTmrTbl s i)" using b1 False by simp
    note f1 = bare_fields(1,2) [OF this] bare_fire [OF this] this
    have d0: "d \<noteq> 0" using P(8) by auto
    then have d1: "unat (d - 1) = unat d - 1" by (rule unat_minus_one)
    have "unat d \<noteq> 1" using False by (simp add: word_unat_eq_iff)
    moreover have "unat d \<noteq> 0" using d0 by (simp add: unat_eq_0)
    ultimately have d2: "1 < unat d" by simp
    obtain w1 where w1: "wheel_ok s1 w1" using s1(2) by blast
    have "ok (tmr_rounds cb n s1) (\<lambda>s'. sinv s' \<and> (\<exists>w'. wheel_ok s' w') \<and> OSTmrTime s' = OSTmrTime s1 + of_nat n
        \<and> bare (OSTmrTbl s' i) = bare (if n < unat (d - 1) \<or> n = 0 then OSTmrTbl s1 i else fire (OSTmrTbl s1 i)))"
    proof (rule Suc.IH [OF _ w1 c1])
      show "sinv s1" using s1(1) by simp
      show "running (OSTmrTbl s1 i)" using f1(1) P(6) by simp
      show "OSTmrMatch (OSTmrTbl s1 i) = OSTmrTime s1 + (d - 1)" using f1(2) P(7) t1 by simp
      show "n \<le> unat (d - 1)" using P(8) d1 by simp
    qed
    moreover have "n < unat (d - 1) \<or> n = 0 \<longleftrightarrow> Suc n < unat d" using d1 d2 P(8) by auto
    ultimately show ?thesis using r1 t1 f1(3,4) by (auto elim!: ok_mono simp: algebra_simps)
  qed
qed

section \<open>Properties\<close>

text \<open>
  C34 (TmrTask_fires): a round of the timer task advances the time and fires exactly the running timers
  that match it: a periodic timer is linked again a period later, the others are completed, every
  other timer stays as it is, and the wheel stays well formed.  Their callbacks are called once each,
  in the order of the spoke, with the scheduler locked; then the most urgent ready task runs.
\<close>

theorem TmrTask_fires:
  assumes "callback_ok cb h" "sinv s" "wheel_ok s w" "OSRunning s" "OSIntNesting s = 0" "OSLockNesting s < 255"
  shows "ok (OSTmr_Task_round cb s) (\<lambda>s'. sinv s' \<and> settled s' \<and> (\<exists>w'. wheel_ok s' w') \<and> ticked s s'
    \<and> (\<exists>s1. OSSchedUnlock s1 = Some s' \<and> rest s1 = fold (calls h (OSTmrTbl s))
         (filter (\<lambda>i. OSTmrMatch (OSTmrTbl s i) = OSTmrTime s + 1) (w (spoke_of (OSTmrTime s + 1)))) (OSSchedLock (rest s))))"
  by (rule ok_mono [OF OSTmr_Task_round_ok [OF assms]]) simp

text \<open>Timers 0 (one-shot) and 1 (periodic) run on spoke 1 and match at time 1; their callback stores its argument.\<close>

definition demo_tmr :: "8 word \<Rightarrow> vptr \<Rightarrow> vptr \<Rightarrow> os_tmr" where
  "demo_tmr opt nx pv = \<lparr>OSTmrType = 100, OSTmrCallback = Addr 0x600, OSTmrCallbackArg = Addr 7, OSTmrNext = nx, OSTmrPrev = pv,
     OSTmrMatch = 1, OSTmrDly = 1, OSTmrPeriod = 3, OSTmrName = unnamed, OSTmrOpt = opt, OSTmrState = 3\<rparr>"

definition demo_timers :: kst where
  "demo_timers = demo\<lparr>OSTmrTbl := (OSTmrTbl demo)(0 := demo_tmr 1 NULL (TMRp 1), 1 := demo_tmr 2 (TMRp 0) NULL),
     OSTmrWheelTbl := (OSTmrWheelTbl demo)(1 := \<lparr>OSTmrFirst = TMRp 1, OSTmrEntries = 2\<rparr>),
     OSTmrFreeList := TMRp 2, OSTmrFree := 14, OSTmrUsed := 2\<rparr>"

definition demo_store :: "vptr \<Rightarrow> vptr \<Rightarrow> vptr \<Rightarrow> kst \<Rightarrow> kst" where
  "demo_store f t a s = s\<lparr>ptr_mem := (ptr_mem s)(0x9000 := a)\<rparr>"

lemma demo_callback: "callback_ok (\<lambda>f t a s. Some (demo_store f t a s)) demo_store"
proof -
  have "unread s (demo_store f t a s)" for s f t a
    by (simp add: demo_store_def unread_def ids_def ctl_def cur_def rdy_bm_def ev_bm_def ev_data_def clock_def)
  then show ?thesis
    using unread_sinv unreadD(2) by (simp add: callback_ok_def) (simp add: demo_store_def timers_def rest_def)
qed

lemma demo_timers_tbl: "OSTmrTbl demo_timers i = (if i = 0 then demo_tmr 1 NULL (TMRp 1) else if i = 1 then demo_tmr 2 (TMRp 0) NULL
    else OSTmrTbl demo i)" "OSTmrTime demo_timers = 0" "OSTmrState (OSTmrTbl demo i) = 0"
  "OSTmrWheelTbl demo_timers k = (if k = 1 then \<lparr>OSTmrFirst = TMRp 1, OSTmrEntries = 2\<rparr> else \<lparr>OSTmrFirst = NULL, OSTmrEntries = 0\<rparr>)"
  by (simp_all add: demo_timers_def demo_def)

lemma demo_timers_inv: "sinv demo_timers" "ctl demo_timers = ctl demo"
proof -
  have "unread demo demo_timers"
    by (simp add: demo_timers_def unread_def ids_def ctl_def cur_def rdy_bm_def ev_bm_def ev_data_def clock_def fun_eq_iff)
  then show "sinv demo_timers" "ctl demo_timers = ctl demo" using unread_sinv [OF demo_sinv] by (simp_all add: unreadD)
qed

lemma demo_timers_ctl: "OSRunning demo_timers" "OSIntNesting demo_timers = 0" "OSLockNesting demo_timers < 255"
  using demo_timers_inv(2) demo_ctl by (simp_all add: ctl_def)

lemma demo_wheel: "wheel_ok demo_timers (\<lambda>k. if k = 1 then [1, 0] else [])"
proof -
  have "spoke_of 1 = 1" by (simp add: spoke_of_def)
  then show ?thesis
    by (auto simp: wheel_ok_def on_spoke_def demo_timers_tbl demo_tmr_def split: if_splits)
qed

lemma TmrTask_fires_witness:
  "ok (OSTmr_Task_round (\<lambda>f t a s. Some (demo_store f t a s)) demo_timers)
     (\<lambda>s'. OSTmrTime s' = 1 \<and> OSTmrState (OSTmrTbl s' 0) = OS_TMR_STATE_COMPLETED \<and> OSTmrMatch (OSTmrTbl s' 1) = 4)"
proof -
  obtain s' where r: "OSTmr_Task_round (\<lambda>f t a s. Some (demo_store f t a s)) demo_timers = Some s'" and t: "ticked demo_timers s'"
    using TmrTask_fires [OF demo_callback demo_timers_inv(1) demo_wheel demo_timers_ctl] by (auto simp: ok_iff)
  have b: "bare (OSTmrTbl s' i) = bare (if running (OSTmrTbl demo_timers i) \<and> due 1 (OSTmrTbl demo_timers i)
      then fire (OSTmrTbl demo_timers i) else OSTmrTbl demo_timers i)" if "i < OS_TMR_CFG_MAX" for i
    using t that by (simp add: ticked_def demo_timers_tbl(2))
  have "OSTmrState (OSTmrTbl s' 0) = OS_TMR_STATE_COMPLETED"
    using bare_fields(1) [OF b [of 0]] by (simp add: demo_timers_tbl demo_tmr_def fire_def)
  moreover have "OSTmrMatch (OSTmrTbl s' 1) = 4"
    using bare_fields(2) [OF b [of 1]] by (simp add: demo_timers_tbl demo_tmr_def fire_def)
  ultimately show ?thesis using r t by (simp add: ticked_def demo_timers_tbl(2))
qed

text \<open>
  C35 (TmrStart_on_time): a timer that is started with a delay (or, without one, a period) of \<open>d\<close> runs for
  the next \<open>d - 1\<close> rounds of the timer task, always with the right time to go, and in round \<open>d\<close> it
  fires: a one-shot timer is completed then, a periodic one has its period to go.  This holds from
  every state of the wheel, whatever the other timers and their callbacks do, and across the
  wrap-around of the time.
\<close>

theorem TmrStart_on_time:
  assumes "callback_ok cb h" "sinv s" "wheel_ok s w" "OSRunning s" "OSIntNesting s = 0" "OSLockNesting s < 255"
    "i < OS_TMR_CFG_MAX" "OSTmrType (OSTmrTbl s i) = OS_TMR_TYPE"
    "OSTmrState (OSTmrTbl s i) \<in> {OS_TMR_STATE_STOPPED, OS_TMR_STATE_COMPLETED, OS_TMR_STATE_RUNNING}"
    "d = (if OSTmrDly (OSTmrTbl s i) = 0 then OSTmrPeriod (OSTmrTbl s i) else OSTmrDly (OSTmrTbl s i))" "d \<noteq> 0" "n \<le> unat d"
  shows "ok (do { (r, s1) \<leftarrow> OSTmrStart (TMRp i) s; s2 \<leftarrow> tmr_rounds cb n s1; Some (r, s2) })
    (\<lambda>(r, s2). r = (True, OS_ERR_NONE) \<and> sinv s2 \<and> (\<exists>w'. wheel_ok s2 w') \<and> OSTmrTime s2 = OSTmrTime s + of_nat n
      \<and> OSTmrState (OSTmrTbl s2 i) = (if n < unat d \<or> OSTmrOpt (OSTmrTbl s i) = OS_TMR_OPT_PERIODIC
           then OS_TMR_STATE_RUNNING else OS_TMR_STATE_COMPLETED)
      \<and> (OSTmrState (OSTmrTbl s2 i) = OS_TMR_STATE_RUNNING \<longrightarrow> OSTmrMatch (OSTmrTbl s2 i) - OSTmrTime s2
           = (if n < unat d then d - of_nat n else OSTmrPeriod (OSTmrTbl s i))))"
proof -
  have st: "startable (OSTmrTbl s i)" using assms(8,9) by simp
  obtain s1 where r1: "OSTmrStart (TMRp i) s = Some ((True, OS_ERR_NONE), s1)" and s1: "kept s s1" "\<exists>w'. wheel_ok s1 w'"
    "OSTmrTime s1 = OSTmrTime s" "bare (OSTmrTbl s1 i) = bare ((OSTmrTbl s i)\<lparr>OSTmrState := OS_TMR_STATE_RUNNING,
         OSTmrMatch := next_match False (OSTmrTbl s i) (OSTmrTime s)\<rparr>)"
    using OSTmrStart_ok [OF assms(2,3,5,6,7) st] by (simp only: ok_iff split_paired_Ex prod.case) blast
  note f1 = bare_fields [OF s1(4)]
  have c1: "OSRunning s1" "OSIntNesting s1 = 0" "OSLockNesting s1 < 255" using s1(1) assms(4-6) by (simp_all add: ctl_def)
  have m1: "running (OSTmrTbl s1 i)" "OSTmrMatch (OSTmrTbl s1 i) = OSTmrTime s1 + d"
    using f1(1,2) s1(3) assms(10) by (simp_all add: next_match_def)
  obtain w1 where w1: "wheel_ok s1 w1" using s1(2) by blast
  have "sinv s1" using s1(1) by simp
  from tmr_rounds_ok [OF assms(1,7) this w1 c1 m1 assms(12)] obtain s2 where r2: "tmr_rounds cb n s1 = Some s2"
    and s2: "sinv s2" "\<exists>w'. wheel_ok s2 w'" "OSTmrTime s2 = OSTmrTime s1 + of_nat n"
      "bare (OSTmrTbl s2 i) = bare (if n < unat d \<or> n = 0 then OSTmrTbl s1 i else fire (OSTmrTbl s1 i))"
    by (auto simp: ok_iff)
  have "unat d \<noteq> 0" using assms(11) by (simp add: unat_eq_0)
  then have e: "n < unat d \<or> n = 0 \<longleftrightarrow> n < unat d" by auto
  have "of_nat n = d" if "\<not> n < unat d" using that assms(12) by (simp add: order.antisym)
  then have "OSTmrState (OSTmrTbl s2 i) = (if n < unat d \<or> OSTmrOpt (OSTmrTbl s i) = OS_TMR_OPT_PERIODIC
           then OS_TMR_STATE_RUNNING else OS_TMR_STATE_COMPLETED)
      \<and> (OSTmrState (OSTmrTbl s2 i) = OS_TMR_STATE_RUNNING \<longrightarrow> OSTmrMatch (OSTmrTbl s2 i) - OSTmrTime s2
           = (if n < unat d then d - of_nat n else OSTmrPeriod (OSTmrTbl s i)))"
    using bare_fields(1,2) [OF s2(4)] m1 s1(3) s2(3) f1(4,6) unfolding e by (auto simp: fire_def)
  then show ?thesis using r1 r2 s1(3) s2(1-3) by simp
qed

lemma TmrStart_on_time_witness:
  "ok (do { (r, s1) \<leftarrow> OSTmrStart (TMRp 1) demo_timers; s2 \<leftarrow> tmr_rounds (\<lambda>f t a s. Some (demo_store f t a s)) 1 s1; Some (r, s2) })
     (\<lambda>(r, s2). r = (True, OS_ERR_NONE) \<and> OSTmrTime s2 = 1 \<and> OSTmrState (OSTmrTbl s2 1) = OS_TMR_STATE_RUNNING
        \<and> OSTmrMatch (OSTmrTbl s2 1) - OSTmrTime s2 = 3)"
proof -
  have "OSTmrType (OSTmrTbl demo_timers 1) = OS_TMR_TYPE" "OSTmrState (OSTmrTbl demo_timers 1) = 3"
    "OSTmrDly (OSTmrTbl demo_timers 1) = 1" "OSTmrOpt (OSTmrTbl demo_timers 1) = 2" "OSTmrPeriod (OSTmrTbl demo_timers 1) = 3"
    by (simp_all add: demo_timers_tbl demo_tmr_def)
  then show ?thesis
    using TmrStart_on_time [OF demo_callback demo_timers_inv(1) demo_wheel demo_timers_ctl, of 1 1 1]
    by (auto simp: demo_timers_tbl(2) elim!: ok_mono2)
qed

end
