(* ===== verification/Os_Multi.thy ===== *)
theory Os_Multi
  imports Os_Q
begin

text \<open>
  Waiting for several events at once (\<open>OSEventPendMulti\<close>).  The caller's null-terminated array of events
  is the list of its entries; \<open>None\<close> is a null pointer.  The arrays \<open>pevents_rdy\<close> and \<open>pmsgs_rdy\<close> that the
  call fills are lists in its result; their addresses only matter where they are null.
\<close>

text \<open>The number of events, \<open>pevents_rdy\<close> up to its terminator, \<open>pmsgs_rdy\<close>, and \<open>*perr\<close>.\<close>

type_synonym multi_result = "16 word \<times> vptr list \<times> vptr list \<times> os_err"

section \<open>The loops\<close>

text \<open>The first loop, which checks the types.\<close>

fun multi_types :: "vptr list \<Rightarrow> kst \<Rightarrow> bool option" where
  "multi_types [] s = Some True"
| "multi_types (pevent # pevents) s = do {
     e \<leftarrow> ev_at pevent;
     case ev_type s e of
       OS_EVENT_TYPE_SEM \<Rightarrow> multi_types pevents s
     | OS_EVENT_TYPE_MBOX \<Rightarrow> multi_types pevents s
     | OS_EVENT_TYPE_Q \<Rightarrow> multi_types pevents s
     | _ \<Rightarrow> Some False
   }"

text \<open>
  The second loop takes what is there.  It collects the events that were ready with their messages,
  and the status bits of the others; its first component is false when it returns an error.
\<close>

fun multi_poll :: "vptr list \<Rightarrow> vptr list \<Rightarrow> vptr list \<Rightarrow> 8 word \<Rightarrow> kst
    \<Rightarrow> ((bool \<times> vptr list \<times> vptr list \<times> 8 word) \<times> kst) option" where
  "multi_poll [] rdys msgs stat s = Some ((True, rdys, msgs, stat), s)"
| "multi_poll (pevent # pevents) rdys msgs stat s = do {
     e \<leftarrow> ev_at pevent;
     case ev_type s e of
       OS_EVENT_TYPE_SEM \<Rightarrow>
         if ev_cnt s e > 0 then
           multi_poll pevents (rdys @ [pevent]) (msgs @ [NULL]) stat (upd_ev e (\<lambda>c. c\<lparr>OSEventCnt := OSEventCnt c - 1\<rparr>) s)
         else multi_poll pevents rdys msgs (stat OR OS_STAT_SEM) s
     | OS_EVENT_TYPE_MBOX \<Rightarrow>
         if ev_ptr s e \<noteq> NULL then
           multi_poll pevents (rdys @ [pevent]) (msgs @ [ev_ptr s e]) stat (upd_ev e (\<lambda>c. c\<lparr>OSEventPtr := NULL\<rparr>) s)
         else multi_poll pevents rdys msgs (stat OR OS_STAT_MBOX) s
     | OS_EVENT_TYPE_Q \<Rightarrow> do {
         i \<leftarrow> q_at (ev_ptr s e);
         if OSQEntries (OSQTbl s i) > 0 then do {
           let (pmsg, r) = ring_take (ring_of s i);
           multi_poll pevents (rdys @ [pevent]) (msgs @ [pmsg]) stat (set_ring i r s)
         } else multi_poll pevents rdys msgs (stat OR OS_STAT_Q) s
       }
     | _ \<Rightarrow> Some ((False, rdys, msgs, stat), s)
   }"

section \<open>The call\<close>

definition OSEventPendMulti :: "vptr list option \<Rightarrow> vptr \<Rightarrow> vptr \<Rightarrow> 32 word \<Rightarrow> kst \<Rightarrow> (multi_result pend \<times> kst) option" where
  "OSEventPendMulti pevents_pend pevents_rdy pmsgs_rdy timeout s =
     (case pevents_pend of
        None \<Rightarrow> Some (Returned (0, [], [], OS_ERR_PEVENT_NULL), s)
      | Some pevents \<Rightarrow>
          if pevents = [] then Some (Returned (0, [], [], OS_ERR_PEVENT_NULL), s)
          else if pevents_rdy = NULL then Some (Returned (0, [], [], OS_ERR_PEVENT_NULL), s)
          else if pmsgs_rdy = NULL then Some (Returned (0, [], [], OS_ERR_PEVENT_NULL), s)
          else do {
            types_ok \<leftarrow> multi_types pevents s;
            if \<not> types_ok then Some (Returned (0, [], [], OS_ERR_EVENT_TYPE), s)
            else if OSIntNesting s > 0 then Some (Returned (0, [], [], OS_ERR_PEND_ISR), s)
            else if OSLockNesting s > 0 then Some (Returned (0, [], [], OS_ERR_PEND_LOCKED), s)
            else do {
              ((no_error, rdys, msgs, events_stat), s) \<leftarrow> multi_poll pevents [] [] OS_STAT_RDY s;
              if \<not> no_error then Some (Returned (of_nat (length rdys), rdys, msgs, OS_ERR_EVENT_TYPE), s)
              else if rdys \<noteq> [] then Some (Returned (of_nat (length rdys), rdys, msgs, OS_ERR_NONE), s)
              else do {
                t \<leftarrow> tcb_at (OSTCBCur s);
                let s = upd_tcb t (\<lambda>c. c\<lparr>OSTCBStat := OSTCBStat c OR events_stat OR OS_STAT_MULTI,
                  OSTCBStatPend := OS_STAT_PEND_OK, OSTCBDly := timeout\<rparr>) s;
                s \<leftarrow> OS_EventTaskWaitMulti pevents s;
                s \<leftarrow> OS_Sched s;
                Some (Waiting, s)
              }
            }
          })"

text \<open>The statements at the end of the call.\<close>

definition multi_done :: "nat \<Rightarrow> kst \<Rightarrow> kst" where
  "multi_done t s = upd_tcb t (\<lambda>c. c\<lparr>OSTCBStat := OS_STAT_RDY, OSTCBStatPend := OS_STAT_PEND_OK,
     OSTCBEventMultiPtr := None, OSTCBEventMultiRdy := NULL, OSTCBMsg := NULL\<rparr>) s"

text \<open>The rest of the call, from line 493, when the task is the running task again.\<close>

definition OSEventPendMulti_resume :: "vptr list \<Rightarrow> kst \<Rightarrow> (multi_result \<times> kst) option" where
  "OSEventPendMulti_resume pevents_pend s = do {
     t \<leftarrow> tcb_at (OSTCBCur s);
     let pevent = OSTCBEventMultiRdy (OSTCBTbl s t);
     (rdys, s) \<leftarrow>
       (if OSTCBStatPend (OSTCBTbl s t) = OS_STAT_PEND_OK \<or> OSTCBStatPend (OSTCBTbl s t) = OS_STAT_PEND_ABORT then
          if pevent \<noteq> NULL then Some ([pevent], s)
          else do {
            let s = upd_tcb t (\<lambda>c. c\<lparr>OSTCBStatPend := OS_STAT_PEND_TO\<rparr>) s;
            s \<leftarrow> OS_EventTaskRemoveMulti (OSTCBCur s) pevents_pend s;
            Some ([], s)
          }
        else do {
          s \<leftarrow> OS_EventTaskRemoveMulti (OSTCBCur s) pevents_pend s;
          Some ([], s)
        });
     case OSTCBStatPend (OSTCBTbl s t) of
       OS_STAT_PEND_OK \<Rightarrow> do {
         e \<leftarrow> ev_at pevent;
         case ev_type s e of
           OS_EVENT_TYPE_SEM \<Rightarrow> Some ((of_nat (length rdys), rdys, [NULL], OS_ERR_NONE), multi_done t s)
         | OS_EVENT_TYPE_MBOX \<Rightarrow>
             Some ((of_nat (length rdys), rdys, [OSTCBMsg (OSTCBTbl s t)], OS_ERR_NONE), multi_done t s)
         | OS_EVENT_TYPE_Q \<Rightarrow>
             Some ((of_nat (length rdys), rdys, [OSTCBMsg (OSTCBTbl s t)], OS_ERR_NONE), multi_done t s)
         | _ \<Rightarrow> Some ((of_nat (length rdys), rdys, [], OS_ERR_EVENT_TYPE), s)
       }
     | OS_STAT_PEND_ABORT \<Rightarrow> Some ((of_nat (length rdys), rdys, [NULL], OS_ERR_PEND_ABORT), multi_done t s)
     | OS_STAT_PEND_TO \<Rightarrow> Some ((of_nat (length rdys), rdys, [NULL], OS_ERR_TIMEOUT), multi_done t s)
   }"

end
