(* ===== verification/Os_Init.thy ===== *)
theory Os_Init
  imports Os_Tmr Os_Multi Os_Time
begin

text \<open>
  Start-up (\<open>OSInit\<close> and the functions it calls in \<open>os_core.c\<close>, \<open>os_q.c\<close> and \<open>os_tmr.c\<close>), the idle task and
  the statistics task.  \<open>OS_MemClr\<close> on a table leaves control blocks of zeros.  The functions of the
  tasks and their stacks have addresses that the linker chooses: the argument \<open>im\<close>.
\<close>

record os_image =
  prvTaskExitError :: vptr
  OS_TaskIdle_fn :: vptr
  OS_TaskStat_fn :: vptr
  OSTmr_Task_fn :: vptr
  OSTaskIdleStk :: "64 word"
  OSTaskStatStk :: "64 word"
  OSTmrTaskStk :: "64 word"

abbreviation (input) OS_TASK_STAT_PRIO :: "8 word" where "OS_TASK_STAT_PRIO \<equiv> 62"
abbreviation (input) OS_TASK_IDLE_ID :: "16 word" where "OS_TASK_IDLE_ID \<equiv> 65535"
abbreviation (input) OS_TASK_STAT_ID :: "16 word" where "OS_TASK_STAT_ID \<equiv> 65534"
abbreviation (input) OS_TASK_SYS_STK_SIZE :: "32 word" where "OS_TASK_SYS_STK_SIZE \<equiv> 128"
abbreviation (input) OS_VERSION :: "16 word" where "OS_VERSION \<equiv> 29300"

section \<open>Control blocks of zeros\<close>

definition zero_tcb :: os_tcb where
  "zero_tcb = \<lparr>OSTCBStkPtr = NULL, OSTCBExtPtr = NULL, OSTCBStkBottom = NULL, OSTCBStkSize = 0,
     OSTCBOpt = 0, OSTCBId = 0, OSTCBNext = NULL, OSTCBPrev = NULL,
     OSTCBEventPtr = NULL, OSTCBEventMultiPtr = None, OSTCBEventMultiRdy = NULL,
     OSTCBMsg = NULL, OSTCBFlagNode = NULL, OSTCBFlagsRdy = 0, OSTCBDly = 0, OSTCBStat = 0, OSTCBStatPend = OS_STAT_PEND_OK,
     OSTCBPrio = 0, OSTCBX = 0, OSTCBY = 0, OSTCBBitX = 0, OSTCBBitY = 0,
     OSTCBDelReq = 0, OSTCBCtxSwCtr = 0, OSTCBCyclesTot = 0, OSTCBCyclesStart = 0,
     OSTCBStkBase = NULL, OSTCBStkUsed = 0, OSTCBTaskName = None, OSTCBRegTbl = (\<lambda>_. 0)\<rparr>"

definition zero_ev :: os_event where
  "zero_ev = \<lparr>OSEventType = OS_EVENT_TYPE_UNUSED, OSEventPtr = NULL, OSEventCnt = 0, OSEventGrp = 0,
     OSEventTbl = (\<lambda>_. 0), OSEventName = None\<rparr>"

definition zero_q :: os_q where
  "zero_q = \<lparr>OSQPtr = NULL, OSQStart = 0, OSQEnd = 0, OSQIn = 0, OSQOut = 0, OSQSize = 0, OSQEntries = 0\<rparr>"

definition zero_tmr :: os_tmr where
  "zero_tmr = \<lparr>OSTmrType = 0, OSTmrCallback = NULL, OSTmrCallbackArg = NULL, OSTmrNext = NULL, OSTmrPrev = NULL,
     OSTmrMatch = 0, OSTmrDly = 0, OSTmrPeriod = 0, OSTmrName = None, OSTmrOpt = 0, OSTmrState = 0\<rparr>"

section \<open>Variables and tables\<close>

text \<open>The application's hook of \<open>os_cpu_c.c\<close>.\<close>

definition OSInitHookBegin :: "kst \<Rightarrow> kst" where
  "OSInitHookBegin s = s\<lparr>OSTmrCtr := 0\<rparr>"

definition OS_InitMisc :: "kst \<Rightarrow> kst" where
  "OS_InitMisc s = s\<lparr>OSTime := 0, OSIntNesting := 0, OSLockNesting := 0, OSTaskCtr := 0, OSRunning := False,
     OSCtxSwCtr := 0, OSIdleCtr := 0, OSIdleCtrRun := 0, OSIdleCtrMax := 0, OSStatRdy := False,
     OSTaskRegNextAvailID := 0\<rparr>"

definition OS_InitRdyList :: "kst \<Rightarrow> kst" where
  "OS_InitRdyList s = (
     let s = s\<lparr>OSRdyGrp := 0\<rparr>;
         s = fold (\<lambda>i s. s\<lparr>OSRdyTbl := (OSRdyTbl s)(i := 0)\<rparr>) [0..<OS_RDY_TBL_SIZE] s
     in s\<lparr>OSPrioCur := 0, OSPrioHighRdy := 0, OSTCBHighRdy := NULL, OSTCBCur := NULL\<rparr>)"

definition OS_InitTCBList :: "kst \<Rightarrow> kst" where
  "OS_InitTCBList s = (
     let s = s\<lparr>OSTCBTbl := \<lambda>_. zero_tcb, OSTCBPrioTbl := \<lambda>_. NULL\<rparr>;
         s = fold (\<lambda>ix. upd_tcb ix (\<lambda>c. c\<lparr>OSTCBNext := TCBp (ix + 1), OSTCBTaskName := unnamed\<rparr>)) [0..<OS_N_TCBS - 1] s;
         s = upd_tcb (OS_N_TCBS - 1) (\<lambda>c. c\<lparr>OSTCBNext := NULL, OSTCBTaskName := unnamed\<rparr>) s
     in s\<lparr>OSTCBList := NULL, OSTCBFreeList := TCBp 0\<rparr>)"

definition OS_InitEventList :: "kst \<Rightarrow> kst" where
  "OS_InitEventList s = (
     let s = s\<lparr>OSEventTbl_ecb := \<lambda>_. zero_ev\<rparr>;
         s = fold (\<lambda>ix. upd_ev ix (\<lambda>c. c\<lparr>OSEventType := OS_EVENT_TYPE_UNUSED, OSEventPtr := EVp (ix + 1),
               OSEventName := unnamed\<rparr>)) [0..<OS_MAX_EVENTS - 1] s;
         s = upd_ev (OS_MAX_EVENTS - 1) (\<lambda>c. c\<lparr>OSEventType := OS_EVENT_TYPE_UNUSED, OSEventPtr := NULL,
               OSEventName := unnamed\<rparr>) s
     in s\<lparr>OSEventFreeList := EVp 0\<rparr>)"

definition OS_QInit :: "kst \<Rightarrow> kst" where
  "OS_QInit s = (
     let s = s\<lparr>OSQTbl := \<lambda>_. zero_q\<rparr>;
         s = fold (\<lambda>ix. upd_q ix (\<lambda>c. c\<lparr>OSQPtr := Qp (ix + 1)\<rparr>)) [0..<OS_MAX_QS - 1] s;
         s = upd_q (OS_MAX_QS - 1) (\<lambda>c. c\<lparr>OSQPtr := NULL\<rparr>) s
     in s\<lparr>OSQFreeList := Qp 0\<rparr>)"

section \<open>The system's tasks\<close>

text \<open>A task of the system: its stack is all of the array at \<open>stk\<close>, checked and cleared.\<close>

definition init_sys_task ::
    "os_image \<Rightarrow> vptr \<Rightarrow> 64 word \<Rightarrow> 8 word \<Rightarrow> 16 word \<Rightarrow> string \<Rightarrow> kst \<Rightarrow> kst option" where
  "init_sys_task im pfn stk prio idn name s = do {
     (_, s) \<leftarrow> OSTaskCreateExt (prvTaskExitError im) pfn NULL (Addr (stk + 8 * (ucast OS_TASK_SYS_STK_SIZE - 1))) prio idn
       (Addr stk) OS_TASK_SYS_STK_SIZE NULL (OS_TASK_OPT_STK_CHK OR OS_TASK_OPT_STK_CLR) s;
     (_, s) \<leftarrow> OSTaskNameSet prio (Some (name @ [CHR 0x00])) s;
     Some s
   }"

definition OS_InitTaskIdle :: "os_image \<Rightarrow> kst \<Rightarrow> kst option" where
  "OS_InitTaskIdle im = init_sys_task im (OS_TaskIdle_fn im) (OSTaskIdleStk im) OS_TASK_IDLE_PRIO OS_TASK_IDLE_ID ''uC/OS-II Idle''"

definition OS_InitTaskStat :: "os_image \<Rightarrow> kst \<Rightarrow> kst option" where
  "OS_InitTaskStat im = init_sys_task im (OS_TaskStat_fn im) (OSTaskStatStk im) OS_TASK_STAT_PRIO OS_TASK_STAT_ID ''uC/OS-II Stat''"

definition OSTmr_InitTask :: "os_image \<Rightarrow> kst \<Rightarrow> kst option" where
  "OSTmr_InitTask im = init_sys_task im (OSTmr_Task_fn im) (OSTmrTaskStk im) OS_TASK_TMR_PRIO OS_TASK_TMR_ID ''uC/OS-II Tmr''"

definition OSTmr_Init :: "os_image \<Rightarrow> kst \<Rightarrow> kst option" where
  "OSTmr_Init im s = do {
     let s = s\<lparr>OSTmrTbl := \<lambda>_. zero_tmr, OSTmrWheelTbl := \<lambda>_. \<lparr>OSTmrFirst = NULL, OSTmrEntries = 0\<rparr>\<rparr>;
     let s = fold (\<lambda>ix. upd_tmr ix (\<lambda>c. c\<lparr>OSTmrType := OS_TMR_TYPE, OSTmrState := OS_TMR_STATE_UNUSED,
       OSTmrNext := TMRp (ix + 1), OSTmrName := unnamed\<rparr>)) [0..<OS_TMR_CFG_MAX - 1] s;
     let s = upd_tmr (OS_TMR_CFG_MAX - 1) (\<lambda>c. c\<lparr>OSTmrType := OS_TMR_TYPE, OSTmrState := OS_TMR_STATE_UNUSED,
       OSTmrNext := NULL, OSTmrName := unnamed\<rparr>) s;
     let s = s\<lparr>OSTmrTime := 0, OSTmrUsed := 0, OSTmrFree := of_nat OS_TMR_CFG_MAX, OSTmrFreeList := TMRp 0\<rparr>;
     (sem, s) \<leftarrow> OSSemCreate 1 s;
     let s = s\<lparr>OSTmrSem := sem\<rparr>;
     (sig, s) \<leftarrow> OSSemCreate 0 s;
     let s = s\<lparr>OSTmrSemSignal := sig\<rparr>;
     (_, s) \<leftarrow> OSEventNameSet (OSTmrSem s) (Some (''uC/OS-II TmrLock'' @ [CHR 0x00])) s;
     (_, s) \<leftarrow> OSEventNameSet (OSTmrSemSignal s) (Some (''uC/OS-II TmrSignal'' @ [CHR 0x00])) s;
     OSTmr_InitTask im s
   }"

definition OSInit :: "os_image \<Rightarrow> kst \<Rightarrow> kst option" where
  "OSInit im s = do {
     let s = OSInitHookBegin s;
     let s = OS_InitMisc s;
     let s = OS_InitRdyList s;
     let s = OS_InitTCBList s;
     let s = OS_InitEventList s;
     let s = OS_FlagInit s;
     let s = OS_MemInit s;
     let s = OS_QInit s;
     s \<leftarrow> OS_InitTaskIdle im s;
     s \<leftarrow> OS_InitTaskStat im s;
     OSTmr_Init im s
   }"

definition OSVersion :: "16 word" where
  "OSVersion = OS_VERSION"

section \<open>The idle task and the statistics task\<close>

text \<open>One turn of the loop of the idle task; the hook of the application is empty.\<close>

definition OS_TaskIdle :: "kst \<Rightarrow> kst" where
  "OS_TaskIdle s = s\<lparr>OSIdleCtr := OSIdleCtr s + 1\<rparr>"

text \<open>
  \<open>OSStatInit\<close> in its parts between the points where the calling task waits: up to the first delay, up
  to the second one, and the end.
\<close>

definition OSStatInit :: "kst \<Rightarrow> kst option" where
  "OSStatInit s = OSTimeDly 2 s"

definition OSStatInit_zero :: "kst \<Rightarrow> kst option" where
  "OSStatInit_zero s = OSTimeDly (OS_TICKS_PER_SEC div 10) (s\<lparr>OSIdleCtr := 0\<rparr>)"

definition OSStatInit_done :: "kst \<Rightarrow> kst" where
  "OSStatInit_done s = s\<lparr>OSIdleCtrMax := OSIdleCtr s, OSStatRdy := True\<rparr>"

text \<open>
  The statistics task in its parts: waiting for \<open>OSStatInit\<close> (the result is false when it is done), the
  statements before the loop up to a suspension, the one after it, and the loop up to its first and
  its second delay and to its end.
\<close>

definition OS_TaskStat_wait :: "kst \<Rightarrow> (bool \<times> kst) option" where
  "OS_TaskStat_wait s =
     (if \<not> OSStatRdy s then do {
        s \<leftarrow> OSTimeDly (2 * OS_TICKS_PER_SEC div 10) s;
        Some (True, s)
      } else Some (False, s))"

definition OS_TaskStat_begin :: "kst \<Rightarrow> kst option" where
  "OS_TaskStat_begin s = (
     let s = s\<lparr>OSIdleCtrMax := OSIdleCtrMax s div 100\<rparr> in
     if OSIdleCtrMax s = 0 then do {
       let s = s\<lparr>OSCPUUsage := 0\<rparr>;
       (_, s) \<leftarrow> OSTaskSuspend OS_PRIO_SELF s;
       Some s
     } else Some s)"

definition OS_TaskStat_go :: "kst \<Rightarrow> kst" where
  "OS_TaskStat_go s = s\<lparr>OSIdleCtr := OSIdleCtrMax s * 100\<rparr>"

definition OS_TaskStat_loop :: "kst \<Rightarrow> kst option" where
  "OS_TaskStat_loop s = OSTimeDly 1 s"

definition OS_TaskStat_zero :: "kst \<Rightarrow> kst option" where
  "OS_TaskStat_zero s = OSTimeDly (OS_TICKS_PER_SEC div 10) (s\<lparr>OSIdleCtr := 0\<rparr>)"

text \<open>\<open>usage\<close> is an \<open>INT8S\<close>; a division by zero is undefined.\<close>

definition OS_TaskStat_usage :: "kst \<Rightarrow> kst option" where
  "OS_TaskStat_usage s = do {
     let s = s\<lparr>OSIdleCtrRun := OSIdleCtr s\<rparr>;
     if OSIdleCtrMax s = 0 then None
     else do {
       let usage = (100 :: 8 word) - ucast (OSIdleCtrRun s div OSIdleCtrMax s);
       let s = (if sint usage \<ge> 0 then s\<lparr>OSCPUUsage := usage\<rparr>
                else s\<lparr>OSCPUUsage := 0, OSIdleCtrMax := OSIdleCtrRun s div 100\<rparr>);
       OS_TaskStatStkChk s
     }
   }"

end
