(* ===== verification/Os_Init_Inv.thy ===== *)
theory Os_Init_Inv
  imports Os_Init Os_Task_Inv Os_Tmr_Inv
begin

text \<open>
  \<open>OSInit\<close> sets up the invariant of the kernel, whatever the memory held before.
\<close>

section \<open>Filling in a table\<close>

lemma fill_upto:
  "fold (\<lambda>i (T :: nat \<Rightarrow> 'a). T(i := f i (T i))) [0..<n] T = (\<lambda>i. if i < n then f i (T i) else T i)"
  by (induction n) (auto simp: fun_eq_iff)

text \<open>A loop over one field of the state is a loop over the table in that field.\<close>

lemma fold_field:
  assumes "\<And>i s. step i s = put (f i (get s)) s" "\<And>v s. get (put v s) = v"
    "\<And>v w s. put v (put w s) = put v s" "\<And>s. put (get s) s = s"
  shows "fold step is s = put (fold f is (get s)) s"
  by (induction "is" arbitrary: s) (simp_all add: assms)

lemma fold_tcbs:
  "fold (\<lambda>ix. upd_tcb ix (f ix)) [0..<n] s
    = s\<lparr>OSTCBTbl := \<lambda>i. if i < n then f i (OSTCBTbl s i) else OSTCBTbl s i\<rparr>"
  using fold_field [of "\<lambda>ix. upd_tcb ix (f ix)" "\<lambda>v s. s\<lparr>OSTCBTbl := v\<rparr>" "\<lambda>i T. T(i := f i (T i))" OSTCBTbl]
  by (simp add: upd_tcb_def fill_upto)

lemma fold_evs:
  "fold (\<lambda>ix. upd_ev ix (f ix)) [0..<n] s
    = s\<lparr>OSEventTbl_ecb := \<lambda>i. if i < n then f i (OSEventTbl_ecb s i) else OSEventTbl_ecb s i\<rparr>"
  using fold_field [of "\<lambda>ix. upd_ev ix (f ix)" "\<lambda>v s. s\<lparr>OSEventTbl_ecb := v\<rparr>" "\<lambda>i T. T(i := f i (T i))" OSEventTbl_ecb]
  by (simp add: upd_ev_def fill_upto)

lemma fold_grps:
  "fold (\<lambda>ix. upd_grp ix (f ix)) [0..<n] s
    = s\<lparr>OSFlagTbl := \<lambda>i. if i < n then f i (OSFlagTbl s i) else OSFlagTbl s i\<rparr>"
  using fold_field [of "\<lambda>ix. upd_grp ix (f ix)" "\<lambda>v s. s\<lparr>OSFlagTbl := v\<rparr>" "\<lambda>i T. T(i := f i (T i))" OSFlagTbl]
  by (simp add: upd_grp_def fill_upto)

lemma fold_mems:
  "fold (\<lambda>i. upd_mem i (f i)) [0..<n] s
    = s\<lparr>OSMemTbl := \<lambda>i. if i < n then f i (OSMemTbl s i) else OSMemTbl s i\<rparr>"
  using fold_field [of "\<lambda>i. upd_mem i (f i)" "\<lambda>v s. s\<lparr>OSMemTbl := v\<rparr>" "\<lambda>i T. T(i := f i (T i))" OSMemTbl]
  by (simp add: upd_mem_def fill_upto)

lemma fold_tmrs:
  "fold (\<lambda>i. upd_tmr i (f i)) [0..<n] s
    = s\<lparr>OSTmrTbl := \<lambda>i. if i < n then f i (OSTmrTbl s i) else OSTmrTbl s i\<rparr>"
  using fold_field [of "\<lambda>i. upd_tmr i (f i)" "\<lambda>v s. s\<lparr>OSTmrTbl := v\<rparr>" "\<lambda>i T. T(i := f i (T i))" OSTmrTbl]
  by (simp add: upd_tmr_def fill_upto)

lemma fold_qs:
  "fold (\<lambda>i. upd_q i (f i)) [0..<n] s
    = s\<lparr>OSQTbl := \<lambda>i. if i < n then f i (OSQTbl s i) else OSQTbl s i\<rparr>"
  using fold_field [of "\<lambda>i. upd_q i (f i)" "\<lambda>v s. s\<lparr>OSQTbl := v\<rparr>" "\<lambda>i T. T(i := f i (T i))" OSQTbl]
  by (simp add: upd_q_def fill_upto)

lemma fold_rdy:
  "fold (\<lambda>i s. s\<lparr>OSRdyTbl := (OSRdyTbl s)(i := 0)\<rparr>) [0..<n] s
    = s\<lparr>OSRdyTbl := \<lambda>i. if i < n then 0 else OSRdyTbl s i\<rparr>"
  by (subst fold_field [where step = "\<lambda>i s. s\<lparr>OSRdyTbl := (OSRdyTbl s)(i := 0)\<rparr>" and put = "\<lambda>v s. s\<lparr>OSRdyTbl := v\<rparr>"
      and f = "\<lambda>i T. T(i := 0)" and get = OSRdyTbl])
    (simp_all add: fill_upto [of "\<lambda>_ _. 0"])

lemmas fold_tables = fold_tcbs fold_evs fold_grps fold_mems fold_tmrs fold_qs fold_rdy

section \<open>The tables after start-up\<close>

text \<open>Event control block \<open>e\<close> in the free list, and the free list itself.\<close>

definition free_ev :: "nat \<Rightarrow> event_type \<times> vptr \<times> 16 word \<times> cname" where
  "free_ev e = (OS_EVENT_TYPE_UNUSED, if e < OS_MAX_EVENTS - 1 then EVp (e + 1) else NULL, 0, unnamed)"

text \<open>No task, no object, nothing ready: the state that the tasks of the system are created in.\<close>

definition no_objects :: "kst \<Rightarrow> bool" where
  "no_objects s \<longleftrightarrow> (\<forall>e<OS_MAX_EVENTS. ev_data s e = free_ev e \<and> ev_bm s e = (0, \<lambda>_. 0))
     \<and> OSEventFreeList s = EVp 0 \<and> OSQFreeList s = Qp 0
     \<and> (\<forall>i<OS_MAX_QS. OSQPtr (OSQTbl s i) = (if i < OS_MAX_QS - 1 then Qp (i + 1) else NULL))"

definition no_tasks :: "kst \<Rightarrow> bool" where
  "no_tasks s \<longleftrightarrow> OSTCBPrioTbl s = (\<lambda>_. NULL) \<and> OSTCBList s = NULL \<and> OSTCBFreeList s = TCBp 0 \<and> OSTaskCtr s = 0
     \<and> (\<forall>t<OS_N_TCBS. tcb_next s t = (if t < OS_N_TCBS - 1 then TCBp (t + 1) else NULL)
          \<and> OSTCBEventMultiPtr (OSTCBTbl s t) = None)
     \<and> OSRdyGrp s = 0 \<and> (\<forall>y<8. OSRdyTbl s y = 0)
     \<and> OSIntNesting s = 0 \<and> OSLockNesting s = 0 \<and> \<not> OSRunning s"

lemma init_tables:
  defines "tables s \<equiv> OS_QInit (OS_MemInit (OS_FlagInit (OS_InitEventList (OS_InitTCBList (OS_InitRdyList
    (OS_InitMisc (OSInitHookBegin s)))))))"
  shows "no_tasks (tables s)" "no_objects (tables s)"
  unfolding tables_def OS_QInit_def OS_MemInit_def OS_FlagInit_def OS_InitEventList_def OS_InitTCBList_def
    OS_InitRdyList_def OS_InitMisc_def OSInitHookBegin_def Let_def fold_tables no_tasks_def no_objects_def
  by (simp_all add: zero_tcb_def zero_ev_def zero_q_def free_ev_def ev_data_def kernel_defs)

section \<open>The first tasks\<close>

text \<open>Before multitasking starts: the tasks \<open>ts\<close>, all ready, are the only ones.\<close>

definition booting :: "nat list \<Rightarrow> nat list \<Rightarrow> nat set \<Rightarrow> kst \<Rightarrow> bool" where
  "booting ts fs ps s \<longleftrightarrow> kinv0 s \<and> lists_ok s ts fs \<and> rdy s = ps \<and> (\<forall>p<64. OSTCBPrioTbl s p = NULL \<longleftrightarrow> p \<notin> ps)
     \<and> OSIntNesting s = 0 \<and> OSLockNesting s = 0 \<and> \<not> OSRunning s"

text \<open>What creating a task leaves of the objects.\<close>

definition objects_kept :: "kst \<Rightarrow> kst \<Rightarrow> bool" where
  "objects_kept s s' \<longleftrightarrow> tmr_data s' = tmr_data s \<and> ev_data s' = ev_data s \<and> ev_bm s' = ev_bm s \<and> OSEventFreeList s' = OSEventFreeList s
     \<and> OSQTbl s' = OSQTbl s \<and> OSQFreeList s' = OSQFreeList s \<and> OSTmrSemSignal s' = OSTmrSemSignal s"

lemma objects_kept_trans: "objects_kept s s' \<Longrightarrow> objects_kept s' s'' \<Longrightarrow> objects_kept s s''"
  by (simp add: objects_kept_def)

lemma bm_ok_zero [simp]: "bm_ok (0, \<lambda>_. 0)" "bm_members (0, \<lambda>_. 0) = {}"
  by (simp_all add: bm_ok_def bm_members_def)

lemma no_tasks_upt: "no_tasks s \<Longrightarrow> path TCBp (tcb_next s) (TCBp 0) [0..<22]"
proof -
  assume n: "no_tasks s"
  have "[0..<22] = [0, 1, 2, 3, 4, 5, 6, 7, 8, 9, 10, 11, 12, 13, 14, 15, 16, 17, 18, 19, 20, 21]"
    by (simp add: upt_rec)
  then show ?thesis using n by (simp add: no_tasks_def)
qed

lemma first_task:
  assumes none: "no_tasks s" "no_objects s" and n: "new_task 0 63 s s'"
    and pv: "tcb_prev s' 0 = NULL" "OSTCBFreeList s' = tcb_next s 0" "OSTaskCtr s' = OSTaskCtr s + 1"
  shows "booting [0] [1..<22] {63} s'"
proof -
  have zero: "\<not> owns s u q" for u q using none(1) by (simp add: no_tasks_def owns_def)
  then have tasks0: "the_tasks s = {}" by (simp add: the_tasks_def)
  have own: "owns s' u q \<longleftrightarrow> u = 0 \<and> q = 63" for u q
    using new_task_owns [OF n] zero none(1) tasks0 by (simp add: no_tasks_def)
  then have tasks: "the_tasks s' = {0}" by (auto simp: the_tasks_def)
  have tbl: "OSTCBPrioTbl s' = (\<lambda>_. NULL)(63 := TCBp 0)"
    using n none(1) by (simp add: new_task_def no_tasks_def)
  have nx: "tcb_next s' t = tcb_next s t" if "t \<noteq> 0" for t using new_task_fields(3) [OF n that] .
  have ev: "ev_bm s' e = (0, \<lambda>_. 0)" if "e < OS_MAX_EVENTS" for e
    using n none(2) that by (simp add: new_task_def no_objects_def)
  have rb: "rdy_bm s' = bm_add 63 (rdy_bm s)" using n by (simp add: new_task_def)
  have bm0: "bm_ok (rdy_bm s)" "bm_members (rdy_bm s) = {}"
  proof -
    show "bm_ok (rdy_bm s)" using none(1) by (simp add: rdy_bm_def bm_ok_def no_tasks_def)
    have "OSRdyTbl s (p div 8) = 0" if "p < 64" for p :: nat
      using none(1) that by (simp add: no_tasks_def)
    then show "bm_members (rdy_bm s) = {}" by (auto simp: bm_members_def rdy_bm_def)
  qed
  have r: "bm_ok (rdy_bm s')" "rdy s' = {63}"
    using bm0 by (simp_all add: rb rdy_def bm.inv_add bm.members_add)
  have list: "OSTCBList s' = TCBp 0" "tcb_next s' 0 = NULL" "OSTCBPrio (OSTCBTbl s' 0) = 63"
    using n none(1) by (simp_all add: new_task_def no_tasks_def)
  have entry: "entry_ok s' (OSTCBPrioTbl s' q)" for q
    using own list(3) by (simp add: tbl entry_ok_def)
  have multi: "multi_ok (OSTCBEventMultiPtr (OSTCBTbl s' u))" if "u < OS_N_TCBS" for u
    using that n none(1) new_task_fields(4) [OF n, of u]
    by (cases "u = 0") (auto simp: new_task_def multi_ok_def no_tasks_def)
  have "tasks_ok s'"
    unfolding tasks_ok_def using list own by (intro exI [of _ "[0]"]) auto
  then have k0: "kinv0 s'"
    unfolding kinv0_def using r ev entry multi own
    by (auto simp: waiters_def intro: owns_owned)
  have "path TCBp (tcb_next s) (TCBp 0) [0..<22]" by (rule no_tasks_upt [OF none(1)])
  then have "path TCBp (tcb_next s) (tcb_next s 0) [1..<22]" by (simp add: upt_rec [of 0])
  moreover have "path TCBp (tcb_next s') (tcb_next s 0) [1..<22] = path TCBp (tcb_next s) (tcb_next s 0) [1..<22]"
    by (rule path_cong) (use nx in auto)
  moreover have "set [1..<22] = {t. t < OS_N_TCBS} - {0}" by (simp only: set_upt) auto
  ultimately have "lists_ok s' [0] [1..<22]"
    using list pv none(1) unfolding lists_ok_def tasks by (simp add: no_tasks_def del: set_upt)
  then show ?thesis
    using k0 r n none(1) by (auto simp: booting_def tbl new_task_def no_tasks_def ctl_def)
qed

lemma next_task:
  assumes b: "booting ts (t # fs) ps s" and n: "new_task t prio s s'"
    and p: "unat prio < 64" "unat prio \<notin> ps"
    and pv: "\<forall>u. u \<noteq> t \<longrightarrow> tcb_prev s' u = (if OSTCBList s = TCBp u then TCBp t else tcb_prev s u)"
      "tcb_prev s' t = NULL" "OSTCBFreeList s' = tcb_next s t" "OSTaskCtr s' = OSTaskCtr s + 1"
  shows "booting (t # ts) fs (insert (unat prio) ps) s'"
proof -
  have l: "lists_ok s ts (t # fs)" and k0: "kinv0 s" and r: "rdy s = ps"
    and free: "OSTCBPrioTbl s (unat prio) = NULL"
    using b p by (simp_all add: booting_def)
  have t: "t < OS_N_TCBS" "t \<notin> the_tasks s" using l by (auto simp: lists_ok_def)
  note own = new_task_owns [OF n t p(1) free]
  have tasks: "the_tasks s' = insert t (the_tasks s)" using own by (auto simp: the_tasks_def)
  have "kinv0 s'" by (rule new_task_kinv0 [OF k0 n t p(1) free])
  moreover have "lists_ok s' (t # ts) fs" by (rule new_task_lists [OF l n tasks pv])
  moreover have "rdy s' = insert (unat prio) ps"
    using n p(1) r by (simp add: new_task_def rdy_def bm.members_add)
  ultimately show ?thesis
    using b n by (auto simp: booting_def new_task_def ctl_def)
qed

lemma new_task_objects: "new_task t prio s s' \<Longrightarrow> objects_kept s s'"
  by (simp add: new_task_def objects_kept_def)

text \<open>A name changes nothing of this.\<close>

lemma booting_unread:
  assumes "booting ts fs ps s" "unread s s'"
  shows "booting ts fs ps s'"
proof -
  note u = unreadD [OF assms(2)]
  have "kinv0 s" using assms(1) by (simp add: booting_def)
  then have "kinv0 s'"
    by (rule kinv0_same) (use assms(2) in \<open>simp_all add: unread_def\<close>)
  then show ?thesis
    using assms(1) u lists_ok_cong [OF u(1)] ids_PrioTbl [OF u(1)] by (simp add: booting_def ctl_def)
qed

lemma unread_objects: "unread s s' \<Longrightarrow> tmr_data s' = tmr_data s \<Longrightarrow> objects_kept s s'"
  by (simp add: unread_def objects_kept_def clock_def)

text \<open>The stack of a task of the system.\<close>

definition sys_stack :: "64 word \<Rightarrow> bool" where
  "sys_stack stk \<longleftrightarrow> region_ok stk OS_TASK_SYS_STK_SIZE 8"

lemma sys_stack_arg:
  assumes "sys_stack stk"
  shows "stack_arg (Addr (stk + 1016)) (Addr stk) 128 3"
proof -
  have b: "region_ok stk 128 8" using assms by (simp add: sys_stack_def)
  then have "unat (stk + 1016) = unat stk + 1016"
    by (intro unat_add_lem [THEN iffD1, of stk 1016, simplified]) (simp add: region_ok_def)
  then show ?thesis using b by (simp add: stack_arg_def)
qed

text \<open>A task of the system is created and named.\<close>

lemma init_sys_task_steps:
  assumes nest: "OSIntNesting s = 0" "\<not> OSRunning s" and prio: "prio \<le> OS_LOWEST_PRIO"
    and entry: "OSTCBPrioTbl s (unat prio) = NULL" and stk: "sys_stack stk"
    and free: "OSTCBFreeList s = TCBp t" and t: "t < OS_N_TCBS"
    and l: "OSTCBList s = NULL \<or> (\<exists>h<OS_N_TCBS. h \<noteq> t \<and> OSTCBList s = TCBp h)"
  shows "ok (init_sys_task im pfn stk prio idn name s) (\<lambda>s'. \<exists>s2. new_task t prio s s2
    \<and> tcb_prev s2 t = NULL \<and> OSTCBFreeList s2 = tcb_next s t \<and> OSTaskCtr s2 = OSTaskCtr s + 1
    \<and> (\<forall>u. u \<noteq> t \<longrightarrow> tcb_prev s2 u = (if OSTCBList s = TCBp u then TCBp t else tcb_prev s u))
    \<and> unread s2 s' \<and> tmr_data s' = tmr_data s2)"
proof -
  obtain s2 where r: "OSTaskCreateExt (prvTaskExitError im) pfn NULL (Addr (stk + 1016)) prio idn (Addr stk) 128 NULL 3 s
      = Some (OS_ERR_NONE, s2)"
    and n: "new_task t prio s s2" and rest: "tcb_prev s2 t = NULL" "OSTCBFreeList s2 = tcb_next s t"
      "OSTaskCtr s2 = OSTaskCtr s + 1"
      "\<forall>u. u \<noteq> t \<longrightarrow> tcb_prev s2 u = (if OSTCBList s = TCBp u then TCBp t else tcb_prev s u)"
    using OSTaskCreateExt_steps [OF nest(1) prio entry sys_stack_arg [OF stk] free t l] nest(2) by force
  have p: "prio \<noteq> OS_PRIO_SELF" "unat prio < 64" using prio by (auto simp: word_le_nat_alt)
  have "OSIntNesting s2 = 0" using n nest(1) by (simp add: new_task_def ctl_def)
  moreover have "OSTCBPrioTbl s2 (unat prio) = TCBp t" using n by (simp add: new_task_def)
  ultimately have "OSTaskNameSet prio (Some nm) s2
      = Some (OS_ERR_NONE, upd_tcb t (\<lambda>c. c\<lparr>OSTCBTaskName := Some nm\<rparr>) s2)" for nm
    using p t prio by (simp add: OSTaskNameSet_def self_prio_def prio_tbl_def not_less)
  moreover have "unread s2 (upd_tcb t (\<lambda>c. c\<lparr>OSTCBTaskName := nm\<rparr>) s2)" for nm
    by (rule unread_tcb) simp_all
  moreover have "tmr_data (upd_tcb t f s2) = tmr_data s2" for f by (simp add: tmr_data_def upd_tcb_def)
  ultimately show ?thesis using r n rest by (auto simp: init_sys_task_def)
qed

lemma init_idle_ok:
  assumes none: "no_tasks s" "no_objects s" and stk: "sys_stack (OSTaskIdleStk im)"
  shows "ok (OS_InitTaskIdle im s) (\<lambda>s'. booting [0] [1..<22] {63} s' \<and> objects_kept s s')"
proof -
  have "OSIntNesting s = 0" "\<not> OSRunning s" "OSTCBPrioTbl s (unat (63 :: 8 word)) = NULL" "OSTCBFreeList s = TCBp 0"
    "OSTCBList s = NULL"
    using none(1) by (simp_all add: no_tasks_def)
  note st = init_sys_task_steps [OF this(1,2) _ this(3) stk this(4) _ disjI1 [OF this(5)],
      of im "OS_TaskIdle_fn im" 65535 "''uC/OS-II Idle''"]
  show ?thesis
    unfolding OS_InitTaskIdle_def
  proof (rule ok_mono [OF st])
    fix s'
    assume "\<exists>s2. new_task 0 63 s s2 \<and> tcb_prev s2 0 = NULL \<and> OSTCBFreeList s2 = tcb_next s 0
      \<and> OSTaskCtr s2 = OSTaskCtr s + 1
      \<and> (\<forall>u. u \<noteq> 0 \<longrightarrow> tcb_prev s2 u = (if OSTCBList s = TCBp u then TCBp 0 else tcb_prev s u))
      \<and> unread s2 s' \<and> tmr_data s' = tmr_data s2"
    then obtain s2 where n: "new_task 0 63 s s2" "unread s2 s'" "tmr_data s' = tmr_data s2" and "tcb_prev s2 0 = NULL"
      "OSTCBFreeList s2 = tcb_next s 0" "OSTaskCtr s2 = OSTaskCtr s + 1" by blast
    then have "booting [0] [1..<22] {63} s2" by (intro first_task [OF none])
    then show "booting [0] [1..<22] {63} s' \<and> objects_kept s s'"
      using booting_unread [OF _ n(2)] objects_kept_trans [OF new_task_objects [OF n(1)] unread_objects [OF n(2,3)]]
      by simp
  qed simp_all
qed

lemma init_next_ok:
  assumes b: "booting ts (t # fs) ps s" and prio: "prio < OS_LOWEST_PRIO" "unat prio \<notin> ps" and stk: "sys_stack stk"
  shows "ok (init_sys_task im pfn stk prio idn name s)
    (\<lambda>s'. booting (t # ts) fs (insert (unat prio) ps) s' \<and> objects_kept s s')"
proof -
  have p: "unat prio < 64" "prio \<le> OS_LOWEST_PRIO" using prio(1) by (auto simp: word_less_nat_alt word_le_nat_alt)
  have e: "OSIntNesting s = 0" "\<not> OSRunning s" "OSTCBPrioTbl s (unat prio) = NULL" and l: "lists_ok s ts (t # fs)"
    using b p prio by (simp_all add: booting_def)
  have t: "OSTCBFreeList s = TCBp t" "t < OS_N_TCBS" "t \<notin> the_tasks s"
    and ts: "set ts = the_tasks s" "dll TCBp (tcb_next s) (tcb_prev s) NULL (OSTCBList s) ts"
    using l by (auto simp: lists_ok_def)
  have head: "OSTCBList s = NULL \<or> (\<exists>h<OS_N_TCBS. h \<noteq> t \<and> OSTCBList s = TCBp h)"
    using ts t by (cases ts) (auto simp: the_tasks_def owns_def)
  show ?thesis
  proof (rule ok_mono [OF init_sys_task_steps [OF e(1,2) p(2) e(3) stk t(1,2) head, of im pfn idn name]])
    fix s'
    assume "\<exists>s2. new_task t prio s s2 \<and> tcb_prev s2 t = NULL \<and> OSTCBFreeList s2 = tcb_next s t
      \<and> OSTaskCtr s2 = OSTaskCtr s + 1
      \<and> (\<forall>u. u \<noteq> t \<longrightarrow> tcb_prev s2 u = (if OSTCBList s = TCBp u then TCBp t else tcb_prev s u))
      \<and> unread s2 s' \<and> tmr_data s' = tmr_data s2"
    then obtain s2 where n: "new_task t prio s s2" "unread s2 s'" "tmr_data s' = tmr_data s2" and pv:
      "\<forall>u. u \<noteq> t \<longrightarrow> tcb_prev s2 u = (if OSTCBList s = TCBp u then TCBp t else tcb_prev s u)"
      "tcb_prev s2 t = NULL" "OSTCBFreeList s2 = tcb_next s t" "OSTaskCtr s2 = OSTaskCtr s + 1" by blast
    have "booting (t # ts) fs (insert (unat prio) ps) s2" by (rule next_task [OF b n(1) p(1) prio(2) pv])
    then show "booting (t # ts) fs (insert (unat prio) ps) s' \<and> objects_kept s s'"
      using booting_unread [OF _ n(2)] objects_kept_trans [OF new_task_objects [OF n(1)] unread_objects [OF n(2,3)]]
      by simp
  qed
qed

section \<open>The semaphores of the timer task\<close>

text \<open>The events \<open>ds\<close> were taken from the free list in order; nobody waits.\<close>

definition booted_events :: "(event_type \<times> vptr \<times> 16 word \<times> cname) list \<Rightarrow> kst \<Rightarrow> bool" where
  "booted_events ds s \<longleftrightarrow> length ds < OS_MAX_EVENTS \<and> OSEventFreeList s = EVp (length ds)
     \<and> (\<forall>e<OS_MAX_EVENTS. ev_data s e = (if e < length ds then ds ! e else free_ev e)
          \<and> bm_ok (ev_bm s e) \<and> waiters s e = {})
     \<and> OSQFreeList s = Qp 0
     \<and> (\<forall>i<OS_MAX_QS. OSQPtr (OSQTbl s i) = (if i < OS_MAX_QS - 1 then Qp (i + 1) else NULL))"

lemma booted_none: "no_objects s \<Longrightarrow> booted_events [] s"
  by (simp add: booted_events_def no_objects_def waiters_def)

lemma booted_kept: "booted_events ds s \<Longrightarrow> objects_kept s s' \<Longrightarrow> booted_events ds s'"
  by (simp add: booted_events_def objects_kept_def waiters_def)

lemma OSSemCreate_booting:
  assumes b: "booting ts fs ps s" and ev: "booted_events ds s" and len: "length ds < OS_MAX_EVENTS - 1"
  shows "ok (OSSemCreate cnt s) (\<lambda>(p, s'). p = EVp (length ds) \<and> booting ts fs ps s'
    \<and> booted_events (ds @ [(OS_EVENT_TYPE_SEM, NULL, cnt, unnamed)]) s' \<and> stores s' = stores s \<and> clock s' = clock s)"
proof -
  let ?k = "length ds"
  have f: "OSEventFreeList s = EVp ?k" "ev_ptr s ?k = EVp (?k + 1)" "OSIntNesting s = 0"
    using b ev len by (simp_all add: booted_events_def booting_def free_ev_def ev_data_at(2))
  let ?s = "s\<lparr>OSEventFreeList := EVp (?k + 1)\<rparr>"
  have v: "ids ?s = ids s" "stores ?s = stores s" "clock ?s = clock s" "ctl ?s = ctl s" "rdy_bm ?s = rdy_bm s"
    "ev_bm ?s = ev_bm s" "OSTCBTbl ?s = OSTCBTbl s" "ev_data ?s = ev_data s" "waiters ?s = waiters s"
    by (simp_all add: ids_def stores_def clock_def ctl_def rdy_bm_def ev_bm_def ev_data_def waiters_def fun_eq_iff)
  obtain s' where r: "init_event (EVp ?k) OS_EVENT_TYPE_SEM cnt NULL ?s = Some s'"
    and s': "ids s' = ids s" "stores s' = stores s" "clock s' = clock s" "ctl s' = ctl s" "rdy_bm s' = rdy_bm s"
      "bm_ok (ev_bm s' ?k)" "waiters s' = (waiters s)(?k := {})" "\<And>e. e \<noteq> ?k \<Longrightarrow> ev_bm s' e = ev_bm s e"
      "OSTCBTbl s' = OSTCBTbl s" "OSEventFreeList s' = EVp (?k + 1)"
      "ev_data s' = (ev_data s)(?k := (OS_EVENT_TYPE_SEM, NULL, cnt, unnamed))"
    using init_event_ok [of ?k OS_EVENT_TYPE_SEM cnt NULL ?s] len unfolding v by (auto simp: ok_iff)
  have run: "OSSemCreate cnt s = Some (EVp ?k, s')"
    using f r len by (simp add: OSSemCreate_def take_event_def Let_def)
  have "kinv0 s" using b by (simp add: booting_def)
  then have "kinv0 s'" by (rule kinv0_lists) (use s' in auto)
  moreover have "rdy s' = rdy s" using s'(5) by (simp add: rdy_def)
  ultimately have "booting ts fs ps s'"
    using b s'(4) lists_ok_cong [OF s'(1)] ids_PrioTbl [OF s'(1)] by (simp add: booting_def ctl_def)
  moreover have "booted_events (ds @ [(OS_EVENT_TYPE_SEM, NULL, cnt, unnamed)]) s'"
  proof -
    have "OSQFreeList s' = OSQFreeList s" "OSQTbl s' = OSQTbl s" using s'(2) by (simp_all add: stores_def)
    moreover have "bm_ok (ev_bm s' e)" if "e < OS_MAX_EVENTS" for e
      using ev that s'(6) s'(8) [of e] by (cases "e = ?k") (simp_all add: booted_events_def)
    ultimately show ?thesis
      using ev len s'(7,10,11) by (auto simp: booted_events_def nth_append less_Suc_eq)
  qed
  ultimately show ?thesis using run s'(2,3) by simp
qed

lemma OSEventNameSet_booting:
  assumes b: "booting ts fs ps s" and ev: "booted_events ds s"
    and e: "e < length ds" "ds ! e = (OS_EVENT_TYPE_SEM, p, c, nm)"
  shows "ok (OSEventNameSet (EVp e) (Some name) s) (\<lambda>(_, s'). booting ts fs ps s'
    \<and> booted_events (ds[e := (OS_EVENT_TYPE_SEM, p, c, Some name)]) s' \<and> stores s' = stores s \<and> clock s' = clock s)"
proof -
  have len: "e < OS_MAX_EVENTS" and d: "ev_data s e = (OS_EVENT_TYPE_SEM, p, c, nm)"
    using ev e by (simp_all add: booted_events_def)
  let ?s = "upd_ev e (\<lambda>c. c\<lparr>OSEventName := Some name\<rparr>) s"
  have run: "OSEventNameSet (EVp e) (Some name) s = Some (OS_ERR_NONE, ?s)"
    using b len ev_data_at(1) [OF d] by (simp add: OSEventNameSet_def booting_def)
  have k0: "kinv0 s" using b by (simp add: booting_def)
  have "kinv0 ?s" by (rule kinv0_lists [OF k0]) simp_all
  then have "booting ts fs ps ?s"
    using b lists_ok_cong [of ?s s] ids_PrioTbl [of ?s s] views_upd_ev(4) [of e _ s]
    by (simp add: booting_def ctl_def)
  moreover have "ev_data ?s = (ev_data s)(e := (OS_EVENT_TYPE_SEM, p, c, Some name))"
    using ev_data_at [OF d] by (simp add: ev_data_def fun_eq_iff)
  moreover have "OSQFreeList ?s = OSQFreeList s" "OSQTbl ?s = OSQTbl s"
    using views_upd_ev(6) [of e _ s] by (simp_all add: stores_def)
  ultimately show ?thesis
    using run ev e(1) by (auto simp: booted_events_def)
qed

lemma booted_oinv:
  assumes ev: "booted_events ds s" and sem: "\<And>d. d \<in> set ds \<Longrightarrow> fst d = OS_EVENT_TYPE_SEM" and sig: "valid_ev (OSTmrSemSignal s)"
  shows "oinv s"
proof -
  have d: "ev_data s e = (if e < length ds then ds ! e else free_ev e)" if "e < OS_MAX_EVENTS" for e
    using ev that by (simp add: booted_events_def)
  have k: "ev_type s e = (if e < length ds then OS_EVENT_TYPE_SEM else OS_EVENT_TYPE_UNUSED)" if "e < OS_MAX_EVENTS" for e
  proof (cases "e < length ds")
    case True
    then show ?thesis using d [OF that] sem [of "ds ! e"] by (metis ev_data_def fst_conv nth_mem)
  qed (use d [OF that] in \<open>simp add: ev_data_def free_ev_def\<close>)
  have nx: "ev_ptr s e = (if e < OS_MAX_EVENTS - 1 then EVp (e + 1) else NULL)"
    if "e < OS_MAX_EVENTS" "length ds \<le> e" for e
    using d [OF that(1)] that(2) by (simp add: ev_data_def free_ev_def)
  have "path EVp (ev_ptr s) (if n < OS_MAX_EVENTS then EVp n else NULL) [n..<OS_MAX_EVENTS]"
    if "length ds \<le> n" for n
    using that
  proof (induction "OS_MAX_EVENTS - n" arbitrary: n)
    case (Suc m)
    then have "n < OS_MAX_EVENTS" "m = 9 - n" by simp_all
    then show ?case
      using Suc.hyps(1) [of "Suc n"] Suc.hyps(2) Suc.prems nx [of n]
      by (auto simp: upt_rec [of n] split: if_splits)
  qed simp
  from this [of "length ds"] have "path EVp (ev_ptr s) (OSEventFreeList s) [length ds..<OS_MAX_EVENTS]"
    using ev by (simp add: booted_events_def)
  moreover have "set [length ds..<OS_MAX_EVENTS] = unused_events s"
    using k by (auto simp: unused_events_def split: if_splits)
  ultimately have pool: "ev_pool_ok s" unfolding ev_pool_ok_def by (metis distinct_upt)
  have noq: "ev_type s e \<noteq> OS_EVENT_TYPE_Q" "ev_type s e \<noteq> OS_EVENT_TYPE_MUTEX" if "e < OS_MAX_EVENTS" for e
    using k [OF that] by simp_all
  have qs: "[0, 1, 2, 3] = [0..<OS_MAX_QS]" by (simp add: upt_rec)
  have "path Qp (\<lambda>i. OSQPtr (OSQTbl s i)) (OSQFreeList s) [0, 1, 2, 3]"
    using ev by (simp add: booted_events_def)
  moreover have "used_qs s = {}" using noq by (auto simp: used_qs_def)
  ultimately have "q_pool_ok s"
    unfolding q_pool_ok_def using noq by (intro conjI exI [of _ "[0, 1, 2, 3]"]) auto
  moreover have "obj_ok s e" if "e < OS_MAX_EVENTS" for e
    using ev that noq [OF that] by (simp add: obj_ok_def booted_events_def)
  ultimately show ?thesis
    using pool noq sig by (simp add: oinv_def pcps_differ_def)
qed

section \<open>OSInit\<close>

lemma booted_unread:
  assumes "booted_events ds s" "unread s s'"
  shows "booted_events ds s'"
proof -
  have "ev_bm s' = ev_bm s" "OSQFreeList s' = OSQFreeList s" using assms(2) by (simp_all add: unread_def)
  then show ?thesis using assms(1) unreadD [OF assms(2)] by (simp add: booted_events_def)
qed

text \<open>All timers are in the free list and the wheel is empty.\<close>

definition timers_free :: "kst \<Rightarrow> bool" where
  "timers_free s \<longleftrightarrow> wheel_ok s (\<lambda>_. []) \<and> OSTmrFree s = of_nat OS_TMR_CFG_MAX \<and> OSTmrUsed s = 0 \<and> OSTmrTime s = 0
     \<and> path TMRp (\<lambda>i. OSTmrNext (OSTmrTbl s i)) (OSTmrFreeList s) [0..<OS_TMR_CFG_MAX]
     \<and> (\<forall>i<OS_TMR_CFG_MAX. OSTmrType (OSTmrTbl s i) = OS_TMR_TYPE \<and> OSTmrState (OSTmrTbl s i) = OS_TMR_STATE_UNUSED)"

lemma timers_free_cong: "tmr_data s' = tmr_data s \<Longrightarrow> timers_free s' = timers_free s"
  by (simp add: timers_free_def tmr_data_def wheel_ok_def)

lemma stores_tmr_data: "stores s' = stores s \<Longrightarrow> tmr_data s' = tmr_data s"
  by (simp add: stores_def tmr_data_def)

text \<open>The tables of the timers.\<close>

definition tmr_tables :: "kst \<Rightarrow> kst" where
  "tmr_tables s = s\<lparr>OSTmrTbl := \<lambda>i. if i < OS_TMR_CFG_MAX
       then zero_tmr\<lparr>OSTmrType := OS_TMR_TYPE, OSTmrState := OS_TMR_STATE_UNUSED,
         OSTmrNext := (if i < OS_TMR_CFG_MAX - 1 then TMRp (i + 1) else NULL), OSTmrName := unnamed\<rparr>
       else zero_tmr,
     OSTmrWheelTbl := \<lambda>_. \<lparr>OSTmrFirst = NULL, OSTmrEntries = 0\<rparr>,
     OSTmrTime := 0, OSTmrUsed := 0, OSTmrFree := of_nat OS_TMR_CFG_MAX, OSTmrFreeList := TMRp 0\<rparr>"

lemma tmr_tables_facts: "unread s (tmr_tables s)" "timers_free (tmr_tables s)"
proof -
  show "unread s (tmr_tables s)"
    by (simp add: unread_def tmr_tables_def ids_def ctl_def cur_def rdy_bm_def ev_bm_def ev_data_def clock_def fun_eq_iff)
  have "[0..<OS_TMR_CFG_MAX] = [0, 1, 2, 3, 4, 5, 6, 7, 8, 9, 10, 11, 12, 13, 14, 15]" by (simp add: upt_rec)
  then show "timers_free (tmr_tables s)"
    by (simp add: timers_free_def tmr_tables_def wheel_ok_def on_spoke_def zero_tmr_def del: upt_Suc)
qed

lemma tmr_tables_eq:
  "(let s = s\<lparr>OSTmrTbl := \<lambda>_. zero_tmr, OSTmrWheelTbl := \<lambda>_. \<lparr>OSTmrFirst = NULL, OSTmrEntries = 0\<rparr>\<rparr>;
        s = fold (\<lambda>ix. upd_tmr ix (\<lambda>c. c\<lparr>OSTmrType := OS_TMR_TYPE, OSTmrState := OS_TMR_STATE_UNUSED,
          OSTmrNext := TMRp (ix + 1), OSTmrName := unnamed\<rparr>)) [0..<OS_TMR_CFG_MAX - 1] s;
        s = upd_tmr (OS_TMR_CFG_MAX - 1) (\<lambda>c. c\<lparr>OSTmrType := OS_TMR_TYPE, OSTmrState := OS_TMR_STATE_UNUSED,
          OSTmrNext := NULL, OSTmrName := unnamed\<rparr>) s
    in s\<lparr>OSTmrTime := 0, OSTmrUsed := 0, OSTmrFree := of_nat OS_TMR_CFG_MAX, OSTmrFreeList := TMRp 0\<rparr>) = tmr_tables s"
  unfolding Let_def fold_tables upd_tmr_def tmr_tables_def
  by (rule kst.equality) (auto simp: fun_eq_iff)

lemma OSTmr_Init_tables:
  "OSTmr_Init im s = do {
     (sem, s) \<leftarrow> OSSemCreate 1 (tmr_tables s);
     let s = s\<lparr>OSTmrSem := sem\<rparr>;
     (sig, s) \<leftarrow> OSSemCreate 0 s;
     let s = s\<lparr>OSTmrSemSignal := sig\<rparr>;
     (_, s) \<leftarrow> OSEventNameSet (OSTmrSem s) (Some (''uC/OS-II TmrLock'' @ [CHR 0x00])) s;
     (_, s) \<leftarrow> OSEventNameSet (OSTmrSemSignal s) (Some (''uC/OS-II TmrSignal'' @ [CHR 0x00])) s;
     OSTmr_InitTask im s
   }"
  unfolding OSTmr_Init_def Let_def tmr_tables_eq [unfolded Let_def] ..

lemma OSTmr_Init_ok:
  assumes b: "booting ts (t # fs) ps s" and ev: "booted_events [] s" and p: "61 \<notin> ps" and stk: "sys_stack (OSTmrTaskStk im)"
  shows "ok (OSTmr_Init im s) (\<lambda>s'. booting (t # ts) fs (insert 61 ps) s' \<and> oinv s' \<and> timers_free s'
    \<and> OSTmrSem s' = EVp 0 \<and> OSTmrSemSignal s' = EVp 1
    \<and> (\<forall>e<OS_MAX_EVENTS. waiters s' e = {} \<and> (ev_type s' e = OS_EVENT_TYPE_UNUSED \<longleftrightarrow> 2 \<le> e))
    \<and> ev_type s' 0 = OS_EVENT_TYPE_SEM \<and> ev_cnt s' 0 = 1 \<and> ev_type s' 1 = OS_EVENT_TYPE_SEM \<and> ev_cnt s' 1 = 0)"
proof -
  let ?boot = "booting ts (t # fs) ps"
  define lock where "lock = ''uC/OS-II TmrLock'' @ [CHR 0x00]"
  define sig where "sig = ''uC/OS-II TmrSignal'' @ [CHR 0x00]"
  define sem where "sem c nm = (OS_EVENT_TYPE_SEM, NULL, c, nm)" for c :: "16 word" and nm :: cname
  note tab = tmr_tables_facts [of s]
  obtain s1 where s1: "OSSemCreate 1 (tmr_tables s) = Some (EVp 0, s1)" "?boot s1" "booted_events [sem 1 unnamed] s1"
    "stores s1 = stores (tmr_tables s)"
    using OSSemCreate_booting [OF booting_unread [OF b tab(1)] booted_unread [OF ev tab(1)], of 1]
    by (auto simp: ok_iff sem_def)
  define s1' where "s1' = s1\<lparr>OSTmrSem := EVp 0\<rparr>"
  have u1: "unread s1 s1'"
    by (simp add: s1'_def unread_def ids_def ctl_def cur_def rdy_bm_def ev_bm_def ev_data_def clock_def fun_eq_iff)
  obtain s2 where s2: "OSSemCreate 0 s1' = Some (EVp 1, s2)" "?boot s2" "booted_events [sem 1 unnamed, sem 0 unnamed] s2"
    "stores s2 = stores s1'"
    using OSSemCreate_booting [OF booting_unread [OF s1(2) u1] booted_unread [OF s1(3) u1], of 0]
    by (auto simp: ok_iff sem_def)
  define s2' where "s2' = s2\<lparr>OSTmrSemSignal := EVp 1\<rparr>"
  have same: "ids s2' = ids s2" "rdy_bm s2' = rdy_bm s2" "ev_bm s2' = ev_bm s2" "ev_data s2' = ev_data s2" "ctl s2' = ctl s2"
    "OSTCBTbl s2' = OSTCBTbl s2" "stores s2' = stores s2" "OSEventFreeList s2' = OSEventFreeList s2"
    by (simp_all add: s2'_def ids_def ctl_def rdy_bm_def ev_bm_def ev_data_def stores_def fun_eq_iff)
  have "kinv0 s2" using s2(2) by (simp add: booting_def)
  then have "kinv0 s2'" by (rule kinv0_same [OF _ same(1-3)]) (simp add: same(6))
  then have b2: "?boot s2'"
    using s2(2) same lists_ok_cong [OF same(1)] ids_PrioTbl [OF same(1)] by (simp add: booting_def ctl_def rdy_def)
  have e2: "booted_events [sem 1 unnamed, sem 0 unnamed] s2'"
    using s2(3) same by (simp add: booted_events_def waiters_def stores_def)
  have sem0: "[sem 1 unnamed, sem 0 unnamed] ! 0 = (OS_EVENT_TYPE_SEM, NULL, 1, unnamed)" by (simp add: sem_def)
  obtain r3 s3 where s3: "OSEventNameSet (EVp 0) (Some lock) s2' = Some (r3, s3)" "?boot s3"
    "booted_events [sem 1 (Some lock), sem 0 unnamed] s3" "stores s3 = stores s2'" "clock s3 = clock s2'"
    using OSEventNameSet_booting [OF b2 e2 _ sem0, of lock] by (auto simp: ok_iff sem_def)
  have sem1: "[sem 1 (Some lock), sem 0 unnamed] ! 1 = (OS_EVENT_TYPE_SEM, NULL, 0, unnamed)" by (simp add: sem_def)
  obtain r4 s4 where s4: "OSEventNameSet (EVp 1) (Some sig) s3 = Some (r4, s4)" "?boot s4"
    "booted_events [sem 1 (Some lock), sem 0 (Some sig)] s4" "stores s4 = stores s3" "clock s4 = clock s3"
    using OSEventNameSet_booting [OF s3(2,3) _ sem1, of sig] by (auto simp: ok_iff sem_def)
  have st4: "OSTmrSem s2' = EVp 0" "OSTmrSemSignal s3 = EVp 1" "OSTmrSemSignal s4 = EVp 1" "OSTmrSem s4 = EVp 0"
    using s3(4,5) s4(4,5) same(7) s2(4) by (auto simp: s2'_def s1'_def stores_def clock_def)
  have "timers_free s1' = timers_free s1" by (simp add: timers_free_def wheel_ok_def s1'_def)
  then have "timers_free s1'" using tab(2) timers_free_cong [OF stores_tmr_data [OF s1(4)]] by simp
  moreover have "tmr_data s4 = tmr_data s1'" using s3(4) s4(4) same(7) s2(4) by (intro stores_tmr_data) simp
  ultimately have tf: "timers_free s4" using timers_free_cong by blast
  have p61: "unat (61 :: 8 word) \<notin> ps" using p by simp
  obtain s5 where s5: "OSTmr_InitTask im s4 = Some s5" "booting (t # ts) fs (insert 61 ps) s5" "objects_kept s4 s5"
    using init_next_ok [OF s4(2) _ p61 stk, of im "OSTmr_Task_fn im" 65533 "''uC/OS-II Tmr''"]
    by (auto simp: ok_iff OSTmr_InitTask_def)
  have run: "OSTmr_Init im s = Some s5"
    unfolding OSTmr_Init_tables lock_def [symmetric] sig_def [symmetric]
    using s1(1) s2(1) s3(1) s4(1) s5(1) st4 by (simp add: s1'_def s2'_def)
  have k5: "tmr_data s5 = tmr_data s4" "OSTmrSemSignal s5 = EVp 1" using s5(3) st4(3) by (simp_all add: objects_kept_def)
  have e5: "booted_events [sem 1 (Some lock), sem 0 (Some sig)] s5" by (rule booted_kept [OF s4(3) s5(3)])
  have d: "ev_data s5 e = (if e < 2 then [sem 1 (Some lock), sem 0 (Some sig)] ! e else free_ev e)" "waiters s5 e = {}"
    if "e < OS_MAX_EVENTS" for e
    using e5 that by (simp_all add: booted_events_def)
  have "oinv s5"
    by (rule booted_oinv [OF e5]) (auto simp: sem_def k5(2) valid_ev_def)
  moreover have "ev_type s5 e = OS_EVENT_TYPE_UNUSED \<longleftrightarrow> 2 \<le> e" if "e < OS_MAX_EVENTS" for e
    using d(1) [OF that] by (cases "e = 0"; cases "e = 1") (auto simp: ev_data_def sem_def free_ev_def)
  moreover have "ev_data s5 0 = sem 1 (Some lock)" "ev_data s5 1 = sem 0 (Some sig)" using d(1) by simp_all
  moreover have "OSTmrSem s5 = EVp 0" using k5(1) st4(4) by (simp add: tmr_data_def)
  moreover have "timers_free s5" using tf timers_free_cong [OF k5(1)] by simp
  ultimately show ?thesis
    using run s5(2) k5(2) d(2) by (simp add: ev_data_def sem_def)
qed

text \<open>What \<open>OSInit\<close> leaves: the three tasks of the system, their stacks prepared, no object but the timers' two semaphores.\<close>

definition initialised :: "kst \<Rightarrow> bool" where
  "initialised s \<longleftrightarrow> booting [2, 1, 0] [3..<OS_N_TCBS] {61, 62, 63} s \<and> oinv s \<and> timers_free s
    \<and> OSTmrSem s = EVp 0 \<and> OSTmrSemSignal s = EVp 1
    \<and> (\<forall>e<OS_MAX_EVENTS. waiters s e = {} \<and> (ev_type s e = OS_EVENT_TYPE_UNUSED \<longleftrightarrow> 2 \<le> e))
    \<and> ev_type s 0 = OS_EVENT_TYPE_SEM \<and> ev_cnt s 0 = 1 \<and> ev_type s 1 = OS_EVENT_TYPE_SEM \<and> ev_cnt s 1 = 0"

definition image_ok :: "os_image \<Rightarrow> bool" where
  "image_ok im \<longleftrightarrow> sys_stack (OSTaskIdleStk im) \<and> sys_stack (OSTaskStatStk im) \<and> sys_stack (OSTmrTaskStk im)"

lemma OSInit_ok:
  assumes "image_ok im"
  shows "ok (OSInit im s) initialised"
proof -
  define s0 where "s0 = OS_QInit (OS_MemInit (OS_FlagInit (OS_InitEventList (OS_InitTCBList (OS_InitRdyList
    (OS_InitMisc (OSInitHookBegin s)))))))"
  have none: "no_tasks s0" "no_objects s0" unfolding s0_def by (rule init_tables)+
  have stk: "sys_stack (OSTaskIdleStk im)" "sys_stack (OSTaskStatStk im)" "sys_stack (OSTmrTaskStk im)"
    using assms by (simp_all add: image_ok_def)
  obtain s1 where s1: "OS_InitTaskIdle im s0 = Some s1" "booting [0] [1..<22] {63} s1" "objects_kept s0 s1"
    using init_idle_ok [OF none stk(1)] by (auto simp: ok_iff)
  have u: "[1..<22] = 1 # [2..<22]" "[2..<22] = 2 # [3..<22]" by (simp_all add: upt_rec)
  note b1 = s1(2) [unfolded u(1)]
  obtain s2 where s2: "OS_InitTaskStat im s1 = Some s2" "booting [1, 0] [2..<22] {62, 63} s2" "objects_kept s1 s2"
    using init_next_ok [OF b1 _ _ stk(2), of 62 im "OS_TaskStat_fn im" 65534 "''uC/OS-II Stat''"]
    by (auto simp: ok_iff OS_InitTaskStat_def)
  note b2 = s2(2) [unfolded u(2)]
  have "booted_events [] s2"
    by (rule booted_kept [OF booted_none [OF none(2)] objects_kept_trans [OF s1(3) s2(3)]])
  from OSTmr_Init_ok [OF b2 this _ stk(3)] have "ok (OSTmr_Init im s2) initialised"
    by (rule ok_mono) (simp_all add: initialised_def)
  then show ?thesis using s1(1) s2(1) unfolding OSInit_def Let_def s0_def [symmetric] by simp
qed

end
