(* ===== verification/Os_Boot.thy ===== *)
theory Os_Boot
  imports Os_Init_Inv Os_Sched Os_Task_Props Os_Time_Props
begin

text \<open>
  From \<open>OSInit\<close> to a running system: the start of multitasking establishes the invariant of the whole
  kernel, and the program \<open>application/ucosii/demo/main.c\<close> runs its tasks in the order of their
  priorities.
\<close>

section \<open>The demo program\<close>

text \<open>
  The addresses of its functions and of its stacks of 256 words.  What the program prints is left out;
  a task is one turn of its loop, up to the delay at the end.
\<close>

record demo_app =
  task1 :: vptr
  task2 :: vptr
  task3 :: vptr
  start_task :: vptr
  task1_stk :: "64 word"
  task2_stk :: "64 word"
  task3_stk :: "64 word"
  start_stk :: "64 word"

abbreviation (input) stk_top :: "64 word \<Rightarrow> vptr" where "stk_top stk \<equiv> Addr (stk + 8 * (256 - 1))"

definition main_prog :: "os_image \<Rightarrow> demo_app \<Rightarrow> kst \<Rightarrow> kst option" where
  "main_prog im app s = do {
     s \<leftarrow> OSInit im s;
     (_, s) \<leftarrow> OSTaskCreate (prvTaskExitError im) (start_task app) NULL (stk_top (start_stk app)) 10 s;
     OSStart s
   }"

definition start_task_run :: "os_image \<Rightarrow> demo_app \<Rightarrow> kst \<Rightarrow> kst option" where
  "start_task_run im app s = do {
     (_, s) \<leftarrow> OSTaskCreate (prvTaskExitError im) (task1 app) NULL (stk_top (task1_stk app)) 13 s;
     (_, s) \<leftarrow> OSTaskCreate (prvTaskExitError im) (task2 app) NULL (stk_top (task2_stk app)) 12 s;
     (_, s) \<leftarrow> OSTaskCreate (prvTaskExitError im) (task3 app) NULL (stk_top (task3_stk app)) 11 s;
     (_, s) \<leftarrow> OSTaskSuspend 10 s;
     Some s
   }"

definition task1_turn :: "kst \<Rightarrow> kst option" where
  "task1_turn s = do { (_, s) \<leftarrow> OSTimeDlyHMSM 0 0 0 500 s; Some s }"

definition task2_turn :: "kst \<Rightarrow> kst option" where
  "task2_turn s = do { (_, s) \<leftarrow> OSTimeDlyHMSM 0 0 0 250 s; Some s }"

definition task3_turn :: "kst \<Rightarrow> kst option" where
  "task3_turn s = do { (_, s) \<leftarrow> OSTimeDlyHMSM 0 0 0 250 s; Some s }"

section \<open>Starting\<close>

lemma initialised_boots:
  assumes "initialised s"
  shows "ok (OSStart s) (\<lambda>s'. sinv s' \<and> settled s' \<and> OSRunning s' \<and> rdy s' = {61, 62, 63} \<and> unat (OSPrioCur s') = 61)"
proof -
  have "kinv0 s" "oinv s" "\<not> OSRunning s" "rdy s = {61, 62, 63}"
    using assms by (simp_all add: initialised_def booting_def)
  from OSStart_sinv [OF this(1-3)] this(4) show ?thesis by (auto elim!: ok_mono)
qed

text \<open>\<open>OSStart\<close> changes nothing but the running task and the running flag.\<close>

lemma OSStart_frame:
  assumes "OSStart s = Some s'"
  shows "ids s' = ids s" "objs s' = objs s" "OSTCBTbl s' = OSTCBTbl s" "waiters s' = waiters s"
    "OSIntNesting s' = OSIntNesting s" "OSLockNesting s' = OSLockNesting s" "tmr_data s' = tmr_data s"
  using assms
  by (auto simp: OSStart_def OS_SchedNew_def Let_def bind_eq_Some_conv ids_def objs_def ev_data_def stores_def clock_def
      waiters_def ev_bm_def tmr_data_def fun_eq_iff split: if_splits)

text \<open>The application's first task, created before multitasking starts.\<close>

lemma booting_create:
  assumes b: "booting ts (t # fs) ps s" and prio: "prio \<le> OS_LOWEST_PRIO" "unat prio \<notin> ps" and a: "256 \<le> unat a"
  shows "ok (OSTaskCreate ret pfn arg (Addr a) prio s) (\<lambda>(r, s'). r = OS_ERR_NONE
    \<and> booting (t # ts) fs (insert (unat prio) ps) s' \<and> owns s' t (unat prio) \<and> objects_kept s s')"
proof -
  have p: "unat prio < 64" using prio(1) by (simp add: word_le_nat_alt)
  have e: "OSIntNesting s = 0" "\<not> OSRunning s" "OSTCBPrioTbl s (unat prio) = NULL" and l: "lists_ok s ts (t # fs)"
    using b p prio by (simp_all add: booting_def)
  have t: "OSTCBFreeList s = TCBp t" "t < OS_N_TCBS" "t \<notin> the_tasks s"
    and ts: "set ts = the_tasks s" "dll TCBp (tcb_next s) (tcb_prev s) NULL (OSTCBList s) ts"
    using l by (auto simp: lists_ok_def)
  have head: "OSTCBList s = NULL \<or> (\<exists>h<OS_N_TCBS. h \<noteq> t \<and> OSTCBList s = TCBp h)"
    using ts t by (cases ts) (auto simp: the_tasks_def owns_def)
  have stk: "stack_arg (Addr a) NULL 0 0" using a by (simp add: stack_arg_def)
  obtain s' where r: "OSTaskCreateExt ret pfn arg (Addr a) prio 0 NULL 0 NULL 0 s = Some (OS_ERR_NONE, s')"
    and n: "new_task t prio s s'" and pv:
      "\<forall>u. u \<noteq> t \<longrightarrow> tcb_prev s' u = (if OSTCBList s = TCBp u then TCBp t else tcb_prev s u)"
      "tcb_prev s' t = NULL" "OSTCBFreeList s' = tcb_next s t" "OSTaskCtr s' = OSTaskCtr s + 1"
    using OSTaskCreateExt_steps [OF e(1) prio(1) e(3) stk t(1,2) head, of ret pfn arg 0 NULL] e(2) by force
  show ?thesis
    using r next_task [OF b n p prio(2) pv] new_task_owns [OF n t(2,3) p e(3)] new_task_objects [OF n]
    by (simp add: OSTaskCreate_Ext)
qed

lemma initialised_oinv:
  assumes "initialised s" "objects_kept s s'"
  shows "oinv s'"
proof (rule oinv_tasks [of s])
  fix e
  assume e: "e < OS_MAX_EVENTS" "ev_type s e = OS_EVENT_TYPE_MUTEX"
  have "e = 0 \<or> e = 1 \<or> ev_type s e = OS_EVENT_TYPE_UNUSED" using assms(1) e(1) by (simp add: initialised_def) linarith
  then show "mutex_ok s' e" using assms(1) e(2) by (auto simp: initialised_def)
qed (use assms in \<open>simp_all add: initialised_def objects_kept_def waiters_def\<close>)

text \<open>The stacks of the program.\<close>

definition app_ok :: "demo_app \<Rightarrow> bool" where
  "app_ok app \<longleftrightarrow> (\<forall>stk\<in>{task1_stk app, task2_stk app, task3_stk app, start_stk app}. unat stk + 2048 < 2 ^ 64)"

lemma app_stack:
  assumes "app_ok app" "stk \<in> {task1_stk app, task2_stk app, task3_stk app, start_stk app}"
  shows "256 \<le> unat (stk + 8 * (256 - 1))" "stack_arg (stk_top stk) NULL 0 0"
proof -
  have "unat stk + 2040 < 2 ^ 64" using assms by (auto simp: app_ok_def)
  then have "unat (stk + 2040) = unat stk + 2040"
    by (intro unat_add_lem [THEN iffD1, of stk 2040, simplified]) simp
  then show "256 \<le> unat (stk + 8 * (256 - 1))" by simp
  then show "stack_arg (stk_top stk) NULL 0 0" by (simp add: stack_arg_def)
qed

text \<open>The start of the program up to its first task.\<close>

lemma main_prog_ok:
  assumes im: "image_ok im" and app: "app_ok app"
  shows "ok (main_prog im app s) (\<lambda>s'. sinv s' \<and> settled s' \<and> OSRunning s' \<and> OSIntNesting s' = 0 \<and> OSLockNesting s' = 0
    \<and> lists_ok s' [3, 2, 1, 0] [4..<22] \<and> rdy s' = {10, 61, 62, 63} \<and> OSPrioCur s' = 10 \<and> owns s' 3 10
    \<and> timers_free s' \<and> OSTCBPrioTbl s' 11 = NULL \<and> OSTCBPrioTbl s' 12 = NULL \<and> OSTCBPrioTbl s' 13 = NULL)"
proof -
  obtain s1 where s1: "OSInit im s = Some s1" "initialised s1" using OSInit_ok [OF im, of s] by (auto simp: ok_iff)
  then have b1: "booting [2, 1, 0] (3 # [4..<22]) {61, 62, 63} s1" by (simp add: initialised_def upt_rec [of 3] del: upt_Suc)
  obtain s2 where s2: "OSTaskCreate (prvTaskExitError im) (start_task app) NULL (stk_top (start_stk app)) 10 s1
      = Some (OS_ERR_NONE, s2)" "booting [3, 2, 1, 0] [4..<22] {10, 61, 62, 63} s2" "owns s2 3 10" "objects_kept s1 s2"
    using booting_create [OF b1, of 10 "start_stk app + 8 * (256 - 1)" "prvTaskExitError im" "start_task app" NULL] app_stack(1) [OF app, of "start_stk app"]
    by (auto simp: ok_iff)
  have oinv: "oinv s2" by (rule initialised_oinv [OF s1(2) s2(4)])
  have bt: "kinv0 s2" "\<not> OSRunning s2" "rdy s2 = {10, 61, 62, 63}" "OSIntNesting s2 = 0" "OSLockNesting s2 = 0"
    "lists_ok s2 [3, 2, 1, 0] [4..<22]" "\<And>p. p < 64 \<Longrightarrow> OSTCBPrioTbl s2 p = NULL \<longleftrightarrow> p \<notin> {10, 61, 62, 63}"
    using s2(2) unfolding booting_def by blast+
  obtain s3 where s3: "OSStart s2 = Some s3" "sinv s3" "OSRunning s3" "rdy s3 = rdy s2" "settled s3"
    "unat (OSPrioCur s3) = Min (rdy s3)"
    using OSStart_sinv [OF bt(1) oinv bt(2)] by (auto simp: ok_iff)
  note f = OSStart_frame [OF s3(1)]
  have cur: "OSPrioCur s3 = 10" using s3(4,6) bt(3) by (simp add: word_unat_eq_iff)
  have tf: "timers_free s3"
    using s1(2) s2(4) f(7) timers_free_cong [of s3 s1] by (simp add: initialised_def objects_kept_def)
  have "lists_ok s3 [3, 2, 1, 0] [4..<22]" using bt(6) lists_ok_cong [OF f(1)] by simp
  moreover have "owns s3 3 10" using s2(3) owns_cong [OF f(1)] by simp
  moreover have "OSTCBPrioTbl s3 = OSTCBPrioTbl s2" by (rule ids_PrioTbl [OF f(1)])
  moreover have "OSTCBPrioTbl s2 11 = NULL" "OSTCBPrioTbl s2 12 = NULL" "OSTCBPrioTbl s2 13 = NULL"
    using bt(7) by simp_all
  ultimately show ?thesis
    using s1(1) s2(1) s3 f(5,6) bt cur tf by (simp add: main_prog_def)
qed

text \<open>A running task creates another one.\<close>

lemma running_create:
  assumes "sinv s" "lists_ok s ts (t # fs)" "OSRunning s" "OSIntNesting s = 0" "OSLockNesting s = 0" "prio \<le> OS_LOWEST_PRIO"
    "OSTCBPrioTbl s (unat prio) = NULL" "stack_arg (Addr a) NULL 0 0"
  shows "ok (OSTaskCreate ret pfn arg (Addr a) prio s) (\<lambda>(r, s'). sinv s' \<and> settled s' \<and> ctl s' = ctl s
    \<and> r = OS_ERR_NONE \<and> lists_ok s' (t # ts) fs \<and> task_added prio (stack_top a) NULL 0 0 NULL 0 t s s'
    \<and> unat (OSPrioCur s') = Min (insert (unat prio) (rdy s)))"
  unfolding OSTaskCreate_Ext
proof (rule ok_mono2 [OF OSTaskCreateExt_ok [OF assms(1-4,6-8)]], elim conjE, goal_cases)
  case (1 r s')
  then have "ctl s' = ctl s" "settled s'" "rdy s' = insert (unat prio) (rdy s)" by (simp_all add: task_added_def)
  moreover from this have "unat (OSPrioCur s') = Min (rdy s')" using assms(4,5) by (simp add: settled_def ctl_def)
  ultimately show ?case using 1 by simp
qed

lemma task_addedD:
  assumes "task_added prio ptos pbos idn sz pext opt t s s'"
  shows "owns s' t (unat prio)" "owns s u q \<Longrightarrow> owns s' u q" "rdy s' = insert (unat prio) (rdy s)"
    "OSTCBPrioTbl s' = (OSTCBPrioTbl s)(unat prio := TCBp t)" "OSTCBDly (tcbs s' t) = 0"
    "OSTCBStat (tcbs s' t) = OS_STAT_RDY"
  using assms by (simp_all add: task_added_def tcb_made_def)

lemma start_task_ok:
  assumes app: "app_ok app" and inv: "sinv s" and run: "OSRunning s" "OSIntNesting s = 0" "OSLockNesting s = 0"
    and l: "lists_ok s [3, 2, 1, 0] [4..<22]" and r: "rdy s = {10, 61, 62, 63}" and cur: "OSPrioCur s = 10" "owns s 3 10"
    and free: "OSTCBPrioTbl s 11 = NULL" "OSTCBPrioTbl s 12 = NULL" "OSTCBPrioTbl s 13 = NULL"
  shows "ok (start_task_run im app s) (\<lambda>s'. sinv s' \<and> settled s' \<and> ctl s' = ctl s \<and> lists_ok s' [6, 5, 4, 3, 2, 1, 0] [7..<22]
    \<and> rdy s' = {11, 12, 13, 61, 62, 63} \<and> OSPrioCur s' = 11 \<and> owns s' 3 10 \<and> owns s' 4 13 \<and> owns s' 5 12 \<and> owns s' 6 11
    \<and> suspended (tcbs s' 3))"
proof -
  have u: "[4..<22] = 4 # [5..<22]" "[5..<22] = 5 # [6..<22]" "[6..<22] = 6 # [7..<22]" by (simp_all add: upt_rec)
  let ?top = "\<lambda>stk. stk + 8 * (256 - 1) :: 64 word"
  have stk: "stack_arg (Addr (?top (task1_stk app))) NULL 0 0" "stack_arg (Addr (?top (task2_stk app))) NULL 0 0"
    "stack_arg (Addr (?top (task3_stk app))) NULL 0 0"
    using app_stack(2) [OF app] by simp_all
  obtain s1 where c1: "OSTaskCreate (prvTaskExitError im) (task1 app) NULL (Addr (?top (task1_stk app))) 13 s = Some (OS_ERR_NONE, s1)"
    and s1: "sinv s1" "ctl s1 = ctl s" "lists_ok s1 [4, 3, 2, 1, 0] [5..<22]" "unat (OSPrioCur s1) = Min (insert 13 (rdy s))"
      "task_added 13 (stack_top (?top (task1_stk app))) NULL 0 0 NULL 0 4 s s1"
    using running_create [OF inv l [unfolded u(1)] run(1,2,3) _ _ stk(1), of 13 "prvTaskExitError im" "task1 app" NULL] free
    by (auto simp: ok_iff simp del: upt_rec_numeral)
  note a1 = task_addedD [OF s1(5)]
  have n1: "OSRunning s1" "OSIntNesting s1 = 0" "OSLockNesting s1 = 0" using s1(2) run by (simp_all add: ctl_def)
  obtain s2 where c2: "OSTaskCreate (prvTaskExitError im) (task2 app) NULL (Addr (?top (task2_stk app))) 12 s1 = Some (OS_ERR_NONE, s2)"
    and s2: "sinv s2" "ctl s2 = ctl s" "lists_ok s2 [5, 4, 3, 2, 1, 0] [6..<22]" "unat (OSPrioCur s2) = Min (insert 12 (rdy s1))"
      "task_added 12 (stack_top (?top (task2_stk app))) NULL 0 0 NULL 0 5 s1 s2"
    using running_create [OF s1(1) s1(3) [unfolded u(2)] n1 _ _ stk(2), of 12 "prvTaskExitError im" "task2 app" NULL] free a1(4) s1(2)
    by (auto simp: ok_iff simp del: upt_rec_numeral)
  note a2 = task_addedD [OF s2(5)]
  have n2: "OSRunning s2" "OSIntNesting s2 = 0" "OSLockNesting s2 = 0" using s2(2) run by (simp_all add: ctl_def)
  obtain s3 where c3: "OSTaskCreate (prvTaskExitError im) (task3 app) NULL (Addr (?top (task3_stk app))) 11 s2 = Some (OS_ERR_NONE, s3)"
    and s3: "sinv s3" "ctl s3 = ctl s" "lists_ok s3 [6, 5, 4, 3, 2, 1, 0] [7..<22]" "unat (OSPrioCur s3) = Min (insert 11 (rdy s2))"
      "task_added 11 (stack_top (?top (task3_stk app))) NULL 0 0 NULL 0 6 s2 s3"
    using running_create [OF s2(1) s2(3) [unfolded u(3)] n2 _ _ stk(3), of 11 "prvTaskExitError im" "task3 app" NULL] free a1(4) a2(4) s2(2)
    by (auto simp: ok_iff simp del: upt_rec_numeral)
  note a3 = task_addedD [OF s3(5)]
  have n3: "OSRunning s3" "OSIntNesting s3 = 0" "OSLockNesting s3 = 0" using s3(2) run by (simp_all add: ctl_def)
  have own: "owns s3 3 10" "owns s3 4 13" "owns s3 5 12" "owns s3 6 11"
    using cur(2) a1(1,2) a2(1,2) a3(1,2) by simp_all
  have prio: "OSTCBPrio (OSTCBTbl s3 3) = 10" using owns_prio [OF own(1)] by (simp add: word_unat_eq_iff)
  have tp: "the_prio 10 s3 = 10" by (simp add: the_prio_def)
  have e3: "OSTCBPrioTbl s3 (unat (the_prio 10 s3)) = TCBp 3" "OSTCBPrio (OSTCBTbl s3 3) = the_prio 10 s3"
    "the_prio 10 s3 \<noteq> OS_TASK_IDLE_PRIO"
    using owns_PrioTbl [OF own(1)] prio by (simp_all add: tp)
  have lt: "(10 :: 8 word) < OS_LOWEST_PRIO \<or> (10 :: 8 word) = OS_PRIO_SELF" by simp
  have r3: "rdy s3 = {10, 11, 12, 13, 61, 62, 63}" using a1(3) a2(3) a3(3) r by auto
  obtain s4 where c4: "OSTaskSuspend 10 s3 = Some (OS_ERR_NONE, s4)" and s4: "sinv s4" "ctl s4 = ctl s3" "settled s3 \<longrightarrow> settled s4"
    and only: "only_task 3 suspend_tcb (rdy s3 - {10}) s3 s4"
    using OSTaskSuspend_task [OF s3(1) lt e3] by (auto simp: ok_iff tp)
  have ids: "ids s4 = ids s3" "rdy s4 = rdy s3 - {10}" "tcbs s4 3 = suspend_tcb (tcbs s3 3)" using only by (simp_all add: only_task_def)
  have st3: "settled s3" using s3(4) a3(3) by (simp add: settled_def)
  have cur4: "OSPrioCur s4 = 11"
  proof -
    have "unat (OSPrioCur s4) = Min (rdy s4)" using s4(2,3) st3 n3 by (simp add: settled_def ctl_def)
    also have "\<dots> = 11" unfolding ids(2) r3 by (rule Min_eqI) auto
    finally show ?thesis by (simp add: word_unat_eq_iff)
  qed
  have "suspended (tcbs s4 3)"
    unfolding ids(3) suspended_def by (simp add: bit.conj_disj_distrib2)
  moreover have "rdy s4 = {11, 12, 13, 61, 62, 63}" using ids(2) r3 by auto
  moreover have "owns s4 = owns s3" by (rule owns_cong [OF ids(1)])
  moreover have "lists_ok s4 [6, 5, 4, 3, 2, 1, 0] [7..<22]" using s3(3) lists_ok_cong [OF ids(1)] by simp
  ultimately show ?thesis
    using c1 c2 c3 c4 s4 s3(2) st3 own cur4 by (simp add: start_task_run_def)
qed

section \<open>The turns of the tasks\<close>

lemma half_second: "hmsm_ticks 0 0 0 500 = 25" and quarter_second: "hmsm_ticks 0 0 0 250 = 13"
  by (code_simp)+

lemma turn_ok:
  assumes inv: "sinv s" and nest: "OSIntNesting s = 0" "OSLockNesting s = 0" and cur: "OSPrioCur s = p" "p \<noteq> OS_TASK_IDLE_PRIO"
    and ms: "ms \<le> 999" "ms \<noteq> 0" "hmsm_ticks 0 0 0 ms = n" "0 < n" and own: "owns s t (unat p)"
  shows "ok (OSTimeDlyHMSM 0 0 0 ms s) (\<lambda>(_, s'). sinv s' \<and> ctl s' = ctl s \<and> ids s' = ids s \<and> rdy s' = rdy s - {unat p}
    \<and> unat (OSPrioCur s') = Min (rdy s') \<and> tcbs s' = (tcbs s)(t := (tcbs s t)\<lparr>OSTCBDly := n\<rparr>))"
proof -
  have idle: "may_block s" using cur by (simp add: may_block_def)
  have t: "cur_ix s = t" using owns_unique [OF sinv_cur(2) [OF inv]] own cur(1) by simp
  have "\<not> ms > 999" using ms(1) by simp
  then have "OSTimeDlyHMSM 0 0 0 ms s = do { s \<leftarrow> OSTimeDly n s; Some (OS_ERR_NONE, s) }"
    using nest ms by (simp add: OSTimeDlyHMSM_def)
  moreover have "ok (OSTimeDly n s) (\<lambda>s'. sinv s' \<and> ctl s' = ctl s \<and> asleep n s s')"
    by (rule ok_mono [OF OSTimeDly_ok [OF inv idle, of n]]) (use nest ms in auto)
  ultimately show ?thesis using cur(1) t by (auto simp: ok_iff asleep_def)
qed

section \<open>Properties\<close>

text \<open>
  C36 (OSInit_boots): whatever the memory held before, \<open>OSInit\<close> followed by \<open>OSStart\<close> ends without undefined
  behaviour in a state where the invariant of the whole kernel holds: the three tasks of the system are
  ready, linked both ways and the only ones, the other 19 control blocks are free, nobody waits, all
  timers are free, and the timer task, the most urgent one, runs.
\<close>

theorem OSInit_boots:
  assumes "image_ok im"
  shows "ok (do { s \<leftarrow> OSInit im s; OSStart s }) (\<lambda>s'. sinv s' \<and> settled s' \<and> OSRunning s'
    \<and> lists_ok s' [2, 1, 0] [3..<OS_N_TCBS] \<and> rdy s' = {61, 62, 63} \<and> OSPrioCur s' = OS_TASK_TMR_PRIO
    \<and> (\<forall>e<OS_MAX_EVENTS. waiters s' e = {}) \<and> timers_free s')"
proof -
  obtain s1 where s1: "OSInit im s = Some s1" "initialised s1" using OSInit_ok [OF assms, of s] by (auto simp: ok_iff)
  obtain s2 where s2: "OSStart s1 = Some s2" "sinv s2" "settled s2" "OSRunning s2" "rdy s2 = {61, 62, 63}"
    "unat (OSPrioCur s2) = 61"
    using initialised_boots [OF s1(2)] by (auto simp: ok_iff)
  note f = OSStart_frame [OF s2(1)]
  have "lists_ok s2 [2, 1, 0] [3..<OS_N_TCBS]" "\<forall>e<OS_MAX_EVENTS. waiters s2 e = {}" "timers_free s2"
    using s1(2) f lists_ok_cong [OF f(1)] timers_free_cong [OF f(7)] unfolding initialised_def booting_def by simp_all
  moreover have "OSPrioCur s2 = OS_TASK_TMR_PRIO" using s2(6) by (simp add: word_unat_eq_iff)
  ultimately show ?thesis using s1 s2 by simp
qed

text \<open>An image: code below 0x1000, the stacks of the system and of the program in memory above.\<close>

definition demo_image :: os_image where
  "demo_image = \<lparr>prvTaskExitError = Addr 0x100, OS_TaskIdle_fn = Addr 0x200, OS_TaskStat_fn = Addr 0x300,
     OSTmr_Task_fn = Addr 0x400, OSTaskIdleStk = 0x10000, OSTaskStatStk = 0x20000, OSTmrTaskStk = 0x30000\<rparr>"

definition demo_program :: demo_app where
  "demo_program = \<lparr>task1 = Addr 0x500, task2 = Addr 0x600, task3 = Addr 0x700, start_task = Addr 0x800,
     task1_stk = 0x40000, task2_stk = 0x50000, task3_stk = 0x60000, start_stk = 0x70000\<rparr>"

lemma demo_image_ok: "image_ok demo_image"
  by (simp add: image_ok_def demo_image_def sys_stack_def region_ok_def)

lemma demo_program_ok: "app_ok demo_program"
  by (simp add: app_ok_def demo_program_def)

lemma OSInit_boots_witness:
  "ok (do { s \<leftarrow> OSInit demo_image demo; OSStart s }) (\<lambda>s'. sinv s' \<and> OSPrioCur s' = 61 \<and> rdy s' = {61, 62, 63})"
  using OSInit_boots [OF demo_image_ok, of demo] by (auto elim!: ok_mono)

text \<open>
  C37 (main_runs_by_priority): the demo program.  Its main function starts the task of priority 10, which
  creates the tasks of priorities 13, 12 and 11 without losing the processor and suspends itself; then
  they run in the order of their priorities, each up to its delay of 13 or 25 ticks, and the timer task
  runs when all of them sleep.
\<close>

theorem main_runs_by_priority:
  assumes im: "image_ok im" and app: "app_ok app"
  shows "ok (do { s1 \<leftarrow> main_prog im app s; s2 \<leftarrow> start_task_run im app s1;
                  s3 \<leftarrow> task3_turn s2; s4 \<leftarrow> task2_turn s3; s5 \<leftarrow> task1_turn s4; Some (s1, s2, s3, s4, s5) })
    (\<lambda>(s1, s2, s3, s4, s5). map OSPrioCur [s1, s2, s3, s4, s5] = [10, 11, 12, 13, OS_TASK_TMR_PRIO]
      \<and> sinv s5 \<and> settled s5 \<and> rdy s5 = {61, 62, 63} \<and> suspended (tcbs s5 3)
      \<and> OSTCBDly (tcbs s5 6) = 13 \<and> OSTCBDly (tcbs s5 5) = 13 \<and> OSTCBDly (tcbs s5 4) = 25)"
proof -
  obtain s1 where r1: "main_prog im app s = Some s1" and s1: "sinv s1" "OSRunning s1" "OSIntNesting s1 = 0"
    "OSLockNesting s1 = 0" "lists_ok s1 [3, 2, 1, 0] [4..<22]" "rdy s1 = {10, 61, 62, 63}" "OSPrioCur s1 = 10" "owns s1 3 10"
    "OSTCBPrioTbl s1 11 = NULL" "OSTCBPrioTbl s1 12 = NULL" "OSTCBPrioTbl s1 13 = NULL"
    using main_prog_ok [OF im app, of s] unfolding ok_iff by blast
  obtain s2 where r2: "start_task_run im app s1 = Some s2" and s2: "sinv s2" "ctl s2 = ctl s1"
    "rdy s2 = {11, 12, 13, 61, 62, 63}" "OSPrioCur s2 = 11" "owns s2 4 13" "owns s2 5 12" "owns s2 6 11" "suspended (tcbs s2 3)"
    using start_task_ok [OF app s1, of im] unfolding ok_iff by blast
  have n: "OSIntNesting s' = 0" "OSLockNesting s' = 0" if "ctl s' = ctl s1" for s'
    using that s1(3,4) by (simp_all add: ctl_def)
  have p: "unat (11 :: 8 word) = 11" "unat (12 :: 8 word) = 12" "unat (13 :: 8 word) = 13" by simp_all
  obtain e3 s3 where r3: "OSTimeDlyHMSM 0 0 0 250 s2 = Some (e3, s3)" and s3: "sinv s3" "ctl s3 = ctl s2" "ids s3 = ids s2"
    "rdy s3 = rdy s2 - {11}" "unat (OSPrioCur s3) = Min (rdy s3)" "tcbs s3 = (tcbs s2)(6 := (tcbs s2 6)\<lparr>OSTCBDly := 13\<rparr>)"
    using turn_ok [OF s2(1) n [OF s2(2)] s2(4) _ _ _ quarter_second, of 6] s2(7) by (auto simp: ok_iff)
  have q3: "rdy s3 = {12, 13, 61, 62, 63}" using s3(4) s2(3) by auto
  have c3: "OSPrioCur s3 = 12" using s3(5) q3 by (simp add: word_unat_eq_iff)
  have k3: "ctl s3 = ctl s1" using s3(2) s2(2) by simp
  obtain e4 s4 where r4: "OSTimeDlyHMSM 0 0 0 250 s3 = Some (e4, s4)" and s4: "sinv s4" "ctl s4 = ctl s3" "ids s4 = ids s3"
    "rdy s4 = rdy s3 - {12}" "unat (OSPrioCur s4) = Min (rdy s4)" "tcbs s4 = (tcbs s3)(5 := (tcbs s3 5)\<lparr>OSTCBDly := 13\<rparr>)"
    using turn_ok [OF s3(1) n [OF k3] c3 _ _ _ quarter_second, of 5] s2(6) owns_cong [OF s3(3)] by (auto simp: ok_iff)
  have q4: "rdy s4 = {13, 61, 62, 63}" using s4(4) q3 by auto
  have c4: "OSPrioCur s4 = 13" using s4(5) q4 by (simp add: word_unat_eq_iff)
  have k4: "ctl s4 = ctl s1" using s4(2) k3 by simp
  obtain e5 s5 where r5: "OSTimeDlyHMSM 0 0 0 500 s4 = Some (e5, s5)" and s5: "sinv s5" "ctl s5 = ctl s4" "ids s5 = ids s4"
    "rdy s5 = rdy s4 - {13}" "unat (OSPrioCur s5) = Min (rdy s5)" "tcbs s5 = (tcbs s4)(4 := (tcbs s4 4)\<lparr>OSTCBDly := 25\<rparr>)"
    using turn_ok [OF s4(1) n [OF k4] c4 _ _ _ half_second, of 4] s2(5) owns_cong [OF s3(3)] owns_cong [OF s4(3)]
    by (auto simp: ok_iff)
  have q5: "rdy s5 = {61, 62, 63}" using s5(4) q4 by auto
  have c5: "OSPrioCur s5 = 61" using s5(5) q5 by (simp add: word_unat_eq_iff)
  have "settled s5" using s5(5) by (simp add: settled_def)
  then show ?thesis
    using r1 r2 r3 r4 r5 s1(7) s2(4,8) c3 c4 c5 s5(1) q5 s3(6) s4(6) s5(6)
    by (simp add: task1_turn_def task2_turn_def task3_turn_def)
qed

lemma main_runs_by_priority_witness:
  "ok (do { s1 \<leftarrow> main_prog demo_image demo_program demo; start_task_run demo_image demo_program s1 }) (\<lambda>s2. OSPrioCur s2 = 11)"
  using main_runs_by_priority [OF demo_image_ok demo_program_ok, of demo]
  by (auto simp: ok_iff bind_eq_Some_conv)

end
