(* ===== verification/Os_Multi_Inv.thy ===== *)
theory Os_Multi_Inv
  imports Os_Multi Os_Task_Del Os_Sem Os_Mbox
begin

text \<open>
  \<open>OSEventPendMulti\<close> takes one item from every event that has one, or waits on all of them; both keep the
  invariant of the kernel.
\<close>

section \<open>Taking what is there\<close>

text \<open>The three kinds of events that one can wait for together.\<close>

definition pollable :: "kst \<Rightarrow> nat \<Rightarrow> bool" where
  "pollable s e \<longleftrightarrow> e < OS_MAX_EVENTS \<and> ev_type s e \<in> {OS_EVENT_TYPE_SEM, OS_EVENT_TYPE_MBOX, OS_EVENT_TYPE_Q}"

lemma multi_types_ok:
  assumes "\<forall>e\<in>set es. e < OS_MAX_EVENTS"
  shows "multi_types (map EVp es) s = Some (\<forall>e\<in>set es. pollable s e)"
  using assms
proof (induction es)
  case (Cons e es)
  then show ?case by (cases "ev_type s e") (auto simp: pollable_def)
qed simp

text \<open>The item of an event and what is left when it is taken: the reference for the loop of the call.\<close>

definition ev_front :: "kst \<Rightarrow> nat \<Rightarrow> vptr" where
  "ev_front s e = (case ev_type s e of
     OS_EVENT_TYPE_MBOX \<Rightarrow> ev_ptr s e
   | OS_EVENT_TYPE_Q \<Rightarrow> fst (ring_take (ring_of s (q_ix s e)))
   | _ \<Rightarrow> NULL)"

definition ev_take :: "nat \<Rightarrow> kst \<Rightarrow> kst" where
  "ev_take e s = (case ev_type s e of
     OS_EVENT_TYPE_SEM \<Rightarrow> upd_ev e (\<lambda>c. c\<lparr>OSEventCnt := OSEventCnt c - 1\<rparr>) s
   | OS_EVENT_TYPE_MBOX \<Rightarrow> upd_ev e (\<lambda>c. c\<lparr>OSEventPtr := NULL\<rparr>) s
   | OS_EVENT_TYPE_Q \<Rightarrow> set_ring (q_ix s e) (snd (ring_take (ring_of s (q_ix s e)))) s
   | _ \<Rightarrow> s)"

definition ev_stat :: "kst \<Rightarrow> nat \<Rightarrow> 8 word" where
  "ev_stat s e = (case ev_type s e of
     OS_EVENT_TYPE_SEM \<Rightarrow> OS_STAT_SEM | OS_EVENT_TYPE_MBOX \<Rightarrow> OS_STAT_MBOX | _ \<Rightarrow> OS_STAT_Q)"

lemma multi_poll_step:
  assumes inv: "sinv s" and e: "pollable s e"
  shows "multi_poll (EVp e # ps) rdys msgs stat s =
    (if avail s e then multi_poll ps (rdys @ [EVp e]) (msgs @ [ev_front s e]) stat (ev_take e s)
     else multi_poll ps rdys msgs (stat OR ev_stat s e) s)"
proof -
  have lt: "e < OS_MAX_EVENTS" using e by (simp add: pollable_def)
  consider "ev_type s e = OS_EVENT_TYPE_SEM" | "ev_type s e = OS_EVENT_TYPE_MBOX" | "ev_type s e = OS_EVENT_TYPE_Q"
    using e by (auto simp: pollable_def)
  then show ?thesis
  proof cases
    case 3
    note q = q_of_event [OF inv lt 3]
    show ?thesis
      using lt 3 q(1,2,4,5) by (simp add: ev_front_def ev_take_def ev_stat_def split_beta)
  qed (use lt in \<open>simp_all add: avail_def word_gt_0 ev_front_def ev_take_def ev_stat_def\<close>)
qed

text \<open>Taking from one event leaves the others as they are.\<close>

lemma q_ix_differ:
  assumes inv: "sinv s" and e: "e < OS_MAX_EVENTS" "ev_type s e = OS_EVENT_TYPE_Q"
    and e': "e' < OS_MAX_EVENTS" "ev_type s e' = OS_EVENT_TYPE_Q" and "e' \<noteq> e"
  shows "q_ix s e' \<noteq> q_ix s e"
  using oinvD(2) [OF sinvD(4) [OF inv]] assms q_of_event(1) [OF inv e] q_of_event(1) [OF inv e']
  by (metis q_pool_ok_def)

lemma ev_view_cong:
  assumes T: "OSEventTbl_ecb s' e = OSEventTbl_ecb s e"
    and r: "ev_type s e = OS_EVENT_TYPE_Q \<Longrightarrow> ring_of s' (q_ix s e) = ring_of s (q_ix s e)"
    and p: "ev_type s e = OS_EVENT_TYPE_Q \<Longrightarrow> ev_ptr s e = Qp (q_ix s e)"
  shows "avail s' e = avail s e" "ev_front s' e = ev_front s e"
proof -
  have q: "q_ix s' e = q_ix s e" using T by (simp add: q_ix_def)
  show "ev_front s' e = ev_front s e" using T r q by (cases "ev_type s e") (simp_all add: ev_front_def)
  show "avail s' e = avail s e"
  proof (cases "ev_type s e = OS_EVENT_TYPE_Q")
    case True
    have "OSQTbl s' (q_ix s e) = OSQTbl s (q_ix s e)" using r [OF True] by (simp add: ring_of_def)
    then show ?thesis using True T p by (simp add: avail_def)
  qed (use T in \<open>cases "ev_type s e"; simp add: avail_def\<close>)
qed

lemma ev_take_facts:
  assumes inv: "sinv s" and e: "pollable s e" and a: "avail s e"
  shows "kept s (ev_take e s)" "rdy (ev_take e s) = rdy s" "waiters (ev_take e s) = waiters s" "cur (ev_take e s) = cur s"
    "ids (ev_take e s) = ids s" "OSTCBTbl (ev_take e s) = OSTCBTbl s" "ev_type (ev_take e s) e' = ev_type s e'"
    "e' \<noteq> e \<Longrightarrow> e' < OS_MAX_EVENTS \<Longrightarrow> avail (ev_take e s) e' = avail s e'"
    "e' \<noteq> e \<Longrightarrow> e' < OS_MAX_EVENTS \<Longrightarrow> ev_front (ev_take e s) e' = ev_front s e'"
proof -
  have lt: "e < OS_MAX_EVENTS" using e by (simp add: pollable_def)
  consider (sem) "ev_type s e = OS_EVENT_TYPE_SEM" | (mbox) "ev_type s e = OS_EVENT_TYPE_MBOX" | (q) "ev_type s e = OS_EVENT_TYPE_Q"
    using e by (auto simp: pollable_def)
  note k = this
  have w: "waiters s e = {}" by (rule avail_waiters [OF sinvD(4) [OF inv] lt a])
  show 1: "rdy (ev_take e s) = rdy s" "waiters (ev_take e s) = waiters s" "cur (ev_take e s) = cur s"
    "ids (ev_take e s) = ids s" "OSTCBTbl (ev_take e s) = OSTCBTbl s" "ev_type (ev_take e s) e' = ev_type s e'" for e'
    by (cases "ev_type s e"; auto simp: ev_take_def)+
  have c: "ctl (ev_take e s) = ctl s" by (cases "ev_type s e") (simp_all add: ev_take_def)
  have "sinv (ev_take e s)"
    using k
  proof cases
    case sem
    then show ?thesis using sem_count_sinv [OF inv lt sem, of "\<lambda>c. c - 1"] w by (simp add: ev_take_def)
  next
    case mbox
    then show ?thesis using mbox_msg_sinv [OF inv lt mbox, of NULL] by (simp add: ev_take_def)
  next
    case q
    note f = q_of_event [OF inv lt q]
    have "q_msgs s e \<noteq> []" using a f(4) by simp
    then show ?thesis
      using set_ring_sinv [OF inv lt q] rb.take [OF f(3)] w q by (simp add: ev_take_def q_msgs_def)
  qed
  then show "kept s (ev_take e s)" using c settled_cong [OF c 1(3,1)] by simp
  show "avail (ev_take e s) e' = avail s e'" "ev_front (ev_take e s) e' = ev_front s e'" if d: "e' \<noteq> e" "e' < OS_MAX_EVENTS"
  proof -
    have "OSEventTbl_ecb (ev_take e s) e' = OSEventTbl_ecb s e'"
      using d by (cases "ev_type s e") (simp_all add: ev_take_def)
    moreover have "ring_of (ev_take e s) (q_ix s e') = ring_of s (q_ix s e')" if "ev_type s e' = OS_EVENT_TYPE_Q"
    proof (cases "ev_type s e = OS_EVENT_TYPE_Q")
      case True
      then show ?thesis
        using q_ix_differ [OF inv lt True d(2) that d(1)]
        by (simp add: ev_take_def ring_of_def set_ring_def ring_take_def Let_def split_beta)
    next
      case False
      then show ?thesis by (cases "ev_type s e") (simp_all add: ev_take_def ring_of_def upd_ev_def)
    qed
    ultimately show "avail (ev_take e s) e' = avail s e'" "ev_front (ev_take e s) e' = ev_front s e'"
      using ev_view_cong [of "ev_take e s" e' s] q_of_event(1) [OF inv d(2)] by blast+
  qed
qed

text \<open>The loop as a whole: one item from each event that has one, in the order of the array.\<close>

lemma ev_take_all:
  assumes "sinv s" "distinct es" "\<forall>e\<in>set es. pollable s e \<and> avail s e"
  shows "kept s (fold ev_take es s) \<and> rdy (fold ev_take es s) = rdy s \<and> waiters (fold ev_take es s) = waiters s
    \<and> ids (fold ev_take es s) = ids s \<and> cur (fold ev_take es s) = cur s"
  using assms
proof (induction es arbitrary: s)
  case (Cons e es)
  note t = ev_take_facts [OF Cons.prems(1), of e]
  have e: "pollable s e" "avail s e" using Cons.prems(3) by simp_all
  have ne: "e' \<noteq> e" "e' < OS_MAX_EVENTS" if "e' \<in> set es" for e'
    using Cons.prems(2,3) that by (auto simp: pollable_def)
  have "\<forall>e'\<in>set es. pollable (ev_take e s) e' \<and> avail (ev_take e s) e'"
    using Cons.prems(3) t(7) [OF e] t(8) [OF e ne] by (simp add: pollable_def)
  then show ?case using Cons.IH [of "ev_take e s"] Cons.prems(2) t(1-5) [OF e] by simp
qed simp

lemma multi_poll_ok:
  assumes "sinv s" "distinct es" "\<forall>e\<in>set es. pollable s e"
  shows "\<exists>st. st AND OS_STAT_SUSPEND = stat AND OS_STAT_SUSPEND \<and> multi_poll (map EVp es) rdys msgs stat s =
    Some ((True, rdys @ map EVp (filter (avail s) es), msgs @ map (ev_front s) (filter (avail s) es), st),
      fold ev_take (filter (avail s) es) s)"
  using assms
proof (induction es arbitrary: s rdys msgs stat)
  case (Cons e es)
  have e: "pollable s e" using Cons.prems(3) by simp
  note step = multi_poll_step [OF Cons.prems(1) e, of "map EVp es" rdys msgs stat]
  show ?case
  proof (cases "avail s e")
    case True
    let ?s = "ev_take e s"
    note t = ev_take_facts [OF Cons.prems(1) e True]
    have ne: "e' \<noteq> e" "e' < OS_MAX_EVENTS" if "e' \<in> set es" for e'
      using Cons.prems(2,3) that by (auto simp: pollable_def)
    have same: "filter (avail ?s) es = filter (avail s) es" "map (ev_front ?s) (filter (avail s) es) = map (ev_front s) (filter (avail s) es)"
      using t(8,9) [OF ne] by (auto intro!: filter_cong map_cong)
    have "\<forall>e'\<in>set es. pollable ?s e'" using Cons.prems(3) t(7) by (simp add: pollable_def)
    then obtain st where "st AND OS_STAT_SUSPEND = stat AND OS_STAT_SUSPEND" "multi_poll (map EVp es) (rdys @ [EVp e]) (msgs @ [ev_front s e]) stat ?s =
      Some ((True, (rdys @ [EVp e]) @ map EVp (filter (avail ?s) es),
        (msgs @ [ev_front s e]) @ map (ev_front ?s) (filter (avail ?s) es), st), fold ev_take (filter (avail ?s) es) ?s)"
      using Cons.IH [where s = ?s and rdys = "rdys @ [EVp e]" and msgs = "msgs @ [ev_front s e]" and stat = stat] Cons.prems(2) t(1) by auto
    then show ?thesis using step True same by simp
  next
    case False
    have "(stat OR ev_stat s e) AND OS_STAT_SUSPEND = stat AND OS_STAT_SUSPEND"
      by (cases "ev_type s e") (simp_all add: ev_stat_def bit.conj_disj_distrib2)
    then show ?thesis using False step Cons.IH [where s = s and rdys = rdys and msgs = msgs and stat = "stat OR ev_stat s e"] Cons.prems by simp
  qed
qed simp

section \<open>Waiting for all of them\<close>

text \<open>The wait lists grow where nothing can be taken.\<close>

lemma oinv_grow:
  assumes inv: "oinv s" and same: "ids s' = ids s" "objs s' = objs s"
    and w: "\<And>e. e < OS_MAX_EVENTS \<Longrightarrow> waiters s' e \<noteq> waiters s e \<Longrightarrow> \<not> avail s e \<and> ev_type s e \<noteq> OS_EVENT_TYPE_UNUSED"
  shows "oinv s'"
proof -
  have d: "ev_data s' e = ev_data s e" "OSQTbl s' = OSQTbl s" for e
    using same(2) by (simp_all add: objs_def stores_def)
  have "obj_ok s' e" if e: "e < OS_MAX_EVENTS" for e
  proof (cases "waiters s' e = waiters s e")
    case True
    show ?thesis
      by (rule obj_ok_shrink [OF oinvD(4) [OF inv e] d(1) same(1)]) (simp_all add: True d(2))
  next
    case False
    have o: "obj_ok s e" by (rule oinvD(4) [OF inv e])
    show ?thesis
      unfolding obj_ok_def avail_cong [OF d] mutex_ok_cong [OF d(1) same(1)] ev_data_fields [OF d(1)] d(2)
      using w [OF e False] o [unfolded obj_ok_def] by blast
  qed
  moreover have "OSEventFreeList s' = OSEventFreeList s" "OSQFreeList s' = OSQFreeList s" "OSTmrSemSignal s' = OSTmrSemSignal s"
    using same(2) by (simp_all add: objs_def stores_def clock_def)
  ultimately show ?thesis
    using inv
    by (simp add: oinv_def ev_pool_ok_def q_pool_ok_def pcps_differ_def unused_events_def used_qs_def
        ev_data_fields [OF d(1)] d(2))
qed

lemma ev_add_all_ok:
  assumes "kinv0 s" "owns s t p" "\<forall>e\<in>set es. e < OS_MAX_EVENTS"
  shows "ok (ev_add_all (map EVp es) (OSTCBY (OSTCBTbl s t)) (OSTCBBitY (OSTCBTbl s t)) (OSTCBBitX (OSTCBTbl s t)) s)
    (\<lambda>s'. kinv0 s' \<and> frames s s' \<and> cur s' = cur s \<and> rdy_bm s' = rdy_bm s \<and> OSTCBTbl s' = OSTCBTbl s
      \<and> waiters s' = (\<lambda>e. if e \<in> set es then insert p (waiters s e) else waiters s e))"
  using assms
proof (induction es arbitrary: s)
  case (Cons e es)
  let ?c = "OSTCBTbl s t"
  define s1 where "s1 = set_ev_bm e (bm_add (OSTCBPrio ?c) (ev_bm s e)) s"
  have e: "e < OS_MAX_EVENTS" "\<forall>e\<in>set es. e < OS_MAX_EVENTS" using Cons.prems(3) by simp_all
  have add: "ev_add e (OSTCBY ?c) (OSTCBBitY ?c) (OSTCBBitX ?c) s = Some s1"
    unfolding s1_def by (rule ev_add_own [OF owns_bits [OF Cons.prems(2)]])
  have k0: "kinv0 s1" unfolding s1_def by (rule kinv0_wait [OF Cons.prems(1,2) e(1)])
  have v: "frames s s1" "cur s1 = cur s" "rdy_bm s1 = rdy_bm s" "OSTCBTbl s1 = OSTCBTbl s"
    "waiters s1 = (waiters s)(e := insert p (waiters s e))"
    using members_own(2) [OF Cons.prems(2), of "ev_bm s e"] by (simp_all add: s1_def frames_def waiters_def)
  have own: "owns s1 t p" using Cons.prems(2) owns_frames [OF v(1)] by simp
  have w: "(\<lambda>x. if x \<in> set es then insert p (((waiters s)(e := insert p (waiters s e))) x)
        else ((waiters s)(e := insert p (waiters s e))) x)
      = (\<lambda>x. if x \<in> set (e # es) then insert p (waiters s x) else waiters s x)"
    by (simp add: fun_eq_iff)
  have "ok (ev_add_all (map EVp es) (OSTCBY ?c) (OSTCBBitY ?c) (OSTCBBitX ?c) s1)
    (\<lambda>s'. kinv0 s' \<and> frames s s' \<and> cur s' = cur s \<and> rdy_bm s' = rdy_bm s \<and> OSTCBTbl s' = OSTCBTbl s
      \<and> waiters s' = (\<lambda>x. if x \<in> set (e # es) then insert p (waiters s x) else waiters s x))"
    using Cons.IH [OF k0 own e(2)] frames_trans [OF v(1)]
    unfolding v w by (auto elim!: ok_mono simp del: list.set)
  then show ?case using e(1) add by simp
qed simp

text \<open>What it means to wait for the events \<open>es\<close>.\<close>

definition blocked_multi :: "nat list \<Rightarrow> 32 word \<Rightarrow> kst \<Rightarrow> kst \<Rightarrow> bool" where
  "blocked_multi es timeout s s' \<longleftrightarrow> objs s' = objs s \<and> ids s' = ids s
     \<and> rdy s' = rdy s - {unat (OSPrioCur s)}
     \<and> waiters s' = (\<lambda>e. if e \<in> set es then insert (unat (OSPrioCur s)) (waiters s e) else waiters s e)
     \<and> unat (OSPrioCur s') = Min (rdy s')
     \<and> OSTCBStatPend (OSTCBTbl s' (cur_ix s)) = OS_STAT_PEND_OK \<and> OSTCBDly (OSTCBTbl s' (cur_ix s)) = timeout
     \<and> OSTCBEventMultiPtr (OSTCBTbl s' (cur_ix s)) = Some (map EVp es)
     \<and> suspended (OSTCBTbl s' (cur_ix s)) = suspended (OSTCBTbl s (cur_ix s))"

lemma multi_wait_ok:
  assumes inv: "sinv s" and idle: "may_block s" and es: "\<forall>e\<in>set es. pollable s e \<and> \<not> avail s e"
    and free: "OSIntNesting s = 0" "OSLockNesting s = 0" and stat: "stat AND OS_STAT_SUSPEND = 0"
  shows "ok (do {
       t \<leftarrow> tcb_at (OSTCBCur s);
       let s = upd_tcb t (\<lambda>c. c\<lparr>OSTCBStat := OSTCBStat c OR stat OR OS_STAT_MULTI,
         OSTCBStatPend := OS_STAT_PEND_OK, OSTCBDly := timeout\<rparr>) s;
       s \<leftarrow> OS_EventTaskWaitMulti (map EVp es) s;
       OS_Sched s })
    (\<lambda>s'. sinv s' \<and> ctl s' = ctl s \<and> settled s' \<and> blocked_multi es timeout s s')"
proof -
  let ?t = "cur_ix s" and ?p = "unat (OSPrioCur s)"
  define f where "f = (\<lambda>c :: os_tcb. c\<lparr>OSTCBStat := OSTCBStat c OR stat OR OS_STAT_MULTI,
         OSTCBStatPend := OS_STAT_PEND_OK, OSTCBDly := timeout,
         OSTCBEventMultiPtr := Some (map EVp es), OSTCBEventMultiRdy := NULL\<rparr>)"
  define s1 where "s1 = upd_tcb ?t f s"
  note own = sinv_cur(2) [OF inv]
  have lt: "\<forall>e\<in>set es. e < OS_MAX_EVENTS" using es by (simp add: pollable_def)
  have ids1: "ids s1 = ids s" unfolding s1_def by (rule ids_upd_tcb) (simp_all add: f_def)
  have k1: "kinv0 s1"
  proof (rule kinv0_intro [OF sinvD(2) [OF inv] ids1])
    show "multi_ok (OSTCBEventMultiPtr (OSTCBTbl s1 u))" if "u < OS_N_TCBS" for u
      using sinvD(2) [OF inv] that lt by (auto simp: s1_def f_def kinv0_def multi_ok_def list_all_iff)
  qed (use sinvD(2) [OF inv] in \<open>auto simp: kinv0_def s1_def\<close>)
  have w1: "waiters s1 = waiters s" by (simp add: s1_def)
  have own1: "owns s1 ?t ?p" using own owns_cong [OF ids1] by simp
  have prio: "OSTCBPrio (OSTCBTbl s1 ?t) = OSPrioCur s"
    using owns_prio [OF own1] by (simp add: word_unat_eq_iff)
  obtain s2 where r2: "ev_add_all (map EVp es) (OSTCBY (OSTCBTbl s1 ?t)) (OSTCBBitY (OSTCBTbl s1 ?t)) (OSTCBBitX (OSTCBTbl s1 ?t)) s1 = Some s2"
    and s2: "kinv0 s2" "frames s1 s2" "cur s2 = cur s1" "rdy_bm s2 = rdy_bm s1" "OSTCBTbl s2 = OSTCBTbl s1"
      "waiters s2 = (\<lambda>e. if e \<in> set es then insert ?p (waiters s e) else waiters s e)"
    using ev_add_all_ok [OF k1 own1 lt, unfolded w1] by (auto simp: ok_iff)
  have own2: "owns s2 ?t ?p" using own1 owns_frames [OF s2(2)] by simp
  have p63: "?p \<noteq> 63" using idle by (simp add: may_block_def word_unat_eq_iff)
  define s3 where "s3 = set_rdy_bm (bm_take_out (OSPrioCur s) (rdy_bm s2)) s2"
  have r3: "rdy_del (OSTCBY (OSTCBTbl s1 ?t)) (OSTCBBitY (OSTCBTbl s1 ?t)) (OSTCBBitX (OSTCBTbl s1 ?t)) s2 = Some s3"
    using rdy_del_own [OF owns_bits [OF own1], of s2] by (simp add: s3_def prio)
  have k3: "kinv0 s3" using kinv0_unready [OF s2(1) own2 p63] prio by (simp add: s3_def s2(5))
  have v3: "ids s3 = ids s" "objs s3 = objs s" "ctl s3 = ctl s" "cur s3 = cur s" "waiters s3 = waiters s2"
    "OSTCBTbl s3 = OSTCBTbl s1" "rdy s3 = rdy s - {?p}"
    using s2 ids1 members_own(1) [OF own2, of "rdy_bm s"] prio
    by (simp_all add: s3_def frames_def s1_def rdy_def)
  have "oinv s3"
    by (rule oinv_grow [OF sinvD(4) [OF inv] v3(1,2)]) (use es in \<open>auto simp: v3(5) s2(6) pollable_def split: if_splits\<close>)
  moreover have "cur_ok s3" using cur_ok_same [OF sinvD(3) [OF inv] v3(1,4)] .
  ultimately have inv3: "sinv s3" using k3 by (simp add: sinv_def kinv_def)
  have run: "do {
       t \<leftarrow> tcb_at (OSTCBCur s);
       let s = upd_tcb t (\<lambda>c. c\<lparr>OSTCBStat := OSTCBStat c OR stat OR OS_STAT_MULTI,
         OSTCBStatPend := OS_STAT_PEND_OK, OSTCBDly := timeout\<rparr>) s;
       s \<leftarrow> OS_EventTaskWaitMulti (map EVp es) s;
       OS_Sched s } = OS_Sched s3"
    using sinv_cur(1,3) [OF inv] r2 r3
    by (simp add: OS_EventTaskWaitMulti_def Let_def s1_def f_def upd_tcb_def)
  have nest: "OSIntNesting s3 = 0" "OSLockNesting s3 = 0" using v3(3) free by (simp_all add: ctl_def)
  show ?thesis
    unfolding run
  proof (rule ok_mono [OF OS_Sched_sinv [OF inv3]], elim conjE)
    fix s'
    assume 2: "sinv s'" "resched s3 s'" "settled s'" "ctl s' = ctl s3"
      "OSIntNesting s3 = 0 \<and> OSLockNesting s3 = 0 \<longrightarrow> unat (OSPrioCur s') = Min (rdy s3)"
    note g = tcbs_fields [OF reschedD(4) [OF 2(2)], of ?t]
    have "suspended (OSTCBTbl s' ?t) = suspended (OSTCBTbl s ?t)"
      using stat by (simp add: suspended_def g v3(6) s1_def f_def bit.conj_disj_distrib2)
    then show "sinv s' \<and> ctl s' = ctl s \<and> settled s' \<and> blocked_multi es timeout s s'"
      using 2 nest reschedD [OF 2(2)] v3 s2(6) by (simp add: g blocked_multi_def s1_def f_def)
  qed
qed

section \<open>The contract\<close>

text \<open>The array of the caller: different events of the kernel.\<close>

definition multi_arg :: "vptr list option \<Rightarrow> bool" where
  "multi_arg ps \<longleftrightarrow> (\<forall>vs. ps = Some vs \<longrightarrow> (\<exists>es. vs = map EVp es \<and> distinct es \<and> (\<forall>e\<in>set es. e < OS_MAX_EVENTS)))"

text \<open>What the call does: it refuses, takes what is there, or waits.\<close>

definition multi_taken :: "nat list \<Rightarrow> kst \<Rightarrow> multi_result pend \<Rightarrow> kst \<Rightarrow> bool" where
  "multi_taken es s r s' \<longleftrightarrow> (let rs = filter (avail s) es in
     r = Returned (of_nat (length rs), map EVp rs, map (ev_front s) rs, OS_ERR_NONE) \<and> s' = fold ev_take rs s)"

lemma OSEventPendMulti_ok:
  assumes inv: "sinv s" and idle: "may_block s" and es: "distinct es" "\<forall>e\<in>set es. pollable s e" "es \<noteq> []"
    and free: "OSIntNesting s = 0" "OSLockNesting s = 0" and args: "pevents_rdy \<noteq> NULL" "pmsgs_rdy \<noteq> NULL"
  shows "ok (OSEventPendMulti (Some (map EVp es)) pevents_rdy pmsgs_rdy timeout s) (\<lambda>(r, s'). kept s s'
    \<and> (if \<exists>e\<in>set es. avail s e then multi_taken es s r s' else r = Waiting \<and> blocked_multi es timeout s s'))"
proof -
  let ?rs = "filter (avail s) es"
  obtain st where st: "st AND OS_STAT_SUSPEND = 0" and poll: "multi_poll (map EVp es) [] [] OS_STAT_RDY s
      = Some ((True, map EVp ?rs, map (ev_front s) ?rs, st), fold ev_take ?rs s)"
    using multi_poll_ok [OF inv es(1,2), where rdys = "[]" and msgs = "[]" and stat = OS_STAT_RDY] by auto
  have types: "multi_types (map EVp es) s = Some True"
    using multi_types_ok [of es s] es(2) by (simp add: pollable_def)
  note run = OSEventPendMulti_def [of "Some (map EVp es)" pevents_rdy pmsgs_rdy timeout s]
  show ?thesis
  proof (cases "\<exists>e\<in>set es. avail s e")
    case True
    then have ne: "?rs \<noteq> []" by (auto simp: filter_empty_conv)
    have "distinct ?rs" "\<forall>e\<in>set ?rs. pollable s e \<and> avail s e" using es(1,2) by simp_all
    from ev_take_all [OF inv this] have k: "kept s (fold ev_take ?rs s)" by blast
    have "OSEventPendMulti (Some (map EVp es)) pevents_rdy pmsgs_rdy timeout s
        = Some (Returned (of_nat (length ?rs), map EVp ?rs, map (ev_front s) ?rs, OS_ERR_NONE), fold ev_take ?rs s)"
      unfolding run using poll types es(3) free args ne by simp
    then show ?thesis using k True by (simp add: multi_taken_def Let_def)
  next
    case False
    then have none: "?rs = []" by (auto simp: filter_empty_conv)
    have "\<forall>e\<in>set es. pollable s e \<and> \<not> avail s e" using es(2) False by auto
    from multi_wait_ok [OF inv idle this free st, where timeout = timeout] show ?thesis
      using run poll types es(3) free args none False sinv_cur(1,3) [OF inv]
      by (auto simp: Let_def ok_iff bind_eq_Some_conv)
  qed
qed

lemma OSEventPendMulti_refused:
  assumes "\<forall>e\<in>set es. e < OS_MAX_EVENTS"
    and "es = [] \<or> (\<exists>e\<in>set es. \<not> pollable s e) \<or> OSIntNesting s > 0 \<or> OSLockNesting s > 0 \<or> pevents_rdy = NULL \<or> pmsgs_rdy = NULL"
  shows "\<exists>r. OSEventPendMulti (Some (map EVp es)) pevents_rdy pmsgs_rdy timeout s = Some (r, s)"
proof (cases "es = [] \<or> pevents_rdy = NULL \<or> pmsgs_rdy = NULL \<or> (\<exists>e\<in>set es. \<not> pollable s e)")
  case True
  then show ?thesis using multi_types_ok [OF assms(1), of s] by (auto simp: OSEventPendMulti_def)
next
  case False
  then have "multi_types (map EVp es) s = Some True" using multi_types_ok [OF assms(1), of s] by auto
  then show ?thesis using False assms(2) by (auto simp: OSEventPendMulti_def)
qed

interpretation PendMulti: sched_call "\<lambda>s. may_block s \<and> multi_arg pevents"
  "OSEventPendMulti pevents pevents_rdy pmsgs_rdy timeout" for pevents pevents_rdy pmsgs_rdy timeout
proof (rule sched_callI, elim conjE)
  fix s
  assume inv: "sinv s" and idle: "may_block s" and arg: "multi_arg pevents"
  show "ok (OSEventPendMulti pevents pevents_rdy pmsgs_rdy timeout s) (\<lambda>(r, s'). kept s s')"
  proof (cases pevents)
    case None
    then show ?thesis using inv by (simp add: OSEventPendMulti_def)
  next
    case (Some vs)
    then obtain es where es: "pevents = Some (map EVp es)" "distinct es" "\<forall>e\<in>set es. e < OS_MAX_EVENTS"
      using arg by (auto simp: multi_arg_def)
    show ?thesis
    proof (cases "es = [] \<or> (\<exists>e\<in>set es. \<not> pollable s e) \<or> OSIntNesting s > 0 \<or> OSLockNesting s > 0
        \<or> pevents_rdy = NULL \<or> pmsgs_rdy = NULL")
      case True
      then show ?thesis using OSEventPendMulti_refused [OF es(3) True, of timeout] inv es(1) by auto
    next
      case False
      then have "\<forall>e\<in>set es. pollable s e" "es \<noteq> []" "OSIntNesting s = 0" "OSLockNesting s = 0"
        "pevents_rdy \<noteq> NULL" "pmsgs_rdy \<noteq> NULL"
        by (auto simp: word_gt_0)
      from OSEventPendMulti_ok [OF inv idle es(2) this, of timeout] es(1) show ?thesis by (auto elim!: ok_mono2)
    qed
  qed
qed

text \<open>The end of the call, when the task runs again.\<close>

lemma multi_done_unread: "unread s (multi_done t s)"
  unfolding multi_done_def by (rule unread_tcb) simp_all

lemma OSEventPendMulti_resume_ok:
  assumes inv: "sinv s" and es: "\<forall>e\<in>set es. e < OS_MAX_EVENTS" and rdy: "valid_ev (OSTCBEventMultiRdy (OSTCBTbl s (cur_ix s)))"
  shows "ok (OSEventPendMulti_resume (map EVp es) s) (\<lambda>(r, s'). kept s s' \<and> rdy s' = rdy s)"
proof -
  let ?t = "cur_ix s"
  let ?c = "OSTCBTbl s ?t"
  have t: "OSTCBCur s = TCBp ?t" "?t < OS_N_TCBS" using sinv_cur(1,3) [OF inv] by simp_all
  have fin: "kept s s' \<Longrightarrow> rdy s' = rdy s \<Longrightarrow> kept s (multi_done ?t s') \<and> rdy (multi_done ?t s') = rdy s" for s'
    using unread_kept [OF _ multi_done_unread [where s = s' and t = ?t]] unreadD(4) [OF multi_done_unread [where s = s' and t = ?t]]
    by auto
  have rem: "ok (OS_EventTaskRemoveMulti (TCBp ?t) (map EVp es) s1) (\<lambda>s2. kept s s2 \<and> rdy s2 = rdy s
      \<and> OSTCBStatPend (OSTCBTbl s2 ?t) = OSTCBStatPend (OSTCBTbl s1 ?t))"
    if s1: "unread s s1" for s1
  proof -
    have inv1: "sinv s1" by (rule unread_sinv [OF inv s1])
    have own: "owns s1 ?t (unat (OSPrioCur s))" using sinv_cur(2) [OF inv] unreadD(10) [OF s1] by simp
    have m: "multi_ok (Some (map EVp es))" using es by (simp add: multi_ok_def list_all_iff)
    have keep: "OSTCBTbl s2 = OSTCBTbl s1" if "OS_EventTaskRemoveMulti (TCBp ?t) (map EVp es) s1 = Some s2" for s2
      using that ev_del_all_ok [OF sinvD(2) [OF inv1] own _ refl, of "map EVp es"] m t(2)
      by (auto simp: ok_iff OS_EventTaskRemoveMulti_def Let_def multi_ok_def)
    obtain s2 where s2: "OS_EventTaskRemoveMulti (TCBp ?t) (map EVp es) s1 = Some s2" "sinv s2" "frames s1 s2"
      "cur s2 = cur s1" "rdy s2 = rdy s1"
      using remove_multi_ok [OF inv1 own m] by (auto simp: ok_iff)
    have "kept s s2"
      using s2 unreadD [OF s1] settled_cong [of s2 s] by (simp add: frames_def)
    then show ?thesis using s2 keep [OF s2(1)] unreadD(4) [OF s1] by simp
  qed
  show ?thesis
  proof (cases "OSTCBStatPend ?c = OS_STAT_PEND_TO")
    case True
    obtain s2 where "OS_EventTaskRemoveMulti (TCBp ?t) (map EVp es) s = Some s2" "kept s s2" "rdy s2 = rdy s"
      "OSTCBStatPend (OSTCBTbl s2 ?t) = OS_STAT_PEND_TO"
      using rem [OF unread_refl] True by (auto simp: ok_iff)
    then show ?thesis using t True fin [of s2] by (simp add: OSEventPendMulti_resume_def Let_def)
  next
    case False
    then have st: "OSTCBStatPend ?c = OS_STAT_PEND_OK \<or> OSTCBStatPend ?c = OS_STAT_PEND_ABORT"
      by (cases "OSTCBStatPend ?c") simp_all
    show ?thesis
    proof (cases "OSTCBEventMultiRdy ?c = NULL")
      case True
      let ?s1 = "upd_tcb ?t (\<lambda>c. c\<lparr>OSTCBStatPend := OS_STAT_PEND_TO\<rparr>) s"
      have "unread s ?s1" by (rule unread_tcb) simp_all
      moreover have "OSTCBStatPend (OSTCBTbl ?s1 ?t) = OS_STAT_PEND_TO" "OSTCBCur ?s1 = TCBp ?t" using t by (simp_all add: upd_tcb_def)
      ultimately obtain s2 where "OS_EventTaskRemoveMulti (TCBp ?t) (map EVp es) ?s1 = Some s2" "kept s s2" "rdy s2 = rdy s"
        "OSTCBStatPend (OSTCBTbl s2 ?t) = OS_STAT_PEND_TO" "OSTCBCur ?s1 = TCBp ?t"
        using rem [of ?s1] by (auto simp: ok_iff)
      then show ?thesis using t True st fin [of s2] by (simp add: OSEventPendMulti_resume_def Let_def)
    next
      case ne: False
      then obtain e where "OSTCBEventMultiRdy ?c = EVp e" "e < OS_MAX_EVENTS"
        using rdy by (auto simp: valid_ev_def)
      then show ?thesis
        using t st fin [of s] inv
        by (cases "OSTCBStatPend ?c"; cases "ev_type s e") (auto simp: OSEventPendMulti_resume_def Let_def)
    qed
  qed
qed

interpretation PendMulti_resume: sched_call
  "\<lambda>s. (\<exists>es. vs = map EVp es \<and> (\<forall>e\<in>set es. e < OS_MAX_EVENTS)) \<and> valid_ev (OSTCBEventMultiRdy (OSTCBTbl s (cur_ix s)))"
  "OSEventPendMulti_resume vs" for vs
  by (rule sched_callI) (auto intro!: ok_mono2 [OF OSEventPendMulti_resume_ok])

end
