(* ===== verification/Os_Multi_Props.thy ===== *)
theory Os_Multi_Props
  imports Os_Multi_Inv Os_Demo_Runs
begin

text \<open>
  The properties of \<open>OSEventPendMulti\<close>: it agrees with a reference that takes one item from each event,
  and a post to one of the events it waits for ends the wait on all of them.
\<close>

section \<open>Being woken\<close>

text \<open>A task that waits for several events is told which one it got.\<close>

lemma OS_EventTaskRdy_tells:
  assumes inv: "kinv0 s" and e: "e < OS_MAX_EVENTS" and some: "waiters s e \<noteq> {}" and own: "owns s t (Min (waiters s e))"
    and multi: "OSTCBEventMultiPtr (OSTCBTbl s t) = Some es" and run: "OS_EventTaskRdy (EVp e) m msk st s = Some (prio, s')"
  shows "OSTCBEventMultiRdy (OSTCBTbl s' t) = EVp e"
proof -
  define s1 where "s1 = upd_tcb t (\<lambda>c. c\<lparr>OSTCBDly := 0, OSTCBMsg := m,
    OSTCBStat := OSTCBStat c AND NOT msk, OSTCBStatPend := st\<rparr>) s"
  define s2 where "s2 = (if suspended (OSTCBTbl s1 t) then s1
    else set_rdy_bm (bm_add (OSTCBPrio (OSTCBTbl s t)) (rdy_bm s)) s1)"
  have m2: "OSTCBEventMultiPtr (OSTCBTbl s2 t) = Some es" using multi by (simp add: s2_def s1_def)
  have "OS_EventTaskRdy_unlink (TCBp t) (EVp e) s2 = Some s'"
    using run unfolding OS_EventTaskRdy_run [OF inv e some own s1_def] s2_def [symmetric]
    by (simp add: bind_eq_Some_conv)
  then show ?thesis
    using m2 owns_index [OF own] e
    by (auto simp: OS_EventTaskRdy_unlink_def OS_EventTaskRemove_def ev_del_def Let_def bind_eq_Some_conv
        split: if_splits option.splits)
qed

lemma OSSemPost_wakes_multi:
  assumes inv: "sinv s" and e: "e < OS_MAX_EVENTS" "ev_type s e = OS_EVENT_TYPE_SEM" and w: "waiters s e = {p}"
    and own: "owns s t p" and multi: "OSTCBEventMultiPtr (OSTCBTbl s t) = Some (map EVp es)"
    and run: "\<not> suspended (OSTCBTbl s t)"
  shows "ok (OSSemPost (EVp e) s) (\<lambda>(r, s'). kept s s' \<and> r = OS_ERR_NONE \<and> ids s' = ids s \<and> objs s' = objs s
    \<and> rdy s' = insert p (rdy s) \<and> waiters s' = leave p (insert e (set es)) (waiters s)
    \<and> OSTCBEventMultiRdy (OSTCBTbl s' t) = EVp e \<and> OSTCBStatPend (OSTCBTbl s' t) = OS_STAT_PEND_OK)"
proof -
  note k0 = sinvD(2) [OF inv]
  have some: "waiters s e \<noteq> {}" and min: "Min (waiters s e) = p" using w by simp_all
  have own': "owns s t (Min (waiters s e))" using own min by simp
  have evs: "multi_evs (OSTCBTbl s t) = set es" using multi by (auto simp: multi_evs_def evs_of_def)
  obtain prio s1 where r1: "OS_EventTaskRdy (EVp e) NULL OS_STAT_SEM OS_STAT_PEND_OK s = Some (prio, s1)"
    and s1: "frames s s1" "cur s1 = cur s" "waiters s1 = leave p (insert e (set es)) (waiters s)"
      "rdy s1 = (if suspended (OSTCBTbl s1 t) then rdy s else insert p (rdy s))"
      "woken NULL OS_STAT_SEM OS_STAT_PEND_OK (OSTCBTbl s t) (OSTCBTbl s1 t)"
    using OS_EventTaskRdy_ok [OF k0 e(1) some own', of NULL OS_STAT_SEM OS_STAT_PEND_OK]
    unfolding min evs by (auto simp: ok_iff)
  have tells: "OSTCBEventMultiRdy (OSTCBTbl s1 t) = EVp e"
    by (rule OS_EventTaskRdy_tells [OF k0 e(1) some own' multi r1])
  obtain r s' where post: "OSSemPost (EVp e) s = Some (r, s')" "kept s s'" "r = OS_ERR_NONE"
    using OSSemPost_sem [OF inv e] some by (auto simp: ok_iff)
  have "OS_Sched s1 = Some s'"
    using post(1,3) e r1 ev_grp_waiters [OF k0 e(1)] some by (auto simp: OSSemPost_def bind_eq_Some_conv)
  moreover have "sinv s1"
    using OS_EventTaskRdy_readied [OF k0 e(1) some, of NULL OS_STAT_SEM OS_STAT_PEND_OK] r1
    by (auto simp: ok_iff intro: sinv_all_readied [OF inv readied_all_readied])
  ultimately have q: "resched s1 s'" using OS_Sched_sinv [of s1] by (auto simp: ok_iff)
  note f = tcbs_fields [OF reschedD(4) [OF q], of t]
  have "\<not> suspended (OSTCBTbl s1 t)"
  proof -
    have "OSTCBStat (OSTCBTbl s1 t) = OSTCBStat (OSTCBTbl s t) AND NOT OS_STAT_SEM" using s1(5) by (simp add: woken_def)
    moreover have "(x AND NOT OS_STAT_SEM) AND OS_STAT_SUSPEND = x AND OS_STAT_SUSPEND" for x :: "8 word"
      by (simp add: and.assoc)
    ultimately show ?thesis using run by (simp add: suspended_def)
  qed
  then show ?thesis
    using post s1 tells reschedD [OF q] by (auto simp: frames_def f woken_def)
qed

section \<open>Properties\<close>

text \<open>
  C38 (OSEventPendMulti_takes): when at least one of the events has something, the call does not wait and
  agrees with the reference that goes through the available events in the order of the array: it
  returns exactly them, each with the item at its front, one item is gone from each and nothing else
  has changed; no task becomes ready or stops being so.
\<close>

theorem OSEventPendMulti_takes:
  assumes "sinv s" "may_block s" "distinct es" "\<forall>e\<in>set es. pollable s e" "\<exists>e\<in>set es. avail s e"
    "OSIntNesting s = 0" "OSLockNesting s = 0" "pevents_rdy \<noteq> NULL" "pmsgs_rdy \<noteq> NULL"
  shows "\<exists>s'. OSEventPendMulti (Some (map EVp es)) pevents_rdy pmsgs_rdy timeout s
      = Some (Returned (of_nat (length (filter (avail s) es)), map EVp (filter (avail s) es),
          map (ev_front s) (filter (avail s) es), OS_ERR_NONE), s')
    \<and> s' = fold ev_take (filter (avail s) es) s \<and> sinv s' \<and> rdy s' = rdy s \<and> OSPrioCur s' = OSPrioCur s"
proof -
  have ne: "es \<noteq> []" using assms(5) by auto
  have rs: "distinct (filter (avail s) es)" "\<forall>e\<in>set (filter (avail s) es). pollable s e \<and> avail s e"
    using assms(3,4) by simp_all
  note all = ev_take_all [OF assms(1) rs]
  have "cur (fold ev_take (filter (avail s) es) s) = cur s" "rdy (fold ev_take (filter (avail s) es) s) = rdy s"
    "sinv (fold ev_take (filter (avail s) es) s)" using all by blast+
  moreover have "OSPrioCur (fold ev_take (filter (avail s) es) s) = OSPrioCur s" using calculation(1) by (simp add: cur_def)
  moreover obtain r s' where "OSEventPendMulti (Some (map EVp es)) pevents_rdy pmsgs_rdy timeout s = Some (r, s')"
    "multi_taken es s r s'"
    using OSEventPendMulti_ok [OF assms(1-4) ne assms(6-9), of timeout] assms(5) by (auto simp: ok_iff)
  ultimately show ?thesis by (auto simp: multi_taken_def Let_def)
qed

lemma OSEventPendMulti_takes_witness:
  "\<exists>s'. OSEventPendMulti (Some (map EVp [0, 1, 2, 4])) (Addr 0x100) (Addr 0x200) 0 demo
      = Some (Returned (3, [EVp 1, EVp 2, EVp 4], [NULL, Addr 0x1000, Addr 0x33], OS_ERR_NONE), s')
    \<and> sinv s' \<and> rdy s' = {30, 63}"
proof -
  have a: "filter (avail demo) [0, 1, 2, 4] = [1, 2, 4]"
    by (simp add: avail_def demo_events demo_q0 demo_q_def)
  have m: "ptr_mem demo 0x2010 = Addr 0x33" by (simp add: demo_def)
  have f: "map (ev_front demo) [1, 2, 4] = [NULL, Addr 0x1000, Addr 0x33]"
    by (simp add: ev_front_def demo_events q_ix_def ring_of_def ring_take_def demo_q0) (simp add: demo_q_def m)
  have "\<exists>e\<in>set [0, 1, 2, 4]. avail demo e" "\<forall>e\<in>set [0, 1, 2, 4]. pollable demo e" "may_block demo"
    by (simp_all add: avail_def pollable_def demo_events may_block_def demo_ctl)
  then show ?thesis
    using OSEventPendMulti_takes [OF demo_sinv, of "[0, 1, 2, 4]" "Addr 0x100" "Addr 0x200" 0]
    unfolding a f by (simp add: demo_ctl demo_ready)
qed

text \<open>
  C39 (multi_pend_woken): a task waits for several events at once, none of which has anything; a post to one
  of them, a semaphore nobody else waits for, wakes it, it runs again at once and the call returns that
  event alone; it is off the wait lists of all the events, and the ready list and the running task are as
  they were.
\<close>

theorem multi_pend_woken:
  assumes "sinv s" "settled s" "may_block s" "distinct es" "\<forall>e\<in>set es. pollable s e \<and> \<not> avail s e"
    "OSIntNesting s = 0" "OSLockNesting s = 0" "pevents_rdy \<noteq> NULL" "pmsgs_rdy \<noteq> NULL"
    "\<not> suspended (OSTCBTbl s (cur_ix s))" "unat (OSPrioCur s) \<in> rdy s"
    "e \<in> set es" "ev_type s e = OS_EVENT_TYPE_SEM" "waiters s e = {}"
  shows "ok (do { (r1, s1) \<leftarrow> OSEventPendMulti (Some (map EVp es)) pevents_rdy pmsgs_rdy timeout s;
                  (r2, s2) \<leftarrow> OSSemPost (EVp e) s1;
                  (r3, s3) \<leftarrow> OSEventPendMulti_resume (map EVp es) s2;
                  Some (r1, r2, r3, s3) })
    (\<lambda>(r1, r2, r3, s3). r1 = Waiting \<and> r2 = OS_ERR_NONE \<and> r3 = (1, [EVp e], [NULL], OS_ERR_NONE)
      \<and> sinv s3 \<and> rdy s3 = rdy s \<and> OSTCBCur s3 = OSTCBCur s
      \<and> (\<forall>e'\<in>set es. waiters s3 e' = waiters s e' - {unat (OSPrioCur s)}))"
proof -
  let ?t = "cur_ix s" and ?p = "unat (OSPrioCur s)"
  have ne: "es \<noteq> []" and poll: "\<forall>e\<in>set es. pollable s e" and none: "\<not> (\<exists>e\<in>set es. avail s e)" using assms(5,12) by auto
  have e: "e < OS_MAX_EVENTS" using poll assms(12) by (simp add: pollable_def)
  obtain s1 where r1: "OSEventPendMulti (Some (map EVp es)) pevents_rdy pmsgs_rdy timeout s = Some (Waiting, s1)"
    and s1: "sinv s1" "ctl s1 = ctl s" "blocked_multi es timeout s s1"
    using OSEventPendMulti_ok [OF assms(1,3,4) poll ne assms(6-9), of timeout] none by (auto simp: ok_iff)
  have b: "objs s1 = objs s" "ids s1 = ids s" "rdy s1 = rdy s - {?p}"
    "waiters s1 = (\<lambda>e. if e \<in> set es then insert ?p (waiters s e) else waiters s e)"
    "OSTCBEventMultiPtr (OSTCBTbl s1 ?t) = Some (map EVp es)" "\<not> suspended (OSTCBTbl s1 ?t)"
    using s1(3) assms(10) by (simp_all add: blocked_multi_def)
  have own: "owns s1 ?t ?p" using sinv_cur(2) [OF assms(1)] owns_cong [OF b(2)] by simp
  have k1: "ev_type s1 e = OS_EVENT_TYPE_SEM" using assms(13) ev_data_fields(1) [of s1 e s] b(1) by (simp add: objs_def)
  have w1: "waiters s1 e = {?p}" using b(4) assms(12,14) by simp
  obtain s2 where r2: "OSSemPost (EVp e) s1 = Some (OS_ERR_NONE, s2)"
    and s2: "sinv s2" "ctl s2 = ctl s1" "settled s2" "ids s2 = ids s1" "objs s2 = objs s1" "rdy s2 = insert ?p (rdy s1)"
      "waiters s2 = leave ?p (insert e (set es)) (waiters s1)"
      "OSTCBEventMultiRdy (OSTCBTbl s2 ?t) = EVp e" "OSTCBStatPend (OSTCBTbl s2 ?t) = OS_STAT_PEND_OK"
  proof -
    have "settled s1" using s1(3) by (simp add: settled_def blocked_multi_def)
    then show ?thesis
      using that OSSemPost_wakes_multi [OF s1(1) e k1 w1 own b(5,6)] by (auto simp: ok_iff)
  qed
  have rdy2: "rdy s2 = rdy s" using s2(6) b(3) assms(11) by auto
  have "unat (OSPrioCur s2) = ?p"
    using assms(2,6,7) s2(2,3) s1(2) rdy2 by (simp add: settled_def ctl_def)
  then have own2: "owns s2 (cur_ix s2) ?p" using sinv_cur(2) [OF s2(1)] by simp
  moreover have "owns s2 ?t ?p" using own owns_cong [OF s2(4)] by simp
  ultimately have t2: "cur_ix s2 = ?t" by (rule owns_unique)
  have cur2: "OSTCBCur s2 = TCBp ?t" "?t < OS_N_TCBS" using sinv_cur(1,3) [OF s2(1)] t2 by simp_all
  have k2: "ev_type s2 e = OS_EVENT_TYPE_SEM" using k1 ev_data_fields(1) [of s2 e s1] s2(5) by (simp add: objs_def)
  have r3: "OSEventPendMulti_resume (map EVp es) s2 = Some ((1, [EVp e], [NULL], OS_ERR_NONE), multi_done ?t s2)"
    using cur2 s2(8,9) e k2 by (simp add: OSEventPendMulti_resume_def Let_def)
  note u = multi_done_unread [where s = s2 and t = ?t]
  have "OSTCBCur (multi_done ?t s2) = OSTCBCur s" using cur2 sinv_cur(1) [OF assms(1)] unreadD(3) [OF u] by (simp add: cur_def)
  moreover have "waiters s2 e' = waiters s e' - {?p}" if "e' \<in> set es" for e'
    using that s2(7) b(4) by (simp add: leave_def)
  ultimately show ?thesis
    using r1 r2 r3 unread_sinv [OF s2(1) u] unreadD(4,5) [OF u] rdy2 by simp
qed

lemma multi_pend_woken_witness:
  "ok (do { (r1, s1) \<leftarrow> OSEventPendMulti (Some (map EVp [0, 3, 1])) (Addr 0x100) (Addr 0x200) 7
              (upd_ev 1 (\<lambda>c. c\<lparr>OSEventCnt := 0\<rparr>) demo);
            (r2, s2) \<leftarrow> OSSemPost (EVp 1) s1;
            (r3, s3) \<leftarrow> OSEventPendMulti_resume (map EVp [0, 3, 1]) s2;
            Some (r1, r2, r3, s3) })
    (\<lambda>(r1, r2, r3, s3). r3 = (1, [EVp 1], [NULL], OS_ERR_NONE) \<and> rdy s3 = {30, 63} \<and> waiters s3 0 = {10})"
proof -
  let ?s = "upd_ev 1 (\<lambda>c. c\<lparr>OSEventCnt := 0\<rparr>) demo"
  have "sinv ?s" using sem_count_sinv [OF demo_sinv, of 1 "\<lambda>_. 0"] by (simp add: demo_events demo_waiting)
  moreover have "settled ?s" using demo_settled settled_cong [of ?s demo] by simp
  moreover have c: "OSPrioCur ?s = 30" "cur_ix ?s = 3" "OSIntNesting ?s = 0" "OSLockNesting ?s = 0"
    "OSTCBTbl ?s = OSTCBTbl demo" "may_block ?s"
    by (simp_all add: upd_ev_def demo_def cur_ix_def may_block_def)
  moreover have "\<not> suspended (OSTCBTbl demo 3)" by (simp add: suspended_def demo_def demo_tcb_def)
  moreover have "\<forall>e\<in>set [0, 3, 1]. pollable ?s e \<and> \<not> avail ?s e"
    by (simp add: pollable_def avail_def demo_events)
  ultimately show ?thesis
    using multi_pend_woken [of ?s "[0, 3, 1]" "Addr 0x100" "Addr 0x200" 1 7] demo_ready demo_waiting
    by (auto simp: demo_events elim!: ok_mono)
qed

end
