(* ===== verification/Os_Chprio.thy ===== *)
theory Os_Chprio
  imports Os_Task_Del Os_Demo
begin

text \<open>
  \<open>OSTaskChangePrio\<close> keeps the invariant of the kernel for a task that owns no mutex: the task is known
  under its new priority in the table, the ready list and all wait lists, and the old one is free.
\<close>

section \<open>Moving in the wait lists\<close>

lemma add_new_prio:
  assumes "unat q < 64"
  shows "rdy_add (prio_y q) (bit_mask (prio_y q)) (bit_mask (prio_x q)) s = Some (set_rdy_bm (bm_add q (rdy_bm s)) s)"
    and "ev_add e (prio_y q) (bit_mask (prio_y q)) (bit_mask (prio_x q)) s = Some (set_ev_bm e (bm_add q (ev_bm s e)) s)"
  using rdy_add_own [OF set_prio_bits [OF assms], of undefined s] ev_add_own [OF set_prio_bits [OF assms], of e undefined s]
  by (simp_all add: set_prio_def)

text \<open>Priority \<open>p\<close> is replaced by \<open>q\<close> in the wait lists of the events \<open>E\<close>.\<close>

definition replaced :: "nat \<Rightarrow> 8 word \<Rightarrow> nat set \<Rightarrow> (nat \<Rightarrow> nat set) \<Rightarrow> nat \<Rightarrow> nat set" where
  "replaced p q E w = (\<lambda>e. if e \<in> E then insert (unat q) (w e - {p}) else w e)"

lemma replaced_empty [simp]: "replaced p q {} w = w"
  by (simp add: replaced_def)

lemma replaced_replaced: "p \<noteq> unat q \<Longrightarrow> replaced p q E (replaced p q F w) = replaced p q (E \<union> F) w"
  by (auto simp: replaced_def fun_eq_iff)

text \<open>Nothing but the lists of ready and waiting tasks, the table of priorities and the control blocks of tasks differs.\<close>

definition only_tasks :: "kst \<Rightarrow> kst \<Rightarrow> bool" where
  "only_tasks s s' \<longleftrightarrow> s' = s\<lparr>OSRdyGrp := OSRdyGrp s', OSRdyTbl := OSRdyTbl s', OSEventTbl_ecb := OSEventTbl_ecb s',
     OSTCBPrioTbl := OSTCBPrioTbl s', OSTCBTbl := OSTCBTbl s'\<rparr>"

lemma only_tasks_upd [simp]:
  "only_tasks s s" "only_tasks s (set_rdy_bm b s)" "only_tasks s (set_ev_bm e b s)" "only_tasks s (put_prio q v s)"
  "only_tasks s (upd_tcb t f s)"
  by (simp_all add: only_tasks_def kernel_defs)

lemma only_tasks_trans: "only_tasks s s' \<Longrightarrow> only_tasks s' s'' \<Longrightarrow> only_tasks s s''"
  unfolding only_tasks_def by (rule kst.equality) (erule ssubst, simp)+

definition lists_only :: "kst \<Rightarrow> kst \<Rightarrow> bool" where
  "lists_only s s' \<longleftrightarrow> ids s' = ids s \<and> objs s' = objs s \<and> ctl s' = ctl s \<and> cur s' = cur s
     \<and> OSTCBTbl s' = OSTCBTbl s \<and> OSTCBPrioTbl s' = OSTCBPrioTbl s \<and> OSTCBList s' = OSTCBList s
     \<and> only_tasks s s'"

lemma lists_only_refl [simp]: "lists_only s s"
  and lists_only_trans: "lists_only s s' \<Longrightarrow> lists_only s' s'' \<Longrightarrow> lists_only s s''"
  and lists_only_bm [simp]: "lists_only s (set_rdy_bm b s)" "lists_only s (set_ev_bm e b s)"
  using only_tasks_trans [of s s' s''] by (auto simp: lists_only_def)

lemma ev_move_all_ok:
  assumes c: "tcb_bits_ok c" "unat (OSTCBPrio c) = p" and q: "unat q < 64" "p \<noteq> unat q"
    and es: "\<forall>v\<in>set vs. ev_at v \<noteq> None" and bm: "\<forall>e<OS_MAX_EVENTS. bm_ok (ev_bm s e)"
  shows "ok (ev_move_all vs (OSTCBY c) (OSTCBBitY c) (OSTCBBitX c) (prio_y q) (bit_mask (prio_y q)) (bit_mask (prio_x q)) s)
    (\<lambda>s'. lists_only s s' \<and> rdy_bm s' = rdy_bm s \<and> (\<forall>e<OS_MAX_EVENTS. bm_ok (ev_bm s' e))
      \<and> waiters s' = replaced p q (evs_of vs) (waiters s))"
  using es bm
proof (induction vs arbitrary: s)
  case Nil
  then show ?case by (simp add: evs_of_def)
next
  case (Cons v vs)
  then obtain e where e: "v = EVp e" "e < OS_MAX_EVENTS" by auto
  have p: "p < 64" "unat (OSTCBPrio c) < 64" using c by (simp_all add: tcb_bits_ok_def)
  define s1 where "s1 = set_ev_bm e (bm_take_out (OSTCBPrio c) (ev_bm s e)) s"
  define s2 where "s2 = set_ev_bm e (bm_add q (ev_bm s1 e)) s1"
  have r: "ev_del e (OSTCBY c) (OSTCBBitY c) (OSTCBBitX c) s = Some s1"
    "ev_add e (prio_y q) (bit_mask (prio_y q)) (bit_mask (prio_x q)) s1 = Some s2"
    unfolding s1_def s2_def using ev_del_own [OF c(1), of e s] add_new_prio(2) [OF q(1)] by simp_all
  have bm2: "\<forall>e<OS_MAX_EVENTS. bm_ok (ev_bm s2 e)"
    using Cons.prems(2) e(2) p(2) q(1) by (auto simp: s2_def s1_def bm.inv_add bm.inv_take_out)
  have w2: "waiters s2 = replaced p q {e} (waiters s)"
    using p(2) q(1) c(2) e(2) Cons.prems(2)
    by (auto simp: s2_def s1_def replaced_def waiters_def bm.members_add bm.members_take_out fun_eq_iff)
  have k2: "lists_only s s2" "rdy_bm s2 = rdy_bm s"
    using lists_only_trans [of s s1 s2] by (simp_all add: s1_def s2_def)
  have evs: "evs_of (v # vs) = evs_of vs \<union> {e}" using e(1) by (auto simp: evs_of_def)
  have es: "\<forall>v\<in>set vs. ev_at v \<noteq> None" using Cons.prems(1) by simp
  have "ok (ev_move_all vs (OSTCBY c) (OSTCBBitY c) (OSTCBBitX c) (prio_y q) (bit_mask (prio_y q)) (bit_mask (prio_x q)) s2)
    (\<lambda>s'. lists_only s s' \<and> rdy_bm s' = rdy_bm s \<and> (\<forall>e<OS_MAX_EVENTS. bm_ok (ev_bm s' e))
      \<and> waiters s' = replaced p q (evs_of (v # vs)) (waiters s))"
    by (rule ok_mono [OF Cons.IH [OF es bm2]])
      (use k2 w2 replaced_replaced [OF q(2)] lists_only_trans [OF k2(1)] in \<open>simp add: evs\<close>)
  then show ?case using e r by simp
qed

section \<open>The call\<close>

text \<open>
  Task \<open>t\<close> of priority \<open>p\<close> owns no mutex, and its control block tells what it waits for.
\<close>

definition may_change :: "nat \<Rightarrow> nat \<Rightarrow> kst \<Rightarrow> bool" where
  "may_change t p s \<longleftrightarrow> idle_entry t p s \<and> p \<noteq> 63
     \<and> (OSTCBEventPtr (OSTCBTbl s t) = NULL \<or> ev_at (OSTCBEventPtr (OSTCBTbl s t)) \<noteq> None)
     \<and> (\<forall>e<OS_MAX_EVENTS. p \<in> waiters s e \<longleftrightarrow> e \<in> waits_for (OSTCBTbl s t))"

lemma ready_bit:
  assumes "owns s t p"
  shows "OSRdyTbl s (unat (OSTCBY (OSTCBTbl s t))) AND OSTCBBitX (OSTCBTbl s t) \<noteq> 0 \<longleftrightarrow> p \<in> rdy s"
proof -
  have c: "unat (OSTCBPrio (OSTCBTbl s t)) = p" "p < 64" "OSTCBY (OSTCBTbl s t) = prio_y (OSTCBPrio (OSTCBTbl s t))"
    "OSTCBBitX (OSTCBTbl s t) = bit_mask (prio_x (OSTCBPrio (OSTCBTbl s t)))"
    using assms by (auto simp: owns_def tcb_bits_ok_def)
  show ?thesis
    using bm.holds_iff [of "OSTCBPrio (OSTCBTbl s t)" "rdy_bm s"] c by (simp add: bm_holds_def bm_test_def rdy_def rdy_bm_def)
qed

text \<open>The assignments of the call up to the scheduler.\<close>

definition chprio_body :: "nat \<Rightarrow> 8 word \<Rightarrow> kst \<Rightarrow> kst option" where
  "chprio_body t newprio s = do {
     let c = OSTCBTbl s t;
     s \<leftarrow> (if OSRdyTbl s (unat (OSTCBY c)) AND OSTCBBitX c \<noteq> 0 then do {
             s \<leftarrow> rdy_del (OSTCBY c) (OSTCBBitY c) (OSTCBBitX c) s;
             rdy_add (prio_y newprio) (bit_mask (prio_y newprio)) (bit_mask (prio_x newprio)) s
           } else Some s);
     s \<leftarrow> (if OSTCBEventPtr (OSTCBTbl s t) \<noteq> NULL then
             ev_move_all [OSTCBEventPtr (OSTCBTbl s t)] (OSTCBY c) (OSTCBBitY c) (OSTCBBitX c)
               (prio_y newprio) (bit_mask (prio_y newprio)) (bit_mask (prio_x newprio)) s
           else Some s);
     s \<leftarrow> (case OSTCBEventMultiPtr (OSTCBTbl s t) of
             None \<Rightarrow> Some s
           | Some es \<Rightarrow> ev_move_all es (OSTCBY c) (OSTCBBitY c) (OSTCBBitX c)
               (prio_y newprio) (bit_mask (prio_y newprio)) (bit_mask (prio_x newprio)) s);
     Some (upd_tcb t (set_prio newprio) s)
   }"

lemma OSTaskChangePrio_run:
  assumes "oldprio < OS_LOWEST_PRIO \<or> oldprio = OS_PRIO_SELF" "newprio < OS_LOWEST_PRIO"
    and "OSTCBPrioTbl s (unat newprio) = NULL" "self_prio oldprio s = Some p" "unat p < 64"
    and "OSTCBPrioTbl s (unat p) = TCBp t" "t < OS_N_TCBS" "tcb_bits_ok (OSTCBTbl s t)"
  shows "OSTaskChangePrio oldprio newprio s = do {
    s \<leftarrow> chprio_body t newprio (put_prio newprio (TCBp t) (put_prio p NULL s));
    s \<leftarrow> (if OSRunning s then OS_Sched s else Some s);
    Some (OS_ERR_NONE, s) }"
proof -
  have q: "unat newprio < 64" using assms(2) by (simp add: word_less_nat_alt)
  have y: "unat (OSTCBY (OSTCBTbl s t)) < OS_RDY_TBL_SIZE"
    using assms(8) prio_y_less by (simp add: tcb_bits_ok_def)
  have old: "\<not> (oldprio \<ge> OS_LOWEST_PRIO \<and> oldprio \<noteq> OS_PRIO_SELF)" "\<not> newprio \<ge> OS_LOWEST_PRIO"
    using assms(1,2) by (auto simp: not_le)
  have tbl: "prio_tbl s newprio = Some NULL" "prio_tbl s p = Some (TCBp t)"
    using assms(3,5,6) q by (simp_all add: prio_tbl_def)
  define s0 where "s0 = put_prio newprio (TCBp t) (put_prio p NULL s)"
  have put: "set_prio_tbl p NULL s = Some (put_prio p NULL s)" "set_prio_tbl newprio (TCBp t) (put_prio p NULL s) = Some s0"
    using q assms(5) by (simp_all add: s0_def set_prio_tbl_put)
  have "OSTCBTbl s0 = OSTCBTbl s" by (simp add: s0_def)
  with y have y0: "unat (OSTCBY (OSTCBTbl s0 t)) < OS_RDY_TBL_SIZE" by simp
  show ?thesis
    unfolding OSTaskChangePrio_def if_not_P [OF old(1)] if_not_P [OF old(2)] tbl assms(4) s0_def [symmetric] chprio_body_def
    using tbl assms(7) y0 by (simp add: put Let_def set_prio_def [abs_def])
qed

definition chprio_done :: "nat \<Rightarrow> nat \<Rightarrow> 8 word \<Rightarrow> kst \<Rightarrow> kst \<Rightarrow> bool" where
  "chprio_done t p q s s' \<longleftrightarrow> OSTCBTbl s' = (OSTCBTbl s)(t := set_prio q (OSTCBTbl s t))
     \<and> OSTCBPrioTbl s' = (OSTCBPrioTbl s)(p := NULL, unat q := TCBp t)
     \<and> objs s' = objs s \<and> ctl s' = ctl s \<and> cur s' = cur s \<and> OSTCBList s' = OSTCBList s \<and> only_tasks s s'
     \<and> bm_ok (rdy_bm s') \<and> (\<forall>e<OS_MAX_EVENTS. bm_ok (ev_bm s' e))
     \<and> rdy s' = ren p q ` rdy s \<and> (\<forall>e<OS_MAX_EVENTS. waiters s' e = ren p q ` waiters s e)"

lemma ren_image: "ren p q ` A = (if p \<in> A then insert (unat q) (A - {p}) else A)"
  by (auto simp: ren_def image_iff)

lemma chprio_body_ok:
  assumes inv: "kinv0 s" and may: "may_change t p s" and p: "unat po = p" and q: "unat q < 64" "p \<noteq> unat q"
  shows "ok (chprio_body t q (put_prio q (TCBp t) (put_prio po NULL s))) (chprio_done t p q s)"
proof -
  let ?c = "OSTCBTbl s t"
  let ?move = "\<lambda>vs. ev_move_all vs (OSTCBY ?c) (OSTCBBitY ?c) (OSTCBBitX ?c) (prio_y q) (bit_mask (prio_y q)) (bit_mask (prio_x q))"
  have own: "owns s t p" using may by (simp add: may_change_def idle_entry_def)
  note bits = owns_bits [OF own]
  have pr: "unat (OSTCBPrio ?c) = p" "unat (OSTCBPrio ?c) < 64" using owns_prio [OF own] bits by (simp_all add: tcb_bits_ok_def)
  have bm: "bm_ok (rdy_bm s)" "\<forall>e<OS_MAX_EVENTS. bm_ok (ev_bm s e)" using inv by (simp_all add: kinv0_def)
  have known: "OSTCBEventPtr ?c = NULL \<or> ev_at (OSTCBEventPtr ?c) \<noteq> None"
    "\<And>e. e < OS_MAX_EVENTS \<Longrightarrow> p \<in> waiters s e \<longleftrightarrow> e \<in> waits_for ?c"
    using may by (simp_all add: may_change_def)
  have multi: "multi_ok (OSTCBEventMultiPtr ?c)" using inv owns_index [OF own] by (simp add: kinv0_def)
  define s0 where "s0 = put_prio q (TCBp t) (put_prio po NULL s)"
  have v0: "OSTCBTbl s0 = OSTCBTbl s" "OSTCBPrioTbl s0 = (OSTCBPrioTbl s)(p := NULL, unat q := TCBp t)" "objs s0 = objs s"
    "ctl s0 = ctl s" "cur s0 = cur s" "OSTCBList s0 = OSTCBList s" "rdy_bm s0 = rdy_bm s" "ev_bm s0 = ev_bm s"
    "waiters s0 = waiters s" "rdy s0 = rdy s" "OSRdyTbl s0 = OSRdyTbl s"
    by (simp_all add: s0_def p)
  define s1 where "s1 = (if p \<in> rdy s then set_rdy_bm (bm_add q (bm_take_out (OSTCBPrio ?c) (rdy_bm s0))) s0 else s0)"
  have r1: "(if OSRdyTbl s0 (unat (OSTCBY ?c)) AND OSTCBBitX ?c \<noteq> 0 then do {
       s \<leftarrow> rdy_del (OSTCBY ?c) (OSTCBBitY ?c) (OSTCBBitX ?c) s0;
       rdy_add (prio_y q) (bit_mask (prio_y q)) (bit_mask (prio_x q)) s } else Some s0) = Some s1"
    using ready_bit [OF own] rdy_del_own [OF bits, of s0] add_new_prio(1) [OF q(1)]
    by (simp add: s1_def v0(11)) (simp add: kernel_defs)
  have s1: "lists_only s0 s1" "bm_ok (rdy_bm s1)" "rdy s1 = ren p q ` rdy s" "ev_bm s1 = ev_bm s" "waiters s1 = waiters s"
    using bm(1) pr q v0(7,8,9,10)
    by (auto simp: s1_def bm.inv_add bm.inv_take_out bm.members_add bm.members_take_out ren_image rdy_def)
  have t1: "OSTCBTbl s1 = OSTCBTbl s" using s1(1) v0(1) by (simp add: lists_only_def)
  define vs where "vs = (if OSTCBEventPtr ?c \<noteq> NULL then [OSTCBEventPtr ?c] else [])"
  have vs: "\<forall>v\<in>set vs. ev_at v \<noteq> None" "evs_of vs = (case OSTCBEventPtr ?c of EVp e \<Rightarrow> {e} | _ \<Rightarrow> {})"
    using known(1) by (auto simp: vs_def evs_of_def)
  have bm1: "\<forall>e<OS_MAX_EVENTS. bm_ok (ev_bm s1 e)" using bm(2) s1(4) by simp
  obtain s2 where r2: "?move vs s1 = Some s2"
    and s2: "lists_only s1 s2" "rdy_bm s2 = rdy_bm s1" "\<forall>e<OS_MAX_EVENTS. bm_ok (ev_bm s2 e)"
      "waiters s2 = replaced p q (evs_of vs) (waiters s1)"
    using ev_move_all_ok [OF bits pr(1) q vs(1) bm1] by (auto simp: ok_iff)
  have t2: "OSTCBTbl s2 = OSTCBTbl s" using s2(1) t1 by (simp add: lists_only_def)
  define ws where "ws = (case OSTCBEventMultiPtr ?c of None \<Rightarrow> [] | Some es \<Rightarrow> es)"
  have ws: "\<forall>v\<in>set ws. ev_at v \<noteq> None" "evs_of ws = multi_evs ?c"
    using multi by (auto simp: ws_def multi_ok_def multi_evs_def evs_of_def list_all_iff split: option.splits)
  obtain s3 where r3: "?move ws s2 = Some s3"
    and s3: "lists_only s2 s3" "rdy_bm s3 = rdy_bm s2" "\<forall>e<OS_MAX_EVENTS. bm_ok (ev_bm s3 e)"
      "waiters s3 = replaced p q (evs_of ws) (waiters s2)"
    using ev_move_all_ok [OF bits pr(1) q ws(1) s2(3)] by (auto simp: ok_iff)
  have t3: "OSTCBTbl s3 = OSTCBTbl s" using s3(1) t2 by (simp add: lists_only_def)
  have w3: "waiters s3 e = ren p q ` waiters s e" if "e < OS_MAX_EVENTS" for e
  proof -
    have "waiters s3 = replaced p q (waits_for ?c) (waiters s)"
      using s3(4) s2(4) s1(5) replaced_replaced [OF q(2)] by (simp add: vs(2) ws(2) waits_for_def Un_commute)
    then show ?thesis using known(2) [OF that] by (auto simp: replaced_def ren_image)
  qed
  have k3: "lists_only s0 s3" by (rule lists_only_trans [OF s1(1) lists_only_trans [OF s2(1) s3(1)]])
  have r2': "(if OSTCBEventPtr (OSTCBTbl s1 t) \<noteq> NULL then ?move [OSTCBEventPtr (OSTCBTbl s1 t)] s1 else Some s1) = Some s2"
  proof (cases "OSTCBEventPtr ?c = NULL")
    case True
    then show ?thesis using r2 unfolding vs_def t1 by simp
  next
    case False
    then show ?thesis using r2 unfolding vs_def t1 by (simp only: if_True not_False_eq_True)
  qed
  have r3': "(case OSTCBEventMultiPtr (OSTCBTbl s2 t) of None \<Rightarrow> Some s2 | Some es \<Rightarrow> ?move es s2) = Some s3"
    using r3 unfolding ws_def t2 by (cases "OSTCBEventMultiPtr ?c") simp_all
  have "chprio_body t q s0 = Some (upd_tcb t (set_prio q) s3)"
    unfolding chprio_body_def Let_def v0(1) r1 using r2' r3' by simp
  moreover have "only_tasks s (upd_tcb t (set_prio q) s3)"
  proof (rule only_tasks_trans)
    show "only_tasks s s0" unfolding s0_def by (rule only_tasks_trans [OF only_tasks_upd(4) only_tasks_upd(4)])
    have "only_tasks s0 s3" using k3 by (simp add: lists_only_def)
    then show "only_tasks s0 (upd_tcb t (set_prio q) s3)" using only_tasks_upd(5) only_tasks_trans by blast
  qed
  moreover have "chprio_done t p q s (upd_tcb t (set_prio q) s3)" if "only_tasks s (upd_tcb t (set_prio q) s3)"
    using that k3 t3 v0 s3(2,3) s2(2) s1(2,3) w3
    by (simp add: chprio_done_def lists_only_def rdy_def)
  ultimately show ?thesis by (simp add: s0_def)
qed

text \<open>The invariant: with the old entry still there this is a move; then the entry is cleared.\<close>

lemma chprio_done_inv:
  fixes po :: "8 word"
  assumes inv: "sinv s" and may: "may_change t p s" and po: "unat po = p" and q: "unat q < 63" and free: "OSTCBPrioTbl s (unat q) = NULL"
    and d: "chprio_done t p q s s'"
  shows "kinv0 s'" "oinv s'" "owns s' t (unat q)" "\<And>u r. u \<noteq> t \<Longrightarrow> owns s' u r = owns s u r" "\<not> owned s' p"
    "OSTCBCur s \<noteq> TCBp t \<Longrightarrow> sinv s'"
proof -
  have idle: "idle_entry t p s" "p \<noteq> 63" using may by (simp_all add: may_change_def)
  have own: "owns s t p" using idle(1) by (simp add: idle_entry_def)
  have pq: "p \<noteq> unat q" using free owns_PrioTbl [OF own] by auto
  have p64: "p < 64" by (rule owns_less_64 [OF own])
  have q64: "unat q < 64" using q by simp
  have freeq: "\<not> owned s (unat q)" using free by (simp add: owned_def)
  define m where "m = s'\<lparr>OSTCBPrioTbl := (OSTCBPrioTbl s)(unat q := TCBp t)\<rparr>"
  have mv: "moved t p q (rdy s) s m"
    using d by (auto simp: moved_def chprio_done_def m_def)
  note k = moved_kinv0 [OF sinvD(2) [OF inv] own idle(2) q64 freeq mv]
  have s'm: "s' = put_prio po NULL m"
    using d pq by (simp add: chprio_done_def m_def po fun_upd_twist)
  have mutexes: "ev_ptr s e \<noteq> TCBp t" if "e < OS_MAX_EVENTS" "ev_type s e = OS_EVENT_TYPE_MUTEX" for e
    using idle(1) that by (simp add: idle_entry_def)
  have mok: "mutex_ok s e" if "e < OS_MAX_EVENTS" "ev_type s e = OS_EVENT_TYPE_MUTEX" for e
    using oinvD(4) [OF sinvD(4) [OF inv] that(1)] that(2) by (simp add: obj_ok_def)
  have dat: "ev_data s' = ev_data s" "objs s' = objs s" using d by (simp_all add: chprio_done_def objs_def)
  note f = ev_data_fields [OF fun_cong [OF dat(1)]]
  have mutex: "mutex_ok s' e" if "e < OS_MAX_EVENTS" "ev_type s e = OS_EVENT_TYPE_MUTEX" for e
  proof -
    have tbl: "OSTCBPrioTbl s' = (OSTCBPrioTbl s)(p := NULL, unat q := TCBp t)" using d by (simp add: chprio_done_def)
    show ?thesis
      using mok [OF that] mutexes [OF that] free owns_PrioTbl [OF own] unfolding mutex_ok_def f tbl
      by (auto simp: Let_def split: vptr.splits if_splits)
  qed
  show o: "oinv s'"
    by (rule oinv_mutexes [OF sinvD(4) [OF inv] dat(2)]) (use d mutex in \<open>auto simp: chprio_done_def\<close>)
  have own': "owns s' u r \<longleftrightarrow> owns m u r" if "r \<noteq> p" for u r
    using that by (simp add: s'm owns_def po)
  have gone: "\<not> owns s' u p" for u by (simp add: s'm owns_def po)
  have nom: "\<not> owns m u p" for u
  proof
    assume u: "owns m u p"
    then have "OSTCBPrioTbl s p = TCBp u" using pq by (simp add: owns_def m_def)
    then have "u = t" using owns_PrioTbl [OF own] by simp
    then show False using u owns_prio [OF k(2)] owns_prio [OF u] pq by simp
  qed
  have eq: "owns s' = owns m"
  proof (intro ext)
    show "owns s' u r = owns m u r" for u r by (cases "r = p") (simp_all add: own' gone nom)
  qed
  show 1: "owns s' t (unat q)" using k(2) eq by simp
  show 2: "owns s' u r = owns s u r" if "u \<noteq> t" for u r
  proof
    assume "owns s u r"
    then show "owns s' u r" using k(3) that eq by simp
  next
    assume u: "owns s' u r"
    then have "r \<noteq> p" using gone by auto
    moreover have "r \<noteq> unat q" using owns_unique [OF u] 1 that by auto
    ultimately show "owns s u r"
      using u that d by (simp add: owns_def chprio_done_def)
  qed
  show "\<not> owned s' p" using gone by (auto simp: owned_def split: vptr.split)
  have owned: "owned s' r = owned m r" if "r < 64" for r
    using eq that owns_owned by (auto elim!: ownedE intro: owns_owned)
  have "kinv0 m" by (rule k(1))
  have ent: "entry_ok s' (OSTCBPrioTbl s' r)" if "r < 64" for r
  proof (cases "r = p")
    case True
    then show ?thesis by (simp add: s'm po entry_ok_def)
  next
    case False
    then have "entry_ok m (OSTCBPrioTbl m r)" "OSTCBPrioTbl s' r = OSTCBPrioTbl m r"
      using \<open>kinv0 m\<close> that by (simp_all add: kinv0_def s'm po)
    moreover have "OSTCBTbl s' = OSTCBTbl m" by (simp add: s'm)
    ultimately show ?thesis using eq by (auto simp: entry_ok_def split: vptr.splits)
  qed
  have "tasks_ok s'" using \<open>kinv0 m\<close> eq by (simp add: kinv0_def tasks_ok_def) (simp add: s'm)
  then show k0: "kinv0 s'"
    using \<open>kinv0 m\<close> ent owned unfolding kinv0_def by (simp add: s'm)
  show "sinv s'" if "OSTCBCur s \<noteq> TCBp t"
  proof -
    have "cur s' = cur s" using d by (simp add: chprio_done_def)
    then have "OSTCBCur s' = OSTCBCur s" "OSPrioCur s' = OSPrioCur s" by (simp_all add: cur_def)
    moreover have "cur_ix s \<noteq> t" using sinv_cur(1) [OF inv] that by auto
    ultimately have "cur_ok s'"
      using sinv_cur(1,2) [OF inv] 2 [of "cur_ix s" "unat (OSPrioCur s)"] by (simp add: cur_ok_def)
    then show ?thesis using k0 o by (simp add: sinv_def kinv_def)
  qed
qed

text \<open>What the call does to the tasks.\<close>

definition prio_changed :: "nat \<Rightarrow> nat \<Rightarrow> 8 word \<Rightarrow> kst \<Rightarrow> kst \<Rightarrow> bool" where
  "prio_changed t p q s s' \<longleftrightarrow> owns s' t (unat q) \<and> \<not> owned s' p \<and> (\<forall>u r. u \<noteq> t \<longrightarrow> owns s' u r = owns s u r)
     \<and> OSTCBPrioTbl s' = (OSTCBPrioTbl s)(p := NULL, unat q := TCBp t)
     \<and> rdy s' = ren p q ` rdy s \<and> (\<forall>e<OS_MAX_EVENTS. waiters s' e = ren p q ` waiters s e)
     \<and> tcbs s' = (tcbs s)(t := set_prio q (tcbs s t)) \<and> objs s' = objs s"

lemma chprio_done_changed:
  fixes po :: "8 word"
  assumes "sinv s" "may_change t p s" "unat po = p" "unat q < 63" "OSTCBPrioTbl s (unat q) = NULL"
    and d: "chprio_done t p q s s1" and r: "resched s1 s2"
  shows "prio_changed t p q s s2"
proof -
  note i = chprio_done_inv [OF assms(1-5) d]
  note q = reschedD [OF r]
  have o: "owns s2 = owns s1" "owned s2 = owned s1" using owns_cong [OF q(5)] owned_cong [OF q(5)] by simp_all
  have "tcbs s1 = (tcbs s)(t := set_prio q (tcbs s t))"
    using d by (auto simp: chprio_done_def tcbs_def set_prio_def fun_eq_iff)
  then show ?thesis
    using d i(3-5) q ids_PrioTbl [OF q(5)] by (simp add: prio_changed_def chprio_done_def o)
qed

lemma OSTaskChangePrio_ok:
  assumes inv: "sinv s" and run: "OSRunning s" and old: "oldprio < OS_LOWEST_PRIO \<or> oldprio = OS_PRIO_SELF"
    and new: "newprio < OS_LOWEST_PRIO" and free: "OSTCBPrioTbl s (unat newprio) = NULL"
    and entry: "OSTCBPrioTbl s (unat (the_prio oldprio s)) = TCBp t" and may: "may_change t (unat (the_prio oldprio s)) s"
    and self: "the_prio oldprio s = OSPrioCur s \<longrightarrow> OSIntNesting s = 0 \<and> OSLockNesting s = 0"
  shows "ok (OSTaskChangePrio oldprio newprio s) (\<lambda>(r, s'). kept s s' \<and> r = OS_ERR_NONE
    \<and> prio_changed t (unat (the_prio oldprio s)) newprio s s'
    \<and> (\<exists>s1. OS_Sched s1 = Some s' \<and> chprio_done t (unat (the_prio oldprio s)) newprio s s1))"
proof -
  let ?p = "the_prio oldprio s"
  have "oldprio \<le> OS_LOWEST_PRIO \<or> oldprio = OS_PRIO_SELF" using old by auto
  note sp = self_prio_ok [OF inv this]
  have own: "owns s t (unat ?p)" using may by (simp add: may_change_def idle_entry_def)
  have q: "unat newprio < 63" "unat newprio < 64" using new by (simp_all add: word_less_nat_alt)
  have pq: "unat ?p \<noteq> unat newprio" using free entry by auto
  obtain s1 where r1: "chprio_body t newprio (put_prio newprio (TCBp t) (put_prio ?p NULL s)) = Some s1"
    and d: "chprio_done t (unat ?p) newprio s s1"
    using chprio_body_ok [OF sinvD(2) [OF inv] may refl q(2) pq] by (auto simp: ok_iff)
  have c1: "ctl s1 = ctl s" "cur s1 = cur s" using d by (simp_all add: chprio_done_def)
  then have v1: "OSRunning s1" "OSIntNesting s1 = OSIntNesting s" "OSLockNesting s1 = OSLockNesting s"
    "OSPrioCur s1 = OSPrioCur s" "OSTCBCur s1 = OSTCBCur s"
    using run by (simp_all add: ctl_def cur_def)
  have call: "OSTaskChangePrio oldprio newprio s = do { s2 \<leftarrow> OS_Sched s1; Some (OS_ERR_NONE, s2) }"
    unfolding OSTaskChangePrio_run [OF old new free sp(1,2) entry owns_index [OF own] owns_bits [OF own]]
    using r1 v1(1) by simp
  note i = chprio_done_inv [OF inv may refl q(1) free d]
  have sched: "ok (OS_Sched s1) (\<lambda>s2. sinv s2 \<and> resched s1 s2 \<and> settled s2 \<and> ctl s2 = ctl s1)"
  proof (cases "OSTCBCur s = TCBp t")
    case False
    from OS_Sched_sinv [OF i(6) [OF False]] show ?thesis by (auto elim!: ok_mono)
  next
    case True
    then have p: "?p = OSPrioCur s"
      using own sinv_cur(1,2) [OF inv] owns_prio [OF own] owns_prio [OF sinv_cur(2) [OF inv]]
      by (simp add: word_unat_eq_iff)
    then have nest: "OSIntNesting s1 = 0" "OSLockNesting s1 = 0" using self v1 by simp_all
    have "Min (rdy s1) \<noteq> unat (OSPrioCur s1)"
    proof
      assume "Min (rdy s1) = unat (OSPrioCur s1)"
      then have "owned s1 (unat ?p)" using kinv0_rdy [OF i(1) highest_ready(3) [OF i(1)]] v1(4) p by simp
      then show False using i(5) by simp
    qed
    then have c: "cur_ok s1 \<or> unat (OSPrioCur s1) \<noteq> Min (rdy s1)" by simp
    have "ok (switch s1) (\<lambda>s2. sinv s2 \<and> resched s1 s2 \<and> settled s2 \<and> ctl s2 = ctl s1)"
      by (rule ok_mono [OF switch_kinv0 [OF i(1) c]])
        (use oinv_resched [OF i(2)] in \<open>auto simp: sinv_def reschedD settled_def\<close>)
    then show ?thesis using nest by (simp add: OS_Sched_switch)
  qed
  from sched obtain s2 where s2: "OS_Sched s1 = Some s2" "sinv s2" "resched s1 s2" "settled s2" "ctl s2 = ctl s1" by (auto simp: ok_iff)
  have "prio_changed t (unat ?p) newprio s s2" by (rule chprio_done_changed [OF inv may refl q(1) free d s2(3)])
  then show ?thesis unfolding call using s2 d c1(1) by auto
qed

lemma OSTaskChangePrio_refused:
  assumes inv: "sinv s"
    and "oldprio \<ge> OS_LOWEST_PRIO \<and> oldprio \<noteq> OS_PRIO_SELF \<or> newprio \<ge> OS_LOWEST_PRIO
      \<or> OSTCBPrioTbl s (unat newprio) \<noteq> NULL \<or> OSTCBPrioTbl s (unat (the_prio oldprio s)) \<in> {NULL, OS_TCB_RESERVED}"
  shows "\<exists>r. OSTaskChangePrio oldprio newprio s = Some (r, s) \<and> r \<noteq> OS_ERR_NONE"
proof (cases "oldprio \<ge> OS_LOWEST_PRIO \<and> oldprio \<noteq> OS_PRIO_SELF \<or> newprio \<ge> OS_LOWEST_PRIO")
  case False
  then have "oldprio \<le> OS_LOWEST_PRIO \<or> oldprio = OS_PRIO_SELF" "unat newprio < 64"
    by (auto simp: not_le word_less_nat_alt word_le_nat_alt)
  note sp = self_prio_ok [OF inv this(1)]
  show ?thesis
    using False assms(2) sp \<open>unat newprio < 64\<close> by (auto simp: OSTaskChangePrio_def prio_tbl_def)
qed (auto simp: OSTaskChangePrio_def)

interpretation TaskChangePrio: sched_call
  "\<lambda>s. OSRunning s \<and> (\<forall>t. OSTCBPrioTbl s (unat (the_prio oldprio s)) = TCBp t \<longrightarrow> may_change t (unat (the_prio oldprio s)) s)
    \<and> (the_prio oldprio s = OSPrioCur s \<longrightarrow> OSIntNesting s = 0 \<and> OSLockNesting s = 0)"
  "OSTaskChangePrio oldprio newprio" for oldprio newprio
proof (rule sched_callI, elim conjE)
  fix s
  assume inv: "sinv s" and run: "OSRunning s"
    and may: "\<forall>t. OSTCBPrioTbl s (unat (the_prio oldprio s)) = TCBp t \<longrightarrow> may_change t (unat (the_prio oldprio s)) s"
    and self: "the_prio oldprio s = OSPrioCur s \<longrightarrow> OSIntNesting s = 0 \<and> OSLockNesting s = 0"
  let ?refused = "oldprio \<ge> OS_LOWEST_PRIO \<and> oldprio \<noteq> OS_PRIO_SELF \<or> newprio \<ge> OS_LOWEST_PRIO
      \<or> OSTCBPrioTbl s (unat newprio) \<noteq> NULL \<or> OSTCBPrioTbl s (unat (the_prio oldprio s)) \<in> {NULL, OS_TCB_RESERVED}"
  show "ok (OSTaskChangePrio oldprio newprio s) (\<lambda>(r, s'). kept s s')"
  proof (cases ?refused)
    case True
    then show ?thesis using OSTaskChangePrio_refused [OF inv True] inv by auto
  next
    case False
    then have a: "oldprio < OS_LOWEST_PRIO \<or> oldprio = OS_PRIO_SELF" "newprio < OS_LOWEST_PRIO"
      "OSTCBPrioTbl s (unat newprio) = NULL" by (auto simp: not_le)
    have "oldprio \<le> OS_LOWEST_PRIO \<or> oldprio = OS_PRIO_SELF" using a(1) by auto
    note sp = self_prio_ok(2) [OF inv this]
    from inv sp show ?thesis
    proof (cases rule: entryE)
      case (3 t)
      from OSTaskChangePrio_ok [OF inv run a 3(1) may [rule_format, OF 3(1)] self] show ?thesis by (auto elim!: ok_mono2)
    qed (use False in auto)
  qed
qed

section \<open>Property\<close>

text \<open>
  C40 (OSTaskChangePrio_moves): when the new priority is free, the task has it afterwards and the old one is
  free; the task has moved from the old to the new priority in the ready list and in the wait list of
  every event it waits for, wherever it was in one.  Before the scheduler runs, that, the two entries of the
  table of priorities and the priority and the masks of the task are all that has changed in the kernel,
  and a scheduled kernel stays scheduled.
\<close>

theorem OSTaskChangePrio_moves:
  assumes "sinv s" "OSRunning s" "settled s" "oldprio < OS_LOWEST_PRIO" "newprio < OS_LOWEST_PRIO"
    "OSTCBPrioTbl s (unat newprio) = NULL" "OSTCBPrioTbl s (unat oldprio) = TCBp t" "may_change t (unat oldprio) s"
    "oldprio = OSPrioCur s \<longrightarrow> OSIntNesting s = 0 \<and> OSLockNesting s = 0"
  shows "\<exists>s1 s'. OSTaskChangePrio oldprio newprio s = Some (OS_ERR_NONE, s') \<and> OS_Sched s1 = Some s' \<and> sinv s' \<and> settled s'
    \<and> s1 = s\<lparr>OSRdyGrp := OSRdyGrp s1, OSRdyTbl := OSRdyTbl s1, OSEventTbl_ecb := OSEventTbl_ecb s1,
        OSTCBPrioTbl := (OSTCBPrioTbl s)(unat oldprio := NULL, unat newprio := TCBp t),
        OSTCBTbl := (OSTCBTbl s)(t := (OSTCBTbl s t)\<lparr>OSTCBPrio := newprio, OSTCBY := prio_y newprio, OSTCBX := prio_x newprio,
          OSTCBBitY := bit_mask (prio_y newprio), OSTCBBitX := bit_mask (prio_x newprio)\<rparr>)\<rparr>
    \<and> ev_data s1 = ev_data s
    \<and> rdy s1 = (if unat oldprio \<in> rdy s then insert (unat newprio) (rdy s - {unat oldprio}) else rdy s)
    \<and> (\<forall>e<OS_MAX_EVENTS. waiters s1 e = (if unat oldprio \<in> waiters s e
          then insert (unat newprio) (waiters s e - {unat oldprio}) else waiters s e))
    \<and> rdy s' = rdy s1 \<and> (\<forall>e<OS_MAX_EVENTS. waiters s' e = waiters s1 e) \<and> objs s' = objs s \<and> ctl s' = ctl s
    \<and> owns s' t (unat newprio) \<and> OSTCBPrioTbl s' (unat oldprio) = NULL
    \<and> (\<forall>u r. u \<noteq> t \<longrightarrow> owns s' u r = owns s u r)"
proof -
  have p: "the_prio oldprio s = oldprio" using assms(4) by (auto simp: the_prio_def)
  have ne: "unat newprio \<noteq> unat oldprio" using assms(6,7) by auto
  obtain s1 s' where run: "OSTaskChangePrio oldprio newprio s = Some (OS_ERR_NONE, s')" "OS_Sched s1 = Some s'"
    and k: "kept s s'" and c: "prio_changed t (unat oldprio) newprio s s'" and d: "chprio_done t (unat oldprio) newprio s s1"
    using OSTaskChangePrio_ok [of s oldprio newprio t] assms by (auto simp: p ok_iff)
  have "s1 = s\<lparr>OSRdyGrp := OSRdyGrp s1, OSRdyTbl := OSRdyTbl s1, OSEventTbl_ecb := OSEventTbl_ecb s1,
        OSTCBPrioTbl := (OSTCBPrioTbl s)(unat oldprio := NULL, unat newprio := TCBp t),
        OSTCBTbl := (OSTCBTbl s)(t := (OSTCBTbl s t)\<lparr>OSTCBPrio := newprio, OSTCBY := prio_y newprio, OSTCBX := prio_x newprio,
          OSTCBBitY := bit_mask (prio_y newprio), OSTCBBitX := bit_mask (prio_x newprio)\<rparr>)\<rparr>"
    using d unfolding chprio_done_def only_tasks_def set_prio_def by metis
  moreover have "ev_data s1 = ev_data s" using d by (simp add: chprio_done_def objs_def)
  moreover have "rdy s1 = ren (unat oldprio) newprio ` rdy s" "rdy s' = ren (unat oldprio) newprio ` rdy s"
    "\<forall>e<OS_MAX_EVENTS. waiters s1 e = ren (unat oldprio) newprio ` waiters s e"
    "\<forall>e<OS_MAX_EVENTS. waiters s' e = ren (unat oldprio) newprio ` waiters s e"
    using c d by (simp_all add: chprio_done_def prio_changed_def)
  moreover have "owns s' t (unat newprio)" "OSTCBPrioTbl s' (unat oldprio) = NULL" "\<forall>u r. u \<noteq> t \<longrightarrow> owns s' u r = owns s u r"
    "objs s' = objs s"
    using c ne by (simp_all add: prio_changed_def)
  ultimately show ?thesis using run k assms(3) unfolding ren_image by (intro exI conjI) (assumption | simp)+
qed

lemma OSTaskChangePrio_moves_witness:
  "ok (OSTaskChangePrio 10 12 demo) (\<lambda>(r, s'). r = OS_ERR_NONE \<and> owns s' 1 12 \<and> OSTCBPrioTbl s' 10 = NULL
    \<and> rdy s' = {30, 63} \<and> waiters s' 0 = {12})"
proof -
  have t: "OSTCBTbl demo (Suc 0) = demo_tcb 10 1 (EVp 0) (TCBp 0) (TCBp 2) 5" by (simp add: demo_def)
  have "waits_for (OSTCBTbl demo 1) = {0}"
    by (simp add: waits_for_def multi_evs_def t demo_tcb_def)
  then have "\<forall>e<OS_MAX_EVENTS. 10 \<in> waiters demo e \<longleftrightarrow> e \<in> waits_for (OSTCBTbl demo 1)"
    by (auto simp: demo_waiting)
  moreover have "\<forall>q<64. OSTCBPrioTbl demo q = TCBp 1 \<longrightarrow> q = 10" by (simp add: demo_PrioTbl)
  moreover have "\<forall>e<OS_MAX_EVENTS. ev_type demo e = OS_EVENT_TYPE_MUTEX \<longrightarrow> ev_ptr demo e \<noteq> TCBp 1"
    by (simp add: demo_events)
  moreover have "OSTCBEventPtr (OSTCBTbl demo 1) = EVp 0" by (simp add: t demo_tcb_def)
  ultimately have "may_change 1 10 demo"
    using demo_owns(2) by (simp add: may_change_def idle_entry_def)
  then show ?thesis
    using OSTaskChangePrio_moves [OF demo_sinv _ demo_settled, of 10 12 1]
    by (auto simp: demo_ctl demo_PrioTbl demo_ready demo_waiting)
qed

end
