(* ===== verification/Os_Stat.thy ===== *)
theory Os_Stat
  imports Os_Init Os_Task_Props
begin

text \<open>
  The statistics task (\<open>OS_TaskStat\<close> and \<open>OS_TaskStatStkChk\<close> in \<open>os_core.c\<close>): it always finishes its round, keeps
  the invariant of the kernel, and what it stores is a percentage, within the range in which the
  quotient of the idle counters fits its signed byte.
\<close>

section \<open>The stacks of all tasks\<close>

text \<open>A stack that may be checked has its lowest word in memory and some word that is not zero.\<close>

definition stk_ok :: "kst \<Rightarrow> nat \<Rightarrow> bool" where
  "stk_ok s t \<longleftrightarrow> (let c = OSTCBTbl s t in OSTCBOpt c AND OS_TASK_OPT_STK_CHK \<noteq> 0 \<longrightarrow>
     (\<exists>b k. OSTCBStkBottom c = Addr b \<and> region_ok b (OSTCBStkSize c) 8 \<and> k < unat (OSTCBStkSize c)
        \<and> ptr_mem s (stk_word b k) \<noteq> NULL))"

definition stks_ok :: "kst \<Rightarrow> bool" where
  "stks_ok s \<longleftrightarrow> (\<forall>p<64. \<forall>t. OSTCBPrioTbl s p = TCBp t \<longrightarrow> stk_ok s t)"

text \<open>What the check changes: it stores where the stack begins and how much of it is used.\<close>

definition stk_stored :: "kst \<Rightarrow> kst \<Rightarrow> bool" where
  "stk_stored s s' \<longleftrightarrow> unread s s' \<and> ptr_mem s' = ptr_mem s \<and> OSCPUUsage s' = OSCPUUsage s
     \<and> OSIdleCtrMax s' = OSIdleCtrMax s \<and> OSIdleCtrRun s' = OSIdleCtrRun s
     \<and> (\<forall>t. OSTCBOpt (OSTCBTbl s' t) = OSTCBOpt (OSTCBTbl s t) \<and> OSTCBStkBottom (OSTCBTbl s' t) = OSTCBStkBottom (OSTCBTbl s t)
          \<and> OSTCBStkSize (OSTCBTbl s' t) = OSTCBStkSize (OSTCBTbl s t))"

lemma stk_stored_refl [simp]: "stk_stored s s"
  by (simp add: stk_stored_def)

lemma stk_stored_trans: "stk_stored s s' \<Longrightarrow> stk_stored s' s'' \<Longrightarrow> stk_stored s s''"
  unfolding stk_stored_def using unread_trans by metis

lemma stk_stored_stks_ok: "stk_stored s s' \<Longrightarrow> stks_ok s' \<longleftrightarrow> stks_ok s"
  using ids_PrioTbl [of s' s] unreadD(1) [of s s'] by (simp add: stks_ok_def stk_ok_def stk_stored_def Let_def)

lemma stk_stored_upd: "stk_stored s (upd_tcb t (\<lambda>c. c\<lparr>OSTCBStkBase := f c, OSTCBStkUsed := n\<rparr>) s)"
proof -
  have "unread s (upd_tcb t (\<lambda>c. c\<lparr>OSTCBStkBase := f c, OSTCBStkUsed := n\<rparr>) s)" by (rule unread_tcb) simp_all
  then show ?thesis by (simp add: stk_stored_def) (simp add: upd_tcb_def)
qed

lemma stk_chk_prio_ok:
  assumes inv: "sinv s" and stks: "stks_ok s" and prio: "unat prio < 64"
  shows "ok (stk_chk_prio prio s) (stk_stored s)"
proof -
  have le: "prio \<le> OS_LOWEST_PRIO" using prio by (simp add: word_le_nat_alt)
  then have self: "prio \<noteq> OS_PRIO_SELF" by auto
  have tp: "the_prio prio s = prio" using self by (simp add: the_prio_def)
  note sp = self_prio_ok [OF inv disjI1 [OF le], unfolded tp]
  let ?p = "OSTCBPrioTbl s (unat prio)"
  have none: "OSTaskStkChk prio (Addr 1) s = Some (OS_ERR_TASK_NOT_EXIST, Some \<lparr>OSFree = 0, OSUsed = 0\<rparr>)"
    if "?p = NULL \<or> ?p = OS_TCB_RESERVED"
    using that sp prio le by (auto simp: OSTaskStkChk_def prio_tbl_def Let_def)
  show ?thesis
  proof (cases "?p = NULL \<or> ?p = OS_TCB_RESERVED")
    case True
    then show ?thesis using none by (simp add: stk_chk_prio_def)
  next
    case False
    then obtain t where t: "t < OS_N_TCBS" "?p = TCBp t" using entryE [OF inv sp(2)] by metis
    have at: "tcb_at ?p = Some t" using t by simp
    show ?thesis
    proof (cases "OSTCBOpt (OSTCBTbl s t) AND OS_TASK_OPT_STK_CHK = 0")
      case True
      then have "OSTaskStkChk prio (Addr 1) s = Some (OS_ERR_TASK_OPT, Some \<lparr>OSFree = 0, OSUsed = 0\<rparr>)"
        using sp prio le False t by (auto simp: OSTaskStkChk_def prio_tbl_def Let_def)
      then show ?thesis by (simp add: stk_chk_prio_def)
    next
      case opt: False
      have "stk_ok s t" using stks prio t(2) unfolding stks_ok_def by blast
      with opt obtain b k where b: "OSTCBStkBottom (OSTCBTbl s t) = Addr b" "region_ok b (OSTCBStkSize (OSTCBTbl s t)) 8"
        and k: "k < unat (OSTCBStkSize (OSTCBTbl s t))" "ptr_mem s (stk_word b k) \<noteq> NULL"
        unfolding stk_ok_def Let_def by blast
      define n where "n = (LEAST k. ptr_mem s (stk_word b k) \<noteq> NULL)"
      have n: "ptr_mem s (stk_word b n) \<noteq> NULL" "\<And>j. j < n \<Longrightarrow> ptr_mem s (stk_word b j) = NULL" "n < unat (OSTCBStkSize (OSTCBTbl s t))"
        unfolding n_def using LeastI [where P = "\<lambda>k. ptr_mem s (stk_word b k) \<noteq> NULL", OF k(2)] not_less_Least
          le_less_trans [OF Least_le [where P = "\<lambda>k. ptr_mem s (stk_word b k) \<noteq> NULL", OF k(2)] k(1)] by blast+
      have ent: "OSTCBPrioTbl s (unat (the_prio prio s)) = TCBp t" using t(2) tp by simp
      have chk: "OSTaskStkChk prio (Addr 1) s
          = Some (OS_ERR_NONE, Some \<lparr>OSFree = of_nat n, OSUsed = OSTCBStkSize (OSTCBTbl s t) - of_nat n\<rparr>)"
        by (rule OSTaskStkChk_ok [OF inv disjI1 [OF le] _ ent opt b n(3,2,1)]) simp
      have tbl: "prio_tbl s prio = Some (TCBp t)" using prio t by (simp add: prio_tbl_def)
      show ?thesis
        unfolding stk_chk_prio_def chk tbl using t(1) b(1) stk_stored_upd by simp
    qed
  qed
qed

lemma stk_chk_all_ok:
  assumes "sinv s" "stks_ok s" "list_all (\<lambda>prio. unat prio < 64) ps"
  shows "ok (stk_chk_all ps s) (stk_stored s)"
  using assms
proof (induction ps arbitrary: s)
  case (Cons prio ps)
  obtain s1 where s1: "stk_chk_prio prio s = Some s1" "stk_stored s s1"
    using stk_chk_prio_ok [OF Cons.prems(1,2)] Cons.prems(3) by (auto simp: ok_iff)
  have "sinv s1" "stks_ok s1"
    using unread_sinv [OF Cons.prems(1)] s1(2) stk_stored_stks_ok [OF s1(2)] Cons.prems(2) by (simp_all add: stk_stored_def)
  then show ?case using Cons.IH [of s1] Cons.prems(3) s1 by (auto elim!: ok_mono intro: stk_stored_trans)
qed simp

lemma OS_TaskStatStkChk_ok:
  assumes "sinv s" "stks_ok s"
  shows "ok (OS_TaskStatStkChk s) (stk_stored s)"
  unfolding OS_TaskStatStkChk_def
  by (rule stk_chk_all_ok [OF assms]) (auto simp: list_all_iff unat_of_nat)

section \<open>The usage\<close>

lemma sint8_nonneg: "0 \<le> sint (w :: 8 word) \<longleftrightarrow> unat w < 128"
proof -
  have "unat w div 128 = (if unat w < 128 then 0 else 1)" using unat_lt_256 [of w] by auto
  moreover have "bit w 7 \<longleftrightarrow> odd (unat w div 128)"
    using bit_unsigned_iff [of w 7, where ?'a = nat] by (simp add: bit_iff_odd [of "unat w"])
  moreover have "bit w 7 \<longleftrightarrow> sint w < 0" using bit_last_iff [of w] by simp
  ultimately show ?thesis by (auto split: if_splits)
qed

lemma usage_byte:
  fixes q :: "32 word"
  assumes "unat q \<le> 228"
  shows "0 \<le> sint ((100 :: 8 word) - ucast q) \<longleftrightarrow> unat q \<le> 100"
    "unat q \<le> 100 \<Longrightarrow> unat ((100 :: 8 word) - ucast q) = 100 - unat q"
proof -
  have u: "unat (ucast q :: 8 word) = unat q" using assms by (simp add: unsigned_ucast_eq take_bit_nat_eq_self)
  show 2: "unat ((100 :: 8 word) - ucast q) = 100 - unat q" if "unat q \<le> 100"
    using that u by (simp add: unat_sub word_le_nat_alt)
  have "unat ((100 :: 8 word) - ucast q) = 356 - unat q" if "100 < unat q"
    using that u assms by (simp add: unat_sub_if' word_le_nat_alt)
  then show "0 \<le> sint ((100 :: 8 word) - ucast q) \<longleftrightarrow> unat q \<le> 100"
    using 2 assms by (cases "unat q \<le> 100") (simp_all add: sint8_nonneg)
qed

section \<open>The contract of the parts of \<open>OSStatInit\<close> and of the two tasks\<close>

text \<open>The counters of the idle task are not read by the invariant.\<close>

lemma unread_counters [simp]:
  "unread s (s\<lparr>OSIdleCtr := n\<rparr>)" "unread s (s\<lparr>OSIdleCtrMax := n\<rparr>)" "unread s (s\<lparr>OSIdleCtrRun := n\<rparr>)"
  "unread s (s\<lparr>OSStatRdy := b\<rparr>)" "unread s (s\<lparr>OSCPUUsage := u\<rparr>)"
  by (simp_all add: unread_def ids_def ctl_def cur_def rdy_bm_def ev_bm_def ev_data_def clock_def fun_eq_iff)

lemma kept_trans: "kept s s1 \<Longrightarrow> kept s1 s2 \<Longrightarrow> kept s s2"
  by simp

lemma dly_kept:
  assumes "sinv s" "may_block s" "unread s s1"
  shows "ok (OSTimeDly n s1) (\<lambda>s'. kept s s')"
proof -
  have 1: "kept s s1" by (rule unread_kept [OF assms(1,3)])
  have "may_block s1" using assms(2) unreadD(3) [OF assms(3)] by (simp add: may_block_def cur_def)
  from OSTimeDly_ok [OF _ this, of n] 1 show ?thesis by (auto elim!: ok_mono)
qed

interpretation StatInit: sched_call may_block "\<lambda>s. map_option (Pair ()) (OSStatInit s)"
  by (rule sched_callI) (use dly_kept [OF _ _ unread_refl] in \<open>fastforce simp: OSStatInit_def ok_iff\<close>)

interpretation StatInit_zero: sched_call may_block "\<lambda>s. map_option (Pair ()) (OSStatInit_zero s)"
  by (rule sched_callI) (use dly_kept [OF _ _ unread_counters(1)] in \<open>fastforce simp: OSStatInit_zero_def ok_iff\<close>)

interpretation StatInit_done: sched_call "\<lambda>s. True" "\<lambda>s. Some ((), OSStatInit_done s)"
proof (rule sched_callI)
  fix s
  assume inv: "sinv s"
  have "unread s (OSStatInit_done s)" unfolding OSStatInit_done_def by (rule unread_trans [of _ "s\<lparr>OSIdleCtrMax := OSIdleCtr s\<rparr>"]) simp_all
  from unread_kept [OF inv this] show "ok (Some ((), OSStatInit_done s)) (\<lambda>(r, s'). kept s s')" by simp
qed

interpretation TaskIdle: sched_call "\<lambda>s. True" "\<lambda>s. Some ((), OS_TaskIdle s)"
  by (rule sched_callI) (use unread_kept [OF _ unread_counters(1)] in \<open>simp add: OS_TaskIdle_def\<close>)

interpretation TaskStat_wait: sched_call may_block OS_TaskStat_wait
proof (rule sched_callI)
  fix s
  assume inv: "sinv s" and idle: "may_block s"
  show "ok (OS_TaskStat_wait s) (\<lambda>(r, s'). kept s s')"
    using dly_kept [OF inv idle unread_refl, of "2 * OS_TICKS_PER_SEC div 10"] inv by (auto simp: OS_TaskStat_wait_def ok_iff)
qed

interpretation TaskStat_begin: sched_call
  "\<lambda>s. may_block s \<and> own_entry (the_prio OS_PRIO_SELF s) s" "\<lambda>s. map_option (Pair ()) (OS_TaskStat_begin s)"
proof (rule sched_callI, elim conjE)
  fix s
  assume inv: "sinv s" and pre: "may_block s" "own_entry (the_prio OS_PRIO_SELF s) s"
  let ?s1 = "s\<lparr>OSIdleCtrMax := OSIdleCtrMax s div 100\<rparr>"
  let ?s2 = "?s1\<lparr>OSCPUUsage := 0\<rparr>"
  have u: "unread s ?s1" "unread s ?s2" by (simp, rule unread_trans [of _ ?s1]) simp_all
  note k = unread_kept [OF inv u(1)] unread_kept [OF inv u(2)]
  have pre2: "may_block ?s2" "own_entry (the_prio OS_PRIO_SELF ?s2) ?s2"
    using pre by (simp_all add: may_block_def own_entry_def the_prio_def owns_def)
  obtain r s' where run: "OSTaskSuspend OS_PRIO_SELF ?s2 = Some (r, s')" "sinv s'" "ctl s' = ctl ?s2" "settled ?s2 \<longrightarrow> settled s'"
    using TaskSuspend.total [of ?s2 OS_PRIO_SELF] TaskSuspend.settles [of ?s2 OS_PRIO_SELF] k(2) pre2 by (auto simp: ok_iff)
  have "OS_TaskStat_begin s = (if OSIdleCtrMax s div 100 = 0 then Some s' else Some ?s1)"
    using run(1) by (cases "OSIdleCtrMax s div 100 = 0") (simp_all add: OS_TaskStat_begin_def Let_def)
  moreover have "kept s s'" using k(2) run(2-4) by metis
  ultimately show "ok (map_option (Pair ()) (OS_TaskStat_begin s)) (\<lambda>(r, s'). kept s s')" using k(1) by simp
qed

interpretation TaskStat_go: sched_call "\<lambda>s. True" "\<lambda>s. Some ((), OS_TaskStat_go s)"
  by (rule sched_callI) (use unread_kept [OF _ unread_counters(1)] in \<open>simp add: OS_TaskStat_go_def\<close>)

interpretation TaskStat_loop: sched_call may_block "\<lambda>s. map_option (Pair ()) (OS_TaskStat_loop s)"
  by (rule sched_callI) (use dly_kept [OF _ _ unread_refl] in \<open>fastforce simp: OS_TaskStat_loop_def ok_iff\<close>)

interpretation TaskStat_zero: sched_call may_block "\<lambda>s. map_option (Pair ()) (OS_TaskStat_zero s)"
  by (rule sched_callI) (use dly_kept [OF _ _ unread_counters(1)] in \<open>fastforce simp: OS_TaskStat_zero_def ok_iff\<close>)

interpretation TaskStat_usage: sched_call "\<lambda>s. stks_ok s \<and> OSIdleCtrMax s \<noteq> 0" "\<lambda>s. map_option (Pair ()) (OS_TaskStat_usage s)"
proof (rule sched_callI, elim conjE)
  fix s
  assume inv: "sinv s" and pre: "stks_ok s" "OSIdleCtrMax s \<noteq> 0"
  have chk: "ok (map_option (Pair ()) (OS_TaskStatStkChk s1)) (\<lambda>(r, s'). kept s s')"
    if u: "unread s s1" and same: "OSTCBTbl s1 = OSTCBTbl s" "OSTCBPrioTbl s1 = OSTCBPrioTbl s" "ptr_mem s1 = ptr_mem s" for s1
  proof -
    have "stks_ok s1" using pre(1) same by (simp add: stks_ok_def stk_ok_def)
    from OS_TaskStatStkChk_ok [OF unread_sinv [OF inv u] this] obtain s' where "OS_TaskStatStkChk s1 = Some s'" "unread s1 s'"
      by (auto simp: ok_iff stk_stored_def)
    then show ?thesis using unread_kept [OF inv unread_trans [OF u]] by simp
  qed
  have "unread s (s\<lparr>OSIdleCtrRun := OSIdleCtr s, OSCPUUsage := u\<rparr>)"
    "unread s (s\<lparr>OSIdleCtrRun := OSIdleCtr s, OSCPUUsage := u, OSIdleCtrMax := m\<rparr>)" for u m
    by (simp_all add: unread_def ids_def ctl_def cur_def rdy_bm_def ev_bm_def ev_data_def clock_def fun_eq_iff)
  then show "ok (map_option (Pair ()) (OS_TaskStat_usage s)) (\<lambda>(r, s'). kept s s')"
    using pre(2) by (auto simp: OS_TaskStat_usage_def Let_def intro!: chk)
qed

section \<open>Property\<close>

text \<open>
  C24 (TaskStat_percent): with the idle counter of the last tenth of a second at most 228 times its calibrated
  hundredth, the round of the statistics task ends, keeps the invariant of the kernel and whether the
  right task runs, and stores 100 less the quotient when that is a percentage; else it stores 0 and
  calibrates anew, to a value that is not zero, so that the next round does not divide by zero.
\<close>

theorem TaskStat_percent:
  assumes "sinv s" "stks_ok s" "OSIdleCtrMax s \<noteq> 0" "unat (OSIdleCtr s) div unat (OSIdleCtrMax s) \<le> 228"
  shows "ok (OS_TaskStat_usage s) (\<lambda>s'. kept s s' \<and> rdy s' = rdy s \<and> OSIdleCtrMax s' \<noteq> 0
    \<and> (if unat (OSIdleCtr s) div unat (OSIdleCtrMax s) \<le> 100
       then unat (OSCPUUsage s') = 100 - unat (OSIdleCtr s) div unat (OSIdleCtrMax s) \<and> OSIdleCtrMax s' = OSIdleCtrMax s
       else OSCPUUsage s' = 0 \<and> unat (OSIdleCtrMax s') = unat (OSIdleCtr s) div 100))"
    (is "ok _ ?P")
proof -
  let ?q = "OSIdleCtr s div OSIdleCtrMax s"
  have q: "unat ?q = unat (OSIdleCtr s) div unat (OSIdleCtrMax s)" by (simp add: unat_div)
  define s1 where "s1 = (if sint ((100 :: 8 word) - ucast ?q) \<ge> 0 then s\<lparr>OSIdleCtrRun := OSIdleCtr s, OSCPUUsage := 100 - ucast ?q\<rparr>
    else s\<lparr>OSIdleCtrRun := OSIdleCtr s, OSCPUUsage := 0, OSIdleCtrMax := OSIdleCtr s div 100\<rparr>)"
  have run: "OS_TaskStat_usage s = OS_TaskStatStkChk s1"
    using assms(3) by (simp add: OS_TaskStat_usage_def Let_def s1_def)
  have un: "unread s s1"
    by (simp add: s1_def unread_def ids_def ctl_def cur_def rdy_bm_def ev_bm_def ev_data_def clock_def fun_eq_iff)
  have tcb: "ptr_mem s1 = ptr_mem s" "OSTCBTbl s1 = OSTCBTbl s" "OSTCBPrioTbl s1 = OSTCBPrioTbl s" by (simp_all add: s1_def)
  then have "stks_ok s1" using assms(2) by (simp add: stks_ok_def stk_ok_def)
  with unread_sinv [OF assms(1) un] have chk: "ok (OS_TaskStatStkChk s1) (stk_stored s1)" by (intro OS_TaskStatStkChk_ok)
  have big: "unat (OSIdleCtr s) div 100 \<noteq> 0" if "100 < unat ?q"
  proof -
    have "unat (OSIdleCtr s) div unat (OSIdleCtrMax s) \<le> unat (OSIdleCtr s)" by simp
    then have "100 < unat (OSIdleCtr s)" using that unfolding q by (rule less_le_trans [rotated])
    then show ?thesis by simp
  qed
  have val: "if unat ?q \<le> 100 then unat (OSCPUUsage s1) = 100 - unat ?q \<and> OSIdleCtrMax s1 = OSIdleCtrMax s
      else OSCPUUsage s1 = 0 \<and> unat (OSIdleCtrMax s1) = unat (OSIdleCtr s) div 100"
    using usage_byte [of ?q] assms(4) q by (auto simp: s1_def unat_div)
  have nz: "OSIdleCtrMax s1 \<noteq> 0"
  proof (cases "unat ?q \<le> 100")
    case False
    then have "unat (OSIdleCtrMax s1) \<noteq> 0" using val big by simp
    then show ?thesis by auto
  qed (use val assms(3) in simp)
  show ?thesis
    unfolding run
  proof (rule ok_mono [OF chk])
    fix s'
    assume s': "stk_stored s1 s'"
    then have u: "unread s s'" using unread_trans [OF un] by (simp add: stk_stored_def)
    show "?P s'" using unread_kept [OF assms(1) u] unreadD(4) [OF u] s' val nz
      by (simp add: stk_stored_def q)
  qed
qed

text \<open>A quarter of the time idle: 75 percent.\<close>

lemma TaskStat_percent_witness:
  "ok (OS_TaskStat_usage (demo\<lparr>OSIdleCtrMax := 1000, OSIdleCtr := 25000\<rparr>)) (\<lambda>s'. OSCPUUsage s' = 75)"
proof -
  let ?s = "demo\<lparr>OSIdleCtrMax := 1000, OSIdleCtr := 25000\<rparr>"
  have "unread demo ?s"
    by (simp add: unread_def ids_def ctl_def cur_def rdy_bm_def ev_bm_def ev_data_def clock_def fun_eq_iff)
  then have inv: "sinv ?s" by (rule unread_sinv [OF demo_sinv])
  have "OSTCBOpt (OSTCBTbl ?s t) = 0" for t by (simp add: demo_def demo_tcb_def)
  then have stks: "stks_ok ?s" by (simp add: stks_ok_def stk_ok_def)
  show ?thesis
    using TaskStat_percent [OF inv stks] by (auto simp: word_unat_eq_iff elim!: ok_mono)
qed

end
