(* ===== verification/Os_Tmr_Calls.thy ===== *)
theory Os_Tmr_Calls
  imports Os_Tmr_Props
begin

text \<open>
  Every call on timers keeps the wheel and the pool of timers well formed, keeps the invariant of the
  kernel, and leaves the processor to the most urgent ready task: the contract \<open>timer_call\<close>.
\<close>

section \<open>The pool\<close>

text \<open>
  The free timers are exactly the unused ones and are linked from the head of the free list; the two
  counters are right; every timer is in one of the four states.
\<close>

definition pool_ok :: "kst \<Rightarrow> nat list \<Rightarrow> bool" where
  "pool_ok s fs \<longleftrightarrow> path TMRp (\<lambda>i. OSTmrNext (OSTmrTbl s i)) (OSTmrFreeList s) fs \<and> distinct fs
     \<and> (\<forall>i. i \<in> set fs \<longleftrightarrow> i < OS_TMR_CFG_MAX \<and> OSTmrState (OSTmrTbl s i) = OS_TMR_STATE_UNUSED)
     \<and> (\<forall>i<OS_TMR_CFG_MAX. OSTmrType (OSTmrTbl s i) = OS_TMR_TYPE \<and> OSTmrState (OSTmrTbl s i) \<le> OS_TMR_STATE_RUNNING)
     \<and> OSTmrFree s = of_nat (length fs) \<and> OSTmrUsed s + of_nat (length fs) = of_nat OS_TMR_CFG_MAX"

definition timers_ok :: "kst \<Rightarrow> bool" where
  "timers_ok s \<longleftrightarrow> (\<exists>w. wheel_ok s w) \<and> (\<exists>fs. pool_ok s fs)"

lemma timers_okE:
  assumes "timers_ok s"
  obtains w fs where "wheel_ok s w" "pool_ok s fs"
  using assms by (auto simp: timers_ok_def)

lemma timers_ok_cong: "timers s' = timers s \<Longrightarrow> timers_ok s' = timers_ok s"
  by (simp add: timers_ok_def wheel_ok_def pool_ok_def timers_def)

lemma tmr_state_cases:
  "(st :: 8 word) \<le> 3 \<longleftrightarrow> st = 0 \<or> st = 1 \<or> st = 2 \<or> st = 3"
proof
  assume "st \<le> 3"
  then have "unat st \<le> 3" by (simp add: word_le_nat_alt)
  then have "unat st \<in> {0, 1, 2, 3}" by auto
  then show "st = 0 \<or> st = 1 \<or> st = 2 \<or> st = 3" by (simp add: word_unat_eq_iff)
qed auto

section \<open>Steps\<close>

lemma rewired_pool:
  assumes r: "rewired i f s s'" and p: "pool_ok s fs" and i: "i < OS_TMR_CFG_MAX" "i \<notin> set fs"
    and f: "OSTmrType (f (OSTmrTbl s i)) = OS_TMR_TYPE" "0 < OSTmrState (f (OSTmrTbl s i))" "OSTmrState (f (OSTmrTbl s i)) \<le> OS_TMR_STATE_RUNNING"
  shows "pool_ok s' fs"
proof -
  have s': "s' = set_wheel (OSTmrTbl s') (OSTmrWheelTbl s') s" and bi: "bare (OSTmrTbl s' i) = bare (f (OSTmrTbl s i))"
    and bj: "\<And>j. j \<noteq> i \<Longrightarrow> bare (OSTmrTbl s' j) = bare (OSTmrTbl s j)"
    and same: "\<And>j. j \<noteq> i \<Longrightarrow> \<not> running (OSTmrTbl s j) \<Longrightarrow> OSTmrTbl s' j = OSTmrTbl s j"
    using r by (auto simp: rewired_def)
  have v: "OSTmrFreeList s' = OSTmrFreeList s" "OSTmrFree s' = OSTmrFree s" "OSTmrUsed s' = OSTmrUsed s"
    by (subst s', simp)+
  have mem: "j \<in> set fs \<longleftrightarrow> j < OS_TMR_CFG_MAX \<and> OSTmrState (OSTmrTbl s j) = OS_TMR_STATE_UNUSED" for j
    using p by (simp add: pool_ok_def)
  have "OSTmrTbl s' j = OSTmrTbl s j" if "j \<in> set fs" for j
    by (rule same) (use that i(2) mem [of j] in auto)
  then have "path TMRp (\<lambda>i. OSTmrNext (OSTmrTbl s' i)) (OSTmrFreeList s') fs"
    using p path_cong [of fs "\<lambda>i. OSTmrNext (OSTmrTbl s' i)" "\<lambda>i. OSTmrNext (OSTmrTbl s i)"]
    by (simp add: pool_ok_def v)
  moreover have "j \<in> set fs \<longleftrightarrow> j < OS_TMR_CFG_MAX \<and> OSTmrState (OSTmrTbl s' j) = OS_TMR_STATE_UNUSED" for j
    using mem [of j] bare_fields(1) [OF bi] bare_fields(1) [OF bj [of j]] i(2) f(2) by (cases "j = i") auto
  moreover have "OSTmrType (OSTmrTbl s' j) = OS_TMR_TYPE \<and> OSTmrState (OSTmrTbl s' j) \<le> OS_TMR_STATE_RUNNING"
    if "j < OS_TMR_CFG_MAX" for j
    using p that bare_fields(1,3) [OF bi] bare_fields(1,3) [OF bj [of j]] f by (cases "j = i") (auto simp: pool_ok_def)
  ultimately show ?thesis using p by (simp add: pool_ok_def v)
qed

lemma unlink_timers:
  assumes ok: "timers_ok s" and i: "i < OS_TMR_CFG_MAX" "running (OSTmrTbl s i)"
  shows "ok (OSTmr_Unlink i s) (\<lambda>s'. timers_ok s' \<and> unread s s' \<and> OSTmrState (OSTmrTbl s' i) = OS_TMR_STATE_STOPPED
    \<and> rewired i (\<lambda>c. c\<lparr>OSTmrState := OS_TMR_STATE_STOPPED\<rparr>) s s')"
proof -
  from ok obtain w fs where w: "wheel_ok s w" and p: "pool_ok s fs" by (rule timers_okE)
  let ?k = "spoke_of (OSTmrMatch (OSTmrTbl s i))"
  have "i \<in> set (w ?k)" using w spoke_of_less i by (simp add: wheel_ok_def)
  then obtain ys zs where k: "w ?k = ys @ i # zs" using split_list by metis
  have nin: "i \<notin> set fs" using p i(2) by (simp add: pool_ok_def)
  have ty: "OSTmrType (OSTmrTbl s i) = OS_TMR_TYPE" using p i(1) by (simp add: pool_ok_def)
  show ?thesis
  proof (rule ok_mono [OF unlink_wheel [OF w i refl k]], elim conjE)
    fix s'
    assume 1: "wheel_ok s' (w(?k := ys @ zs))" "rewired i (\<lambda>c. c\<lparr>OSTmrState := OS_TMR_STATE_STOPPED\<rparr>) s s'"
    have b: "bare (OSTmrTbl s' i) = bare ((OSTmrTbl s i)\<lparr>OSTmrState := OS_TMR_STATE_STOPPED\<rparr>)" using 1(2) by (simp add: rewired_def)
    have "pool_ok s' fs" by (rule rewired_pool [OF 1(2) p i(1) nin]) (simp_all add: ty)
    then show "timers_ok s' \<and> unread s s' \<and> OSTmrState (OSTmrTbl s' i) = OS_TMR_STATE_STOPPED
      \<and> rewired i (\<lambda>c. c\<lparr>OSTmrState := OS_TMR_STATE_STOPPED\<rparr>) s s'"
      using 1 rewired_unread [OF 1(2)] bare_fields(1) [OF b] by (auto simp: timers_ok_def)
  qed
qed

lemma link_timers:
  assumes ok: "timers_ok s" and i: "i < OS_TMR_CFG_MAX" "OSTmrState (OSTmrTbl s i) = OS_TMR_STATE_STOPPED \<or> OSTmrState (OSTmrTbl s i) = OS_TMR_STATE_COMPLETED"
  shows "ok (OSTmr_Link i periodic s) (\<lambda>s'. timers_ok s' \<and> unread s s')"
proof -
  from ok obtain w fs where w: "wheel_ok s w" and p: "pool_ok s fs" by (rule timers_okE)
  have off: "\<not> running (OSTmrTbl s i)" and nin: "i \<notin> set fs" using p i(2) by (auto simp: pool_ok_def)
  have ty: "OSTmrType (OSTmrTbl s i) = OS_TMR_TYPE" using p i(1) by (simp add: pool_ok_def)
  let ?f = "\<lambda>c. c\<lparr>OSTmrState := OS_TMR_STATE_RUNNING, OSTmrMatch := next_match periodic (OSTmrTbl s i) (OSTmrTime s)\<rparr>"
  have pool: "pool_ok s' fs" if "rewired i ?f s s'" for s'
    by (rule rewired_pool [OF that p i(1) nin]) (simp_all add: ty)
  show ?thesis
    by (rule ok_mono [OF link_wheel [OF w i(1) off refl]]) (use pool rewired_unread in \<open>auto simp: timers_ok_def\<close>)
qed

text \<open>A timer that hangs on no spoke is given new contents.\<close>

lemma wheel_off:
  assumes w: "wheel_ok s w" and i: "\<not> running (OSTmrTbl s i)" and "\<not> running c"
    and s': "OSTmrTbl s' = (OSTmrTbl s)(i := c)" "OSTmrWheelTbl s' = OSTmrWheelTbl s"
  shows "wheel_ok s' w"
proof -
  have "i \<notin> set (w k)" if "k < OS_TMR_CFG_WHEEL_SIZE" for k using w i that by (simp add: wheel_ok_def)
  then have "OSTmrTbl s' j = OSTmrTbl s j" if "k < OS_TMR_CFG_WHEEL_SIZE" "j \<in> set (w k)" for j k
    using that by (auto simp: s'(1))
  then have "on_spoke (OSTmrTbl s') (OSTmrWheelTbl s k) (w k)" if "k < OS_TMR_CFG_WHEEL_SIZE" for k
    using w that on_spoke_cong [of "w k" "OSTmrTbl s'" "OSTmrTbl s"] by (simp add: wheel_ok_def)
  then show ?thesis using w assms(2,3) by (auto simp: wheel_ok_def s')
qed

lemma free_timers:
  assumes ok: "timers_ok s" and i: "i < OS_TMR_CFG_MAX" "OSTmrState (OSTmrTbl s i) = OS_TMR_STATE_STOPPED \<or> OSTmrState (OSTmrTbl s i) = OS_TMR_STATE_COMPLETED"
  shows "timers_ok (OSTmr_Free i s) \<and> unread s (OSTmr_Free i s) \<and> OSTmrFreeList (OSTmr_Free i s) = TMRp i
    \<and> OSTmrState (OSTmrTbl (OSTmr_Free i s) i) = OS_TMR_STATE_UNUSED"
proof -
  from ok obtain w fs where w: "wheel_ok s w" and p: "pool_ok s fs" by (rule timers_okE)
  define c where "c = (OSTmrTbl s i)\<lparr>OSTmrState := OS_TMR_STATE_UNUSED, OSTmrOpt := OS_TMR_OPT_NONE, OSTmrPeriod := 0,
       OSTmrMatch := 0, OSTmrCallback := NULL, OSTmrCallbackArg := NULL, OSTmrName := unnamed,
       OSTmrPrev := NULL, OSTmrNext := OSTmrFreeList s\<rparr>"
  define s' where "s' = OSTmr_Free i s"
  have s': "OSTmrTbl s' = (OSTmrTbl s)(i := c)" "OSTmrWheelTbl s' = OSTmrWheelTbl s" "OSTmrFreeList s' = TMRp i"
    "OSTmrUsed s' = OSTmrUsed s - 1" "OSTmrFree s' = OSTmrFree s + 1"
    by (simp_all add: s'_def OSTmr_Free_def Let_def c_def upd_tmr_def)
  have cs: "OSTmrState c = 0" "OSTmrNext c = OSTmrFreeList s" "OSTmrType c = OSTmrType (OSTmrTbl s i)" by (simp_all add: c_def)
  have nin: "i \<notin> set fs" using p i(2) by (auto simp: pool_ok_def)
  have "OSTmrNext (OSTmrTbl s' j) = OSTmrNext (OSTmrTbl s j)" if "j \<in> set fs" for j
    using that nin by (auto simp: s'(1))
  then have "path TMRp (\<lambda>j. OSTmrNext (OSTmrTbl s' j)) (OSTmrFreeList s) fs"
    using p path_cong [of fs "\<lambda>j. OSTmrNext (OSTmrTbl s' j)" "\<lambda>j. OSTmrNext (OSTmrTbl s j)"]
    by (simp add: pool_ok_def)
  then have "pool_ok s' (i # fs)"
    using p i(1) nin cs by (auto simp: pool_ok_def s' algebra_simps)
  moreover have "wheel_ok s' w" by (rule wheel_off [OF w _ _ s'(1,2)]) (use i(2) cs in auto)
  moreover have "unread s s'"
    by (simp add: s'_def OSTmr_Free_def Let_def upd_tmr_def unread_def ids_def ctl_def cur_def rdy_bm_def ev_bm_def ev_data_def
        clock_def fun_eq_iff)
  ultimately show ?thesis using s'(1,3) cs(1) by (auto simp: timers_ok_def s'_def)
qed

lemma alloc_timer:
  assumes ok: "timers_ok s"
  shows "OSTmrFreeList s = NULL \<and> OSTmr_Alloc s = Some (NULL, s)
    \<or> (\<exists>i s'. i < OS_TMR_CFG_MAX \<and> OSTmrFreeList s = TMRp i \<and> OSTmrState (OSTmrTbl s i) = OS_TMR_STATE_UNUSED
        \<and> OSTmr_Alloc s = Some (TMRp i, s') \<and> unread s s'
        \<and> (\<forall>f. OSTmrType (f (OSTmrTbl s' i)) = OSTmrType (OSTmrTbl s' i) \<longrightarrow> OSTmrState (f (OSTmrTbl s' i)) = OS_TMR_STATE_STOPPED
             \<longrightarrow> timers_ok (upd_tmr i f s')))"
proof -
  from ok obtain w fs where w: "wheel_ok s w" and p: "pool_ok s fs" by (rule timers_okE)
  show ?thesis
  proof (cases fs)
    case Nil
    then show ?thesis using p by (simp add: pool_ok_def OSTmr_Alloc_def)
  next
    case (Cons i fs')
    have fl: "OSTmrFreeList s = TMRp i" "path TMRp (\<lambda>i. OSTmrNext (OSTmrTbl s i)) (OSTmrNext (OSTmrTbl s i)) fs'"
      and dist: "i \<notin> set fs'" "distinct fs'" and i: "i < OS_TMR_CFG_MAX" "OSTmrState (OSTmrTbl s i) = OS_TMR_STATE_UNUSED"
      using p by (simp_all add: pool_ok_def Cons) blast+
    define s' where "s' = upd_tmr i (\<lambda>c. c\<lparr>OSTmrNext := NULL, OSTmrPrev := NULL\<rparr>)
      (s\<lparr>OSTmrFreeList := OSTmrNext (OSTmrTbl s i), OSTmrUsed := OSTmrUsed s + 1, OSTmrFree := OSTmrFree s - 1\<rparr>)"
    have run: "OSTmr_Alloc s = Some (TMRp i, s')"
      using fl(1) i(1) by (simp add: OSTmr_Alloc_def Let_def s'_def upd_tmr_def)
    have "unread s s'"
      by (simp add: s'_def upd_tmr_def unread_def ids_def ctl_def cur_def rdy_bm_def ev_bm_def ev_data_def clock_def fun_eq_iff)
    moreover have "timers_ok (upd_tmr i f s')"
      if f: "OSTmrType (f (OSTmrTbl s' i)) = OSTmrType (OSTmrTbl s' i)" "OSTmrState (f (OSTmrTbl s' i)) = OS_TMR_STATE_STOPPED" for f
    proof -
      define c where "c = f (OSTmrTbl s' i)"
      define s2 where "s2 = upd_tmr i f s'"
      have s2: "OSTmrTbl s2 = (OSTmrTbl s)(i := c)" "OSTmrWheelTbl s2 = OSTmrWheelTbl s" "OSTmrFreeList s2 = OSTmrNext (OSTmrTbl s i)"
        "OSTmrUsed s2 = OSTmrUsed s + 1" "OSTmrFree s2 = OSTmrFree s - 1"
        by (simp_all add: s2_def c_def s'_def upd_tmr_def)
      have cs: "OSTmrState c = 1" "OSTmrType c = OSTmrType (OSTmrTbl s i)" using f by (simp_all add: c_def s'_def upd_tmr_def)
      have "OSTmrNext (OSTmrTbl s2 j) = OSTmrNext (OSTmrTbl s j)" if "j \<in> set fs'" for j
        using that dist(1) by (auto simp: s2(1))
      then have "path TMRp (\<lambda>j. OSTmrNext (OSTmrTbl s2 j)) (OSTmrFreeList s2) fs'"
        using fl(2) path_cong [of fs' "\<lambda>j. OSTmrNext (OSTmrTbl s2 j)" "\<lambda>j. OSTmrNext (OSTmrTbl s j)"]
        by (simp add: s2(3))
      moreover have "j \<in> set fs' \<longleftrightarrow> j < OS_TMR_CFG_MAX \<and> OSTmrState (OSTmrTbl s2 j) = OS_TMR_STATE_UNUSED" for j
      proof -
        have "j \<in> set fs \<longleftrightarrow> j < OS_TMR_CFG_MAX \<and> OSTmrState (OSTmrTbl s j) = OS_TMR_STATE_UNUSED" using p by (simp add: pool_ok_def)
        then show ?thesis using dist(1) cs(1) by (auto simp: s2 Cons)
      qed
      ultimately have "pool_ok s2 fs'"
        using p i(1) cs dist(2) by (auto simp: pool_ok_def s2 Cons)
      moreover have "wheel_ok s2 w" by (rule wheel_off [OF w _ _ s2(1,2)]) (use i(2) cs in auto)
      ultimately show ?thesis by (auto simp: timers_ok_def s2_def)
    qed
    ultimately show ?thesis using run fl(1) i by blast
  qed
qed

section \<open>The contract of a call on timers\<close>

locale timer_call =
  fixes arg :: "kst \<Rightarrow> bool" and run :: "kst \<Rightarrow> ('r \<times> kst) option"
  assumes keeps_timers: "sinv s \<Longrightarrow> timers_ok s \<Longrightarrow> OSLockNesting s < 255 \<Longrightarrow> arg s
    \<Longrightarrow> ok (run s) (\<lambda>(r, s'). kept s s' \<and> timers_ok s')"
begin

lemma timers_stay:
  "sinv s \<Longrightarrow> timers_ok s \<Longrightarrow> OSLockNesting s < 255 \<Longrightarrow> arg s \<Longrightarrow> run s = Some (r, s') \<Longrightarrow> timers_ok s'"
  using keeps_timers by fastforce

end

sublocale timer_call \<subseteq> sched_call "\<lambda>s. timers_ok s \<and> OSLockNesting s < 255 \<and> arg s" run
  by (rule sched_callI) (auto elim!: ok_mono2 dest: keeps_timers)

text \<open>The timer argument of a call: null, or one of the kernel's timers.\<close>

definition valid_tmr :: "vptr \<Rightarrow> bool" where
  "valid_tmr p \<longleftrightarrow> p = NULL \<or> tmr_at p \<noteq> None"

lemma valid_tmrE:
  assumes "valid_tmr p"
  obtains "p = NULL" | i where "p = TMRp i" "i < OS_TMR_CFG_MAX"
  using assms by (auto simp: valid_tmr_def)

lemma timer_callI:
  assumes valid: "\<And>s. arg s \<Longrightarrow> valid_tmr p"
    and null: "\<And>s. \<exists>r. run NULL s = Some (r, s)"
    and isr: "\<And>s i. i < OS_TMR_CFG_MAX \<Longrightarrow> OSTmrType (OSTmrTbl s i) = OS_TMR_TYPE \<Longrightarrow> OSIntNesting s > 0
      \<Longrightarrow> \<exists>r. run (TMRp i) s = Some (r, s)"
    and main: "\<And>s i. sinv s \<Longrightarrow> timers_ok s \<Longrightarrow> OSLockNesting s < 255 \<Longrightarrow> arg s \<Longrightarrow> p = TMRp i \<Longrightarrow> i < OS_TMR_CFG_MAX
      \<Longrightarrow> OSTmrType (OSTmrTbl s i) = OS_TMR_TYPE \<Longrightarrow> OSIntNesting s = 0 \<Longrightarrow> ok (run (TMRp i) s) (\<lambda>(r, s'). kept s s' \<and> timers_ok s')"
  shows "timer_call arg (run p)"
proof
  fix s
  assume s: "sinv s" "timers_ok s" "OSLockNesting s < 255" "arg s"
  from valid [OF s(4)] show "ok (run p s) (\<lambda>(r, s'). kept s s' \<and> timers_ok s')"
  proof (cases rule: valid_tmrE)
    case 1
    then show ?thesis using null [of s] s by auto
  next
    case (2 i)
    then have ty: "OSTmrType (OSTmrTbl s i) = OS_TMR_TYPE" using s(2) by (auto simp: timers_ok_def pool_ok_def)
    show ?thesis
    proof (cases "OSIntNesting s = 0")
      case True
      from main [OF s 2 ty this] show ?thesis using 2(1) by simp
    next
      case False
      then have "OSIntNesting s > 0" by (simp add: word_gt_0)
      from isr [OF 2(2) ty this] show ?thesis using s 2(1) by auto
    qed
  qed
qed

lemma locked_timers:
  assumes "sinv s" "OSIntNesting s = 0" "OSLockNesting s < 255" "unread (OSSchedLock s) s1" "timers_ok s1"
  shows "ok (do { s \<leftarrow> OSSchedUnlock s1; Some (r, s) }) (\<lambda>(r, s'). kept s s' \<and> timers_ok s')"
proof (rule ok_bindI [OF locked_unread [OF assms(1-4)]], elim conjE)
  fix s'
  assume 1: "timers s' = timers s1" and k: "sinv s'" "ctl s' = ctl s" "settled s \<longrightarrow> settled s'"
  have "timers_ok s'" using timers_ok_cong [OF 1] assms(5) by simp
  then show "ok (Some (r, s')) (\<lambda>(r, s'). kept s s' \<and> timers_ok s')" using k by simp
qed

lemma locked_view [simp]: "timers_ok (OSSchedLock s) = timers_ok s"
  by (rule timers_ok_cong) simp

text \<open>The state of a timer is one of the four.\<close>

lemma tmr_state:
  assumes "timers_ok s" "i < OS_TMR_CFG_MAX"
  obtains (unused) "OSTmrState (OSTmrTbl s i) = OS_TMR_STATE_UNUSED" | (stopped) "OSTmrState (OSTmrTbl s i) = OS_TMR_STATE_STOPPED"
    | (completed) "OSTmrState (OSTmrTbl s i) = OS_TMR_STATE_COMPLETED" | (running) "running (OSTmrTbl s i)"
  using assms by (auto simp: timers_ok_def pool_ok_def tmr_state_cases)

section \<open>The calls\<close>

interpretation TmrCreate: timer_call "\<lambda>_. True" "OSTmrCreate dly period opt callback arg pname"
  for dly period opt callback arg pname
proof
  fix s
  assume inv: "sinv s" and t: "timers_ok s" and l: "OSLockNesting s < 255"
  let ?refused = "opt = OS_TMR_OPT_PERIODIC \<and> period = 0 \<or> opt = OS_TMR_OPT_ONE_SHOT \<and> dly = 0
      \<or> opt \<noteq> OS_TMR_OPT_PERIODIC \<and> opt \<noteq> OS_TMR_OPT_ONE_SHOT \<or> OSIntNesting s > 0"
  show "ok (OSTmrCreate dly period opt callback arg pname s) (\<lambda>(r, s'). kept s s' \<and> timers_ok s')"
  proof (cases ?refused)
    case True
    then have "\<exists>r. OSTmrCreate dly period opt callback arg pname s = Some (r, s)"
      unfolding OSTmrCreate_def by (simp only: if_True if_False split: if_split) blast
    then show ?thesis using inv t by auto
  next
    case False
    then have n: "OSIntNesting s = 0" by (simp add: word_gt_0)
    let ?f = "\<lambda>c. c\<lparr>OSTmrState := OS_TMR_STATE_STOPPED, OSTmrDly := dly, OSTmrPeriod := period, OSTmrOpt := opt,
      OSTmrCallback := callback, OSTmrCallbackArg := arg, OSTmrName := (case pname of None \<Rightarrow> unnamed | Some n \<Rightarrow> Some n)\<rparr>"
    have run: "OSTmrCreate dly period opt callback arg pname s = do {
        (ptmr, s) \<leftarrow> OSTmr_Alloc (OSSchedLock s);
        if ptmr = NULL then do { s \<leftarrow> OSSchedUnlock s; Some ((NULL, OS_ERR_TMR_NON_AVAIL), s) }
        else do { i \<leftarrow> tmr_at ptmr; s \<leftarrow> OSSchedUnlock (upd_tmr i ?f s); Some ((ptmr, OS_ERR_NONE), s) } }"
      using False unfolding OSTmrCreate_def Let_def by auto
    from alloc_timer [of "OSSchedLock s"] t
    consider "OSTmr_Alloc (OSSchedLock s) = Some (NULL, OSSchedLock s)"
      | i s1 where "i < OS_TMR_CFG_MAX" "OSTmr_Alloc (OSSchedLock s) = Some (TMRp i, s1)" "unread (OSSchedLock s) s1"
        "timers_ok (upd_tmr i ?f s1)" by auto
    then show ?thesis
    proof cases
      case 1
      then show ?thesis using locked_timers [OF inv n l unread_refl] t by (simp add: run)
    next
      case (2 i s1)
      have "unread (OSSchedLock s) (upd_tmr i ?f s1)" by (rule unread_trans [OF 2(3)]) simp
      from locked_timers [OF inv n l this 2(4)] show ?thesis using 2(1,2) by (simp add: run)
    qed
  qed
qed

lemma OSTmrDel_timers:
  assumes "sinv s" "timers_ok s" "OSLockNesting s < 255" "i < OS_TMR_CFG_MAX" "OSTmrType (OSTmrTbl s i) = OS_TMR_TYPE" "OSIntNesting s = 0"
  shows "ok (OSTmrDel (TMRp i) s) (\<lambda>(r, s'). kept s s' \<and> timers_ok s')"
proof -
  let ?L = "OSSchedLock s"
  note unlock = locked_timers [OF assms(1,6,3)]
  have tL: "timers_ok ?L" using assms(2) by simp
  from tL assms(4) show ?thesis
  proof (cases rule: tmr_state)
    case running
    have run: "OSTmrDel (TMRp i) s = do { s \<leftarrow> OSTmr_Unlink i ?L; s \<leftarrow> OSSchedUnlock (OSTmr_Free i s); Some ((True, OS_ERR_NONE), s) }"
      using assms running by (simp add: OSTmrDel_def Let_def)
    show ?thesis
      unfolding run
    proof (rule ok_bindI [OF unlink_timers [OF tL assms(4) running]], elim conjE)
      fix s1
      assume 1: "timers_ok s1" "unread ?L s1" "OSTmrState (OSTmrTbl s1 i) = OS_TMR_STATE_STOPPED"
      note f = free_timers [OF 1(1) assms(4)]
      show "ok (do { s \<leftarrow> OSSchedUnlock (OSTmr_Free i s1); Some ((True, OS_ERR_NONE), s) }) (\<lambda>(r, s'). kept s s' \<and> timers_ok s')"
        by (rule unlock) (use f 1 unread_trans [OF 1(2)] in auto)
    qed
  next
    case unused
    then have run: "OSTmrDel (TMRp i) s = do { s \<leftarrow> OSSchedUnlock ?L; Some ((False, OS_ERR_TMR_INACTIVE), s) }"
      using assms by (simp add: OSTmrDel_def Let_def)
    show ?thesis unfolding run by (rule unlock [OF unread_refl tL])
  next
    case stopped
    then have run: "OSTmrDel (TMRp i) s = do { s \<leftarrow> OSSchedUnlock (OSTmr_Free i ?L); Some ((True, OS_ERR_NONE), s) }"
      using assms by (simp add: OSTmrDel_def Let_def)
    show ?thesis unfolding run by (rule unlock) (use free_timers [OF tL assms(4)] stopped in auto)
  next
    case completed
    then have run: "OSTmrDel (TMRp i) s = do { s \<leftarrow> OSSchedUnlock (OSTmr_Free i ?L); Some ((True, OS_ERR_NONE), s) }"
      using assms by (simp add: OSTmrDel_def Let_def)
    show ?thesis unfolding run by (rule unlock) (use free_timers [OF tL assms(4)] completed in auto)
  qed
qed

interpretation TmrDel: timer_call "\<lambda>_. valid_tmr ptmr" "OSTmrDel ptmr" for ptmr
  by (rule timer_callI [where run = OSTmrDel], assumption, (auto simp: OSTmrDel_def)[2],
      rule OSTmrDel_timers, assumption+)

text \<open>Calls that only look at a timer.\<close>

lemma looked:
  assumes "sinv s" "timers_ok s" "OSLockNesting s < 255" "OSIntNesting s = 0"
  shows "ok (do { s \<leftarrow> OSSchedUnlock (OSSchedLock s); Some (r, s) }) (\<lambda>(r, s'). kept s s' \<and> timers_ok s')"
  by (rule locked_timers [OF assms(1,4,3) unread_refl]) (simp add: assms(2))

definition name_ends :: "vptr \<Rightarrow> kst \<Rightarrow> bool" where
  "name_ends p s \<longleftrightarrow> (\<forall>i. p = TMRp i \<longrightarrow> OS_StrLen (OSTmrName (OSTmrTbl s i)) \<noteq> None)"

lemma OSTmrNameGet_timers:
  assumes "sinv s" "timers_ok s" "OSLockNesting s < 255" "i < OS_TMR_CFG_MAX" "OSTmrType (OSTmrTbl s i) = OS_TMR_TYPE" "OSIntNesting s = 0"
    and "name_ends (TMRp i) s"
  shows "ok (OSTmrNameGet (TMRp i) pdest s) (\<lambda>(r, s'). kept s s' \<and> timers_ok s')"
proof -
  from assms(7) obtain n where n: "OS_StrLen (OSTmrName (OSTmrTbl s i)) = Some n" by (auto simp: name_ends_def)
  have "\<exists>r. OSTmrNameGet (TMRp i) pdest s = Some (r, s)
      \<or> OSTmrNameGet (TMRp i) pdest s = do { s \<leftarrow> OSSchedUnlock (OSSchedLock s); Some (r, s) }"
    using assms(4-6) n
    by (cases "OSTmrState (OSTmrTbl s i) = 3"; cases "OSTmrState (OSTmrTbl s i) = 1"; cases "OSTmrState (OSTmrTbl s i) = 2";
        cases "pdest = NULL") (auto simp: OSTmrNameGet_def Let_def SchedLock_views)
  then show ?thesis using looked [OF assms(1-3,6)] assms(1,2) by (elim exE disjE) simp_all
qed

interpretation TmrNameGet: timer_call "\<lambda>s. valid_tmr ptmr \<and> name_ends ptmr s" "OSTmrNameGet ptmr pdest" for ptmr pdest
  by (rule timer_callI [where run = "\<lambda>p. OSTmrNameGet p pdest"], erule conjunct1, (auto simp: OSTmrNameGet_def)[2],
      rule OSTmrNameGet_timers, assumption+, simp)

interpretation TmrRemainGet: timer_call "\<lambda>_. valid_tmr ptmr" "OSTmrRemainGet ptmr" for ptmr
proof (rule timer_callI [where run = OSTmrRemainGet], goal_cases)
  case (4 s i)
  then show ?case
    using looked [OF 4(1-3,8)] unfolding OSTmrRemainGet_def Let_def by (simp split del: if_split)
qed (auto simp: OSTmrRemainGet_def)

interpretation TmrStateGet: timer_call "\<lambda>_. valid_tmr ptmr" "OSTmrStateGet ptmr" for ptmr
proof (rule timer_callI [where run = OSTmrStateGet], goal_cases)
  case (4 s i)
  then show ?case
    using looked [OF 4(1-3,8)] unfolding OSTmrStateGet_def Let_def by (simp split del: if_split)
qed (auto simp: OSTmrStateGet_def)

lemma OSTmrStart_timers:
  assumes "sinv s" "timers_ok s" "OSLockNesting s < 255" "i < OS_TMR_CFG_MAX" "OSTmrType (OSTmrTbl s i) = OS_TMR_TYPE" "OSIntNesting s = 0"
  shows "ok (OSTmrStart (TMRp i) s) (\<lambda>(r, s'). kept s s' \<and> timers_ok s')"
proof -
  let ?L = "OSSchedLock s"
  note unlock = locked_timers [OF assms(1,6,3)]
  have tL: "timers_ok ?L" using assms(2) by simp
  from tL assms(4) show ?thesis
  proof (cases rule: tmr_state)
    case running
    have run: "OSTmrStart (TMRp i) s = do { s \<leftarrow> OSTmr_Unlink i ?L; s \<leftarrow> OSTmr_Link i False s; s \<leftarrow> OSSchedUnlock s; Some ((True, OS_ERR_NONE), s) }"
      using assms running by (simp add: OSTmrStart_def Let_def)
    show ?thesis
      unfolding run
    proof (rule ok_bindI [OF unlink_timers [OF tL assms(4) running]], elim conjE)
      fix s1
      assume 1: "timers_ok s1" "unread ?L s1" "OSTmrState (OSTmrTbl s1 i) = OS_TMR_STATE_STOPPED"
      show "ok (do { s \<leftarrow> OSTmr_Link i False s1; s \<leftarrow> OSSchedUnlock s; Some ((True, OS_ERR_NONE), s) }) (\<lambda>(r, s'). kept s s' \<and> timers_ok s')"
        by (rule ok_bindI [OF link_timers [OF 1(1) assms(4)]])
          (use 1(3) in simp, elim conjE, rule unlock [OF unread_trans [OF 1(2)]], assumption+)
    qed
  next
    case unused
    then have run: "OSTmrStart (TMRp i) s = do { s \<leftarrow> OSSchedUnlock ?L; Some ((False, OS_ERR_TMR_INACTIVE), s) }"
      using assms by (simp add: OSTmrStart_def Let_def)
    show ?thesis unfolding run by (rule unlock [OF unread_refl tL])
  next
    case stopped
    then have run: "OSTmrStart (TMRp i) s = do { s \<leftarrow> OSTmr_Link i False ?L; s \<leftarrow> OSSchedUnlock s; Some ((True, OS_ERR_NONE), s) }"
      using assms by (simp add: OSTmrStart_def Let_def)
    show ?thesis
      unfolding run by (rule ok_bindI [OF link_timers [OF tL assms(4)]]) (use stopped unlock in auto)
  next
    case completed
    then have run: "OSTmrStart (TMRp i) s = do { s \<leftarrow> OSTmr_Link i False ?L; s \<leftarrow> OSSchedUnlock s; Some ((True, OS_ERR_NONE), s) }"
      using assms by (simp add: OSTmrStart_def Let_def)
    show ?thesis
      unfolding run by (rule ok_bindI [OF link_timers [OF tL assms(4)]]) (use completed unlock in auto)
  qed
qed

interpretation TmrStart: timer_call "\<lambda>_. valid_tmr ptmr" "OSTmrStart ptmr" for ptmr
  by (rule timer_callI [where run = OSTmrStart], assumption, (auto simp: OSTmrStart_def)[2],
      rule OSTmrStart_timers, assumption+)

text \<open>Callbacks run with the scheduler locked, and may do anything but use timers.\<close>

lemma locked_any:
  assumes "OSIntNesting s = 0" "OSLockNesting s < 255" "OSRunning s" "sinv s1" "ctl s1 = ctl (OSSchedLock s)" "timers_ok s1"
  shows "ok (OSSchedUnlock s1) (\<lambda>s'. kept s s' \<and> timers_ok s')"
proof (rule ok_mono [OF SchedUnlock_ok [OF assms(1,2,4,5)]], goal_cases)
  case (2 s')
  then show ?case using timers_ok_cong [of s' s1] assms(6) by simp
qed (use assms(3) in simp)

lemma callback_timers:
  assumes "callback_ok cb h" "sinv s" "timers_ok s"
  shows "ok (cb f t a s) (\<lambda>s'. sinv s' \<and> ctl s' = ctl s \<and> timers_ok s')"
proof -
  have "ok (cb f t a s) (\<lambda>s'. timers s' = timers s \<and> rest s' = h f t a (rest s) \<and> sinv s' \<and> ctl s' = ctl s)"
    using assms(1,2) unfolding callback_ok_def by blast
  then show ?thesis
  proof (rule ok_mono, elim conjE)
    fix s'
    assume "timers s' = timers s" "sinv s'" "ctl s' = ctl s"
    then show "sinv s' \<and> ctl s' = ctl s \<and> timers_ok s'" using timers_ok_cong [of s' s] assms(3) by simp
  qed
qed

lemma OSTmrStop_timers:
  assumes "sinv s" "timers_ok s" "OSLockNesting s < 255" "i < OS_TMR_CFG_MAX" "OSTmrType (OSTmrTbl s i) = OS_TMR_TYPE" "OSIntNesting s = 0"
    and run: "OSRunning s" and cb: "callback_ok cb h"
  shows "ok (OSTmrStop cb (TMRp i) opt arg s) (\<lambda>(r, s'). kept s s' \<and> timers_ok s')"
proof -
  let ?L = "OSSchedLock s"
  have tL: "timers_ok ?L" using assms(2) by simp
  have invL: "sinv ?L" by (rule SchedLock_ok(1) [OF assms(1)])
  have off: "ok (do { s \<leftarrow> OSSchedUnlock ?L; Some (r, s) }) (\<lambda>(r, s'). kept s s' \<and> timers_ok s')" for r :: "bool \<times> os_err"
    by (rule looked [OF assms(1-3,6)])
  show ?thesis
  proof (cases "running (OSTmrTbl s i)")
    case False
    then show ?thesis
      using assms(4-6) off unfolding OSTmrStop_def Let_def
      by (cases "OSTmrState (OSTmrTbl s i) = 2 \<or> OSTmrState (OSTmrTbl s i) = 1")
        (simp_all split del: if_split add: SchedLock_views)
  next
    case True
    obtain s1 where r1: "OSTmr_Unlink i ?L = Some s1" and s1: "timers_ok s1" "unread ?L s1"
      using unlink_timers [OF tL assms(4)] True by (auto simp: ok_iff SchedLock_views)
    have inv1: "sinv s1" "ctl s1 = ctl ?L" using unread_sinv [OF invL s1(2)] unreadD(2) [OF s1(2)] by simp_all
    have called: "ok (do { s \<leftarrow> cb f t a s1; s \<leftarrow> OSSchedUnlock s; Some ((True, OS_ERR_NONE), s) }) (\<lambda>(r, s'). kept s s' \<and> timers_ok s')" for f t a
      by (rule ok_bindI [OF callback_timers [OF cb inv1(1) s1(1)]])
        (elim conjE, rule ok_bindI [OF locked_any [OF assms(6,3) run]], assumption, simp add: inv1(2), assumption, simp)
    have plain: "ok (do { s \<leftarrow> OSSchedUnlock s1; Some (r, s) }) (\<lambda>(r, s'). kept s s' \<and> timers_ok s')" for r :: "bool \<times> os_err"
      by (rule locked_timers [OF assms(1,6,3) s1(2,1)])
    show ?thesis
      using assms(4-6) True r1 called plain unfolding OSTmrStop_def Let_def
      by (simp add: SchedLock_views)
  qed
qed

interpretation TmrStop: timer_call "\<lambda>s. valid_tmr ptmr \<and> OSRunning s \<and> (\<exists>h. callback_ok cb h)" "OSTmrStop cb ptmr opt arg"
  for cb ptmr opt arg
proof (rule timer_callI [where run = "\<lambda>p. OSTmrStop cb p opt arg"], goal_cases)
  case (4 s i)
  then show ?case using OSTmrStop_timers [of s i cb _ opt arg] by blast
qed (auto simp: OSTmrStop_def)

section \<open>The timer task\<close>

lemma ticked_pool:
  assumes t: "Os_Tmr_Props.ticked s s'" and p: "pool_ok s fs"
  shows "pool_ok s' fs"
proof -
  have v: "OSTmrFreeList s' = OSTmrFreeList s" "OSTmrFree s' = OSTmrFree s" "OSTmrUsed s' = OSTmrUsed s"
    and same: "\<And>i. \<not> running (OSTmrTbl s i) \<Longrightarrow> OSTmrTbl s' i = OSTmrTbl s i"
    and b: "\<And>i. i < OS_TMR_CFG_MAX \<Longrightarrow> bare (OSTmrTbl s' i) = bare (if running (OSTmrTbl s i) \<and> due (OSTmrTime s + 1) (OSTmrTbl s i)
          then fire (OSTmrTbl s i) else OSTmrTbl s i)"
    using t by (simp_all add: Os_Tmr_Props.ticked_def)
  have mem: "j \<in> set fs \<longleftrightarrow> j < OS_TMR_CFG_MAX \<and> OSTmrState (OSTmrTbl s j) = OS_TMR_STATE_UNUSED" for j
    using p by (simp add: pool_ok_def)
  have st: "OSTmrType (OSTmrTbl s' j) = OSTmrType (OSTmrTbl s j)"
    "OSTmrState (OSTmrTbl s' j) = OSTmrState (OSTmrTbl s j) \<or> running (OSTmrTbl s j) \<and> OSTmrState (OSTmrTbl s' j) = OS_TMR_STATE_COMPLETED"
    if "j < OS_TMR_CFG_MAX" for j
    using bare_fields(1,3) [OF b [OF that]] by (auto simp: fire_def split: if_splits)
  have "OSTmrTbl s' j = OSTmrTbl s j" if "j \<in> set fs" for j
    by (rule same) (use that mem [of j] in simp)
  then have "path TMRp (\<lambda>i. OSTmrNext (OSTmrTbl s' i)) (OSTmrFreeList s') fs"
    using p path_cong [of fs "\<lambda>i. OSTmrNext (OSTmrTbl s' i)" "\<lambda>i. OSTmrNext (OSTmrTbl s i)"]
    by (simp add: pool_ok_def v)
  moreover have "j \<in> set fs \<longleftrightarrow> j < OS_TMR_CFG_MAX \<and> OSTmrState (OSTmrTbl s' j) = OS_TMR_STATE_UNUSED" for j
    using mem [of j] st(2) [of j] by auto
  moreover have "OSTmrType (OSTmrTbl s' j) = OS_TMR_TYPE \<and> OSTmrState (OSTmrTbl s' j) \<le> OS_TMR_STATE_RUNNING"
    if "j < OS_TMR_CFG_MAX" for j
    using p that st [OF that] by (auto simp: pool_ok_def)
  ultimately show ?thesis using p by (simp add: pool_ok_def v)
qed

lemma round_timers:
  assumes "sinv s" "timers_ok s" "OSLockNesting s < 255" "OSRunning s" "OSIntNesting s = 0" "callback_ok cb h"
  shows "ok (OSTmr_Task_round cb s) (\<lambda>s'. kept s s' \<and> timers_ok s')"
proof -
  from assms(2) obtain w fs where w: "wheel_ok s w" and p: "pool_ok s fs" by (rule timers_okE)
  show ?thesis
    by (rule ok_mono [OF OSTmr_Task_round_ok [OF assms(6,1) w assms(4,5,3)]])
      (use ticked_pool [OF _ p] in \<open>auto simp: timers_ok_def\<close>)
qed

lemma timers_objs: "objs s' = objs s \<Longrightarrow> timers_ok s' = timers_ok s"
  by (rule timers_ok_cong) (simp add: objs_def stores_def timers_def)

lemma pend_timers:
  assumes "sinv s" "timers_ok s" "may_block s"
  shows "ok (OSSemPend (OSTmrSemSignal s) timeout s) (\<lambda>(r, s'). kept s s' \<and> timers_ok s')"
proof -
  have "valid_ev (OSTmrSemSignal s)" using sinvD(4) [OF assms(1)] by (rule oinvD(5))
  then show ?thesis
  proof (cases rule: valid_evE)
    case 1
    then show ?thesis using assms by (simp add: OSSemPend_def)
  next
    case (2 e)
    show ?thesis
    proof (cases "ev_type s e = OS_EVENT_TYPE_SEM")
      case True
      have upd: "timers_ok (upd_ev e f s) = timers_ok s" for f
        by (rule timers_ok_cong) (simp add: upd_ev_def timers_def)
      show ?thesis
        unfolding 2(1)
      proof (rule ok_mono2 [OF OSSemPend_sem [OF assms(1) 2(2) True]])
        show "OSPrioCur s \<noteq> OS_TASK_IDLE_PRIO" using assms(3) by (simp add: may_block_def)
        fix r s'
        assume 1: "kept s s' \<and> (if OSIntNesting s > 0 then r = Returned OS_ERR_PEND_ISR \<and> s' = s
          else if OSLockNesting s > 0 then r = Returned OS_ERR_PEND_LOCKED \<and> s' = s
          else if ev_cnt s e > 0 then r = Returned OS_ERR_NONE \<and> s' = upd_ev e (\<lambda>c. c\<lparr>OSEventCnt := OSEventCnt c - 1\<rparr>) s
          else r = Waiting \<and> blocked e timeout s s')"
        then consider "s' = s" | f where "s' = upd_ev e f s" | "blocked e timeout s s'" by (metis (full_types))
        then have "timers_ok s'"
        proof cases
          case 3
          then have "objs s' = objs s" by (simp add: blocked_def)
          then show ?thesis using timers_objs assms(2) by blast
        qed (use assms(2) upd in simp_all)
        then show "kept s s' \<and> timers_ok s'" using 1 by blast
      qed
    qed (use 2 assms in \<open>simp add: OSSemPend_def\<close>)
  qed
qed

interpretation TmrTask: timer_call
  "\<lambda>s. may_block s \<and> OSRunning s \<and> OSIntNesting s = 0 \<and> (\<exists>h. callback_ok cb h)" "OSTmr_Task cb" for cb
proof (unfold_locales, elim conjE exE)
  fix s h
  assume s: "sinv s" "timers_ok s" "OSLockNesting s < 255" "may_block s" "OSRunning s" "OSIntNesting s = 0" and cb: "callback_ok cb h"
  show "ok (OSTmr_Task cb s) (\<lambda>(r, s'). kept s s' \<and> timers_ok s')"
    unfolding OSTmr_Task_def
  proof (rule ok_bindI2 [OF pend_timers [OF s(1,2,4)]], elim conjE)
    fix r s1
    assume 1: "sinv s1" "ctl s1 = ctl s" "settled s \<longrightarrow> settled s1" "timers_ok s1"
    have c: "OSLockNesting s1 < 255" "OSRunning s1" "OSIntNesting s1 = 0" using 1(2) s by (simp_all add: ctl_def)
    show "ok (case r of Returned err \<Rightarrow> do { s \<leftarrow> OSTmr_Task_round cb s1; Some (Returned (), s) } | Waiting \<Rightarrow> Some (Waiting, s1))
      (\<lambda>(r, s'). kept s s' \<and> timers_ok s')"
    proof (cases r)
      case (Returned err)
      have "ok (do { s \<leftarrow> OSTmr_Task_round cb s1; Some (Returned (), s) }) (\<lambda>(r, s'). kept s s' \<and> timers_ok s')"
        by (rule ok_bindI [OF round_timers [OF 1(1,4) c cb]]) (use 1 in simp)
      then show ?thesis using Returned by simp
    qed (use 1 in simp)
  qed
qed

interpretation TmrTask_resume: timer_call
  "\<lambda>s. ev_at (OSTmrSemSignal s) \<noteq> None \<and> OSRunning s \<and> OSIntNesting s = 0 \<and> (\<exists>h. callback_ok cb h)"
  "\<lambda>s. map_option (Pair ()) (OSTmr_Task_resume cb s)" for cb
proof (unfold_locales, elim conjE exE)
  fix s h
  assume s: "sinv s" "timers_ok s" "OSLockNesting s < 255" "ev_at (OSTmrSemSignal s) \<noteq> None" "OSRunning s" "OSIntNesting s = 0"
    and cb: "callback_ok cb h"
  from s(4) obtain e where e: "OSTmrSemSignal s = EVp e" "e < OS_MAX_EVENTS" by auto
  have "ok (OSTmr_Task_resume cb s) (\<lambda>s'. kept s s' \<and> timers_ok s')"
    unfolding OSTmr_Task_resume_def e(1)
  proof (rule ok_bindI2 [OF OSSemPend_resume_ok [OF s(1) e(2)]], elim exE)
    fix r s1 m
    assume 1: "resumed e s (m, r) s1"
    have k: "kept s s1" by (rule resumed_kept [OF 1])
    have t: "timers_ok s1" using 1 timers_objs [of s1 s] s(2) by (simp add: resumed_def frames_def)
    have c: "OSLockNesting s1 < 255" "OSRunning s1" "OSIntNesting s1 = 0" using k s by (simp_all add: ctl_def)
    have inv1: "sinv s1" using k by simp
    show "ok (OSTmr_Task_round cb s1) (\<lambda>s'. kept s s' \<and> timers_ok s')"
      by (rule ok_mono [OF round_timers [OF inv1 t c cb]]) (use k in simp)
  qed
  then show "ok (map_option (Pair ()) (OSTmr_Task_resume cb s)) (\<lambda>(r, s'). kept s s' \<and> timers_ok s')"
    by (auto simp: ok_iff)
qed

end
