(* ===== verification/Os_Typed.thy ===== *)
theory Os_Typed
  imports Os_Calls
begin

text \<open>
  What every call leaves of the pointers that the kernel keeps for the second part of a call: the event
  that readied a task, the nodes of the tasks that wait for flags, and the free partitions.  They stay of
  their kind whatever the calls do, which needs no more than the text of the calls.
\<close>

section \<open>Pointers of a kind\<close>

text \<open>The event that ended a task's wait for several events.\<close>

definition events_typed :: "kst \<Rightarrow> bool" where
  "events_typed s \<longleftrightarrow> (\<forall>t. valid_ev (OSTCBEventMultiRdy (OSTCBTbl s t)))"

text \<open>
  The nodes \<open>N\<close>, those of the tasks that have waited for flags, point to each other, to a group and to a
  control block; the lists of the groups and the control blocks point to such nodes.
\<close>

definition node_in :: "nat set \<Rightarrow> vptr \<Rightarrow> bool" where
  "node_in N p \<longleftrightarrow> p = NULL \<or> (\<exists>n\<in>N. p = FNp n)"

definition node_typed :: "nat set \<Rightarrow> os_flag_node \<Rightarrow> bool" where
  "node_typed N c \<longleftrightarrow> node_in N (OSFlagNodeNext c) \<and> node_in N (OSFlagNodePrev c)
     \<and> tcb_at (OSFlagNodeTCB c) \<noteq> None \<and> fg_at (OSFlagNodeFlagGrp c) \<noteq> None"

definition grp_typed :: "nat set \<Rightarrow> os_flag_grp \<Rightarrow> bool" where
  "grp_typed N c \<longleftrightarrow> (OSFlagType c = OS_EVENT_TYPE_FLAG \<longrightarrow> node_in N (OSFlagWaitList c))"

definition flags_typed :: "nat set \<Rightarrow> kst \<Rightarrow> bool" where
  "flags_typed N s \<longleftrightarrow> N \<subseteq> {..<OS_N_TCBS} \<and> (\<forall>n\<in>N. node_typed N (OSFlagNodes s n))
     \<and> (\<forall>g. grp_typed N (OSFlagTbl s g)) \<and> (\<forall>t. node_in N (OSTCBFlagNode (OSTCBTbl s t)))"

text \<open>The partitions that have not been created, in the order in which they will be.\<close>

definition mem_pool :: "kst \<Rightarrow> nat list \<Rightarrow> bool" where
  "mem_pool s is \<longleftrightarrow> path MEMp (\<lambda>i. OSMemFreeList_f (OSMemTbl s i)) (OSMemFreeList s) is \<and> distinct is
     \<and> (\<forall>i\<in>set is. i < OS_MAX_MEM_PART \<and> OSMemAddr (OSMemTbl s i) = NULL)"

definition typed :: "nat set \<Rightarrow> kst \<Rightarrow> bool" where
  "typed N s \<longleftrightarrow> events_typed s \<and> flags_typed N s \<and> (\<exists>is. mem_pool s is)"

lemma node_in_simps [simp]: "node_in N NULL" "node_in N (FNp n) \<longleftrightarrow> n \<in> N"
  by (auto simp: node_in_def)

lemma typed_node: "typed N s \<Longrightarrow> node_in N p \<Longrightarrow> fn_at p = Some n \<Longrightarrow> n \<in> N \<and> node_typed N (OSFlagNodes s n)"
  by (auto simp: typed_def flags_typed_def node_in_def)

lemma typed_event: "typed N s \<Longrightarrow> valid_ev (OSTCBEventMultiRdy (OSTCBTbl s t))"
  by (simp add: typed_def events_typed_def)

lemma typed_tcb_node: "typed N s \<Longrightarrow> node_in N (OSTCBFlagNode (OSTCBTbl s t))"
  by (simp add: typed_def flags_typed_def)

lemma typed_group: "typed N s \<Longrightarrow> OSFlagType (OSFlagTbl s g) = OS_EVENT_TYPE_FLAG \<Longrightarrow> node_in N (OSFlagWaitList (OSFlagTbl s g))"
  by (simp add: typed_def flags_typed_def grp_typed_def)

section \<open>Updates\<close>

lemma typed_same:
  assumes "\<And>t. OSTCBEventMultiRdy (OSTCBTbl s' t) = OSTCBEventMultiRdy (OSTCBTbl s t)"
    "\<And>t. OSTCBFlagNode (OSTCBTbl s' t) = OSTCBFlagNode (OSTCBTbl s t)" "OSFlagNodes s' = OSFlagNodes s"
    "OSFlagTbl s' = OSFlagTbl s" "OSMemTbl s' = OSMemTbl s" "OSMemFreeList s' = OSMemFreeList s"
  shows "typed N s' = typed N s"
  using assms by (simp add: typed_def events_typed_def flags_typed_def mem_pool_def)

lemma typed_upd [simp]:
  "typed N (upd_ev e g s) = typed N s" "typed N (upd_q i h s) = typed N s" "typed N (upd_tmr j k s) = typed N s"
  "typed N (upd_spoke j l s) = typed N s" "typed N (set_rdy_bm b s) = typed N s" "typed N (set_ev_bm e b s) = typed N s"
  by (rule typed_same; simp add: kernel_defs)+

lemma typed_tcb:
  assumes "typed N s" "OSTCBEventMultiRdy (f (OSTCBTbl s t)) = OSTCBEventMultiRdy (OSTCBTbl s t) \<or> valid_ev (OSTCBEventMultiRdy (f (OSTCBTbl s t)))"
    "OSTCBFlagNode (f (OSTCBTbl s t)) = OSTCBFlagNode (OSTCBTbl s t) \<or> node_in N (OSTCBFlagNode (f (OSTCBTbl s t)))"
  shows "typed N (upd_tcb t f s)"
  using assms by (auto simp: typed_def events_typed_def flags_typed_def mem_pool_def upd_tcb_def)

lemma typed_grp:
  assumes "typed N s" "grp_typed N (f (OSFlagTbl s g))"
  shows "typed N (upd_grp g f s)"
  using assms by (auto simp: typed_def events_typed_def flags_typed_def mem_pool_def upd_grp_def)

lemma typed_grp_keep:
  assumes "typed N s" "OSFlagType (f (OSFlagTbl s g)) = OSFlagType (OSFlagTbl s g)" "OSFlagWaitList (f (OSFlagTbl s g)) = OSFlagWaitList (OSFlagTbl s g)"
  shows "typed N (upd_grp g f s)"
  by (rule typed_grp [OF assms(1)]) (use assms in \<open>simp add: typed_def flags_typed_def grp_typed_def\<close>)

lemma typed_upd_node:
  assumes "typed N s" "n \<in> N \<Longrightarrow> node_typed N (f (OSFlagNodes s n))"
  shows "typed N (upd_node n f s)"
  using assms by (auto simp: typed_def events_typed_def flags_typed_def mem_pool_def upd_node_def)

text \<open>A new node, with all its fields set, that nothing points to yet.\<close>

lemma node_in_insert: "node_in N p \<Longrightarrow> node_in (insert n N) p"
  by (auto simp: node_in_def)

lemma typed_new_node:
  assumes "typed N s" "n < OS_N_TCBS" "node_typed (insert n N) (f (OSFlagNodes s n))"
  shows "typed (insert n N) (upd_node n f s)"
  using assms node_in_insert [of N _ n]
  by (auto simp: typed_def events_typed_def flags_typed_def mem_pool_def upd_node_def node_typed_def grp_typed_def)

lemma typed_fields [simp]:
  "typed N (s\<lparr>OSCtxSwCtr := v32\<rparr>) = typed N s" "typed N (s\<lparr>OSEventFreeList := p\<rparr>) = typed N s"
  "typed N (s\<lparr>OSIntNesting := v8\<rparr>) = typed N s" "typed N (s\<lparr>OSLockNesting := v8\<rparr>) = typed N s"
  "typed N (s\<lparr>OSPrioCur := v8\<rparr>) = typed N s" "typed N (s\<lparr>OSPrioHighRdy := v8\<rparr>) = typed N s"
  "typed N (s\<lparr>OSRunning := b\<rparr>) = typed N s" "typed N (s\<lparr>OSTCBCur := p\<rparr>) = typed N s" "typed N (s\<lparr>OSTCBHighRdy := p\<rparr>) = typed N s"
  "typed N (s\<lparr>OSTCBPrioTbl := tbl\<rparr>) = typed N s" "typed N (s\<lparr>OSTickStepState := v8\<rparr>) = typed N s"
  "typed N (s\<lparr>OSQFreeList := p\<rparr>) = typed N s" "typed N (s\<lparr>OSTime := v32\<rparr>) = typed N s" "typed N (s\<lparr>OSTmrCtr := v16\<rparr>) = typed N s"
  "typed N (s\<lparr>ptr_mem := mem\<rparr>) = typed N s" "typed N (s\<lparr>OSFlagFreeList := p\<rparr>) = typed N s"
  "typed N (s\<lparr>OSEventTbl_ecb := evs\<rparr>) = typed N s" "typed N (s\<lparr>OSQTbl := qs\<rparr>) = typed N s"
  "typed N (s\<lparr>OSIdleCtr := v32\<rparr>) = typed N s" "typed N (s\<lparr>OSIdleCtrMax := v32\<rparr>) = typed N s" "typed N (s\<lparr>OSIdleCtrRun := v32\<rparr>) = typed N s"
  "typed N (s\<lparr>OSStatRdy := b\<rparr>) = typed N s" "typed N (s\<lparr>OSCPUUsage := v8\<rparr>) = typed N s" "typed N (s\<lparr>OSTaskRegNextAvailID := v8\<rparr>) = typed N s"
  "typed N (s\<lparr>OSTCBFreeList := p\<rparr>) = typed N s" "typed N (s\<lparr>OSTCBList := p\<rparr>) = typed N s" "typed N (s\<lparr>OSTaskCtr := v8\<rparr>) = typed N s"
  "typed N (s\<lparr>OSTmrTime := v32\<rparr>) = typed N s" "typed N (s\<lparr>OSTmrUsed := v16\<rparr>) = typed N s" "typed N (s\<lparr>OSTmrFree := v16\<rparr>) = typed N s"
  "typed N (s\<lparr>OSTmrFreeList := p\<rparr>) = typed N s" "typed N (s\<lparr>OSTmrSem := p\<rparr>) = typed N s" "typed N (s\<lparr>OSTmrSemSignal := p\<rparr>) = typed N s"
  "typed N (s\<lparr>OSTmrTbl := tmrs\<rparr>) = typed N s" "typed N (s\<lparr>OSTmrWheelTbl := wheel\<rparr>) = typed N s"
  by (rule typed_same; simp)+

section \<open>Computations that keep a predicate\<close>

text \<open>One that ends in a state, and one that ends in a result and a state.\<close>

definition stays :: "(kst \<Rightarrow> bool) \<Rightarrow> kst option \<Rightarrow> bool" where
  "stays P m \<longleftrightarrow> (\<forall>s'. m = Some s' \<longrightarrow> P s')"

definition calm :: "(kst \<Rightarrow> bool) \<Rightarrow> ('r \<times> kst) option \<Rightarrow> bool" where
  "calm P m \<longleftrightarrow> (\<forall>r s'. m = Some (r, s') \<longrightarrow> P s')"

named_theorems calm_intros

lemma calm_basic [calm_intros]:
  "P s' \<Longrightarrow> stays P (Some s')" "stays P None" "P s' \<Longrightarrow> calm P (Some (r, s'))" "calm P None"
  by (simp_all add: stays_def calm_def)

lemma calm_if [calm_intros]:
  "(c \<Longrightarrow> stays P m) \<Longrightarrow> (\<not> c \<Longrightarrow> stays P n) \<Longrightarrow> stays P (if c then m else n)"
  "(c \<Longrightarrow> calm P p) \<Longrightarrow> (\<not> c \<Longrightarrow> calm P q) \<Longrightarrow> calm P (if c then p else q)"
  by simp_all

lemma calm_bind_state [calm_intros]:
  fixes m :: "kst option"
  shows "stays P m \<Longrightarrow> (\<And>s'. P s' \<Longrightarrow> stays P (f s')) \<Longrightarrow> stays P (Option.bind m f)"
    and "stays P m \<Longrightarrow> (\<And>s'. P s' \<Longrightarrow> calm P (g s')) \<Longrightarrow> calm P (Option.bind m g)"
  unfolding stays_def calm_def bind_eq_Some_conv by blast+

lemma calm_bind_result [calm_intros]:
  fixes m :: "('r \<times> kst) option"
  shows "calm P m \<Longrightarrow> (\<And>r s'. P s' \<Longrightarrow> stays P (f r s')) \<Longrightarrow> stays P (Option.bind m (case_prod f))"
    and "calm P m \<Longrightarrow> (\<And>r s'. P s' \<Longrightarrow> calm P (g r s')) \<Longrightarrow> calm P (Option.bind m (case_prod g))"
  unfolding stays_def calm_def bind_eq_Some_conv split_paired_All split_paired_Ex prod.case by blast+

lemma calm_bind_value:
  "(\<And>x. m = Some x \<Longrightarrow> stays P (f x)) \<Longrightarrow> stays P (Option.bind m f)"
  "(\<And>x. m = Some x \<Longrightarrow> calm P (g x)) \<Longrightarrow> calm P (Option.bind m g)"
  unfolding stays_def calm_def bind_eq_Some_conv by blast+

text \<open>What the calls fetch is a number, a pointer, a flag or a pair of such.\<close>

lemmas calm_fetch [calm_intros] =
  calm_bind_value [where 'a = nat] calm_bind_value [where 'a = vptr] calm_bind_value [where 'a = "'w::len word"]
  calm_bind_value [where 'a = bool]

lemma calm_cases [calm_intros]:
  "(x = None \<Longrightarrow> stays P a) \<Longrightarrow> (\<And>y. x = Some y \<Longrightarrow> stays P (b y)) \<Longrightarrow> stays P (case_option a b x)"
  "(x = None \<Longrightarrow> calm P c) \<Longrightarrow> (\<And>y. x = Some y \<Longrightarrow> calm P (d y)) \<Longrightarrow> calm P (case_option c d x)"
  by (simp_all split: option.split)

lemma calm_pair [calm_intros]:
  "(\<And>x y. stays P (f x y)) \<Longrightarrow> stays P (case_prod f p)"
  "(\<And>x y. calm P (g x y)) \<Longrightarrow> calm P (case_prod g p)"
  "(\<And>x y. stays P (f' x y s')) \<Longrightarrow> stays P (case_prod f' p s')"
  "(\<And>x y. calm P (g' x y s')) \<Longrightarrow> calm P (case_prod g' p s')"
  by (simp_all split: prod.split)

lemma calm_kinds [calm_intros]:
  "stays P a \<Longrightarrow> stays P b \<Longrightarrow> stays P c \<Longrightarrow> stays P d \<Longrightarrow> stays P e \<Longrightarrow> stays P f \<Longrightarrow> stays P (case_event_type a b c d e f k)"
  "calm P a' \<Longrightarrow> calm P b' \<Longrightarrow> calm P c' \<Longrightarrow> calm P d' \<Longrightarrow> calm P e' \<Longrightarrow> calm P f' \<Longrightarrow> calm P (case_event_type a' b' c' d' e' f' k)"
  "calm P g \<Longrightarrow> calm P h \<Longrightarrow> calm P i \<Longrightarrow> calm P (case_pend_status g h i st)"
  "(\<And>x. calm P (p x)) \<Longrightarrow> calm P q \<Longrightarrow> calm P (case_pend p q r)"
  "(\<And>n. stays P (tf n)) \<Longrightarrow> stays P u \<Longrightarrow> stays P (case ptr of Addr n \<Rightarrow> tf n | _ \<Rightarrow> u)"
  by (simp_all split: event_type.split pend_status.split pend.split vptr.split)

lemma stays_mono: "stays P m \<Longrightarrow> (\<And>s. P s \<Longrightarrow> Q s) \<Longrightarrow> stays Q m" "calm P n \<Longrightarrow> (\<And>s. P s \<Longrightarrow> Q s) \<Longrightarrow> calm Q n"
  by (auto simp: stays_def calm_def)

end
