(* ===== verification/Os_Quiet.thy ===== *)
theory Os_Quiet
  imports Os_Typed Os_Mbox Os_Q Os_Mutex Os_Time Os_Multi Os_Mem Os_Stat Os_Flag_Props Os_Task_Props Os_Tmr_Calls
begin

text \<open>
  The links of the task control blocks and the timers are left alone by every call that is not about
  them, whatever its arguments and the state, and the pointers of \<open>Os_Typed\<close> stay of their kind: this needs no
  invariant of the kernel, only the text of the calls.
\<close>

section \<open>The views\<close>

text \<open>The links of the task control blocks; these, the timers and the semaphore that the tick posts.\<close>

definition links :: "kst \<Rightarrow> _" where
  "links s = (OSTCBList s, OSTCBFreeList s, OSTaskCtr s, (\<lambda>t. (OSTCBNext (OSTCBTbl s t), OSTCBPrev (OSTCBTbl s t))))"

definition quiet :: "_ \<Rightarrow> nat set \<Rightarrow> kst \<Rightarrow> bool" where
  "quiet v N s \<longleftrightarrow> (links s, timers s, OSTmrSemSignal s) = v \<and> typed N s"

lemma quiet_typed: "quiet v N s \<Longrightarrow> typed N s"
  by (simp add: quiet_def)

lemma quiet_refl: "typed N s \<Longrightarrow> quiet (links s, timers s, OSTmrSemSignal s) N s"
  by (simp add: quiet_def)

section \<open>Updates outside the view\<close>

lemma quiet_upd [simp]:
  "quiet v N (upd_ev e g s) = quiet v N s" "quiet v N (upd_q i h s) = quiet v N s"
  "quiet v N (set_rdy_bm b s) = quiet v N s" "quiet v N (set_ev_bm e b s) = quiet v N s"
  unfolding quiet_def by (simp_all add: links_def timers_def) (simp_all add: kernel_defs)

lemma quiet_tcb [simp]:
  assumes "quiet v N s" "\<And>c. OSTCBNext (f c) = OSTCBNext c" "\<And>c. OSTCBPrev (f c) = OSTCBPrev c"
    "\<And>c. OSTCBEventMultiRdy (f c) = OSTCBEventMultiRdy c \<or> OSTCBEventMultiRdy (f c) = NULL \<or> ev_at (OSTCBEventMultiRdy (f c)) \<noteq> None"
    "\<And>c. OSTCBFlagNode (f c) = OSTCBFlagNode c \<or> node_in N (OSTCBFlagNode (f c))"
  shows "quiet v N (upd_tcb t f s)"
proof -
  have "typed N (upd_tcb t f s)"
    by (rule typed_tcb [OF quiet_typed [OF assms(1)]]) (use assms(4,5) in \<open>simp_all add: valid_ev_def\<close>)
  then show ?thesis using assms(1-3) by (simp add: quiet_def links_def timers_def) (auto simp: upd_tcb_def fun_eq_iff)
qed

lemma quiet_grp [simp]:
  assumes "quiet v N s"
    and f: "\<And>c. OSFlagType (f c) = OSFlagType c \<and> OSFlagWaitList (f c) = OSFlagWaitList c
      \<or> OSFlagType (f c) = OS_EVENT_TYPE_UNUSED \<or> node_in N (OSFlagWaitList (f c))"
  shows "quiet v N (upd_grp g f s)"
proof -
  have "grp_typed N (OSFlagTbl s g)" using assms(1) by (simp add: quiet_def typed_def flags_typed_def)
  then have "grp_typed N (f (OSFlagTbl s g))" using f [of "OSFlagTbl s g"] by (auto simp: grp_typed_def)
  then have "typed N (upd_grp g f s)" by (rule typed_grp [OF quiet_typed [OF assms(1)]])
  then show ?thesis
    using assms(1) by (simp add: quiet_def links_def timers_def) (simp add: upd_grp_def)
qed

lemma quiet_node [simp]:
  assumes "quiet v N s"
    and h: "\<And>c. OSFlagNodeNext (h c) = OSFlagNodeNext c \<or> node_in N (OSFlagNodeNext (h c))"
      "\<And>c. OSFlagNodePrev (h c) = OSFlagNodePrev c \<or> node_in N (OSFlagNodePrev (h c))"
      "\<And>c. OSFlagNodeTCB (h c) = OSFlagNodeTCB c" "\<And>c. OSFlagNodeFlagGrp (h c) = OSFlagNodeFlagGrp c"
  shows "quiet v N (upd_node n h s)"
proof -
  have "node_typed N (h (OSFlagNodes s n))" if "node_typed N (OSFlagNodes s n)"
    using that h(1,2) [of "OSFlagNodes s n"] h(3,4) by (auto simp: node_typed_def)
  then have "typed N (upd_node n h s)"
    by (intro typed_upd_node [OF quiet_typed [OF assms(1)]]) (use assms(1) in \<open>simp add: quiet_def typed_def flags_typed_def\<close>)
  then show ?thesis using assms(1) by (simp add: quiet_def links_def timers_def) (simp add: upd_node_def)
qed

lemma quiet_fields [simp]:
  "quiet v N (s\<lparr>OSCtxSwCtr := v32\<rparr>) = quiet v N s" "quiet v N (s\<lparr>OSEventFreeList := p\<rparr>) = quiet v N s"
  "quiet v N (s\<lparr>OSIntNesting := v8\<rparr>) = quiet v N s" "quiet v N (s\<lparr>OSLockNesting := v8\<rparr>) = quiet v N s"
  "quiet v N (s\<lparr>OSPrioCur := v8\<rparr>) = quiet v N s" "quiet v N (s\<lparr>OSPrioHighRdy := v8\<rparr>) = quiet v N s"
  "quiet v N (s\<lparr>OSRunning := b\<rparr>) = quiet v N s" "quiet v N (s\<lparr>OSTCBCur := p\<rparr>) = quiet v N s" "quiet v N (s\<lparr>OSTCBHighRdy := p\<rparr>) = quiet v N s"
  "quiet v N (s\<lparr>OSTCBPrioTbl := tbl\<rparr>) = quiet v N s" "quiet v N (s\<lparr>OSTickStepState := v8\<rparr>) = quiet v N s"
  "quiet v N (s\<lparr>OSQFreeList := p\<rparr>) = quiet v N s" "quiet v N (s\<lparr>OSTime := v32\<rparr>) = quiet v N s" "quiet v N (s\<lparr>OSTmrCtr := v16\<rparr>) = quiet v N s"
  "quiet v N (s\<lparr>ptr_mem := mem\<rparr>) = quiet v N s" "quiet v N (s\<lparr>OSFlagFreeList := p\<rparr>) = quiet v N s"
  "quiet v N (s\<lparr>OSEventTbl_ecb := evs\<rparr>) = quiet v N s" "quiet v N (s\<lparr>OSQTbl := qs\<rparr>) = quiet v N s"
  "quiet v N (s\<lparr>OSIdleCtr := v32\<rparr>) = quiet v N s" "quiet v N (s\<lparr>OSIdleCtrMax := v32\<rparr>) = quiet v N s" "quiet v N (s\<lparr>OSIdleCtrRun := v32\<rparr>) = quiet v N s"
  "quiet v N (s\<lparr>OSStatRdy := b\<rparr>) = quiet v N s" "quiet v N (s\<lparr>OSCPUUsage := v8\<rparr>) = quiet v N s" "quiet v N (s\<lparr>OSTaskRegNextAvailID := v8\<rparr>) = quiet v N s"
  by (simp_all add: quiet_def links_def timers_def)

lemma quiet_if [simp]: "quiet v N (if c then s1 else s2) = (if c then quiet v N s1 else quiet v N s2)"
  by simp

lemma quiet_bm [calm_intros]:
  "quiet v N s' \<Longrightarrow> stays (quiet v N) (rdy_add y by bx s')" "quiet v N s' \<Longrightarrow> stays (quiet v N) (rdy_del y by bx s')"
  "quiet v N s' \<Longrightarrow> stays (quiet v N) (ev_add e y by bx s')" "quiet v N s' \<Longrightarrow> stays (quiet v N) (ev_del e y by bx s')"
  "quiet v N s' \<Longrightarrow> stays (quiet v N) (set_prio_tbl q p s')"
  by (simp_all add: stays_def rdy_add_def rdy_del_def ev_add_def ev_del_def set_prio_tbl_def)

section \<open>The core\<close>

lemma OS_EventTaskRemove_calm [calm_intros]: "quiet v N s' \<Longrightarrow> stays (quiet v N) (OS_EventTaskRemove a b s')"
  unfolding OS_EventTaskRemove_def Let_def by (intro calm_intros) simp_all

lemma ev_del_all_calm [calm_intros]: "quiet v N s' \<Longrightarrow> stays (quiet v N) (ev_del_all a b c d s')"
  by (induction a arbitrary: b c d s') ((simp only: ev_del_all.simps Let_def; intro calm_intros); simp)+

lemma OS_EventTaskRemoveMulti_calm [calm_intros]: "quiet v N s' \<Longrightarrow> stays (quiet v N) (OS_EventTaskRemoveMulti a b s')"
  unfolding OS_EventTaskRemoveMulti_def Let_def by (intro calm_intros) simp_all

lemma OS_EventTaskRdy_unlink_calm [calm_intros]:
  "quiet v N s' \<Longrightarrow> ev_at b \<noteq> None \<Longrightarrow> stays (quiet v N) (OS_EventTaskRdy_unlink a b s')"
  unfolding OS_EventTaskRdy_unlink_def Let_def by (intro calm_intros) simp_all

lemma OS_EventTaskRdy_calm [calm_intros]: "quiet v N s' \<Longrightarrow> calm (quiet v N) (OS_EventTaskRdy a b c d s')"
  unfolding OS_EventTaskRdy_def Let_def by (intro calm_intros) simp_all

lemma OS_EventTaskWait_calm [calm_intros]: "quiet v N s' \<Longrightarrow> stays (quiet v N) (OS_EventTaskWait a s')"
  unfolding OS_EventTaskWait_def Let_def by (intro calm_intros) simp_all

lemma ev_add_all_calm [calm_intros]: "quiet v N s' \<Longrightarrow> stays (quiet v N) (ev_add_all a b c d s')"
  by (induction a arbitrary: b c d s') ((simp only: ev_add_all.simps Let_def; intro calm_intros); simp)+

lemma OS_EventTaskWaitMulti_calm [calm_intros]: "quiet v N s' \<Longrightarrow> stays (quiet v N) (OS_EventTaskWaitMulti a s')"
  unfolding OS_EventTaskWaitMulti_def Let_def by (intro calm_intros) simp_all

lemma OS_EventWaitListInit_calm [calm_intros]: "quiet v N s' \<Longrightarrow> stays (quiet v N) (OS_EventWaitListInit a s')"
  unfolding OS_EventWaitListInit_def Let_def by (intro calm_intros) simp_all

lemma OS_SchedNew_quiet [simp]: "quiet v N (OS_SchedNew s) = quiet v N s"
  by (simp add: OS_SchedNew_def)

lemma xPortTaskSwitch_quiet [simp]: "quiet v N (xPortTaskSwitch s) = quiet v N s"
  by (simp add: xPortTaskSwitch_def)

lemma OS_Sched_calm [calm_intros]: "quiet v N s' \<Longrightarrow> stays (quiet v N) (OS_Sched s')"
  unfolding OS_Sched_def Let_def by (intro calm_intros) simp_all

lemma OSIntEnter_quiet [simp]: "quiet v N (OSIntEnter s) = quiet v N s"
  by (simp add: OSIntEnter_def)

lemma OSIntExit_calm [calm_intros]: "quiet v N s' \<Longrightarrow> stays (quiet v N) (OSIntExit s')"
  unfolding OSIntExit_def Let_def by (intro calm_intros) simp_all

lemma OSSchedLock_quiet [simp]: "quiet v N (OSSchedLock s) = quiet v N s"
  by (simp add: OSSchedLock_def)

lemma OSSchedUnlock_calm [calm_intros]: "quiet v N s' \<Longrightarrow> stays (quiet v N) (OSSchedUnlock s')"
  unfolding OSSchedUnlock_def Let_def by (intro calm_intros) simp_all

section \<open>Events\<close>

lemma take_event_calm [calm_intros]: "quiet v N s' \<Longrightarrow> calm (quiet v N) (take_event s')"
  unfolding take_event_def Let_def by (intro calm_intros) simp_all

lemma init_event_calm [calm_intros]: "quiet v N s' \<Longrightarrow> stays (quiet v N) (init_event a b c d s')"
  unfolding init_event_def Let_def by (intro calm_intros) simp_all

lemma free_event_calm [calm_intros]: "quiet v N s' \<Longrightarrow> stays (quiet v N) (free_event a s')"
  unfolding free_event_def Let_def by (intro calm_intros) simp_all

lemma event_wait_calm [calm_intros]: "quiet v N s' \<Longrightarrow> stays (quiet v N) (event_wait a b c s')"
  unfolding event_wait_def Let_def by (intro calm_intros) simp_all

lemma event_wait_done_calm [calm_intros]: "quiet v N s' \<Longrightarrow> stays (quiet v N) (event_wait_done s')"
  unfolding event_wait_done_def Let_def by (intro calm_intros) simp_all

lemma event_resume_calm [calm_intros]: "quiet v N s' \<Longrightarrow> calm (quiet v N) (event_resume a s')"
  unfolding event_resume_def Let_def by (intro calm_intros) simp_all

lemma OS_EventTaskRdy_all_calm [calm_intros]: "quiet v N s' \<Longrightarrow> calm (quiet v N) (OS_EventTaskRdy_all a b c d e s')"
proof -
  have "quiet v N (snd x)" if "OS_EventTaskRdy_all a b c d e s1 = Some x" "quiet v N s1" for a b c d e s1 x
    using that
  proof (induction a b c d e s1 x rule: OS_EventTaskRdy_all.raw_induct [rotated, consumes 1, case_names step])
    case (step rec a b c d e s1 x)
    have rec: "calm (quiet v N) (rec a b c d e s2)" if "quiet v N s2" for a b c d e s2
      using step(1) [OF _ that] by (fastforce simp: calm_def)
    have "calm (quiet v N) (Some x)" unfolding step(2) [symmetric] Let_def by (intro calm_intros rec step(3)) (use step(3) in simp_all)
    then show ?case by (cases x) (simp add: calm_def)
  qed
  then show "quiet v N s' \<Longrightarrow> calm (quiet v N) (OS_EventTaskRdy_all a b c d e s')" by (fastforce simp: calm_def)
qed

lemma event_pend_abort_calm [calm_intros]: "quiet v N s' \<Longrightarrow> calm (quiet v N) (event_pend_abort a b c s')"
  unfolding event_pend_abort_def Let_def by (intro calm_intros) simp_all

lemma event_post_opt_calm [calm_intros]: "quiet v N s' \<Longrightarrow> stays (quiet v N) (event_post_opt a b c d s')"
  unfolding event_post_opt_def Let_def by (intro calm_intros) simp_all

section \<open>Semaphores\<close>

lemma OSSemAccept_calm [calm_intros]: "quiet v N s' \<Longrightarrow> calm (quiet v N) (OSSemAccept a s')"
  unfolding OSSemAccept_def Let_def by (intro calm_intros) simp_all

lemma OSSemCreate_calm [calm_intros]: "quiet v N s' \<Longrightarrow> calm (quiet v N) (OSSemCreate a s')"
  unfolding OSSemCreate_def Let_def by (intro calm_intros) simp_all

lemma OSSemDel_calm [calm_intros]: "quiet v N s' \<Longrightarrow> calm (quiet v N) (OSSemDel a b s')"
  unfolding OSSemDel_def Let_def by (intro calm_intros) simp_all

lemma OSSemPend_calm [calm_intros]: "quiet v N s' \<Longrightarrow> calm (quiet v N) (OSSemPend a b s')"
  unfolding OSSemPend_def Let_def by (intro calm_intros) simp_all

lemma OSSemPend_resume_calm [calm_intros]: "quiet v N s' \<Longrightarrow> calm (quiet v N) (OSSemPend_resume a s')"
  unfolding OSSemPend_resume_def Let_def by (intro calm_intros) simp_all

lemma OSSemPendAbort_calm [calm_intros]: "quiet v N s' \<Longrightarrow> calm (quiet v N) (OSSemPendAbort a b s')"
  unfolding OSSemPendAbort_def Let_def by (intro calm_intros) simp_all

lemma OSSemPost_calm [calm_intros]: "quiet v N s' \<Longrightarrow> calm (quiet v N) (OSSemPost a s')"
  unfolding OSSemPost_def Let_def by (intro calm_intros) simp_all

lemma OSSemSet_calm [calm_intros]: "quiet v N s' \<Longrightarrow> calm (quiet v N) (OSSemSet a b s')"
  unfolding OSSemSet_def Let_def by (intro calm_intros) simp_all

section \<open>Mailboxes\<close>

lemma OSMboxAccept_calm [calm_intros]: "quiet v N s' \<Longrightarrow> calm (quiet v N) (OSMboxAccept a s')"
  unfolding OSMboxAccept_def Let_def by (intro calm_intros) simp_all

lemma OSMboxCreate_calm [calm_intros]: "quiet v N s' \<Longrightarrow> calm (quiet v N) (OSMboxCreate a s')"
  unfolding OSMboxCreate_def Let_def by (intro calm_intros) simp_all

lemma OSMboxDel_calm [calm_intros]: "quiet v N s' \<Longrightarrow> calm (quiet v N) (OSMboxDel a b s')"
  unfolding OSMboxDel_def Let_def by (intro calm_intros) simp_all

lemma OSMboxPend_calm [calm_intros]: "quiet v N s' \<Longrightarrow> calm (quiet v N) (OSMboxPend a b s')"
  unfolding OSMboxPend_def Let_def by (intro calm_intros) simp_all

lemma OSMboxPend_resume_calm [calm_intros]: "quiet v N s' \<Longrightarrow> calm (quiet v N) (OSMboxPend_resume a s')"
  unfolding OSMboxPend_resume_def Let_def by (intro calm_intros) simp_all

lemma OSMboxPendAbort_calm [calm_intros]: "quiet v N s' \<Longrightarrow> calm (quiet v N) (OSMboxPendAbort a b s')"
  unfolding OSMboxPendAbort_def Let_def by (intro calm_intros) simp_all

lemma OSMboxPost_calm [calm_intros]: "quiet v N s' \<Longrightarrow> calm (quiet v N) (OSMboxPost a b s')"
  unfolding OSMboxPost_def Let_def by (intro calm_intros) simp_all

lemma OSMboxPostOpt_calm [calm_intros]: "quiet v N s' \<Longrightarrow> calm (quiet v N) (OSMboxPostOpt a b c s')"
  unfolding OSMboxPostOpt_def Let_def by (intro calm_intros) simp_all

section \<open>Queues\<close>

lemma set_ring_quiet [simp]: "quiet v N (set_ring a b s) = quiet v N s"
  by (simp add: set_ring_def)

lemma OSQAccept_calm [calm_intros]: "quiet v N s' \<Longrightarrow> calm (quiet v N) (OSQAccept a s')"
  unfolding OSQAccept_def Let_def by (intro calm_intros) simp_all

lemma OSQCreate_calm [calm_intros]: "quiet v N s' \<Longrightarrow> calm (quiet v N) (OSQCreate a b s')"
  unfolding OSQCreate_def Let_def by (intro calm_intros) simp_all

lemma free_queue_calm [calm_intros]: "quiet v N s' \<Longrightarrow> stays (quiet v N) (free_queue a s')"
  unfolding free_queue_def Let_def by (intro calm_intros) simp_all

lemma OSQDel_calm [calm_intros]: "quiet v N s' \<Longrightarrow> calm (quiet v N) (OSQDel a b s')"
  unfolding OSQDel_def Let_def by (intro calm_intros) simp_all

lemma OSQFlush_calm [calm_intros]: "quiet v N s' \<Longrightarrow> calm (quiet v N) (OSQFlush a s')"
  unfolding OSQFlush_def Let_def by (intro calm_intros) simp_all

lemma OSQPend_calm [calm_intros]: "quiet v N s' \<Longrightarrow> calm (quiet v N) (OSQPend a b s')"
  unfolding OSQPend_def Let_def by (intro calm_intros) simp_all

lemma OSQPend_resume_calm [calm_intros]: "quiet v N s' \<Longrightarrow> calm (quiet v N) (OSQPend_resume a s')"
  unfolding OSQPend_resume_def Let_def by (intro calm_intros) simp_all

lemma OSQPendAbort_calm [calm_intros]: "quiet v N s' \<Longrightarrow> calm (quiet v N) (OSQPendAbort a b s')"
  unfolding OSQPendAbort_def Let_def by (intro calm_intros) simp_all

lemma OSQPost_calm [calm_intros]: "quiet v N s' \<Longrightarrow> calm (quiet v N) (OSQPost a b s')"
  unfolding OSQPost_def Let_def by (intro calm_intros) simp_all

lemma OSQPostFront_calm [calm_intros]: "quiet v N s' \<Longrightarrow> calm (quiet v N) (OSQPostFront a b s')"
  unfolding OSQPostFront_def Let_def by (intro calm_intros) simp_all

lemma OSQPostOpt_calm [calm_intros]: "quiet v N s' \<Longrightarrow> calm (quiet v N) (OSQPostOpt a b c s')"
  unfolding OSQPostOpt_def Let_def by (intro calm_intros) simp_all

section \<open>Mutexes\<close>

lemma mutex_own_quiet [simp]: "quiet v N (mutex_own a b c s) = quiet v N s"
  by (simp add: mutex_own_def)

lemma mutex_take_calm [calm_intros]: "quiet v N s' \<Longrightarrow> calm (quiet v N) (mutex_take a s')"
  unfolding mutex_take_def Let_def by (intro calm_intros) simp_all

lemma OSMutexAccept_calm [calm_intros]: "quiet v N s' \<Longrightarrow> calm (quiet v N) (OSMutexAccept a s')"
  unfolding OSMutexAccept_def Let_def by (intro calm_intros) simp_all

lemma OSMutexCreate_calm [calm_intros]: "quiet v N s' \<Longrightarrow> calm (quiet v N) (OSMutexCreate a s')"
  unfolding OSMutexCreate_def Let_def by (intro calm_intros) simp_all

lemma OSMutex_RdyAtPrio_calm [calm_intros]: "quiet v N s' \<Longrightarrow> stays (quiet v N) (OSMutex_RdyAtPrio a b s')"
  unfolding OSMutex_RdyAtPrio_def Let_def by (intro calm_intros) simp_all

lemma free_mutex_calm [calm_intros]: "quiet v N s' \<Longrightarrow> stays (quiet v N) (free_mutex a s')"
  unfolding free_mutex_def Let_def by (intro calm_intros) simp_all

lemma OSMutexDel_calm [calm_intros]: "quiet v N s' \<Longrightarrow> calm (quiet v N) (OSMutexDel a b s')"
  unfolding OSMutexDel_def Let_def by (intro calm_intros) simp_all

lemma mutex_raise_calm [calm_intros]: "quiet v N s' \<Longrightarrow> stays (quiet v N) (mutex_raise a b s')"
  unfolding mutex_raise_def Let_def by (intro calm_intros) simp_all

lemma OSMutexPend_calm [calm_intros]: "quiet v N s' \<Longrightarrow> calm (quiet v N) (OSMutexPend a b s')"
  unfolding OSMutexPend_def Let_def by (intro calm_intros) simp_all

lemma OSMutexPend_resume_calm [calm_intros]: "quiet v N s' \<Longrightarrow> calm (quiet v N) (OSMutexPend_resume a s')"
  unfolding OSMutexPend_resume_def Let_def by (intro calm_intros) simp_all

lemma OSMutexPost_calm [calm_intros]: "quiet v N s' \<Longrightarrow> calm (quiet v N) (OSMutexPost a s')"
  unfolding OSMutexPost_def Let_def by (intro calm_intros) simp_all

section \<open>Event flags\<close>

lemma OSFlagAccept_calm [calm_intros]: "quiet v N s' \<Longrightarrow> calm (quiet v N) (OSFlagAccept a b c s')"
  unfolding OSFlagAccept_def Let_def by (intro calm_intros) simp_all

lemma OSFlagCreate_calm [calm_intros]: "quiet v N s' \<Longrightarrow> calm (quiet v N) (OSFlagCreate a s')"
  unfolding OSFlagCreate_def Let_def by (intro calm_intros) simp_all

text \<open>The nodes of a list are among those that have waited.\<close>

lemma typed_next: "typed N s \<Longrightarrow> n \<in> N \<Longrightarrow> node_in N (OSFlagNodeNext (OSFlagNodes s n))"
  and typed_prev: "typed N s \<Longrightarrow> n \<in> N \<Longrightarrow> node_in N (OSFlagNodePrev (OSFlagNodes s n))"
  by (simp_all add: typed_def flags_typed_def node_typed_def)

lemma OS_FlagUnlink_calm [calm_intros]:
  assumes "quiet v N s" "node_in N p"
  shows "stays (quiet v N) (OS_FlagUnlink p s)"
proof (cases "fn_at p")
  case (Some n)
  note n = typed_node [OF quiet_typed [OF assms(1)] assms(2) Some]
  then have "node_in N (OSFlagNodeNext (OSFlagNodes s n))" "node_in N (OSFlagNodePrev (OSFlagNodes s n))"
    by (simp_all add: node_typed_def)
  then show ?thesis
    unfolding OS_FlagUnlink_def Let_def Some by (intro calm_intros) (use assms in \<open>simp_all\<close>)
qed (simp add: OS_FlagUnlink_def stays_def)

lemma OS_FlagTaskRdy_calm [calm_intros]: "quiet v N s' \<Longrightarrow> node_in N a \<Longrightarrow> calm (quiet v N) (OS_FlagTaskRdy a b c s')"
  unfolding OS_FlagTaskRdy_def Let_def by (intro calm_intros) simp_all

lemma free_flag_calm [calm_intros]: "quiet v N s' \<Longrightarrow> stays (quiet v N) (free_flag a s')"
  unfolding free_flag_def Let_def by (intro calm_intros) simp_all

lemma flag_abort_all_calm [calm_intros]: "quiet v N s' \<Longrightarrow> node_in N a \<Longrightarrow> stays (quiet v N) (flag_abort_all a s')"
proof -
  have "quiet v N x" if "flag_abort_all a s1 = Some x" "quiet v N s1" "node_in N a" for a s1 x
    using that
  proof (induction a s1 x rule: flag_abort_all.raw_induct [rotated, consumes 1, case_names step])
    case (step rec a s1 x)
    have rec: "stays (quiet v N) (rec a s2)" if "quiet v N s2" "node_in N a" for a s2
      using step(1) [OF _ that] by (fastforce simp: stays_def)
    have "stays (quiet v N) (Some x)" unfolding step(2) [symmetric] Let_def by (intro calm_intros rec step(3)) (use step(3-) in \<open>auto dest: quiet_typed intro: typed_next typed_group\<close>)
    then show ?case by (simp add: stays_def)
  qed
  then show "quiet v N s' \<Longrightarrow> node_in N a \<Longrightarrow> stays (quiet v N) (flag_abort_all a s')" by (fastforce simp: stays_def)
qed

lemma OSFlagDel_calm [calm_intros]: "quiet v N s' \<Longrightarrow> calm (quiet v N) (OSFlagDel a b s')"
  unfolding OSFlagDel_def Let_def by (intro calm_intros) (auto dest: quiet_typed intro: typed_group)

lemma OSFlagNameSet_calm [calm_intros]: "quiet v N s' \<Longrightarrow> calm (quiet v N) (OSFlagNameSet a b s')"
  unfolding OSFlagNameSet_def Let_def by (intro calm_intros) simp_all

lemma flag_post_loop_calm [calm_intros]: "quiet v N s' \<Longrightarrow> node_in N b \<Longrightarrow> calm (quiet v N) (flag_post_loop a b c s')"
proof -
  have "quiet v N (snd x)" if "flag_post_loop a b c s1 = Some x" "quiet v N s1" "node_in N b" for a b c s1 x
    using that
  proof (induction a b c s1 x rule: flag_post_loop.raw_induct [rotated, consumes 1, case_names step])
    case (step rec a b c s1 x)
    have rec: "calm (quiet v N) (rec a b c s2)" if "quiet v N s2" "node_in N b" for a b c s2
      using step(1) [OF _ that] by (fastforce simp: calm_def)
    have "calm (quiet v N) (Some x)" unfolding step(2) [symmetric] Let_def by (intro calm_intros rec step(3)) (use step(3-) in \<open>auto dest: quiet_typed intro: typed_next typed_group\<close>)
    then show ?case by (cases x) (simp add: calm_def)
  qed
  then show "quiet v N s' \<Longrightarrow> node_in N b \<Longrightarrow> calm (quiet v N) (flag_post_loop a b c s')" by (fastforce simp: calm_def)
qed

lemma OSFlagPost_calm [calm_intros]: "quiet v N s' \<Longrightarrow> calm (quiet v N) (OSFlagPost a b c s')"
  unfolding OSFlagPost_def Let_def by (intro calm_intros) (auto dest: quiet_typed intro: typed_group)

lemma OSFlagPost_resume_calm [calm_intros]: "quiet v N s' \<Longrightarrow> calm (quiet v N) (OSFlagPost_resume a s')"
  unfolding OSFlagPost_resume_def Let_def by (intro calm_intros) simp_all

section \<open>Waiting for flags\<close>

text \<open>The node of the task that waits is new among the nodes.\<close>

lemma OS_FlagBlock_calm:
  assumes q: "quiet v N s" and cur: "OSTCBCur s = TCBp t" "t < OS_N_TCBS"
    and g: "fg_at p = Some g" "OSFlagType (OSFlagTbl s g) = OS_EVENT_TYPE_FLAG"
  shows "stays (quiet v (insert t N)) (OS_FlagBlock p (FNp t) a b c s)"
proof -
  define h :: "os_flag_node \<Rightarrow> os_flag_node" where "h = (\<lambda>c. c\<lparr>OSFlagNodeFlags := a, OSFlagNodeWaitType := b, OSFlagNodeTCB := TCBp t,
    OSFlagNodeNext := OSFlagWaitList (OSFlagTbl s g), OSFlagNodePrev := NULL, OSFlagNodeFlagGrp := p\<rparr>)"
  have swap: "upd_node n k (upd_tcb t f s) = upd_tcb t f (upd_node n k s)" for n k f
    by (simp add: upd_node_def upd_tcb_def)
  have nx: "node_in N (OSFlagWaitList (OSFlagTbl s g))" by (rule typed_group [OF quiet_typed [OF q] g(2)])
  then have "node_typed (insert t N) (h (OSFlagNodes s t))" using cur g(1) by (simp add: node_typed_def h_def node_in_insert)
  then have "typed (insert t N) (upd_node t h s)" by (rule typed_new_node [OF quiet_typed [OF q] cur(2)])
  then have 1: "quiet v (insert t N) (upd_node t h s)"
    using q by (simp add: quiet_def links_def timers_def) (simp add: upd_node_def)
  have cur1: "OSTCBCur (upd_tcb t f s) = TCBp t" for f using cur(1) by (simp add: upd_tcb_def)
  show ?thesis
    unfolding OS_FlagBlock_def Let_def cur1 using cur g
    by (simp add: swap) (intro conjI impI calm_intros; use 1 [unfolded h_def] nx in \<open>simp add: node_in_insert\<close>)
qed

lemma OSFlagPend_typed:
  assumes q: "quiet v N s" and run: "OSFlagPend p fl wt t s = Some (r, s')"
  shows "quiet v (case r of Waiting \<Rightarrow> insert (cur_ix s) N | Returned _ \<Rightarrow> N) s'"
proof (cases r)
  case (Returned x)
  have "r = Waiting \<or> quiet v N s'"
    using run q by (auto simp: OSFlagPend_def Let_def bind_eq_Some_conv split: if_splits option.splits)
  then show ?thesis using Returned by simp
next
  case Waiting
  obtain g u where g: "fg_at p = Some g" "OSFlagType (OSFlagTbl s g) = OS_EVENT_TYPE_FLAG" "tcb_at (OSTCBCur s) = Some u"
    and b: "Option.bind (OS_FlagBlock p (FNp u) fl (if wt AND OS_FLAG_CONSUME \<noteq> 0 then wt AND NOT OS_FLAG_CONSUME else wt) t s) OS_Sched = Some s'"
    using run Waiting by (auto simp: OSFlagPend_def Let_def bind_eq_Some_conv split: if_splits option.splits)
  have u: "OSTCBCur s = TCBp u" "u < OS_N_TCBS" "cur_ix s = u" using g(3) cur_ix by simp_all
  have "stays (quiet v (insert u N)) (Option.bind (OS_FlagBlock p (FNp u) fl (if wt AND OS_FLAG_CONSUME \<noteq> 0 then wt AND NOT OS_FLAG_CONSUME else wt) t s) OS_Sched)"
    by (intro calm_intros OS_FlagBlock_calm [OF q u(1,2) g(1,2)])
  then show ?thesis using b Waiting u(3) by (simp add: stays_def)
qed

text \<open>When it runs again its node is one of them, so that taking it out of the list is defined.\<close>

lemma OS_FlagUnlink_typed:
  assumes "typed N s" "n \<in> N"
  shows "ok (OS_FlagUnlink (FNp n) s) (unread s)"
proof -
  have n: "n < OS_N_TCBS" "node_typed N (OSFlagNodes s n)" and N: "N \<subseteq> {..<OS_N_TCBS}"
    using assms by (auto simp: typed_def flags_typed_def)
  then obtain t g where tg: "OSFlagNodeTCB (OSFlagNodes s n) = TCBp t" "t < OS_N_TCBS"
      "OSFlagNodeFlagGrp (OSFlagNodes s n) = FGp g" "g < OS_MAX_FLAGS"
    and nx: "node_in N (OSFlagNodeNext (OSFlagNodes s n))" "node_in N (OSFlagNodePrev (OSFlagNodes s n))"
    by (auto simp: node_typed_def)
  have at: "p \<noteq> NULL \<Longrightarrow> \<exists>m<OS_N_TCBS. p = FNp m" if "node_in N p" for p using that N by (auto simp: node_in_def)
  have u: "unread s (upd_tcb k (\<lambda>c. c\<lparr>OSTCBFlagNode := NULL\<rparr>) s')" if "unread s s'" for k s'
    by (rule unread_trans [OF that], rule unread_tcb) simp_all
  note ug = unread_trans [OF unread_flags(1) unread_flags(2)] unread_trans [OF unread_flags(2) unread_flags(2)]
  show ?thesis
    using n(1) tg at [OF nx(1)] at [OF nx(2)]
    by (cases "OSFlagNodePrev (OSFlagNodes s n) = NULL"; cases "OSFlagNodeNext (OSFlagNodes s n) = NULL")
      (auto simp: OS_FlagUnlink_def Let_def intro!: u ug)
qed

lemma OSFlagPend_resume_calm:
  assumes "quiet v N s" "cur_ix s \<in> N"
  shows "calm (quiet v N) (OSFlagPend_resume p wt s)"
  unfolding OSFlagPend_resume_def Let_def by (intro calm_intros) (use assms in \<open>auto simp: cur_ix\<close>)

interpretation FlagPend_resume_typed: sched_call
  "\<lambda>s. typed N s \<and> cur_ix s \<in> N \<and> fg_at pgrp \<noteq> None" "OSFlagPend_resume pgrp wait_type" for N pgrp wait_type
proof (rule sched_callI, elim conjE)
  fix s
  assume inv: "sinv s" and t: "typed N s" "cur_ix s \<in> N" and g: "fg_at pgrp \<noteq> None"
  note cu = sinv_cur(1,3) [OF inv]
  from g obtain g where g: "pgrp = FGp g" "g < OS_MAX_FLAGS" by auto
  show "ok (OSFlagPend_resume pgrp wait_type s) (\<lambda>(r, s'). kept s s')"
  proof (cases "OSTCBStatPend (OSTCBTbl s (cur_ix s)) = OS_STAT_PEND_OK")
    case True
    then show ?thesis using cu g inv unread_kept [OF inv unread_flags(1)] by (simp add: OSFlagPend_resume_def Let_def)
  next
    case False
    let ?t = "cur_ix s"
    define s1 where "s1 = upd_tcb ?t (\<lambda>c. c\<lparr>OSTCBStatPend := OS_STAT_PEND_OK\<rparr>) s"
    have u1: "unread s s1" unfolding s1_def by (rule unread_tcb) simp_all
    have "typed N s1" unfolding s1_def by (rule typed_tcb [OF t(1)]) simp_all
    from OS_FlagUnlink_typed [OF this t(2)] obtain s2 where r2: "OS_FlagUnlink (FNp ?t) s1 = Some s2" and u2: "unread s1 s2"
      by (auto simp: ok_iff)
    have "unread s2 (upd_tcb ?t (\<lambda>c. c\<lparr>OSTCBStat := OS_STAT_RDY\<rparr>) s2)" by (rule unread_tcb) simp_all
    then have "unread s (upd_tcb ?t (\<lambda>c. c\<lparr>OSTCBStat := OS_STAT_RDY\<rparr>) s2)" using u1 u2 by (blast intro: unread_trans)
    from unread_kept [OF inv this] show ?thesis
      using cu False r2 g by (simp add: OSFlagPend_resume_def Let_def s1_def)
  qed
qed

section \<open>Memory partitions\<close>

text \<open>A partition in use is not among the free ones.\<close>

lemma part_used: "part_ok i s \<Longrightarrow> OSMemAddr (OSMemTbl s i) \<noteq> NULL"
  by (auto simp: part_ok_def region_ok_def)

lemma quiet_part:
  assumes q: "quiet v N s" and i: "OSMemAddr (OSMemTbl s i) \<noteq> NULL" and f: "\<And>c. OSMemAddr (f c) = OSMemAddr c"
  shows "quiet v N (upd_mem i f s)"
proof -
  obtain ms where m: "mem_pool s ms" using q by (auto simp: quiet_def typed_def)
  then have "i \<notin> set ms" using i by (auto simp: mem_pool_def)
  then have "path MEMp (\<lambda>j. OSMemFreeList_f (OSMemTbl (upd_mem i f s) j)) (OSMemFreeList s) ms
      = path MEMp (\<lambda>j. OSMemFreeList_f (OSMemTbl s j)) (OSMemFreeList s) ms"
    by (intro path_cong) auto
  then have "mem_pool (upd_mem i f s) ms" using m f by (auto simp: mem_pool_def) (simp add: upd_mem_def)
  then show ?thesis using q
    by (auto simp: quiet_def typed_def events_typed_def flags_typed_def links_def timers_def) (simp_all add: upd_mem_def)
qed

lemma quiet_mem_name [simp]:
  assumes "quiet v N s"
  shows "quiet v N (upd_mem i (\<lambda>c. c\<lparr>OSMemName := n\<rparr>) s)"
proof -
  let ?s = "upd_mem i (\<lambda>c. c\<lparr>OSMemName := n\<rparr>) s"
  have eq: "(\<lambda>j. OSMemFreeList_f (OSMemTbl ?s j)) = (\<lambda>j. OSMemFreeList_f (OSMemTbl s j))"
    "OSMemAddr (OSMemTbl ?s j) = OSMemAddr (OSMemTbl s j)" "OSMemFreeList ?s = OSMemFreeList s" for j
    by (auto simp: upd_mem_def)
  have "mem_pool ?s = mem_pool s" unfolding mem_pool_def eq ..
  then show ?thesis using assms
    by (simp add: quiet_def typed_def events_typed_def flags_typed_def links_def timers_def) (simp add: upd_mem_def)
qed

lemma OSMemNameSet_calm [calm_intros]: "quiet v N s' \<Longrightarrow> calm (quiet v N) (OSMemNameSet a b s')"
  unfolding OSMemNameSet_def Let_def by (intro calm_intros) simp_all

lemma OSMemGet_calm:
  assumes "quiet v N s" "p = NULL \<or> (\<exists>i. p = MEMp i \<and> part_ok i s)"
  shows "calm (quiet v N) (OSMemGet p s)"
  unfolding OSMemGet_def Let_def by (intro calm_intros) (use assms part_used in \<open>auto intro: quiet_part\<close>)

lemma OSMemPut_calm:
  assumes "quiet v N s" "b = NULL \<or> (\<exists>i. p = MEMp i \<and> part_ok i s)"
  shows "calm (quiet v N) (OSMemPut p b s)"
  unfolding OSMemPut_def Let_def by (intro calm_intros) (use assms part_used in \<open>auto intro!: quiet_part\<close>)

text \<open>Creating a partition takes the first of the free ones.\<close>

lemma OSMemCreate_calm:
  assumes q: "quiet v N s"
  shows "calm (quiet v N) (OSMemCreate a n sz s)"
proof -
  obtain ms where m: "mem_pool s ms" using q by (auto simp: quiet_def typed_def)
  have new: "quiet v N (upd_mem i f (s\<lparr>OSMemFreeList := OSMemFreeList_f (OSMemTbl s i), ptr_mem := mem\<rparr>))"
    if i: "OSMemFreeList s = MEMp i" for i f mem
  proof -
    obtain js where js: "ms = i # js" using m i by (cases ms) (auto simp: mem_pool_def)
    let ?s = "upd_mem i f (s\<lparr>OSMemFreeList := OSMemFreeList_f (OSMemTbl s i), ptr_mem := mem\<rparr>)"
    have "path MEMp (\<lambda>j. OSMemFreeList_f (OSMemTbl ?s j)) (OSMemFreeList_f (OSMemTbl s i)) js
        = path MEMp (\<lambda>j. OSMemFreeList_f (OSMemTbl s j)) (OSMemFreeList_f (OSMemTbl s i)) js"
      by (intro path_cong) (use m in \<open>auto simp: mem_pool_def js\<close>)
    then have "mem_pool ?s js" using m by (auto simp: mem_pool_def js) (simp add: upd_mem_def)
    then show ?thesis using q
      by (auto simp: quiet_def typed_def events_typed_def flags_typed_def links_def timers_def) (simp_all add: upd_mem_def)
  qed
  have none: "quiet v N (s\<lparr>OSMemFreeList := p\<rparr>)" if "p = OSMemFreeList s" for p using q that by simp
  show ?thesis
    using q new by (auto simp: OSMemCreate_def Let_def calm_def bind_eq_Some_conv split: if_splits)
qed

lemma typed_mem_free:
  assumes "typed N s"
  shows "OSMemFreeList s = NULL \<or> (\<exists>i<OS_MAX_MEM_PART. OSMemFreeList s = MEMp i)"
proof -
  obtain ms where "mem_pool s ms" using assms by (auto simp: typed_def)
  then show ?thesis by (cases ms) (auto simp: mem_pool_def)
qed

section \<open>Names, counters and the two tasks of the system\<close>

lemma OSEventNameSet_calm [calm_intros]: "quiet v N s' \<Longrightarrow> calm (quiet v N) (OSEventNameSet a b s')"
  unfolding OSEventNameSet_def Let_def by (intro calm_intros) simp_all

lemma OSTaskRegGetID_calm [calm_intros]: "quiet v N s' \<Longrightarrow> calm (quiet v N) (Some (OSTaskRegGetID s'))"
  by (simp add: OSTaskRegGetID_def calm_def)

section \<open>Time\<close>

lemma OSTimeDly_calm [calm_intros]: "quiet v N s' \<Longrightarrow> stays (quiet v N) (OSTimeDly a s')"
  unfolding OSTimeDly_def Let_def by (intro calm_intros) simp_all

lemma OSTimeDlyHMSM_calm [calm_intros]: "quiet v N s' \<Longrightarrow> calm (quiet v N) (OSTimeDlyHMSM a b c d s')"
  unfolding OSTimeDlyHMSM_def Let_def by (intro calm_intros) simp_all

lemma delay_end_calm [calm_intros]: "quiet v N s' \<Longrightarrow> stays (quiet v N) (delay_end a s')"
  unfolding delay_end_def Let_def by (intro calm_intros) simp_all

lemma OSTimeDlyResume_calm [calm_intros]: "quiet v N s' \<Longrightarrow> calm (quiet v N) (OSTimeDlyResume a s')"
  unfolding OSTimeDlyResume_def Let_def by (intro calm_intros) simp_all

lemma OSTimeSet_quiet [simp]: "quiet v N (OSTimeSet a s) = quiet v N s"
  by (simp add: OSTimeSet_def)

lemma OSTmrSignal_calm [calm_intros]: "quiet v N s' \<Longrightarrow> calm (quiet v N) (OSTmrSignal s')"
  unfolding OSTmrSignal_def Let_def by (intro calm_intros) simp_all

lemma OSTimeTickHook_calm [calm_intros]: "quiet v N s' \<Longrightarrow> stays (quiet v N) (OSTimeTickHook s')"
  unfolding OSTimeTickHook_def Let_def by (intro calm_intros) simp_all

lemma tick_loop_calm [calm_intros]: "quiet v N s' \<Longrightarrow> stays (quiet v N) (tick_loop a s')"
proof -
  have "quiet v N x" if "tick_loop a s1 = Some x" "quiet v N s1" for a s1 x
    using that
  proof (induction a s1 x rule: tick_loop.raw_induct [rotated, consumes 1, case_names step])
    case (step rec a s1 x)
    have rec: "stays (quiet v N) (rec a s2)" if "quiet v N s2" for a s2
      using step(1) [OF _ that] by (fastforce simp: stays_def)
    have "stays (quiet v N) (Some x)" unfolding step(2) [symmetric] Let_def by (intro calm_intros rec step(3)) (use step(3) in simp_all)
    then show ?case by (simp add: stays_def)
  qed
  then show "quiet v N s' \<Longrightarrow> stays (quiet v N) (tick_loop a s')" by (fastforce simp: stays_def)
qed

lemma OSTimeTick_calm [calm_intros]: "quiet v N s' \<Longrightarrow> stays (quiet v N) (OSTimeTick s')"
  unfolding OSTimeTick_def Let_def if_distrib [where f = "case_prod _"] prod.case by (intro calm_intros) simp_all

lemma xPortSysTickHandler_calm [calm_intros]: "quiet v N s' \<Longrightarrow> stays (quiet v N) (xPortSysTickHandler s')"
  unfolding xPortSysTickHandler_def Let_def by (intro calm_intros) simp_all

section \<open>Several events\<close>

lemma multi_poll_calm [calm_intros]: "quiet v N s' \<Longrightarrow> calm (quiet v N) (multi_poll a b c d s')"
  by (induction a arbitrary: b c d s') ((simp only: multi_poll.simps Let_def; intro calm_intros); simp)+

lemma OSEventPendMulti_calm [calm_intros]: "quiet v N s' \<Longrightarrow> calm (quiet v N) (OSEventPendMulti a b c d s')"
  unfolding OSEventPendMulti_def Let_def by (intro calm_intros) simp_all

lemma multi_done_quiet [simp]: "quiet v N s \<Longrightarrow> quiet v N (multi_done a s)"
  by (simp add: multi_done_def)

lemma OSEventPendMulti_resume_calm [calm_intros]: "quiet v N s' \<Longrightarrow> calm (quiet v N) (OSEventPendMulti_resume a s')"
  unfolding OSEventPendMulti_resume_def Let_def by (intro calm_intros) simp_all

section \<open>Tasks\<close>

lemma OSTaskDelReq_calm [calm_intros]: "quiet v N s' \<Longrightarrow> calm (quiet v N) (OSTaskDelReq a s')"
  unfolding OSTaskDelReq_def Let_def by (intro calm_intros) simp_all

lemma ev_move_all_calm [calm_intros]: "quiet v N s' \<Longrightarrow> stays (quiet v N) (ev_move_all a b c d e f g s')"
  by (induction a arbitrary: b c d e f g s') ((simp only: ev_move_all.simps Let_def; intro calm_intros); simp)+

lemma OSTaskChangePrio_calm [calm_intros]: "quiet v N s' \<Longrightarrow> calm (quiet v N) (OSTaskChangePrio a b s')"
  unfolding OSTaskChangePrio_def Let_def by (intro calm_intros) simp_all

lemma OSTaskSuspend_calm [calm_intros]: "quiet v N s' \<Longrightarrow> calm (quiet v N) (OSTaskSuspend a s')"
  unfolding OSTaskSuspend_def Let_def by (intro calm_intros) simp_all

lemma OSTaskResume_calm [calm_intros]: "quiet v N s' \<Longrightarrow> calm (quiet v N) (OSTaskResume a s')"
  unfolding OSTaskResume_def Let_def by (intro calm_intros) simp_all

lemma OSTaskNameSet_calm [calm_intros]: "quiet v N s' \<Longrightarrow> calm (quiet v N) (OSTaskNameSet a b s')"
  unfolding OSTaskNameSet_def Let_def by (intro calm_intros) simp_all

lemma OSTaskRegSet_calm [calm_intros]: "quiet v N s' \<Longrightarrow> calm (quiet v N) (OSTaskRegSet a b c s')"
  unfolding OSTaskRegSet_def Let_def by (intro calm_intros) simp_all

section \<open>The statistics\<close>

lemma OSStatInit_calm [calm_intros]: "quiet v N s' \<Longrightarrow> stays (quiet v N) (OSStatInit s')"
  unfolding OSStatInit_def by (intro calm_intros)

lemma OSStatInit_zero_calm [calm_intros]: "quiet v N s' \<Longrightarrow> stays (quiet v N) (OSStatInit_zero s')"
  unfolding OSStatInit_zero_def by (intro calm_intros) simp

lemma stat_quiet [simp]:
  "quiet v N (OSStatInit_done s) = quiet v N s" "quiet v N (OS_TaskIdle s) = quiet v N s" "quiet v N (OS_TaskStat_go s) = quiet v N s"
  by (simp_all add: OSStatInit_done_def OS_TaskIdle_def OS_TaskStat_go_def)

lemma OS_TaskStat_wait_calm [calm_intros]: "quiet v N s' \<Longrightarrow> calm (quiet v N) (OS_TaskStat_wait s')"
  unfolding OS_TaskStat_wait_def by (intro calm_intros)

lemma OS_TaskStat_begin_calm [calm_intros]: "quiet v N s' \<Longrightarrow> stays (quiet v N) (OS_TaskStat_begin s')"
  unfolding OS_TaskStat_begin_def Let_def by (intro calm_intros) simp_all

lemma OS_TaskStat_loop_calm [calm_intros]: "quiet v N s' \<Longrightarrow> stays (quiet v N) (OS_TaskStat_loop s')"
  unfolding OS_TaskStat_loop_def by (intro calm_intros)

lemma OS_TaskStat_zero_calm [calm_intros]: "quiet v N s' \<Longrightarrow> stays (quiet v N) (OS_TaskStat_zero s')"
  unfolding OS_TaskStat_zero_def by (intro calm_intros) simp

lemma stk_chk_prio_calm [calm_intros]: "quiet v N s' \<Longrightarrow> stays (quiet v N) (stk_chk_prio a s')"
  by (auto simp: stk_chk_prio_def stays_def bind_eq_Some_conv split: if_split_asm vptr.split_asm)

lemma stk_chk_all_calm [calm_intros]: "quiet v N s' \<Longrightarrow> stays (quiet v N) (stk_chk_all a s')"
  by (induction a arbitrary: s') ((simp only: stk_chk_all.simps; intro calm_intros); simp)+

lemma OS_TaskStat_usage_calm [calm_intros]: "quiet v N s' \<Longrightarrow> stays (quiet v N) (OS_TaskStat_usage s')"
  unfolding OS_TaskStat_usage_def OS_TaskStatStkChk_def Let_def by (intro calm_intros) simp_all

end
