(* ===== verification/Os_Views.thy ===== *)
theory Os_Views
  imports Os_Quiet
begin

text \<open>
  What the calls leave alone by their text: the calls on tasks leave the timers, the calls on timers
  leave the list of tasks, and every other call leaves both.  With the invariant of the kernel, the list of
  tasks and the timers then stay well formed.
\<close>

section \<open>From one view to another\<close>

text \<open>The timers, for the calls on tasks; the links of the control blocks, for the calls on timers.\<close>

definition task_view :: "_ \<Rightarrow> nat set \<Rightarrow> kst \<Rightarrow> bool" where
  "task_view v N s \<longleftrightarrow> (timers s, OSTmrSemSignal s) = v \<and> typed N s"

definition tmr_view :: "_ \<Rightarrow> nat set \<Rightarrow> kst \<Rightarrow> bool" where
  "tmr_view v N s \<longleftrightarrow> (links s, OSTmrSemSignal s) = v \<and> typed N s"

lemma to_task_view:
  "(\<And>w. quiet w N s' \<Longrightarrow> stays (quiet w N) m) \<Longrightarrow> task_view v N s' \<Longrightarrow> stays (task_view v N) m"
  "(\<And>w. quiet w N s' \<Longrightarrow> calm (quiet w N) p) \<Longrightarrow> task_view v N s' \<Longrightarrow> calm (task_view v N) p"
  by (simp_all add: stays_def calm_def quiet_def task_view_def)

lemma to_tmr_view:
  "(\<And>w. quiet w N s' \<Longrightarrow> stays (quiet w N) m) \<Longrightarrow> tmr_view v N s' \<Longrightarrow> stays (tmr_view v N) m"
  "(\<And>w. quiet w N s' \<Longrightarrow> calm (quiet w N) p) \<Longrightarrow> tmr_view v N s' \<Longrightarrow> calm (tmr_view v N) p"
  by (simp_all add: stays_def calm_def quiet_def tmr_view_def)

section \<open>The calls on tasks and the timers\<close>

lemma task_view_calm [calm_intros]:
  "task_view v N s' \<Longrightarrow> stays (task_view v N) (rdy_add y by bx s')" "task_view v N s' \<Longrightarrow> stays (task_view v N) (rdy_del y by bx s')"
  "task_view v N s' \<Longrightarrow> stays (task_view v N) (set_prio_tbl q p s')" "task_view v N s' \<Longrightarrow> stays (task_view v N) (OS_Sched s')"
  "task_view v N s' \<Longrightarrow> stays (task_view v N) (OS_EventTaskRemove a b s')"
  "task_view v N s' \<Longrightarrow> stays (task_view v N) (OS_EventTaskRemoveMulti a ps s')"
  by (erule to_task_view(1) [rotated], intro calm_intros, assumption)+

lemma task_view_unlink [calm_intros]: "task_view v N s' \<Longrightarrow> node_in N p \<Longrightarrow> stays (task_view v N) (OS_FlagUnlink p s')"
  by (rule to_task_view(1)) (rule OS_FlagUnlink_calm)

lemma task_view_tcb [simp]:
  assumes "task_view v N s"
    "\<And>c. OSTCBEventMultiRdy (f c) = OSTCBEventMultiRdy c \<or> OSTCBEventMultiRdy (f c) = NULL"
    "\<And>c. OSTCBFlagNode (f c) = OSTCBFlagNode c \<or> OSTCBFlagNode (f c) = NULL"
  shows "task_view v N (upd_tcb t f s)"
proof -
  have "typed N (upd_tcb t f s)"
    by (rule typed_tcb) (use assms(1) assms(2,3) [of "OSTCBTbl s t"] in \<open>auto simp: task_view_def valid_ev_def\<close>)
  then show ?thesis using assms(1) by (simp add: task_view_def timers_def) (simp add: upd_tcb_def)
qed

lemma task_view_fields [simp]:
  "task_view v N (s\<lparr>OSTCBFreeList := p\<rparr>) = task_view v N s" "task_view v N (s\<lparr>OSTCBList := p\<rparr>) = task_view v N s"
  "task_view v N (s\<lparr>OSTaskCtr := n\<rparr>) = task_view v N s" "task_view v N (s\<lparr>OSLockNesting := k\<rparr>) = task_view v N s"
  "task_view v N (s\<lparr>ptr_mem := m\<rparr>) = task_view v N s" "task_view v N (set_rdy_bm b s) = task_view v N s"
  by (simp_all add: task_view_def timers_def) (simp add: set_rdy_bm_def)

lemma task_view_node: "task_view v N s \<Longrightarrow> node_in N (OSTCBFlagNode (OSTCBTbl s t))"
  by (simp add: task_view_def typed_tcb_node)

lemma task_view_if [simp]: "task_view v N (if c then s1 else s2) = (if c then task_view v N s1 else task_view v N s2)"
  by simp

lemma OSTaskStkInit_calm [calm_intros]: "task_view v N s' \<Longrightarrow> calm (task_view v N) (OSTaskStkInit a b c d e s')"
  unfolding OSTaskStkInit_def Let_def
  by (cases d; simp only: vptr.case; intro calm_intros) simp_all

lemma OS_TCBInit_calm [calm_intros]: "task_view v N s' \<Longrightarrow> calm (task_view v N) (OS_TCBInit a b c d e f g s')"
  unfolding OS_TCBInit_def Let_def by (intro calm_intros) simp_all

lemma OS_TaskStkClr_calm [calm_intros]: "task_view v N s' \<Longrightarrow> stays (task_view v N) (OS_TaskStkClr a b c s')"
  by (auto simp: OS_TaskStkClr_def stays_def split: if_splits vptr.splits)

lemma OSTaskCreateExt_calm: "task_view v N s \<Longrightarrow> calm (task_view v N) (OSTaskCreateExt a b c d e f g h i j s)"
  unfolding OSTaskCreateExt_def Let_def by (intro calm_intros) simp_all

lemma OSTaskCreate_calm: "task_view v N s \<Longrightarrow> calm (task_view v N) (OSTaskCreate a b c d e s)"
  unfolding OSTaskCreate_def Let_def by (intro calm_intros) simp_all

lemma task_out_calm [calm_intros]: "task_view v N s' \<Longrightarrow> stays (task_view v N) (task_out a s')"
  unfolding task_out_def Let_def by (intro calm_intros) (auto intro: task_view_node)

lemma tcb_unlink_calm [calm_intros]: "task_view v N s' \<Longrightarrow> stays (task_view v N) (tcb_unlink a s')"
  unfolding tcb_unlink_def Let_def by (intro calm_intros) simp_all

lemma task_retire_calm [calm_intros]: "task_view v N s' \<Longrightarrow> stays (task_view v N) (task_retire a b s')"
  unfolding task_retire_def Let_def by (intro calm_intros) simp_all

lemma OSTaskDel_calm: "task_view v N s \<Longrightarrow> calm (task_view v N) (OSTaskDel a s)"
  unfolding OSTaskDel_def self_prio_def Let_def by (intro calm_intros) simp_all

section \<open>The calls on timers and the tasks\<close>

lemma tmr_view_calm [calm_intros]:
  "tmr_view v N s' \<Longrightarrow> stays (tmr_view v N) (OSSchedUnlock s')"
  "tmr_view v N s' \<Longrightarrow> calm (tmr_view v N) (OSSemPend p t s')" "tmr_view v N s' \<Longrightarrow> calm (tmr_view v N) (OSSemPend_resume p s')"
  by (erule to_tmr_view [rotated], intro calm_intros, assumption)+

lemma tmr_view_upd [simp]:
  "tmr_view v N (upd_tmr i f s) = tmr_view v N s" "tmr_view v N (upd_spoke k g s) = tmr_view v N s"
  "tmr_view v N (s\<lparr>OSTmrTime := t\<rparr>) = tmr_view v N s" "tmr_view v N (s\<lparr>OSTmrFreeList := p\<rparr>) = tmr_view v N s"
  "tmr_view v N (s\<lparr>OSTmrUsed := n\<rparr>) = tmr_view v N s" "tmr_view v N (s\<lparr>OSTmrFree := m\<rparr>) = tmr_view v N s"
  "tmr_view v N (s\<lparr>OSLockNesting := l\<rparr>) = tmr_view v N s"
  by (simp_all add: tmr_view_def links_def) (simp_all add: upd_tmr_def upd_spoke_def)

lemma tmr_view_calls [simp]:
  "tmr_view v N (OSSchedLock s) = tmr_view v N s" "tmr_view v N (OSTmr_Free i s) = tmr_view v N s"
  by (simp_all add: OSSchedLock_def OSTmr_Free_def Let_def)

lemma tmr_view_if [simp]: "tmr_view v N (if c then s1 else s2) = (if c then tmr_view v N s1 else tmr_view v N s2)"
  by simp

lemma OSTmr_Link_calm [calm_intros]: "tmr_view v N s' \<Longrightarrow> stays (tmr_view v N) (OSTmr_Link a b s')"
  unfolding OSTmr_Link_def Let_def by (intro calm_intros) simp_all

lemma OSTmr_Unlink_calm [calm_intros]: "tmr_view v N s' \<Longrightarrow> stays (tmr_view v N) (OSTmr_Unlink a s')"
  unfolding OSTmr_Unlink_def Let_def by (intro calm_intros) simp_all

lemma OSTmr_Alloc_calm [calm_intros]: "tmr_view v N s' \<Longrightarrow> calm (tmr_view v N) (OSTmr_Alloc s')"
  unfolding OSTmr_Alloc_def Let_def by (intro calm_intros) simp_all

lemma OSTmrCreate_calm [calm_intros]: "tmr_view v N s' \<Longrightarrow> calm (tmr_view v N) (OSTmrCreate a b c d e f s')"
  unfolding OSTmrCreate_def Let_def by (intro calm_intros) simp_all

lemma OSTmrDel_calm [calm_intros]: "tmr_view v N s' \<Longrightarrow> calm (tmr_view v N) (OSTmrDel a s')"
  unfolding OSTmrDel_def Let_def by (intro calm_intros) simp_all

lemma OSTmrNameGet_calm [calm_intros]: "tmr_view v N s' \<Longrightarrow> calm (tmr_view v N) (OSTmrNameGet a b s')"
  unfolding OSTmrNameGet_def Let_def by (intro calm_intros) simp_all

lemma OSTmrRemainGet_calm [calm_intros]: "tmr_view v N s' \<Longrightarrow> calm (tmr_view v N) (OSTmrRemainGet a s')"
  unfolding OSTmrRemainGet_def Let_def by (intro calm_intros) simp_all

lemma OSTmrStateGet_calm [calm_intros]: "tmr_view v N s' \<Longrightarrow> calm (tmr_view v N) (OSTmrStateGet a s')"
  unfolding OSTmrStateGet_def Let_def by (intro calm_intros) simp_all

lemma OSTmrStart_calm [calm_intros]: "tmr_view v N s' \<Longrightarrow> calm (tmr_view v N) (OSTmrStart a s')"
  unfolding OSTmrStart_def Let_def by (intro calm_intros) simp_all

text \<open>A callback that neither creates nor deletes tasks and keeps the pointers of \<open>Os_Typed\<close> of their kind.\<close>

definition no_new_tasks :: "tmr_callback \<Rightarrow> bool" where
  "no_new_tasks cb \<longleftrightarrow> (\<forall>f t a s v N. tmr_view v N s \<longrightarrow> stays (tmr_view v N) (cb f t a s))"

lemma callback_calm: "no_new_tasks cb \<Longrightarrow> tmr_view v N s' \<Longrightarrow> stays (tmr_view v N) (cb f t a s')"
  unfolding no_new_tasks_def by blast

lemma OSTmrStop_calm: "no_new_tasks cb \<Longrightarrow> tmr_view v N s \<Longrightarrow> calm (tmr_view v N) (OSTmrStop cb a b c s)"
  unfolding OSTmrStop_def Let_def by (intro calm_intros callback_calm) simp_all

lemma tmr_loop_calm:
  assumes "no_new_tasks cb" "tmr_view v N s'"
  shows "stays (tmr_view v N) (tmr_loop cb a s')"
proof -
  have "tmr_view v N x" if "tmr_loop cb a s1 = Some x" "tmr_view v N s1" for a s1 x
    using that assms(1)
  proof (induction cb a s1 x rule: tmr_loop.raw_induct [rotated, consumes 1, case_names step])
    case (step rec cb a s1 x)
    have rec: "stays (tmr_view v N) (rec cb a s2)" if "tmr_view v N s2" for a s2
      using step(1) [OF _ that step(4)] by (fastforce simp: stays_def)
    have "stays (tmr_view v N) (Some x)"
      unfolding step(2) [symmetric] Let_def by (intro calm_intros callback_calm [OF step(4)] rec) (use step(3) in simp_all)
    then show ?case by (simp add: stays_def)
  qed
  then show ?thesis using assms(2) by (fastforce simp: stays_def)
qed

lemma OSTmr_Task_round_calm: "no_new_tasks cb \<Longrightarrow> tmr_view v N s' \<Longrightarrow> stays (tmr_view v N) (OSTmr_Task_round cb s')"
  unfolding OSTmr_Task_round_def Let_def by (intro calm_intros tmr_loop_calm) simp_all

lemma OSTmr_Task_calm: "no_new_tasks cb \<Longrightarrow> tmr_view v N s \<Longrightarrow> calm (tmr_view v N) (OSTmr_Task cb s)"
  unfolding OSTmr_Task_def Let_def by (intro calm_intros OSTmr_Task_round_calm) simp_all

lemma OSTmr_Task_resume_calm: "no_new_tasks cb \<Longrightarrow> tmr_view v N s \<Longrightarrow> stays (tmr_view v N) (OSTmr_Task_resume cb s)"
  unfolding OSTmr_Task_resume_def Let_def by (intro calm_intros OSTmr_Task_round_calm) simp_all

section \<open>The lists stay well formed\<close>

text \<open>The list of tasks and the free list follow from the links, since the invariant fixes who is in the list.\<close>

lemma tcbs_ok_links:
  assumes "tcbs_ok s" "kinv0 s'" "links s' = links s"
  shows "tcbs_ok s'"
proof -
  obtain ts fs where l: "lists_ok s ts fs" using assms(1) by (auto simp: tcbs_ok_def)
  have v: "OSTCBList s' = OSTCBList s" "OSTCBFreeList s' = OSTCBFreeList s" "OSTaskCtr s' = OSTaskCtr s"
    "tcb_next s' = tcb_next s" "tcb_prev s' = tcb_prev s"
    using assms(3) by (auto simp: links_def fun_eq_iff)
  obtain us where us: "path TCBp (tcb_next s') (OSTCBList s') us" "set us = the_tasks s'"
    using assms(2) by (auto simp: kinv0_def tasks_ok_def the_tasks_def)
  have "path TCBp (tcb_next s) (OSTCBList s) ts" using l dll_path by (auto simp: lists_ok_def)
  moreover have "path TCBp (tcb_next s) (OSTCBList s) us" using us(1) by (simp only: v)
  ultimately have "us = ts" by (rule tcb_path_unique [rotated])
  then have "the_tasks s' = the_tasks s" using us(2) l by (simp add: lists_ok_def)
  then have "lists_ok s' ts fs" using l by (simp only: lists_ok_def v)
  then show ?thesis by (auto simp: tcbs_ok_def)
qed

text \<open>The data of the components, together; the semaphore that the tick posts is an event.\<close>

definition pools_ok :: "nat set \<Rightarrow> kst \<Rightarrow> bool" where
  "pools_ok N s \<longleftrightarrow> tcbs_ok s \<and> timers_ok s \<and> ev_at (OSTmrSemSignal s) \<noteq> None \<and> typed N s"

lemma pools_okD:
  assumes "pools_ok N s"
  shows "tcbs_ok s" "timers_ok s" "ev_at (OSTmrSemSignal s) \<noteq> None" "typed N s"
  using assms by (simp_all add: pools_ok_def)

lemma pools_view:
  assumes "pools_ok N s"
  shows "quiet (links s, timers s, OSTmrSemSignal s) N s" "task_view (timers s, OSTmrSemSignal s) N s"
    "tmr_view (links s, OSTmrSemSignal s) N s"
  using assms by (simp_all add: pools_ok_def quiet_def task_view_def tmr_view_def)

lemma pools_quiet:
  assumes "pools_ok N s" "sinv s'" "quiet (links s, timers s, OSTmrSemSignal s) M s'"
  shows "pools_ok M s'"
  using assms tcbs_ok_links [of s s'] timers_ok_cong [of s' s] sinvD by (auto simp: pools_ok_def quiet_def)

lemma pools_task:
  assumes "pools_ok N s" "tcbs_ok s'" "task_view (timers s, OSTmrSemSignal s) N s'"
  shows "pools_ok N s'"
  using assms timers_ok_cong [of s' s] by (auto simp: pools_ok_def task_view_def)

lemma pools_tmr:
  assumes "pools_ok N s" "sinv s'" "timers_ok s'" "tmr_view (links s, OSTmrSemSignal s) N s'"
  shows "pools_ok N s'"
  using assms tcbs_ok_links [of s s'] sinvD by (auto simp: pools_ok_def tmr_view_def)

end
