(* ===== verification/Os_System.thy ===== *)
theory Os_System
  imports Os_Mbox Os_Q Os_Mutex Os_Time Os_Mem Os_Stat Os_Flag_Props Os_Task_Props Os_Chprio Os_Multi_Inv Os_Tmr_Calls Os_Boot Os_Views
begin

text \<open>
  The kernel under any sequence of the calls that change its state, of interrupts and of scheduler locks:
  tasks whose calls wait continue with the second part of the call when they run again.  Whatever the
  application does within the preconditions of the calls, the invariant of the whole kernel holds, no
  call has undefined behaviour, and the processor is with the most urgent ready task.

  Every call of the modelled files that returns a state is a step, except \<open>OSInit\<close> and \<open>OSStart\<close>, which are the
  start of every run, and \<open>OS_TaskReturn\<close>, which is \<open>OSTaskDel\<close> of the caller.  \<open>OSStatInit\<close> and the statistics task
  are steps in their parts between two delays, which here may come in any order.  The calls that only read
  (\<open>OSxxxQuery\<close>, \<open>OSxxxNameGet\<close> but for timers, \<open>OSTaskRegGet\<close>, \<open>OSTaskStkChk\<close>, \<open>OSTimeGet\<close>, \<open>OSFlagPendGetFlagsRdy\<close>) leave the
  state as it is and are no steps.
\<close>

section \<open>Calls as data\<close>

datatype cont =
    Sem_Wait vptr | Mbox_Wait vptr | Q_Wait vptr | Mutex_Wait vptr | Multi_Wait "vptr list" | Flag_Wait vptr "8 word"
  | FlagPost_Wait vptr | Tmr_Wait tmr_callback

text \<open>One type for the calls of each component.\<close>

datatype sem_call =
    Sem_Accept vptr | Sem_Create "16 word" | Sem_Del vptr "8 word" | Sem_Pend vptr "32 word"
  | Sem_PendAbort vptr "8 word" | Sem_Post vptr | Sem_Set vptr "16 word"
  | Multi_Pend "vptr list option" vptr vptr "32 word" | Event_NameSet vptr cname

datatype mbox_call =
    Mbox_Accept vptr | Mbox_Create vptr | Mbox_Del vptr "8 word" | Mbox_Pend vptr "32 word"
  | Mbox_PendAbort vptr "8 word" | Mbox_Post vptr vptr | Mbox_PostOpt vptr vptr "8 word"

datatype q_call =
    Q_Accept vptr | Q_Create "64 word" "16 word" | Q_Del vptr "8 word" | Q_Flush vptr | Q_Pend vptr "32 word"
  | Q_PendAbort vptr "8 word" | Q_Post vptr vptr | Q_PostFront vptr vptr | Q_PostOpt vptr vptr "8 word"

datatype mutex_call =
    Mutex_Accept vptr | Mutex_Create "8 word" | Mutex_Del vptr "8 word" | Mutex_Pend vptr "32 word" | Mutex_Post vptr

datatype flag_call =
    Flag_Accept vptr "16 word" "8 word" | Flag_Create "16 word" | Flag_Del vptr "8 word"
  | Flag_Pend vptr "16 word" "8 word" "32 word" | Flag_Post vptr "16 word" "8 word" | Flag_NameSet vptr cname

datatype mem_call =
    Mem_Create "64 word" "32 word" "32 word" | Mem_Get vptr | Mem_Put vptr vptr | Mem_NameSet vptr cname

datatype time_call =
    Time_Dly "32 word" | Time_DlyHMSM "8 word" "8 word" "8 word" "16 word" | Time_DlyResume "8 word" | Time_Set "32 word"
  | Tmr_Signal

datatype task_call =
    Task_Create vptr vptr vptr vptr "8 word"
  | Task_CreateExt vptr vptr vptr vptr "8 word" "16 word" vptr "32 word" vptr "16 word" | Task_Del "8 word"
  | Task_DelReq "8 word" | Task_ChangePrio "8 word" "8 word" | Task_Suspend "8 word" | Task_Resume "8 word"
  | Task_NameSet "8 word" cname | Task_RegGetID | Task_RegSet "8 word" "8 word" "32 word"

datatype tmr_call =
    Tmr_Create "32 word" "32 word" "8 word" vptr vptr cname | Tmr_Del vptr | Tmr_NameGet vptr vptr | Tmr_RemainGet vptr | Tmr_StateGet vptr
  | Tmr_Start vptr | Tmr_Stop tmr_callback vptr "8 word" vptr | Tmr_Task tmr_callback

text \<open>The parts of \<open>OSStatInit\<close>, a turn of the idle task, and the parts of the statistics task.\<close>

datatype stat_call =
    Stat_Init | Stat_Init_zero | Stat_Init_done | Idle_Turn | Stat_Wait | Stat_Begin | Stat_Go | Stat_Loop | Stat_Zero | Stat_Usage

datatype kcall =
    Sem sem_call | Mbox mbox_call | Q q_call | Mutex mutex_call | Flag flag_call | Mem mem_call | Time time_call
  | Task task_call | Tmr tmr_call | Stat stat_call

text \<open>The result of a call is what the task has still to do: nothing, or the second part of the call.\<close>

definition plain :: "('r \<times> kst) option \<Rightarrow> (cont option \<times> kst) option" where
  "plain m = map_option (\<lambda>(r, s). (None, s)) m"

definition waits :: "cont \<Rightarrow> ('r pend \<times> kst) option \<Rightarrow> (cont option \<times> kst) option" where
  "waits k m = map_option (\<lambda>(r, s). (case r of Waiting \<Rightarrow> Some k | Returned _ \<Rightarrow> None, s)) m"

primrec sem_exec :: "sem_call \<Rightarrow> kst \<Rightarrow> (cont option \<times> kst) option" where
  "sem_exec (Sem_Accept p) s = plain (OSSemAccept p s)"
| "sem_exec (Sem_Create n) s = plain (OSSemCreate n s)"
| "sem_exec (Sem_Del p opt) s = plain (OSSemDel p opt s)"
| "sem_exec (Sem_Pend p t) s = waits (Sem_Wait p) (OSSemPend p t s)"
| "sem_exec (Sem_PendAbort p opt) s = plain (OSSemPendAbort p opt s)"
| "sem_exec (Sem_Post p) s = plain (OSSemPost p s)"
| "sem_exec (Sem_Set p n) s = plain (OSSemSet p n s)"
| "sem_exec (Multi_Pend vs a b t) s = waits (Multi_Wait (case vs of None \<Rightarrow> [] | Some vs \<Rightarrow> vs)) (OSEventPendMulti vs a b t s)"
| "sem_exec (Event_NameSet p nm) s = plain (OSEventNameSet p nm s)"

primrec mbox_exec :: "mbox_call \<Rightarrow> kst \<Rightarrow> (cont option \<times> kst) option" where
  "mbox_exec (Mbox_Accept p) s = plain (OSMboxAccept p s)"
| "mbox_exec (Mbox_Create m) s = plain (OSMboxCreate m s)"
| "mbox_exec (Mbox_Del p opt) s = plain (OSMboxDel p opt s)"
| "mbox_exec (Mbox_Pend p t) s = waits (Mbox_Wait p) (OSMboxPend p t s)"
| "mbox_exec (Mbox_PendAbort p opt) s = plain (OSMboxPendAbort p opt s)"
| "mbox_exec (Mbox_Post p m) s = plain (OSMboxPost p m s)"
| "mbox_exec (Mbox_PostOpt p m opt) s = plain (OSMboxPostOpt p m opt s)"

primrec q_exec :: "q_call \<Rightarrow> kst \<Rightarrow> (cont option \<times> kst) option" where
  "q_exec (Q_Accept p) s = plain (OSQAccept p s)"
| "q_exec (Q_Create a n) s = plain (OSQCreate a n s)"
| "q_exec (Q_Del p opt) s = plain (OSQDel p opt s)"
| "q_exec (Q_Flush p) s = plain (OSQFlush p s)"
| "q_exec (Q_Pend p t) s = waits (Q_Wait p) (OSQPend p t s)"
| "q_exec (Q_PendAbort p opt) s = plain (OSQPendAbort p opt s)"
| "q_exec (Q_Post p m) s = plain (OSQPost p m s)"
| "q_exec (Q_PostFront p m) s = plain (OSQPostFront p m s)"
| "q_exec (Q_PostOpt p m opt) s = plain (OSQPostOpt p m opt s)"

primrec mutex_exec :: "mutex_call \<Rightarrow> kst \<Rightarrow> (cont option \<times> kst) option" where
  "mutex_exec (Mutex_Accept p) s = plain (OSMutexAccept p s)"
| "mutex_exec (Mutex_Create prio) s = plain (OSMutexCreate prio s)"
| "mutex_exec (Mutex_Del p opt) s = plain (OSMutexDel p opt s)"
| "mutex_exec (Mutex_Pend p t) s = waits (Mutex_Wait p) (OSMutexPend p t s)"
| "mutex_exec (Mutex_Post p) s = plain (OSMutexPost p s)"

primrec flag_exec :: "flag_call \<Rightarrow> kst \<Rightarrow> (cont option \<times> kst) option" where
  "flag_exec (Flag_Accept p fl wt) s = plain (OSFlagAccept p fl wt s)"
| "flag_exec (Flag_Create fl) s = plain (OSFlagCreate fl s)"
| "flag_exec (Flag_Del p opt) s = plain (OSFlagDel p opt s)"
| "flag_exec (Flag_Pend p fl wt t) s = waits (Flag_Wait p wt) (OSFlagPend p fl wt t s)"
| "flag_exec (Flag_Post p fl opt) s = waits (FlagPost_Wait p) (OSFlagPost p fl opt s)"
| "flag_exec (Flag_NameSet p nm) s = plain (OSFlagNameSet p nm s)"

primrec mem_exec :: "mem_call \<Rightarrow> kst \<Rightarrow> (cont option \<times> kst) option" where
  "mem_exec (Mem_Create a n sz) s = plain (OSMemCreate a n sz s)"
| "mem_exec (Mem_Get p) s = plain (OSMemGet p s)"
| "mem_exec (Mem_Put p b) s = plain (OSMemPut p b s)"
| "mem_exec (Mem_NameSet p nm) s = plain (OSMemNameSet p nm s)"

primrec time_exec :: "time_call \<Rightarrow> kst \<Rightarrow> (cont option \<times> kst) option" where
  "time_exec (Time_Dly n) s = plain (map_option (Pair ()) (OSTimeDly n s))"
| "time_exec (Time_DlyHMSM h m sec ms) s = plain (OSTimeDlyHMSM h m sec ms s)"
| "time_exec (Time_DlyResume prio) s = plain (OSTimeDlyResume prio s)"
| "time_exec (Time_Set n) s = plain (Some ((), OSTimeSet n s))"
| "time_exec Tmr_Signal s = plain (OSTmrSignal s)"

primrec task_exec :: "task_call \<Rightarrow> kst \<Rightarrow> (cont option \<times> kst) option" where
  "task_exec (Task_Create ret pfn arg ptos prio) s = plain (OSTaskCreate ret pfn arg ptos prio s)"
| "task_exec (Task_CreateExt ret pfn arg ptos prio idn pbos sz pext opt) s = plain (OSTaskCreateExt ret pfn arg ptos prio idn pbos sz pext opt s)"
| "task_exec (Task_Del prio) s = plain (OSTaskDel prio s)"
| "task_exec (Task_DelReq prio) s = plain (OSTaskDelReq prio s)"
| "task_exec (Task_ChangePrio old new) s = plain (OSTaskChangePrio old new s)"
| "task_exec (Task_Suspend prio) s = plain (OSTaskSuspend prio s)"
| "task_exec (Task_Resume prio) s = plain (OSTaskResume prio s)"
| "task_exec (Task_NameSet prio nm) s = plain (OSTaskNameSet prio nm s)"
| "task_exec Task_RegGetID s = plain (Some (OSTaskRegGetID s))"
| "task_exec (Task_RegSet prio i v) s = plain (OSTaskRegSet prio i v s)"

primrec tmr_exec :: "tmr_call \<Rightarrow> kst \<Rightarrow> (cont option \<times> kst) option" where
  "tmr_exec (Tmr_Create d p opt f a nm) s = plain (OSTmrCreate d p opt f a nm s)"
| "tmr_exec (Tmr_Del p) s = plain (OSTmrDel p s)"
| "tmr_exec (Tmr_NameGet p pdest) s = plain (OSTmrNameGet p pdest s)"
| "tmr_exec (Tmr_RemainGet p) s = plain (OSTmrRemainGet p s)"
| "tmr_exec (Tmr_StateGet p) s = plain (OSTmrStateGet p s)"
| "tmr_exec (Tmr_Start p) s = plain (OSTmrStart p s)"
| "tmr_exec (Tmr_Stop cb p opt a) s = plain (OSTmrStop cb p opt a s)"
| "tmr_exec (Tmr_Task cb) s = waits (Tmr_Wait cb) (OSTmr_Task cb s)"

primrec stat_exec :: "stat_call \<Rightarrow> kst \<Rightarrow> (cont option \<times> kst) option" where
  "stat_exec Stat_Init s = plain (map_option (Pair ()) (OSStatInit s))"
| "stat_exec Stat_Init_zero s = plain (map_option (Pair ()) (OSStatInit_zero s))"
| "stat_exec Stat_Init_done s = plain (Some ((), OSStatInit_done s))"
| "stat_exec Idle_Turn s = plain (Some ((), OS_TaskIdle s))"
| "stat_exec Stat_Wait s = plain (OS_TaskStat_wait s)"
| "stat_exec Stat_Begin s = plain (map_option (Pair ()) (OS_TaskStat_begin s))"
| "stat_exec Stat_Go s = plain (Some ((), OS_TaskStat_go s))"
| "stat_exec Stat_Loop s = plain (map_option (Pair ()) (OS_TaskStat_loop s))"
| "stat_exec Stat_Zero s = plain (map_option (Pair ()) (OS_TaskStat_zero s))"
| "stat_exec Stat_Usage s = plain (map_option (Pair ()) (OS_TaskStat_usage s))"

primrec exec :: "kcall \<Rightarrow> kst \<Rightarrow> (cont option \<times> kst) option" where
  "exec (Sem c) s = sem_exec c s"
| "exec (Mbox c) s = mbox_exec c s"
| "exec (Q c) s = q_exec c s"
| "exec (Mutex c) s = mutex_exec c s"
| "exec (Flag c) s = flag_exec c s"
| "exec (Mem c) s = mem_exec c s"
| "exec (Time c) s = time_exec c s"
| "exec (Task c) s = task_exec c s"
| "exec (Tmr c) s = tmr_exec c s"
| "exec (Stat c) s = stat_exec c s"

text \<open>A post that asks for no scheduling may leave a more urgent task waiting for the processor.\<close>

definition defers :: "kcall \<Rightarrow> bool" where
  "defers c \<longleftrightarrow> (case c of Mbox (Mbox_PostOpt p m opt) \<Rightarrow> opt AND OS_POST_OPT_NO_SCHED \<noteq> 0
     | Q (Q_PostOpt p m opt) \<Rightarrow> opt AND OS_POST_OPT_NO_SCHED \<noteq> 0 | _ \<Rightarrow> False)"

section \<open>What the kernel asks of the application\<close>

text \<open>
  The preconditions of the calls.  Pointers are null or point to the kernel's own objects, the idle task
  does not wait, memory and stacks are memory, and names end.  The conditions that speak of the state are
  those of the theories of the components: on mutexes with a ceiling, tasks and partitions, which the
  application can keep, and on flag groups, whose lists the kernel itself breaks when a group with waiting
  tasks is deleted (\<open>flag_del_loses_groups\<close> in \<open>Os_Findings\<close>).
\<close>

primrec sem_allowed :: "sem_call \<Rightarrow> kst \<Rightarrow> bool" where
  "sem_allowed (Sem_Accept p) s = valid_ev p"
| "sem_allowed (Sem_Create n) s = True"
| "sem_allowed (Sem_Del p opt) s = valid_ev p"
| "sem_allowed (Sem_Pend p t) s = (valid_ev p \<and> may_block s)"
| "sem_allowed (Sem_PendAbort p opt) s = valid_ev p"
| "sem_allowed (Sem_Post p) s = valid_ev p"
| "sem_allowed (Sem_Set p n) s = valid_ev p"
| "sem_allowed (Multi_Pend vs a b t) s = (may_block s \<and> multi_arg vs)"
| "sem_allowed (Event_NameSet p nm) s = valid_ev p"

primrec mbox_allowed :: "mbox_call \<Rightarrow> kst \<Rightarrow> bool" where
  "mbox_allowed (Mbox_Accept p) s = valid_ev p"
| "mbox_allowed (Mbox_Create m) s = True"
| "mbox_allowed (Mbox_Del p opt) s = valid_ev p"
| "mbox_allowed (Mbox_Pend p t) s = (valid_ev p \<and> may_block s)"
| "mbox_allowed (Mbox_PendAbort p opt) s = valid_ev p"
| "mbox_allowed (Mbox_Post p m) s = valid_ev p"
| "mbox_allowed (Mbox_PostOpt p m opt) s = valid_ev p"

primrec q_allowed :: "q_call \<Rightarrow> kst \<Rightarrow> bool" where
  "q_allowed (Q_Accept p) s = valid_ev p"
| "q_allowed (Q_Create a n) s = valid_buffer a n"
| "q_allowed (Q_Del p opt) s = valid_ev p"
| "q_allowed (Q_Flush p) s = valid_ev p"
| "q_allowed (Q_Pend p t) s = (valid_ev p \<and> may_block s)"
| "q_allowed (Q_PendAbort p opt) s = valid_ev p"
| "q_allowed (Q_Post p m) s = valid_ev p"
| "q_allowed (Q_PostFront p m) s = valid_ev p"
| "q_allowed (Q_PostOpt p m opt) s = valid_ev p"

primrec mutex_allowed :: "mutex_call \<Rightarrow> kst \<Rightarrow> bool" where
  "mutex_allowed (Mutex_Accept p) s = valid_ev p"
| "mutex_allowed (Mutex_Create prio) s = True"
| "mutex_allowed (Mutex_Del p opt) s = (valid_ev p \<and> Os_Mutex.may_delete p opt s \<and> keeps_cpu p s)"
| "mutex_allowed (Mutex_Pend p t) s = (valid_ev p \<and> may_block s \<and> may_raise p s)"
| "mutex_allowed (Mutex_Post p) s = (valid_ev p \<and> may_release p s \<and> keeps_cpu p s)"

primrec flag_allowed :: "flag_call \<Rightarrow> kst \<Rightarrow> bool" where
  "flag_allowed (Flag_Accept p fl wt) s = flag_arg p s"
| "flag_allowed (Flag_Create fl) s = (OSFlagFreeList s = NULL \<or> (\<exists>g<OS_MAX_FLAGS. OSFlagFreeList s = FGp g))"
| "flag_allowed (Flag_Del p opt) s = flag_arg p s"
| "flag_allowed (Flag_Pend p fl wt t) s = (flag_arg p s \<and> may_block s
     \<and> (\<forall>g ns. p = FGp g \<longrightarrow> flag_list s g ns \<longrightarrow> cur_ix s \<notin> set ns))"
| "flag_allowed (Flag_Post p fl opt) s = flag_arg p s"
| "flag_allowed (Flag_NameSet p nm) s = (p = NULL \<or> fg_at p \<noteq> None)"

primrec mem_allowed :: "mem_call \<Rightarrow> kst \<Rightarrow> bool" where
  "mem_allowed (Mem_Create a n sz) s = mem_arg a n sz"
| "mem_allowed (Mem_Get p) s = (p = NULL \<or> (\<exists>i. p = MEMp i \<and> part_ok i s))"
| "mem_allowed (Mem_Put p b) s = (b = NULL \<or> (\<exists>i. p = MEMp i \<and> part_ok i s \<and> b \<in> mem_blocks i s \<and> b \<notin> set (mem_free i s)))"
| "mem_allowed (Mem_NameSet p nm) s = (p = NULL \<or> mem_at p \<noteq> None)"

primrec time_allowed :: "time_call \<Rightarrow> kst \<Rightarrow> bool" where
  "time_allowed (Time_Dly n) s = may_block s"
| "time_allowed (Time_DlyHMSM h m sec ms) s = may_block s"
| "time_allowed (Time_DlyResume prio) s = True"
| "time_allowed (Time_Set n) s = True"
| "time_allowed Tmr_Signal s = True"

primrec task_allowed :: "task_call \<Rightarrow> kst \<Rightarrow> bool" where
  "task_allowed (Task_Create ret pfn arg ptos prio) s = stack_arg ptos NULL 0 0"
| "task_allowed (Task_CreateExt ret pfn arg ptos prio idn pbos sz pext opt) s = stack_arg ptos pbos sz opt"
| "task_allowed (Task_Del prio) s = deletable_task (the_prio prio s) s"
| "task_allowed (Task_DelReq prio) s = True"
| "task_allowed (Task_ChangePrio old new) s =
     ((\<forall>t. OSTCBPrioTbl s (unat (the_prio old s)) = TCBp t \<longrightarrow> may_change t (unat (the_prio old s)) s)
     \<and> (the_prio old s = OSPrioCur s \<longrightarrow> OSIntNesting s = 0 \<and> OSLockNesting s = 0))"
| "task_allowed (Task_Suspend prio) s = (may_block s \<and> own_entry (the_prio prio s) s)"
| "task_allowed (Task_Resume prio) s = True"
| "task_allowed (Task_NameSet prio nm) s = True"
| "task_allowed Task_RegGetID s = True"
| "task_allowed (Task_RegSet prio i v) s = (prio < OS_LOWEST_PRIO \<longrightarrow> (\<exists>t. OSTCBPrioTbl s (unat prio) = TCBp t))"

text \<open>The callbacks of the timers: they end, keep the invariant, and use neither timers nor the list of tasks.\<close>

definition callback_arg :: "tmr_callback \<Rightarrow> bool" where
  "callback_arg cb \<longleftrightarrow> (\<exists>h. callback_ok cb h) \<and> no_new_tasks cb"

primrec tmr_allowed :: "tmr_call \<Rightarrow> kst \<Rightarrow> bool" where
  "tmr_allowed (Tmr_Create d p opt f a nm) s = True"
| "tmr_allowed (Tmr_Del p) s = valid_tmr p"
| "tmr_allowed (Tmr_NameGet p pdest) s = (valid_tmr p \<and> name_ends p s)"
| "tmr_allowed (Tmr_RemainGet p) s = valid_tmr p"
| "tmr_allowed (Tmr_StateGet p) s = valid_tmr p"
| "tmr_allowed (Tmr_Start p) s = valid_tmr p"
| "tmr_allowed (Tmr_Stop cb p opt a) s = (valid_tmr p \<and> callback_arg cb)"
| "tmr_allowed (Tmr_Task cb) s = (may_block s \<and> OSIntNesting s = 0 \<and> callback_arg cb)"

primrec stat_allowed :: "stat_call \<Rightarrow> kst \<Rightarrow> bool" where
  "stat_allowed Stat_Init s = may_block s"
| "stat_allowed Stat_Init_zero s = may_block s"
| "stat_allowed Stat_Init_done s = True"
| "stat_allowed Idle_Turn s = True"
| "stat_allowed Stat_Wait s = may_block s"
| "stat_allowed Stat_Begin s = (may_block s \<and> own_entry (the_prio OS_PRIO_SELF s) s)"
| "stat_allowed Stat_Go s = True"
| "stat_allowed Stat_Loop s = may_block s"
| "stat_allowed Stat_Zero s = may_block s"
| "stat_allowed Stat_Usage s = (stks_ok s \<and> OSIdleCtrMax s \<noteq> 0)"

primrec allowed :: "kcall \<Rightarrow> kst \<Rightarrow> bool" where
  "allowed (Sem c) s = sem_allowed c s"
| "allowed (Mbox c) s = mbox_allowed c s"
| "allowed (Q c) s = q_allowed c s"
| "allowed (Mutex c) s = mutex_allowed c s"
| "allowed (Flag c) s = flag_allowed c s"
| "allowed (Mem c) s = mem_allowed c s"
| "allowed (Time c) s = time_allowed c s"
| "allowed (Task c) s = task_allowed c s"
| "allowed (Tmr c) s = tmr_allowed c s"
| "allowed (Stat c) s = stat_allowed c s"

section \<open>Every allowed call keeps the contract\<close>

text \<open>The pointers that the second part of a call will use are valid.\<close>

primrec cont_ok :: "cont \<Rightarrow> bool" where
  "cont_ok (Sem_Wait p) = (ev_at p \<noteq> None)"
| "cont_ok (Mbox_Wait p) = (ev_at p \<noteq> None)"
| "cont_ok (Q_Wait p) = (ev_at p \<noteq> None)"
| "cont_ok (Mutex_Wait p) = (ev_at p \<noteq> None)"
| "cont_ok (Multi_Wait vs) = (\<exists>es. vs = map EVp es \<and> (\<forall>e\<in>set es. e < OS_MAX_EVENTS))"
| "cont_ok (Flag_Wait p wt) = (fg_at p \<noteq> None)"
| "cont_ok (FlagPost_Wait p) = (fg_at p \<noteq> None)"
| "cont_ok (Tmr_Wait cb) = callback_arg cb"

text \<open>What a call keeps: with \<open>b\<close>, not that the most urgent task runs.\<close>

definition keeps :: "bool \<Rightarrow> (cont option \<times> kst) option \<Rightarrow> kst \<Rightarrow> bool" where
  "keeps b m s \<longleftrightarrow> ok m (\<lambda>(k, s'). sinv s' \<and> ctl s' = ctl s \<and> (settled s \<and> \<not> b \<longrightarrow> settled s')
     \<and> (\<forall>k'. k = Some k' \<longrightarrow> cont_ok k'))"

lemma sched_call_kept:
  assumes "sched_call pre run" "pre s" "sinv s"
  shows "ok (run s) (\<lambda>(r, s'). kept s s')"
proof -
  obtain r s' where 1: "run s = Some (r, s')" "sinv s'" "ctl s' = ctl s"
    using kernel_call.total [OF sched_call.axioms(1) [OF assms(1)] assms(3,2)] by (auto simp: ok_iff)
  then show ?thesis using sched_call.keeps_settled [OF assms(1,3) _ assms(2) 1(1)] by simp
qed

lemma plain_keeps:
  assumes "sched_call pre run" "pre s" "sinv s"
  shows "keeps b (plain (run s)) s"
  using sched_call_kept [OF assms] by (auto simp: keeps_def plain_def ok_iff)

lemma waits_keeps:
  assumes "sched_call pre run" "pre s" "sinv s" "\<And>s'. run s = Some (Waiting, s') \<Longrightarrow> cont_ok k"
  shows "keeps b (waits k (run s)) s"
proof -
  obtain r s' where 1: "run s = Some (r, s')" "kept s s'" using sched_call_kept [OF assms(1-3)] by (auto simp: ok_iff)
  then show ?thesis using assms(4) by (cases r) (simp_all add: keeps_def waits_def)
qed

lemma plain_keeps_any:
  assumes "kernel_call pre run" "pre s" "sinv s"
  shows "keeps True (plain (run s)) s"
  using kernel_call.total [OF assms(1,3,2)] by (auto simp: keeps_def plain_def ok_iff)

text \<open>A call with a null pointer does not wait.\<close>

lemma waiting_valid:
  "OSSemPend p t s = Some (Waiting, s') \<Longrightarrow> ev_at p \<noteq> None"
  "OSMboxPend p t s = Some (Waiting, s') \<Longrightarrow> ev_at p \<noteq> None"
  "OSQPend p t s = Some (Waiting, s') \<Longrightarrow> ev_at p \<noteq> None"
  "OSMutexPend p t s = Some (Waiting, s') \<Longrightarrow> ev_at p \<noteq> None"
  by (cases "p = NULL"; auto simp: OSSemPend_def OSMboxPend_def OSQPend_def OSMutexPend_def bind_eq_Some_conv)+

lemma flag_waiting_valid:
  "OSFlagPend p fl wt t s = Some (Waiting, s') \<Longrightarrow> fg_at p \<noteq> None"
  "OSFlagPost p fl opt s = Some (Waiting, s') \<Longrightarrow> fg_at p \<noteq> None"
proof -
  show "fg_at p \<noteq> None" if "OSFlagPend p fl wt t s = Some (Waiting, s')"
    using that by (cases "fg_at p") (simp_all add: OSFlagPend_def split: if_split_asm)
  show "fg_at p \<noteq> None" if "OSFlagPost p fl opt s = Some (Waiting, s')"
    using that by (cases "fg_at p") (simp_all add: OSFlagPost_def split: if_split_asm)
qed

lemmas sem_plain =
  plain_keeps [OF SemAccept.sched_call_axioms]
  plain_keeps [OF SemCreate.sched_call_axioms]
  plain_keeps [OF SemDel.sched_call_axioms]
  plain_keeps [OF SemPendAbort.sched_call_axioms]
  plain_keeps [OF SemPost.sched_call_axioms]
  plain_keeps [OF SemSet.sched_call_axioms]
  plain_keeps [OF EventNameSet.sched_call_axioms]

lemma sem_keeps:
  assumes "sinv s" "sem_allowed c s"
  shows "keeps b (sem_exec c s) s"
proof (cases c)
  case (Sem_Pend p t)
  then show ?thesis using assms waits_keeps [OF SemPend.sched_call_axioms] waiting_valid(1) by simp
next
  case (Multi_Pend vs a b t)
  have "cont_ok (Multi_Wait (case vs of None \<Rightarrow> [] | Some vs \<Rightarrow> vs))"
    using Multi_Pend assms(2) by (auto simp: multi_arg_def split: option.split)
  then show ?thesis using Multi_Pend assms waits_keeps [OF PendMulti.sched_call_axioms] by simp
qed (use assms in \<open>simp_all add: sem_plain\<close>)

lemmas mbox_plain =
  plain_keeps [OF MboxAccept.sched_call_axioms]
  plain_keeps [OF MboxCreate.sched_call_axioms]
  plain_keeps [OF MboxDel.sched_call_axioms]
  plain_keeps [OF MboxPendAbort.sched_call_axioms]
  plain_keeps [OF MboxPost.sched_call_axioms]

lemma mbox_keeps:
  assumes "sinv s" "mbox_allowed c s"
  shows "keeps (defers (Mbox c)) (mbox_exec c s) s"
proof (cases c)
  case (Mbox_PostOpt p m opt)
  then show ?thesis using assms plain_keeps_any [OF MboxPostOpt_any.kernel_call_axioms] plain_keeps [OF MboxPostOpt.sched_call_axioms]
    by (cases "opt AND OS_POST_OPT_NO_SCHED = 0") (simp_all add: defers_def)
next
  case (Mbox_Pend p t)
  then show ?thesis using assms waits_keeps [OF MboxPend.sched_call_axioms] waiting_valid(2) by simp
qed (use assms in \<open>simp_all add: mbox_plain\<close>)

lemmas q_plain =
  plain_keeps [OF QAccept.sched_call_axioms]
  plain_keeps [OF QCreate.sched_call_axioms]
  plain_keeps [OF QDel.sched_call_axioms]
  plain_keeps [OF QFlush.sched_call_axioms]
  plain_keeps [OF QPendAbort.sched_call_axioms]
  plain_keeps [OF QPost.sched_call_axioms]
  plain_keeps [OF QPostFront.sched_call_axioms]

lemma q_keeps:
  assumes "sinv s" "q_allowed c s"
  shows "keeps (defers (Q c)) (q_exec c s) s"
proof (cases c)
  case (Q_PostOpt p m opt)
  then show ?thesis using assms plain_keeps_any [OF QPostOpt_any.kernel_call_axioms] plain_keeps [OF QPostOpt.sched_call_axioms]
    by (cases "opt AND OS_POST_OPT_NO_SCHED = 0") (simp_all add: defers_def)
next
  case (Q_Pend p t)
  then show ?thesis using assms waits_keeps [OF QPend.sched_call_axioms] waiting_valid(3) by simp
qed (use assms in \<open>simp_all add: q_plain\<close>)

lemmas mutex_plain =
  plain_keeps [OF MutexAccept.sched_call_axioms]
  plain_keeps [OF MutexCreate.sched_call_axioms]
  plain_keeps [OF MutexDel.sched_call_axioms]
  plain_keeps [OF MutexPost.sched_call_axioms]

lemma mutex_keeps:
  assumes "sinv s" "mutex_allowed c s"
  shows "keeps b (mutex_exec c s) s"
proof (cases c)
  case (Mutex_Pend p t)
  then show ?thesis using assms waits_keeps [OF MutexPend.sched_call_axioms] waiting_valid(4) by simp
qed (use assms in \<open>simp_all add: mutex_plain\<close>)

lemmas flag_plain =
  plain_keeps [OF FlagAccept.sched_call_axioms]
  plain_keeps [OF FlagCreate.sched_call_axioms]
  plain_keeps [OF FlagDel.sched_call_axioms]
  plain_keeps [OF FlagNameSet.sched_call_axioms]

lemma flag_keeps:
  assumes "sinv s" "flag_allowed c s"
  shows "keeps b (flag_exec c s) s"
proof (cases c)
  case (Flag_Pend p fl wt t)
  then show ?thesis using assms waits_keeps [OF FlagPend.sched_call_axioms] flag_waiting_valid(1) by simp
next
  case (Flag_Post p fl opt)
  then show ?thesis using assms waits_keeps [OF FlagPost.sched_call_axioms] flag_waiting_valid(2) by simp
qed (use assms in \<open>simp_all add: flag_plain\<close>)

lemmas mem_plain =
  plain_keeps [OF MemCreate.sched_call_axioms]
  plain_keeps [OF MemNameSet.sched_call_axioms]
  plain_keeps [OF MemGet.sched_call_axioms]
  plain_keeps [OF MemPut.sched_call_axioms]

lemma mem_keeps:
  assumes "sinv s" "pools_ok N s" "mem_allowed c s"
  shows "keeps b (mem_exec c s) s"
  using assms typed_mem_free [OF pools_okD(4)] by (cases c) (simp_all add: mem_plain)

lemmas time_plain =
  plain_keeps [OF TimeDly.sched_call_axioms]
  plain_keeps [OF TimeDlyHMSM.sched_call_axioms]
  plain_keeps [OF TimeDlyResume.sched_call_axioms]
  plain_keeps [OF TimeSet.sched_call_axioms]
  plain_keeps [OF TmrSignal.sched_call_axioms]

lemma time_keeps:
  assumes "sinv s" "time_allowed c s"
  shows "keeps b (time_exec c s) s"
  using assms by (cases c) (simp_all add: time_plain)

lemmas task_plain =
  plain_keeps [OF TaskCreate.sched_call_axioms]
  plain_keeps [OF TaskCreateExt.sched_call_axioms]
  plain_keeps [OF TaskDel.sched_call_axioms]
  plain_keeps [OF TaskDelReq.sched_call_axioms]
  plain_keeps [OF TaskChangePrio.sched_call_axioms]
  plain_keeps [OF TaskSuspend.sched_call_axioms]
  plain_keeps [OF TaskResume.sched_call_axioms]
  plain_keeps [OF TaskNameSet.sched_call_axioms]
  plain_keeps [OF TaskRegGetID.sched_call_axioms]
  plain_keeps [OF TaskRegSet.sched_call_axioms]

lemma task_keeps:
  assumes "sinv s" "pools_ok N s" "OSRunning s" "task_allowed c s"
  shows "keeps b (task_exec c s) s"
  using assms by (cases c) (simp_all add: task_plain pools_ok_def)

lemmas tmr_plain =
  plain_keeps [OF TmrNameGet.sched_call_axioms]
  plain_keeps [OF TmrCreate.sched_call_axioms]
  plain_keeps [OF TmrDel.sched_call_axioms]
  plain_keeps [OF TmrRemainGet.sched_call_axioms]
  plain_keeps [OF TmrStateGet.sched_call_axioms]
  plain_keeps [OF TmrStart.sched_call_axioms]
  plain_keeps [OF TmrStop.sched_call_axioms]

lemma tmr_keeps:
  assumes "sinv s" "pools_ok N s" "OSRunning s" "OSLockNesting s < 255" "tmr_allowed c s"
  shows "keeps b (tmr_exec c s) s"
proof (cases c)
  case (Tmr_Task cb)
  then show ?thesis using assms waits_keeps [OF TmrTask.sched_call_axioms] by (simp add: pools_ok_def callback_arg_def)
qed (use assms in \<open>simp_all add: tmr_plain pools_ok_def callback_arg_def\<close>)

lemmas stat_plain =
  plain_keeps [OF StatInit.sched_call_axioms]
  plain_keeps [OF StatInit_zero.sched_call_axioms]
  plain_keeps [OF StatInit_done.sched_call_axioms]
  plain_keeps [OF TaskIdle.sched_call_axioms]
  plain_keeps [OF TaskStat_wait.sched_call_axioms]
  plain_keeps [OF TaskStat_begin.sched_call_axioms]
  plain_keeps [OF TaskStat_go.sched_call_axioms]
  plain_keeps [OF TaskStat_loop.sched_call_axioms]
  plain_keeps [OF TaskStat_zero.sched_call_axioms]
  plain_keeps [OF TaskStat_usage.sched_call_axioms]

lemma stat_keeps:
  assumes "sinv s" "stat_allowed c s"
  shows "keeps b (stat_exec c s) s"
  using assms by (cases c) (simp_all add: stat_plain)

lemma exec_keeps:
  assumes "sinv s" "pools_ok N s" "OSRunning s" "OSLockNesting s < 255" "allowed c s"
  shows "keeps (defers c) (exec c s) s"
  using assms by (cases c)
    (simp_all add: sem_keeps mbox_keeps q_keeps mutex_keeps flag_keeps mem_keeps time_keeps task_keeps tmr_keeps stat_keeps)

section \<open>Every allowed call keeps the pools\<close>

text \<open>A call that waits for flags adds the node of its task; every other call leaves the nodes as they are.\<close>

definition grown :: "cont option \<Rightarrow> nat \<Rightarrow> nat set \<Rightarrow> nat set" where
  "grown k t N = (case k of Some (Flag_Wait _ _) \<Rightarrow> insert t N | _ \<Rightarrow> N)"

lemma grown_simps [simp]: "grown None t N = N" "N \<subseteq> grown k t N"
  by (auto simp: grown_def split: option.split cont.split)

text \<open>The calls that are about neither the list of tasks nor the timers leave both alone.\<close>

definition still :: "nat set \<Rightarrow> kst \<Rightarrow> (cont option \<times> kst) option \<Rightarrow> bool" where
  "still N s m \<longleftrightarrow> (\<forall>k s'. m = Some (k, s') \<longrightarrow> quiet (links s, timers s, OSTmrSemSignal s) (grown k (cur_ix s) N) s')"

abbreviation (input) now :: "kst \<Rightarrow> _" where "now s \<equiv> (links s, timers s, OSTmrSemSignal s)"

lemma still_plain: "calm (quiet (now s) N) m \<Longrightarrow> still N s (plain m)"
  by (auto simp: still_def calm_def plain_def)

lemma plain_done: "plain m = Some (k, s') \<Longrightarrow> k = None \<and> (\<exists>r. m = Some (r, s'))"
  by (auto simp: plain_def)

lemma waits_done: "waits c m = Some (k, s') \<Longrightarrow> \<exists>r. m = Some (r, s') \<and> k = (case r of Waiting \<Rightarrow> Some c | Returned _ \<Rightarrow> None)"
  by (auto simp: waits_def)

lemma still_waits: "(\<And>p wt. k \<noteq> Flag_Wait p wt) \<Longrightarrow> calm (quiet (now s) N) m \<Longrightarrow> still N s (waits k m)"
  unfolding still_def by (intro allI impI, drule waits_done) (auto simp: calm_def grown_def split: pend.split cont.split)

lemma still_flag_pend:
  assumes "quiet (now s) N s"
  shows "still N s (waits (Flag_Wait p wt) (OSFlagPend p fl wt t s))"
  unfolding still_def
proof (intro allI impI)
  fix k s'
  assume "waits (Flag_Wait p wt) (OSFlagPend p fl wt t s) = Some (k, s')"
  from waits_done [OF this] obtain r where r: "OSFlagPend p fl wt t s = Some (r, s')"
    and k: "k = (case r of Waiting \<Rightarrow> Some (Flag_Wait p wt) | Returned _ \<Rightarrow> None)" by blast
  show "quiet (now s) (grown k (cur_ix s) N) s'"
    using OSFlagPend_typed [OF assms r] by (cases r) (simp_all add: k grown_def)
qed

lemma calm_unit: "stays P m \<Longrightarrow> calm P (map_option (Pair r) m)"
  by (auto simp: stays_def calm_def)

lemmas still_intros = still_plain still_waits calm_unit calm_intros

lemma sem_still: "quiet (now s) N s \<Longrightarrow> still N s (sem_exec c s)"
  by (cases c; simp only: sem_exec.simps; intro still_intros; simp)

lemma mbox_still: "quiet (now s) N s \<Longrightarrow> still N s (mbox_exec c s)"
  by (cases c; simp only: mbox_exec.simps; intro still_intros; simp)

lemma q_still: "quiet (now s) N s \<Longrightarrow> still N s (q_exec c s)"
  by (cases c; simp only: q_exec.simps; intro still_intros; simp)

lemma mutex_still: "quiet (now s) N s \<Longrightarrow> still N s (mutex_exec c s)"
  by (cases c; simp only: mutex_exec.simps; intro still_intros; simp)

lemma flag_still: "quiet (now s) N s \<Longrightarrow> still N s (flag_exec c s)"
  by (cases c; simp only: flag_exec.simps; (rule still_flag_pend | intro still_intros); simp)

lemma mem_still: "quiet (now s) N s \<Longrightarrow> mem_allowed c s \<Longrightarrow> still N s (mem_exec c s)"
  by (cases c; simp only: mem_exec.simps; intro still_plain OSMemCreate_calm OSMemGet_calm OSMemPut_calm calm_intros; auto)

lemma time_still: "quiet (now s) N s \<Longrightarrow> still N s (time_exec c s)"
  by (cases c; simp only: time_exec.simps; intro still_intros; simp)

lemma stat_still: "quiet (now s) N s \<Longrightarrow> still N s (stat_exec c s)"
  by (cases c; simp only: stat_exec.simps; intro still_intros; simp)

lemma pools_still:
  assumes "still N s m" "m = Some (k, s')" "pools_ok N s" "sinv s'"
  shows "pools_ok (grown k (cur_ix s) N) s'"
  using assms pools_quiet [of N s s'] by (simp add: still_def)

lemma task_pools:
  assumes inv: "sinv s" "pools_ok N s" and run: "OSRunning s" and a: "task_allowed c s"
    and r: "task_exec c s = Some (k, s')" and s': "sinv s'"
  shows "pools_ok (grown k (cur_ix s) N) s'"
proof -
  note t = pools_okD [OF inv(2)] and view = pools_view [OF inv(2)]
  have created: "pools_ok (grown k (cur_ix s) N) s'" if "plain (OSTaskCreateExt ret pfn arg ptos prio idn pbos sz pext opt s) = Some (k, s')"
    "stack_arg ptos pbos sz opt" for ret pfn arg ptos prio idn pbos sz pext opt
  proof -
    from plain_done [OF that(1)]
    obtain e where e: "k = None" "OSTaskCreateExt ret pfn arg ptos prio idn pbos sz pext opt s = Some (e, s')" by blast
    have "tcbs_ok s'" using OSTaskCreateExt_tcbs [OF inv(1) t(1) run that(2), of ret pfn arg prio idn pext] e by simp
    then show ?thesis
      using OSTaskCreateExt_calm [OF view(2), of ret pfn arg ptos prio idn pbos sz pext opt] e pools_task [OF inv(2)] by (simp add: calm_def)
  qed
  show ?thesis
  proof (cases c)
    case (Task_Create ret pfn arg ptos prio)
    then show ?thesis using created a r by (simp add: OSTaskCreate_eq)
  next
    case (Task_CreateExt ret pfn arg ptos prio idn pbos sz pext opt)
    then show ?thesis using created a r by simp
  next
    case (Task_Del prio)
    then obtain e where e: "k = None" "OSTaskDel prio s = Some (e, s')" using r plain_done by fastforce
    have "tcbs_ok s'" using OSTaskDel_tcbs [OF inv(1) t(1) run, of prio] a Task_Del e by simp
    then show ?thesis using OSTaskDel_calm [OF view(2), of prio] e pools_task [OF inv(2)] by (simp add: calm_def)
  qed (rule pools_still [OF _ r inv(2) s'], simp only: task_exec.simps, intro still_intros, rule view(1))+
qed

lemma timer_call_pools:
  assumes t: "timer_call arg run" and calm: "calm (tmr_view (links s, OSTmrSemSignal s) N) (run s)" and r: "run s = Some (r, s')"
    and inv: "sinv s" "pools_ok N s" and a: "OSLockNesting s < 255" "arg s"
  shows "pools_ok N s'"
proof -
  have "ok (run s) (\<lambda>(r, s'). kept s s' \<and> timers_ok s')"
    using timer_call.keeps_timers [OF t inv(1) _ a] inv(2) by (simp add: pools_ok_def)
  then show ?thesis using pools_tmr [OF inv(2), of s'] calm r by (simp add: calm_def)
qed

lemma tmr_pools:
  assumes inv: "sinv s" "pools_ok N s" and on: "OSRunning s" "OSLockNesting s < 255" and a: "tmr_allowed c s"
    and r: "tmr_exec c s = Some (k, s')"
  shows "pools_ok (grown k (cur_ix s) N) s'"
proof -
  note view = pools_view(3) [OF inv(2)]
  have plain: "pools_ok (grown k (cur_ix s) N) s'" if "timer_call arg run" "calm (tmr_view (links s, OSTmrSemSignal s) N) (run s)"
    "arg s" "plain (run s) = Some (k, s')" for arg and run :: "kst \<Rightarrow> ('r \<times> kst) option"
    using plain_done [OF that(4)] timer_call_pools [OF that(1,2) _ inv on(2) that(3)] by auto
  show ?thesis
  proof (cases c)
    case (Tmr_Create d p opt f x nm)
    then show ?thesis using r a by (auto intro!: plain [OF TmrCreate.timer_call_axioms] calm_intros view)
  next
    case (Tmr_Del p)
    then show ?thesis using r a by (auto intro!: plain [OF TmrDel.timer_call_axioms] calm_intros view)
  next
    case (Tmr_NameGet p pdest)
    then show ?thesis using r a by (auto intro!: plain [OF TmrNameGet.timer_call_axioms] calm_intros view)
  next
    case (Tmr_RemainGet p)
    then show ?thesis using r a by (auto intro!: plain [OF TmrRemainGet.timer_call_axioms] calm_intros view)
  next
    case (Tmr_StateGet p)
    then show ?thesis using r a by (auto intro!: plain [OF TmrStateGet.timer_call_axioms] calm_intros view)
  next
    case (Tmr_Start p)
    then show ?thesis using r a by (auto intro!: plain [OF TmrStart.timer_call_axioms] calm_intros view)
  next
    case (Tmr_Stop cb p opt x)
    then have cb: "no_new_tasks cb" "\<exists>h. callback_ok cb h" "valid_tmr p" using a by (simp_all add: callback_arg_def)
    show ?thesis
      by (rule plain [OF TmrStop.timer_call_axioms OSTmrStop_calm [OF cb(1) view]]) (use Tmr_Stop cb on r in simp_all)
  next
    case (Tmr_Task cb)
    then have cb: "no_new_tasks cb" "\<exists>h. callback_ok cb h" using a by (simp_all add: callback_arg_def)
    from waits_done [of "Tmr_Wait cb" "OSTmr_Task cb s" k s'] r Tmr_Task
    obtain e where e: "k = (case e of Waiting \<Rightarrow> Some (Tmr_Wait cb) | Returned _ \<Rightarrow> None)" "OSTmr_Task cb s = Some (e, s')" by auto
    have "pools_ok N s'"
      by (rule timer_call_pools [OF TmrTask.timer_call_axioms OSTmr_Task_calm [OF cb(1) view] e(2) inv on(2)])
        (use Tmr_Task a cb on in simp)
    then show ?thesis using e(1) by (cases e) (simp_all add: grown_def)
  qed
qed

lemma exec_pools:
  assumes inv: "sinv s" "pools_ok N s" and on: "OSRunning s" "OSLockNesting s < 255" and a: "allowed c s" and r: "exec c s = Some (k, s')"
  shows "pools_ok (grown k (cur_ix s) N) s'"
proof -
  have s': "sinv s'" using exec_keeps [OF inv on a] r by (simp add: keeps_def)
  note view = pools_view(1) [OF inv(2)] and quiet = pools_still [OF _ _ inv(2) s']
  show ?thesis
    using a r task_pools [OF inv on(1) _ _ s'] tmr_pools [OF inv on]
      quiet [OF sem_still [OF view]] quiet [OF mbox_still [OF view]] quiet [OF q_still [OF view]] quiet [OF mutex_still [OF view]]
      quiet [OF flag_still [OF view]] quiet [OF mem_still [OF view]] quiet [OF time_still [OF view]] quiet [OF stat_still [OF view]]
    by (cases c) simp_all
qed

section \<open>The second part of a call\<close>

primrec resume :: "cont \<Rightarrow> kst \<Rightarrow> kst option" where
  "resume (Sem_Wait p) s = map_option snd (OSSemPend_resume p s)"
| "resume (Mbox_Wait p) s = map_option snd (OSMboxPend_resume p s)"
| "resume (Q_Wait p) s = map_option snd (OSQPend_resume p s)"
| "resume (Mutex_Wait p) s = map_option snd (OSMutexPend_resume p s)"
| "resume (Multi_Wait vs) s = map_option snd (OSEventPendMulti_resume vs s)"
| "resume (Flag_Wait p wt) s = map_option snd (OSFlagPend_resume p wt s)"
| "resume (FlagPost_Wait p) s = map_option snd (OSFlagPost_resume p s)"
| "resume (Tmr_Wait cb) s = OSTmr_Task_resume cb s"

text \<open>The node of a task that waits for flags is among the nodes.\<close>

definition noded :: "nat set \<Rightarrow> nat \<Rightarrow> cont \<Rightarrow> bool" where
  "noded N t k \<longleftrightarrow> cont_ok k \<and> (\<forall>p wt. k = Flag_Wait p wt \<longrightarrow> t \<in> N)"

lemma resumed_ok:
  assumes "sched_call pre run" "pre s" "sinv s"
  shows "ok (map_option snd (run s)) (\<lambda>s'. kept s s')"
  using sched_call_kept [OF assms] by (auto simp: ok_iff)

lemma resume_kept:
  assumes inv: "sinv s" "pools_ok N s" and on: "OSRunning s" "OSLockNesting s < 255" "OSIntNesting s = 0" and c: "noded N (cur_ix s) k"
  shows "ok (resume k s) (\<lambda>s'. kept s s')"
proof (cases k)
  case (Sem_Wait p)
  with c resumed_ok [OF SemPend_resume.sched_call_axioms _ inv(1), of p] show ?thesis by (simp add: noded_def)
next
  case (Mbox_Wait p)
  with c resumed_ok [OF MboxPend_resume.sched_call_axioms _ inv(1), of p] show ?thesis by (simp add: noded_def)
next
  case (Q_Wait p)
  with c resumed_ok [OF QPend_resume.sched_call_axioms _ inv(1), of p] show ?thesis by (simp add: noded_def)
next
  case (Mutex_Wait p)
  with c resumed_ok [OF MutexPend_resume.sched_call_axioms _ inv(1), of p] show ?thesis by (simp add: noded_def)
next
  case (Multi_Wait vs)
  with c resumed_ok [OF PendMulti_resume.sched_call_axioms _ inv(1), of vs] typed_event [OF pools_okD(4) [OF inv(2)]]
  show ?thesis by (simp add: noded_def)
next
  case (Flag_Wait p wt)
  with c resumed_ok [OF FlagPend_resume_typed.sched_call_axioms _ inv(1), of N p wt] pools_okD(4) [OF inv(2)]
  show ?thesis by (simp add: noded_def)
next
  case (FlagPost_Wait p)
  with c resumed_ok [OF FlagPost_resume.sched_call_axioms _ inv(1), of p] show ?thesis by (simp add: noded_def)
next
  case (Tmr_Wait cb)
  have "map_option snd (map_option (Pair ()) (OSTmr_Task_resume cb s)) = OSTmr_Task_resume cb s"
    by (cases "OSTmr_Task_resume cb s") simp_all
  then show ?thesis
    using Tmr_Wait c on pools_okD [OF inv(2)] resumed_ok [OF TmrTask_resume.sched_call_axioms _ inv(1), of cb]
    by (simp add: noded_def callback_arg_def)
qed

lemma resume_pools:
  assumes inv: "sinv s" "pools_ok N s" and on: "OSRunning s" "OSLockNesting s < 255" "OSIntNesting s = 0" and c: "noded N (cur_ix s) k"
    and r: "resume k s = Some s'" and s': "sinv s'"
  shows "pools_ok N s'"
proof -
  note view = pools_view [OF inv(2)]
  have quiet: "pools_ok N s'" if "calm (quiet (now s) N) m" "map_option snd m = Some s'" for m :: "('r \<times> kst) option"
    using that pools_quiet [OF inv(2) s'] by (auto simp: calm_def)
  show ?thesis
  proof (cases k)
    case (Tmr_Wait cb)
    then have cb: "no_new_tasks cb" "\<exists>h. callback_ok cb h" using c by (simp_all add: noded_def callback_arg_def)
    have "ok (map_option (Pair ()) (OSTmr_Task_resume cb s)) (\<lambda>(r, s'). kept s s' \<and> timers_ok s')"
      by (rule timer_call.keeps_timers [OF TmrTask_resume.timer_call_axioms inv(1) pools_okD(2) [OF inv(2)] on(2)])
        (use pools_okD [OF inv(2)] on cb in simp)
    then have "timers_ok s'" using Tmr_Wait r by simp
    then show ?thesis
      using Tmr_Wait r OSTmr_Task_resume_calm [OF cb(1) view(3)] pools_tmr [OF inv(2) s'] by (simp add: stays_def)
  next
    case (Flag_Wait p wt)
    then have "cur_ix s \<in> N" using c by (simp add: noded_def)
    from quiet [OF OSFlagPend_resume_calm [OF view(1) this]] r Flag_Wait show ?thesis by simp
  qed (use r in \<open>simp only: resume.simps\<close>, erule quiet [rotated], intro calm_intros, rule view(1))+
qed

section \<open>The system\<close>

text \<open>
  The kernel, and for each control block what its task has still to do in the call that it waits in; and
  whether a post that asked for no scheduling was made since the last tick or end of an interrupt.
\<close>

record sys =
  kern :: kst
  conts :: "nat \<Rightarrow> cont option"
  late :: bool

text \<open>
  A task that is deleted leaves nothing behind.  In an interrupt handler no call waits; the end of \<open>OSFlagPost\<close>
  there only reads the flags and is left out.
\<close>

definition after :: "cont option \<Rightarrow> kst \<Rightarrow> kst \<Rightarrow> (nat \<Rightarrow> cont option) \<Rightarrow> nat \<Rightarrow> cont option" where
  "after k s s' cs u = (if u \<notin> the_tasks s' then None
     else if u = cur_ix s \<and> k \<noteq> None \<and> OSIntNesting s = 0 then k else cs u)"

text \<open>
  The steps: the running task or an interrupt handler makes a call; a task that runs again ends the call
  it waited in; the tick and any other interrupt; the scheduler lock.  The lock is not taken more than
  254 times: at 255 the kernel stops counting, and an unlock more would come before its lock.
\<close>

inductive sys_step :: "sys \<Rightarrow> sys \<Rightarrow> bool" where
  call: "OSIntNesting (kern S) > 0 \<or> conts S (cur_ix (kern S)) = None \<Longrightarrow> allowed c (kern S) \<Longrightarrow> exec c (kern S) = Some (k, s')
    \<Longrightarrow> sys_step S \<lparr>kern = s', conts = after k (kern S) s' (conts S), late = (late S \<or> defers c)\<rparr>"
| again: "OSIntNesting (kern S) = 0 \<Longrightarrow> conts S (cur_ix (kern S)) = Some k \<Longrightarrow> resume k (kern S) = Some s'
    \<Longrightarrow> sys_step S (S\<lparr>kern := s', conts := (conts S)(cur_ix (kern S) := None)\<rparr>)"
| tick: "OSIntNesting (kern S) < 255 \<Longrightarrow> xPortSysTickHandler (kern S) = Some s' \<Longrightarrow> sys_step S (S\<lparr>kern := s', late := False\<rparr>)"
| enter: "sys_step S (S\<lparr>kern := OSIntEnter (kern S)\<rparr>)"
| exit: "OSIntExit (kern S) = Some s' \<Longrightarrow> sys_step S (S\<lparr>kern := s', late := False\<rparr>)"
| lock: "OSLockNesting (kern S) < 254 \<Longrightarrow> sys_step S (S\<lparr>kern := OSSchedLock (kern S)\<rparr>)"
| unlock: "OSSchedUnlock (kern S) = Some s' \<Longrightarrow> sys_step S (S\<lparr>kern := s'\<rparr>)"

inductive_cases sys_stepE: "sys_step S S'"

text \<open>The tasks that the main function of an application creates before it starts the kernel.\<close>

fun create_all :: "vptr \<Rightarrow> (vptr \<times> vptr \<times> 64 word \<times> 8 word) list \<Rightarrow> kst \<Rightarrow> kst option" where
  "create_all ret [] s = Some s"
| "create_all ret ((pfn, arg, a, prio) # xs) s = do {
     (r, s) \<leftarrow> OSTaskCreate ret pfn arg (Addr a) prio s;
     create_all ret xs s
   }"

definition app_tasks :: "(vptr \<times> vptr \<times> 64 word \<times> 8 word) list \<Rightarrow> bool" where
  "app_tasks xs \<longleftrightarrow> length xs \<le> 19 \<and> distinct (map (\<lambda>(_, _, _, prio). prio) xs)
     \<and> (\<forall>(_, _, a, prio)\<in>set xs. 256 \<le> unat a \<and> prio < OS_TASK_TMR_PRIO)"

inductive reachable :: "sys \<Rightarrow> bool" where
  boot: "image_ok im \<Longrightarrow> app_tasks xs \<Longrightarrow> OSInit im s = Some s1 \<Longrightarrow> create_all ret xs s1 = Some s2 \<Longrightarrow> OSStart s2 = Some s3
    \<Longrightarrow> reachable \<lparr>kern = s3, conts = \<lambda>_. None, late = False\<rparr>"
| further: "reachable S \<Longrightarrow> sys_step S S' \<Longrightarrow> reachable S'"

section \<open>The invariant of the system\<close>

definition sys_inv :: "nat set \<Rightarrow> sys \<Rightarrow> bool" where
  "sys_inv N S \<longleftrightarrow> sinv (kern S) \<and> pools_ok N (kern S) \<and> (\<not> late S \<longrightarrow> settled (kern S)) \<and> OSRunning (kern S)
     \<and> OSLockNesting (kern S) < 255 \<and> (\<forall>t k. conts S t = Some k \<longrightarrow> noded N t k)"

lemma sys_invD:
  assumes "sys_inv N S"
  shows "sinv (kern S)" "pools_ok N (kern S)" "\<not> late S \<Longrightarrow> settled (kern S)" "OSRunning (kern S)" "OSLockNesting (kern S) < 255"
    "conts S t = Some k \<Longrightarrow> noded N t k"
  using assms by (simp_all add: sys_inv_def)

lemma ctl_kept: "ctl s' = ctl s \<Longrightarrow> OSRunning s' = OSRunning s \<and> OSLockNesting s' = OSLockNesting s"
  by (simp add: ctl_def)

lemma running_kept:
  "OSRunning (OSIntEnter s) = OSRunning s" "OSRunning (OSSchedLock s) = OSRunning s" "OSLockNesting (OSIntEnter s) = OSLockNesting s"
  by (simp_all add: OSIntEnter_def OSSchedLock_def)

lemma lock_bound: "OSLockNesting s < 254 \<Longrightarrow> OSLockNesting (OSSchedLock s) < 255"
  by (auto simp: OSSchedLock_def word_less_nat_alt unat_plus_if')

lemma unlock_ctl:
  assumes "sinv s" "OSSchedUnlock s = Some s'"
  shows "OSRunning s' = OSRunning s" "OSLockNesting s' \<le> OSLockNesting s"
proof -
  have sched: "ctl s2 = ctl s1" if "sinv s1" "OS_Sched s1 = Some s2" for s1 s2 using OS_Sched_sinv [OF that(1)] that(2) by simp
  have "sinv (s\<lparr>OSLockNesting := n\<rparr>)" for n by (rule sinv_lock_nesting [OF assms(1)])
  then have "OSRunning s2 = OSRunning s \<and> OSLockNesting s2 = n" if "OS_Sched (s\<lparr>OSLockNesting := n\<rparr>) = Some s2" for n s2
    using sched [OF _ that] by (simp add: ctl_def)
  moreover have "n - 1 \<le> n" if "n > 0" for n :: "8 word" using that by (simp add: word_le_nat_alt unat_minus_one word_gt_0)
  ultimately show "OSRunning s' = OSRunning s" "OSLockNesting s' \<le> OSLockNesting s"
    using assms(2) by (auto simp: OSSchedUnlock_def Let_def split: if_split_asm)
qed

lemma noded_mono: "noded N t k \<Longrightarrow> N \<subseteq> M \<Longrightarrow> noded M t k"
  by (auto simp: noded_def)

lemma pools_stay:
  assumes "pools_ok N s" "sinv s'" "m = Some s'" "stays (quiet (now s) N) m"
  shows "pools_ok N s'"
  using assms pools_quiet [OF assms(1,2)] by (simp add: stays_def)

lemma sys_inv_step:
  assumes inv: "sys_inv N S" and step: "sys_step S S'"
  shows "\<exists>N. sys_inv N S'"
proof -
  note i = sys_invD [OF inv]
  note view = pools_view(1) [OF i(2)]
  from step show ?thesis
  proof cases
    case (call c k s')
    let ?M = "grown k (cur_ix (kern S)) N"
    have s': "sinv s'" "ctl s' = ctl (kern S)" "settled (kern S) \<and> \<not> defers c \<longrightarrow> settled s'" "\<forall>k'. k = Some k' \<longrightarrow> cont_ok k'"
      using exec_keeps [OF i(1,2,4,5) call(3)] call(4) by (simp_all add: keeps_def)
    have "pools_ok ?M s'" by (rule exec_pools [OF i(1,2,4,5) call(3,4)])
    moreover have "noded ?M t k'" if "after k (kern S) s' (conts S) t = Some k'" for t k'
      using that s'(4) noded_mono [OF i(6)] grown_simps(2) [of N k] by (auto simp: after_def noded_def grown_def split: if_split_asm)
    ultimately have "sys_inv ?M S'" using s' i(3-5) ctl_kept [OF s'(2)] call(1) by (simp add: sys_inv_def)
    then show ?thesis ..
  next
    case (again k s')
    have s': "kept (kern S) s'" using resume_kept [OF i(1,2,4,5) again(2) i(6) [OF again(3)]] again(4) by simp
    have "pools_ok N s'" by (rule resume_pools [OF i(1,2,4,5) again(2) i(6) [OF again(3)] again(4)]) (use s' in simp)
    then have "sys_inv N S'" using s' i again(1) ctl_kept [of s'] by (simp add: sys_inv_def)
    then show ?thesis ..
  next
    case (tick s')
    have s': "sinv s'" "settled s'" "ctl s' = ctl (kern S)" using xPortSysTickHandler_ok [OF i(1,4) tick(2)] tick(3) by simp_all
    have "pools_ok N s'" by (rule pools_stay [OF i(2) s'(1) tick(3)]) (intro calm_intros, rule view)
    then have "sys_inv N S'" using s' i tick(1) ctl_kept [of s'] by (simp add: sys_inv_def)
    then show ?thesis ..
  next
    case enter
    have s': "sinv (OSIntEnter (kern S))" "settled (kern S) \<longrightarrow> settled (OSIntEnter (kern S))" using OSIntEnter_sinv [OF i(1)] by simp_all
    have "pools_ok N (OSIntEnter (kern S))" by (rule pools_quiet [OF i(2) s'(1)]) (use view in simp)
    then have "sys_inv N S'" using s' i running_kept enter by (simp add: sys_inv_def)
    then show ?thesis ..
  next
    case (exit s')
    have s': "sinv s'" "settled s'" "ctl s' = ctl (leave_isr (kern S))" using OSIntExit_sinv [OF i(1)] exit(2) i(4) by simp_all
    have on: "OSRunning s'" "OSLockNesting s' < 255" using s'(3) i(4,5) by (simp_all add: ctl_def leave_isr_def)
    have "pools_ok N s'" by (rule pools_stay [OF i(2) s'(1) exit(2)]) (intro calm_intros, rule view)
    then have "sys_inv N S'" using s' on i exit(1) by (simp add: sys_inv_def)
    then show ?thesis ..
  next
    case lock
    have s': "sinv (OSSchedLock (kern S))" "settled (kern S) \<longrightarrow> settled (OSSchedLock (kern S))" using OSSchedLock_sinv [OF i(1)] by simp_all
    have "pools_ok N (OSSchedLock (kern S))" by (rule pools_quiet [OF i(2) s'(1)]) (use view in simp)
    then have "sys_inv N S'" using s' i running_kept lock_bound lock by (simp add: sys_inv_def)
    then show ?thesis ..
  next
    case (unlock s')
    have s': "sinv s'" "settled (kern S) \<longrightarrow> settled s'" using OSSchedUnlock_sinv [OF i(1)] unlock(2) by simp_all
    have on: "OSRunning s'" "OSLockNesting s' < 255" using unlock_ctl [OF i(1) unlock(2)] i(4,5) by simp_all
    have "pools_ok N s'" by (rule pools_stay [OF i(2) s'(1) unlock(2)]) (intro calm_intros, rule view)
    then have "sys_inv N S'" using s' on i unlock(1) by (simp add: sys_inv_def)
    then show ?thesis ..
  qed
qed

section \<open>The start\<close>

text \<open>The pointers are of their kind from the start: the tables are cleared, and the rest of \<open>OSInit\<close> keeps them.\<close>

lemma to_typed:
  "(\<And>w. quiet w N s' \<Longrightarrow> calm (quiet w N) p) \<Longrightarrow> typed N s' \<Longrightarrow> calm (typed N) p"
  by (simp add: calm_def quiet_def)

lemma typed_calm [calm_intros]:
  "typed N s' \<Longrightarrow> calm (typed N) (OSTaskNameSet prio nm s')" "typed N s' \<Longrightarrow> calm (typed N) (OSSemCreate n s')"
  "typed N s' \<Longrightarrow> calm (typed N) (OSEventNameSet p nm s')"
  by (erule to_typed [rotated], intro calm_intros, assumption)+

lemma typed_create [calm_intros]:
  "typed N s' \<Longrightarrow> calm (typed N) (OSTaskCreateExt a b c d e f g h i j s')"
  "typed N s' \<Longrightarrow> calm (typed N) (OSTaskCreate a b c d e s')"
  using OSTaskCreateExt_calm [of "(timers s', OSTmrSemSignal s')" N s' a b c d e f g h i j]
    OSTaskCreate_calm [of "(timers s', OSTmrSemSignal s')" N s' a b c d e]
  by (auto simp: calm_def task_view_def)

lemma typed_sys_task [calm_intros]: "typed N s' \<Longrightarrow> stays (typed N) (init_sys_task im f stk prio i nm s')"
  unfolding init_sys_task_def by (intro calm_intros)

lemma typed_fold_tmr: "typed N (fold (\<lambda>i. upd_tmr i (f i)) is s) = typed N s"
  by (induction "is" arbitrary: s) simp_all

lemma typed_tmr_init [calm_intros]: "typed N s' \<Longrightarrow> stays (typed N) (OSTmr_Init im s')"
  unfolding OSTmr_Init_def OSTmr_InitTask_def Let_def by (intro calm_intros) (simp_all add: typed_fold_tmr)

lemma typed_start: "typed N s' \<Longrightarrow> stays (typed N) (OSStart s')"
  by (auto simp: OSStart_def OS_SchedNew_def Let_def stays_def bind_eq_Some_conv split: if_split_asm)

lemma create_all_typed: "typed N s \<Longrightarrow> stays (typed N) (create_all ret xs s)"
proof (induction xs arbitrary: s)
  case (Cons x xs)
  obtain pfn arg a prio where x: "x = (pfn, arg, a, prio)" by (cases x)
  show ?case unfolding x create_all.simps by (intro calm_intros Cons.IH Cons.prems)
qed (simp add: stays_def)

lemma tables_typed:
  "typed {} (OS_QInit (OS_MemInit (OS_FlagInit (OS_InitEventList (OS_InitTCBList s)))))" (is "typed {} ?s")
proof -
  have "events_typed ?s" "flags_typed {} ?s"
    unfolding events_typed_def flags_typed_def grp_typed_def OS_QInit_def OS_MemInit_def OS_FlagInit_def OS_InitEventList_def
      OS_InitTCBList_def Let_def fold_tables
    by (simp_all add: kernel_defs zero_tcb_def valid_ev_def)
  moreover have "mem_pool ?s [0, 1, 2, 3, 4]"
    unfolding mem_pool_def OS_QInit_def OS_MemInit_def Let_def fold_tables by (simp add: kernel_defs)
  ultimately show ?thesis by (auto simp: typed_def)
qed

lemma init_typed: "stays (typed {}) (OSInit im s)"
  unfolding OSInit_def OS_InitTaskIdle_def OS_InitTaskStat_def Let_def by (intro calm_intros tables_typed)

lemma create_all_booting:
  assumes "booting ts fs ps s" "length xs \<le> length fs" "distinct (map (\<lambda>(_, _, _, prio). prio) xs)"
    "\<forall>(_, _, a, prio)\<in>set xs. 256 \<le> unat a \<and> prio \<le> OS_LOWEST_PRIO \<and> unat prio \<notin> ps"
  shows "ok (create_all ret xs s) (\<lambda>s'. (\<exists>ts' fs' ps'. booting ts' fs' ps' s') \<and> objects_kept s s')"
  using assms
proof (induction xs arbitrary: ts fs ps s)
  case Nil
  then show ?case by (auto simp: objects_kept_def)
next
  case (Cons x xs)
  obtain pfn arg a prio where x: "x = (pfn, arg, a, prio)" by (cases x)
  from Cons.prems(2) obtain t fs' where fs: "fs = t # fs'" by (cases fs) auto
  have p: "prio \<le> OS_LOWEST_PRIO" "unat prio \<notin> ps" "256 \<le> unat a" using Cons.prems(4) x by auto
  obtain s1 where s1: "OSTaskCreate ret pfn arg (Addr a) prio s = Some (OS_ERR_NONE, s1)"
    "booting (t # ts) fs' (insert (unat prio) ps) s1" "objects_kept s s1"
    using booting_create [OF Cons.prems(1) [unfolded fs] p, of ret pfn arg] by (auto simp: ok_iff)
  have "unat prio' \<noteq> unat prio" if "(f, g, b, prio') \<in> set xs" for f g b prio'
    using Cons.prems(3) that x by (force simp: word_unat_eq_iff)
  then have "\<forall>(_, _, a, prio')\<in>set xs. 256 \<le> unat a \<and> prio' \<le> OS_LOWEST_PRIO \<and> unat prio' \<notin> insert (unat prio) ps"
    using Cons.prems(4) by auto
  from Cons.IH [OF s1(2) _ _ this] Cons.prems(2,3) fs
  have "ok (create_all ret xs s1) (\<lambda>s'. (\<exists>ts' fs' ps'. booting ts' fs' ps' s') \<and> objects_kept s1 s')" by simp
  then show ?case using s1(1,3) objects_kept_trans by (auto simp: x ok_iff)
qed

lemma timers_free_ok:
  assumes "timers_free s"
  shows "timers_ok s"
proof -
  have "pool_ok s [0..<OS_TMR_CFG_MAX]" using assms by (auto simp: timers_free_def pool_ok_def simp del: upt_Suc)
  then show ?thesis using assms unfolding timers_ok_def timers_free_def by blast
qed

lemma boot_ok:
  assumes im: "image_ok im" and xs: "app_tasks xs"
  shows "ok (do { s \<leftarrow> OSInit im s; s \<leftarrow> create_all ret xs s; OSStart s })
    (\<lambda>s'. sinv s' \<and> pools_ok {} s' \<and> settled s' \<and> OSRunning s' \<and> OSIntNesting s' = 0 \<and> OSLockNesting s' = 0)"
proof -
  obtain s1 where s1: "OSInit im s = Some s1" "initialised s1" using OSInit_ok [OF im, of s] by (auto simp: ok_iff)
  then have b1: "booting [2, 1, 0] [3..<OS_N_TCBS] {61, 62, 63} s1" by (simp add: initialised_def)
  have "length xs \<le> length [3..<OS_N_TCBS]" "distinct (map (\<lambda>(_, _, _, prio). prio) xs)"
    "\<forall>(_, _, a, prio)\<in>set xs. 256 \<le> unat a \<and> prio \<le> OS_LOWEST_PRIO \<and> unat prio \<notin> {61, 62, 63}"
    using xs by (auto simp: app_tasks_def word_le_nat_alt word_less_nat_alt)
  from create_all_booting [OF b1 this, of ret] obtain s2 ts fs ps where s2: "create_all ret xs s1 = Some s2" "booting ts fs ps s2" "objects_kept s1 s2"
    by (auto simp: ok_iff)
  have "kinv0 s2" "\<not> OSRunning s2" "OSIntNesting s2 = 0" "OSLockNesting s2 = 0" using s2(2) by (simp_all add: booting_def)
  moreover have "oinv s2" by (rule initialised_oinv [OF s1(2) s2(3)])
  ultimately have "ok (OSStart s2) (\<lambda>s'. sinv s' \<and> settled s' \<and> OSRunning s' \<and> OSIntNesting s' = 0 \<and> OSLockNesting s' = 0)"
    using OSStart_sinv [of s2] OSStart_frame(5,6) [of s2] by (auto simp: ok_iff)
  then obtain s3 where s3: "OSStart s2 = Some s3" "sinv s3" "settled s3" "OSRunning s3" "OSIntNesting s3 = 0" "OSLockNesting s3 = 0"
    by (auto simp: ok_iff)
  note f = OSStart_frame [OF s3(1)]
  have "lists_ok s3 ts fs" using s2(2) lists_ok_cong [OF f(1)] by (simp add: booting_def)
  moreover have "timers_free s3"
    using s1(2) s2(3) f(7) timers_free_cong [of s3 s1] by (simp add: initialised_def objects_kept_def)
  moreover have "OSTmrSemSignal s3 = EVp 1" using s1(2) s2(3) f(2) by (simp add: initialised_def objects_kept_def objs_def clock_def)
  moreover have "typed {} s3"
    using init_typed [of im s] create_all_typed [of "{}" s1 ret xs] typed_start [of "{}" s2] s1(1) s2(1) s3(1) by (simp add: stays_def)
  ultimately have "pools_ok {} s3" using timers_free_ok by (auto simp: pools_ok_def tcbs_ok_def)
  then show ?thesis using s1(1) s2(1) s3 by simp
qed

lemma reachable_inv: "reachable S \<Longrightarrow> \<exists>N. sys_inv N S"
proof (induction rule: reachable.induct)
  case (boot im xs s s1 ret s2 s3)
  then have "sys_inv {} \<lparr>kern = s3, conts = \<lambda>_. None, late = False\<rparr>" using boot_ok [of im xs s ret] by (simp add: sys_inv_def)
  then show ?case ..
next
  case (further S S')
  then show ?case using sys_inv_step by blast
qed

section \<open>A run\<close>

text \<open>The start leaves the list of free partitions alone, so that an application can create one.\<close>

definition mem_list :: "vptr \<Rightarrow> kst \<Rightarrow> bool" where
  "mem_list p s \<longleftrightarrow> OSMemFreeList s = p"

lemma mem_list_upd [simp]:
  "mem_list p (upd_tcb t f s) = mem_list p s" "mem_list p (upd_ev e g s) = mem_list p s" "mem_list p (set_rdy_bm b s) = mem_list p s"
  "mem_list p (set_ev_bm e b s) = mem_list p s" "mem_list p (upd_tmr i h s) = mem_list p s"
  by (simp_all add: mem_list_def kernel_defs)

lemma mem_list_fields [simp]:
  "mem_list p (s\<lparr>OSTCBFreeList := q\<rparr>) = mem_list p s" "mem_list p (s\<lparr>OSTCBList := q\<rparr>) = mem_list p s"
  "mem_list p (s\<lparr>OSTaskCtr := n\<rparr>) = mem_list p s"
  by (simp_all add: mem_list_def)

lemma mem_list_if [simp]: "mem_list p (if c then s1 else s2) = (if c then mem_list p s1 else mem_list p s2)"
  by simp

lemma mem_list_core [calm_intros]:
  "mem_list p s' \<Longrightarrow> stays (mem_list p) (rdy_add y by bx s')" "mem_list p s' \<Longrightarrow> stays (mem_list p) (set_prio_tbl q r s')"
  "mem_list p s' \<Longrightarrow> stays (mem_list p) (OS_EventWaitListInit e s')" "mem_list p s' \<Longrightarrow> calm (mem_list p) (take_event s')"
  by (auto simp: rdy_add_def set_prio_tbl_def OS_EventWaitListInit_def take_event_def Let_def calm_def stays_def bind_eq_Some_conv mem_list_def
      kernel_defs split: if_split_asm)

lemma mem_list_sched [calm_intros]: "mem_list p s' \<Longrightarrow> stays (mem_list p) (OS_Sched s')"
  by (auto simp: OS_Sched_def OS_SchedNew_def xPortTaskSwitch_def Let_def stays_def bind_eq_Some_conv mem_list_def kernel_defs split: if_split_asm)

lemma mem_list_stack [calm_intros]:
  "mem_list p s' \<Longrightarrow> calm (mem_list p) (OSTaskStkInit a b c d e s')" "mem_list p s' \<Longrightarrow> stays (mem_list p) (OS_TaskStkClr a' b' c' s')"
  unfolding OSTaskStkInit_def Let_def
  by (cases d; simp only: vptr.case; intro calm_intros; simp add: mem_list_def)
    (auto simp: OS_TaskStkClr_def stays_def mem_list_def split: if_splits vptr.splits)

lemma mem_list_tcb [calm_intros]: "mem_list p s' \<Longrightarrow> calm (mem_list p) (OS_TCBInit a b c d e f g s')"
  unfolding OS_TCBInit_def Let_def by (intro calm_intros) simp_all

lemma mem_list_create [calm_intros]:
  "mem_list p s' \<Longrightarrow> calm (mem_list p) (OSTaskCreateExt a b c d e f g h i j s')"
  "mem_list p s' \<Longrightarrow> calm (mem_list p) (OSTaskCreate a b c d e s')"
  unfolding OSTaskCreateExt_def OSTaskCreate_def Let_def by (intro calm_intros; simp)+

lemma mem_list_names [calm_intros]:
  "mem_list p s' \<Longrightarrow> calm (mem_list p) (OSTaskNameSet prio nm s')" "mem_list p s' \<Longrightarrow> calm (mem_list p) (OSEventNameSet e nm s')"
  "mem_list p s' \<Longrightarrow> calm (mem_list p) (OSSemCreate n s')"
  unfolding OSTaskNameSet_def OSEventNameSet_def OSSemCreate_def init_event_def Let_def by (intro calm_intros; simp)+

lemma mem_list_tasks [calm_intros]: "mem_list p s' \<Longrightarrow> stays (mem_list p) (init_sys_task im f stk prio i nm s')"
  unfolding init_sys_task_def by (intro calm_intros)

lemma mem_list_tmr [calm_intros]: "mem_list p s' \<Longrightarrow> stays (mem_list p) (OSTmr_Init im s')"
  unfolding OSTmr_Init_def OSTmr_InitTask_def Let_def fold_tables by (intro calm_intros) (simp_all add: mem_list_def upd_tmr_def)

lemma init_mem_list: "stays (mem_list (MEMp 0)) (OSInit im s)"
  unfolding OSInit_def OS_InitTaskIdle_def OS_InitTaskStat_def Let_def
  by (intro calm_intros) (simp add: mem_list_def OS_QInit_def OS_MemInit_def fold_tables Let_def upd_q_def upd_mem_def)

lemma create_all_mem_list: "mem_list p s \<Longrightarrow> stays (mem_list p) (create_all ret xs s)"
proof (induction xs arbitrary: s)
  case (Cons x xs)
  obtain pfn arg a prio where x: "x = (pfn, arg, a, prio)" by (cases x)
  show ?case unfolding x create_all.simps by (intro calm_intros Cons.IH Cons.prems)
qed (simp add: stays_def)

section \<open>Property\<close>

text \<open>
  C1 (system_safe): in every state that the kernel reaches from its initialisation with the tasks of an
  application, by the calls that change its state, made by tasks and interrupt handlers within their preconditions
  (\<open>allowed\<close>), by the ends of calls that waited, and by ticks, interrupts and scheduler locks in any order, the
  invariant of the kernel holds; the control blocks of tasks are all in the list of tasks or in the free
  list, and the timers on the wheel or in their pool, as they should be; outside interrupts and locks the
  most urgent ready task runs, unless a post that asked for no scheduling came after the last tick or end of an
  interrupt; no task waits for an event that has something; and no allowed call, no end of a call
  a task waited in, no tick, no end of an interrupt and no unlock has undefined behaviour or fails to return.
\<close>

theorem system_safe:
  assumes "reachable S"
  shows "sinv (kern S) \<and> tcbs_ok (kern S) \<and> timers_ok (kern S)
    \<and> (OSIntNesting (kern S) = 0 \<and> OSLockNesting (kern S) = 0 \<and> \<not> late S \<longrightarrow> unat (OSPrioCur (kern S)) = Min (rdy (kern S)))
    \<and> (\<forall>e<OS_MAX_EVENTS. avail (kern S) e \<longrightarrow> waiters (kern S) e = {})
    \<and> (\<forall>c. allowed c (kern S) \<longrightarrow> exec c (kern S) \<noteq> None)
    \<and> (\<forall>k. OSIntNesting (kern S) = 0 \<and> conts S (cur_ix (kern S)) = Some k \<longrightarrow> resume k (kern S) \<noteq> None)
    \<and> (OSIntNesting (kern S) < 255 \<longrightarrow> xPortSysTickHandler (kern S) \<noteq> None)
    \<and> OSIntExit (kern S) \<noteq> None \<and> OSSchedUnlock (kern S) \<noteq> None"
proof -
  obtain N where "sys_inv N S" using reachable_inv [OF assms] by blast
  note i = sys_invD [OF this]
  have "exec c (kern S) \<noteq> None" if "allowed c (kern S)" for c
    using exec_keeps [OF i(1,2,4,5) that] by (auto simp: keeps_def ok_iff)
  moreover have "resume k (kern S) \<noteq> None" if "OSIntNesting (kern S) = 0" "conts S (cur_ix (kern S)) = Some k" for k
    using resume_kept [OF i(1,2,4,5) that(1) i(6) [OF that(2)]] by (auto simp: ok_iff)
  moreover have "xPortSysTickHandler (kern S) \<noteq> None" if "OSIntNesting (kern S) < 255"
    using xPortSysTickHandler_ok [OF i(1,4) that] by (auto simp: ok_iff)
  moreover have "OSIntExit (kern S) \<noteq> None" "OSSchedUnlock (kern S) \<noteq> None"
    using OSIntExit_sinv [OF i(1)] OSSchedUnlock_sinv [OF i(1)] by (simp_all only: ok_iff) blast+
  ultimately show ?thesis
    using i(1,3) pools_okD(1,2) [OF i(2)] avail_waiters [OF sinvD(4) [OF i(1)]] by (auto simp: settled_def)
qed

text \<open>
  Two tasks, of priorities 5 and 7; after the start a partition of two blocks is created, which the
  next calls may use.
\<close>

definition demo_tasks :: "(vptr \<times> vptr \<times> 64 word \<times> 8 word) list" where
  "demo_tasks = [(Addr 0x500, NULL, 0x40000, 7), (Addr 0x600, NULL, 0x50000, 5)]"


lemma system_safe_witness:
  "\<exists>S. reachable S \<and> unat (OSPrioCur (kern S)) = Min (rdy (kern S)) \<and> part_ok 0 (kern S)
    \<and> exec (Mem (Mem_Get (MEMp 0))) (kern S) \<noteq> None \<and> exec (Sem (Sem_Post (EVp 2))) (kern S) \<noteq> None"
proof -
  have xs: "app_tasks demo_tasks" by (simp add: app_tasks_def demo_tasks_def)
  obtain s1 s2 s3 where boot: "OSInit demo_image demo = Some s1" "create_all (Addr 0x100) demo_tasks s1 = Some s2" "OSStart s2 = Some s3"
    and s3: "sinv s3" "OSIntNesting s3 = 0" "OSLockNesting s3 = 0"
    using boot_ok [OF demo_image_ok xs, of demo "Addr 0x100"] by (auto simp: ok_iff bind_eq_Some_conv)
  have "OSMemFreeList s3 = MEMp 0"
    using init_mem_list [of demo_image demo] create_all_mem_list [of "MEMp 0" s1 "Addr 0x100" demo_tasks] boot OSStart_frame(2) [OF boot(3)]
    by (simp add: stays_def mem_list_def objs_def stores_def)
  moreover have reg: "region_ok 0x8000 2 16" by (simp add: region_ok_def)
  ultimately obtain s4 where s4: "OSMemCreate 0x8000 2 16 s3 = Some ((MEMp 0, OS_ERR_NONE), s4)" "kept s3 s4" "part_ok 0 s4"
    using OSMemCreate_part [OF s3(1), of 0 "0x8000" 2 16] by (auto simp: ok_iff mem_created_def)
  define S where "S = \<lparr>kern = s3, conts = \<lambda>_. None, late = False\<rparr>"
  have r: "reachable S" unfolding S_def by (rule reachable.boot [OF demo_image_ok xs boot])
  have "allowed (Mem (Mem_Create 0x8000 2 16)) (kern S)" using reg by (simp add: mem_arg_def)
  moreover have "exec (Mem (Mem_Create 0x8000 2 16)) (kern S) = Some (None, s4)" using s4(1) by (simp add: S_def plain_def)
  ultimately obtain S' where S': "sys_step S S'" "kern S' = s4" "late S' = False"
    using sys_step.call [of S "Mem (Mem_Create 0x8000 2 16)" None s4] by (force simp: S_def defers_def)
  have r': "reachable S'" by (rule reachable.further [OF r S'(1)])
  have "allowed (Mem (Mem_Get (MEMp 0))) (kern S')" "allowed (Sem (Sem_Post (EVp 2))) (kern S')" using s4(3) S'(2) by (simp_all add: valid_ev_def)
  then have "exec (Mem (Mem_Get (MEMp 0))) (kern S') \<noteq> None" "exec (Sem (Sem_Post (EVp 2))) (kern S') \<noteq> None"
    using system_safe [OF r'] by blast+
  moreover have "unat (OSPrioCur (kern S')) = Min (rdy (kern S'))"
    using system_safe [OF r'] S'(2,3) s3(2,3) s4(2) by (simp add: ctl_def)
  ultimately show ?thesis using r' s4(3) S'(2) by blast
qed

end
