(* ===== verification/Os_Findings.thy ===== *)
theory Os_Findings
  imports Os_Task_Props Os_Time_Props Os_Chprio Os_Flag_Props Os_Tmr_Props Os_Multi_Props Os_Stat
begin

text \<open>
  What goes wrong outside the preconditions of the contracts.  Each theorem is a run of calls on the
  concrete state of \<open>Os_Demo\<close>, all of which an application may make, evaluated to its end.  The
  preconditions \<open>may_raise\<close>, \<open>may_release\<close> and the like of the mutex, priority and timer calls are
  there to exclude these runs.
\<close>

declare tick_loop.simps [code] OS_EventTaskRdy_all.simps [code]

section \<open>Mutexes\<close>

text \<open>
  Task 10 waits one tick for the mutex that task 30 owns and raises it to 5; task 30 sleeps; task 10
  times out and runs: the owner is left at the ceiling with no task waiting.
\<close>

definition owner_left_raised :: "kst option" where
  "owner_left_raised = do {
     (_, s) \<leftarrow> OSMutexPend (EVp 5) 1 demo_preempted;
     s \<leftarrow> OSTimeDly 2 s;
     s \<leftarrow> xPortSysTickHandler s;
     (_, s) \<leftarrow> OSMutexPend_resume (EVp 5) s;
     Some s
   }"

text \<open>
  The owner runs again, releases the mutex and drops to 30, but \<open>OSMutexPost\<close> calls \<open>OS_Sched\<close> only when a
  task waits: the owner goes on although task 10 is ready.
\<close>

theorem mutex_post_keeps_running:
  "ok (do { s \<leftarrow> owner_left_raised; s \<leftarrow> xPortSysTickHandler s; OSMutexPost (EVp 5) s })
     (\<lambda>(err, s). err = OS_ERR_NONE \<and> OSIntNesting s = 0 \<and> OSLockNesting s = 0
        \<and> OSPrioCur s = 30 \<and> bm_highest (rdy_bm s) = 10)"
  by code_simp

text \<open>
  Task 10 deletes the mutex, for no task waits for it.  The table entry of the ceiling is cleared as if
  it were only reserved, but it is the entry of the owner: the tick that ends the sleep of the owner
  switches to the null pointer.
\<close>

theorem mutex_del_unlists_owner:
  "ok (do { s \<leftarrow> owner_left_raised; OSMutexDel (EVp 5) OS_DEL_NO_PEND s })
     (\<lambda>((_, err), s). err = OS_ERR_NONE \<and> OSTCBPrio (OSTCBTbl s 3) = 5 \<and> OSTCBPrioTbl s 5 = NULL
        \<and> Option.is_none (xPortSysTickHandler s))"
  by code_simp

text \<open>
  Task 30 waits for a mailbox with the timeout with which task 10 waits for a semaphore.  Both time out
  in the same tick; task 10 runs first and raises task 30, which is ready but still in the wait list.
  Its bit there is not moved, so it is still there after its call has returned.
\<close>

theorem mutex_raise_leaves_waiter:
  "ok (do {
       (_, s) \<leftarrow> OSMboxPend (EVp 3) 5 demo;
       s \<leftarrow> xPortSysTickHandler s;
       s \<leftarrow> xPortSysTickHandler s;
       s \<leftarrow> xPortSysTickHandler s;
       s \<leftarrow> xPortSysTickHandler s;
       s \<leftarrow> xPortSysTickHandler s;
       (_, s) \<leftarrow> OSSemPend_resume (EVp 0) s;
       (_, s) \<leftarrow> OSMutexPend (EVp 5) 0 s;
       OSMboxPend_resume (EVp 3) s })
     (\<lambda>((_, err), s). err = OS_ERR_TIMEOUT \<and> OSTCBCur s = TCBp 3 \<and> bm_list (ev_bm s 3) = [20, 30])"
  by code_simp

text \<open>
  Task 30 waits for two events with \<open>OSEventPendMulti\<close> when it is raised.  \<open>OSMutexPend\<close> moves an owner in the
  wait list of \<open>OSTCBEventPtr\<close> only, so task 30 stays in both lists under 30.  The next post finds it
  there, sets the row of 30 and the column of its new priority in the ready list, and leaving the
  interrupt switches to the null pointer in the table at 29.
\<close>

definition multi_owner_raised :: "kst option" where
  "multi_owner_raised = do {
     (_, s) \<leftarrow> OSEventPendMulti (Some [EVp 0, EVp 3]) (Addr 8) (Addr 8) 0 demo;
     let s = OSIntEnter s;
     (_, s) \<leftarrow> OSSemPost (EVp 0) s;
     s \<leftarrow> OSIntExit s;
     (_, s) \<leftarrow> OSSemPend_resume (EVp 0) s;
     (_, s) \<leftarrow> OSMutexPend (EVp 5) 0 s;
     Some s
   }"

theorem mutex_raise_misses_multi:
  "ok (do { s \<leftarrow> multi_owner_raised; OSSemPost (EVp 0) (OSIntEnter s) })
     (\<lambda>(err, s). err = OS_ERR_NONE \<and> bm_list (rdy_bm s) = [29, 63] \<and> OSTCBPrioTbl s 29 = NULL
        \<and> Option.is_none (OSIntExit s))"
  by code_simp

section \<open>Event flags\<close>

text \<open>
  Task 30 waits for a flag, task 10 deletes the group: \<open>OSFlagDel\<close> wakes task 30 and takes its node off
  the list.  When task 30 runs, \<open>OSFlagPend\<close> takes the node off again and so clears the list pointer of
  the group, which by then links the free groups: of five groups one is left.
\<close>

theorem flag_del_loses_groups:
  "ok (do {
       ((g, _), s) \<leftarrow> OSFlagCreate 0 demo;
       (_, s) \<leftarrow> OSFlagPend g 1 OS_FLAG_WAIT_SET_ANY 0 s;
       let s = OSIntEnter s;
       (_, s) \<leftarrow> OSSemPost (EVp 0) s;
       s \<leftarrow> OSIntExit s;
       (_, s) \<leftarrow> OSSemPend_resume (EVp 0) s;
       (_, s) \<leftarrow> OSFlagDel g OS_DEL_ALWAYS s;
       s \<leftarrow> OSTimeDly 5 s;
       ((_, err), s) \<leftarrow> OSFlagPend_resume g OS_FLAG_WAIT_SET_ANY s;
       ((g1, err1), s) \<leftarrow> OSFlagCreate 0 s;
       ((_, err2), s) \<leftarrow> OSFlagCreate 0 s;
       Some (err, err1, err2) })
     (\<lambda>(err, err1, err2). err = OS_ERR_PEND_ABORT \<and> err1 = OS_ERR_NONE \<and> err2 = OS_ERR_FLAG_GRP_DEPLETED)"
  by code_simp

section \<open>Tasks\<close>

text \<open>
  With the scheduler locked, task 30 gives itself the priority 40 and creates a task at 30.  \<open>OSPrioCur\<close>
  still says 30, so \<open>OSSchedUnlock\<close> sees no need to switch: the task at 40 goes on.
\<close>

theorem change_prio_locked_keeps_running:
  "ok (do {
       (err1, s) \<leftarrow> OSTaskChangePrio 30 40 (OSSchedLock demo);
       (err2, s) \<leftarrow> OSTaskCreate (Addr 0x100) (Addr 0x500) NULL (Addr 0x40000) 30 s;
       s \<leftarrow> OSSchedUnlock s;
       Some (err1, err2, s) })
     (\<lambda>(err1, err2, s). err1 = OS_ERR_NONE \<and> err2 = OS_ERR_NONE \<and> OSLockNesting s = 0
        \<and> OSTCBCur s = TCBp 3 \<and> OSTCBPrio (OSTCBTbl s 3) = 40 \<and> bm_list (rdy_bm s) = [30, 40, 63])"
  by code_simp

text \<open>The calls on task registers read the table entry of a priority that no task has.\<close>

theorem task_reg_without_task: "OSTaskRegGet 40 0 demo = None"
  by (simp add: OSTaskRegGet_def demo_PrioTbl prio_tbl_def)

text \<open>The check of \<open>OSTaskCreate\<close> lets the priority of the idle task pass, which the comment excludes.\<close>

theorem task_create_at_idle:
  "OSTaskCreate (Addr 0x100) (Addr 0x500) NULL (Addr 0x40000) OS_LOWEST_PRIO demo = Some (OS_ERR_PRIO_EXIST, demo)"
  by (simp add: OSTaskCreate_def demo_ctl demo_PrioTbl prio_tbl_def)

section \<open>Event flags\<close>

text \<open>
  The comment of \<open>OSFlagAccept\<close> says that it returns 0 when an error occurred.  With
  \<open>OS_FLAG_WAIT_SET_ALL\<close> and only one of two flags set, it returns that flag with the error.
\<close>

theorem flag_accept_partial:
  "OSFlagAccept (FGp 0) 3 OS_FLAG_WAIT_SET_ALL demo_grp = Some ((1, OS_ERR_FLAG_NOT_RDY), demo_grp)"
  by (simp add: OSFlagAccept_def flag_match_def demo_grp)

section \<open>Memory\<close>

text \<open>Blocks of 12 bytes: the second one is not aligned for the pointer that links it to the third.\<close>

theorem mem_create_unaligned: "OSMemCreate 0x4000 3 12 demo = None"
  by code_simp

section \<open>Timers\<close>

text \<open>
  Two timers are due in the same round and the callback of the first stops the second.  The timer task
  has already fetched the second, finds its match time still current, and takes it off the wheel again,
  through the null pointer to its predecessor.
\<close>

definition stop_other :: tmr_callback where
  "stop_other pfnct ptmr arg s = do { (_, s) \<leftarrow> OSTmrStop (\<lambda>_ _ _. Some) arg OS_TMR_OPT_NONE NULL s; Some s }"

definition two_timers :: "kst option" where
  "two_timers = do {
     ((p0, _), s) \<leftarrow> OSTmrCreate 1 0 OS_TMR_OPT_ONE_SHOT NULL NULL None demo;
     ((p1, _), s) \<leftarrow> OSTmrCreate 1 0 OS_TMR_OPT_ONE_SHOT (Addr 0x700) p0 None s;
     (_, s) \<leftarrow> OSTmrStart p0 s;
     (_, s) \<leftarrow> OSTmrStart p1 s;
     Some s
   }"

theorem callback_stops_next:
  "ok two_timers (\<lambda>s. Option.is_none (OSTmr_Task_round stop_other s))"
  by code_simp

section \<open>The statistics task\<close>

text \<open>
  The quotient of the idle counters is cast to a signed byte.  From 229 on, 100 less the quotient wraps
  to a positive byte, and the check for a negative percentage does not see it.
\<close>

theorem usage_above_100:
  "ok (OS_TaskStat_usage (demo\<lparr>OSIdleCtrMax := 1000, OSIdleCtr := 229000\<rparr>)) (\<lambda>s. OSCPUUsage s = 127)"
  by code_simp

text \<open>
  With a calibrated counter of 0 the task suspends itself; a task that resumes it makes it divide by 0.
\<close>

theorem usage_divides_by_zero:
  "ok (do { s \<leftarrow> OS_TaskStat_begin (demo\<lparr>OSIdleCtrMax := 99\<rparr>); Some (OS_TaskStat_usage s, s) })
     (\<lambda>(r, s). Option.is_none r \<and> bm_list (rdy_bm s) = [63])"
  by code_simp

end
