(* ===== verification/Spec2Isabelle.thy ===== *)
theory Spec2Isabelle
  imports Os_Sched Os_Sem Os_Sem_Units Os_Mbox Os_Q Os_Mutex_Props Os_Time_Props Os_Mem Os_Flag_Props Os_Task_Props Os_Tmr_Props Os_Boot Os_Multi_Props Os_Chprio Os_System Os_Stat Os_Findings
begin

text \<open>
  A verification of the uC/OS-II kernel of the Nuclei SDK.

  \<^bold>\<open>The program.\<close>  The repository is the Nuclei E603 system on chip with its SDK.  Of its own logic this
  development takes the uC/OS-II kernel under \<open>src/nuclei-sdk/OS/UCOSII\<close> (\<open>source/*.c\<close> and the port in \<open>arch\<close>),
  in the configuration of \<open>application/ucosii/demo/os_cfg.h\<close> (64 priorities, 10 event control blocks, 22 task
  control blocks, 5 flag groups, 5 partitions, 4 queues, 16 timers on 7 spokes, argument checks, names and deletion
  on), and the demo program \<open>application/ucosii/demo/main.c\<close> on top of it.  The kernel is single-processor: the
  ready list and the wait list of every event are two-level bitmaps of priorities, a table maps priorities to task
  control blocks, the scheduler runs the task of the least priority number in the ready list, services move tasks
  between the ready list and wait lists, and the tick counts the delays down.

  \<^bold>\<open>State and calls.\<close>  \<open>Os_State\<close> has the record \<open>kst\<close> of all global variables of \<open>ucos_ii.h\<close> with the control
  blocks as records, fields and machine widths as in the source; a pointer is a \<open>vptr\<close>, the kind of control block
  with its index in its table, or an address.  A C function is a HOL function of its arguments and the state with
  an \<open>option\<close> result: \<open>None\<close> is what C leaves undefined (a null or dangling pointer, an index out of its array, a
  division by zero) or a loop that does not end (\<open>partial_function (option)\<close>), so every theorem that gives a result
  is one of total correctness; the predicate \<open>ok m P\<close> of \<open>Kernel_Prelude\<close> says that \<open>m\<close> gives one and it satisfies
  \<open>P\<close>.  Error codes are values of the result.  A call that may wait is cut where the task gives up the processor:
  the first part returns \<open>Returned r\<close> or \<open>Waiting\<close>, the second part \<open>..._resume\<close> is what the task does when it runs
  again.  \<open>OSFlagPost\<close> is cut in the same way at its call of \<open>OS_Sched\<close>, after which it reads the flags anew.  The
  state between the parts is whatever other calls make of it.  Each part runs as one step: the kernel
  disables interrupts in each of its critical sections, and what it does between them touches only its own
  arguments and locals or, in the timer and scheduler calls, data that the scheduler lock protects.  An interrupt
  that arrives between the critical section of a call and its call of the scheduler is taken as coming after both.

  \<^bold>\<open>Theories.\<close>
  \<^item> \<open>Kernel_Prelude\<close>: total correctness rules, words.  \<open>Os_Bitmap\<close>: the bitmaps (\<open>OSUnMapTbl\<close>, \<open>bm_highest\<close>) as
    sets of numbers below 64.  \<open>Os_Links\<close>: doubly linked lists.  \<open>Os_Ring\<close>: the ring buffer of a queue.
  \<^item> \<open>Os_Core\<close>, \<open>Os_Event\<close>: \<open>os_core.c\<close>, the scheduler, wait lists, interrupt entry and exit, names, and the context
    switch \<open>xPortTaskSwitch\<close> of the port.  \<open>Os_Core_Inv\<close>, \<open>Os_Objects\<close>, \<open>Os_Calls\<close>, \<open>Os_Prio\<close>, \<open>Os_Frame\<close>: the invariants
    and the contracts.
  \<^item> \<open>Os_Sem\<close>, \<open>Os_Mbox\<close>, \<open>Os_Q\<close>, \<open>Os_Mutex\<close>, \<open>Os_Flag\<close>, \<open>Os_Mem\<close>, \<open>Os_Time\<close>, \<open>Os_Tmr\<close>, \<open>Os_Task\<close>, \<open>Os_Multi\<close>, \<open>Os_Init\<close>: the calls
    of \<open>os_sem.c\<close>, \<open>os_mbox.c\<close>, \<open>os_q.c\<close>, \<open>os_mutex.c\<close>, \<open>os_flag.c\<close>, \<open>os_mem.c\<close>, \<open>os_time.c\<close> with the tick, \<open>os_tmr.c\<close> with
    the timer task, \<open>os_task.c\<close> with \<open>OS_TCBInit\<close> and the stack frame of the port, \<open>OSEventPendMulti\<close>, and \<open>OSInit\<close>
    with the idle and statistics tasks.  A definition has the name of its C function; helpers stand for a part of
    one that several calls share or that a proof needs by itself.
  \<^item> \<open>..._Inv\<close>, \<open>..._Props\<close>, \<open>..._Calls\<close>, \<open>Os_Task_Del\<close>, \<open>Os_Stack\<close>, \<open>Os_Chprio\<close>, \<open>Os_Stat\<close>: invariants and properties of
    these.  \<open>Os_Boot\<close>: from \<open>OSInit\<close> to the demo program.  \<open>Os_Sem_Units\<close>: the units of a semaphore over any run.
    \<open>Os_Typed\<close>, \<open>Os_Quiet\<close>, \<open>Os_Views\<close>: what each call leaves alone by its text, among it the kinds of the
    pointers that the second parts of calls use.  \<open>Os_System\<close>: the calls that change the state, interrupts and
    locks as a step relation, and what holds in every reachable state.
    \<open>Os_Findings\<close>: runs in which the code goes wrong.  \<open>Os_Demo\<close>, \<open>Os_Demo_Runs\<close>: the concrete states on which the
    theorems are tried.

  \<^bold>\<open>What is shown.\<close>  \<open>kinv\<close> says of the scheduler's data that the bitmaps are consistent, every priority in them
  belongs to a task whose control block knows its bits, and the idle task is ready; \<open>oinv\<close> that the free lists hold
  exactly the unused control blocks, nobody waits for an object that has something, queues and mutexes are well
  formed; \<open>sinv\<close> is both; \<open>settled\<close> that outside interrupts and locks the most urgent ready task runs.
  The locales \<open>kernel_call\<close> and \<open>sched_call\<close> are the contract of a call: under its precondition it returns, keeps \<open>sinv\<close>
  and \<open>settled\<close> and gives the nesting counters back; each call is an interpretation of it.  Other locales are the
  interfaces inside the kernel: \<open>prio_set\<close> (bitmaps), \<open>fifo_buffer\<close> (ring), \<open>block_pool\<close> (partitions), \<open>block_links\<close>
  (lists), \<open>deletable\<close> (deletion of an event), \<open>timer_call\<close>.  On top of the contract each component has its functional
  behaviour: refinement of a counter, a one-place buffer, a bounded list of messages; mutual exclusion, priority
  inheritance and hand-over of mutexes; flag waits as sets of bits; delays, timers and the tick with the number of
  ticks that pass; creation and deletion of tasks; boot; and, for the whole kernel, safety of every reachable
  state and conservation of semaphore units.

  \<^bold>\<open>The whole kernel.\<close>  The steps of \<open>Os_System\<close>, after \<open>OSInit\<close>, the first tasks of an application and \<open>OSStart\<close>,
  are: every call of the modelled files that changes the state of the kernel, by the running task or an interrupt
  handler, with the creation and the names of objects, \<open>OSTimeSet\<close>, \<open>OSTmrSignal\<close>, the calls on timers, the turns of
  the timer task, the idle task and the statistics task, and the parts of \<open>OSStatInit\<close>; the end of a call
  that waited, when its task runs again; the tick; \<open>OSIntEnter\<close>, \<open>OSIntExit\<close>, \<open>OSSchedLock\<close> and \<open>OSSchedUnlock\<close>.  They come in
  any order.  No steps are the calls that only read (\<open>OSxxxQuery\<close>, the names but of timers, \<open>OSTaskRegGet\<close>,
  \<open>OSTaskStkChk\<close>, \<open>OSTimeGet\<close>, \<open>OSFlagPendGetFlagsRdy\<close>), and \<open>OS_TaskReturn\<close>, which is \<open>OSTaskDel\<close> of the caller.  After a post
  with \<open>OS_POST_OPT_NO_SCHED\<close> the most urgent ready task may have to wait for the next tick or end of an interrupt; the
  ghost variable \<open>late\<close> says so.  The scheduler lock is taken at most 254 times, as the kernel stops counting at 255.
  That an allowed call returns, and so do the end of a call that waited, the tick, \<open>OSIntExit\<close> and \<open>OSSchedUnlock\<close>, is part of the theorem.

  \<^bold>\<open>Preconditions.\<close>  Pointers that a call gets are null or control blocks of the right kind.  The idle task does not
  wait.  That the control blocks of tasks and the timers are where they should be (\<open>tcbs_ok\<close>, \<open>timers_ok\<close>) is a
  precondition of the calls on tasks and timers and part of the invariant of \<open>Os_System\<close>, so there it is no
  condition on the application.  The calls on partitions and flag groups need the free list of the partition
  (\<open>part_ok\<close>, in memory that the application owns too) and the list of waiting tasks of the group (\<open>flag_list\<close>) intact.
  The mutex and priority calls need conditions (\<open>may_raise\<close>, \<open>may_release\<close>, \<open>may_delete\<close>, \<open>keeps_cpu\<close>, \<open>may_change\<close>)
  which the code does not check; nor does it that a region given to \<open>OSMemCreate\<close> is memory, that the priority given to
  \<open>OSTaskRegSet\<close> is that of a task, that a timer's name ends, or that the statistics task has its counter calibrated and the
  stacks it measures in place.  In \<open>Os_System\<close> these are the conditions \<open>allowed\<close> on calls; the ends of calls have none.
  \<open>Os_Findings\<close> shows for most of these a run from a sound state that violates the
  condition and breaks the kernel.  Callbacks of timers end, keep the invariant and leave timers and the list of
  tasks alone.

  \<^bold>\<open>Bounds.\<close>  Priorities are below 64 by the table sizes; counts are 8, 16 and 32 bits wide and wrap as in C; there is
  no fuel: structural recursions run over lists and numbers, the other loops are partial functions that are shown
  to end (lists of control blocks have at most as many members as their table).

  \<^bold>\<open>Not modelled.\<close>  \<open>OS_MemClr\<close> and \<open>OS_MemCopy\<close> work on bytes and the state has none: their callers assign the
  fields.  In the port, the interrupt threshold registers, the critical nesting counter of \<open>vPortEnterCritical\<close> (the
  kernel saves and restores \<open>mstatus\<close> instead) and the assembly of the context switch, of which \<open>xPortTaskSwitch\<close>
  is the part that changes kernel data.  The hooks of the application are empty in this configuration.  Callbacks of
  timers are an argument of the calls that may run them.  The printing of the demo program.  Code that the configuration
  leaves out (\<open>OS_SAFETY_CRITICAL\<close>, trace macros, cycle counters).  The other kernels of the SDK (FreeRTOS, RT-Thread, ThreadX) are third-party code that the
  SDK bundles as alternatives; the NMSIS headers are intrinsics over inline assembly and declarations of binary
  libraries; the support code of the chip reads and writes device registers; the processor is not C.
\<close>

end
